(* ===== verification/Machine.thy ===== *)
theory Machine
  imports Main "HOL-Library.Word"
begin

text \<open>
  The prelude of the development: machine integers and byte strings as the Rust code has
  them, the outcome type of fallible code, and the lemmas on words, lists and little-endian
  encodings that every component shares.

  \<^item> \<open>u8\<close> .. \<open>u64\<close> are words; \<open>usize\<close> values that index a slice are \<open>nat\<close>.
  \<^item> Shifts are those of the release profile (Cargo.toml sets no overflow checks): the shift
    amount is taken modulo the width.
  \<^item> \<open>Ok\<close> / \<open>Err\<close> are Rust's \<open>Result\<close>; \<open>Panic\<close> is an out-of-range slice index or a failed
    assertion, so that "the decoder does not panic" is a statement about a value.
\<close>

unbundle bit_operations_syntax

type_synonym u8 = "8 word"
type_synonym u16 = "16 word"
type_synonym u32 = "32 word"
type_synonym u64 = "64 word"

named_theorems outcome_simps \<open>unfolding the outcome monad\<close>
named_theorems geometry_simps \<open>derived constants of the two page-table geometries\<close>

section \<open>Outcomes\<close>

datatype ('e, 'a) outcome = Ok 'a | Err 'e | Panic

primrec obind :: "('e, 'a) outcome \<Rightarrow> ('a \<Rightarrow> ('e, 'b) outcome) \<Rightarrow> ('e, 'b) outcome" where
  "obind (Ok x) f = f x"
| "obind (Err e) f = Err e"
| "obind Panic f = Panic"

lemma obind_eq_Ok [outcome_simps]:
  "obind m f = Ok y \<longleftrightarrow> (\<exists>x. m = Ok x \<and> f x = Ok y)"
  by (cases m) auto

lemma obind_eq_Panic [outcome_simps]:
  "obind m f = Panic \<longleftrightarrow> m = Panic \<or> (\<exists>x. m = Ok x \<and> f x = Panic)"
  by (cases m) auto

lemma obind_eq_Err [outcome_simps]:
  "obind m f = Err e \<longleftrightarrow> m = Err e \<or> (\<exists>x. m = Ok x \<and> f x = Err e)"
  by (cases m) auto

text \<open>Slicing as Rust does it: \<open>&bs[i..]\<close> and \<open>bs[i]\<close> panic out of range.\<close>

definition slice_from :: "'a list \<Rightarrow> nat \<Rightarrow> ('e, 'a list) outcome" where
  "slice_from bs i = (if i \<le> length bs then Ok (drop i bs) else Panic)"

definition index_at :: "'a list \<Rightarrow> nat \<Rightarrow> ('e, 'a) outcome" where
  "index_at bs i = (if i < length bs then Ok (bs ! i) else Panic)"

lemma slice_from_simps [simp]:
  "i \<le> length bs \<Longrightarrow> slice_from bs i = Ok (drop i bs)"
  "\<not> i \<le> length bs \<Longrightarrow> slice_from bs i = Panic"
  by (simp_all add: slice_from_def)

lemma index_at_simps [simp]:
  "i < length bs \<Longrightarrow> index_at bs i = Ok (bs ! i)"
  "\<not> i < length bs \<Longrightarrow> index_at bs i = Panic"
  by (simp_all add: index_at_def)

section \<open>First-error traversal\<close>

text \<open>A loop over a list that stops at the first element whose step fails.\<close>

primrec traverse :: "('a \<Rightarrow> 'e + 'b) \<Rightarrow> 'a list \<Rightarrow> 'e + 'b list" where
  "traverse f [] = Inr []"
| "traverse f (x # xs) =
     (case f x of
        Inl e \<Rightarrow> Inl e
      | Inr y \<Rightarrow> (case traverse f xs of Inl e \<Rightarrow> Inl e | Inr ys \<Rightarrow> Inr (y # ys)))"

lemma traverse_append:
  "traverse f (xs @ ys) =
     (case traverse f xs of
        Inl e \<Rightarrow> Inl e
      | Inr as \<Rightarrow> (case traverse f ys of Inl e \<Rightarrow> Inl e | Inr bs \<Rightarrow> Inr (as @ bs)))"
  by (induction xs) (auto split: sum.split)

lemma traverse_shared:
  assumes "xs \<noteq> []" and "\<And>x. x \<in> set xs \<Longrightarrow> f x = map_sum id (h x) r"
  shows "traverse f xs = map_sum id (\<lambda>b. map (\<lambda>x. h x b) xs) r"
  using assms
proof (induction xs)
  case (Cons x xs)
  then show ?case by (cases "xs = []"; cases r) auto
qed simp

lemma traverse_cong:
  assumes "\<And>x. x \<in> set xs \<Longrightarrow> f x = h x"
  shows "traverse f xs = traverse h xs"
  using assms by (induction xs) (simp_all cong: sum.case_cong)

lemma traverse_map: "traverse f (map h xs) = traverse (f \<circ> h) xs"
  by (induction xs) (simp_all split: sum.split)

lemma traverse_map_sum:
  "traverse (\<lambda>x. map_sum e id (f x)) xs = map_sum e id (traverse f xs)"
  by (induction xs) (auto split: sum.split)

lemma traverse_Inr:
  "traverse f xs = Inr ys \<longleftrightarrow> map f xs = map Inr ys"
  by (induction xs arbitrary: ys)
     (auto split: sum.splits simp: map_eq_Cons_conv Cons_eq_map_conv, metis sum.distinct(1))

lemma upt_shift: "a \<le> b \<Longrightarrow> map (\<lambda>j. a + j) [0..<b - a] = [a..<b]"
  using map_add_upt [of a "b - a"] by (simp add: add.commute)

lemma upt_split: "a \<le> b \<Longrightarrow> b \<le> c \<Longrightarrow> [a..<c] = [a..<b] @ [b..<c]"
  by (metis le_Suc_ex upt_add_eq_append)

section \<open>Shifts, checked and saturating arithmetic\<close>

definition shl64 :: "u64 \<Rightarrow> u32 \<Rightarrow> u64" where
  "shl64 x s = push_bit (unat s mod 64) x"

definition shr64 :: "u64 \<Rightarrow> u32 \<Rightarrow> u64" where
  "shr64 x s = drop_bit (unat s mod 64) x"

definition checked_add :: "'a::len word \<Rightarrow> 'a word \<Rightarrow> 'a word option" where
  "checked_add a b = (if unat a + unat b < 2 ^ LENGTH('a) then Some (a + b) else None)"

definition checked_mul :: "'a::len word \<Rightarrow> 'a word \<Rightarrow> 'a word option" where
  "checked_mul a b = (if unat a * unat b < 2 ^ LENGTH('a) then Some (a * b) else None)"

definition checked_sub :: "'a::len word \<Rightarrow> 'a word \<Rightarrow> 'a word option" where
  "checked_sub a b = (if b \<le> a then Some (a - b) else None)"

definition saturating_add :: "'a::len word \<Rightarrow> 'a word \<Rightarrow> 'a word" where
  "saturating_add a b = (if unat a + unat b < 2 ^ LENGTH('a) then a + b else - 1)"

definition saturating_mul :: "'a::len word \<Rightarrow> 'a word \<Rightarrow> 'a word" where
  "saturating_mul a b = (if unat a * unat b < 2 ^ LENGTH('a) then a * b else - 1)"

definition saturating_sub :: "'a::len word \<Rightarrow> 'a word \<Rightarrow> 'a word" where
  "saturating_sub a b = (if b \<le> a then a - b else 0)"

lemma unat_lt2p: "unat (w :: 'a::len word) < 2 ^ LENGTH('a)"
  by (fact unsigned_less)

lemma unat_add_no_wrap:
  "unat a + unat b < 2 ^ LENGTH('a) \<Longrightarrow> unat (a + b :: 'a::len word) = unat a + unat b"
  by (simp add: unat_word_ariths)

lemma unat_mult_no_wrap:
  "unat a * unat b < 2 ^ LENGTH('a) \<Longrightarrow> unat (a * b :: 'a::len word) = unat a * unat b"
  by (simp add: unat_word_ariths)

lemma unat_sub_no_wrap: "b \<le> a \<Longrightarrow> unat (a - b :: 'a::len word) = unat a - unat b"
  by (simp add: unat_sub)

lemma unat_of_nat_small: "n < 2 ^ LENGTH('a) \<Longrightarrow> unat (of_nat n :: 'a::len word) = n"
  by (simp add: unat_of_nat)

lemma unat_ucast_small:
  "unat x < 2 ^ LENGTH('b) \<Longrightarrow> unat (ucast x :: 'b::len word) = unat x"
  by (simp add: unsigned_ucast_eq take_bit_nat_eq_self)

lemma unat_ucast_32_64 [simp]: "unat (ucast (x :: u32) :: u64) = unat x"
  using unat_lt2p [of x] by (simp add: unat_ucast_small)

lemma unat_max: "unat (max a b :: 'a::len word) = max (unat a) (unat b)"
  by (simp add: max_def word_le_nat_alt)

lemma unat_min: "unat (min a b :: 'a::len word) = min (unat a) (unat b)"
  by (simp add: min_def word_le_nat_alt)

lemma checked_add_Some:
  "checked_add a b = Some (c :: 'a::len word) \<longleftrightarrow>
     c = a + b \<and> unat a + unat b < 2 ^ LENGTH('a)"
  by (auto simp: checked_add_def)

lemma checked_add_unat:
  "checked_add a b = Some (c :: 'a::len word) \<Longrightarrow> unat c = unat a + unat b"
  by (auto simp: checked_add_def unat_add_no_wrap split: if_splits)

lemma checked_mul_unat:
  "checked_mul a b = Some (c :: 'a::len word) \<Longrightarrow> unat c = unat a * unat b"
  by (auto simp: checked_mul_def unat_mult_no_wrap split: if_splits)

lemma div_ceil_nat:
  fixes a b :: nat
  assumes b: "0 < b"
  shows "(if a mod b > 0 then a div b + 1 else a div b) = (a + b - 1) div b"
proof -
  define q r where "q = a div b" and "r = a mod b"
  have a: "a = q * b + r" "r < b" using b by (simp_all add: q_def r_def)
  have e: "a + b - 1 = (r + b - 1) + q * b" using a b by simp
  have "(r + b - 1) div b = (if r > 0 then 1 else 0)"
    using a(2) b by (auto intro: div_nat_eqI)
  moreover have "(a + b - 1) div b = q + (r + b - 1) div b"
    unfolding e using b by (subst div_mult_self1) auto
  ultimately show ?thesis by (simp add: q_def r_def)
qed

section \<open>Little-endian byte strings\<close>

primrec le_nat :: "u8 list \<Rightarrow> nat" where
  "le_nat [] = 0"
| "le_nat (b # bs) = unat b + 256 * le_nat bs"

primrec nat_to_le :: "nat \<Rightarrow> nat \<Rightarrow> u8 list" where
  "nat_to_le 0 v = []"
| "nat_to_le (Suc n) v = of_nat v # nat_to_le n (v div 256)"

definition le_word :: "u8 list \<Rightarrow> 'a::len word" where
  "le_word bs = of_nat (le_nat bs)"

lemma length_nat_to_le [simp]: "length (nat_to_le n v) = n"
  by (induction n arbitrary: v) auto

lemma le_nat_nat_to_le: "le_nat (nat_to_le n v) = v mod 256 ^ n"
proof (induction n arbitrary: v)
  case 0
  then show ?case by simp
next
  case (Suc n)
  have "unat (of_nat v :: u8) = v mod 256"
    by (simp add: unat_of_nat)
  with Suc show ?case
    by (simp add: mod_mult2_eq)
qed

lemma le_nat_bound: "le_nat bs < 256 ^ length bs"
proof (induction bs)
  case (Cons b bs)
  have "unat b < 256" using unat_lt2p [of b] by simp
  with Cons show ?case by simp
qed simp

lemma u8_wraps: "256 * (w :: u8) = 0"
proof -
  have "(256 :: u8) = 0" by simp
  then show ?thesis by (simp only: mult_zero_left)
qed

lemma nat_to_le_le_nat: "nat_to_le (length bs) (le_nat bs) = bs"
proof (induction bs)
  case (Cons a bs)
  have "unat a < 256" using unat_lt2p [of a] by simp
  with Cons show ?case by (simp add: u8_wraps)
qed simp

text \<open>contract/endian.rs: the loaders panic on a slice shorter than their width, and the
  stores overwrite a prefix.\<close>

definition ld16 :: "u8 list \<Rightarrow> ('e, u16) outcome" where
  "ld16 p = (if 2 \<le> length p then Ok (le_word (take 2 p)) else Panic)"

definition ld32 :: "u8 list \<Rightarrow> ('e, u32) outcome" where
  "ld32 p = (if 4 \<le> length p then Ok (le_word (take 4 p)) else Panic)"

definition ld64 :: "u8 list \<Rightarrow> ('e, u64) outcome" where
  "ld64 p = (if 8 \<le> length p then Ok (le_word (take 8 p)) else Panic)"

definition st16 :: "u8 list \<Rightarrow> u16 \<Rightarrow> ('e, u8 list) outcome" where
  "st16 p v = (if 2 \<le> length p then Ok (nat_to_le 2 (unat v) @ drop 2 p) else Panic)"

definition st32 :: "u8 list \<Rightarrow> u32 \<Rightarrow> ('e, u8 list) outcome" where
  "st32 p v = (if 4 \<le> length p then Ok (nat_to_le 4 (unat v) @ drop 4 p) else Panic)"

definition st64 :: "u8 list \<Rightarrow> u64 \<Rightarrow> ('e, u8 list) outcome" where
  "st64 p v = (if 8 \<le> length p then Ok (nat_to_le 8 (unat v) @ drop 8 p) else Panic)"

lemma ld_simps [simp]:
  "2 \<le> length p \<Longrightarrow> ld16 p = Ok (le_word (take 2 p))"
  "4 \<le> length p \<Longrightarrow> ld32 p = Ok (le_word (take 4 p))"
  "8 \<le> length p \<Longrightarrow> ld64 p = Ok (le_word (take 8 p))"
  by (simp_all add: ld16_def ld32_def ld64_def)

lemma le_word_nat_to_le:
  fixes w :: "'a::len word"
  assumes "LENGTH('a) = 8 * n"
  shows "le_word (nat_to_le n (unat w)) = w"
proof -
  have "unat w < 256 ^ n"
    using unat_lt2p [of w] by (simp add: assms power_mult)
  then show ?thesis
    by (simp add: le_word_def le_nat_nat_to_le)
qed

lemma le_word_store [simp]:
  "le_word (nat_to_le 2 (unat (x :: u16))) = x"
  "le_word (nat_to_le 4 (unat (y :: u32))) = y"
  "le_word (nat_to_le 8 (unat (z :: u64))) = z"
  by (simp_all add: le_word_nat_to_le)

section \<open>contract/checked.rs\<close>

definition align_up_u64 :: "u64 \<Rightarrow> u64 \<Rightarrow> u64 option" where
  "align_up_u64 value align =
     (if align = 0 \<or> align AND (align - 1) \<noteq> 0 then None
      else (case checked_add value (align - 1) of
              None \<Rightarrow> None
            | Some rounded \<Rightarrow> Some (rounded AND NOT (align - 1))))"

definition size_fits_u32 :: "nat \<Rightarrow> bool" where
  "size_fits_u32 n \<longleftrightarrow> n \<le> 2 ^ 32 - 1"

end
