(* ===== verification/GuestMem.thy ===== *)
theory GuestMem
  imports Machine
begin

text \<open>
  The guest-memory seam, crates/reims-vgpu-wire/src/mem.rs. A \<open>GuestMemory\<close> is its required
  method \<open>read_at\<close>: the bytes of a span, or \<open>None\<close> where the code answers \<open>false\<close>. The locale
  \<open>guest_memory\<close> states what the trait documents: a read fills the whole buffer or refuses,
  and since "partial success is not representable", a span that reads contains only spans
  that read, with the same bytes. \<open>SliceMemory\<close>, the implementation over a byte slice, is the
  model the locale is interpreted on.
\<close>

unbundle bit_operations_syntax

type_synonym reader = "u64 \<Rightarrow> nat \<Rightarrow> u8 list option"

definition u32_at :: "reader \<Rightarrow> u64 \<Rightarrow> u32 option" where
  "u32_at read_at addr =
     (case read_at addr 4 of
        None \<Rightarrow> None
      | Some bytes \<Rightarrow> Some (le_word bytes))"

section \<open>The contract\<close>

locale guest_memory =
  fixes read_at :: "u64 \<Rightarrow> nat \<Rightarrow> u8 list option"
  assumes read_length: "read_at a n = Some bs \<Longrightarrow> length bs = n"
    and read_sub: "read_at a n = Some bs \<Longrightarrow> k + m \<le> n \<Longrightarrow>
          read_at (a + of_nat k) m = Some (take m (drop k bs))"
begin

lemma u32_within:
  assumes "read_at a n = Some bs" and "4 * k + 4 \<le> n"
  shows "u32_at read_at (a + of_nat (4 * k)) = Some (le_word (take 4 (drop (4 * k) bs)))"
  using read_sub [OF assms(1), of "4 * k" 4] assms(2)
  by (simp add: u32_at_def)

text \<open>Reading in two pieces what one read returns whole.\<close>

lemma read_split:
  assumes "read_at a (m + n) = Some bs"
  shows "\<exists>xs ys. read_at a m = Some xs \<and> read_at (a + of_nat m) n = Some ys \<and> bs = xs @ ys"
proof (intro exI conjI)
  have len: "length bs = m + n" by (rule read_length [OF assms])
  show "read_at a m = Some (take m bs)"
    using read_sub [OF assms, of 0 m] by simp
  show "read_at (a + of_nat m) n = Some (drop m bs)"
    using read_sub [OF assms, of m n] len by simp
  show "bs = take m bs @ drop m bs" by simp
qed

end

section \<open>SliceMemory\<close>

text \<open>
  \<open>usize::try_from\<close> succeeds on a 64-bit host; \<open>checked_add\<close> refuses an end past the address
  space and \<open>get(start..end)\<close> one past the slice.
\<close>

definition slice_read_at :: "u8 list \<Rightarrow> reader" where
  "slice_read_at bytes addr out_len =
     (let start = unat addr in
      if start + out_len < 2 ^ 64 \<and> start + out_len \<le> length bytes
      then Some (take out_len (drop start bytes)) else None)"

definition slice_slice_at :: "u8 list \<Rightarrow> u64 \<Rightarrow> nat \<Rightarrow> u8 list option" where
  "slice_slice_at bytes addr len =
     (let start = unat addr in
      if start + len < 2 ^ 64 \<and> start + len \<le> length bytes
      then Some (take len (drop start bytes)) else None)"

lemma unat_add_nat:
  "unat (a :: u64) + k < 2 ^ 64 \<Longrightarrow> unat (a + of_nat k) = unat a + k"
  by (simp add: unat_word_ariths unat_of_nat mod_add_right_eq)

interpretation slice_mem: guest_memory "slice_read_at bytes"
proof unfold_locales
  fix a n bs
  assume "slice_read_at bytes a n = Some bs"
  then show "length bs = n"
    by (auto simp: slice_read_at_def Let_def split: if_splits)
next
  fix a n bs k m
  assume r: "slice_read_at bytes a n = Some bs" and le: "k + m \<le> n"
  from r have bound: "unat a + n < 2 ^ 64" "unat a + n \<le> length bytes"
    and bs: "bs = take n (drop (unat a) bytes)"
    by (auto simp: slice_read_at_def Let_def split: if_splits)
  have a: "unat (a + of_nat k) = unat a + k"
    using bound le by (intro unat_add_nat) linarith
  show "slice_read_at bytes (a + of_nat k) m = Some (take m (drop k bs))"
    using bound le
    by (simp add: slice_read_at_def a bs Let_def drop_take add.commute min_def)
qed

lemma slice_at_agrees_read_at: "slice_slice_at bytes = slice_read_at bytes"
  by (intro ext) (simp add: slice_slice_at_def slice_read_at_def Let_def)

end
