(* ===== verification/PageTable.thy ===== *)
theory PageTable
  imports GuestMem
begin

text \<open>
  The guest GPU page table, crates/reims-vgpu-wire/src/page_table.rs: the geometry, the
  single-address descent \<open>walk\<close> with its node recording, and the cached, batched descent
  \<open>walk_run\<close> over consecutive pages. Words are the code's; levels are \<open>u32\<close> as in the code.
\<close>

unbundle bit_operations_syntax

section \<open>Format constants\<close>

definition PTE_SIZE :: nat where "PTE_SIZE = 4"
definition PTE_FLAG_MASK :: u32 where "PTE_FLAG_MASK = 0x80000000"
definition PTE_PFN_MASK :: u32 where "PTE_PFN_MASK = 0x7fffffff"
definition DIRECTORY_ROOT_PFN :: u64 where "DIRECTORY_ROOT_PFN = 0"
definition DIRECTORY_DEPTH :: u64 where "DIRECTORY_DEPTH = 4"
definition MAX_DEPTH :: u32 where "MAX_DEPTH = 4"
definition LEAF_BATCH :: nat where "LEAF_BATCH = 64"

section \<open>Geometry\<close>

record geometry =
  page_shift :: u32

definition X86_64 :: geometry where "X86_64 = \<lparr>page_shift = 12\<rparr>"
definition ARM64E :: geometry where "ARM64E = \<lparr>page_shift = 14\<rparr>"

definition page_size :: "geometry \<Rightarrow> u64" where
  "page_size g = shl64 1 (page_shift g)"

definition page_offset_mask :: "geometry \<Rightarrow> u64" where
  "page_offset_mask g = page_size g - 1"

definition index_bits :: "geometry \<Rightarrow> u32" where
  "index_bits g = page_shift g - 2"

definition entries_per_table :: "geometry \<Rightarrow> u64" where
  "entries_per_table g = shl64 1 (index_bits g)"

definition index_mask :: "geometry \<Rightarrow> u64" where
  "index_mask g = entries_per_table g - 1"

definition pfn_to_addr :: "geometry \<Rightarrow> u32 \<Rightarrow> u64" where
  "pfn_to_addr g pfn = shl64 (ucast pfn) (page_shift g)"

datatype walk_error =
  UnsupportedGeometry | ZeroRootPfn | ZeroDepth | DepthTooDeep | TableRead | NotPresent | MalformedPte

definition validate :: "geometry \<Rightarrow> walk_error + unit" where
  "validate g = (if page_shift g \<noteq> 12 \<and> page_shift g \<noteq> 14 then Inl UnsupportedGeometry else Inr ())"

record walk_failure =
  wf_error :: walk_error
  wf_level :: u32
  wf_entry_index :: u32
  wf_raw_pte :: u32

record walk_ok =
  leaf_pfn :: u32
  addr_page :: u64
  addr :: u64
  page_index :: u64
  raw_pte :: u32

section \<open>The task directory\<close>

definition read_directory :: "reader \<Rightarrow> geometry \<Rightarrow> u32 \<Rightarrow> walk_error + (u32 \<times> u32)" where
  "read_directory mem g directory_pfn =
     (case validate g of
        Inl e \<Rightarrow> Inl e
      | Inr _ \<Rightarrow>
          if directory_pfn = 0 then Inl ZeroRootPfn
          else let base = pfn_to_addr g directory_pfn in
            (case u32_at mem (base + DIRECTORY_ROOT_PFN) of
               None \<Rightarrow> Inl TableRead
             | Some root_pfn \<Rightarrow>
                 (case u32_at mem (base + DIRECTORY_DEPTH) of
                    None \<Rightarrow> Inl TableRead
                  | Some depth \<Rightarrow> Inr (root_pfn, depth))))"

section \<open>The nodes a descent reads\<close>

record node_path =
  np_pfns :: "u32 list"
  np_len :: nat

definition node_path_default :: node_path where
  "node_path_default = \<lparr>np_pfns = replicate 4 0, np_len = 0\<rparr>"

definition pfns :: "node_path \<Rightarrow> u32 list" where
  "pfns p = take (np_len p) (np_pfns p)"

definition push :: "node_path \<Rightarrow> u32 \<Rightarrow> node_path" where
  "push p pfn =
     (if np_len p < length (np_pfns p)
      then p\<lparr>np_pfns := (np_pfns p)[np_len p := pfn], np_len := np_len p + 1\<rparr>
      else p)"

section \<open>One descent\<close>

text \<open>
  The index of one level, and the address of its entry. \<open>level\<close> counts from the root, so the
  shift shrinks as the walk descends.
\<close>

definition entry_index_at :: "geometry \<Rightarrow> u32 \<Rightarrow> u64 \<Rightarrow> u32 \<Rightarrow> u32" where
  "entry_index_at g depth page_idx level =
     (let shift = (depth - 1 - level) * index_bits g
      in ucast (shr64 page_idx shift AND index_mask g))"

definition entry_addr_of :: "geometry \<Rightarrow> u32 \<Rightarrow> u32 \<Rightarrow> u64" where
  "entry_addr_of g pfn entry_index = pfn_to_addr g pfn + ucast entry_index * of_nat PTE_SIZE"

definition fail_at_root :: "walk_error \<Rightarrow> walk_failure" where
  "fail_at_root e = \<lparr>wf_error = e, wf_level = 0, wf_entry_index = 0, wf_raw_pte = 0\<rparr>"

text \<open>
  What one level makes of the word it read: the frame to descend into and the word, or the
  failure at this level. Zero is the not-present encoding; a nonzero word naming frame zero is
  one the guest cannot write.
\<close>

definition entry_verdict :: "u32 option \<Rightarrow> u32 \<Rightarrow> u32 \<Rightarrow> walk_failure + (u32 \<times> u32)" where
  "entry_verdict read level entry_index =
     (case read of
        None \<Rightarrow> Inl \<lparr>wf_error = TableRead, wf_level = level, wf_entry_index = entry_index,
                     wf_raw_pte = 0\<rparr>
      | Some pte \<Rightarrow>
          let next_pfn = pte AND PTE_PFN_MASK in
          if next_pfn = 0
          then Inl \<lparr>wf_error = (if pte = 0 then NotPresent else MalformedPte),
                    wf_level = level, wf_entry_index = entry_index, wf_raw_pte = pte\<rparr>
          else Inr (next_pfn, pte))"

text \<open>
  The loop \<open>for level in 0..depth\<close> with \<open>n\<close> levels to go: \<open>level = depth - n\<close>. It returns the
  last frame named and the last word read, or the failure, and the nodes read so far.
\<close>

primrec descend ::
  "reader \<Rightarrow> geometry \<Rightarrow> u32 \<Rightarrow> u64 \<Rightarrow> nat \<Rightarrow> u32 \<Rightarrow> u32 \<Rightarrow> node_path
     \<Rightarrow> (walk_failure + (u32 \<times> u32)) \<times> node_path" where
  "descend mem g depth page_idx 0 current_pfn raw nodes = (Inr (current_pfn, raw), nodes)"
| "descend mem g depth page_idx (Suc n) current_pfn raw nodes =
     (let level = depth - of_nat (Suc n);
          nodes = push nodes current_pfn;
          entry_index = entry_index_at g depth page_idx level;
          entry_addr = entry_addr_of g current_pfn entry_index
      in case entry_verdict (u32_at mem entry_addr) level entry_index of
           Inl f \<Rightarrow> (Inl f, nodes)
         | Inr (next_pfn, pte) \<Rightarrow> descend mem g depth page_idx n next_pfn pte nodes)"

definition walk_recording_nodes ::
  "reader \<Rightarrow> geometry \<Rightarrow> u32 \<Rightarrow> u32 \<Rightarrow> u64 \<Rightarrow> node_path
     \<Rightarrow> (walk_failure + walk_ok) \<times> node_path" where
  "walk_recording_nodes mem g root_pfn depth gva nodes =
     (case validate g of
        Inl e \<Rightarrow> (Inl (fail_at_root e), nodes)
      | Inr _ \<Rightarrow>
        if root_pfn = 0 then (Inl (fail_at_root ZeroRootPfn), nodes)
        else if depth = 0 then (Inl (fail_at_root ZeroDepth), nodes)
        else if depth > MAX_DEPTH then (Inl (fail_at_root DepthTooDeep), nodes)
        else
          let page_idx = shr64 gva (page_shift g);
              page_off = gva AND page_offset_mask g
          in case descend mem g depth page_idx (unat depth) root_pfn 0 nodes of
               (Inl f, nodes) \<Rightarrow> (Inl f, nodes)
             | (Inr (current_pfn, raw), nodes) \<Rightarrow>
                 let page = pfn_to_addr g current_pfn in
                 (Inr \<lparr>leaf_pfn = current_pfn, addr_page = page, addr = page + page_off,
                       page_index = page_idx, raw_pte = raw\<rparr>, nodes))"

definition walk :: "reader \<Rightarrow> geometry \<Rightarrow> u32 \<Rightarrow> u32 \<Rightarrow> u64 \<Rightarrow> walk_failure + walk_ok" where
  "walk mem g root_pfn depth gva =
     fst (walk_recording_nodes mem g root_pfn depth gva node_path_default)"

section \<open>A run of consecutive pages\<close>

text \<open>
  The locals \<open>walk_run\<close> keeps across pages: the entry index taken at each level of the previous
  descent and the frame it named, how many leading levels of that record still hold, and the
  batch of deepest-level words with the node and first index it was read from.
\<close>

record run_state =
  seen_index :: "u32 list"
  seen_next :: "u32 list"
  held :: nat
  leaf_buf :: "u8 list"
  leaf_node :: u32
  leaf_first :: u32
  leaf_len :: nat
  leaf_unbatchable :: u32

definition run_state_init :: run_state where
  "run_state_init =
     \<lparr>seen_index = replicate 4 0, seen_next = replicate 4 0, held = 0,
      leaf_buf = replicate (LEAF_BATCH * PTE_SIZE) 0, leaf_node = 0, leaf_first = 0,
      leaf_len = 0, leaf_unbatchable = 0\<rparr>"

text \<open>
  Refill when the word is not one the buffer holds. A refused read leaves the buffer's bytes
  unspecified in the code; they are kept here, and no word is taken from the buffer while
  \<open>leaf_len\<close> is zero.
\<close>

definition refill :: "reader \<Rightarrow> geometry \<Rightarrow> u32 \<Rightarrow> u32 \<Rightarrow> run_state \<Rightarrow> run_state" where
  "refill mem g current_pfn entry_index s =
     (if leaf_node s \<noteq> current_pfn \<or> entry_index < leaf_first s
         \<or> leaf_len s \<le> unat (entry_index - leaf_first s)
      then let s = s\<lparr>leaf_len := 0\<rparr> in
        if leaf_unbatchable s \<noteq> current_pfn
        then let left = entries_per_table g - ucast entry_index;
                 want = min (unat left) LEAF_BATCH
             in case mem (entry_addr_of g current_pfn entry_index) (want * PTE_SIZE) of
                  Some bytes \<Rightarrow>
                    s\<lparr>leaf_buf := bytes @ drop (want * PTE_SIZE) (leaf_buf s),
                      leaf_node := current_pfn, leaf_first := entry_index, leaf_len := want\<rparr>
                | None \<Rightarrow> s\<lparr>leaf_unbatchable := current_pfn\<rparr>
        else s
      else s)"

definition leaf_word :: "reader \<Rightarrow> u64 \<Rightarrow> u32 \<Rightarrow> run_state \<Rightarrow> u32 option" where
  "leaf_word mem entry_addr entry_index s =
     (if leaf_len s = 0 then u32_at mem entry_addr
      else let off = unat (entry_index - leaf_first s) * PTE_SIZE
           in Some (le_word (take 4 (drop off (leaf_buf s)))))"

text \<open>The loop over the levels of one page; a level whose index is unchanged is not read.\<close>

primrec run_levels ::
  "reader \<Rightarrow> geometry \<Rightarrow> u32 \<Rightarrow> u64 \<Rightarrow> nat \<Rightarrow> u32 \<Rightarrow> u32 \<Rightarrow> run_state
     \<Rightarrow> (walk_failure + (u32 \<times> u32)) \<times> run_state" where
  "run_levels mem g depth page_idx 0 current_pfn raw s = (Inr (current_pfn, raw), s)"
| "run_levels mem g depth page_idx (Suc n) current_pfn raw s =
     (let level = depth - of_nat (Suc n);
          entry_index = entry_index_at g depth page_idx level;
          lv = unat level
      in if lv < held s \<and> seen_index s ! lv = entry_index
         then run_levels mem g depth page_idx n (seen_next s ! lv) raw s
         else
           let entry_addr = entry_addr_of g current_pfn entry_index;
               s = (if level + 1 = depth then refill mem g current_pfn entry_index s else s);
               read = (if level + 1 = depth then leaf_word mem entry_addr entry_index s
                       else u32_at mem entry_addr)
           in case entry_verdict read level entry_index of
                Inl f \<Rightarrow> (Inl f, s)
              | Inr (next_pfn, pte) \<Rightarrow>
                  run_levels mem g depth page_idx n next_pfn pte
                    (s\<lparr>seen_index := (seen_index s)[lv := entry_index],
                       seen_next := (seen_next s)[lv := next_pfn], held := lv + 1\<rparr>))"

definition run_gva :: "geometry \<Rightarrow> u64 \<Rightarrow> u64 \<Rightarrow> u64" where
  "run_gva g first_gva i =
     shl64 (shr64 first_gva (page_shift g) + i) (page_shift g)
       OR (first_gva AND page_offset_mask g)"

definition run_page ::
  "reader \<Rightarrow> geometry \<Rightarrow> u32 \<Rightarrow> u32 \<Rightarrow> u64 \<Rightarrow> u64 \<Rightarrow> run_state
     \<Rightarrow> (walk_failure + walk_ok) \<times> run_state" where
  "run_page mem g root_pfn depth first_gva i s =
     (let page_idx = shr64 first_gva (page_shift g) + i;
          page_off = run_gva g first_gva i AND page_offset_mask g
      in case run_levels mem g depth page_idx (unat depth) root_pfn 0 s of
           (Inl f, s) \<Rightarrow> (Inl f, s\<lparr>held := 0\<rparr>)
         | (Inr (current_pfn, raw), s) \<Rightarrow>
             let page = pfn_to_addr g current_pfn in
             (Inr \<lparr>leaf_pfn = current_pfn, addr_page = page, addr = page + page_off,
                   page_index = page_idx, raw_pte = raw\<rparr>, s))"

text \<open>
  The visitor is a closure with state: it takes its state, the page's index within the run and
  the walk's answer, and returns its new state and whether to go on.
\<close>

type_synonym ('v, 'r) visitor = "'v \<Rightarrow> u64 \<Rightarrow> 'r \<Rightarrow> 'v \<times> bool"

primrec run_pages ::
  "reader \<Rightarrow> geometry \<Rightarrow> u32 \<Rightarrow> u32 \<Rightarrow> u64 \<Rightarrow> ('v, walk_failure + walk_ok) visitor
     \<Rightarrow> nat \<Rightarrow> u64 \<Rightarrow> run_state \<Rightarrow> 'v \<Rightarrow> 'v" where
  "run_pages mem g root_pfn depth first_gva visit 0 i s v = v"
| "run_pages mem g root_pfn depth first_gva visit (Suc n) i s v =
     (case run_page mem g root_pfn depth first_gva i s of (result, s) \<Rightarrow>
      case visit v i result of (v, go) \<Rightarrow>
        if go then run_pages mem g root_pfn depth first_gva visit n (i + 1) s v else v)"

definition walk_run ::
  "reader \<Rightarrow> geometry \<Rightarrow> u32 \<Rightarrow> u32 \<Rightarrow> u64 \<Rightarrow> u64
     \<Rightarrow> ('v, walk_failure + walk_ok) visitor \<Rightarrow> 'v \<Rightarrow> 'v" where
  "walk_run mem g root_pfn depth first_gva pages visit v =
     (case validate g of
        Inl e \<Rightarrow> fst (visit v 0 (Inl (fail_at_root e)))
      | Inr _ \<Rightarrow>
        if root_pfn = 0 then fst (visit v 0 (Inl (fail_at_root ZeroRootPfn)))
        else if depth = 0 then fst (visit v 0 (Inl (fail_at_root ZeroDepth)))
        else if depth > MAX_DEPTH then fst (visit v 0 (Inl (fail_at_root DepthTooDeep)))
        else run_pages mem g root_pfn depth first_gva visit (unat pages) 0 run_state_init v)"

text \<open>The reference the run is held to: one \<open>walk\<close> per page, nothing remembered between pages.\<close>

primrec walk_each ::
  "reader \<Rightarrow> geometry \<Rightarrow> u32 \<Rightarrow> u32 \<Rightarrow> u64 \<Rightarrow> ('v, walk_failure + walk_ok) visitor
     \<Rightarrow> nat \<Rightarrow> u64 \<Rightarrow> 'v \<Rightarrow> 'v" where
  "walk_each mem g root_pfn depth first_gva visit 0 i v = v"
| "walk_each mem g root_pfn depth first_gva visit (Suc n) i v =
     (case visit v i (walk mem g root_pfn depth (run_gva g first_gva i)) of (v, go) \<Rightarrow>
        if go then walk_each mem g root_pfn depth first_gva visit n (i + 1) v else v)"

end
