(* ===== verification/GeometryFacts.thy ===== *)
theory GeometryFacts
  imports PageTable
begin

text \<open>
  Arithmetic of the two geometries: masks as \<open>mask\<close>, the index and entry-address bounds that
  make every address the walk forms representable, and the split of an address into page
  index and page offset.
\<close>

unbundle bit_operations_syntax

abbreviation shift_of :: "geometry \<Rightarrow> nat" where
  "shift_of g \<equiv> unat (page_shift g)"

lemma validate_iff: "validate g = Inr () \<longleftrightarrow> page_shift g = 12 \<or> page_shift g = 14"
  by (auto simp: validate_def)

lemma validate_cases:
  assumes "validate g = Inr ()"
  obtains "page_shift g = 12" | "page_shift g = 14"
  using assms by (auto simp: validate_iff)

lemma shl64_one_minus_one: "shl64 1 s - 1 = mask (unat s mod 64)"
  by (simp add: shl64_def mask_eq_exp_minus_1)

lemma page_offset_mask_eq: "page_offset_mask g = mask (shift_of g mod 64)"
  by (simp add: page_offset_mask_def page_size_def shl64_one_minus_one)

lemma index_mask_eq: "index_mask g = mask (unat (index_bits g) mod 64)"
  by (simp add: index_mask_def entries_per_table_def shl64_one_minus_one)

lemma unat_mask_bound: "unat (x AND mask n :: u64) < 2 ^ n"
  by (simp add: take_bit_eq_mask [symmetric] unsigned_take_bit_eq)

lemma unat_page_size:
  "validate g = Inr () \<Longrightarrow> unat (page_size g) = 2 ^ shift_of g"
  by (erule validate_cases) (simp_all add: page_size_def shl64_def)

lemma unat_entries:
  "validate g = Inr () \<Longrightarrow> unat (entries_per_table g) = 2 ^ (shift_of g - 2)"
  by (erule validate_cases) (simp_all add: entries_per_table_def index_bits_def shl64_def)

lemma index_bits_valid:
  "validate g = Inr () \<Longrightarrow> unat (index_bits g) = shift_of g - 2"
  by (erule validate_cases) (simp_all add: index_bits_def)

lemma shift_valid: "validate g = Inr () \<Longrightarrow> shift_of g = 12 \<or> shift_of g = 14"
  by (erule validate_cases) simp_all

lemma entry_index_bound:
  assumes "validate g = Inr ()"
  shows "unat (entry_index_at g depth p level) < 2 ^ (shift_of g - 2)"
proof -
  have b: "unat (index_bits g) mod 64 = shift_of g - 2" "shift_of g - 2 \<le> 12"
    using index_bits_valid [OF assms] shift_valid [OF assms] by auto
  let ?x = "shr64 p ((depth - 1 - level) * index_bits g) AND index_mask g"
  have x: "unat ?x < 2 ^ (shift_of g - 2)"
    using unat_mask_bound [of _ "shift_of g - 2"] by (simp add: index_mask_eq b)
  have "(2 :: nat) ^ (shift_of g - 2) \<le> 2 ^ 32"
    using b by (intro power_increasing) auto
  with x have "unat (ucast ?x :: u32) = unat ?x"
    by (simp add: unsigned_ucast_eq take_bit_nat_eq_self)
  with x show ?thesis by (simp add: entry_index_at_def Let_def)
qed

lemma ucast_add_nat:
  fixes a :: u32
  assumes "unat a + k < 2 ^ 32"
  shows "(ucast (a + of_nat k) :: u64) = ucast a + of_nat k"
proof -
  have a: "unat (a + of_nat k) = unat a + k"
    using assms by (simp add: unat_word_ariths unat_of_nat mod_add_right_eq)
  have u: "unat (ucast (a + of_nat k) :: u64) = unat (a + of_nat k)"
    using assms a by (simp add: unsigned_ucast_eq take_bit_nat_eq_self)
  have v: "unat (ucast a :: u64) = unat a"
    using assms by (simp add: unsigned_ucast_eq take_bit_nat_eq_self)
  have "unat (ucast a + of_nat k :: u64) = unat a + k"
    using assms v by (subst unat_add_nat) auto
  with a u show ?thesis by (simp add: word_unat_eq_iff)
qed

lemma entry_addr_linear:
  assumes "unat ei + k < 2 ^ 32"
  shows "entry_addr_of g pfn (ei + of_nat k) = entry_addr_of g pfn ei + of_nat (4 * k)"
  by (simp add: entry_addr_of_def ucast_add_nat [OF assms] PTE_SIZE_def algebra_simps)

text \<open>The premise of the unchecked additions in the walk: no address wraps.\<close>

lemma unat_pfn_to_addr:
  assumes "validate g = Inr ()"
  shows "unat (pfn_to_addr g pfn) = unat pfn * 2 ^ shift_of g"
proof -
  have u: "unat (ucast pfn :: u64) = unat pfn"
    using unat_lt2p [of pfn] by (simp add: unsigned_ucast_eq take_bit_nat_eq_self)
  have p: "unat pfn < 2 ^ 32" using unat_lt2p [of pfn] by simp
  have "pfn_to_addr g pfn = ucast pfn * 2 ^ shift_of g"
    using shift_valid [OF assms] by (auto simp: pfn_to_addr_def shl64_def push_bit_eq_mult)
  moreover have "unat (2 ^ shift_of g :: u64) = 2 ^ shift_of g"
    using shift_valid [OF assms] by auto
  moreover have "unat pfn * 2 ^ shift_of g < 2 ^ 64"
    using p shift_valid [OF assms] by auto
  ultimately show ?thesis
    by (simp add: u unat_mult_no_wrap)
qed

lemma unat_entry_addr:
  assumes "validate g = Inr ()" and "unat ei < 2 ^ (shift_of g - 2)"
  shows "unat (entry_addr_of g pfn ei) = unat pfn * 2 ^ shift_of g + 4 * unat ei"
proof -
  have p: "unat pfn < 2 ^ 32" using unat_lt2p [of pfn] by simp
  have ei: "unat (ucast ei :: u64) = unat ei"
    using unat_lt2p [of ei] by (simp add: unsigned_ucast_eq take_bit_nat_eq_self)
  have small: "unat ei < 4096" "unat pfn * 2 ^ shift_of g \<le> 2 ^ 46"
    using assms(2) p shift_valid [OF assms(1)] by auto
  have m: "unat (ucast ei * 4 :: u64) = 4 * unat ei"
    using small by (subst unat_mult_no_wrap) (simp_all add: ei)
  show ?thesis
    unfolding entry_addr_of_def using small
    by (subst unat_add_no_wrap) (simp_all add: PTE_SIZE_def m unat_pfn_to_addr [OF assms(1)])
qed

text \<open>Page index and page offset of the address formed for one page of a run.\<close>

lemma run_gva_offset:
  assumes "validate g = Inr ()"
  shows "run_gva g a i AND page_offset_mask g = a AND page_offset_mask g"
proof -
  have s: "shift_of g mod 64 = shift_of g" using shift_valid [OF assms] by auto
  show ?thesis
    unfolding run_gva_def page_offset_mask_eq shl64_def s
    by (rule bit_eqI) (auto simp: bit_simps)
qed

lemma run_gva_index:
  assumes "validate g = Inr ()"
    and "unat (shr64 a (page_shift g) + i) < 2 ^ (64 - shift_of g)"
  shows "shr64 (run_gva g a i) (page_shift g) = shr64 a (page_shift g) + i"
proof -
  let ?p = "shr64 a (page_shift g) + i" and ?n = "shift_of g"
  have s: "?n mod 64 = ?n" "?n < 64" using shift_valid [OF assms(1)] by auto
  have p: "take_bit (64 - ?n) ?p = ?p"
    using assms(2) by (simp add: word_unat_eq_iff unsigned_take_bit_eq take_bit_nat_eq_self)
  have hi: "bit ?p k \<Longrightarrow> ?n + k < 64" for k
    using p by (metis bit_take_bit_iff less_diff_conv add.commute)
  show ?thesis
    unfolding run_gva_def page_offset_mask_eq
    unfolding shl64_def shr64_def [of "_ OR _"] s(1)
    by (rule bit_eqI) (use s(2) hi in \<open>auto simp: bit_simps\<close>)
qed

text \<open>At the deepest level consecutive pages have different entry indices.\<close>

lemma leaf_index_steps:
  assumes "validate g = Inr ()"
  shows "entry_index_at g depth (p + 1) (depth - 1) \<noteq> entry_index_at g depth p (depth - 1)"
proof -
  have b: "0 < unat (index_bits g) mod 64"
    using index_bits_valid [OF assms] shift_valid [OF assms] by auto
  have "bit (entry_index_at g depth q (depth - 1)) 0 \<longleftrightarrow> bit q 0" for q
    using b by (simp add: entry_index_at_def shr64_def index_mask_eq bit_simps del: bit_0)
  then have bit0: "odd (entry_index_at g depth q (depth - 1)) \<longleftrightarrow> odd q" for q
    by (simp add: bit_0)
  show ?thesis
  proof
    assume "entry_index_at g depth (p + 1) (depth - 1) = entry_index_at g depth p (depth - 1)"
    then have "odd (p + 1) \<longleftrightarrow> odd p" by (metis bit0)
    then show False by simp
  qed
qed

end
