(* ===== verification/WalkRun.thy ===== *)
theory WalkRun
  imports GeometryFacts
begin

text \<open>
  The cached, batched descent \<open>walk_run\<close> agrees, page for page, with one \<open>walk\<close> per page. The
  invariant has two halves: \<open>chain_ok\<close> says that every held level of the record is a word the
  guest's table really contains on the path from the root, and \<open>batch_ok\<close> that every word of
  the batch is the word the table holds at that index.
\<close>

unbundle bit_operations_syntax

definition batch_ok :: "reader \<Rightarrow> geometry \<Rightarrow> run_state \<Rightarrow> bool" where
  "batch_ok mem g s \<longleftrightarrow>
     (\<forall>k < leaf_len s.
        u32_at mem (entry_addr_of g (leaf_node s) (leaf_first s + of_nat k))
          = Some (le_word (take 4 (drop (4 * k) (leaf_buf s)))))"

definition node_at :: "run_state \<Rightarrow> u32 \<Rightarrow> nat \<Rightarrow> u32" where
  "node_at s root lv = (if lv = 0 then root else seen_next s ! (lv - 1))"

definition chain_ok :: "reader \<Rightarrow> geometry \<Rightarrow> u32 \<Rightarrow> run_state \<Rightarrow> bool" where
  "chain_ok mem g root s \<longleftrightarrow>
     (\<forall>lv < held s. \<forall>level. \<exists>pte.
        entry_verdict (u32_at mem (entry_addr_of g (node_at s root lv) (seen_index s ! lv)))
          level (seen_index s ! lv) = Inr (seen_next s ! lv, pte))"

definition run_inv :: "reader \<Rightarrow> geometry \<Rightarrow> u32 \<Rightarrow> nat \<Rightarrow> run_state \<Rightarrow> bool" where
  "run_inv mem g root d s \<longleftrightarrow>
     length (seen_index s) = 4 \<and> length (seen_next s) = 4 \<and> held s \<le> d \<and> d \<le> 4
     \<and> chain_ok mem g root s \<and> batch_ok mem g s"

lemma take_drop_append:
  "i + n \<le> length xs \<Longrightarrow> take n (drop i (xs @ ys)) = take n (drop i xs)"
  by simp

text \<open>The next page's deepest index must not be one the record already holds.\<close>

definition leaf_fresh :: "geometry \<Rightarrow> u32 \<Rightarrow> u64 \<Rightarrow> run_state \<Rightarrow> bool" where
  "leaf_fresh g depth p s \<longleftrightarrow>
     (held s = unat depth \<longrightarrow> seen_index s ! (unat depth - 1) \<noteq> entry_index_at g depth p (depth - 1))"

lemma refill_frame [simp]:
  "seen_index (refill mem g c e s) = seen_index s"
  "seen_next (refill mem g c e s) = seen_next s"
  "held (refill mem g c e s) = held s"
  by (simp_all add: refill_def Let_def split: option.splits)

lemma batch_ok_cong [simp]:
  "batch_ok mem g (s\<lparr>seen_index := a, seen_next := b, held := h\<rparr>) = batch_ok mem g s"
  "batch_ok mem g (s\<lparr>held := h\<rparr>) = batch_ok mem g s"
  "batch_ok mem g (s\<lparr>seen_index := a, seen_next := b\<rparr>) = batch_ok mem g s"
  by (simp_all add: batch_ok_def)

lemma chain_ok_refill [simp]: "chain_ok mem g root (refill mem' g' c e s) = chain_ok mem g root s"
  by (simp add: chain_ok_def node_at_def)

lemma batch_ok_refused: "batch_ok mem g (s\<lparr>leaf_len := 0, leaf_unbatchable := c\<rparr>)"
  "batch_ok mem g (s\<lparr>leaf_len := 0\<rparr>)"
  by (simp_all add: batch_ok_def)

context guest_memory
begin

lemma batch_ok_fill:
  assumes r: "read_at (entry_addr_of g c e) (w * 4) = Some bs"
    and small: "unat e + w < 2 ^ 32"
  shows "batch_ok read_at g
           (s\<lparr>leaf_buf := bs @ rest, leaf_node := c, leaf_first := e, leaf_len := w\<rparr>)"
proof -
  have len: "length bs = w * 4" by (rule read_length [OF r])
  have "u32_at read_at (entry_addr_of g c (e + of_nat k))
          = Some (le_word (take 4 (drop (4 * k) (bs @ rest))))" if k: "k < w" for k
  proof -
    have e: "entry_addr_of g c (e + of_nat k) = entry_addr_of g c e + of_nat (4 * k)"
      using k small by (intro entry_addr_linear) simp
    have "u32_at read_at (entry_addr_of g c (e + of_nat k))
            = Some (le_word (take 4 (drop (4 * k) bs)))"
      unfolding e using k by (intro u32_within [OF r]) simp
    moreover have "take 4 (drop (4 * k) (bs @ rest)) = take 4 (drop (4 * k) bs)"
      using k len by (intro take_drop_append) simp
    ultimately show ?thesis by (simp only:)
  qed
  then show ?thesis
    by (simp add: batch_ok_def)
qed

lemma leaf_word_hit:
  assumes "batch_ok read_at g s" and "leaf_node s = c"
    and "unat (e - leaf_first s) < leaf_len s"
  shows "leaf_word read_at (entry_addr_of g c e) e s = u32_at read_at (entry_addr_of g c e)"
proof -
  let ?d = "unat (e - leaf_first s)"
  have e: "leaf_first s + of_nat ?d = e" by simp
  have "u32_at read_at (entry_addr_of g c (leaf_first s + of_nat ?d))
          = Some (le_word (take 4 (drop (4 * ?d) (leaf_buf s))))"
    using assms by (auto simp: batch_ok_def)
  then show ?thesis
    using assms(3) unfolding e by (simp add: leaf_word_def PTE_SIZE_def mult.commute)
qed

lemma refill_correct:
  assumes v: "validate g = Inr ()" and ok: "batch_ok read_at g s"
    and e: "unat e < 2 ^ (shift_of g - 2)"
  shows "batch_ok read_at g (refill read_at g c e s) \<and>
         leaf_word read_at (entry_addr_of g c e) e (refill read_at g c e s)
           = u32_at read_at (entry_addr_of g c e)"
proof -
  let ?need = "leaf_node s \<noteq> c \<or> e < leaf_first s \<or> leaf_len s \<le> unat (e - leaf_first s)"
  let ?want = "min (unat (entries_per_table g - ucast e)) LEAF_BATCH"
  have small: "unat e < 4096"
    using e shift_valid [OF v] by auto
  have u: "unat (ucast e :: u64) = unat e"
    using unat_lt2p [of e] by (simp add: unsigned_ucast_eq take_bit_nat_eq_self)
  have "(ucast e :: u64) < entries_per_table g"
    using unat_entries [OF v] e u by (simp add: word_less_nat_alt)
  then have "0 < unat (entries_per_table g - ucast e)"
    by (subst unat_sub_no_wrap) (simp_all add: word_less_nat_alt order_less_imp_le)
  then have want: "0 < ?want" "?want \<le> 64"
    by (simp_all add: LEAF_BATCH_def)
  consider "\<not> ?need" | "?need" "leaf_unbatchable s = c"
    | bs where "?need" "leaf_unbatchable s \<noteq> c" "read_at (entry_addr_of g c e) (?want * 4) = Some bs"
    | "?need" "leaf_unbatchable s \<noteq> c" "read_at (entry_addr_of g c e) (?want * 4) = None"
    by blast
  then show ?thesis
  proof cases
    case 1
    then show ?thesis
      using ok leaf_word_hit [OF ok, of c e] by (simp add: refill_def)
  next
    case 2
    then show ?thesis
      by (auto simp: refill_def leaf_word_def batch_ok_refused)
  next
    case (3 bs)
    let ?s = "refill read_at g c e s"
    have s: "?s = s\<lparr>leaf_len := 0, leaf_buf := bs @ drop (?want * 4) (leaf_buf s),
                    leaf_node := c, leaf_first := e, leaf_len := ?want\<rparr>"
      using 3 by (auto simp: refill_def Let_def PTE_SIZE_def)
    have ok': "batch_ok read_at g ?s"
      using batch_ok_fill [OF 3(3), where s = "s\<lparr>leaf_len := 0\<rparr>"] want small by (simp add: s)
    moreover have "leaf_word read_at (entry_addr_of g c e) e ?s = u32_at read_at (entry_addr_of g c e)"
      by (rule leaf_word_hit [OF ok']) (use want in \<open>simp_all add: s\<close>)
    ultimately show ?thesis ..
  next
    case 4
    then show ?thesis
      by (auto simp: refill_def Let_def PTE_SIZE_def leaf_word_def batch_ok_refused)
  qed
qed

text \<open>A hit: the held level is a word \<open>descend\<close> would read, naming the frame the record names.\<close>

lemma descend_hit:
  assumes "chain_ok mem g root s" and "lv < held s" and "c = node_at s root lv"
    and "seen_index s ! lv = entry_index_at g depth p (depth - of_nat (Suc m))"
  obtains pte where "descend mem g depth p (Suc m) c raw nodes
                       = descend mem g depth p m (seen_next s ! lv) pte (push nodes c)"
proof -
  from assms obtain pte where
    "entry_verdict (u32_at mem (entry_addr_of g c (seen_index s ! lv)))
       (depth - of_nat (Suc m)) (seen_index s ! lv) = Inr (seen_next s ! lv, pte)"
    unfolding chain_ok_def by blast
  then show ?thesis
    using assms(4) that [of pte] by (simp add: Let_def)
qed

lemma entry_verdict_level:
  "entry_verdict w l e = Inr x \<Longrightarrow> entry_verdict w l' e' = Inr x"
  by (auto simp: entry_verdict_def Let_def split: option.splits if_splits)

text \<open>A miss that reads a present entry extends the record by one level.\<close>

definition extend :: "run_state \<Rightarrow> nat \<Rightarrow> u32 \<Rightarrow> u32 \<Rightarrow> run_state" where
  "extend s lv ei next_pfn =
     s\<lparr>seen_index := (seen_index s)[lv := ei], seen_next := (seen_next s)[lv := next_pfn],
       held := lv + 1\<rparr>"

lemma extend_sel [simp]:
  "seen_index (extend s lv ei nx) = (seen_index s)[lv := ei]"
  "seen_next (extend s lv ei nx) = (seen_next s)[lv := nx]"
  "held (extend s lv ei nx) = Suc lv"
  "batch_ok mem g (extend s lv ei nx) = batch_ok mem g s"
  by (simp_all add: extend_def batch_ok_def)

lemma run_inv_extend:
  assumes inv: "run_inv mem g root d s" and lv: "lv < d" "lv \<le> held s"
    and rd: "entry_verdict (u32_at mem (entry_addr_of g (node_at s root lv) ei)) l ei = Inr (nx, pte)"
  shows "run_inv mem g root d (extend s lv ei nx)"
proof -
  have len: "lv < length (seen_index s)" "lv < length (seen_next s)"
    using inv lv by (auto simp: run_inv_def)
  have node: "node_at (extend s lv ei nx) root j = node_at s root j" if "j \<le> lv" for j
    using that by (auto simp: node_at_def nth_list_update)
  have "\<exists>pte. entry_verdict (u32_at mem (entry_addr_of g (node_at s root j)
          ((seen_index s)[lv := ei] ! j))) level ((seen_index s)[lv := ei] ! j)
        = Inr ((seen_next s)[lv := nx] ! j, pte)" if "j \<le> lv" for j level
  proof (cases "j = lv")
    case True
    then show ?thesis using entry_verdict_level [OF rd] len by auto
  next
    case False
    then show ?thesis
      using inv lv that by (simp add: run_inv_def chain_ok_def)
  qed
  then have "chain_ok mem g root (extend s lv ei nx)"
    by (simp add: chain_ok_def node less_Suc_eq_le)
  then show ?thesis
    using inv lv by (simp add: run_inv_def)
qed

lemma node_at_Suc: "seen_next s ! lv = node_at s root (Suc lv)"
  by (simp add: node_at_def)

lemma node_at_extend:
  "lv < length (seen_next s) \<Longrightarrow> nx = node_at (extend s lv ei nx) root (Suc lv)"
  by (simp add: node_at_def)

lemma run_inv_refill:
  assumes "validate g = Inr ()" "unat e < 2 ^ (shift_of g - 2)"
  shows "run_inv read_at g root d s \<Longrightarrow> run_inv read_at g root d (refill read_at g c e s)"
  using refill_correct [OF assms(1) _ assms(2)] by (auto simp: run_inv_def)

lemma node_at_refill [simp]: "node_at (refill mem g c e s) root lv = node_at s root lv"
  by (simp add: node_at_def)

lemma run_levels_hit:
  assumes "level = depth - of_nat (Suc m)" and "unat level < held s"
    and "seen_index s ! unat level = entry_index_at g depth p level"
  shows "run_levels mem g depth p (Suc m) c raw s
           = run_levels mem g depth p m (seen_next s ! unat level) raw s"
  unfolding run_levels.simps Let_def assms(1) [symmetric]
  by (rule if_P) (use assms in simp)

text \<open>One level that is not held: the loop takes the verdict of the word the table holds.\<close>

lemma run_levels_miss:
  assumes v: "validate g = Inr ()" and inv: "run_inv read_at g root d s"
    and level: "level = depth - of_nat (Suc m)" and ei: "ei = entry_index_at g depth p level"
    and miss: "\<not> (unat level < held s \<and> seen_index s ! unat level = ei)"
  obtains t where "run_inv read_at g root d t" "held t = held s"
    "\<And>j. node_at t root j = node_at s root j"
    "run_levels read_at g depth p (Suc m) c raw s =
       (case entry_verdict (u32_at read_at (entry_addr_of g c ei)) level ei of
          Inl f \<Rightarrow> (Inl f, t)
        | Inr (nx, pte) \<Rightarrow> run_levels read_at g depth p m nx pte (extend t (unat level) ei nx))"
proof -
  have b: "unat ei < 2 ^ (shift_of g - 2)" unfolding ei by (rule entry_index_bound [OF v])
  let ?t = "if level + 1 = depth then refill read_at g c ei s else s"
  have rd: "(if level + 1 = depth then leaf_word read_at (entry_addr_of g c ei) ei ?t
             else u32_at read_at (entry_addr_of g c ei)) = u32_at read_at (entry_addr_of g c ei)"
    using refill_correct [OF v _ b] inv by (simp add: run_inv_def)
  show ?thesis
  proof (rule that [of ?t])
    show "run_inv read_at g root d ?t"
      using inv run_inv_refill [OF v b inv] by simp
    show "run_levels read_at g depth p (Suc m) c raw s =
       (case entry_verdict (u32_at read_at (entry_addr_of g c ei)) level ei of
          Inl f \<Rightarrow> (Inl f, ?t)
        | Inr (nx, pte) \<Rightarrow> run_levels read_at g depth p m nx pte (extend ?t (unat level) ei nx))"
      unfolding run_levels.simps Let_def level [symmetric] ei [symmetric] rd if_not_P [OF miss]
        extend_def ..
  qed auto
qed

end

lemma level_facts:
  assumes "Suc m \<le> unat (depth :: u32)" and "unat depth \<le> 4"
  shows "unat (depth - of_nat (Suc m)) = unat depth - Suc m"
proof -
  have "of_nat (Suc m) \<le> depth"
    using assms by (simp add: word_le_nat_alt unat_of_nat_small del: of_nat_Suc)
  then show ?thesis
    using assms by (simp add: unat_sub_no_wrap unat_of_nat_small del: of_nat_Suc)
qed

text \<open>
  One page: from a record that is right and does not already hold this page's deepest index, the
  cached loop answers what the plain one answers, whatever word either carries in.
\<close>

context guest_memory
begin

lemma run_levels_correct:
  assumes v: "validate g = Inr ()" and d: "d = unat depth"
  shows "run_inv read_at g root d s \<Longrightarrow> leaf_fresh g depth p s \<Longrightarrow> 0 < n \<Longrightarrow> n \<le> d \<Longrightarrow>
    d - n \<le> held s \<Longrightarrow> c = node_at s root (d - n) \<Longrightarrow>
    run_levels read_at g depth p n c raw s = (r, s') \<Longrightarrow>
    r = fst (descend read_at g depth p n c raw' nodes) \<and> run_inv read_at g root d s' \<and>
    (\<forall>x. r = Inr x \<longrightarrow>
       held s' = d \<and> seen_index s' ! (d - 1) = entry_index_at g depth p (depth - 1))"
proof (induction n arbitrary: c raw raw' nodes s)
  case 0
  then show ?case by simp
next
  case (Suc m c raw raw' nodes s)
  let ?level = "depth - of_nat (Suc m)" and ?lv = "d - Suc m"
  let ?ei = "entry_index_at g depth p ?level"
  have d4: "d \<le> 4" using Suc.prems(1) by (simp add: run_inv_def)
  have lv: "unat ?level = ?lv"
    using level_facts [of m depth] Suc.prems(4) d4 d by simp
  have next_lv: "m > 0 \<Longrightarrow> d - m = Suc ?lv" using Suc.prems(4) by simp
  show ?case
  proof (cases "?lv < held s \<and> seen_index s ! ?lv = ?ei")
    case True
    then obtain pte where hit: "descend read_at g depth p (Suc m) c raw' nodes
        = descend read_at g depth p m (seen_next s ! ?lv) pte (push nodes c)"
      using descend_hit [of read_at g root s ?lv c depth p m raw' nodes] Suc.prems(1,6)
      by (auto simp: run_inv_def)
    have m: "m > 0"
      using True Suc.prems(1,2,4) d by (cases m) (auto simp: leaf_fresh_def run_inv_def)
    have rest: "run_levels read_at g depth p m (seen_next s ! ?lv) raw s = (r, s')"
      using Suc.prems(7) True run_levels_hit [of ?level depth m s g p read_at c raw]
      unfolding lv by (simp del: run_levels.simps)
    show ?thesis
      unfolding hit
      by (rule Suc.IH [OF Suc.prems(1,2) m _ _ _ rest])
        (use True Suc.prems(4) in \<open>simp_all add: next_lv [OF m] node_at_Suc [of s ?lv root]\<close>)
  next
    case False
    then obtain t where t: "run_inv read_at g root d t" "held t = held s"
        "\<And>j. node_at t root j = node_at s root j"
      and eq: "run_levels read_at g depth p (Suc m) c raw s =
       (case entry_verdict (u32_at read_at (entry_addr_of g c ?ei)) ?level ?ei of
          Inl f \<Rightarrow> (Inl f, t)
        | Inr (nx, pte) \<Rightarrow> run_levels read_at g depth p m nx pte (extend t ?lv ?ei nx))"
      using run_levels_miss [OF v Suc.prems(1) refl refl, of depth m p c raw] unfolding lv by blast
    show ?thesis
    proof (cases "entry_verdict (u32_at read_at (entry_addr_of g c ?ei)) ?level ?ei")
      case (Inl f)
      have "descend read_at g depth p (Suc m) c raw' nodes = (Inl f, push nodes c)"
        using Inl by (simp add: Let_def)
      moreover have "r = Inl f" and "s' = t"
        using Suc.prems(7) unfolding eq Inl by simp_all
      ultimately show ?thesis using t(1) by simp
    next
      case (Inr a)
      obtain nx pte where a: "a = (nx, pte)" by (cases a)
      have inv: "run_inv read_at g root d (extend t ?lv ?ei nx)"
        by (rule run_inv_extend [OF t(1)]) (use Inr Suc.prems(4-6) t a in simp_all)
      have len: "?lv < length (seen_next t)" "?lv < length (seen_index t)"
        using t(1) Suc.prems(4) d4 by (auto simp: run_inv_def)
      have plain: "descend read_at g depth p (Suc m) c raw' nodes
                     = descend read_at g depth p m nx pte (push nodes c)"
        using Inr a by (simp add: Let_def)
      have rest: "run_levels read_at g depth p m nx pte (extend t ?lv ?ei nx) = (r, s')"
        using Suc.prems(7) Inr a unfolding eq by simp
      show ?thesis
      proof (cases "m = 0")
        case True
        then show ?thesis
          unfolding plain using rest inv len Suc.prems(4) by (auto simp: Let_def)
      next
        case False
        then have m: "m > 0" by simp
        have fresh: "leaf_fresh g depth p (extend t ?lv ?ei nx)"
          using m Suc.prems(4) d by (auto simp: leaf_fresh_def)
        show ?thesis
          unfolding plain
          by (rule Suc.IH [OF inv fresh m _ _ _ rest])
            (use Suc.prems(4) node_at_extend [OF len(1)] in \<open>simp_all add: next_lv [OF m]\<close>)
      qed
    qed
  qed
qed

text \<open>
  Between pages nothing is held, or the whole of the previous page's path is; the deepest index
  of the next page then differs.
\<close>

definition between_pages :: "geometry \<Rightarrow> u32 \<Rightarrow> u32 \<Rightarrow> u64 \<Rightarrow> run_state \<Rightarrow> bool" where
  "between_pages g root depth p s \<longleftrightarrow>
     run_inv read_at g root (unat depth) s \<and>
     (held s = 0 \<or> seen_index s ! (unat depth - 1) = entry_index_at g depth (p - 1) (depth - 1))"

lemma between_pages_fresh:
  assumes "validate g = Inr ()" "depth \<noteq> 0" "between_pages g root depth p s"
  shows "leaf_fresh g depth p s"
  using leaf_index_steps [OF assms(1), of depth "p - 1"] assms(2,3)
  by (auto simp: between_pages_def leaf_fresh_def word_unat_eq_iff)

lemma run_inv_drop_held:
  "run_inv mem g root d s \<Longrightarrow> run_inv mem g root d (s\<lparr>held := 0\<rparr>)"
  by (simp add: run_inv_def chain_ok_def)

lemma between_pages_init:
  "unat depth \<le> 4 \<Longrightarrow> between_pages g root depth p run_state_init"
  by (simp add: between_pages_def run_inv_def chain_ok_def batch_ok_def run_state_init_def)

lemma run_page_correct:
  assumes v: "validate g = Inr ()" and root: "root \<noteq> 0" and depth: "depth \<noteq> 0" "depth \<le> MAX_DEPTH"
    and inv: "between_pages g root depth (shr64 a (page_shift g) + i) s"
    and fits: "unat (shr64 a (page_shift g) + i) < 2 ^ (64 - shift_of g)"
    and run: "run_page read_at g root depth a i s = (r, s')"
  shows "r = walk read_at g root depth (run_gva g a i)
       \<and> between_pages g root depth (shr64 a (page_shift g) + (i + 1)) s'"
proof -
  let ?p = "shr64 a (page_shift g) + i"
  have d: "0 < unat depth" using depth by (simp add: word_unat_eq_iff)
  obtain q t where levels: "run_levels read_at g depth ?p (unat depth) root 0 s = (q, t)"
    by fastforce
  have res: "q = fst (descend read_at g depth ?p (unat depth) root 0 node_path_default)
      \<and> run_inv read_at g root (unat depth) t
      \<and> (\<forall>x. q = Inr x \<longrightarrow> held t = unat depth
             \<and> seen_index t ! (unat depth - 1) = entry_index_at g depth ?p (depth - 1))"
    by (rule run_levels_correct [OF v refl _ between_pages_fresh [OF v depth(1) inv] d _ _ _ levels])
      (use inv in \<open>simp_all add: between_pages_def node_at_def\<close>)
  obtain nodes where desc:
    "descend read_at g depth ?p (unat depth) root 0 node_path_default = (q, nodes)"
    using res by (metis prod.collapse)
  have prev: "shr64 a (page_shift g) + (i + 1) - 1 = ?p" by simp
  have walk: "walk read_at g root depth (run_gva g a i) =
      (case q of Inl f \<Rightarrow> Inl f
       | Inr (c, raw) \<Rightarrow> Inr \<lparr>leaf_pfn = c, addr_page = pfn_to_addr g c,
           addr = pfn_to_addr g c + (run_gva g a i AND page_offset_mask g),
           page_index = ?p, raw_pte = raw\<rparr>)"
    using v root depth desc
    by (simp add: walk_def walk_recording_nodes_def run_gva_index [OF v fits] Let_def linorder_not_less
        split: sum.split)
  show ?thesis
  proof (cases q)
    case (Inl f)
    then show ?thesis
      using run levels res walk run_inv_drop_held
      by (auto simp: run_page_def Let_def between_pages_def)
  next
    case (Inr x)
    then show ?thesis
      using run levels res walk
      by (cases x) (auto simp: run_page_def Let_def between_pages_def prev)
  qed
qed

lemma run_pages_correct:
  assumes v: "validate g = Inr ()" and root: "root \<noteq> 0" and depth: "depth \<noteq> 0" "depth \<le> MAX_DEPTH"
  shows "between_pages g root depth (shr64 a (page_shift g) + i) s \<Longrightarrow>
    unat (shr64 a (page_shift g)) + unat i + n \<le> 2 ^ (64 - shift_of g) \<Longrightarrow>
    run_pages read_at g root depth a visit n i s vs = walk_each read_at g root depth a visit n i vs"
proof (induction n arbitrary: i s vs)
  case (Suc n)
  let ?p = "shr64 a (page_shift g)"
  obtain r s' where page: "run_page read_at g root depth a i s = (r, s')" by fastforce
  have le: "(2 :: nat) ^ (64 - shift_of g) \<le> 2 ^ 52"
    using shift_valid [OF v] by auto
  have fits: "unat (?p + i) < 2 ^ (64 - shift_of g)"
    using Suc.prems(2) le by (subst unat_add_no_wrap) auto
  have i1: "unat (i + 1) = unat i + 1"
    using Suc.prems(2) le by (subst unat_add_no_wrap) auto
  from run_page_correct [OF v root depth Suc.prems(1) fits page]
  have r: "r = walk read_at g root depth (run_gva g a i)"
    and next_inv: "between_pages g root depth (?p + (i + 1)) s'" by simp_all
  show ?case
    using Suc.IH [OF next_inv] Suc.prems(2) i1 page r by (auto split: prod.split)
qed simp

theorem run_eq_each:
  assumes "validate g = Inr ()" "root \<noteq> 0" "depth \<noteq> 0" "depth \<le> MAX_DEPTH"
    and "unat (shr64 a (page_shift g)) + unat pages \<le> 2 ^ (64 - shift_of g)"
  shows "walk_run read_at g root depth a pages visit vs
           = walk_each read_at g root depth a visit (unat pages) 0 vs"
proof -
  have "unat depth \<le> 4"
    using assms(4) by (simp add: MAX_DEPTH_def word_le_nat_alt)
  moreover have "\<not> MAX_DEPTH < depth" using assms(4) by simp
  ultimately show ?thesis
    using assms(1-3,5) run_pages_correct [OF assms(1-4) between_pages_init, of a 0]
    by (simp add: walk_run_def)
qed

end

end
