(* ===== verification/Resolve.thy ===== *)
theory Resolve
  imports WalkRun
begin

text \<open>
  Task resolution above the page-table format, crates/reims-vgpu-paging/src/resolve.rs: the
  task's directory, the typed refusals, the single and the run form of a translation, the
  interior nodes an address descends through, and the coverage count of a range.
\<close>

unbundle bit_operations_syntax

section \<open>Tasks and statuses\<close>

definition geometry_for_page_shift :: "u32 \<Rightarrow> geometry option" where
  "geometry_for_page_shift shift =
     (if shift = page_shift X86_64 then Some X86_64
      else if shift = page_shift ARM64E then Some ARM64E
      else None)"

record task =
  active :: bool
  directory_pfn :: u32

record task_root =
  tr_directory_pfn :: u32
  tr_root_pfn :: u32
  tr_depth :: u32

datatype resolve_status =
  StatusOk | ErrArgs | ErrInactiveTask | ErrNoDirectory | ErrDirectoryRead | ErrZeroRootPfn
  | ErrZeroDepth | ErrDepthTooDeep | ErrPageTableRead | ErrZeroPfn | ErrMalformedPte
  | ErrUnsupportedGeometry

fun resolve_status_of :: "walk_error \<Rightarrow> resolve_status" where
  "resolve_status_of UnsupportedGeometry = ErrUnsupportedGeometry"
| "resolve_status_of ZeroRootPfn = ErrZeroRootPfn"
| "resolve_status_of ZeroDepth = ErrZeroDepth"
| "resolve_status_of DepthTooDeep = ErrDepthTooDeep"
| "resolve_status_of TableRead = ErrPageTableRead"
| "resolve_status_of NotPresent = ErrZeroPfn"
| "resolve_status_of MalformedPte = ErrMalformedPte"

fun resolve_status_name :: "resolve_status \<Rightarrow> string" where
  "resolve_status_name StatusOk = ''ok''"
| "resolve_status_name ErrArgs = ''args''"
| "resolve_status_name ErrInactiveTask = ''inactive-task''"
| "resolve_status_name ErrNoDirectory = ''no-directory''"
| "resolve_status_name ErrDirectoryRead = ''directory-read''"
| "resolve_status_name ErrZeroRootPfn = ''zero-root-pfn''"
| "resolve_status_name ErrZeroDepth = ''zero-depth''"
| "resolve_status_name ErrDepthTooDeep = ''depth-too-deep''"
| "resolve_status_name ErrPageTableRead = ''page-table-read''"
| "resolve_status_name ErrZeroPfn = ''zero-pfn''"
| "resolve_status_name ErrMalformedPte = ''malformed-pte''"
| "resolve_status_name ErrUnsupportedGeometry = ''unsupported-geometry''"

definition read_task_root :: "reader \<Rightarrow> task \<Rightarrow> geometry \<Rightarrow> resolve_status + task_root" where
  "read_task_root mem t g =
     (case validate g of
        Inl _ \<Rightarrow> Inl ErrUnsupportedGeometry
      | Inr _ \<Rightarrow>
        if \<not> active t then Inl ErrInactiveTask
        else if directory_pfn t = 0 then Inl ErrNoDirectory
        else (case read_directory mem g (directory_pfn t) of
                Inl _ \<Rightarrow> Inl ErrDirectoryRead
              | Inr (root_pfn, depth) \<Rightarrow>
                  Inr \<lparr>tr_directory_pfn = directory_pfn t, tr_root_pfn = root_pfn,
                       tr_depth = depth\<rparr>))"

section \<open>Interior nodes of one address\<close>

text \<open>
  The caller's array is overwritten from its front by the nodes read and keeps its other
  slots; the count is returned.
\<close>

definition task_node_gpas :: "reader \<Rightarrow> geometry \<Rightarrow> task \<Rightarrow> u64 \<Rightarrow> u64 list \<Rightarrow> u64 list \<times> nat" where
  "task_node_gpas mem g t gva out =
     (case read_task_root mem t g of
        Inl _ \<Rightarrow> (out, 0)
      | Inr root \<Rightarrow>
          let nodes = snd (walk_recording_nodes mem g (tr_root_pfn root) (tr_depth root) gva
                             node_path_default);
              gpas = map (pfn_to_addr g) (pfns nodes)
          in (take (length out) gpas @ drop (length gpas) out, length (pfns nodes)))"

section \<open>Translation of one address and of a run\<close>

record translation =
  tl_status :: resolve_status
  tl_gva :: u64
  tl_gpa :: u64
  tl_gva_page_index :: u64
  tl_gpa_page :: u64
  tl_directory_pfn :: u32
  tl_root_pfn :: u32
  tl_depth :: u32
  tl_leaf_pfn :: u32
  tl_level :: u32
  tl_entry_index :: u32
  tl_raw_pte :: u32

definition translate_root :: "reader \<Rightarrow> geometry \<Rightarrow> u32 \<Rightarrow> u32 \<Rightarrow> u64 \<Rightarrow> translation" where
  "translate_root mem g root_pfn depth gva =
     (let out = \<lparr>tl_status = StatusOk, tl_gva = gva, tl_gpa = 0, tl_gva_page_index = 0,
                 tl_gpa_page = 0, tl_directory_pfn = 0, tl_root_pfn = root_pfn, tl_depth = depth,
                 tl_leaf_pfn = 0, tl_level = 0, tl_entry_index = 0, tl_raw_pte = 0\<rparr>
      in case validate g of
           Inl _ \<Rightarrow> out\<lparr>tl_status := ErrUnsupportedGeometry\<rparr>
         | Inr _ \<Rightarrow>
             let out = out\<lparr>tl_gva_page_index := shr64 gva (page_shift g)\<rparr>
             in case walk mem g root_pfn depth gva of
                  Inr w \<Rightarrow>
                    out\<lparr>tl_level := depth - 1,
                        tl_entry_index := ucast (page_index w AND index_mask g),
                        tl_raw_pte := raw_pte w, tl_status := StatusOk,
                        tl_leaf_pfn := leaf_pfn w, tl_gpa_page := addr_page w,
                        tl_gpa := addr w\<rparr>
                | Inl f \<Rightarrow>
                    out\<lparr>tl_level := wf_level f, tl_entry_index := wf_entry_index f,
                        tl_raw_pte := wf_raw_pte f,
                        tl_status := resolve_status_of (wf_error f)\<rparr>)"

definition as_resolved :: "walk_failure + walk_ok \<Rightarrow> resolve_status + u64" where
  "as_resolved r = (case r of Inl f \<Rightarrow> Inl (resolve_status_of (wf_error f)) | Inr w \<Rightarrow> Inr (addr w))"

definition translate_root_run ::
  "reader \<Rightarrow> geometry \<Rightarrow> u32 \<Rightarrow> u32 \<Rightarrow> u64 \<Rightarrow> u64
     \<Rightarrow> ('v, resolve_status + u64) visitor \<Rightarrow> 'v \<Rightarrow> 'v" where
  "translate_root_run mem g root_pfn depth first_gva pages visit v =
     (case validate g of
        Inl _ \<Rightarrow> v
      | Inr _ \<Rightarrow>
        if root_pfn = 0 \<or> depth = 0 then v
        else walk_run mem g root_pfn depth first_gva pages
               (\<lambda>v index walked. visit v index (as_resolved walked)) v)"

section \<open>Coverage of a range\<close>

record coverage =
  rc_pages :: u64
  rc_present :: u64
  rc_absent :: u64
  rc_undecidable :: u64
  rc_first_absent_index :: u64
  rc_first_absent_level :: u32
  rc_depth :: u32

definition coverage_visit :: "coverage \<Rightarrow> u64 \<Rightarrow> walk_failure + walk_ok \<Rightarrow> coverage \<times> bool" where
  "coverage_visit out index walked =
     (case walked of
        Inr _ \<Rightarrow> out\<lparr>rc_present := rc_present out + 1\<rparr>
      | Inl f \<Rightarrow>
          if wf_error f = NotPresent
          then (let out = (if rc_absent out = 0
                           then out\<lparr>rc_first_absent_index := index,
                                    rc_first_absent_level := wf_level f\<rparr> else out)
                in out\<lparr>rc_absent := rc_absent out + 1\<rparr>)
          else out\<lparr>rc_undecidable := rc_undecidable out + 1\<rparr>, True)"

definition range_coverage :: "reader \<Rightarrow> geometry \<Rightarrow> task \<Rightarrow> u64 \<Rightarrow> u64 \<Rightarrow> coverage option" where
  "range_coverage mem g t first_gva pages =
     (case read_task_root mem t g of
        Inl _ \<Rightarrow> None
      | Inr root \<Rightarrow>
          if tr_root_pfn root = 0 \<or> tr_depth root = 0 then None
          else Some (walk_run mem g (tr_root_pfn root) (tr_depth root) first_gva pages coverage_visit
                 \<lparr>rc_pages = pages, rc_present = 0, rc_absent = 0, rc_undecidable = 0,
                  rc_first_absent_index = 0, rc_first_absent_level = 0,
                  rc_depth = tr_depth root\<rparr>))"

end
