(* ===== verification/Span.thy ===== *)
theory Span
  imports Resolve
begin

text \<open>
  Byte spans over a task's pages, crates/reims-vgpu-paging/src/span.rs.
\<close>

unbundle bit_operations_syntax

text \<open>\<open>u64::div_ceil\<close>: the quotient, one more when there is a remainder.\<close>

definition div_ceil :: "u64 \<Rightarrow> u64 \<Rightarrow> u64" where
  "div_ceil a b = (if a mod b > 0 then a div b + 1 else a div b)"

definition pages_spanned :: "u64 \<Rightarrow> u64 \<Rightarrow> u64 \<Rightarrow> u64" where
  "pages_spanned gva span page_sz = div_ceil ((gva mod page_sz) + span) page_sz"

definition walk_span ::
  "reader \<Rightarrow> geometry \<Rightarrow> task \<Rightarrow> u64 \<Rightarrow> u64 \<Rightarrow> ('v, resolve_status + u64) visitor \<Rightarrow> 'v
     \<Rightarrow> resolve_status + 'v" where
  "walk_span mem g t gva span visit v =
     (case validate g of
        Inl _ \<Rightarrow> Inl ErrUnsupportedGeometry
      | Inr _ \<Rightarrow>
        (case read_task_root mem t g of
           Inl e \<Rightarrow> Inl e
         | Inr root \<Rightarrow>
             if tr_root_pfn root = 0 then Inl ErrZeroRootPfn
             else if tr_depth root = 0 then Inl ErrZeroDepth
             else if span = 0 then Inr v
             else
               let page = page_size g; m = page_offset_mask g in
               Inr (translate_root_run mem g (tr_root_pfn root) (tr_depth root)
                      (gva AND NOT m) (pages_spanned gva span page)
                      (\<lambda>v index r. visit v index (map_sum id (\<lambda>gpa. gpa AND NOT m) r)) v)))"

datatype span_refusal = Setup resolve_status | Page resolve_status

record span_chunk =
  ch_gpa :: u64
  ch_offset :: nat
  ch_len :: nat

definition chunk_range :: "span_chunk \<Rightarrow> nat \<times> nat" where
  "chunk_range c = (ch_offset c, ch_offset c + ch_len c)"

text \<open>
  The closure of \<open>visit_span_chunks\<close>: its captured \<open>done\<close> and \<open>refused\<close> are threaded with the
  caller's visitor state.
\<close>

definition chunk_visit ::
  "geometry \<Rightarrow> u64 \<Rightarrow> nat \<Rightarrow> ('v \<Rightarrow> span_chunk \<Rightarrow> 'v \<times> bool)
     \<Rightarrow> (nat \<times> resolve_status option \<times> 'v) \<Rightarrow> u64 \<Rightarrow> resolve_status + u64
     \<Rightarrow> (nat \<times> resolve_status option \<times> 'v) \<times> bool" where
  "chunk_visit g gva len visit = (\<lambda>(done_n, refused, v) _ r.
     case r of
       Inl status \<Rightarrow> ((done_n, Some status, v), False)
     | Inr page_base \<Rightarrow>
         let cur = saturating_add gva (of_nat done_n);
             in_page = cur AND page_offset_mask g;
             n = min (len - done_n) (unat (page_size g - in_page));
             chunk = \<lparr>ch_gpa = page_base + in_page, ch_offset = done_n, ch_len = n\<rparr>
         in case visit v chunk of (v, go) \<Rightarrow> ((done_n + n, refused, v), go))"

definition visit_span_chunks ::
  "reader \<Rightarrow> geometry \<Rightarrow> task \<Rightarrow> u64 \<Rightarrow> nat \<Rightarrow> ('v \<Rightarrow> span_chunk \<Rightarrow> 'v \<times> bool) \<Rightarrow> 'v
     \<Rightarrow> span_refusal + 'v" where
  "visit_span_chunks mem g t gva len visit v =
     (if len = 0 then Inr v
      else (case walk_span mem g t gva (of_nat len) (chunk_visit g gva len visit) (0, None, v) of
              Inl e \<Rightarrow> Inl (Setup e)
            | Inr (done_n, refused, v) \<Rightarrow>
                (case refused of Some status \<Rightarrow> Inl (Page status) | None \<Rightarrow> Inr v)))"

definition span_chunks :: "reader \<Rightarrow> geometry \<Rightarrow> task \<Rightarrow> u64 \<Rightarrow> nat \<Rightarrow> span_refusal + span_chunk list" where
  "span_chunks mem g t gva len =
     visit_span_chunks mem g t gva len (\<lambda>out chunk. (out @ [chunk], True)) []"

definition bases_visit ::
  "(u64 list \<times> resolve_status option) \<Rightarrow> u64 \<Rightarrow> resolve_status + u64
     \<Rightarrow> (u64 list \<times> resolve_status option) \<times> bool" where
  "bases_visit = (\<lambda>(out, refused) _ r.
     case r of
       Inr page_base \<Rightarrow> ((out @ [page_base], refused), True)
     | Inl status \<Rightarrow> ((out, Some status), False))"

definition span_page_bases :: "reader \<Rightarrow> geometry \<Rightarrow> task \<Rightarrow> u64 \<Rightarrow> u64 \<Rightarrow> span_refusal + u64 list" where
  "span_page_bases mem g t gva span =
     (case walk_span mem g t gva span bases_visit ([], None) of
        Inl e \<Rightarrow> Inl (Setup e)
      | Inr (out, refused) \<Rightarrow>
          (case refused of Some status \<Rightarrow> Inl (Page status) | None \<Rightarrow> Inr out))"

end
