(* ===== verification/SpanFacts.thy ===== *)
theory SpanFacts
  imports Span
begin

text \<open>
  The run walkers as one fold over the answers of the pages, the arithmetic of a span's pages,
  and the translation of a byte through its page.
\<close>

unbundle bit_operations_syntax

section \<open>Stopping folds\<close>

primrec visit_list :: "('v, 'r) visitor \<Rightarrow> (u64 \<times> 'r) list \<Rightarrow> 'v \<Rightarrow> 'v" where
  "visit_list visit [] v = v"
| "visit_list visit (x # xs) v =
     (case visit v (fst x) (snd x) of (v, go) \<Rightarrow> if go then visit_list visit xs v else v)"

lemma visit_list_map:
  "visit_list visit (map (map_prod id f) xs) v = visit_list (\<lambda>v i r. visit v i (f r)) xs v"
  by (induction xs arbitrary: v) (auto split: prod.split)

lemma visit_list_map_Pair:
  "visit_list (\<lambda>v i r. visit v i (f r)) (map (\<lambda>k. (h k, r k)) ks) v
     = visit_list visit (map (\<lambda>k. (h k, f (r k))) ks) v"
  by (simp add: visit_list_map [symmetric] o_def)

lemma walk_each_visit_list:
  "walk_each mem g root depth a visit n i v =
     visit_list visit (map (\<lambda>k. (i + of_nat k, walk mem g root depth (run_gva g a (i + of_nat k))))
       [0..<n]) v"
proof (induction n arbitrary: i v)
  case (Suc n)
  have "[0..<Suc n] = 0 # map Suc [0..<n]"
    by (simp add: upt_conv_Cons map_Suc_upt del: upt_Suc)
  then show ?case
    using Suc.IH [of "i + 1"] by (auto simp: o_def add_ac split: prod.split)
qed simp

definition resolve_at :: "reader \<Rightarrow> geometry \<Rightarrow> u32 \<Rightarrow> u32 \<Rightarrow> u64 \<Rightarrow> resolve_status + u64" where
  "resolve_at mem g root depth x = as_resolved (walk mem g root depth x)"

lemma translate_root_run_fold:
  assumes "guest_memory mem" and "validate g = Inr ()" "root \<noteq> 0" "depth \<noteq> 0" "depth \<le> MAX_DEPTH"
    and "unat (shr64 a (page_shift g)) + unat pages \<le> 2 ^ (64 - shift_of g)"
  shows "translate_root_run mem g root depth a pages visit v =
     visit_list visit (map (\<lambda>k. (of_nat k, resolve_at mem g root depth (run_gva g a (of_nat k))))
       [0..<unat pages]) v"
  using assms(2-4)
  by (simp add: translate_root_run_def guest_memory.run_eq_each [OF assms] walk_each_visit_list
      visit_list_map_Pair [where visit = visit and f = as_resolved] resolve_at_def)

section \<open>Pages and bytes\<close>

lemma unat_and_mask: "unat (x AND mask n :: u64) = unat x mod 2 ^ n"
  by (metis take_bit_eq_mask unsigned_take_bit_eq take_bit_eq_mod)

lemma page_offset_mask_valid:
  "validate g = Inr () \<Longrightarrow> page_offset_mask g = mask (shift_of g)"
  using shift_valid [of g] by (auto simp: page_offset_mask_eq)

lemma unat_in_page:
  "validate g = Inr () \<Longrightarrow> unat (x AND page_offset_mask g) = unat x mod 2 ^ shift_of g"
  by (simp add: page_offset_mask_valid unat_and_mask)

lemma unat_shr_page:
  assumes "validate g = Inr ()"
  shows "unat (shr64 x (page_shift g)) = unat x div 2 ^ shift_of g"
proof -
  have "shift_of g mod 64 = shift_of g" using shift_valid [OF assms] by auto
  then show ?thesis by (metis shr64_def unat_drop_bit_eq drop_bit_eq_div)
qed

lemma unat_shl_page:
  assumes "validate g = Inr ()" and "unat p * 2 ^ shift_of g < 2 ^ 64"
  shows "unat (shl64 p (page_shift g)) = unat p * 2 ^ shift_of g"
proof -
  have "shift_of g mod 64 = shift_of g" using shift_valid [OF assms(1)] by auto
  then have "shl64 p (page_shift g) = p * 2 ^ shift_of g"
    by (simp add: shl64_def push_bit_eq_mult)
  moreover have "unat (2 ^ shift_of g :: u64) = 2 ^ shift_of g"
    using shift_valid [OF assms(1)] by auto
  ultimately show ?thesis
    using assms(2) by (simp add: unat_mult_no_wrap)
qed

lemma shr_page_base:
  assumes "validate g = Inr ()"
  shows "shr64 (x AND NOT (page_offset_mask g)) (page_shift g) = shr64 x (page_shift g)"
proof -
  have s: "shift_of g mod 64 = shift_of g" using shift_valid [OF assms] by auto
  show ?thesis
    unfolding shr64_def page_offset_mask_valid [OF assms] s
    by (rule bit_eqI) (auto simp: bit_simps dest: bit_imp_le_length)
qed

lemma base_no_offset: "(x AND NOT m) AND m = (0 :: 'a::len word)"
  by (rule bit_eqI) (auto simp: bit_simps)

lemma base_plus_offset: "(x AND NOT m) + (x AND m) = (x :: 'a::len word)"
  by (subst disjunctive_add) (auto simp: bit_simps intro: bit_eqI)

text \<open>The address a run over a span's pages forms for page \<open>k\<close> is that page's base.\<close>

lemma run_gva_base:
  assumes v: "validate g = Inr ()" and x: "unat x div 2 ^ shift_of g = unat gva div 2 ^ shift_of g + k"
  shows "run_gva g (gva AND NOT (page_offset_mask g)) (of_nat k) = x AND NOT (page_offset_mask g)"
proof -
  let ?S = "2 ^ shift_of g :: nat" and ?m = "page_offset_mask g"
  have xb: "unat x < 2 ^ 64" using unat_lt2p [of x] by simp
  have p: "unat (shr64 gva (page_shift g) + of_nat k) = unat x div ?S"
  proof -
    have "unat x div ?S \<le> unat x" by (rule div_le_dividend)
    with xb x have "unat (shr64 gva (page_shift g)) + k < 2 ^ 64"
      by (simp add: unat_shr_page [OF v])
    then show ?thesis by (simp add: unat_add_nat unat_shr_page [OF v] x)
  qed
  have le: "unat x div ?S * ?S \<le> unat x"
    by (metis div_mult_mod_eq le_add1)
  have "unat (run_gva g (gva AND NOT ?m) (of_nat k)) = unat x div ?S * ?S"
  proof -
    have "unat (shr64 gva (page_shift g) + of_nat k) * ?S < 2 ^ 64"
      unfolding p using le xb by (rule le_less_trans)
    from unat_shl_page [OF v this] show ?thesis
      unfolding run_gva_def shr_page_base [OF v] base_no_offset p by simp
  qed
  moreover have "unat (x AND NOT ?m) = unat x - unat x mod ?S"
  proof -
    have "x AND NOT ?m = x - (x AND ?m)"
      using base_plus_offset [of x ?m] by (metis add_diff_cancel_right')
    moreover have "x AND ?m \<le> x" by (simp add: word_le_nat_alt unat_in_page [OF v])
    ultimately show ?thesis by (simp add: unat_sub_no_wrap unat_in_page [OF v])
  qed
  ultimately show ?thesis
    by (simp add: word_unat_eq_iff minus_mod_eq_div_mult)
qed

text \<open>A byte is translated with its page: same frame, the byte's own offset.\<close>

lemma walk_of_base:
  assumes v: "validate g = Inr ()"
  shows "walk mem g root depth x =
    map_sum id (\<lambda>w. w\<lparr>addr := addr_page w + (x AND page_offset_mask g)\<rparr>)
      (walk mem g root depth (x AND NOT (page_offset_mask g)))"
  using v
  by (auto simp: walk_def walk_recording_nodes_def shr_page_base [OF v] Let_def base_no_offset
      split: prod.split sum.split)

lemma walk_addr:
  assumes "walk mem g root depth x = Inr w"
  shows "addr w = addr_page w + (x AND page_offset_mask g)" "addr_page w = pfn_to_addr g (leaf_pfn w)"
    "page_index w = shr64 x (page_shift g)" "validate g = Inr ()" "root \<noteq> 0" "depth \<noteq> 0"
    "depth \<le> MAX_DEPTH"
  using assms
  by (auto simp: walk_def walk_recording_nodes_def Let_def split: sum.splits if_splits prod.splits)

lemma resolve_of_base:
  assumes v: "validate g = Inr ()"
  shows "resolve_at mem g root depth x =
    map_sum id (\<lambda>b. b + (x AND page_offset_mask g))
      (resolve_at mem g root depth (x AND NOT (page_offset_mask g)))"
proof (cases "walk mem g root depth (x AND NOT (page_offset_mask g))")
  case (Inl f)
  then show ?thesis by (simp add: resolve_at_def as_resolved_def walk_of_base [OF v, of mem root depth x])
next
  case (Inr w)
  then show ?thesis
    using walk_addr(1) [OF Inr]
    by (simp add: resolve_at_def as_resolved_def walk_of_base [OF v, of mem root depth x] base_no_offset)
qed

lemma resolve_base_aligned:
  assumes v: "validate g = Inr ()"
    and r: "resolve_at mem g root depth (x AND NOT (page_offset_mask g)) = Inr b"
  shows "b AND page_offset_mask g = 0" "b AND NOT (page_offset_mask g) = b"
    "unat b + 2 ^ shift_of g \<le> 2 ^ 46"
proof -
  from r obtain w where w: "walk mem g root depth (x AND NOT (page_offset_mask g)) = Inr w"
    and b: "b = addr w"
    by (auto simp: resolve_at_def as_resolved_def split: sum.splits)
  have bw: "b = pfn_to_addr g (leaf_pfn w)"
    using walk_addr(1,2) [OF w] by (simp add: b base_no_offset)
  have nb: "unat b = unat (leaf_pfn w) * 2 ^ shift_of g"
    by (simp add: bw unat_pfn_to_addr [OF v])
  show z: "b AND page_offset_mask g = 0"
    by (simp add: word_unat_eq_iff unat_in_page [OF v] nb)
  show "b AND NOT (page_offset_mask g) = b"
    using base_plus_offset [of b "page_offset_mask g"] by (simp add: z)
  have "unat (leaf_pfn w) + 1 \<le> 2 ^ 32" using unat_lt2p [of "leaf_pfn w"] by simp
  then have "(unat (leaf_pfn w) + 1) * 2 ^ shift_of g \<le> 2 ^ 32 * 2 ^ shift_of g"
    by (rule mult_le_mono1)
  also have "\<dots> \<le> 2 ^ 46" using shift_valid [OF v] by auto
  finally show "unat b + 2 ^ shift_of g \<le> 2 ^ 46" by (simp add: nb algebra_simps)
qed

end
