(* ===== verification/Coverage.thy ===== *)
theory Coverage
  imports SpanFacts
begin

text \<open>
  The run walkers over a whole range: each page's answer is the single walk's, and the coverage
  count reports exactly how many pages are present, absent and undecidable.
\<close>

definition record_page :: "(u64 \<times> 'r) list \<Rightarrow> u64 \<Rightarrow> 'r \<Rightarrow> (u64 \<times> 'r) list \<times> bool" where
  "record_page v i r = (v @ [(i, r)], True)"

section \<open>Runs against single translations\<close>

text \<open>C2: Walking a run of consecutive pages in one pass, which carries the shared prefix of the
  descent and batches the deepest level's entries, shows the visitor exactly what walking each
  page from the root on its own shows it, failures and early stops included. The addresses of
  the run must not pass the end of the address space.\<close>

theorem walk_run_is_walk_each:
  assumes "guest_memory mem" and "validate g = Inr ()" "root \<noteq> 0" "depth \<noteq> 0" "depth \<le> MAX_DEPTH"
    and "unat (shr64 a (page_shift g)) + unat pages \<le> 2 ^ (64 - shift_of g)"
  shows "walk_run mem g root depth a pages visit v
    = walk_each mem g root depth a visit (unat pages) 0 v"
  using assms by (rule guest_memory.run_eq_each)

theorem walk_run_is_walk_each_witness:
  "walk_run (slice_read_at (replicate 64 1)) X86_64 1 2 0x2fff 3 record_page []
     = walk_each (slice_read_at (replicate 64 1)) X86_64 1 2 0x2fff record_page 3 0 []"
  using walk_run_is_walk_each [OF slice_mem.guest_memory_axioms,
      of X86_64 1 2 "0x2fff" 3 "replicate 64 1" record_page "[]"]
  by (simp add: X86_64_def validate_def MAX_DEPTH_def shr64_def drop_bit_eq_div)

definition translation_outcome :: "translation \<Rightarrow> resolve_status + u64" where
  "translation_outcome t = (if tl_status t = StatusOk then Inr (tl_gpa t) else Inl (tl_status t))"

lemma resolve_status_of_not_ok: "resolve_status_of e \<noteq> StatusOk"
  by (cases e) simp_all

lemma translate_root_resolves:
  "validate g = Inr () \<Longrightarrow>
     translation_outcome (translate_root mem g root depth x) = resolve_at mem g root depth x"
  by (auto simp: translation_outcome_def translate_root_def resolve_at_def as_resolved_def Let_def
      resolve_status_of_not_ok split: sum.split)

text \<open>The run form of a translation and the single form cannot disagree: page \<open>k\<close> of
  \<open>translate_root_run\<close> is reported with the status, or the address, that \<open>translate_root\<close>
  gives for that page alone.\<close>

theorem translate_root_run_pointwise:
  assumes "guest_memory mem" and "validate g = Inr ()" "root \<noteq> 0" "depth \<noteq> 0" "depth \<le> MAX_DEPTH"
    and "unat (shr64 a (page_shift g)) + unat pages \<le> 2 ^ (64 - shift_of g)"
  shows "translate_root_run mem g root depth a pages visit v =
    visit_list visit
      (map (\<lambda>k. (of_nat k, translation_outcome (translate_root mem g root depth (run_gva g a (of_nat k)))))
        [0..<unat pages]) v"
  by (simp only: translate_root_run_fold [OF assms] translate_root_resolves [OF assms(2)])

theorem translate_root_run_pointwise_witness:
  "translate_root_run (slice_read_at (replicate 64 1)) X86_64 1 2 0x2fff 3 record_page [] =
    visit_list record_page
      (map (\<lambda>k. (of_nat k, translation_outcome
          (translate_root (slice_read_at (replicate 64 1)) X86_64 1 2 (run_gva X86_64 0x2fff (of_nat k)))))
        [0..<3]) []"
  using translate_root_run_pointwise [OF slice_mem.guest_memory_axioms,
      of X86_64 1 2 "0x2fff" 3 "replicate 64 1" record_page "[]"]
  by (simp add: X86_64_def validate_def MAX_DEPTH_def shr64_def drop_bit_eq_div del: upt_Suc)

section \<open>Coverage\<close>

definition page_present :: "walk_failure + walk_ok \<Rightarrow> bool" where
  "page_present r = (case r of Inr _ \<Rightarrow> True | Inl _ \<Rightarrow> False)"

definition page_absent :: "walk_failure + walk_ok \<Rightarrow> bool" where
  "page_absent r = (case r of Inr _ \<Rightarrow> False | Inl f \<Rightarrow> wf_error f = NotPresent)"

definition count_pages :: "('a \<Rightarrow> bool) \<Rightarrow> (nat \<Rightarrow> 'a) \<Rightarrow> nat \<Rightarrow> u64" where
  "count_pages P r n = of_nat (length (filter (\<lambda>k. P (r k)) [0..<n]))"

definition first_absent :: "(nat \<Rightarrow> walk_failure + walk_ok) \<Rightarrow> nat \<Rightarrow> nat option" where
  "first_absent r n = find (\<lambda>k. page_absent (r k)) [0..<n]"

definition failure_level :: "walk_failure + walk_ok \<Rightarrow> u32" where
  "failure_level r = (case r of Inl f \<Rightarrow> wf_level f | Inr _ \<Rightarrow> 0)"

definition coverage_of :: "u64 \<Rightarrow> u32 \<Rightarrow> (nat \<Rightarrow> walk_failure + walk_ok) \<Rightarrow> nat \<Rightarrow> coverage" where
  "coverage_of pages depth r n =
     \<lparr>rc_pages = pages,
      rc_present = count_pages page_present r n,
      rc_absent = count_pages page_absent r n,
      rc_undecidable = count_pages (\<lambda>x. \<not> page_present x \<and> \<not> page_absent x) r n,
      rc_first_absent_index = (case first_absent r n of None \<Rightarrow> 0 | Some k \<Rightarrow> of_nat k),
      rc_first_absent_level = (case first_absent r n of None \<Rightarrow> 0 | Some k \<Rightarrow> failure_level (r k)),
      rc_depth = depth\<rparr>"

lemma count_pages_Suc:
  "count_pages P r (Suc n) = (if P (r n) then count_pages P r n + 1 else count_pages P r n)"
  by (simp add: count_pages_def)

lemma find_append: "find P (xs @ ys) = (case find P xs of None \<Rightarrow> find P ys | Some x \<Rightarrow> Some x)"
  by (induction xs) simp_all

lemma first_absent_Suc:
  "first_absent r (Suc n) = (case first_absent r n of
     None \<Rightarrow> if page_absent (r n) then Some n else None | Some k \<Rightarrow> Some k)"
  by (simp add: first_absent_def find_append split: option.split)

lemma count_zero_first_absent:
  assumes "n < 2 ^ 64"
  shows "count_pages page_absent r n = 0 \<longleftrightarrow> first_absent r n = None"
proof -
  have "length (filter (\<lambda>k. page_absent (r k)) [0..<n]) \<le> length [0..<n]" by (rule length_filter_le)
  with assms have "unat (count_pages page_absent r n) = length (filter (\<lambda>k. page_absent (r k)) [0..<n])"
    by (simp add: count_pages_def unat_of_nat_small)
  then show ?thesis
    by (auto simp: word_unat_eq_iff first_absent_def find_None_iff filter_empty_conv)
qed

lemma visit_list_snoc:
  assumes "\<And>v i r. snd (visit v i r)"
  shows "visit_list visit (xs @ [x]) v = fst (visit (visit_list visit xs v) (fst x) (snd x))"
proof (induction xs arbitrary: v)
  case Nil
  then show ?case using assms by (simp split: prod.split)
next
  case (Cons y xs)
  then show ?case using assms [of v "fst y" "snd y"] by (auto split: prod.split)
qed

lemma page_simps [simp]:
  "page_present (Inr w)" "\<not> page_present (Inl f)" "\<not> page_absent (Inr w)"
  "page_absent (Inl f) \<longleftrightarrow> wf_error f = NotPresent" "failure_level (Inl f) = wf_level f"
  by (simp_all add: page_present_def page_absent_def failure_level_def)

lemma coverage_step:
  assumes "n < 2 ^ 64"
  shows "coverage_visit (coverage_of pages depth r n) (of_nat n) (r n)
    = (coverage_of pages depth r (Suc n), True)"
proof (cases "r n")
  case (Inl f)
  then show ?thesis
    using count_zero_first_absent [OF assms, of r]
    by (cases "first_absent r n")
      (auto simp: coverage_visit_def coverage_of_def Let_def count_pages_Suc first_absent_Suc)
next
  case (Inr w)
  then show ?thesis
    by (simp add: coverage_visit_def coverage_of_def count_pages_Suc first_absent_Suc split: option.split)
qed

lemma coverage_fold:
  assumes "n < 2 ^ 64"
  shows "visit_list coverage_visit (map (\<lambda>k. (of_nat k, r k)) [0..<n]) (coverage_of pages depth r 0)
    = coverage_of pages depth r n"
  using assms
proof (induction n)
  case (Suc n)
  have always: "snd (coverage_visit v i q)" for v i q by (simp add: coverage_visit_def)
  from Suc show ?case by (simp add: visit_list_snoc [OF always] coverage_step)
qed simp

text \<open>The three counts partition the range.\<close>

lemma coverage_partition:
  assumes "n < 2 ^ 64"
  shows "rc_present (coverage_of pages depth r n) + rc_absent (coverage_of pages depth r n)
    + rc_undecidable (coverage_of pages depth r n) = of_nat n"
proof (induction n)
  case (Suc n)
  then show ?case
    by (cases "r n") (auto simp: coverage_of_def count_pages_Suc algebra_simps)
qed (simp add: coverage_of_def count_pages_def)

text \<open>C20: \<open>range_coverage\<close>, from a root of at most \<open>MAX_DEPTH\<close> levels, classifies every page of the range once: the counts of present, absent
  and undecidable pages are the numbers of single walks that succeed, fail as not present, and
  fail otherwise, and the first absent page reported is the first in the range, with the level
  at which its own walk stopped.\<close>

theorem range_coverage_counts:
  assumes m: "guest_memory mem" and s: "read_task_root mem t g = Inr root"
    and r: "tr_root_pfn root \<noteq> 0" "tr_depth root \<noteq> 0" "tr_depth root \<le> MAX_DEPTH"
    and f: "unat (shr64 a (page_shift g)) + unat pages \<le> 2 ^ (64 - shift_of g)"
  shows "range_coverage mem g t a pages =
    Some (coverage_of pages (tr_depth root)
      (\<lambda>k. walk mem g (tr_root_pfn root) (tr_depth root) (run_gva g a (of_nat k))) (unat pages))"
proof -
  have v: "validate g = Inr ()" using s by (auto simp: read_task_root_def split: sum.splits)
  let ?r = "\<lambda>k. walk mem g (tr_root_pfn root) (tr_depth root) (run_gva g a (of_nat k))"
  have "unat pages < 2 ^ 64" using unat_lt2p [of pages] by simp
  note fold = coverage_fold [OF this, of ?r pages "tr_depth root"]
  have "coverage_of pages (tr_depth root) ?r 0 =
      \<lparr>rc_pages = pages, rc_present = 0, rc_absent = 0, rc_undecidable = 0,
       rc_first_absent_index = 0, rc_first_absent_level = 0, rc_depth = tr_depth root\<rparr>"
    by (simp add: coverage_of_def count_pages_def first_absent_def)
  with fold show ?thesis
    using r s
    by (simp add: range_coverage_def guest_memory.run_eq_each [OF m v r f] walk_each_visit_list)
qed

definition directory_image :: "u8 list" where
  "directory_image = replicate 4096 0 @ [2, 0, 0, 0, 1, 0, 0, 0]"

theorem range_coverage_counts_witness:
  "range_coverage (slice_read_at directory_image) X86_64 \<lparr>active = True, directory_pfn = 1\<rparr> 0x3000 5 =
    Some (coverage_of 5 1
      (\<lambda>k. walk (slice_read_at directory_image) X86_64 2 1 (run_gva X86_64 0x3000 (of_nat k))) 5)"
proof -
  have "read_task_root (slice_read_at directory_image) \<lparr>active = True, directory_pfn = 1\<rparr> X86_64
      = Inr \<lparr>tr_directory_pfn = 1, tr_root_pfn = 2, tr_depth = 1\<rparr>"
    by (simp add: read_task_root_def read_directory_def X86_64_def validate_def pfn_to_addr_def shl64_def
        u32_at_def slice_read_at_def directory_image_def le_word_def DIRECTORY_ROOT_PFN_def DIRECTORY_DEPTH_def)
  from range_coverage_counts [OF slice_mem.guest_memory_axioms this, of "0x3000" 5] show ?thesis
    by (simp add: MAX_DEPTH_def shr64_def X86_64_def drop_bit_eq_div)
qed

end
