(* ===== verification/TableSpec.thy ===== *)
theory TableSpec
  imports SpanFacts
begin

text \<open>
  What a page table means, independently of the loop that walks it: the radix digits of a page
  number select one entry per level, and a translation is a chain of present entries from the
  root. The walk is shown to follow exactly that chain and to record exactly its nodes.
\<close>

unbundle bit_operations_syntax

section \<open>Radix digits\<close>

definition digit :: "geometry \<Rightarrow> nat \<Rightarrow> nat \<Rightarrow> nat \<Rightarrow> nat" where
  "digit g depth page level =
     page div 2 ^ ((depth - 1 - level) * (shift_of g - 2)) mod 2 ^ (shift_of g - 2)"

lemma entry_index_digit:
  assumes v: "validate g = Inr ()" and l: "level < unat depth" and d: "unat depth \<le> 4"
  shows "unat (entry_index_at g depth page (of_nat level)) = digit g (unat depth) (unat page) level"
proof -
  let ?b = "shift_of g - 2"
  have b: "unat (index_bits g) = ?b" "?b \<le> 12" using index_bits_valid [OF v] shift_valid [OF v] by auto
  have lv: "unat (of_nat level :: u32) = level" using l d by (simp add: unat_of_nat_small)
  have "1 \<le> depth" using l by (simp add: word_le_nat_alt)
  then have "unat (depth - 1) = unat depth - 1" by (simp add: unat_sub_no_wrap)
  moreover have "of_nat level \<le> depth - 1" using calculation l lv by (simp add: word_le_nat_alt)
  ultimately have s: "unat (depth - 1 - of_nat level) = unat depth - 1 - level"
    by (simp add: unat_sub_no_wrap lv)
  have "(unat depth - 1 - level) * ?b \<le> 3 * 12" using d b by (intro mult_le_mono) auto
  then have sh: "unat ((depth - 1 - of_nat level) * index_bits g) = (unat depth - 1 - level) * ?b"
    "(unat depth - 1 - level) * ?b < 64"
    by (simp_all add: unat_mult_no_wrap s b)
  have "unat (shr64 page ((depth - 1 - of_nat level) * index_bits g))
      = unat page div 2 ^ ((unat depth - 1 - level) * ?b)"
    by (simp only: shr64_def sh(1) mod_less [OF sh(2)] unat_drop_bit_eq) (simp only: drop_bit_eq_div)
  then have "unat (shr64 page ((depth - 1 - of_nat level) * index_bits g) AND index_mask g)
      = digit g (unat depth) (unat page) level"
    using b by (simp add: index_mask_eq unat_and_mask digit_def)
  moreover have "digit g (unat depth) (unat page) level < 2 ^ 32"
  proof -
    have "digit g (unat depth) (unat page) level < 2 ^ ?b" by (simp add: digit_def)
    also have "\<dots> \<le> 2 ^ 32" using b by (intro power_increasing) auto
    finally show ?thesis .
  qed
  ultimately show ?thesis by (simp add: entry_index_at_def Let_def unat_ucast_small)
qed

section \<open>Chains of table entries\<close>

text \<open>
  \<open>chain mem g depth page level frame frames leaf\<close>: from the table in \<open>frame\<close> at \<open>level\<close>, the
  entries the page's digits select lead through the tables \<open>frames\<close> to \<open>leaf\<close>. An entry is the
  32-bit word at four times its index from its table's base; one that names frame zero leads
  nowhere.
\<close>

inductive chain ::
  "reader \<Rightarrow> geometry \<Rightarrow> nat \<Rightarrow> nat \<Rightarrow> nat \<Rightarrow> u32 \<Rightarrow> u32 list \<Rightarrow> u32 \<Rightarrow> bool"
  for mem :: reader and g :: geometry and depth :: nat and page :: nat
where
  leaf: "chain mem g depth page depth frame [] frame"
| node: "level < depth \<Longrightarrow>
    u32_at mem (of_nat (unat frame * 2 ^ shift_of g + 4 * digit g depth page level)) = Some pte \<Longrightarrow>
    pte AND PTE_PFN_MASK \<noteq> 0 \<Longrightarrow>
    chain mem g depth page (Suc level) (pte AND PTE_PFN_MASK) frames leaf \<Longrightarrow>
    chain mem g depth page level frame (frame # frames) leaf"

inductive_cases chain_nodeE: "chain mem g depth page level frame frames leaf"

inductive_simps chain_simps: "chain mem g depth page level frame frames leaf"

lemma chain_leaf_iff:
  "chain mem g depth page depth frame frames leaf \<longleftrightarrow> frames = [] \<and> leaf = frame"
  by (subst chain_simps) auto

lemma chain_node_iff:
  "level < depth \<Longrightarrow> chain mem g depth page level frame frames leaf \<longleftrightarrow>
     (\<exists>pte rest. frames = frame # rest
        \<and> u32_at mem (of_nat (unat frame * 2 ^ shift_of g + 4 * digit g depth page level)) = Some pte
        \<and> pte AND PTE_PFN_MASK \<noteq> 0
        \<and> chain mem g depth page (Suc level) (pte AND PTE_PFN_MASK) rest leaf)"
  by (subst chain_simps) auto

lemma chain_length: "chain mem g depth page level frame frames leaf \<Longrightarrow> level + length frames = depth"
  by (induction rule: chain.induct) auto

lemma chain_unique:
  "chain mem g depth page level frame frames leaf \<Longrightarrow>
   chain mem g depth page level frame frames' leaf' \<Longrightarrow> frames' = frames \<and> leaf' = leaf"
proof (induction arbitrary: frames' leaf' rule: chain.induct)
  case (leaf frame)
  then show ?case by (simp add: chain_leaf_iff)
next
  case (node level frame pte frames leaf)
  from node.prems node.hyps show ?case by (auto simp: chain_node_iff dest: node.IH)
qed

section \<open>The walk follows the chain\<close>

lemma pfns_push:
  assumes "np_len p < length (np_pfns p)"
  shows "pfns (push p f) = pfns p @ [f]" "np_len (push p f) = Suc (np_len p)"
    "length (np_pfns (push p f)) = length (np_pfns p)"
  using assms by (simp_all add: push_def pfns_def take_Suc_conv_app_nth)

lemma entry_addr_nat:
  assumes v: "validate g = Inr ()" and l: "level < unat depth" and d: "unat depth \<le> 4"
  shows "entry_addr_of g frame (entry_index_at g depth page (of_nat level))
    = of_nat (unat frame * 2 ^ shift_of g + 4 * digit g (unat depth) (unat page) level)"
  using unat_entry_addr [OF v entry_index_bound [OF v], of frame depth page "of_nat level"]
  unfolding entry_index_digit [OF v l d] by (metis of_nat_unat ucast_id)

lemma descend_chain:
  assumes v: "validate g = Inr ()" and d: "unat depth \<le> 4"
  shows "n \<le> unat depth \<Longrightarrow> np_len nodes + n \<le> length (np_pfns nodes) \<Longrightarrow>
    (case descend mem g depth page n frame raw nodes of
       (Inr (leaf, raw'), nodes') \<Rightarrow>
         \<exists>frames. chain mem g (unat depth) (unat page) (unat depth - n) frame frames leaf
           \<and> pfns nodes' = pfns nodes @ frames
     | (Inl f, nodes') \<Rightarrow> \<not> (\<exists>frames leaf. chain mem g (unat depth) (unat page) (unat depth - n) frame frames leaf))"
proof (induction n arbitrary: frame raw nodes)
  case 0
  then show ?case by (simp add: chain_leaf_iff)
next
  case (Suc n)
  let ?l = "unat depth - Suc n" and ?nodes = "push nodes frame"
  have l: "?l < unat depth" "Suc ?l = unat depth - n" using Suc.prems by auto
  have lw: "depth - of_nat (Suc n) = of_nat ?l"
    using Suc.prems by (simp add: of_nat_diff)
  have np: "np_len nodes < length (np_pfns nodes)" using Suc.prems by simp
  note pushed = pfns_push [OF np, of frame]
  let ?addr = "of_nat (unat frame * 2 ^ shift_of g + 4 * digit g (unat depth) (unat page) ?l)"
  have step: "descend mem g depth page (Suc n) frame raw nodes =
      (case entry_verdict (u32_at mem ?addr) (of_nat ?l) (entry_index_at g depth page (of_nat ?l)) of
         Inl f \<Rightarrow> (Inl f, ?nodes)
       | Inr (next_pfn, pte) \<Rightarrow> descend mem g depth page n next_pfn pte ?nodes)"
    by (simp only: descend.simps Let_def lw entry_addr_nat [OF v l(1) d])
  show ?case
  proof (cases "u32_at mem ?addr")
    case None
    then show ?thesis unfolding step by (simp add: entry_verdict_def chain_node_iff [OF l(1)])
  next
    case (Some pte)
    show ?thesis
    proof (cases "pte AND PTE_PFN_MASK = 0")
      case True
      with Some show ?thesis
        unfolding step by (simp add: entry_verdict_def Let_def chain_node_iff [OF l(1)])
    next
      case False
      have ih: "np_len ?nodes + n \<le> length (np_pfns ?nodes)" "n \<le> unat depth"
        using Suc.prems pushed by auto
      from Suc.IH [OF ih(2,1), of "pte AND PTE_PFN_MASK" pte] Some False
      show ?thesis
        unfolding step chain_node_iff [OF l(1)] l(2)
        by (auto simp: entry_verdict_def pushed split: prod.splits sum.splits)
    qed
  qed
qed

text \<open>C1: A walk answers a translation exactly when the page's digits select a chain of present
  entries from the root table, and then it names that chain's leaf frame, records exactly the
  tables of the chain in order, one per level, and forms the leaf's byte address with the
  offset of the address it was given.\<close>

theorem walk_follows_chain:
  assumes v: "validate g = Inr ()" and r: "root \<noteq> 0" and d: "depth \<noteq> 0" "depth \<le> MAX_DEPTH"
  shows "(\<exists>w nodes. walk_recording_nodes mem g root depth gva node_path_default = (Inr w, nodes)
            \<and> leaf_pfn w = leaf \<and> pfns nodes = frames
            \<and> unat (addr w) = unat leaf * 2 ^ shift_of g + unat gva mod 2 ^ shift_of g)
    \<longleftrightarrow> chain mem g (unat depth) (unat gva div 2 ^ shift_of g) 0 root frames leaf"
proof -
  have d4: "unat depth \<le> 4" using d by (simp add: MAX_DEPTH_def word_le_nat_alt)
  let ?p = "shr64 gva (page_shift g)"
  let ?desc = "descend mem g depth ?p (unat depth) root 0 node_path_default"
  have nd: "np_len node_path_default + unat depth \<le> length (np_pfns node_path_default)"
    "pfns node_path_default = []"
    using d4 by (simp_all add: node_path_default_def pfns_def)
  have addr: "unat (pfn_to_addr g f + (gva AND page_offset_mask g))
      = unat f * 2 ^ shift_of g + unat gva mod 2 ^ shift_of g" for f
  proof -
    have "unat f * 2 ^ shift_of g \<le> 2 ^ 32 * 2 ^ shift_of g"
      using unat_lt2p [of f] by (intro mult_le_mono1) simp
    moreover have "unat gva mod 2 ^ shift_of g < 2 ^ shift_of g" by simp
    ultimately show ?thesis
      using shift_valid [OF v]
      by (subst unat_add_no_wrap) (auto simp: unat_pfn_to_addr [OF v] unat_in_page [OF v])
  qed
  note dc = descend_chain [OF v d4 order_refl nd(1), of mem ?p root 0, unfolded nd(2)]
  have code: "walk_recording_nodes mem g root depth gva node_path_default =
      (case ?desc of
         (Inl f, nodes) \<Rightarrow> (Inl f, nodes)
       | (Inr (current_pfn, raw), nodes) \<Rightarrow>
           (Inr \<lparr>leaf_pfn = current_pfn, addr_page = pfn_to_addr g current_pfn,
                 addr = pfn_to_addr g current_pfn + (gva AND page_offset_mask g),
                 page_index = ?p, raw_pte = raw\<rparr>, nodes))"
  proof -
    have "\<not> MAX_DEPTH < depth" using d(2) by simp
    then show ?thesis
      using v r d(1) by (simp add: walk_recording_nodes_def Let_def split: prod.split sum.split)
  qed
  obtain q nodes where q: "?desc = (q, nodes)" by fastforce
  show ?thesis
  proof (cases q)
    case (Inl f)
    then show ?thesis using dc by (simp add: code q unat_shr_page [OF v])
  next
    case (Inr x)
    obtain l raw where x: "x = (l, raw)" by fastforce
    from dc obtain fs where fs: "chain mem g (unat depth) (unat ?p) 0 root fs l" "pfns nodes = fs"
      by (auto simp: q Inr x)
    have "(\<exists>w nodes. walk_recording_nodes mem g root depth gva node_path_default = (Inr w, nodes)
            \<and> leaf_pfn w = leaf \<and> pfns nodes = frames
            \<and> unat (addr w) = unat leaf * 2 ^ shift_of g + unat gva mod 2 ^ shift_of g)
        \<longleftrightarrow> leaf = l \<and> frames = fs"
      using fs(2) addr [of l] by (auto simp: code q Inr x)
    also have "\<dots> \<longleftrightarrow> chain mem g (unat depth) (unat ?p) 0 root frames leaf"
      using fs(1) chain_unique [OF fs(1)] by blast
    finally show ?thesis unfolding unat_shr_page [OF v] .
  qed
qed

definition one_entry_memory :: reader where
  "one_entry_memory a n = (if a = 0x1000 \<and> n = 4 then Some [5, 0, 0, 0] else None)"

lemma one_entry_chain: "chain one_entry_memory X86_64 1 0 0 1 [1] 5"
  by (simp add: chain_node_iff chain_leaf_iff [of _ _ "Suc 0", simplified] digit_def u32_at_def
      one_entry_memory_def X86_64_def le_word_def PTE_PFN_MASK_def)

theorem walk_follows_chain_witness:
  "\<exists>w nodes. walk_recording_nodes one_entry_memory X86_64 1 1 0x123 node_path_default = (Inr w, nodes)
     \<and> leaf_pfn w = 5 \<and> pfns nodes = [1] \<and> unat (addr w) = 0x5123"
  using walk_follows_chain [of X86_64 1 1 one_entry_memory "0x123" 5 "[1]"] one_entry_chain
  by (simp add: X86_64_def validate_def MAX_DEPTH_def)

end
