(* ===== verification/SpanCorrect.thy ===== *)
theory SpanCorrect
  imports SpanFacts
begin

text \<open>
  How many guest pages a byte span touches: \<open>pages_spanned\<close> against the set of page numbers.
\<close>

unbundle bit_operations_syntax

section \<open>Page counts\<close>

lemma unat_div_ceil:
  assumes "0 < unat b"
  shows "unat (div_ceil a b) = (unat a + unat b - 1) div unat b"
proof -
  have "unat a div unat b + 1 < 2 ^ 64" if "0 < unat a mod unat b"
  proof -
    have "unat b \<noteq> 1" using that by auto
    with assms have "unat a div unat b \<le> unat a div 2"
      by (intro div_le_mono2) auto
    then show ?thesis using unat_lt2p [of a] by simp
  qed
  then have "unat (div_ceil a b)
      = (if unat a mod unat b > 0 then unat a div unat b + 1 else unat a div unat b)"
    by (simp add: div_ceil_def word_less_nat_alt unat_mod_distrib unat_div_distrib unat_add_no_wrap)
  then show ?thesis by (simp only: div_ceil_nat [OF assms])
qed

lemma pages_nat:
  fixes a n s :: nat
  assumes "0 < s" "0 < n"
  shows "(a mod s + n + s - 1) div s = (a + n - 1) div s - a div s + 1"
proof -
  have "a mod s + n + s - 1 = (a mod s + n - 1) + s" using assms by simp
  then have "(a mod s + n + s - 1) div s = (a mod s + n - 1) div s + 1"
    using assms by (simp only: div_add_self2)
  moreover have "a + n - 1 = (a mod s + n - 1) + (a div s) * s"
    using assms by (metis Nat.add_diff_assoc2 One_nat_def Suc_leI add.assoc add.commute
        add_gr_0 mod_div_mult_eq)
  then have "(a + n - 1) div s = a div s + (a mod s + n - 1) div s"
    using assms by (simp only: div_mult_self1)
  ultimately show ?thesis by simp
qed

lemma unat_pages_spanned:
  assumes "0 < unat page" and "unat gva mod unat page + unat span < 2 ^ 64" and "0 < unat span"
  shows "unat (pages_spanned gva span page)
           = (unat gva + unat span - 1) div unat page - unat gva div unat page + 1"
proof -
  have "unat (gva mod page + span) = unat gva mod unat page + unat span"
    using assms(2) by (simp add: unat_add_no_wrap unat_mod_distrib)
  then show ?thesis
    using pages_nat [OF assms(1,3), of "unat gva"]
    by (simp add: pages_spanned_def unat_div_ceil [OF assms(1)])
qed

lemma image_div_interval:
  fixes a n s :: nat
  assumes "0 < s" "0 < n"
  shows "(\<lambda>x. x div s) ` {a ..< a + n} = {a div s .. (a + n - 1) div s}"
proof (intro equalityI subsetI)
  fix q assume "q \<in> {a div s .. (a + n - 1) div s}"
  then have q: "a div s \<le> q" "q * s \<le> a + n - 1"
    using assms(1) by (auto simp: less_eq_div_iff_mult_less_eq)
  let ?x = "max a (q * s)"
  have "?x div s = q"
  proof (cases "q * s < a")
    case True
    then have "q \<le> a div s" using assms(1) by (simp add: less_eq_div_iff_mult_less_eq)
    with True q(1) show ?thesis by simp
  next
    case False
    then show ?thesis using assms(1) by (simp add: max_def)
  qed
  moreover have "?x \<in> {a ..< a + n}" using q(2) assms(2) by auto
  ultimately show "q \<in> (\<lambda>x. x div s) ` {a ..< a + n}" by (metis image_eqI)
qed (auto intro!: div_le_mono)

lemma pages_spanned_zero:
  assumes "0 < unat page"
  shows "pages_spanned gva 0 page = (if gva mod page = 0 then 0 else 1)"
proof -
  let ?r = "gva mod page"
  have r: "unat ?r < unat page" using assms by (simp add: unat_mod_distrib)
  then have "?r mod page = ?r" "?r div page = 0"
    by (simp_all add: word_unat_eq_iff unat_mod_distrib unat_div_distrib)
  then show ?thesis
    by (simp add: pages_spanned_def div_ceil_def word_gt_0)
qed

text \<open>\<open>pages_spanned\<close> counts the guest pages a non-empty byte span touches: the distinct
  quotients by the page size of the addresses it covers, whether or not the span starts on a
  page boundary. An empty span counts no page only when it starts on a boundary: one that
  starts inside a page counts that page.\<close>

theorem pages_spanned_counts:
  assumes "0 < unat page" and "unat gva mod unat page + unat span < 2 ^ 64"
  shows "unat (pages_spanned gva span page)
           = (if span = 0 then (if gva mod page = 0 then 0 else 1)
              else card ((\<lambda>a. a div unat page) ` {unat gva ..< unat gva + unat span}))"
proof (cases "span = 0")
  case True
  then show ?thesis by (simp add: pages_spanned_zero [OF assms(1)])
next
  case False
  then have n: "0 < unat span" by (simp add: word_unat_eq_iff)
  have "unat gva div unat page \<le> (unat gva + unat span - 1) div unat page"
    using n by (intro div_le_mono) simp
  then show ?thesis
    using False by (simp add: unat_pages_spanned [OF assms n] image_div_interval [OF assms(1) n])
qed

theorem pages_spanned_counts_witness:
  "pages_spanned 0x1800 0x1000 0x1000 = 2 \<and>
   card ((\<lambda>a. a div 0x1000) ` {0x1800 ..< 0x2800 :: nat}) = 2"
  using pages_spanned_counts [of "0x1000 :: u64" "0x1800 :: u64" "0x1000 :: u64"]
  by (simp add: pages_spanned_def div_ceil_def)

end
