(* ===== verification/SpanBytes.thy ===== *)
theory SpanBytes
  imports SpanCorrect
begin

text \<open>
  The byte and page semantics of the span walkers: cutting a span into chunks and listing its
  pages agree with translating each byte, or each page, on its own.
\<close>

unbundle bit_operations_syntax
section \<open>A span as its bytes\<close>

text \<open>The task's root as every span walk obtains it, and the translation of one byte.\<close>

definition span_setup :: "reader \<Rightarrow> geometry \<Rightarrow> task \<Rightarrow> resolve_status + task_root" where
  "span_setup mem g t =
     (case read_task_root mem t g of
        Inl e \<Rightarrow> Inl e
      | Inr root \<Rightarrow>
          if tr_root_pfn root = 0 then Inl ErrZeroRootPfn
          else if tr_depth root = 0 then Inl ErrZeroDepth
          else Inr root)"

definition byte_gpa :: "reader \<Rightarrow> geometry \<Rightarrow> task \<Rightarrow> u64 \<Rightarrow> span_refusal + u64" where
  "byte_gpa mem g t x =
     (case span_setup mem g t of
        Inl e \<Rightarrow> Inl (Setup e)
      | Inr root \<Rightarrow> map_sum Page id (resolve_at mem g (tr_root_pfn root) (tr_depth root) x))"

lemma span_setup_Inr:
  assumes "span_setup mem g t = Inr root"
  shows "read_task_root mem t g = Inr root" "validate g = Inr ()" "tr_root_pfn root \<noteq> 0"
    "tr_depth root \<noteq> 0"
  using assms
  by (auto simp: span_setup_def read_task_root_def split: sum.splits if_splits prod.splits)

lemma walk_span_setup_fails:
  assumes "span_setup mem g t = Inl e"
  shows "walk_span mem g t gva span visit v = Inl e"
  using assms
  by (auto simp: span_setup_def walk_span_def read_task_root_def split: sum.splits if_splits)

definition span_page :: "geometry \<Rightarrow> u64 \<Rightarrow> nat \<Rightarrow> u64" where
  "span_page g gva k = run_gva g (gva AND NOT (page_offset_mask g)) (of_nat k)"

definition page_answer :: "reader \<Rightarrow> geometry \<Rightarrow> task_root \<Rightarrow> u64 \<Rightarrow> nat \<Rightarrow> resolve_status + u64" where
  "page_answer mem g root gva k =
     map_sum id (\<lambda>gpa. gpa AND NOT (page_offset_mask g))
       (resolve_at mem g (tr_root_pfn root) (tr_depth root) (span_page g gva k))"

lemma span_page_count:
  assumes v: "validate g = Inr ()" and n: "0 < unat span" and f: "unat gva + unat span < 2 ^ 64"
  shows "unat (pages_spanned gva span (page_size g)) =
           (unat gva + unat span - 1) div 2 ^ shift_of g - unat gva div 2 ^ shift_of g + 1"
proof -
  have p: "unat (page_size g) = 2 ^ shift_of g" by (rule unat_page_size [OF v])
  have "unat gva mod 2 ^ shift_of g \<le> unat gva" by (rule mod_less_eq_dividend)
  then have "unat gva mod unat (page_size g) + unat span \<le> unat gva + unat span" by (simp add: p)
  from this f have "unat gva mod unat (page_size g) + unat span < 2 ^ 64" by (rule le_less_trans)
  from unat_pages_spanned [OF _ this n] show ?thesis by (simp add: p)
qed

lemma too_deep_run:
  assumes "validate g = Inr ()" "root \<noteq> 0" "\<not> depth \<le> MAX_DEPTH" "pages \<noteq> 0"
  shows "translate_root_run mem g root depth a pages visit v = fst (visit v 0 (Inl ErrDepthTooDeep))"
  using assms
  by (auto simp: translate_root_run_def walk_run_def MAX_DEPTH_def as_resolved_def run_gva_def Let_def
      fail_at_root_def split: prod.split)

lemma resolve_at_too_deep:
  assumes "validate g = Inr ()" "root \<noteq> 0" "depth \<noteq> 0" "\<not> depth \<le> MAX_DEPTH"
  shows "resolve_at mem g root depth x = Inl ErrDepthTooDeep"
  using assms
  by (auto simp: resolve_at_def walk_def walk_recording_nodes_def as_resolved_def Let_def
      fail_at_root_def split: prod.split)

text \<open>Every span walk is one stopping fold over the answers of its pages.\<close>

lemma walk_span_fold:
  assumes m: "guest_memory mem" and s: "span_setup mem g t = Inr root" and d: "tr_depth root \<le> MAX_DEPTH"
    and n: "0 < unat span" and f: "unat gva + unat span < 2 ^ 64"
  shows "walk_span mem g t gva span visit v =
    Inr (visit_list visit (map (\<lambda>k. (of_nat k, page_answer mem g root gva k))
           [0..<unat (pages_spanned gva span (page_size g))]) v)"
proof -
  note st = span_setup_Inr [OF s]
  let ?S = "2 ^ shift_of g :: nat" and ?a = "gva AND NOT (page_offset_mask g)"
  have "(unat gva + unat span - 1) div ?S * ?S \<le> unat gva + unat span - 1"
    by (metis div_mult_mod_eq le_add1)
  then have "(unat gva + unat span - 1) div ?S * ?S < 2 ^ (64 - shift_of g) * ?S"
    using f shift_valid [OF st(2)] by (auto simp: power_add [symmetric])
  then have "(unat gva + unat span - 1) div ?S + 1 \<le> 2 ^ (64 - shift_of g)"
    by (simp add: Suc_le_eq)
  moreover have "unat gva div ?S \<le> (unat gva + unat span - 1) div ?S"
    using n by (intro div_le_mono) simp
  ultimately have b: "unat (shr64 ?a (page_shift g)) + unat (pages_spanned gva span (page_size g))
      \<le> 2 ^ (64 - shift_of g)"
    by (simp add: shr_page_base [OF st(2)] unat_shr_page [OF st(2)] span_page_count [OF st(2) n f])
  from n have "span \<noteq> 0" by auto
  then have "walk_span mem g t gva span visit v =
      Inr (translate_root_run mem g (tr_root_pfn root) (tr_depth root) ?a
             (pages_spanned gva span (page_size g))
             (\<lambda>v index r. visit v index (map_sum id (\<lambda>gpa. gpa AND NOT (page_offset_mask g)) r)) v)"
    using st(2-4) by (simp add: walk_span_def st(1) Let_def)
  also note translate_root_run_fold [OF m st(2-4) d b]
  also note visit_list_map_Pair [where visit = visit
      and f = "map_sum id (\<lambda>gpa. gpa AND NOT (page_offset_mask g))"]
  finally show ?thesis by (simp only: page_answer_def span_page_def)
qed

section \<open>The chunks of a span\<close>

text \<open>The byte translations a list of chunks stands for, and the byte at which page \<open>k\<close> of the
  span begins.\<close>

definition chunk_bytes :: "span_chunk list \<Rightarrow> (nat \<times> u64) list" where
  "chunk_bytes cs =
     concat (map (\<lambda>c. map (\<lambda>j. (ch_offset c + j, ch_gpa c + of_nat j)) [0..<ch_len c]) cs)"

definition indexed :: "('a \<Rightarrow> 'e + 'b) \<Rightarrow> 'a \<Rightarrow> 'e + 'a \<times> 'b" where
  "indexed f x = map_sum id (Pair x) (f x)"

definition page_start :: "geometry \<Rightarrow> u64 \<Rightarrow> nat \<Rightarrow> nat \<Rightarrow> nat" where
  "page_start g gva len k = min len (k * 2 ^ shift_of g - unat gva mod 2 ^ shift_of g)"

lemma page_start_0 [simp]: "page_start g gva len 0 = 0"
  by (simp add: page_start_def)

lemma page_start_mono: "page_start g gva len k \<le> page_start g gva len (Suc k)"
  by (auto simp: page_start_def intro!: min.mono diff_le_mono)

lemma page_start_steps:
  assumes "0 < len" and "k < (unat gva + len - 1) div 2 ^ shift_of g - unat gva div 2 ^ shift_of g + 1"
  shows "page_start g gva len k < len"
    "page_start g gva len (Suc k) - page_start g gva len k
       = min (len - page_start g gva len k)
             (2 ^ shift_of g - (unat gva + page_start g gva len k) mod 2 ^ shift_of g)"
    "(unat gva + page_start g gva len k) div 2 ^ shift_of g = unat gva div 2 ^ shift_of g + k"
    "page_start g gva len k < page_start g gva len (Suc k)"
proof -
  define S q r where "S = (2 ^ shift_of g :: nat)" and "q = unat gva div S" and "r = unat gva mod S"
  have S: "0 < S" by (simp add: S_def)
  have gva: "unat gva = q * S + r" and r: "r < S" using S by (simp_all add: q_def r_def)
  have "q \<le> (unat gva + len - 1) div S"
    unfolding q_def using assms(1) by (intro div_le_mono) simp
  then have "q + k \<le> (unat gva + len - 1) div S"
    using assms(2) by (simp add: S_def [symmetric] q_def [symmetric])
  then have "(q + k) * S \<le> unat gva + len - 1" using S by (simp add: less_eq_div_iff_mult_less_eq)
  then have kb: "k * S < r + len" using assms(1) by (simp add: gva distrib_right)
  let ?d = "page_start g gva len k"
  have d: "?d = (if k = 0 then 0 else k * S - r)"
    using kb assms(1) r by (auto simp: page_start_def S_def [symmetric] r_def [symmetric])
  show 1: "?d < len" using kb assms(1) by (auto simp: d)
  have rk: "r \<le> k * S" if "k \<noteq> 0" using that r by (metis less_or_eq_imp_le mult_le_mono1
        le_trans One_nat_def Suc_leI gr0I mult_1)
  have e: "unat gva + ?d = (q + k) * S + (if k = 0 then r else 0)"
    using rk by (auto simp: d gva distrib_right)
  show "(unat gva + ?d) div 2 ^ shift_of g = unat gva div 2 ^ shift_of g + k"
    using r S by (simp add: e S_def [symmetric] q_def [symmetric])
  have m: "(unat gva + ?d) mod S = (if k = 0 then r else 0)"
    using r by (simp add: e)
  have "page_start g gva len (Suc k) - ?d = min (len - ?d) (S - (if k = 0 then r else 0))"
    using rk r S 1 by (auto simp: d page_start_def S_def [symmetric] r_def [symmetric] min_def)
  then show 2: "page_start g gva len (Suc k) - ?d
      = min (len - ?d) (2 ^ shift_of g - (unat gva + ?d) mod 2 ^ shift_of g)"
    by (simp only: m S_def [symmetric])
  have "0 < min (len - ?d) (2 ^ shift_of g - (unat gva + ?d) mod 2 ^ shift_of g)"
    using 1 by simp
  then show "?d < page_start g gva len (Suc k)" unfolding 2 [symmetric] by simp
qed

lemma page_start_end:
  assumes "0 < len"
  shows "page_start g gva len ((unat gva + len - 1) div 2 ^ shift_of g - unat gva div 2 ^ shift_of g + 1)
           = len"
proof -
  define S q r where "S = (2 ^ shift_of g :: nat)" and "q = unat gva div S" and "r = unat gva mod S"
  have S: "0 < S" by (simp add: S_def)
  have gva: "unat gva = q * S + r" using S by (simp_all add: q_def r_def)
  let ?e = "(unat gva + len - 1) div S"
  have "unat gva + len - 1 < (?e + 1) * S"
    using S by (metis Suc_eq_plus1 dividend_less_div_times mult_Suc add.commute)
  moreover have "q \<le> ?e" unfolding q_def using assms by (intro div_le_mono) simp
  then have "(?e + 1) * S = (?e - q + 1) * S + q * S"
    by (simp add: add_mult_distrib [symmetric])
  ultimately have "r + len \<le> (?e - q + 1) * S"
    using assms by (simp add: gva)
  then show ?thesis
    by (simp add: page_start_def S_def [symmetric] q_def [symmetric] r_def [symmetric] min_def)
qed

text \<open>The bytes of one page share that page's answer.\<close>

lemma byte_gpa_page:
  assumes s: "span_setup mem g t = Inr root" and f: "unat gva + len < 2 ^ 64" and i: "i < len"
    and k: "(unat gva + i) div 2 ^ shift_of g = unat gva div 2 ^ shift_of g + k"
  shows "byte_gpa mem g t (gva + of_nat i) =
    map_sum Page (\<lambda>b. b + of_nat ((unat gva + i) mod 2 ^ shift_of g)) (page_answer mem g root gva k)"
proof -
  note v = span_setup_Inr(2) [OF s]
  let ?x = "gva + of_nat i"
  have x: "unat ?x = unat gva + i" using f i by (intro unat_add_nat) simp
  have p: "span_page g gva k = ?x AND NOT (page_offset_mask g)"
    unfolding span_page_def by (rule run_gva_base [OF v]) (simp add: x k)
  have "?x AND page_offset_mask g = of_nat ((unat gva + i) mod 2 ^ shift_of g)"
    by (simp flip: x unat_in_page [OF v])
  then show ?thesis
    using resolve_of_base [OF v, of mem "tr_root_pfn root" "tr_depth root" ?x]
      resolve_base_aligned(2) [OF v, of mem "tr_root_pfn root" "tr_depth root" ?x]
    by (cases "resolve_at mem g (tr_root_pfn root) (tr_depth root) (?x AND NOT (page_offset_mask g))")
      (simp_all add: byte_gpa_def s page_answer_def p)
qed

definition run_outcome :: "nat \<times> resolve_status option \<times> 'v \<Rightarrow> span_refusal + 'v" where
  "run_outcome st = (case st of (_, Some e, _) \<Rightarrow> Inl (Page e) | (_, None, v) \<Rightarrow> Inr v)"

definition collect_chunk :: "span_chunk list \<Rightarrow> span_chunk \<Rightarrow> span_chunk list \<times> bool" where
  "collect_chunk = (\<lambda>out chunk. (out @ [chunk], True))"

lemma chunk_bytes_snoc:
  "chunk_bytes (cs @ [c]) =
     chunk_bytes cs @ map (\<lambda>j. (ch_offset c + j, ch_gpa c + of_nat j)) [0..<ch_len c]"
  by (simp add: chunk_bytes_def)

lemma page_start_le: "page_start g gva len k \<le> len"
  by (simp add: page_start_def)

text \<open>The bytes of page \<open>k\<close>: all in that page, each at the first one's offset plus its distance.\<close>

lemma page_bytes:
  assumes l: "0 < len"
    and k: "k < (unat gva + len - 1) div 2 ^ shift_of g - unat gva div 2 ^ shift_of g + 1"
    and i: "page_start g gva len k \<le> i" "i < page_start g gva len (Suc k)"
  shows "(unat gva + i) div 2 ^ shift_of g = unat gva div 2 ^ shift_of g + k"
    "(unat gva + i) mod 2 ^ shift_of g
       = (unat gva + page_start g gva len k) mod 2 ^ shift_of g + (i - page_start g gva len k)"
proof -
  let ?S = "2 ^ shift_of g :: nat" and ?d = "page_start g gva len k"
  note st = page_start_steps [OF l k]
  have lt: "(unat gva + ?d) mod ?S + (i - ?d) < ?S" using st(2) i by linarith
  have e: "unat gva + i = (unat gva div ?S + k) * ?S + ((unat gva + ?d) mod ?S + (i - ?d))"
    using i(1) div_mult_mod_eq [of "unat gva + ?d" ?S] unfolding st(3) by linarith
  show "(unat gva + i) div ?S = unat gva div ?S + k"
    unfolding e using lt by simp
  show "(unat gva + i) mod ?S = (unat gva + ?d) mod ?S + (i - ?d)"
    unfolding e using lt by simp
qed

lemma chunk_visit_Inl [simp]:
  "chunk_visit g gva len visit (d, refused, v) i (Inl e) = ((d, Some e, v), False)"
  by (simp add: chunk_visit_def)

lemma run_outcome_simps [simp]:
  "run_outcome (d, None, v) = Inr v" "run_outcome (d, Some e, v) = Inl (Page e)"
  by (simp_all add: run_outcome_def)

lemma chunk_visit_step:
  assumes v: "validate g = Inr ()" and f: "unat gva + len < 2 ^ 64" and l: "0 < len"
    and k: "k < (unat gva + len - 1) div 2 ^ shift_of g - unat gva div 2 ^ shift_of g + 1"
  shows "chunk_visit g gva len collect_chunk (page_start g gva len k, None, cs) i (Inr b) =
    ((page_start g gva len (Suc k), None,
      cs @ [\<lparr>ch_gpa = b + of_nat ((unat gva + page_start g gva len k) mod 2 ^ shift_of g),
             ch_offset = page_start g gva len k,
             ch_len = page_start g gva len (Suc k) - page_start g gva len k\<rparr>]), True)"
proof -
  let ?S = "2 ^ shift_of g :: nat" and ?d = "page_start g gva len k"
  note st = page_start_steps [OF l k]
  have d: "unat gva + ?d < 2 ^ 64" using f st(1) by linarith
  then have cur: "saturating_add gva (of_nat ?d) = gva + of_nat ?d"
    "unat (gva + of_nat ?d) = unat gva + ?d"
    by (simp_all add: saturating_add_def unat_of_nat_small unat_add_nat)
  let ?ip = "(gva + of_nat ?d) AND page_offset_mask g"
  have ip: "unat ?ip = (unat gva + ?d) mod ?S" by (simp add: unat_in_page [OF v] cur)
  then have ipw: "?ip = of_nat ((unat gva + ?d) mod ?S)" by (simp flip: ip)
  have "unat (page_size g - ?ip) = ?S - (unat gva + ?d) mod ?S"
    by (subst unat_sub_no_wrap) (simp_all add: word_le_nat_alt ip unat_page_size [OF v] less_imp_le)
  then show ?thesis
    using st(2) page_start_mono [of g gva len k]
    by (simp add: chunk_visit_def cur Let_def collect_chunk_def ipw)
qed

lemma chunk_fold:
  assumes s: "span_setup mem g t = Inr root" and f: "unat gva + len < 2 ^ 64" and l: "0 < len"
    and n: "n = (unat gva + len - 1) div 2 ^ shift_of g - unat gva div 2 ^ shift_of g + 1"
    and k: "k \<le> n"
  shows "map_sum id chunk_bytes (run_outcome
      (visit_list (chunk_visit g gva len collect_chunk)
        (map (\<lambda>k. (of_nat k, page_answer mem g root gva k)) [k..<n])
        (page_start g gva len k, None, cs)))
    = (case traverse (indexed (\<lambda>i. byte_gpa mem g t (gva + of_nat i))) [page_start g gva len k ..< len] of
         Inl e \<Rightarrow> Inl e | Inr bs \<Rightarrow> Inr (chunk_bytes cs @ bs))"
  using k
proof (induction k arbitrary: cs rule: inc_induct)
  case base
  then show ?case
    using page_start_end [OF l] by (simp add: n run_outcome_def)
next
  case (step k)
  let ?d = "page_start g gva len k" and ?d' = "page_start g gva len (Suc k)"
  let ?f = "indexed (\<lambda>i. byte_gpa mem g t (gva + of_nat i))"
  from step.hyps have kn: "k < (unat gva + len - 1) div 2 ^ shift_of g - unat gva div 2 ^ shift_of g + 1"
    by (simp add: n)
  note st = page_start_steps [OF l kn] and pb = page_bytes [OF l kn]
  have "traverse ?f [?d..<?d']
      = map_sum id (\<lambda>b. map (\<lambda>i. (i, b + of_nat ((unat gva + i) mod 2 ^ shift_of g))) [?d..<?d'])
          (map_sum Page id (page_answer mem g root gva k))"
  proof (rule traverse_shared)
    show "[?d..<?d'] \<noteq> []" using st(4) by simp
  next
    fix i assume i: "i \<in> set [?d..<?d']"
    then have "i < len" using page_start_le [of g gva len "Suc k"] by simp
    from byte_gpa_page [OF s f this pb(1)] i
    show "?f i = map_sum id (\<lambda>b. (i, b + of_nat ((unat gva + i) mod 2 ^ shift_of g)))
           (map_sum Page id (page_answer mem g root gva k))"
      by (simp add: indexed_def sum.map_comp o_def id_def)
  qed
  note page = this
  have "?d \<le> ?d'" "?d' \<le> len" using st(4) page_start_le [of g gva len "Suc k"] by auto
  then have split_bytes: "[?d..<len] = [?d..<?d'] @ [?d'..<len]"
    by (metis le_Suc_ex upt_add_eq_append)
  have upt: "[k..<n] = k # [Suc k..<n]" using step.hyps by (simp add: upt_conv_Cons)
  show ?case
  proof (cases "page_answer mem g root gva k")
    case (Inl e)
    have "traverse ?f [?d..<?d'] = Inl (Page e)" unfolding page by (simp add: Inl)
    then show ?thesis
      unfolding split_bytes upt by (simp add: Inl traverse_append)
  next
    case (Inr b)
    have bytes: "map (\<lambda>i. (i, b + of_nat ((unat gva + i) mod 2 ^ shift_of g))) [?d..<?d']
      = map (\<lambda>j. (?d + j, b + of_nat ((unat gva + ?d) mod 2 ^ shift_of g) + of_nat j)) [0..<?d' - ?d]"
      unfolding upt_shift [OF page_start_mono, symmetric] map_map
    proof (rule map_cong [OF refl])
      fix j assume "j \<in> set [0..<?d' - ?d]"
      then have "(unat gva + (?d + j)) mod 2 ^ shift_of g
          = (unat gva + ?d) mod 2 ^ shift_of g + j"
        using pb(2) [of "?d + j"] by simp
      then show "((\<lambda>i. (i, b + of_nat ((unat gva + i) mod 2 ^ shift_of g))) \<circ> (\<lambda>j. ?d + j)) j
          = (?d + j, b + of_nat ((unat gva + ?d) mod 2 ^ shift_of g) + of_nat j)"
        by simp
    qed
    have "traverse ?f [?d..<?d']
        = Inr (map (\<lambda>j. (?d + j, b + of_nat ((unat gva + ?d) mod 2 ^ shift_of g) + of_nat j)) [0..<?d' - ?d])"
      unfolding page by (simp add: Inr bytes)
    then show ?thesis
      unfolding split_bytes upt
      by (simp add: Inr traverse_append step.IH [unfolded id_def] chunk_bytes_snoc id_def
          chunk_visit_step [OF span_setup_Inr(2) [OF s] f l kn] split: sum.split)
  qed
qed

text \<open>C14: Resolving a byte span in chunks is resolving each of its bytes alone: for every span
  that does not run past the end of the address space, \<open>span_chunks\<close> gives the list of byte
  translations that translating every address of the span on its own gives, each byte of the
  caller's buffer exactly once and in order, and refuses with the status of the first byte that
  does not translate (or of the setup) exactly when one does not.\<close>

theorem span_chunks_bytewise:
  assumes "guest_memory mem" and "unat gva + len < 2 ^ 64"
  shows "map_sum id chunk_bytes (span_chunks mem g t gva len)
           = traverse (indexed (\<lambda>i. byte_gpa mem g t (gva + of_nat i))) [0..<len]"
proof (cases "len = 0 \<or> (\<exists>e. span_setup mem g t = Inl e)")
  case True
  then show ?thesis
    by (cases len)
      (auto simp: span_chunks_def visit_span_chunks_def chunk_bytes_def walk_span_setup_fails
        upt_conv_Cons indexed_def byte_gpa_def simp del: upt_Suc)
next
  case False
  then obtain root where s: "span_setup mem g t = Inr root" and l: "0 < len"
    by (cases "span_setup mem g t") auto
  have lw: "unat (of_nat len :: u64) = len" using assms(2) by (simp add: unat_of_nat_small)
  show ?thesis
  proof (cases "tr_depth root \<le> MAX_DEPTH")
    case True
    let ?n = "unat (pages_spanned gva (of_nat len) (page_size g))"
    have n: "?n = (unat gva + len - 1) div 2 ^ shift_of g - unat gva div 2 ^ shift_of g + 1"
      using span_page_count [OF span_setup_Inr(2) [OF s], of "of_nat len" gva] l assms(2)
      by (simp add: lw)
    have "span_chunks mem g t gva len = run_outcome
        (visit_list (chunk_visit g gva len collect_chunk)
          (map (\<lambda>k. (of_nat k, page_answer mem g root gva k)) [0..<?n]) (0, None, []))"
      using l assms(2)
      by (simp add: span_chunks_def visit_span_chunks_def collect_chunk_def [symmetric] lw
          walk_span_fold [OF assms(1) s True] run_outcome_def split: prod.split option.split)
    then show ?thesis
      using chunk_fold [OF s assms(2) l n, where k = 0 and cs = "[]"]
      by (simp add: chunk_bytes_def split: sum.splits)
  next
    case False
    let ?p = "pages_spanned gva (of_nat len) (page_size g)"
    have "?p \<noteq> 0"
      using span_page_count [OF span_setup_Inr(2) [OF s], of "of_nat len" gva] l assms(2) lw by auto
    then have "span_chunks mem g t gva len = Inl (Page ErrDepthTooDeep)"
      using l span_setup_Inr [OF s] False lw
      by (auto simp: span_chunks_def visit_span_chunks_def walk_span_def Let_def too_deep_run)
    moreover have "byte_gpa mem g t gva = Inl (Page ErrDepthTooDeep)"
      using False span_setup_Inr [OF s] by (simp add: byte_gpa_def s resolve_at_too_deep)
    ultimately show ?thesis using l by (simp add: upt_conv_Cons indexed_def del: upt_Suc)
  qed
qed

theorem span_chunks_bytewise_witness:
  "map_sum id chunk_bytes
     (span_chunks (slice_read_at []) X86_64 \<lparr>active = True, directory_pfn = 1\<rparr> 0x1ffe 3)
   = traverse (indexed (\<lambda>i. byte_gpa (slice_read_at []) X86_64
       \<lparr>active = True, directory_pfn = 1\<rparr> (0x1ffe + of_nat i))) [0..<3]"
  by (rule span_chunks_bytewise) (simp_all add: slice_mem.guest_memory_axioms)

section \<open>The page list of a span\<close>

lemma bases_fold:
  "(case visit_list bases_visit (map (\<lambda>k. (of_nat k, r k)) ks) (out, None) of
      (out, refused) \<Rightarrow> (case refused of Some st \<Rightarrow> Inl (Page st) | None \<Rightarrow> Inr out))
   = (case traverse r ks of Inl e \<Rightarrow> Inl (Page e) | Inr bs \<Rightarrow> Inr (out @ bs))"
  by (induction ks arbitrary: out) (auto simp: bases_visit_def split: sum.split)

lemma page_answer_byte:
  assumes s: "span_setup mem g t = Inr root" and f: "unat gva + unat span < 2 ^ 64" and n: "0 < unat span"
    and k: "unat gva div 2 ^ shift_of g + k \<le> (unat gva + unat span - 1) div 2 ^ shift_of g"
  shows "map_sum Page id (page_answer mem g root gva k)
    = map_sum id (\<lambda>a. a AND NOT (page_offset_mask g))
        (byte_gpa mem g t (of_nat (unat gva div 2 ^ shift_of g + k) * page_size g))"
proof -
  note v = span_setup_Inr(2) [OF s]
  let ?S = "2 ^ shift_of g :: nat" and ?p = "unat gva div 2 ^ shift_of g + k"
  let ?x = "of_nat ?p * page_size g"
  have "?p * ?S \<le> unat gva + unat span - 1"
    using k by (simp add: less_eq_div_iff_mult_less_eq)
  with f have b: "?p * ?S < 2 ^ 64" by linarith
  have "?p \<le> ?p * ?S" by simp
  with b have "?p < 2 ^ 64" by linarith
  then have p: "unat (of_nat ?p :: u64) = ?p" by (intro unat_of_nat_small) simp
  have x: "unat ?x = ?p * ?S"
  proof -
    have "unat (of_nat ?p :: u64) * unat (page_size g) < 2 ^ LENGTH(64)"
      using b by (simp only: p unat_page_size [OF v]) simp
    from unat_mult_no_wrap [OF this] show ?thesis by (simp only: p unat_page_size [OF v])
  qed
  have "?x AND page_offset_mask g = 0"
    by (simp only: word_unat_eq_iff unat_in_page [OF v] x) simp
  then have al: "?x AND NOT (page_offset_mask g) = ?x"
    using base_plus_offset [of ?x "page_offset_mask g"] by simp
  have "span_page g gva k = ?x AND NOT (page_offset_mask g)"
    unfolding span_page_def by (rule run_gva_base [OF v]) (simp only: x, simp)
  then have "span_page g gva k = ?x" by (simp only: al)
  then show ?thesis
    by (simp add: page_answer_def byte_gpa_def s sum.map_comp o_def id_def)
qed

text \<open>The page list of a span is the page frames of its pages, in order, and nothing when one
  of them does not translate: \<open>span_page_bases\<close> is the traversal of the page numbers from the
  first byte's to the last byte's, each page's base translated on its own, stopping with the
  refusal of the first page that does not.\<close>

theorem span_page_bases_pagewise:
  assumes "guest_memory mem" and "unat gva + unat span < 2 ^ 64" and "span \<noteq> 0"
  shows "span_page_bases mem g t gva span
    = traverse (\<lambda>p. map_sum id (\<lambda>a. a AND NOT (page_offset_mask g)) (byte_gpa mem g t (of_nat p * page_size g)))
        [unat gva div unat (page_size g) ..< (unat gva + unat span - 1) div unat (page_size g) + 1]"
  (is "_ = traverse ?f _")
proof -
  have n: "0 < unat span" using assms(3) by (simp add: word_unat_eq_iff)
  have le: "unat gva div s \<le> (unat gva + unat span - 1) div s" for s
    using n by (intro div_le_mono) simp
  show ?thesis
  proof (cases "span_setup mem g t")
    case (Inl e)
    then show ?thesis
      using le [of "unat (page_size g)"]
      by (simp add: span_page_bases_def walk_span_setup_fails byte_gpa_def upt_conv_Cons del: upt_Suc)
  next
    case (Inr root)
    note v = span_setup_Inr(2) [OF Inr]
    let ?S = "2 ^ shift_of g :: nat" and ?a = "page_answer mem g root gva"
    let ?q = "unat gva div ?S" and ?n = "unat (pages_spanned gva span (page_size g))"
    have cnt: "?n = (unat gva + unat span - 1) div ?S - ?q + 1"
      by (rule span_page_count [OF v n assms(2)])
    have "span_page_bases mem g t gva span
        = map_sum Page id (traverse ?a [0..<?n])"
    proof (cases "tr_depth root \<le> MAX_DEPTH")
      case True
      show ?thesis
        unfolding span_page_bases_def walk_span_fold [OF assms(1) Inr True n assms(2)] sum.case bases_fold
        by (cases "traverse ?a [0..<?n]") simp_all
    next
      case False
      have "?n \<noteq> 0" by (simp add: cnt)
      then have nz: "pages_spanned gva span (page_size g) \<noteq> 0" by auto
      have "span_page_bases mem g t gva span = Inl (Page ErrDepthTooDeep)"
        using span_setup_Inr [OF Inr] assms(3)
        by (simp add: span_page_bases_def walk_span_def Let_def too_deep_run [OF v _ False nz] bases_visit_def)
      moreover have "?a 0 = Inl ErrDepthTooDeep"
        using False span_setup_Inr [OF Inr] by (simp add: page_answer_def resolve_at_too_deep)
      moreover have "[0..<?n] = 0 # [1..<?n]" using \<open>?n \<noteq> 0\<close> by (simp add: upt_conv_Cons)
      ultimately show ?thesis by simp
    qed
    also have "\<dots> = traverse (\<lambda>k. map_sum Page id (?a k)) [0..<?n]"
      by (rule traverse_map_sum [symmetric])
    also have "\<dots> = traverse (?f \<circ> (\<lambda>k. ?q + k)) [0..<?n]"
    proof (rule traverse_cong)
      fix k assume "k \<in> set [0..<?n]"
      then have "?q + k \<le> (unat gva + unat span - 1) div ?S" using cnt le [of ?S] unfolding set_upt atLeastLessThan_iff by linarith
      from page_answer_byte [OF Inr assms(2) n this]
      show "map_sum Page id (?a k) = (?f \<circ> (\<lambda>k. ?q + k)) k" by (simp only: o_apply)
    qed
    also have "\<dots> = traverse ?f [?q..<?q + ?n]"
      using upt_shift [of ?q "?q + ?n"] by (simp add: traverse_map [symmetric])
    finally show ?thesis
      using le [of ?S] by (simp add: cnt unat_page_size [OF v])
  qed
qed

theorem span_page_bases_pagewise_witness:
  "span_page_bases (slice_read_at []) X86_64 \<lparr>active = True, directory_pfn = 1\<rparr> 0x1800 0x1000
   = Inl (Setup ErrDirectoryRead)"
  by (subst span_page_bases_pagewise)
    (simp_all add: slice_mem.guest_memory_axioms byte_gpa_def span_setup_def read_task_root_def
      X86_64_def validate_def read_directory_def u32_at_def slice_read_at_def page_size_def shl64_def
      upt_conv_Cons)

end
