(* ===== verification/Runs.thy ===== *)
theory Runs
  imports Machine
begin

text \<open>
  Page-contiguous stretches of a guest window, crates/reims-vgpu-paging/src/runs.rs. Index
  ranges \<open>a..b\<close> are pairs; addresses, page sizes and byte counts are \<open>u64\<close>.
\<close>

section \<open>The code\<close>

record window_run =
  wr_pages :: "nat \<times> nat"
  wr_start_offset :: u64
  wr_len :: u64

text \<open>The inner \<open>while\<close> of \<open>coalesce_window\<close>: the end of the stretch starting at \<open>i\<close>.\<close>

function stretch_end :: "u64 list \<Rightarrow> u64 \<Rightarrow> nat \<Rightarrow> nat \<Rightarrow> nat" where
  "stretch_end window page i j =
     (if j < length window \<and> window ! j = window ! i + of_nat (j - i) * page
      then stretch_end window page i (j + 1) else j)"
  by auto
termination by (relation "measure (\<lambda>(window, _, _, j). length window - j)") auto

declare stretch_end.simps [simp del]

lemma stretch_end_ge: "j \<le> stretch_end window page i j"
  by (induction window page i j rule: stretch_end.induct) (subst stretch_end.simps, auto)

lemma stretch_end_gt: "i < stretch_end window page i (Suc i)"
  using stretch_end_ge [of "Suc i" window page i] by simp

text \<open>The outer \<open>while\<close>: the stretches pushed from page \<open>i\<close> on, and the bytes consumed at its end.\<close>

function coalesce_loop ::
  "u64 list \<Rightarrow> u64 \<Rightarrow> u64 \<Rightarrow> u64 \<Rightarrow> nat \<Rightarrow> u64 \<Rightarrow> window_run list \<times> u64" where
  "coalesce_loop window page head_off span i consumed =
     (if i < length window \<and> consumed < span then
        (let j = stretch_end window page i (i + 1);
             start_offset = (if i = 0 then head_off else 0);
             avail = of_nat (j - i) * page - start_offset;
             len = min avail (span - consumed);
             rest = coalesce_loop window page head_off span j (consumed + len)
         in (\<lparr>wr_pages = (i, j), wr_start_offset = start_offset, wr_len = len\<rparr> # fst rest,
             snd rest))
      else ([], consumed))"
  by auto
termination
  by (relation "measure (\<lambda>(window, _, _, _, i, _). length window - i)")
     (auto intro: diff_less_mono2 [OF stretch_end_gt])

declare coalesce_loop.simps [simp del]

definition coalesce_window :: "u64 list \<Rightarrow> u64 \<Rightarrow> u64 \<Rightarrow> u64 \<Rightarrow> window_run list option" where
  "coalesce_window window page head_off span =
     (if page = 0 \<or> head_off \<ge> page then None
      else (case coalesce_loop window page head_off span 0 0 of
              (runs, consumed) \<Rightarrow> if consumed = span then Some runs else None))"

text \<open>Whether page \<open>i\<close> does not continue page \<open>i - 1\<close>.\<close>

definition page_break :: "u64 list \<Rightarrow> u64 \<Rightarrow> nat \<Rightarrow> bool" where
  "page_break gpas page_sz i \<longleftrightarrow> gpas ! i \<noteq> gpas ! (i - 1) + page_sz"

definition contig_step :: "u64 list \<Rightarrow> u64 \<Rightarrow> nat \<Rightarrow> (nat \<times> nat) list \<times> nat \<Rightarrow> (nat \<times> nat) list \<times> nat" where
  "contig_step gpas page_sz i st =
     (case st of (runs, start) \<Rightarrow>
        if page_break gpas page_sz i then (runs @ [(start, i)], i) else (runs, start))"

definition contig_page_runs :: "u64 list \<Rightarrow> u64 \<Rightarrow> (nat \<times> nat) list" where
  "contig_page_runs gpas page_sz =
     (if gpas = [] \<or> page_sz = 0 then []
      else (case fold (contig_step gpas page_sz) [1..<length gpas] ([], 0) of
              (runs, start) \<Rightarrow> runs @ [(start, length gpas)]))"

definition contig_run_count :: "u64 list \<Rightarrow> u64 \<Rightarrow> nat" where
  "contig_run_count gpas page_sz =
     (if gpas = [] \<or> page_sz = 0 then 0
      else 1 + length (filter (page_break gpas page_sz) [1..<length gpas]))"

section \<open>The index form\<close>

lemma contig_fold_length:
  "length (fst (fold (contig_step gpas p) is (runs, start)))
     = length runs + length (filter (page_break gpas p) is)"
  by (induction "is" arbitrary: runs start) (auto simp: contig_step_def)

lemma contig_run_count_is_length:
  "contig_run_count gpas page_sz = length (contig_page_runs gpas page_sz)"
  using contig_fold_length [of gpas page_sz "[1..<length gpas]" "[]" 0]
  by (auto simp: contig_run_count_def contig_page_runs_def split: prod.split)

text \<open>A page list cut into stretches: ranges that follow one another from \<open>a\<close> to \<open>b\<close>, no page
  break inside one, a page break at every inner boundary.\<close>

fun cuts_pages :: "u64 list \<Rightarrow> u64 \<Rightarrow> nat \<Rightarrow> (nat \<times> nat) list \<Rightarrow> nat \<Rightarrow> bool" where
  "cuts_pages gpas p a [] b \<longleftrightarrow> a = b"
| "cuts_pages gpas p a ((s, e) # rs) b \<longleftrightarrow>
     s = a \<and> s < e \<and> list_all (\<lambda>k. \<not> page_break gpas p k) [s + 1..<e]
     \<and> (rs \<noteq> [] \<longrightarrow> page_break gpas p e) \<and> cuts_pages gpas p e rs b"

lemma cuts_pages_le: "cuts_pages gpas p a rs b \<Longrightarrow> a \<le> b"
  by (induction gpas p a rs b rule: cuts_pages.induct) auto

lemma cuts_pages_snoc:
  assumes "cuts_pages gpas p a rs b" "rs \<noteq> [] \<longrightarrow> page_break gpas p b" "b < e"
    "list_all (\<lambda>k. \<not> page_break gpas p k) [b + 1..<e]"
  shows "cuts_pages gpas p a (rs @ [(b, e)]) e"
  using assms by (induction rs arbitrary: a) auto

lemma contig_fold_inv:
  assumes "1 \<le> n"
  shows "case fold (contig_step gpas p) [1..<n] ([], 0) of (runs, start) \<Rightarrow>
    cuts_pages gpas p 0 runs start \<and> start < n
    \<and> list_all (\<lambda>k. \<not> page_break gpas p k) [start + 1..<n]
    \<and> (runs \<noteq> [] \<longrightarrow> page_break gpas p start)"
  using assms
proof (induction n rule: nat_induct_at_least)
  case base
  then show ?case by simp
next
  case (Suc n)
  then show ?case
    by (auto simp: contig_step_def list_all_iff less_Suc_eq intro!: cuts_pages_snoc split: prod.splits)
qed

text \<open>The index form partitions the page list into its maximal contiguous stretches: the
  ranges follow one another from the first page to the last, pages within one ascend by exactly
  one page, and the first page of each later range does not continue the page before it. The
  count form answers the length of that list without building it.\<close>

theorem contig_page_runs_cut:
  assumes "gpas \<noteq> []" and "page_sz \<noteq> 0"
  shows "cuts_pages gpas page_sz 0 (contig_page_runs gpas page_sz) (length gpas)
    \<and> contig_run_count gpas page_sz = length (contig_page_runs gpas page_sz)"
  using contig_fold_inv [where n = "length gpas" and gpas = gpas and p = page_sz] assms
    contig_run_count_is_length [of gpas page_sz]
  by (auto simp: contig_page_runs_def Suc_le_eq split: prod.splits intro!: cuts_pages_snoc)

theorem contig_page_runs_cut_witness:
  "cuts_pages [0x4000, 0x5000, 0x9000] 0x1000 0 (contig_page_runs [0x4000, 0x5000, 0x9000] 0x1000) 3
   \<and> contig_page_runs [0x4000, 0x5000, 0x9000] 0x1000 = [(0, 2), (2, 3)]"
  using contig_page_runs_cut [of "[0x4000, 0x5000, 0x9000]" "0x1000"]
  by (simp add: contig_page_runs_def contig_step_def page_break_def upt_rec numeral_3_eq_3)

section \<open>The byte form\<close>

text \<open>Pages \<open>i\<close> to \<open>j\<close> of the window are contiguous.\<close>

definition stretch :: "u64 list \<Rightarrow> u64 \<Rightarrow> nat \<Rightarrow> nat \<Rightarrow> bool" where
  "stretch window page i j \<longleftrightarrow>
     (\<forall>k \<in> {i..<j}. window ! k = window ! i + of_nat (k - i) * page)"

lemma stretch_one: "stretch window page i (Suc i)"
  unfolding stretch_def by simp

lemma stretch_Suc:
  assumes "stretch window page i j" "window ! j = window ! i + of_nat (j - i) * page"
  shows "stretch window page i (Suc j)"
  using assms unfolding stretch_def by (metis atLeastLessThan_iff less_Suc_eq)

lemma stretch_nth:
  "stretch window page i j \<Longrightarrow> i \<le> k \<Longrightarrow> k < j \<Longrightarrow> window ! k = window ! i + of_nat (k - i) * page"
  unfolding stretch_def by (metis atLeastLessThan_iff)

lemma stretch_end_inv:
  assumes "stretch window page i j" "j \<le> length window"
  shows "stretch_end window page i j \<le> length window
    \<and> stretch window page i (stretch_end window page i j)"
  using assms
proof (induction window page i j rule: stretch_end.induct)
  case (1 window page i j)
  show ?case
  proof (cases "j < length window \<and> window ! j = window ! i + of_nat (j - i) * page")
    case True
    have "stretch_end window page i j = stretch_end window page i (j + 1)"
      using True stretch_end.simps [of window page i j] by (simp only: if_True simp_thms)
    then show ?thesis
      using "1.IH" [OF True] stretch_Suc [OF "1.prems"(1)] True by (metis Suc_eq_plus1 Suc_leI)
  next
    case False
    then have "stretch_end window page i j = j"
      using stretch_end.simps [of window page i j] by (simp only: if_False)
    then show ?thesis using "1.prems" by simp
  qed
qed

lemma stretch_end_next:
  assumes "i < length window"
  shows "stretch_end window page i (Suc i) \<le> length window"
    "stretch window page i (stretch_end window page i (Suc i))"
  using stretch_end_inv [OF stretch_one, of i window page] assms by auto

text \<open>The address of byte \<open>n\<close> of a window read from \<open>head\<close> bytes into its first page, and the
  addresses the runs name.\<close>

definition window_byte :: "u64 list \<Rightarrow> u64 \<Rightarrow> u64 \<Rightarrow> nat \<Rightarrow> u64" where
  "window_byte window page head_off n =
     window ! ((unat head_off + n) div unat page) + of_nat ((unat head_off + n) mod unat page)"

definition run_bytes :: "u64 list \<Rightarrow> window_run list \<Rightarrow> u64 list" where
  "run_bytes window rs =
     concat (map (\<lambda>r. map (\<lambda>n. window ! fst (wr_pages r) + wr_start_offset r + of_nat n)
                     [0..<unat (wr_len r)]) rs)"

lemma window_byte_stretch:
  assumes "stretch window page i j" and "0 < unat page" "i * unat page \<le> m" "m < j * unat page"
  shows "window ! (m div unat page) + of_nat (m mod unat page) = window ! i + of_nat (m - i * unat page)"
proof -
  let ?q = "m div unat page"
  have q: "i \<le> ?q" "?q < j"
    using assms(2-4) by (simp_all add: less_eq_div_iff_mult_less_eq div_less_iff_less_mult)
  have "window ! ?q = window ! i + of_nat ((?q - i) * unat page)"
    using stretch_nth [OF assms(1) q] by simp
  moreover have "m - i * unat page = (?q - i) * unat page + m mod unat page"
  proof -
    have "i * unat page \<le> ?q * unat page" using q(1) by (rule mult_le_mono1)
    then show ?thesis using div_mult_mod_eq [of m "unat page"] by (simp only: diff_mult_distrib)
  qed
  ultimately show ?thesis by (simp only: of_nat_add add.assoc)
qed

text \<open>
  From page \<open>i\<close>, with every byte of the earlier pages consumed, the loop covers the rest of the
  span, or all the window has.
\<close>

lemma coalesce_loop_bytes:
  assumes "0 < unat page" "head_off < page" and "length window * unat page < 2 ^ 64"
    and "i \<le> length window" and "unat consumed = i * unat page - unat head_off"
  shows "(let n = min (unat span) (length window * unat page - unat head_off);
              r = coalesce_loop window page head_off span i consumed
          in run_bytes window (fst r) = map (window_byte window page head_off) [unat consumed..<n]
             \<and> unat (snd r) = max (unat consumed) n)"
  using assms
proof (induction window page head_off span i consumed rule: coalesce_loop.induct)
  case (1 window page head_off span i consumed)
  let ?P = "unat page" and ?h = "unat head_off" and ?c = "unat consumed"
  have hP: "?h < ?P" using "1.prems"(2) by (simp add: word_less_nat_alt)
  show ?case
  proof (cases "i < length window \<and> consumed < span")
    case False
    then have e: "coalesce_loop window page head_off span i consumed = ([], consumed)"
      using coalesce_loop.simps [of window page head_off span i consumed] by (simp only: if_False)
    have "min (unat span) (length window * ?P - ?h) \<le> ?c"
    proof (cases "i < length window")
      case True
      with False show ?thesis by (simp add: word_less_nat_alt)
    next
      case False
      then have "i = length window" using "1.prems"(4) by simp
      then show ?thesis using "1.prems"(5) by simp
    qed
    then show ?thesis by (simp add: e run_bytes_def)
  next
    case True
    define j where "j = stretch_end window page i (Suc i)"
    define start where "start = (if i = 0 then head_off else 0)"
    define avail where "avail = of_nat (j - i) * page - start"
    define l where "l = min avail (span - consumed)"
    define rest where "rest = coalesce_loop window page head_off span j (consumed + l)"
    have j: "i < j" "j \<le> length window" "stretch window page i j"
      using stretch_end_gt stretch_end_next True by (auto simp: j_def)
    have step: "coalesce_loop window page head_off span i consumed
        = (\<lparr>wr_pages = (i, j), wr_start_offset = start, wr_len = l\<rparr> # fst rest, snd rest)"
      using True coalesce_loop.simps [of window page head_off span i consumed]
      by (simp only: if_True simp_thms Let_def rest_def l_def avail_def start_def j_def Suc_eq_plus1)
    have cs: "?c < unat span" using True by (simp add: word_less_nat_alt)
    have st: "unat start + i * ?P = ?h + ?c"
      using "1.prems"(5) hP by (cases i) (simp_all add: start_def)
    have jP: "(j - i) * ?P + i * ?P = j * ?P" using j(1) by (simp flip: add_mult_distrib)
    have jL: "j * ?P \<le> length window * ?P" using j(2) by (rule mult_le_mono1)
    have iP: "(i + 1) * ?P \<le> j * ?P" using j(1) by (intro mult_le_mono1) simp
    have sP: "unat start < ?P" using hP "1.prems"(1) by (simp add: start_def)
    have "unat (of_nat (j - i) * page) = (j - i) * ?P"
    proof -
      have "(j - i) * ?P < 2 ^ 64" using jP jL "1.prems"(3) by linarith
      moreover have "j - i \<le> (j - i) * ?P" using "1.prems"(1) by simp
      ultimately have "j - i < 2 ^ 64" by linarith
      then have "unat (of_nat (j - i) :: u64) = j - i" by (simp add: unat_of_nat_small)
      with \<open>(j - i) * ?P < 2 ^ 64\<close> show ?thesis by (simp add: unat_mult_no_wrap)
    qed
    moreover have "start \<le> of_nat (j - i) * page"
      using calculation sP iP jP by (simp add: word_le_nat_alt)
    ultimately have av: "unat avail = j * ?P - ?h - ?c"
      unfolding avail_def using st jP by (simp only: unat_sub_no_wrap)
    have l: "unat l = min (j * ?P - ?h - ?c) (unat span - ?c)"
      using cs True by (simp add: l_def min_def av word_le_nat_alt unat_sub_no_wrap word_less_nat_alt)
    have hj: "?h + ?c \<le> j * ?P" using st sP iP by simp
    have cl: "unat (consumed + l) = min (j * ?P - ?h) (unat span)"
    proof -
      have "?c + unat l = min (j * ?P - ?h) (unat span)" using l cs hj by linarith
      moreover have "\<dots> < 2 ^ 64" using unat_lt2p [of span] by simp
      ultimately show ?thesis by (simp add: unat_add_no_wrap)
    qed
    let ?n = "min (unat span) (length window * ?P - ?h)"
    have cn: "unat (consumed + l) \<le> ?n" "?c \<le> unat (consumed + l)"
      using cl jL hj cs by linarith+
    have first: "map (\<lambda>n. window ! i + start + of_nat n) [0..<unat l]
        = map (window_byte window page head_off) [?c..<unat (consumed + l)]"
    proof -
      have "window ! i + start + of_nat n = window_byte window page head_off (?c + n)" if "n < unat l" for n
      proof -
        have "?h + (?c + n) < j * ?P" using that l hj by linarith
        moreover have "i * ?P \<le> ?h + (?c + n)" using st by linarith
        ultimately have "window_byte window page head_off (?c + n)
            = window ! i + of_nat (?h + (?c + n) - i * ?P)"
          unfolding window_byte_def using window_byte_stretch [OF j(3) "1.prems"(1)] by simp
        moreover have "?h + (?c + n) - i * ?P = unat start + n" using st by linarith
        ultimately show ?thesis by (simp add: add.assoc)
      qed
      then have "map (\<lambda>n. window ! i + start + of_nat n) [0..<unat l]
          = map (window_byte window page head_off) (map (\<lambda>n. ?c + n) [0..<unat l])"
        by simp
      moreover have "unat (consumed + l) = ?c + unat l" using cl l hj cs by linarith
      ultimately show ?thesis by (simp only: upt_shift [of ?c "?c + unat l", simplified])
    qed
    have "run_bytes window (fst rest) = map (window_byte window page head_off) [unat (consumed + l)..<?n]
        \<and> unat (snd rest) = max (unat (consumed + l)) ?n"
    proof (cases "unat (consumed + l) = j * ?P - ?h")
      case full: True
      show ?thesis
        using "1.IH" [OF True refl refl refl refl] "1.prems"(1-3) j(2) full
        by (simp only: Let_def j_def [symmetric] start_def [symmetric] avail_def [symmetric]
            l_def [symmetric] rest_def [symmetric] Suc_eq_plus1 [symmetric])
    next
      case False
      then have "consumed + l = span" using cl by (simp add: word_unat_eq_iff)
      moreover from this have "rest = ([], consumed + l)"
        using coalesce_loop.simps [of window page head_off span j "consumed + l"] by (simp add: rest_def)
      ultimately show ?thesis using cn by (simp add: run_bytes_def)
    qed
    then show ?thesis
      using cn by (simp add: step run_bytes_def first upt_split [OF cn(2,1)])
  qed
qed

text \<open>The byte form of the cut carries exactly the requested bytes: \<open>coalesce_window\<close> answers
  precisely when the window's pages hold the span, and then the bytes its stretches name, in
  order, are the addresses of the span's bytes, each in the page its position falls in.\<close>

lemma coalesce_window_bytes:
  assumes "head_off < page" and "length window * unat page < 2 ^ 64"
  shows "map_option (run_bytes window) (coalesce_window window page head_off span)
    = (if unat span \<le> length window * unat page - unat head_off
       then Some (map (window_byte window page head_off) [0..<unat span]) else None)"
proof -
  have p: "0 < unat page" using assms(1) by (simp add: word_less_nat_alt)
  have "page \<noteq> 0" using p by auto
  obtain runs consumed where r: "coalesce_loop window page head_off span 0 0 = (runs, consumed)"
    by (cases "coalesce_loop window page head_off span 0 0")
  have c: "unat consumed = min (unat span) (length window * unat page - unat head_off)"
    and b: "run_bytes window runs = map (window_byte window page head_off) [0..<unat consumed]"
    using coalesce_loop_bytes [OF p assms, of 0 0 span] by (simp_all add: r Let_def)
  have "consumed = span \<longleftrightarrow> unat span \<le> length window * unat page - unat head_off"
    using c by (auto simp: word_unat_eq_iff min_def)
  then show ?thesis
    using assms(1) \<open>page \<noteq> 0\<close> b by (simp add: coalesce_window_def r c not_le [symmetric])
qed

lemma stretch_no_break:
  assumes "stretch window page i j" "i < k" "k < j"
  shows "\<not> page_break window page k"
proof -
  have "k - i = Suc (k - 1 - i)" using assms(2) by simp
  then have "of_nat (k - i) * page = of_nat (k - 1 - i) * page + page" by (simp add: algebra_simps)
  moreover have "window ! (k - 1) = window ! i + of_nat (k - 1 - i) * page"
    using assms by (intro stretch_nth) auto
  moreover have "window ! k = window ! i + of_nat (k - i) * page"
    using assms by (intro stretch_nth) auto
  ultimately show ?thesis by (simp add: page_break_def add.assoc)
qed

lemma stretch_end_stops:
  "stretch_end window page i j < length window \<Longrightarrow>
     window ! stretch_end window page i j \<noteq> window ! i + of_nat (stretch_end window page i j - i) * page"
proof (induction window page i j rule: stretch_end.induct)
  case (1 window page i j)
  show ?case
  proof (cases "j < length window \<and> window ! j = window ! i + of_nat (j - i) * page")
    case True
    have "stretch_end window page i j = stretch_end window page i (j + 1)"
      using True stretch_end.simps [of window page i j] by (simp only: if_True simp_thms)
    then show ?thesis using "1.IH" [OF True] "1.prems" by (simp only: simp_thms)
  next
    case False
    then have "stretch_end window page i j = j"
      using stretch_end.simps [of window page i j] by (simp only: if_False)
    then show ?thesis using False "1.prems" by (simp only:) blast
  qed
qed

lemma stretch_end_break:
  assumes "i < length window" "stretch_end window page i (Suc i) < length window"
  shows "page_break window page (stretch_end window page i (Suc i))"
proof -
  let ?j = "stretch_end window page i (Suc i)"
  have j: "i < ?j" by (rule stretch_end_gt)
  have "?j - i = Suc (?j - 1 - i)" using j by simp
  then have e: "of_nat (?j - i) * page = of_nat (?j - 1 - i) * page + page" by (simp add: algebra_simps)
  have "window ! (?j - 1) = window ! i + of_nat (?j - 1 - i) * page"
    using j by (intro stretch_nth [OF stretch_end_next(2) [OF assms(1)]]) auto
  with stretch_end_stops [OF assms(2)] show ?thesis
    by (simp add: page_break_def e add.assoc)
qed

lemma coalesce_loop_cuts:
  assumes "i \<le> length window"
  shows "\<exists>e \<le> length window.
    cuts_pages window page i (map wr_pages (fst (coalesce_loop window page head_off span i consumed))) e
    \<and> (i < e \<and> e < length window \<longrightarrow> page_break window page e)"
  using assms
proof (induction window page head_off span i consumed rule: coalesce_loop.induct)
  case (1 window page head_off span i consumed)
  show ?case
  proof (cases "i < length window \<and> consumed < span")
    case False
    then have "coalesce_loop window page head_off span i consumed = ([], consumed)"
      using coalesce_loop.simps [of window page head_off span i consumed] by (simp only: if_False)
    then show ?thesis using "1.prems" by auto
  next
    case True
    define j where "j = stretch_end window page i (Suc i)"
    have j: "i < j" "j \<le> length window" "stretch window page i j"
      "j < length window \<Longrightarrow> page_break window page j"
      using stretch_end_gt stretch_end_next stretch_end_break True by (auto simp: j_def)
    obtain s l rest c where step: "coalesce_loop window page head_off span i consumed
        = (\<lparr>wr_pages = (i, j), wr_start_offset = s, wr_len = l\<rparr> # fst rest, snd rest)"
      "rest = coalesce_loop window page head_off span j c"
      and ih: "\<exists>e \<le> length window. cuts_pages window page j (map wr_pages (fst rest)) e
        \<and> (j < e \<and> e < length window \<longrightarrow> page_break window page e)"
      using True coalesce_loop.simps [of window page head_off span i consumed]
        "1.IH" [OF True refl refl refl refl] j(2)
      by (simp only: if_True simp_thms Let_def j_def Suc_eq_plus1)
    then obtain e where e: "e \<le> length window" "cuts_pages window page j (map wr_pages (fst rest)) e"
      "j < e \<and> e < length window \<longrightarrow> page_break window page e" by blast
    have "fst rest \<noteq> [] \<Longrightarrow> j < length window"
      using step(2) coalesce_loop.simps [of window page head_off span j c]
      by (auto split: if_splits)
    moreover have "j \<le> e" using e(2) cuts_pages_le by blast
    ultimately show ?thesis
      using e j by (intro exI [of _ e]) (auto simp: step(1) list_all_iff stretch_no_break le_less)
  qed
qed

text \<open>The stretches of the byte form are maximal: each ends only where the next page does not
  continue it, or where the window ends, so it cuts exactly where the index form cuts.\<close>

lemma coalesce_window_cuts:
  assumes "coalesce_window window page head_off span = Some runs"
  shows "\<exists>e \<le> length window. cuts_pages window page 0 (map wr_pages runs) e
    \<and> (0 < e \<and> e < length window \<longrightarrow> page_break window page e)"
  using coalesce_loop_cuts [of 0 window page head_off span 0] assms
  by (auto simp: coalesce_window_def split: if_splits prod.splits)

text \<open>C21: The byte form of the cut carries exactly the requested bytes in maximal stretches.
  \<open>coalesce_window\<close> answers precisely when the window's pages hold the span; then the bytes its
  stretches name, in order, are the addresses of the span's bytes, each in the page its position falls
  in, and each stretch ends only where the next page does not continue it, or where the window ends.\<close>

theorem coalesce_window_exact:
  assumes "head_off < page" and "length window * unat page < 2 ^ 64"
  shows "map_option (run_bytes window) (coalesce_window window page head_off span)
      = (if unat span \<le> length window * unat page - unat head_off
         then Some (map (window_byte window page head_off) [0..<unat span]) else None)
    \<and> (\<forall>runs. coalesce_window window page head_off span = Some runs \<longrightarrow>
        (\<exists>e \<le> length window. cuts_pages window page 0 (map wr_pages runs) e
          \<and> (0 < e \<and> e < length window \<longrightarrow> page_break window page e)))"
  using coalesce_window_bytes [OF assms] coalesce_window_cuts by blast

lemma coalesce_example:
  "coalesce_window [0x4000, 0x5000, 0x9000] 0x1000 0x800 0x1900 =
     Some [\<lparr>wr_pages = (0, 2), wr_start_offset = 0x800, wr_len = 0x1800\<rparr>,
           \<lparr>wr_pages = (2, 3), wr_start_offset = 0, wr_len = 0x100\<rparr>]"
  by (simp add: coalesce_window_def coalesce_loop.simps stretch_end.simps Let_def)

theorem coalesce_window_exact_witness:
  "map_option (run_bytes [0x4000, 0x5000, 0x9000])
     (coalesce_window [0x4000, 0x5000, 0x9000] 0x1000 0x800 0x1900)
   = Some (map (window_byte [0x4000, 0x5000, 0x9000] 0x1000 0x800) [0..<0x1900])"
  using coalesce_window_exact [of "0x800" "0x1000" "[0x4000, 0x5000, 0x9000]" "0x1900"] by simp

end
