(* ===== verification/Regions.thy ===== *)
theory Regions
  imports Machine
begin

text \<open>
  Image-copy rectangles of a byte range of a window, crates/reims-vgpu-paging/src/regions.rs.
\<close>

section \<open>The code\<close>

record window_region =
  rg_offset :: u64
  rg_x :: u32
  rg_y :: u32
  rg_width :: u32
  rg_height :: u32

record window_geometry =
  pitch_bytes :: u64
  width_texels :: u32
  height_texels :: u32

definition BYTES_PER_TEXEL :: u64 where "BYTES_PER_TEXEL = 4"

definition extent_end :: "window_geometry \<Rightarrow> u64" where
  "extent_end gm =
     (if height_texels gm = 0 \<or> width_texels gm = 0 then 0
      else ucast (height_texels gm - 1) * pitch_bytes gm + ucast (width_texels gm) * BYTES_PER_TEXEL)"

text \<open>One row of the loop: \<open>None\<close> is the \<open>break\<close>, \<open>Some\<close> the rectangles after the row.\<close>

definition region_row ::
  "window_geometry \<Rightarrow> u64 \<Rightarrow> u64 \<Rightarrow> u64 \<Rightarrow> window_region list \<Rightarrow> window_region list option" where
  "region_row gm start end_b row out =
     (if row \<ge> ucast (height_texels gm) then None
      else
        let row_texel_bytes = ucast (width_texels gm) * BYTES_PER_TEXEL;
            row_start = row * pitch_bytes gm;
            seg_start = max start row_start;
            seg_end = min end_b (row_start + row_texel_bytes)
        in if seg_start \<ge> seg_end then Some out
           else
             let x = (seg_start - row_start) div BYTES_PER_TEXEL;
                 width = (seg_end - seg_start) div BYTES_PER_TEXEL;
                 fresh = out @ [\<lparr>rg_offset = seg_start, rg_x = ucast x, rg_y = ucast row,
                                 rg_width = ucast width, rg_height = 1\<rparr>]
             in if width = 0 then Some out
                else if out \<noteq> [] then
                  let prev = last out;
                      whole_row = (x = 0 \<and> width = ucast (width_texels gm));
                      prev_whole_row = (rg_x prev = 0 \<and> rg_width prev = width_texels gm);
                      adjacent = (ucast (rg_y prev) + ucast (rg_height prev) = row)
                  in if whole_row \<and> prev_whole_row \<and> adjacent
                     then Some (butlast out @ [prev\<lparr>rg_height := rg_height prev + 1\<rparr>])
                     else Some fresh
                else Some fresh)"

primrec region_rows ::
  "window_geometry \<Rightarrow> u64 \<Rightarrow> u64 \<Rightarrow> nat \<Rightarrow> u64 \<Rightarrow> window_region list \<Rightarrow> window_region list" where
  "region_rows gm start end_b 0 row out = out"
| "region_rows gm start end_b (Suc n) row out =
     (case region_row gm start end_b row out of
        None \<Rightarrow> out
      | Some out \<Rightarrow> region_rows gm start end_b n (row + 1) out)"

definition plan_regions :: "window_geometry \<Rightarrow> u64 \<Rightarrow> u64 \<Rightarrow> window_region list" where
  "plan_regions gm start end_b =
     (if pitch_bytes gm = 0 \<or> width_texels gm = 0 \<or> height_texels gm = 0 then []
      else
        let end_b = min end_b (extent_end gm)
        in if start \<ge> end_b then []
           else
             let first_row = start div pitch_bytes gm;
                 last_row = (end_b - 1) div pitch_bytes gm
             in region_rows gm start end_b (unat last_row + 1 - unat first_row) first_row [])"

section \<open>Texels\<close>

text \<open>A rectangle's texels, as row, column and byte offset in the window, and the texels of a
  byte range.\<close>

definition region_texels :: "nat \<Rightarrow> window_region \<Rightarrow> (nat \<times> nat \<times> nat) list" where
  "region_texels P r =
     concat (map (\<lambda>i. map (\<lambda>c. (unat (rg_y r) + i, unat (rg_x r) + c,
                                unat (rg_offset r) + i * P + 4 * c)) [0..<unat (rg_width r)])
       [0..<unat (rg_height r)])"

definition row_texels :: "nat \<Rightarrow> nat \<Rightarrow> nat \<Rightarrow> nat \<Rightarrow> nat \<Rightarrow> (nat \<times> nat \<times> nat) list" where
  "row_texels P W s e r =
     map (\<lambda>c. (r, c, r * P + 4 * c)) (filter (\<lambda>c. s \<le> r * P + 4 * c \<and> r * P + 4 * c + 4 \<le> e) [0..<W])"

definition range_texels :: "window_geometry \<Rightarrow> nat \<Rightarrow> nat \<Rightarrow> (nat \<times> nat \<times> nat) list" where
  "range_texels gm s e =
     concat (map (row_texels (unat (pitch_bytes gm)) (unat (width_texels gm)) s e)
       [0..<unat (height_texels gm)])"

lemma filter_interval: "filter (\<lambda>c. a \<le> c \<and> c < b) [0..<n] = [a..<min b n]"
  by (induction n) (auto simp: min_def le_less_Suc_eq not_le le_Suc_eq)

lemma row_columns:
  fixes P W s e r :: nat
  assumes "P mod 4 = 0" "s mod 4 = 0"
  defines "ss \<equiv> max s (r * P)" and "se \<equiv> min e (r * P + 4 * W)"
  shows "row_texels P W s e r =
    (if se \<le> ss then [] else
      map (\<lambda>c. (r, c, r * P + 4 * c)) [(ss - r * P) div 4 ..< (ss - r * P) div 4 + (se - ss) div 4])"
proof -
  obtain p a where p: "P = 4 * p" and a: "s = 4 * a"
    using assms(1,2) by (metis mod_0_imp_dvd dvd_def)
  define q where "q = r * p"
  have rP: "r * P = 4 * q" by (simp add: p q_def)
  have "(\<lambda>c. s \<le> r * P + 4 * c \<and> r * P + 4 * c + 4 \<le> e)
      = (\<lambda>c. a - q \<le> c \<and> c < (e - r * P) div 4)"
    unfolding rP a by (intro ext) auto
  then have f: "filter (\<lambda>c. s \<le> r * P + 4 * c \<and> r * P + 4 * c + 4 \<le> e) [0..<W]
      = [a - q ..< min ((e - r * P) div 4) W]"
    by (simp only: filter_interval)
  have ss: "ss = 4 * max a q" by (simp add: ss_def rP a max_def)
  have x: "(ss - r * P) div 4 = a - q" by (auto simp: ss rP max_def)
  define d where "d = e div 4"
  have e: "4 * d \<le> e" "e < 4 * d + 4" by (simp_all add: d_def)
  have "(e - r * P) div 4 = d - q" unfolding rP d_def by simp
  moreover have w: "(se - ss) div 4 = min d (q + W) - max a q"
  proof -
    have "se div 4 = min d (q + W)"
    proof (cases "e \<le> 4 * q + 4 * W")
      case True
      then have "d \<le> q + W" using e by linarith
      with True show ?thesis by (simp add: se_def rP d_def)
    next
      case False
      then have "q + W \<le> d" using e by linarith
      moreover from False have "se = (q + W) * 4" by (simp add: se_def rP)
      ultimately show ?thesis by (simp only: div_mult_self_is_m zero_less_numeral min_absorb2)
    qed
    moreover have "(k - 4 * m) div 4 = k div 4 - m" for k m :: nat by presburger
    ultimately show ?thesis unfolding ss by (simp only:)
  qed
  moreover have "(ss - r * P) div 4 + (se - ss) div 4 = min (d - q) W" if "ss < se"
    using that e unfolding w x by (auto simp: ss se_def rP)
  moreover have "min (d - q) W \<le> a - q" if "se \<le> ss"
    using that e by (auto simp: ss se_def rP min_def max_def split: if_splits)
  ultimately show ?thesis
    unfolding row_texels_def f by (auto simp: x)
qed

section \<open>One row\<close>

text \<open>The geometry a window is planned under: texel-aligned rows that hold the frame's width, and a
  frame whose bytes are addressable.\<close>

definition geometry_ok :: "window_geometry \<Rightarrow> bool" where
  "geometry_ok gm \<longleftrightarrow>
     unat (pitch_bytes gm) mod 4 = 0 \<and> 4 * unat (width_texels gm) \<le> unat (pitch_bytes gm)
     \<and> unat (height_texels gm) * unat (pitch_bytes gm) < 2 ^ 64"

lemma row_words:
  assumes g: "geometry_ok gm" and r: "unat row < unat (height_texels gm)"
  defines "P \<equiv> unat (pitch_bytes gm)" and "W \<equiv> unat (width_texels gm)"
  shows "unat (row * pitch_bytes gm) = unat row * P"
    "unat (ucast (width_texels gm) * BYTES_PER_TEXEL) = 4 * W"
    "unat (row * pitch_bytes gm + ucast (width_texels gm) * BYTES_PER_TEXEL) = unat row * P + 4 * W"
    "unat row * P + 4 * W \<le> unat (height_texels gm) * P"
proof -
  have "(unat row + 1) * P \<le> unat (height_texels gm) * P"
    using r by (intro mult_le_mono1) simp
  moreover have W: "4 * W \<le> P" using g by (simp add: geometry_ok_def P_def W_def)
  ultimately show 4: "unat row * P + 4 * W \<le> unat (height_texels gm) * P" by simp
  have b: "unat (height_texels gm) * P < 2 ^ 64" using g by (simp add: geometry_ok_def P_def)
  have "unat row * P < 2 ^ 64" using 4 b by linarith
  then show 1: "unat (row * pitch_bytes gm) = unat row * P"
    by (simp add: unat_mult_no_wrap P_def)
  have "unat (ucast (width_texels gm) :: u64) = W"
    by (simp add: W_def)
  then show 2: "unat (ucast (width_texels gm) * BYTES_PER_TEXEL) = 4 * W"
    using unat_lt2p [of "width_texels gm"]
    by (simp add: BYTES_PER_TEXEL_def unat_mult_no_wrap W_def)
  show "unat (row * pitch_bytes gm + ucast (width_texels gm) * BYTES_PER_TEXEL) = unat row * P + 4 * W"
    using 4 b by (simp add: unat_add_no_wrap 1 2)
qed

definition regions_inv :: "window_geometry \<Rightarrow> nat \<Rightarrow> window_region list \<Rightarrow> bool" where
  "regions_inv gm row out \<longleftrightarrow>
     (\<forall>r \<in> set out. unat (rg_offset r) = unat (rg_y r) * unat (pitch_bytes gm) + 4 * unat (rg_x r)
        \<and> unat (rg_y r) + unat (rg_height r) \<le> row)"

definition texels_of :: "window_geometry \<Rightarrow> window_region list \<Rightarrow> (nat \<times> nat \<times> nat) list" where
  "texels_of gm out = concat (map (region_texels (unat (pitch_bytes gm))) out)"

lemma regions_inv_Suc: "regions_inv gm row out \<Longrightarrow> regions_inv gm (Suc row) out"
  unfolding regions_inv_def by (meson le_SucI)

lemma region_texels_row:
  "region_texels P \<lparr>rg_offset = off, rg_x = x, rg_y = y, rg_width = w, rg_height = 1\<rparr>
     = map (\<lambda>c. (unat y, unat x + c, unat off + 4 * c)) [0..<unat w]"
  by (simp add: region_texels_def)

lemma region_texels_grow:
  assumes "unat (rg_height r) + 1 < 2 ^ 32" "unat (rg_offset r) = unat (rg_y r) * P" "rg_x r = 0"
  shows "region_texels P (r\<lparr>rg_height := rg_height r + 1\<rparr>)
    = region_texels P r @ map (\<lambda>c. (unat (rg_y r) + unat (rg_height r), c,
        (unat (rg_y r) + unat (rg_height r)) * P + 4 * c)) [0..<unat (rg_width r)]"
proof -
  have "unat (rg_height r + 1) = Suc (unat (rg_height r))"
    using assms(1) by (simp add: unat_add_no_wrap)
  then show ?thesis
    using assms(2,3) by (simp add: region_texels_def distrib_right)
qed

lemma region_row_texels:
  assumes g: "geometry_ok gm" and r: "unat row < unat (height_texels gm)"
    and s: "unat start mod 4 = 0" and inv: "regions_inv gm (unat row) out"
  shows "\<exists>out'. region_row gm start e row out = Some out'
    \<and> texels_of gm out' = texels_of gm out
        @ row_texels (unat (pitch_bytes gm)) (unat (width_texels gm)) (unat start) (unat e) (unat row)
    \<and> regions_inv gm (Suc (unat row)) out'"
proof -
  let ?P = "unat (pitch_bytes gm)" and ?W = "unat (width_texels gm)" and ?r = "unat row"
  define rs where "rs = row * pitch_bytes gm"
  define ss where "ss = max start rs"
  define se where "se = min e (rs + ucast (width_texels gm) * BYTES_PER_TEXEL)"
  define x where "x = (ss - rs) div BYTES_PER_TEXEL"
  define w where "w = (se - ss) div BYTES_PER_TEXEL"
  define fresh where "fresh = \<lparr>rg_offset = ss, rg_x = ucast x, rg_y = ucast row,
                                rg_width = ucast w, rg_height = (1 :: u32)\<rparr>"
  note rw = row_words [OF g r]
  have P4: "?P mod 4 = 0" using g by (simp add: geometry_ok_def)
  have rs: "unat rs = ?r * ?P" by (simp add: rs_def rw)
  have uss: "unat ss = max (unat start) (?r * ?P)" by (simp add: ss_def unat_max rs)
  have use: "unat se = min (unat e) (?r * ?P + 4 * ?W)" by (simp add: se_def unat_min rs_def rw)
  note rc = row_columns [OF P4 s, where r = ?r and e = "unat e" and W = ?W, folded uss use]
  have ux: "unat x = (unat ss - ?r * ?P) div 4"
  proof -
    have "rs \<le> ss" by (simp add: ss_def)
    then show ?thesis by (simp add: x_def BYTES_PER_TEXEL_def unat_div_distrib unat_sub_no_wrap rs)
  qed
  have notbreak: "\<not> ucast (height_texels gm) \<le> row"
    using r by (simp add: word_le_nat_alt)
  show ?thesis
  proof (cases "se \<le> ss")
    case True
    then have "region_row gm start e row out = Some out"
      by (simp add: region_row_def notbreak Let_def rs_def ss_def se_def)
    then show ?thesis
      using True rc by (simp add: word_le_nat_alt regions_inv_Suc [OF inv])
  next
    case seg: False
    have uw: "unat w = (unat se - unat ss) div 4"
      using seg by (simp add: w_def BYTES_PER_TEXEL_def unat_div_distrib unat_sub_no_wrap)
    have row: "row_texels ?P ?W (unat start) (unat e) ?r
        = map (\<lambda>c. (?r, c, ?r * ?P + 4 * c)) [unat x..<unat x + unat w]"
      using rc seg by (simp add: ux uw word_le_nat_alt)
    show ?thesis
    proof (cases "w = 0")
      case True
      then have "region_row gm start e row out = Some out"
        using seg by (simp add: region_row_def notbreak Let_def rs_def ss_def se_def w_def)
      then show ?thesis
        using True row by (simp add: regions_inv_Suc [OF inv])
    next
      case False
      have code: "region_row gm start e row out =
          (if out \<noteq> [] \<and> x = 0 \<and> w = ucast (width_texels gm) \<and> rg_x (last out) = 0
              \<and> rg_width (last out) = width_texels gm
              \<and> ucast (rg_y (last out)) + ucast (rg_height (last out)) = row
           then Some (butlast out @ [last out\<lparr>rg_height := rg_height (last out) + 1\<rparr>])
           else Some (out @ [fresh]))"
        using seg False
        by (simp add: region_row_def notbreak Let_def rs_def [symmetric] ss_def [symmetric]
            se_def [symmetric] w_def [symmetric] x_def [symmetric] fresh_def)
      have ssr: "?r * ?P \<le> unat ss" by (simp add: uss)
      have xw: "unat x + unat w \<le> ?W"
      proof -
        have "4 * unat x \<le> unat ss - ?r * ?P" "4 * unat w \<le> unat se - unat ss"
          by (simp_all add: ux uw)
        moreover have "unat ss \<le> unat se" using seg by (simp add: word_le_nat_alt)
        moreover have "unat se \<le> ?r * ?P + 4 * ?W" by (simp add: use)
        ultimately show ?thesis using ssr by linarith
      qed
      have W32: "?W < 2 ^ 32" "?r < 2 ^ 32"
        using unat_lt2p [of "width_texels gm"] unat_lt2p [of "height_texels gm"] r by simp_all
      have nar: "unat (ucast x :: u32) = unat x" "unat (ucast w :: u32) = unat w"
        "unat (ucast row :: u32) = ?r"
        using xw W32 by (simp_all add: unat_ucast_small)
      have off: "unat ss = ?r * ?P + 4 * unat x"
      proof -
        obtain p a where "?P = 4 * p" and "unat start = 4 * a"
          using P4 s by (metis mod_0_imp_dvd dvd_def)
        moreover from calculation have "unat ss = 4 * max a (?r * p)" by (simp add: uss max_def)
        ultimately obtain m q where m: "unat ss = 4 * m" and q: "?r * ?P = 4 * q"
          by (metis mult.left_commute)
        show ?thesis using ssr unfolding ux m q by simp
      qed
      have fresh_t: "region_texels ?P fresh = row_texels ?P ?W (unat start) (unat e) ?r"
        unfolding fresh_def region_texels_row row
          upt_shift [of "unat x" "unat x + unat w", symmetric, simplified]
        by (simp add: nar off algebra_simps)
      have fresh_inv: "regions_inv gm (Suc ?r) (out @ [fresh])"
        using regions_inv_Suc [OF inv] by (auto simp: regions_inv_def fresh_def nar off)
      show ?thesis
      proof (cases "out \<noteq> [] \<and> x = 0 \<and> w = ucast (width_texels gm) \<and> rg_x (last out) = 0
              \<and> rg_width (last out) = width_texels gm
              \<and> ucast (rg_y (last out)) + ucast (rg_height (last out)) = row")
        case False
        then have "region_row gm start e row out = Some (out @ [fresh])"
          unfolding code by (simp only: if_False)
        then show ?thesis using fresh_inv by (simp add: texels_of_def fresh_t)
      next
        case merge: True
        then have out: "out = butlast out @ [last out]" by simp
        from merge inv have pv: "unat (rg_offset (last out)) = unat (rg_y (last out)) * ?P"
          "unat (rg_y (last out)) + unat (rg_height (last out)) \<le> ?r"
          by (auto simp: regions_inv_def)
        have adj: "unat (rg_y (last out)) + unat (rg_height (last out)) = ?r"
        proof -
          have "unat (ucast (rg_y (last out)) + ucast (rg_height (last out)) :: u64)
              = unat (rg_y (last out)) + unat (rg_height (last out))"
            using pv(2) W32 by (subst unat_add_no_wrap) simp_all
          with merge show ?thesis by simp
        qed
        have h: "unat (rg_height (last out)) + 1 < 2 ^ 32"
          using adj r unat_lt2p [of "height_texels gm"] by simp
        have x0: "rg_x (last out) = 0" using merge by blast
        have "region_texels ?P (last out\<lparr>rg_height := rg_height (last out) + 1\<rparr>)
            = region_texels ?P (last out) @ row_texels ?P ?W (unat start) (unat e) ?r"
          unfolding region_texels_grow [OF h pv(1) x0] adj row using merge by simp
        moreover have "region_row gm start e row out
            = Some (butlast out @ [last out\<lparr>rg_height := rg_height (last out) + 1\<rparr>])"
          unfolding code using merge by (simp only: if_True simp_thms)
        moreover have "texels_of gm out
            = texels_of gm (butlast out) @ region_texels ?P (last out)"
          by (subst out) (simp add: texels_of_def)
        moreover have "regions_inv gm (Suc ?r) (butlast out @ [last out\<lparr>rg_height := rg_height (last out) + 1\<rparr>])"
          using regions_inv_Suc [OF inv] pv adj h x0
          by (auto simp: regions_inv_def unat_add_no_wrap dest: in_set_butlastD)
        ultimately show ?thesis by (simp add: texels_of_def)
      qed
    qed
  qed
qed

section \<open>The whole range\<close>

lemma region_rows_texels:
  assumes "geometry_ok gm" "unat row + n \<le> unat (height_texels gm)" "unat start mod 4 = 0"
    "regions_inv gm (unat row) out"
  shows "texels_of gm (region_rows gm start e n row out) = texels_of gm out
    @ concat (map (row_texels (unat (pitch_bytes gm)) (unat (width_texels gm)) (unat start) (unat e))
        [unat row..<unat row + n])"
  using assms
proof (induction n arbitrary: row out)
  case (Suc n)
  obtain out' where o: "region_row gm start e row out = Some out'"
    "texels_of gm out' = texels_of gm out
        @ row_texels (unat (pitch_bytes gm)) (unat (width_texels gm)) (unat start) (unat e) (unat row)"
    "regions_inv gm (Suc (unat row)) out'"
    using region_row_texels [OF Suc.prems(1) _ Suc.prems(3,4)] Suc.prems(2) by fastforce
  have "unat row + 1 < 2 ^ 64"
    using Suc.prems(2) unat_lt2p [of "height_texels gm"] by simp
  then have "unat (row + 1) = Suc (unat row)" by (simp add: unat_add_no_wrap)
  with Suc.IH [of "row + 1" out'] Suc.prems o show ?case by (simp add: upt_conv_Cons del: upt_Suc)
qed simp

lemma unat_extent_end:
  assumes g: "geometry_ok gm" and nz: "height_texels gm \<noteq> 0" "width_texels gm \<noteq> 0"
  shows "unat (extent_end gm)
    = (unat (height_texels gm) - 1) * unat (pitch_bytes gm) + 4 * unat (width_texels gm)"
proof -
  let ?row = "ucast (height_texels gm - 1) :: u64"
  have r: "unat ?row = unat (height_texels gm) - 1"
    using nz by (simp add: unat_minus_one)
  moreover have "0 < unat (height_texels gm)" using nz by (simp add: word_unat_eq_iff)
  ultimately have "unat ?row < unat (height_texels gm)" by simp
  from row_words(3) [OF g this] r nz show ?thesis by (simp add: extent_end_def)
qed

lemma row_texels_outside:
  assumes "r * P + 4 * W \<le> s \<or> e \<le> r * P"
  shows "row_texels P W s e r = []"
  using assms by (auto simp: row_texels_def filter_empty_conv)

lemma row_texels_end:
  assumes "r * P + 4 * W \<le> x"
  shows "row_texels P W s (min e x) r = row_texels P W s e r"
  using assms by (auto simp: row_texels_def intro!: arg_cong [where f = "map _"] filter_cong)

lemma concat_outside:
  fixes a b n :: nat
  assumes "a \<le> b" "b \<le> n" "\<And>k. k < a \<or> b \<le> k \<Longrightarrow> f k = []"
  shows "concat (map f [0..<n]) = concat (map f [a..<b])"
proof -
  have "[0..<n] = [0..<a] @ [a..<b] @ [b..<n]"
    using assms(1,2) by (metis le0 le_trans upt_split)
  moreover have "concat (map f [0..<a]) = []" "concat (map f [b..<n]) = []"
    using assms(3) by auto
  ultimately show ?thesis by (simp del: concat_eq_Nil_conv)
qed

text \<open>C22: The rectangles of a byte range name exactly the texels that lie whole inside it, each
  once, in ascending order, at the byte offset the window's pitch gives them: no padding byte,
  no row that does not exist, and merging whole rows loses and adds none.\<close>

theorem plan_regions_texels:
  assumes g: "geometry_ok gm" and s: "unat start mod 4 = 0"
  shows "texels_of gm (plan_regions gm start e) = range_texels gm (unat start) (unat e)"
proof -
  let ?P = "unat (pitch_bytes gm)" and ?W = "unat (width_texels gm)" and ?H = "unat (height_texels gm)"
  let ?row = "row_texels ?P ?W (unat start)"
  show ?thesis
  proof (cases "pitch_bytes gm = 0 \<or> width_texels gm = 0 \<or> height_texels gm = 0")
    case True
    then have "?W = 0 \<or> ?H = 0" using g by (auto simp: geometry_ok_def)
    with True show ?thesis
      by (auto simp: plan_regions_def texels_of_def range_texels_def row_texels_def)
  next
    case False
    then have nz: "0 < ?P" "0 < ?H" "pitch_bytes gm \<noteq> 0" "height_texels gm \<noteq> 0" "width_texels gm \<noteq> 0"
      by (auto simp: word_unat_eq_iff)
    have W: "4 * ?W \<le> ?P" using g by (simp add: geometry_ok_def)
    let ?x = "unat (extent_end gm)"
    define e' where "e' = min e (extent_end gm)"
    have e': "unat e' = min (unat e) ?x" by (simp add: e'_def unat_min)
    note x = unat_extent_end [OF g nz(4,5)]
    have "r * ?P + 4 * ?W \<le> ?x" if "r < ?H" for r
      using that unfolding x by (intro add_right_mono mult_le_mono1) simp
    then have range: "range_texels gm (unat start) (unat e) = concat (map (?row (unat e')) [0..<?H])"
      unfolding range_texels_def e'
      by (intro arg_cong [where f = concat] map_cong refl row_texels_end [symmetric]) simp
    show ?thesis
    proof (cases "e' \<le> start")
      case True
      then have "plan_regions gm start e = []" by (simp add: plan_regions_def e'_def [symmetric])
      moreover have "?row (unat e') r = []" for r
        using True by (auto simp: row_texels_def filter_empty_conv word_le_nat_alt)
      ultimately show ?thesis by (simp add: range texels_of_def)
    next
      case False
      define a b where "a = unat start div ?P" and "b = (unat e' - 1) div ?P + 1"
      have se: "unat start < unat e'" using False by (simp add: word_le_nat_alt)
      have u: "unat (start div pitch_bytes gm) = a" "unat ((e' - 1) div pitch_bytes gm) + 1 = b"
        using se by (simp_all add: a_def b_def unat_div_distrib unat_minus_one word_unat_eq_iff)
      have ab: "a \<le> b" using se unfolding a_def b_def by (intro le_trans [OF div_le_mono le_add1]) simp
      have "unat e' - 1 < ?H * ?P"
        using se nz(2) W unfolding e' x by (cases ?H) auto
      then have bH: "b \<le> ?H" using nz(1) by (simp add: b_def Suc_le_eq div_less_iff_less_mult)
      have "plan_regions gm start e = region_rows gm start e' (b - a) (start div pitch_bytes gm) []"
        unfolding plan_regions_def Let_def e'_def [symmetric] u using False nz(3-5) by (simp only: if_False simp_thms)
      then have "texels_of gm (plan_regions gm start e) = concat (map (?row (unat e')) [a..<b])"
        using region_rows_texels [OF g _ s, of "start div pitch_bytes gm" "b - a" "[]" e'] ab bH
        by (simp add: u texels_of_def regions_inv_def)
      moreover have "?row (unat e') k = []" if "k < a \<or> b \<le> k" for k
      proof (rule row_texels_outside)
        show "k * ?P + 4 * ?W \<le> unat start \<or> unat e' \<le> k * ?P"
        proof (cases "k < a")
          case True
          then have "(k + 1) * ?P \<le> unat start"
            using nz(1) by (simp only: a_def less_eq_div_iff_mult_less_eq [symmetric])
          with W show ?thesis by simp
        next
          case False
          then have "(unat e' - 1) div ?P < k" using that by (simp add: b_def)
          then have "unat e' - 1 < k * ?P" using nz(1) by (simp add: div_less_iff_less_mult)
          then show ?thesis by linarith
        qed
      qed
      ultimately show ?thesis
        using concat_outside [OF ab bH, of "?row (unat e')"] by (simp only: range)
    qed
  qed
qed

theorem plan_regions_texels_witness:
  "texels_of \<lparr>pitch_bytes = 32, width_texels = 4, height_texels = 4\<rparr>
     (plan_regions \<lparr>pitch_bytes = 32, width_texels = 4, height_texels = 4\<rparr> 8 112)
   = range_texels \<lparr>pitch_bytes = 32, width_texels = 4, height_texels = 4\<rparr> 8 112"
  using plan_regions_texels
    [of "\<lparr>pitch_bytes = 32, width_texels = 4, height_texels = 4\<rparr>" 8 112]
  by (simp add: geometry_ok_def)

end
