(* ===== verification/Stream.thy ===== *)
theory Stream
  imports Machine
begin

text \<open>
  The command-stream framing decoder, crates/reims-vgpu/src/runtime/decode/stream.rs: segments
  of a stream, records of a segment. Stream positions are \<open>usize\<close> (\<open>nat\<close>); the fields of a
  decoded \<open>Segment\<close> and \<open>Record\<close> are the code's machine integers. A function that takes
  \<open>cursor: &mut usize\<close> returns its result paired with the cursor afterwards. Slugs are strings.
\<close>

section \<open>Constants and data\<close>

definition SEGMENT_HEADER_LEN :: nat where "SEGMENT_HEADER_LEN = 8"
definition OP_HEADER_LEN :: nat where "OP_HEADER_LEN = 8"
definition SEGMENT_TYPE_RENDER :: u8 where "SEGMENT_TYPE_RENDER = 0"
definition SEGMENT_TYPE_COMPUTE :: u8 where "SEGMENT_TYPE_COMPUTE = 1"
definition SEGMENT_TYPE_BLIT :: u8 where "SEGMENT_TYPE_BLIT = 2"
definition SEGMENT_TYPE_EVENT :: u8 where "SEGMENT_TYPE_EVENT = 3"
definition SEGMENT_TYPE_INFO :: u8 where "SEGMENT_TYPE_INFO = 4"
definition SEGMENT_TYPE_PROTECTION_OPTIONS :: u8 where "SEGMENT_TYPE_PROTECTION_OPTIONS = 5"
definition SEGMENT_LENGTH_OFFSET :: nat where "SEGMENT_LENGTH_OFFSET = 0"
definition SEGMENT_TYPE_OFFSET :: nat where "SEGMENT_TYPE_OFFSET = 4"
definition SEGMENT_BEGIN_FLAG_OFFSET :: nat where "SEGMENT_BEGIN_FLAG_OFFSET = 5"
definition SEGMENT_UNIDENTIFIED_OFFSET :: nat where "SEGMENT_UNIDENTIFIED_OFFSET = 6"
definition SEGMENT_UNWRITTEN_OFFSET :: nat where "SEGMENT_UNWRITTEN_OFFSET = 7"
definition RECORD_OPCODE_OFFSET :: nat where "RECORD_OPCODE_OFFSET = 0"
definition RECORD_LENGTH_OFFSET :: nat where "RECORD_LENGTH_OFFSET = 4"

named_theorems framing_simps \<open>the offsets and lengths of the two framing headers\<close>

lemmas [framing_simps] = SEGMENT_HEADER_LEN_def OP_HEADER_LEN_def SEGMENT_LENGTH_OFFSET_def
  SEGMENT_TYPE_OFFSET_def SEGMENT_BEGIN_FLAG_OFFSET_def SEGMENT_UNIDENTIFIED_OFFSET_def
  SEGMENT_UNWRITTEN_OFFSET_def RECORD_OPCODE_OFFSET_def RECORD_LENGTH_OFFSET_def

datatype decode_status =
  DsOk | DsDone | DsErrArgs string | DsErrShort string | DsErrBadLength string

fun refusal :: "decode_status \<Rightarrow> string option" where
  "refusal DsOk = None"
| "refusal DsDone = None"
| "refusal (DsErrArgs slug) = Some slug"
| "refusal (DsErrShort slug) = Some slug"
| "refusal (DsErrBadLength slug) = Some slug"

record segment =
  sg_offset :: u32
  sg_length :: u32
  sg_type :: u8
  sg_begin_flag :: u8
  sg_unidentified :: u8
  sg_unwritten :: u8
  sg_command_offset :: u32
  sg_command_length :: u32
  sg_index :: u32

record stream_record =
  rec_segment_index :: u32
  rec_segment_type :: u32
  rec_offset :: u32
  rec_length :: u32
  rec_opcode :: u32
  rec_bytes_offset :: u32

definition segment_type_name :: "u32 \<Rightarrow> string" where
  "segment_type_name t =
     (if t = 0 then ''render'' else if t = 1 then ''compute'' else if t = 2 then ''blit''
      else if t = 3 then ''event'' else if t = 4 then ''info''
      else if t = 5 then ''protection-options'' else ''unknown'')"

datatype segment_disposition = Walk | Envelope | UnknownSegment

fun disposition_refusal :: "segment_disposition \<Rightarrow> string option" where
  "disposition_refusal Walk = None"
| "disposition_refusal Envelope = None"
| "disposition_refusal UnknownSegment = Some ''stream_segment_type_unknown''"

definition segment_disposition :: "u8 \<Rightarrow> segment_disposition" where
  "segment_disposition t =
     (if t = SEGMENT_TYPE_RENDER \<or> t = SEGMENT_TYPE_COMPUTE \<or> t = SEGMENT_TYPE_BLIT
         \<or> t = SEGMENT_TYPE_EVENT \<or> t = SEGMENT_TYPE_INFO then Walk
      else if t = SEGMENT_TYPE_PROTECTION_OPTIONS then Envelope
      else UnknownSegment)"

definition SEGMENT_CHAIN_ROUTES :: "string list" where
  "SEGMENT_CHAIN_ROUTES = [''seg_chain_none'', ''seg_chain_next'', ''seg_chain_prev'', ''seg_chain_both'']"

definition segment_chain_route :: "u8 \<Rightarrow> u8 \<Rightarrow> string" where
  "segment_chain_route continues_previous continues_into_next =
     SEGMENT_CHAIN_ROUTES !
       (2 * (if continues_previous \<noteq> 0 then 1 else 0) + (if continues_into_next \<noteq> 0 then 1 else 0))"

section \<open>Segments\<close>

definition validate_bytes :: "u8 list \<Rightarrow> decode_status" where
  "validate_bytes bytes =
     (if \<not> size_fits_u32 (length bytes) then DsErrBadLength ''stream_bytes_len_overflow'' else DsOk)"

text \<open>\<open>ld32\<close> at a position: the code slices from the position and loads its first word.\<close>

definition word_at :: "u8 list \<Rightarrow> nat \<Rightarrow> (decode_status, u32) outcome" where
  "word_at bytes i = obind (slice_from bytes i) ld32"

lemma word_at_Ok [simp]:
  "i + 4 \<le> length bytes \<Longrightarrow> word_at bytes i = Ok (le_word (take 4 (drop i bytes)))"
  by (simp add: word_at_def)

function index_walk :: "u8 list \<Rightarrow> u32 \<Rightarrow> nat \<Rightarrow> u32 \<Rightarrow> (decode_status, u32) outcome" where
  "index_walk bytes target cursor index =
     (if cursor < length bytes then
        if length bytes - cursor < SEGMENT_HEADER_LEN
        then Err (DsErrShort ''stream_index_walk_short_header'')
        else if \<not> size_fits_u32 cursor
        then Err (DsErrBadLength ''stream_index_walk_cursor_overflow'')
        else if of_nat cursor = target then Ok index
        else (case word_at bytes (cursor + SEGMENT_LENGTH_OFFSET) of
                Ok w \<Rightarrow>
                  if unat w < SEGMENT_HEADER_LEN \<or> unat w > length bytes - cursor
                  then Err (DsErrBadLength ''stream_index_walk_seg_len'')
                  else index_walk bytes target (cursor + unat w) (index + 1)
              | Err e \<Rightarrow> Err e | Panic \<Rightarrow> Panic)
      else Err (DsErrBadLength ''stream_index_target_offset_not_found''))"
  by auto
termination
  by (relation "measure (\<lambda>(bytes, _, cursor, _). length bytes - cursor)")
    (auto simp: framing_simps)

declare index_walk.simps [simp del]

definition segment_index_for_offset :: "u8 list \<Rightarrow> u32 \<Rightarrow> (decode_status, u32) outcome" where
  "segment_index_for_offset bytes target = index_walk bytes target 0 0"

definition decode_next_segment :: "u8 list \<Rightarrow> nat \<Rightarrow> (decode_status, segment) outcome \<times> nat" where
  "decode_next_segment bytes cursor =
     (if validate_bytes bytes \<noteq> DsOk then (Err (validate_bytes bytes), cursor)
      else if cursor > length bytes then (Err (DsErrArgs ''stream_seg_cursor_past_end''), cursor)
      else if cursor = length bytes then (Err DsDone, cursor)
      else if length bytes - cursor < SEGMENT_HEADER_LEN
      then (Err (DsErrShort ''stream_seg_short_header''), cursor)
      else case obind (slice_from bytes cursor) (\<lambda>header.
             obind (word_at header SEGMENT_LENGTH_OFFSET) (\<lambda>w.
             if unat w < SEGMENT_HEADER_LEN
             then Err (DsErrBadLength ''stream_seg_len_below_header'')
             else if unat w > length bytes - cursor
             then Err (DsErrBadLength ''stream_seg_len_past_buffer_end'')
             else if \<not> size_fits_u32 cursor
             then Err (DsErrBadLength ''stream_seg_cursor_overflow'')
             else obind (segment_index_for_offset bytes (of_nat cursor)) (\<lambda>segment_index.
               obind (index_at header SEGMENT_TYPE_OFFSET) (\<lambda>ty.
               obind (index_at header SEGMENT_BEGIN_FLAG_OFFSET) (\<lambda>begin_flag.
               obind (index_at header SEGMENT_UNIDENTIFIED_OFFSET) (\<lambda>unidentified.
               obind (index_at header SEGMENT_UNWRITTEN_OFFSET) (\<lambda>unwritten.
                 Ok (\<lparr>sg_offset = of_nat cursor, sg_length = of_nat (unat w), sg_type = ty,
                      sg_begin_flag = begin_flag, sg_unidentified = unidentified,
                      sg_unwritten = unwritten,
                      sg_command_offset = of_nat (cursor + SEGMENT_HEADER_LEN),
                      sg_command_length = of_nat (unat w - SEGMENT_HEADER_LEN),
                      sg_index = segment_index\<rparr>, unat w)))))))) of
             Ok (s, segment_len) \<Rightarrow> (Ok s, cursor + segment_len)
           | Err e \<Rightarrow> (Err e, cursor)
           | Panic \<Rightarrow> (Panic, cursor))"

section \<open>Records\<close>

definition validate_segment :: "u8 list \<Rightarrow> segment \<Rightarrow> (decode_status, nat) outcome" where
  "validate_segment bytes s =
     (if validate_bytes bytes \<noteq> DsOk then Err (validate_bytes bytes)
      else if unat (sg_length s) < SEGMENT_HEADER_LEN
      then Err (DsErrBadLength ''stream_reval_len_below_header'')
      else if unat (sg_offset s) > length bytes
        \<or> unat (sg_length s) > length bytes - unat (sg_offset s)
      then Err (DsErrBadLength ''stream_reval_span_oob'')
      else obind (slice_from bytes (unat (sg_offset s))) (\<lambda>header.
           obind (word_at header SEGMENT_LENGTH_OFFSET) (\<lambda>len.
           obind (index_at header SEGMENT_TYPE_OFFSET) (\<lambda>ty.
           obind (index_at header SEGMENT_BEGIN_FLAG_OFFSET) (\<lambda>begin_flag.
           obind (index_at header SEGMENT_UNIDENTIFIED_OFFSET) (\<lambda>unidentified.
           obind (index_at header SEGMENT_UNWRITTEN_OFFSET) (\<lambda>unwritten.
             if len \<noteq> sg_length s \<or> ty \<noteq> sg_type s \<or> begin_flag \<noteq> sg_begin_flag s
                \<or> unidentified \<noteq> sg_unidentified s \<or> unwritten \<noteq> sg_unwritten s
             then Err (DsErrBadLength ''stream_reval_header_mismatch'')
             else if sg_command_offset s \<noteq> sg_offset s + of_nat SEGMENT_HEADER_LEN
                \<or> sg_command_length s \<noteq> sg_length s - of_nat SEGMENT_HEADER_LEN
             then Err (DsErrBadLength ''stream_reval_command_span_mismatch'')
             else if sg_command_offset s < sg_offset s
                \<or> sg_command_length s > - 1 - sg_command_offset s
             then Err (DsErrBadLength ''stream_reval_command_offset_overflow'')
             else let command_end = unat (sg_command_offset s) + unat (sg_command_length s) in
               if unat (sg_command_offset s) > command_end
                  \<or> command_end > unat (sg_offset s) + unat (sg_length s)
                  \<or> command_end > length bytes
               then Err (DsErrBadLength ''stream_reval_command_end_oob'')
               else Ok command_end)))))))"

definition decode_next_record ::
  "u8 list \<Rightarrow> segment \<Rightarrow> nat \<Rightarrow> (decode_status, stream_record) outcome \<times> nat" where
  "decode_next_record bytes s cursor =
     (case validate_segment bytes s of
        Err e \<Rightarrow> (Err e, cursor)
      | Panic \<Rightarrow> (Panic, cursor)
      | Ok command_end \<Rightarrow>
        if cursor < unat (sg_command_offset s) \<or> cursor > command_end
        then (Err (DsErrArgs ''stream_rec_cursor_out_of_segment''), cursor)
        else if sg_type s = SEGMENT_TYPE_PROTECTION_OPTIONS then
          if cursor \<noteq> unat (sg_command_offset s) \<and> cursor \<noteq> command_end
          then (Err (DsErrArgs ''stream_rec_protection_cursor_misaligned''), cursor)
          else (Err DsDone, command_end)
        else if cursor = command_end then (Err DsDone, cursor)
        else if command_end - cursor < OP_HEADER_LEN
        then (Err (DsErrShort ''stream_rec_short_header''), cursor)
        else (case obind (slice_from bytes cursor) (\<lambda>header.
                obind (word_at header RECORD_OPCODE_OFFSET) (\<lambda>opcode.
                obind (word_at header RECORD_LENGTH_OFFSET) (\<lambda>w.
                if unat w < OP_HEADER_LEN
                then Err (DsErrBadLength ''stream_rec_len_below_header'')
                else if unat w > command_end - cursor
                then Err (DsErrBadLength ''stream_rec_len_past_segment_end'')
                else if \<not> size_fits_u32 cursor
                then Err (DsErrBadLength ''stream_rec_cursor_overflow'')
                else Ok (\<lparr>rec_segment_index = sg_index s, rec_segment_type = ucast (sg_type s),
                          rec_offset = of_nat cursor, rec_length = of_nat (unat w),
                          rec_opcode = opcode, rec_bytes_offset = of_nat cursor\<rparr>, unat w)))) of
                Ok (r, record_len) \<Rightarrow> (Ok r, cursor + record_len)
              | Err e \<Rightarrow> (Err e, cursor)
              | Panic \<Rightarrow> (Panic, cursor)))"

definition decode_first_record ::
  "u8 list \<Rightarrow> segment \<Rightarrow> nat \<Rightarrow> (decode_status, stream_record) outcome \<times> nat" where
  "decode_first_record bytes s cursor = decode_next_record bytes s (unat (sg_command_offset s))"

section \<open>The segment loop\<close>

text \<open>What a successful decode at \<open>cursor\<close> says of the bytes there.\<close>

definition frame_len :: "u8 list \<Rightarrow> nat \<Rightarrow> nat" where
  "frame_len bytes cursor = le_nat (take 4 (drop cursor bytes))"

lemma frame_len_unat:
  assumes "cursor + 4 \<le> length bytes"
  shows "unat (le_word (take 4 (drop cursor bytes)) :: u32) = frame_len bytes cursor"
    "frame_len bytes cursor < 2 ^ 32"
proof -
  have "length (take 4 (drop cursor bytes)) = 4" using assms by simp
  then show "frame_len bytes cursor < 2 ^ 32"
    using le_nat_bound [of "take 4 (drop cursor bytes)"] by (simp add: frame_len_def)
  then show "unat (le_word (take 4 (drop cursor bytes)) :: u32) = frame_len bytes cursor"
    by (simp add: le_word_def frame_len_def unat_of_nat_small)
qed

definition segment_of :: "u8 list \<Rightarrow> nat \<Rightarrow> u32 \<Rightarrow> segment" where
  "segment_of bytes cursor i =
     \<lparr>sg_offset = of_nat cursor, sg_length = of_nat (frame_len bytes cursor),
      sg_type = bytes ! (cursor + 4), sg_begin_flag = bytes ! (cursor + 5),
      sg_unidentified = bytes ! (cursor + 6), sg_unwritten = bytes ! (cursor + 7),
      sg_command_offset = of_nat (cursor + 8),
      sg_command_length = of_nat (frame_len bytes cursor - 8), sg_index = i\<rparr>"

text \<open>The decoder with the loads of a header that is present resolved.\<close>

lemma decode_next_segment_present:
  assumes "length bytes < 2 ^ 32" "cursor + 8 \<le> length bytes"
  shows "decode_next_segment bytes cursor =
    (if frame_len bytes cursor < 8 then (Err (DsErrBadLength ''stream_seg_len_below_header''), cursor)
     else if length bytes < cursor + frame_len bytes cursor
     then (Err (DsErrBadLength ''stream_seg_len_past_buffer_end''), cursor)
     else case segment_index_for_offset bytes (of_nat cursor) of
            Ok i \<Rightarrow> (Ok (segment_of bytes cursor i), cursor + frame_len bytes cursor)
          | Err e \<Rightarrow> (Err e, cursor)
          | Panic \<Rightarrow> (Panic, cursor))"
proof -
  have fl: "unat (le_word (take 4 (drop cursor bytes)) :: u32) = frame_len bytes cursor"
    using assms(2) by (intro frame_len_unat(1)) simp
  have past: "frame_len bytes cursor > length bytes - cursor \<longleftrightarrow> length bytes < cursor + frame_len bytes cursor"
    using assms(2) by linarith
  show ?thesis
    using assms
    by (auto simp: decode_next_segment_def validate_bytes_def size_fits_u32_def framing_simps fl past
        segment_of_def split: outcome.split)
qed

lemma decode_next_segment_Ok:
  "decode_next_segment bytes cursor = (Ok s, c) \<longleftrightarrow>
     length bytes < 2 ^ 32 \<and> cursor + 8 \<le> length bytes
     \<and> 8 \<le> frame_len bytes cursor \<and> cursor + frame_len bytes cursor \<le> length bytes
     \<and> (\<exists>i. segment_index_for_offset bytes (of_nat cursor) = Ok i \<and> s = segment_of bytes cursor i)
     \<and> c = cursor + frame_len bytes cursor"
proof (cases "length bytes < 2 ^ 32 \<and> cursor + 8 \<le> length bytes")
  case True
  then show ?thesis
    by (auto simp: decode_next_segment_present split: outcome.split if_splits)
next
  case False
  then have "fst (decode_next_segment bytes cursor) \<noteq> Ok s" for s
    by (auto simp: decode_next_segment_def validate_bytes_def size_fits_u32_def framing_simps)
  then have "decode_next_segment bytes cursor \<noteq> (Ok s, c)" by (metis fst_conv)
  with False show ?thesis by blast
qed

lemma decode_next_segment_advances:
  "decode_next_segment bytes cursor = (Ok s, c) \<Longrightarrow> cursor < c \<and> c \<le> length bytes"
  by (auto simp: decode_next_segment_Ok)

text \<open>\<open>iter_segments\<close>: the segments from \<open>cursor\<close> on.\<close>

function iter_from :: "u8 list \<Rightarrow> nat \<Rightarrow> (decode_status, segment list) outcome" where
  "iter_from bytes cursor =
     (case decode_next_segment bytes cursor of
        (Ok s, c) \<Rightarrow> obind (iter_from bytes c) (\<lambda>ss. Ok (s # ss))
      | (Err e, _) \<Rightarrow> if e = DsDone then Ok [] else Err e
      | (Panic, _) \<Rightarrow> Panic)"
  by auto
termination
proof (relation "measure (\<lambda>(bytes, cursor). length bytes - cursor)", goal_cases)
  case (2 bytes cursor r c s)
  then have "decode_next_segment bytes cursor = (Ok s, c)" by simp
  from decode_next_segment_advances [OF this] show ?case by auto
qed simp

declare iter_from.simps [simp del]

definition iter_segments :: "u8 list \<Rightarrow> (decode_status, segment list) outcome" where
  "iter_segments bytes = iter_from bytes 0"

end
