(* ===== verification/StreamFacts.thy ===== *)
theory StreamFacts
  imports Stream
begin

text \<open>
  The framing decoder against a reference that splits a byte string into length-prefixed
  frames, its totality on arbitrary guest bytes, and the records of a segment.
\<close>

section \<open>Frames\<close>

text \<open>The reference: a stream is a sequence of frames, each opening with its own length.\<close>

function split_frames :: "u8 list \<Rightarrow> u8 list list option" where
  "split_frames bs =
     (if bs = [] then Some []
      else let n = le_nat (take 4 bs) in
        if length bs < 8 \<or> n < 8 \<or> length bs < n then None
        else map_option (Cons (take n bs)) (split_frames (drop n bs)))"
  by auto
termination by (relation "measure length") auto

declare split_frames.simps [simp del]

definition frame :: "u8 list \<Rightarrow> bool" where
  "frame f \<longleftrightarrow> 8 \<le> length f \<and> le_nat (take 4 f) = length f"

lemma split_frames_Cons:
  assumes "frame f"
  shows "split_frames (f @ bs) = map_option (Cons f) (split_frames bs)"
  using assms by (subst split_frames.simps) (auto simp: frame_def Let_def)

lemma split_frames_concat: "list_all frame fs \<Longrightarrow> split_frames (concat fs) = Some fs"
proof (induction fs)
  case Nil
  then show ?case by (simp add: split_frames.simps)
next
  case (Cons f fs)
  then show ?case by (simp add: split_frames_Cons)
qed

lemma split_frames_sound:
  "split_frames bs = Some fs \<Longrightarrow> concat fs = bs \<and> list_all frame fs"
proof (induction bs arbitrary: fs rule: split_frames.induct)
  case (1 bs)
  show ?case
  proof (cases "bs = []")
    case True
    then show ?thesis using "1.prems" by (simp add: split_frames.simps)
  next
    case False
    let ?n = "le_nat (take 4 bs)"
    from "1.prems" False obtain gs where
      ok: "\<not> (length bs < 8 \<or> ?n < 8 \<or> length bs < ?n)" and
      gs: "split_frames (drop ?n bs) = Some gs" and fs: "fs = take ?n bs # gs"
      by (subst (asm) split_frames.simps) (auto simp: Let_def split: if_splits)
    have "concat gs = drop ?n bs \<and> list_all frame gs"
      using "1.IH" [OF False refl] ok gs by blast
    moreover have "frame (take ?n bs)" using ok by (auto simp: frame_def min_def)
    ultimately show ?thesis by (simp add: fs)
  qed
qed

lemma split_frames_drop:
  assumes "cursor < length bytes"
  shows "split_frames (drop cursor bytes) =
    (if cursor + 8 \<le> length bytes \<and> 8 \<le> frame_len bytes cursor
        \<and> cursor + frame_len bytes cursor \<le> length bytes
     then map_option (Cons (take (frame_len bytes cursor) (drop cursor bytes)))
            (split_frames (drop (cursor + frame_len bytes cursor) bytes))
     else None)"
  using assms
  by (subst split_frames.simps) (auto simp: Let_def frame_len_def add.commute)

section \<open>The index walk\<close>

definition frame_ok :: "u8 list \<Rightarrow> nat \<Rightarrow> bool" where
  "frame_ok bytes c \<longleftrightarrow> c + 8 \<le> length bytes \<and> 8 \<le> frame_len bytes c
     \<and> c + frame_len bytes c \<le> length bytes"

text \<open>\<open>t\<close> is the position \<open>m\<close> frames after \<open>c\<close>.\<close>

inductive hops :: "u8 list \<Rightarrow> nat \<Rightarrow> nat \<Rightarrow> nat \<Rightarrow> bool" for bytes where
  here: "hops bytes c 0 c"
| hop: "frame_ok bytes c \<Longrightarrow> hops bytes (c + frame_len bytes c) m t \<Longrightarrow> hops bytes c (Suc m) t"

lemma hops_le: "hops bytes c m t \<Longrightarrow> c \<le> t"
  by (induction rule: hops.induct) auto

lemma hops_snoc:
  "hops bytes c m t \<Longrightarrow> frame_ok bytes t \<Longrightarrow> hops bytes c (Suc m) (t + frame_len bytes t)"
  by (induction rule: hops.induct) (auto intro: hops.intros)

lemma index_walk_hops:
  "hops bytes c m t \<Longrightarrow> t + 8 \<le> length bytes \<Longrightarrow> length bytes < 2 ^ 32 \<Longrightarrow>
     index_walk bytes (of_nat t) c i = Ok (i + of_nat m)"
proof (induction arbitrary: i rule: hops.induct)
  case (here c)
  then show ?case by (subst index_walk.simps) (simp add: framing_simps size_fits_u32_def)
next
  case (hop c m t)
  have ct: "c < t" using hops_le [OF hop.hyps(2)] hop.hyps(1) by (simp add: frame_ok_def)
  have "of_nat c \<noteq> (of_nat t :: u32)"
  proof
    assume "of_nat c = (of_nat t :: u32)"
    then have "unat (of_nat c :: u32) = unat (of_nat t :: u32)" by simp
    with ct hop.prems show False by (simp add: unat_of_nat_small)
  qed
  moreover have "unat (le_word (take 4 (drop c bytes)) :: u32) = frame_len bytes c"
    using hop.hyps(1) by (intro frame_len_unat(1)) (simp add: frame_ok_def)
  ultimately show ?case
    using hop.hyps(1) hop.prems hop.IH [OF hop.prems, of "i + 1"]
    by (subst index_walk.simps) (auto simp: framing_simps size_fits_u32_def frame_ok_def)
qed

lemma index_walk_no_panic: "index_walk bytes t c i \<noteq> Panic"
proof (induction bytes t c i rule: index_walk.induct)
  case (1 bytes target cursor index)
  show ?case
  proof (cases "cursor < length bytes \<and> cursor + 8 \<le> length bytes")
    case True
    with 1 show ?thesis
      by (subst index_walk.simps) (auto simp: framing_simps)
  next
    case False
    then show ?thesis by (subst index_walk.simps) (auto simp: framing_simps)
  qed
qed

section \<open>The segments of a stream\<close>

lemma decode_next_segment_no_panic: "fst (decode_next_segment bytes cursor) \<noteq> Panic"
proof (cases "length bytes < 2 ^ 32 \<and> cursor + 8 \<le> length bytes")
  case True
  then show ?thesis
    using index_walk_no_panic [of bytes "of_nat cursor" 0 0]
    by (auto simp: decode_next_segment_present segment_index_for_offset_def split: outcome.split)
next
  case False
  then show ?thesis
    by (auto simp: decode_next_segment_def validate_bytes_def size_fits_u32_def framing_simps)
qed

lemma iter_from_no_panic: "iter_from bytes cursor \<noteq> Panic"
proof (induction bytes cursor rule: iter_from.induct)
  case (1 bytes cursor)
  show ?case
    using decode_next_segment_no_panic [of bytes cursor] 1
    by (subst iter_from.simps) (auto split: prod.split outcome.split simp: outcome_simps)
qed

text \<open>The segments a list of frames stands for, from a stream offset and a segment index.\<close>

definition frame_segment :: "nat \<Rightarrow> nat \<Rightarrow> u8 list \<Rightarrow> segment" where
  "frame_segment offset i f =
     \<lparr>sg_offset = of_nat offset, sg_length = of_nat (length f), sg_type = f ! 4, sg_begin_flag = f ! 5,
      sg_unidentified = f ! 6, sg_unwritten = f ! 7, sg_command_offset = of_nat (offset + 8),
      sg_command_length = of_nat (length f - 8), sg_index = of_nat i\<rparr>"

primrec layout :: "nat \<Rightarrow> nat \<Rightarrow> u8 list list \<Rightarrow> segment list" where
  "layout offset i [] = []"
| "layout offset i (f # fs) = frame_segment offset i f # layout (offset + length f) (Suc i) fs"

lemma segment_of_frame:
  assumes "frame_ok bytes c"
  shows "segment_of bytes c (of_nat m) = frame_segment c m (take (frame_len bytes c) (drop c bytes))"
proof -
  have "length (take (frame_len bytes c) (drop c bytes)) = frame_len bytes c"
    using assms by (auto simp: frame_ok_def)
  then show ?thesis
    using assms by (simp add: segment_of_def frame_segment_def frame_ok_def del: length_take)
qed

lemma decode_next_segment_refused:
  assumes "length bytes < 2 ^ 32" "c < length bytes" "\<not> frame_ok bytes c"
  shows "\<exists>e. decode_next_segment bytes c = (Err e, c) \<and> e \<noteq> DsDone"
proof (cases "c + 8 \<le> length bytes")
  case True
  then show ?thesis
    using assms by (auto simp: decode_next_segment_present frame_ok_def)
next
  case False
  then show ?thesis
    using assms
    by (auto simp: decode_next_segment_def validate_bytes_def size_fits_u32_def framing_simps)
qed

lemma iter_from_frames:
  assumes "length bytes < 2 ^ 32" and "hops bytes 0 m c" and "c \<le> length bytes"
  shows "iter_from bytes c = Ok ss \<longleftrightarrow>
    (\<exists>fs. split_frames (drop c bytes) = Some fs \<and> ss = layout c m fs)"
  using assms
proof (induction bytes c arbitrary: m ss rule: iter_from.induct)
  case (1 bytes c)
  show ?case
  proof (cases "c = length bytes")
    case True
    then have "decode_next_segment bytes c = (Err DsDone, c)"
      using "1.prems"(1) by (simp add: decode_next_segment_def validate_bytes_def size_fits_u32_def)
    then show ?thesis using True by (subst iter_from.simps) (auto simp: split_frames.simps)
  next
    case c: False
    with "1.prems"(3) have cl: "c < length bytes" by simp
    show ?thesis
    proof (cases "frame_ok bytes c")
      case True
      then have fo: "c + 8 \<le> length bytes" "8 \<le> frame_len bytes c" "c + frame_len bytes c \<le> length bytes"
        by (simp_all add: frame_ok_def)
      have idx: "segment_index_for_offset bytes (of_nat c) = Ok (of_nat m)"
        using index_walk_hops [OF "1.prems"(2) fo(1) "1.prems"(1), of 0]
        by (simp add: segment_index_for_offset_def)
      have d: "decode_next_segment bytes c
          = (Ok (segment_of bytes c (of_nat m)), c + frame_len bytes c)"
        using fo idx "1.prems"(1) by (simp add: decode_next_segment_Ok)
      note ih = "1.IH" [OF d [symmetric] refl "1.prems"(1) hops_snoc [OF "1.prems"(2) True] fo(3)]
      show ?thesis
        unfolding split_frames_drop [OF cl]
        by (subst iter_from.simps)
          (use fo in \<open>auto simp: d outcome_simps ih segment_of_frame [OF True]\<close>)
    next
      case False
      then have "split_frames (drop c bytes) = None"
        unfolding split_frames_drop [OF cl] by (auto simp: frame_ok_def)
      moreover have "iter_from bytes c \<noteq> Ok ss"
        using decode_next_segment_refused [OF "1.prems"(1) cl False]
        by (subst iter_from.simps) auto
      ultimately show ?thesis by simp
    qed
  qed
qed

lemma iter_segments_roundtrip:
  assumes "list_all frame fs" and "length (concat fs) < 2 ^ 32"
  shows "iter_segments (concat fs) = Ok (layout 0 0 fs)"
  using iter_from_frames [OF assms(2) hops.here] split_frames_concat [OF assms(1)]
  by (simp add: iter_segments_def)

text \<open>C19: The segment walk is the reference framing: a stream of at most \<open>u32\<close> length decodes
  exactly when it splits into frames that each open with their own length, and then the
  segments are those frames in order, at their own offsets, numbered from zero, with the type
  and flag bytes of their headers and the command span that follows the header. In particular
  the concatenation of well-formed frames decodes to exactly those frames' segments.\<close>

theorem iter_segments_frames:
  assumes "length bytes < 2 ^ 32"
  shows "(iter_segments bytes = Ok ss \<longleftrightarrow> (\<exists>fs. split_frames bytes = Some fs \<and> ss = layout 0 0 fs))
    \<and> (list_all frame fs \<and> bytes = concat fs \<longrightarrow> iter_segments bytes = Ok (layout 0 0 fs))"
  using iter_from_frames [OF assms hops.here] iter_segments_roundtrip [of fs] assms
  by (auto simp: iter_segments_def)

definition sample_frames :: "u8 list list" where
  "sample_frames = [[12, 0, 0, 0, 2, 1, 0, 7, 9, 9, 9, 9], [8, 0, 0, 0, 4, 0, 0, 0]]"

theorem iter_segments_frames_witness:
  "iter_segments [8, 0, 0, 0, 4, 0, 0, 0] = Ok [frame_segment 0 0 [8, 0, 0, 0, 4, 0, 0, 0]]"
  using iter_segments_frames [of "[8, 0, 0, 0, 4, 0, 0, 0]"
      "[frame_segment 0 0 [8, 0, 0, 0, 4, 0, 0, 0]]"]
    split_frames_concat [of "[[8, 0, 0, 0, 4, 0, 0, 0]]"]
  by (simp add: frame_def)

section \<open>Records\<close>

text \<open>A segment the decoder returned passes the re-validation its record walk opens with, and the
  span it is given is the segment's own.\<close>

lemma validate_decoded:
  assumes "decode_next_segment bytes cursor = (Ok s, c)"
  shows "validate_segment bytes s = Ok c" "unat (sg_command_offset s) = cursor + 8"
    "unat (sg_offset s) = cursor" "unat (sg_length s) = c - cursor"
proof -
  from assms obtain i where d: "length bytes < 2 ^ 32" "cursor + 8 \<le> length bytes"
    "8 \<le> frame_len bytes cursor" "cursor + frame_len bytes cursor \<le> length bytes"
    and s: "s = segment_of bytes cursor i" and c: "c = cursor + frame_len bytes cursor"
    by (auto simp: decode_next_segment_Ok)
  have sm: "unat (of_nat n :: u32) = n" if "n \<le> length bytes" for n
    using that d(1) by (simp add: unat_of_nat_small)
  have u: "unat (of_nat cursor :: u32) = cursor" "unat (of_nat (frame_len bytes cursor) :: u32) = frame_len bytes cursor"
    "unat (of_nat (cursor + 8) :: u32) = cursor + 8"
    "unat (of_nat (frame_len bytes cursor - 8) :: u32) = frame_len bytes cursor - 8"
    using d by (intro sm, linarith)+
  have fl: "le_word (take 4 (drop cursor bytes)) = (of_nat (frame_len bytes cursor) :: u32)"
    by (simp add: le_word_def frame_len_def)
  show off: "unat (sg_command_offset s) = cursor + 8" "unat (sg_offset s) = cursor"
    "unat (sg_length s) = c - cursor"
    using u by (simp_all add: s segment_of_def c)
  have "sg_offset s \<le> sg_command_offset s" using off by (simp add: word_le_nat_alt)
  moreover have "sg_command_length s \<le> - 1 - sg_command_offset s"
  proof -
    have "unat (- 1 - sg_command_offset s :: u32) = 2 ^ 32 - 1 - (cursor + 8)"
      by (subst unat_sub_no_wrap) (simp_all add: off unsigned_minus_1_eq_mask mask_eq_exp_minus_1)
    then show ?thesis using u d by (simp add: word_le_nat_alt s segment_of_def)
  qed
  ultimately show "validate_segment bytes s = Ok c"
    using d u off
    by (simp add: validate_segment_def validate_bytes_def size_fits_u32_def framing_simps not_less fl c Let_def)
       (auto simp: s segment_of_def of_nat_diff not_less)
qed

lemma validate_segment_cases:
  shows "validate_segment bytes s \<noteq> Panic"
    and "validate_segment bytes s = Ok e \<Longrightarrow>
      length bytes < 2 ^ 32 \<and> e = unat (sg_offset s) + unat (sg_length s) \<and> e \<le> length bytes
      \<and> 8 \<le> unat (sg_length s) \<and> unat (sg_command_offset s) = unat (sg_offset s) + 8"
proof -
  show "validate_segment bytes s \<noteq> Panic"
    by (auto simp: validate_segment_def validate_bytes_def size_fits_u32_def framing_simps Let_def)
  assume e: "validate_segment bytes s = Ok e"
  from e have len: "length bytes < 2 ^ 32" "8 \<le> unat (sg_length s)"
    "unat (sg_offset s) + unat (sg_length s) \<le> length bytes"
    by (auto simp: validate_segment_def validate_bytes_def size_fits_u32_def framing_simps split: if_splits)
  from e len have eqs: "sg_command_offset s = sg_offset s + 8" "sg_command_length s = sg_length s - 8"
    "e = unat (sg_command_offset s) + unat (sg_command_length s)"
    by (auto simp: validate_segment_def validate_bytes_def size_fits_u32_def framing_simps Let_def
        split: if_splits)
  have "unat (sg_offset s + 8) = unat (sg_offset s) + 8"
    using len by (subst unat_add_no_wrap) simp_all
  moreover have "unat (sg_length s - 8) = unat (sg_length s) - 8"
    using len by (subst unat_sub_no_wrap) (simp_all add: word_le_nat_alt)
  ultimately show "length bytes < 2 ^ 32 \<and> e = unat (sg_offset s) + unat (sg_length s) \<and> e \<le> length bytes
      \<and> 8 \<le> unat (sg_length s) \<and> unat (sg_command_offset s) = unat (sg_offset s) + 8"
    using len eqs by simp
qed

text \<open>The opcode and length words of the record at \<open>cursor\<close>.\<close>

definition record_at :: "u8 list \<Rightarrow> segment \<Rightarrow> nat \<Rightarrow> stream_record" where
  "record_at bytes s cursor =
     \<lparr>rec_segment_index = sg_index s, rec_segment_type = ucast (sg_type s), rec_offset = of_nat cursor,
      rec_length = of_nat (frame_len bytes (cursor + 4)),
      rec_opcode = le_word (take 4 (drop cursor bytes)), rec_bytes_offset = of_nat cursor\<rparr>"

lemma decode_next_record_present:
  assumes v: "validate_segment bytes s = Ok e" and c: "unat (sg_command_offset s) \<le> cursor" "cursor + 8 \<le> e"
    and t: "sg_type s \<noteq> SEGMENT_TYPE_PROTECTION_OPTIONS"
  shows "decode_next_record bytes s cursor =
    (if frame_len bytes (cursor + 4) < 8
     then (Err (DsErrBadLength ''stream_rec_len_below_header''), cursor)
     else if e < cursor + frame_len bytes (cursor + 4)
     then (Err (DsErrBadLength ''stream_rec_len_past_segment_end''), cursor)
     else (Ok (record_at bytes s cursor), cursor + frame_len bytes (cursor + 4)))"
proof -
  note vs = validate_segment_cases(2) [OF v]
  have fl: "unat (le_word (take 4 (drop (cursor + 4) bytes)) :: u32) = frame_len bytes (cursor + 4)"
    using vs c by (intro frame_len_unat(1)) simp
  have past: "frame_len bytes (cursor + 4) > e - cursor \<longleftrightarrow> e < cursor + frame_len bytes (cursor + 4)"
    using c by linarith
  show ?thesis
    using v c vs t
    by (auto simp: decode_next_record_def framing_simps size_fits_u32_def add.commute [of 4] record_at_def
        fl [simplified add.commute [of cursor]] past [simplified add.commute [of cursor 4]] fl past)
qed

text \<open>C23: Record decoding is safe on every input: for any bytes, any segment value, even one no
  decoder returned, and any cursor, it never indexes out of range. A record it returns starts at
  the cursor, lies whole inside the command span of a segment that lies in the stream, and moves
  the cursor past exactly its own length; a refusal leaves the cursor where it was, but for
  a protection envelope, which is passed over.\<close>

theorem decode_next_record_safe:
  "fst (decode_next_record bytes s cursor) \<noteq> Panic \<and>
   (\<forall>r c. decode_next_record bytes s cursor = (Ok r, c) \<longrightarrow>
      r = record_at bytes s cursor \<and> c = cursor + unat (rec_length r) \<and> 8 \<le> unat (rec_length r)
      \<and> unat (sg_offset s) + 8 \<le> cursor \<and> c \<le> unat (sg_offset s) + unat (sg_length s)
      \<and> unat (sg_offset s) + unat (sg_length s) \<le> length bytes) \<and>
   (\<forall>e c. decode_next_record bytes s cursor = (Err e, c) \<longrightarrow>
      c = cursor \<or> e = DsDone \<and> sg_type s = SEGMENT_TYPE_PROTECTION_OPTIONS
        \<and> c = unat (sg_offset s) + unat (sg_length s))"
proof (cases "validate_segment bytes s")
  case (Ok e)
  note vs = validate_segment_cases(2) [OF Ok]
  show ?thesis
  proof (cases "unat (sg_command_offset s) \<le> cursor \<and> cursor + 8 \<le> e
      \<and> sg_type s \<noteq> SEGMENT_TYPE_PROTECTION_OPTIONS")
    case True
    have "unat (rec_length (record_at bytes s cursor)) = frame_len bytes (cursor + 4)"
      using vs True frame_len_unat(2) [of "cursor + 4" bytes]
      by (simp add: record_at_def unat_of_nat_small)
    with True vs show ?thesis by (auto simp: decode_next_record_present [OF Ok])
  next
    case False
    then show ?thesis using vs Ok by (auto simp: decode_next_record_def framing_simps)
  qed
next
  case Panic
  with validate_segment_cases(1) show ?thesis by blast
qed (simp add: decode_next_record_def)

definition sample_stream :: "u8 list" where
  "sample_stream = [16, 0, 0, 0, 0, 0, 0, 0, 3, 0, 0, 0, 8, 0, 0, 0]"

definition sample_segment :: segment where
  "sample_segment =
     \<lparr>sg_offset = 0, sg_length = 16, sg_type = 0, sg_begin_flag = 0, sg_unidentified = 0,
      sg_unwritten = 0, sg_command_offset = 8, sg_command_length = 8, sg_index = 0\<rparr>"

lemma sample_record:
  "decode_next_record sample_stream sample_segment 8 =
     (Ok \<lparr>rec_segment_index = 0, rec_segment_type = 0, rec_offset = 8, rec_length = 8,
          rec_opcode = 3, rec_bytes_offset = 8\<rparr>, 16)"
  by (simp add: decode_next_record_def validate_segment_def validate_bytes_def size_fits_u32_def
      framing_simps SEGMENT_TYPE_PROTECTION_OPTIONS_def sample_stream_def sample_segment_def le_word_def
      word_at_def Let_def)

theorem decode_next_record_safe_witness:
  "\<exists>r. decode_next_record sample_stream sample_segment 8 = (Ok r, 16) \<and> rec_opcode r = 3
     \<and> unat (rec_length r) = 8 \<and> 16 \<le> unat (sg_offset sample_segment) + unat (sg_length sample_segment)"
  using decode_next_record_safe [of sample_stream sample_segment 8] unfolding sample_record
  by (auto simp: record_at_def sample_stream_def frame_len_def le_word_def)

text \<open>The two levels of framing fit: a segment the segment decoder returned passes the
  re-validation its record walk opens with, bound to the cursor the segment walk continues at,
  and its first record is looked for just past its header. No segment the stream yields is then
  refused by the record decoder's own checks of it.\<close>

theorem decoded_segment_validates:
  assumes "decode_next_segment bytes cursor = (Ok s, c)"
  shows "validate_segment bytes s = Ok c \<and> unat (sg_command_offset s) = cursor + 8
    \<and> unat (sg_offset s) = cursor \<and> unat (sg_length s) = c - cursor
    \<and> decode_first_record bytes s x = decode_next_record bytes s (cursor + 8)"
  using validate_decoded [OF assms] by (simp add: decode_first_record_def)

lemma sample_segment_decoded: "decode_next_segment sample_stream 0 = (Ok sample_segment, 16)"
proof -
  have "index_walk sample_stream 0 0 0 = Ok 0"
    using index_walk_hops [of sample_stream 0 0 0 0, OF hops.here] by (simp add: sample_stream_def)
  then show ?thesis
    by (simp add: decode_next_segment_Ok frame_len_def sample_stream_def sample_segment_def
        segment_of_def segment_index_for_offset_def)
qed

theorem decoded_segment_validates_witness:
  "validate_segment sample_stream sample_segment = Ok 16"
  using decoded_segment_validates [OF sample_segment_decoded] by blast

lemma index_walk_refusal: "index_walk bytes t c i = Err e \<Longrightarrow> refusal e \<noteq> None"
proof (induction bytes t c i rule: index_walk.induct)
  case (1 bytes target cursor index)
  show ?case
  proof (cases "cursor < length bytes \<and> cursor + 8 \<le> length bytes")
    case True
    with "1.prems" "1.IH" show ?thesis
      by (subst (asm) index_walk.simps) (auto simp: framing_simps size_fits_u32_def split: if_splits)
  next
    case False
    with "1.prems" show ?thesis
      by (subst (asm) index_walk.simps) (auto simp: framing_simps split: if_splits)
  qed
qed

lemma decode_next_segment_refusal:
  assumes "decode_next_segment bytes cursor = (Err e, c)"
  shows "e = DsDone \<or> refusal e \<noteq> None"
proof (cases "length bytes < 2 ^ 32 \<and> cursor + 8 \<le> length bytes")
  case True
  with assms show ?thesis
    using index_walk_refusal [of bytes "of_nat cursor" 0 0]
    by (auto simp: decode_next_segment_present segment_index_for_offset_def split: outcome.splits if_splits)
next
  case False
  with assms show ?thesis
    by (auto simp: decode_next_segment_def validate_bytes_def size_fits_u32_def framing_simps split: if_splits)
qed

text \<open>C24: The segment walk is total: every byte string decodes to a list of segments or to a
  refusal that carries the slug of the check that refused. It never indexes out of range and
  never reports the end-of-stream status as an error.\<close>

theorem iter_segments_total:
  "(\<exists>ss. iter_segments bytes = Ok ss) \<or> (\<exists>e slug. iter_segments bytes = Err e \<and> refusal e = Some slug)"
proof -
  have "refusal e \<noteq> None" if "iter_from bytes cursor = Err e" for cursor e
    using that
  proof (induction bytes cursor rule: iter_from.induct)
    case (1 bytes cursor)
    from "1.prems" show ?case
      using decode_next_segment_refusal [of bytes cursor]
      by (subst (asm) iter_from.simps)
        (auto simp: outcome_simps split: prod.splits outcome.splits if_splits dest: "1.IH" [OF sym])
  qed
  then show ?thesis
    using iter_from_no_panic [of bytes 0] by (cases "iter_from bytes 0") (auto simp: iter_segments_def)
qed

end
