(* ===== verification/OpStream.thy ===== *)
theory OpStream
  imports StreamFacts
begin

text \<open>
  Record framing of the wire crate, crates/reims-vgpu-wire/src/op.rs over the views of view.rs:
  a \<open>view\<close> of a type is the bytes of its size at the front of a buffer. The lemmas show that it
  frames records as the device's own record decoder does.
\<close>

section \<open>The code\<close>

datatype wire_error =
  Short nat nat
| OutOfRange nat nat
| BadLength u32 u32 nat
| CountOverflow nat nat

text \<open>\<open>view::<T>\<close>, \<open>view_at\<close>, \<open>split\<close> and \<open>view_slice\<close> with \<open>size_of::<T>()\<close> as an argument; the
  result is the bytes viewed. \<open>usize\<close> is 64 bits wide.\<close>

definition view :: "nat \<Rightarrow> u8 list \<Rightarrow> (wire_error, u8 list) outcome" where
  "view need buf = (if length buf < need then Err (Short need (length buf)) else Ok (take need buf))"

definition view_at :: "nat \<Rightarrow> u8 list \<Rightarrow> nat \<Rightarrow> (wire_error, u8 list) outcome" where
  "view_at need buf offset =
     (if offset \<le> length buf then view need (drop offset buf)
      else Err (OutOfRange offset (length buf)))"

definition split_view :: "nat \<Rightarrow> u8 list \<Rightarrow> (wire_error, u8 list \<times> u8 list) outcome" where
  "split_view need buf =
     obind (view need buf) (\<lambda>head. obind (slice_from buf need) (\<lambda>rest. Ok (head, rest)))"

definition view_slice :: "nat \<Rightarrow> u8 list \<Rightarrow> nat \<Rightarrow> (wire_error, u8 list list) outcome" where
  "view_slice elem buf count =
     (if \<not> count * elem < 2 ^ 64 then Err (CountOverflow count elem)
      else if length buf < count * elem then Err (Short (count * elem) (length buf))
      else Ok (map (\<lambda>k. take elem (drop (k * elem) buf)) [0..<count]))"

record op_header =
  oh_opcode :: u32
  oh_length :: u32

definition read_op_header :: "u8 list \<Rightarrow> op_header" where
  "read_op_header bs = \<lparr>oh_opcode = le_word (take 4 bs), oh_length = le_word (take 4 (drop 4 bs))\<rparr>"

record op =
  op_head :: op_header
  op_payload :: "u8 list"
  op_offset :: nat

definition op_at :: "u8 list \<Rightarrow> nat \<Rightarrow> (wire_error, op) outcome" where
  "op_at buf offset =
     obind (view OP_HEADER_LEN buf) (\<lambda>h.
       let header = read_op_header h;
           length_usize = unat (oh_length header)
       in if length_usize < OP_HEADER_LEN \<or> length_usize > length buf
          then Err (BadLength (oh_opcode header) (oh_length header) (length buf))
          else obind (split_view OP_HEADER_LEN (take length_usize buf)) (\<lambda>(_, rest).
                 Ok \<lparr>op_head = header, op_payload = rest, op_offset = offset\<rparr>))"

record op_stream =
  os_buf :: "u8 list"
  os_offset :: nat
  os_stopped :: bool

definition op_stream_new :: "u8 list \<Rightarrow> op_stream" where
  "op_stream_new buf = \<lparr>os_buf = buf, os_offset = 0, os_stopped = False\<rparr>"

definition op_next :: "op_stream \<Rightarrow> (wire_error, op) outcome option \<times> op_stream" where
  "op_next st =
     (if os_stopped st \<or> os_offset st \<ge> length (os_buf st) then (None, st)
      else (case obind (slice_from (os_buf st) (os_offset st)) (\<lambda>b. op_at b (os_offset st)) of
              Ok r \<Rightarrow> (Some (Ok r), st\<lparr>os_offset := os_offset st + unat (oh_length (op_head r))\<rparr>)
            | Err e \<Rightarrow> (Some (Err e), st\<lparr>os_stopped := True\<rparr>)
            | Panic \<Rightarrow> (Some Panic, st)))"

section \<open>One record\<close>

lemma op_at_cases:
  "op_at buf off =
    (if length buf < 8 then Err (Short 8 (length buf))
     else let n = frame_len buf 4 in
       if n < 8 \<or> length buf < n
       then Err (BadLength (le_word (take 4 buf)) (of_nat n) (length buf))
       else Ok \<lparr>op_head = \<lparr>oh_opcode = le_word (take 4 buf), oh_length = of_nat n\<rparr>,
                op_payload = drop 8 (take n buf), op_offset = off\<rparr>)"
proof (cases "length buf < 8")
  case True
  then show ?thesis by (simp add: op_at_def view_def framing_simps)
next
  case False
  then have "unat (le_word (take 4 (drop 4 buf)) :: u32) = frame_len buf 4"
    by (intro frame_len_unat(1)) simp
  moreover have "take 4 (drop 4 (take 8 buf)) = take 4 (drop 4 buf)"
    by (simp add: drop_take)
  moreover have "le_word (take 4 (drop 4 buf)) = (of_nat (frame_len buf 4) :: u32)"
    by (simp add: le_word_def frame_len_def)
  ultimately show ?thesis
    using False
    by (auto simp: op_at_def view_def split_view_def framing_simps read_op_header_def Let_def min_def)
qed

lemma frame_len_shift: "frame_len (drop c bytes) k = frame_len bytes (c + k)"
  by (simp add: frame_len_def add.commute)

lemma frame_len_take: "c + 4 \<le> n \<Longrightarrow> frame_len (take n bytes) c = frame_len bytes c"
  by (simp add: frame_len_def drop_take)

text \<open>C26: The wire crate's record view and the device's record decoder frame a record the same
  way: in a segment of the stream that is not a protection envelope, the bytes from the cursor
  to the segment's end view as a record exactly when the decoder returns one, and then with the
  same opcode and length, the cursor past it, and its payload the bytes between.\<close>

theorem record_framers_agree:
  assumes "validate_segment bytes s = Ok e" and "sg_type s \<noteq> SEGMENT_TYPE_PROTECTION_OPTIONS"
    and "unat (sg_command_offset s) \<le> cursor" "cursor < e"
  shows "(case op_at (drop cursor (take e bytes)) cursor of
      Ok r \<Rightarrow> \<exists>rc. decode_next_record bytes s cursor = (Ok rc, cursor + unat (oh_length (op_head r)))
        \<and> rec_opcode rc = oh_opcode (op_head r) \<and> rec_length rc = oh_length (op_head r)
        \<and> op_payload r = drop (cursor + 8) (take (cursor + unat (oh_length (op_head r))) bytes)
    | Err w \<Rightarrow> \<exists>d slug. decode_next_record bytes s cursor = (Err d, cursor) \<and> refusal d = Some slug
    | Panic \<Rightarrow> False)"
proof -
  note vs = validate_segment_cases(2) [OF assms(1)]
  let ?b = "drop cursor (take e bytes)"
  have lb: "length ?b = e - cursor" using vs by simp
  show ?thesis
  proof (cases "cursor + 8 \<le> e")
    case False
    then have "decode_next_record bytes s cursor = (Err (DsErrShort ''stream_rec_short_header''), cursor)"
      using assms by (simp add: decode_next_record_def framing_simps)
    moreover have "op_at ?b cursor = Err (Short 8 (e - cursor))"
    proof -
      have "length ?b < 8" using False assms(4) unfolding lb by linarith
      then show ?thesis by (simp only: op_at_cases if_True lb)
    qed
    ultimately show ?thesis by simp
  next
    case True
    define n where "n = frame_len bytes (cursor + 4)"
    have n: "frame_len ?b 4 = n" using True by (simp add: n_def frame_len_shift frame_len_take)
    have n32: "n < 2 ^ 32" unfolding n_def using True vs by (intro frame_len_unat(2)) simp
    have w: "take 4 ?b = take 4 (drop cursor bytes)"
      using True by (simp add: drop_take min_def)
    note d = decode_next_record_present [OF assms(1,3) True assms(2), folded n_def]
    show ?thesis
    proof (cases "n < 8 \<or> e < cursor + n")
      case bad: True
      then show ?thesis using True lb assms(4) by (auto simp: op_at_cases n Let_def d)
    next
      case False
      have "drop 8 (take n ?b) = drop (cursor + 8) (take (cursor + n) bytes)"
      proof -
        have "take n ?b = drop cursor (take (cursor + n) bytes)"
          using False by (simp add: take_drop min_def add.commute [of n])
        then show ?thesis by (simp add: add.commute)
      qed
      moreover have "op_at ?b cursor = Ok \<lparr>op_head = \<lparr>oh_opcode = le_word (take 4 ?b), oh_length = of_nat n\<rparr>,
          op_payload = drop 8 (take n ?b), op_offset = cursor\<rparr>"
      proof -
        have "\<not> length ?b < 8" "\<not> (n < 8 \<or> length ?b < n)" using False True unfolding lb by auto
        then show ?thesis by (simp only: op_at_cases n Let_def if_False)
      qed
      moreover have "decode_next_record bytes s cursor = (Ok (record_at bytes s cursor), cursor + n)"
        using False by (simp add: d)
      moreover have "unat (of_nat n :: u32) = n" using n32 by (simp add: unat_of_nat_small)
      ultimately show ?thesis by (simp add: w record_at_def n_def [symmetric])
    qed
  qed
qed

theorem record_framers_agree_witness:
  "\<exists>rc. decode_next_record sample_stream sample_segment 8 = (Ok rc, 16) \<and> rec_opcode rc = 3"
proof -
  have "op_at (drop 8 (take 16 sample_stream)) 8
      = Ok \<lparr>op_head = \<lparr>oh_opcode = 3, oh_length = 8\<rparr>, op_payload = [], op_offset = 8\<rparr>"
    by (simp add: op_at_cases sample_stream_def frame_len_def le_word_def)
  moreover have "validate_segment sample_stream sample_segment = Ok 16"
    using validate_decoded(1) [OF sample_segment_decoded] .
  ultimately show ?thesis
    using record_framers_agree [of sample_stream sample_segment 16 8]
    by (auto simp: sample_segment_def SEGMENT_TYPE_PROTECTION_OPTIONS_def)
qed

section \<open>The whole stream\<close>

lemma op_next_Ok:
  assumes "op_next st = (Some (Ok r), st')"
  shows "\<not> os_stopped st" "op_offset r = os_offset st"
    "st' = st\<lparr>os_offset := os_offset st + unat (oh_length (op_head r))\<rparr>"
    "8 \<le> unat (oh_length (op_head r))"
    "os_offset st + unat (oh_length (op_head r)) \<le> length (os_buf st)"
    "take (unat (oh_length (op_head r))) (drop (os_offset st) (os_buf st))
       = take 8 (drop (os_offset st) (os_buf st)) @ op_payload r"
proof -
  let ?b = "drop (os_offset st) (os_buf st)" and ?n = "unat (oh_length (op_head r))"
  from assms have run: "\<not> os_stopped st" "os_offset st < length (os_buf st)"
    and r: "op_at ?b (os_offset st) = Ok r"
    and st': "st' = st\<lparr>os_offset := os_offset st + unat (oh_length (op_head r))\<rparr>"
    by (auto simp: op_next_def split: if_splits outcome.splits)
  show "\<not> os_stopped st" "st' = st\<lparr>os_offset := os_offset st + ?n\<rparr>" by (fact run st')+
  from r have l8: "8 \<le> length ?b" by (auto simp: op_at_cases split: if_splits)
  then have "frame_len ?b 4 < 2 ^ 32" by (intro frame_len_unat(2)) simp
  with r have n: "?n = frame_len ?b 4" and ok: "8 \<le> frame_len ?b 4" "frame_len ?b 4 \<le> length ?b"
    and r': "op_payload r = drop 8 (take (frame_len ?b 4) ?b)" "op_offset r = os_offset st"
    by (auto simp: op_at_cases Let_def unat_of_nat_small split: if_splits)
  show "op_offset r = os_offset st" by (fact r')
  show "8 \<le> ?n" "os_offset st + ?n \<le> length (os_buf st)" using ok n run by auto
  show "take ?n ?b = take 8 ?b @ op_payload r"
    using ok unfolding r' n by (metis append_take_drop_id min_absorb1 take_take)
qed

definition op_stream_left :: "op_stream \<Rightarrow> nat" where
  "op_stream_left st = (length (os_buf st) - os_offset st) + (if os_stopped st then 0 else 1)"

lemma op_next_left:
  assumes "op_next st = (Some item, st')" "item \<noteq> Panic"
  shows "op_stream_left st' < op_stream_left st"
proof (cases item)
  case (Ok r)
  from op_next_Ok [OF assms(1) [unfolded Ok]] show ?thesis
    by (simp add: op_stream_left_def)
next
  case (Err e)
  with assms(1) show ?thesis
    by (auto simp: op_next_def op_stream_left_def split: if_splits outcome.splits)
qed (use assms in simp)

text \<open>The iterator run to its end: the items it yields and the state it ends in.\<close>

function op_collect :: "op_stream \<Rightarrow> (wire_error, op) outcome list \<times> op_stream" where
  "op_collect st =
     (case op_next st of
        (None, st') \<Rightarrow> ([], st')
      | (Some item, st') \<Rightarrow>
          if item = Panic then ([item], st')
          else (item # fst (op_collect st'), snd (op_collect st')))"
  by auto
termination
  by (relation "measure op_stream_left") (auto dest: op_next_left [OF sym])

declare op_collect.simps [simp del]

definition op_bytes :: "u8 list \<Rightarrow> op \<Rightarrow> u8 list" where
  "op_bytes buf r = take (unat (oh_length (op_head r))) (drop (op_offset r) buf)"

lemma op_collect_Ok:
  assumes "op_next st = (Some (Ok r), st')"
  shows "op_collect st = (Ok r # fst (op_collect st'), snd (op_collect st'))"
  using assms by (subst op_collect.simps) simp

lemma op_next_no_panic: "fst (op_next st) \<noteq> Some Panic"
proof -
  have "op_at b off \<noteq> Panic" for b off by (auto simp: op_at_cases Let_def)
  then show ?thesis by (auto simp: op_next_def split: outcome.split)
qed

lemma op_next_cases:
  obtains st' where "op_next st = (None, st')"
  | r st' where "op_next st = (Some (Ok r), st')"
  | e st' where "op_next st = (Some (Err e), st')"
  using op_next_no_panic [of st] by (cases "op_next st") (metis fst_conv option.exhaust outcome.exhaust)

lemma op_collect_Err:
  assumes "op_next st = (Some (Err e), st')"
  shows "op_collect st = ([Err e], st') \<and> os_stopped st'"
proof -
  from assms have "os_stopped st'" by (auto simp: op_next_def split: if_splits outcome.splits)
  moreover from this have "op_collect st' = ([], st')"
    by (subst op_collect.simps) (simp add: op_next_def)
  ultimately show ?thesis using assms by (subst op_collect.simps) simp
qed

lemma op_collect_None:
  assumes "op_next st = (None, st')"
  shows "op_collect st = ([], st) \<and> (os_stopped st \<or> length (os_buf st) \<le> os_offset st)"
  using assms
  by (subst op_collect.simps) (auto simp: op_next_def split: if_splits outcome.splits)

lemma op_collect_shape:
  "\<exists>rs. fst (op_collect st) = map Ok rs
     \<or> (\<exists>e. fst (op_collect st) = map Ok rs @ [Err e] \<and> os_stopped (snd (op_collect st)))"
proof (induction st rule: op_collect.induct)
  case (1 st)
  consider st' where "op_next st = (None, st')" | r st' where "op_next st = (Some (Ok r), st')"
    | e st' where "op_next st = (Some (Err e), st')"
    by (rule op_next_cases)
  then show ?case
  proof cases
    case 1
    then show ?thesis using op_collect_None by (metis fst_conv list.map_disc_iff)
  next
    case (2 r st')
    from "1.IH"(1) [OF 2 [symmetric] refl] obtain rs where
      "fst (op_collect st') = map Ok rs
        \<or> (\<exists>e. fst (op_collect st') = map Ok rs @ [Err e] \<and> os_stopped (snd (op_collect st')))" by auto
    then show ?thesis
      unfolding op_collect_Ok [OF 2] by (intro exI [of _ "r # rs"]) auto
  next
    case (3 e st')
    then show ?thesis
      using op_collect_Err [OF 3] by (intro exI [of _ "[]"]) auto
  qed
qed

lemma op_collect_bytes:
  "op_collect st = (map Ok rs, st') \<Longrightarrow> \<not> os_stopped st \<Longrightarrow> os_offset st \<le> length (os_buf st) \<Longrightarrow>
     os_offset st' = length (os_buf st)
     \<and> concat (map (op_bytes (os_buf st)) rs) = drop (os_offset st) (os_buf st)"
proof (induction rs arbitrary: st)
  case Nil
  then have "op_next st = (None, snd (op_next st))"
    using op_collect_Ok [of st] op_collect_Err [of st] by (cases rule: op_next_cases [of st]) auto
  from op_collect_None [OF this] Nil show ?case by simp
next
  case (Cons r rs)
  obtain st1 where nx: "op_next st = (Some (Ok r), st1)" and rest: "op_collect st1 = (map Ok rs, st')"
  proof -
    consider st1 where "op_next st = (None, st1)" | r' st1 where "op_next st = (Some (Ok r'), st1)"
      | e st1 where "op_next st = (Some (Err e), st1)"
      by (rule op_next_cases)
    then show ?thesis
    proof cases
      case (2 r' st1)
      with Cons.prems(1) op_collect_Ok [OF 2] show ?thesis
        by (intro that [of st1]) (auto intro: prod_eqI)
    qed (use Cons.prems(1) op_collect_None [of st] op_collect_Err [of st] in auto)
  qed
  note f = op_next_Ok [OF nx]
  have "os_offset st' = length (os_buf st1)
     \<and> concat (map (op_bytes (os_buf st1)) rs) = drop (os_offset st1) (os_buf st1)"
    using f by (intro Cons.IH [OF rest]) simp_all
  moreover have "op_bytes (os_buf st) r @ drop (os_offset st1) (os_buf st) = drop (os_offset st) (os_buf st)"
    using f(2,3) append_take_drop_id [of "unat (oh_length (op_head r))" "drop (os_offset st) (os_buf st)"]
    by (simp add: op_bytes_def add.commute)
  ultimately show ?case using f(3) by simp
qed

text \<open>The record iterator accounts for every byte: run over any buffer it yields records and
  at most one error, which is its last item, and never panics; when it ends without an error
  the records it yielded, end to end, are exactly the buffer, and its consumed count is the
  buffer's length.\<close>

theorem op_stream_accounts:
  "\<exists>rs. fst (op_collect (op_stream_new buf)) = map Ok rs
         \<and> os_offset (snd (op_collect (op_stream_new buf))) = length buf
         \<and> concat (map (op_bytes buf) rs) = buf
       \<or> (\<exists>e. fst (op_collect (op_stream_new buf)) = map Ok rs @ [Err e]
            \<and> os_stopped (snd (op_collect (op_stream_new buf))))"
proof -
  let ?c = "op_collect (op_stream_new buf)"
  from op_collect_shape [of "op_stream_new buf"] obtain rs where
    rs: "fst ?c = map Ok rs \<or> (\<exists>e. fst ?c = map Ok rs @ [Err e] \<and> os_stopped (snd ?c))" ..
  have "os_offset (snd ?c) = length buf \<and> concat (map (op_bytes buf) rs) = buf" if "fst ?c = map Ok rs"
    using op_collect_bytes [of "op_stream_new buf" rs "snd ?c"] that
    by (simp add: op_stream_new_def prod_eq_iff)
  with rs show ?thesis by blast
qed

end
