(* ===== verification/BlockPlan.thy ===== *)
theory BlockPlan
  imports Machine
begin

text \<open>
  The offset free list of one device-memory block,
  crates/reims-vgpu/src/backend/vulkan/engine/slab.rs (\<open>FreeRange\<close>, \<open>BlockPlan\<close>,
  \<open>align_up\<close>). Offsets and lengths are \<open>u64\<close>, the free list a list. Rust's
  \<open>partition_point\<close> on a list sorted by \<open>start\<close> is the length of its prefix that satisfies the
  predicate.
\<close>

section \<open>The code\<close>

record free_range =
  fr_start :: u64
  fr_len :: u64

record block_plan =
  bp_size :: u64
  bp_free :: "free_range list"

definition plan_new :: "u64 \<Rightarrow> block_plan" where
  "plan_new sz =
     \<lparr>bp_size = sz,
      bp_free = (if sz = 0 then [] else [\<lparr>fr_start = 0, fr_len = sz\<rparr>])\<rparr>"

definition free_bytes :: "block_plan \<Rightarrow> u64" where
  "free_bytes p = sum_list (map fr_len (bp_free p))"

definition plan_is_empty :: "block_plan \<Rightarrow> bool" where
  "plan_is_empty p \<longleftrightarrow>
     (case bp_free p of [r] \<Rightarrow> fr_start r = 0 \<and> fr_len r = bp_size p | _ \<Rightarrow> False)"

text \<open>The loop of \<open>well_formed\<close>, with its \<open>prev_end\<close>.\<close>

fun well_formed_from :: "u64 \<Rightarrow> u64 option \<Rightarrow> free_range list \<Rightarrow> bool" where
  "well_formed_from sz prev_end [] = True"
| "well_formed_from sz prev_end (r # rs) =
     (if fr_len r = 0 then False
      else case checked_add (fr_start r) (fr_len r) of
             None \<Rightarrow> False
           | Some e \<Rightarrow>
               if e > sz then False
               else if (case prev_end of Some pe \<Rightarrow> fr_start r \<le> pe | None \<Rightarrow> False) then False
               else well_formed_from sz (Some e) rs)"

definition well_formed :: "block_plan \<Rightarrow> bool" where
  "well_formed p \<longleftrightarrow> well_formed_from (bp_size p) None (bp_free p)"

definition align_up :: "u64 \<Rightarrow> u64 \<Rightarrow> u64 option" where
  "align_up v align =
     (let rem = v mod align in if rem = 0 then Some v else checked_add v (align - rem))"

text \<open>The first-fit loop over the ranges: the offset and the free list afterwards, the ranges
  before the one used unchanged. Each \<open>?\<close> of the code is a \<open>None\<close>.\<close>

fun carve_ranges :: "u64 \<Rightarrow> u64 \<Rightarrow> free_range list \<Rightarrow> (u64 \<times> free_range list) option" where
  "carve_ranges sz align [] = None"
| "carve_ranges sz align (r # rs) =
     (case align_up (fr_start r) align of
        None \<Rightarrow> None
      | Some aligned \<Rightarrow>
     (case checked_sub aligned (fr_start r) of
        None \<Rightarrow> None
      | Some pad \<Rightarrow>
     (case checked_add pad sz of
        None \<Rightarrow> None
      | Some need \<Rightarrow>
        if need > fr_len r
        then map_option (map_prod id (Cons r)) (carve_ranges sz align rs)
        else
     (case checked_add (fr_start r) (fr_len r) of
        None \<Rightarrow> None
      | Some range_end \<Rightarrow>
     (case checked_add aligned sz of
        None \<Rightarrow> None
      | Some carved_end \<Rightarrow>
        let tail_len = range_end - carved_end in
        Some (aligned,
          (if pad > 0 then [\<lparr>fr_start = fr_start r, fr_len = pad\<rparr>] else [])
          @ (if tail_len > 0 then [\<lparr>fr_start = carved_end, fr_len = tail_len\<rparr>] else [])
          @ rs))))))"

definition carve :: "block_plan \<Rightarrow> u64 \<Rightarrow> u64 \<Rightarrow> u64 option \<times> block_plan" where
  "carve p sz align =
     (if sz = 0 then (None, p)
      else case carve_ranges sz (max align 1) (bp_free p) of
             None \<Rightarrow> (None, p)
           | Some (off, free) \<Rightarrow> (Some off, p\<lparr>bp_free := free\<rparr>))"

definition remove_at :: "nat \<Rightarrow> 'a list \<Rightarrow> 'a list" where
  "remove_at i xs = take i xs @ drop (Suc i) xs"

definition coalesce_around :: "nat \<Rightarrow> free_range list \<Rightarrow> free_range list" where
  "coalesce_around idx free =
     (let free =
        (if idx + 1 < length free
            \<and> fr_start (free ! idx) + fr_len (free ! idx) = fr_start (free ! (idx + 1))
         then remove_at (idx + 1)
                (free[idx := (free ! idx)\<lparr>fr_len := fr_len (free ! idx) + fr_len (free ! (idx + 1))\<rparr>])
         else free)
      in (if idx > 0
            \<and> fr_start (free ! (idx - 1)) + fr_len (free ! (idx - 1)) = fr_start (free ! idx)
         then remove_at idx
                (free[idx - 1 := (free ! (idx - 1))
                        \<lparr>fr_len := fr_len (free ! (idx - 1)) + fr_len (free ! idx)\<rparr>])
         else free))"

definition release :: "block_plan \<Rightarrow> u64 \<Rightarrow> u64 \<Rightarrow> block_plan" where
  "release p start sz =
     (if sz = 0 then p
      else
        let idx = length (takeWhile (\<lambda>r. fr_start r < start) (bp_free p));
            free = take idx (bp_free p) @ \<lparr>fr_start = start, fr_len = sz\<rparr> # drop idx (bp_free p)
        in p\<lparr>bp_free := coalesce_around idx free\<rparr>)"

datatype slab_decline =
  FreeListInvariant nat u64 u64
| ZeroSize u32
| FreshBlockCarve u64 u64 u64
| ImageAlreadyRegistered u64
| ReleaseBlockMissing u32 nat
| ReleaseZeroSize u32 u64
| ReleaseRangeOverflow u32 u64 u64
| ReleaseRangeOutOfBounds u32 u64 u64 u64
| ReleaseRangeAlreadyFree u32 u64 u64
| ReleaseWrongPool string string u32

fun slab_slug :: "slab_decline \<Rightarrow> string" where
  "slab_slug (FreeListInvariant _ _ _) = ''vk_slab_free_list_invariant''"
| "slab_slug (ZeroSize _) = ''vk_slab_zero_size''"
| "slab_slug (FreshBlockCarve _ _ _) = ''vk_slab_fresh_block_carve''"
| "slab_slug (ImageAlreadyRegistered _) = ''vk_slab_image_already_registered''"
| "slab_slug (ReleaseBlockMissing _ _) = ''vk_slab_release_block_missing''"
| "slab_slug (ReleaseZeroSize _ _) = ''vk_slab_release_zero_size''"
| "slab_slug (ReleaseRangeOverflow _ _ _) = ''vk_slab_release_range_overflow''"
| "slab_slug (ReleaseRangeOutOfBounds _ _ _ _) = ''vk_slab_release_range_out_of_bounds''"
| "slab_slug (ReleaseRangeAlreadyFree _ _ _) = ''vk_slab_release_range_already_free''"
| "slab_slug (ReleaseWrongPool _ _ _) = ''vk_slab_release_wrong_pool''"

definition plan_release_preflight :: "block_plan \<Rightarrow> u32 \<Rightarrow> u64 \<Rightarrow> u64 \<Rightarrow> slab_decline + unit" where
  "plan_release_preflight p block start sz =
     (if sz = 0 then Inl (ReleaseZeroSize block start)
      else case checked_add start sz of
             None \<Rightarrow> Inl (ReleaseRangeOverflow block start sz)
           | Some e \<Rightarrow>
               if e > bp_size p then Inl (ReleaseRangeOutOfBounds block start sz (bp_size p))
               else if list_ex (\<lambda>r. start < saturating_add (fr_start r) (fr_len r) \<and> e > fr_start r) (bp_free p)
               then Inl (ReleaseRangeAlreadyFree block start sz)
               else Inr ())"

section \<open>Ranges as sets of bytes\<close>

definition range_end :: "free_range \<Rightarrow> nat" where
  "range_end r = unat (fr_start r) + unat (fr_len r)"

definition range_bytes :: "free_range \<Rightarrow> nat set" where
  "range_bytes r = {unat (fr_start r) ..< range_end r}"

definition ranges_bytes :: "free_range list \<Rightarrow> nat set" where
  "ranges_bytes rs = (\<Union>r \<in> set rs. range_bytes r)"

abbreviation free_set :: "block_plan \<Rightarrow> nat set" where
  "free_set p \<equiv> ranges_bytes (bp_free p)"

definition span_bytes :: "u64 \<Rightarrow> u64 \<Rightarrow> nat set" where
  "span_bytes start sz = {unat start ..< unat start + unat sz}"

text \<open>The invariant over naturals: non-empty ranges in bounds, each starting past the end of the
  one before it.\<close>

fun ranges_ok :: "nat \<Rightarrow> nat option \<Rightarrow> free_range list \<Rightarrow> bool" where
  "ranges_ok n pe [] \<longleftrightarrow> True"
| "ranges_ok n pe (r # rs) \<longleftrightarrow>
     0 < unat (fr_len r) \<and> range_end r \<le> n
     \<and> (case pe of None \<Rightarrow> True | Some e \<Rightarrow> e < unat (fr_start r)) \<and> ranges_ok n (Some (range_end r)) rs"

lemma well_formed_from_ok:
  "well_formed_from sz pe rs \<longleftrightarrow> ranges_ok (unat sz) (map_option unat pe) rs"
proof (induction sz pe rs rule: well_formed_from.induct)
  case (2 sz pe r rs)
  have lt: "range_end r \<le> unat sz \<Longrightarrow> unat (fr_start r) + unat (fr_len r) < 2 ^ 64"
    using unat_lt2p [of sz] by (simp add: range_end_def)
  show ?case
  proof (cases "unat (fr_start r) + unat (fr_len r) < 2 ^ 64")
    case True
    then have "unat (fr_start r + fr_len r) = range_end r"
      by (simp add: unat_add_no_wrap range_end_def)
    then show ?thesis
      using True 2 by (auto simp: checked_add_def word_less_nat_alt word_le_nat_alt word_unat_eq_iff
          split: option.split)
  next
    case False
    then show ?thesis using lt by (auto simp: checked_add_def)
  qed
qed simp

lemma well_formed_ok: "well_formed p \<longleftrightarrow> ranges_ok (unat (bp_size p)) None (bp_free p)"
  by (simp add: well_formed_def well_formed_from_ok)

lemma ranges_ok_weaken:
  "ranges_ok n pe rs \<Longrightarrow> (case pe' of None \<Rightarrow> True | Some e' \<Rightarrow> (case pe of None \<Rightarrow> False | Some e \<Rightarrow> e' \<le> e))
     \<Longrightarrow> ranges_ok n pe' rs"
  by (cases rs) (auto split: option.splits)

lemma ranges_ok_None: "ranges_ok n pe rs \<Longrightarrow> ranges_ok n None rs"
  by (cases rs) auto

lemma ranges_bytes_simps [simp]:
  "ranges_bytes [] = {}" "ranges_bytes (r # rs) = range_bytes r \<union> ranges_bytes rs"
  "ranges_bytes (xs @ ys) = ranges_bytes xs \<union> ranges_bytes ys"
  by (auto simp: ranges_bytes_def)

lemma ranges_ok_above:
  "ranges_ok n (Some e) rs \<Longrightarrow> x \<in> ranges_bytes rs \<Longrightarrow> e < x \<and> x < n"
  by (induction rs arbitrary: e) (fastforce simp: range_bytes_def range_end_def)+

lemma ranges_ok_end: "ranges_ok n pe rs \<Longrightarrow> r \<in> set rs \<Longrightarrow> range_end r \<le> n \<and> 0 < unat (fr_len r)"
  by (induction rs arbitrary: pe) auto

lemma ranges_ok_bound: "ranges_ok n pe rs \<Longrightarrow> ranges_bytes rs \<subseteq> {..<n}"
  by (induction rs arbitrary: pe) (auto simp: range_bytes_def range_end_def)

lemma ranges_ok_append:
  "ranges_ok n pe (xs @ ys) \<longleftrightarrow>
     ranges_ok n pe xs \<and> ranges_ok n (if xs = [] then pe else Some (range_end (last xs))) ys"
  by (induction xs arbitrary: pe) auto

section \<open>Canonical form\<close>

text \<open>A well-formed free list is determined by the bytes that are free.\<close>

lemma ranges_ok_first:
  assumes "ranges_ok n pe (r # rs)"
  shows "unat (fr_start r) \<in> ranges_bytes (r # rs)" "range_end r \<notin> ranges_bytes (r # rs)"
    "x \<in> ranges_bytes (r # rs) \<Longrightarrow> unat (fr_start r) \<le> x"
    "{unat (fr_start r) ..< range_end r} \<subseteq> ranges_bytes (r # rs)"
  using assms ranges_ok_above [of n "range_end r" rs]
  by (fastforce simp: range_bytes_def range_end_def)+

lemma ranges_unique:
  "ranges_ok n pe xs \<Longrightarrow> ranges_ok m pe' ys \<Longrightarrow> ranges_bytes xs = ranges_bytes ys \<Longrightarrow> xs = ys"
proof (induction xs arbitrary: pe pe' ys)
  case Nil
  then show ?case by (cases ys) (auto simp: range_bytes_def range_end_def)
next
  case (Cons r rs)
  show ?case
  proof (cases ys)
    case Nil
    then show ?thesis using Cons.prems by (auto simp: range_bytes_def range_end_def)
  next
    case ys: (Cons q qs)
    note fr = ranges_ok_first [OF Cons.prems(1)] and fq = ranges_ok_first [OF Cons.prems(2) [unfolded ys]]
    have eq: "ranges_bytes (r # rs) = ranges_bytes (q # qs)" using Cons.prems(3) ys by simp
    have start: "unat (fr_start r) = unat (fr_start q)"
      using fr(1,3) fq(1,3) eq by (metis le_antisym)
    have "range_end r = range_end q"
    proof (rule ccontr)
      assume ne: "range_end r \<noteq> range_end q"
      have "range_end q \<in> {unat (fr_start r) ..< range_end r} \<or> range_end r \<in> {unat (fr_start q) ..< range_end q}"
        using ne start Cons.prems(1,2) by (auto simp: ys range_end_def)
      with fr(2,4) fq(2,4) eq show False by blast
    qed
    with start have "r = q" by (simp add: range_end_def word_unat_eq_iff)
    moreover have "ranges_bytes rs = ranges_bytes qs"
    proof -
      have "ranges_bytes rs = ranges_bytes (r # rs) - range_bytes r"
        using Cons.prems(1) ranges_ok_above [of n "range_end r" rs] by (fastforce simp: range_bytes_def)
      moreover have "ranges_bytes qs = ranges_bytes (q # qs) - range_bytes q"
        using Cons.prems(2) ranges_ok_above [of m "range_end q" qs] ys by (fastforce simp: range_bytes_def)
      ultimately show ?thesis using eq \<open>r = q\<close> by simp
    qed
    ultimately show ?thesis
      using Cons.IH [of "Some (range_end r)" "Some (range_end q)" qs] Cons.prems(1,2) ys by simp
  qed
qed

lemma interval_in_one:
  assumes "ranges_ok n pe rs" "{x ..< x + k} \<subseteq> ranges_bytes rs" "0 < k"
  shows "\<exists>r \<in> set rs. unat (fr_start r) \<le> x \<and> x + k \<le> range_end r"
  using assms
proof (induction rs arbitrary: pe)
  case (Cons r rs)
  note first = ranges_ok_first [OF Cons.prems(1)]
  have "x \<in> {x ..< x + k}" using Cons.prems(3) by simp
  then have x: "x \<in> ranges_bytes (r # rs)" using Cons.prems(2) by blast
  show ?case
  proof (cases "x < range_end r")
    case True
    have "range_end r \<notin> {x ..< x + k}" using first(2) Cons.prems(2) by blast
    with True first(3) [OF x] show ?thesis by auto
  next
    case False
    have "{x ..< x + k} \<subseteq> ranges_bytes rs"
      using Cons.prems(2) False by (fastforce simp: range_bytes_def)
    with Cons.IH [of "Some (range_end r)"] Cons.prems show ?thesis by auto
  qed
qed simp

section \<open>Carving\<close>

lemma next_multiple:
  fixes v a m :: nat
  assumes "0 < a"
  defines "w \<equiv> if v mod a = 0 then v else v + (a - v mod a)"
  shows "v \<le> w" "w mod a = 0" "v \<le> m \<Longrightarrow> m mod a = 0 \<Longrightarrow> w \<le> m"
proof -
  show "v \<le> w" by (simp add: w_def)
  have e: "v + (a - v mod a) = (v div a + 1) * a" if "v mod a \<noteq> 0"
    using div_mult_mod_eq [of v a] mod_less_divisor [OF assms(1), of v]
    unfolding add_mult_distrib nat_mult_1 by linarith
  show "w mod a = 0" unfolding w_def using e by (simp del: add_mult_distrib)
  assume m: "v \<le> m" "m mod a = 0"
  show "w \<le> m"
  proof (cases "v mod a = 0")
    case False
    have "v div a < m div a"
    proof (rule ccontr)
      assume "\<not> v div a < m div a"
      then have "m div a * a \<le> v div a * a" by (intro mult_le_mono1) simp
      then have "m \<le> v div a * a" using m(2) by (metis add.right_neutral div_mult_mod_eq)
      moreover have "v div a * a < v" using False div_mult_mod_eq [of v a] by linarith
      ultimately show False using m(1) by simp
    qed
    then have "(v div a + 1) * a \<le> m div a * a" by (intro mult_le_mono1) simp
    also have "\<dots> = m" using m(2) by (metis add.right_neutral div_mult_mod_eq)
    finally show ?thesis using False e by (simp add: w_def)
  qed (use m in \<open>simp add: w_def\<close>)
qed

lemma align_up_nat:
  assumes "al \<noteq> 0"
  shows "align_up v al =
    (let w = if unat v mod unat al = 0 then unat v else unat v + (unat al - unat v mod unat al)
     in if w < 2 ^ 64 then Some (of_nat w) else None)"
proof -
  have al: "0 < unat al" using assms by (simp add: word_unat_eq_iff)
  have r: "unat (v mod al) = unat v mod unat al" by (simp add: unat_mod_distrib)
  have "v mod al \<le> al" using al by (simp add: word_le_nat_alt r less_imp_le)
  then have s: "unat (al - v mod al) = unat al - unat v mod unat al"
    by (simp add: unat_sub_no_wrap r)
  have z: "v mod al = 0 \<longleftrightarrow> unat v mod unat al = 0" by (simp add: word_unat_eq_iff r)
  show ?thesis
  proof (cases "v mod al = 0")
    case True
    then show ?thesis using z unat_lt2p [of v] by (simp add: align_up_def)
  next
    case False
    have "v + (al - v mod al) = of_nat (unat v + (unat al - unat v mod unat al))"
      by (metis of_nat_add of_nat_unat s ucast_id)
    moreover have "align_up v al = (if unat v + unat (al - v mod al) < 2 ^ 64
        then Some (v + (al - v mod al)) else None)"
      using False by (simp add: align_up_def checked_add_def)
    ultimately show ?thesis using False z unfolding s Let_def by (simp only: if_False simp_thms)
  qed
qed

lemma align_up_Some:
  assumes "align_up v al = Some a" "al \<noteq> 0"
  shows "unat v \<le> unat a" "unat a mod unat al = 0"
    "unat v \<le> m \<Longrightarrow> m mod unat al = 0 \<Longrightarrow> unat a \<le> m"
proof -
  have al: "0 < unat al" using assms(2) by (simp add: word_unat_eq_iff)
  let ?w = "if unat v mod unat al = 0 then unat v else unat v + (unat al - unat v mod unat al)"
  have "?w < 2 ^ 64" "a = of_nat ?w"
    using assms by (auto simp: align_up_nat Let_def split: if_splits)
  then have a: "unat a = ?w" by (simp add: unat_of_nat_small)
  note nm = next_multiple [OF al, of "unat v"]
  show "unat v \<le> unat a" unfolding a by (rule nm(1))
  show "unat a mod unat al = 0" unfolding a by (rule nm(2))
  show "unat v \<le> m \<Longrightarrow> m mod unat al = 0 \<Longrightarrow> unat a \<le> m" unfolding a by (rule nm(3))
qed

lemma align_up_None:
  assumes "align_up v al = None" "al \<noteq> 0" "unat v \<le> m" "m mod unat al = 0"
  shows "2 ^ 64 \<le> m"
proof -
  have al: "0 < unat al" using assms(2) by (simp add: word_unat_eq_iff)
  show ?thesis
    using assms next_multiple(3) [OF al assms(3,4)] by (simp add: align_up_nat Let_def split: if_splits)
qed

text \<open>What the range \<open>r\<close> becomes when the aligned request fits it.\<close>

definition leftovers :: "free_range \<Rightarrow> u64 \<Rightarrow> u64 \<Rightarrow> free_range list" where
  "leftovers r off sz =
     (let pad = off - fr_start r; carved_end = off + sz; tail_len = fr_start r + fr_len r - carved_end
      in (if pad > 0 then [\<lparr>fr_start = fr_start r, fr_len = pad\<rparr>] else [])
         @ (if tail_len > 0 then [\<lparr>fr_start = carved_end, fr_len = tail_len\<rparr>] else []))"

lemma carve_ranges_Cons:
  assumes "al \<noteq> 0" and "range_end r < 2 ^ 64"
  shows "carve_ranges sz al (r # rs) =
    (case align_up (fr_start r) al of
       None \<Rightarrow> None
     | Some a \<Rightarrow>
         if 2 ^ 64 \<le> unat a - unat (fr_start r) + unat sz then None
         else if unat a + unat sz \<le> range_end r then Some (a, leftovers r a sz @ rs)
         else map_option (map_prod id (Cons r)) (carve_ranges sz al rs))"
proof (cases "align_up (fr_start r) al")
  case (Some a)
  note up = align_up_Some [OF Some assms(1)]
  have sub: "checked_sub a (fr_start r) = Some (a - fr_start r)"
    using up(1) by (simp add: checked_sub_def word_le_nat_alt)
  have pad: "unat (a - fr_start r) = unat a - unat (fr_start r)"
    using up(1) by (simp add: unat_sub_no_wrap word_le_nat_alt)
  have e: "checked_add (fr_start r) (fr_len r) = Some (fr_start r + fr_len r)"
    using assms(2) by (simp add: checked_add_def range_end_def)
  show ?thesis
  proof (cases "2 ^ 64 \<le> unat a - unat (fr_start r) + unat sz")
    case True
    then show ?thesis by (simp add: Some sub checked_add_def pad)
  next
    case False
    then have n: "checked_add (a - fr_start r) sz = Some (a - fr_start r + sz)"
      "unat (a - fr_start r + sz) = unat a - unat (fr_start r) + unat sz"
      by (simp_all add: checked_add_def pad unat_add_no_wrap)
    have fits: "a - fr_start r + sz > fr_len r \<longleftrightarrow> \<not> unat a + unat sz \<le> range_end r"
      using up(1) by (auto simp: word_less_nat_alt n(2) range_end_def)
    show ?thesis
    proof (cases "unat a + unat sz \<le> range_end r")
      case True
      then have "checked_add a sz = Some (a + sz)" using assms(2) by (simp add: checked_add_def)
      then show ?thesis
        using True False fits by (simp add: Some sub n(1) e leftovers_def Let_def del: not_less)
    next
      case f: False
      then show ?thesis
        using False fits by (simp add: Some sub n(1) del: not_less)
    qed
  qed
qed simp

declare carve_ranges.simps(2) [simp del]

lemma leftovers_ok:
  assumes ok: "ranges_ok n pe (r # rs)" and n: "n < 2 ^ 64"
    and a: "unat (fr_start r) \<le> unat a" "unat a + unat sz \<le> range_end r" and sz: "0 < unat sz"
  shows "ranges_bytes (leftovers r a sz) = range_bytes r - span_bytes a sz"
    "ranges_ok n pe (leftovers r a sz @ rs)"
proof -
  have e: "range_end r \<le> n" using ok by simp
  have pad: "unat (a - fr_start r) = unat a - unat (fr_start r)"
    using a(1) by (simp add: unat_sub_no_wrap word_le_nat_alt)
  have ce: "unat (a + sz) = unat a + unat sz" using a e n by (intro unat_add_no_wrap) simp
  have re: "unat (fr_start r + fr_len r) = range_end r"
    unfolding range_end_def using e n by (intro unat_add_no_wrap) (simp add: range_end_def)
  have tail: "unat (fr_start r + fr_len r - (a + sz)) = range_end r - (unat a + unat sz)"
    using a(2) by (simp add: unat_sub_no_wrap word_le_nat_alt ce re)
  have pos: "0 < a - fr_start r \<longleftrightarrow> unat (fr_start r) < unat a"
    "0 < fr_start r + fr_len r - (a + sz) \<longleftrightarrow> unat a + unat sz < range_end r"
    using a by (simp_all add: word_less_nat_alt pad tail)
  have p1: "range_end \<lparr>fr_start = fr_start r, fr_len = a - fr_start r\<rparr> = unat a"
    using a(1) by (simp add: range_end_def pad)
  have p2: "range_end \<lparr>fr_start = a + sz, fr_len = fr_start r + fr_len r - (a + sz)\<rparr> = range_end r"
    using a(2) by (simp add: range_end_def ce tail)
  show "ranges_bytes (leftovers r a sz) = range_bytes r - span_bytes a sz"
    using a sz unfolding leftovers_def Let_def pos
    by (auto simp: range_bytes_def p1 p2 ce span_bytes_def)
  have "ranges_ok n (Some x) rs" if "x \<le> range_end r" for x
    using ok that ranges_ok_weaken [of n "Some (range_end r)" rs "Some x"] by simp
  moreover have "ranges_ok n pe' rs" if "pe = pe'" for pe'
    using ok that ranges_ok_weaken [of n "Some (range_end r)" rs pe] by (cases pe) (auto simp: range_end_def)
  ultimately show "ranges_ok n pe (leftovers r a sz @ rs)"
    using ok a sz unfolding leftovers_def Let_def pos
    by (auto simp: p1 p2 pad ce tail split: option.splits)
qed

lemma carve_ranges_Some:
  assumes "carve_ranges sz al rs = Some (a, rs')" "ranges_ok n pe rs" "n < 2 ^ 64" "al \<noteq> 0" "0 < unat sz"
  shows "unat a mod unat al = 0 \<and> span_bytes a sz \<subseteq> ranges_bytes rs
    \<and> ranges_bytes rs' = ranges_bytes rs - span_bytes a sz \<and> ranges_ok n pe rs'"
  using assms
proof (induction rs arbitrary: pe rs')
  case (Cons r rs)
  have e: "range_end r < 2 ^ 64" using Cons.prems(2,3) by simp
  obtain b where b: "align_up (fr_start r) al = Some b"
    using Cons.prems(1) by (auto simp: carve_ranges_Cons [OF assms(4) e] split: option.splits)
  note up = align_up_Some [OF b assms(4)]
  show ?case
  proof (cases "unat b + unat sz \<le> range_end r")
    case True
    then have "a = b" "rs' = leftovers r b sz @ rs"
      using Cons.prems(1) by (auto simp: carve_ranges_Cons [OF assms(4) e] b split: if_splits)
    moreover have "span_bytes b sz \<inter> ranges_bytes rs = {}"
      using Cons.prems(2) ranges_ok_above [of n "range_end r" rs] True by (fastforce simp: span_bytes_def)
    moreover have "span_bytes b sz \<subseteq> range_bytes r"
      using True up(1) by (auto simp: span_bytes_def range_bytes_def)
    ultimately show ?thesis
      using leftovers_ok [OF Cons.prems(2,3) up(1) True assms(5)] up(2) by auto
  next
    case False
    then obtain rs1 where rs1: "carve_ranges sz al rs = Some (a, rs1)" "rs' = r # rs1"
      using Cons.prems(1) by (auto simp: carve_ranges_Cons [OF assms(4) e] b split: if_splits)
    from Cons.prems(2) have ok: "ranges_ok n (Some (range_end r)) rs" by simp
    note ih = Cons.IH [OF rs1(1) ok Cons.prems(3) assms(4,5)]
    have "span_bytes a sz \<inter> range_bytes r = {}"
      using ih ranges_ok_above [OF ok] by (fastforce simp: range_bytes_def)
    with ih Cons.prems(2) rs1(2) show ?thesis by auto
  qed
qed simp

lemma carve_ranges_None:
  assumes "carve_ranges sz al rs = None" "ranges_ok n pe rs" "n < 2 ^ 64" "al \<noteq> 0" "0 < unat sz"
    and "m mod unat al = 0"
  shows "\<not> {m ..< m + unat sz} \<subseteq> ranges_bytes rs"
proof
  assume sub: "{m ..< m + unat sz} \<subseteq> ranges_bytes rs"
  obtain q where q: "q \<in> set rs" "unat (fr_start q) \<le> m" "m + unat sz \<le> range_end q"
    using interval_in_one [OF assms(2) sub assms(5)] by blast
  show False using assms(1,2) q(1)
  proof (induction rs arbitrary: pe)
    case (Cons r rs)
    have e: "range_end r < 2 ^ 64" using Cons.prems(2) assms(3) by simp
    have qe: "range_end q \<le> n" "unat (fr_start r) \<le> unat (fr_start q)"
    proof -
      show "range_end q \<le> n"
        using ranges_ok_end [OF Cons.prems(2,3)] by simp
      show "unat (fr_start r) \<le> unat (fr_start q)"
      proof (rule ranges_ok_first(3) [OF Cons.prems(2)])
        have "unat (fr_start q) \<in> range_bytes q"
          using ranges_ok_end [OF Cons.prems(2,3)] by (simp add: range_bytes_def range_end_def)
        with Cons.prems(3) show "unat (fr_start q) \<in> ranges_bytes (r # rs)"
          unfolding ranges_bytes_def by blast
      qed
    qed
    have m: "unat (fr_start r) \<le> m" "m < 2 ^ 64" using qe q assms(3,5) by linarith+
    obtain b where b: "align_up (fr_start r) al = Some b"
      using align_up_None [of "fr_start r" al m] m assms(4,6) by (cases "align_up (fr_start r) al") auto
    note up = align_up_Some [OF b assms(4)]
    have bm: "unat b \<le> m" using up(3) m(1) assms(6) by simp
    have "\<not> 2 ^ 64 \<le> unat b - unat (fr_start r) + unat sz" using bm q(3) qe(1) assms(3) by linarith
    with Cons.prems(1) have nb: "\<not> unat b + unat sz \<le> range_end r" and rest: "carve_ranges sz al rs = None"
      by (auto simp: carve_ranges_Cons [OF assms(4) e] b split: if_splits)
    have "q \<noteq> r" using nb bm q(3) by auto
    with Cons.IH [OF rest, of "Some (range_end r)"] Cons.prems(2,3) show False by simp
  qed simp
qed

lemma carve_facts:
  assumes "well_formed p" and "carve p sz al = (Some off, p')"
  shows "unat off mod unat (max al 1) = 0 \<and> 0 < unat sz \<and> span_bytes off sz \<subseteq> free_set p
    \<and> free_set p' = free_set p - span_bytes off sz \<and> well_formed p' \<and> bp_size p' = bp_size p"
proof -
  have "max al 1 \<noteq> 0" by (simp add: max_def word_le_nat_alt split: if_splits) (auto simp: word_unat_eq_iff)
  moreover have "unat (bp_size p) < 2 ^ 64" using unat_lt2p [of "bp_size p"] by simp
  moreover obtain fs where "sz \<noteq> 0" "carve_ranges sz (max al 1) (bp_free p) = Some (off, fs)"
    "p' = p\<lparr>bp_free := fs\<rparr>"
    using assms(2) by (auto simp: carve_def split: if_splits option.splits)
  moreover from this have "0 < unat sz" by (simp add: word_unat_eq_iff)
  ultimately show ?thesis
    using carve_ranges_Some [of sz "max al 1" "bp_free p" off fs "unat (bp_size p)" None] assms(1)
    by (simp add: well_formed_ok)
qed

lemma carve_takes_free_range:
  assumes "well_formed p" and "carve p sz al = (Some off, p')"
  shows "unat off mod unat (max al 1) = 0 \<and> 0 < unat sz \<and> span_bytes off sz \<subseteq> free_set p
    \<and> free_set p' = free_set p - span_bytes off sz \<and> well_formed p' \<and> bp_size p' = bp_size p"
  using assms by (rule carve_facts)

lemma carve_none_complete:
  assumes "well_formed p" and "carve p sz al = (None, p')" and "sz \<noteq> 0" and "m mod unat (max al 1) = 0"
  shows "p' = p \<and> \<not> {m ..< m + unat sz} \<subseteq> free_set p"
proof -
  have "max al 1 \<noteq> 0" by (simp add: max_def word_le_nat_alt split: if_splits) (auto simp: word_unat_eq_iff)
  moreover have "unat (bp_size p) < 2 ^ 64" using unat_lt2p [of "bp_size p"] by simp
  moreover have "carve_ranges sz (max al 1) (bp_free p) = None" "p' = p"
    using assms(2,3) by (auto simp: carve_def split: option.splits)
  moreover have "0 < unat sz" using assms(3) by (simp add: word_unat_eq_iff)
  ultimately show ?thesis
    using carve_ranges_None [of sz "max al 1" "bp_free p" "unat (bp_size p)" None m] assms(1,4)
    by (simp add: well_formed_ok)
qed

text \<open>A carve takes the first fit and misses nothing. One that succeeds hands out an aligned range of
  exactly the requested size that was wholly free, and takes from the free list exactly that range:
  every other byte keeps its state, and the list stays sorted, coalesced and in bounds. One that
  declines a non-zero size leaves the block as it was, and there was no aligned position at which that
  many bytes were free.\<close>

theorem carve_first_fit:
  assumes "well_formed p" and "carve p sz al = (r, p')"
  shows "case r of
      Some off \<Rightarrow> unat off mod unat (max al 1) = 0 \<and> 0 < unat sz \<and> span_bytes off sz \<subseteq> free_set p
        \<and> free_set p' = free_set p - span_bytes off sz \<and> well_formed p' \<and> bp_size p' = bp_size p
    | None \<Rightarrow> sz \<noteq> 0 \<longrightarrow> p' = p
        \<and> (\<forall>m. m mod unat (max al 1) = 0 \<longrightarrow> \<not> {m ..< m + unat sz} \<subseteq> free_set p)"
proof (cases r)
  case (Some off)
  then show ?thesis using carve_takes_free_range [OF assms(1)] assms(2) by simp
next
  case None
  then have "carve p sz al = (None, p')" using assms(2) by simp
  note complete = carve_none_complete [OF assms(1) this]
  then have "sz \<noteq> 0 \<Longrightarrow> p' = p" by (metis mod_0)
  with complete show ?thesis using None by simp
qed

section \<open>Releasing\<close>

lemma coalesce_splice:
  "coalesce_around (length xs) (xs @ r # ys) =
    (let r' = (case ys of [] \<Rightarrow> r
               | s # _ \<Rightarrow> if fr_start r + fr_len r = fr_start s then r\<lparr>fr_len := fr_len r + fr_len s\<rparr> else r);
         ys' = (case ys of [] \<Rightarrow> []
                | s # zs \<Rightarrow> if fr_start r + fr_len r = fr_start s then zs else ys)
     in if xs \<noteq> [] \<and> fr_start (last xs) + fr_len (last xs) = fr_start r
        then butlast xs @ (last xs)\<lparr>fr_len := fr_len (last xs) + fr_len r'\<rparr> # ys'
        else xs @ r' # ys')"
proof -
  define r' where "r' = (case ys of [] \<Rightarrow> r
      | s # _ \<Rightarrow> if fr_start r + fr_len r = fr_start s then r\<lparr>fr_len := fr_len r + fr_len s\<rparr> else r)"
  define ys' where "ys' = (case ys of [] \<Rightarrow> []
      | s # zs \<Rightarrow> if fr_start r + fr_len r = fr_start s then zs else ys)"
  have merged: "(if length xs + 1 < length (xs @ r # ys)
            \<and> fr_start ((xs @ r # ys) ! length xs) + fr_len ((xs @ r # ys) ! length xs)
              = fr_start ((xs @ r # ys) ! (length xs + 1))
         then remove_at (length xs + 1) ((xs @ r # ys)[length xs :=
            ((xs @ r # ys) ! length xs)\<lparr>fr_len := fr_len ((xs @ r # ys) ! length xs)
                                        + fr_len ((xs @ r # ys) ! (length xs + 1))\<rparr>])
         else xs @ r # ys) = xs @ r' # ys'"
    by (cases ys) (auto simp: r'_def ys'_def remove_at_def nth_append)
  have st: "fr_start r' = fr_start r" by (auto simp: r'_def split: list.split)
  show ?thesis
  proof (cases xs rule: rev_cases)
    case Nil
    then show ?thesis
      using merged unfolding coalesce_around_def Let_def r'_def [symmetric] ys'_def [symmetric] by simp
  next
    case (snoc zs p)
    then show ?thesis
      using merged unfolding coalesce_around_def Let_def r'_def [symmetric] ys'_def [symmetric]
      by (simp add: st remove_at_def nth_append)
  qed
qed

lemma unat_range_end:
  "range_end r < 2 ^ 64 \<Longrightarrow> unat (fr_start r + fr_len r) = range_end r"
  unfolding range_end_def by (intro unat_add_no_wrap) simp

lemma touches_iff:
  "range_end r < 2 ^ 64 \<Longrightarrow> fr_start r + fr_len r = fr_start q \<longleftrightarrow> range_end r = unat (fr_start q)"
  by (simp add: word_unat_eq_iff unat_range_end)

lemma range_end_grow:
  assumes "range_end r = unat (fr_start q)" "range_end q < 2 ^ 64"
  shows "range_end (r\<lparr>fr_len := fr_len r + fr_len q\<rparr>) = range_end q"
    "range_bytes (r\<lparr>fr_len := fr_len r + fr_len q\<rparr>) = range_bytes r \<union> range_bytes q"
    "unat (fr_len (r\<lparr>fr_len := fr_len r + fr_len q\<rparr>)) = unat (fr_len r) + unat (fr_len q)"
proof -
  show l: "unat (fr_len (r\<lparr>fr_len := fr_len r + fr_len q\<rparr>)) = unat (fr_len r) + unat (fr_len q)"
    using assms by (simp add: range_end_def unat_add_no_wrap)
  then show e: "range_end (r\<lparr>fr_len := fr_len r + fr_len q\<rparr>) = range_end q"
    using assms by (simp add: range_end_def)
  have "unat (fr_start r) \<le> range_end r" "unat (fr_start q) \<le> range_end q"
    by (simp_all add: range_end_def)
  then show "range_bytes (r\<lparr>fr_len := fr_len r + fr_len q\<rparr>) = range_bytes r \<union> range_bytes q"
    using assms(1) unfolding range_bytes_def e by auto
qed

text \<open>Merging with the successor, then with the predecessor.\<close>

lemma merge_next:
  assumes "ranges_ok n pe ys" "n < 2 ^ 64" "range_end r \<le> n" "0 < unat (fr_len r)"
    and "case ys of [] \<Rightarrow> True | s # _ \<Rightarrow> range_end r \<le> unat (fr_start s)"
  defines "r' \<equiv> (case ys of [] \<Rightarrow> r
               | s # _ \<Rightarrow> if fr_start r + fr_len r = fr_start s then r\<lparr>fr_len := fr_len r + fr_len s\<rparr> else r)"
    and "ys' \<equiv> (case ys of [] \<Rightarrow> []
                | s # zs \<Rightarrow> if fr_start r + fr_len r = fr_start s then zs else ys)"
  shows "ranges_ok n (Some (range_end r')) ys'" "range_end r' \<le> n" "0 < unat (fr_len r')"
    "fr_start r' = fr_start r" "range_end r \<le> range_end r'"
    "range_bytes r' \<union> ranges_bytes ys' = range_bytes r \<union> ranges_bytes ys"
proof -
  have e: "range_end r < 2 ^ 64" using assms(2,3) by simp
  have goal: "ranges_ok n (Some (range_end r')) ys' \<and> range_end r' \<le> n \<and> 0 < unat (fr_len r')
      \<and> fr_start r' = fr_start r \<and> range_end r \<le> range_end r'
      \<and> range_bytes r' \<union> ranges_bytes ys' = range_bytes r \<union> ranges_bytes ys"
  proof (cases ys)
    case Nil
    then show ?thesis using assms(3,4) by (simp add: r'_def ys'_def)
  next
    case (Cons s zs)
    show ?thesis
    proof (cases "range_end r = unat (fr_start s)")
      case True
      have se: "range_end s < 2 ^ 64" using assms(1,2) Cons by simp
      note grow = range_end_grow [OF True se]
      have "r' = r\<lparr>fr_len := fr_len r + fr_len s\<rparr>" "ys' = zs"
        using True by (simp_all add: r'_def ys'_def Cons touches_iff [OF e])
      moreover have "range_end r \<le> range_end s" using True by (simp add: range_end_def)
      ultimately show ?thesis
        using grow assms(1,4) Cons True by (simp add: Un_assoc)
    next
      case False
      then have "r' = r" "ys' = ys" by (simp_all add: r'_def ys'_def Cons touches_iff [OF e])
      then show ?thesis using assms(1-5) False Cons by simp
    qed
  qed
  then show "ranges_ok n (Some (range_end r')) ys'" "range_end r' \<le> n" "0 < unat (fr_len r')"
    "fr_start r' = fr_start r" "range_end r \<le> range_end r'"
    "range_bytes r' \<union> ranges_bytes ys' = range_bytes r \<union> ranges_bytes ys" by auto
qed

lemma insert_ok:
  assumes ok: "ranges_ok n None (xs @ ys)" and n: "n < 2 ^ 64"
    and r: "range_end r \<le> n" "0 < unat (fr_len r)"
    and before: "xs \<noteq> [] \<Longrightarrow> range_end (last xs) \<le> unat (fr_start r)"
    and after: "case ys of [] \<Rightarrow> True | s # _ \<Rightarrow> range_end r \<le> unat (fr_start s)"
  shows "ranges_ok n None (coalesce_around (length xs) (xs @ r # ys))
    \<and> ranges_bytes (coalesce_around (length xs) (xs @ r # ys)) = ranges_bytes (xs @ ys) \<union> range_bytes r"
proof -
  define r' where "r' = (case ys of [] \<Rightarrow> r
      | s # _ \<Rightarrow> if fr_start r + fr_len r = fr_start s then r\<lparr>fr_len := fr_len r + fr_len s\<rparr> else r)"
  define ys' where "ys' = (case ys of [] \<Rightarrow> []
      | s # zs \<Rightarrow> if fr_start r + fr_len r = fr_start s then zs else ys)"
  obtain pe where xsok: "ranges_ok n None xs" and ysok: "ranges_ok n pe ys"
    using ok by (auto simp: ranges_ok_append)
  note mn = merge_next [OF ysok n r after, folded r'_def ys'_def]
  note code = coalesce_splice [of xs r ys, folded r'_def ys'_def]
  show ?thesis
  proof (cases xs rule: rev_cases)
    case Nil
    then show ?thesis
      using mn unfolding code by (auto simp: Let_def)
  next
    case (snoc zs p)
    have p: "range_end p \<le> unat (fr_start r)" "range_end p < 2 ^ 64" "0 < unat (fr_len p)"
      using before snoc ranges_ok_end [OF xsok, of p] n by auto
    have ze: "range_end r' < 2 ^ 64" using mn(2) n by simp
    have zok: "ranges_ok n None zs" "zs \<noteq> [] \<Longrightarrow> range_end (last zs) < unat (fr_start p)"
      using xsok snoc by (auto simp: ranges_ok_append split: if_splits)
    show ?thesis
    proof (cases "range_end p = unat (fr_start r)")
      case True
      then have t: "range_end p = unat (fr_start r')" by (simp add: mn(4))
      note grow = range_end_grow [OF t ze]
      have "coalesce_around (length xs) (xs @ r # ys) = zs @ p\<lparr>fr_len := fr_len p + fr_len r'\<rparr> # ys'"
        using True unfolding code by (simp add: Let_def snoc touches_iff [OF p(2)])
      then show ?thesis
        using grow mn zok p snoc by (auto simp: ranges_ok_append)
    next
      case False
      have "coalesce_around (length xs) (xs @ r # ys) = xs @ r' # ys'"
        using False unfolding code by (simp add: Let_def snoc touches_iff [OF p(2)])
      then show ?thesis
        using False mn p xsok snoc by (auto simp: ranges_ok_append)
    qed
  qed
qed

lemma preflight_iff:
  assumes "well_formed p"
  shows "plan_release_preflight p block start sz = Inr () \<longleftrightarrow>
    0 < unat sz \<and> unat start + unat sz \<le> unat (bp_size p) \<and> span_bytes start sz \<inter> free_set p = {}"
proof -
  have n: "unat (bp_size p) < 2 ^ 64" using unat_lt2p [of "bp_size p"] by simp
  show ?thesis
  proof (cases "0 < unat sz \<and> unat start + unat sz \<le> unat (bp_size p)")
    case True
    then have e: "unat start + unat sz < 2 ^ 64" using n by linarith
    then have ca: "checked_add start sz = Some (start + sz)" "unat (start + sz) = unat start + unat sz"
      by (simp_all add: checked_add_def unat_add_no_wrap)
    have overlap: "(start < saturating_add (fr_start r) (fr_len r) \<and> start + sz > fr_start r)
        \<longleftrightarrow> span_bytes start sz \<inter> range_bytes r \<noteq> {}" if "r \<in> set (bp_free p)" for r
    proof -
      have r: "range_end r < 2 ^ 64" "0 < unat (fr_len r)"
        using ranges_ok_end [OF assms [unfolded well_formed_ok] that] n by auto
      then have "unat (saturating_add (fr_start r) (fr_len r)) = range_end r"
        by (simp add: saturating_add_def range_end_def unat_add_no_wrap)
      then have "(start < saturating_add (fr_start r) (fr_len r) \<and> start + sz > fr_start r)
          \<longleftrightarrow> unat start < range_end r \<and> unat (fr_start r) < unat start + unat sz"
        by (simp add: word_less_nat_alt ca)
      also have "\<dots> \<longleftrightarrow> max (unat start) (unat (fr_start r)) \<in> span_bytes start sz \<inter> range_bytes r"
        using True r(2) by (auto simp: span_bytes_def range_bytes_def range_end_def)
      also have "\<dots> \<longleftrightarrow> span_bytes start sz \<inter> range_bytes r \<noteq> {}"
        by (auto simp: span_bytes_def range_bytes_def)
      finally show ?thesis .
    qed
    have "plan_release_preflight p block start sz = Inr () \<longleftrightarrow>
        \<not> (\<exists>r \<in> set (bp_free p). start < saturating_add (fr_start r) (fr_len r) \<and> start + sz > fr_start r)"
      using True by (auto simp: plan_release_preflight_def ca word_less_nat_alt list_ex_iff word_unat_eq_iff)
    then show ?thesis using True overlap by (auto simp: ranges_bytes_def)
  next
    case False
    have "\<not> unat start + unat sz < 2 ^ 64 \<or> unat (start + sz) = unat start + unat sz"
      by (auto simp: unat_add_no_wrap)
    with False show ?thesis
      by (auto simp: plan_release_preflight_def checked_add_def word_less_nat_alt word_unat_eq_iff)
  qed
qed

lemma sorted_prefix:
  assumes "ranges_ok n pe rs" "s \<in> set (dropWhile (\<lambda>r. fr_start r < start) rs)"
  shows "start \<le> fr_start s"
  using assms
proof (induction rs arbitrary: pe)
  case (Cons r rs)
  show ?case
  proof (cases "fr_start r < start")
    case True
    then show ?thesis using Cons by auto
  next
    case False
    then have "s \<in> set (r # rs)" using Cons.prems(2) by simp
    then have "unat (fr_start s) \<in> ranges_bytes (r # rs)"
      using ranges_ok_end [OF Cons.prems(1), of s] by (force simp: ranges_bytes_def range_bytes_def range_end_def)
    then have "unat (fr_start r) \<le> unat (fr_start s)" using ranges_ok_first(3) [OF Cons.prems(1)] by blast
    with False show ?thesis by (simp add: word_le_nat_alt not_less)
  qed
qed simp

lemma release_facts:
  assumes wf: "well_formed p"
  shows "(plan_release_preflight p block start sz = Inr () \<longleftrightarrow>
      0 < unat sz \<and> unat start + unat sz \<le> unat (bp_size p) \<and> span_bytes start sz \<inter> free_set p = {})
    \<and> (plan_release_preflight p block start sz = Inr () \<longrightarrow>
      well_formed (release p start sz) \<and> bp_size (release p start sz) = bp_size p
      \<and> free_set (release p start sz) = free_set p \<union> span_bytes start sz)"
proof -
  have n: "unat (bp_size p) < 2 ^ 64" using unat_lt2p [of "bp_size p"] by simp
  have ok: "ranges_ok (unat (bp_size p)) None (bp_free p)" using wf by (simp add: well_formed_ok)
  have "well_formed (release p start sz) \<and> bp_size (release p start sz) = bp_size p
      \<and> free_set (release p start sz) = free_set p \<union> span_bytes start sz"
    if pre: "0 < unat sz" "unat start + unat sz \<le> unat (bp_size p)" "span_bytes start sz \<inter> free_set p = {}"
  proof -
    let ?P = "\<lambda>r. fr_start r < start" and ?r = "\<lparr>fr_start = start, fr_len = sz\<rparr>"
    define xs where "xs = takeWhile ?P (bp_free p)"
    define ys where "ys = dropWhile ?P (bp_free p)"
    have split: "bp_free p = xs @ ys" by (simp add: xs_def ys_def)
    have re: "range_end ?r = unat start + unat sz" "range_bytes ?r = span_bytes start sz"
      by (simp_all add: range_end_def range_bytes_def span_bytes_def)
    have disj: "range_bytes q \<inter> span_bytes start sz = {}" "0 < unat (fr_len q)" if "q \<in> set (bp_free p)" for q
      using pre(3) that ranges_ok_end [OF ok that] by (auto simp: ranges_bytes_def)
    have before: "range_end (last xs) \<le> unat (fr_start ?r)" if "xs \<noteq> []"
    proof -
      have l: "last xs \<in> set (bp_free p)" "fr_start (last xs) < start"
        using set_takeWhileD [OF last_in_set [OF that, unfolded xs_def]] by (simp_all add: xs_def)
      have "unat start \<notin> range_bytes (last xs)"
        using disj(1) [OF l(1)] pre(1) by (auto simp: span_bytes_def)
      with l(2) show ?thesis by (auto simp: range_bytes_def word_less_nat_alt)
    qed
    have after: "case ys of [] \<Rightarrow> True | s # _ \<Rightarrow> range_end ?r \<le> unat (fr_start s)"
    proof (cases ys)
      case (Cons s zs)
      then have "s \<in> set (dropWhile ?P (bp_free p))" by (simp add: ys_def [symmetric])
      then have s: "s \<in> set (bp_free p)" "start \<le> fr_start s"
        using sorted_prefix [OF ok] set_dropWhileD by fastforce+
      have "unat (fr_start s) \<in> range_bytes s"
        using disj(2) [OF s(1)] by (simp add: range_bytes_def range_end_def)
      then have "unat (fr_start s) \<notin> span_bytes start sz" using disj(1) [OF s(1)] by blast
      with s(2) Cons show ?thesis by (auto simp: span_bytes_def re word_le_nat_alt)
    qed simp
    have "release p start sz = p\<lparr>bp_free := coalesce_around (length xs) (xs @ ?r # ys)\<rparr>"
    proof -
      have "take (length xs) (bp_free p) = xs" "drop (length xs) (bp_free p) = ys" by (simp_all add: split)
      moreover have "sz \<noteq> 0" using pre(1) by auto
      ultimately show ?thesis unfolding release_def Let_def xs_def [symmetric] by simp
    qed
    with insert_ok [OF ok [unfolded split] n _ _ before after] pre(1,2) show ?thesis
      by (simp add: well_formed_ok re split)
  qed
  then show ?thesis by (simp add: preflight_iff [OF wf])
qed

text \<open>C27: A release the preflight admits gives back exactly its range: the preflight admits a
  range precisely when it is non-empty, inside the block and wholly carved out, and then the
  released bytes and no others become free and the list stays sorted, coalesced and in bounds.\<close>

theorem release_returns_range:
  assumes wf: "well_formed p"
  shows "(plan_release_preflight p block start sz = Inr () \<longleftrightarrow>
      0 < unat sz \<and> unat start + unat sz \<le> unat (bp_size p) \<and> span_bytes start sz \<inter> free_set p = {})
    \<and> (plan_release_preflight p block start sz = Inr () \<longrightarrow>
      well_formed (release p start sz) \<and> bp_size (release p start sz) = bp_size p
      \<and> free_set (release p start sz) = free_set p \<union> span_bytes start sz)"
  using wf by (rule release_facts)

text \<open>Releasing what was carved restores the block: from a well-formed plan, carving a range
  and releasing exactly it gives back the same plan, whatever padding the carve left, and the
  release passes the preflight.\<close>

theorem release_reverses_carve:
  assumes "well_formed p" and "carve p sz al = (Some off, p')"
  shows "plan_release_preflight p' block off sz = Inr () \<and> release p' off sz = p"
proof -
  note c = carve_facts [OF assms]
  have wf': "well_formed p'" using c by simp
  have "span_bytes off sz \<subseteq> {..<unat (bp_size p)}"
    using c ranges_ok_bound assms(1) unfolding well_formed_ok by blast
  then have "unat off + unat sz \<le> unat (bp_size p)"
    using c by (auto simp: span_bytes_def subset_iff dest!: spec [of _ "unat off + unat sz - 1"])
  then have pre: "plan_release_preflight p' block off sz = Inr ()"
    unfolding preflight_iff [OF wf'] using c by auto
  note r = release_facts [OF wf', of block off sz]
  have "free_set (release p' off sz) = free_set p" using r pre c by auto
  with r pre c assms(1) have "bp_free (release p' off sz) = bp_free p"
    by (auto simp: well_formed_ok intro: ranges_unique)
  with r pre c have "release p' off sz = p" by simp
  with pre show ?thesis by simp
qed

section \<open>An example block\<close>

definition example_plan :: block_plan where
  "example_plan = \<lparr>bp_size = 0x1000, bp_free = [\<lparr>fr_start = 0x10, fr_len = 0xff0\<rparr>]\<rparr>"

definition example_carved :: block_plan where
  "example_carved = \<lparr>bp_size = 0x1000, bp_free =
     [\<lparr>fr_start = 0x10, fr_len = 0xf0\<rparr>, \<lparr>fr_start = 0x200, fr_len = 0xe00\<rparr>]\<rparr>"

lemma example_wf: "well_formed example_plan"
  by (simp add: well_formed_def example_plan_def checked_add_def)

lemma example_carve: "carve example_plan 0x100 0x100 = (Some 0x100, example_carved)"
  by (simp add: carve_def example_plan_def example_carved_def carve_ranges.simps align_up_def
      checked_add_def checked_sub_def Let_def max_def word_le_nat_alt)

lemma example_carve_none: "carve example_plan 0x1000 1 = (None, example_plan)"
  by (simp add: carve_def example_plan_def carve_ranges.simps align_up_def checked_add_def checked_sub_def
      Let_def)

theorem carve_first_fit_witness:
  "span_bytes 0x100 0x100 \<subseteq> free_set example_plan
     \<and> free_set example_carved = free_set example_plan - span_bytes 0x100 0x100 \<and> well_formed example_carved
     \<and> \<not> {0 ..< 0x1000} \<subseteq> free_set example_plan"
proof -
  have "\<not> {0 ..< 0 + unat (0x1000 :: u64)} \<subseteq> free_set example_plan"
    using carve_first_fit [OF example_wf example_carve_none] by (simp del: add_0) (metis add_0)
  then show ?thesis using carve_first_fit [OF example_wf example_carve] by simp
qed

theorem release_reverses_carve_witness: "release example_carved 0x100 0x100 = example_plan"
  using release_reverses_carve [OF example_wf example_carve, of 0] by simp

theorem release_returns_range_witness:
  "free_set (release example_carved 0x100 0x100) = free_set example_carved \<union> span_bytes 0x100 0x100"
proof -
  have "well_formed example_carved" by (simp add: well_formed_def example_carved_def checked_add_def)
  moreover have "plan_release_preflight example_carved 0 0x100 0x100 = Inr ()"
    by (simp add: plan_release_preflight_def example_carved_def checked_add_def saturating_add_def)
  ultimately show ?thesis using release_returns_range [of example_carved 0 "0x100" "0x100"] by blast
qed

end
