(* ===== verification/Suballoc.thy ===== *)
theory Suballoc
  imports BlockPlan
begin

text \<open>
  The contract between a block's free list and the pools that hand its ranges out, as a locale:
  what a carve and a release do to the set of free bytes. The pools' bookkeeping argument, that
  the ranges outstanding partition what is not free, is proved here once; \<open>BlockPlan\<close> is its
  model.
\<close>

section \<open>Tenants\<close>

text \<open>The ranges outstanding in a block: non-empty, pairwise disjoint, and together exactly the
  bytes that are not free.\<close>

fun disjoint_spans :: "(u64 \<times> u64) list \<Rightarrow> bool" where
  "disjoint_spans [] \<longleftrightarrow> True"
| "disjoint_spans ((s, n) # ts) \<longleftrightarrow>
     (\<forall>(s', n') \<in> set ts. span_bytes s n \<inter> span_bytes s' n' = {}) \<and> disjoint_spans ts"

definition spans_bytes :: "(u64 \<times> u64) list \<Rightarrow> nat set" where
  "spans_bytes ts = (\<Union>(s, n) \<in> set ts. span_bytes s n)"

definition tenants :: "nat set \<Rightarrow> nat \<Rightarrow> (u64 \<times> u64) list \<Rightarrow> bool" where
  "tenants fr n ts \<longleftrightarrow>
     (\<forall>(s, k) \<in> set ts. 0 < unat k) \<and> disjoint_spans ts \<and> spans_bytes ts = {..<n} - fr"

lemma spans_bytes_Cons [simp]: "spans_bytes ((s, n) # ts) = span_bytes s n \<union> spans_bytes ts"
  by (auto simp: spans_bytes_def)

lemma spans_bytes_Nil [simp]: "spans_bytes [] = {}"
  by (simp add: spans_bytes_def)

lemma span_nonempty: "0 < unat n \<Longrightarrow> unat s \<in> span_bytes s n"
  by (simp add: span_bytes_def)

lemma disjoint_spans_iff:
  "disjoint_spans (t # ts) \<longleftrightarrow> span_bytes (fst t) (snd t) \<inter> spans_bytes ts = {} \<and> disjoint_spans ts"
  by (cases t) (auto simp: spans_bytes_def)

lemma disjoint_spans_remove1:
  assumes "disjoint_spans ts" "t \<in> set ts"
  shows "disjoint_spans (remove1 t ts)
    \<and> span_bytes (fst t) (snd t) \<inter> spans_bytes (remove1 t ts) = {}
    \<and> spans_bytes ts = span_bytes (fst t) (snd t) \<union> spans_bytes (remove1 t ts)"
  using assms
proof (induction ts)
  case (Cons u us)
  show ?case
  proof (cases "t = u")
    case True
    then show ?thesis using Cons.prems by (cases u) (auto simp: disjoint_spans_iff)
  next
    case False
    with Cons.prems have "t \<in> set us" by simp
    with Cons.IH Cons.prems(1) False show ?thesis
      by (cases u) (auto simp: disjoint_spans_iff)
  qed
qed simp

lemma disjoint_spans_nth:
  assumes "disjoint_spans ts" "i < j" "j < length ts"
  shows "span_bytes (fst (ts ! i)) (snd (ts ! i)) \<inter> span_bytes (fst (ts ! j)) (snd (ts ! j)) = {}"
  using assms
proof (induction ts arbitrary: i j)
  case (Cons t ts)
  then show ?case
  proof (cases i)
    case 0
    then have "ts ! (j - 1) \<in> set ts" using Cons.prems by (cases j) auto
    then have "span_bytes (fst (ts ! (j - 1))) (snd (ts ! (j - 1))) \<subseteq> spans_bytes ts"
      by (force simp: spans_bytes_def)
    then show ?thesis using Cons.prems 0 by (cases j) (auto simp: disjoint_spans_iff)
  next
    case (Suc k)
    then show ?thesis using Cons by (cases j) (auto simp: disjoint_spans_iff)
  qed
qed simp

lemma tenants_none: "tenants {..<n} n ts \<Longrightarrow> ts = []"
proof (cases ts)
  case (Cons t us)
  assume t: "tenants {..<n} n ts"
  obtain s k where "t = (s, k)" by (cases t)
  with t Cons have "0 < unat k" "spans_bytes ((s, k) # us) = {}" by (auto simp: tenants_def)
  then show ?thesis using span_nonempty [of k s] by auto
qed simp

lemma tenants_Nil: "tenants {..<n} n []"
  by (simp add: tenants_def)

section \<open>The contract\<close>

locale suballocator =
  fixes wf :: "'p \<Rightarrow> bool"
    and free_of :: "'p \<Rightarrow> nat set"
    and size_of :: "'p \<Rightarrow> nat"
    and carve_of :: "'p \<Rightarrow> u64 \<Rightarrow> u64 \<Rightarrow> u64 option \<times> 'p"
    and release_of :: "'p \<Rightarrow> u64 \<Rightarrow> u64 \<Rightarrow> 'p"
  assumes free_bound: "wf p \<Longrightarrow> free_of p \<subseteq> {..<size_of p}"
    and carve_some: "wf p \<Longrightarrow> carve_of p n al = (Some off, p') \<Longrightarrow>
      wf p' \<and> 0 < unat n \<and> span_bytes off n \<subseteq> free_of p \<and> free_of p' = free_of p - span_bytes off n
      \<and> size_of p' = size_of p"
    and carve_none: "wf p \<Longrightarrow> carve_of p n al = (None, p') \<Longrightarrow> p' = p"
    and release_back: "wf p \<Longrightarrow> 0 < unat n \<Longrightarrow> span_bytes s n \<subseteq> {..<size_of p} \<Longrightarrow>
      span_bytes s n \<inter> free_of p = {} \<Longrightarrow>
      wf (release_of p s n) \<and> free_of (release_of p s n) = free_of p \<union> span_bytes s n
      \<and> size_of (release_of p s n) = size_of p"
begin

lemma tenants_carve:
  assumes "wf p" "carve_of p n al = (Some off, p')" "tenants (free_of p) (size_of p) ts"
  shows "wf p' \<and> tenants (free_of p') (size_of p') ((off, n) # ts) \<and> size_of p' = size_of p"
proof -
  note c = carve_some [OF assms(1,2)] and b = free_bound [OF assms(1)]
  have "span_bytes off n \<inter> spans_bytes ts = {}" using c assms(3) by (auto simp: tenants_def)
  moreover have "{..<size_of p} - (free_of p - span_bytes off n) = span_bytes off n \<union> ({..<size_of p} - free_of p)"
    using c b by auto
  ultimately show ?thesis
    using c assms(3) by (auto simp: tenants_def disjoint_spans_iff)
qed

lemma tenants_range:
  assumes "tenants (free_of p) (size_of p) ts" "(s, n) \<in> set ts"
  shows "0 < unat n" "span_bytes s n \<subseteq> {..<size_of p}" "span_bytes s n \<inter> free_of p = {}"
proof -
  have "span_bytes s n \<subseteq> spans_bytes ts" using assms(2) by (auto simp: spans_bytes_def)
  then show "0 < unat n" "span_bytes s n \<subseteq> {..<size_of p}" "span_bytes s n \<inter> free_of p = {}"
    using assms by (auto simp: tenants_def)
qed

lemma tenants_release:
  assumes "wf p" "tenants (free_of p) (size_of p) ts" "(s, n) \<in> set ts"
  shows "wf (release_of p s n)
    \<and> tenants (free_of (release_of p s n)) (size_of (release_of p s n)) (remove1 (s, n) ts)
    \<and> size_of (release_of p s n) = size_of p"
proof -
  note r = release_back [OF assms(1) tenants_range [OF assms(2,3)]]
  have d: "disjoint_spans ts" using assms(2) by (simp add: tenants_def)
  note rm = disjoint_spans_remove1 [OF d assms(3), simplified]
  have "\<forall>(s, k) \<in> set (remove1 (s, n) ts). 0 < unat k"
    using assms(2) set_remove1_subset [of "(s, n)" ts] by (auto simp: tenants_def)
  moreover have "spans_bytes (remove1 (s, n) ts) = {..<size_of p} - (free_of p \<union> span_bytes s n)"
    using rm assms(2) by (auto simp: tenants_def)
  ultimately show ?thesis using r rm by (simp add: tenants_def)
qed

text \<open>A block with nothing outstanding is wholly free, and the other way round.\<close>

lemma tenants_empty:
  assumes "wf p" "tenants (free_of p) (size_of p) ts"
  shows "ts = [] \<longleftrightarrow> free_of p = {..<size_of p}"
proof
  assume "ts = []"
  then show "free_of p = {..<size_of p}" using assms free_bound [OF assms(1)] by (auto simp: tenants_def)
next
  assume "free_of p = {..<size_of p}"
  then show "ts = []" using assms(2) tenants_none by simp
qed

end

section \<open>The model of the contract\<close>

lemma plan_new_wf: "well_formed (plan_new n)" "free_set (plan_new n) = {..<unat n}" "bp_size (plan_new n) = n"
  using unat_lt2p [of n]
  by (auto simp: plan_new_def well_formed_def checked_add_def range_bytes_def range_end_def)

lemma plan_is_empty_iff:
  assumes "well_formed p" "bp_size p \<noteq> 0"
  shows "plan_is_empty p \<longleftrightarrow> free_set p = {..<unat (bp_size p)}"
proof
  assume "plan_is_empty p"
  then show "free_set p = {..<unat (bp_size p)}"
    by (auto simp: plan_is_empty_def range_bytes_def range_end_def split: list.splits)
next
  assume e: "free_set p = {..<unat (bp_size p)}"
  have new: "ranges_ok (unat (bp_size p)) None (bp_free (plan_new (bp_size p)))"
    using plan_new_wf(1) [of "bp_size p"] plan_new_wf(3) [of "bp_size p"] unfolding well_formed_ok by metis
  have "bp_free p = bp_free (plan_new (bp_size p))"
    using ranges_unique [OF assms(1) [unfolded well_formed_ok] new] e plan_new_wf(2) by simp
  then show "plan_is_empty p" using assms(2) by (simp add: plan_is_empty_def plan_new_def)
qed

interpretation plan: suballocator well_formed "free_set" "\<lambda>p. unat (bp_size p)" carve release
proof unfold_locales
  fix p
  show "well_formed p \<Longrightarrow> free_set p \<subseteq> {..<unat (bp_size p)}"
    using ranges_ok_bound by (simp add: well_formed_ok)
next
  fix p n al off p'
  assume a: "well_formed p" "carve p n al = (Some off, p')"
  from carve_facts [OF a] show "well_formed p' \<and> 0 < unat n \<and> span_bytes off n \<subseteq> free_set p
      \<and> free_set p' = free_set p - span_bytes off n \<and> unat (bp_size p') = unat (bp_size p)" by simp
next
  fix p n al p'
  show "well_formed p \<Longrightarrow> carve p n al = (None, p') \<Longrightarrow> p' = p"
    by (auto simp: carve_def split: if_splits option.splits)
next
  fix p n s
  assume a: "well_formed p" "0 < unat n" "span_bytes s n \<subseteq> {..<unat (bp_size p)}" "span_bytes s n \<inter> free_set p = {}"
  have "unat s + unat n - 1 \<in> span_bytes s n" using a(2) by (auto simp: span_bytes_def)
  with a(3) have "unat s + unat n \<le> unat (bp_size p)" using a(2) by auto
  with a release_facts [OF a(1), of 0 s n]
  show "well_formed (release p s n) \<and> free_set (release p s n) = free_set p \<union> span_bytes s n
      \<and> unat (bp_size (release p s n)) = unat (bp_size p)" by simp
qed

end
