(* ===== verification/SlabPool.thy ===== *)
theory SlabPool
  imports Suballoc
begin

text \<open>
  The device-memory pool over the blocks, \<open>SlabPool\<close> of
  crates/reims-vgpu/src/backend/vulkan/engine/slab.rs. The Vulkan driver is a parameter:
  \<open>memory_type_for\<close> and the granularity limit are arguments, the outcome of the one
  \<open>vkAllocateMemory\<close> an acquire may make is an argument, and the driver calls made are returned
  as events. Image handles and memory handles are \<open>u64\<close>. Logging and the allocation timer are
  not modelled.
\<close>

section \<open>Data\<close>

definition SLAB_SIZE :: u64 where "SLAB_SIZE = push_bit 20 64"
definition SMALL_CLASS_MAX :: u64 where "SMALL_CLASS_MAX = push_bit 10 256"
definition SMALL_SLAB_SIZE :: u64 where "SMALL_SLAB_SIZE = push_bit 20 8"
definition SLAB_KEEP_EMPTY :: nat where "SLAB_KEEP_EMPTY = 2"

record slab_token =
  tk_block :: u32
  tk_offset :: u64
  tk_size :: u64
  tk_memory :: u64

record mem_block =
  mb_memory :: u64
  mb_plan :: block_plan
  mb_type :: u32
  mb_dedicated :: bool
  mb_small :: bool
  mb_poisoned :: bool

record slab_pool =
  sp_blocks :: "mem_block option list"
  sp_live :: "u64 \<rightharpoonup> slab_token"
  sp_granularity :: u64
  sp_block_allocs :: u64
  sp_block_frees :: u64
  sp_sub_allocs :: u64
  sp_violations :: u64

datatype vk_event = VkAllocate u64 u64 | VkFree u64

datatype slab_error =
  NoDeviceLocalMemoryForSlab u32
| SlabDeclined slab_decline
| SlabAllocateMemory int

definition slab_pool_new :: slab_pool where
  "slab_pool_new =
     \<lparr>sp_blocks = [], sp_live = Map.empty, sp_granularity = 0, sp_block_allocs = 0,
      sp_block_frees = 0, sp_sub_allocs = 0, sp_violations = 0\<rparr>"

section \<open>Operations\<close>

definition held_bytes :: "slab_pool \<Rightarrow> u64 \<times> u64" where
  "held_bytes pool =
     fold (\<lambda>slot (held, carved). case slot of
             None \<Rightarrow> (held, carved)
           | Some b \<Rightarrow> (saturating_add held (bp_size (mb_plan b)),
                       saturating_add carved
                         (saturating_sub (bp_size (mb_plan b)) (free_bytes (mb_plan b)))))
       (sp_blocks pool) (0, 0)"

text \<open>\<open>check_block\<close>: whether the block is usable, and the pool with the block poisoned when its
  free list broke.\<close>

definition check_block :: "slab_pool \<Rightarrow> nat \<Rightarrow> bool \<times> slab_pool" where
  "check_block pool idx =
     (if idx < length (sp_blocks pool) then
        (case sp_blocks pool ! idx of
           Some b \<Rightarrow>
             if well_formed (mb_plan b) then (True, pool)
             else (False, pool\<lparr>sp_blocks := (sp_blocks pool)[idx := Some (b\<lparr>mb_poisoned := True\<rparr>)],
                               sp_violations := sp_violations pool + 1\<rparr>)
         | None \<Rightarrow> (False, pool))
      else (False, pool))"

definition insert_block :: "slab_pool \<Rightarrow> mem_block \<Rightarrow> u32 \<times> slab_pool" where
  "insert_block pool b =
     (case find (\<lambda>i. sp_blocks pool ! i = None) [0..<length (sp_blocks pool)] of
        Some i \<Rightarrow> (of_nat i, pool\<lparr>sp_blocks := (sp_blocks pool)[i := Some b]\<rparr>)
      | None \<Rightarrow> (of_nat (length (sp_blocks pool)), pool\<lparr>sp_blocks := sp_blocks pool @ [Some b]\<rparr>))"

definition new_block ::
  "slab_pool \<Rightarrow> int + u64 \<Rightarrow> u64 \<Rightarrow> u32 \<Rightarrow> u64 \<Rightarrow> u64 \<Rightarrow> bool \<Rightarrow> bool
     \<Rightarrow> (slab_error + slab_token) \<times> slab_pool \<times> vk_event list" where
  "new_block pool allocation block_size mem_type align carve_sz dedicated small =
     (case allocation of
        Inl result \<Rightarrow> (Inl (SlabAllocateMemory result), pool, [])
      | Inr memory \<Rightarrow>
          let pool = pool\<lparr>sp_block_allocs := sp_block_allocs pool + 1\<rparr>
          in case carve (plan_new block_size) carve_sz align of
               (None, _) \<Rightarrow>
                 (Inl (SlabDeclined (FreshBlockCarve block_size carve_sz align)),
                  pool\<lparr>sp_block_frees := sp_block_frees pool + 1\<rparr>,
                  [VkAllocate memory block_size, VkFree memory])
             | (Some offset, plan) \<Rightarrow>
                 (case insert_block pool
                         \<lparr>mb_memory = memory, mb_plan = plan, mb_type = mem_type,
                          mb_dedicated = dedicated, mb_small = small, mb_poisoned = False\<rparr> of
                    (idx, pool) \<Rightarrow>
                      (Inr \<lparr>tk_block = idx, tk_offset = offset, tk_size = carve_sz, tk_memory = memory\<rparr>,
                       pool, [VkAllocate memory block_size])))"

text \<open>The search of \<open>acquire\<close> through the shared blocks of the class.\<close>

fun acquire_shared ::
  "slab_pool \<Rightarrow> bool \<Rightarrow> u32 \<Rightarrow> u64 \<Rightarrow> u64 \<Rightarrow> nat list \<Rightarrow> slab_token option \<times> slab_pool" where
  "acquire_shared pool want_small mem_type sz align [] = (None, pool)"
| "acquire_shared pool want_small mem_type sz align (i # is) =
     (case sp_blocks pool ! i of
        None \<Rightarrow> acquire_shared pool want_small mem_type sz align is
      | Some b \<Rightarrow>
          if \<not> mb_poisoned b \<and> \<not> mb_dedicated b \<and> mb_small b = want_small \<and> mb_type b = mem_type
          then (case carve (mb_plan b) sz align of
                  (None, plan) \<Rightarrow>
                    acquire_shared
                      (pool\<lparr>sp_blocks := (sp_blocks pool)[i := Some (b\<lparr>mb_plan := plan\<rparr>)]\<rparr>)
                      want_small mem_type sz align is
                | (Some offset, plan) \<Rightarrow>
                    (case check_block
                            (pool\<lparr>sp_blocks := (sp_blocks pool)[i := Some (b\<lparr>mb_plan := plan\<rparr>)]\<rparr>) i of
                       (False, pool) \<Rightarrow> acquire_shared pool want_small mem_type sz align is
                     | (True, pool) \<Rightarrow>
                         (Some \<lparr>tk_block = of_nat i, tk_offset = offset, tk_size = sz,
                                tk_memory = mb_memory b\<rparr>,
                          pool\<lparr>sp_sub_allocs := sp_sub_allocs pool + 1\<rparr>)))
          else acquire_shared pool want_small mem_type sz align is)"

record memory_requirements =
  rq_size :: u64
  rq_alignment :: u64
  rq_type_bits :: u32

definition acquire ::
  "slab_pool \<Rightarrow> u64 \<Rightarrow> (u32 \<Rightarrow> u64 \<Rightarrow> u32 option) \<Rightarrow> int + u64 \<Rightarrow> memory_requirements
     \<Rightarrow> (slab_error + slab_token) \<times> slab_pool \<times> vk_event list" where
  "acquire pool limit memory_type_for allocation ireq =
     (let pool = (if sp_granularity pool = 0 then pool\<lparr>sp_granularity := max limit 1\<rparr> else pool)
      in case memory_type_for (rq_type_bits ireq) (rq_size ireq) of
           None \<Rightarrow> (Inl (NoDeviceLocalMemoryForSlab (rq_type_bits ireq)), pool, [])
         | Some mem_type \<Rightarrow>
             let align = max (max (rq_alignment ireq) 1) (sp_granularity pool);
                 sz = rq_size ireq
             in if sz = 0 then (Inl (SlabDeclined (ZeroSize (rq_type_bits ireq))), pool, [])
                else if sz > SLAB_SIZE
                then new_block pool allocation sz mem_type align sz True False
                else
                  let want_small = sz < SMALL_CLASS_MAX
                  in case acquire_shared pool want_small mem_type sz align [0..<length (sp_blocks pool)] of
                       (Some tok, pool) \<Rightarrow> (Inr tok, pool, [])
                     | (None, pool) \<Rightarrow>
                         new_block pool allocation
                           (if want_small then SMALL_SLAB_SIZE else SLAB_SIZE)
                           mem_type align sz False want_small)"

definition ensure_image_unregistered :: "slab_pool \<Rightarrow> u64 \<Rightarrow> slab_decline + unit" where
  "ensure_image_unregistered pool img =
     (if img \<in> dom (sp_live pool) then Inl (ImageAlreadyRegistered img) else Inr ())"

definition register_image :: "slab_pool \<Rightarrow> u64 \<Rightarrow> slab_token \<Rightarrow> slab_pool" where
  "register_image pool img tok = pool\<lparr>sp_live := (sp_live pool)(img \<mapsto> tok)\<rparr>"

definition pool_release_preflight :: "slab_pool \<Rightarrow> u32 \<Rightarrow> u64 \<Rightarrow> u64 \<Rightarrow> slab_decline + bool" where
  "pool_release_preflight pool block offset sz =
     (case (if unat block < length (sp_blocks pool) then sp_blocks pool ! unat block else None) of
        Some b \<Rightarrow>
          if mb_poisoned b then Inr False
          else (case plan_release_preflight (mb_plan b) block offset sz of
                  Inl e \<Rightarrow> Inl e | Inr _ \<Rightarrow> Inr True)
      | None \<Rightarrow> Inl (ReleaseBlockMissing block (length (sp_blocks pool))))"

definition empty_spare :: "bool \<Rightarrow> mem_block option \<Rightarrow> bool" where
  "empty_spare small slot =
     (case slot of
        Some b \<Rightarrow> \<not> mb_dedicated b \<and> \<not> mb_poisoned b \<and> mb_small b = small \<and> plan_is_empty (mb_plan b)
      | None \<Rightarrow> False)"

definition empty_spares :: "slab_pool \<Rightarrow> bool \<Rightarrow> nat" where
  "empty_spares pool small = length (filter (empty_spare small) (sp_blocks pool))"

text \<open>\<open>Option::take\<close> of a slot followed by \<open>free_memory\<close>.\<close>

definition free_slot :: "slab_pool \<Rightarrow> nat \<Rightarrow> slab_pool \<times> vk_event list" where
  "free_slot pool idx =
     (case sp_blocks pool ! idx of
        Some b \<Rightarrow> (pool\<lparr>sp_blocks := (sp_blocks pool)[idx := None],
                       sp_block_frees := sp_block_frees pool + 1\<rparr>, [VkFree (mb_memory b)])
      | None \<Rightarrow> (pool, []))"

definition release_range :: "slab_pool \<Rightarrow> u32 \<Rightarrow> u64 \<Rightarrow> u64 \<Rightarrow> slab_pool \<times> vk_event list" where
  "release_range pool block offset sz =
     (let idx = unat block in
      case pool_release_preflight pool block offset sz of
        Inl _ \<Rightarrow> (pool, [])
      | Inr False \<Rightarrow> (pool, [])
      | Inr True \<Rightarrow>
          (case sp_blocks pool ! idx of
             None \<Rightarrow> (pool, [])
           | Some b \<Rightarrow>
               let b = b\<lparr>mb_plan := release (mb_plan b) offset sz\<rparr>;
                   pool = pool\<lparr>sp_blocks := (sp_blocks pool)[idx := Some b]\<rparr>;
                   empty = plan_is_empty (mb_plan b)
               in case check_block pool idx of
                    (False, pool) \<Rightarrow> (pool, [])
                  | (True, pool) \<Rightarrow>
                      if empty \<and> (mb_dedicated b \<or> empty_spares pool (mb_small b) > SLAB_KEEP_EMPTY)
                      then free_slot pool idx else (pool, [])))"

definition release_token :: "slab_pool \<Rightarrow> slab_token \<Rightarrow> slab_pool \<times> vk_event list" where
  "release_token pool tok = release_range pool (tk_block tok) (tk_offset tok) (tk_size tok)"

definition free_image :: "slab_pool \<Rightarrow> u64 \<Rightarrow> bool \<times> slab_pool \<times> vk_event list" where
  "free_image pool img =
     (case sp_live pool img of
        Some tok \<Rightarrow>
          (True, release_range (pool\<lparr>sp_live := (sp_live pool)(img := None)\<rparr>)
                   (tk_block tok) (tk_offset tok) (tk_size tok))
      | None \<Rightarrow> (False, pool, []))"

definition empty_block_victims :: "slab_pool \<Rightarrow> nat \<Rightarrow> nat list" where
  "empty_block_victims pool keep =
     sort (concat (map (\<lambda>cls. drop keep
             (filter (\<lambda>i. empty_spare cls (sp_blocks pool ! i)) [0..<length (sp_blocks pool)]))
           [True, False]))"

fun free_slots :: "slab_pool \<Rightarrow> nat list \<Rightarrow> slab_pool \<times> vk_event list" where
  "free_slots pool [] = (pool, [])"
| "free_slots pool (i # is) =
     (case free_slot pool i of (pool, evs) \<Rightarrow>
        (case free_slots pool is of (pool, evs') \<Rightarrow> (pool, evs @ evs')))"

definition trim_empty_blocks :: "slab_pool \<Rightarrow> nat \<Rightarrow> nat \<times> slab_pool \<times> vk_event list" where
  "trim_empty_blocks pool keep =
     (case free_slots pool (empty_block_victims pool keep) of
        (pool, evs) \<Rightarrow> (length evs, pool, evs))"

definition destroy_all :: "slab_pool \<Rightarrow> slab_pool \<times> vk_event list" where
  "destroy_all pool =
     (pool\<lparr>sp_blocks := [], sp_live := Map.empty, sp_granularity := 0\<rparr>,
      map (\<lambda>b. VkFree (mb_memory b)) (map the (filter (\<lambda>s. s \<noteq> None) (sp_blocks pool))))"

end
