(* ===== verification/SlabSafety.thy ===== *)
theory SlabSafety
  imports SlabPool
begin

text \<open>
  The pool as a transition system: what its callers may do with the tokens they hold, and the
  invariant that no two outstanding tokens name the same byte of device memory and none names
  memory that was freed.
\<close>

section \<open>The transition system\<close>

text \<open>The pool, the tokens handed out and not yet given back, and the driver's live memory.\<close>

record slab_state =
  ss_pool :: slab_pool
  ss_out :: "slab_token list"
  ss_mem :: "u64 set"

fun apply_event :: "vk_event \<Rightarrow> u64 set \<Rightarrow> u64 set" where
  "apply_event (VkAllocate h _) mem = insert h mem"
| "apply_event (VkFree h) mem = mem - {h}"

text \<open>
  A caller acquires, registers a token it holds against an image that has none, gives back a
  token it holds and has not registered, frees an image, trims, or tears the pool down once
  it holds nothing. The driver hands out only memory that is not live, and a pool has fewer
  than \<open>2 ^ 32\<close> block slots.
\<close>

inductive slab_step :: "slab_state \<Rightarrow> slab_state \<Rightarrow> bool" where
  step_acquire:
    "length (sp_blocks (ss_pool s)) < 2 ^ 32 \<Longrightarrow> (\<forall>h. allocation = Inr h \<longrightarrow> h \<notin> ss_mem s) \<Longrightarrow>
     acquire (ss_pool s) limit memory_type_for allocation ireq = (r, pool, evs) \<Longrightarrow>
     slab_step s \<lparr>ss_pool = pool,
                  ss_out = (case r of Inr tok \<Rightarrow> tok # ss_out s | Inl _ \<Rightarrow> ss_out s),
                  ss_mem = fold apply_event evs (ss_mem s)\<rparr>"
| step_register:
    "tok \<in> set (ss_out s) \<Longrightarrow> tok \<notin> ran (sp_live (ss_pool s)) \<Longrightarrow>
     ensure_image_unregistered (ss_pool s) img = Inr () \<Longrightarrow>
     slab_step s (s\<lparr>ss_pool := register_image (ss_pool s) img tok\<rparr>)"
| step_release_token:
    "tok \<in> set (ss_out s) \<Longrightarrow> tok \<notin> ran (sp_live (ss_pool s)) \<Longrightarrow>
     release_token (ss_pool s) tok = (pool, evs) \<Longrightarrow>
     slab_step s \<lparr>ss_pool = pool, ss_out = remove1 tok (ss_out s),
                  ss_mem = fold apply_event evs (ss_mem s)\<rparr>"
| step_free_image:
    "free_image (ss_pool s) img = (backed, pool, evs) \<Longrightarrow>
     slab_step s \<lparr>ss_pool = pool,
                  ss_out = (case sp_live (ss_pool s) img of
                              Some tok \<Rightarrow> remove1 tok (ss_out s) | None \<Rightarrow> ss_out s),
                  ss_mem = fold apply_event evs (ss_mem s)\<rparr>"
| step_trim:
    "trim_empty_blocks (ss_pool s) keep = (freed, pool, evs) \<Longrightarrow>
     slab_step s \<lparr>ss_pool = pool, ss_out = ss_out s, ss_mem = fold apply_event evs (ss_mem s)\<rparr>"
| step_destroy:
    "ss_out s = [] \<Longrightarrow> destroy_all (ss_pool s) = (pool, evs) \<Longrightarrow>
     slab_step s \<lparr>ss_pool = pool, ss_out = [], ss_mem = fold apply_event evs (ss_mem s)\<rparr>"

definition slab_start :: slab_state where
  "slab_start = \<lparr>ss_pool = slab_pool_new, ss_out = [], ss_mem = {}\<rparr>"

inductive slab_reachable :: "slab_state \<Rightarrow> bool" where
  reach_start: "slab_reachable slab_start"
| reach_step: "slab_reachable s \<Longrightarrow> slab_step s t \<Longrightarrow> slab_reachable t"

section \<open>The invariant\<close>

definition toks :: "nat \<Rightarrow> slab_token list \<Rightarrow> slab_token list" where
  "toks i out = filter (\<lambda>t. unat (tk_block t) = i) out"

definition tok_span :: "slab_token \<Rightarrow> u64 \<times> u64" where
  "tok_span t = (tk_offset t, tk_size t)"

fun slot_ok :: "slab_token list \<Rightarrow> mem_block option \<Rightarrow> bool" where
  "slot_ok ts None \<longleftrightarrow> ts = []"
| "slot_ok ts (Some b) \<longleftrightarrow>
     \<not> mb_poisoned b \<and> well_formed (mb_plan b) \<and> bp_size (mb_plan b) \<noteq> 0
     \<and> tenants (free_set (mb_plan b)) (unat (bp_size (mb_plan b))) (map tok_span ts)
     \<and> (\<forall>t \<in> set ts. tk_memory t = mb_memory b)"

definition memories :: "mem_block option list \<Rightarrow> u64 set" where
  "memories blocks = {mb_memory b | b. Some b \<in> set blocks}"

definition slots_ok :: "mem_block option list \<Rightarrow> slab_token list \<Rightarrow> u64 set \<Rightarrow> bool" where
  "slots_ok blocks out mem \<longleftrightarrow>
     (\<forall>i < length blocks. slot_ok (toks i out) (blocks ! i))
     \<and> (\<forall>t \<in> set out. unat (tk_block t) < length blocks)
     \<and> (\<forall>i < length blocks. \<forall>b. blocks ! i = Some b \<longrightarrow> mb_memory b \<in> mem)
     \<and> (\<forall>i < length blocks. \<forall>j < length blocks. \<forall>b c.
          blocks ! i = Some b \<longrightarrow> blocks ! j = Some c \<longrightarrow> mb_memory b = mb_memory c \<longrightarrow> i = j)
     \<and> mem \<subseteq> memories blocks"

definition live_ok :: "(u64 \<rightharpoonup> slab_token) \<Rightarrow> slab_token list \<Rightarrow> bool" where
  "live_ok live out \<longleftrightarrow> ran live \<subseteq> set out
     \<and> (\<forall>x y t. live x = Some t \<longrightarrow> live y = Some t \<longrightarrow> x = y)"

definition slab_inv :: "slab_state \<Rightarrow> bool" where
  "slab_inv s \<longleftrightarrow> slots_ok (sp_blocks (ss_pool s)) (ss_out s) (ss_mem s)
     \<and> live_ok (sp_live (ss_pool s)) (ss_out s) \<and> sp_violations (ss_pool s) = 0"

lemma toks_simps [simp]:
  "toks i [] = []"
  "toks i (t # out) = (if unat (tk_block t) = i then t # toks i out else toks i out)"
  by (simp_all add: toks_def)

lemma set_toks: "t \<in> set (toks i out) \<longleftrightarrow> t \<in> set out \<and> unat (tk_block t) = i"
  by (auto simp: toks_def)

lemma toks_remove1: "toks i (remove1 t out) = remove1 t (toks i out)"
  by (simp add: toks_def filter_remove1)

lemma remove1_absent: "t \<notin> set ts \<Longrightarrow> remove1 t ts = ts"
  by (induction ts) auto

lemma slots_okD:
  assumes "slots_ok blocks out mem"
  shows "i < length blocks \<Longrightarrow> slot_ok (toks i out) (blocks ! i)"
    "t \<in> set out \<Longrightarrow> unat (tk_block t) < length blocks"
    "i < length blocks \<Longrightarrow> blocks ! i = Some b \<Longrightarrow> mb_memory b \<in> mem"
    "i < length blocks \<Longrightarrow> j < length blocks \<Longrightarrow> blocks ! i = Some b \<Longrightarrow> blocks ! j = Some c \<Longrightarrow>
       mb_memory b = mb_memory c \<Longrightarrow> i = j"
    "mem \<subseteq> memories blocks"
  using assms unfolding slots_ok_def by blast+

text \<open>A token's own block.\<close>

lemma token_block:
  assumes "slots_ok blocks out mem" "t \<in> set out"
  obtains b where "blocks ! unat (tk_block t) = Some b" "slot_ok (toks (unat (tk_block t)) out) (Some b)"
    "tk_memory t = mb_memory b" "t \<in> set (toks (unat (tk_block t)) out)"
proof -
  let ?i = "unat (tk_block t)"
  have i: "?i < length blocks" and t: "t \<in> set (toks ?i out)"
    using assms slots_okD(2) by (auto simp: set_toks)
  with slots_okD(1) [OF assms(1) i] show ?thesis
    by (cases "blocks ! ?i") (auto intro: that)
qed

lemma memories_update:
  assumes "i < length blocks"
  shows "memories (blocks[i := x]) \<union> (case blocks ! i of Some b \<Rightarrow> {mb_memory b} | None \<Rightarrow> {}) \<supseteq> memories blocks"
    "(case x of Some b \<Rightarrow> {mb_memory b} | None \<Rightarrow> {}) \<subseteq> memories (blocks[i := x])"
proof -
  have keep: "Some b \<in> set (blocks[i := x]) \<or> blocks ! i = Some b" if "Some b \<in> set blocks" for b
  proof -
    from that obtain j where "j < length blocks" "blocks ! j = Some b" by (auto simp: in_set_conv_nth)
    then show ?thesis by (cases "j = i") (auto simp: in_set_conv_nth nth_list_update intro: exI [of _ j])
  qed
  then show "memories (blocks[i := x]) \<union> (case blocks ! i of Some b \<Rightarrow> {mb_memory b} | None \<Rightarrow> {}) \<supseteq> memories blocks"
    by (fastforce simp: memories_def)
  show "(case x of Some b \<Rightarrow> {mb_memory b} | None \<Rightarrow> {}) \<subseteq> memories (blocks[i := x])"
    using set_update_memI [OF assms, of x] by (auto simp: memories_def split: option.splits)
qed

text \<open>Replacing one slot by one with the same memory, tokens of the other slots unchanged.\<close>

lemma slots_ok_update:
  assumes ok: "slots_ok blocks out mem" and i: "i < length blocks" "blocks ! i = Some b"
    and new: "slot_ok (toks i out') (Some b')" "mb_memory b' = mb_memory b"
    and same: "\<And>j. j \<noteq> i \<Longrightarrow> toks j out' = toks j out"
  shows "slots_ok (blocks[i := Some b']) out' mem"
proof -
  have out': "unat (tk_block t) < length blocks" if "t \<in> set out'" for t
  proof (cases "unat (tk_block t) = i")
    case False
    have "t \<in> set (toks (unat (tk_block t)) out')" using that by (simp add: set_toks)
    then have "t \<in> set out" using same [OF False] by (simp add: set_toks)
    then show ?thesis using slots_okD(2) [OF ok] by blast
  qed (use i in simp)
  have mem: "mb_memory c = mb_memory (if j = i then b else c) \<and> blocks ! j = Some (if j = i then b else c)"
    if "j < length blocks" "blocks[i := Some b'] ! j = Some c" for j c
    using that i new(2) by (auto simp: nth_list_update split: if_splits)
  show ?thesis
    unfolding slots_ok_def length_list_update
  proof (intro conjI allI impI ballI)
    fix j assume j: "j < length blocks"
    show "slot_ok (toks j out') (blocks[i := Some b'] ! j)"
      using new(1) same slots_okD(1) [OF ok j] by (cases "j = i") (auto simp: i)
  next
    fix t assume "t \<in> set out'"
    then show "unat (tk_block t) < length blocks" by (rule out')
  next
    fix j c assume j: "j < length blocks" "blocks[i := Some b'] ! j = Some c"
    from mem [OF j] show "mb_memory c \<in> mem" using slots_okD(3) [OF ok j(1)] by metis
  next
    fix j k c d
    assume j: "j < length blocks" and k: "k < length blocks"
      and c: "blocks[i := Some b'] ! j = Some c" and d: "blocks[i := Some b'] ! k = Some d"
      and "mb_memory c = mb_memory d"
    with mem [OF j c] mem [OF k d] show "j = k"
      using slots_okD(4) [OF ok j k] by metis
  next
    show "mem \<subseteq> memories (blocks[i := Some b'])"
      using slots_okD(5) [OF ok] memories_update [OF i(1), of "Some b'"] i new(2) by auto
  qed
qed

text \<open>Emptying a slot that has no tokens, its memory freed.\<close>

lemma slots_ok_free:
  assumes ok: "slots_ok blocks out mem" and i: "i < length blocks" "blocks ! i = Some b"
    and none: "toks i out = []"
  shows "slots_ok (blocks[i := None]) out (mem - {mb_memory b})"
  unfolding slots_ok_def length_list_update
proof (intro conjI allI impI ballI)
  fix j assume j: "j < length blocks"
  show "slot_ok (toks j out) (blocks[i := None] ! j)"
    using none slots_okD(1) [OF ok j] i by (cases "j = i") auto
next
  fix t assume "t \<in> set out"
  then show "unat (tk_block t) < length blocks" by (rule slots_okD(2) [OF ok])
next
  fix j c assume j: "j < length blocks" and c: "blocks[i := None] ! j = Some c"
  then have jc: "j \<noteq> i" "blocks ! j = Some c" using i by (auto simp: nth_list_update split: if_splits)
  then have "mb_memory c \<noteq> mb_memory b" using slots_okD(4) [OF ok j i(1) jc(2) i(2)] by blast
  then show "mb_memory c \<in> mem - {mb_memory b}" using slots_okD(3) [OF ok j jc(2)] by simp
next
  fix j k c d
  assume j: "j < length blocks" and k: "k < length blocks"
    and "blocks[i := None] ! j = Some c" and "blocks[i := None] ! k = Some d"
    and e: "mb_memory c = mb_memory d"
  then have "blocks ! j = Some c" "blocks ! k = Some d"
    using i by (auto simp: nth_list_update split: if_splits)
  with e show "j = k" using slots_okD(4) [OF ok j k] by blast
next
  show "mem - {mb_memory b} \<subseteq> memories (blocks[i := None])"
    using slots_okD(5) [OF ok] memories_update [OF i(1), of None] i by auto
qed

text \<open>Filling an empty slot, or a new one, with a block over fresh memory.\<close>

lemma slots_ok_fill:
  assumes ok: "slots_ok blocks out mem" and i: "i < length blocks" "blocks ! i = None"
    and new: "slot_ok (toks i out') (Some b)" "mb_memory b \<notin> mem"
    and same: "\<And>j. j \<noteq> i \<Longrightarrow> toks j out' = toks j out"
  shows "slots_ok (blocks[i := Some b]) out' (insert (mb_memory b) mem)"
proof -
  have out': "unat (tk_block t) < length blocks" if "t \<in> set out'" for t
  proof (cases "unat (tk_block t) = i")
    case False
    have "t \<in> set (toks (unat (tk_block t)) out')" using that by (simp add: set_toks)
    then have "t \<in> set out" using same [OF False] by (simp add: set_toks)
    then show ?thesis using slots_okD(2) [OF ok] by blast
  qed (use i in simp)
  have c: "j = i \<and> c = b \<or> j \<noteq> i \<and> blocks ! j = Some c \<and> mb_memory c \<noteq> mb_memory b"
    if "j < length blocks" "blocks[i := Some b] ! j = Some c" for j c
    using that i new(2) slots_okD(3) [OF ok that(1)] by (auto simp: nth_list_update split: if_splits)
  show ?thesis
    unfolding slots_ok_def length_list_update
  proof (intro conjI allI impI ballI)
    fix j assume j: "j < length blocks"
    show "slot_ok (toks j out') (blocks[i := Some b] ! j)"
      using new(1) same slots_okD(1) [OF ok j] by (cases "j = i") (auto simp: i)
  next
    fix t assume "t \<in> set out'"
    then show "unat (tk_block t) < length blocks" by (rule out')
  next
    fix j d assume "j < length blocks" "blocks[i := Some b] ! j = Some d"
    from c [OF this] show "mb_memory d \<in> insert (mb_memory b) mem"
      using slots_okD(3) [OF ok \<open>j < length blocks\<close>] by auto
  next
    fix j k d e
    assume j: "j < length blocks" "blocks[i := Some b] ! j = Some d"
      and k: "k < length blocks" "blocks[i := Some b] ! k = Some e" and m: "mb_memory d = mb_memory e"
    from c [OF j] c [OF k] m show "j = k" using slots_okD(4) [OF ok j(1) k(1)] by metis
  next
    show "insert (mb_memory b) mem \<subseteq> memories (blocks[i := Some b])"
      using slots_okD(5) [OF ok] memories_update [OF i(1), of "Some b"] i by auto
  qed
qed

lemma slots_ok_grow:
  assumes "slots_ok blocks out mem"
  shows "slots_ok (blocks @ [None]) out mem"
proof -
  have none: "toks (length blocks) out = []"
    using slots_okD(2) [OF assms] by (force simp: toks_def filter_empty_conv)
  have some: "j < length blocks \<and> blocks ! j = Some b" if "j < Suc (length blocks)" "(blocks @ [None]) ! j = Some b" for j b
    using that by (cases "j < length blocks") (auto simp: nth_append less_Suc_eq)
  show ?thesis
    unfolding slots_ok_def length_append_singleton
  proof (intro conjI allI impI ballI)
    fix j assume "j < Suc (length blocks)"
    then show "slot_ok (toks j out) ((blocks @ [None]) ! j)"
      using none slots_okD(1) [OF assms] by (cases "j < length blocks") (auto simp: nth_append less_Suc_eq)
  next
    fix t assume "t \<in> set out"
    then show "unat (tk_block t) < Suc (length blocks)" using slots_okD(2) [OF assms] by fastforce
  next
    fix j b assume "j < Suc (length blocks)" "(blocks @ [None]) ! j = Some b"
    from some [OF this] show "mb_memory b \<in> mem" using slots_okD(3) [OF assms] by blast
  next
    fix j k b c
    assume j: "j < Suc (length blocks)" "(blocks @ [None]) ! j = Some b"
      and k: "k < Suc (length blocks)" "(blocks @ [None]) ! k = Some c" and m: "mb_memory b = mb_memory c"
    from some [OF j] some [OF k] m show "j = k" using slots_okD(4) [OF assms] by blast
  next
    show "mem \<subseteq> memories (blocks @ [None])"
      using slots_okD(5) [OF assms] by (simp add: memories_def)
  qed
qed

section \<open>Acquiring\<close>

lemma check_block_ok:
  assumes "slots_ok (sp_blocks pool) out mem" "i < length (sp_blocks pool)" "sp_blocks pool ! i = Some b"
  shows "check_block pool i = (True, pool)"
  using slots_okD(1) [OF assms(1,2)] assms by (simp add: check_block_def)

lemma carve_slot:
  assumes ok: "slots_ok (sp_blocks pool) out mem" and i: "i < length (sp_blocks pool)"
    "sp_blocks pool ! i = Some b" "i < 2 ^ 32"
    and c: "carve (mb_plan b) sz al = (Some off, plan)"
  defines "tok \<equiv> \<lparr>tk_block = of_nat i, tk_offset = off, tk_size = sz, tk_memory = mb_memory b\<rparr>"
  shows "slots_ok ((sp_blocks pool)[i := Some (b\<lparr>mb_plan := plan\<rparr>)]) (tok # out) mem"
proof (rule slots_ok_update [OF ok i(1,2)])
  have u: "unat (tk_block tok) = i" using i(3) by (simp add: tok_def unat_of_nat_small)
  have b: "slot_ok (toks i out) (Some b)" using slots_okD(1) [OF ok i(1)] i(2) by simp
  have "tenants (free_set (mb_plan b)) (unat (bp_size (mb_plan b))) (map tok_span (toks i out))"
    "well_formed (mb_plan b)" using b by simp_all
  from plan.tenants_carve [OF this(2) c this(1)]
  have t: "tenants (free_set plan) (unat (bp_size plan)) ((off, sz) # map tok_span (toks i out))"
    "well_formed plan" "unat (bp_size plan) = unat (bp_size (mb_plan b))" by blast+
  have "bp_size plan \<noteq> 0" using t(3) b by (auto simp: word_unat_eq_iff)
  moreover have "tok_span tok = (off, sz)" by (simp add: tok_span_def tok_def)
  moreover have "tk_memory tok = mb_memory b" by (simp add: tok_def)
  ultimately show "slot_ok (toks i (tok # out)) (Some (b\<lparr>mb_plan := plan\<rparr>))"
    using t(1,2) b by (simp add: u)
  show "toks j (tok # out) = toks j out" if "j \<noteq> i" for j
    using that u by simp
qed simp

lemma acquire_shared_ok:
  assumes "slots_ok (sp_blocks pool) out mem" "\<forall>i \<in> set is. i < length (sp_blocks pool)"
    "length (sp_blocks pool) < 2 ^ 32" "acquire_shared pool want_small mem_type sz align is = (r, pool')"
  shows "case r of
      None \<Rightarrow> pool' = pool
    | Some tok \<Rightarrow> slots_ok (sp_blocks pool') (tok # out) mem \<and> sp_live pool' = sp_live pool
        \<and> sp_violations pool' = sp_violations pool"
  using assms
proof (induction "is")
  case (Cons i "is")
  have i: "i < length (sp_blocks pool)" "i < 2 ^ 32" using Cons.prems(2,3) by auto
  have tail: "acquire_shared pool want_small mem_type sz align is = (r, pool') \<Longrightarrow> ?case"
    using Cons by simp
  show ?case
  proof (cases "sp_blocks pool ! i")
    case None
    then show ?thesis using Cons.prems(4) tail by simp
  next
    case (Some b)
    show ?thesis
    proof (cases "\<not> mb_poisoned b \<and> \<not> mb_dedicated b \<and> mb_small b = want_small \<and> mb_type b = mem_type")
      case False
      then have "acquire_shared pool want_small mem_type sz align is = (r, pool')"
        using Cons.prems(4) unfolding acquire_shared.simps Some option.case by (simp only: if_False)
      then show ?thesis by (rule tail)
    next
      case True
      obtain c plan where c: "carve (mb_plan b) sz align = (c, plan)" by fastforce
      show ?thesis
      proof (cases c)
        case None
        have "well_formed (mb_plan b)" using slots_okD(1) [OF Cons.prems(1) i(1)] Some by simp
        from plan.carve_none [OF this c [unfolded None]] have "plan = mb_plan b" .
        then have "pool\<lparr>sp_blocks := (sp_blocks pool)[i := Some (b\<lparr>mb_plan := plan\<rparr>)]\<rparr> = pool"
          using Some list_update_id [of "sp_blocks pool" i] by simp
        then have "acquire_shared pool want_small mem_type sz align is = (r, pool')"
          using Cons.prems(4) True by (simp add: Some c None)
        then show ?thesis by (rule tail)
      next
        case (Some off)
        note slot = carve_slot [OF Cons.prems(1) i(1) \<open>sp_blocks pool ! i = Some b\<close> i(2) c [unfolded Some]]
        let ?p = "pool\<lparr>sp_blocks := (sp_blocks pool)[i := Some (b\<lparr>mb_plan := plan\<rparr>)]\<rparr>"
        have "check_block ?p i = (True, ?p)"
          using check_block_ok [of ?p _ mem i] slot i(1) by simp
        then show ?thesis
          using Cons.prems(4) True slot by (auto simp: \<open>sp_blocks pool ! i = Some b\<close> c Some)
      qed
    qed
  qed
qed simp


lemma fresh_block_slot:
  assumes "carve (plan_new n) sz al = (Some off, plan)" "n \<noteq> 0" "\<not> mb_poisoned b"
    "mb_plan b = plan" "tk_memory tok = mb_memory b" "tok_span tok = (off, sz)"
  shows "slot_ok [tok] (Some b)"
proof -
  have "tenants (free_set (plan_new n)) (unat (bp_size (plan_new n))) []"
    by (simp add: plan_new_wf tenants_Nil)
  from plan.tenants_carve [OF plan_new_wf(1) assms(1) this] assms show ?thesis
    by (auto simp: plan_new_wf word_unat_eq_iff)
qed

lemma unat_slot: "n < 2 ^ 32 \<Longrightarrow> unat (of_nat n :: u32) = n"
  by (rule unat_of_nat_small) simp

lemma insert_block_ok:
  assumes ok: "slots_ok (sp_blocks pool) out mem" and len: "length (sp_blocks pool) < 2 ^ 32"
    and ins: "insert_block pool b = (idx, pool')" and fresh: "mb_memory b \<notin> mem"
    and slot: "slot_ok [tok] (Some b)" "tk_block tok = idx"
  shows "slots_ok (sp_blocks pool') (tok # out) (insert (mb_memory b) mem)
    \<and> sp_live pool' = sp_live pool \<and> sp_violations pool' = sp_violations pool"
proof (cases "find (\<lambda>i. sp_blocks pool ! i = None) [0..<length (sp_blocks pool)]")
  case None
  let ?i = "length (sp_blocks pool)"
  have p: "pool' = pool\<lparr>sp_blocks := sp_blocks pool @ [Some b]\<rparr>" "unat (tk_block tok) = ?i"
    using ins slot(2) unat_slot [OF len] by (simp_all add: insert_block_def None)
  have "toks ?i out = []"
    using slots_okD(1) [OF slots_ok_grow [OF ok], of ?i] by (simp add: nth_append)
  then have "slots_ok ((sp_blocks pool @ [None])[?i := Some b]) (tok # out) (insert (mb_memory b) mem)"
    using slot p by (intro slots_ok_fill [OF slots_ok_grow [OF ok] _ _ _ fresh]) (auto simp: nth_append)
  then show ?thesis using p by (simp add: list_update_append)
next
  case (Some i)
  then have i: "i < length (sp_blocks pool)" "sp_blocks pool ! i = None"
    by (auto simp: find_Some_iff)
  have p: "pool' = pool\<lparr>sp_blocks := (sp_blocks pool)[i := Some b]\<rparr>" "unat (tk_block tok) = i"
    using ins slot(2) unat_slot [OF less_trans [OF i(1) len]]
    by (simp_all add: insert_block_def Some)
  have "toks i out = []" using slots_okD(1) [OF ok i(1)] i(2) by simp
  then have "slots_ok ((sp_blocks pool)[i := Some b]) (tok # out) (insert (mb_memory b) mem)"
    using slot p by (intro slots_ok_fill [OF ok i _ fresh]) auto
  then show ?thesis using p by simp
qed

lemma new_block_ok:
  assumes ok: "slots_ok (sp_blocks pool) out mem" and len: "length (sp_blocks pool) < 2 ^ 32"
    and n: "block_size \<noteq> 0" and fresh: "\<forall>h. allocation = Inr h \<longrightarrow> h \<notin> mem"
    and nb: "new_block pool allocation block_size ty al sz ded small = (r, pool', evs)"
  shows "slots_ok (sp_blocks pool') (case r of Inr tok \<Rightarrow> tok # out | Inl _ \<Rightarrow> out) (fold apply_event evs mem)
    \<and> sp_live pool' = sp_live pool \<and> sp_violations pool' = sp_violations pool"
proof (cases allocation)
  case (Inl e)
  then show ?thesis using nb ok by (auto simp: new_block_def)
next
  case (Inr h)
  then have h: "h \<notin> mem" using fresh by simp
  obtain c plan where c: "carve (plan_new block_size) sz al = (c, plan)" by fastforce
  show ?thesis
  proof (cases c)
    case None
    then show ?thesis using nb ok Inr c h by (auto simp: new_block_def Let_def)
  next
    case (Some off)
    let ?b = "\<lparr>mb_memory = h, mb_plan = plan, mb_type = ty, mb_dedicated = ded, mb_small = small,
               mb_poisoned = False\<rparr>"
    let ?p = "pool\<lparr>sp_block_allocs := sp_block_allocs pool + 1\<rparr>"
    obtain idx q where ins: "insert_block ?p ?b = (idx, q)" by fastforce
    let ?tok = "\<lparr>tk_block = idx, tk_offset = off, tk_size = sz, tk_memory = h\<rparr>"
    have "slot_ok [?tok] (Some ?b)"
      by (rule fresh_block_slot [OF c [unfolded Some] n]) (simp_all add: tok_span_def)
    from insert_block_ok [OF _ _ ins _ this] ok len h
    have "slots_ok (sp_blocks q) (?tok # out) (insert h mem) \<and> sp_live q = sp_live pool
        \<and> sp_violations q = sp_violations pool" by simp
    then show ?thesis using nb Inr c Some ins by (auto simp: new_block_def Let_def)
  qed
qed

lemma block_sizes: "SLAB_SIZE \<noteq> 0" "SMALL_SLAB_SIZE \<noteq> 0"
  by (simp_all add: SLAB_SIZE_def SMALL_SLAB_SIZE_def push_bit_eq_mult)

lemma live_ok_insert: "live_ok live out \<Longrightarrow> live_ok live (t # out)"
  by (auto simp: live_ok_def)

lemma acquire_ok:
  assumes inv: "slots_ok (sp_blocks pool) out mem" and len: "length (sp_blocks pool) < 2 ^ 32"
    and fresh: "\<forall>h. allocation = Inr h \<longrightarrow> h \<notin> mem"
    and acq: "acquire pool limit mtf allocation ireq = (r, pool', evs)"
  shows "slots_ok (sp_blocks pool') (case r of Inr tok \<Rightarrow> tok # out | Inl _ \<Rightarrow> out) (fold apply_event evs mem)
    \<and> sp_live pool' = sp_live pool \<and> sp_violations pool' = sp_violations pool"
proof -
  define p where "p = (if sp_granularity pool = 0 then pool\<lparr>sp_granularity := max limit 1\<rparr> else pool)"
  have p: "sp_blocks p = sp_blocks pool" "sp_live p = sp_live pool" "sp_violations p = sp_violations pool"
    by (simp_all add: p_def)
  note acq' = acq [unfolded acquire_def, folded p_def, unfolded Let_def]
  show ?thesis
  proof (cases "mtf (rq_type_bits ireq) (rq_size ireq)")
    case None
    then show ?thesis using acq' inv p by auto
  next
    case (Some ty)
    let ?al = "max (max (rq_alignment ireq) 1) (sp_granularity p)" and ?sz = "rq_size ireq"
    consider "?sz = 0" | "?sz \<noteq> 0" "?sz > SLAB_SIZE" | "?sz \<noteq> 0" "\<not> ?sz > SLAB_SIZE" by blast
    then show ?thesis
    proof cases
      case 1
      then show ?thesis using acq' inv p Some by auto
    next
      case 2
      then have "new_block p allocation ?sz ty ?al ?sz True False = (r, pool', evs)"
        using acq' Some by simp
      from new_block_ok [OF _ _ _ fresh this] inv len 2 p show ?thesis by simp
    next
      case 3
      let ?small = "?sz < SMALL_CLASS_MAX"
      obtain t q where sh: "acquire_shared p ?small ty ?sz ?al [0..<length (sp_blocks p)] = (t, q)"
        by fastforce
      have "slots_ok (sp_blocks p) out mem" "\<forall>i \<in> set [0..<length (sp_blocks p)]. i < length (sp_blocks p)"
        "length (sp_blocks p) < 2 ^ 32" using inv p len by simp_all
      note s = acquire_shared_ok [OF this sh]
      show ?thesis
      proof (cases t)
        case None
        with s have "q = p" by simp
        with None 3 sh have "new_block p allocation (if ?small then SMALL_SLAB_SIZE else SLAB_SIZE) ty ?al ?sz False ?small
            = (r, pool', evs)" using acq' Some by simp
        from new_block_ok [OF _ _ _ fresh this] inv len p block_sizes show ?thesis by simp
      next
        case (Some tok)
        then show ?thesis using s p 3 sh acq' \<open>mtf _ _ = Some ty\<close> by auto
      qed
    qed
  qed
qed


section \<open>Giving back\<close>

lemma map_remove1_inj:
  "(\<And>y. y \<in> set xs \<Longrightarrow> f y = f x \<Longrightarrow> y = x) \<Longrightarrow> map f (remove1 x xs) = remove1 (f x) (map f xs)"
proof (induction xs)
  case (Cons a xs)
  then show ?case using Cons.prems [of a] by (cases "a = x") auto
qed simp

lemma token_eq:
  "tk_block s = tk_block t \<Longrightarrow> tk_memory s = tk_memory t \<Longrightarrow> tok_span s = tok_span t \<Longrightarrow> s = t"
  by (cases s; cases t) (simp add: tok_span_def)

lemma release_slot:
  assumes ok: "slots_ok blocks out mem" and t: "tok \<in> set out"
    and b: "blocks ! unat (tk_block tok) = Some b"
  defines "b' \<equiv> b\<lparr>mb_plan := release (mb_plan b) (tk_offset tok) (tk_size tok)\<rparr>"
  shows "plan_release_preflight (mb_plan b) (tk_block tok) (tk_offset tok) (tk_size tok) = Inr ()
    \<and> slots_ok (blocks[unat (tk_block tok) := Some b']) (remove1 tok out) mem"
proof -
  let ?i = "unat (tk_block tok)" and ?p = "mb_plan b"
  let ?ts = "toks ?i out"
  have i: "?i < length blocks" and mem: "tok \<in> set ?ts"
    using slots_okD(2) [OF ok t] t by (simp_all add: set_toks)
  have slot: "slot_ok ?ts (Some b)" using slots_okD(1) [OF ok i] b by simp
  then have wf: "well_formed ?p" and ten: "tenants (free_set ?p) (unat (bp_size ?p)) (map tok_span ?ts)"
    and same: "\<forall>u \<in> set ?ts. tk_memory u = mb_memory b" by simp_all
  have span: "(tk_offset tok, tk_size tok) \<in> set (map tok_span ?ts)"
    using mem by (force simp: tok_span_def)
  have inj: "map tok_span (remove1 tok ?ts) = remove1 (tok_span tok) (map tok_span ?ts)"
  proof (rule map_remove1_inj)
    fix u assume u: "u \<in> set ?ts" "tok_span u = tok_span tok"
    then have "tk_block u = tk_block tok" by (simp add: set_toks word_unat_eq_iff)
    then show "u = tok" using u same mem by (intro token_eq) simp_all
  qed
  note r = plan.tenants_release [OF wf ten span] and rng = plan.tenants_range [OF ten span]
  have "unat (tk_offset tok) + unat (tk_size tok) - 1 \<in> {..<unat (bp_size ?p)}"
    using rng(1,2) by (intro subsetD [OF rng(2)]) (auto simp: span_bytes_def)
  then have pre: "plan_release_preflight ?p (tk_block tok) (tk_offset tok) (tk_size tok) = Inr ()"
    using rng by (simp add: preflight_iff [OF wf])
  have "unat (bp_size (mb_plan b')) = unat (bp_size ?p)" using r by (simp add: b'_def)
  then have "slot_ok (toks ?i (remove1 tok out)) (Some b')"
    using r slot set_remove1_subset [of tok ?ts]
    by (auto simp: b'_def toks_remove1 inj tok_span_def [of tok] word_unat_eq_iff)
  moreover have "toks j (remove1 tok out) = toks j out" if "j \<noteq> ?i" for j
    using that by (simp add: toks_remove1 remove1_absent set_toks)
  ultimately show ?thesis using pre slots_ok_update [OF ok i b] by (simp add: b'_def)
qed

lemma slot_empty: "slot_ok ts (Some b) \<Longrightarrow> plan_is_empty (mb_plan b) \<Longrightarrow> ts = []"
  using plan.tenants_empty [of "mb_plan b" "map tok_span ts"] plan_is_empty_iff [of "mb_plan b"] by simp

lemma free_slot_ok:
  assumes ok: "slots_ok (sp_blocks pool) out mem" and i: "i < length (sp_blocks pool)"
    and e: "\<And>b. sp_blocks pool ! i = Some b \<Longrightarrow> plan_is_empty (mb_plan b)"
    and f: "free_slot pool i = (pool', evs)"
  shows "slots_ok (sp_blocks pool') out (fold apply_event evs mem)
    \<and> sp_live pool' = sp_live pool \<and> sp_violations pool' = sp_violations pool"
proof (cases "sp_blocks pool ! i")
  case None
  then show ?thesis using f ok by (auto simp: free_slot_def)
next
  case (Some b)
  have "slot_ok (toks i out) (Some b)" using slots_okD(1) [OF ok i] Some by simp
  from slots_ok_free [OF ok i Some slot_empty [OF this e [OF Some]]] show ?thesis
    using f Some by (auto simp: free_slot_def)
qed

lemma release_range_ok:
  assumes ok: "slots_ok (sp_blocks pool) out mem" and t: "tok \<in> set out"
    and rel: "release_range pool (tk_block tok) (tk_offset tok) (tk_size tok) = (pool', evs)"
  shows "slots_ok (sp_blocks pool') (remove1 tok out) (fold apply_event evs mem)
    \<and> sp_live pool' = sp_live pool \<and> sp_violations pool' = sp_violations pool"
proof -
  let ?i = "unat (tk_block tok)"
  have i: "?i < length (sp_blocks pool)" using slots_okD(2) [OF ok t] .
  obtain b where b: "sp_blocks pool ! ?i = Some b" "slot_ok (toks ?i out) (Some b)"
    using token_block [OF ok t] by metis
  let ?b = "b\<lparr>mb_plan := release (mb_plan b) (tk_offset tok) (tk_size tok)\<rparr>"
  let ?p = "pool\<lparr>sp_blocks := (sp_blocks pool)[?i := Some ?b]\<rparr>"
  have pre: "pool_release_preflight pool (tk_block tok) (tk_offset tok) (tk_size tok) = Inr True"
    using release_slot [OF ok t b(1)] b i by (simp add: pool_release_preflight_def)
  have ok': "slots_ok (sp_blocks ?p) (remove1 tok out) mem"
    using release_slot [OF ok t b(1)] by simp
  have chk: "check_block ?p ?i = (True, ?p)"
    by (rule check_block_ok [OF ok']) (simp_all add: i)
  show ?thesis
  proof (cases "plan_is_empty (mb_plan ?b) \<and> (mb_dedicated ?b \<or> empty_spares ?p (mb_small ?b) > SLAB_KEEP_EMPTY)")
    case True
    then have "free_slot ?p ?i = (pool', evs)"
      using rel unfolding release_range_def Let_def pre by (simp add: b(1) chk)
    from free_slot_ok [OF ok' _ _ this] True i show ?thesis by simp
  next
    case False
    then have "(pool', evs) = (?p, [])"
      using rel unfolding release_range_def Let_def pre by (auto simp add: b(1) chk split: if_splits)
    then show ?thesis using ok' by simp
  qed
qed


lemma free_slots_ok:
  assumes "slots_ok (sp_blocks pool) out mem" "\<forall>i \<in> set is. i < length (sp_blocks pool)"
    "\<forall>i \<in> set is. \<forall>b. sp_blocks pool ! i = Some b \<longrightarrow> plan_is_empty (mb_plan b)"
    "free_slots pool is = (pool', evs)"
  shows "slots_ok (sp_blocks pool') out (fold apply_event evs mem)
    \<and> sp_live pool' = sp_live pool \<and> sp_violations pool' = sp_violations pool"
  using assms
proof (induction "is" arbitrary: pool mem evs)
  case (Cons i "is")
  obtain q es where q: "free_slot pool i = (q, es)" by fastforce
  obtain es' where es': "free_slots q is = (pool', es')" "evs = es @ es'"
    using Cons.prems(4) q by (auto split: prod.splits)
  have i: "i < length (sp_blocks pool)" "\<And>b. sp_blocks pool ! i = Some b \<Longrightarrow> plan_is_empty (mb_plan b)"
    using Cons.prems(2,3) by auto
  note one = free_slot_ok [OF Cons.prems(1) i q]
  have blocks: "length (sp_blocks q) = length (sp_blocks pool)
      \<and> (\<forall>j b. sp_blocks q ! j = Some b \<longrightarrow> sp_blocks pool ! j = Some b)"
    using q i(1) by (auto simp: free_slot_def nth_list_update split: option.splits if_splits)
  have "slots_ok (sp_blocks pool') out (fold apply_event es' (fold apply_event es mem))
    \<and> sp_live pool' = sp_live q \<and> sp_violations pool' = sp_violations q"
    using Cons.prems(2,3) one blocks es'(1) by (intro Cons.IH) auto
  then show ?case using one es'(2) by simp
qed simp

lemma trim_ok:
  assumes ok: "slots_ok (sp_blocks pool) out mem"
    and trim: "trim_empty_blocks pool keep = (n, pool', evs)"
  shows "slots_ok (sp_blocks pool') out (fold apply_event evs mem)
    \<and> sp_live pool' = sp_live pool \<and> sp_violations pool' = sp_violations pool"
proof (rule free_slots_ok [OF ok])
  show "free_slots pool (empty_block_victims pool keep) = (pool', evs)"
    using trim by (auto simp: trim_empty_blocks_def split: prod.splits)
  have v: "i < length (sp_blocks pool) \<and> (\<exists>c. empty_spare c (sp_blocks pool ! i))"
    if "i \<in> set (empty_block_victims pool keep)" for i
    using that by (auto simp: empty_block_victims_def dest!: in_set_dropD)
  then show "\<forall>i \<in> set (empty_block_victims pool keep). i < length (sp_blocks pool)" by blast
  show "\<forall>i \<in> set (empty_block_victims pool keep). \<forall>b. sp_blocks pool ! i = Some b \<longrightarrow> plan_is_empty (mb_plan b)"
    using v by (fastforce simp: empty_spare_def)
qed

lemma free_all: "fold apply_event (map (\<lambda>b. VkFree (mb_memory b)) bs) mem = mem - mb_memory ` set bs"
  by (induction bs arbitrary: mem) auto

lemma destroy_ok:
  assumes ok: "slots_ok (sp_blocks pool) [] mem" and d: "destroy_all pool = (pool', evs)"
  shows "slots_ok (sp_blocks pool') [] (fold apply_event evs mem) \<and> sp_live pool' = Map.empty
    \<and> sp_violations pool' = sp_violations pool \<and> fold apply_event evs mem = {}"
proof -
  let ?bs = "map the (filter (\<lambda>s. s \<noteq> None) (sp_blocks pool))"
  have "memories (sp_blocks pool) \<subseteq> mb_memory ` set ?bs"
    by (force simp: memories_def)
  then have "fold apply_event evs mem = {}"
    using slots_okD(5) [OF ok] d free_all [of ?bs mem] by (auto simp: destroy_all_def)
  moreover have "sp_blocks pool' = []" "sp_live pool' = Map.empty" "sp_violations pool' = sp_violations pool"
    using d by (auto simp: destroy_all_def)
  ultimately show ?thesis by (simp add: slots_ok_def)
qed

section \<open>The invariant holds\<close>

lemma in_remove1: "t \<in> set ts \<Longrightarrow> t \<noteq> u \<Longrightarrow> t \<in> set (remove1 u ts)"
  by (induction ts) auto

lemma live_ok_remove1: "live_ok live out \<Longrightarrow> t \<notin> ran live \<Longrightarrow> live_ok live (remove1 t out)"
  by (auto simp: live_ok_def intro: in_remove1)

lemma live_ok_forget:
  assumes "live_ok live out" "live x = Some t"
  shows "live_ok (live(x := None)) (remove1 t out)"
proof (rule live_ok_remove1)
  show "live_ok (live(x := None)) out" using assms(1) by (auto simp: live_ok_def ran_def split: if_splits)
  show "t \<notin> ran (live(x := None))" using assms by (auto simp: live_ok_def ran_def)
qed

lemma slab_step_inv:
  assumes "slab_step s t" "slab_inv s"
  shows "slab_inv t"
  using assms
proof cases
  case (step_acquire allocation limit mtf ireq r pool evs)
  from acquire_ok [OF _ step_acquire(2,3,4)] assms(2) show ?thesis
    by (auto simp: step_acquire(1) slab_inv_def live_ok_insert split: sum.splits)
next
  case (step_register tok img)
  then show ?thesis using assms(2)
    by (auto simp: slab_inv_def register_image_def live_ok_def ensure_image_unregistered_def
        ran_def split: if_splits)
next
  case (step_release_token tok pool evs)
  from release_range_ok [OF _ step_release_token(2) step_release_token(4) [unfolded release_token_def]] assms(2)
  show ?thesis by (auto simp: step_release_token(1,3) slab_inv_def live_ok_remove1)
next
  case (step_free_image img backed pool evs)
  show ?thesis
  proof (cases "sp_live (ss_pool s) img")
    case None
    then show ?thesis using step_free_image assms(2) by (auto simp: free_image_def slab_inv_def)
  next
    case (Some tok)
    have t: "tok \<in> set (ss_out s)"
      using assms(2) ranI [of "sp_live (ss_pool s)", OF Some] by (auto simp: slab_inv_def live_ok_def)
    let ?p = "(ss_pool s)\<lparr>sp_live := (sp_live (ss_pool s))(img := None)\<rparr>"
    have rel: "release_range ?p (tk_block tok) (tk_offset tok) (tk_size tok) = (pool, evs)"
      using step_free_image(2) Some by (simp add: free_image_def)
    have "live_ok (sp_live ?p) (remove1 tok (ss_out s))"
      using live_ok_forget [of "sp_live (ss_pool s)" "ss_out s" img tok] Some assms(2)
      by (simp add: slab_inv_def)
    with release_range_ok [OF _ t rel] assms(2) show ?thesis by (auto simp: step_free_image(1) slab_inv_def Some)
  qed
next
  case (step_trim keep freed pool evs)
  from trim_ok [OF _ step_trim(2)] assms(2) show ?thesis by (auto simp: step_trim(1) slab_inv_def)
next
  case (step_destroy pool evs)
  with assms(2) have "slots_ok (sp_blocks (ss_pool s)) [] (ss_mem s)" by (simp add: slab_inv_def)
  from destroy_ok [OF this step_destroy(3)] assms(2) show ?thesis
    by (auto simp: step_destroy(1) slab_inv_def live_ok_def)
qed

lemma slab_start_inv: "slab_inv slab_start"
  by (simp add: slab_start_def slab_inv_def slab_pool_new_def slots_ok_def live_ok_def)

lemma slab_reachable_inv: "slab_reachable s \<Longrightarrow> slab_inv s"
  by (induction rule: slab_reachable.induct) (auto intro: slab_start_inv slab_step_inv)

section \<open>What the invariant gives\<close>

lemma toks_disjoint:
  assumes "disjoint_spans (map tok_span (toks k out))" "i < j" "j < length out"
    "unat (tk_block (out ! i)) = k" "unat (tk_block (out ! j)) = k"
  shows "span_bytes (tk_offset (out ! i)) (tk_size (out ! i))
    \<inter> span_bytes (tk_offset (out ! j)) (tk_size (out ! j)) = {}"
  using assms
proof (induction out arbitrary: i j)
  case (Cons t out)
  obtain j' where j: "j = Suc j'" using Cons.prems(2) by (cases j) auto
  show ?case
  proof (cases i)
    case 0
    have "out ! j' \<in> set (toks k out)" using Cons.prems j by (auto simp: set_toks)
    then have "span_bytes (tk_offset (out ! j')) (tk_size (out ! j')) \<subseteq> spans_bytes (map tok_span (toks k out))"
      by (force simp: spans_bytes_def tok_span_def)
    then show ?thesis using Cons.prems 0 j
      by (auto simp: tok_span_def [of t] disjoint_spans_iff simp del: disjoint_spans.simps)
  next
    case (Suc i')
    have "disjoint_spans (map tok_span (toks k out))"
      using Cons.prems(1) by (auto simp: disjoint_spans_iff tok_span_def [of t] simp del: disjoint_spans.simps split: if_splits)
    from Cons.IH [OF this] Cons.prems Suc j show ?thesis by simp
  qed
qed simp

lemma slot_token_inside:
  assumes "slot_ok ts (Some b)" "t \<in> set ts"
  shows "unat (tk_offset t) + unat (tk_size t) \<le> unat (bp_size (mb_plan b))"
proof -
  have ten: "tenants (free_set (mb_plan b)) (unat (bp_size (mb_plan b))) (map tok_span ts)"
    using assms(1) by simp
  have "(tk_offset t, tk_size t) \<in> set (map tok_span ts)" using assms(2) by (force simp: tok_span_def)
  note r = plan.tenants_range [OF ten this]
  have "unat (tk_offset t) + unat (tk_size t) - 1 \<in> {..<unat (bp_size (mb_plan b))}"
    using r(1) by (intro subsetD [OF r(2)]) (auto simp: span_bytes_def)
  with r(1) show ?thesis by simp
qed

lemma inv_no_alias:
  assumes inv: "slab_inv s" and ij: "i < j" "j < length (ss_out s)"
    and m: "tk_memory (ss_out s ! i) = tk_memory (ss_out s ! j)"
  shows "span_bytes (tk_offset (ss_out s ! i)) (tk_size (ss_out s ! i))
    \<inter> span_bytes (tk_offset (ss_out s ! j)) (tk_size (ss_out s ! j)) = {}"
proof -
  let ?bs = "sp_blocks (ss_pool s)" and ?a = "ss_out s ! i" and ?b = "ss_out s ! j"
  have ok: "slots_ok ?bs (ss_out s) (ss_mem s)" using inv by (simp add: slab_inv_def)
  have ab: "?a \<in> set (ss_out s)" "?b \<in> set (ss_out s)" using ij by simp_all
  obtain x where x: "?bs ! unat (tk_block ?a) = Some x" "tk_memory ?a = mb_memory x"
      "slot_ok (toks (unat (tk_block ?a)) (ss_out s)) (Some x)"
    using token_block [OF ok ab(1)] by metis
  obtain y where y: "?bs ! unat (tk_block ?b) = Some y" "tk_memory ?b = mb_memory y"
    using token_block [OF ok ab(2)] by metis
  have "unat (tk_block ?a) = unat (tk_block ?b)"
    using slots_okD(4) [OF ok slots_okD(2) [OF ok ab(1)] slots_okD(2) [OF ok ab(2)] x(1) y(1)] x(2) y(2) m by simp
  then show ?thesis using x(3) ij by (intro toks_disjoint) (simp_all add: tenants_def)
qed


text \<open>C12: The pool never hands the same device memory to two owners. In every state its callers
  can reach, with the driver handing out memory that is not live: any two outstanding tokens have
  different memory or disjoint byte ranges; each token lies inside the block it names, whose memory
  is live and is the token's; every live allocation belongs to a block, so nothing is leaked; no
  block was poisoned; and no free list ever broke.\<close>

theorem slab_no_alias:
  assumes "slab_reachable s"
  shows "(\<forall>i j. i < j \<and> j < length (ss_out s) \<longrightarrow>
        tk_memory (ss_out s ! i) \<noteq> tk_memory (ss_out s ! j)
        \<or> span_bytes (tk_offset (ss_out s ! i)) (tk_size (ss_out s ! i))
            \<inter> span_bytes (tk_offset (ss_out s ! j)) (tk_size (ss_out s ! j)) = {})
    \<and> (\<forall>tok \<in> set (ss_out s). \<exists>b. unat (tk_block tok) < length (sp_blocks (ss_pool s))
          \<and> sp_blocks (ss_pool s) ! unat (tk_block tok) = Some b
          \<and> tk_memory tok = mb_memory b
          \<and> unat (tk_offset tok) + unat (tk_size tok) \<le> unat (bp_size (mb_plan b)))
    \<and> ss_mem s = {mb_memory b | b. Some b \<in> set (sp_blocks (ss_pool s))}
    \<and> (\<forall>b. Some b \<in> set (sp_blocks (ss_pool s)) \<longrightarrow> \<not> mb_poisoned b)
    \<and> sp_violations (ss_pool s) = 0"
proof -
  let ?bs = "sp_blocks (ss_pool s)"
  have inv: "slab_inv s" using assms by (rule slab_reachable_inv)
  then have ok: "slots_ok ?bs (ss_out s) (ss_mem s)" by (simp add: slab_inv_def)
  have apart: "tk_memory (ss_out s ! i) \<noteq> tk_memory (ss_out s ! j)
        \<or> span_bytes (tk_offset (ss_out s ! i)) (tk_size (ss_out s ! i))
            \<inter> span_bytes (tk_offset (ss_out s ! j)) (tk_size (ss_out s ! j)) = {}"
    if "i < j \<and> j < length (ss_out s)" for i j
    using inv_no_alias [OF inv] that by blast
  have inside: "\<exists>b. unat (tk_block tok) < length ?bs \<and> ?bs ! unat (tk_block tok) = Some b
      \<and> tk_memory tok = mb_memory b \<and> unat (tk_offset tok) + unat (tk_size tok) \<le> unat (bp_size (mb_plan b))"
    if t: "tok \<in> set (ss_out s)" for tok
    using token_block [OF ok t] slots_okD(2) [OF ok t] slot_token_inside by metis
  have "memories ?bs \<subseteq> ss_mem s"
    using slots_okD(3) [OF ok] by (auto simp: memories_def in_set_conv_nth)
  then have mem: "ss_mem s = {mb_memory b | b. Some b \<in> set ?bs}"
    using slots_okD(5) [OF ok] unfolding memories_def by (rule equalityI [rotated])
  have clean: "\<not> mb_poisoned b" if "Some b \<in> set ?bs" for b
  proof -
    from that obtain i where i: "i < length ?bs" "?bs ! i = Some b" by (auto simp: in_set_conv_nth)
    show ?thesis using slots_okD(1) [OF ok i(1)] i(2) by simp
  qed
  show ?thesis using apart inside mem clean inv by (simp add: slab_inv_def)
qed

section \<open>Trimming\<close>

lemma free_slot_blocks:
  "i < length (sp_blocks pool) \<Longrightarrow> sp_blocks (fst (free_slot pool i)) = (sp_blocks pool)[i := None]"
  using list_update_id [of "sp_blocks pool" i] by (cases "sp_blocks pool ! i") (simp_all add: free_slot_def)

lemma free_slots_blocks:
  "\<forall>i \<in> set is. i < length (sp_blocks pool) \<Longrightarrow>
     length (sp_blocks (fst (free_slots pool is))) = length (sp_blocks pool)
     \<and> (\<forall>j < length (sp_blocks pool). sp_blocks (fst (free_slots pool is)) ! j
          = (if j \<in> set is then None else sp_blocks pool ! j))"
proof (induction "is" arbitrary: pool)
  case (Cons i "is")
  let ?q = "fst (free_slot pool i)"
  have q: "sp_blocks ?q = (sp_blocks pool)[i := None]" using Cons.prems by (simp add: free_slot_blocks)
  have "fst (free_slots pool (i # is)) = fst (free_slots ?q is)"
    by (simp add: case_prod_unfold)
  with Cons.IH [of ?q] q Cons.prems show ?case by (auto simp: nth_list_update)
qed simp

lemma length_filter_upt: "length (filter P xs) = length (filter (\<lambda>i. P (xs ! i)) [0..<length xs])"
  by (subst (1) map_nth [symmetric]) (simp only: filter_map length_map o_def)

lemma trim_keeps:
  "empty_spares (fst (snd (trim_empty_blocks pool keep))) cls = min keep (empty_spares pool cls)"
proof -
  let ?bs = "sp_blocks pool" and ?v = "empty_block_victims pool keep"
  let ?idx = "\<lambda>c. filter (\<lambda>i. empty_spare c (?bs ! i)) [0..<length ?bs]"
  let ?q = "fst (free_slots pool ?v)"
  have v: "set ?v = set (drop keep (?idx True)) \<union> set (drop keep (?idx False))"
    by (simp add: empty_block_victims_def)
  then have "\<forall>i \<in> set ?v. i < length ?bs" by (auto dest!: in_set_dropD)
  note q = free_slots_blocks [OF this]
  have cls: "i \<in> set ?v \<longleftrightarrow> i \<in> set (drop keep (?idx cls))" if "i \<in> set (?idx cls)" for i
  proof -
    have "i \<notin> set (?idx (\<not> cls))" using that by (auto simp: empty_spare_def split: option.splits)
    then have "i \<notin> set (drop keep (?idx (\<not> cls)))" by (meson in_set_dropD)
    then show ?thesis unfolding v by (cases cls) auto
  qed
  have "filter (\<lambda>i. empty_spare cls (sp_blocks ?q ! i)) [0..<length ?bs]
      = filter (\<lambda>i. i \<notin> set ?v) (?idx cls)"
    unfolding filter_filter by (rule filter_cong) (auto simp: q empty_spare_def)
  also have "\<dots> = filter (\<lambda>i. i \<notin> set (drop keep (?idx cls))) (take keep (?idx cls) @ drop keep (?idx cls))"
    using cls by (auto intro: filter_cong)
  also have "\<dots> = take keep (?idx cls)"
  proof -
    have "set (take keep (?idx cls)) \<inter> set (drop keep (?idx cls)) = {}"
      by (rule set_take_disj_set_drop_if_distinct) simp_all
    then show ?thesis
      unfolding filter_append by (auto simp: filter_id_conv filter_empty_conv)
  qed
  finally have "filter (\<lambda>i. empty_spare cls (sp_blocks ?q ! i)) [0..<length ?bs] = take keep (?idx cls)" .
  then show ?thesis
    using q by (simp add: trim_empty_blocks_def case_prod_unfold empty_spares_def
        length_filter_upt [of _ "sp_blocks ?q"] length_filter_upt [of _ ?bs] min.commute)
qed

text \<open>A trim leaves each size class with at most \<open>keep\<close> empty spare blocks: it frees
  everything above the floor and nothing below it.\<close>

theorem trim_keeps_floor:
  "trim_empty_blocks pool keep = (freed, pool', evs) \<Longrightarrow>
     empty_spares pool' cls = min keep (empty_spares pool cls)"
  using trim_keeps [of pool keep cls] by simp


section \<open>An example run\<close>

text \<open>Two images of one class acquired from one new block, the second registered.\<close>

definition example_req :: "u64 \<Rightarrow> memory_requirements" where
  "example_req n = \<lparr>rq_size = n, rq_alignment = 0x400, rq_type_bits = 3\<rparr>"

definition example_pool :: slab_pool where
  "example_pool = fst (snd (acquire slab_pool_new 0x400 (\<lambda>_ _. Some 1) (Inr 7) (example_req 0x1000)))"

definition example_tok :: "u64 \<Rightarrow> slab_token" where
  "example_tok off = \<lparr>tk_block = 0, tk_offset = off, tk_size = 0x1000, tk_memory = 7\<rparr>"

lemma example_acquire:
  "acquire slab_pool_new 0x400 (\<lambda>_ _. Some 1) (Inr 7) (example_req 0x1000)
     = (Inr (example_tok 0), example_pool, [VkAllocate 7 SMALL_SLAB_SIZE])"
  by (simp add: example_pool_def acquire_def slab_pool_new_def example_req_def example_tok_def new_block_def
      carve_def carve_ranges.simps plan_new_def align_up_def checked_add_def checked_sub_def insert_block_def
      SLAB_SIZE_def SMALL_CLASS_MAX_def SMALL_SLAB_SIZE_def push_bit_eq_mult max_def word_le_nat_alt Let_def)

lemma example_pool_simps: "sp_blocks example_pool =
    [Some \<lparr>mb_memory = 7, mb_plan = \<lparr>bp_size = 0x800000, bp_free = [\<lparr>fr_start = 0x1000, fr_len = 0x7ff000\<rparr>]\<rparr>,
           mb_type = 1, mb_dedicated = False, mb_small = True, mb_poisoned = False\<rparr>]"
  "sp_live example_pool = Map.empty" "sp_granularity example_pool = 0x400"
  by (simp_all add: example_pool_def acquire_def slab_pool_new_def example_req_def new_block_def
      carve_def carve_ranges.simps plan_new_def align_up_def checked_add_def checked_sub_def insert_block_def
      SLAB_SIZE_def SMALL_CLASS_MAX_def SMALL_SLAB_SIZE_def push_bit_eq_mult max_def word_le_nat_alt Let_def)

lemma example_second:
  "fst (acquire example_pool 0x400 (\<lambda>_ _. Some 1) (Inr 8) (example_req 0x1000)) = Inr (example_tok 0x1000)
   \<and> snd (snd (acquire example_pool 0x400 (\<lambda>_ _. Some 1) (Inr 8) (example_req 0x1000))) = []"
  by (simp add: acquire_def example_req_def example_tok_def example_pool_simps check_block_def well_formed_def
      carve_def carve_ranges.simps align_up_def checked_add_def checked_sub_def
      SLAB_SIZE_def SMALL_CLASS_MAX_def push_bit_eq_mult max_def word_le_nat_alt Let_def)

definition example_state :: slab_state where
  "example_state = \<lparr>ss_pool = fst (snd (acquire example_pool 0x400 (\<lambda>_ _. Some 1) (Inr 8) (example_req 0x1000))),
     ss_out = [example_tok 0x1000, example_tok 0], ss_mem = {7}\<rparr>"

lemma example_reachable: "slab_reachable example_state"
proof -
  have start_pool: "ss_pool slab_start = slab_pool_new" by (simp add: slab_start_def)
  let ?s = "\<lparr>ss_pool = example_pool, ss_out = [example_tok 0], ss_mem = {7}\<rparr>"
  have "slab_step slab_start ?s"
    using step_acquire [of slab_start "Inr 7", OF _ _ example_acquire [folded start_pool]]
    by (simp add: slab_start_def slab_pool_new_def)
  then have s: "slab_reachable ?s" by (rule reach_step [OF reach_start])
  obtain r p e where a: "acquire example_pool 0x400 (\<lambda>_ _. Some 1) (Inr 8) (example_req 0x1000) = (r, p, e)"
    by (metis prod.collapse)
  with example_second have r: "r = Inr (example_tok 0x1000)" "e = []" by simp_all
  have "slab_step ?s example_state"
    using step_acquire [of ?s "Inr 8" "0x400" "\<lambda>_ _. Some 1" "example_req 0x1000" r p e] a r
    by (simp add: example_state_def example_pool_simps)
  then show ?thesis by (rule reach_step [OF s])
qed

theorem slab_no_alias_witness:
  "span_bytes 0x1000 0x1000 \<inter> span_bytes 0 0x1000 = {} \<and> sp_violations (ss_pool example_state) = 0"
proof -
  note a = slab_no_alias [OF example_reachable]
  have "0 < (1::nat) \<and> 1 < length (ss_out example_state)" by (simp add: example_state_def)
  with a have "tk_memory (ss_out example_state ! 0) \<noteq> tk_memory (ss_out example_state ! 1)
      \<or> span_bytes (tk_offset (ss_out example_state ! 0)) (tk_size (ss_out example_state ! 0))
          \<inter> span_bytes (tk_offset (ss_out example_state ! 1)) (tk_size (ss_out example_state ! 1)) = {}"
    by blast
  with a show ?thesis by (simp add: example_state_def example_tok_def)
qed

definition example_spares :: slab_pool where
  "example_spares = slab_pool_new\<lparr>sp_blocks := [
     Some \<lparr>mb_memory = 1, mb_plan = plan_new 64, mb_type = 0, mb_dedicated = False, mb_small = True, mb_poisoned = False\<rparr>,
     Some \<lparr>mb_memory = 2, mb_plan = plan_new 64, mb_type = 0, mb_dedicated = False, mb_small = True, mb_poisoned = False\<rparr>]\<rparr>"

theorem trim_keeps_floor_witness:
  "empty_spares (fst (snd (trim_empty_blocks example_spares 1))) True = 1"
proof -
  obtain n q e where t: "trim_empty_blocks example_spares 1 = (n, q, e)" by (metis prod.collapse)
  have "empty_spares example_spares True = 2"
    by (simp add: empty_spares_def example_spares_def empty_spare_def plan_is_empty_def plan_new_def)
  with trim_keeps_floor [OF t, of True] t show ?thesis by simp
qed

end
