(* ===== verification/PixelTables.thy ===== *)
theory PixelTables
  imports Machine
begin

text \<open>
  The pixel-format tables of crates/reims-vgpu/src/contract/pixel_format.rs: the Metal format
  numbers, the texel widths, the depth-stencil packing, the classes the rails admit and the
  channel swizzles. A format is a \<open>u16\<close>; a Rust \<open>match\<close> on format constants is a chain of
  membership tests. \<open>Option\<close> is \<open>option\<close>.
\<close>

named_theorems format_defs \<open>the format numbers and texel widths\<close>

section \<open>Texel widths\<close>

definition R8_BPP :: u32 where "R8_BPP = 1"
definition RG8_BPP :: u32 where "RG8_BPP = 2"
definition RGBA8_BPP :: u32 where "RGBA8_BPP = 4"
definition BGRA8_BPP :: u32 where "BGRA8_BPP = RGBA8_BPP"
definition R16F_BPP :: u32 where "R16F_BPP = 2"
definition R16_BPP :: u32 where "R16_BPP = 2"
definition RG16_BPP :: u32 where "RG16_BPP = 4"
definition R32F_BPP :: u32 where "R32F_BPP = 4"
definition RG16F_BPP :: u32 where "RG16F_BPP = 4"
definition RGBA16_BPP :: u32 where "RGBA16_BPP = 8"
definition RGBA16F_BPP :: u32 where "RGBA16F_BPP = RGBA16_BPP"
definition RGBA32_BPP :: u32 where "RGBA32_BPP = 16"
definition RGBA32F_BPP :: u32 where "RGBA32F_BPP = RGBA32_BPP"
definition R32_BPP :: u32 where "R32_BPP = 4"

section \<open>Format numbers\<close>

definition MTL_FORMAT_A8_UNORM :: u16 where "MTL_FORMAT_A8_UNORM = 0x01"
definition MTL_FORMAT_R8_UNORM :: u16 where "MTL_FORMAT_R8_UNORM = 0x0a"
definition MTL_FORMAT_R8_UINT :: u16 where "MTL_FORMAT_R8_UINT = 0x0d"
definition MTL_FORMAT_R16_UNORM :: u16 where "MTL_FORMAT_R16_UNORM = 0x14"
definition MTL_FORMAT_R16_FLOAT :: u16 where "MTL_FORMAT_R16_FLOAT = 0x19"
definition MTL_FORMAT_RG8_UNORM :: u16 where "MTL_FORMAT_RG8_UNORM = 0x1e"
definition MTL_FORMAT_RG8_UINT :: u16 where "MTL_FORMAT_RG8_UINT = 0x21"
definition MTL_FORMAT_RG16_UNORM :: u16 where "MTL_FORMAT_RG16_UNORM = 0x3c"
definition MTL_FORMAT_R32_UINT :: u16 where "MTL_FORMAT_R32_UINT = 0x35"
definition MTL_FORMAT_R32_SINT :: u16 where "MTL_FORMAT_R32_SINT = 0x36"
definition MTL_FORMAT_R32_FLOAT :: u16 where "MTL_FORMAT_R32_FLOAT = 0x37"
definition MTL_FORMAT_RG16_FLOAT :: u16 where "MTL_FORMAT_RG16_FLOAT = 0x41"
definition MTL_FORMAT_RGBA8_UNORM :: u16 where "MTL_FORMAT_RGBA8_UNORM = 0x46"
definition MTL_FORMAT_RGBA8_UNORM_SRGB :: u16 where "MTL_FORMAT_RGBA8_UNORM_SRGB = 0x47"
definition MTL_FORMAT_RGBA8_UINT :: u16 where "MTL_FORMAT_RGBA8_UINT = 0x49"
definition MTL_FORMAT_RGBA8_SINT :: u16 where "MTL_FORMAT_RGBA8_SINT = 0x4a"
definition MTL_FORMAT_BGRA8_UNORM :: u16 where "MTL_FORMAT_BGRA8_UNORM = 0x50"
definition MTL_FORMAT_BGRA8_UNORM_SRGB :: u16 where "MTL_FORMAT_BGRA8_UNORM_SRGB = 0x51"
definition MTL_FORMAT_RGB9E5_FLOAT :: u16 where "MTL_FORMAT_RGB9E5_FLOAT = 0x5d"
definition MTL_FORMAT_RGBA16_UNORM :: u16 where "MTL_FORMAT_RGBA16_UNORM = 0x6e"
definition MTL_FORMAT_RGBA16_UINT :: u16 where "MTL_FORMAT_RGBA16_UINT = 0x71"
definition MTL_FORMAT_RGBA16_FLOAT :: u16 where "MTL_FORMAT_RGBA16_FLOAT = 0x73"
definition MTL_FORMAT_RGBA32_UINT :: u16 where "MTL_FORMAT_RGBA32_UINT = 0x7b"
definition MTL_FORMAT_RGBA32_FLOAT :: u16 where "MTL_FORMAT_RGBA32_FLOAT = 0x7d"
definition MTL_FORMAT_DEPTH16_UNORM :: u16 where "MTL_FORMAT_DEPTH16_UNORM = 250"
definition MTL_FORMAT_DEPTH32_FLOAT :: u16 where "MTL_FORMAT_DEPTH32_FLOAT = 252"
definition MTL_FORMAT_STENCIL8 :: u16 where "MTL_FORMAT_STENCIL8 = 253"
definition MTL_FORMAT_DEPTH24_UNORM_STENCIL8 :: u16 where "MTL_FORMAT_DEPTH24_UNORM_STENCIL8 = 255"
definition MTL_FORMAT_DEPTH32_FLOAT_STENCIL8 :: u16 where "MTL_FORMAT_DEPTH32_FLOAT_STENCIL8 = 260"
definition MTL_FORMAT_X32_STENCIL8 :: u16 where "MTL_FORMAT_X32_STENCIL8 = 261"
definition MTL_FORMAT_X24_STENCIL8 :: u16 where "MTL_FORMAT_X24_STENCIL8 = 262"

lemmas width_defs [format_defs] =
  R8_BPP_def RG8_BPP_def RGBA8_BPP_def BGRA8_BPP_def R16F_BPP_def R16_BPP_def RG16_BPP_def
  R32F_BPP_def RG16F_BPP_def RGBA16_BPP_def RGBA16F_BPP_def RGBA32_BPP_def RGBA32F_BPP_def
  R32_BPP_def

lemmas number_defs [format_defs] =
  MTL_FORMAT_A8_UNORM_def MTL_FORMAT_R8_UNORM_def MTL_FORMAT_R8_UINT_def
  MTL_FORMAT_R16_UNORM_def MTL_FORMAT_R16_FLOAT_def MTL_FORMAT_RG8_UNORM_def
  MTL_FORMAT_RG8_UINT_def MTL_FORMAT_RG16_UNORM_def MTL_FORMAT_R32_UINT_def
  MTL_FORMAT_R32_SINT_def MTL_FORMAT_R32_FLOAT_def MTL_FORMAT_RG16_FLOAT_def
  MTL_FORMAT_RGBA8_UNORM_def MTL_FORMAT_RGBA8_UNORM_SRGB_def MTL_FORMAT_RGBA8_UINT_def
  MTL_FORMAT_RGBA8_SINT_def MTL_FORMAT_BGRA8_UNORM_def MTL_FORMAT_BGRA8_UNORM_SRGB_def
  MTL_FORMAT_RGB9E5_FLOAT_def MTL_FORMAT_RGBA16_UNORM_def MTL_FORMAT_RGBA16_UINT_def
  MTL_FORMAT_RGBA16_FLOAT_def MTL_FORMAT_RGBA32_UINT_def MTL_FORMAT_RGBA32_FLOAT_def
  MTL_FORMAT_DEPTH16_UNORM_def MTL_FORMAT_DEPTH32_FLOAT_def MTL_FORMAT_STENCIL8_def
  MTL_FORMAT_DEPTH24_UNORM_STENCIL8_def MTL_FORMAT_DEPTH32_FLOAT_STENCIL8_def
  MTL_FORMAT_X32_STENCIL8_def MTL_FORMAT_X24_STENCIL8_def

section \<open>The width table\<close>

definition bytes_per_pixel :: "u16 \<Rightarrow> u32 option" where
  "bytes_per_pixel format =
     (if format \<in> {MTL_FORMAT_A8_UNORM, MTL_FORMAT_R8_UNORM, MTL_FORMAT_R8_UINT, MTL_FORMAT_STENCIL8}
      then Some R8_BPP
      else if format \<in> {MTL_FORMAT_R16_FLOAT, MTL_FORMAT_RG8_UNORM, MTL_FORMAT_RG8_UINT,
                        MTL_FORMAT_DEPTH16_UNORM}
      then Some RG8_BPP
      else if format = MTL_FORMAT_R16_UNORM then Some R16_BPP
      else if format = MTL_FORMAT_RG16_UNORM then Some RG16_BPP
      else if format = MTL_FORMAT_RG16_FLOAT then Some RG16F_BPP
      else if format \<in> {MTL_FORMAT_RGBA8_UNORM, MTL_FORMAT_RGBA8_UNORM_SRGB, MTL_FORMAT_RGBA8_UINT,
                        MTL_FORMAT_RGBA8_SINT, MTL_FORMAT_BGRA8_UNORM, MTL_FORMAT_BGRA8_UNORM_SRGB,
                        MTL_FORMAT_R32_UINT, MTL_FORMAT_R32_SINT, MTL_FORMAT_R32_FLOAT,
                        MTL_FORMAT_RGB9E5_FLOAT, MTL_FORMAT_DEPTH32_FLOAT,
                        MTL_FORMAT_DEPTH24_UNORM_STENCIL8, MTL_FORMAT_X24_STENCIL8}
      then Some RGBA8_BPP
      else if format \<in> {MTL_FORMAT_DEPTH32_FLOAT_STENCIL8, MTL_FORMAT_X32_STENCIL8} then Some 8
      else if format \<in> {MTL_FORMAT_RGBA16_UNORM, MTL_FORMAT_RGBA16_UINT, MTL_FORMAT_RGBA16_FLOAT}
      then Some RGBA16_BPP
      else if format \<in> {MTL_FORMAT_RGBA32_UINT, MTL_FORMAT_RGBA32_FLOAT} then Some RGBA32_BPP
      else None)"

definition tight_row_bytes :: "u32 \<Rightarrow> u16 \<Rightarrow> u32 option" where
  "tight_row_bytes width format =
     (if width = 0 then None
      else case bytes_per_pixel format of None \<Rightarrow> None | Some bpp \<Rightarrow> checked_mul width bpp)"

section \<open>Depth and stencil\<close>

definition format_has_depth_aspect :: "u16 \<Rightarrow> bool" where
  "format_has_depth_aspect format \<longleftrightarrow>
     format \<in> {MTL_FORMAT_DEPTH16_UNORM, MTL_FORMAT_DEPTH32_FLOAT, MTL_FORMAT_DEPTH24_UNORM_STENCIL8,
               MTL_FORMAT_DEPTH32_FLOAT_STENCIL8}"

definition format_has_stencil_aspect :: "u16 \<Rightarrow> bool" where
  "format_has_stencil_aspect format \<longleftrightarrow>
     format \<in> {MTL_FORMAT_STENCIL8, MTL_FORMAT_DEPTH24_UNORM_STENCIL8,
               MTL_FORMAT_DEPTH32_FLOAT_STENCIL8, MTL_FORMAT_X32_STENCIL8, MTL_FORMAT_X24_STENCIL8}"

datatype depth_field_layout = DflNone | DflFloat32 | DflUnorm24High

record depth_stencil_packing =
  full_bpp :: u32
  depth_offset :: u32
  depth_plane_bpp :: u32
  stencil_offset :: u32
  stencil_plane_bpp :: u32
  depth_layout :: depth_field_layout

definition depth_stencil_packing_of :: "u16 \<Rightarrow> depth_stencil_packing option" where
  "depth_stencil_packing_of format =
     (if format = MTL_FORMAT_DEPTH32_FLOAT_STENCIL8
      then Some \<lparr>full_bpp = 8, depth_offset = 0, depth_plane_bpp = 4, stencil_offset = 4,
                 stencil_plane_bpp = 1, depth_layout = DflFloat32\<rparr>
      else if format = MTL_FORMAT_DEPTH24_UNORM_STENCIL8
      then Some \<lparr>full_bpp = 4, depth_offset = 0, depth_plane_bpp = 4, stencil_offset = 0,
                 stencil_plane_bpp = 1, depth_layout = DflUnorm24High\<rparr>
      else if format = MTL_FORMAT_X32_STENCIL8
      then Some \<lparr>full_bpp = 8, depth_offset = 0, depth_plane_bpp = 0, stencil_offset = 4,
                 stencil_plane_bpp = 1, depth_layout = DflNone\<rparr>
      else if format = MTL_FORMAT_X24_STENCIL8
      then Some \<lparr>full_bpp = 4, depth_offset = 0, depth_plane_bpp = 0, stencil_offset = 0,
                 stencil_plane_bpp = 1, depth_layout = DflNone\<rparr>
      else None)"

datatype blit_aspect = AspectFull | AspectDepth | AspectStencil

definition blit_aspect_bytes_per_pixel :: "u16 \<Rightarrow> blit_aspect \<Rightarrow> u32 option" where
  "blit_aspect_bytes_per_pixel format aspect =
     (case aspect of
        AspectDepth \<Rightarrow>
          if \<not> format_has_depth_aspect format then None
          else (case depth_stencil_packing_of format of
                  Some p \<Rightarrow> if depth_plane_bpp p \<noteq> 0 then Some (depth_plane_bpp p) else None
                | None \<Rightarrow> if format = MTL_FORMAT_DEPTH16_UNORM then Some 2
                          else if format = MTL_FORMAT_DEPTH32_FLOAT then Some 4
                          else None)
      | AspectStencil \<Rightarrow>
          if \<not> format_has_stencil_aspect format then None
          else (case depth_stencil_packing_of format of
                  Some p \<Rightarrow> Some (stencil_plane_bpp p)
                | None \<Rightarrow> Some 1)
      | AspectFull \<Rightarrow> bytes_per_pixel format)"

definition blit_aspect_needs_repack :: "u16 \<Rightarrow> blit_aspect \<Rightarrow> bool" where
  "blit_aspect_needs_repack format aspect \<longleftrightarrow>
     aspect \<noteq> AspectFull \<and> depth_stencil_packing_of format \<noteq> None"

section \<open>Texel layouts and classes\<close>

datatype texel_layout =
  Rgba8 | Bgra8 | R8 | Rg8 | R16Float | R32Float | R16Unorm | Rg16Unorm | Rgba16Float | Rg16Float
| Rgba16Unorm

definition layout_ALL :: "texel_layout list" where
  "layout_ALL = [Rgba8, Bgra8, R8, Rg8, R16Float, R32Float, R16Unorm, Rg16Unorm, Rgba16Float,
                 Rg16Float, Rgba16Unorm]"

primrec layout_index :: "texel_layout \<Rightarrow> nat" where
  "layout_index Rgba8 = 0"
| "layout_index Bgra8 = 1"
| "layout_index R8 = 2"
| "layout_index Rg8 = 3"
| "layout_index R16Float = 4"
| "layout_index R32Float = 5"
| "layout_index R16Unorm = 6"
| "layout_index Rg16Unorm = 7"
| "layout_index Rgba16Float = 8"
| "layout_index Rg16Float = 9"
| "layout_index Rgba16Unorm = 10"

primrec bytes_per_texel :: "texel_layout \<Rightarrow> u32" where
  "bytes_per_texel Rgba8 = RGBA8_BPP"
| "bytes_per_texel Bgra8 = RGBA8_BPP"
| "bytes_per_texel R8 = R8_BPP"
| "bytes_per_texel Rg8 = RG8_BPP"
| "bytes_per_texel R16Float = R16F_BPP"
| "bytes_per_texel R32Float = R32F_BPP"
| "bytes_per_texel R16Unorm = R16_BPP"
| "bytes_per_texel Rg16Unorm = RG16_BPP"
| "bytes_per_texel Rgba16Float = RGBA16F_BPP"
| "bytes_per_texel Rg16Float = RG16F_BPP"
| "bytes_per_texel Rgba16Unorm = RGBA16_BPP"

definition is_four_byte_color :: "texel_layout \<Rightarrow> bool" where
  "is_four_byte_color layout \<longleftrightarrow> layout \<in> {Rgba8, Bgra8}"

primrec has_cpu_loader_arm :: "texel_layout \<Rightarrow> bool" where
  "has_cpu_loader_arm Rgba8 = True"
| "has_cpu_loader_arm Bgra8 = True"
| "has_cpu_loader_arm R8 = True"
| "has_cpu_loader_arm Rg8 = True"
| "has_cpu_loader_arm Rgba16Float = True"
| "has_cpu_loader_arm Rg16Float = True"
| "has_cpu_loader_arm R16Float = False"
| "has_cpu_loader_arm R32Float = False"
| "has_cpu_loader_arm R16Unorm = False"
| "has_cpu_loader_arm Rg16Unorm = False"
| "has_cpu_loader_arm Rgba16Unorm = False"

datatype sampled_class =
  ClassA8Unorm | ClassR8Unorm | ClassRg8Unorm | ClassRgba8Unorm | ClassBgra8Unorm | ClassRgba16Float

definition sampled_class_of :: "u16 \<Rightarrow> sampled_class option" where
  "sampled_class_of format =
     (if format = MTL_FORMAT_A8_UNORM then Some ClassA8Unorm
      else if format = MTL_FORMAT_R8_UNORM then Some ClassR8Unorm
      else if format = MTL_FORMAT_RG8_UNORM then Some ClassRg8Unorm
      else if format \<in> {MTL_FORMAT_RGBA8_UNORM, MTL_FORMAT_RGBA8_UNORM_SRGB} then Some ClassRgba8Unorm
      else if format \<in> {MTL_FORMAT_BGRA8_UNORM, MTL_FORMAT_BGRA8_UNORM_SRGB} then Some ClassBgra8Unorm
      else if format = MTL_FORMAT_RGBA16_FLOAT then Some ClassRgba16Float
      else None)"

datatype storage_image_selector =
  SelRgba8Uint | SelRgba8Sint | SelRgba16Uint | SelRgba16Float | SelRgba32Float | SelRgba8Unorm
| SelBgra8Unorm | SelR16Float | SelRg16Float | SelR8Unorm | SelRg8Unorm | SelRgba32Uint | SelR32Uint

definition storage_selector :: "u16 \<Rightarrow> storage_image_selector option" where
  "storage_selector format =
     (if format = MTL_FORMAT_R8_UNORM then Some SelR8Unorm
      else if format = MTL_FORMAT_R32_UINT then Some SelR32Uint
      else if format = MTL_FORMAT_RG8_UNORM then Some SelRg8Unorm
      else if format = MTL_FORMAT_R16_FLOAT then Some SelR16Float
      else if format = MTL_FORMAT_RG16_FLOAT then Some SelRg16Float
      else if format = MTL_FORMAT_RGBA8_UNORM then Some SelRgba8Unorm
      else if format = MTL_FORMAT_BGRA8_UNORM then Some SelBgra8Unorm
      else if format = MTL_FORMAT_RGBA8_UINT then Some SelRgba8Uint
      else if format = MTL_FORMAT_RGBA8_SINT then Some SelRgba8Sint
      else if format = MTL_FORMAT_RGBA16_UINT then Some SelRgba16Uint
      else if format = MTL_FORMAT_RGBA16_FLOAT then Some SelRgba16Float
      else if format = MTL_FORMAT_RGBA32_UINT then Some SelRgba32Uint
      else if format = MTL_FORMAT_RGBA32_FLOAT then Some SelRgba32Float
      else None)"

definition is_srgb :: "u16 \<Rightarrow> bool" where
  "is_srgb format \<longleftrightarrow> format \<in> {MTL_FORMAT_RGBA8_UNORM_SRGB, MTL_FORMAT_BGRA8_UNORM_SRGB}"

definition render_target_bpp :: "u16 \<Rightarrow> u32 option" where
  "render_target_bpp format =
     (if format \<in> {MTL_FORMAT_RGBA8_UNORM, MTL_FORMAT_RGBA8_UNORM_SRGB} then Some RGBA8_BPP
      else if format \<in> {MTL_FORMAT_BGRA8_UNORM, MTL_FORMAT_BGRA8_UNORM_SRGB} then Some BGRA8_BPP
      else if format = MTL_FORMAT_RGBA16_FLOAT then Some RGBA16F_BPP
      else if format = MTL_FORMAT_RG16_FLOAT then Some RG16F_BPP
      else if format = MTL_FORMAT_R16_FLOAT then Some R16F_BPP
      else if format = MTL_FORMAT_R8_UNORM then Some R8_BPP
      else None)"

definition store_texel_order :: "u16 \<Rightarrow> texel_layout option" where
  "store_texel_order format =
     (if format \<in> {MTL_FORMAT_RGBA8_UNORM, MTL_FORMAT_RGBA8_UNORM_SRGB} then Some Rgba8
      else if format \<in> {MTL_FORMAT_BGRA8_UNORM, MTL_FORMAT_BGRA8_UNORM_SRGB} then Some Bgra8
      else if format = MTL_FORMAT_RGBA16_FLOAT then Some Rgba16Float
      else None)"

section \<open>Swizzles\<close>

datatype swizzle_source = SwZero | SwOne | SwR | SwG | SwB | SwA

text \<open>A fixed array of four is a 4-tuple.\<close>

type_synonym 'a four = "'a \<times> 'a \<times> 'a \<times> 'a"

type_synonym swizzle_plan = "swizzle_source four"

fun map4 :: "('a \<Rightarrow> 'b) \<Rightarrow> 'a four \<Rightarrow> 'b four" where
  "map4 f (r, g, b, a) = (f r, f g, f b, f a)"

definition UNORM8_MIN :: u8 where "UNORM8_MIN = 0x00"
definition UNORM8_MAX :: u8 where "UNORM8_MAX = 0xff"

fun pick_source :: "'a \<Rightarrow> 'a \<Rightarrow> 'a four \<Rightarrow> swizzle_source \<Rightarrow> 'a" where
  "pick_source z one (r, g, b, a) SwZero = z"
| "pick_source z one (r, g, b, a) SwOne = one"
| "pick_source z one (r, g, b, a) SwR = r"
| "pick_source z one (r, g, b, a) SwG = g"
| "pick_source z one (r, g, b, a) SwB = b"
| "pick_source z one (r, g, b, a) SwA = a"

definition swizzle_after :: "swizzle_plan \<Rightarrow> swizzle_plan \<Rightarrow> swizzle_plan" where
  "swizzle_after plan inner = map4 (pick_source SwZero SwOne inner) plan"

definition swizzle_identity :: swizzle_plan where
  "swizzle_identity = (SwR, SwG, SwB, SwA)"

definition swizzle_selector_source :: "u8 \<Rightarrow> swizzle_source option" where
  "swizzle_selector_source selector =
     (if selector = 0 then Some SwZero
      else if selector = 1 then Some SwOne
      else if selector = 2 then Some SwR
      else if selector = 3 then Some SwG
      else if selector = 4 then Some SwB
      else if selector = 5 then Some SwA
      else None)"

fun swizzle_plan_of :: "u8 four \<Rightarrow> swizzle_plan option" where
  "swizzle_plan_of (r, g, b, a) =
     Option.bind (swizzle_selector_source r) (\<lambda>r.
     Option.bind (swizzle_selector_source g) (\<lambda>g.
     Option.bind (swizzle_selector_source b) (\<lambda>b.
     Option.bind (swizzle_selector_source a) (\<lambda>a. Some (r, g, b, a)))))"

definition swizzle_is_identity :: "swizzle_plan \<Rightarrow> bool" where
  "swizzle_is_identity plan \<longleftrightarrow> plan = (SwR, SwG, SwB, SwA)"

definition apply_swizzle_rgba8 :: "swizzle_plan \<Rightarrow> u8 four \<Rightarrow> u8 four" where
  "apply_swizzle_rgba8 plan in_rgba = map4 (pick_source UNORM8_MIN UNORM8_MAX in_rgba) plan"

section \<open>The algebra of swizzles\<close>

lemma pick_map4:
  "pick_source z one (map4 (pick_source z one x) v) = (\<lambda>s. pick_source z one x (pick_source SwZero SwOne v s))"
proof
  fix s
  obtain a b c d where "v = (a, b, c, d)" by (cases v)
  then show "pick_source z one (map4 (pick_source z one x) v) s = pick_source z one x (pick_source SwZero SwOne v s)"
    by (cases x; cases s) auto
qed

lemma pick_unit: "pick_source SwZero SwOne (SwR, SwG, SwB, SwA) s = s"
  by (cases s) auto

lemma map4_map4: "map4 f (map4 g x) = map4 (\<lambda>s. f (g s)) x"
  by (cases x) auto

lemma map4_id: "(\<And>s. f s = s) \<Longrightarrow> map4 f x = x"
  by (cases x) auto

text \<open>Two swizzles fold into one: applying \<open>view.after(inner)\<close> to a texel is applying \<open>inner\<close>
  and then \<open>view\<close>, the fold is associative, and the identity plan is its unit on both sides.\<close>

theorem swizzle_after_composes:
  "apply_swizzle_rgba8 (swizzle_after view inner) rgba = apply_swizzle_rgba8 view (apply_swizzle_rgba8 inner rgba)
   \<and> swizzle_after (swizzle_after view inner) first = swizzle_after view (swizzle_after inner first)
   \<and> swizzle_after swizzle_identity inner = inner \<and> swizzle_after inner swizzle_identity = inner
   \<and> apply_swizzle_rgba8 swizzle_identity rgba = rgba"
proof -
  have unit: "map4 (pick_source SwZero SwOne (SwR, SwG, SwB, SwA)) inner = inner"
    using pick_unit by (simp add: map4_id)
  have "map4 (pick_source SwZero SwOne inner) (SwR, SwG, SwB, SwA) = inner"
    "map4 (pick_source UNORM8_MIN UNORM8_MAX rgba) (SwR, SwG, SwB, SwA) = rgba"
    by (cases inner; simp) (cases rgba; simp)
  with unit show ?thesis
    by (simp add: apply_swizzle_rgba8_def swizzle_after_def swizzle_identity_def map4_map4 pick_map4)
qed

end
