(* ===== verification/Half.thy ===== *)
theory Half
  imports PixelTables
begin

text \<open>
  The half-float conversions of crates/reims-vgpu/src/contract/pixel_format.rs. The \<open>f32\<close>
  arithmetic they use is IEEE 754 binary32: a finite number is \<open>m * 2 ^ e\<close>, decoded from its
  bits and rounded to 24 significant bits, ties to even; none of the operations here overflows.
\<close>

section \<open>Binary32\<close>

datatype f32v = NaN32 | Inf32 bool | Fin32 int int

definition f32_value :: "u32 \<Rightarrow> f32v" where
  "f32_value bits =
     (let neg = bit bits 31; e = uint (drop_bit 23 bits AND 0xff); m = uint (bits AND 0x007fffff);
          sg = (if neg then - 1 else 1)
      in if e = 255 then (if m = 0 then Inf32 neg else NaN32)
         else if e = 0 then Fin32 (sg * m) (- 149)
         else Fin32 (sg * (m + push_bit 23 1)) (e - 150))"

function nbits :: "int \<Rightarrow> nat" where
  "nbits n = (if n \<le> 0 then 0 else Suc (nbits (n div 2)))"
  by auto
termination by (relation "measure nat") auto

declare nbits.simps [simp del]

text \<open>A non-negative finite number \<open>m * 2 ^ e\<close> is the pair of its significand and exponent.\<close>

type_synonym fin32 = "int \<times> int"

text \<open>\<open>n div 2 ^ k\<close> rounded to nearest, ties to even.\<close>

definition round_even :: "int \<Rightarrow> nat \<Rightarrow> int" where
  "round_even n k =
     (let q = drop_bit k n; r = push_bit 1 (take_bit k n); h = push_bit k 1
      in if r < h \<or> (r = h \<and> even q) then q else q + 1)"

definition f32_round :: "int \<Rightarrow> int \<Rightarrow> fin32" where
  "f32_round n e =
     (let k = nat (max (int (nbits n) - 24) (- 149 - e)) in (round_even n k, e + int k))"

fun f32_mul :: "fin32 \<Rightarrow> fin32 \<Rightarrow> fin32" where
  "f32_mul (m, e) (n, f) = f32_round (m * n) (e + f)"

fun f32_add :: "fin32 \<Rightarrow> fin32 \<Rightarrow> fin32" where
  "f32_add (m, e) (n, f) =
     (let g = min e f in f32_round (push_bit (nat (e - g)) m + push_bit (nat (f - g)) n) g)"

text \<open>The quotient is computed to more than 24 bits, the remainder kept as a sticky bit.\<close>

fun f32_div :: "fin32 \<Rightarrow> fin32 \<Rightarrow> fin32" where
  "f32_div (m, e) (n, f) =
     f32_round (2 * (push_bit 64 m div n) + (if push_bit 64 m mod n = 0 then 0 else 1)) (e - f - 65)"

text \<open>\<open>f32::to_bits\<close> of a number of at most 24 significant bits.\<close>

fun f32_to_bits :: "fin32 \<Rightarrow> u32" where
  "f32_to_bits (m, e) =
     (if m = 0 then 0
      else let up = 24 - nbits m; field = e - int up + 150
           in if field \<ge> 1 then word_of_int (push_bit 23 field + push_bit up m - push_bit 23 1)
              else word_of_int (push_bit (nat (e + 149)) m))"

text \<open>\<open>as u8\<close>: truncated, saturating.\<close>

fun f32_as_u8 :: "fin32 \<Rightarrow> u8" where
  "f32_as_u8 (m, e) =
     word_of_int (min 255 (if e \<ge> 0 then push_bit (nat e) m else drop_bit (nat (- e)) m))"

fun f32_ge_one :: "fin32 \<Rightarrow> bool" where
  "f32_ge_one (m, e) \<longleftrightarrow> (if e \<ge> 0 then m > 0 else m \<ge> push_bit (nat (- e)) 1)"

section \<open>Half to single\<close>

definition F16_SIGN_MASK :: u16 where "F16_SIGN_MASK = 0x8000"
definition F16_EXP_SHIFT :: nat where "F16_EXP_SHIFT = 10"
definition F16_EXP_MASK :: u32 where "F16_EXP_MASK = 0x1f"
definition F16_MANT_MASK :: u32 where "F16_MANT_MASK = 0x03ff"
definition F16_HIDDEN_BIT :: u32 where "F16_HIDDEN_BIT = 0x0400"
definition F16_EXP_BIAS :: int where "F16_EXP_BIAS = 15"
definition F16_EXP_INF_NAN :: u32 where "F16_EXP_INF_NAN = F16_EXP_MASK"
definition F16_INF_BITS :: u16 where "F16_INF_BITS = 0x7c00"
definition F16_SUBNORMAL_EXP_MIN :: int where "F16_SUBNORMAL_EXP_MIN = - 10"
definition F16_SUBNORMAL_SHIFT_BASE :: int where "F16_SUBNORMAL_SHIFT_BASE = 14"
definition F16_F32_SIGN_SHIFT :: nat where "F16_F32_SIGN_SHIFT = 16"
definition F32_EXP_SHIFT :: nat where "F32_EXP_SHIFT = 23"
definition F32_EXP_MASK :: u32 where "F32_EXP_MASK = 0xff"
definition F32_MANT_MASK :: u32 where "F32_MANT_MASK = 0x007fffff"
definition F32_HIDDEN_BIT :: u32 where "F32_HIDDEN_BIT = 0x00800000"
definition F32_EXP_BIAS :: int where "F32_EXP_BIAS = 127"
definition F32_INF_BITS :: u32 where "F32_INF_BITS = 0x7f800000"
definition F16_F32_MANT_SHIFT :: nat where "F16_F32_MANT_SHIFT = 13"
definition F32_TO_F16_ROUND_BIT :: u32 where "F32_TO_F16_ROUND_BIT = 0x1000"

lemmas half_defs = F16_SIGN_MASK_def F16_EXP_SHIFT_def F16_EXP_MASK_def F16_MANT_MASK_def
  F16_HIDDEN_BIT_def F16_EXP_BIAS_def F16_EXP_INF_NAN_def F16_INF_BITS_def F16_SUBNORMAL_EXP_MIN_def
  F16_SUBNORMAL_SHIFT_BASE_def F16_F32_SIGN_SHIFT_def F32_EXP_SHIFT_def F32_EXP_MASK_def
  F32_MANT_MASK_def F32_HIDDEN_BIT_def F32_EXP_BIAS_def F32_INF_BITS_def F16_F32_MANT_SHIFT_def
  F32_TO_F16_ROUND_BIT_def

text \<open>The loop that normalises a subnormal mantissa; it returns for every non-zero one
  (\<open>f16_to_f32_exact\<close>).\<close>

partial_function (option) f16_normalize :: "u32 \<Rightarrow> int \<Rightarrow> (u32 \<times> int) option" where
  "f16_normalize mant normal_exp =
     (if mant AND F16_HIDDEN_BIT = 0 then f16_normalize (push_bit 1 mant) (normal_exp - 1)
      else Some (mant, normal_exp))"

declare f16_normalize.simps [code]

definition f16_to_f32 :: "u16 \<Rightarrow> u32 option" where
  "f16_to_f32 half_bits =
     (let sign = push_bit F16_F32_SIGN_SHIFT (ucast (half_bits AND F16_SIGN_MASK) :: u32);
          exp = drop_bit F16_EXP_SHIFT (ucast half_bits) AND F16_EXP_MASK;
          mant = ucast half_bits AND F16_MANT_MASK
      in if exp = 0 then
           if mant = 0 then Some sign
           else Option.bind (f16_normalize mant 1) (\<lambda>(mant, normal_exp).
             let mant = mant AND F16_MANT_MASK in
             Some (sign OR push_bit F32_EXP_SHIFT (word_of_int (normal_exp - F16_EXP_BIAS + F32_EXP_BIAS))
                   OR push_bit F16_F32_MANT_SHIFT mant))
         else if exp = F16_EXP_INF_NAN then
           Some (sign OR F32_INF_BITS OR push_bit F16_F32_MANT_SHIFT mant)
         else
           Some (sign OR push_bit F32_EXP_SHIFT (word_of_int (uint exp - F16_EXP_BIAS + F32_EXP_BIAS))
                 OR push_bit F16_F32_MANT_SHIFT mant))"

section \<open>The two tables\<close>

text \<open>One entry of \<open>build_f16_to_unorm8_lut\<close>; the conversion it reads always returns.\<close>

definition unorm8_of_f32 :: "u32 \<Rightarrow> u8" where
  "unorm8_of_f32 bits =
     (case f32_value bits of
        NaN32 \<Rightarrow> UNORM8_MIN
      | Inf32 neg \<Rightarrow> if neg then UNORM8_MIN else UNORM8_MAX
      | Fin32 m e \<Rightarrow>
          if \<not> m > 0 then UNORM8_MIN
          else if f32_ge_one (m, e) then UNORM8_MAX
          else f32_as_u8 (f32_add (f32_mul (m, e) (uint UNORM8_MAX, 0)) (1, - 1)))"

definition f16_to_unorm8 :: "u16 \<Rightarrow> u8" where
  "f16_to_unorm8 i = unorm8_of_f32 (the (f16_to_f32 i))"

definition unorm8_to_f16_slow :: "u8 \<Rightarrow> u16" where
  "unorm8_to_f16_slow v =
     (let f = f32_div (uint v, 0) (uint UNORM8_MAX, 0);
          x = f32_to_bits f;
          sign = ucast (drop_bit F16_F32_SIGN_SHIFT x) AND F16_SIGN_MASK;
          e = uint (drop_bit F32_EXP_SHIFT x AND F32_EXP_MASK) - F32_EXP_BIAS + F16_EXP_BIAS;
          m = x AND F32_MANT_MASK
      in if fst f = 0 then sign
         else if e \<ge> uint F16_EXP_INF_NAN then sign OR F16_INF_BITS
         else if e \<le> 0 then
           (if e < F16_SUBNORMAL_EXP_MIN then sign
            else
              let m = m OR F32_HIDDEN_BIT; sh = nat (F16_SUBNORMAL_SHIFT_BASE - e);
                  hm = drop_bit sh m;
                  hm = (if drop_bit (sh - 1) m AND 1 \<noteq> 0 then hm + 1 else hm)
              in sign OR ucast hm)
         else
           let h = sign OR ucast (push_bit F16_EXP_SHIFT (word_of_int e :: u32))
                   OR ucast (drop_bit F16_F32_MANT_SHIFT m)
           in if m AND F32_TO_F16_ROUND_BIT \<noteq> 0 then h + 1 else h)"

end
