(* ===== verification/Texels.thy ===== *)
theory Texels
  imports Half
begin

text \<open>
  The texel and row converters of crates/reims-vgpu/src/contract/pixel_format.rs. A byte slice is a
  list; a \<open>&mut [u8]\<close> argument is returned updated; the \<open>bool\<close> or \<open>Option\<close> the code
  returns is the value of an outcome whose \<open>Panic\<close> is an out-of-range index or slice. The loop
  over the pixels stops at the first \<open>return false\<close>.
\<close>

section \<open>Slices and loops\<close>

type_synonym 'a total = "(unit, 'a) outcome"

definition sub_slice :: "'a list \<Rightarrow> nat \<Rightarrow> nat \<Rightarrow> 'a list total" where
  "sub_slice xs a b = (if a \<le> b \<and> b \<le> length xs then Ok (take (b - a) (drop a xs)) else Panic)"

definition put :: "'a list \<Rightarrow> nat \<Rightarrow> 'a list \<Rightarrow> 'a list" where
  "put xs a ys = take a xs @ ys @ drop (a + length ys) xs"

definition write_at :: "'a list \<Rightarrow> nat \<Rightarrow> 'a list \<Rightarrow> 'a list total" where
  "write_at xs a ys = (if a + length ys \<le> length xs then Ok (put xs a ys) else Panic)"

fun for_each :: "(nat \<Rightarrow> 's \<Rightarrow> (bool \<times> 's) total) \<Rightarrow> nat list \<Rightarrow> 's \<Rightarrow> (bool \<times> 's) total" where
  "for_each f [] s = Ok (True, s)"
| "for_each f (i # is) s =
     obind (f i s) (\<lambda>(go, s). if go then for_each f is s else Ok (False, s))"

definition written :: "u8 list total \<Rightarrow> (bool \<times> u8 list) total" where
  "written m = obind m (\<lambda>dst. Ok (True, dst))"

definition usize_mul :: "nat \<Rightarrow> nat \<Rightarrow> nat option" where
  "usize_mul a b = (if a * b < 2 ^ 64 then Some (a * b) else None)"

definition bytes16 :: "u16 \<Rightarrow> u8 list" where
  "bytes16 v = nat_to_le 2 (unat v)"

definition bytes32 :: "u32 \<Rightarrow> u8 list" where
  "bytes32 v = nat_to_le 4 (unat v)"

definition half_at :: "u8 list \<Rightarrow> nat \<Rightarrow> u16 total" where
  "half_at src off = obind (sub_slice src off (off + 2)) ld16"

definition rgba_at :: "u8 list \<Rightarrow> nat \<Rightarrow> u8 four total" where
  "rgba_at src off =
     obind (index_at src off) (\<lambda>r. obind (index_at src (off + 1)) (\<lambda>g.
     obind (index_at src (off + 2)) (\<lambda>b. obind (index_at src (off + 3)) (\<lambda>a. Ok (r, g, b, a)))))"

fun bytes4 :: "u8 four \<Rightarrow> u8 list" where
  "bytes4 (a, b, c, d) = [a, b, c, d]"

section \<open>Depth and stencil planes\<close>

definition extract_depth_stencil_plane ::
  "u16 \<Rightarrow> blit_aspect \<Rightarrow> u8 list \<Rightarrow> u8 list \<Rightarrow> (bool \<times> u8 list) total" where
  "extract_depth_stencil_plane format aspect texel dst =
     (if aspect = AspectFull then Ok (False, dst)
      else case depth_stencil_packing_of format of
        None \<Rightarrow> Ok (False, dst)
      | Some p \<Rightarrow>
          if length texel < unat (full_bpp p) then Ok (False, dst)
          else if aspect = AspectDepth then
            (if depth_plane_bpp p = 0 \<or> length dst < unat (depth_plane_bpp p) then Ok (False, dst)
             else case depth_layout p of
               DflFloat32 \<Rightarrow>
                 let off = unat (depth_offset p) in
                 obind (sub_slice texel off (off + 4)) (\<lambda>bs. written (write_at dst 0 bs))
             | DflUnorm24High \<Rightarrow>
                 obind (sub_slice texel 0 4) (\<lambda>bs.
                   let packed = (le_word bs :: u32); depth24 = drop_bit 8 packed
                   in written (write_at dst 0 (bytes32 depth24)))
             | DflNone \<Rightarrow> Ok (False, dst))
          else if length dst < unat (stencil_plane_bpp p) then Ok (False, dst)
          else obind (index_at texel (unat (stencil_offset p))) (\<lambda>b. written (write_at dst 0 [b])))"

definition insert_depth_stencil_plane ::
  "u16 \<Rightarrow> blit_aspect \<Rightarrow> u8 list \<Rightarrow> u8 list \<Rightarrow> (bool \<times> u8 list) total" where
  "insert_depth_stencil_plane format aspect src texel =
     (if aspect = AspectFull then Ok (False, texel)
      else case depth_stencil_packing_of format of
        None \<Rightarrow> Ok (False, texel)
      | Some p \<Rightarrow>
          if length texel < unat (full_bpp p) then Ok (False, texel)
          else if aspect = AspectDepth then
            (if depth_plane_bpp p = 0 \<or> length src < unat (depth_plane_bpp p) then Ok (False, texel)
             else case depth_layout p of
               DflFloat32 \<Rightarrow>
                 obind (sub_slice src 0 4) (\<lambda>bs. written (write_at texel (unat (depth_offset p)) bs))
             | DflUnorm24High \<Rightarrow>
                 obind (sub_slice src 0 4) (\<lambda>bs. obind (sub_slice texel 0 4) (\<lambda>ts.
                   let depth24 = (le_word bs :: u32) AND 0x00ffffff; packed = (le_word ts :: u32);
                       stencil = packed AND 0xff; out = stencil OR push_bit 8 depth24
                   in written (write_at texel 0 (bytes32 out))))
             | DflNone \<Rightarrow> Ok (False, texel))
          else if src = [] then Ok (False, texel)
          else obind (index_at src 0) (\<lambda>b. written (write_at texel (unat (stencil_offset p)) [b])))"

definition plane_bpp :: "depth_stencil_packing \<Rightarrow> blit_aspect \<Rightarrow> u32 option" where
  "plane_bpp p aspect =
     (case aspect of AspectDepth \<Rightarrow> Some (depth_plane_bpp p) | AspectStencil \<Rightarrow> Some (stencil_plane_bpp p)
        | AspectFull \<Rightarrow> None)"

definition extract_plane_row ::
  "u16 \<Rightarrow> blit_aspect \<Rightarrow> u8 list \<Rightarrow> u32 \<Rightarrow> u8 list \<Rightarrow> (bool \<times> u8 list) total" where
  "extract_plane_row format aspect src_row width dst_plane =
     (case depth_stencil_packing_of format of
        None \<Rightarrow> Ok (False, dst_plane)
      | Some p \<Rightarrow>
     (case plane_bpp p aspect of
        None \<Rightarrow> Ok (False, dst_plane)
      | Some bpp \<Rightarrow>
          let full = unat (full_bpp p); plane = unat bpp; w = unat width in
     (case usize_mul full w of
        None \<Rightarrow> Ok (False, dst_plane)
      | Some need_src \<Rightarrow>
     (case usize_mul plane w of
        None \<Rightarrow> Ok (False, dst_plane)
      | Some need_dst \<Rightarrow>
          if length src_row < need_src \<or> length dst_plane < need_dst then Ok (False, dst_plane)
          else for_each (\<lambda>x dst.
                 obind (sub_slice src_row (x * full) (x * full + full)) (\<lambda>t.
                 obind (sub_slice dst (x * plane) (x * plane + plane)) (\<lambda>d.
                 obind (extract_depth_stencil_plane format aspect t d) (\<lambda>(ok, d).
                 obind (write_at dst (x * plane) d) (\<lambda>dst. Ok (ok, dst)))))) [0..<w] dst_plane))))"

definition insert_plane_row ::
  "u16 \<Rightarrow> blit_aspect \<Rightarrow> u8 list \<Rightarrow> u32 \<Rightarrow> u8 list \<Rightarrow> (bool \<times> u8 list) total" where
  "insert_plane_row format aspect src_plane width dst_row =
     (case depth_stencil_packing_of format of
        None \<Rightarrow> Ok (False, dst_row)
      | Some p \<Rightarrow>
     (case plane_bpp p aspect of
        None \<Rightarrow> Ok (False, dst_row)
      | Some bpp \<Rightarrow>
          let full = unat (full_bpp p); plane = unat bpp; w = unat width in
     (case usize_mul full w of
        None \<Rightarrow> Ok (False, dst_row)
      | Some need_dst \<Rightarrow>
     (case usize_mul plane w of
        None \<Rightarrow> Ok (False, dst_row)
      | Some need_src \<Rightarrow>
          if length dst_row < need_dst \<or> length src_plane < need_src then Ok (False, dst_row)
          else for_each (\<lambda>x dst.
                 obind (sub_slice src_plane (x * plane) (x * plane + plane)) (\<lambda>s.
                 obind (sub_slice dst (x * full) (x * full + full)) (\<lambda>t.
                 obind (insert_depth_stencil_plane format aspect s t) (\<lambda>(ok, t).
                 obind (write_at dst (x * full) t) (\<lambda>dst. Ok (ok, dst)))))) [0..<w] dst_row))))"

section \<open>Layout converters\<close>

text \<open>The channels of a half-float or byte layout, written and read one after the other.\<close>

definition expand_rgba8_to_texel ::
  "texel_layout \<Rightarrow> u8 list \<Rightarrow> u32 \<Rightarrow> u8 list \<Rightarrow> (bool \<times> u8 list) total" where
  "expand_rgba8_to_texel layout src_rgba pixels dst =
     (let px = unat pixels; bpt = unat (bytes_per_texel layout) in
     (case usize_mul px bpt of
        None \<Rightarrow> Ok (False, dst)
      | Some dst_len \<Rightarrow>
     (case usize_mul px (unat RGBA8_BPP) of
        None \<Rightarrow> Ok (False, dst)
      | Some src_len \<Rightarrow>
          if length src_rgba < src_len \<or> length dst < dst_len then Ok (False, dst)
          else (case layout of
            Rgba8 \<Rightarrow> obind (sub_slice src_rgba 0 src_len) (\<lambda>bs. written (write_at dst 0 bs))
          | Bgra8 \<Rightarrow>
              for_each (\<lambda>i dst. obind (rgba_at src_rgba (i * 4)) (\<lambda>(r, g, b, a).
                written (write_at dst (i * 4) [b, g, r, a]))) [0..<px] dst
          | Rgba16Float \<Rightarrow>
              for_each (\<lambda>i dst. obind (rgba_at src_rgba (i * 4)) (\<lambda>(r, g, b, a).
                written (write_at dst (i * 8) (concat (map (bytes16 \<circ> unorm8_to_f16_slow) [r, g, b, a])))))
                [0..<px] dst
          | R16Float \<Rightarrow>
              for_each (\<lambda>i dst. obind (index_at src_rgba (i * 4)) (\<lambda>r.
                written (write_at dst (i * bpt) (bytes16 (unorm8_to_f16_slow r))))) [0..<px] dst
          | Rg16Float \<Rightarrow>
              for_each (\<lambda>i dst. obind (index_at src_rgba (i * 4)) (\<lambda>r. obind (index_at src_rgba (i * 4 + 1)) (\<lambda>g.
                written (write_at dst (i * bpt) (concat (map (bytes16 \<circ> unorm8_to_f16_slow) [r, g]))))))
                [0..<px] dst
          | R8 \<Rightarrow>
              for_each (\<lambda>i dst. obind (index_at src_rgba (i * 4)) (\<lambda>r. written (write_at dst i [r])))
                [0..<px] dst
          | _ \<Rightarrow> Ok (False, dst)))))"

definition narrow_texel_to_rgba8 ::
  "texel_layout \<Rightarrow> u8 list \<Rightarrow> u32 \<Rightarrow> u8 list \<Rightarrow> (bool \<times> u8 list) total" where
  "narrow_texel_to_rgba8 layout src pixels dst_rgba =
     (let px = unat pixels; bpt = unat (bytes_per_texel layout) in
     (case usize_mul px bpt of
        None \<Rightarrow> Ok (False, dst_rgba)
      | Some src_len \<Rightarrow>
     (case usize_mul px (unat RGBA8_BPP) of
        None \<Rightarrow> Ok (False, dst_rgba)
      | Some dst_len \<Rightarrow>
          if length src < src_len \<or> length dst_rgba < dst_len then Ok (False, dst_rgba)
          else (case layout of
            Rgba8 \<Rightarrow> obind (sub_slice src 0 dst_len) (\<lambda>bs. written (write_at dst_rgba 0 bs))
          | Bgra8 \<Rightarrow>
              for_each (\<lambda>i dst. obind (rgba_at src (i * 4)) (\<lambda>(b, g, r, a).
                written (write_at dst (i * 4) [r, g, b, a]))) [0..<px] dst_rgba
          | Rgba16Float \<Rightarrow>
              for_each (\<lambda>i dst.
                obind (half_at src (i * 8)) (\<lambda>r. obind (half_at src (i * 8 + 2)) (\<lambda>g.
                obind (half_at src (i * 8 + 4)) (\<lambda>b. obind (half_at src (i * 8 + 6)) (\<lambda>a.
                written (write_at dst (i * 4) (map f16_to_unorm8 [r, g, b, a]))))))) [0..<px] dst_rgba
          | R16Float \<Rightarrow>
              for_each (\<lambda>i dst. obind (half_at src (i * bpt)) (\<lambda>r.
                written (write_at dst (i * 4) [f16_to_unorm8 r, 0, 0, UNORM8_MAX]))) [0..<px] dst_rgba
          | Rg16Float \<Rightarrow>
              for_each (\<lambda>i dst. obind (half_at src (i * bpt)) (\<lambda>r. obind (half_at src (i * bpt + 2)) (\<lambda>g.
                written (write_at dst (i * 4) [f16_to_unorm8 r, f16_to_unorm8 g, 0, UNORM8_MAX]))))
                [0..<px] dst_rgba
          | R8 \<Rightarrow>
              for_each (\<lambda>i dst. obind (index_at src i) (\<lambda>s.
                written (write_at dst (i * 4) [s, 0, 0, UNORM8_MAX]))) [0..<px] dst_rgba
          | _ \<Rightarrow> Ok (False, dst_rgba)))))"

section \<open>Format converters\<close>

definition texel_to_rgba8 :: "u16 \<Rightarrow> u8 list \<Rightarrow> u8 four option total" where
  "texel_to_rgba8 format src =
     (case bytes_per_pixel format of
        None \<Rightarrow> Ok None
      | Some bpp \<Rightarrow>
          if length src < unat bpp then Ok None
          else if format = MTL_FORMAT_A8_UNORM then
            obind (index_at src 0) (\<lambda>a. Ok (Some (0, 0, 0, a)))
          else if format = MTL_FORMAT_R8_UNORM then
            obind (index_at src 0) (\<lambda>r. Ok (Some (r, 0, 0, UNORM8_MAX)))
          else if format = MTL_FORMAT_RG8_UNORM then
            obind (index_at src 0) (\<lambda>r. obind (index_at src 1) (\<lambda>g. Ok (Some (r, g, 0, UNORM8_MAX))))
          else if format \<in> {MTL_FORMAT_RGBA8_UNORM, MTL_FORMAT_RGBA8_UNORM_SRGB} then
            obind (rgba_at src 0) (\<lambda>rgba. Ok (Some rgba))
          else if format \<in> {MTL_FORMAT_BGRA8_UNORM, MTL_FORMAT_BGRA8_UNORM_SRGB} then
            obind (rgba_at src 0) (\<lambda>(b, g, r, a). Ok (Some (r, g, b, a)))
          else if format = MTL_FORMAT_RGBA16_FLOAT then
            obind (half_at src 0) (\<lambda>r. obind (half_at src 2) (\<lambda>g. obind (half_at src 4) (\<lambda>b.
            obind (half_at src 6) (\<lambda>a.
              Ok (Some (f16_to_unorm8 r, f16_to_unorm8 g, f16_to_unorm8 b, f16_to_unorm8 a))))))
          else if format = MTL_FORMAT_RG16_FLOAT then
            obind (half_at src 0) (\<lambda>r. obind (half_at src 2) (\<lambda>g.
              Ok (Some (f16_to_unorm8 r, f16_to_unorm8 g, 0, UNORM8_MAX))))
          else Ok None)"

fun rgba8_to_texel :: "u16 \<Rightarrow> u8 four \<Rightarrow> u8 list \<Rightarrow> (bool \<times> u8 list) total" where
  "rgba8_to_texel format (r, g, b, a) dst =
     (case bytes_per_pixel format of
        None \<Rightarrow> Ok (False, dst)
      | Some bpp \<Rightarrow>
          if length dst < unat bpp then Ok (False, dst)
          else if format \<in> {MTL_FORMAT_RGBA8_UNORM, MTL_FORMAT_RGBA8_UNORM_SRGB} then
            written (write_at dst 0 [r, g, b, a])
          else if format \<in> {MTL_FORMAT_BGRA8_UNORM, MTL_FORMAT_BGRA8_UNORM_SRGB} then
            written (write_at dst 0 [b, g, r, a])
          else if format = MTL_FORMAT_RGBA16_FLOAT then
            written (write_at dst 0 (concat (map (bytes16 \<circ> unorm8_to_f16_slow) [r, g, b, a])))
          else if format = MTL_FORMAT_RG16_FLOAT then
            written (write_at dst 0 (concat (map (bytes16 \<circ> unorm8_to_f16_slow) [r, g])))
          else if format = MTL_FORMAT_R8_UNORM then written (write_at dst 0 [r])
          else if format = MTL_FORMAT_R16_FLOAT then written (write_at dst 0 (bytes16 (unorm8_to_f16_slow r)))
          else Ok (False, dst))"

definition row_walk_backward :: "nat \<Rightarrow> nat \<Rightarrow> nat \<Rightarrow> nat \<Rightarrow> bool \<Rightarrow> bool" where
  "row_walk_backward src_len src_stride dst_len dst_stride same_base =
     (if src_len = 0 \<or> dst_len = 0 then False
      else if \<not> same_base then False
      else dst_stride > src_stride)"

definition convert_row_to_rgba8_ex ::
  "u16 \<Rightarrow> u8 list \<Rightarrow> u32 \<Rightarrow> u8 list \<Rightarrow> bool \<Rightarrow> (bool \<times> u8 list) total" where
  "convert_row_to_rgba8_ex format src pixels dst_rgba same_base =
     (if pixels = 0 then Ok (True, dst_rgba)
      else case bytes_per_pixel format of
        None \<Rightarrow> Ok (False, dst_rgba)
      | Some bpp \<Rightarrow>
     (case checked_mul (ucast pixels :: u64) (ucast bpp) of
        None \<Rightarrow> Ok (False, dst_rgba)
      | Some src_len \<Rightarrow>
     (case checked_mul (ucast pixels :: u64) (ucast RGBA8_BPP) of
        None \<Rightarrow> Ok (False, dst_rgba)
      | Some dst_len \<Rightarrow>
          if length src < unat src_len \<or> length dst_rgba < unat dst_len then Ok (False, dst_rgba)
          else
            let backward = row_walk_backward (unat src_len) (unat bpp) (unat dst_len) (unat RGBA8_BPP) same_base;
                order = (if backward then rev [0..<unat pixels] else [0..<unat pixels])
            in if format = MTL_FORMAT_RGBA16_FLOAT then
              for_each (\<lambda>i dst.
                obind (half_at src (i * 8)) (\<lambda>r. obind (half_at src (i * 8 + 2)) (\<lambda>g.
                obind (half_at src (i * 8 + 4)) (\<lambda>b. obind (half_at src (i * 8 + 6)) (\<lambda>a.
                written (write_at dst (i * 4) (map f16_to_unorm8 [r, g, b, a]))))))) order dst_rgba
            else
              for_each (\<lambda>i dst.
                obind (sub_slice src (i * unat bpp) (i * unat bpp + unat bpp)) (\<lambda>t.
                obind (texel_to_rgba8 format t) (\<lambda>rgba. case rgba of
                  None \<Rightarrow> Ok (False, dst)
                | Some rgba \<Rightarrow> written (write_at dst (i * 4) (bytes4 rgba))))) order dst_rgba)))"

definition convert_row_to_rgba8 :: "u16 \<Rightarrow> u8 list \<Rightarrow> u32 \<Rightarrow> u8 list \<Rightarrow> (bool \<times> u8 list) total" where
  "convert_row_to_rgba8 format src pixels dst_rgba = convert_row_to_rgba8_ex format src pixels dst_rgba False"

definition convert_rgba8_to_row :: "u16 \<Rightarrow> u8 list \<Rightarrow> u32 \<Rightarrow> u8 list \<Rightarrow> (bool \<times> u8 list) total" where
  "convert_rgba8_to_row format src_rgba pixels dst =
     (if pixels = 0 then Ok (True, dst)
      else case bytes_per_pixel format of
        None \<Rightarrow> Ok (False, dst)
      | Some bpp \<Rightarrow>
     (case checked_mul (ucast pixels :: u64) (ucast RGBA8_BPP) of
        None \<Rightarrow> Ok (False, dst)
      | Some src_len \<Rightarrow>
     (case checked_mul (ucast pixels :: u64) (ucast bpp) of
        None \<Rightarrow> Ok (False, dst)
      | Some dst_len \<Rightarrow>
          if length src_rgba < unat src_len \<or> length dst < unat dst_len then Ok (False, dst)
          else if format = MTL_FORMAT_RGBA16_FLOAT then
            for_each (\<lambda>i dst. obind (rgba_at src_rgba (i * 4)) (\<lambda>(r, g, b, a).
              written (write_at dst (i * 8) (concat (map (bytes16 \<circ> unorm8_to_f16_slow) [r, g, b, a])))))
              [0..<unat pixels] dst
          else
            for_each (\<lambda>i dst.
              obind (rgba_at src_rgba (i * 4)) (\<lambda>rgba.
              obind (sub_slice dst (i * unat bpp) (i * unat bpp + unat bpp)) (\<lambda>d.
              obind (rgba8_to_texel format rgba d) (\<lambda>(ok, d).
              obind (write_at dst (i * unat bpp) d) (\<lambda>dst. Ok (ok, dst))))))
              [0..<unat pixels] dst)))"

section \<open>Solid images\<close>

text \<open>The doubling loop of \<open>solid_image8\<close>. The buffer starts with a texel, so it grows each round;
  from an empty one the loop would not end. A capacity above \<open>isize::MAX\<close> panics.\<close>

function double_to :: "nat \<Rightarrow> 'a list \<Rightarrow> 'a list" where
  "double_to n img =
     (if length img < n \<and> img \<noteq> []
      then double_to n (img @ take (min (n - length img) (length img)) img) else img)"
  by auto
termination
proof (relation "measure (\<lambda>(n, img). n - length img)")
  fix n and img :: "'a list"
  assume "length img < n \<and> img \<noteq> []"
  then have "0 < length img" "length img < n" by simp_all
  then show "((n, img @ take (min (n - length img) (length img)) img), n, img) \<in> measure (\<lambda>(n, img). n - length img)"
    by (simp only: in_measure case_prod_conv length_append length_take)
qed simp

declare double_to.simps [simp del]

definition solid_image8 :: "u32 \<Rightarrow> u32 \<Rightarrow> u8 four \<Rightarrow> u8 list total" where
  "solid_image8 w h px =
     (let n = min (2 ^ 64 - 1) (min (2 ^ 64 - 1) (unat w * unat h) * 4)
      in if n < 4 then Ok []
         else if n > 2 ^ 63 - 1 then Panic
         else Ok (double_to n (bytes4 px)))"

end
