(* ===== verification/HalfFacts.thy ===== *)
theory HalfFacts
  imports Complex_Main Half
begin

text \<open>
  What the half-float conversions compute: the widening is exact, and the table from halves to
  bytes rounds \<open>255 * value\<close> to nearest.
\<close>

section \<open>Fields of a half and of a single\<close>

definition half_exp :: "u16 \<Rightarrow> int" where
  "half_exp h = uint (drop_bit 10 h AND 0x1f)"

definition half_mant :: "u16 \<Rightarrow> int" where
  "half_mant h = uint (h AND 0x3ff)"

lemma mask_words: "(0x1f :: 'a::len word) = mask 5" "(0x3ff :: 'a::len word) = mask 10" "(0xff :: 'a::len word) = mask 8"
  "(0x7fffff :: 'a::len word) = mask 23" "(0xffff :: 'a::len word) = mask 16"
  by (simp_all add: mask_eq_exp_minus_1)

lemma uint_and_mask: "uint (w AND mask n :: 'a::len word) = uint w mod 2 ^ n"
  by (simp only: take_bit_eq_mask [symmetric] unsigned_take_bit_eq) (simp add: take_bit_eq_mod)

lemma half_exp_bound: "0 \<le> half_exp h" "half_exp h < 32"
  by (simp_all add: half_exp_def mask_words uint_and_mask)

lemma half_mant_bound: "0 \<le> half_mant h" "half_mant h < 1024"
  by (simp_all add: half_mant_def mask_words uint_and_mask)

lemma uint_drop_bit: "uint (drop_bit n (w :: 'a::len word)) = drop_bit n (uint w)"
  by (simp add: unsigned_drop_bit_eq take_bit_int_eq_self)

lemma half_fields_32:
  "uint (drop_bit F16_EXP_SHIFT (ucast h :: u32) AND F16_EXP_MASK) = half_exp h"
  "uint (ucast h AND F16_MANT_MASK :: u32) = half_mant h"
proof -
  have "uint (ucast h :: u32) = uint h" by (simp add: unsigned_ucast_eq take_bit_int_eq_self_iff) (use uint_lt2p [of h] in simp)
  then show "uint (drop_bit F16_EXP_SHIFT (ucast h :: u32) AND F16_EXP_MASK) = half_exp h"
    "uint (ucast h AND F16_MANT_MASK :: u32) = half_mant h"
    by (simp_all add: half_defs half_exp_def half_mant_def mask_words uint_and_mask uint_drop_bit)
qed

lemma f32_fields:
  fixes sg mt ex :: u32
  assumes sg: "\<And>n. bit sg n \<longleftrightarrow> n = 31 \<and> b" and ex: "uint ex < 256" and mt: "uint mt < 2 ^ 23"
  defines "x \<equiv> sg OR push_bit 23 ex OR mt"
  shows "bit x 31 = b" "drop_bit 23 x AND 0xff = ex" "x AND 0x7fffff = mt"
proof -
  have "take_bit 8 ex = ex" "take_bit 23 mt = mt"
    using ex mt by (simp_all add: word_uint_eq_iff unsigned_take_bit_eq take_bit_int_eq_self)
  then have bits: "\<not> bit ex (8 + n)" "\<not> bit mt (23 + n)" "bit mt n \<Longrightarrow> n < 23" "bit ex n \<Longrightarrow> n < 8" for n
    by (metis bit_take_bit_iff not_add_less1)+
  have "\<not> bit mt 31" using bits(2) [of 8] by simp
  then show "bit x 31 = b" using bits(1) [of 0] by (auto simp: x_def sg bit_simps)
  show "drop_bit 23 x AND 0xff = ex"
    by (rule bit_eqI) (auto simp: x_def sg mask_words bit_simps bits(1,2) dest: bits(3,4) less_trans)
  show "x AND 0x7fffff = mt"
    by (rule bit_eqI) (auto simp: x_def sg mask_words bit_simps bits(1,2) dest: bits(3,4) less_trans)
qed


text \<open>The bits of a widened number, as \<open>f32_value\<close> reads them.\<close>

lemma f32_value_fields:
  fixes ex mt :: u32
  assumes sg: "\<And>n. bit sg n \<longleftrightarrow> n = 31 \<and> b" and ex: "uint ex < 256" and mt: "uint mt < 2 ^ 23"
  shows "f32_value (sg OR push_bit 23 ex OR mt) =
    (if uint ex = 255 then (if uint mt = 0 then Inf32 b else NaN32)
     else if uint ex = 0 then Fin32 ((if b then - 1 else 1) * uint mt) (- 149)
     else Fin32 ((if b then - 1 else 1) * (uint mt + 2 ^ 23)) (uint ex - 150))"
  unfolding f32_value_def f32_fields [OF assms] by (simp add: Let_def)

lemma mask_bits: "bit F16_SIGN_MASK n \<longleftrightarrow> n = 15" "bit F16_HIDDEN_BIT n \<longleftrightarrow> n = 10"
  "bit F32_TO_F16_ROUND_BIT n \<longleftrightarrow> n = 12"
proof -
  have m: "F16_SIGN_MASK = 2 ^ 15" "F16_HIDDEN_BIT = 2 ^ 10" "F32_TO_F16_ROUND_BIT = 2 ^ 12"
    by (simp_all add: half_defs)
  show "bit F16_SIGN_MASK n \<longleftrightarrow> n = 15" "bit F16_HIDDEN_BIT n \<longleftrightarrow> n = 10"
    "bit F32_TO_F16_ROUND_BIT n \<longleftrightarrow> n = 12"
    unfolding m bit_exp_iff possible_bit_word by auto
qed

lemma half_sign_bit: "bit (push_bit F16_F32_SIGN_SHIFT (ucast (h AND F16_SIGN_MASK) :: u32)) n \<longleftrightarrow> n = 31 \<and> bit h 15"
  by (auto simp: F16_F32_SIGN_SHIFT_def bit_simps mask_bits)

section \<open>The normalising loop\<close>

lemma hidden_bit:
  assumes "uint m < 2048"
  shows "m AND F16_HIDDEN_BIT = 0 \<longleftrightarrow> uint m < 1024"
proof -
  have "m AND F16_HIDDEN_BIT = 0 \<longleftrightarrow> \<not> bit m 10"
    unfolding bit_eq_iff by (auto simp: bit_simps mask_bits dest: spec [of _ 10])
  also have "bit m 10 \<longleftrightarrow> odd (uint m div 2 ^ 10)" 
    by (metis bit_iff_odd bit_uint_iff bit_imp_le_length)
  also have "\<not> odd (uint m div 2 ^ 10) \<longleftrightarrow> uint m < 1024"
  proof -
    have "uint m div 2 ^ 10 = (if uint m < 1024 then 0 else 1)"
      using assms by (auto simp: div_pos_pos_trivial intro: int_div_pos_eq [where r = "uint m - 1024"])
    then show ?thesis by simp
  qed
  finally show ?thesis .
qed

lemma f16_normalize_steps:
  assumes "0 < uint m" "uint m < 2048"
  shows "\<exists>j \<le> 10. f16_normalize m e = Some (push_bit j m, e - int j)
    \<and> 1024 \<le> uint m * 2 ^ j \<and> uint m * 2 ^ j < 2048"
  using assms
proof (induction "nat (2048 - uint m)" arbitrary: m e rule: less_induct)
  case less
  show ?case
  proof (cases "uint m < 1024")
    case True
    let ?m = "push_bit 1 m"
    have u: "uint ?m = 2 * uint m"
      using True by (simp add: push_bit_eq_mult uint_word_ariths)
    from less.hyps [of ?m "e - 1"] less.prems True u obtain j where
      j: "f16_normalize ?m (e - 1) = Some (push_bit j ?m, e - 1 - int j)"
        "1024 \<le> 2 * uint m * 2 ^ j" "2 * uint m * 2 ^ j < 2048" by auto
    have "f16_normalize m e = f16_normalize ?m (e - 1)"
      using True hidden_bit [OF less.prems(2)] by (subst f16_normalize.simps) simp
    moreover have "Suc j \<le> 10"
    proof (rule ccontr)
      assume "\<not> Suc j \<le> 10"
      then have "(2::int) ^ 10 \<le> 2 ^ j" by (intro power_increasing) simp_all
      then have "2 * 1 * 2 ^ 10 \<le> 2 * uint m * 2 ^ j" using less.prems(1) by (intro mult_mono) simp_all
      with j(3) show False by simp
    qed
    ultimately show ?thesis using j by (intro exI [of _ "Suc j"]) (simp add: push_bit_push_bit algebra_simps)
  next
    case False
    then show ?thesis using less.prems hidden_bit [OF less.prems(2)]
      by (intro exI [of _ 0]) (simp add: f16_normalize.simps [of m e])
  qed
qed


section \<open>Widening is exact\<close>

definition half_sign :: "u16 \<Rightarrow> int" where
  "half_sign h = (if bit h 15 then - 1 else 1)"

lemma uint_push_small: "uint (m :: u32) * 2 ^ k < 2 ^ 32 \<Longrightarrow> uint (push_bit k m) = uint m * 2 ^ k"
  by (simp only: unsigned_push_bit_eq) (simp add: push_bit_eq_mult take_bit_eq_mod)

lemma uint_word_small: "0 \<le> i \<Longrightarrow> i < 2 ^ 32 \<Longrightarrow> uint (word_of_int i :: u32) = i"
  by (simp add: uint_word_of_int)

lemma mod_1024: "1024 \<le> y \<Longrightarrow> y < 2048 \<Longrightarrow> y mod 1024 = y - 1024" for y :: int
  using mod_pos_pos_trivial [of "y - 1024" 1024] by simp

lemma half_zero_iff:
  "drop_bit F16_EXP_SHIFT (ucast h :: u32) AND F16_EXP_MASK = 0 \<longleftrightarrow> half_exp h = 0"
  "ucast h AND F16_MANT_MASK = (0 :: u32) \<longleftrightarrow> half_mant h = 0"
  "drop_bit F16_EXP_SHIFT (ucast h :: u32) AND F16_EXP_MASK = F16_EXP_INF_NAN \<longleftrightarrow> half_exp h = 31"
  unfolding word_uint_eq_iff half_fields_32 by (simp_all add: half_defs)

lemma f16_to_f32_cases:
  "\<exists>bits. f16_to_f32 h = Some bits \<and>
    (if half_exp h = 31 then f32_value bits = (if half_mant h = 0 then Inf32 (bit h 15) else NaN32)
     else if half_exp h \<noteq> 0 then
       f32_value bits = Fin32 (half_sign h * ((1024 + half_mant h) * 2 ^ 13)) (half_exp h - 38)
     else if half_mant h = 0 then f32_value bits = Fin32 0 (- 149)
     else \<exists>j \<le> 10. 1024 \<le> half_mant h * 2 ^ j \<and> half_mant h * 2 ^ j < 2048 \<and> f32_value bits = Fin32 (half_sign h * (half_mant h * 2 ^ (13 + j))) (- 37 - int j))"
proof -
  let ?sg = "push_bit F16_F32_SIGN_SHIFT (ucast (h AND F16_SIGN_MASK) :: u32)"
  let ?ex = "drop_bit F16_EXP_SHIFT (ucast h :: u32) AND F16_EXP_MASK"
  let ?mt = "ucast h AND F16_MANT_MASK :: u32"
  note fields = f32_value_fields [OF half_sign_bit]
  have mt: "uint (push_bit 13 ?mt) = half_mant h * 2 ^ 13"
    using half_mant_bound [of h] by (subst uint_push_small) (simp_all add: half_fields_32)
  then have mt23: "uint (push_bit 13 ?mt) < 2 ^ 23" using half_mant_bound [of h] by simp
  note def = f16_to_f32_def [of h, unfolded Let_def half_zero_iff]
  consider "half_exp h = 31" | "half_exp h \<noteq> 31" "half_exp h \<noteq> 0" | "half_exp h = 0" "half_mant h = 0"
    | "half_exp h = 0" "half_mant h \<noteq> 0" by blast
  then show ?thesis
  proof cases
    case 1
    have "F32_INF_BITS = push_bit 23 255" by (simp add: half_defs push_bit_eq_mult)
    moreover have "f32_value (?sg OR push_bit 23 255 OR push_bit 13 ?mt)
        = (if half_mant h = 0 then Inf32 (bit h 15) else NaN32)"
      using fields [of 255 "push_bit 13 ?mt" h] mt mt23 by simp
    ultimately show ?thesis using 1 by (simp add: def F16_F32_MANT_SHIFT_def)
  next
    case 2
    let ?e = "word_of_int (half_exp h - 15 + 127) :: u32"
    have e: "uint ?e = half_exp h + 112"
      using half_exp_bound [of h] by (subst uint_word_small) simp_all
    have "f32_value (?sg OR push_bit 23 ?e OR push_bit 13 ?mt)
        = Fin32 (half_sign h * ((1024 + half_mant h) * 2 ^ 13)) (half_exp h - 38)"
      using fields [of ?e "push_bit 13 ?mt" h] mt mt23 e half_exp_bound [of h] 2
      by (simp add: half_sign_def algebra_simps)
    then show ?thesis using 2
      by (simp add: def half_fields_32 F16_F32_MANT_SHIFT_def F16_EXP_BIAS_def F32_EXP_BIAS_def F32_EXP_SHIFT_def)
  next
    case 3
    have "f32_value ?sg = Fin32 0 (- 149)" using fields [of 0 0 h] by simp
    then show ?thesis using 3 by (simp add: def)
  next
    case 4
    then have "0 < uint ?mt" "uint ?mt < 2048" using half_mant_bound [of h] by (simp_all add: half_fields_32)
    from f16_normalize_steps [OF this, of 1, unfolded half_fields_32] obtain j where
      j: "j \<le> 10" "f16_normalize ?mt 1 = Some (push_bit j ?mt, 1 - int j)"
        "1024 \<le> half_mant h * 2 ^ j" "half_mant h * 2 ^ j < 2048" by blast
    let ?m = "push_bit j ?mt AND F16_MANT_MASK" and ?e = "word_of_int (1 - int j - 15 + 127) :: u32"
    have "uint (push_bit j ?mt) = half_mant h * 2 ^ j"
      using j(4) by (subst uint_push_small) (simp_all only: half_fields_32, simp)
    then have "uint ?m = half_mant h * 2 ^ j mod 1024"
      using uint_and_mask [of "push_bit j ?mt" 10] by (simp only: F16_MANT_MASK_def mask_words) simp
    also have "\<dots> = half_mant h * 2 ^ j - 1024" using j(3,4) by (rule mod_1024)
    finally have m: "uint ?m = half_mant h * 2 ^ j - 1024" .
    then have m': "uint (push_bit 13 ?m) = (half_mant h * 2 ^ j - 1024) * 2 ^ 13"
      using j(3,4) by (subst uint_push_small) simp_all
    have e: "uint ?e = 113 - int j" using j(1) by (subst uint_word_small) simp_all
    have "f32_value (?sg OR push_bit 23 ?e OR push_bit 13 ?m)
        = Fin32 (half_sign h * (half_mant h * 2 ^ (13 + j))) (- 37 - int j)"
      using fields [of ?e "push_bit 13 ?m" h] m' e j by (simp add: half_sign_def power_add algebra_simps)
    then show ?thesis using 4 j
      by (auto simp: def F16_F32_MANT_SHIFT_def F16_EXP_BIAS_def F32_EXP_BIAS_def F32_EXP_SHIFT_def)
  qed
qed


section \<open>The byte table\<close>

lemma nbits_le: "n < 2 ^ l \<Longrightarrow> nbits n \<le> l"
proof (induction l arbitrary: n)
  case 0
  then show ?case by (simp add: nbits.simps)
next
  case (Suc l)
  then have "n div 2 < 2 ^ l" by simp
  with Suc.IH have "nbits (n div 2) \<le> l" .
  then show ?case by (subst nbits.simps) simp
qed

lemma round_even_exact: "2 ^ k dvd n \<Longrightarrow> round_even n k = n div 2 ^ k"
  by (simp add: round_even_def Let_def drop_bit_eq_div take_bit_eq_mod push_bit_eq_mult)

text \<open>A rounding that drops only zero bits is exact.\<close>

lemma f32_round_exact:
  assumes "2 ^ k dvd n" "n < 2 ^ (24 + k)" "- 149 - e \<le> int k"
  obtains k' where "k' \<le> k" "f32_round n e = (n div 2 ^ k', e + int k')"
proof
  let ?k = "nat (max (int (nbits n) - 24) (- 149 - e))"
  show "?k \<le> k" using nbits_le [OF assms(2)] assms(3) by simp
  then have "2 ^ ?k dvd n" using assms(1) by (meson dvd_trans le_imp_power_dvd)
  then show "f32_round n e = (n div 2 ^ ?k, e + int ?k)"
    by (simp add: f32_round_def Let_def round_even_exact)
qed

text \<open>\<open>w * 2 ^ (- 1 - a)\<close> times 255 plus a half, truncated: each step is exact.\<close>

lemma lut_exact:
  fixes w :: int
  assumes w: "0 < w" "w < 2 ^ 11" "2 ^ d dvd w" and a: "d \<le> a" "a \<le> 23 + d" "10 \<le> a" "a \<le> 33"
  shows "f32_as_u8 (f32_add (f32_mul (w * 2 ^ 13, - 14 - int a) (255, 0)) (1, - 1))
    = word_of_int (min 255 ((w * 255 + 2 ^ a) div 2 ^ Suc a))"
proof -
  let ?n = "w * 2 ^ 13 * 255"
  have "2 ^ 13 dvd ?n" "?n < 2 ^ (24 + 13)" "- 149 - (- 14 - int a) \<le> int 13" using w a by simp_all
  then obtain k where k: "k \<le> 13" "f32_round ?n (- 14 - int a) = (?n div 2 ^ k, - 14 - int a + int k)"
    by (rule f32_round_exact)
  have "?n div 2 ^ k = w * 255 * 2 ^ (13 - k)"
  proof -
    have e: "(2 :: int) ^ 13 = 2 ^ (13 - k) * 2 ^ k" using k(1) by (simp only: power_add [symmetric]) simp
    have "?n = w * 255 * 2 ^ (13 - k) * 2 ^ k" by (subst e) (simp only: mult_ac)
    then show ?thesis by (simp only: nonzero_mult_div_cancel_right power_not_zero zero_neq_numeral [symmetric] not_False_eq_True)
  qed
  with k have mul: "f32_mul (w * 2 ^ 13, - 14 - int a) (255, 0) = (w * 255 * 2 ^ (13 - k), - 14 - int a + int k)"
    by simp
  let ?s = "(w * 255 + 2 ^ a) * 2 ^ (13 - k)" and ?g = "- 14 - int a + int k"
  have "f32_add (w * 255 * 2 ^ (13 - k), ?g) (1, - 1) = f32_round ?s ?g"
  proof -
    have "nat (- 1 - ?g) = a + (13 - k)" "min ?g (- 1) = ?g" "nat (?g - ?g) = 0" using k(1) by simp_all
    then show ?thesis
      by (simp only: f32_add.simps Let_def push_bit_eq_mult power_add distrib_right power_0 mult_1_right mult_1_left)
  qed
  moreover obtain k' where k': "k' \<le> 13 - k + d" "f32_round ?s ?g = (?s div 2 ^ k', ?g + int k')"
  proof (rule f32_round_exact)
    have "2 ^ d dvd w * 255 + (2 :: int) ^ a" using w(3) a(1) by (simp add: le_imp_power_dvd)
    then show "2 ^ (13 - k + d) dvd ?s" by (simp add: power_add mult_dvd_mono mult.commute)
    have "w * 255 + 2 ^ a < 2 ^ (24 + d)"
    proof -
      have "(2 :: int) ^ a \<le> 2 ^ (23 + d)" using a(2) by (intro power_increasing) simp_all
      moreover have "w * 255 < 2 ^ (23 + d)"
      proof -
        have "w * 255 < 2 ^ 23" using w(2) by simp
        also have "\<dots> \<le> (2 :: int) ^ (23 + d)" by (intro power_increasing) simp_all
        finally show ?thesis .
      qed
      ultimately show ?thesis by (simp add: power_add)
    qed
    then show "?s < 2 ^ (24 + (13 - k + d))" by (simp add: power_add)
    show "- 149 - ?g \<le> int (13 - k + d)" using a by simp
  qed (rule that)
  moreover have "f32_as_u8 (?s div 2 ^ k', ?g + int k') = word_of_int (min 255 ((w * 255 + 2 ^ a) div 2 ^ Suc a))"
  proof -
    let ?h = "14 + a - k - k'"
    have h: "?g + int k' < 0" "nat (- (?g + int k')) = ?h" "k' + ?h = (13 - k) + Suc a"
      using k(1) k'(1) a(1) by auto
    have "?s div 2 ^ k' div 2 ^ ?h = ?s div 2 ^ ((13 - k) + Suc a)"
      by (simp only: h(3) [symmetric] power_add zdiv_zmult2_eq zero_le_power zero_le_numeral)
    also have "\<dots> = (w * 255 + 2 ^ a) div 2 ^ Suc a" by (simp add: power_add mult.commute)
    finally show ?thesis using h by (simp add: drop_bit_eq_div)
  qed
  ultimately show ?thesis using mul by simp
qed


text \<open>The value of a finite half.\<close>

definition half_value :: "u16 \<Rightarrow> real" where
  "half_value h =
     (if half_exp h = 0 then real_of_int (half_sign h * half_mant h) / 2 ^ 24
      else real_of_int (half_sign h * (1024 + half_mant h) * 2 ^ nat (half_exp h)) / 2 ^ 25)"

lemma floor_half_up:
  "\<lfloor>real_of_int (255 * w) / 2 ^ Suc a + 1 / 2\<rfloor> = (w * 255 + 2 ^ a) div 2 ^ Suc a"
proof -
  have "real_of_int (255 * w) / 2 ^ Suc a + 1 / 2 = real_of_int (w * 255 + 2 ^ a) / real_of_int (2 ^ Suc a)"
    by (simp add: field_simps)
  then show ?thesis by (simp only: floor_divide_of_int_eq)
qed

lemma unorm8_of_normal:
  assumes h: "f32_value bits = Fin32 (w * 2 ^ 13) (- 14 - int a)"
    and w: "1024 \<le> w" "w < 2 ^ 11" "2 ^ d dvd w" and a: "d \<le> a" "a \<le> 23 + d" "10 \<le> a" "a \<le> 33"
  shows "uint (unorm8_of_f32 bits) = min 255 \<lfloor>255 * (real_of_int w / 2 ^ Suc a) + 1 / 2\<rfloor>"
proof -
  have "w * 2 ^ 13 < 2 ^ 24" using w(2) by simp
  also have "\<dots> \<le> 2 ^ (14 + a)" using a(3) by (intro power_increasing) simp_all
  finally have "w * 2 ^ 13 < 2 ^ (14 + a)" .
  then have "\<not> f32_ge_one (w * 2 ^ 13, - 14 - int a)" by (simp add: push_bit_eq_mult nat_add_distrib add.commute)
  moreover have "0 < w * 2 ^ 13" "0 < w" using w(1) by simp_all
  ultimately have "unorm8_of_f32 bits = word_of_int (min 255 ((w * 255 + 2 ^ a) div 2 ^ Suc a))"
    unfolding unorm8_of_f32_def h f32v.case
    using lut_exact [OF \<open>0 < w\<close> w(2,3) a] by (simp only: if_False not_not simp_thms UNORM8_MAX_def) simp
  moreover have "0 \<le> (w * 255 + 2 ^ a) div 2 ^ Suc a" using w(1) by (intro pos_imp_zdiv_nonneg_iff [THEN iffD2]) simp_all
  moreover have "255 * (real_of_int w / 2 ^ Suc a) = real_of_int (255 * w) / 2 ^ Suc a" by simp
  ultimately show ?thesis by (simp only: floor_half_up) (simp add: uint_word_of_int)
qed


lemma floor_big: "1 \<le> x \<Longrightarrow> max 0 (min 255 \<lfloor>255 * (x :: real) + 1 / 2\<rfloor>) = 255"
proof -
  assume "1 \<le> x"
  then have "255 \<le> \<lfloor>255 * x + 1 / 2\<rfloor>" by (simp add: le_floor_iff)
  then show ?thesis by simp
qed

lemma floor_small: "x \<le> 0 \<Longrightarrow> max 0 (min 255 \<lfloor>255 * (x :: real) + 1 / 2\<rfloor>) = 0"
proof -
  assume "x \<le> 0"
  then have "\<lfloor>255 * x + 1 / 2\<rfloor> < 1" by (simp add: floor_less_iff)
  then show ?thesis by simp
qed

lemma f16_to_unorm8_negative:
  assumes "f16_to_f32 h = Some bits" "f32_value bits = Fin32 m e" "m \<le> 0"
  shows "f16_to_unorm8 h = 0"
  using assms by (simp add: f16_to_unorm8_def unorm8_of_f32_def UNORM8_MIN_def)

text \<open>The value of a positive half, normalised.\<close>

lemma half_positive:
  assumes "half_exp h < 15" "\<not> bit h 15" "half_exp h \<noteq> 0 \<or> half_mant h \<noteq> 0"
  obtains w a d bits where "f16_to_f32 h = Some bits" "f32_value bits = Fin32 (w * 2 ^ 13) (- 14 - int a)"
    "1024 \<le> w" "w < 2 ^ 11" "2 ^ d dvd w" "d \<le> a" "a \<le> 23 + d" "10 \<le> a" "a \<le> 33"
    "half_value h = real_of_int w / 2 ^ Suc a"
proof (cases "half_exp h = 0")
  case False
  let ?a = "nat (24 - half_exp h)" and ?w = "1024 + half_mant h"
  obtain bits where b: "f16_to_f32 h = Some bits" "f32_value bits = Fin32 (?w * 2 ^ 13) (half_exp h - 38)"
    using f16_to_f32_cases [of h] assms(1,2) False by (auto simp: half_sign_def)
  have e: "(2 :: real) ^ 25 = 2 ^ Suc ?a * 2 ^ nat (half_exp h)"
    using half_exp_bound [of h] assms(1) by (simp only: power_add [symmetric]) (simp add: nat_diff_distrib)
  have "half_value h = (real_of_int ?w * 2 ^ nat (half_exp h)) / 2 ^ 25"
    using assms(2) False by (simp add: half_value_def half_sign_def)
  also have "\<dots> = real_of_int ?w / 2 ^ Suc ?a" unfolding e by (rule mult_divide_mult_cancel_right) simp
  finally have "half_value h = real_of_int ?w / 2 ^ Suc ?a" .
  moreover have "half_exp h - 38 = - 14 - int ?a" using assms(1) by simp
  ultimately show ?thesis
    using b half_mant_bound [of h] half_exp_bound [of h] assms(1) False
    by (intro that [of bits ?w ?a 0]) simp_all
next
  case True
  then have m: "0 < half_mant h" using assms(3) half_mant_bound(1) [of h] by simp
  obtain bits j where b: "f16_to_f32 h = Some bits" "j \<le> 10"
    "1024 \<le> half_mant h * 2 ^ j" "half_mant h * 2 ^ j < 2048"
    "f32_value bits = Fin32 (half_mant h * 2 ^ (13 + j)) (- 37 - int j)"
    using f16_to_f32_cases [of h] assms(2) True m by (auto simp: half_sign_def)
  have "half_value h = real_of_int (half_mant h * 2 ^ j) / 2 ^ Suc (23 + j)"
    using True assms(2) by (simp add: half_value_def half_sign_def power_add)
  then show ?thesis
    using b by (intro that [of bits "half_mant h * 2 ^ j" "23 + j" j]) (simp_all add: power_add mult_ac)
qed

lemma f16_to_unorm8_rounds_finite:
  assumes "half_exp h \<noteq> 31"
  shows "uint (f16_to_unorm8 h) = max 0 (min 255 \<lfloor>255 * half_value h + 1 / 2\<rfloor>)"
proof -
  consider "bit h 15" | "\<not> bit h 15" "half_exp h < 15" "half_exp h \<noteq> 0 \<or> half_mant h \<noteq> 0"
    | "half_exp h = 0" "half_mant h = 0" | "\<not> bit h 15" "15 \<le> half_exp h" by linarith
  then show ?thesis
  proof cases
    case 1
    then have "half_value h \<le> 0" using half_mant_bound [of h]
      by (auto simp: half_value_def half_sign_def divide_le_0_iff mult_le_0_iff)
    moreover obtain bits m e where "f16_to_f32 h = Some bits" "f32_value bits = Fin32 m e" "m \<le> 0"
      using f16_to_f32_cases [of h] assms 1 half_mant_bound [of h]
      by (auto simp: half_sign_def mult_le_0_iff split: if_splits)
    ultimately show ?thesis using f16_to_unorm8_negative floor_small by simp
  next
    case 2
    obtain w a d bits where b: "f16_to_f32 h = Some bits" "f32_value bits = Fin32 (w * 2 ^ 13) (- 14 - int a)"
      "1024 \<le> w" "w < 2 ^ 11" "2 ^ d dvd w" "d \<le> a" "a \<le> 23 + d" "10 \<le> a" "a \<le> 33"
      "half_value h = real_of_int w / 2 ^ Suc a" by (rule half_positive [OF 2(2,1,3)])
    have "0 \<le> \<lfloor>255 * half_value h + 1 / 2\<rfloor>" using b(3,10) by (simp add: le_floor_iff)
    then show ?thesis
      using unorm8_of_normal [OF b(2-9)] b(1,10) by (simp add: f16_to_unorm8_def)
  next
    case 3
    then have "half_value h \<le> 0" by (simp add: half_value_def)
    moreover have "f16_to_unorm8 h = 0"
      using f16_to_f32_cases [of h] 3 f16_to_unorm8_negative by force
    ultimately show ?thesis using floor_small by simp
  next
    case 4
    have "(2 :: real) ^ 25 \<le> 1024 * 2 ^ nat (half_exp h)"
      using 4(2) power_increasing [of 15 "nat (half_exp h)" "2 :: real"] by simp
    also have "\<dots> \<le> (1024 + real_of_int (half_mant h)) * 2 ^ nat (half_exp h)"
      using half_mant_bound [of h] by (intro mult_right_mono) simp_all
    finally have v: "1 \<le> half_value h" using 4 by (simp add: half_value_def half_sign_def)
    obtain bits where b: "f16_to_f32 h = Some bits"
      "f32_value bits = Fin32 ((1024 + half_mant h) * 2 ^ 13) (half_exp h - 38)"
      using f16_to_f32_cases [of h] assms 4 by (auto simp: half_sign_def)
    have "(2 :: int) ^ nat (38 - half_exp h) \<le> 2 ^ 23" using 4(2) by (intro power_increasing) simp_all
    also have "\<dots> \<le> (1024 + half_mant h) * 2 ^ 13" using half_mant_bound [of h] by simp
    finally have ge: "f32_ge_one ((1024 + half_mant h) * 2 ^ 13, half_exp h - 38)"
      using half_exp_bound [of h] assms by (simp add: push_bit_eq_mult)
    have pos: "0 < (1024 + half_mant h) * 2 ^ 13" using half_mant_bound [of h] by simp
    have "f16_to_unorm8 h = 255"
      unfolding f16_to_unorm8_def b(1) option.sel unorm8_of_f32_def b(2) f32v.case
      using ge pos by (simp only: if_True if_False not_True_eq_False UNORM8_MAX_def)
    then show ?thesis using floor_big [OF v] by simp
  qed
qed


text \<open>C34: Widening a half is exact and always returns: for every half the normalising loop
  terminates and the single produced has the half's sign, is infinite or a NaN exactly when the half
  is, and otherwise denotes the same number.\<close>

theorem f16_to_f32_exact:
  "\<exists>bits. f16_to_f32 h = Some bits \<and>
     (case f32_value bits of
        NaN32 \<Rightarrow> half_exp h = 31 \<and> half_mant h \<noteq> 0
      | Inf32 neg \<Rightarrow> half_exp h = 31 \<and> half_mant h = 0 \<and> neg = bit h 15
      | Fin32 m e \<Rightarrow> half_exp h \<noteq> 31 \<and> real_of_int m * 2 powi e = half_value h)"
proof -
  obtain bits where b: "f16_to_f32 h = Some bits" using f16_to_f32_cases by blast
  have normal: "real_of_int (half_sign h * ((1024 + half_mant h) * 2 ^ 13)) * 2 powi (half_exp h - 38) = half_value h"
    if "half_exp h \<noteq> 0"
  proof -
    have e: "(2 :: real) powi (half_exp h - 38) = 2 ^ nat (half_exp h) / 2 ^ 38"
    proof -
      have "(2 :: real) powi (half_exp h - 38) = 2 powi half_exp h / 2 powi 38" by (rule power_int_diff) simp
      then show ?thesis using half_exp_bound [of h] by (simp add: power_int_def)
    qed
    show ?thesis unfolding e using that by (simp add: half_value_def field_simps)
  qed
  have sub: "real_of_int (half_sign h * (half_mant h * 2 ^ (13 + j))) * 2 powi (- 37 - int j) = half_value h"
    if "half_exp h = 0" for j
  proof -
    have "(2 :: real) powi (- 37 - int j) = 1 / (2 ^ 37 * 2 ^ j)"
      by (simp add: power_int_diff power_int_minus field_simps)
    with that show ?thesis by (simp add: half_value_def power_add)
  qed
  show ?thesis
    using f16_to_f32_cases [of h] b normal sub by (auto simp: half_value_def split: if_splits)
qed

lemma f16_to_unorm8_inf:
  "half_exp h = 31 \<Longrightarrow> f16_to_unorm8 h = (if half_mant h = 0 \<and> \<not> bit h 15 then 255 else 0)"
  using f16_to_f32_cases [of h]
  by (auto simp: f16_to_unorm8_def unorm8_of_f32_def UNORM8_MAX_def UNORM8_MIN_def)

text \<open>The half-to-byte table is the correctly rounded clamp: for every finite half the entry is
  \<open>255 * value\<close> rounded half up and clamped to a byte, a positive infinity is 255, and a negative
  infinity or a NaN is 0. The single-precision multiplication and addition the code builds the table
  with lose nothing.\<close>

theorem f16_to_unorm8_rounds:
  "uint (f16_to_unorm8 h) =
     (if half_exp h = 31 then (if half_mant h = 0 \<and> \<not> bit h 15 then 255 else 0)
      else max 0 (min 255 \<lfloor>255 * half_value h + 1 / 2\<rfloor>))"
  by (auto simp: f16_to_unorm8_rounds_finite f16_to_unorm8_inf)


section \<open>From bytes to halves and back\<close>

lemma nbits_eq: "2 ^ l \<le> n \<Longrightarrow> n < 2 ^ Suc l \<Longrightarrow> nbits n = Suc l"
proof (induction l arbitrary: n)
  case 0
  then have "n = 1" by simp
  then show ?case by (simp add: nbits.simps)
next
  case (Suc l)
  then have "nbits (n div 2) = Suc l" by (intro Suc.IH) simp_all
  moreover have "0 < n" using Suc.prems(1) by (meson less_le_trans zero_less_power zero_less_numeral)
  ultimately show ?case by (subst nbits.simps) simp
qed

lemma round_even_near:
  assumes "0 \<le> n"
  shows "2 * \<bar>round_even n k * 2 ^ k - n\<bar> \<le> 2 ^ k"
proof -
  let ?q = "n div 2 ^ k" and ?r = "n mod 2 ^ k"
  have n: "?q * 2 ^ k - n = - ?r" "0 \<le> ?r" "?r < 2 ^ k" using div_mult_mod_eq [of n "2 ^ k"] by simp_all
  consider "round_even n k = ?q" "2 * ?r \<le> 2 ^ k" | "round_even n k = ?q + 1" "2 ^ k \<le> 2 * ?r"
    unfolding round_even_def Let_def drop_bit_eq_div take_bit_eq_mod push_bit_eq_mult
    by (cases "2 * ?r < 2 ^ k \<or> (2 * ?r = 2 ^ k \<and> even ?q)") (auto simp: mult.commute)
  then show ?thesis
  proof cases
    case 1
    then have "round_even n k * 2 ^ k - n = - ?r" using n by simp
    with 1 n show ?thesis by (simp only: abs_minus_cancel abs_of_nonneg)
  next
    case 2
    then have "round_even n k * 2 ^ k - n = 2 ^ k - ?r" using n by (simp add: distrib_right)
    with 2 n show ?thesis by (simp only: abs_of_nonneg) simp
  qed
qed

text \<open>The quotient with its sticky bit, and the binade it lies in.\<close>

definition quotient :: "int \<Rightarrow> int" where
  "quotient v = 2 * (push_bit 64 v div 255) + (if push_bit 64 v mod 255 = 0 then 0 else 1)"

lemma quotient_near: "\<bar>255 * quotient v - v * 2 ^ 65\<bar> \<le> 255"
proof -
  have "push_bit 64 v = 255 * (push_bit 64 v div 255) + push_bit 64 v mod 255" by simp
  moreover have "0 \<le> push_bit 64 v mod 255" "push_bit 64 v mod 255 < 255" by simp_all
  moreover have "v * 2 ^ 65 = 2 * push_bit 64 v" by (simp add: push_bit_eq_mult)
  ultimately show ?thesis unfolding quotient_def by (auto simp: abs_if split: if_splits)
qed

lemma quotient_binade:
  assumes "1 \<le> v" "v \<le> 255"
  obtains k where "34 \<le> k" "k \<le> 42" "2 ^ (23 + k) \<le> quotient v" "quotient v < 2 ^ (24 + k)"
proof -
  have q: "255 * quotient v \<le> v * 2 ^ 65 + 255" "v * 2 ^ 65 \<le> 255 * quotient v + 255"
    using quotient_near [of v] by (simp_all add: abs_le_iff)
  consider "v < 2" | "2 \<le> v" "v < 4" | "4 \<le> v" "v < 8" | "8 \<le> v" "v < 16" | "16 \<le> v" "v < 32"
    | "32 \<le> v" "v < 64" | "64 \<le> v" "v < 128" | "128 \<le> v" "v < 255" | "v = 255"
    using assms by linarith
  then show thesis
  proof cases
    case 1 then show thesis using q assms by (intro that [of 34]) simp_all
  next
    case 2 then show thesis using q by (intro that [of 35]) simp_all
  next
    case 3 then show thesis using q by (intro that [of 36]) simp_all
  next
    case 4 then show thesis using q by (intro that [of 37]) simp_all
  next
    case 5 then show thesis using q by (intro that [of 38]) simp_all
  next
    case 6 then show thesis using q by (intro that [of 39]) simp_all
  next
    case 7 then show thesis using q by (intro that [of 40]) simp_all
  next
    case 8 then show thesis using q by (intro that [of 41]) simp_all
  next
    case 9
    then have "quotient v = 2 ^ 65" by (simp add: quotient_def push_bit_eq_mult)
    then show thesis by (intro that [of 42]) simp_all
  qed
qed

lemma near_bounds:
  fixes x q p :: int
  assumes "2 * \<bar>x - q\<bar> \<le> p" "8388608 * p \<le> q" "q < 16777216 * p"
  shows "16777215 * p \<le> 2 * x \<and> 2 * x < 33554433 * p"
proof
  have "2 * x - 2 * q \<le> p" "2 * q - 2 * x \<le> p" using assms(1) by arith+
  with assms(2,3) show "16777215 * p \<le> 2 * x" "2 * x < 33554433 * p" by linarith+
qed

lemma unorm8_div_bits:
  assumes k: "34 \<le> k" "k \<le> 42" "2 ^ (23 + k) \<le> quotient v" "quotient v < 2 ^ (24 + k)"
  defines "r \<equiv> round_even (quotient v) k"
  shows "f32_div (v, 0) (255, 0) = (r, int k - 65)" "2 ^ 23 \<le> r" "r \<le> 2 ^ 24"
    "uint (f32_to_bits (r, int k - 65)) = (int k + 84) * 2 ^ 23 + r"
proof -
  have nb: "nbits (quotient v) = 24 + k" using nbits_eq [of "23 + k" "quotient v"] k(3,4) by simp
  then show "f32_div (v, 0) (255, 0) = (r, int k - 65)"
    by (simp add: f32_round_def Let_def quotient_def [symmetric] r_def)
  have q0: "0 \<le> quotient v" using k(3) by (meson order_trans zero_le_numeral zero_le_power)
  have near: "2 * \<bar>r * 2 ^ k - quotient v\<bar> \<le> 2 ^ k" using round_even_near [OF q0] by (simp add: r_def)
  have "8388608 * 2 ^ k \<le> quotient v" "quotient v < 16777216 * 2 ^ k" using k(3,4) by (simp_all add: power_add)
  with near have "16777215 * (2 :: int) ^ k \<le> 2 * (r * 2 ^ k) \<and> 2 * (r * 2 ^ k) < 33554433 * 2 ^ k"
    by (rule near_bounds)
  then have "16777215 * (2 :: int) ^ k \<le> (2 * r) * 2 ^ k" "(2 * r) * 2 ^ k < 33554433 * 2 ^ k"
    by (simp_all only: mult.assoc)
  then have "16777215 \<le> 2 * r \<and> 2 * r < 33554433"
    by (intro conjI mult_right_le_imp_le [of 16777215 "2 ^ k" "2 * r"]
        mult_right_less_imp_less [of "2 * r" "2 ^ k" 33554433]) simp_all
  then show r: "2 ^ 23 \<le> r" "r \<le> 2 ^ 24" by simp_all
  have "24 - nbits r = 0"
    using nbits_eq [of 23 r] nbits_eq [of 24 r] r by (cases "r < 2 ^ 24") auto
  then have "f32_to_bits (r, int k - 65) = word_of_int ((int k + 84) * 2 ^ 23 + r)"
    using r by (simp add: Let_def push_bit_eq_mult algebra_simps)
  then show "uint (f32_to_bits (r, int k - 65)) = (int k + 84) * 2 ^ 23 + r"
    using k(2) r by (simp only:) (subst uint_word_small, simp_all)
qed


text \<open>The half a byte becomes, and how close it is.\<close>

lemma uint_or_fields:
  fixes a b :: u16
  assumes "uint a < 2 ^ k" "uint b * 2 ^ k < 2 ^ 16"
  shows "uint (push_bit k b OR a) = uint b * 2 ^ k + uint a"
proof -
  have "push_bit k b OR a = of_nat (unat a) OR push_bit k b" by (simp add: or.commute)
  then have "uint (push_bit k b OR a) = uint a OR uint (push_bit k b)" by (simp add: unsigned_or_eq or.commute)
  also have "uint (push_bit k b) = push_bit k (uint b)"
    using assms(2) by (simp only: unsigned_push_bit_eq) (simp add: push_bit_eq_mult take_bit_eq_mod)
  also have "uint a OR push_bit k (uint b) = concat_bit k (uint a) (uint b)"
    using assms(1) by (simp add: concat_bit_def take_bit_int_eq_self)
  also have "\<dots> = uint b * 2 ^ k + uint a"
    using assms(1) by (simp add: concat_bit_eq take_bit_int_eq_self push_bit_eq_mult)
  finally show ?thesis .
qed

lemma half_up_div:
  fixes m :: int
  shows "(m + 4096) div 8192 = m div 8192 + m div 4096 mod 2"
proof -
  have two: "n div 8192 = n div 4096 div 2" for n :: int using zdiv_zmult2_eq [of 2 n 4096] by simp
  have "(y + 1) div 2 = y div 2 + y mod 2" for y :: int by presburger
  moreover have "(m + 4096) div 4096 = m div 4096 + 1" by simp
  ultimately show ?thesis unfolding two by metis
qed

lemma round_bit_iff:
  fixes m :: u32
  shows "m AND F32_TO_F16_ROUND_BIT \<noteq> 0 \<longleftrightarrow> uint m div 4096 mod 2 = 1"
proof -
  have "m AND F32_TO_F16_ROUND_BIT \<noteq> 0 \<longleftrightarrow> bit m 12"
    unfolding bit_eq_iff by (auto simp: bit_simps mask_bits dest: spec [of _ 12])
  also have "\<dots> \<longleftrightarrow> odd (uint m div 2 ^ 12)" by (metis bit_iff_odd bit_uint_iff bit_imp_le_length)
  finally show ?thesis by (simp add: odd_iff_mod_2_eq_one)
qed

lemma ucast_push: "ucast (push_bit k (word_of_int e :: u32)) = push_bit k (word_of_int e :: u16)"
  by (rule bit_eqI) (auto simp: bit_simps)

lemma unorm8_to_f16_bits:
  assumes v: "uint v \<ge> 1" and k: "34 \<le> k" "k \<le> 42" "2 ^ (23 + k) \<le> quotient (uint v)" "quotient (uint v) < 2 ^ (24 + k)"
  defines "r \<equiv> round_even (quotient (uint v)) k"
  shows "uint (unorm8_to_f16_slow v) = (int k - 28) * 1024 + (r + 4096) div 8192"
proof -
  note d = unorm8_div_bits [OF k, folded r_def]
  define x where "x = f32_to_bits (r, int k - 65)"
  define X where "X = (int k + 84) * 2 ^ 23 + r"
  have ux: "uint x = X" unfolding x_def X_def by (rule d(4))
  have X: "118 * 2 ^ 23 \<le> X" "X < 129 * 2 ^ 23" using d(2,3) k(1,2) by (simp_all add: X_def)
  then have E: "118 \<le> X div 2 ^ 23" "X div 2 ^ 23 \<le> 128" by simp_all
  have "uint (drop_bit F32_EXP_SHIFT x AND F32_EXP_MASK) = X div 2 ^ 23 mod 256"
    unfolding F32_EXP_MASK_def mask_words uint_and_mask uint_drop_bit ux
    unfolding drop_bit_eq_div F32_EXP_SHIFT_def by simp
  then have e: "uint (drop_bit F32_EXP_SHIFT x AND F32_EXP_MASK) = X div 2 ^ 23" using E by simp
  have m: "uint (x AND F32_MANT_MASK) = X mod 2 ^ 23"
    unfolding half_defs mask_words uint_and_mask ux ..
  have sg: "ucast (drop_bit F16_F32_SIGN_SHIFT x) AND F16_SIGN_MASK = 0"
  proof -
    have "\<not> bit (uint x) 31" using ux X by (simp add: bit_iff_odd div_pos_pos_trivial)
    then have "\<not> bit x 31" by (simp add: bit_uint_iff)
    then show ?thesis by (intro bit_eqI) (auto simp: bit_simps mask_bits F16_F32_SIGN_SHIFT_def)
  qed
  define e where "e = X div 2 ^ 23 - 112"
  define h where "h = push_bit 10 (word_of_int e :: u16) OR ucast (drop_bit 13 (x AND F32_MANT_MASK))"
  have e_range: "6 \<le> e" "e \<le> 16" using E by (simp_all add: e_def)
  have slow: "unorm8_to_f16_slow v = (if (x AND F32_MANT_MASK) AND F32_TO_F16_ROUND_BIT \<noteq> 0 then h + 1 else h)"
  proof -
    have f: "f32_div (uint v, 0) (uint UNORM8_MAX, 0) = (r, int k - 65)" unfolding UNORM8_MAX_def using d(1) by simp
    have b: "uint (drop_bit F32_EXP_SHIFT x AND F32_EXP_MASK) - F32_EXP_BIAS + F16_EXP_BIAS = e"
      unfolding e by (simp add: e_def F32_EXP_BIAS_def F16_EXP_BIAS_def)
    have "uint F16_EXP_INF_NAN = 31" by (simp add: half_defs)
    moreover have "r \<noteq> 0" using d(2) by auto
    ultimately show ?thesis
      using e_range unfolding unorm8_to_f16_slow_def Let_def f x_def [symmetric] sg b fst_conv
      by (simp add: ucast_push h_def F16_EXP_SHIFT_def F16_F32_MANT_SHIFT_def)
  qed
  have "uint (ucast (drop_bit 13 (x AND F32_MANT_MASK)) :: u16) = X mod 2 ^ 23 div 8192"
  proof -
    have "uint (drop_bit 13 (x AND F32_MANT_MASK)) = X mod 2 ^ 23 div 8192"
      unfolding uint_drop_bit m unfolding drop_bit_eq_div by simp
    then show ?thesis by (simp add: unsigned_ucast_eq take_bit_eq_mod)
  qed
  moreover have "uint (word_of_int e :: u16) = e" using e_range by (simp add: uint_word_of_int)
  ultimately have h: "uint h = e * 1024 + X mod 2 ^ 23 div 8192"
    using e_range uint_or_fields [of "ucast (drop_bit 13 (x AND F32_MANT_MASK))" 10 "word_of_int e"] by (simp add: h_def)
  then have "uint h + 1 < 2 ^ 16" using e_range by simp
  then have "uint (h + 1) = uint h + 1" by (simp add: uint_word_ariths)
  then have "uint (unorm8_to_f16_slow v) = uint h + X mod 2 ^ 23 div 4096 mod 2"
    unfolding slow round_bit_iff m by auto
  also have "\<dots> = e * 1024 + (X mod 2 ^ 23 + 4096) div 8192" unfolding h half_up_div by simp
  also have "\<dots> = (X + 4096) div 8192 - 112 * 1024"
  proof -
    have "X + 4096 = (X mod 2 ^ 23 + 4096) + (X div 2 ^ 23 * 1024) * 8192" by simp
    then have "(X + 4096) div 8192 = (X mod 2 ^ 23 + 4096) div 8192 + X div 2 ^ 23 * 1024"
      by (metis div_mult_self1 add.commute zero_neq_numeral)
    then show ?thesis by (simp add: e_def)
  qed
  also have "(X + 4096) div 8192 = (r + 4096) div 8192 + (int k + 84) * 1024"
  proof -
    have "X + 4096 = (r + 4096) + ((int k + 84) * 1024) * 8192" by (simp add: X_def)
    then show ?thesis by (metis div_mult_self1 add.commute zero_neq_numeral)
  qed
  finally show ?thesis by simp
qed


lemma half_value_of_bits:
  assumes "uint h = (e - 1) * 1024 + w" "1 \<le> e" "e \<le> 29" "1024 \<le> w" "w \<le> 2048"
  shows "half_value h = real_of_int (w * 2 ^ nat e) / 2 ^ 25" "half_exp h \<noteq> 31"
proof -
  have "half_exp h = uint h div 1024 mod 32"
    unfolding half_exp_def mask_words uint_and_mask uint_drop_bit unfolding drop_bit_eq_div by simp
  moreover have "half_mant h = uint h mod 1024" unfolding half_mant_def mask_words uint_and_mask by simp
  moreover have "\<not> bit h 15"
  proof -
    have "uint h < 2 ^ 15" using assms by simp
    then have "\<not> bit (uint h) 15" by (simp add: bit_iff_odd div_pos_pos_trivial)
    then show ?thesis by (simp add: bit_uint_iff)
  qed
  ultimately have v: "half_value h = (if uint h div 1024 mod 32 = 0 then real_of_int (uint h mod 1024) / 2 ^ 24
      else real_of_int ((1024 + uint h mod 1024) * 2 ^ nat (uint h div 1024 mod 32)) / 2 ^ 25)"
      "half_exp h = uint h div 1024 mod 32"
    by (simp_all add: half_value_def half_sign_def)
  show "half_value h = real_of_int (w * 2 ^ nat e) / 2 ^ 25" "half_exp h \<noteq> 31"
  proof (atomize (full), cases "w = 2048")
    case True
    then have "uint h = (e + 1) * 1024" using assms(1) by simp
    then have "uint h div 1024 = e + 1" "uint h mod 1024 = 0" by simp_all
    moreover have "nat (e + 1) = Suc (nat e)" using assms(2) by simp
    ultimately show "half_value h = real_of_int (w * 2 ^ nat e) / 2 ^ 25 \<and> half_exp h \<noteq> 31"
      using v assms(2,3) True by simp
  next
    case False
    have "uint h = (w - 1024) + e * 1024" using assms(1) by simp
    then have "uint h div 1024 = (w - 1024) div 1024 + e" "uint h mod 1024 = (w - 1024) mod 1024" by simp_all
    moreover have "(w - 1024) div 1024 = 0" using False assms(4,5) by (intro div_pos_pos_trivial) simp_all
    moreover have "(w - 1024) mod 1024 = w - 1024" using False assms(4,5) by (intro mod_pos_pos_trivial) simp_all
    ultimately show "half_value h = real_of_int (w * 2 ^ nat e) / 2 ^ 25 \<and> half_exp h \<noteq> 31"
      using v assms(2,3) by simp
  qed
qed

lemma roundtrip_error:
  fixes w r q v p :: int
  assumes "\<bar>8192 * w - r\<bar> \<le> 4096" "2 * \<bar>r * p - q\<bar> \<le> p" "\<bar>255 * q - v * 2 ^ 65\<bar> \<le> 255" "0 < p" "p \<le> 2 ^ 42"
  shows "\<bar>255 * (8192 * w * p) - v * 2 ^ 65\<bar> < 2 ^ 64"
proof -
  have "\<bar>(8192 * w - r) * p\<bar> \<le> 4096 * p"
    using assms(1,4) by (simp add: abs_mult mult_right_mono)
  moreover have "255 * (8192 * w * p) - v * 2 ^ 65
      = 255 * ((8192 * w - r) * p) + 255 * (r * p - q) + (255 * q - v * 2 ^ 65)"
    by (simp add: algebra_simps)
  moreover have "\<bar>255 * x + 255 * y + z\<bar> \<le> 255 * \<bar>x\<bar> + 255 * \<bar>y\<bar> + \<bar>z\<bar>" for x y z :: int
    by arith
  moreover have "255 * (4096 * p) + 255 * p + 255 < 2 ^ 64" using assms(4,5) by simp
  ultimately show ?thesis using assms(2,3,4) by (smt (verit))
qed

lemma unorm8_roundtrip_nonzero:
  assumes "1 \<le> uint v"
  shows "f16_to_unorm8 (unorm8_to_f16_slow v) = v"
proof -
  have v: "uint v \<le> 255" using uint_lt2p [of v] by simp
  obtain k where k: "34 \<le> k" "k \<le> 42" "2 ^ (23 + k) \<le> quotient (uint v)" "quotient (uint v) < 2 ^ (24 + k)"
    by (rule quotient_binade [OF assms v])
  define r where "r = round_even (quotient (uint v)) k"
  define w where "w = (r + 4096) div 8192"
  define h where "h = unorm8_to_f16_slow v"
  have r: "2 ^ 23 \<le> r" "r \<le> 2 ^ 24" using unorm8_div_bits(2,3) [OF k] by (simp_all add: r_def)
  have h: "uint h = (int k - 28) * 1024 + w"
    using unorm8_to_f16_bits [OF assms k] by (simp add: h_def r_def w_def)
  have w: "1024 \<le> w" "w \<le> 2048" using r by (simp_all add: w_def)
  have val: "half_value h = real_of_int (w * 2 ^ nat (int k - 27)) / 2 ^ 25" "half_exp h \<noteq> 31"
    using half_value_of_bits [of h "int k - 27" w] h k(1,2) w by simp_all
  have "0 \<le> quotient (uint v)" using k(3) by (meson order_trans zero_le_numeral zero_le_power)
  from round_even_near [OF this, of k] have near: "2 * \<bar>r * 2 ^ k - quotient (uint v)\<bar> \<le> 2 ^ k"
    by (simp add: r_def)
  have "\<bar>8192 * w - r\<bar> \<le> 4096"
  proof -
    have "8192 * w + (r + 4096) mod 8192 = r + 4096" by (simp add: w_def)
    moreover have "0 \<le> (r + 4096) mod 8192" "(r + 4096) mod 8192 < 8192" by simp_all
    ultimately show ?thesis by arith
  qed
  from roundtrip_error [OF this near quotient_near]
  have "\<bar>255 * (8192 * w * 2 ^ k) - uint v * 2 ^ 65\<bar> < 2 ^ 64"
    using k(2) power_increasing [of k 42 "2 :: int"] by simp
  moreover have "8192 * w * 2 ^ k = w * 2 ^ nat (int k - 27) * 2 ^ 40"
  proof -
    have "k = nat (int k - 27) + 27" using k(1) by simp
    then have "(2 :: int) ^ k = 2 ^ nat (int k - 27) * 2 ^ 27" by (metis power_add)
    then show ?thesis by simp
  qed
  ultimately have "\<bar>255 * (w * 2 ^ nat (int k - 27)) - uint v * 2 ^ 25\<bar> < 2 ^ 24" by simp
  then have "\<bar>real_of_int (255 * (w * 2 ^ nat (int k - 27)) - uint v * 2 ^ 25)\<bar> < 2 ^ 24"
    by (metis of_int_abs of_int_less_iff of_int_numeral of_int_power)
  then have "\<bar>255 * half_value h - real_of_int (uint v)\<bar> < 1 / 2"
    unfolding val(1) by (simp add: abs_less_iff field_simps)
  then have "\<lfloor>255 * half_value h + 1 / 2\<rfloor> = uint v"
    unfolding abs_less_iff by (intro floor_unique; linarith)
  then have "uint (f16_to_unorm8 h) = uint v"
    using f16_to_unorm8_rounds_finite [OF val(2)] v by simp
  then show ?thesis by (simp add: h_def word_uint_eq_iff)
qed

lemma unorm8_to_f16_zero: "unorm8_to_f16_slow 0 = 0"
  by (simp add: unorm8_to_f16_slow_def half_defs UNORM8_MAX_def f32_round_def round_even_def nbits.simps Let_def)

lemma f16_to_unorm8_zero: "f16_to_unorm8 0 = 0"
  using f16_to_unorm8_rounds_finite [of 0] by (simp add: half_exp_def half_value_def half_mant_def word_uint_eq_iff)

lemma unorm8_f16_inverse [simp]: "f16_to_unorm8 (unorm8_to_f16_slow v) = v"
proof (cases "v = 0")
  case False
  then have "1 \<le> uint v" by (simp add: word_uint_eq_iff) (use uint_ge_0 [of v] in linarith)
  then show ?thesis by (rule unorm8_roundtrip_nonzero)
qed (simp add: unorm8_to_f16_zero f16_to_unorm8_zero)

text \<open>The two conversion tables are inverse over every byte: the half a byte is stored as, read
  back through the half-to-byte table, is the byte, although the division, both roundings and the
  truncations of the code lie between.\<close>

theorem unorm8_f16_roundtrip: "f16_to_unorm8 (unorm8_to_f16_slow v) = v"
  by (rule unorm8_f16_inverse)

end
