(* ===== verification/TexelFacts.thy ===== *)
theory TexelFacts
  imports Texels HalfFacts
begin

text \<open>
  The row converters work texel by texel: a loop that writes consecutive texels is the
  concatenation of their bytes, and each converter is described by the bytes of one texel.
\<close>

section \<open>Loops over consecutive texels\<close>

definition chunk :: "nat \<Rightarrow> nat \<Rightarrow> 'a list \<Rightarrow> 'a list" where
  "chunk k i xs = take k (drop (i * k) xs)"

lemma length_chunk: "n * k \<le> length xs \<Longrightarrow> i < n \<Longrightarrow> length (chunk k i xs) = k"
proof -
  assume a: "n * k \<le> length xs" "i < n"
  then have "Suc i * k \<le> n * k" by (intro mult_le_mono1) simp
  with a show ?thesis by (simp add: chunk_def)
qed

lemma length_put [simp]: "a + length ys \<le> length xs \<Longrightarrow> length (put xs a ys) = length xs"
  by (simp add: put_def)

lemma for_each_append:
  "for_each f (is @ js) s = obind (for_each f is s) (\<lambda>(go, s). if go then for_each f js s else Ok (False, s))"
proof (induction "is" arbitrary: s)
  case (Cons i "is")
  then show ?case by (cases "f i s") auto
qed simp

lemma for_each_total:
  assumes "\<And>i d. i \<in> set is \<Longrightarrow> P d \<Longrightarrow> \<exists>b d'. f i d = Ok (b, d') \<and> P d'" "P d"
  shows "\<exists>b d'. for_each f is d = Ok (b, d') \<and> P d'"
  using assms
proof (induction "is" arbitrary: d)
  case (Cons i "is")
  obtain b d' where d': "f i d = Ok (b, d')" "P d'"
    using Cons.prems(1) [OF _ Cons.prems(2), of i] by auto
  show ?case
  proof (cases b)
    case True
    with Cons.IH [OF Cons.prems(1) d'(2)] d' show ?thesis by simp
  next
    case False
    with d' show ?thesis by (intro exI [of _ False] exI [of _ d']) simp
  qed
qed (auto intro: exI [of _ True])

lemma length_texels: "(\<And>i. i < n \<Longrightarrow> length (t i) = k) \<Longrightarrow> length (concat (map t [0..<n])) = n * k"
  by (induction n) (simp_all add: add.commute)

text \<open>A loop that rewrites the texels one after the other.\<close>

lemma for_each_rewrite:
  assumes step: "\<And>i d. i < n \<Longrightarrow> length d = length dst \<Longrightarrow> f i d = Ok (True, put d (i * k) (g i (chunk k i d)))"
    and len: "\<And>i c. i < n \<Longrightarrow> length c = k \<Longrightarrow> length (g i c) = k" and n: "n * k \<le> length dst"
  shows "for_each f [0..<n] dst
    = Ok (True, concat (map (\<lambda>i. g i (chunk k i dst)) [0..<n]) @ drop (n * k) dst)"
  using assms
proof (induction n)
  case (Suc n)
  let ?c = "concat (map (\<lambda>i. g i (chunk k i dst)) [0..<n])"
  let ?d = "?c @ drop (n * k) dst" and ?t = "g n (chunk k n dst)"
  have ih: "for_each f [0..<n] dst = Ok (True, ?d)" using Suc by simp
  have c: "length ?c = n * k"
    using Suc.prems(2,3) length_chunk [of n k dst] by (intro length_texels) simp
  then have "length ?d = length dst" "chunk k n ?d = chunk k n dst"
    using Suc.prems(3) by (simp_all add: chunk_def)
  then have "f n ?d = Ok (True, put ?d (n * k) ?t)" using Suc.prems(1) [of n ?d] by simp
  moreover have "length ?t = k" using Suc.prems(2,3) length_chunk [of "Suc n" k dst n] by simp
  ultimately show ?case
    using ih c by (simp add: for_each_append put_def add.commute)
qed simp

lemma for_each_texels:
  assumes "\<And>i d. i < n \<Longrightarrow> length d = length dst \<Longrightarrow> f i d = Ok (True, put d (i * k) (t i))"
    "\<And>i. i < n \<Longrightarrow> length (t i) = k" "n * k \<le> length dst"
  shows "for_each f [0..<n] dst = Ok (True, concat (map t [0..<n]) @ drop (n * k) dst)"
  using for_each_rewrite [of n dst f k "\<lambda>i _. t i"] assms by simp

lemma chunk_texels:
  assumes "\<And>i. i < n \<Longrightarrow> length (t i) = k" "i < n"
  shows "chunk k i (concat (map t [0..<n]) @ rest) = t i"
proof -
  have "[0..<n] = [0..<i] @ i # [Suc i..<n]"
    using assms(2) by (metis le_add1 less_imp_add_positive upt_add_eq_append upt_conv_Cons plus_nat.add_0 zero_le less_imp_le_nat)
  then have "concat (map t [0..<n]) = concat (map t [0..<i]) @ t i @ concat (map t [Suc i..<n])"
    by simp
  moreover have "length (concat (map t [0..<i])) = i * k" using assms by (intro length_texels) simp
  ultimately show ?thesis using assms by (simp add: chunk_def)
qed

lemma texels_of_take:
  assumes "n * k \<le> length xs"
  shows "concat (map (\<lambda>i. chunk k i xs) [0..<n]) = take (n * k) xs"
  using assms
proof (induction n)
  case (Suc n)
  then show ?case by (simp add: chunk_def take_add [symmetric] add.commute)
qed simp

section \<open>One texel\<close>

text \<open>The layout a renderable format stores its texels in, the bytes of a texel, how they read back,
  and which channels survive.\<close>

definition render_layout :: "u16 \<Rightarrow> texel_layout option" where
  "render_layout format =
     (if format \<in> {MTL_FORMAT_RGBA8_UNORM, MTL_FORMAT_RGBA8_UNORM_SRGB} then Some Rgba8
      else if format \<in> {MTL_FORMAT_BGRA8_UNORM, MTL_FORMAT_BGRA8_UNORM_SRGB} then Some Bgra8
      else if format = MTL_FORMAT_RGBA16_FLOAT then Some Rgba16Float
      else if format = MTL_FORMAT_RG16_FLOAT then Some Rg16Float
      else if format = MTL_FORMAT_R16_FLOAT then Some R16Float
      else if format = MTL_FORMAT_R8_UNORM then Some R8
      else None)"

abbreviation half_bytes :: "u8 list \<Rightarrow> u8 list" where
  "half_bytes cs \<equiv> concat (map (bytes16 \<circ> unorm8_to_f16_slow) cs)"

fun texel_bytes :: "texel_layout \<Rightarrow> u8 four \<Rightarrow> u8 list" where
  "texel_bytes Rgba8 (r, g, b, a) = [r, g, b, a]"
| "texel_bytes Bgra8 (r, g, b, a) = [b, g, r, a]"
| "texel_bytes Rgba16Float (r, g, b, a) = half_bytes [r, g, b, a]"
| "texel_bytes Rg16Float (r, g, b, a) = half_bytes [r, g]"
| "texel_bytes R16Float (r, g, b, a) = half_bytes [r]"
| "texel_bytes R8 (r, g, b, a) = [r]"
| "texel_bytes _ _ = []"

definition read_half :: "u8 list \<Rightarrow> nat \<Rightarrow> u8" where
  "read_half bs i = f16_to_unorm8 (le_word (take 2 (drop i bs)))"

fun texel_read :: "texel_layout \<Rightarrow> u8 list \<Rightarrow> u8 four" where
  "texel_read Rgba8 bs = (bs ! 0, bs ! 1, bs ! 2, bs ! 3)"
| "texel_read Bgra8 bs = (bs ! 2, bs ! 1, bs ! 0, bs ! 3)"
| "texel_read Rgba16Float bs = (read_half bs 0, read_half bs 2, read_half bs 4, read_half bs 6)"
| "texel_read Rg16Float bs = (read_half bs 0, read_half bs 2, 0, UNORM8_MAX)"
| "texel_read R16Float bs = (read_half bs 0, 0, 0, UNORM8_MAX)"
| "texel_read R8 bs = (bs ! 0, 0, 0, UNORM8_MAX)"
| "texel_read _ bs = (0, 0, 0, 0)"

fun kept_channels :: "texel_layout \<Rightarrow> u8 four \<Rightarrow> u8 four" where
  "kept_channels Rg16Float (r, g, b, a) = (r, g, 0, UNORM8_MAX)"
| "kept_channels R16Float (r, g, b, a) = (r, 0, 0, UNORM8_MAX)"
| "kept_channels R8 (r, g, b, a) = (r, 0, 0, UNORM8_MAX)"
| "kept_channels _ rgba = rgba"

definition renderable :: "texel_layout \<Rightarrow> bool" where
  "renderable l \<longleftrightarrow> l \<in> {Rgba8, Bgra8, Rgba16Float, Rg16Float, R16Float, R8}"

lemma render_layout_width:
  "render_layout format = Some l \<Longrightarrow> renderable l \<and> bytes_per_pixel format = Some (bytes_per_texel l)"
  by (auto simp: render_layout_def renderable_def bytes_per_pixel_def format_defs split: if_splits)

lemma render_layout_iff: "render_layout format \<noteq> None \<longleftrightarrow> render_target_bpp format \<noteq> None"
  by (auto simp: render_layout_def render_target_bpp_def)

lemma length_bytes16 [simp]: "length (bytes16 v) = 2" "length (bytes32 w) = 4"
  by (simp_all add: bytes16_def bytes32_def)

lemma bytes16_word [simp]: "le_word (bytes16 v) = v"
  by (simp add: bytes16_def le_word_store)

lemma length_texel_bytes: "renderable l \<Longrightarrow> length (texel_bytes l px) = unat (bytes_per_texel l)"
  by (cases px) (auto simp: renderable_def width_defs)

lemma texel_roundtrip: "renderable l \<Longrightarrow> texel_read l (texel_bytes l px) = kept_channels l px"
  by (cases px) (auto simp: renderable_def read_half_def)


section \<open>Reading a pixel\<close>

definition pixel :: "u8 list \<Rightarrow> nat \<Rightarrow> u8 four" where
  "pixel bs i = (bs ! (i * 4), bs ! (i * 4 + 1), bs ! (i * 4 + 2), bs ! (i * 4 + 3))"

lemma index_at_ok [simp]: "i < length xs \<Longrightarrow> index_at xs i = Ok (xs ! i)"
  by (simp add: index_at_def)

lemma sub_slice_ok [simp]: "a \<le> b \<Longrightarrow> b \<le> length xs \<Longrightarrow> sub_slice xs a b = Ok (take (b - a) (drop a xs))"
  by (simp add: sub_slice_def)

lemma write_at_ok [simp]: "a + length ys \<le> length xs \<Longrightarrow> write_at xs a ys = Ok (put xs a ys)"
  by (simp add: write_at_def)

lemma written_Ok [simp]: "written (Ok d) = Ok (True, d)"
  by (simp add: written_def)

lemma rgba_at_ok [simp]: "off + 4 \<le> length xs \<Longrightarrow> rgba_at xs off = Ok (xs ! off, xs ! (off + 1), xs ! (off + 2), xs ! (off + 3))"
  by (simp add: rgba_at_def)

lemma take_two: "take (Suc (Suc 0)) xs = take 2 xs"
  by (simp add: numeral_2_eq_2)

lemma nth_two: "xs ! Suc (Suc 0) = xs ! 2"
  by (simp add: numeral_2_eq_2)

lemma half_at_ok [simp]: "off + 2 \<le> length xs \<Longrightarrow> half_at xs off = Ok (le_word (take 2 (drop off xs)))"
  by (auto simp: half_at_def ld16_def)

lemma row_room: "i < n \<Longrightarrow> n * k \<le> len \<Longrightarrow> i * k + k \<le> (len :: nat)"
proof -
  assume a: "i < n" "n * k \<le> len"
  then have "Suc i * k \<le> n * k" by (intro mult_le_mono1) simp
  with a(2) show ?thesis by simp
qed

lemma usize_mul_small: "a < 2 ^ 32 \<Longrightarrow> b \<le> 16 \<Longrightarrow> usize_mul a b = Some (a * b)"
proof -
  assume "a < 2 ^ 32" "b \<le> 16"
  then have "a * b \<le> 2 ^ 32 * 16" by (intro mult_le_mono) simp_all
  then show ?thesis by (simp add: usize_mul_def)
qed

lemma checked_mul_pixels:
  assumes "unat (n :: u32) \<le> 16"
  shows "\<exists>w. checked_mul (ucast (px :: u32) :: u64) (ucast n) = Some w \<and> unat w = unat px * unat n"
proof -
  have "unat px * unat n \<le> 2 ^ 32 * 16" using assms unat_lt2p [of px] by (intro mult_le_mono) simp_all
  then show ?thesis by (simp add: checked_mul_def unat_mult_no_wrap)
qed

lemma layout_width: "unat (bytes_per_texel l) \<le> 16" "0 < unat (bytes_per_texel l)"
  by (cases l; simp add: width_defs)+

lemma format_width: "bytes_per_pixel format = Some n \<Longrightarrow> unat n \<le> 16 \<and> 0 < unat n"
  by (auto simp: bytes_per_pixel_def width_defs split: if_splits)

lemma length_bytes4 [simp]: "length (bytes4 x) = 4"
  by (cases x) simp

section \<open>Layout converters\<close>

definition encode_row :: "texel_layout \<Rightarrow> u8 list \<Rightarrow> nat \<Rightarrow> u8 list" where
  "encode_row l src n = concat (map (\<lambda>i. texel_bytes l (pixel src i)) [0..<n])"

definition decode_row :: "texel_layout \<Rightarrow> u8 list \<Rightarrow> nat \<Rightarrow> u8 list" where
  "decode_row l src n = concat (map (\<lambda>i. bytes4 (texel_read l (chunk (unat (bytes_per_texel l)) i src))) [0..<n])"

lemma bytes4_pixel: "n * 4 \<le> length src \<Longrightarrow> i < n \<Longrightarrow> bytes4 (pixel src i) = chunk 4 i src"
proof -
  assume "n * 4 \<le> length src" "i < n"
  then have "i * 4 + 4 \<le> length src" by simp
  then show ?thesis
    by (intro nth_equalityI) (auto simp: pixel_def chunk_def nth_Cons' numeral_eq_Suc less_Suc_eq)
qed

lemma take_rows: "n * 4 \<le> length src \<Longrightarrow> concat (map (\<lambda>i. bytes4 (pixel src i)) [0..<n]) = take (n * 4) src"
proof -
  assume a: "n * 4 \<le> length src"
  then have "map (\<lambda>i. bytes4 (pixel src i)) [0..<n] = map (\<lambda>i. chunk 4 i src) [0..<n]"
    using bytes4_pixel by (intro map_cong) simp_all
  with texels_of_take [OF a] show ?thesis by (simp only:)
qed

lemma expand_ok:
  assumes l: "renderable l"
  shows "expand_rgba8_to_texel l src pixels dst =
    (if length src < unat pixels * 4 \<or> length dst < unat pixels * unat (bytes_per_texel l) then Ok (False, dst)
     else Ok (True, encode_row l src (unat pixels) @ drop (unat pixels * unat (bytes_per_texel l)) dst))"
proof (cases "length src < unat pixels * 4 \<or> length dst < unat pixels * unat (bytes_per_texel l)")
  case False
  let ?n = "unat pixels" and ?k = "unat (bytes_per_texel l)"
  have n: "?n < 2 ^ 32" using unat_lt2p [of pixels] by simp
  have room: "?n * 4 \<le> length src" "?n * ?k \<le> length dst" using False by simp_all
  have loop: "for_each f [0..<?n] dst = Ok (True, encode_row l src ?n @ drop (?n * ?k) dst)"
    if "\<And>i d. i < ?n \<Longrightarrow> i * 4 + 4 \<le> length src \<Longrightarrow> i * ?k + ?k \<le> length d \<Longrightarrow>
          f i d = Ok (True, put d (i * ?k) (texel_bytes l (pixel src i)))" for f
    unfolding encode_row_def
    using that room row_room [of _ ?n] by (intro for_each_texels) (simp_all add: length_texel_bytes l)
  have u: "usize_mul ?n ?k = Some (?n * ?k)" "usize_mul ?n (unat RGBA8_BPP) = Some (?n * 4)"
    using usize_mul_small [OF n layout_width(1)] usize_mul_small [OF n, of 4] by (simp_all add: RGBA8_BPP_def)
  note d = pixel_def width_defs
  note e = expand_rgba8_to_texel_def Let_def u option.case
  show ?thesis
  proof (cases l)
    case Rgba8
    then have "encode_row l src ?n = take (?n * 4) src"
      using take_rows [OF room(1)] unfolding encode_row_def by (simp add: pixel_def)
    with Rgba8 show ?thesis using room unfolding e by (simp add: d put_def)
  next
    case Bgra8
    show ?thesis using room unfolding e unfolding Bgra8 by (simp add: d, subst loop [unfolded Bgra8]) (auto simp: d)
  next
    case Rgba16Float
    show ?thesis using room unfolding e unfolding Rgba16Float by (simp add: d, subst loop [unfolded Rgba16Float]) (auto simp: d)
  next
    case Rg16Float
    show ?thesis using room unfolding e unfolding Rg16Float by (simp add: d, subst loop [unfolded Rg16Float]) (auto simp: d)
  next
    case R16Float
    show ?thesis using room unfolding e unfolding R16Float by (simp add: d, subst loop [unfolded R16Float]) (auto simp: d)
  next
    case R8
    show ?thesis using room unfolding e unfolding R8 by (simp add: d, subst loop [unfolded R8]) (auto simp: d)
  qed (use l in \<open>simp_all add: renderable_def\<close>)
next
  case True
  then show ?thesis
    using usize_mul_small [OF _ layout_width(1)] usize_mul_small [of "unat pixels" 4] unat_lt2p [of pixels]
    by (auto simp: expand_rgba8_to_texel_def width_defs)
qed


lemma read_half_chunk:
  "j + 2 \<le> k \<Longrightarrow> i * k + k \<le> length src \<Longrightarrow> f16_to_unorm8 (le_word (take 2 (drop (i * k + j) src))) = read_half (chunk k i src) j"
  by (simp add: read_half_def chunk_def drop_take add.commute)

lemmas read_half_first = read_half_chunk [of 0, simplified] read_half_chunk [of 2, simplified]

lemma bytes4_read: "length c = 4 \<Longrightarrow> bytes4 (texel_read Rgba8 c) = c"
  by (auto simp: length_Suc_conv numeral_eq_Suc)

lemma narrow_ok:
  assumes l: "renderable l"
  shows "narrow_texel_to_rgba8 l src pixels dst =
    (if length src < unat pixels * unat (bytes_per_texel l) \<or> length dst < unat pixels * 4 then Ok (False, dst)
     else Ok (True, decode_row l src (unat pixels) @ drop (unat pixels * 4) dst))"
proof (cases "length src < unat pixels * unat (bytes_per_texel l) \<or> length dst < unat pixels * 4")
  case False
  let ?n = "unat pixels" and ?k = "unat (bytes_per_texel l)"
  have n: "?n < 2 ^ 32" using unat_lt2p [of pixels] by simp
  have room: "?n * ?k \<le> length src" "?n * 4 \<le> length dst" using False by simp_all
  have loop: "for_each f [0..<?n] dst = Ok (True, decode_row l src ?n @ drop (?n * 4) dst)"
    if "\<And>i d. i < ?n \<Longrightarrow> i * ?k + ?k \<le> length src \<Longrightarrow> i * 4 + 4 \<le> length d \<Longrightarrow>
          f i d = Ok (True, put d (i * 4) (bytes4 (texel_read l (chunk ?k i src))))" for f
    unfolding decode_row_def
    using that room row_room [of _ ?n] by (intro for_each_texels) simp_all
  have u: "usize_mul ?n ?k = Some (?n * ?k)" "usize_mul ?n (unat RGBA8_BPP) = Some (?n * 4)"
    using usize_mul_small [OF n layout_width(1)] usize_mul_small [OF n, of 4] by (simp_all add: RGBA8_BPP_def)
  note d = width_defs
  note e = narrow_texel_to_rgba8_def Let_def u option.case
  show ?thesis
  proof (cases l)
    case Rgba8
    have "bytes4 (texel_read Rgba8 (chunk 4 i src)) = chunk 4 i src" if "i < ?n" for i
      using length_chunk [of ?n 4 src i] room(1) that by (intro bytes4_read) (simp add: Rgba8 d)
    then have m: "map (\<lambda>i. bytes4 (texel_read Rgba8 (chunk 4 i src))) [0..<?n] = map (\<lambda>i. chunk 4 i src) [0..<?n]"
      by (intro map_cong) simp_all
    have k4: "unat (bytes_per_texel Rgba8) = 4" by (simp add: d)
    have "decode_row Rgba8 src ?n = take (?n * 4) src"
      using texels_of_take [of ?n 4 src] room(1) unfolding decode_row_def k4 m Rgba8 by (simp add: d)
    then show ?thesis using room unfolding e unfolding Rgba8 by (simp add: d put_def)
  next
    case Bgra8
    show ?thesis using room unfolding e unfolding Bgra8
      by (simp add: d, subst loop [unfolded Bgra8]) (auto simp: d chunk_def)
  next
    case Rgba16Float
    show ?thesis using room unfolding e unfolding Rgba16Float
      by (simp add: d, subst loop [unfolded Rgba16Float]) (auto simp: d read_half_chunk read_half_first)
  next
    case Rg16Float
    show ?thesis using room unfolding e unfolding Rg16Float
      by (simp add: d, subst loop [unfolded Rg16Float]) (auto simp: d read_half_chunk read_half_first)
  next
    case R16Float
    show ?thesis using room unfolding e unfolding R16Float
      by (simp add: d, subst loop [unfolded R16Float]) (auto simp: d read_half_chunk read_half_first)
  next
    case R8
    show ?thesis using room unfolding e unfolding R8
      by (simp add: d, subst loop [unfolded R8]) (auto simp: d chunk_def)
  qed (use l in \<open>simp_all add: renderable_def\<close>)
next
  case True
  then show ?thesis
    using usize_mul_small [OF _ layout_width(1)] usize_mul_small [of "unat pixels" 4] unat_lt2p [of pixels]
    by (auto simp: narrow_texel_to_rgba8_def width_defs)
qed


section \<open>Format converters\<close>

lemma rgba8_to_texel_ok:
  assumes "render_layout format = Some l" "length dst = unat (bytes_per_texel l)"
  shows "rgba8_to_texel format px dst = Ok (True, texel_bytes l px)"
  using assms render_layout_width [OF assms(1)]
  by (cases px) (auto simp: render_layout_def put_def width_defs number_defs split: if_splits)

lemma texel_to_rgba8_ok:
  assumes "render_layout format = Some l" "length src = unat (bytes_per_texel l)"
  shows "texel_to_rgba8 format src = Ok (if format = MTL_FORMAT_R16_FLOAT then None else Some (texel_read l src))"
  using assms render_layout_width [OF assms(1)]
  by (auto simp: render_layout_def texel_to_rgba8_def read_half_def width_defs number_defs nth_two split: if_splits)

lemma convert_rgba8_to_row_ok:
  assumes l: "render_layout format = Some l"
  shows "convert_rgba8_to_row format src pixels dst =
    (if length src < unat pixels * 4 \<or> length dst < unat pixels * unat (bytes_per_texel l) then Ok (False, dst)
     else Ok (True, encode_row l src (unat pixels) @ drop (unat pixels * unat (bytes_per_texel l)) dst))"
proof -
  let ?n = "unat pixels" and ?k = "unat (bytes_per_texel l)"
  have w: "bytes_per_pixel format = Some (bytes_per_texel l)" and r: "renderable l"
    using render_layout_width [OF l] by simp_all
  obtain sl where sl: "checked_mul (ucast pixels :: u64) (ucast RGBA8_BPP) = Some sl" "unat sl = ?n * 4"
    using checked_mul_pixels [of RGBA8_BPP pixels] by (auto simp: RGBA8_BPP_def)
  obtain dl where dl: "checked_mul (ucast pixels :: u64) (ucast (bytes_per_texel l)) = Some dl" "unat dl = ?n * ?k"
    using checked_mul_pixels [OF layout_width(1)] by blast
  note e = convert_rgba8_to_row_def w sl(1) dl(1) option.case sl(2) dl(2)
  have loop: "for_each f [0..<?n] dst = Ok (True, encode_row l src ?n @ drop (?n * ?k) dst)"
    if "?n * 4 \<le> length src" "?n * ?k \<le> length dst"
      "\<And>i d. i < ?n \<Longrightarrow> i * 4 + 4 \<le> length src \<Longrightarrow> i * ?k + ?k \<le> length d \<Longrightarrow>
          f i d = Ok (True, put d (i * ?k) (texel_bytes l (pixel src i)))" for f
    unfolding encode_row_def
    using that row_room [of _ ?n] by (intro for_each_texels) (simp_all add: length_texel_bytes r)
  show ?thesis
  proof (cases "format = MTL_FORMAT_RGBA16_FLOAT")
    case True
    then have k: "l = Rgba16Float" using l by (auto simp: render_layout_def number_defs)
    have "for_each (\<lambda>i dst. obind (rgba_at src (i * 4)) (\<lambda>(r, g, b, a).
        written (write_at dst (i * 8) (half_bytes [r, g, b, a])))) [0..<?n] dst
        = Ok (True, encode_row l src ?n @ drop (?n * ?k) dst)"
      if "?n * 4 \<le> length src" "?n * ?k \<le> length dst"
      using that by (intro loop) (auto simp: k pixel_def width_defs)
    then show ?thesis unfolding e using True by (auto simp: encode_row_def)
  next
    case False
    have "obind (rgba_at src (i * 4)) (\<lambda>rgba. obind (sub_slice d (i * ?k) (i * ?k + ?k)) (\<lambda>t.
        obind (rgba8_to_texel format rgba t) (\<lambda>(ok, t). obind (write_at d (i * ?k) t) (\<lambda>d. Ok (ok, d)))))
        = Ok (True, put d (i * ?k) (texel_bytes l (pixel src i)))"
      if "i * 4 + 4 \<le> length src" "i * ?k + ?k \<le> length d" for i d
      using that rgba8_to_texel_ok [OF l, of "take ?k (drop (i * ?k) d)"]
      by (simp add: pixel_def length_texel_bytes r)
    from loop [OF _ _ this] show ?thesis unfolding e using False
      by (auto simp: encode_row_def)
  qed
qed


lemma row_order: "row_walk_backward a b c d False = False"
  by (simp add: row_walk_backward_def)

lemma convert_row_to_rgba8_ok:
  assumes l: "render_layout format = Some l" "format \<noteq> MTL_FORMAT_R16_FLOAT"
  shows "convert_row_to_rgba8 format src pixels dst =
    (if length src < unat pixels * unat (bytes_per_texel l) \<or> length dst < unat pixels * 4 then Ok (False, dst)
     else Ok (True, decode_row l src (unat pixels) @ drop (unat pixels * 4) dst))"
proof -
  let ?n = "unat pixels" and ?k = "unat (bytes_per_texel l)"
  have w: "bytes_per_pixel format = Some (bytes_per_texel l)" and r: "renderable l"
    using render_layout_width [OF l(1)] by simp_all
  obtain sl where sl: "checked_mul (ucast pixels :: u64) (ucast (bytes_per_texel l)) = Some sl" "unat sl = ?n * ?k"
    using checked_mul_pixels [OF layout_width(1)] by blast
  obtain dl where dl: "checked_mul (ucast pixels :: u64) (ucast RGBA8_BPP) = Some dl" "unat dl = ?n * 4"
    using checked_mul_pixels [of RGBA8_BPP pixels] by (auto simp: RGBA8_BPP_def)
  note e = convert_row_to_rgba8_def convert_row_to_rgba8_ex_def w sl(1) dl(1) option.case sl(2) dl(2)
    Let_def row_order if_False
  have loop: "for_each f [0..<?n] dst = Ok (True, decode_row l src ?n @ drop (?n * 4) dst)"
    if "?n * ?k \<le> length src" "?n * 4 \<le> length dst"
      "\<And>i d. i < ?n \<Longrightarrow> i * ?k + ?k \<le> length src \<Longrightarrow> i * 4 + 4 \<le> length d \<Longrightarrow>
          f i d = Ok (True, put d (i * 4) (bytes4 (texel_read l (chunk ?k i src))))" for f
    unfolding decode_row_def
    using that row_room [of _ ?n] by (intro for_each_texels) simp_all
  show ?thesis
  proof (cases "format = MTL_FORMAT_RGBA16_FLOAT")
    case True
    then have k: "l = Rgba16Float" using l by (auto simp: render_layout_def number_defs)
    have "for_each (\<lambda>i dst. obind (half_at src (i * 8)) (\<lambda>r. obind (half_at src (i * 8 + 2)) (\<lambda>g.
        obind (half_at src (i * 8 + 4)) (\<lambda>b. obind (half_at src (i * 8 + 6)) (\<lambda>a.
        written (write_at dst (i * 4) (map f16_to_unorm8 [r, g, b, a]))))))) [0..<?n] dst
        = Ok (True, decode_row l src ?n @ drop (?n * 4) dst)"
      if "?n * ?k \<le> length src" "?n * 4 \<le> length dst"
      using that by (intro loop) (auto simp: k width_defs read_half_chunk read_half_first)
    then show ?thesis unfolding e using True by (auto simp: decode_row_def)
  next
    case False
    have "obind (sub_slice src (i * ?k) (i * ?k + ?k)) (\<lambda>t. obind (texel_to_rgba8 format t) (\<lambda>rgba. case rgba of
        None \<Rightarrow> Ok (False, d) | Some rgba \<Rightarrow> written (write_at d (i * 4) (bytes4 rgba))))
        = Ok (True, put d (i * 4) (bytes4 (texel_read l (chunk ?k i src))))"
      if "i * ?k + ?k \<le> length src" "i * 4 + 4 \<le> length d" for i d
      using that texel_to_rgba8_ok [OF l(1), of "take ?k (drop (i * ?k) src)"] l(2)
      by (simp add: chunk_def)
    from loop [OF _ _ this] show ?thesis unfolding e using False
      by (auto simp: decode_row_def)
  qed
qed

text \<open>Decoding an encoded row.\<close>

lemma decode_encode:
  assumes l: "renderable l"
  shows "decode_row l (encode_row l src n @ rest) n = concat (map (\<lambda>i. bytes4 (kept_channels l (pixel src i))) [0..<n])"
proof -
  have "chunk (unat (bytes_per_texel l)) i (encode_row l src n @ rest) = texel_bytes l (pixel src i)" if "i < n" for i
    unfolding encode_row_def by (rule chunk_texels) (simp_all add: that length_texel_bytes [OF l])
  then have "map (\<lambda>i. bytes4 (texel_read l (chunk (unat (bytes_per_texel l)) i (encode_row l src n @ rest)))) [0..<n]
      = map (\<lambda>i. bytes4 (kept_channels l (pixel src i))) [0..<n]"
    by (intro map_cong) (simp_all add: texel_roundtrip [OF l])
  then show ?thesis by (simp only: decode_row_def)
qed

lemma length_encode_row: "renderable l \<Longrightarrow> length (encode_row l src n) = n * unat (bytes_per_texel l)"
  unfolding encode_row_def by (rule length_texels) (rule length_texel_bytes)

text \<open>C35: A render target's seed and its Store write the same bytes: for every renderable format,
  expanding an RGBA8 frame into the format's layout and converting it row-wise into the format give
  equal results on every input, too-short buffers included: they refuse together, leaving the
  destination alone, and otherwise both return the texels followed by the untouched tail. Neither
  panics.\<close>

theorem seed_is_store:
  assumes "render_layout format = Some l"
  shows "expand_rgba8_to_texel l src pixels dst = convert_rgba8_to_row format src pixels dst
    \<and> (\<exists>ok out. convert_rgba8_to_row format src pixels dst = Ok (ok, out) \<and> length out = length dst
          \<and> (ok \<longleftrightarrow> unat pixels * 4 \<le> length src \<and> unat pixels * unat (bytes_per_texel l) \<le> length dst)
          \<and> (\<not> ok \<longrightarrow> out = dst))"
  using render_layout_width [OF assms] expand_ok [of l src pixels dst] convert_rgba8_to_row_ok [OF assms]
  by (auto simp: length_encode_row)

theorem seed_is_store_witness:
  "render_layout MTL_FORMAT_BGRA8_UNORM = Some Bgra8
    \<and> expand_rgba8_to_texel Bgra8 [1, 2, 3, 4, 5] 1 [0, 0, 0, 0, 9]
        = convert_rgba8_to_row MTL_FORMAT_BGRA8_UNORM [1, 2, 3, 4, 5] 1 [0, 0, 0, 0, 9]"
  using seed_is_store [of MTL_FORMAT_BGRA8_UNORM Bgra8] by (simp add: render_layout_def number_defs)

lemma r16_row_refused:
  assumes len: "unat pixels * unat (bytes_per_texel l) \<le> length row" and l: "l = R16Float"
    and out: "unat pixels * 4 \<le> length out" and n: "pixels \<noteq> 0"
  shows "convert_row_to_rgba8 MTL_FORMAT_R16_FLOAT row pixels out = Ok (False, out)"
proof -
  have w: "bytes_per_pixel MTL_FORMAT_R16_FLOAT = Some (bytes_per_texel l)"
    and fl: "render_layout MTL_FORMAT_R16_FLOAT = Some l" and k: "unat (bytes_per_texel l) = 2"
    by (simp_all add: l bytes_per_pixel_def render_layout_def format_defs)
  obtain sl where sl: "checked_mul (ucast pixels :: u64) (ucast (bytes_per_texel l)) = Some sl"
    "unat sl = unat pixels * unat (bytes_per_texel l)"
    using checked_mul_pixels [OF layout_width(1)] by blast
  obtain dl where dl: "checked_mul (ucast pixels :: u64) (ucast RGBA8_BPP) = Some dl" "unat dl = unat pixels * 4"
    using checked_mul_pixels [of RGBA8_BPP pixels] by (auto simp: RGBA8_BPP_def)
  have pos: "0 < unat pixels" using n by (simp add: unat_gt_0)
  then have "[0..<unat pixels] = 0 # [Suc 0..<unat pixels]" by (rule upt_conv_Cons)
  moreover have "2 \<le> length row" using len pos k by simp
  moreover have "texel_to_rgba8 MTL_FORMAT_R16_FLOAT (take 2 row) = Ok None"
    using texel_to_rgba8_ok [OF fl, of "take 2 row"] \<open>2 \<le> length row\<close> k by simp
  ultimately show ?thesis
    using len out n unfolding convert_row_to_rgba8_def convert_row_to_rgba8_ex_def w sl(1) dl(1) option.case sl(2) dl(2) Let_def row_order if_False
    by (simp add: k number_defs take_two)
qed

text \<open>C36: What a Store wrote reads back as the frame: for every renderable format, a row stored from
  RGBA8 is read back, by the readback rail's narrowing and by the format loader, as the frame it came
  from with the channels the format has no room for filled in (zero, alpha opaque). Half-float channels
  come back exact. The single-channel half float alone has no loader, and its loader refuses.\<close>

theorem store_reads_back:
  assumes "render_layout format = Some l" and "convert_rgba8_to_row format src pixels dst = Ok (True, row)"
    and "unat pixels * 4 \<le> length out"
  shows "narrow_texel_to_rgba8 l row pixels out =
      Ok (True, concat (map (\<lambda>i. bytes4 (kept_channels l (pixel src i))) [0..<unat pixels]) @ drop (unat pixels * 4) out)
    \<and> (format \<noteq> MTL_FORMAT_R16_FLOAT \<longrightarrow>
        convert_row_to_rgba8 format row pixels out = narrow_texel_to_rgba8 l row pixels out)
    \<and> (format = MTL_FORMAT_R16_FLOAT \<longrightarrow> pixels \<noteq> 0 \<longrightarrow>
        convert_row_to_rgba8 format row pixels out = Ok (False, out))"
proof -
  let ?n = "unat pixels" and ?k = "unat (bytes_per_texel l)"
  note w = render_layout_width [OF assms(1)]
  have row: "row = encode_row l src ?n @ drop (?n * ?k) dst" "?n * ?k \<le> length dst"
    using assms(2) unfolding convert_rgba8_to_row_ok [OF assms(1)] by (auto split: if_splits)
  then have len: "?n * ?k \<le> length row" using w by (simp add: length_encode_row)
  have narrow: "narrow_texel_to_rgba8 l row pixels out = Ok (True, decode_row l row ?n @ drop (?n * 4) out)"
    using narrow_ok [of l row pixels out] w len assms(3) by simp
  have r16: "l = R16Float" if "format = MTL_FORMAT_R16_FLOAT"
    using assms(1) that by (auto simp: render_layout_def number_defs)
  have refused: "convert_row_to_rgba8 format row pixels out = Ok (False, out)"
    if "format = MTL_FORMAT_R16_FLOAT" "pixels \<noteq> 0"
    using r16_row_refused [OF len r16 assms(3)] that by simp
  have load: "convert_row_to_rgba8 format row pixels out = narrow_texel_to_rgba8 l row pixels out"
    if "format \<noteq> MTL_FORMAT_R16_FLOAT"
    using convert_row_to_rgba8_ok [OF assms(1) that] narrow len assms(3) by simp
  show ?thesis
    using narrow load refused decode_encode w row(1) by simp
qed

theorem store_reads_back_witness:
  "convert_rgba8_to_row MTL_FORMAT_R8_UNORM [1, 2, 3, 4] 1 [0] = Ok (True, [1])
    \<and> narrow_texel_to_rgba8 R8 [1] 1 [0, 0, 0, 0] = Ok (True, [1, 0, 0, UNORM8_MAX])"
proof -
  have l: "render_layout MTL_FORMAT_R8_UNORM = Some R8" by (simp add: render_layout_def number_defs)
  have c: "convert_rgba8_to_row MTL_FORMAT_R8_UNORM [1, 2, 3, 4] 1 [0] = Ok (True, [1])"
    by (simp add: convert_rgba8_to_row_ok [OF l] encode_row_def pixel_def width_defs)
  show ?thesis using store_reads_back [OF l c, of "[0, 0, 0, 0]"] c by (simp add: pixel_def)
qed

end
