(* ===== verification/TexelSafety.thy ===== *)
theory TexelSafety
  imports TexelFacts
begin

text \<open>
  Every converter returns: the slices and indices of the code lie inside the lengths it has checked,
  for every format number, pixel count and pair of buffers. The doubling copy of a solid image ends.
\<close>

section \<open>No converter panics\<close>

text \<open>A converter's answer: it returns, and leaves the destination's length alone.\<close>

definition answers :: "nat \<Rightarrow> (bool \<times> 'a list) total \<Rightarrow> bool" where
  "answers n m \<longleftrightarrow> (\<exists>ok out. m = Ok (ok, out) \<and> length out = n)"

lemma answers_Ok [simp]: "answers n (Ok (ok, out)) \<longleftrightarrow> length out = n"
  by (simp add: answers_def)

lemma answers_if [simp]: "answers n (if c then a else b) \<longleftrightarrow> (if c then answers n a else answers n b)"
  by simp

lemma answers_loop:
  "(\<And>i d. i \<in> set is \<Longrightarrow> length d = n \<Longrightarrow> answers n (f i d)) \<Longrightarrow> length dst = n \<Longrightarrow> answers n (for_each f is dst)"
  unfolding answers_def using for_each_total [of "is" "\<lambda>d. length d = n" f dst] by blast

lemma texel_to_rgba8_answers: "\<exists>x. texel_to_rgba8 format src = Ok x"
  by (auto simp: texel_to_rgba8_def bytes_per_pixel_def width_defs number_defs index_at_def split: option.splits)

lemma rgba8_to_texel_answers: "answers (length dst) (rgba8_to_texel format px dst)"
  by (cases px) (auto simp: bytes_per_pixel_def width_defs number_defs write_at_def Suc_le_eq split: option.splits)

lemma convert_row_answers: "answers (length dst) (convert_row_to_rgba8_ex format src pixels dst same)"
proof -
  let ?n = "unat pixels"
  obtain dl where dl: "checked_mul (ucast pixels :: u64) (ucast RGBA8_BPP) = Some dl" "unat dl = ?n * 4"
    using checked_mul_pixels [of RGBA8_BPP pixels] by (auto simp: RGBA8_BPP_def)
  show ?thesis
  proof (cases "bytes_per_pixel format")
    case (Some bpp)
    let ?k = "unat bpp"
    obtain sl where sl: "checked_mul (ucast pixels :: u64) (ucast bpp) = Some sl" "unat sl = ?n * ?k"
      using checked_mul_pixels [of bpp pixels] format_width [OF Some] by blast
    note e = convert_row_to_rgba8_ex_def Some sl(1) dl(1) option.case sl(2) dl(2) Let_def
    have half: "answers (length dst) (obind (half_at src (i * 8)) (\<lambda>r. obind (half_at src (i * 8 + 2)) (\<lambda>g.
        obind (half_at src (i * 8 + 4)) (\<lambda>b. obind (half_at src (i * 8 + 6)) (\<lambda>a.
        written (write_at d (i * 4) (map f16_to_unorm8 [r, g, b, a])))))))"
      if "format = MTL_FORMAT_RGBA16_FLOAT" "i < ?n" "length d = length dst" "?n * ?k \<le> length src" "?n * 4 \<le> length dst" for i d
    proof -
      have "?k = 8" using that(1) Some by (simp add: bytes_per_pixel_def format_defs split: if_splits)
      with row_room [OF that(2,4)] row_room [OF that(2,5)] that(3) show ?thesis by simp
    qed
    have texel: "answers (length dst) (obind (sub_slice src (i * ?k) (i * ?k + ?k)) (\<lambda>t. obind (texel_to_rgba8 format t)
        (\<lambda>rgba. case rgba of None \<Rightarrow> Ok (False, d) | Some rgba \<Rightarrow> written (write_at d (i * 4) (bytes4 rgba)))))"
      if "i < ?n" "length d = length dst" "?n * ?k \<le> length src" "?n * 4 \<le> length dst" for i d
    proof -
      obtain x where "texel_to_rgba8 format (take ?k (drop (i * ?k) src)) = Ok x" using texel_to_rgba8_answers by blast
      with row_room [OF that(1,3)] row_room [OF that(1,4)] that(2) show ?thesis by (cases x) simp_all
    qed
    have order: "i < ?n" if "i \<in> set (if row_walk_backward (?n * ?k) ?k (?n * 4) (unat RGBA8_BPP) same then rev [0..<?n] else [0..<?n])" for i
      using that by (simp split: if_splits)
    show ?thesis
      unfolding e answers_if if_bool_eq_conj answers_Ok
      by (intro impI conjI refl answers_loop half texel order) (simp_all add: not_less)
  next
    case None
    then show ?thesis by (simp add: convert_row_to_rgba8_ex_def)
  qed
qed


lemma expand_answers: "answers (length dst) (expand_rgba8_to_texel l src pixels dst)"
proof (cases "renderable l")
  case True
  then show ?thesis by (simp add: expand_ok length_encode_row)
next
  case False
  then show ?thesis
    by (cases l) (simp_all add: renderable_def expand_rgba8_to_texel_def Let_def split: option.splits)
qed

lemma length_decode_row [simp]: "length (decode_row l src n) = n * 4"
  unfolding decode_row_def by (rule length_texels) simp

lemma narrow_answers: "answers (length dst) (narrow_texel_to_rgba8 l src pixels dst)"
proof (cases "renderable l")
  case True
  then show ?thesis by (simp add: narrow_ok)
next
  case False
  then show ?thesis
    by (cases l) (simp_all add: renderable_def narrow_texel_to_rgba8_def Let_def split: option.splits)
qed

lemma convert_rgba8_answers: "answers (length dst) (convert_rgba8_to_row format src pixels dst)"
proof -
  let ?n = "unat pixels"
  obtain sl where sl: "checked_mul (ucast pixels :: u64) (ucast RGBA8_BPP) = Some sl" "unat sl = ?n * 4"
    using checked_mul_pixels [of RGBA8_BPP pixels] by (auto simp: RGBA8_BPP_def)
  show ?thesis
  proof (cases "bytes_per_pixel format")
    case (Some bpp)
    let ?k = "unat bpp"
    obtain dl where dl: "checked_mul (ucast pixels :: u64) (ucast bpp) = Some dl" "unat dl = ?n * ?k"
      using checked_mul_pixels [of bpp pixels] format_width [OF Some] by blast
    note e = convert_rgba8_to_row_def Some sl(1) dl(1) option.case sl(2) dl(2) Let_def
    have half: "answers (length dst) (obind (rgba_at src (i * 4)) (\<lambda>(r, g, b, a).
        written (write_at d (i * 8) (half_bytes [r, g, b, a]))))"
      if "format = MTL_FORMAT_RGBA16_FLOAT" "i < ?n" "length d = length dst" "?n * 4 \<le> length src" "?n * ?k \<le> length dst" for i d
    proof -
      have "?k = 8" using that(1) Some by (simp add: bytes_per_pixel_def format_defs split: if_splits)
      with row_room [OF that(2,4)] row_room [OF that(2,5)] that(3) show ?thesis by simp
    qed
    have texel: "answers (length dst) (obind (rgba_at src (i * 4)) (\<lambda>rgba.
        obind (sub_slice d (i * ?k) (i * ?k + ?k)) (\<lambda>t. obind (rgba8_to_texel format rgba t)
        (\<lambda>(ok, t). obind (write_at d (i * ?k) t) (\<lambda>d. Ok (ok, d))))))"
      if "i < ?n" "length d = length dst" "?n * 4 \<le> length src" "?n * ?k \<le> length dst" for i d
    proof -
      have t: "length (take ?k (drop (i * ?k) d)) = ?k" using row_room [OF that(1,4)] that(2) by simp
      obtain ok t where "rgba8_to_texel format (pixel src i) (take ?k (drop (i * ?k) d)) = Ok (ok, t)" "length t = ?k"
        using rgba8_to_texel_answers [of "take ?k (drop (i * ?k) d)"] unfolding answers_def t by blast
      with row_room [OF that(1,3)] row_room [OF that(1,4)] that(2) show ?thesis by (simp add: pixel_def)
    qed
    show ?thesis
      unfolding e answers_if if_bool_eq_conj answers_Ok
      by (intro impI conjI refl answers_loop half texel) (simp_all add: not_less)
  next
    case None
    then show ?thesis by (simp add: convert_rgba8_to_row_def)
  qed
qed

lemma packing_cases:
  "depth_stencil_packing_of format = Some p \<Longrightarrow>
    unat (full_bpp p) \<in> {4, 8} \<and> unat (stencil_offset p) < unat (full_bpp p) \<and> unat (depth_offset p) + 4 \<le> unat (full_bpp p)
    \<and> unat (depth_plane_bpp p) \<in> {0, 4} \<and> unat (stencil_plane_bpp p) = 1
    \<and> (depth_plane_bpp p = 0 \<longleftrightarrow> unat (depth_plane_bpp p) = 0)"
  by (auto simp: depth_stencil_packing_of_def split: if_splits)

lemma extract_answers: "answers (length d) (extract_depth_stencil_plane format aspect t d)"
proof (cases "depth_stencil_packing_of format")
  case (Some p)
  then show ?thesis using packing_cases [OF Some]
    by (auto simp: extract_depth_stencil_plane_def Let_def not_less Suc_le_eq split: depth_field_layout.split)
qed (simp add: extract_depth_stencil_plane_def)

lemma insert_answers: "answers (length t) (insert_depth_stencil_plane format aspect s t)"
proof (cases "depth_stencil_packing_of format")
  case (Some p)
  then show ?thesis using packing_cases [OF Some]
    by (auto simp: insert_depth_stencil_plane_def Let_def not_less Suc_le_eq split: depth_field_layout.split)
qed (simp add: insert_depth_stencil_plane_def)


lemma usize_mul_row: "k \<le> 16 \<Longrightarrow> usize_mul k (unat (width :: u32)) = Some (unat width * k)"
proof -
  assume "k \<le> 16"
  then have "k * unat width \<le> 16 * 2 ^ 32" using unat_lt2p [of width] by (intro mult_le_mono) simp_all
  then show ?thesis by (simp add: usize_mul_def mult.commute)
qed

lemma plane_bpp_width:
  "depth_stencil_packing_of format = Some p \<Longrightarrow> plane_bpp p aspect = Some bpp \<Longrightarrow> unat bpp \<le> 16 \<and> unat (full_bpp p) \<le> 16"
  by (auto simp: plane_bpp_def dest!: packing_cases split: blit_aspect.splits)

lemma extract_row_answers: "answers (length dst) (extract_plane_row format aspect src width dst)"
proof (cases "depth_stencil_packing_of format")
  case (Some p)
  show ?thesis
  proof (cases "plane_bpp p aspect")
    case (Some bpp)
    let ?n = "unat width" and ?f = "unat (full_bpp p)" and ?k = "unat bpp"
    have u: "usize_mul ?f ?n = Some (?n * ?f)" "usize_mul ?k ?n = Some (?n * ?k)"
      using plane_bpp_width [OF \<open>depth_stencil_packing_of format = Some p\<close> Some] by (auto intro: usize_mul_row)
    note e = extract_plane_row_def \<open>depth_stencil_packing_of format = Some p\<close> Some Let_def option.case u
    have "answers (length dst) (obind (sub_slice src (x * ?f) (x * ?f + ?f)) (\<lambda>t.
        obind (sub_slice d (x * ?k) (x * ?k + ?k)) (\<lambda>c. obind (extract_depth_stencil_plane format aspect t c) (\<lambda>(ok, c).
        obind (write_at d (x * ?k) c) (\<lambda>d. Ok (ok, d))))))"
      if "x < ?n" "length d = length dst" "?n * ?f \<le> length src" "?n * ?k \<le> length dst" for x d
    proof -
      have len: "length (take ?k (drop (x * ?k) d)) = ?k" using row_room [OF that(1,4)] that(2) by simp
      obtain ok c where "extract_depth_stencil_plane format aspect (take ?f (drop (x * ?f) src)) (take ?k (drop (x * ?k) d)) = Ok (ok, c)"
          "length c = ?k"
        using extract_answers [of "take ?k (drop (x * ?k) d)"] unfolding answers_def len by blast
      with row_room [OF that(1,3)] row_room [OF that(1,4)] that(2) show ?thesis by simp
    qed
    then show ?thesis
      unfolding e answers_if if_bool_eq_conj answers_Ok
      by (intro impI conjI refl answers_loop) (simp_all add: not_less)
  qed (simp add: extract_plane_row_def Some)
qed (simp add: extract_plane_row_def)

lemma insert_row_answers: "answers (length dst) (insert_plane_row format aspect src width dst)"
proof (cases "depth_stencil_packing_of format")
  case (Some p)
  show ?thesis
  proof (cases "plane_bpp p aspect")
    case (Some bpp)
    let ?n = "unat width" and ?f = "unat (full_bpp p)" and ?k = "unat bpp"
    have u: "usize_mul ?f ?n = Some (?n * ?f)" "usize_mul ?k ?n = Some (?n * ?k)"
      using plane_bpp_width [OF \<open>depth_stencil_packing_of format = Some p\<close> Some] by (auto intro: usize_mul_row)
    note e = insert_plane_row_def \<open>depth_stencil_packing_of format = Some p\<close> Some Let_def option.case u
    have "answers (length dst) (obind (sub_slice src (x * ?k) (x * ?k + ?k)) (\<lambda>c.
        obind (sub_slice d (x * ?f) (x * ?f + ?f)) (\<lambda>t. obind (insert_depth_stencil_plane format aspect c t) (\<lambda>(ok, t).
        obind (write_at d (x * ?f) t) (\<lambda>d. Ok (ok, d))))))"
      if "x < ?n" "length d = length dst" "?n * ?k \<le> length src" "?n * ?f \<le> length dst" for x d
    proof -
      have len: "length (take ?f (drop (x * ?f) d)) = ?f" using row_room [OF that(1,4)] that(2) by simp
      obtain ok t where "insert_depth_stencil_plane format aspect (take ?k (drop (x * ?k) src)) (take ?f (drop (x * ?f) d)) = Ok (ok, t)"
          "length t = ?f"
        using insert_answers [of "take ?f (drop (x * ?f) d)"] unfolding answers_def len by blast
      with row_room [OF that(1,3)] row_room [OF that(1,4)] that(2) show ?thesis by simp
    qed
    then show ?thesis
      unfolding e answers_if if_bool_eq_conj answers_Ok
      by (intro impI conjI refl answers_loop) (simp_all add: not_less)
  qed (simp add: insert_plane_row_def Some)
qed (simp add: insert_plane_row_def)

text \<open>C37: No converter panics, whatever the guest's format number, pixel count and buffers: each returns
  its verdict and leaves the destination's length alone, also when it gives up halfway through a row. The
  slices and indices of the code are all inside the lengths it checked first, and the length checks do
  not overflow.\<close>

theorem converters_never_panic:
  "(\<exists>x. texel_to_rgba8 format src = Ok x)
    \<and> answers (length dst) (rgba8_to_texel format px dst)
    \<and> answers (length dst) (convert_row_to_rgba8_ex format src pixels dst same)
    \<and> answers (length dst) (convert_row_to_rgba8 format src pixels dst)
    \<and> answers (length dst) (convert_rgba8_to_row format src pixels dst)
    \<and> answers (length dst) (expand_rgba8_to_texel layout src pixels dst)
    \<and> answers (length dst) (narrow_texel_to_rgba8 layout src pixels dst)
    \<and> answers (length dst) (extract_depth_stencil_plane format aspect src dst)
    \<and> answers (length dst) (insert_depth_stencil_plane format aspect src dst)
    \<and> answers (length dst) (extract_plane_row format aspect src pixels dst)
    \<and> answers (length dst) (insert_plane_row format aspect src pixels dst)"
  by (simp add: texel_to_rgba8_answers rgba8_to_texel_answers convert_row_answers convert_rgba8_answers
      expand_answers narrow_answers extract_answers insert_answers extract_row_answers insert_row_answers
      convert_row_to_rgba8_def)

section \<open>Solid images\<close>

text \<open>The doubling loop fills the buffer with whole texels: it always holds the cyclic repetition.\<close>

lemma take_replicate_texels:
  assumes "length t = k" "n \<le> m"
  shows "take (n * k) (concat (replicate m t)) = concat (replicate n t)"
proof -
  have "replicate m t = replicate n t @ replicate (m - n) t"
    using assms(2) by (simp add: replicate_add [symmetric])
  then show ?thesis using assms(1) by (simp add: length_concat sum_list_replicate)
qed

lemma double_to_texels:
  assumes "length t = k" "0 < k" "0 < j" "j \<le> n" "img = concat (replicate j t)"
  shows "double_to (n * k) img = concat (replicate n t)"
  using assms(3-)
proof (induction "n * k" img arbitrary: j rule: double_to.induct)
  case (1 img)
  have len: "length img = j * k" using 1(4) assms(1) by (simp add: length_concat sum_list_replicate)
  have ne: "img \<noteq> []" using len assms(2) 1(2) by auto
  show ?case
  proof (cases "j < n")
    case True
    let ?m = "min (n - j) j"
    have "min (n * k - length img) (length img) = ?m * k"
      by (simp add: len diff_mult_distrib [symmetric] nat_mult_min_left)
    then have grow: "img @ take (min (n * k - length img) (length img)) img = concat (replicate (j + ?m) t)"
      using take_replicate_texels [OF assms(1), of ?m j] 1(4) by (simp add: replicate_add)
    have lt: "length img < n * k" using True assms(2) by (simp add: len)
    have "double_to (n * k) (img @ take (min (n * k - length img) (length img)) img) = concat (replicate n t)"
      using lt ne True 1(2) by (intro 1(1) [OF _ _ _ grow]) auto
    then show ?thesis using lt ne by (subst double_to.simps) simp
  next
    case False
    with 1(3) have "j = n" by simp
    then show ?thesis using 1(4) len by (subst double_to.simps) simp
  qed
qed

text \<open>A solid image is its texel repeated once per pixel: the doubling copy of \<open>solid_image8\<close> ends,
  and for every size the allocator admits it returns exactly width times height texels. An image
  without a pixel is empty, and a size above the largest allocation panics.\<close>

theorem solid_image8_is_replicate:
  "solid_image8 w h px =
     (if 2 ^ 63 \<le> unat w * unat h * 4 then Panic
      else Ok (concat (replicate (unat w * unat h) (bytes4 px))))"
proof -
  have "unat w * unat h < 2 ^ 32 * 2 ^ 32"
    using unat_lt2p [of w] unat_lt2p [of h] by (intro mult_strict_mono) simp_all
  then have n: "min 18446744073709551615 (unat w * unat h) = unat w * unat h" by simp
  show ?thesis
  proof (cases "unat w * unat h = 0")
    case False
    then have "double_to (unat w * unat h * 4) (bytes4 px) = concat (replicate (unat w * unat h) (bytes4 px))"
      by (intro double_to_texels [of _ 4 1]) simp_all
    with False show ?thesis by (auto simp: solid_image8_def Let_def n mult.commute [of "unat h" "unat w"])
  qed (auto simp: solid_image8_def Let_def)
qed

end
