(* ===== verification/DepthStencil.thy ===== *)
theory DepthStencil
  imports TexelSafety
begin

unbundle bit_operations_syntax

text \<open>
  The planes of a packed depth-stencil texel. A store and a read of one plane are a round trip, and
  the other plane keeps its value.
\<close>

section \<open>Depth and stencil planes\<close>

lemma bytes32_word [simp]: "le_word (bytes32 v) = v"
  by (simp add: bytes32_def le_word_store)

lemma nat_to_le_le_nat4: "nat_to_le 4 (le_nat [a, b, c, d]) = [a, b, c, d]"
  using nat_to_le_le_nat [of "[a, b, c, d]"] by (simp only: list.size) (simp only: add_0 One_nat_def add_Suc_right add_Suc plus_1_eq_Suc numeral_eq_Suc pred_numeral_simps BitM.simps Suc_numeral)

lemma unat_le_word4: "unat (le_word [a, b, c, d] :: u32) = le_nat [a, b, c, d]"
proof -
  have "le_nat [a, b, c, d] < 2 ^ 32" using le_nat_bound [of "[a, b, c, d]"] by simp
  then show ?thesis unfolding le_word_def unat_of_nat by (intro mod_less) simp
qed

lemma packed_bytes:
  fixes a b c e x y z u :: u8
  shows "bytes32 (drop_bit 8 (le_word [a, b, c, e])) = [b, c, e, 0]"
    "bytes32 ((le_word [a, b, c, e] AND 0xff) OR push_bit 8 (le_word [x, y, z, u] AND 0x00ffffff)) = [a, x, y, z]"
proof -
  have "unat (drop_bit 8 (le_word [a, b, c, e]) :: u32) = drop_bit 8 (le_nat [a, b, c, e])"
    by (simp only: unat_drop_bit_eq unat_le_word4)
  also have "\<dots> = le_nat [b, c, e, 0]" using unat_lt2p [of a] by (simp add: drop_bit_eq_div)
  finally show "bytes32 (drop_bit 8 (le_word [a, b, c, e])) = [b, c, e, 0]"
    by (simp only: bytes32_def nat_to_le_le_nat4)
next
  let ?w = "le_word [a, b, c, e] :: u32" and ?v = "le_word [x, y, z, u] :: u32"
  have m: "(0xff :: u32) = mask 8" "(0x00ffffff :: u32) = mask 24" by (simp_all add: mask_eq_exp_minus_1)
  have or: "(?w AND 0xff) OR push_bit 8 (?v AND 0x00ffffff) = (?w AND 0xff) + push_bit 8 (?v AND 0x00ffffff)"
    unfolding m by (rule disjunctive_add_eq_or [symmetric]) (auto intro!: bit_eqI simp: bit_simps)
  have lo: "unat (?w AND 0xff) = unat a"
  proof -
    have "unat (?w AND 0xff) = take_bit 8 (le_nat [a, b, c, e])"
      by (simp only: m flip: take_bit_eq_mask) (simp only: unsigned_take_bit_eq unat_le_word4)
    also have "le_nat [a, b, c, e] = unat a + 256 * le_nat [b, c, e]" by simp
    finally show ?thesis using unat_lt2p [of a] by (simp add: take_bit_eq_mod del: le_nat.simps)
  qed
  have v: "unat (?v AND 0x00ffffff) = le_nat [x, y, z]"
  proof -
    have "unat (?v AND 0x00ffffff) = take_bit 24 (le_nat [x, y, z, u])"
      by (simp only: m flip: take_bit_eq_mask) (simp only: unsigned_take_bit_eq unat_le_word4)
    also have "le_nat [x, y, z, u] = le_nat [x, y, z] + 2 ^ 24 * unat u" by simp
    finally show ?thesis using le_nat_bound [of "[x, y, z]"] by (simp add: take_bit_eq_mod del: le_nat.simps)
  qed
  have hi: "unat (push_bit 8 (?v AND 0x00ffffff)) = 256 * le_nat [x, y, z]"
    using v le_nat_bound [of "[x, y, z]"] by (simp add: push_bit_eq_mult unat_word_ariths del: le_nat.simps)
  have "unat ((?w AND 0xff) OR push_bit 8 (?v AND 0x00ffffff)) = le_nat [a, x, y, z]"
    unfolding or using lo hi le_nat_bound [of "[a, x, y, z]"] by (simp add: unat_word_ariths)
  then show "bytes32 ((?w AND 0xff) OR push_bit 8 (?v AND 0x00ffffff)) = [a, x, y, z]"
    by (simp only: bytes32_def nat_to_le_le_nat4)
qed

text \<open>What a plane keeps of the bytes stored into it: a 24-bit depth drops its high byte.\<close>

definition plane_kept :: "u16 \<Rightarrow> blit_aspect \<Rightarrow> u8 list \<Rightarrow> u8 list" where
  "plane_kept format aspect src =
     (if aspect = AspectStencil then take 1 src
      else if format = MTL_FORMAT_DEPTH24_UNORM_STENCIL8 then take 3 src @ [0]
      else take 4 src)"

lemma drop_four: "drop (Suc (Suc (Suc (Suc 0)))) xs = drop 4 xs"
  by (simp add: numeral_eq_Suc)

lemma full_refused [simp]:
  "extract_depth_stencil_plane format AspectFull texel dst = Ok (False, dst)"
  "insert_depth_stencil_plane format AspectFull src texel = Ok (False, texel)"
  by (simp_all add: extract_depth_stencil_plane_def insert_depth_stencil_plane_def)

lemma four_bytes:
  assumes "4 \<le> length xs" obtains a b c d rest where "xs = a # b # c # d # rest"
  using assms by (auto simp: numeral_eq_Suc Suc_le_length_iff)

lemma eight_bytes:
  assumes "8 \<le> length xs" obtains a b c d e f g h rest where "xs = a # b # c # d # e # f # g # h # rest"
  using assms by (auto simp: numeral_eq_Suc Suc_le_length_iff)

lemma one_byte:
  assumes "xs \<noteq> []" obtains a rest where "xs = a # rest"
  using assms by (cases xs) auto

lemma stencil_inserted:
  "insert_depth_stencil_plane format AspectStencil src texel = Ok (True, texel') \<longleftrightarrow>
    (\<exists>p. depth_stencil_packing_of format = Some p \<and> unat (full_bpp p) \<le> length texel \<and> src \<noteq> []
       \<and> texel' = texel[unat (stencil_offset p) := hd src])"
proof (cases "depth_stencil_packing_of format")
  case (Some p)
  have "put texel (unat (stencil_offset p)) [src ! 0] = texel[unat (stencil_offset p) := hd src]"
    if "unat (full_bpp p) \<le> length texel" "src \<noteq> []"
    using packing_cases [OF Some] that by (auto simp: put_def upd_conv_take_nth_drop hd_conv_nth)
  then show ?thesis using Some packing_cases [OF Some]
    by (auto simp: insert_depth_stencil_plane_def not_less)
qed (simp add: insert_depth_stencil_plane_def)

lemma stencil_extracted:
  "depth_stencil_packing_of format = Some p \<Longrightarrow> unat (full_bpp p) \<le> length texel \<Longrightarrow>
   extract_depth_stencil_plane format AspectStencil texel dst =
     (if dst = [] then Ok (False, dst) else Ok (True, texel ! unat (stencil_offset p) # tl dst))"
  using packing_cases [of format p]
  by (cases dst) (auto simp: extract_depth_stencil_plane_def put_def)


definition depth_packed :: "u16 \<Rightarrow> u8 list \<Rightarrow> u8 list \<Rightarrow> u8 list" where
  "depth_packed format src texel =
     (if format = MTL_FORMAT_DEPTH24_UNORM_STENCIL8 then take 1 texel @ take 3 src @ drop 4 texel
      else take 4 src @ drop 4 texel)"

lemma depth_formats:
  "depth_stencil_packing_of format = Some p \<Longrightarrow> depth_plane_bpp p \<noteq> 0 \<longleftrightarrow>
     format = MTL_FORMAT_DEPTH24_UNORM_STENCIL8 \<or> format = MTL_FORMAT_DEPTH32_FLOAT_STENCIL8"
  by (auto simp: depth_stencil_packing_of_def number_defs split: if_splits)

lemma depth_fields:
  "depth_stencil_packing_of format = Some p \<Longrightarrow> depth_plane_bpp p \<noteq> 0 \<Longrightarrow>
     depth_offset p = 0 \<and> unat (depth_plane_bpp p) = 4
     \<and> depth_layout p = (if format = MTL_FORMAT_DEPTH24_UNORM_STENCIL8 then DflUnorm24High else DflFloat32)
     \<and> full_bpp p = (if format = MTL_FORMAT_DEPTH24_UNORM_STENCIL8 then 4 else 8)
     \<and> stencil_offset p = (if format = MTL_FORMAT_DEPTH24_UNORM_STENCIL8 then 0 else 4)"
  by (auto simp: depth_stencil_packing_of_def number_defs split: if_splits)

lemma depth_inserted:
  assumes "insert_depth_stencil_plane format AspectDepth src texel = Ok (True, texel')"
  shows "\<exists>p. depth_stencil_packing_of format = Some p \<and> depth_plane_bpp p \<noteq> 0 \<and> unat (full_bpp p) \<le> length texel
    \<and> 4 \<le> length src \<and> texel' = depth_packed format src texel"
proof -
  obtain p where p: "depth_stencil_packing_of format = Some p" and nz: "depth_plane_bpp p \<noteq> 0"
    and len: "unat (full_bpp p) \<le> length texel" "unat (depth_plane_bpp p) \<le> length src"
    using assms by (auto simp: insert_depth_stencil_plane_def not_less split: option.splits if_splits)
  have four: "4 \<le> length src" "4 \<le> length texel" using packing_cases [OF p] nz len by auto
  obtain a b c d ts where t: "texel = a # b # c # d # ts" using four(2) by (rule four_bytes)
  obtain x y z u ss where s: "src = x # y # z # u # ss" using four(1) by (rule four_bytes)
  from depth_formats [OF p] nz have "format = MTL_FORMAT_DEPTH24_UNORM_STENCIL8 \<or> format = MTL_FORMAT_DEPTH32_FLOAT_STENCIL8"
    by simp
  then have "texel' = depth_packed format src texel"
  proof
    assume f: "format = MTL_FORMAT_DEPTH24_UNORM_STENCIL8"
    show ?thesis using assms p len nz packed_bytes(2) [of a b c d x y z u]
      by (auto simp: insert_depth_stencil_plane_def depth_packed_def depth_fields [OF p nz] f number_defs
          t s put_def Let_def)
  next
    assume f: "format = MTL_FORMAT_DEPTH32_FLOAT_STENCIL8"
    show ?thesis using assms p len nz
      by (auto simp: insert_depth_stencil_plane_def depth_packed_def depth_fields [OF p nz] f number_defs
          t s put_def Let_def)
  qed
  with p nz len four show ?thesis by blast
qed

lemma depth_extracted:
  assumes p: "depth_stencil_packing_of format = Some p" and nz: "depth_plane_bpp p \<noteq> 0"
    and len: "unat (full_bpp p) \<le> length texel"
  shows "extract_depth_stencil_plane format AspectDepth texel dst =
    (if length dst < 4 then Ok (False, dst)
     else Ok (True, (if format = MTL_FORMAT_DEPTH24_UNORM_STENCIL8 then take 3 (drop 1 texel) @ [0] else take 4 texel) @ drop 4 dst))"
proof -
  have four: "4 \<le> length texel" using packing_cases [OF p] nz len by auto
  obtain a b c d ts where t: "texel = a # b # c # d # ts" using four by (rule four_bytes)
  from depth_formats [OF p] nz have "format = MTL_FORMAT_DEPTH24_UNORM_STENCIL8 \<or> format = MTL_FORMAT_DEPTH32_FLOAT_STENCIL8"
    by simp
  then show ?thesis
  proof
    assume f: "format = MTL_FORMAT_DEPTH24_UNORM_STENCIL8"
    show ?thesis using p len nz
      by (auto simp: extract_depth_stencil_plane_def depth_fields [OF p nz] f number_defs
          t put_def Let_def packed_bytes)
  next
    assume f: "format = MTL_FORMAT_DEPTH32_FLOAT_STENCIL8"
    show ?thesis using p len nz
      by (auto simp: extract_depth_stencil_plane_def depth_fields [OF p nz] f number_defs
          t put_def Let_def drop_four)
  qed
qed


text \<open>Storing a plane of a packed depth-stencil texel and reading it back gives the plane, and touches
  nothing else: the other plane reads as before, and so do the bytes after the texel. A depth of 24 bits
  comes back with its high byte cleared; all other planes come back as stored.\<close>

theorem plane_roundtrip:
  assumes "insert_depth_stencil_plane format aspect src texel = Ok (True, texel')"
    and "length (plane_kept format aspect src) \<le> length dst" and "other \<noteq> aspect"
  shows "extract_depth_stencil_plane format aspect texel' dst
      = Ok (True, plane_kept format aspect src @ drop (length (plane_kept format aspect src)) dst)
    \<and> extract_depth_stencil_plane format other texel' dst = extract_depth_stencil_plane format other texel dst
    \<and> (\<exists>p. depth_stencil_packing_of format = Some p \<and> drop (unat (full_bpp p)) texel' = drop (unat (full_bpp p)) texel)
    \<and> length texel' = length texel"
proof (cases aspect)
  case AspectStencil
  with assms(1) obtain p where p: "depth_stencil_packing_of format = Some p" "unat (full_bpp p) \<le> length texel" "src \<noteq> []"
    and texel': "texel' = texel[unat (stencil_offset p) := hd src]" by (auto simp: stencil_inserted)
  note w = packing_cases [OF p(1)]
  obtain x ss where s: "src = x # ss" using p(3) by (rule one_byte)
  have "extract_depth_stencil_plane format AspectDepth texel' dst = extract_depth_stencil_plane format AspectDepth texel dst"
  proof (cases "depth_plane_bpp p = 0")
    case True
    with p texel' w show ?thesis by (simp add: extract_depth_stencil_plane_def)
  next
    case False
    show ?thesis
      using p texel' w depth_fields [OF p(1) False]
      by (simp add: depth_extracted [OF p(1) False] drop_update_swap take_update_cancel)
  qed
  then show ?thesis
    using assms(2,3) p texel' w AspectStencil
    by (cases other; cases dst) (auto simp: stencil_extracted plane_kept_def s not_le drop_Suc)
next
  case AspectDepth
  with depth_inserted assms(1) obtain p where p: "depth_stencil_packing_of format = Some p" "depth_plane_bpp p \<noteq> 0"
    "unat (full_bpp p) \<le> length texel" "4 \<le> length src" and texel': "texel' = depth_packed format src texel" by blast
  note w = packing_cases [OF p(1)] depth_fields [OF p(1,2)]
  have four: "4 \<le> length texel" using w p(3) by (auto split: if_splits)
  obtain a b c d ts where t: "texel = a # b # c # d # ts" using four by (rule four_bytes)
  obtain x y z u ss where s: "src = x # y # z # u # ss" using p(4) by (rule four_bytes)
  have len: "length texel' = length texel" and st: "texel' ! unat (stencil_offset p) = texel ! unat (stencil_offset p)"
    and dr: "drop (unat (full_bpp p)) texel' = drop (unat (full_bpp p)) texel"
    using w p(3) by (auto simp: texel' depth_packed_def t s)
  have "extract_depth_stencil_plane format AspectStencil texel' dst = extract_depth_stencil_plane format AspectStencil texel dst"
    using p(3) by (simp add: stencil_extracted [OF p(1)] len st)
  moreover have "extract_depth_stencil_plane format AspectDepth texel' dst
      = Ok (True, plane_kept format aspect src @ drop (length (plane_kept format aspect src)) dst)"
  proof -
    have "unat (full_bpp p) \<le> length texel'" using p(3) len by simp
    from depth_extracted [OF p(1,2) this] show ?thesis
      using assms(2) AspectDepth
      by (cases "format = MTL_FORMAT_DEPTH24_UNORM_STENCIL8")
        (simp_all add: plane_kept_def texel' depth_packed_def s t drop_four)
  qed
  ultimately show ?thesis using assms(3) p(1) AspectDepth len dr by (cases other) simp_all
next
  case AspectFull
  with assms(1) show ?thesis by (simp add: insert_depth_stencil_plane_def)
qed

theorem plane_roundtrip_witness:
  "\<exists>texel'. insert_depth_stencil_plane MTL_FORMAT_X24_STENCIL8 AspectStencil [7] [1, 2, 3, 4] = Ok (True, texel')
    \<and> extract_depth_stencil_plane MTL_FORMAT_X24_STENCIL8 AspectStencil texel' [0, 9] = Ok (True, [7, 9])"
proof -
  have i: "insert_depth_stencil_plane MTL_FORMAT_X24_STENCIL8 AspectStencil [7] [1, 2, 3, 4] = Ok (True, [7, 2, 3, 4])"
    by (auto simp: stencil_inserted depth_stencil_packing_of_def number_defs)
  show ?thesis using plane_roundtrip [OF i, of "[0, 9]" AspectFull] i by (simp add: plane_kept_def)
qed

end
