(* ===== verification/Sync.thy ===== *)
theory Sync
  imports Stream
begin

text \<open>
  Event and fence synchronisation: the planner of runtime/plan/event_sync.rs, the event decoder of
  runtime/decode/event.rs, the executor of runtime/fence_exec.rs and the generation table of
  \<open>DeviceState\<close> (model/state.rs). The table is a map, as the code's \<open>BTreeMap\<close> is; the log line a
  refusal emits is not modelled, so \<open>refused\<close> is its status.
\<close>

section \<open>The planner\<close>

definition FENCE_INITIAL_GENERATION :: u64 where "FENCE_INITIAL_GENERATION = 1"

datatype domain = DomUnknown | DomEvent | BlitFence | ComputeFence | RenderFence

datatype decision =
  DecInvalid | SignalUpdate | SignalNoop | WaitSatisfied | WaitPending | DecWaitTimeoutUnsupported

datatype reason =
  ReasonInvalid | SignalFirst | SignalAdvance | SignalEqualIgnored | SignalStaleIgnored | WaitReached
| WaitMissingSignal | WaitBelowTarget | WaitTimeoutUnsupported | FenceUpdateFirst | FenceUpdateAdvance
| FenceUpdateAtMax | FenceWaitReached | FenceWaitMissingUpdate | BadFenceDomain

datatype event_kind = EventSignal | EventWait

datatype fence_action = FenceUpdate | FenceWait

record plan =
  decision :: decision
  reason :: reason
  updates_state :: bool
  update_value :: u64

definition plan_signal :: "reason \<Rightarrow> u64 \<Rightarrow> plan" where
  "plan_signal r v = \<lparr>decision = SignalUpdate, reason = r, updates_state = True, update_value = v\<rparr>"

definition plan_noop :: "reason \<Rightarrow> plan" where
  "plan_noop r = \<lparr>decision = SignalNoop, reason = r, updates_state = False, update_value = 0\<rparr>"

definition plan_decided :: "decision \<Rightarrow> reason \<Rightarrow> plan" where
  "plan_decided d r = \<lparr>decision = d, reason = r, updates_state = False, update_value = 0\<rparr>"

definition is_fence_domain :: "domain \<Rightarrow> bool" where
  "is_fence_domain d \<longleftrightarrow> d \<in> {BlitFence, ComputeFence, RenderFence}"

fun plan_event :: "event_kind \<Rightarrow> u64 \<Rightarrow> bool \<Rightarrow> u64 option \<Rightarrow> plan" where
  "plan_event EventSignal v has_timeout current =
     (case current of
        None \<Rightarrow> plan_signal SignalFirst v
      | Some cur \<Rightarrow>
          if v > cur then plan_signal SignalAdvance v
          else if v = cur then plan_noop SignalEqualIgnored
          else plan_noop SignalStaleIgnored)"
| "plan_event EventWait v has_timeout current =
     (if (case current of Some cur \<Rightarrow> cur \<ge> v | None \<Rightarrow> False) then plan_decided WaitSatisfied WaitReached
      else if has_timeout then plan_decided DecWaitTimeoutUnsupported WaitTimeoutUnsupported
      else case current of
        Some _ \<Rightarrow> plan_decided WaitPending WaitBelowTarget
      | None \<Rightarrow> plan_decided WaitPending WaitMissingSignal)"

text \<open>The greatest \<open>u64\<close> is \<open>- 1\<close>: an update there is ignored rather than wrapped.\<close>

definition plan_fence :: "fence_action \<Rightarrow> domain \<Rightarrow> u64 option \<Rightarrow> plan" where
  "plan_fence action d current =
     (if \<not> is_fence_domain d then plan_decided DecInvalid BadFenceDomain
      else case action of
        FenceUpdate \<Rightarrow>
          (case current of
             None \<Rightarrow> plan_signal FenceUpdateFirst FENCE_INITIAL_GENERATION
           | Some cur \<Rightarrow>
               if cur = - 1 then plan_noop FenceUpdateAtMax
               else plan_signal FenceUpdateAdvance (cur + 1))
      | FenceWait \<Rightarrow>
          (case current of
             Some _ \<Rightarrow> plan_decided WaitSatisfied FenceWaitReached
           | None \<Rightarrow> plan_decided WaitPending FenceWaitMissingUpdate))"

section \<open>The generation table\<close>

type_synonym generations = "u32 \<times> u8 \<times> u32 \<Rightarrow> u64 option"

definition FENCE_DOMAIN_EVENT :: u8 where "FENCE_DOMAIN_EVENT = 1"
definition FENCE_DOMAIN_BLIT :: u8 where "FENCE_DOMAIN_BLIT = 2"
definition FENCE_DOMAIN_COMPUTE :: u8 where "FENCE_DOMAIN_COMPUTE = 3"
definition FENCE_DOMAIN_RENDER :: u8 where "FENCE_DOMAIN_RENDER = 4"

definition fence_generation :: "generations \<Rightarrow> u32 \<Rightarrow> u8 \<Rightarrow> u32 \<Rightarrow> u64 option" where
  "fence_generation s task_id tag fence_ref = s (task_id, tag, fence_ref)"

definition set_fence_generation :: "generations \<Rightarrow> u32 \<Rightarrow> u8 \<Rightarrow> u32 \<Rightarrow> u64 \<Rightarrow> generations" where
  "set_fence_generation s task_id tag fence_ref v =
     (if fence_ref = 0 then s else s((task_id, tag, fence_ref) \<mapsto> v))"

section \<open>The event decoder\<close>

definition EVENT_OPCODE_OFFSET :: nat where "EVENT_OPCODE_OFFSET = 0"
definition EVENT_LENGTH_OFFSET :: nat where "EVENT_LENGTH_OFFSET = 4"
definition U32_SIZE :: nat where "U32_SIZE = 4"
definition U64_SIZE :: nat where "U64_SIZE = 8"
definition VALUE_REF :: nat where "VALUE_REF = 0"
definition VALUE_VALUE :: nat where "VALUE_VALUE = 4"
definition TIMEOUT_OFFSET :: nat where "TIMEOUT_OFFSET = 12"
definition SIGNAL_WAIT_PAYLOAD_LEN :: nat where "SIGNAL_WAIT_PAYLOAD_LEN = VALUE_VALUE + U64_SIZE"
definition WAIT_TIMEOUT_PAYLOAD_LEN :: nat where "WAIT_TIMEOUT_PAYLOAD_LEN = TIMEOUT_OFFSET + U32_SIZE"
definition SIGNAL_WAIT_LEN :: nat where "SIGNAL_WAIT_LEN = OP_HEADER_LEN + SIGNAL_WAIT_PAYLOAD_LEN"
definition WAIT_TIMEOUT_LEN :: nat where "WAIT_TIMEOUT_LEN = OP_HEADER_LEN + WAIT_TIMEOUT_PAYLOAD_LEN"

definition OP_WAIT_EVENT :: u32 where "OP_WAIT_EVENT = 0x190"
definition OP_SIGNAL_EVENT :: u32 where "OP_SIGNAL_EVENT = 0x191"
definition OP_WAIT_EVENT_TIMEOUT :: u32 where "OP_WAIT_EVENT_TIMEOUT = 0x192"

definition OPCODE_UPDATE_FENCE :: u32 where "OPCODE_UPDATE_FENCE = 0x13c"
definition OPCODE_WAIT_FOR_FENCE :: u32 where "OPCODE_WAIT_FOR_FENCE = 0x13d"

definition REJECTED_BLIT_UPDATE_FENCE :: u32 where "REJECTED_BLIT_UPDATE_FENCE = OPCODE_UPDATE_FENCE"
definition REJECTED_BLIT_WAIT_FENCE :: u32 where "REJECTED_BLIT_WAIT_FENCE = OPCODE_WAIT_FOR_FENCE"
definition REJECTED_BEFORE_WINDOW :: u32 where "REJECTED_BEFORE_WINDOW = OP_WAIT_EVENT - 1"
definition REJECTED_AFTER_WINDOW :: u32 where "REJECTED_AFTER_WINDOW = OP_WAIT_EVENT_TIMEOUT + 1"

named_theorems event_defs \<open>the event record's layout and opcodes\<close>

lemmas [event_defs] = EVENT_OPCODE_OFFSET_def EVENT_LENGTH_OFFSET_def U32_SIZE_def U64_SIZE_def
  VALUE_REF_def VALUE_VALUE_def TIMEOUT_OFFSET_def SIGNAL_WAIT_PAYLOAD_LEN_def
  WAIT_TIMEOUT_PAYLOAD_LEN_def SIGNAL_WAIT_LEN_def WAIT_TIMEOUT_LEN_def OP_HEADER_LEN_def
  OP_WAIT_EVENT_def OP_SIGNAL_EVENT_def OP_WAIT_EVENT_TIMEOUT_def

datatype event_decode_status = EvShort | EvBadLength | EvUnknownOpcode | EvRejectedOpcode

primrec event_refusal :: "event_decode_status \<Rightarrow> string" where
  "event_refusal EvShort = ''event_decode_short''"
| "event_refusal EvBadLength = ''event_decode_bad_length''"
| "event_refusal EvUnknownOpcode = ''event_decode_unknown_opcode''"
| "event_refusal EvRejectedOpcode = ''event_decode_rejected_opcode''"

datatype event_cmd_kind = CmdUnknown | CmdSignalEvent | CmdWaitEvent

record event_command =
  ec_opcode :: u32
  ec_command_length :: u32
  ec_kind :: event_cmd_kind
  ec_event_ref :: u32
  ec_value :: u64
  ec_has_timeout :: bool
  ec_timeout :: u32
  ec_raw_payload_offset :: nat
  ec_raw_payload_length :: nat

definition opcode_rejected_by_deserializer :: "u32 \<Rightarrow> bool" where
  "opcode_rejected_by_deserializer opcode \<longleftrightarrow>
     opcode \<in> {REJECTED_BLIT_UPDATE_FENCE, REJECTED_BLIT_WAIT_FENCE, REJECTED_BEFORE_WINDOW, REJECTED_AFTER_WINDOW}"

definition u32_from :: "u8 list \<Rightarrow> nat \<Rightarrow> ('e, u32) outcome" where
  "u32_from bytes i = obind (slice_from bytes i) ld32"

definition u64_from :: "u8 list \<Rightarrow> nat \<Rightarrow> ('e, u64) outcome" where
  "u64_from bytes i = obind (slice_from bytes i) ld64"

definition decode_event :: "u8 list \<Rightarrow> (event_decode_status, event_command) outcome" where
  "decode_event command =
     (if length command < OP_HEADER_LEN then Err EvShort
      else
        obind (u32_from command EVENT_OPCODE_OFFSET) (\<lambda>opcode.
        obind (u32_from command EVENT_LENGTH_OFFSET) (\<lambda>w.
        let command_length = unat w in
        if command_length < OP_HEADER_LEN \<or> command_length > length command then Err EvShort
        else
          let payload = drop OP_HEADER_LEN (take command_length command);
              decoded = \<lparr>ec_opcode = opcode, ec_command_length = of_nat command_length,
                ec_kind = CmdUnknown, ec_event_ref = 0, ec_value = 0, ec_has_timeout = False,
                ec_timeout = 0, ec_raw_payload_offset = OP_HEADER_LEN,
                ec_raw_payload_length = command_length - OP_HEADER_LEN\<rparr>
          in if opcode = OP_WAIT_EVENT then
               (if command_length < SIGNAL_WAIT_LEN then Err EvBadLength
                else obind (u32_from payload VALUE_REF) (\<lambda>r. obind (u64_from payload VALUE_VALUE) (\<lambda>v.
                  Ok (decoded\<lparr>ec_kind := CmdWaitEvent, ec_event_ref := r, ec_value := v\<rparr>))))
             else if opcode = OP_SIGNAL_EVENT then
               (if command_length < SIGNAL_WAIT_LEN then Err EvBadLength
                else obind (u32_from payload VALUE_REF) (\<lambda>r. obind (u64_from payload VALUE_VALUE) (\<lambda>v.
                  Ok (decoded\<lparr>ec_kind := CmdSignalEvent, ec_event_ref := r, ec_value := v\<rparr>))))
             else if opcode = OP_WAIT_EVENT_TIMEOUT then
               (if command_length < WAIT_TIMEOUT_LEN then Err EvBadLength
                else obind (u32_from payload VALUE_REF) (\<lambda>r. obind (u64_from payload VALUE_VALUE) (\<lambda>v.
                  obind (u32_from payload TIMEOUT_OFFSET) (\<lambda>t.
                  Ok (decoded\<lparr>ec_kind := CmdWaitEvent, ec_event_ref := r, ec_value := v,
                        ec_has_timeout := True, ec_timeout := t\<rparr>)))))
             else if opcode_rejected_by_deserializer opcode then Err EvRejectedOpcode
             else Err EvUnknownOpcode)))"

section \<open>The executor\<close>

datatype fence_status = FsOk | FsPending | FsMissing | FsUnsupported string

fun fence_refusal :: "fence_status \<Rightarrow> string option" where
  "fence_refusal (FsUnsupported slug) = Some slug"
| "fence_refusal _ = None"

primrec domain_tag :: "domain \<Rightarrow> u8 option" where
  "domain_tag DomEvent = Some FENCE_DOMAIN_EVENT"
| "domain_tag BlitFence = Some FENCE_DOMAIN_BLIT"
| "domain_tag ComputeFence = Some FENCE_DOMAIN_COMPUTE"
| "domain_tag RenderFence = Some FENCE_DOMAIN_RENDER"
| "domain_tag DomUnknown = None"

definition execute_fence ::
  "generations \<Rightarrow> u32 \<Rightarrow> domain \<Rightarrow> u32 \<Rightarrow> fence_action \<Rightarrow> fence_status \<times> generations" where
  "execute_fence s task_id d fence_ref action =
     (if fence_ref = 0 then (FsMissing, s)
      else case domain_tag d of
        None \<Rightarrow> (FsUnsupported ''fence_domain_unknown'', s)
      | Some tag \<Rightarrow>
          if d = DomEvent then (FsUnsupported ''fence_event_in_fence_path'', s)
          else
            let current = fence_generation s task_id tag fence_ref;
                plan = plan_fence action d current;
                s = (if updates_state plan then set_fence_generation s task_id tag fence_ref (update_value plan) else s)
            in (case decision plan of
                  SignalUpdate \<Rightarrow> FsOk
                | SignalNoop \<Rightarrow> FsOk
                | WaitSatisfied \<Rightarrow> FsOk
                | WaitPending \<Rightarrow> FsPending
                | DecWaitTimeoutUnsupported \<Rightarrow> FsUnsupported ''fence_wait_timeout_unsupported''
                | DecInvalid \<Rightarrow> FsUnsupported ''fence_plan_invalid'', s))"

primrec kind_of_cmd :: "event_cmd_kind \<Rightarrow> event_kind option" where
  "kind_of_cmd CmdSignalEvent = Some EventSignal"
| "kind_of_cmd CmdWaitEvent = Some EventWait"
| "kind_of_cmd CmdUnknown = None"

definition execute_event :: "generations \<Rightarrow> u32 \<Rightarrow> event_command \<Rightarrow> fence_status \<times> generations" where
  "execute_event s task_id cmd =
     (if ec_event_ref cmd = 0 then (FsMissing, s)
      else case kind_of_cmd (ec_kind cmd) of
        None \<Rightarrow> (FsUnsupported ''event_kind_unknown'', s)
      | Some kind \<Rightarrow>
          let tag = FENCE_DOMAIN_EVENT;
              current = fence_generation s task_id tag (ec_event_ref cmd);
              plan = plan_event kind (ec_value cmd) (ec_has_timeout cmd) current;
              s = (if updates_state plan then set_fence_generation s task_id tag (ec_event_ref cmd) (update_value plan) else s)
          in (case decision plan of
                SignalUpdate \<Rightarrow> FsOk
              | SignalNoop \<Rightarrow> FsOk
              | WaitSatisfied \<Rightarrow> FsOk
              | WaitPending \<Rightarrow> FsPending
              | DecWaitTimeoutUnsupported \<Rightarrow> FsUnsupported ''event_wait_timeout_unsupported''
              | DecInvalid \<Rightarrow> FsUnsupported ''event_plan_invalid'', s))"

text \<open>\<open>handle_event_record\<close> of runtime/exec/mod.rs: a record that does not decode is dropped, and the
  status of the others is not looked at.\<close>

definition handle_event_record :: "generations \<Rightarrow> u32 \<Rightarrow> u8 list \<Rightarrow> (unit, generations) outcome" where
  "handle_event_record s task_id cmd_bytes =
     (case decode_event cmd_bytes of
        Ok cmd \<Rightarrow> Ok (snd (execute_event s task_id cmd))
      | Err status \<Rightarrow> Ok s
      | Panic \<Rightarrow> Panic)"

end
