(* ===== verification/SyncFacts.thy ===== *)
theory SyncFacts
  imports Sync
begin

text \<open>
  The generation table is the history of the operations: an event holds the greatest value signalled,
  a fence the number of its updates. The verdict of a wait, its permanence and the independence of
  tasks, domains and refs follow from it.
\<close>

section \<open>Commands\<close>

text \<open>The command a record of \<open>20 + length rest\<close> bytes decodes to.\<close>

definition event_of :: "u32 \<Rightarrow> u32 \<Rightarrow> u64 \<Rightarrow> u8 list \<Rightarrow> event_cmd_kind \<Rightarrow> event_command" where
  "event_of opcode r v rest kind =
     \<lparr>ec_opcode = opcode, ec_command_length = of_nat (20 + length rest), ec_kind = kind, ec_event_ref = r,
      ec_value = v, ec_has_timeout = False, ec_timeout = 0, ec_raw_payload_offset = 8,
      ec_raw_payload_length = 12 + length rest\<rparr>"

section \<open>Steps and histories\<close>

datatype sync_op =
  OpEvent u32 event_command
| OpFence u32 domain u32 fence_action

inductive sync_step :: "generations \<Rightarrow> sync_op \<Rightarrow> fence_status \<Rightarrow> generations \<Rightarrow> bool" where
  event: "execute_event s t cmd = (st, s') \<Longrightarrow> sync_step s (OpEvent t cmd) st s'"
| fence: "execute_fence s t d r action = (st, s') \<Longrightarrow> sync_step s (OpFence t d r action) st s'"

inductive_cases sync_step_cases: "sync_step s op st s'"

inductive sync_reach :: "sync_op list \<Rightarrow> generations \<Rightarrow> bool" where
  start: "sync_reach [] Map.empty"
| step: "sync_reach h s \<Longrightarrow> sync_step s op st s' \<Longrightarrow> sync_reach (h @ [op]) s'"

definition signalled :: "u32 \<Rightarrow> u32 \<Rightarrow> sync_op \<Rightarrow> u64 list" where
  "signalled t r op =
     (case op of
        OpEvent t' cmd \<Rightarrow> if t' = t \<and> ec_event_ref cmd = r \<and> ec_kind cmd = CmdSignalEvent then [ec_value cmd] else []
      | OpFence _ _ _ _ \<Rightarrow> [])"

definition signals :: "sync_op list \<Rightarrow> u32 \<Rightarrow> u32 \<Rightarrow> u64 list" where
  "signals h t r = concat (map (signalled t r) h)"

definition updates :: "sync_op list \<Rightarrow> u32 \<Rightarrow> domain \<Rightarrow> u32 \<Rightarrow> nat" where
  "updates h t d r = length (filter ((=) (OpFence t d r FenceUpdate)) h)"

text \<open>What the table holds of a history.\<close>

definition event_level :: "sync_op list \<Rightarrow> u32 \<Rightarrow> u32 \<Rightarrow> u64 option" where
  "event_level h t r = (if signals h t r = [] then None else Some (Max (set (signals h t r))))"

definition fence_level :: "sync_op list \<Rightarrow> u32 \<Rightarrow> domain \<Rightarrow> u32 \<Rightarrow> u64 option" where
  "fence_level h t d r =
     (if updates h t d r = 0 then None else Some (of_nat (min (updates h t d r) (2 ^ 64 - 1))))"

definition history_of :: "sync_op list \<Rightarrow> generations" where
  "history_of h = (\<lambda>(t, tag, r).
     if r = 0 then None
     else if tag = FENCE_DOMAIN_EVENT then event_level h t r
     else if tag = FENCE_DOMAIN_BLIT then fence_level h t BlitFence r
     else if tag = FENCE_DOMAIN_COMPUTE then fence_level h t ComputeFence r
     else if tag = FENCE_DOMAIN_RENDER then fence_level h t RenderFence r
     else None)"

lemmas tag_defs = FENCE_DOMAIN_EVENT_def FENCE_DOMAIN_BLIT_def FENCE_DOMAIN_COMPUTE_def FENCE_DOMAIN_RENDER_def

lemmas plan_defs = plan_signal_def plan_noop_def plan_decided_def

section \<open>One operation\<close>

definition raised :: "u64 option \<Rightarrow> u64 \<Rightarrow> u64" where
  "raised current v = (case current of None \<Rightarrow> v | Some cur \<Rightarrow> max cur v)"

definition counted :: "u64 option \<Rightarrow> u64" where
  "counted current = (case current of None \<Rightarrow> 1 | Some cur \<Rightarrow> if cur = - 1 then cur else cur + 1)"

lemma execute_event_table:
  "snd (execute_event s t cmd) =
     (if ec_event_ref cmd \<noteq> 0 \<and> ec_kind cmd = CmdSignalEvent
      then s((t, FENCE_DOMAIN_EVENT, ec_event_ref cmd) \<mapsto> raised (s (t, FENCE_DOMAIN_EVENT, ec_event_ref cmd)) (ec_value cmd))
      else s)"
  by (cases "ec_kind cmd"; cases "s (t, FENCE_DOMAIN_EVENT, ec_event_ref cmd)")
    (auto simp: execute_event_def plan_defs Let_def fence_generation_def set_fence_generation_def raised_def max_def fun_upd_idem)

lemma execute_fence_table:
  "snd (execute_fence s t d r action) =
     (if r \<noteq> 0 \<and> is_fence_domain d \<and> action = FenceUpdate
      then s((t, the (domain_tag d), r) \<mapsto> counted (s (t, the (domain_tag d), r)))
      else s)"
  by (cases d; cases action; cases "s (t, the (domain_tag d), r)")
    (auto simp: execute_fence_def plan_fence_def plan_defs Let_def fence_generation_def set_fence_generation_def
      counted_def is_fence_domain_def FENCE_INITIAL_GENERATION_def fun_upd_idem)

lemma signals_snoc [simp]: "signals (h @ [op]) t r = signals h t r @ signalled t r op"
  by (simp add: signals_def)

lemma signals_Nil [simp]: "signals [] t r = []"
  by (simp add: signals_def)

lemma updates_snoc [simp]:
  "updates (h @ [op]) t d r = updates h t d r + (if op = OpFence t d r FenceUpdate then 1 else 0)"
  by (auto simp: updates_def)

lemma updates_Nil [simp]: "updates [] t d r = 0"
  by (simp add: updates_def)

lemma event_level_snoc:
  "event_level (h @ [OpEvent t' cmd]) t r =
     (if t' = t \<and> ec_event_ref cmd = r \<and> ec_kind cmd = CmdSignalEvent
      then Some (raised (event_level h t r) (ec_value cmd)) else event_level h t r)"
  "event_level (h @ [OpFence t' d r' action]) t r = event_level h t r"
  by (auto simp: event_level_def signalled_def raised_def max.commute)

lemma counted_of_nat:
  "counted (if n = 0 then None else Some (of_nat (min n (2 ^ 64 - 1)))) = of_nat (min (Suc n) (2 ^ 64 - 1))"
proof (cases "n = 0 \<or> 2 ^ 64 - 1 \<le> n")
  case True
  then show ?thesis by (auto simp: counted_def min_def)
next
  case False
  then have "unat (of_nat n :: u64) = n" by (simp add: unat_of_nat)
  moreover have "unat (- 1 :: u64) = 2 ^ 64 - 1"
    by (simp add: unsigned_minus_1_eq_mask mask_eq_exp_minus_1)
  ultimately have "(of_nat n :: u64) \<noteq> - 1" using False by auto
  with False show ?thesis by (simp add: counted_def)
qed

lemma fence_level_snoc:
  "fence_level (h @ [op]) t d r =
     (if op = OpFence t d r FenceUpdate then Some (counted (fence_level h t d r)) else fence_level h t d r)"
  using counted_of_nat [of "updates h t d r"] by (simp add: fence_level_def)

text \<open>Every operation changes the history's table as it changes the device's.\<close>

lemma tags_distinct:
  "is_fence_domain d \<Longrightarrow> domain_tag d = Some tag \<Longrightarrow> tag \<noteq> FENCE_DOMAIN_EVENT"
  by (cases d) (auto simp: is_fence_domain_def tag_defs)

lemma history_step: "sync_step (history_of h) op st s' \<Longrightarrow> s' = history_of (h @ [op])"
proof (erule sync_step_cases)
  fix t cmd
  assume op: "op = OpEvent t cmd" and "execute_event (history_of h) t cmd = (st, s')"
  then have "s' = snd (execute_event (history_of h) t cmd)" by simp
  also have "\<dots> = history_of (h @ [op])"
    unfolding execute_event_table op
    by (rule ext) (simp add: history_of_def event_level_snoc fence_level_snoc tag_defs split: prod.split)
  finally show ?thesis .
next
  fix t d r action
  assume op: "op = OpFence t d r action" and "execute_fence (history_of h) t d r action = (st, s')"
  then have "s' = snd (execute_fence (history_of h) t d r action)" by simp
  also have "\<dots> = history_of (h @ [op])"
    unfolding execute_fence_table op
    by (rule ext, cases d) (simp_all add: history_of_def event_level_snoc fence_level_snoc tag_defs is_fence_domain_def split: prod.split)
  finally show ?thesis .
qed

lemma reach_history: "sync_reach h s \<Longrightarrow> s = history_of h"
proof (induction rule: sync_reach.induct)
  case start
  show ?case by (auto simp: history_of_def event_level_def fence_level_def)
next
  case (step h s op st s')
  then show ?case using history_step by simp
qed


lemma reach_total: "\<exists>s. sync_reach h s"
proof (induction h rule: rev_induct)
  case Nil
  then show ?case using sync_reach.start by blast
next
  case (snoc op h)
  then obtain s where s: "sync_reach h s" by blast
  show ?case
  proof (cases op)
    case (OpEvent t cmd)
    with s show ?thesis using sync_reach.step sync_step.event [OF prod.collapse [symmetric]] by blast
  next
    case (OpFence t d r action)
    with s show ?thesis using sync_reach.step sync_step.fence [OF prod.collapse [symmetric]] by blast
  qed
qed

text \<open>C15: The generation table is the history of the operations that reached the device, whatever their
  order: an event holds the greatest value signalled to it, a fence the number of its updates up to the
  greatest u64, each by its own task, domain and ref. Ref 0 and the unknown domain hold nothing.\<close>

theorem generations_are_history:
  assumes "sync_reach h s"
  shows "s (t, FENCE_DOMAIN_EVENT, r) = (if r = 0 then None else event_level h t r)
    \<and> (domain_tag d = Some tag \<longrightarrow> is_fence_domain d \<longrightarrow>
        s (t, tag, r) = (if r = 0 then None else fence_level h t d r))
    \<and> ((\<forall>d. domain_tag d \<noteq> Some other) \<longrightarrow> s (t, other, r) = None)"
proof -
  have "domain_tag d = Some other \<Longrightarrow> other \<in> {FENCE_DOMAIN_EVENT, FENCE_DOMAIN_BLIT, FENCE_DOMAIN_COMPUTE, FENCE_DOMAIN_RENDER}" for d
    by (cases d) simp_all
  moreover have "(\<forall>d. domain_tag d \<noteq> Some other) \<Longrightarrow>
      other \<notin> {FENCE_DOMAIN_EVENT, FENCE_DOMAIN_BLIT, FENCE_DOMAIN_COMPUTE, FENCE_DOMAIN_RENDER}"
    using domain_tag.simps by fastforce
  ultimately show ?thesis
    unfolding reach_history [OF assms]
    by (cases d) (auto simp: history_of_def tag_defs is_fence_domain_def)
qed

lemma wait_event_verdict:
  assumes "sync_reach h s" and "ec_kind cmd = CmdWaitEvent" and "ec_event_ref cmd \<noteq> 0"
  shows "execute_event s t cmd =
      (if \<exists>v \<in> set (signals h t (ec_event_ref cmd)). ec_value cmd \<le> v then FsOk
       else if ec_has_timeout cmd then FsUnsupported ''event_wait_timeout_unsupported''
       else FsPending, s)"
proof -
  have level: "s (t, FENCE_DOMAIN_EVENT, ec_event_ref cmd) = event_level h t (ec_event_ref cmd)"
    unfolding reach_history [OF assms(1)] using assms(3) by (simp add: history_of_def)
  show ?thesis
    using assms(2,3)
    by (auto simp: execute_event_def Let_def plan_defs fence_generation_def level event_level_def Max_ge_iff)
qed

lemma wait_fence_verdict:
  assumes "sync_reach h s" and "is_fence_domain d" and "r \<noteq> 0"
  shows "execute_fence s t d r FenceWait = (if OpFence t d r FenceUpdate \<in> set h then FsOk else FsPending, s)"
proof -
  have "updates h t d r \<noteq> 0 \<longleftrightarrow> OpFence t d r FenceUpdate \<in> set h"
    by (auto simp: updates_def filter_empty_conv)
  then show ?thesis
    using assms(2,3) unfolding reach_history [OF assms(1)]
    by (cases d) (auto simp: execute_fence_def plan_fence_def Let_def plan_defs fence_generation_def history_of_def
        is_fence_domain_def tag_defs fence_level_def split: if_splits)
qed

theorem generations_are_history_witness:
  "\<exists>s. sync_reach [OpFence 1 BlitFence 5 FenceUpdate, OpFence 1 BlitFence 5 FenceUpdate] s
      \<and> s (1, FENCE_DOMAIN_BLIT, 5) = Some 2 \<and> s (1, FENCE_DOMAIN_EVENT, 5) = None \<and> s (1, 0, 5) = None"
proof -
  obtain s where s: "sync_reach [OpFence 1 BlitFence 5 FenceUpdate, OpFence 1 BlitFence 5 FenceUpdate] s"
    using reach_total by blast
  have "domain_tag d \<noteq> Some 0" for d by (cases d) (simp_all add: tag_defs)
  then show ?thesis
    using s generations_are_history [OF s, of 1 5 BlitFence FENCE_DOMAIN_BLIT 0]
    by (auto simp: is_fence_domain_def fence_level_def updates_def event_level_def signals_def signalled_def)
qed

text \<open>The verdict of a wait is decided by the history alone, and a wait changes nothing. An event wait
  is satisfied exactly when a value at or above its target has been signalled; otherwise it is pending,
  or refused by name when it carries a timeout. A fence wait is satisfied exactly when the fence has
  been updated.\<close>

theorem wait_verdicts:
  assumes "sync_reach h s" and "ec_kind cmd = CmdWaitEvent" and "ec_event_ref cmd \<noteq> 0"
    and "is_fence_domain d" and "r \<noteq> 0"
  shows "execute_event s t cmd =
      (if \<exists>v \<in> set (signals h t (ec_event_ref cmd)). ec_value cmd \<le> v then FsOk
       else if ec_has_timeout cmd then FsUnsupported ''event_wait_timeout_unsupported''
       else FsPending, s)
    \<and> execute_fence s t d r FenceWait = (if OpFence t d r FenceUpdate \<in> set h then FsOk else FsPending, s)"
  using wait_event_verdict [OF assms(1-3)] wait_fence_verdict [OF assms(1,4,5)] by blast

theorem wait_verdicts_witness:
  "\<exists>s. sync_reach [OpEvent 1 (event_of OP_SIGNAL_EVENT 5 7 [] CmdSignalEvent)] s
      \<and> execute_event s 1 (event_of OP_WAIT_EVENT 5 8 [] CmdWaitEvent) = (FsPending, s)
      \<and> execute_fence s 1 RenderFence 5 FenceWait = (FsPending, s)"
proof -
  let ?h = "[OpEvent 1 (event_of OP_SIGNAL_EVENT 5 7 [] CmdSignalEvent)]"
    and ?w = "event_of OP_WAIT_EVENT 5 8 [] CmdWaitEvent"
  obtain s where s: "sync_reach ?h s" using reach_total by blast
  have "ec_kind ?w = CmdWaitEvent" "ec_event_ref ?w \<noteq> 0" "is_fence_domain RenderFence" "(5 :: u32) \<noteq> 0"
    by (simp_all add: event_of_def is_fence_domain_def)
  from wait_verdicts [OF s this, of 1] s show ?thesis
    by (auto simp: event_of_def signals_def signalled_def)
qed

text \<open>A signal wakes its waits for good. Whatever operations came before it and whatever operations
  come after it, on the same event or elsewhere, the device reaches a state, and in that state a wait for
  a value up to the signalled one is satisfied, even one with a timeout, and a fence that was updated
  lets every wait through.\<close>

theorem signal_wakes_waits:
  assumes "ec_kind sig = CmdSignalEvent" and "ec_kind wait = CmdWaitEvent"
    and "ec_event_ref wait = ec_event_ref sig" and "ec_event_ref sig \<noteq> 0" and "ec_value wait \<le> ec_value sig"
    and "is_fence_domain d" and "r \<noteq> 0"
  shows "(\<exists>s. sync_reach (h @ OpEvent t sig # h') s)
    \<and> (\<forall>s. sync_reach (h @ OpEvent t sig # h') s \<longrightarrow> execute_event s t wait = (FsOk, s))
    \<and> (\<exists>s. sync_reach (h @ OpFence t d r FenceUpdate # h') s)
    \<and> (\<forall>s. sync_reach (h @ OpFence t d r FenceUpdate # h') s \<longrightarrow> execute_fence s t d r FenceWait = (FsOk, s))"
proof (intro conjI allI impI reach_total)
  fix s
  assume "sync_reach (h @ OpEvent t sig # h') s"
  moreover have "ec_value sig \<in> set (signals (h @ OpEvent t sig # h') t (ec_event_ref wait))"
    using assms(1,3) by (simp add: signals_def signalled_def)
  ultimately show "execute_event s t wait = (FsOk, s)"
    using assms by (auto simp: wait_event_verdict)
next
  fix s
  assume "sync_reach (h @ OpFence t d r FenceUpdate # h') s"
  then show "execute_fence s t d r FenceWait = (FsOk, s)"
    using assms(6,7) by (simp add: wait_fence_verdict)
qed

theorem signal_wakes_waits_witness:
  "\<exists>s. sync_reach [OpEvent 1 (event_of OP_SIGNAL_EVENT 5 7 [] CmdSignalEvent), OpEvent 1 (event_of OP_SIGNAL_EVENT 5 2 [] CmdSignalEvent)] s
      \<and> execute_event s 1 (event_of OP_WAIT_EVENT 5 7 [] CmdWaitEvent) = (FsOk, s)"
  using signal_wakes_waits [of "event_of OP_SIGNAL_EVENT 5 7 [] CmdSignalEvent" "event_of OP_WAIT_EVENT 5 7 [] CmdWaitEvent"
      BlitFence 1 "[]" 1 "[OpEvent 1 (event_of OP_SIGNAL_EVENT 5 2 [] CmdSignalEvent)]"]
  by (auto simp: event_of_def is_fence_domain_def)

section \<open>The bytes of a record\<close>

definition event_bytes :: "u32 \<Rightarrow> u32 \<Rightarrow> u64 \<Rightarrow> u8 list \<Rightarrow> u8 list" where
  "event_bytes opcode r v rest =
     nat_to_le 4 (unat opcode) @ nat_to_le 4 (20 + length rest) @ nat_to_le 4 (unat r) @ nat_to_le 8 (unat v) @ rest"

lemma take_append_len: "length xs = n \<Longrightarrow> take n (xs @ ys) = xs" "length xs = n \<Longrightarrow> drop n (xs @ ys) = ys"
  by simp_all

lemma u32_from_ok [simp]: "i + 4 \<le> length bs \<Longrightarrow> u32_from bs i = Ok (le_word (take 4 (drop i bs)))"
  by (simp add: u32_from_def)

lemma u64_from_ok [simp]: "i + 8 \<le> length bs \<Longrightarrow> u64_from bs i = Ok (le_word (take 8 (drop i bs)))"
  by (simp add: u64_from_def)

lemma decode_event_no_panic: "decode_event bs \<noteq> Panic"
  by (auto simp: decode_event_def Let_def event_defs not_less)

lemma event_bytes_parts:
  assumes "20 + length rest < 2 ^ 32"
  shows "u32_from (event_bytes opcode r v rest @ tail) EVENT_OPCODE_OFFSET = Ok opcode"
    "u32_from (event_bytes opcode r v rest @ tail) EVENT_LENGTH_OFFSET = Ok (of_nat (20 + length rest))"
    "unat (of_nat (20 + length rest) :: u32) = 20 + length rest"
    "drop 8 (take (20 + length rest) (event_bytes opcode r v rest @ tail))
      = nat_to_le 4 (unat r) @ nat_to_le 8 (unat v) @ rest"
proof -
  show u: "unat (of_nat (20 + length rest) :: u32) = 20 + length rest"
    using assms by (simp only: unat_of_nat) (simp)
  show "u32_from (event_bytes opcode r v rest @ tail) EVENT_OPCODE_OFFSET = Ok opcode"
    by (simp add: event_bytes_def EVENT_OPCODE_OFFSET_def)
  have "(le_word (nat_to_le 4 (20 + length rest)) :: u32) = of_nat (20 + length rest)"
    using le_word_store(2) [of "of_nat (20 + length rest)"] by (simp only: u)
  then show "u32_from (event_bytes opcode r v rest @ tail) EVENT_LENGTH_OFFSET = Ok (of_nat (20 + length rest))"
    by (simp add: event_bytes_def EVENT_LENGTH_OFFSET_def)
  show "drop 8 (take (20 + length rest) (event_bytes opcode r v rest @ tail))
      = nat_to_le 4 (unat r) @ nat_to_le 8 (unat v) @ rest"
    by (simp add: event_bytes_def)
qed

lemma length_event_bytes [simp]: "length (event_bytes opcode r v rest) = 20 + length rest"
  by (simp add: event_bytes_def)

lemma payload_parts:
  fixes r :: u32 and v :: u64
  shows "u32_from (nat_to_le 4 (unat r) @ nat_to_le 8 (unat v) @ rest) VALUE_REF = Ok r"
    "u64_from (nat_to_le 4 (unat r) @ nat_to_le 8 (unat v) @ rest) VALUE_VALUE = Ok v"
    "4 \<le> length rest \<Longrightarrow> u32_from (nat_to_le 4 (unat r) @ nat_to_le 8 (unat v) @ rest) TIMEOUT_OFFSET = Ok (le_word (take 4 rest))"
  by (simp_all add: VALUE_REF_def VALUE_VALUE_def TIMEOUT_OFFSET_def)

lemma decode_event_bytes:
  assumes "20 + length rest < 2 ^ 32"
  shows "decode_event (event_bytes OP_SIGNAL_EVENT r v rest @ tail) = Ok (event_of OP_SIGNAL_EVENT r v rest CmdSignalEvent)"
    "decode_event (event_bytes OP_WAIT_EVENT r v rest @ tail) = Ok (event_of OP_WAIT_EVENT r v rest CmdWaitEvent)"
    "decode_event (event_bytes OP_WAIT_EVENT_TIMEOUT r v rest @ tail) =
       (if length rest < 4 then Err EvBadLength
        else Ok (event_of OP_WAIT_EVENT_TIMEOUT r v rest CmdWaitEvent
               \<lparr>ec_has_timeout := True, ec_timeout := le_word (take 4 rest)\<rparr>))"
proof -
  note d = decode_event_def event_bytes_parts [OF assms] Let_def obind.simps
  have h: "OP_HEADER_LEN = 8" "SIGNAL_WAIT_LEN = 20" "WAIT_TIMEOUT_LEN = 24" by (simp_all add: event_defs)
  have ops: "OP_SIGNAL_EVENT \<noteq> OP_WAIT_EVENT" "OP_WAIT_EVENT_TIMEOUT \<noteq> OP_WAIT_EVENT"
    "OP_WAIT_EVENT_TIMEOUT \<noteq> OP_SIGNAL_EVENT" by (simp_all add: event_defs)
  show "decode_event (event_bytes OP_SIGNAL_EVENT r v rest @ tail) = Ok (event_of OP_SIGNAL_EVENT r v rest CmdSignalEvent)"
    unfolding d h using ops by (simp add: payload_parts event_of_def event_bytes_parts(4) [OF assms])
  show "decode_event (event_bytes OP_WAIT_EVENT r v rest @ tail) = Ok (event_of OP_WAIT_EVENT r v rest CmdWaitEvent)"
    unfolding d h using ops by (simp add: payload_parts event_of_def)
  show "decode_event (event_bytes OP_WAIT_EVENT_TIMEOUT r v rest @ tail) =
       (if length rest < 4 then Err EvBadLength
        else Ok (event_of OP_WAIT_EVENT_TIMEOUT r v rest CmdWaitEvent
               \<lparr>ec_has_timeout := True, ec_timeout := le_word (take 4 rest)\<rparr>))"
    unfolding d h using ops by (simp add: payload_parts event_of_def)
qed

text \<open>Event records decode to what was encoded: a signal, a wait and a wait with a timeout give back
  their ref, value and timeout whatever bytes follow the record, a timed wait too short for its timeout
  is refused, and no byte string makes the decoder panic. Through the record handler a signal raises its
  event to its value, and a record that does not decode changes nothing.\<close>

theorem event_record_roundtrip:
  assumes "20 + length rest < 2 ^ 32"
  shows "decode_event (event_bytes OP_SIGNAL_EVENT r v rest @ tail) = Ok (event_of OP_SIGNAL_EVENT r v rest CmdSignalEvent)
    \<and> decode_event (event_bytes OP_WAIT_EVENT r v rest @ tail) = Ok (event_of OP_WAIT_EVENT r v rest CmdWaitEvent)
    \<and> decode_event (event_bytes OP_WAIT_EVENT_TIMEOUT r v rest @ tail) =
       (if length rest < 4 then Err EvBadLength
        else Ok (event_of OP_WAIT_EVENT_TIMEOUT r v rest CmdWaitEvent
               \<lparr>ec_has_timeout := True, ec_timeout := le_word (take 4 rest)\<rparr>))
    \<and> decode_event bytes \<noteq> Panic
    \<and> (r \<noteq> 0 \<longrightarrow> handle_event_record s t (event_bytes OP_SIGNAL_EVENT r v rest @ tail)
          = Ok (s((t, FENCE_DOMAIN_EVENT, r) \<mapsto> raised (s (t, FENCE_DOMAIN_EVENT, r)) v)))
    \<and> ((\<exists>e. decode_event bytes = Err e) \<longrightarrow> handle_event_record s t bytes = Ok s)"
  using decode_event_bytes [OF assms] decode_event_no_panic [of bytes]
  by (auto simp: handle_event_record_def execute_event_table event_of_def)

theorem event_record_roundtrip_witness:
  "decode_event (event_bytes OP_SIGNAL_EVENT 5 7 [] @ [9]) = Ok (event_of OP_SIGNAL_EVENT 5 7 [] CmdSignalEvent)
    \<and> handle_event_record Map.empty 1 (event_bytes OP_SIGNAL_EVENT 5 7 [] @ [9])
        = Ok ([(1, FENCE_DOMAIN_EVENT, 5) \<mapsto> 7])"
  using event_record_roundtrip [of "[]" 5 7 "[9]" "[]" Map.empty 1] by (simp add: raised_def)

end
