(* ===== verification/Memo.thy ===== *)
theory Memo
  imports OrderedMap Machine "HOL-Library.Multiset"
begin

text \<open>
  The byte-bounded memo of model/lru_memo.rs. The \<open>BTreeMap\<close> is the list of its entries in key order (OrderedMap),
  \<open>usize\<close> values are naturals with the overflow of an addition a panic, and the access stamp is the
  64-bit word the code wraps. \<open>sort_unstable_by_key\<close> leaves the order of equal stamps open; the stamps
  of a memo differ as long as its counter has not wrapped (\<open>memo_ok\<close>), so the stable sort used here is
  no restriction then.
\<close>

section \<open>The memo\<close>

record 'v slot =
  sl_value :: 'v
  sl_bytes :: nat
  sl_access :: u64

record ('k, 'v) memo =
  mm_map :: "('k \<times> 'v slot) list"
  mm_bytes :: nat
  mm_byte_cap :: nat
  mm_seq :: u64

definition memo_new :: "nat \<Rightarrow> ('k, 'v) memo" where
  "memo_new byte_cap = \<lparr>mm_map = [], mm_bytes = 0, mm_byte_cap = byte_cap, mm_seq = 0\<rparr>"

definition memo_len :: "('k, 'v) memo \<Rightarrow> nat" where
  "memo_len m = length (mm_map m)"

definition memo_is_empty :: "('k, 'v) memo \<Rightarrow> bool" where
  "memo_is_empty m \<longleftrightarrow> mm_map m = []"

definition memo_peek :: "('k, 'v) memo \<Rightarrow> 'k \<Rightarrow> 'v option" where
  "memo_peek m k = map_option sl_value (map_of (mm_map m) k)"

text \<open>The counter moves on a miss as well.\<close>

definition memo_get_touch :: "('k::linorder, 'v) memo \<Rightarrow> 'k \<Rightarrow> 'v option \<times> ('k, 'v) memo" where
  "memo_get_touch m k =
     (let m = m\<lparr>mm_seq := mm_seq m + 1\<rparr>; seq = mm_seq m in
      case map_of (mm_map m) k of
        None \<Rightarrow> (None, m)
      | Some slot \<Rightarrow> (Some (sl_value slot), m\<lparr>mm_map := bt_insert k (slot\<lparr>sl_access := seq\<rparr>) (mm_map m)\<rparr>))"

definition memo_remove :: "('k, 'v) memo \<Rightarrow> 'k \<Rightarrow> 'v option \<times> ('k, 'v) memo" where
  "memo_remove m k =
     (case map_of (mm_map m) k of
        None \<Rightarrow> (None, m)
      | Some slot \<Rightarrow>
          (Some (sl_value slot), m\<lparr>mm_map := bt_remove k (mm_map m), mm_bytes := mm_bytes m - sl_bytes slot\<rparr>))"

definition usize_add :: "nat \<Rightarrow> nat \<Rightarrow> (unit, nat) outcome" where
  "usize_add a b = (if a + b < 2 ^ 64 then Ok (a + b) else Panic)"

definition low_water :: "nat \<Rightarrow> nat" where
  "low_water byte_cap = byte_cap - byte_cap div 8"

text \<open>The eviction loop over the keys, coldest first.\<close>

fun evict_each :: "nat \<Rightarrow> nat \<Rightarrow> 'k list \<Rightarrow> ('k, 'v) memo \<Rightarrow> (unit, ('k, 'v) memo) outcome" where
  "evict_each low incoming [] m = Ok m"
| "evict_each low incoming (k # ks) m =
     obind (usize_add (mm_bytes m) incoming) (\<lambda>total.
       if total \<le> low then Ok m
       else evict_each low incoming ks (snd (memo_remove m k)))"

definition evict_for :: "('k, 'v) memo \<Rightarrow> nat \<Rightarrow> (unit, ('k, 'v) memo) outcome" where
  "evict_for m incoming =
     (let low = low_water (mm_byte_cap m) in
      obind (usize_add (mm_bytes m) incoming) (\<lambda>total.
        if total \<le> low then Ok m
        else
          let by_access = sort_key fst (map (\<lambda>(k, s). (sl_access s, k)) (mm_map m))
          in evict_each low incoming (map snd by_access) m))"

definition memo_insert :: "('k::linorder, 'v) memo \<Rightarrow> 'k \<Rightarrow> 'v \<Rightarrow> nat \<Rightarrow> (unit, ('k, 'v) memo) outcome" where
  "memo_insert m key value entry_bytes =
     (let m = snd (memo_remove m key) in
      obind (evict_for m entry_bytes) (\<lambda>m.
        let m = m\<lparr>mm_seq := mm_seq m + 1\<rparr>;
            slot = \<lparr>sl_value = value, sl_bytes = entry_bytes, sl_access = mm_seq m\<rparr>
        in obind (usize_add (mm_bytes m) entry_bytes) (\<lambda>bytes.
             Ok (m\<lparr>mm_map := bt_insert key slot (mm_map m), mm_bytes := bytes\<rparr>))))"

end
