(* ===== verification/MemoFacts.thy ===== *)
theory MemoFacts
  imports Memo
begin

text \<open>
  The memo is a cache of the last value inserted under each key, its byte count is the sum of its
  entries, and what an insertion evicts is the coldest entries and no more than it has to.
\<close>

section \<open>Weights\<close>

definition weight :: "('k \<times> 'v slot) list \<Rightarrow> nat" where
  "weight m = sum_list (map (sl_bytes \<circ> snd) m)"

lemma weight_simps [simp]: "weight [] = 0" "weight (e # m) = sl_bytes (snd e) + weight m"
  by (simp_all add: weight_def)

lemma bt_remove_simps [simp]:
  "bt_remove k [] = []" "bt_remove k (e # m) = (if fst e = k then bt_remove k m else e # bt_remove k m)"
  by (simp_all add: bt_remove_def)

lemma bt_remove_absent: "k \<notin> fst ` set m \<Longrightarrow> bt_remove k m = m"
  by (induction m) auto

lemma weight_remove:
  "distinct (map fst m) \<Longrightarrow> map_of m k = Some s \<Longrightarrow> weight (bt_remove k m) + sl_bytes s = weight m"
  by (induction m) (auto simp: bt_remove_absent split: if_splits)

lemma weight_insert: "k \<notin> fst ` set m \<Longrightarrow> weight (bt_insert k s m) = weight m + sl_bytes s"
  by (induction k s m rule: bt_insert.induct) auto

lemma weight_retouch:
  "bt_ok m \<Longrightarrow> map_of m k = Some s \<Longrightarrow> sl_bytes s' = sl_bytes s \<Longrightarrow> weight (bt_insert k s' m) = weight m"
proof (induction k s' m rule: bt_insert.induct)
  case (2 k v k' v' m)
  have "k \<notin> fst ` set m" if "k < k'"
    using 2(2) that by (fastforce simp: bt_ok_def)
  then have "map_of m k = None" if "k < k'"
    using that by (simp add: map_of_eq_None_iff)
  with 2 show ?case by (auto simp: bt_ok_def)
qed simp

section \<open>The invariant\<close>

definition accounted :: "('k::linorder, 'v) memo \<Rightarrow> bool" where
  "accounted m \<longleftrightarrow> bt_ok (mm_map m) \<and> mm_bytes m = weight (mm_map m)"

definition stamped :: "('k, 'v) memo \<Rightarrow> bool" where
  "stamped m \<longleftrightarrow> inj_on (\<lambda>e. sl_access (snd e)) (set (mm_map m))
     \<and> (\<forall>e \<in> set (mm_map m). sl_access (snd e) \<le> mm_seq m)"

definition memo_ok :: "('k::linorder, 'v) memo \<Rightarrow> bool" where
  "memo_ok m \<longleftrightarrow> accounted m \<and> stamped m \<and> (mm_bytes m \<le> mm_byte_cap m \<or> length (mm_map m) = 1)"

definition without :: "'k set \<Rightarrow> ('k, 'v) memo \<Rightarrow> ('k, 'v) memo" where
  "without ks m = (let kept = filter (\<lambda>e. fst e \<notin> ks) (mm_map m) in m\<lparr>mm_map := kept, mm_bytes := weight kept\<rparr>)"

lemma without_simps [simp]:
  "mm_map (without ks m) = filter (\<lambda>e. fst e \<notin> ks) (mm_map m)"
  "mm_bytes (without ks m) = weight (filter (\<lambda>e. fst e \<notin> ks) (mm_map m))"
  "mm_byte_cap (without ks m) = mm_byte_cap m" "mm_seq (without ks m) = mm_seq m"
  by (simp_all add: without_def Let_def)

lemma bt_ok_filter: "bt_ok m \<Longrightarrow> bt_ok (filter P m)"
  unfolding bt_ok_def by (induction m) auto

lemma accounted_without [simp]: "accounted m \<Longrightarrow> accounted (without ks m)"
  by (simp add: accounted_def bt_ok_filter)

lemma without_none: "accounted m \<Longrightarrow> without {} m = m"
  by (simp add: without_def accounted_def)

lemma without_without: "without ks (without js m) = without (ks \<union> js) m"
  by (simp add: without_def Let_def conj_commute)

lemma remove_present:
  assumes "accounted m" and "map_of (mm_map m) k = Some s"
  shows "memo_remove m k = (Some (sl_value s), without {k} m)"
proof -
  have "weight (bt_remove k (mm_map m)) + sl_bytes s = mm_bytes m"
    using assms bt_ok_distinct [of "mm_map m"] by (simp add: accounted_def weight_remove)
  then have "mm_bytes m - sl_bytes s = weight (bt_remove k (mm_map m))" by simp
  then show ?thesis using assms(2) by (simp add: memo_remove_def without_def bt_remove_def Let_def)
qed

lemma remove_absent: "map_of (mm_map m) k = None \<Longrightarrow> memo_remove m k = (None, m)"
  by (simp add: memo_remove_def)

lemma remove_without:
  assumes "accounted m"
  shows "snd (memo_remove m k) = without {k} m"
proof (cases "map_of (mm_map m) k")
  case None
  then have "filter (\<lambda>e. fst e \<notin> {k}) (mm_map m) = mm_map m"
    by (auto simp: filter_id_conv map_of_eq_None_iff image_iff)
  with None assms show ?thesis by (simp add: remove_absent without_def accounted_def)
next
  case (Some s)
  with assms show ?thesis by (simp add: remove_present)
qed

lemma weight_filter_le: "weight (filter P m) \<le> weight m"
  by (induction m) auto

section \<open>Eviction\<close>

text \<open>The loop removes a prefix of the keys: the shortest after which the incoming entry fits.\<close>

lemma evict_each_prefix:
  assumes "accounted m" and "mm_bytes m + incoming < 2 ^ 64"
  shows "\<exists>j \<le> length ks. evict_each low incoming ks m = Ok (without (set (take j ks)) m)
    \<and> (j = length ks \<or> mm_bytes (without (set (take j ks)) m) + incoming \<le> low)
    \<and> (\<forall>i < j. low < mm_bytes (without (set (take i ks)) m) + incoming)"
  using assms
proof (induction ks arbitrary: m)
  case Nil
  then show ?case by (simp add: without_none)
next
  case (Cons k ks)
  show ?case
  proof (cases "mm_bytes m + incoming \<le> low")
    case True
    then show ?thesis using Cons.prems by (intro exI [of _ 0]) (simp add: usize_add_def without_none)
  next
    case False
    let ?m = "without {k} m"
    have "accounted ?m" "mm_bytes ?m + incoming < 2 ^ 64"
      using Cons.prems weight_filter_le [of "\<lambda>e. fst e \<notin> {k}" "mm_map m"] by (simp_all add: accounted_def bt_ok_filter)
    from Cons.IH [OF this] obtain j where j: "j \<le> length ks"
      "evict_each low incoming ks ?m = Ok (without (set (take j ks)) ?m)"
      "j = length ks \<or> mm_bytes (without (set (take j ks)) ?m) + incoming \<le> low"
      "\<forall>i < j. low < mm_bytes (without (set (take i ks)) ?m) + incoming"
      by blast
    have w: "without (set (take i ks)) ?m = without (set (take (Suc i) (k # ks))) m" for i
      by (simp add: without_without)
    have "low < mm_bytes (without (set (take i (k # ks))) m) + incoming" if "i < Suc j" for i
      using that j(4) False Cons.prems by (cases i) (simp_all add: without_none flip: w)
    moreover have "evict_each low incoming (k # ks) m = Ok (without (set (take (Suc j) (k # ks))) m)"
      using False Cons.prems j(2) by (simp add: usize_add_def remove_without without_without)
    moreover have "Suc j = length (k # ks) \<or> mm_bytes (without (set (take (Suc j) (k # ks))) m) + incoming \<le> low"
      using j(3) by (simp flip: w)
    ultimately show ?thesis using j(1) by (intro exI [of _ "Suc j"]) auto
  qed
qed

text \<open>The keys, coldest first.\<close>

definition cold_keys :: "('k, 'v) memo \<Rightarrow> 'k list" where
  "cold_keys m = map snd (sort_key fst (map (\<lambda>(k, s). (sl_access s, k)) (mm_map m)))"

lemma set_cold_keys [simp]: "set (cold_keys m) = fst ` set (mm_map m)"
  by (force simp: cold_keys_def)

lemma length_cold_keys [simp]: "length (cold_keys m) = length (mm_map m)"
  by (simp add: cold_keys_def)

lemma evict_for_prefix:
  assumes "accounted m" and "mm_bytes m + incoming < 2 ^ 64"
  shows "\<exists>j \<le> length (mm_map m). evict_for m incoming = Ok (without (set (take j (cold_keys m))) m)
    \<and> (j = length (mm_map m) \<or> mm_bytes (without (set (take j (cold_keys m))) m) + incoming \<le> low_water (mm_byte_cap m))
    \<and> (\<forall>i < j. low_water (mm_byte_cap m) < mm_bytes (without (set (take i (cold_keys m))) m) + incoming)"
proof (cases "mm_bytes m + incoming \<le> low_water (mm_byte_cap m)")
  case True
  then show ?thesis using assms by (intro exI [of _ 0]) (simp add: evict_for_def usize_add_def Let_def without_none)
next
  case False
  have "evict_for m incoming = evict_each (low_water (mm_byte_cap m)) incoming (cold_keys m) m"
    using assms False by (simp add: evict_for_def usize_add_def Let_def cold_keys_def)
  then show ?thesis using evict_each_prefix [OF assms, of "cold_keys m" "low_water (mm_byte_cap m)"] by simp
qed

section \<open>Coldest first\<close>

lemma set_bt_insert: "bt_ok m \<Longrightarrow> set (bt_insert k s m) = insert (k, s) {e \<in> set m. fst e \<noteq> k}"
proof (induction k s m rule: bt_insert.induct)
  case (2 k v k' v' m)
  then have "\<forall>e \<in> set m. k' < fst e" "bt_ok m" by (auto simp: bt_ok_def)
  then show ?case using 2 by (auto simp: not_less)
qed simp

lemma cold_take:
  assumes "accounted m" and "e \<in> set (mm_map m)" and "e' \<in> set (mm_map m)"
    and "fst e \<in> set (take j (cold_keys m))" and "fst e' \<notin> set (take j (cold_keys m))"
  shows "sl_access (snd e) \<le> sl_access (snd e')"
proof -
  define L where "L = sort_key fst (map (\<lambda>(k, s). (sl_access s, k)) (mm_map m))"
  have cold: "cold_keys m = map snd L" by (simp add: cold_keys_def L_def)
  have set_L: "set L = (\<lambda>e. (sl_access (snd e), fst e)) ` set (mm_map m)"
    by (auto simp: L_def image_iff split_beta)
  have sorted: "sorted (map fst (take j L) @ map fst (drop j L))"
    unfolding map_append [symmetric] append_take_drop_id L_def by (rule sorted_sort_key)
  have "distinct (map fst (mm_map m))" using assms(1) bt_ok_distinct [of "mm_map m"] by (simp add: accounted_def)
  then have unique: "x = y" if "x \<in> set (mm_map m)" "y \<in> set (mm_map m)" "fst x = fst y" for x y
    using that unfolding distinct_map by (blast dest: inj_onD)
  have "fst e \<in> snd ` set (take j L)" using assms(4) by (simp add: cold take_map)
  then obtain p where p: "p \<in> set (take j L)" "snd p = fst e" by (metis imageE)
  then obtain x where "x \<in> set (mm_map m)" "p = (sl_access (snd x), fst x)"
    using set_L set_take_subset [of j L] by blast
  with p unique assms(2) have "(sl_access (snd e), fst e) \<in> set (take j L)" by (metis snd_conv)
  moreover have "(sl_access (snd e'), fst e') \<in> set (drop j L)"
  proof -
    have "(sl_access (snd e'), fst e') \<in> set (take j L) \<union> set (drop j L)"
      using set_L assms(3) unfolding set_append [symmetric] append_take_drop_id by blast
    moreover have "(sl_access (snd e'), fst e') \<notin> set (take j L)"
      using assms(5) by (force simp: cold take_map)
    ultimately show ?thesis by blast
  qed
  ultimately show ?thesis using sorted by (force simp: sorted_append)
qed

section \<open>Insertion\<close>

definition placed :: "'k::linorder \<Rightarrow> 'v \<Rightarrow> nat \<Rightarrow> ('k, 'v) memo \<Rightarrow> ('k, 'v) memo" where
  "placed k v n m = m\<lparr>mm_seq := mm_seq m + 1,
     mm_map := bt_insert k \<lparr>sl_value = v, sl_bytes = n, sl_access = mm_seq m + 1\<rparr> (mm_map m),
     mm_bytes := mm_bytes m + n\<rparr>"

lemma memo_insert_fits:
  assumes "accounted m" and "memo_insert m k v n \<noteq> Panic"
  shows "mm_bytes (without {k} m) + n < 2 ^ 64"
proof (rule ccontr)
  assume "\<not> mm_bytes (without {k} m) + n < 2 ^ 64"
  then have "memo_insert m k v n = Panic"
    unfolding memo_insert_def remove_without [OF assms(1)] evict_for_def usize_add_def Let_def by (simp only: if_False obind.simps)
  with assms(2) show False by simp
qed

lemma memo_insert_prefix:
  assumes "accounted m" and "mm_bytes (without {k} m) + n < 2 ^ 64"
  shows "\<exists>j \<le> length (mm_map (without {k} m)).
      memo_insert m k v n = Ok (placed k v n (without (set (take j (cold_keys (without {k} m)))) (without {k} m)))
    \<and> (j = length (mm_map (without {k} m))
        \<or> mm_bytes (without (set (take j (cold_keys (without {k} m)))) (without {k} m)) + n \<le> low_water (mm_byte_cap m))
    \<and> (\<forall>i < j. low_water (mm_byte_cap m) < mm_bytes (without (set (take i (cold_keys (without {k} m)))) (without {k} m)) + n)"
proof -
  let ?m = "without {k} m"
  have fit: "mm_bytes (without ks ?m) + n < 2 ^ 64" for ks
  proof -
    have "mm_bytes (without ks ?m) \<le> mm_bytes ?m"
      by (simp only: without_simps weight_filter_le)
    with assms(2) show ?thesis by linarith
  qed
  have acc: "accounted ?m" using assms(1) by simp
  from evict_for_prefix [OF acc assms(2)] obtain j where j: "j \<le> length (mm_map ?m)"
    "evict_for ?m n = Ok (without (set (take j (cold_keys ?m))) ?m)"
    "j = length (mm_map ?m) \<or> mm_bytes (without (set (take j (cold_keys ?m))) ?m) + n \<le> low_water (mm_byte_cap ?m)"
    "\<forall>i < j. low_water (mm_byte_cap ?m) < mm_bytes (without (set (take i (cold_keys ?m))) ?m) + n"
    by blast
  have "memo_insert m k v n = Ok (placed k v n (without (set (take j (cold_keys ?m))) ?m))"
    using fit [of "set (take j (cold_keys ?m))"]
    unfolding memo_insert_def remove_without [OF assms(1)] Let_def j(2) obind.simps usize_add_def
    by (simp del: without_simps add: placed_def)
  with j show ?thesis by (intro exI [of _ j]) simp
qed

lemma accounted_placed:
  assumes "accounted m" and "k \<notin> fst ` set (mm_map m)"
  shows "accounted (placed k v n m)"
  using assms by (simp add: accounted_def placed_def bt_insert_ok weight_insert)

lemma seq_grows: "unat (s :: u64) < 2 ^ 64 - 1 \<Longrightarrow> s < s + 1"
  by (simp add: word_less_nat_alt unat_word_ariths)

lemma stamped_placed:
  assumes "stamped m" and "bt_ok (mm_map m)" and "unat (mm_seq m) < 2 ^ 64 - 1"
  shows "stamped (placed k v n m)"
proof -
  note less = seq_grows [OF assms(3)]
  have "inj_on (\<lambda>e. sl_access (snd e)) {e \<in> set (mm_map m). fst e \<noteq> k}"
    using assms(1) by (auto simp: stamped_def intro: inj_on_subset)
  moreover have "sl_access (snd e) \<noteq> mm_seq m + 1" if "e \<in> set (mm_map m)" for e
    using assms(1) less that by (force simp: stamped_def)
  ultimately show ?thesis
    using assms(1,2) less by (fastforce simp: stamped_def placed_def set_bt_insert)
qed

lemma stamped_without: "stamped m \<Longrightarrow> stamped (without ks m)"
  by (auto simp: stamped_def intro: inj_on_subset)

lemma memo_insert_ok:
  assumes "memo_ok m" and "unat (mm_seq m) < 2 ^ 64 - 1" and "memo_insert m k v n = Ok m'"
  shows "memo_ok m' \<and> mm_byte_cap m' = mm_byte_cap m \<and> mm_seq m' = mm_seq m + 1"
proof -
  have acc: "accounted m" and st: "stamped m" using assms(1) by (simp_all add: memo_ok_def)
  have "memo_insert m k v n \<noteq> Panic" using assms(3) by simp
  from memo_insert_prefix [OF acc memo_insert_fits [OF acc this], of v] assms(3) obtain j where
    j: "m' = placed k v n (without (set (take j (cold_keys (without {k} m)))) (without {k} m))"
    and fit: "j = length (mm_map (without {k} m))
        \<or> mm_bytes (without (set (take j (cold_keys (without {k} m)))) (without {k} m)) + n \<le> low_water (mm_byte_cap m)"
    by auto
  let ?m = "without (set (take j (cold_keys (without {k} m)))) (without {k} m)"
  have fresh: "k \<notin> fst ` set (mm_map ?m)" by auto
  have acc': "accounted ?m" using acc by simp
  then have bt: "bt_ok (mm_map ?m)" by (simp add: accounted_def)
  have "stamped m'"
    unfolding j using stamped_placed [OF _ bt] st assms(2) by (simp add: stamped_without del: without_simps(1,2))
  moreover have "accounted m'" unfolding j by (rule accounted_placed [OF acc' fresh])
  moreover have "mm_bytes m' \<le> mm_byte_cap m' \<or> length (mm_map m') = 1"
  proof (cases "j = length (mm_map (without {k} m))")
    case True
    then have "take j (cold_keys (without {k} m)) = cold_keys (without {k} m)" by simp
    then have "mm_map ?m = []" by (auto simp: filter_empty_conv)
    then show ?thesis unfolding j by (simp add: placed_def del: without_simps(1))
  next
    case False
    with fit have "mm_bytes ?m + n \<le> mm_byte_cap m" by (simp add: low_water_def del: without_simps(2))
    then show ?thesis unfolding j by (simp add: placed_def del: without_simps(1,2))
  qed
  ultimately show ?thesis unfolding j by (simp add: memo_ok_def placed_def)
qed

lemma keys_retouch:
  "bt_ok m \<Longrightarrow> map_of m k = Some s \<Longrightarrow> map fst (bt_insert k s' m) = map fst m"
proof (induction k s' m rule: bt_insert.induct)
  case (2 k v k' v' m)
  have "k \<notin> fst ` set m" if "k < k'" using 2(2) that by (fastforce simp: bt_ok_def)
  then have "map_of m k = None" if "k < k'" using that by (simp add: map_of_eq_None_iff)
  with 2 show ?case by (auto simp: bt_ok_def)
qed simp

lemma memo_touch_ok:
  assumes "memo_ok m" and "unat (mm_seq m) < 2 ^ 64 - 1"
  shows "memo_ok (snd (memo_get_touch m k)) \<and> mm_byte_cap (snd (memo_get_touch m k)) = mm_byte_cap m
    \<and> mm_seq (snd (memo_get_touch m k)) = mm_seq m + 1"
proof -
  note less = seq_grows [OF assms(2)]
  have bt: "bt_ok (mm_map m)" using assms(1) by (simp add: memo_ok_def accounted_def)
  show ?thesis
  proof (cases "map_of (mm_map m) k")
    case None
    then show ?thesis using assms(1) less
      by (fastforce simp: memo_get_touch_def Let_def memo_ok_def accounted_def stamped_def)
  next
    case (Some s)
    let ?s = "s\<lparr>sl_access := mm_seq m + 1\<rparr>"
    have m': "snd (memo_get_touch m k) = m\<lparr>mm_seq := mm_seq m + 1, mm_map := bt_insert k ?s (mm_map m)\<rparr>"
      by (simp add: memo_get_touch_def Let_def Some)
    have "inj_on (\<lambda>e. sl_access (snd e)) {e \<in> set (mm_map m). fst e \<noteq> k}"
      using assms(1) by (auto simp: memo_ok_def stamped_def intro: inj_on_subset)
    moreover have "sl_access (snd e) \<noteq> mm_seq m + 1" if "e \<in> set (mm_map m)" for e
      using assms(1) less that by (force simp: memo_ok_def stamped_def)
    ultimately have "stamped (snd (memo_get_touch m k))"
      using assms(1) less bt by (fastforce simp: m' memo_ok_def stamped_def set_bt_insert)
    moreover have "weight (bt_insert k ?s (mm_map m)) = weight (mm_map m)"
      by (rule weight_retouch [OF bt Some]) simp
    moreover have "length (bt_insert k ?s (mm_map m)) = length (mm_map m)"
      using keys_retouch [OF bt Some, of ?s] by (metis length_map)
    ultimately show ?thesis
      using assms(1) bt unfolding m' by (auto simp: memo_ok_def accounted_def bt_insert_ok)
  qed
qed

lemma memo_remove_ok:
  assumes "memo_ok m"
  shows "memo_ok (snd (memo_remove m k)) \<and> mm_byte_cap (snd (memo_remove m k)) = mm_byte_cap m
    \<and> mm_seq (snd (memo_remove m k)) = mm_seq m"
proof -
  have acc: "accounted m" and "stamped m" and len: "mm_bytes m \<le> mm_byte_cap m \<or> length (mm_map m) = 1"
    using assms by (simp_all add: memo_ok_def)
  moreover have "mm_bytes (without {k} m) \<le> mm_byte_cap m \<or> length (mm_map (without {k} m)) = 1"
    using len
  proof
    assume "mm_bytes m \<le> mm_byte_cap m"
    then show ?thesis using acc weight_filter_le [of "\<lambda>e. fst e \<notin> {k}" "mm_map m"] by (simp add: accounted_def)
  next
    assume "length (mm_map m) = 1"
    then show ?thesis by (auto simp: length_Suc_conv)
  qed
  ultimately show ?thesis
    by (simp add: remove_without memo_ok_def stamped_without del: without_simps(1,2))
qed

section \<open>Runs of the memo\<close>

datatype ('k, 'v) memo_op = MemoInsert 'k 'v nat | MemoTouch 'k | MemoRemove 'k

inductive memo_reach :: "nat \<Rightarrow> ('k::linorder, 'v) memo_op list \<Rightarrow> ('k, 'v) memo \<Rightarrow> bool" for cap where
  start: "memo_reach cap [] (memo_new cap)"
| insert: "memo_reach cap h m \<Longrightarrow> memo_insert m k v n = Ok m' \<Longrightarrow> memo_reach cap (h @ [MemoInsert k v n]) m'"
| touch: "memo_reach cap h m \<Longrightarrow> memo_get_touch m k = (r, m') \<Longrightarrow> memo_reach cap (h @ [MemoTouch k]) m'"
| remove: "memo_reach cap h m \<Longrightarrow> memo_remove m k = (r, m') \<Longrightarrow> memo_reach cap (h @ [MemoRemove k]) m'"

text \<open>What an unbounded map would hold after the same operations.\<close>

primrec effect :: "('k, 'v) memo_op \<Rightarrow> ('k \<rightharpoonup> 'v) \<Rightarrow> 'k \<rightharpoonup> 'v" where
  "effect (MemoInsert k v n) c = c(k \<mapsto> v)"
| "effect (MemoTouch k) c = c"
| "effect (MemoRemove k) c = c(k := None)"

definition unbounded :: "('k, 'v) memo_op list \<Rightarrow> 'k \<rightharpoonup> 'v" where
  "unbounded h = foldl (\<lambda>c op. effect op c) Map.empty h"

lemma unbounded_simps [simp]: "unbounded [] = Map.empty" "unbounded (h @ [op]) = effect op (unbounded h)"
  by (simp_all add: unbounded_def)

definition contents :: "('k, 'v) memo \<Rightarrow> 'k \<rightharpoonup> 'v" where
  "contents m = memo_peek m"

lemma map_of_filter_keys: "map_of (filter (\<lambda>e. fst e \<notin> ks) m) k = (if k \<in> ks then None else map_of m k)"
  by (induction m) auto

lemma contents_without: "contents (without ks m) k = (if k \<in> ks then None else contents m k)"
  by (simp add: contents_def memo_peek_def map_of_filter_keys)

lemma contents_placed: "bt_ok (mm_map m) \<Longrightarrow> contents (placed k v n m) = (contents m)(k \<mapsto> v)"
  by (rule ext) (simp add: contents_def memo_peek_def placed_def bt_get_insert)

lemma touch_contents:
  "bt_ok (mm_map m) \<Longrightarrow> contents (snd (memo_get_touch m k)) = contents m \<and> fst (memo_get_touch m k) = contents m k"
  by (cases "map_of (mm_map m) k")
    (auto simp: fun_eq_iff contents_def memo_peek_def memo_get_touch_def Let_def bt_get_insert)

lemma remove_contents:
  "accounted m \<Longrightarrow> contents (snd (memo_remove m k)) = (contents m)(k := None) \<and> fst (memo_remove m k) = contents m k"
  by (cases "map_of (mm_map m) k")
    (auto simp: fun_eq_iff remove_without contents_without, auto simp: contents_def memo_peek_def memo_remove_def)

lemma insert_contents:
  assumes "accounted m" and "memo_insert m k v n = Ok m'"
  shows "\<exists>ks. contents m' = ((contents (without ks (without {k} m)))(k \<mapsto> v))"
proof -
  have "memo_insert m k v n \<noteq> Panic" using assms(2) by simp
  from memo_insert_prefix [OF assms(1) memo_insert_fits [OF assms(1) this], of v] assms(2)
  obtain ks where "m' = placed k v n (without ks (without {k} m))" by auto
  moreover have "bt_ok (mm_map (without ks (without {k} m)))"
    using accounted_without [OF accounted_without [OF assms(1)]] unfolding accounted_def by blast
  ultimately show ?thesis using contents_placed [of "without ks (without {k} m)" k v n] by blast
qed

lemma reach_ok:
  "memo_reach cap h m \<Longrightarrow> length h < 2 ^ 64 \<Longrightarrow>
     memo_ok m \<and> mm_byte_cap m = cap \<and> unat (mm_seq m) \<le> length h \<and> contents m \<subseteq>\<^sub>m unbounded h"
proof (induction rule: memo_reach.induct)
  case start
  then show ?case
    by (simp add: memo_new_def memo_ok_def accounted_def stamped_def bt_ok_def contents_def memo_peek_def map_le_def)
next
  case (insert h m k v n m')
  then have ih: "memo_ok m" "mm_byte_cap m = cap" "unat (mm_seq m) \<le> length h" "contents m \<subseteq>\<^sub>m unbounded h" by simp_all
  have lt: "unat (mm_seq m) < 2 ^ 64 - 1" using ih(3) insert.prems by simp
  obtain ks where "contents m' = (contents (without ks (without {k} m)))(k \<mapsto> v)"
    using insert_contents [OF _ insert.hyps(2)] ih(1) unfolding memo_ok_def by blast
  moreover have "contents (without ks (without {k} m)) \<subseteq>\<^sub>m contents m"
    by (auto simp: map_le_def contents_without dom_def)
  ultimately have "contents m' \<subseteq>\<^sub>m (unbounded h)(k \<mapsto> v)"
    using ih(4) by (metis map_le_trans map_le_upd)
  then have "contents m' \<subseteq>\<^sub>m unbounded (h @ [MemoInsert k v n])" by (simp only: unbounded_simps effect.simps)
  then show ?case
    using memo_insert_ok [OF ih(1) lt insert.hyps(2)] ih(2,3) lt by (simp add: unat_word_ariths del: unbounded_simps)
next
  case (touch h m k r m')
  then have ih: "memo_ok m" "mm_byte_cap m = cap" "unat (mm_seq m) \<le> length h" "contents m \<subseteq>\<^sub>m unbounded h" by simp_all
  have lt: "unat (mm_seq m) < 2 ^ 64 - 1" using ih(3) touch.prems by simp
  have "contents m' = contents m"
    using touch_contents [of m k] ih(1) touch.hyps(2) by (simp add: memo_ok_def accounted_def)
  then show ?case using memo_touch_ok [OF ih(1) lt, of k] ih lt touch.hyps(2) by (simp add: unat_word_ariths)
next
  case (remove h m k r m')
  then have ih: "memo_ok m" "mm_byte_cap m = cap" "unat (mm_seq m) \<le> length h" "contents m \<subseteq>\<^sub>m unbounded h" by simp_all
  have "contents m' = (contents m)(k := None)"
    using remove_contents [of m k] ih(1) remove.hyps(2) by (simp add: memo_ok_def)
  then show ?case using memo_remove_ok [OF ih(1), of k] ih remove.hyps(2) by (auto simp: map_le_def)
qed

text \<open>C16: The memo is a cache of an unbounded map: after any history of inserts, touches and removals, an
  entry the memo holds is the last value inserted under its key and not removed since. An insert, a
  touch and a removal behave as on that map, up to the entries an insert evicts: the inserted value is
  there, a touch returns the entry and changes no content, a removal returns the entry and drops it.\<close>

theorem memo_is_a_cache:
  assumes "memo_reach cap h m" and "length h < 2 ^ 64"
  shows "memo_peek m \<subseteq>\<^sub>m unbounded h
    \<and> (memo_insert m k v n = Ok m' \<longrightarrow> memo_peek m' k = Some v \<and> memo_peek m' \<subseteq>\<^sub>m (memo_peek m)(k \<mapsto> v))
    \<and> (memo_get_touch m k = (r, m') \<longrightarrow> r = memo_peek m k \<and> memo_peek m' = memo_peek m)
    \<and> (memo_remove m k = (r, m') \<longrightarrow> r = memo_peek m k \<and> memo_peek m' = (memo_peek m)(k := None))"
proof -
  have ok: "memo_ok m" and le: "contents m \<subseteq>\<^sub>m unbounded h" using reach_ok [OF assms] by simp_all
  have acc: "accounted m" and bt: "bt_ok (mm_map m)" using ok by (simp_all add: memo_ok_def accounted_def)
  have "contents m' k = Some v \<and> contents m' \<subseteq>\<^sub>m (contents m)(k \<mapsto> v)" if i: "memo_insert m k v n = Ok m'"
  proof -
    obtain ks where "contents m' = (contents (without ks (without {k} m)))(k \<mapsto> v)"
      using insert_contents [OF acc i] by blast
    moreover have "contents (without ks (without {k} m)) \<subseteq>\<^sub>m contents m"
      by (auto simp: map_le_def contents_without dom_def)
    ultimately show ?thesis by (simp add: map_le_upd)
  qed
  then show ?thesis
    using le touch_contents [OF bt, of k] remove_contents [OF acc, of k] by (auto simp: contents_def)
qed

text \<open>A memo of eight bytes with one entry, and the insertion that evicts it.\<close>

definition example_memo :: "(nat, nat) memo" where
  "example_memo = \<lparr>mm_map = [(1, \<lparr>sl_value = 5, sl_bytes = 6, sl_access = 1\<rparr>)], mm_bytes = 6, mm_byte_cap = 8, mm_seq = 1\<rparr>"

definition example_next :: "(nat, nat) memo" where
  "example_next = \<lparr>mm_map = [(2, \<lparr>sl_value = 9, sl_bytes = 4, sl_access = 2\<rparr>)], mm_bytes = 4, mm_byte_cap = 8, mm_seq = 2\<rparr>"

lemmas example_memo_simps = memo_new_def memo_insert_def memo_remove_def evict_for_def usize_add_def low_water_def Let_def
  example_memo_def example_next_def bt_remove_def

lemma example_reach: "memo_reach 8 [MemoInsert 1 5 6] example_memo"
proof -
  have "memo_insert (memo_new 8) (1 :: nat) (5 :: nat) 6 = Ok example_memo"
    by (simp add: example_memo_simps)
  from memo_reach.insert [OF memo_reach.start this] show ?thesis by simp
qed

lemma example_insert: "memo_insert example_memo 2 9 4 = Ok example_next"
  by (simp add: example_memo_simps)

theorem memo_is_a_cache_witness:
  "memo_reach 8 [MemoInsert 1 5 6] example_memo \<and> memo_peek example_memo 1 = Some 5 \<and> memo_peek example_next 2 = Some 9"
  using memo_is_a_cache [OF example_reach, of 2 9 4 example_next None] example_insert example_reach
  by (auto simp: memo_peek_def example_memo_def)

section \<open>The byte cap\<close>

definition light :: "('k, 'v) memo \<Rightarrow> bool" where
  "light m \<longleftrightarrow> (\<forall>e \<in> set (mm_map m). sl_bytes (snd e) < 2 ^ 63)"

lemma light_placed: "light m \<Longrightarrow> bt_ok (mm_map m) \<Longrightarrow> n < 2 ^ 63 \<Longrightarrow> light (placed k v n m)"
  by (auto simp: light_def placed_def set_bt_insert)

lemma light_without: "light m \<Longrightarrow> light (without ks m)"
  by (simp add: light_def)

lemma reach_light:
  "memo_reach cap h m \<Longrightarrow> length h < 2 ^ 64 \<Longrightarrow> \<forall>k v n. MemoInsert k v n \<in> set h \<longrightarrow> n < 2 ^ 63 \<Longrightarrow> light m"
proof (induction rule: memo_reach.induct)
  case start
  then show ?case by (simp add: light_def memo_new_def)
next
  case (insert h m k v n m')
  have acc: "accounted m" using reach_ok [OF insert.hyps(1)] insert.prems(1) by (simp add: memo_ok_def)
  have "light m" "n < 2 ^ 63" using insert.IH insert.prems by auto
  have "memo_insert m k v n \<noteq> Panic" using insert.hyps(2) by simp
  from memo_insert_prefix [OF acc memo_insert_fits [OF acc this], of v] insert.hyps(2)
  obtain ks where "m' = placed k v n (without ks (without {k} m))" by auto
  moreover have "bt_ok (mm_map (without ks (without {k} m)))"
    using accounted_without [OF accounted_without [OF acc]] unfolding accounted_def by blast
  ultimately show ?case
    using light_placed [OF light_without [OF light_without [OF \<open>light m\<close>]] _ \<open>n < 2 ^ 63\<close>, of ks "{k}" k v] by simp
next
  case (touch h m k r m')
  have bt: "bt_ok (mm_map m)" using reach_ok [OF touch.hyps(1)] touch.prems(1) by (simp add: memo_ok_def accounted_def)
  have "light m" using touch.IH touch.prems by auto
  show ?case
  proof (cases "map_of (mm_map m) k")
    case None
    with \<open>light m\<close> touch.hyps(2) show ?thesis by (auto simp: memo_get_touch_def Let_def light_def)
  next
    case (Some s)
    then have "(k, s) \<in> set (mm_map m)" by (rule map_of_SomeD)
    with \<open>light m\<close> have "sl_bytes s < 2 ^ 63" by (force simp: light_def)
    with Some \<open>light m\<close> touch.hyps(2) bt show ?thesis by (auto simp: memo_get_touch_def Let_def light_def set_bt_insert)
  qed
next
  case (remove h m k r m')
  have acc: "accounted m" using reach_ok [OF remove.hyps(1)] remove.prems(1) by (simp add: memo_ok_def)
  have "light m" using remove.IH remove.prems by auto
  then show ?case using remove_without [OF acc, of k] remove.hyps(2) light_without [of m "{k}"] by simp
qed

text \<open>C40: The memo keeps its byte cap and its books in every reachable state: its byte count is the sum of
  its entries, it exceeds the cap only to hold one oversized entry alone, and as long as the cap and the
  entries stay below 2^63 bytes no insertion overflows.\<close>

theorem memo_bounded:
  assumes "memo_reach cap h m" and "length h < 2 ^ 64"
    and "\<forall>k v n. MemoInsert k v n \<in> set h \<longrightarrow> n < 2 ^ 63" and "cap < 2 ^ 63" and "n < 2 ^ 63"
  shows "mm_bytes m = sum_list (map (sl_bytes \<circ> snd) (mm_map m))
    \<and> (mm_bytes m \<le> cap \<or> memo_len m = 1)
    \<and> (\<exists>m'. memo_insert m k v n = Ok m')"
proof -
  have ok: "memo_ok m" and cap: "mm_byte_cap m = cap" using reach_ok [OF assms(1,2)] by simp_all
  have acc: "accounted m" using ok by (simp add: memo_ok_def)
  have "light m" by (rule reach_light [OF assms(1-3)])
  then have "mm_bytes m < 2 ^ 63"
    using ok cap assms(4) by (auto simp: memo_ok_def accounted_def light_def length_Suc_conv)
  moreover have "mm_bytes (without {k} m) \<le> mm_bytes m"
    using acc weight_filter_le [of "\<lambda>e. fst e \<notin> {k}" "mm_map m"] by (simp add: accounted_def)
  ultimately have "mm_bytes (without {k} m) + n < 2 ^ 64" using assms(5) by (simp del: without_simps)
  from memo_insert_prefix [OF acc this, of v] have "\<exists>m'. memo_insert m k v n = Ok m'" by blast
  with ok cap show ?thesis by (auto simp: memo_ok_def accounted_def memo_len_def weight_def)
qed

theorem memo_bounded_witness:
  "memo_reach 8 [MemoInsert 1 5 6] example_memo \<and> mm_bytes example_memo \<le> 8
    \<and> (\<exists>m'. memo_insert example_memo 2 9 4 = Ok m')"
  using memo_bounded [OF example_reach, of 4 2 9] example_reach by (auto simp: example_memo_def)

section \<open>What an insertion evicts\<close>

definition survivors :: "('k, 'v) memo \<Rightarrow> 'k \<Rightarrow> ('k, 'v) memo \<Rightarrow> ('k \<times> 'v slot) list" where
  "survivors m k m' = filter (\<lambda>e. fst e \<noteq> k \<and> fst e \<in> fst ` set (mm_map m')) (mm_map m)"

definition evicted :: "('k, 'v) memo \<Rightarrow> 'k \<Rightarrow> ('k, 'v) memo \<Rightarrow> ('k \<times> 'v slot) list" where
  "evicted m k m' = filter (\<lambda>e. fst e \<noteq> k \<and> fst e \<notin> fst ` set (mm_map m')) (mm_map m)"

lemma distinct_cold_keys: "accounted m \<Longrightarrow> distinct (cold_keys m)"
proof -
  assume "accounted m"
  then have "distinct (map fst (mm_map m))" using bt_ok_distinct [of "mm_map m"] by (simp add: accounted_def)
  moreover have "mset (cold_keys m) = mset (map fst (mm_map m))"
    by (simp add: cold_keys_def mset_map flip: image_mset.compositionality) (simp add: image_mset.compositionality comp_def split_beta)
  ultimately show ?thesis using mset_eq_imp_distinct_iff by blast
qed

lemma hottest_is_last:
  assumes "accounted m" and "stamped m" and "0 < j" and "j \<le> length (cold_keys m)"
    and e: "e \<in> set (mm_map m)" "fst e \<in> set (take j (cold_keys m))"
    and hot: "\<And>e'. e' \<in> set (mm_map m) \<Longrightarrow> fst e' \<in> set (take j (cold_keys m)) \<Longrightarrow> sl_access (snd e') \<le> sl_access (snd e)"
  shows "fst e \<notin> set (take (j - 1) (cold_keys m)) \<and> set (take j (cold_keys m)) = insert (fst e) (set (take (j - 1) (cold_keys m)))"
proof -
  let ?l = "cold_keys m ! (j - 1)"
  have split: "take j (cold_keys m) = take (j - 1) (cold_keys m) @ [?l]"
    using assms(3,4) take_Suc_conv_app_nth [of "j - 1" "cold_keys m"] by simp
  have "distinct (take j (cold_keys m))" using distinct_cold_keys [OF assms(1)] by simp
  then have fresh: "?l \<notin> set (take (j - 1) (cold_keys m))" unfolding split by simp
  have "?l \<in> fst ` set (mm_map m)" using assms(3,4) nth_mem [of "j - 1" "cold_keys m"] by simp
  then obtain last where last: "last \<in> set (mm_map m)" "fst last = ?l" by auto
  have "fst e \<notin> set (take (j - 1) (cold_keys m))"
  proof
    assume old: "fst e \<in> set (take (j - 1) (cold_keys m))"
    then have "sl_access (snd e) \<le> sl_access (snd last)"
      using cold_take [OF assms(1) e(1) last(1)] fresh last(2) by simp
    moreover have "sl_access (snd last) \<le> sl_access (snd e)"
      using hot [OF last(1)] last(2) split by simp
    ultimately have "e = last" using assms(2) e(1) last(1) by (auto simp: stamped_def dest: inj_onD)
    with old fresh last(2) show False by simp
  qed
  then show ?thesis using e(2) unfolding split by auto
qed

lemma weight_split:
  "distinct (map fst m) \<Longrightarrow> e \<in> set m \<Longrightarrow> P e \<Longrightarrow>
     weight (filter P m) = weight (filter (\<lambda>x. P x \<and> fst x \<noteq> fst e) m) + sl_bytes (snd e)"
proof (induction m)
  case (Cons a m)
  show ?case
  proof (cases "a = e")
    case True
    have "fst x \<noteq> fst e" if "x \<in> set m" for x
      using Cons.prems(1) True that by (auto simp: image_iff)
    then have "filter (\<lambda>x. P x \<and> fst x \<noteq> fst e) m = filter P m" by (intro filter_cong) auto
    with True Cons.prems show ?thesis by simp
  next
    case False
    moreover from this have "fst a \<noteq> fst e" using Cons.prems by force
    ultimately show ?thesis using Cons by auto
  qed
qed simp

lemma insert_shape:
  assumes "accounted m" and "memo_insert m k v n = Ok m'"
  obtains j where "j \<le> length (mm_map (without {k} m))"
    "m' = placed k v n (without (set (take j (cold_keys (without {k} m)))) (without {k} m))"
    "j = length (mm_map (without {k} m)) \<or> weight (survivors m k m') + n \<le> low_water (mm_byte_cap m)"
    "\<forall>i < j. low_water (mm_byte_cap m)
        < weight (filter (\<lambda>e. fst e \<noteq> k \<and> fst e \<notin> set (take i (cold_keys (without {k} m)))) (mm_map m)) + n"
    "survivors m k m' = filter (\<lambda>e. fst e \<noteq> k \<and> fst e \<notin> set (take j (cold_keys (without {k} m)))) (mm_map m)"
    "evicted m k m' = filter (\<lambda>e. fst e \<noteq> k \<and> fst e \<in> set (take j (cold_keys (without {k} m)))) (mm_map m)"
proof -
  let ?m = "without {k} m"
  have "memo_insert m k v n \<noteq> Panic" using assms(2) by simp
  from memo_insert_prefix [OF assms(1) memo_insert_fits [OF assms(1) this], of v] assms(2) obtain j where
    j: "j \<le> length (mm_map ?m)" "m' = placed k v n (without (set (take j (cold_keys ?m))) ?m)"
      "j = length (mm_map ?m) \<or> mm_bytes (without (set (take j (cold_keys ?m))) ?m) + n \<le> low_water (mm_byte_cap m)"
      "\<forall>i < j. low_water (mm_byte_cap m) < mm_bytes (without (set (take i (cold_keys ?m))) ?m) + n"
    by auto
  let ?E = "set (take j (cold_keys ?m))"
  have keys: "fst ` set (mm_map m') = insert k (fst ` set (mm_map (without ?E ?m)))"
    unfolding j(2) placed_def by (simp add: bt_insert_keys del: without_simps(1))
  have sv: "survivors m k m' = filter (\<lambda>e. fst e \<noteq> k \<and> fst e \<notin> ?E) (mm_map m)"
    unfolding survivors_def keys by (rule filter_cong [OF refl]) force
  moreover have "evicted m k m' = filter (\<lambda>e. fst e \<noteq> k \<and> fst e \<in> ?E) (mm_map m)"
    unfolding evicted_def keys by (rule filter_cong [OF refl]) force
  moreover have "mm_bytes (without (set (take i (cold_keys ?m))) ?m)
      = weight (filter (\<lambda>e. fst e \<noteq> k \<and> fst e \<notin> set (take i (cold_keys ?m))) (mm_map m))" for i
    by (simp add: conj_commute)
  ultimately show ?thesis using that j by (simp only: sv)
qed

lemma last_eviction_needed:
  assumes "accounted m" and "stamped m" and "0 < j" and "j \<le> length (cold_keys (without {k} m))"
    and "e \<in> set (mm_map m)" and "fst e \<noteq> k" and "fst e \<in> set (take j (cold_keys (without {k} m)))"
    and hot: "\<And>e'. e' \<in> set (mm_map m) \<Longrightarrow> fst e' \<noteq> k \<Longrightarrow> fst e' \<in> set (take j (cold_keys (without {k} m)))
        \<Longrightarrow> sl_access (snd e') \<le> sl_access (snd e)"
  shows "weight (filter (\<lambda>x. fst x \<noteq> k \<and> fst x \<notin> set (take (j - 1) (cold_keys (without {k} m)))) (mm_map m))
    = weight (filter (\<lambda>x. fst x \<noteq> k \<and> fst x \<notin> set (take j (cold_keys (without {k} m)))) (mm_map m)) + sl_bytes (snd e)"
proof -
  let ?m = "without {k} m" and ?F = "set (take (j - 1) (cold_keys (without {k} m)))"
  have acc': "accounted ?m" and st': "stamped ?m" using assms(1,2) by (simp_all add: stamped_without del: without_simps)
  have mem: "e \<in> set (mm_map ?m)" using assms(5,6) by simp
  have "\<And>e'. e' \<in> set (mm_map ?m) \<Longrightarrow> fst e' \<in> set (take j (cold_keys ?m)) \<Longrightarrow> sl_access (snd e') \<le> sl_access (snd e)"
    using hot by simp
  note last = hottest_is_last [OF acc' st' assms(3,4) mem assms(7) this]
  have "distinct (map fst (mm_map m))" using assms(1) bt_ok_distinct [of "mm_map m"] by (simp add: accounted_def)
  moreover have "fst e \<noteq> k \<and> fst e \<notin> ?F" using assms(6) last by simp
  ultimately have "weight (filter (\<lambda>x. fst x \<noteq> k \<and> fst x \<notin> ?F) (mm_map m))
      = weight (filter (\<lambda>x. (fst x \<noteq> k \<and> fst x \<notin> ?F) \<and> fst x \<noteq> fst e) (mm_map m)) + sl_bytes (snd e)"
    using assms(5) by (intro weight_split)
  moreover have "filter (\<lambda>x. (fst x \<noteq> k \<and> fst x \<notin> ?F) \<and> fst x \<noteq> fst e) (mm_map m)
      = filter (\<lambda>x. fst x \<noteq> k \<and> fst x \<notin> set (take j (cold_keys ?m))) (mm_map m)"
    using last by (intro filter_cong) auto
  ultimately show ?thesis by simp
qed

text \<open>An insertion evicts the coldest entries and only as many as it must. Every entry evicted was
  touched before every entry kept, the kept entries are unchanged, nothing is evicted when the new entry
  fits under the low-water mark, afterwards it fits or nothing else is left, and with the last entry
  evicted put back it would not have fitted.\<close>

theorem insert_evicts_coldest:
  assumes "memo_reach cap h m" and "length h < 2 ^ 64" and "memo_insert m k v n = Ok m'"
  shows "(\<forall>e \<in> set (evicted m k m'). \<forall>s \<in> set (survivors m k m'). sl_access (snd e) < sl_access (snd s))
    \<and> (\<forall>s \<in> set (survivors m k m'). map_of (mm_map m') (fst s) = Some (snd s))
    \<and> (weight (filter (\<lambda>e. fst e \<noteq> k) (mm_map m)) + n \<le> low_water cap \<longrightarrow> evicted m k m' = [])
    \<and> (survivors m k m' = [] \<or> weight (survivors m k m') + n \<le> low_water cap)
    \<and> (\<forall>e \<in> set (evicted m k m'). (\<forall>e' \<in> set (evicted m k m'). sl_access (snd e') \<le> sl_access (snd e))
        \<longrightarrow> low_water cap < weight (survivors m k m') + sl_bytes (snd e) + n)"
proof -
  have ok: "memo_ok m" and cap: "mm_byte_cap m = cap" using reach_ok [OF assms(1,2)] by simp_all
  have acc: "accounted m" and st: "stamped m" using ok by (simp_all add: memo_ok_def)
  let ?m = "without {k} m"
  have acc': "accounted ?m" using acc by simp
  obtain j where j: "j \<le> length (mm_map ?m)" "m' = placed k v n (without (set (take j (cold_keys ?m))) ?m)"
      "j = length (mm_map ?m) \<or> weight (survivors m k m') + n \<le> low_water cap"
      "\<forall>i < j. low_water cap < weight (filter (\<lambda>e. fst e \<noteq> k \<and> fst e \<notin> set (take i (cold_keys ?m))) (mm_map m)) + n"
    and sv: "survivors m k m' = filter (\<lambda>e. fst e \<noteq> k \<and> fst e \<notin> set (take j (cold_keys ?m))) (mm_map m)"
    and ev: "evicted m k m' = filter (\<lambda>e. fst e \<noteq> k \<and> fst e \<in> set (take j (cold_keys ?m))) (mm_map m)"
    using insert_shape [OF acc assms(3)] unfolding cap by blast
  let ?E = "set (take j (cold_keys ?m))"
  have colder: "sl_access (snd e) < sl_access (snd s)"
    if "e \<in> set (evicted m k m')" "s \<in> set (survivors m k m')" for e s
    using that cold_take [OF acc', of e s j] st unfolding sv ev
    by (auto simp: stamped_def order.strict_iff_order dest: inj_onD)
  have bt: "bt_ok (mm_map (without ?E ?m))" using accounted_without [OF acc'] unfolding accounted_def by blast
  have kept: "map_of (mm_map m') (fst s) = Some (snd s)" if "s \<in> set (survivors m k m')" for s
  proof -
    have "s \<in> set (mm_map (without ?E ?m))" "fst s \<noteq> k" using that unfolding sv by auto
    then show ?thesis
      unfolding j(2) placed_def using bt bt_ok_distinct [OF bt] by (simp add: bt_get_insert del: without_simps)
  qed
  have lazy: "evicted m k m' = []" if "weight (filter (\<lambda>e. fst e \<noteq> k) (mm_map m)) + n \<le> low_water cap"
    using that j(4) unfolding ev by (cases j) auto
  have enough: "survivors m k m' = [] \<or> weight (survivors m k m') + n \<le> low_water cap"
    using j(3) unfolding sv by (auto simp: filter_empty_conv image_iff)
  have needed: "low_water cap < weight (survivors m k m') + sl_bytes (snd e) + n"
    if "e \<in> set (evicted m k m')" "\<forall>e' \<in> set (evicted m k m'). sl_access (snd e') \<le> sl_access (snd e)" for e
  proof -
    have "0 < j" using that(1) unfolding ev by (cases j) auto
    moreover from this have "low_water cap
        < weight (filter (\<lambda>e. fst e \<noteq> k \<and> fst e \<notin> set (take (j - 1) (cold_keys ?m))) (mm_map m)) + n"
      using j(4) by simp
    ultimately show ?thesis
      using last_eviction_needed [OF acc st _ _, of j k e] that j(1) unfolding ev sv by (auto simp del: without_simps)
  qed
  show ?thesis using colder kept lazy enough needed by blast
qed

theorem insert_evicts_coldest_witness:
  "memo_reach 8 [MemoInsert 1 5 6] example_memo \<and> memo_insert example_memo 2 9 4 = Ok example_next
    \<and> map fst (evicted example_memo 2 example_next) = [1] \<and> low_water 8 < weight (survivors example_memo 2 example_next) + 6 + 4"
  using insert_evicts_coldest [OF example_reach _ example_insert] example_reach example_insert
  by (simp add: evicted_def survivors_def example_memo_def example_next_def)

end
