(* ===== verification/BufferSlab.thy ===== *)
theory BufferSlab
  imports SlabSafety
begin

text \<open>
  The suballocator for pooled linear buffers, backend/vulkan/engine/buffer_slab.rs: the second client of
  a block's free list. A pool holds blocks of one memory kind, a block of the upload kind is mapped for
  its life, and the pair of pools routes a release by the kind its token carries. The driver is a
  parameter as in \<open>SlabPool\<close>: the memory type, the outcome of the one allocation and of the one
  mapping an acquire may make are arguments, and the driver calls are returned as events. Logging is not
  modelled; a refused release leaves the pool unchanged.
\<close>

section \<open>Data\<close>

definition BUFFER_SLAB_SIZE :: u64 where "BUFFER_SLAB_SIZE = push_bit 20 16"
definition BUFFER_SMALL_CLASS_MAX :: u64 where "BUFFER_SMALL_CLASS_MAX = push_bit 10 128"
definition BUFFER_SMALL_SLAB_SIZE :: u64 where "BUFFER_SMALL_SLAB_SIZE = push_bit 20 2"
definition BUFFER_SLAB_IDLE_KEEP_EMPTY :: nat where "BUFFER_SLAB_IDLE_KEEP_EMPTY = 1"

datatype slab_kind = UploadKind | DeviceLocalKind

datatype memory_class = UploadClass | DeviceLocalClass

primrec kind_memory_class :: "slab_kind \<Rightarrow> memory_class" where
  "kind_memory_class UploadKind = UploadClass"
| "kind_memory_class DeviceLocalKind = DeviceLocalClass"

definition maps_blocks :: "slab_kind \<Rightarrow> bool" where
  "maps_blocks k \<longleftrightarrow> k = UploadKind"

primrec kind_tag :: "slab_kind \<Rightarrow> string" where
  "kind_tag UploadKind = ''buffer_slab_upload''"
| "kind_tag DeviceLocalKind = ''buffer_slab_device''"

datatype buffer_error =
  NoHostVisibleMemoryForStaging u32
| NoDeviceLocalMemoryForGuestGather u32
| BufferDeclined slab_decline
| PoolsAllocStaging int
| PoolsMapStaging int

primrec no_memory_type :: "slab_kind \<Rightarrow> u32 \<Rightarrow> buffer_error" where
  "no_memory_type UploadKind bits = NoHostVisibleMemoryForStaging bits"
| "no_memory_type DeviceLocalKind bits = NoDeviceLocalMemoryForGuestGather bits"

record buffer_token =
  bt_block :: u32
  bt_offset :: u64
  bt_size :: u64
  bt_kind :: slab_kind
  bt_memory :: u64
  bt_mapped :: u64

record buffer_block =
  bb_memory :: u64
  bb_plan :: block_plan
  bb_type :: u32
  bb_base :: u64
  bb_dedicated :: bool
  bb_small :: bool
  bb_poisoned :: bool

record buffer_pool =
  bp_kind :: slab_kind
  bp_blocks :: "buffer_block option list"
  bp_block_allocs :: u64
  bp_block_frees :: u64
  bp_sub_allocs :: u64
  bp_sub_frees :: u64
  bp_violations :: u64

record buffer_slabs =
  bs_upload :: buffer_pool
  bs_gather :: buffer_pool

definition buffer_pool_new :: "slab_kind \<Rightarrow> buffer_pool" where
  "buffer_pool_new k =
     \<lparr>bp_kind = k, bp_blocks = [], bp_block_allocs = 0, bp_block_frees = 0, bp_sub_allocs = 0,
      bp_sub_frees = 0, bp_violations = 0\<rparr>"

definition buffer_slabs_new :: buffer_slabs where
  "buffer_slabs_new = \<lparr>bs_upload = buffer_pool_new UploadKind, bs_gather = buffer_pool_new DeviceLocalKind\<rparr>"

section \<open>Operations of a pool\<close>

definition buffer_check_block :: "buffer_pool \<Rightarrow> nat \<Rightarrow> bool \<times> buffer_pool" where
  "buffer_check_block pool idx =
     (if idx < length (bp_blocks pool) then
        (case bp_blocks pool ! idx of
           Some b \<Rightarrow>
             if well_formed (bb_plan b) then (True, pool)
             else (False, pool\<lparr>bp_blocks := (bp_blocks pool)[idx := Some (b\<lparr>bb_poisoned := True\<rparr>)],
                               bp_violations := bp_violations pool + 1\<rparr>)
         | None \<Rightarrow> (False, pool))
      else (False, pool))"

definition buffer_insert_block :: "buffer_pool \<Rightarrow> buffer_block \<Rightarrow> u32 \<times> buffer_pool" where
  "buffer_insert_block pool b =
     (case find (\<lambda>i. bp_blocks pool ! i = None) [0..<length (bp_blocks pool)] of
        Some i \<Rightarrow> (of_nat i, pool\<lparr>bp_blocks := (bp_blocks pool)[i := Some b]\<rparr>)
      | None \<Rightarrow> (of_nat (length (bp_blocks pool)), pool\<lparr>bp_blocks := bp_blocks pool @ [Some b]\<rparr>))"

definition buffer_new_block ::
  "buffer_pool \<Rightarrow> int + u64 \<Rightarrow> int + u64 \<Rightarrow> u64 \<Rightarrow> u32 \<Rightarrow> u64 \<Rightarrow> u64 \<Rightarrow> bool \<Rightarrow> bool
     \<Rightarrow> (buffer_error + buffer_token) \<times> buffer_pool \<times> vk_event list" where
  "buffer_new_block pool allocation mapping block_size mem_type align carve_sz dedicated small =
     (case allocation of
        Inl result \<Rightarrow> (Inl (PoolsAllocStaging result), pool, [])
      | Inr memory \<Rightarrow>
          let pool = pool\<lparr>bp_block_allocs := bp_block_allocs pool + 1\<rparr>
          in case (if maps_blocks (bp_kind pool) then mapping else Inr 0) of
               Inl result \<Rightarrow>
                 (Inl (PoolsMapStaging result), pool\<lparr>bp_block_frees := bp_block_frees pool + 1\<rparr>,
                  [VkAllocate memory block_size, VkFree memory])
             | Inr base \<Rightarrow>
                 (case carve (plan_new block_size) carve_sz align of
                    (None, _) \<Rightarrow>
                      (Inl (BufferDeclined (FreshBlockCarve block_size carve_sz align)),
                       pool\<lparr>bp_block_frees := bp_block_frees pool + 1\<rparr>,
                       [VkAllocate memory block_size, VkFree memory])
                  | (Some offset, plan) \<Rightarrow>
                      (case buffer_insert_block pool
                              \<lparr>bb_memory = memory, bb_plan = plan, bb_type = mem_type, bb_base = base,
                               bb_dedicated = dedicated, bb_small = small, bb_poisoned = False\<rparr> of
                         (idx, pool) \<Rightarrow>
                           (Inr \<lparr>bt_block = idx, bt_offset = offset, bt_size = carve_sz,
                                 bt_kind = bp_kind pool, bt_memory = memory, bt_mapped = base + offset\<rparr>,
                            pool\<lparr>bp_sub_allocs := bp_sub_allocs pool + 1\<rparr>,
                            [VkAllocate memory block_size]))))"

fun buffer_acquire_shared ::
  "buffer_pool \<Rightarrow> bool \<Rightarrow> u32 \<Rightarrow> u64 \<Rightarrow> u64 \<Rightarrow> nat list \<Rightarrow> buffer_token option \<times> buffer_pool" where
  "buffer_acquire_shared pool want_small mem_type sz align [] = (None, pool)"
| "buffer_acquire_shared pool want_small mem_type sz align (i # is) =
     (case bp_blocks pool ! i of
        None \<Rightarrow> buffer_acquire_shared pool want_small mem_type sz align is
      | Some b \<Rightarrow>
          if \<not> bb_poisoned b \<and> \<not> bb_dedicated b \<and> bb_small b = want_small \<and> bb_type b = mem_type
          then (case carve (bb_plan b) sz align of
                  (None, plan) \<Rightarrow>
                    buffer_acquire_shared
                      (pool\<lparr>bp_blocks := (bp_blocks pool)[i := Some (b\<lparr>bb_plan := plan\<rparr>)]\<rparr>)
                      want_small mem_type sz align is
                | (Some offset, plan) \<Rightarrow>
                    (case buffer_check_block
                            (pool\<lparr>bp_blocks := (bp_blocks pool)[i := Some (b\<lparr>bb_plan := plan\<rparr>)]\<rparr>) i of
                       (False, pool) \<Rightarrow> buffer_acquire_shared pool want_small mem_type sz align is
                     | (True, pool) \<Rightarrow>
                         (Some \<lparr>bt_block = of_nat i, bt_offset = offset, bt_size = sz,
                                bt_kind = bp_kind pool, bt_memory = bb_memory b,
                                bt_mapped = bb_base b + offset\<rparr>,
                          pool\<lparr>bp_sub_allocs := bp_sub_allocs pool + 1\<rparr>)))
          else buffer_acquire_shared pool want_small mem_type sz align is)"

definition buffer_acquire ::
  "buffer_pool \<Rightarrow> (u32 \<Rightarrow> u64 \<Rightarrow> memory_class \<Rightarrow> u32 option) \<Rightarrow> int + u64 \<Rightarrow> int + u64 \<Rightarrow> memory_requirements
     \<Rightarrow> (buffer_error + buffer_token) \<times> buffer_pool \<times> vk_event list" where
  "buffer_acquire pool memory_type_for allocation mapping breq =
     (case memory_type_for (rq_type_bits breq) (rq_size breq) (kind_memory_class (bp_kind pool)) of
        None \<Rightarrow> (Inl (no_memory_type (bp_kind pool) (rq_type_bits breq)), pool, [])
      | Some mem_type \<Rightarrow>
          let sz = rq_size breq; align = max (rq_alignment breq) 1
          in if sz = 0 then (Inl (BufferDeclined (ZeroSize (rq_type_bits breq))), pool, [])
             else if sz > BUFFER_SLAB_SIZE
             then buffer_new_block pool allocation mapping sz mem_type align sz True False
             else
               let want_small = sz < BUFFER_SMALL_CLASS_MAX
               in case buffer_acquire_shared pool want_small mem_type sz align [0..<length (bp_blocks pool)] of
                    (Some tok, pool) \<Rightarrow> (Inr tok, pool, [])
                  | (None, pool) \<Rightarrow>
                      buffer_new_block pool allocation mapping
                        (if want_small then BUFFER_SMALL_SLAB_SIZE else BUFFER_SLAB_SIZE)
                        mem_type align sz False want_small)"

definition buffer_release_preflight :: "buffer_pool \<Rightarrow> u32 \<Rightarrow> u64 \<Rightarrow> u64 \<Rightarrow> slab_decline + bool" where
  "buffer_release_preflight pool block offset sz =
     (case (if unat block < length (bp_blocks pool) then bp_blocks pool ! unat block else None) of
        Some b \<Rightarrow>
          if bb_poisoned b then Inr False
          else (case plan_release_preflight (bb_plan b) block offset sz of
                  Inl e \<Rightarrow> Inl e | Inr _ \<Rightarrow> Inr True)
      | None \<Rightarrow> Inl (ReleaseBlockMissing block (length (bp_blocks pool))))"

definition buffer_free_block :: "buffer_pool \<Rightarrow> nat \<Rightarrow> buffer_pool \<times> vk_event list" where
  "buffer_free_block pool idx =
     (case bp_blocks pool ! idx of
        Some b \<Rightarrow> (pool\<lparr>bp_blocks := (bp_blocks pool)[idx := None],
                       bp_block_frees := bp_block_frees pool + 1\<rparr>, [VkFree (bb_memory b)])
      | None \<Rightarrow> (pool, []))"

text \<open>Whether a pool refuses a token before looking at its range, and with what.\<close>

definition wrong_pool :: "buffer_pool \<Rightarrow> buffer_token \<Rightarrow> slab_decline option" where
  "wrong_pool pool tok =
     (if bt_kind tok \<noteq> bp_kind pool
      then Some (ReleaseWrongPool (kind_tag (bt_kind tok)) (kind_tag (bp_kind pool)) (bt_block tok)) else None)"

definition buffer_release :: "buffer_pool \<Rightarrow> buffer_token \<Rightarrow> buffer_pool \<times> vk_event list" where
  "buffer_release pool tok =
     (let idx = unat (bt_block tok) in
      if wrong_pool pool tok \<noteq> None then (pool, [])
      else case buffer_release_preflight pool (bt_block tok) (bt_offset tok) (bt_size tok) of
        Inl _ \<Rightarrow> (pool, [])
      | Inr False \<Rightarrow> (pool, [])
      | Inr True \<Rightarrow>
          (case bp_blocks pool ! idx of
             None \<Rightarrow> (pool, [])
           | Some b \<Rightarrow>
               let b = b\<lparr>bb_plan := release (bb_plan b) (bt_offset tok) (bt_size tok)\<rparr>;
                   pool = pool\<lparr>bp_blocks := (bp_blocks pool)[idx := Some b],
                               bp_sub_frees := bp_sub_frees pool + 1\<rparr>;
                   empty = plan_is_empty (bb_plan b)
               in case buffer_check_block pool idx of
                    (False, pool) \<Rightarrow> (pool, [])
                  | (True, pool) \<Rightarrow>
                      if empty \<and> bb_dedicated b then buffer_free_block pool idx else (pool, [])))"

definition buffer_empty_spare :: "bool \<Rightarrow> buffer_block option \<Rightarrow> bool" where
  "buffer_empty_spare small slot =
     (case slot of
        Some b \<Rightarrow> \<not> bb_dedicated b \<and> \<not> bb_poisoned b \<and> bb_small b = small \<and> plan_is_empty (bb_plan b)
      | None \<Rightarrow> False)"

definition buffer_empty_block_victims :: "buffer_pool \<Rightarrow> nat \<Rightarrow> nat list" where
  "buffer_empty_block_victims pool keep =
     sort (concat (map (\<lambda>cls. drop keep
             (filter (\<lambda>i. buffer_empty_spare cls (bp_blocks pool ! i)) [0..<length (bp_blocks pool)]))
           [True, False]))"

text \<open>The loop frees the victims that are still there and counts them.\<close>

fun buffer_free_blocks :: "buffer_pool \<Rightarrow> nat list \<Rightarrow> nat \<times> buffer_pool \<times> vk_event list" where
  "buffer_free_blocks pool [] = (0, pool, [])"
| "buffer_free_blocks pool (i # is) =
     (if bp_blocks pool ! i \<noteq> None
      then (case buffer_free_block pool i of (pool, evs) \<Rightarrow>
              (case buffer_free_blocks pool is of (n, pool, evs') \<Rightarrow> (n + 1, pool, evs @ evs')))
      else buffer_free_blocks pool is)"

definition buffer_trim :: "buffer_pool \<Rightarrow> nat \<Rightarrow> nat \<times> buffer_pool \<times> vk_event list" where
  "buffer_trim pool keep = buffer_free_blocks pool (buffer_empty_block_victims pool keep)"

definition buffer_destroy_all :: "buffer_pool \<Rightarrow> buffer_pool \<times> vk_event list" where
  "buffer_destroy_all pool =
     (pool\<lparr>bp_blocks := []\<rparr>, map (\<lambda>b. VkFree (bb_memory b)) (map the (filter (\<lambda>s. s \<noteq> None) (bp_blocks pool))))"

text \<open>The two byte counts; their sums are over naturals, the code's \<open>u64\<close> sums panic on overflow.\<close>

definition buffer_resident_bytes :: "buffer_pool \<Rightarrow> nat" where
  "buffer_resident_bytes pool =
     sum_list (map (\<lambda>slot. case slot of Some b \<Rightarrow> unat (bp_size (bb_plan b)) | None \<Rightarrow> 0) (bp_blocks pool))"

definition buffer_live_bytes :: "buffer_pool \<Rightarrow> nat" where
  "buffer_live_bytes pool =
     sum_list (map (\<lambda>slot. case slot of Some b \<Rightarrow> unat (bp_size (bb_plan b) - free_bytes (bb_plan b)) | None \<Rightarrow> 0)
       (bp_blocks pool))"

section \<open>The pair of pools\<close>

definition slabs_release :: "buffer_slabs \<Rightarrow> buffer_token \<Rightarrow> buffer_slabs \<times> vk_event list" where
  "slabs_release slabs tok =
     (case bt_kind tok of
        UploadKind \<Rightarrow> (case buffer_release (bs_upload slabs) tok of (p, evs) \<Rightarrow> (slabs\<lparr>bs_upload := p\<rparr>, evs))
      | DeviceLocalKind \<Rightarrow> (case buffer_release (bs_gather slabs) tok of (p, evs) \<Rightarrow> (slabs\<lparr>bs_gather := p\<rparr>, evs)))"

definition slabs_trim :: "buffer_slabs \<Rightarrow> nat \<Rightarrow> nat \<times> buffer_slabs \<times> vk_event list" where
  "slabs_trim slabs keep =
     (case buffer_trim (bs_upload slabs) keep of (n, u, evs) \<Rightarrow>
      case buffer_trim (bs_gather slabs) keep of (m, g, evs') \<Rightarrow>
        (n + m, \<lparr>bs_upload = u, bs_gather = g\<rparr>, evs @ evs'))"

definition slabs_destroy_all :: "buffer_slabs \<Rightarrow> buffer_slabs \<times> vk_event list" where
  "slabs_destroy_all slabs =
     (case buffer_destroy_all (bs_upload slabs) of (u, evs) \<Rightarrow>
      case buffer_destroy_all (bs_gather slabs) of (g, evs') \<Rightarrow>
        (\<lparr>bs_upload = u, bs_gather = g\<rparr>, evs @ evs'))"

definition slabs_acquire ::
  "buffer_slabs \<Rightarrow> slab_kind \<Rightarrow> (u32 \<Rightarrow> u64 \<Rightarrow> memory_class \<Rightarrow> u32 option) \<Rightarrow> int + u64 \<Rightarrow> int + u64
     \<Rightarrow> memory_requirements \<Rightarrow> (buffer_error + buffer_token) \<times> buffer_slabs \<times> vk_event list" where
  "slabs_acquire slabs kind memory_type_for allocation mapping breq =
     (case kind of
        UploadKind \<Rightarrow>
          (case buffer_acquire (bs_upload slabs) memory_type_for allocation mapping breq of
             (r, p, evs) \<Rightarrow> (r, slabs\<lparr>bs_upload := p\<rparr>, evs))
      | DeviceLocalKind \<Rightarrow>
          (case buffer_acquire (bs_gather slabs) memory_type_for allocation mapping breq of
             (r, p, evs) \<Rightarrow> (r, slabs\<lparr>bs_gather := p\<rparr>, evs)))"

end
