(* ===== verification/BufferSafety.thy ===== *)
theory BufferSafety
  imports BufferSlab
begin

text \<open>
  The buffer pools as a second client of the free list. Forgetting the host addresses of the blocks and
  tokens gives the slots of the image pool, whose invariant and slot lemmas are used again; the two
  pools together never hand one byte to two owners.
\<close>

section \<open>Forgetting the host addresses\<close>

definition core :: "buffer_block \<Rightarrow> mem_block" where
  "core b = \<lparr>mb_memory = bb_memory b, mb_plan = bb_plan b, mb_type = bb_type b,
     mb_dedicated = bb_dedicated b, mb_small = bb_small b, mb_poisoned = bb_poisoned b\<rparr>"

definition core_tok :: "buffer_token \<Rightarrow> slab_token" where
  "core_tok t = \<lparr>tk_block = bt_block t, tk_offset = bt_offset t, tk_size = bt_size t, tk_memory = bt_memory t\<rparr>"

definition blocks_of :: "buffer_pool \<Rightarrow> mem_block option list" where
  "blocks_of pool = map (map_option core) (bp_blocks pool)"

definition bases :: "buffer_pool \<Rightarrow> u64 option list" where
  "bases pool = map (map_option bb_base) (bp_blocks pool)"

lemma core_simps [simp]:
  "mb_memory (core b) = bb_memory b" "mb_plan (core b) = bb_plan b" "mb_type (core b) = bb_type b"
  "mb_dedicated (core b) = bb_dedicated b" "mb_small (core b) = bb_small b" "mb_poisoned (core b) = bb_poisoned b"
  "core (b\<lparr>bb_plan := p\<rparr>) = (core b)\<lparr>mb_plan := p\<rparr>"
  "core (b\<lparr>bb_poisoned := x\<rparr>) = (core b)\<lparr>mb_poisoned := x\<rparr>"
  by (simp_all add: core_def)

lemma core_tok_simps [simp]:
  "tk_block (core_tok t) = bt_block t" "tk_offset (core_tok t) = bt_offset t"
  "tk_size (core_tok t) = bt_size t" "tk_memory (core_tok t) = bt_memory t"
  "core_tok \<lparr>bt_block = i, bt_offset = off, bt_size = n, bt_kind = k, bt_memory = h, bt_mapped = a\<rparr>
     = \<lparr>tk_block = i, tk_offset = off, tk_size = n, tk_memory = h\<rparr>"
  by (simp_all add: core_tok_def)

lemma length_blocks [simp]: "length (blocks_of pool) = length (bp_blocks pool)" "length (bases pool) = length (bp_blocks pool)"
  by (simp_all add: blocks_of_def bases_def)

lemma nth_blocks [simp]:
  "i < length (bp_blocks pool) \<Longrightarrow> blocks_of pool ! i = map_option core (bp_blocks pool ! i)"
  "i < length (bp_blocks pool) \<Longrightarrow> bases pool ! i = map_option bb_base (bp_blocks pool ! i)"
  by (simp_all add: blocks_of_def bases_def)

lemma blocks_of_update [simp]:
  "blocks_of (pool\<lparr>bp_blocks := (bp_blocks pool)[i := x]\<rparr>) = (blocks_of pool)[i := map_option core x]"
  by (simp add: blocks_of_def map_update)

lemma blocks_of_counters [simp]:
  "blocks_of (pool\<lparr>bp_block_allocs := n\<rparr>) = blocks_of pool" "blocks_of (pool\<lparr>bp_block_frees := n\<rparr>) = blocks_of pool"
  "blocks_of (pool\<lparr>bp_sub_allocs := n\<rparr>) = blocks_of pool" "blocks_of (pool\<lparr>bp_sub_frees := n\<rparr>) = blocks_of pool"
  "bases (pool\<lparr>bp_block_allocs := n\<rparr>) = bases pool" "bases (pool\<lparr>bp_block_frees := n\<rparr>) = bases pool"
  "bases (pool\<lparr>bp_sub_allocs := n\<rparr>) = bases pool" "bases (pool\<lparr>bp_sub_frees := n\<rparr>) = bases pool"
  by (simp_all add: blocks_of_def bases_def)

lemma bases_update:
  "i < length (bp_blocks pool) \<Longrightarrow> bp_blocks pool ! i = Some b \<Longrightarrow> bb_base b' = bb_base b \<Longrightarrow>
     bases (pool\<lparr>bp_blocks := (bp_blocks pool)[i := Some b']\<rparr>) = bases pool"
  by (simp add: bases_def map_update) (metis list_update_id nth_map option.map(2))

section \<open>The search of the shared blocks\<close>

definition mirrors :: "slab_pool \<Rightarrow> buffer_pool \<Rightarrow> bool" where
  "mirrors q pool \<longleftrightarrow> sp_blocks q = blocks_of pool \<and> sp_violations q = bp_violations pool"

lemma mirrors_check:
  assumes "mirrors q pool" and "i < length (bp_blocks pool)"
  shows "fst (check_block q i) = fst (buffer_check_block pool i)
    \<and> mirrors (snd (check_block q i)) (snd (buffer_check_block pool i))
    \<and> bases (snd (buffer_check_block pool i)) = bases pool
    \<and> bp_kind (snd (buffer_check_block pool i)) = bp_kind pool
    \<and> length (bp_blocks (snd (buffer_check_block pool i))) = length (bp_blocks pool)"
  using assms
  by (cases "bp_blocks pool ! i")
    (auto simp: mirrors_def check_block_def buffer_check_block_def bases_update blocks_of_def bases_def map_update list_update_same_conv)

lemma mirrors_shared:
  assumes "mirrors q pool" and "\<forall>i \<in> set is. i < length (bp_blocks pool)"
    and "buffer_acquire_shared pool small ty sz al is = (r, pool')"
  shows "\<exists>q'. acquire_shared q small ty sz al is = (map_option core_tok r, q') \<and> mirrors q' pool'
    \<and> bases pool' = bases pool \<and> bp_kind pool' = bp_kind pool
    \<and> (\<forall>t. r = Some t \<longrightarrow> bt_kind t = bp_kind pool \<and> (\<exists>i \<in> set is. \<exists>base. bt_block t = of_nat i
          \<and> bases pool ! i = Some base \<and> bt_mapped t = base + bt_offset t))"
  using assms
proof (induction "is" arbitrary: q pool)
  case (Cons i "is")
  have i: "i < length (bp_blocks pool)" and qi: "sp_blocks q ! i = map_option core (bp_blocks pool ! i)"
    using Cons.prems(1,2) by (simp_all add: mirrors_def)
  have tail: ?case if "acquire_shared q small ty sz al (i # is) = acquire_shared p' small ty sz al is"
      "buffer_acquire_shared pool small ty sz al (i # is) = buffer_acquire_shared pl small ty sz al is"
      "mirrors p' pl" "bases pl = bases pool" "bp_kind pl = bp_kind pool" "length (bp_blocks pl) = length (bp_blocks pool)" for p' pl
    using Cons.IH [of p' pl] Cons.prems that by fastforce
  show ?case
  proof (cases "bp_blocks pool ! i")
    case None
    then show ?thesis using qi Cons.prems(1) by (intro tail) simp_all
  next
    case (Some b)
    show ?thesis
    proof (cases "\<not> bb_poisoned b \<and> \<not> bb_dedicated b \<and> bb_small b = small \<and> bb_type b = ty")
      case False
      then show ?thesis using qi Some Cons.prems(1) by (intro tail [of q pool]) auto
    next
      case True
      obtain c plan where c: "carve (bb_plan b) sz al = (c, plan)" by fastforce
      let ?p = "pool\<lparr>bp_blocks := (bp_blocks pool)[i := Some (b\<lparr>bb_plan := plan\<rparr>)]\<rparr>"
      let ?q = "q\<lparr>sp_blocks := (sp_blocks q)[i := Some ((core b)\<lparr>mb_plan := plan\<rparr>)]\<rparr>"
      have m: "mirrors ?q ?p" using Cons.prems(1) by (simp add: mirrors_def)
      have bs: "bases ?p = bases pool" by (rule bases_update [OF i Some]) simp
      show ?thesis
      proof (cases c)
        case None
        then show ?thesis using qi Some True c m bs by (intro tail [of ?q ?p]) simp_all
      next
        case (Some off)
        have ip: "i < length (bp_blocks ?p)" using i by simp
        note ck = mirrors_check [OF m ip]
        obtain ok q2 where q2: "check_block ?q i = (ok, q2)" by fastforce
        obtain ok' p2 where p2: "buffer_check_block ?p i = (ok', p2)" by fastforce
        have ck': "ok = ok'" "mirrors q2 p2" "bases p2 = bases pool" "bp_kind p2 = bp_kind pool"
          "length (bp_blocks p2) = length (bp_blocks pool)" using ck q2 p2 bs by simp_all
        show ?thesis
        proof (cases ok)
          case False
          then show ?thesis
            using qi \<open>bp_blocks pool ! i = Some b\<close> True c Some q2 p2 ck' by (intro tail [of q2 p2]) simp_all
        next
          case ok: True
          have "acquire_shared q small ty sz al (i # is) =
              (Some \<lparr>tk_block = of_nat i, tk_offset = off, tk_size = sz, tk_memory = bb_memory b\<rparr>,
               q2\<lparr>sp_sub_allocs := sp_sub_allocs q2 + 1\<rparr>)"
            using qi \<open>bp_blocks pool ! i = Some b\<close> True c Some q2 ok by simp
          moreover have "(r, pool') =
              (Some \<lparr>bt_block = of_nat i, bt_offset = off, bt_size = sz, bt_kind = bp_kind pool,
                 bt_memory = bb_memory b, bt_mapped = bb_base b + off\<rparr>, p2\<lparr>bp_sub_allocs := bp_sub_allocs p2 + 1\<rparr>)"
            using Cons.prems(3) \<open>bp_blocks pool ! i = Some b\<close> True c Some p2 ok ck' by simp
          ultimately show ?thesis
            using ck' i \<open>bp_blocks pool ! i = Some b\<close> by (auto simp: mirrors_def)
        qed
      qed
    qed
  qed
qed simp

section \<open>The invariant of a pool\<close>

text \<open>A token's own block and host address.\<close>

definition token_mapped :: "buffer_pool \<Rightarrow> buffer_token \<Rightarrow> bool" where
  "token_mapped pool t \<longleftrightarrow> bt_kind t = bp_kind pool \<and> unat (bt_block t) < length (bp_blocks pool)
     \<and> (\<exists>base. bases pool ! unat (bt_block t) = Some base \<and> bt_mapped t = base + bt_offset t)"

definition unmapped_ok :: "buffer_pool \<Rightarrow> bool" where
  "unmapped_ok pool \<longleftrightarrow> bp_kind pool = DeviceLocalKind \<longrightarrow> (\<forall>base. Some base \<in> set (bases pool) \<longrightarrow> base = 0)"

definition pool_ok :: "buffer_pool \<Rightarrow> buffer_token list \<Rightarrow> u64 set \<Rightarrow> bool" where
  "pool_ok pool out mem \<longleftrightarrow> slots_ok (blocks_of pool) (map core_tok out) mem \<and> bp_violations pool = 0
     \<and> (\<forall>t \<in> set out. token_mapped pool t) \<and> unmapped_ok pool"

definition mirror :: "buffer_pool \<Rightarrow> slab_pool" where
  "mirror pool = slab_pool_new\<lparr>sp_blocks := blocks_of pool, sp_violations := bp_violations pool\<rparr>"

lemma mirror_simps [simp]:
  "sp_blocks (mirror pool) = blocks_of pool" "sp_violations (mirror pool) = bp_violations pool" "mirrors (mirror pool) pool"
  by (simp_all add: mirror_def mirrors_def)

lemma token_mapped_cong:
  "bases pool' = bases pool \<Longrightarrow> bp_kind pool' = bp_kind pool \<Longrightarrow> token_mapped pool' t = token_mapped pool t"
  by (simp add: token_mapped_def) (metis length_blocks(2))

lemma unmapped_ok_cong: "bases pool' = bases pool \<Longrightarrow> bp_kind pool' = bp_kind pool \<Longrightarrow> unmapped_ok pool' = unmapped_ok pool"
  by (simp add: unmapped_ok_def)

fun handle :: "vk_event \<Rightarrow> u64" where
  "handle (VkAllocate h _) = h"
| "handle (VkFree h) = h"

lemma buffer_shared_ok:
  assumes "pool_ok pool out mem" and "length (bp_blocks pool) < 2 ^ 32"
    and "buffer_acquire_shared pool small ty sz al [0..<length (bp_blocks pool)] = (r, pool')"
  shows "pool_ok pool' (case r of Some t \<Rightarrow> t # out | None \<Rightarrow> out) mem \<and> bp_kind pool' = bp_kind pool
    \<and> length (bp_blocks pool') = length (bp_blocks pool)"
proof -
  have "\<forall>i \<in> set [0..<length (bp_blocks pool)]. i < length (bp_blocks pool)" by simp
  from mirrors_shared [OF mirror_simps(3) this assms(3)] obtain q where
    q: "acquire_shared (mirror pool) small ty sz al [0..<length (bp_blocks pool)] = (map_option core_tok r, q)"
      "mirrors q pool'" and bs: "bases pool' = bases pool" "bp_kind pool' = bp_kind pool"
    and t: "\<forall>t. r = Some t \<longrightarrow> bt_kind t = bp_kind pool \<and> (\<exists>i \<in> set [0..<length (bp_blocks pool)]. \<exists>base.
        bt_block t = of_nat i \<and> bases pool ! i = Some base \<and> bt_mapped t = base + bt_offset t)"
    by blast
  have len: "length (bp_blocks pool') = length (bp_blocks pool)" using bs(1) by (metis length_blocks(2))
  have ok: "slots_ok (sp_blocks (mirror pool)) (map core_tok out) mem" using assms(1) by (simp add: pool_ok_def)
  have new: "token_mapped pool' u" if "r = Some u" for u
  proof -
    from t that obtain i base where "i \<in> set [0..<length (bp_blocks pool)]" and
        i': "bt_block u = of_nat i" "bases pool ! i = Some base" "bt_mapped u = base + bt_offset u" by blast
    then have i: "i < length (bp_blocks pool)" "bt_block u = of_nat i" "bases pool ! i = Some base"
        "bt_mapped u = base + bt_offset u" by simp_all
    moreover from this have "unat (bt_block u) = i" using assms(2) by (simp add: unat_of_nat)
    ultimately show ?thesis using t that bs len unfolding token_mapped_def by metis
  qed
  have "slots_ok (blocks_of pool') (case map_option core_tok r of Some t \<Rightarrow> t # map core_tok out | None \<Rightarrow> map core_tok out) mem"
      "bp_violations pool' = 0"
    using acquire_shared_ok [OF ok _ _ q(1)] assms(1,2) q(2) by (auto simp: pool_ok_def mirrors_def split: option.splits)
  moreover have "\<forall>t \<in> set out. token_mapped pool' t" "unmapped_ok pool'"
    using assms(1) by (simp_all add: pool_ok_def token_mapped_cong [OF bs] unmapped_ok_cong [OF bs])
  ultimately show ?thesis
    using new bs(2) len by (cases r) (simp_all add: pool_ok_def)
qed

lemma buffer_insert_mirror:
  assumes "mirrors q pool" and "buffer_insert_block pool b = (idx, pool')"
  shows "\<exists>q'. insert_block q (core b) = (idx, q') \<and> mirrors q' pool' \<and> bp_kind pool' = bp_kind pool"
proof -
  have none: "sp_blocks q ! i = None \<longleftrightarrow> bp_blocks pool ! i = None" if "i < length (bp_blocks pool)" for i
    using assms(1) that by (simp add: mirrors_def)
  have "find (\<lambda>i. sp_blocks q ! i = None) [0..<length (sp_blocks q)] = find (\<lambda>i. bp_blocks pool ! i = None) [0..<length (bp_blocks pool)]"
    using assms(1) none by (intro find_cong) (auto simp: mirrors_def)
  then show ?thesis
    using assms by (auto simp: insert_block_def buffer_insert_block_def mirrors_def blocks_of_def map_update split: option.splits)
qed


text \<open>A step that changes no base of a block that stays keeps the host addresses of the tokens.\<close>

definition bases_kept :: "buffer_pool \<Rightarrow> buffer_pool \<Rightarrow> bool" where
  "bases_kept pool pool' \<longleftrightarrow> bp_kind pool' = bp_kind pool \<and> length (bp_blocks pool) \<le> length (bp_blocks pool')
     \<and> (\<forall>i < length (bp_blocks pool). \<forall>x. bases pool ! i = Some x \<longrightarrow> bases pool' ! i \<in> {None, Some x})"

lemma pool_ok_step:
  assumes ok: "pool_ok pool out mem" and kept: "bases_kept pool pool'"
    and slots: "slots_ok (blocks_of pool') (map core_tok out') mem'" "bp_violations pool' = 0" "unmapped_ok pool'"
    and out: "\<forall>t \<in> set out'. t \<in> set out \<or> token_mapped pool' t"
  shows "pool_ok pool' out' mem'"
proof -
  have "token_mapped pool' t" if t: "t \<in> set out'" for t
  proof (cases "token_mapped pool' t")
    case False
    then have m: "token_mapped pool t" using out t ok by (auto simp: pool_ok_def)
    let ?i = "unat (bt_block t)"
    obtain base where b: "?i < length (bp_blocks pool)" "bases pool ! ?i = Some base" "bt_mapped t = base + bt_offset t"
        "bt_kind t = bp_kind pool" using m by (auto simp: token_mapped_def simp del: nth_blocks)
    have i: "?i < length (bp_blocks pool')" using b(1) kept by (simp add: bases_kept_def)
    have "core_tok t \<in> set (map core_tok out')" using t by simp
    from token_block [OF slots(1) this] obtain c where "blocks_of pool' ! ?i = Some c" by auto
    then have "bases pool' ! ?i \<noteq> None" using i by auto
    moreover have "bases pool' ! ?i \<in> {None, Some base}" using kept b(1,2) unfolding bases_kept_def by blast
    ultimately have "bases pool' ! ?i = Some base" by (auto simp del: nth_blocks)
    then show ?thesis using b i kept unfolding token_mapped_def bases_kept_def by metis
  qed
  then show ?thesis using slots by (simp add: pool_ok_def)
qed

lemma find_none: "find P xs = Some i \<Longrightarrow> i \<in> set xs \<and> P i"
  by (auto simp: find_Some_iff)

lemma buffer_insert_bases:
  assumes "buffer_insert_block pool b = (idx, pool')" and "length (bp_blocks pool) < 2 ^ 32"
  shows "bases_kept pool pool' \<and> unat idx < length (bp_blocks pool') \<and> bases pool' ! unat idx = Some (bb_base b)
    \<and> set (bases pool') \<subseteq> insert (Some (bb_base b)) (set (bases pool))"
proof (cases "find (\<lambda>i. bp_blocks pool ! i = None) [0..<length (bp_blocks pool)]")
  case None
  then show ?thesis
    using assms unat_slot [OF assms(2)]
    by (auto simp: buffer_insert_block_def bases_kept_def bases_def nth_append)
next
  case (Some i)
  from find_none [OF this] have i: "i < length (bp_blocks pool)" "bp_blocks pool ! i = None" by simp_all
  then have "unat (of_nat i :: u32) = i" using assms(2) by (intro unat_slot) simp
  then have idx: "unat idx = i" and p: "pool' = pool\<lparr>bp_blocks := (bp_blocks pool)[i := Some b]\<rparr>"
    using assms(1) Some by (auto simp: buffer_insert_block_def)
  have bs: "bases pool' = (bases pool)[i := Some (bb_base b)]" "bases pool ! i = None"
    using p i by (simp_all add: bases_def map_update)
  have "bases_kept pool pool'"
    unfolding bases_kept_def bs(1) using p bs(2) i(1) by (auto simp: nth_list_update simp del: nth_blocks)
  moreover have "unat idx < length (bp_blocks pool') \<and> bases pool' ! unat idx = Some (bb_base b)"
    unfolding bs(1) idx using p i(1) by simp
  moreover have "set (bases pool') \<subseteq> insert (Some (bb_base b)) (set (bases pool))"
    unfolding bs(1) by (rule set_update_subset_insert)
  ultimately show ?thesis by blast
qed

lemma pool_ok_counters [simp]:
  "pool_ok (pool\<lparr>bp_block_allocs := n\<rparr>) out mem = pool_ok pool out mem"
  "pool_ok (pool\<lparr>bp_block_frees := n\<rparr>) out mem = pool_ok pool out mem"
  "pool_ok (pool\<lparr>bp_sub_allocs := n\<rparr>) out mem = pool_ok pool out mem"
  "pool_ok (pool\<lparr>bp_sub_frees := n\<rparr>) out mem = pool_ok pool out mem"
  by (simp_all add: pool_ok_def token_mapped_def unmapped_ok_def del: nth_blocks)

lemma buffer_new_block_ok:
  assumes ok: "pool_ok pool out mem" and len: "length (bp_blocks pool) < 2 ^ 32"
    and n: "block_size \<noteq> 0" and fresh: "\<forall>h. allocation = Inr h \<longrightarrow> h \<notin> mem"
    and nb: "buffer_new_block pool allocation mapping block_size ty al sz ded small = (r, pool', evs)"
  shows "pool_ok pool' (case r of Inr tok \<Rightarrow> tok # out | Inl _ \<Rightarrow> out) (fold apply_event evs mem)
    \<and> bp_kind pool' = bp_kind pool \<and> (\<forall>e \<in> set evs. allocation = Inr (handle e))"
proof (cases allocation)
  case (Inl e)
  then show ?thesis using nb ok by (auto simp: buffer_new_block_def)
next
  case (Inr h)
  then have h: "h \<notin> mem" using fresh by simp
  let ?m = "if maps_blocks (bp_kind pool) then mapping else Inr 0"
  obtain c plan where c: "carve (plan_new block_size) sz al = (c, plan)" by fastforce
  show ?thesis
  proof (cases ?m)
    case (Inl e)
    then show ?thesis using nb ok Inr h by (auto simp: buffer_new_block_def Let_def split: if_splits)
  next
    case m: (Inr base)
    show ?thesis
    proof (cases c)
      case None
      then show ?thesis using nb ok Inr c h m by (auto simp: buffer_new_block_def Let_def split: if_splits)
    next
      case (Some off)
      let ?b = "\<lparr>bb_memory = h, bb_plan = plan, bb_type = ty, bb_base = base, bb_dedicated = ded, bb_small = small,
                 bb_poisoned = False\<rparr>"
      let ?p = "pool\<lparr>bp_block_allocs := bp_block_allocs pool + 1\<rparr>"
      obtain idx q where ins: "buffer_insert_block ?p ?b = (idx, q)" by fastforce
      let ?tok = "\<lparr>bt_block = idx, bt_offset = off, bt_size = sz, bt_kind = bp_kind pool, bt_memory = h, bt_mapped = base + off\<rparr>"
      have len': "length (bp_blocks ?p) < 2 ^ 32" using len by simp
      note bs = buffer_insert_bases [OF ins len']
      from buffer_insert_mirror [OF mirror_simps(3) ins] obtain q' where
        q': "insert_block (mirror ?p) (core ?b) = (idx, q')" "mirrors q' q" "bp_kind q = bp_kind pool" by auto
      have slot: "slot_ok [core_tok ?tok] (Some (core ?b))"
        by (rule fresh_block_slot [OF c [unfolded Some] n]) (simp_all add: tok_span_def)
      from ok have slots: "slots_ok (sp_blocks (mirror ?p)) (map core_tok out) mem" and v: "bp_violations pool = 0"
        and u: "unmapped_ok pool" by (simp_all add: pool_ok_def)
      from insert_block_ok [OF slots _ q'(1) _ slot] len h q'(2) v
      have "slots_ok (blocks_of q) (map core_tok (?tok # out)) (insert h mem)" "bp_violations q = 0"
        by (simp_all add: mirrors_def)
      moreover have "unmapped_ok q"
        using u bs m q'(3) by (auto simp: unmapped_ok_def maps_blocks_def split: if_splits)
      moreover have "token_mapped q ?tok" using bs q'(3) unfolding token_mapped_def by simp
      moreover have "bases_kept pool q" using bs by (simp add: bases_kept_def del: nth_blocks)
      ultimately have "pool_ok q (?tok # out) (insert h mem)" by (intro pool_ok_step [OF ok]) auto
      then show ?thesis using nb Inr c Some ins m q'(3) by (auto simp: buffer_new_block_def Let_def split: if_splits)
    qed
  qed
qed

lemma buffer_sizes: "BUFFER_SLAB_SIZE \<noteq> 0" "BUFFER_SMALL_SLAB_SIZE \<noteq> 0"
  by (simp_all add: BUFFER_SLAB_SIZE_def BUFFER_SMALL_SLAB_SIZE_def push_bit_eq_mult)

lemma buffer_acquire_ok:
  assumes ok: "pool_ok pool out mem" and len: "length (bp_blocks pool) < 2 ^ 32"
    and fresh: "\<forall>h. allocation = Inr h \<longrightarrow> h \<notin> mem"
    and acq: "buffer_acquire pool mtf allocation mapping breq = (r, pool', evs)"
  shows "pool_ok pool' (case r of Inr tok \<Rightarrow> tok # out | Inl _ \<Rightarrow> out) (fold apply_event evs mem)
    \<and> bp_kind pool' = bp_kind pool \<and> (\<forall>e \<in> set evs. allocation = Inr (handle e))"
proof (cases "mtf (rq_type_bits breq) (rq_size breq) (kind_memory_class (bp_kind pool))")
  case None
  then show ?thesis using acq ok by (auto simp: buffer_acquire_def)
next
  case ty: (Some ty)
  let ?sz = "rq_size breq"
  note acq' = acq [unfolded buffer_acquire_def ty option.case Let_def]
  show ?thesis
  proof (cases "?sz = 0 \<or> ?sz > BUFFER_SLAB_SIZE")
    case True
    then show ?thesis
      using acq' ok by (auto split: if_splits dest: buffer_new_block_ok [OF ok len _ fresh, rotated])
  next
    case False
    obtain t p where s: "buffer_acquire_shared pool (?sz < BUFFER_SMALL_CLASS_MAX) ty ?sz (max (rq_alignment breq) 1)
        [0..<length (bp_blocks pool)] = (t, p)" by fastforce
    note sh = buffer_shared_ok [OF ok len s]
    show ?thesis
    proof (cases t)
      case (Some u)
      then show ?thesis using acq' False s sh by auto
    next
      case None
      let ?n = "if ?sz < BUFFER_SMALL_CLASS_MAX then BUFFER_SMALL_SLAB_SIZE else BUFFER_SLAB_SIZE"
      have p: "pool_ok p out mem" "length (bp_blocks p) < 2 ^ 32" "bp_kind p = bp_kind pool" using sh None len by simp_all
      have "buffer_new_block p allocation mapping ?n ty (max (rq_alignment breq) 1) ?sz False (?sz < BUFFER_SMALL_CLASS_MAX)
          = (r, pool', evs)" using acq' False s None by (simp split: if_splits)
      from buffer_new_block_ok [OF p(1,2) _ fresh this] buffer_sizes p(3) show ?thesis by auto
    qed
  qed
qed


section \<open>Giving back\<close>

lemma core_tok_inj:
  "token_mapped pool t \<Longrightarrow> token_mapped pool u \<Longrightarrow> core_tok t = core_tok u \<Longrightarrow> t = u"
  by (cases t; cases u) (auto simp: token_mapped_def core_tok_def simp del: nth_blocks)

lemma buffer_check_ok:
  assumes "slots_ok (blocks_of pool) out mem" and "i < length (bp_blocks pool)" and "bp_blocks pool ! i = Some b"
  shows "buffer_check_block pool i = (True, pool)"
proof -
  have "slot_ok (toks i out) (blocks_of pool ! i)" using slots_okD(1) [OF assms(1)] assms(2) by simp
  then show ?thesis using assms(2,3) by (simp add: buffer_check_block_def)
qed

text \<open>Dropping blocks keeps the addresses of the rest.\<close>

lemma bases_kept_drop:
  assumes "length (bp_blocks pool') = length (bp_blocks pool)" and "bp_kind pool' = bp_kind pool"
    and "\<And>i. i < length (bp_blocks pool) \<Longrightarrow> bases pool' ! i \<in> {None, bases pool ! i}"
  shows "bases_kept pool pool'" and "unmapped_ok pool \<Longrightarrow> unmapped_ok pool'"
proof -
  show "bases_kept pool pool'" using assms unfolding bases_kept_def by (metis order_refl)
  have "Some x \<in> set (bases pool)" if "Some x \<in> set (bases pool')" for x
  proof -
    from that obtain i where "i < length (bp_blocks pool)" "bases pool' ! i = Some x"
      using assms(1) by (metis in_set_conv_nth length_blocks(2))
    with assms(3) [of i] have "bases pool ! i = Some x" by (simp del: nth_blocks)
    then show ?thesis using \<open>i < length (bp_blocks pool)\<close> by (metis length_blocks(2) nth_mem)
  qed
  then show "unmapped_ok pool \<Longrightarrow> unmapped_ok pool'" using assms(2) by (simp add: unmapped_ok_def)
qed

lemma bases_slot:
  "bases (pool\<lparr>bp_blocks := (bp_blocks pool)[i := x]\<rparr>) = (bases pool)[i := map_option bb_base x]"
  by (simp add: bases_def map_update)

text \<open>What the release of an outstanding token does: the preflight admits it, its range goes back to its
  block, and a dedicated block it empties is freed.\<close>

lemma buffer_release_cases:
  assumes ok: "pool_ok pool out mem" and t: "tok \<in> set out"
    and rel: "buffer_release pool tok = (pool', evs)"
  obtains b where "unat (bt_block tok) < length (bp_blocks pool)" "bp_blocks pool ! unat (bt_block tok) = Some b"
    "well_formed (bb_plan b)" "plan_release_preflight (bb_plan b) (bt_block tok) (bt_offset tok) (bt_size tok) = Inr ()"
    "buffer_release_preflight pool (bt_block tok) (bt_offset tok) (bt_size tok) = Inr True"
    "slots_ok ((blocks_of pool)[unat (bt_block tok) :=
        Some (core (b\<lparr>bb_plan := release (bb_plan b) (bt_offset tok) (bt_size tok)\<rparr>))]) (map core_tok (remove1 tok out)) mem"
    "if plan_is_empty (release (bb_plan b) (bt_offset tok) (bt_size tok)) \<and> bb_dedicated b
     then pool' = pool\<lparr>bp_blocks := (bp_blocks pool)[unat (bt_block tok) := None], bp_sub_frees := bp_sub_frees pool + 1,
                       bp_block_frees := bp_block_frees pool + 1\<rparr> \<and> evs = [VkFree (bb_memory b)]
     else pool' = pool\<lparr>bp_blocks := (bp_blocks pool)[unat (bt_block tok) :=
                       Some (b\<lparr>bb_plan := release (bb_plan b) (bt_offset tok) (bt_size tok)\<rparr>)],
                       bp_sub_frees := bp_sub_frees pool + 1\<rparr> \<and> evs = []"
proof -
  let ?i = "unat (bt_block tok)"
  from ok have slots: "slots_ok (blocks_of pool) (map core_tok out) mem" and maps: "\<forall>t \<in> set out. token_mapped pool t"
    by (simp_all add: pool_ok_def)
  from maps t have tm: "token_mapped pool tok" by blast
  then have i: "?i < length (bp_blocks pool)" and kind: "bt_kind tok = bp_kind pool" by (simp_all add: token_mapped_def)
  have ct: "core_tok tok \<in> set (map core_tok out)" using t by simp
  obtain c where "blocks_of pool ! ?i = Some c" "slot_ok (toks ?i (map core_tok out)) (Some c)"
    using token_block [OF slots ct] by (metis core_tok_simps(1))
  then obtain b where b: "bp_blocks pool ! ?i = Some b" "\<not> bb_poisoned b" "well_formed (bb_plan b)" using i by auto
  let ?b = "b\<lparr>bb_plan := release (bb_plan b) (bt_offset tok) (bt_size tok)\<rparr>"
  let ?p = "pool\<lparr>bp_blocks := (bp_blocks pool)[?i := Some ?b], bp_sub_frees := bp_sub_frees pool + 1\<rparr>"
  have bi: "blocks_of pool ! unat (tk_block (core_tok tok)) = Some (core b)" using b i by simp
  from release_slot [OF slots ct bi]
  have pre: "plan_release_preflight (bb_plan b) (bt_block tok) (bt_offset tok) (bt_size tok) = Inr ()"
    and rs: "slots_ok ((blocks_of pool)[?i := Some (core ?b)]) (remove1 (core_tok tok) (map core_tok out)) mem"
    by simp_all
  have "map core_tok (remove1 tok out) = remove1 (core_tok tok) (map core_tok out)"
    using maps tm by (intro map_remove1_inj) (blast intro: core_tok_inj)
  with rs have rs': "slots_ok ((blocks_of pool)[?i := Some (core ?b)]) (map core_tok (remove1 tok out)) mem" by simp
  then have "slots_ok (blocks_of ?p) (map core_tok (remove1 tok out)) mem" by simp
  then have chk: "buffer_check_block ?p ?i = (True, ?p)" using i by (intro buffer_check_ok) simp_all
  have pre': "buffer_release_preflight pool (bt_block tok) (bt_offset tok) (bt_size tok) = Inr True"
    using i b pre by (simp add: buffer_release_preflight_def)
  show ?thesis
    using rel kind pre' b(1) chk i
    by (intro that [OF i b(1,3) pre pre' rs'])
      (auto simp: buffer_release_def wrong_pool_def Let_def buffer_free_block_def)
qed

lemma buffer_release_ok:
  assumes ok: "pool_ok pool out mem" and t: "tok \<in> set out"
    and rel: "buffer_release pool tok = (pool', evs)"
  shows "pool_ok pool' (remove1 tok out) (fold apply_event evs mem) \<and> bp_kind pool' = bp_kind pool
    \<and> (\<forall>e \<in> set evs. handle e \<in> mem)"
proof -
  let ?i = "unat (bt_block tok)"
  from ok have slots: "slots_ok (blocks_of pool) (map core_tok out) mem" and v: "bp_violations pool = 0"
    and u: "unmapped_ok pool" by (simp_all add: pool_ok_def)
  from buffer_release_cases [OF ok t rel] obtain b where i: "?i < length (bp_blocks pool)" and b: "bp_blocks pool ! ?i = Some b"
    and slots': "slots_ok ((blocks_of pool)[?i := Some (core (b\<lparr>bb_plan := release (bb_plan b) (bt_offset tok) (bt_size tok)\<rparr>))])
        (map core_tok (remove1 tok out)) mem"
    and res: "if plan_is_empty (release (bb_plan b) (bt_offset tok) (bt_size tok)) \<and> bb_dedicated b
     then pool' = pool\<lparr>bp_blocks := (bp_blocks pool)[?i := None], bp_sub_frees := bp_sub_frees pool + 1,
                       bp_block_frees := bp_block_frees pool + 1\<rparr> \<and> evs = [VkFree (bb_memory b)]
     else pool' = pool\<lparr>bp_blocks := (bp_blocks pool)[?i := Some (b\<lparr>bb_plan := release (bb_plan b) (bt_offset tok) (bt_size tok)\<rparr>)],
                       bp_sub_frees := bp_sub_frees pool + 1\<rparr> \<and> evs = []"
    by metis
  let ?b = "b\<lparr>bb_plan := release (bb_plan b) (bt_offset tok) (bt_size tok)\<rparr>"
  have in_out: "\<forall>t \<in> set (remove1 tok out). t \<in> set out" using set_remove1_subset [of tok out] by blast
  have upd: "pool_ok q (remove1 tok out) m" if "slots_ok (blocks_of q) (map core_tok (remove1 tok out)) m"
      "bp_violations q = 0" "bp_kind q = bp_kind pool" "bases q = (bases pool)[?i := x]" "x \<in> {None, Some (bb_base b)}"
      "length (bp_blocks q) = length (bp_blocks pool)" for q m x
  proof -
    have "bases q ! j \<in> {None, bases pool ! j}" if "j < length (bp_blocks pool)" for j
      using that \<open>bases q = _\<close> \<open>x \<in> _\<close> b by (cases "j = ?i") auto
    from bases_kept_drop [OF \<open>length _ = _\<close> \<open>bp_kind _ = _\<close> this] that(1,2) u in_out
    show ?thesis by (intro pool_ok_step [OF ok]) auto
  qed
  show ?thesis
  proof (cases "plan_is_empty (bb_plan ?b) \<and> bb_dedicated b")
    case False
    then have res': "pool' = pool\<lparr>bp_blocks := (bp_blocks pool)[?i := Some ?b], bp_sub_frees := bp_sub_frees pool + 1\<rparr>"
        "evs = []" using res by (auto split: if_splits)
    have "pool_ok pool' (remove1 tok out) mem"
      using slots' v res' by (intro upd [of _ _ "Some (bb_base b)"]) (simp_all add: blocks_of_def bases_def map_update)
    then show ?thesis using res' by simp
  next
    case True
    then have res': "pool' = pool\<lparr>bp_blocks := (bp_blocks pool)[?i := None], bp_sub_frees := bp_sub_frees pool + 1,
        bp_block_frees := bp_block_frees pool + 1\<rparr>" "evs = [VkFree (bb_memory b)]" using res by simp_all
    let ?bs = "(blocks_of pool)[?i := Some (core ?b)]"
    have bp: "?i < length ?bs" "?bs ! ?i = Some (core ?b)" using i by simp_all
    have "slot_ok (toks ?i (map core_tok (remove1 tok out))) (Some (core ?b))"
      using slots_okD(1) [OF slots' bp(1)] bp(2) by simp
    from slot_empty [OF this] True have "toks ?i (map core_tok (remove1 tok out)) = []" by simp
    from slots_ok_free [OF slots' bp this]
    have "slots_ok (blocks_of pool') (map core_tok (remove1 tok out)) (mem - {bb_memory b})"
      using res'(1) by (simp add: blocks_of_def map_update)
    then have "pool_ok pool' (remove1 tok out) (mem - {bb_memory b})"
      using v res'(1) by (intro upd [of _ _ None]) (simp_all add: bases_def map_update)
    moreover have "bb_memory b \<in> mem" using slots_okD(3) [OF slots, of ?i "core b"] b i by simp
    ultimately show ?thesis using res' by simp
  qed
qed

text \<open>A second release of the same token finds its bytes free, or its block gone, and is refused.\<close>

lemma buffer_release_twice:
  assumes "pool_ok pool out mem" and "tok \<in> set out" and "buffer_release pool tok = (pool', evs)"
  shows "buffer_release pool' tok = (pool', [])"
proof -
  let ?i = "unat (bt_block tok)"
  from buffer_release_cases [OF assms] obtain b where i: "?i < length (bp_blocks pool)" and wf: "well_formed (bb_plan b)"
    and pre: "plan_release_preflight (bb_plan b) (bt_block tok) (bt_offset tok) (bt_size tok) = Inr ()"
    and eq: "if plan_is_empty (release (bb_plan b) (bt_offset tok) (bt_size tok)) \<and> bb_dedicated b
     then pool' = pool\<lparr>bp_blocks := (bp_blocks pool)[?i := None], bp_sub_frees := bp_sub_frees pool + 1,
                       bp_block_frees := bp_block_frees pool + 1\<rparr> \<and> evs = [VkFree (bb_memory b)]
     else pool' = pool\<lparr>bp_blocks := (bp_blocks pool)[?i := Some (b\<lparr>bb_plan := release (bb_plan b) (bt_offset tok) (bt_size tok)\<rparr>)],
                       bp_sub_frees := bp_sub_frees pool + 1\<rparr> \<and> evs = []" by metis
  have res: "bp_blocks pool' = (bp_blocks pool)[?i := None] \<or>
       bp_blocks pool' = (bp_blocks pool)[?i := Some (b\<lparr>bb_plan := release (bb_plan b) (bt_offset tok) (bt_size tok)\<rparr>)]"
    using eq by (auto split: if_splits)
  note r = release_facts [OF wf, of "bt_block tok" "bt_offset tok" "bt_size tok"]
  then have "span_bytes (bt_offset tok) (bt_size tok) \<noteq> {}" using pre by (auto simp: span_bytes_def)
  then have "plan_release_preflight (release (bb_plan b) (bt_offset tok) (bt_size tok)) (bt_block tok) (bt_offset tok) (bt_size tok)
      \<noteq> Inr ()" using r pre preflight_iff by (metis Int_absorb2 Un_upper2)
  then obtain e where "plan_release_preflight (release (bb_plan b) (bt_offset tok) (bt_size tok)) (bt_block tok) (bt_offset tok) (bt_size tok)
      = Inl e" by (metis old.unit.exhaust sumE)
  then have "(\<exists>d. buffer_release_preflight pool' (bt_block tok) (bt_offset tok) (bt_size tok) = Inl d)
      \<or> buffer_release_preflight pool' (bt_block tok) (bt_offset tok) (bt_size tok) = Inr False"
    using res i by (auto simp: buffer_release_preflight_def)
  then show ?thesis by (auto simp: buffer_release_def Let_def)
qed

section \<open>Trimming and tearing down\<close>

lemma buffer_empty_spare_core: "buffer_empty_spare c s = empty_spare c (map_option core s)"
  by (cases s) (simp_all add: buffer_empty_spare_def empty_spare_def)

lemma buffer_victims: "buffer_empty_block_victims pool keep = empty_block_victims (mirror pool) keep"
proof -
  have "filter (\<lambda>i. buffer_empty_spare c (bp_blocks pool ! i)) [0..<length (bp_blocks pool)]
      = filter (\<lambda>i. empty_spare c (blocks_of pool ! i)) [0..<length (bp_blocks pool)]" for c
    by (rule filter_cong) (simp_all add: buffer_empty_spare_core)
  then show ?thesis by (simp add: buffer_empty_block_victims_def empty_block_victims_def)
qed

lemma buffer_free_blocks_mirror:
  assumes "mirrors q pool" and "\<forall>i \<in> set is. i < length (bp_blocks pool)"
    and "buffer_free_blocks pool is = (n, pool', evs)"
  shows "\<exists>q'. free_slots q is = (q', evs) \<and> mirrors q' pool' \<and> n = length evs \<and> bp_kind pool' = bp_kind pool
    \<and> length (bp_blocks pool') = length (bp_blocks pool)
    \<and> (\<forall>j < length (bp_blocks pool). bases pool' ! j \<in> {None, bases pool ! j})"
  using assms
proof (induction "is" arbitrary: q pool n evs)
  case (Cons i "is")
  have i: "i < length (bp_blocks pool)" "sp_blocks q ! i = map_option core (bp_blocks pool ! i)"
    using Cons.prems(1,2) by (simp_all add: mirrors_def)
  show ?case
  proof (cases "bp_blocks pool ! i")
    case None
    then have "free_slots q (i # is) = free_slots q is" using i by (simp add: free_slot_def split: prod.splits)
    then show ?thesis using Cons.IH [OF Cons.prems(1), of n evs] Cons.prems(2,3) None by simp
  next
    case (Some b)
    let ?p = "pool\<lparr>bp_blocks := (bp_blocks pool)[i := None], bp_block_frees := bp_block_frees pool + 1\<rparr>"
    let ?q = "q\<lparr>sp_blocks := (sp_blocks q)[i := None], sp_block_frees := sp_block_frees q + 1\<rparr>"
    have m: "mirrors ?q ?p" using Cons.prems(1) by (simp add: mirrors_def)
    obtain k es where rest: "buffer_free_blocks ?p is = (k, pool', es)" "n = k + 1" "evs = VkFree (bb_memory b) # es"
      using Cons.prems(3) Some by (auto simp: buffer_free_block_def split: prod.splits)
    have "\<forall>i \<in> set is. i < length (bp_blocks ?p)" using Cons.prems(2) by simp
    from Cons.IH [OF m this rest(1)] obtain q' where
      q': "free_slots ?q is = (q', es)" "mirrors q' pool'" "k = length es" "bp_kind pool' = bp_kind pool"
        "length (bp_blocks pool') = length (bp_blocks pool)"
        "\<forall>j < length (bp_blocks pool). bases pool' ! j \<in> {None, bases ?p ! j}" by auto
    have "bases pool' ! j \<in> {None, bases pool ! j}" if "j < length (bp_blocks pool)" for j
      using q'(6) that by (cases "j = i") (auto simp: bases_slot)
    moreover have "free_slots q (i # is) = (q', evs)" using q'(1) i Some rest(3) by (simp add: free_slot_def)
    ultimately show ?thesis using q' rest(2,3) by simp
  qed
qed simp

lemma victims_in: "i \<in> set (empty_block_victims pool keep) \<Longrightarrow> i < length (sp_blocks pool)"
  by (auto simp: empty_block_victims_def dest!: in_set_dropD)

lemma buffer_trim_mirror:
  assumes "buffer_trim pool keep = (n, pool', evs)"
  shows "\<exists>q'. trim_empty_blocks (mirror pool) keep = (n, q', evs) \<and> mirrors q' pool' \<and> bp_kind pool' = bp_kind pool
    \<and> length (bp_blocks pool') = length (bp_blocks pool)
    \<and> (\<forall>j < length (bp_blocks pool). bases pool' ! j \<in> {None, bases pool ! j})"
proof -
  have "\<forall>i \<in> set (empty_block_victims (mirror pool) keep). i < length (bp_blocks pool)"
    using victims_in [of _ "mirror pool"] by auto
  from buffer_free_blocks_mirror [OF mirror_simps(3) this] assms
  show ?thesis by (fastforce simp: buffer_trim_def buffer_victims trim_empty_blocks_def)
qed

lemma free_slots_handles:
  "free_slots q is = (q', evs) \<Longrightarrow> \<forall>i \<in> set is. i < length (sp_blocks q) \<Longrightarrow>
     \<forall>e \<in> set evs. handle e \<in> memories (sp_blocks q)"
proof (induction "is" arbitrary: q evs)
  case (Cons i "is")
  obtain p es where p: "free_slot q i = (p, es)" by fastforce
  obtain es' where es': "free_slots p is = (q', es')" "evs = es @ es'" using Cons.prems(1) p by (auto split: prod.splits)
  have len: "length (sp_blocks p) = length (sp_blocks q)" using p by (auto simp: free_slot_def split: option.splits)
  have sub: "memories (sp_blocks p) \<subseteq> memories (sp_blocks q)"
    using p set_update_subset_insert [of "sp_blocks q" i None]
    by (auto simp: free_slot_def memories_def split: option.splits)
  have "\<forall>e \<in> set es'. handle e \<in> memories (sp_blocks p)" using Cons.IH [OF es'(1)] Cons.prems(2) len by simp
  moreover have "\<forall>e \<in> set es. handle e \<in> memories (sp_blocks q)"
    using p Cons.prems(2) nth_mem [of i "sp_blocks q"] by (fastforce simp: free_slot_def memories_def split: option.splits)
  ultimately show ?case using sub es'(2) by auto
qed simp

lemma slots_memories: "slots_ok blocks out mem \<Longrightarrow> mem = memories blocks"
  using slots_okD(3,5) [of blocks out mem] by (auto simp: memories_def in_set_conv_nth)

lemma buffer_trim_ok:
  assumes ok: "pool_ok pool out mem" and trim: "buffer_trim pool keep = (n, pool', evs)"
  shows "pool_ok pool' out (fold apply_event evs mem) \<and> bp_kind pool' = bp_kind pool \<and> (\<forall>e \<in> set evs. handle e \<in> mem)"
proof -
  from ok have slots: "slots_ok (sp_blocks (mirror pool)) (map core_tok out) mem" and v: "bp_violations pool = 0"
    and u: "unmapped_ok pool" by (simp_all add: pool_ok_def)
  from buffer_trim_mirror [OF trim] obtain q where q: "trim_empty_blocks (mirror pool) keep = (n, q, evs)" "mirrors q pool'"
    and k: "length (bp_blocks pool') = length (bp_blocks pool)" "bp_kind pool' = bp_kind pool"
    and bs: "\<forall>j < length (bp_blocks pool). bases pool' ! j \<in> {None, bases pool ! j}" by blast
  from trim_ok [OF slots q(1)] q(2) v
  have "slots_ok (blocks_of pool') (map core_tok out) (fold apply_event evs mem)" "bp_violations pool' = 0"
    by (simp_all add: mirrors_def)
  with bases_kept_drop [OF k] bs u have "pool_ok pool' out (fold apply_event evs mem)"
    by (intro pool_ok_step [OF ok]) auto
  moreover have "\<forall>e \<in> set evs. handle e \<in> mem"
    using q(1) free_slots_handles [of "mirror pool" "empty_block_victims (mirror pool) keep"] victims_in [of _ "mirror pool"]
      slots_memories [OF slots] by (auto simp: trim_empty_blocks_def split: prod.splits)
  ultimately show ?thesis using k by simp
qed

lemma memories_blocks: "memories (blocks_of pool) = {bb_memory b | b. Some b \<in> set (bp_blocks pool)}"
proof -
  have "Some c \<in> set (blocks_of pool) \<longleftrightarrow> (\<exists>b. Some b \<in> set (bp_blocks pool) \<and> c = core b)" for c
    by (auto simp: blocks_of_def image_iff eq_commute [of "Some c"])
  then show ?thesis
    unfolding memories_def by (metis (no_types, opaque_lifting) core_simps(1))
qed

lemma buffer_destroy_ok:
  assumes ok: "pool_ok pool [] mem" and d: "buffer_destroy_all pool = (pool', evs)"
  shows "pool_ok pool' [] (fold apply_event evs mem) \<and> bp_kind pool' = bp_kind pool \<and> (\<forall>e \<in> set evs. handle e \<in> mem)
    \<and> fold apply_event evs mem = {}"
proof -
  let ?bs = "map the (filter (\<lambda>s. s \<noteq> None) (bp_blocks pool))"
  from ok have "slots_ok (blocks_of pool) [] mem" by (simp add: pool_ok_def)
  note mem = slots_memories [OF this]
  have evs: "evs = map (\<lambda>b. VkFree (bb_memory b)) ?bs" "pool' = pool\<lparr>bp_blocks := []\<rparr>"
    using d by (simp_all add: buffer_destroy_all_def)
  have "mem = {bb_memory b | b. Some b \<in> set (bp_blocks pool)}" using mem memories_blocks by simp
  also have "\<dots> = bb_memory ` set ?bs" by force
  finally have all: "bb_memory ` set ?bs = mem" by simp
  have "fold apply_event (map (\<lambda>b. VkFree (bb_memory b)) bs) m = m - bb_memory ` set bs" for bs m
    by (induction bs arbitrary: m) auto
  then have "fold apply_event evs mem = mem - bb_memory ` set ?bs" unfolding evs(1) .
  then have "fold apply_event evs mem = {}" unfolding all by simp
  moreover have "\<forall>e \<in> set evs. handle e \<in> mem" using all evs(1) by auto
  moreover have "pool_ok pool' [] {}" using evs(2) ok by (simp add: pool_ok_def slots_ok_def blocks_of_def unmapped_ok_def bases_def)
  ultimately show ?thesis using evs(2) by simp
qed


section \<open>The two pools as one system\<close>

text \<open>
  The pair of pools, the tokens handed out of either, and the driver's live memory. A caller acquires
  from a pool, gives a token back through the pair, trims both pools, or tears them down once it holds
  nothing; the driver hands out only memory that is not live.
\<close>

record buffer_state =
  bu_slabs :: buffer_slabs
  bu_out :: "buffer_token list"
  bu_mem :: "u64 set"

definition pool_of :: "buffer_slabs \<Rightarrow> slab_kind \<Rightarrow> buffer_pool" where
  "pool_of slabs kind = (case kind of UploadKind \<Rightarrow> bs_upload slabs | DeviceLocalKind \<Rightarrow> bs_gather slabs)"

inductive buffer_step :: "buffer_state \<Rightarrow> buffer_state \<Rightarrow> bool" where
  buffer_step_acquire:
    "length (bp_blocks (pool_of (bu_slabs s) kind)) < 2 ^ 32 \<Longrightarrow> (\<forall>h. allocation = Inr h \<longrightarrow> h \<notin> bu_mem s) \<Longrightarrow>
     slabs_acquire (bu_slabs s) kind memory_type_for allocation mapping breq = (r, slabs, evs) \<Longrightarrow>
     buffer_step s \<lparr>bu_slabs = slabs, bu_out = (case r of Inr tok \<Rightarrow> tok # bu_out s | Inl _ \<Rightarrow> bu_out s),
                    bu_mem = fold apply_event evs (bu_mem s)\<rparr>"
| buffer_step_release:
    "tok \<in> set (bu_out s) \<Longrightarrow> slabs_release (bu_slabs s) tok = (slabs, evs) \<Longrightarrow>
     buffer_step s \<lparr>bu_slabs = slabs, bu_out = remove1 tok (bu_out s), bu_mem = fold apply_event evs (bu_mem s)\<rparr>"
| buffer_step_trim:
    "slabs_trim (bu_slabs s) keep = (n, slabs, evs) \<Longrightarrow>
     buffer_step s \<lparr>bu_slabs = slabs, bu_out = bu_out s, bu_mem = fold apply_event evs (bu_mem s)\<rparr>"
| buffer_step_destroy:
    "bu_out s = [] \<Longrightarrow> slabs_destroy_all (bu_slabs s) = (slabs, evs) \<Longrightarrow>
     buffer_step s \<lparr>bu_slabs = slabs, bu_out = [], bu_mem = fold apply_event evs (bu_mem s)\<rparr>"

inductive buffer_reachable :: "buffer_state \<Rightarrow> bool" where
  buffer_start: "buffer_reachable \<lparr>bu_slabs = buffer_slabs_new, bu_out = [], bu_mem = {}\<rparr>"
| buffer_next: "buffer_reachable s \<Longrightarrow> buffer_step s t \<Longrightarrow> buffer_reachable t"

definition tokens_of :: "slab_kind \<Rightarrow> buffer_token list \<Rightarrow> buffer_token list" where
  "tokens_of kind out = filter (\<lambda>t. bt_kind t = kind) out"

definition buffer_inv :: "buffer_state \<Rightarrow> u64 set \<Rightarrow> u64 set \<Rightarrow> bool" where
  "buffer_inv s up ga \<longleftrightarrow>
     pool_ok (bs_upload (bu_slabs s)) (tokens_of UploadKind (bu_out s)) up \<and> bp_kind (bs_upload (bu_slabs s)) = UploadKind
     \<and> pool_ok (bs_gather (bu_slabs s)) (tokens_of DeviceLocalKind (bu_out s)) ga \<and> bp_kind (bs_gather (bu_slabs s)) = DeviceLocalKind
     \<and> up \<inter> ga = {} \<and> bu_mem s = up \<union> ga"

text \<open>Events about one pool's memory leave the rest of the live memory alone.\<close>

lemma events_apart:
  "\<forall>e \<in> set evs. handle e \<notin> B \<Longrightarrow> fold apply_event evs (A \<union> B) = fold apply_event evs A \<union> B
     \<and> fold apply_event evs A \<inter> B = A \<inter> B"
proof (induction evs arbitrary: A)
  case (Cons e evs)
  have "apply_event e (A \<union> B) = apply_event e A \<union> B" "apply_event e A \<inter> B = A \<inter> B"
    using Cons.prems by (cases e; auto)+
  then show ?case using Cons.IH [of "apply_event e A"] Cons.prems by simp
qed simp

lemma events_within: "fold apply_event evs A \<subseteq> A \<union> handle ` set evs"
proof (induction evs arbitrary: A)
  case (Cons e evs)
  have "apply_event e A \<subseteq> insert (handle e) A" by (cases e) auto
  then show ?case using Cons.IH [of "apply_event e A"] by auto
qed simp

lemma tokens_of_simps [simp]:
  "tokens_of k [] = []"
  "tokens_of k (t # out) = (if bt_kind t = k then t # tokens_of k out else tokens_of k out)"
  "t \<in> set (tokens_of k out) \<longleftrightarrow> t \<in> set out \<and> bt_kind t = k"
  by (auto simp: tokens_of_def)

lemma tokens_of_remove1:
  "tokens_of k (remove1 t out) = (if bt_kind t = k then remove1 t (tokens_of k out) else tokens_of k out)"
proof (cases "bt_kind t = k")
  case False
  have "t \<notin> set (filter (\<lambda>t. bt_kind t = k) out)" using False by simp
  then show ?thesis using False by (simp add: tokens_of_def filter_remove1 remove1_absent)
qed (simp add: tokens_of_def filter_remove1)

lemma new_token_kind:
  "pool_ok p (tok # out) m \<Longrightarrow> bt_kind tok = bp_kind p"
  by (simp add: pool_ok_def token_mapped_def)

lemma buffer_step_inv:
  assumes "buffer_step s t" and inv: "buffer_inv s up ga"
  shows "\<exists>up' ga'. buffer_inv t up' ga'"
  using assms(1)
proof cases
  case (buffer_step_acquire kind allocation mtf mapping breq r slabs evs)
  note inv' = inv [unfolded buffer_inv_def]
  show ?thesis
  proof (cases kind)
    case UploadKind
    obtain p where p: "buffer_acquire (bs_upload (bu_slabs s)) mtf allocation mapping breq = (r, p, evs)"
        "slabs = (bu_slabs s)\<lparr>bs_upload := p\<rparr>"
      using buffer_step_acquire(4) UploadKind by (auto simp: slabs_acquire_def split: prod.splits)
    have "\<forall>h. allocation = Inr h \<longrightarrow> h \<notin> up" using buffer_step_acquire(3) inv' by auto
    note a = buffer_acquire_ok [OF _ _ this p(1), of "tokens_of UploadKind (bu_out s)"]
    have a: "pool_ok p (case r of Inr tok \<Rightarrow> tok # tokens_of UploadKind (bu_out s) | Inl _ \<Rightarrow> tokens_of UploadKind (bu_out s))
        (fold apply_event evs up)" "bp_kind p = UploadKind" "\<forall>e \<in> set evs. handle e \<notin> ga"
      using a inv' buffer_step_acquire(2,3) UploadKind by (auto simp: pool_of_def)
    have "buffer_inv t (fold apply_event evs up) ga"
      using a inv' events_apart [OF a(3), of up] buffer_step_acquire(1) p(2)
      by (cases r) (auto simp: buffer_inv_def dest: new_token_kind)
    then show ?thesis by blast
  next
    case DeviceLocalKind
    obtain p where p: "buffer_acquire (bs_gather (bu_slabs s)) mtf allocation mapping breq = (r, p, evs)"
        "slabs = (bu_slabs s)\<lparr>bs_gather := p\<rparr>"
      using buffer_step_acquire(4) DeviceLocalKind by (auto simp: slabs_acquire_def split: prod.splits)
    have "\<forall>h. allocation = Inr h \<longrightarrow> h \<notin> ga" using buffer_step_acquire(3) inv' by auto
    note a = buffer_acquire_ok [OF _ _ this p(1), of "tokens_of DeviceLocalKind (bu_out s)"]
    have a: "pool_ok p (case r of Inr tok \<Rightarrow> tok # tokens_of DeviceLocalKind (bu_out s) | Inl _ \<Rightarrow> tokens_of DeviceLocalKind (bu_out s))
        (fold apply_event evs ga)" "bp_kind p = DeviceLocalKind" "\<forall>e \<in> set evs. handle e \<notin> up"
      using a inv' buffer_step_acquire(2,3) DeviceLocalKind by (auto simp: pool_of_def)
    have "buffer_inv t up (fold apply_event evs ga)"
      using a inv' events_apart [OF a(3), of ga] buffer_step_acquire(1) p(2)
      by (cases r) (auto simp: buffer_inv_def Un_commute Int_commute dest: new_token_kind)
    then show ?thesis by blast
  qed
next
  case (buffer_step_release tok slabs evs)
  note inv' = inv [unfolded buffer_inv_def]
  show ?thesis
  proof (cases "bt_kind tok")
    case UploadKind
    obtain p where p: "buffer_release (bs_upload (bu_slabs s)) tok = (p, evs)" "slabs = (bu_slabs s)\<lparr>bs_upload := p\<rparr>"
      using buffer_step_release(3) UploadKind by (auto simp: slabs_release_def split: prod.splits)
    have "tok \<in> set (tokens_of UploadKind (bu_out s))" using buffer_step_release(2) UploadKind by simp
    from buffer_release_ok [OF _ this p(1)] inv'
    have a: "pool_ok p (remove1 tok (tokens_of UploadKind (bu_out s))) (fold apply_event evs up)" "bp_kind p = UploadKind"
        "\<forall>e \<in> set evs. handle e \<notin> ga" by auto
    have "buffer_inv t (fold apply_event evs up) ga"
      using a inv' events_apart [OF a(3), of up] buffer_step_release(1) p(2) UploadKind
      by (simp add: buffer_inv_def tokens_of_remove1)
    then show ?thesis by blast
  next
    case DeviceLocalKind
    obtain p where p: "buffer_release (bs_gather (bu_slabs s)) tok = (p, evs)" "slabs = (bu_slabs s)\<lparr>bs_gather := p\<rparr>"
      using buffer_step_release(3) DeviceLocalKind by (auto simp: slabs_release_def split: prod.splits)
    have "tok \<in> set (tokens_of DeviceLocalKind (bu_out s))" using buffer_step_release(2) DeviceLocalKind by simp
    from buffer_release_ok [OF _ this p(1)] inv'
    have a: "pool_ok p (remove1 tok (tokens_of DeviceLocalKind (bu_out s))) (fold apply_event evs ga)" "bp_kind p = DeviceLocalKind"
        "\<forall>e \<in> set evs. handle e \<notin> up" by auto
    have "buffer_inv t up (fold apply_event evs ga)"
      using a inv' events_apart [OF a(3), of ga] buffer_step_release(1) p(2) DeviceLocalKind
      by (simp add: buffer_inv_def tokens_of_remove1 Un_commute Int_commute)
    then show ?thesis by blast
  qed
next
  case (buffer_step_trim keep n slabs evs)
  note inv' = inv [unfolded buffer_inv_def]
  obtain m u e1 k g e2 where u: "buffer_trim (bs_upload (bu_slabs s)) keep = (m, u, e1)"
    and g: "buffer_trim (bs_gather (bu_slabs s)) keep = (k, g, e2)" and r: "slabs = \<lparr>bs_upload = u, bs_gather = g\<rparr>" "evs = e1 @ e2"
    using buffer_step_trim(2) by (auto simp: slabs_trim_def split: prod.splits)
  from buffer_trim_ok [OF _ u] buffer_trim_ok [OF _ g] inv'
  have a: "pool_ok u (tokens_of UploadKind (bu_out s)) (fold apply_event e1 up)" "bp_kind u = UploadKind" "\<forall>e \<in> set e1. handle e \<in> up"
    "pool_ok g (tokens_of DeviceLocalKind (bu_out s)) (fold apply_event e2 ga)" "bp_kind g = DeviceLocalKind" "\<forall>e \<in> set e2. handle e \<in> ga"
    by auto
  have ap: "\<forall>e \<in> set e1. handle e \<notin> ga" using a(3) inv' by auto
  note e1 = events_apart [OF ap, of up]
  have sub: "fold apply_event e1 up \<inter> ga = {}" using e1 inv' by simp
  from events_within [of e1 up] have "\<forall>e \<in> set e2. handle e \<notin> fold apply_event e1 up" using a(3,6) sub inv' by blast
  note e2 = events_apart [OF this, of ga]
  have "buffer_inv t (fold apply_event e1 up) (fold apply_event e2 ga)"
    using a inv' e1 e2 sub buffer_step_trim(1) r by (simp add: buffer_inv_def Un_commute Int_commute)
  then show ?thesis by blast
next
  case (buffer_step_destroy slabs evs)
  note inv' = inv [unfolded buffer_inv_def]
  obtain u e1 g e2 where u: "buffer_destroy_all (bs_upload (bu_slabs s)) = (u, e1)"
    and g: "buffer_destroy_all (bs_gather (bu_slabs s)) = (g, e2)" and r: "slabs = \<lparr>bs_upload = u, bs_gather = g\<rparr>" "evs = e1 @ e2"
    using buffer_step_destroy(3) by (auto simp: slabs_destroy_all_def split: prod.splits)
  from buffer_destroy_ok [OF _ u, of up] buffer_destroy_ok [OF _ g, of ga] inv' buffer_step_destroy(2)
  have a: "pool_ok u [] {}" "bp_kind u = UploadKind" "\<forall>e \<in> set e1. handle e \<in> up" "fold apply_event e1 up = {}"
    "pool_ok g [] {}" "bp_kind g = DeviceLocalKind" "fold apply_event e2 ga = {}" by auto
  have ap: "\<forall>e \<in> set e1. handle e \<notin> ga" using a(3) inv' by auto
  from events_apart [OF ap, of up] a inv' have "fold apply_event evs (bu_mem s) = {}" using r by simp
  then have "buffer_inv t {} {}" using a buffer_step_destroy(1) r by (simp add: buffer_inv_def)
  then show ?thesis by blast
qed

lemma buffer_start_inv: "buffer_inv \<lparr>bu_slabs = buffer_slabs_new, bu_out = [], bu_mem = {}\<rparr> {} {}"
  by (simp add: buffer_inv_def buffer_slabs_new_def buffer_pool_new_def pool_ok_def slots_ok_def blocks_of_def
      unmapped_ok_def bases_def)

lemma buffer_reachable_inv: "buffer_reachable s \<Longrightarrow> \<exists>up ga. buffer_inv s up ga"
  by (induction rule: buffer_reachable.induct) (blast intro: buffer_start_inv buffer_step_inv)+


section \<open>What the invariant gives\<close>

lemma pool_ok_apart:
  assumes ok: "pool_ok pool out mem" and ij: "i < j" "j < length out" and m: "bt_memory (out ! i) = bt_memory (out ! j)"
  shows "span_bytes (bt_offset (out ! i)) (bt_size (out ! i)) \<inter> span_bytes (bt_offset (out ! j)) (bt_size (out ! j)) = {}"
proof -
  let ?s = "\<lparr>ss_pool = mirror pool, ss_out = map core_tok out, ss_mem = mem\<rparr>"
  have "slab_inv ?s" using ok by (simp add: slab_inv_def pool_ok_def live_ok_def mirror_def slab_pool_new_def)
  from inv_no_alias [OF this, of i j] ij m show ?thesis by simp
qed

lemma pool_ok_token:
  assumes ok: "pool_ok pool out mem" and t: "tok \<in> set out"
  shows "\<exists>b. unat (bt_block tok) < length (bp_blocks pool) \<and> bp_blocks pool ! unat (bt_block tok) = Some b
    \<and> bt_memory tok = bb_memory b \<and> bt_mapped tok = bb_base b + bt_offset tok \<and> bb_memory b \<in> mem
    \<and> unat (bt_offset tok) + unat (bt_size tok) \<le> unat (bp_size (bb_plan b))"
proof -
  from ok have slots: "slots_ok (blocks_of pool) (map core_tok out) mem" and m: "token_mapped pool tok"
    using t by (simp_all add: pool_ok_def)
  have "core_tok tok \<in> set (map core_tok out)" using t by simp
  from token_block [OF slots this] obtain c where c: "blocks_of pool ! unat (bt_block tok) = Some c"
      "bt_memory tok = mb_memory c" "unat (bt_offset tok) + unat (bt_size tok) \<le> unat (bp_size (mb_plan c))"
    using slot_token_inside by (metis core_tok_simps)
  have i: "unat (bt_block tok) < length (bp_blocks pool)" using m by (simp add: token_mapped_def)
  then obtain b where b: "bp_blocks pool ! unat (bt_block tok) = Some b" "c = core b" using c(1) by auto
  moreover have "bb_memory b \<in> mem" using slots_okD(3) [OF slots _ c(1)] b i by simp
  ultimately show ?thesis using m i c by (auto simp: token_mapped_def)
qed

lemma nth_filter_less:
  assumes "i < j" "j < length xs" "P (xs ! i)" "P (xs ! j)"
  obtains i' j' where "i' < j'" "j' < length (filter P xs)" "filter P xs ! i' = xs ! i" "filter P xs ! j' = xs ! j"
proof -
  let ?a = "take j xs" and ?b = "drop j xs"
  have xs: "filter P xs = filter P ?a @ xs ! j # filter P (drop (Suc j) xs)"
    using assms(2,4) by (metis append_take_drop_id Cons_nth_drop_Suc filter.simps(2) filter_append)
  have "xs ! i \<in> set (filter P ?a)" using assms by (auto simp: in_set_conv_nth)
  then obtain i' where "i' < length (filter P ?a)" "filter P ?a ! i' = xs ! i" by (metis in_set_conv_nth)
  then show ?thesis by (intro that [of i' "length (filter P ?a)"]) (simp_all add: xs nth_append)
qed

lemma buffer_inv_apart:
  assumes inv: "buffer_inv s up ga" and ij: "i < j" "j < length (bu_out s)"
    and m: "bt_memory (bu_out s ! i) = bt_memory (bu_out s ! j)"
  shows "bt_kind (bu_out s ! i) = bt_kind (bu_out s ! j)
    \<and> span_bytes (bt_offset (bu_out s ! i)) (bt_size (bu_out s ! i))
       \<inter> span_bytes (bt_offset (bu_out s ! j)) (bt_size (bu_out s ! j)) = {}"
proof -
  let ?a = "bu_out s ! i" and ?b = "bu_out s ! j"
  have ab: "?a \<in> set (bu_out s)" "?b \<in> set (bu_out s)" using ij by simp_all
  have up: "bt_memory t \<in> up" if "t \<in> set (bu_out s)" "bt_kind t = UploadKind" for t
    using pool_ok_token [of "bs_upload (bu_slabs s)" _ up t] inv that by (fastforce simp: buffer_inv_def)
  have ga: "bt_memory t \<in> ga" if "t \<in> set (bu_out s)" "bt_kind t = DeviceLocalKind" for t
    using pool_ok_token [of "bs_gather (bu_slabs s)" _ ga t] inv that by (fastforce simp: buffer_inv_def)
  have apart: "up \<inter> ga = {}" using inv by (simp add: buffer_inv_def)
  have kind: "bt_kind ?a = bt_kind ?b"
    using up [OF ab(1)] ga [OF ab(1)] up [OF ab(2)] ga [OF ab(2)] apart m
    by (cases "bt_kind ?a"; cases "bt_kind ?b") auto
  obtain i' j' where f: "i' < j'" "j' < length (tokens_of (bt_kind ?b) (bu_out s))"
      "tokens_of (bt_kind ?b) (bu_out s) ! i' = ?a" "tokens_of (bt_kind ?b) (bu_out s) ! j' = ?b"
    unfolding tokens_of_def using kind
    by (rule_tac nth_filter_less [OF ij, of "\<lambda>t. bt_kind t = bt_kind (bu_out s ! j)"]) auto
  have "\<exists>p m. pool_ok p (tokens_of (bt_kind ?b) (bu_out s)) m"
    using inv by (cases "bt_kind ?b") (auto simp: buffer_inv_def)
  then obtain p m' where "pool_ok p (tokens_of (bt_kind ?b) (bu_out s)) m'" by blast
  from pool_ok_apart [OF this f(1,2)] f(3,4) m kind show ?thesis by simp
qed

text \<open>C13: The pooled buffers never share a byte. In every state the callers of the two pools can
  reach, with the driver handing out memory that is not live: two outstanding tokens have different memory, or
  the same kind and disjoint byte ranges; each token lies inside a live block of its own kind's pool and
  its host address is that block's address plus its offset; every live allocation belongs to a block of
  exactly one pool; and no free list ever broke.\<close>

theorem buffer_slabs_no_alias:
  assumes "buffer_reachable s"
  shows "(\<forall>i j. i < j \<and> j < length (bu_out s) \<longrightarrow>
        bt_memory (bu_out s ! i) \<noteq> bt_memory (bu_out s ! j)
        \<or> bt_kind (bu_out s ! i) = bt_kind (bu_out s ! j)
          \<and> span_bytes (bt_offset (bu_out s ! i)) (bt_size (bu_out s ! i))
             \<inter> span_bytes (bt_offset (bu_out s ! j)) (bt_size (bu_out s ! j)) = {})
    \<and> (\<forall>tok \<in> set (bu_out s). \<exists>b. unat (bt_block tok) < length (bp_blocks (pool_of (bu_slabs s) (bt_kind tok)))
          \<and> bp_blocks (pool_of (bu_slabs s) (bt_kind tok)) ! unat (bt_block tok) = Some b
          \<and> bt_memory tok = bb_memory b \<and> bb_memory b \<in> bu_mem s \<and> bt_mapped tok = bb_base b + bt_offset tok
          \<and> unat (bt_offset tok) + unat (bt_size tok) \<le> unat (bp_size (bb_plan b)))
    \<and> (\<forall>h \<in> bu_mem s. \<exists>!kind. \<exists>b. Some b \<in> set (bp_blocks (pool_of (bu_slabs s) kind)) \<and> bb_memory b = h)
    \<and> (\<forall>kind. bp_violations (pool_of (bu_slabs s) kind) = 0)"
proof -
  from buffer_reachable_inv [OF assms] obtain up ga where inv: "buffer_inv s up ga" by blast
  note i = inv [unfolded buffer_inv_def]
  have mem: "m = {bb_memory b | b. Some b \<in> set (bp_blocks p)}" if "pool_ok p out m" for p out m
    using that slots_memories [of "blocks_of p" "map core_tok out" m] memories_blocks [of p] by (simp add: pool_ok_def)
  have mu: "up = {bb_memory b | b. Some b \<in> set (bp_blocks (bs_upload (bu_slabs s)))}"
    and mg: "ga = {bb_memory b | b. Some b \<in> set (bp_blocks (bs_gather (bu_slabs s)))}"
    by (rule mem [of _ "tokens_of UploadKind (bu_out s)"], simp add: i)
      (rule mem [of _ "tokens_of DeviceLocalKind (bu_out s)"], simp add: i)
  have owner: "\<exists>!kind. \<exists>b. Some b \<in> set (bp_blocks (pool_of (bu_slabs s) kind)) \<and> bb_memory b = h" if h: "h \<in> bu_mem s" for h
  proof -
    have ku: "(\<exists>b. Some b \<in> set (bp_blocks (bs_upload (bu_slabs s))) \<and> bb_memory b = h) \<longleftrightarrow> h \<in> up" by (subst mu) blast
    have kg: "(\<exists>b. Some b \<in> set (bp_blocks (bs_gather (bu_slabs s))) \<and> bb_memory b = h) \<longleftrightarrow> h \<in> ga" by (subst mg) blast
    have k: "(\<exists>b. Some b \<in> set (bp_blocks (pool_of (bu_slabs s) kind)) \<and> bb_memory b = h)
        \<longleftrightarrow> (case kind of UploadKind \<Rightarrow> h \<in> up | DeviceLocalKind \<Rightarrow> h \<in> ga)" for kind
      using ku kg by (cases kind) (simp_all add: pool_of_def)
    have "(h \<in> up) \<noteq> (h \<in> ga)" using h i by blast
    then show ?thesis
      unfolding k
      by (intro ex1I [of _ "if h \<in> up then UploadKind else DeviceLocalKind"]) (auto split: slab_kind.splits)
  qed
  have inside: "\<exists>b. unat (bt_block tok) < length (bp_blocks (pool_of (bu_slabs s) (bt_kind tok)))
      \<and> bp_blocks (pool_of (bu_slabs s) (bt_kind tok)) ! unat (bt_block tok) = Some b
      \<and> bt_memory tok = bb_memory b \<and> bb_memory b \<in> bu_mem s \<and> bt_mapped tok = bb_base b + bt_offset tok
      \<and> unat (bt_offset tok) + unat (bt_size tok) \<le> unat (bp_size (bb_plan b))" if "tok \<in> set (bu_out s)" for tok
    using pool_ok_token [of "bs_upload (bu_slabs s)" _ up tok] pool_ok_token [of "bs_gather (bu_slabs s)" _ ga tok] i that
    by (cases "bt_kind tok") (fastforce simp: pool_of_def)+
  have "bp_violations (pool_of (bu_slabs s) kind) = 0" for kind
    using i by (cases kind) (simp_all add: pool_of_def pool_ok_def)
  then show ?thesis using inside owner
    by (intro conjI allI impI ballI) (use buffer_inv_apart [OF inv] in blast)+
qed

text \<open>Giving a token back twice is harmless. In every reachable state the release of an
  outstanding token succeeds: the preflight admits it and its bytes are released once. Releasing the same
  token again changes neither pool and frees nothing.\<close>

theorem buffer_double_release:
  assumes "buffer_reachable s" and "tok \<in> set (bu_out s)" and "slabs_release (bu_slabs s) tok = (slabs, evs)"
  shows "buffer_release_preflight (pool_of (bu_slabs s) (bt_kind tok)) (bt_block tok) (bt_offset tok) (bt_size tok) = Inr True
    \<and> bp_sub_frees (pool_of slabs (bt_kind tok)) = bp_sub_frees (pool_of (bu_slabs s) (bt_kind tok)) + 1
    \<and> slabs_release slabs tok = (slabs, [])"
proof -
  let ?p = "pool_of (bu_slabs s) (bt_kind tok)"
  from buffer_reachable_inv [OF assms(1)] obtain up ga where i: "buffer_inv s up ga" by blast
  have "\<exists>m. pool_ok ?p (tokens_of (bt_kind tok) (bu_out s)) m"
    using i by (cases "bt_kind tok") (auto simp: buffer_inv_def pool_of_def)
  then obtain m where ok: "pool_ok ?p (tokens_of (bt_kind tok) (bu_out s)) m" by blast
  have t: "tok \<in> set (tokens_of (bt_kind tok) (bu_out s))" using assms(2) by simp
  obtain p where p: "buffer_release ?p tok = (p, evs)" and slabs: "pool_of slabs (bt_kind tok) = p"
      "slabs = (case bt_kind tok of UploadKind \<Rightarrow> (bu_slabs s)\<lparr>bs_upload := p\<rparr> | DeviceLocalKind \<Rightarrow> (bu_slabs s)\<lparr>bs_gather := p\<rparr>)"
    using assms(3) by (cases "bt_kind tok") (auto simp: slabs_release_def pool_of_def split: prod.splits)
  have pre: "buffer_release_preflight ?p (bt_block tok) (bt_offset tok) (bt_size tok) = Inr True"
    and frees: "bp_sub_frees p = bp_sub_frees ?p + 1"
    by (rule buffer_release_cases [OF ok t p]; auto split: if_splits)+
  have "buffer_release p tok = (p, [])" by (rule buffer_release_twice [OF ok t p])
  then have "slabs_release slabs tok = (slabs, [])"
    using slabs by (cases "bt_kind tok") (simp_all add: slabs_release_def pool_of_def)
  then show ?thesis using pre frees slabs(1) by simp
qed

section \<open>An example run\<close>

text \<open>One staging buffer and one gather buffer from fresh pools.\<close>

abbreviation example_breq :: memory_requirements where
  "example_breq \<equiv> \<lparr>rq_size = 0x1000, rq_alignment = 0x40, rq_type_bits = 3\<rparr>"

definition example_upload_tok :: buffer_token where
  "example_upload_tok = \<lparr>bt_block = 0, bt_offset = 0, bt_size = 0x1000, bt_kind = UploadKind, bt_memory = 7, bt_mapped = 0x50000\<rparr>"

definition example_gather_tok :: buffer_token where
  "example_gather_tok = \<lparr>bt_block = 0, bt_offset = 0, bt_size = 0x1000, bt_kind = DeviceLocalKind, bt_memory = 8, bt_mapped = 0\<rparr>"

lemmas acquire_simps = slabs_acquire_def buffer_acquire_def buffer_slabs_new_def buffer_pool_new_def buffer_new_block_def
  maps_blocks_def carve_def carve_ranges.simps plan_new_def align_up_def checked_add_def checked_sub_def buffer_insert_block_def
  BUFFER_SLAB_SIZE_def BUFFER_SMALL_CLASS_MAX_def BUFFER_SMALL_SLAB_SIZE_def push_bit_eq_mult max_def word_le_nat_alt Let_def

definition example_slabs :: "buffer_slabs" where
  "example_slabs = fst (snd (slabs_acquire
     (fst (snd (slabs_acquire buffer_slabs_new UploadKind (\<lambda>_ _ _. Some 1) (Inr 7) (Inr 0x50000) example_breq)))
     DeviceLocalKind (\<lambda>_ _ _. Some 2) (Inr 8) (Inl 0) example_breq))"

lemma example_first:
  "slabs_acquire buffer_slabs_new UploadKind (\<lambda>_ _ _. Some 1) (Inr 7) (Inr 0x50000) example_breq
     = (Inr example_upload_tok,
        fst (snd (slabs_acquire buffer_slabs_new UploadKind (\<lambda>_ _ _. Some 1) (Inr 7) (Inr 0x50000) example_breq)),
        [VkAllocate 7 BUFFER_SMALL_SLAB_SIZE])"
  by (simp add: acquire_simps example_upload_tok_def)

lemma example_gather:
  "slabs_acquire (fst (snd (slabs_acquire buffer_slabs_new UploadKind (\<lambda>_ _ _. Some 1) (Inr 7) (Inr 0x50000) example_breq)))
     DeviceLocalKind (\<lambda>_ _ _. Some 2) (Inr 8) (Inl 0) example_breq
     = (Inr example_gather_tok, example_slabs, [VkAllocate 8 BUFFER_SMALL_SLAB_SIZE])"
  by (simp add: acquire_simps example_gather_tok_def example_slabs_def)

definition example_buffers :: buffer_state where
  "example_buffers = \<lparr>bu_slabs = example_slabs, bu_out = [example_gather_tok, example_upload_tok], bu_mem = {8, 7}\<rparr>"

lemma example_buffers_reachable: "buffer_reachable example_buffers"
proof -
  let ?s0 = "\<lparr>bu_slabs = buffer_slabs_new, bu_out = [], bu_mem = {}\<rparr>"
  let ?b = "fst (snd (slabs_acquire buffer_slabs_new UploadKind (\<lambda>_ _ _. Some 1) (Inr 7) (Inr 0x50000) example_breq))"
  let ?s1 = "\<lparr>bu_slabs = ?b, bu_out = [example_upload_tok], bu_mem = {7}\<rparr>"
  have "slabs_acquire (bu_slabs ?s0) UploadKind (\<lambda>_ _ _. Some 1) (Inr 7) (Inr 0x50000) example_breq
      = (Inr example_upload_tok, ?b, [VkAllocate 7 BUFFER_SMALL_SLAB_SIZE])" using example_first by simp
  from buffer_step_acquire [OF _ _ this] have "buffer_step ?s0 ?s1"
    by (simp add: pool_of_def buffer_slabs_new_def [THEN arg_cong, of bs_upload] buffer_pool_new_def)
  then have s1: "buffer_reachable ?s1" by (rule buffer_next [OF buffer_start])
  have "bp_blocks (bs_gather ?b) = []" by (simp add: acquire_simps)
  moreover have "slabs_acquire (bu_slabs ?s1) DeviceLocalKind (\<lambda>_ _ _. Some 2) (Inr 8) (Inl 0) example_breq
      = (Inr example_gather_tok, example_slabs, [VkAllocate 8 BUFFER_SMALL_SLAB_SIZE])" using example_gather by simp
  note buffer_step_acquire [OF _ _ this]
  ultimately have "buffer_step ?s1 example_buffers" by (simp add: pool_of_def example_buffers_def)
  then show ?thesis by (rule buffer_next [OF s1])
qed

theorem buffer_slabs_no_alias_witness:
  "bt_mapped example_upload_tok = 0x50000 \<and> bp_violations (pool_of example_slabs UploadKind) = 0
   \<and> (\<exists>!kind. \<exists>b. Some b \<in> set (bp_blocks (pool_of example_slabs kind)) \<and> bb_memory b = 8)"
  using buffer_slabs_no_alias [OF example_buffers_reachable] by (simp add: example_buffers_def example_upload_tok_def)

theorem buffer_double_release_witness:
  "slabs_release (fst (slabs_release example_slabs example_upload_tok)) example_upload_tok
     = (fst (slabs_release example_slabs example_upload_tok), [])"
proof -
  obtain p e where r: "slabs_release example_slabs example_upload_tok = (p, e)" by fastforce
  then show ?thesis
    using buffer_double_release [OF example_buffers_reachable, of example_upload_tok p e]
    by (simp add: example_buffers_def)
qed

end
