(* ===== verification/WireFields.thy ===== *)
theory WireFields
  imports OpStream
begin

text \<open>
  Fields of the wire structs. A struct of crates/reims-vgpu-wire is \<open>repr(C)\<close> over the align-1
  little-endian scalars of le.rs, so a field is the bytes at the sum of the sizes before it. The lemmas
  read back a struct laid out as bytes, and put the bytes of a struct back together from its fields.
\<close>

section \<open>Reading a field\<close>

text \<open>The scalars \<open>U16le\<close>, \<open>U32le\<close>, \<open>U64le\<close>; the bit pattern of an \<open>F32le\<close> or \<open>F64le\<close> is the
  word of its bytes, and a plain byte has no order.\<close>

definition u8_at :: "u8 list \<Rightarrow> nat \<Rightarrow> u8" where
  "u8_at v off = v ! off"

definition u16_at :: "u8 list \<Rightarrow> nat \<Rightarrow> u16" where
  "u16_at v off = le_word (take 2 (drop off v))"

definition u32_at :: "u8 list \<Rightarrow> nat \<Rightarrow> u32" where
  "u32_at v off = le_word (take 4 (drop off v))"

definition u64_at :: "u8 list \<Rightarrow> nat \<Rightarrow> u64" where
  "u64_at v off = le_word (take 8 (drop off v))"

text \<open>\<open>map_err\<close> of a result.\<close>

primrec map_err :: "('e \<Rightarrow> 'f) \<Rightarrow> ('e, 'a) outcome \<Rightarrow> ('f, 'a) outcome" where
  "map_err f (Ok x) = Ok x"
| "map_err f (Err e) = Err (f e)"
| "map_err f Panic = Panic"

lemma map_err_eq [simp]:
  "map_err f m = Ok x \<longleftrightarrow> m = Ok x" "map_err f m = Panic \<longleftrightarrow> m = Panic"
  by (cases m; simp)+

lemma map_err_Err: "map_err f m = Err e \<longleftrightarrow> (\<exists>d. m = Err d \<and> e = f d)"
  by (cases m) auto

section \<open>Laying out and reading back\<close>

definition le16 :: "u16 \<Rightarrow> u8 list" where "le16 x = nat_to_le 2 (unat x)"
definition le32 :: "u32 \<Rightarrow> u8 list" where "le32 x = nat_to_le 4 (unat x)"
definition le64 :: "u64 \<Rightarrow> u8 list" where "le64 x = nat_to_le 8 (unat x)"

named_theorems layout_simps \<open>reading the fields of a struct laid out as bytes\<close>

lemma length_le [simp]: "length (le16 x) = 2" "length (le32 y) = 4" "length (le64 z) = 8"
  by (simp_all add: le16_def le32_def le64_def)

lemma le_word_le [layout_simps]: "le_word (le16 x) = x" "le_word (le32 y) = y" "le_word (le64 z) = z"
  by (simp_all add: le16_def le32_def le64_def)

lemma field_here [layout_simps]:
  "u16_at (le16 x @ r) 0 = x" "u32_at (le32 y @ r) 0 = y" "u64_at (le64 z @ r) 0 = z" "u8_at (b # r) 0 = b"
  "u16_at (le16 x) 0 = x" "u32_at (le32 y) 0 = y" "u64_at (le64 z) 0 = z"
  by (simp_all add: u8_at_def u16_at_def u32_at_def u64_at_def layout_simps)

lemma field_next [layout_simps]:
  "length p \<le> off \<Longrightarrow> u16_at (p @ r) off = u16_at r (off - length p)"
  "length p \<le> off \<Longrightarrow> u32_at (p @ r) off = u32_at r (off - length p)"
  "length p \<le> off \<Longrightarrow> u64_at (p @ r) off = u64_at r (off - length p)"
  "length p \<le> off \<Longrightarrow> u8_at (p @ r) off = u8_at r (off - length p)"
  by (simp_all add: u8_at_def u16_at_def u32_at_def u64_at_def nth_append)

lemma field_after [layout_simps]:
  "u16_at (drop n p) off = u16_at p (n + off)" "u32_at (drop n p) off = u32_at p (n + off)"
  "u64_at (drop n p) off = u64_at p (n + off)"
  by (simp_all add: u16_at_def u32_at_def u64_at_def add.commute)

lemma field_in_take:
  "off + 2 \<le> n \<Longrightarrow> u16_at (take n p) off = u16_at p off"
  "off + 4 \<le> n \<Longrightarrow> u32_at (take n p) off = u32_at p off"
  "off + 8 \<le> n \<Longrightarrow> u64_at (take n p) off = u64_at p off"
  "off < n \<Longrightarrow> u8_at (take n p) off = u8_at p off"
  by (simp_all add: u8_at_def u16_at_def u32_at_def u64_at_def drop_take min_absorb1)

section \<open>Putting the bytes back together\<close>

lemma nat_to_le_word: "length bs = LENGTH('a) div 8 \<Longrightarrow> 8 dvd LENGTH('a) \<Longrightarrow>
    nat_to_le (length bs) (unat (le_word bs :: 'a::len word)) = bs"
proof -
  assume "length bs = LENGTH('a) div 8" "8 dvd LENGTH('a)"
  then have n: "LENGTH('a) = 8 * length bs" by auto
  have "(256::nat) ^ length bs = 2 ^ LENGTH('a)" by (simp add: n power_mult)
  then have "unat (le_word bs :: 'a word) = le_nat bs"
    using le_nat_bound [of bs] by (simp add: le_word_def unat_of_nat_small)
  moreover have "nat_to_le (length bs) (le_nat bs) = bs" by (rule nat_to_le_le_nat)
  ultimately show ?thesis by simp
qed

lemma le_field:
  "off + 2 \<le> length p \<Longrightarrow> le16 (u16_at p off) = take 2 (drop off p)"
  "off + 4 \<le> length p \<Longrightarrow> le32 (u32_at p off) = take 4 (drop off p)"
  "off + 8 \<le> length p \<Longrightarrow> le64 (u64_at p off) = take 8 (drop off p)"
proof -
  have len: "off + k \<le> length p \<Longrightarrow> length (take k (drop off p)) = k" for k by simp
  show "off + 2 \<le> length p \<Longrightarrow> le16 (u16_at p off) = take 2 (drop off p)"
    using nat_to_le_word [of "take 2 (drop off p)", where 'a = 16] len [of 2]
    by (simp only: le16_def u16_at_def) simp
  show "off + 4 \<le> length p \<Longrightarrow> le32 (u32_at p off) = take 4 (drop off p)"
    using nat_to_le_word [of "take 4 (drop off p)", where 'a = 32] len [of 4]
    by (simp only: le32_def u32_at_def) simp
  show "off + 8 \<le> length p \<Longrightarrow> le64 (u64_at p off) = take 8 (drop off p)"
    using nat_to_le_word [of "take 8 (drop off p)", where 'a = 64] len [of 8]
    by (simp only: le64_def u64_at_def) simp
qed

lemma join_fields: "m = n + k \<Longrightarrow> take k (drop n p) @ drop m p = drop n p"
  by (metis add.commute append_take_drop_id drop_drop)

lemma join_byte: "n < length p \<Longrightarrow> m = n + 1 \<Longrightarrow> u8_at p n # drop m p = drop n p"
  by (simp add: u8_at_def Cons_nth_drop_Suc)

lemma last_byte: "length p = n + 1 \<Longrightarrow> [u8_at p n] = drop n p"
  using join_byte [of n p "n + 1"] by simp

lemmas join_simps = le_field join_fields join_byte last_byte append_take_drop_id


section \<open>Framed records\<close>

lemma take_drop_field: "n + k \<le> length p \<Longrightarrow> take k (drop n p) = take k (drop n (take (n + k) p))"
  by (simp add: drop_take)

text \<open>A record views exactly when the buffer starts with its header and the payload the header counts.\<close>

definition framed :: "op \<Rightarrow> bool" where
  "framed op \<longleftrightarrow> unat (oh_length (op_head op)) = 8 + length (op_payload op)"

lemma op_at_framed:
  "op_at bs off = Ok op \<longleftrightarrow> framed op \<and> op_offset op = off
     \<and> (\<exists>rest. bs = le32 (oh_opcode (op_head op)) @ le32 (oh_length (op_head op)) @ op_payload op @ rest)"
proof
  assume ok: "op_at bs off = Ok op"
  let ?n = "frame_len bs 4"
  from ok have len: "8 \<le> length bs" "8 \<le> ?n" "?n \<le> length bs"
    and op: "op = \<lparr>op_head = \<lparr>oh_opcode = le_word (take 4 bs), oh_length = of_nat ?n\<rparr>,
                op_payload = drop 8 (take ?n bs), op_offset = off\<rparr>"
    by (auto simp: op_at_cases Let_def split: if_splits)
  have l: "(of_nat ?n :: u32) = u32_at bs 4" and n: "unat (of_nat ?n :: u32) = ?n"
    using frame_len_unat(1) [of 4 bs] len by (simp_all add: u32_at_def frame_len_def le_word_def)
  have "le32 (u32_at bs 0) @ le32 (u32_at bs 4) @ drop 8 (take ?n bs) @ drop ?n bs = bs"
  proof -
    have "drop 8 (take ?n bs) @ drop ?n bs = drop 8 bs"
      using len by (simp add: drop_take join_fields [of _ 8 "?n - 8"])
    then show ?thesis using len by (simp add: join_simps)
  qed
  then show "framed op \<and> op_offset op = off \<and> (\<exists>rest. bs = le32 (oh_opcode (op_head op)) @ le32 (oh_length (op_head op)) @ op_payload op @ rest)"
    using op len n l by (auto simp: framed_def u32_at_def min_def intro!: exI [of _ "drop ?n bs"])
next
  assume h: "framed op \<and> op_offset op = off
     \<and> (\<exists>rest. bs = le32 (oh_opcode (op_head op)) @ le32 (oh_length (op_head op)) @ op_payload op @ rest)"
  then obtain rest where bs: "bs = le32 (oh_opcode (op_head op)) @ le32 (oh_length (op_head op)) @ op_payload op @ rest"
    and fr: "unat (oh_length (op_head op)) = 8 + length (op_payload op)" and off: "op_offset op = off"
    by (auto simp: framed_def)
  have "frame_len bs 4 = unat (u32_at bs 4)" using bs frame_len_unat(1) [of 4 bs] by (simp add: u32_at_def)
  also have "u32_at bs 4 = oh_length (op_head op)" by (simp add: bs layout_simps)
  finally have n: "frame_len bs 4 = 8 + length (op_payload op)" using fr by simp
  have "(le_word (take 4 bs) :: u32) = oh_opcode (op_head op)" by (simp add: bs layout_simps)
  moreover have "(of_nat (8 + length (op_payload op)) :: u32) = oh_length (op_head op)"
    unfolding fr [symmetric] by simp
  ultimately show "op_at bs off = Ok op"
    using off n bs by (cases op; cases "op_head op") (simp add: op_at_cases Let_def)
qed

lemma op_at_no_panic: "op_at bs off \<noteq> Panic"
  by (simp add: op_at_cases Let_def)

text \<open>An arm of a decoder for a record of one fixed length: the exact length, the view of the payload,
  and what the arm stores.\<close>

definition fixed_arm ::
  "u32 \<Rightarrow> (op \<Rightarrow> (wire_error, 's) outcome) \<Rightarrow> ('s \<Rightarrow> 'c \<Rightarrow> 'c) \<Rightarrow> 'e \<Rightarrow> op \<Rightarrow> 'c \<Rightarrow> ('e, 'c) outcome" where
  "fixed_arm total_len parse fill short op out =
     (if unat (oh_length (op_head op)) \<noteq> unat total_len then Err short
      else obind (map_err (\<lambda>_. short) (parse op)) (\<lambda>s. Ok (fill s out)))"

text \<open>What a wire struct's reader promises: on the struct's size of bytes it gives the struct exactly
  when they are its fields laid out in order.\<close>

locale wire_struct =
  fixes read :: "u8 list \<Rightarrow> 's" and bytes :: "'s \<Rightarrow> u8 list" and sz :: nat
  assumes read_iff: "length v = sz \<Longrightarrow> read v = s \<longleftrightarrow> v = bytes s"
    and bytes_length: "length (bytes s) = sz"
begin

lemma view_exact:
  "obind (view sz p) (\<lambda>v. Ok (read v)) = Ok s \<longleftrightarrow> (\<exists>pad. p = bytes s @ pad)"
proof (cases "length p < sz")
  case True
  then show ?thesis using bytes_length [of s] by (auto simp: view_def)
next
  case False
  then have "obind (view sz p) (\<lambda>v. Ok (read v)) = Ok s \<longleftrightarrow> take sz p = bytes s"
    using read_iff [of "take sz p"] by (simp add: view_def)
  also have "\<dots> \<longleftrightarrow> (\<exists>pad. p = bytes s @ pad)"
  proof
    assume "take sz p = bytes s"
    then have "p = bytes s @ drop sz p" by (metis append_take_drop_id)
    then show "\<exists>pad. p = bytes s @ pad" ..
  qed (auto simp: bytes_length)
  finally show ?thesis .
qed

text \<open>The arm accepts a framed record exactly when its payload is a struct laid out and the bytes the
  length leaves over, and never panics.\<close>

lemma fixed_arm_exact:
  assumes "framed op" and "unat total_len = 8 + sz + k" and "parse op = obind (view sz (op_payload op)) (\<lambda>v. Ok (read v))"
  shows "fixed_arm total_len parse fill short op out = Ok c
    \<longleftrightarrow> (\<exists>s pad. op_payload op = bytes s @ pad \<and> length pad = k \<and> c = fill s out)"
  using assms(1,2) view_exact [of "op_payload op"] bytes_length
  by (auto simp: fixed_arm_def framed_def obind_eq_Ok assms(3))

lemma fixed_arm_no_panic:
  assumes "parse op = obind (view sz (op_payload op)) (\<lambda>v. Ok (read v))"
  shows "fixed_arm total_len parse fill short op out \<noteq> Panic" "fixed_arm total_len parse fill short op out = Err e \<Longrightarrow> e = short"
  by (auto simp: fixed_arm_def assms obind_eq_Panic obind_eq_Err view_def split: if_splits)

end

end
