(* ===== verification/BlitWire.thy ===== *)
theory BlitWire
  imports WireFields
begin

text \<open>
  The blit encoder's records, crates/reims-vgpu-wire/src/ops/blit.rs: the opcodes and record lengths,
  and each payload struct with its reader. A struct's layout lemma says that reading the bytes of its
  size gives the struct exactly when they are its fields in order.
\<close>

section \<open>Opcodes and lengths\<close>

named_theorems blit_opcodes \<open>the opcodes of the blit encoder and the lengths of its records\<close>

definition BLIT_OPCODE_GENERATE_MIPMAPS :: u32 where "BLIT_OPCODE_GENERATE_MIPMAPS = 0x133"
definition BLIT_OPCODE_OPTIMIZE_FOR_CPU :: u32 where "BLIT_OPCODE_OPTIMIZE_FOR_CPU = 0x134"
definition BLIT_OPCODE_OPTIMIZE_FOR_GPU :: u32 where "BLIT_OPCODE_OPTIMIZE_FOR_GPU = 0x135"
definition BLIT_OPCODE_SYNCHRONIZE_RESOURCE :: u32 where "BLIT_OPCODE_SYNCHRONIZE_RESOURCE = 0x13a"
definition BLIT_OPCODE_UPDATE_FENCE :: u32 where "BLIT_OPCODE_UPDATE_FENCE = 0x13c"
definition BLIT_OPCODE_WAIT_FOR_FENCE :: u32 where "BLIT_OPCODE_WAIT_FOR_FENCE = 0x13d"
definition BLIT_OPCODE_INVALIDATE_COMPRESSED_TEXTURE :: u32 where "BLIT_OPCODE_INVALIDATE_COMPRESSED_TEXTURE = 0x142"
definition BLIT_OPCODE_OPTIMIZE_FOR_CPU_SLICE_LEVEL :: u32 where "BLIT_OPCODE_OPTIMIZE_FOR_CPU_SLICE_LEVEL = 0x136"
definition BLIT_OPCODE_OPTIMIZE_FOR_GPU_SLICE_LEVEL :: u32 where "BLIT_OPCODE_OPTIMIZE_FOR_GPU_SLICE_LEVEL = 0x137"
definition BLIT_OPCODE_SYNCHRONIZE_TEXTURE :: u32 where "BLIT_OPCODE_SYNCHRONIZE_TEXTURE = 0x13b"
definition BLIT_OPCODE_INVALIDATE_COMPRESSED_TEXTURE_SLICE_LEVEL :: u32 where "BLIT_OPCODE_INVALIDATE_COMPRESSED_TEXTURE_SLICE_LEVEL = 0x143"
definition BLIT_OPCODE_OPTIMIZE_ICB :: u32 where "BLIT_OPCODE_OPTIMIZE_ICB = 0x138"
definition BLIT_OPCODE_RESET_ICB :: u32 where "BLIT_OPCODE_RESET_ICB = 0x139"
definition BLIT_OPCODE_COPY_ICB :: u32 where "BLIT_OPCODE_COPY_ICB = 0x131"
definition BLIT_OPCODE_FILL_BUFFER :: u32 where "BLIT_OPCODE_FILL_BUFFER = 0x132"
definition BLIT_OPCODE_COPY_BUFFER_TO_BUFFER :: u32 where "BLIT_OPCODE_COPY_BUFFER_TO_BUFFER = 0x12d"
definition BLIT_OPCODE_COPY_TEXTURE_SLICES :: u32 where "BLIT_OPCODE_COPY_TEXTURE_SLICES = 0x13e"
definition BLIT_OPCODE_COPY_TEXTURE_REGION :: u32 where "BLIT_OPCODE_COPY_TEXTURE_REGION = 0x12f"
definition BLIT_OPCODE_COPY_TEXTURE_REGION_OPTIONS :: u32 where "BLIT_OPCODE_COPY_TEXTURE_REGION_OPTIONS = 0x130"
definition BLIT_OPCODE_COPY_BUFFER_TO_TEXTURE :: u32 where "BLIT_OPCODE_COPY_BUFFER_TO_TEXTURE = 0x12c"
definition BLIT_OPCODE_COPY_TEXTURE_TO_BUFFER :: u32 where "BLIT_OPCODE_COPY_TEXTURE_TO_BUFFER = 0x12e"
definition BLIT_OPCODE_FILL_BUFFER_PATTERN4 :: u32 where "BLIT_OPCODE_FILL_BUFFER_PATTERN4 = 0x13f"
definition BLIT_OPCODE_FILL_TEXTURE_COLOR :: u32 where "BLIT_OPCODE_FILL_TEXTURE_COLOR = 0x141"
definition BLIT_OPCODE_FILL_TEXTURE_BYTES :: u32 where "BLIT_OPCODE_FILL_TEXTURE_BYTES = 0x140"
definition REF_TOTAL_LEN :: u32 where "REF_TOTAL_LEN = 12"
definition REF_SLICE_LEVEL_TOTAL_LEN :: u32 where "REF_SLICE_LEVEL_TOTAL_LEN = 16"
definition ICB_RANGE_TOTAL_LEN :: u32 where "ICB_RANGE_TOTAL_LEN = 28"
definition COPY_ICB_TOTAL_LEN :: u32 where "COPY_ICB_TOTAL_LEN = 40"
definition FILL_BUFFER_TOTAL_LEN :: u32 where "FILL_BUFFER_TOTAL_LEN = 32"
definition COPY_BUFFER_TO_BUFFER_TOTAL_LEN :: u32 where "COPY_BUFFER_TO_BUFFER_TOTAL_LEN = 40"
definition COPY_TEXTURE_SLICES_TOTAL_LEN :: u32 where "COPY_TEXTURE_SLICES_TOTAL_LEN = 28"
definition COPY_TEXTURE_REGION_TOTAL_LEN :: u32 where "COPY_TEXTURE_REGION_TOTAL_LEN = 96"
definition COPY_TEXTURE_REGION_OPTIONS_TOTAL_LEN :: u32 where "COPY_TEXTURE_REGION_OPTIONS_TOTAL_LEN = 100"
definition COPY_BUFFER_TO_TEXTURE_TOTAL_LEN :: u32 where "COPY_BUFFER_TO_TEXTURE_TOTAL_LEN = 96"
definition COPY_TEXTURE_TO_BUFFER_TOTAL_LEN :: u32 where "COPY_TEXTURE_TO_BUFFER_TOTAL_LEN = 96"
definition FILL_BUFFER_PATTERN4_TOTAL_LEN :: u32 where "FILL_BUFFER_PATTERN4_TOTAL_LEN = 32"
definition FILL_TEXTURE_COLOR_TOTAL_LEN :: u32 where "FILL_TEXTURE_COLOR_TOTAL_LEN = 100"
definition FILL_TEXTURE_BYTES_TOTAL_LEN :: u32 where "FILL_TEXTURE_BYTES_TOTAL_LEN = 84"

lemmas [blit_opcodes] = BLIT_OPCODE_GENERATE_MIPMAPS_def BLIT_OPCODE_OPTIMIZE_FOR_CPU_def
  BLIT_OPCODE_OPTIMIZE_FOR_GPU_def BLIT_OPCODE_SYNCHRONIZE_RESOURCE_def BLIT_OPCODE_UPDATE_FENCE_def
  BLIT_OPCODE_WAIT_FOR_FENCE_def BLIT_OPCODE_INVALIDATE_COMPRESSED_TEXTURE_def
  BLIT_OPCODE_OPTIMIZE_FOR_CPU_SLICE_LEVEL_def BLIT_OPCODE_OPTIMIZE_FOR_GPU_SLICE_LEVEL_def
  BLIT_OPCODE_SYNCHRONIZE_TEXTURE_def BLIT_OPCODE_INVALIDATE_COMPRESSED_TEXTURE_SLICE_LEVEL_def
  BLIT_OPCODE_OPTIMIZE_ICB_def BLIT_OPCODE_RESET_ICB_def BLIT_OPCODE_COPY_ICB_def BLIT_OPCODE_FILL_BUFFER_def
  BLIT_OPCODE_COPY_BUFFER_TO_BUFFER_def BLIT_OPCODE_COPY_TEXTURE_SLICES_def
  BLIT_OPCODE_COPY_TEXTURE_REGION_def BLIT_OPCODE_COPY_TEXTURE_REGION_OPTIONS_def
  BLIT_OPCODE_COPY_BUFFER_TO_TEXTURE_def BLIT_OPCODE_COPY_TEXTURE_TO_BUFFER_def
  BLIT_OPCODE_FILL_BUFFER_PATTERN4_def BLIT_OPCODE_FILL_TEXTURE_COLOR_def BLIT_OPCODE_FILL_TEXTURE_BYTES_def
  REF_TOTAL_LEN_def REF_SLICE_LEVEL_TOTAL_LEN_def ICB_RANGE_TOTAL_LEN_def COPY_ICB_TOTAL_LEN_def
  FILL_BUFFER_TOTAL_LEN_def COPY_BUFFER_TO_BUFFER_TOTAL_LEN_def COPY_TEXTURE_SLICES_TOTAL_LEN_def
  COPY_TEXTURE_REGION_TOTAL_LEN_def COPY_TEXTURE_REGION_OPTIONS_TOTAL_LEN_def
  COPY_BUFFER_TO_TEXTURE_TOTAL_LEN_def COPY_TEXTURE_TO_BUFFER_TOTAL_LEN_def FILL_BUFFER_PATTERN4_TOTAL_LEN_def
  FILL_TEXTURE_COLOR_TOTAL_LEN_def FILL_TEXTURE_BYTES_TOTAL_LEN_def

text \<open>The opcodes that share a payload shape.\<close>

definition is_ref :: "u32 \<Rightarrow> bool" where
  "is_ref opcode \<longleftrightarrow> opcode \<in> {BLIT_OPCODE_GENERATE_MIPMAPS, BLIT_OPCODE_OPTIMIZE_FOR_CPU, BLIT_OPCODE_OPTIMIZE_FOR_GPU,
     BLIT_OPCODE_SYNCHRONIZE_RESOURCE, BLIT_OPCODE_UPDATE_FENCE, BLIT_OPCODE_WAIT_FOR_FENCE, BLIT_OPCODE_INVALIDATE_COMPRESSED_TEXTURE}"

definition is_ref_slice_level :: "u32 \<Rightarrow> bool" where
  "is_ref_slice_level opcode \<longleftrightarrow> opcode \<in> {BLIT_OPCODE_OPTIMIZE_FOR_CPU_SLICE_LEVEL, BLIT_OPCODE_OPTIMIZE_FOR_GPU_SLICE_LEVEL,
     BLIT_OPCODE_SYNCHRONIZE_TEXTURE, BLIT_OPCODE_INVALIDATE_COMPRESSED_TEXTURE_SLICE_LEVEL}"

definition is_icb_range :: "u32 \<Rightarrow> bool" where
  "is_icb_range opcode \<longleftrightarrow> opcode \<in> {BLIT_OPCODE_OPTIMIZE_ICB, BLIT_OPCODE_RESET_ICB}"

section \<open>Payloads\<close>

record blit_ref =
  rf_object_ref :: u32

definition read_blit_ref :: "u8 list \<Rightarrow> blit_ref" where
  "read_blit_ref v =
     \<lparr>rf_object_ref = u32_at v 0\<rparr>"

definition object_ref :: "op \<Rightarrow> (wire_error, blit_ref) outcome" where
  "object_ref op = obind (view 4 (op_payload op)) (\<lambda>v. Ok (read_blit_ref v))"

record ref_slice_level =
  rsl_texture_ref :: u32
  rsl_slice :: u16
  rsl_level :: u16

definition read_ref_slice_level :: "u8 list \<Rightarrow> ref_slice_level" where
  "read_ref_slice_level v =
     \<lparr>rsl_texture_ref = u32_at v 0, rsl_slice = u16_at v 4, rsl_level = u16_at v 6\<rparr>"

definition ref_slice_level_view :: "op \<Rightarrow> (wire_error, ref_slice_level) outcome" where
  "ref_slice_level_view op = obind (view 8 (op_payload op)) (\<lambda>v. Ok (read_ref_slice_level v))"

record icb_range =
  icr_icb_ref :: u32
  icr_range_location :: u64
  icr_range_length :: u64

definition read_icb_range :: "u8 list \<Rightarrow> icb_range" where
  "read_icb_range v =
     \<lparr>icr_icb_ref = u32_at v 0, icr_range_location = u64_at v 4, icr_range_length = u64_at v 12\<rparr>"

definition icb_range_view :: "op \<Rightarrow> (wire_error, icb_range) outcome" where
  "icb_range_view op = obind (view 20 (op_payload op)) (\<lambda>v. Ok (read_icb_range v))"

record copy_icb =
  cic_source_ref :: u32
  cic_dest_ref :: u32
  cic_range_location :: u64
  cic_range_length :: u64
  cic_dest_index :: u64

definition read_copy_icb :: "u8 list \<Rightarrow> copy_icb" where
  "read_copy_icb v =
     \<lparr>cic_source_ref = u32_at v 0, cic_dest_ref = u32_at v 4, cic_range_location = u64_at v 8,
      cic_range_length = u64_at v 16, cic_dest_index = u64_at v 24\<rparr>"

definition copy_icb_view :: "op \<Rightarrow> (wire_error, copy_icb) outcome" where
  "copy_icb_view op = obind (view 32 (op_payload op)) (\<lambda>v. Ok (read_copy_icb v))"

record fill_buffer =
  fb_buffer_ref :: u32
  fb_range_location :: u64
  fb_range_length :: u64
  fb_value :: u8

definition read_fill_buffer :: "u8 list \<Rightarrow> fill_buffer" where
  "read_fill_buffer v =
     \<lparr>fb_buffer_ref = u32_at v 0, fb_range_location = u64_at v 4, fb_range_length = u64_at v 12,
      fb_value = u8_at v 20\<rparr>"

definition fill_buffer_view :: "op \<Rightarrow> (wire_error, fill_buffer) outcome" where
  "fill_buffer_view op = obind (view 21 (op_payload op)) (\<lambda>v. Ok (read_fill_buffer v))"

record buffer_to_buffer =
  b2b_source_ref :: u32
  b2b_dest_ref :: u32
  b2b_source_offset :: u64
  b2b_dest_offset :: u64
  b2b_size :: u64

definition read_buffer_to_buffer :: "u8 list \<Rightarrow> buffer_to_buffer" where
  "read_buffer_to_buffer v =
     \<lparr>b2b_source_ref = u32_at v 0, b2b_dest_ref = u32_at v 4, b2b_source_offset = u64_at v 8,
      b2b_dest_offset = u64_at v 16, b2b_size = u64_at v 24\<rparr>"

definition copy_buffer_to_buffer :: "op \<Rightarrow> (wire_error, buffer_to_buffer) outcome" where
  "copy_buffer_to_buffer op = obind (view 32 (op_payload op)) (\<lambda>v. Ok (read_buffer_to_buffer v))"

record copy_texture_slices =
  cts_source_ref :: u32
  cts_dest_ref :: u32
  cts_source_slice :: u16
  cts_source_level :: u16
  cts_dest_slice :: u16
  cts_dest_level :: u16
  cts_slice_count :: u16
  cts_level_count :: u16

definition read_copy_texture_slices :: "u8 list \<Rightarrow> copy_texture_slices" where
  "read_copy_texture_slices v =
     \<lparr>cts_source_ref = u32_at v 0, cts_dest_ref = u32_at v 4, cts_source_slice = u16_at v 8,
      cts_source_level = u16_at v 10, cts_dest_slice = u16_at v 12, cts_dest_level = u16_at v 14,
      cts_slice_count = u16_at v 16, cts_level_count = u16_at v 18\<rparr>"

definition copy_texture_slices_view :: "op \<Rightarrow> (wire_error, copy_texture_slices) outcome" where
  "copy_texture_slices_view op = obind (view 20 (op_payload op)) (\<lambda>v. Ok (read_copy_texture_slices v))"

record copy_texture_region =
  ctr_source_ref :: u32
  ctr_dest_ref :: u32
  ctr_source_origin_x :: u64
  ctr_source_origin_y :: u64
  ctr_source_origin_z :: u64
  ctr_size_width :: u64
  ctr_size_height :: u64
  ctr_size_depth :: u64
  ctr_dest_origin_x :: u64
  ctr_dest_origin_y :: u64
  ctr_dest_origin_z :: u64
  ctr_source_slice :: u16
  ctr_source_level :: u16
  ctr_dest_slice :: u16
  ctr_dest_level :: u16

definition read_copy_texture_region :: "u8 list \<Rightarrow> copy_texture_region" where
  "read_copy_texture_region v =
     \<lparr>ctr_source_ref = u32_at v 0, ctr_dest_ref = u32_at v 4, ctr_source_origin_x = u64_at v 8,
      ctr_source_origin_y = u64_at v 16, ctr_source_origin_z = u64_at v 24, ctr_size_width = u64_at v 32,
      ctr_size_height = u64_at v 40, ctr_size_depth = u64_at v 48, ctr_dest_origin_x = u64_at v 56,
      ctr_dest_origin_y = u64_at v 64, ctr_dest_origin_z = u64_at v 72, ctr_source_slice = u16_at v 80,
      ctr_source_level = u16_at v 82, ctr_dest_slice = u16_at v 84, ctr_dest_level = u16_at v 86\<rparr>"

definition copy_texture_region_view :: "op \<Rightarrow> (wire_error, copy_texture_region) outcome" where
  "copy_texture_region_view op = obind (view 88 (op_payload op)) (\<lambda>v. Ok (read_copy_texture_region v))"

record copy_texture_region_options =
  cro_region :: copy_texture_region
  cro_options :: u32

definition read_copy_texture_region_options :: "u8 list \<Rightarrow> copy_texture_region_options" where
  "read_copy_texture_region_options v = \<lparr>cro_region = read_copy_texture_region (take 88 v), cro_options = u32_at v 88\<rparr>"

definition copy_texture_region_options_view :: "op \<Rightarrow> (wire_error, copy_texture_region_options) outcome" where
  "copy_texture_region_options_view op =
     obind (view 92 (op_payload op)) (\<lambda>v. Ok (read_copy_texture_region_options v))"

record copy_buffer_to_texture =
  cbt_source_ref :: u32
  cbt_dest_ref :: u32
  cbt_source_offset :: u64
  cbt_source_bytes_per_row :: u64
  cbt_source_bytes_per_image :: u64
  cbt_size_width :: u64
  cbt_size_height :: u64
  cbt_size_depth :: u64
  cbt_dest_origin_x :: u64
  cbt_dest_origin_y :: u64
  cbt_dest_origin_z :: u64
  cbt_dest_slice :: u16
  cbt_dest_level :: u16
  cbt_options :: u32

definition read_copy_buffer_to_texture :: "u8 list \<Rightarrow> copy_buffer_to_texture" where
  "read_copy_buffer_to_texture v =
     \<lparr>cbt_source_ref = u32_at v 0, cbt_dest_ref = u32_at v 4, cbt_source_offset = u64_at v 8,
      cbt_source_bytes_per_row = u64_at v 16, cbt_source_bytes_per_image = u64_at v 24,
      cbt_size_width = u64_at v 32, cbt_size_height = u64_at v 40, cbt_size_depth = u64_at v 48,
      cbt_dest_origin_x = u64_at v 56, cbt_dest_origin_y = u64_at v 64, cbt_dest_origin_z = u64_at v 72,
      cbt_dest_slice = u16_at v 80, cbt_dest_level = u16_at v 82, cbt_options = u32_at v 84\<rparr>"

definition copy_buffer_to_texture_view :: "op \<Rightarrow> (wire_error, copy_buffer_to_texture) outcome" where
  "copy_buffer_to_texture_view op = obind (view 88 (op_payload op)) (\<lambda>v. Ok (read_copy_buffer_to_texture v))"

record copy_texture_to_buffer =
  ctb_source_ref :: u32
  ctb_dest_ref :: u32
  ctb_source_origin_x :: u64
  ctb_source_origin_y :: u64
  ctb_source_origin_z :: u64
  ctb_size_width :: u64
  ctb_size_height :: u64
  ctb_size_depth :: u64
  ctb_dest_offset :: u64
  ctb_dest_bytes_per_row :: u64
  ctb_dest_bytes_per_image :: u64
  ctb_source_slice :: u16
  ctb_source_level :: u16
  ctb_options :: u16

definition read_copy_texture_to_buffer :: "u8 list \<Rightarrow> copy_texture_to_buffer" where
  "read_copy_texture_to_buffer v =
     \<lparr>ctb_source_ref = u32_at v 0, ctb_dest_ref = u32_at v 4, ctb_source_origin_x = u64_at v 8,
      ctb_source_origin_y = u64_at v 16, ctb_source_origin_z = u64_at v 24, ctb_size_width = u64_at v 32,
      ctb_size_height = u64_at v 40, ctb_size_depth = u64_at v 48, ctb_dest_offset = u64_at v 56,
      ctb_dest_bytes_per_row = u64_at v 64, ctb_dest_bytes_per_image = u64_at v 72,
      ctb_source_slice = u16_at v 80, ctb_source_level = u16_at v 82, ctb_options = u16_at v 84\<rparr>"

definition copy_texture_to_buffer_view :: "op \<Rightarrow> (wire_error, copy_texture_to_buffer) outcome" where
  "copy_texture_to_buffer_view op = obind (view 86 (op_payload op)) (\<lambda>v. Ok (read_copy_texture_to_buffer v))"

record fill_buffer_pattern4 =
  fp4_buffer_ref :: u32
  fp4_range_location :: u64
  fp4_range_length :: u64
  fp4_pattern :: u32

definition read_fill_buffer_pattern4 :: "u8 list \<Rightarrow> fill_buffer_pattern4" where
  "read_fill_buffer_pattern4 v =
     \<lparr>fp4_buffer_ref = u32_at v 0, fp4_range_location = u64_at v 4, fp4_range_length = u64_at v 12,
      fp4_pattern = u32_at v 20\<rparr>"

definition fill_buffer_pattern4_view :: "op \<Rightarrow> (wire_error, fill_buffer_pattern4) outcome" where
  "fill_buffer_pattern4_view op = obind (view 24 (op_payload op)) (\<lambda>v. Ok (read_fill_buffer_pattern4 v))"

record fill_texture_color =
  ftc_texture_ref :: u32
  ftc_level :: u16
  ftc_slice :: u16
  ftc_size_width :: u64
  ftc_size_height :: u64
  ftc_size_depth :: u64
  ftc_origin_x :: u64
  ftc_origin_y :: u64
  ftc_origin_z :: u64
  ftc_color_red :: u64
  ftc_color_green :: u64
  ftc_color_blue :: u64
  ftc_color_alpha :: u64
  ftc_pixel_format :: u16

definition read_fill_texture_color :: "u8 list \<Rightarrow> fill_texture_color" where
  "read_fill_texture_color v =
     \<lparr>ftc_texture_ref = u32_at v 0, ftc_level = u16_at v 4, ftc_slice = u16_at v 6,
      ftc_size_width = u64_at v 8, ftc_size_height = u64_at v 16, ftc_size_depth = u64_at v 24,
      ftc_origin_x = u64_at v 32, ftc_origin_y = u64_at v 40, ftc_origin_z = u64_at v 48,
      ftc_color_red = u64_at v 56, ftc_color_green = u64_at v 64, ftc_color_blue = u64_at v 72,
      ftc_color_alpha = u64_at v 80, ftc_pixel_format = u16_at v 88\<rparr>"

definition fill_texture_color_view :: "op \<Rightarrow> (wire_error, fill_texture_color) outcome" where
  "fill_texture_color_view op = obind (view 90 (op_payload op)) (\<lambda>v. Ok (read_fill_texture_color v))"

record fill_texture_bytes =
  ftb_texture_ref :: u32
  ftb_level :: u16
  ftb_slice :: u16
  ftb_size_width :: u64
  ftb_size_height :: u64
  ftb_size_depth :: u64
  ftb_origin_x :: u64
  ftb_origin_y :: u64
  ftb_origin_z :: u64
  ftb_bytes_ref :: u32
  ftb_bytes_offset :: u64
  ftb_length :: u64

definition read_fill_texture_bytes :: "u8 list \<Rightarrow> fill_texture_bytes" where
  "read_fill_texture_bytes v =
     \<lparr>ftb_texture_ref = u32_at v 0, ftb_level = u16_at v 4, ftb_slice = u16_at v 6,
      ftb_size_width = u64_at v 8, ftb_size_height = u64_at v 16, ftb_size_depth = u64_at v 24,
      ftb_origin_x = u64_at v 32, ftb_origin_y = u64_at v 40, ftb_origin_z = u64_at v 48,
      ftb_bytes_ref = u32_at v 56, ftb_bytes_offset = u64_at v 60, ftb_length = u64_at v 68\<rparr>"

definition fill_texture_bytes_view :: "op \<Rightarrow> (wire_error, fill_texture_bytes) outcome" where
  "fill_texture_bytes_view op = obind (view 76 (op_payload op)) (\<lambda>v. Ok (read_fill_texture_bytes v))"

section \<open>Layouts\<close>

text \<open>The bytes of each payload and what its reader makes of them.\<close>

named_theorems layout \<open>each struct is read exactly from its fields in order\<close>

definition blit_ref_bytes :: "blit_ref \<Rightarrow> u8 list" where
  "blit_ref_bytes s =
     le32 (rf_object_ref s)"

lemma blit_ref_layout [layout]:
  "length v = 4 \<Longrightarrow> read_blit_ref v = s \<longleftrightarrow> v = blit_ref_bytes s" "length (blit_ref_bytes s) = 4"
proof -
  have "read_blit_ref (blit_ref_bytes s) = s"
    by (cases s) (simp add: read_blit_ref_def blit_ref_bytes_def layout_simps)
  moreover have "blit_ref_bytes (read_blit_ref v) = v" if "length v = 4"
    using that by (simp add: read_blit_ref_def blit_ref_bytes_def join_simps)
  ultimately show "length v = 4 \<Longrightarrow> read_blit_ref v = s \<longleftrightarrow> v = blit_ref_bytes s" by metis
qed (simp add: blit_ref_bytes_def)

definition ref_slice_level_bytes :: "ref_slice_level \<Rightarrow> u8 list" where
  "ref_slice_level_bytes s =
     le32 (rsl_texture_ref s) @ le16 (rsl_slice s) @ le16 (rsl_level s)"

lemma ref_slice_level_layout [layout]:
  "length v = 8 \<Longrightarrow> read_ref_slice_level v = s \<longleftrightarrow> v = ref_slice_level_bytes s" "length (ref_slice_level_bytes s) = 8"
proof -
  have "read_ref_slice_level (ref_slice_level_bytes s) = s"
    by (cases s) (simp add: read_ref_slice_level_def ref_slice_level_bytes_def layout_simps)
  moreover have "ref_slice_level_bytes (read_ref_slice_level v) = v" if "length v = 8"
    using that by (simp add: read_ref_slice_level_def ref_slice_level_bytes_def join_simps)
  ultimately show "length v = 8 \<Longrightarrow> read_ref_slice_level v = s \<longleftrightarrow> v = ref_slice_level_bytes s" by metis
qed (simp add: ref_slice_level_bytes_def)

definition icb_range_bytes :: "icb_range \<Rightarrow> u8 list" where
  "icb_range_bytes s =
     le32 (icr_icb_ref s) @ le64 (icr_range_location s) @ le64 (icr_range_length s)"

lemma icb_range_layout [layout]:
  "length v = 20 \<Longrightarrow> read_icb_range v = s \<longleftrightarrow> v = icb_range_bytes s" "length (icb_range_bytes s) = 20"
proof -
  have "read_icb_range (icb_range_bytes s) = s"
    by (cases s) (simp add: read_icb_range_def icb_range_bytes_def layout_simps)
  moreover have "icb_range_bytes (read_icb_range v) = v" if "length v = 20"
    using that by (simp add: read_icb_range_def icb_range_bytes_def join_simps)
  ultimately show "length v = 20 \<Longrightarrow> read_icb_range v = s \<longleftrightarrow> v = icb_range_bytes s" by metis
qed (simp add: icb_range_bytes_def)

definition copy_icb_bytes :: "copy_icb \<Rightarrow> u8 list" where
  "copy_icb_bytes s =
     le32 (cic_source_ref s) @ le32 (cic_dest_ref s) @ le64 (cic_range_location s) @
     le64 (cic_range_length s) @ le64 (cic_dest_index s)"

lemma copy_icb_layout [layout]:
  "length v = 32 \<Longrightarrow> read_copy_icb v = s \<longleftrightarrow> v = copy_icb_bytes s" "length (copy_icb_bytes s) = 32"
proof -
  have "read_copy_icb (copy_icb_bytes s) = s"
    by (cases s) (simp add: read_copy_icb_def copy_icb_bytes_def layout_simps)
  moreover have "copy_icb_bytes (read_copy_icb v) = v" if "length v = 32"
    using that by (simp add: read_copy_icb_def copy_icb_bytes_def join_simps)
  ultimately show "length v = 32 \<Longrightarrow> read_copy_icb v = s \<longleftrightarrow> v = copy_icb_bytes s" by metis
qed (simp add: copy_icb_bytes_def)

definition fill_buffer_bytes :: "fill_buffer \<Rightarrow> u8 list" where
  "fill_buffer_bytes s =
     le32 (fb_buffer_ref s) @ le64 (fb_range_location s) @ le64 (fb_range_length s) @ [fb_value s]"

lemma fill_buffer_layout [layout]:
  "length v = 21 \<Longrightarrow> read_fill_buffer v = s \<longleftrightarrow> v = fill_buffer_bytes s" "length (fill_buffer_bytes s) = 21"
proof -
  have "read_fill_buffer (fill_buffer_bytes s) = s"
    by (cases s) (simp add: read_fill_buffer_def fill_buffer_bytes_def layout_simps)
  moreover have "fill_buffer_bytes (read_fill_buffer v) = v" if "length v = 21"
    using that by (simp add: read_fill_buffer_def fill_buffer_bytes_def join_simps)
  ultimately show "length v = 21 \<Longrightarrow> read_fill_buffer v = s \<longleftrightarrow> v = fill_buffer_bytes s" by metis
qed (simp add: fill_buffer_bytes_def)

definition buffer_to_buffer_bytes :: "buffer_to_buffer \<Rightarrow> u8 list" where
  "buffer_to_buffer_bytes s =
     le32 (b2b_source_ref s) @ le32 (b2b_dest_ref s) @ le64 (b2b_source_offset s) @
     le64 (b2b_dest_offset s) @ le64 (b2b_size s)"

lemma buffer_to_buffer_layout [layout]:
  "length v = 32 \<Longrightarrow> read_buffer_to_buffer v = s \<longleftrightarrow> v = buffer_to_buffer_bytes s" "length (buffer_to_buffer_bytes s) = 32"
proof -
  have "read_buffer_to_buffer (buffer_to_buffer_bytes s) = s"
    by (cases s) (simp add: read_buffer_to_buffer_def buffer_to_buffer_bytes_def layout_simps)
  moreover have "buffer_to_buffer_bytes (read_buffer_to_buffer v) = v" if "length v = 32"
    using that by (simp add: read_buffer_to_buffer_def buffer_to_buffer_bytes_def join_simps)
  ultimately show "length v = 32 \<Longrightarrow> read_buffer_to_buffer v = s \<longleftrightarrow> v = buffer_to_buffer_bytes s" by metis
qed (simp add: buffer_to_buffer_bytes_def)

definition copy_texture_slices_bytes :: "copy_texture_slices \<Rightarrow> u8 list" where
  "copy_texture_slices_bytes s =
     le32 (cts_source_ref s) @ le32 (cts_dest_ref s) @ le16 (cts_source_slice s) @
     le16 (cts_source_level s) @ le16 (cts_dest_slice s) @ le16 (cts_dest_level s) @
     le16 (cts_slice_count s) @ le16 (cts_level_count s)"

lemma copy_texture_slices_layout [layout]:
  "length v = 20 \<Longrightarrow> read_copy_texture_slices v = s \<longleftrightarrow> v = copy_texture_slices_bytes s" "length (copy_texture_slices_bytes s) = 20"
proof -
  have "read_copy_texture_slices (copy_texture_slices_bytes s) = s"
    by (cases s) (simp add: read_copy_texture_slices_def copy_texture_slices_bytes_def layout_simps)
  moreover have "copy_texture_slices_bytes (read_copy_texture_slices v) = v" if "length v = 20"
    using that by (simp add: read_copy_texture_slices_def copy_texture_slices_bytes_def join_simps)
  ultimately show "length v = 20 \<Longrightarrow> read_copy_texture_slices v = s \<longleftrightarrow> v = copy_texture_slices_bytes s" by metis
qed (simp add: copy_texture_slices_bytes_def)

definition copy_texture_region_bytes :: "copy_texture_region \<Rightarrow> u8 list" where
  "copy_texture_region_bytes s =
     le32 (ctr_source_ref s) @ le32 (ctr_dest_ref s) @ le64 (ctr_source_origin_x s) @
     le64 (ctr_source_origin_y s) @ le64 (ctr_source_origin_z s) @ le64 (ctr_size_width s) @
     le64 (ctr_size_height s) @ le64 (ctr_size_depth s) @ le64 (ctr_dest_origin_x s) @
     le64 (ctr_dest_origin_y s) @ le64 (ctr_dest_origin_z s) @ le16 (ctr_source_slice s) @
     le16 (ctr_source_level s) @ le16 (ctr_dest_slice s) @ le16 (ctr_dest_level s)"

lemma copy_texture_region_layout [layout]:
  "length v = 88 \<Longrightarrow> read_copy_texture_region v = s \<longleftrightarrow> v = copy_texture_region_bytes s" "length (copy_texture_region_bytes s) = 88"
proof -
  have "read_copy_texture_region (copy_texture_region_bytes s) = s"
    by (cases s) (simp add: read_copy_texture_region_def copy_texture_region_bytes_def layout_simps)
  moreover have "copy_texture_region_bytes (read_copy_texture_region v) = v" if "length v = 88"
    using that by (simp add: read_copy_texture_region_def copy_texture_region_bytes_def join_simps)
  ultimately show "length v = 88 \<Longrightarrow> read_copy_texture_region v = s \<longleftrightarrow> v = copy_texture_region_bytes s" by metis
qed (simp add: copy_texture_region_bytes_def)

definition copy_texture_region_options_bytes :: "copy_texture_region_options \<Rightarrow> u8 list" where
  "copy_texture_region_options_bytes s = copy_texture_region_bytes (cro_region s) @ le32 (cro_options s)"

lemma copy_texture_region_options_layout [layout]:
  "length v = 92 \<Longrightarrow> read_copy_texture_region_options v = s \<longleftrightarrow> v = copy_texture_region_options_bytes s"
  "length (copy_texture_region_options_bytes s) = 92"
proof -
  assume v: "length v = 92"
  then have l: "length (take 88 v) = 88" by simp
  have "read_copy_texture_region_options v = s \<longleftrightarrow> take 88 v = copy_texture_region_bytes (cro_region s) \<and> u32_at v 88 = cro_options s"
    by (cases s) (auto simp: read_copy_texture_region_options_def copy_texture_region_layout(1) [OF l])
  also have "\<dots> \<longleftrightarrow> v = copy_texture_region_options_bytes s"
  proof
    assume h: "take 88 v = copy_texture_region_bytes (cro_region s) \<and> u32_at v 88 = cro_options s"
    have "v = take 88 v @ le32 (u32_at v 88)" using v by (simp add: le_field)
    with h show "v = copy_texture_region_options_bytes s" by (simp add: copy_texture_region_options_bytes_def)
  qed (simp add: copy_texture_region_options_bytes_def copy_texture_region_layout layout_simps)
  finally show "read_copy_texture_region_options v = s \<longleftrightarrow> v = copy_texture_region_options_bytes s" .
next
  show "length (copy_texture_region_options_bytes s) = 92"
    by (simp add: copy_texture_region_options_bytes_def copy_texture_region_layout)
qed

definition copy_buffer_to_texture_bytes :: "copy_buffer_to_texture \<Rightarrow> u8 list" where
  "copy_buffer_to_texture_bytes s =
     le32 (cbt_source_ref s) @ le32 (cbt_dest_ref s) @ le64 (cbt_source_offset s) @
     le64 (cbt_source_bytes_per_row s) @ le64 (cbt_source_bytes_per_image s) @ le64 (cbt_size_width s) @
     le64 (cbt_size_height s) @ le64 (cbt_size_depth s) @ le64 (cbt_dest_origin_x s) @
     le64 (cbt_dest_origin_y s) @ le64 (cbt_dest_origin_z s) @ le16 (cbt_dest_slice s) @
     le16 (cbt_dest_level s) @ le32 (cbt_options s)"

lemma copy_buffer_to_texture_layout [layout]:
  "length v = 88 \<Longrightarrow> read_copy_buffer_to_texture v = s \<longleftrightarrow> v = copy_buffer_to_texture_bytes s" "length (copy_buffer_to_texture_bytes s) = 88"
proof -
  have "read_copy_buffer_to_texture (copy_buffer_to_texture_bytes s) = s"
    by (cases s) (simp add: read_copy_buffer_to_texture_def copy_buffer_to_texture_bytes_def layout_simps)
  moreover have "copy_buffer_to_texture_bytes (read_copy_buffer_to_texture v) = v" if "length v = 88"
    using that by (simp add: read_copy_buffer_to_texture_def copy_buffer_to_texture_bytes_def join_simps)
  ultimately show "length v = 88 \<Longrightarrow> read_copy_buffer_to_texture v = s \<longleftrightarrow> v = copy_buffer_to_texture_bytes s" by metis
qed (simp add: copy_buffer_to_texture_bytes_def)

definition copy_texture_to_buffer_bytes :: "copy_texture_to_buffer \<Rightarrow> u8 list" where
  "copy_texture_to_buffer_bytes s =
     le32 (ctb_source_ref s) @ le32 (ctb_dest_ref s) @ le64 (ctb_source_origin_x s) @
     le64 (ctb_source_origin_y s) @ le64 (ctb_source_origin_z s) @ le64 (ctb_size_width s) @
     le64 (ctb_size_height s) @ le64 (ctb_size_depth s) @ le64 (ctb_dest_offset s) @
     le64 (ctb_dest_bytes_per_row s) @ le64 (ctb_dest_bytes_per_image s) @ le16 (ctb_source_slice s) @
     le16 (ctb_source_level s) @ le16 (ctb_options s)"

lemma copy_texture_to_buffer_layout [layout]:
  "length v = 86 \<Longrightarrow> read_copy_texture_to_buffer v = s \<longleftrightarrow> v = copy_texture_to_buffer_bytes s" "length (copy_texture_to_buffer_bytes s) = 86"
proof -
  have "read_copy_texture_to_buffer (copy_texture_to_buffer_bytes s) = s"
    by (cases s) (simp add: read_copy_texture_to_buffer_def copy_texture_to_buffer_bytes_def layout_simps)
  moreover have "copy_texture_to_buffer_bytes (read_copy_texture_to_buffer v) = v" if "length v = 86"
    using that by (simp add: read_copy_texture_to_buffer_def copy_texture_to_buffer_bytes_def join_simps)
  ultimately show "length v = 86 \<Longrightarrow> read_copy_texture_to_buffer v = s \<longleftrightarrow> v = copy_texture_to_buffer_bytes s" by metis
qed (simp add: copy_texture_to_buffer_bytes_def)

definition fill_buffer_pattern4_bytes :: "fill_buffer_pattern4 \<Rightarrow> u8 list" where
  "fill_buffer_pattern4_bytes s =
     le32 (fp4_buffer_ref s) @ le64 (fp4_range_location s) @ le64 (fp4_range_length s) @
     le32 (fp4_pattern s)"

lemma fill_buffer_pattern4_layout [layout]:
  "length v = 24 \<Longrightarrow> read_fill_buffer_pattern4 v = s \<longleftrightarrow> v = fill_buffer_pattern4_bytes s" "length (fill_buffer_pattern4_bytes s) = 24"
proof -
  have "read_fill_buffer_pattern4 (fill_buffer_pattern4_bytes s) = s"
    by (cases s) (simp add: read_fill_buffer_pattern4_def fill_buffer_pattern4_bytes_def layout_simps)
  moreover have "fill_buffer_pattern4_bytes (read_fill_buffer_pattern4 v) = v" if "length v = 24"
    using that by (simp add: read_fill_buffer_pattern4_def fill_buffer_pattern4_bytes_def join_simps)
  ultimately show "length v = 24 \<Longrightarrow> read_fill_buffer_pattern4 v = s \<longleftrightarrow> v = fill_buffer_pattern4_bytes s" by metis
qed (simp add: fill_buffer_pattern4_bytes_def)

definition fill_texture_color_bytes :: "fill_texture_color \<Rightarrow> u8 list" where
  "fill_texture_color_bytes s =
     le32 (ftc_texture_ref s) @ le16 (ftc_level s) @ le16 (ftc_slice s) @ le64 (ftc_size_width s) @
     le64 (ftc_size_height s) @ le64 (ftc_size_depth s) @ le64 (ftc_origin_x s) @ le64 (ftc_origin_y s) @
     le64 (ftc_origin_z s) @ le64 (ftc_color_red s) @ le64 (ftc_color_green s) @
     le64 (ftc_color_blue s) @ le64 (ftc_color_alpha s) @ le16 (ftc_pixel_format s)"

lemma fill_texture_color_layout [layout]:
  "length v = 90 \<Longrightarrow> read_fill_texture_color v = s \<longleftrightarrow> v = fill_texture_color_bytes s" "length (fill_texture_color_bytes s) = 90"
proof -
  have "read_fill_texture_color (fill_texture_color_bytes s) = s"
    by (cases s) (simp add: read_fill_texture_color_def fill_texture_color_bytes_def layout_simps)
  moreover have "fill_texture_color_bytes (read_fill_texture_color v) = v" if "length v = 90"
    using that by (simp add: read_fill_texture_color_def fill_texture_color_bytes_def join_simps)
  ultimately show "length v = 90 \<Longrightarrow> read_fill_texture_color v = s \<longleftrightarrow> v = fill_texture_color_bytes s" by metis
qed (simp add: fill_texture_color_bytes_def)

definition fill_texture_bytes_bytes :: "fill_texture_bytes \<Rightarrow> u8 list" where
  "fill_texture_bytes_bytes s =
     le32 (ftb_texture_ref s) @ le16 (ftb_level s) @ le16 (ftb_slice s) @ le64 (ftb_size_width s) @
     le64 (ftb_size_height s) @ le64 (ftb_size_depth s) @ le64 (ftb_origin_x s) @ le64 (ftb_origin_y s) @
     le64 (ftb_origin_z s) @ le32 (ftb_bytes_ref s) @ le64 (ftb_bytes_offset s) @ le64 (ftb_length s)"

lemma fill_texture_bytes_layout [layout]:
  "length v = 76 \<Longrightarrow> read_fill_texture_bytes v = s \<longleftrightarrow> v = fill_texture_bytes_bytes s" "length (fill_texture_bytes_bytes s) = 76"
proof -
  have "read_fill_texture_bytes (fill_texture_bytes_bytes s) = s"
    by (cases s) (simp add: read_fill_texture_bytes_def fill_texture_bytes_bytes_def layout_simps)
  moreover have "fill_texture_bytes_bytes (read_fill_texture_bytes v) = v" if "length v = 76"
    using that by (simp add: read_fill_texture_bytes_def fill_texture_bytes_bytes_def join_simps)
  ultimately show "length v = 76 \<Longrightarrow> read_fill_texture_bytes v = s \<longleftrightarrow> v = fill_texture_bytes_bytes s" by metis
qed (simp add: fill_texture_bytes_bytes_def)

end
