(* ===== verification/BlitDecode.thy ===== *)
theory BlitDecode
  imports BlitWire PixelTables
begin

text \<open>
  The blit command decoder, runtime/decode/blit.rs: the command with every field of the source, what
  each arm of the decoder stores into it, the decoder and the option parser. The decoder's arms share the
  shape \<open>fixed_arm\<close>: the record's length must be the exact one, the payload is viewed, and the arm fills
  the command. The debug assertions of the views hold at every call and are left out.
\<close>

section \<open>Data\<close>

definition MTL_BLIT_OPTION_DEPTH_FROM_DEPTH_STENCIL :: u32 where "MTL_BLIT_OPTION_DEPTH_FROM_DEPTH_STENCIL = 1"
definition MTL_BLIT_OPTION_STENCIL_FROM_DEPTH_STENCIL :: u32 where "MTL_BLIT_OPTION_STENCIL_FROM_DEPTH_STENCIL = push_bit 1 1"
definition MTL_BLIT_OPTION_ROW_LINEAR_PVRTC :: u32 where "MTL_BLIT_OPTION_ROW_LINEAR_PVRTC = push_bit 2 1"

unbundle bit_operations_syntax

definition MTL_BLIT_OPTION_KNOWN_MASK :: u32 where
  "MTL_BLIT_OPTION_KNOWN_MASK = MTL_BLIT_OPTION_DEPTH_FROM_DEPTH_STENCIL
     OR MTL_BLIT_OPTION_STENCIL_FROM_DEPTH_STENCIL OR MTL_BLIT_OPTION_ROW_LINEAR_PVRTC"

datatype blit_option_error = UnknownBits | RowLinearPvrtc | ConflictingAspects

primrec blit_option_slug :: "blit_option_error \<Rightarrow> string" where
  "blit_option_slug UnknownBits = ''blit_options_unknown_bits''"
| "blit_option_slug RowLinearPvrtc = ''blit_options_row_linear_pvrtc''"
| "blit_option_slug ConflictingAspects = ''blit_options_conflicting_aspects''"

definition parse_blit_options :: "bool \<Rightarrow> u32 \<Rightarrow> blit_option_error + blit_aspect" where
  "parse_blit_options has_options options =
     (if \<not> has_options \<or> options = 0 then Inr AspectFull
      else if options AND NOT MTL_BLIT_OPTION_KNOWN_MASK \<noteq> 0 then Inl UnknownBits
      else if options AND MTL_BLIT_OPTION_ROW_LINEAR_PVRTC \<noteq> 0 then Inl RowLinearPvrtc
      else let depth = options AND MTL_BLIT_OPTION_DEPTH_FROM_DEPTH_STENCIL \<noteq> 0;
               stencil = options AND MTL_BLIT_OPTION_STENCIL_FROM_DEPTH_STENCIL \<noteq> 0
           in case (depth, stencil) of
                (True, False) \<Rightarrow> Inr AspectDepth
              | (False, True) \<Rightarrow> Inr AspectStencil
              | (False, False) \<Rightarrow> Inr AspectFull
              | (True, True) \<Rightarrow> Inl ConflictingAspects)"

datatype blit_status = BlitShort | BlitUnknownOpcode

primrec blit_refusal :: "blit_status \<Rightarrow> string option" where
  "blit_refusal BlitShort = Some ''blit_decode_short''"
| "blit_refusal BlitUnknownOpcode = Some ''blit_decode_unknown_opcode''"

datatype blit_kind =
  BlitUnknown | BlitCopy | BlitFillBuffer | BlitResource | BlitImage | BlitFence | BlitIcbRange | BlitIcbCopy
| BlitFillBufferPattern4 | BlitFillTexture | BlitInvalidateCompressedTexture

datatype blit_fill_source = FillNone | FillColor | FillBytes

datatype blit_copy_kind =
  CopyNone | BufferToTexture | BufferToBuffer | TextureToBuffer | TextureToTexture | TextureToTextureSliceLevel

datatype blit_ref_kind = RefNone | RefBuffer | RefTexture | RefResource | RefIndirectCommandBuffer

record blit_point =
  pt_x :: u64
  pt_y :: u64
  pt_z :: u64

record blit_size =
  sz_width :: u64
  sz_height :: u64
  sz_depth :: u64

record blit_command =
  bc_opcode :: u32
  bc_command_length :: u32
  bc_kind :: blit_kind
  bc_copy_kind :: blit_copy_kind
  bc_source_kind :: blit_ref_kind
  bc_destination_kind :: blit_ref_kind
  bc_source :: u32
  bc_destination :: u32
  bc_source_offset :: u64
  bc_source_bytes_per_row :: u64
  bc_source_bytes_per_image :: u64
  bc_source_origin :: blit_point
  bc_source_size :: blit_size
  bc_destination_offset :: u64
  bc_destination_bytes_per_row :: u64
  bc_destination_bytes_per_image :: u64
  bc_destination_origin :: blit_point
  bc_size :: u64
  bc_source_slice :: u16
  bc_source_level :: u16
  bc_destination_slice :: u16
  bc_destination_level :: u16
  bc_slice_count :: u16
  bc_level_count :: u16
  bc_has_options :: bool
  bc_options :: u32
  bc_resource :: u32
  bc_resource_kind :: blit_ref_kind
  bc_buffer :: u32
  bc_range_location :: u64
  bc_range_length :: u64
  bc_destination_index :: u64
  bc_fill_value :: u8
  bc_fill_pattern :: u32
  bc_texture :: u32
  bc_slice :: u16
  bc_level :: u16
  bc_fence :: u32
  bc_fill_source :: blit_fill_source
  bc_fill_origin :: blit_point
  bc_fill_size :: blit_size
  bc_fill_color_raw :: "u64 list"
  bc_fill_pixel_format :: u16
  bc_fill_bytes_ref :: u32
  bc_fill_bytes_offset :: u64
  bc_fill_bytes_length :: u64

text \<open>\<open>Command::default()\<close>.\<close>

definition blit_command_default :: blit_command where
  "blit_command_default =
     \<lparr>bc_opcode = 0,
      bc_command_length = 0,
      bc_kind = BlitUnknown,
      bc_copy_kind = CopyNone,
      bc_source_kind = RefNone,
      bc_destination_kind = RefNone,
      bc_source = 0,
      bc_destination = 0,
      bc_source_offset = 0,
      bc_source_bytes_per_row = 0,
      bc_source_bytes_per_image = 0,
      bc_source_origin = \<lparr>pt_x = 0, pt_y = 0, pt_z = 0\<rparr>,
      bc_source_size = \<lparr>sz_width = 0, sz_height = 0, sz_depth = 0\<rparr>,
      bc_destination_offset = 0,
      bc_destination_bytes_per_row = 0,
      bc_destination_bytes_per_image = 0,
      bc_destination_origin = \<lparr>pt_x = 0, pt_y = 0, pt_z = 0\<rparr>,
      bc_size = 0,
      bc_source_slice = 0,
      bc_source_level = 0,
      bc_destination_slice = 0,
      bc_destination_level = 0,
      bc_slice_count = 0,
      bc_level_count = 0,
      bc_has_options = False,
      bc_options = 0,
      bc_resource = 0,
      bc_resource_kind = RefNone,
      bc_buffer = 0,
      bc_range_location = 0,
      bc_range_length = 0,
      bc_destination_index = 0,
      bc_fill_value = 0,
      bc_fill_pattern = 0,
      bc_texture = 0,
      bc_slice = 0,
      bc_level = 0,
      bc_fence = 0,
      bc_fill_source = FillNone,
      bc_fill_origin = \<lparr>pt_x = 0, pt_y = 0, pt_z = 0\<rparr>,
      bc_fill_size = \<lparr>sz_width = 0, sz_height = 0, sz_depth = 0\<rparr>,
      bc_fill_color_raw = [0, 0, 0, 0],
      bc_fill_pixel_format = 0,
      bc_fill_bytes_ref = 0,
      bc_fill_bytes_offset = 0,
      bc_fill_bytes_length = 0\<rparr>"

section \<open>The arms\<close>

definition arm_buffer_to_texture :: "copy_buffer_to_texture \<Rightarrow> blit_command \<Rightarrow> blit_command" where
  "arm_buffer_to_texture c out =
     out\<lparr>bc_kind := BlitCopy, bc_copy_kind := BufferToTexture, bc_source_kind := RefBuffer,
         bc_destination_kind := RefTexture, bc_source := cbt_source_ref c,
         bc_destination := cbt_dest_ref c, bc_source_offset := cbt_source_offset c,
         bc_source_bytes_per_row := cbt_source_bytes_per_row c,
         bc_source_bytes_per_image := cbt_source_bytes_per_image c,
         bc_source_size := \<lparr>sz_width = cbt_size_width c, sz_height = cbt_size_height c, sz_depth = cbt_size_depth c\<rparr>,
         bc_destination_origin := \<lparr>pt_x = cbt_dest_origin_x c, pt_y = cbt_dest_origin_y c, pt_z = cbt_dest_origin_z c\<rparr>,
         bc_destination_slice := cbt_dest_slice c, bc_destination_level := cbt_dest_level c,
         bc_has_options := True, bc_options := cbt_options c\<rparr>"

definition arm_buffer_to_buffer :: "buffer_to_buffer \<Rightarrow> blit_command \<Rightarrow> blit_command" where
  "arm_buffer_to_buffer c out =
     out\<lparr>bc_kind := BlitCopy, bc_copy_kind := BufferToBuffer, bc_source_kind := RefBuffer,
         bc_destination_kind := RefBuffer, bc_source := b2b_source_ref c,
         bc_destination := b2b_dest_ref c, bc_source_offset := b2b_source_offset c,
         bc_destination_offset := b2b_dest_offset c, bc_size := b2b_size c\<rparr>"

definition arm_texture_to_buffer :: "copy_texture_to_buffer \<Rightarrow> blit_command \<Rightarrow> blit_command" where
  "arm_texture_to_buffer c out =
     out\<lparr>bc_kind := BlitCopy, bc_copy_kind := TextureToBuffer, bc_source_kind := RefTexture,
         bc_destination_kind := RefBuffer, bc_source := ctb_source_ref c,
         bc_destination := ctb_dest_ref c,
         bc_source_origin := \<lparr>pt_x = ctb_source_origin_x c, pt_y = ctb_source_origin_y c, pt_z = ctb_source_origin_z c\<rparr>,
         bc_source_size := \<lparr>sz_width = ctb_size_width c, sz_height = ctb_size_height c, sz_depth = ctb_size_depth c\<rparr>,
         bc_destination_offset := ctb_dest_offset c,
         bc_destination_bytes_per_row := ctb_dest_bytes_per_row c,
         bc_destination_bytes_per_image := ctb_dest_bytes_per_image c,
         bc_source_slice := ctb_source_slice c, bc_source_level := ctb_source_level c,
         bc_has_options := True, bc_options := ucast (ctb_options c)\<rparr>"

definition arm_texture_region :: "copy_texture_region \<Rightarrow> blit_command \<Rightarrow> blit_command" where
  "arm_texture_region c out =
     out\<lparr>bc_kind := BlitCopy, bc_copy_kind := TextureToTexture, bc_source_kind := RefTexture,
         bc_destination_kind := RefTexture, bc_source := ctr_source_ref c,
         bc_destination := ctr_dest_ref c,
         bc_source_origin := \<lparr>pt_x = ctr_source_origin_x c, pt_y = ctr_source_origin_y c, pt_z = ctr_source_origin_z c\<rparr>,
         bc_source_size := \<lparr>sz_width = ctr_size_width c, sz_height = ctr_size_height c, sz_depth = ctr_size_depth c\<rparr>,
         bc_destination_origin := \<lparr>pt_x = ctr_dest_origin_x c, pt_y = ctr_dest_origin_y c, pt_z = ctr_dest_origin_z c\<rparr>,
         bc_source_slice := ctr_source_slice c, bc_source_level := ctr_source_level c,
         bc_destination_slice := ctr_dest_slice c, bc_destination_level := ctr_dest_level c\<rparr>"

definition arm_texture_region_options :: "copy_texture_region_options \<Rightarrow> blit_command \<Rightarrow> blit_command" where
  "arm_texture_region_options c out =
     (let r = cro_region c in
     out\<lparr>bc_kind := BlitCopy,
         bc_copy_kind := TextureToTexture,
         bc_source_kind := RefTexture,
         bc_destination_kind := RefTexture,
         bc_source := ctr_source_ref r,
         bc_destination := ctr_dest_ref r,
         bc_source_origin := \<lparr>pt_x = ctr_source_origin_x r, pt_y = ctr_source_origin_y r, pt_z = ctr_source_origin_z r\<rparr>,
         bc_source_size := \<lparr>sz_width = ctr_size_width r, sz_height = ctr_size_height r, sz_depth = ctr_size_depth r\<rparr>,
         bc_destination_origin := \<lparr>pt_x = ctr_dest_origin_x r, pt_y = ctr_dest_origin_y r, pt_z = ctr_dest_origin_z r\<rparr>,
         bc_source_slice := ctr_source_slice r,
         bc_source_level := ctr_source_level r,
         bc_destination_slice := ctr_dest_slice r,
         bc_destination_level := ctr_dest_level r,
         bc_has_options := True, bc_options := cro_options c\<rparr>)"

definition arm_texture_slices :: "copy_texture_slices \<Rightarrow> blit_command \<Rightarrow> blit_command" where
  "arm_texture_slices c out =
     out\<lparr>bc_kind := BlitCopy, bc_copy_kind := TextureToTextureSliceLevel,
         bc_source_kind := RefTexture, bc_destination_kind := RefTexture,
         bc_source := cts_source_ref c, bc_destination := cts_dest_ref c,
         bc_source_slice := cts_source_slice c, bc_source_level := cts_source_level c,
         bc_destination_slice := cts_dest_slice c, bc_destination_level := cts_dest_level c,
         bc_slice_count := cts_slice_count c, bc_level_count := cts_level_count c\<rparr>"

definition arm_fill_buffer :: "fill_buffer \<Rightarrow> blit_command \<Rightarrow> blit_command" where
  "arm_fill_buffer f out =
     out\<lparr>bc_kind := BlitFillBuffer, bc_buffer := fb_buffer_ref f,
         bc_range_location := fb_range_location f, bc_range_length := fb_range_length f,
         bc_fill_value := fb_value f\<rparr>"

definition arm_texture_resource :: "blit_ref \<Rightarrow> blit_command \<Rightarrow> blit_command" where
  "arm_texture_resource r out =
     out\<lparr>bc_kind := BlitResource, bc_resource_kind := RefTexture, bc_resource := rf_object_ref r\<rparr>"

definition arm_image :: "ref_slice_level \<Rightarrow> blit_command \<Rightarrow> blit_command" where
  "arm_image r out =
     out\<lparr>bc_kind := BlitImage, bc_texture := rsl_texture_ref r, bc_slice := rsl_slice r,
         bc_level := rsl_level r\<rparr>"

definition arm_resource :: "blit_ref \<Rightarrow> blit_command \<Rightarrow> blit_command" where
  "arm_resource r out =
     out\<lparr>bc_kind := BlitResource, bc_resource_kind := RefResource, bc_resource := rf_object_ref r\<rparr>"

definition arm_fence :: "blit_ref \<Rightarrow> blit_command \<Rightarrow> blit_command" where
  "arm_fence r out =
     out\<lparr>bc_kind := BlitFence, bc_fence := rf_object_ref r\<rparr>"

definition arm_icb_range :: "icb_range \<Rightarrow> blit_command \<Rightarrow> blit_command" where
  "arm_icb_range r out =
     out\<lparr>bc_kind := BlitIcbRange, bc_resource_kind := RefIndirectCommandBuffer,
         bc_resource := icr_icb_ref r, bc_range_location := icr_range_location r,
         bc_range_length := icr_range_length r\<rparr>"

definition arm_icb_copy :: "copy_icb \<Rightarrow> blit_command \<Rightarrow> blit_command" where
  "arm_icb_copy c out =
     out\<lparr>bc_kind := BlitIcbCopy, bc_source_kind := RefIndirectCommandBuffer,
         bc_destination_kind := RefIndirectCommandBuffer, bc_source := cic_source_ref c,
         bc_destination := cic_dest_ref c, bc_range_location := cic_range_location c,
         bc_range_length := cic_range_length c, bc_destination_index := cic_dest_index c\<rparr>"

definition arm_fill_pattern4 :: "fill_buffer_pattern4 \<Rightarrow> blit_command \<Rightarrow> blit_command" where
  "arm_fill_pattern4 f out =
     out\<lparr>bc_kind := BlitFillBufferPattern4, bc_buffer := fp4_buffer_ref f,
         bc_range_location := fp4_range_location f, bc_range_length := fp4_range_length f,
         bc_fill_pattern := fp4_pattern f\<rparr>"

definition arm_fill_texture_color :: "fill_texture_color \<Rightarrow> blit_command \<Rightarrow> blit_command" where
  "arm_fill_texture_color c out =
     out\<lparr>bc_kind := BlitFillTexture, bc_fill_source := FillColor, bc_texture := ftc_texture_ref c,
         bc_level := ftc_level c, bc_slice := ftc_slice c,
         bc_fill_origin := \<lparr>pt_x = ftc_origin_x c, pt_y = ftc_origin_y c, pt_z = ftc_origin_z c\<rparr>,
         bc_fill_size := \<lparr>sz_width = ftc_size_width c, sz_height = ftc_size_height c, sz_depth = ftc_size_depth c\<rparr>,
         bc_fill_color_raw := [ftc_color_red c, ftc_color_green c, ftc_color_blue c, ftc_color_alpha c],
         bc_fill_pixel_format := ftc_pixel_format c\<rparr>"

definition arm_fill_texture_bytes :: "fill_texture_bytes \<Rightarrow> blit_command \<Rightarrow> blit_command" where
  "arm_fill_texture_bytes c out =
     out\<lparr>bc_kind := BlitFillTexture, bc_fill_source := FillBytes, bc_texture := ftb_texture_ref c,
         bc_level := ftb_level c, bc_slice := ftb_slice c,
         bc_fill_origin := \<lparr>pt_x = ftb_origin_x c, pt_y = ftb_origin_y c, pt_z = ftb_origin_z c\<rparr>,
         bc_fill_size := \<lparr>sz_width = ftb_size_width c, sz_height = ftb_size_height c, sz_depth = ftb_size_depth c\<rparr>,
         bc_fill_bytes_ref := ftb_bytes_ref c, bc_fill_bytes_offset := ftb_bytes_offset c,
         bc_fill_bytes_length := ftb_length c\<rparr>"

definition arm_invalidate :: "blit_ref \<Rightarrow> blit_command \<Rightarrow> blit_command" where
  "arm_invalidate r out =
     out\<lparr>bc_kind := BlitInvalidateCompressedTexture, bc_texture := rf_object_ref r\<rparr>"

definition arm_invalidate_slice_level :: "ref_slice_level \<Rightarrow> blit_command \<Rightarrow> blit_command" where
  "arm_invalidate_slice_level r out =
     out\<lparr>bc_kind := BlitInvalidateCompressedTexture, bc_texture := rsl_texture_ref r,
         bc_slice := rsl_slice r, bc_level := rsl_level r\<rparr>"

section \<open>The decoder\<close>

definition blit_arms :: "op \<Rightarrow> blit_command \<Rightarrow> (blit_status, blit_command) outcome" where
  "blit_arms op out =
     (let opcode = oh_opcode (op_head op) in
      if opcode = BLIT_OPCODE_COPY_BUFFER_TO_TEXTURE
      then fixed_arm COPY_BUFFER_TO_TEXTURE_TOTAL_LEN copy_buffer_to_texture_view arm_buffer_to_texture BlitShort op out
      else if opcode = BLIT_OPCODE_COPY_BUFFER_TO_BUFFER
      then fixed_arm COPY_BUFFER_TO_BUFFER_TOTAL_LEN copy_buffer_to_buffer arm_buffer_to_buffer BlitShort op out
      else if opcode = BLIT_OPCODE_COPY_TEXTURE_TO_BUFFER
      then fixed_arm COPY_TEXTURE_TO_BUFFER_TOTAL_LEN copy_texture_to_buffer_view arm_texture_to_buffer BlitShort op out
      else if opcode = BLIT_OPCODE_COPY_TEXTURE_REGION
      then fixed_arm COPY_TEXTURE_REGION_TOTAL_LEN copy_texture_region_view arm_texture_region BlitShort op out
      else if opcode = BLIT_OPCODE_COPY_TEXTURE_REGION_OPTIONS
      then fixed_arm COPY_TEXTURE_REGION_OPTIONS_TOTAL_LEN copy_texture_region_options_view arm_texture_region_options BlitShort op out
      else if opcode = BLIT_OPCODE_COPY_TEXTURE_SLICES
      then fixed_arm COPY_TEXTURE_SLICES_TOTAL_LEN copy_texture_slices_view arm_texture_slices BlitShort op out
      else if opcode = BLIT_OPCODE_FILL_BUFFER
      then fixed_arm FILL_BUFFER_TOTAL_LEN fill_buffer_view arm_fill_buffer BlitShort op out
      else if opcode = BLIT_OPCODE_GENERATE_MIPMAPS
          \<or> opcode = BLIT_OPCODE_OPTIMIZE_FOR_CPU
          \<or> opcode = BLIT_OPCODE_OPTIMIZE_FOR_GPU
      then fixed_arm REF_TOTAL_LEN object_ref arm_texture_resource BlitShort op out
      else if opcode = BLIT_OPCODE_OPTIMIZE_FOR_CPU_SLICE_LEVEL
          \<or> opcode = BLIT_OPCODE_OPTIMIZE_FOR_GPU_SLICE_LEVEL
          \<or> opcode = BLIT_OPCODE_SYNCHRONIZE_TEXTURE
      then fixed_arm REF_SLICE_LEVEL_TOTAL_LEN ref_slice_level_view arm_image BlitShort op out
      else if opcode = BLIT_OPCODE_SYNCHRONIZE_RESOURCE
      then fixed_arm REF_TOTAL_LEN object_ref arm_resource BlitShort op out
      else if opcode = BLIT_OPCODE_UPDATE_FENCE \<or> opcode = BLIT_OPCODE_WAIT_FOR_FENCE
      then fixed_arm REF_TOTAL_LEN object_ref arm_fence BlitShort op out
      else if opcode = BLIT_OPCODE_OPTIMIZE_ICB \<or> opcode = BLIT_OPCODE_RESET_ICB
      then fixed_arm ICB_RANGE_TOTAL_LEN icb_range_view arm_icb_range BlitShort op out
      else if opcode = BLIT_OPCODE_COPY_ICB
      then fixed_arm COPY_ICB_TOTAL_LEN copy_icb_view arm_icb_copy BlitShort op out
      else if opcode = BLIT_OPCODE_FILL_BUFFER_PATTERN4
      then fixed_arm FILL_BUFFER_PATTERN4_TOTAL_LEN fill_buffer_pattern4_view arm_fill_pattern4 BlitShort op out
      else if opcode = BLIT_OPCODE_FILL_TEXTURE_COLOR
      then fixed_arm FILL_TEXTURE_COLOR_TOTAL_LEN fill_texture_color_view arm_fill_texture_color BlitShort op out
      else if opcode = BLIT_OPCODE_FILL_TEXTURE_BYTES
      then fixed_arm FILL_TEXTURE_BYTES_TOTAL_LEN fill_texture_bytes_view arm_fill_texture_bytes BlitShort op out
      else if opcode = BLIT_OPCODE_INVALIDATE_COMPRESSED_TEXTURE
      then fixed_arm REF_TOTAL_LEN object_ref arm_invalidate BlitShort op out
      else if opcode = BLIT_OPCODE_INVALIDATE_COMPRESSED_TEXTURE_SLICE_LEVEL
      then fixed_arm REF_SLICE_LEVEL_TOTAL_LEN ref_slice_level_view arm_invalidate_slice_level BlitShort op out
      else Err BlitUnknownOpcode)"

definition blit_decode :: "u8 list \<Rightarrow> (blit_status, blit_command) outcome" where
  "blit_decode command =
     obind (map_err (\<lambda>_. BlitShort) (op_at command 0)) (\<lambda>op.
       blit_arms op (blit_command_default\<lparr>bc_opcode := oh_opcode (op_head op), bc_command_length := oh_length (op_head op)\<rparr>))"

end
