(* ===== verification/BlitFacts.thy ===== *)
theory BlitFacts
  imports BlitDecode
begin

text \<open>
  The blit decoder is exact: it accepts a buffer exactly when it starts with one of the encoder's records,
  laid out field by field behind its header, and the command it returns says which record it was.
\<close>

section \<open>The payload structs\<close>

lemmas view_defs = object_ref_def ref_slice_level_view_def icb_range_view_def copy_icb_view_def fill_buffer_view_def
  copy_buffer_to_buffer_def copy_texture_slices_view_def copy_texture_region_view_def copy_texture_region_options_view_def
  copy_buffer_to_texture_view_def copy_texture_to_buffer_view_def fill_buffer_pattern4_view_def
  fill_texture_color_view_def fill_texture_bytes_view_def

interpretation blit_ref_struct: wire_struct read_blit_ref blit_ref_bytes 4
  by unfold_locales (simp_all add: blit_ref_layout)

interpretation ref_slice_level_struct: wire_struct read_ref_slice_level ref_slice_level_bytes 8
  by unfold_locales (simp_all add: ref_slice_level_layout)

interpretation icb_range_struct: wire_struct read_icb_range icb_range_bytes 20
  by unfold_locales (simp_all add: icb_range_layout)

interpretation copy_icb_struct: wire_struct read_copy_icb copy_icb_bytes 32
  by unfold_locales (simp_all add: copy_icb_layout)

interpretation fill_buffer_struct: wire_struct read_fill_buffer fill_buffer_bytes 21
  by unfold_locales (simp_all add: fill_buffer_layout)

interpretation buffer_to_buffer_struct: wire_struct read_buffer_to_buffer buffer_to_buffer_bytes 32
  by unfold_locales (simp_all add: buffer_to_buffer_layout)

interpretation copy_texture_slices_struct: wire_struct read_copy_texture_slices copy_texture_slices_bytes 20
  by unfold_locales (simp_all add: copy_texture_slices_layout)

interpretation copy_texture_region_struct: wire_struct read_copy_texture_region copy_texture_region_bytes 88
  by unfold_locales (simp_all add: copy_texture_region_layout)

interpretation copy_texture_region_options_struct: wire_struct read_copy_texture_region_options copy_texture_region_options_bytes 92
  by unfold_locales (simp_all add: copy_texture_region_options_layout)

interpretation copy_buffer_to_texture_struct: wire_struct read_copy_buffer_to_texture copy_buffer_to_texture_bytes 88
  by unfold_locales (simp_all add: copy_buffer_to_texture_layout)

interpretation copy_texture_to_buffer_struct: wire_struct read_copy_texture_to_buffer copy_texture_to_buffer_bytes 86
  by unfold_locales (simp_all add: copy_texture_to_buffer_layout)

interpretation fill_buffer_pattern4_struct: wire_struct read_fill_buffer_pattern4 fill_buffer_pattern4_bytes 24
  by unfold_locales (simp_all add: fill_buffer_pattern4_layout)

interpretation fill_texture_color_struct: wire_struct read_fill_texture_color fill_texture_color_bytes 90
  by unfold_locales (simp_all add: fill_texture_color_layout)

interpretation fill_texture_bytes_struct: wire_struct read_fill_texture_bytes fill_texture_bytes_bytes 76
  by unfold_locales (simp_all add: fill_texture_bytes_layout)

section \<open>The records of the encoder\<close>

text \<open>A payload, its bytes, and how many bytes after it the encoder leaves unwritten.\<close>

datatype blit_payload =
  PRef blit_ref
| PRefSliceLevel ref_slice_level
| PIcbRange icb_range
| PCopyIcb copy_icb
| PFillBuffer fill_buffer
| PBufferToBuffer buffer_to_buffer
| PTextureSlices copy_texture_slices
| PTextureRegion copy_texture_region
| PTextureRegionOptions copy_texture_region_options
| PBufferToTexture copy_buffer_to_texture
| PTextureToBuffer copy_texture_to_buffer
| PFillPattern4 fill_buffer_pattern4
| PFillColor fill_texture_color
| PFillBytes fill_texture_bytes

primrec payload_bytes :: "blit_payload \<Rightarrow> u8 list" where
  "payload_bytes (PRef s) = blit_ref_bytes s"
| "payload_bytes (PRefSliceLevel s) = ref_slice_level_bytes s"
| "payload_bytes (PIcbRange s) = icb_range_bytes s"
| "payload_bytes (PCopyIcb s) = copy_icb_bytes s"
| "payload_bytes (PFillBuffer s) = fill_buffer_bytes s"
| "payload_bytes (PBufferToBuffer s) = buffer_to_buffer_bytes s"
| "payload_bytes (PTextureSlices s) = copy_texture_slices_bytes s"
| "payload_bytes (PTextureRegion s) = copy_texture_region_bytes s"
| "payload_bytes (PTextureRegionOptions s) = copy_texture_region_options_bytes s"
| "payload_bytes (PBufferToTexture s) = copy_buffer_to_texture_bytes s"
| "payload_bytes (PTextureToBuffer s) = copy_texture_to_buffer_bytes s"
| "payload_bytes (PFillPattern4 s) = fill_buffer_pattern4_bytes s"
| "payload_bytes (PFillColor s) = fill_texture_color_bytes s"
| "payload_bytes (PFillBytes s) = fill_texture_bytes_bytes s"

primrec unwritten :: "blit_payload \<Rightarrow> nat" where
  "unwritten (PRef s) = 0"
| "unwritten (PRefSliceLevel s) = 0"
| "unwritten (PIcbRange s) = 0"
| "unwritten (PCopyIcb s) = 0"
| "unwritten (PFillBuffer s) = 3"
| "unwritten (PBufferToBuffer s) = 0"
| "unwritten (PTextureSlices s) = 0"
| "unwritten (PTextureRegion s) = 0"
| "unwritten (PTextureRegionOptions s) = 0"
| "unwritten (PBufferToTexture s) = 0"
| "unwritten (PTextureToBuffer s) = 2"
| "unwritten (PFillPattern4 s) = 0"
| "unwritten (PFillColor s) = 2"
| "unwritten (PFillBytes s) = 0"

text \<open>Which payload an opcode carries, and what the decoder stores for it.\<close>

primrec carries :: "u32 \<Rightarrow> blit_payload \<Rightarrow> bool" where
  "carries opcode (PRef s) \<longleftrightarrow> is_ref opcode"
| "carries opcode (PRefSliceLevel s) \<longleftrightarrow> is_ref_slice_level opcode"
| "carries opcode (PIcbRange s) \<longleftrightarrow> is_icb_range opcode"
| "carries opcode (PCopyIcb s) \<longleftrightarrow> opcode = BLIT_OPCODE_COPY_ICB"
| "carries opcode (PFillBuffer s) \<longleftrightarrow> opcode = BLIT_OPCODE_FILL_BUFFER"
| "carries opcode (PBufferToBuffer s) \<longleftrightarrow> opcode = BLIT_OPCODE_COPY_BUFFER_TO_BUFFER"
| "carries opcode (PTextureSlices s) \<longleftrightarrow> opcode = BLIT_OPCODE_COPY_TEXTURE_SLICES"
| "carries opcode (PTextureRegion s) \<longleftrightarrow> opcode = BLIT_OPCODE_COPY_TEXTURE_REGION"
| "carries opcode (PTextureRegionOptions s) \<longleftrightarrow> opcode = BLIT_OPCODE_COPY_TEXTURE_REGION_OPTIONS"
| "carries opcode (PBufferToTexture s) \<longleftrightarrow> opcode = BLIT_OPCODE_COPY_BUFFER_TO_TEXTURE"
| "carries opcode (PTextureToBuffer s) \<longleftrightarrow> opcode = BLIT_OPCODE_COPY_TEXTURE_TO_BUFFER"
| "carries opcode (PFillPattern4 s) \<longleftrightarrow> opcode = BLIT_OPCODE_FILL_BUFFER_PATTERN4"
| "carries opcode (PFillColor s) \<longleftrightarrow> opcode = BLIT_OPCODE_FILL_TEXTURE_COLOR"
| "carries opcode (PFillBytes s) \<longleftrightarrow> opcode = BLIT_OPCODE_FILL_TEXTURE_BYTES"

primrec blit_fill :: "u32 \<Rightarrow> blit_payload \<Rightarrow> blit_command \<Rightarrow> blit_command" where
  "blit_fill opcode (PRef s) out =
     (if opcode = BLIT_OPCODE_SYNCHRONIZE_RESOURCE then arm_resource s out
      else if opcode = BLIT_OPCODE_UPDATE_FENCE \<or> opcode = BLIT_OPCODE_WAIT_FOR_FENCE then arm_fence s out
      else if opcode = BLIT_OPCODE_INVALIDATE_COMPRESSED_TEXTURE then arm_invalidate s out
      else arm_texture_resource s out)"
| "blit_fill opcode (PRefSliceLevel s) out =
     (if opcode = BLIT_OPCODE_INVALIDATE_COMPRESSED_TEXTURE_SLICE_LEVEL then arm_invalidate_slice_level s out
      else arm_image s out)"
| "blit_fill opcode (PIcbRange s) out = arm_icb_range s out"
| "blit_fill opcode (PCopyIcb s) out = arm_icb_copy s out"
| "blit_fill opcode (PFillBuffer s) out = arm_fill_buffer s out"
| "blit_fill opcode (PBufferToBuffer s) out = arm_buffer_to_buffer s out"
| "blit_fill opcode (PTextureSlices s) out = arm_texture_slices s out"
| "blit_fill opcode (PTextureRegion s) out = arm_texture_region s out"
| "blit_fill opcode (PTextureRegionOptions s) out = arm_texture_region_options s out"
| "blit_fill opcode (PBufferToTexture s) out = arm_buffer_to_texture s out"
| "blit_fill opcode (PTextureToBuffer s) out = arm_texture_to_buffer s out"
| "blit_fill opcode (PFillPattern4 s) out = arm_fill_pattern4 s out"
| "blit_fill opcode (PFillColor s) out = arm_fill_texture_color s out"
| "blit_fill opcode (PFillBytes s) out = arm_fill_texture_bytes s out"

text \<open>The record: the header with its opcode and total length, the payload, and what the encoder's ring
  last held in the bytes it does not write.\<close>

definition blit_encode :: "u32 \<Rightarrow> blit_payload \<Rightarrow> u8 list \<Rightarrow> u8 list" where
  "blit_encode opcode p pad =
     le32 opcode @ le32 (of_nat (8 + length (payload_bytes p) + length pad)) @ payload_bytes p @ pad"

definition blit_start :: "u32 \<Rightarrow> u32 \<Rightarrow> blit_command" where
  "blit_start opcode len = blit_command_default\<lparr>bc_opcode := opcode, bc_command_length := len\<rparr>"

definition blit_command_of :: "u32 \<Rightarrow> blit_payload \<Rightarrow> blit_command" where
  "blit_command_of opcode p =
     blit_fill opcode p (blit_start opcode (of_nat (8 + length (payload_bytes p) + unwritten p)))"

lemma payload_length: "length (payload_bytes p) + unwritten p \<le> 92"
  by (cases p) (simp_all add: layout)

section \<open>The arms\<close>

lemmas struct_exact = blit_ref_struct.fixed_arm_exact
  ref_slice_level_struct.fixed_arm_exact
  icb_range_struct.fixed_arm_exact
  copy_icb_struct.fixed_arm_exact
  fill_buffer_struct.fixed_arm_exact
  buffer_to_buffer_struct.fixed_arm_exact
  copy_texture_slices_struct.fixed_arm_exact
  copy_texture_region_struct.fixed_arm_exact
  copy_texture_region_options_struct.fixed_arm_exact
  copy_buffer_to_texture_struct.fixed_arm_exact
  copy_texture_to_buffer_struct.fixed_arm_exact
  fill_buffer_pattern4_struct.fixed_arm_exact
  fill_texture_color_struct.fixed_arm_exact
  fill_texture_bytes_struct.fixed_arm_exact

lemmas struct_no_panic = blit_ref_struct.fixed_arm_no_panic(1)
  ref_slice_level_struct.fixed_arm_no_panic(1)
  icb_range_struct.fixed_arm_no_panic(1)
  copy_icb_struct.fixed_arm_no_panic(1)
  fill_buffer_struct.fixed_arm_no_panic(1)
  buffer_to_buffer_struct.fixed_arm_no_panic(1)
  copy_texture_slices_struct.fixed_arm_no_panic(1)
  copy_texture_region_struct.fixed_arm_no_panic(1)
  copy_texture_region_options_struct.fixed_arm_no_panic(1)
  copy_buffer_to_texture_struct.fixed_arm_no_panic(1)
  copy_texture_to_buffer_struct.fixed_arm_no_panic(1)
  fill_buffer_pattern4_struct.fixed_arm_no_panic(1)
  fill_texture_color_struct.fixed_arm_no_panic(1)
  fill_texture_bytes_struct.fixed_arm_no_panic(1)

text \<open>Every arm accepts exactly the laid out payloads of its struct.\<close>

lemma blit_arm_exact:
  assumes "framed op"
  shows
    "fixed_arm REF_TOTAL_LEN object_ref f0 e op out = Ok c \<longleftrightarrow> (\<exists>s pad. op_payload op = blit_ref_bytes s @ pad \<and> length pad = 0 \<and> c = f0 s out)"
    "fixed_arm REF_SLICE_LEVEL_TOTAL_LEN ref_slice_level_view f1 e op out = Ok c \<longleftrightarrow> (\<exists>s pad. op_payload op = ref_slice_level_bytes s @ pad \<and> length pad = 0 \<and> c = f1 s out)"
    "fixed_arm ICB_RANGE_TOTAL_LEN icb_range_view f2 e op out = Ok c \<longleftrightarrow> (\<exists>s pad. op_payload op = icb_range_bytes s @ pad \<and> length pad = 0 \<and> c = f2 s out)"
    "fixed_arm COPY_ICB_TOTAL_LEN copy_icb_view f3 e op out = Ok c \<longleftrightarrow> (\<exists>s pad. op_payload op = copy_icb_bytes s @ pad \<and> length pad = 0 \<and> c = f3 s out)"
    "fixed_arm FILL_BUFFER_TOTAL_LEN fill_buffer_view f4 e op out = Ok c \<longleftrightarrow> (\<exists>s pad. op_payload op = fill_buffer_bytes s @ pad \<and> length pad = 3 \<and> c = f4 s out)"
    "fixed_arm COPY_BUFFER_TO_BUFFER_TOTAL_LEN copy_buffer_to_buffer f5 e op out = Ok c \<longleftrightarrow> (\<exists>s pad. op_payload op = buffer_to_buffer_bytes s @ pad \<and> length pad = 0 \<and> c = f5 s out)"
    "fixed_arm COPY_TEXTURE_SLICES_TOTAL_LEN copy_texture_slices_view f6 e op out = Ok c \<longleftrightarrow> (\<exists>s pad. op_payload op = copy_texture_slices_bytes s @ pad \<and> length pad = 0 \<and> c = f6 s out)"
    "fixed_arm COPY_TEXTURE_REGION_TOTAL_LEN copy_texture_region_view f7 e op out = Ok c \<longleftrightarrow> (\<exists>s pad. op_payload op = copy_texture_region_bytes s @ pad \<and> length pad = 0 \<and> c = f7 s out)"
    "fixed_arm COPY_TEXTURE_REGION_OPTIONS_TOTAL_LEN copy_texture_region_options_view f8 e op out = Ok c \<longleftrightarrow> (\<exists>s pad. op_payload op = copy_texture_region_options_bytes s @ pad \<and> length pad = 0 \<and> c = f8 s out)"
    "fixed_arm COPY_BUFFER_TO_TEXTURE_TOTAL_LEN copy_buffer_to_texture_view f9 e op out = Ok c \<longleftrightarrow> (\<exists>s pad. op_payload op = copy_buffer_to_texture_bytes s @ pad \<and> length pad = 0 \<and> c = f9 s out)"
    "fixed_arm COPY_TEXTURE_TO_BUFFER_TOTAL_LEN copy_texture_to_buffer_view f10 e op out = Ok c \<longleftrightarrow> (\<exists>s pad. op_payload op = copy_texture_to_buffer_bytes s @ pad \<and> length pad = 2 \<and> c = f10 s out)"
    "fixed_arm FILL_BUFFER_PATTERN4_TOTAL_LEN fill_buffer_pattern4_view f11 e op out = Ok c \<longleftrightarrow> (\<exists>s pad. op_payload op = fill_buffer_pattern4_bytes s @ pad \<and> length pad = 0 \<and> c = f11 s out)"
    "fixed_arm FILL_TEXTURE_COLOR_TOTAL_LEN fill_texture_color_view f12 e op out = Ok c \<longleftrightarrow> (\<exists>s pad. op_payload op = fill_texture_color_bytes s @ pad \<and> length pad = 2 \<and> c = f12 s out)"
    "fixed_arm FILL_TEXTURE_BYTES_TOTAL_LEN fill_texture_bytes_view f13 e op out = Ok c \<longleftrightarrow> (\<exists>s pad. op_payload op = fill_texture_bytes_bytes s @ pad \<and> length pad = 0 \<and> c = f13 s out)"
  by (rule struct_exact [OF assms]; simp add: blit_opcodes view_defs)+


lemma blit_arm_no_panic:
  "fixed_arm REF_TOTAL_LEN object_ref f0 e op out \<noteq> Panic"
  "fixed_arm REF_SLICE_LEVEL_TOTAL_LEN ref_slice_level_view f1 e op out \<noteq> Panic"
  "fixed_arm ICB_RANGE_TOTAL_LEN icb_range_view f2 e op out \<noteq> Panic"
  "fixed_arm COPY_ICB_TOTAL_LEN copy_icb_view f3 e op out \<noteq> Panic"
  "fixed_arm FILL_BUFFER_TOTAL_LEN fill_buffer_view f4 e op out \<noteq> Panic"
  "fixed_arm COPY_BUFFER_TO_BUFFER_TOTAL_LEN copy_buffer_to_buffer f5 e op out \<noteq> Panic"
  "fixed_arm COPY_TEXTURE_SLICES_TOTAL_LEN copy_texture_slices_view f6 e op out \<noteq> Panic"
  "fixed_arm COPY_TEXTURE_REGION_TOTAL_LEN copy_texture_region_view f7 e op out \<noteq> Panic"
  "fixed_arm COPY_TEXTURE_REGION_OPTIONS_TOTAL_LEN copy_texture_region_options_view f8 e op out \<noteq> Panic"
  "fixed_arm COPY_BUFFER_TO_TEXTURE_TOTAL_LEN copy_buffer_to_texture_view f9 e op out \<noteq> Panic"
  "fixed_arm COPY_TEXTURE_TO_BUFFER_TOTAL_LEN copy_texture_to_buffer_view f10 e op out \<noteq> Panic"
  "fixed_arm FILL_BUFFER_PATTERN4_TOTAL_LEN fill_buffer_pattern4_view f11 e op out \<noteq> Panic"
  "fixed_arm FILL_TEXTURE_COLOR_TOTAL_LEN fill_texture_color_view f12 e op out \<noteq> Panic"
  "fixed_arm FILL_TEXTURE_BYTES_TOTAL_LEN fill_texture_bytes_view f13 e op out \<noteq> Panic"
  by (rule struct_no_panic, simp add: view_defs)+


lemma ex_payload: "(\<exists>p. P p) \<longleftrightarrow>
    (\<exists>s. P (PRef s))
    \<or> (\<exists>s. P (PRefSliceLevel s))
    \<or> (\<exists>s. P (PIcbRange s))
    \<or> (\<exists>s. P (PCopyIcb s))
    \<or> (\<exists>s. P (PFillBuffer s))
    \<or> (\<exists>s. P (PBufferToBuffer s))
    \<or> (\<exists>s. P (PTextureSlices s))
    \<or> (\<exists>s. P (PTextureRegion s))
    \<or> (\<exists>s. P (PTextureRegionOptions s))
    \<or> (\<exists>s. P (PBufferToTexture s))
    \<or> (\<exists>s. P (PTextureToBuffer s))
    \<or> (\<exists>s. P (PFillPattern4 s))
    \<or> (\<exists>s. P (PFillColor s))
    \<or> (\<exists>s. P (PFillBytes s))"
  by (metis blit_payload.exhaust)

definition blit_opcode_set :: "u32 set" where
  "blit_opcode_set = {BLIT_OPCODE_GENERATE_MIPMAPS,
     BLIT_OPCODE_OPTIMIZE_FOR_CPU,
     BLIT_OPCODE_OPTIMIZE_FOR_GPU,
     BLIT_OPCODE_SYNCHRONIZE_RESOURCE,
     BLIT_OPCODE_UPDATE_FENCE,
     BLIT_OPCODE_WAIT_FOR_FENCE,
     BLIT_OPCODE_INVALIDATE_COMPRESSED_TEXTURE,
     BLIT_OPCODE_OPTIMIZE_FOR_CPU_SLICE_LEVEL,
     BLIT_OPCODE_OPTIMIZE_FOR_GPU_SLICE_LEVEL,
     BLIT_OPCODE_SYNCHRONIZE_TEXTURE,
     BLIT_OPCODE_INVALIDATE_COMPRESSED_TEXTURE_SLICE_LEVEL,
     BLIT_OPCODE_OPTIMIZE_ICB,
     BLIT_OPCODE_RESET_ICB,
     BLIT_OPCODE_COPY_ICB,
     BLIT_OPCODE_FILL_BUFFER,
     BLIT_OPCODE_COPY_BUFFER_TO_BUFFER,
     BLIT_OPCODE_COPY_TEXTURE_SLICES,
     BLIT_OPCODE_COPY_TEXTURE_REGION,
     BLIT_OPCODE_COPY_TEXTURE_REGION_OPTIONS,
     BLIT_OPCODE_COPY_BUFFER_TO_TEXTURE,
     BLIT_OPCODE_COPY_TEXTURE_TO_BUFFER,
     BLIT_OPCODE_FILL_BUFFER_PATTERN4,
     BLIT_OPCODE_FILL_TEXTURE_COLOR,
     BLIT_OPCODE_FILL_TEXTURE_BYTES}"

lemmas shape_defs = is_ref_def is_ref_slice_level_def is_icb_range_def

lemma carries_iff: "(\<exists>p. carries opcode p) \<longleftrightarrow> opcode \<in> blit_opcode_set"
  by (simp add: ex_payload blit_opcode_set_def shape_defs disj_ac)

lemma carries_one: "carries opcode p \<Longrightarrow> carries opcode q \<Longrightarrow>
    unwritten p = unwritten q \<and> length (payload_bytes p) = length (payload_bytes q)"
  by (cases p; cases q; simp add: shape_defs layout; auto simp: blit_opcodes)

text \<open>The dispatch, opcode by opcode.\<close>

lemma blit_arms_exact:
  assumes fr: "framed op"
  shows "blit_arms op out = Ok c \<longleftrightarrow>
    (\<exists>p pad. carries (oh_opcode (op_head op)) p \<and> op_payload op = payload_bytes p @ pad \<and> length pad = unwritten p
      \<and> c = blit_fill (oh_opcode (op_head op)) p out)" (is "?l \<longleftrightarrow> ?r")
proof (cases "oh_opcode (op_head op) \<in> blit_opcode_set")
  case False
  then have "blit_arms op out = Err BlitUnknownOpcode" by (simp add: blit_arms_def blit_opcode_set_def)
  moreover have "\<not> ?r" using False carries_iff by blast
  ultimately show ?thesis by simp
next
  case True
  note a = blit_arm_exact [OF fr]
  have generate_mipmaps: "?l \<longleftrightarrow> ?r" if "oh_opcode (op_head op) = BLIT_OPCODE_GENERATE_MIPMAPS"
    unfolding blit_arms_def that Let_def by (simp add: blit_opcodes ex_payload a [unfolded blit_opcodes] shape_defs)
  have optimize_for_cpu: "?l \<longleftrightarrow> ?r" if "oh_opcode (op_head op) = BLIT_OPCODE_OPTIMIZE_FOR_CPU"
    unfolding blit_arms_def that Let_def by (simp add: blit_opcodes ex_payload a [unfolded blit_opcodes] shape_defs)
  have optimize_for_gpu: "?l \<longleftrightarrow> ?r" if "oh_opcode (op_head op) = BLIT_OPCODE_OPTIMIZE_FOR_GPU"
    unfolding blit_arms_def that Let_def by (simp add: blit_opcodes ex_payload a [unfolded blit_opcodes] shape_defs)
  have synchronize_resource: "?l \<longleftrightarrow> ?r" if "oh_opcode (op_head op) = BLIT_OPCODE_SYNCHRONIZE_RESOURCE"
    unfolding blit_arms_def that Let_def by (simp add: blit_opcodes ex_payload a [unfolded blit_opcodes] shape_defs)
  have update_fence: "?l \<longleftrightarrow> ?r" if "oh_opcode (op_head op) = BLIT_OPCODE_UPDATE_FENCE"
    unfolding blit_arms_def that Let_def by (simp add: blit_opcodes ex_payload a [unfolded blit_opcodes] shape_defs)
  have wait_for_fence: "?l \<longleftrightarrow> ?r" if "oh_opcode (op_head op) = BLIT_OPCODE_WAIT_FOR_FENCE"
    unfolding blit_arms_def that Let_def by (simp add: blit_opcodes ex_payload a [unfolded blit_opcodes] shape_defs)
  have invalidate_compressed_texture: "?l \<longleftrightarrow> ?r" if "oh_opcode (op_head op) = BLIT_OPCODE_INVALIDATE_COMPRESSED_TEXTURE"
    unfolding blit_arms_def that Let_def by (simp add: blit_opcodes ex_payload a [unfolded blit_opcodes] shape_defs)
  have optimize_for_cpu_slice_level: "?l \<longleftrightarrow> ?r" if "oh_opcode (op_head op) = BLIT_OPCODE_OPTIMIZE_FOR_CPU_SLICE_LEVEL"
    unfolding blit_arms_def that Let_def by (simp add: blit_opcodes ex_payload a [unfolded blit_opcodes] shape_defs)
  have optimize_for_gpu_slice_level: "?l \<longleftrightarrow> ?r" if "oh_opcode (op_head op) = BLIT_OPCODE_OPTIMIZE_FOR_GPU_SLICE_LEVEL"
    unfolding blit_arms_def that Let_def by (simp add: blit_opcodes ex_payload a [unfolded blit_opcodes] shape_defs)
  have synchronize_texture: "?l \<longleftrightarrow> ?r" if "oh_opcode (op_head op) = BLIT_OPCODE_SYNCHRONIZE_TEXTURE"
    unfolding blit_arms_def that Let_def by (simp add: blit_opcodes ex_payload a [unfolded blit_opcodes] shape_defs)
  have invalidate_compressed_texture_slice_level: "?l \<longleftrightarrow> ?r" if "oh_opcode (op_head op) = BLIT_OPCODE_INVALIDATE_COMPRESSED_TEXTURE_SLICE_LEVEL"
    unfolding blit_arms_def that Let_def by (simp add: blit_opcodes ex_payload a [unfolded blit_opcodes] shape_defs)
  have optimize_icb: "?l \<longleftrightarrow> ?r" if "oh_opcode (op_head op) = BLIT_OPCODE_OPTIMIZE_ICB"
    unfolding blit_arms_def that Let_def by (simp add: blit_opcodes ex_payload a [unfolded blit_opcodes] shape_defs)
  have reset_icb: "?l \<longleftrightarrow> ?r" if "oh_opcode (op_head op) = BLIT_OPCODE_RESET_ICB"
    unfolding blit_arms_def that Let_def by (simp add: blit_opcodes ex_payload a [unfolded blit_opcodes] shape_defs)
  have copy_icb: "?l \<longleftrightarrow> ?r" if "oh_opcode (op_head op) = BLIT_OPCODE_COPY_ICB"
    unfolding blit_arms_def that Let_def by (simp add: blit_opcodes ex_payload a [unfolded blit_opcodes] shape_defs)
  have fill_buffer: "?l \<longleftrightarrow> ?r" if "oh_opcode (op_head op) = BLIT_OPCODE_FILL_BUFFER"
    unfolding blit_arms_def that Let_def by (simp add: blit_opcodes ex_payload a [unfolded blit_opcodes] shape_defs)
  have copy_buffer_to_buffer: "?l \<longleftrightarrow> ?r" if "oh_opcode (op_head op) = BLIT_OPCODE_COPY_BUFFER_TO_BUFFER"
    unfolding blit_arms_def that Let_def by (simp add: blit_opcodes ex_payload a [unfolded blit_opcodes] shape_defs)
  have copy_texture_slices: "?l \<longleftrightarrow> ?r" if "oh_opcode (op_head op) = BLIT_OPCODE_COPY_TEXTURE_SLICES"
    unfolding blit_arms_def that Let_def by (simp add: blit_opcodes ex_payload a [unfolded blit_opcodes] shape_defs)
  have copy_texture_region: "?l \<longleftrightarrow> ?r" if "oh_opcode (op_head op) = BLIT_OPCODE_COPY_TEXTURE_REGION"
    unfolding blit_arms_def that Let_def by (simp add: blit_opcodes ex_payload a [unfolded blit_opcodes] shape_defs)
  have copy_texture_region_options: "?l \<longleftrightarrow> ?r" if "oh_opcode (op_head op) = BLIT_OPCODE_COPY_TEXTURE_REGION_OPTIONS"
    unfolding blit_arms_def that Let_def by (simp add: blit_opcodes ex_payload a [unfolded blit_opcodes] shape_defs)
  have copy_buffer_to_texture: "?l \<longleftrightarrow> ?r" if "oh_opcode (op_head op) = BLIT_OPCODE_COPY_BUFFER_TO_TEXTURE"
    unfolding blit_arms_def that Let_def by (simp add: blit_opcodes ex_payload a [unfolded blit_opcodes] shape_defs)
  have copy_texture_to_buffer: "?l \<longleftrightarrow> ?r" if "oh_opcode (op_head op) = BLIT_OPCODE_COPY_TEXTURE_TO_BUFFER"
    unfolding blit_arms_def that Let_def by (simp add: blit_opcodes ex_payload a [unfolded blit_opcodes] shape_defs)
  have fill_buffer_pattern4: "?l \<longleftrightarrow> ?r" if "oh_opcode (op_head op) = BLIT_OPCODE_FILL_BUFFER_PATTERN4"
    unfolding blit_arms_def that Let_def by (simp add: blit_opcodes ex_payload a [unfolded blit_opcodes] shape_defs)
  have fill_texture_color: "?l \<longleftrightarrow> ?r" if "oh_opcode (op_head op) = BLIT_OPCODE_FILL_TEXTURE_COLOR"
    unfolding blit_arms_def that Let_def by (simp add: blit_opcodes ex_payload a [unfolded blit_opcodes] shape_defs)
  have fill_texture_bytes: "?l \<longleftrightarrow> ?r" if "oh_opcode (op_head op) = BLIT_OPCODE_FILL_TEXTURE_BYTES"
    unfolding blit_arms_def that Let_def by (simp add: blit_opcodes ex_payload a [unfolded blit_opcodes] shape_defs)
  from True show ?thesis
    unfolding blit_opcode_set_def insert_iff empty_iff
    by (elim disjE FalseE) (erule generate_mipmaps
      optimize_for_cpu
      optimize_for_gpu
      synchronize_resource
      update_fence
      wait_for_fence
      invalidate_compressed_texture
      optimize_for_cpu_slice_level
      optimize_for_gpu_slice_level
      synchronize_texture
      invalidate_compressed_texture_slice_level
      optimize_icb
      reset_icb
      copy_icb
      fill_buffer
      copy_buffer_to_buffer
      copy_texture_slices
      copy_texture_region
      copy_texture_region_options
      copy_buffer_to_texture
      copy_texture_to_buffer
      fill_buffer_pattern4
      fill_texture_color
      fill_texture_bytes)+
qed

lemma fixed_if:
  "(if b then fixed_arm n parse fill BlitShort op out else y) = Err BlitUnknownOpcode \<longleftrightarrow> \<not> b \<and> y = Err BlitUnknownOpcode"
  by (auto simp: fixed_arm_def obind_eq_Err map_err_Err)

lemma blit_arms_unknown:
  "blit_arms op out = Err BlitUnknownOpcode \<longleftrightarrow> oh_opcode (op_head op) \<notin> blit_opcode_set"
  unfolding blit_arms_def Let_def blit_opcode_set_def
  by (simp only: fixed_if insert_iff empty_iff de_Morgan_disj simp_thms) blast

lemma blit_arms_no_panic: "blit_arms op out \<noteq> Panic"
  by (simp add: blit_arms_def Let_def blit_arm_no_panic)

section \<open>The decoder is exact\<close>

lemma blit_encode_framed:
  assumes "length pad = unwritten p"
  shows "op_at (blit_encode opcode p pad @ rest) 0 = Ok \<lparr>op_head = \<lparr>oh_opcode = opcode,
      oh_length = of_nat (8 + length (payload_bytes p) + unwritten p)\<rparr>, op_payload = payload_bytes p @ pad, op_offset = 0\<rparr>"
proof -
  have "unat (of_nat (8 + length (payload_bytes p) + unwritten p) :: u32) = 8 + length (payload_bytes p) + unwritten p"
    using payload_length [of p] by (intro unat_of_nat_small) simp
  then show ?thesis
    using assms by (subst op_at_framed) (simp add: framed_def blit_encode_def del: of_nat_add)
qed

lemma blit_decode_iff:
  "blit_decode bs = Ok c \<longleftrightarrow>
     (\<exists>opcode p pad rest. carries opcode p \<and> length pad = unwritten p \<and> bs = blit_encode opcode p pad @ rest
        \<and> c = blit_command_of opcode p)"
proof
  assume "blit_decode bs = Ok c"
  then obtain op where op: "op_at bs 0 = Ok op"
      "blit_arms op (blit_start (oh_opcode (op_head op)) (oh_length (op_head op))) = Ok c"
    by (auto simp: blit_decode_def obind_eq_Ok blit_start_def)
  from op(1) obtain rest where fr: "framed op"
    and bs: "bs = le32 (oh_opcode (op_head op)) @ le32 (oh_length (op_head op)) @ op_payload op @ rest"
    by (auto simp: op_at_framed)
  from op(2) obtain p pad where p: "carries (oh_opcode (op_head op)) p" "op_payload op = payload_bytes p @ pad"
      "length pad = unwritten p"
    and c: "c = blit_fill (oh_opcode (op_head op)) p (blit_start (oh_opcode (op_head op)) (oh_length (op_head op)))"
    by (auto simp: blit_arms_exact [OF fr])
  have len: "(of_nat (8 + length (payload_bytes p) + unwritten p) :: u32) = oh_length (op_head op)"
  proof -
    have "8 + length (payload_bytes p) + unwritten p = unat (oh_length (op_head op))"
      using fr p(2,3) by (simp add: framed_def)
    then show ?thesis by (simp only:) simp
  qed
  then have "bs = blit_encode (oh_opcode (op_head op)) p pad @ rest"
    using bs p(2,3) by (simp add: blit_encode_def)
  moreover have "c = blit_command_of (oh_opcode (op_head op)) p" using c len by (simp add: blit_command_of_def)
  ultimately show "\<exists>opcode p pad rest. carries opcode p \<and> length pad = unwritten p \<and> bs = blit_encode opcode p pad @ rest
      \<and> c = blit_command_of opcode p" using p(1,3) by blast
next
  assume "\<exists>opcode p pad rest. carries opcode p \<and> length pad = unwritten p \<and> bs = blit_encode opcode p pad @ rest
      \<and> c = blit_command_of opcode p"
  then obtain opcode p pad rest where p: "carries opcode p" "length pad = unwritten p"
    and bs: "bs = blit_encode opcode p pad @ rest" and c: "c = blit_command_of opcode p" by blast
  let ?op = "\<lparr>op_head = \<lparr>oh_opcode = opcode, oh_length = of_nat (8 + length (payload_bytes p) + unwritten p)\<rparr>,
      op_payload = payload_bytes p @ pad, op_offset = 0\<rparr>"
  have op: "op_at bs 0 = Ok ?op" unfolding bs by (rule blit_encode_framed [OF p(2)])
  then have "framed ?op" by (simp add: op_at_framed)
  from blit_arms_exact [OF this] p
  have "blit_arms ?op (blit_start opcode (oh_length (op_head ?op))) = Ok c"
    unfolding c blit_command_of_def by auto
  then show "blit_decode bs = Ok c" using op by (simp add: blit_decode_def blit_start_def)
qed

text \<open>The command says which record it came from.\<close>

lemmas arm_defs = arm_buffer_to_texture_def arm_buffer_to_buffer_def arm_texture_to_buffer_def arm_texture_region_def
  arm_texture_region_options_def arm_texture_slices_def arm_fill_buffer_def arm_texture_resource_def arm_image_def
  arm_resource_def arm_fence_def arm_icb_range_def arm_icb_copy_def arm_fill_pattern4_def arm_fill_texture_color_def
  arm_fill_texture_bytes_def arm_invalidate_def arm_invalidate_slice_level_def

lemma blit_fill_opcode: "bc_opcode (blit_fill opcode p out) = bc_opcode out"
  by (cases p) (simp_all add: arm_defs Let_def)

text \<open>The payload read back from the fields of the command.\<close>

definition blit_recover :: "blit_command \<Rightarrow> blit_payload" where
  "blit_recover c =
     (let o1 = bc_source_origin c; sz = bc_source_size c; o2 = bc_destination_origin c;
          fo = bc_fill_origin c; fs = bc_fill_size c;
          region = \<lparr>ctr_source_ref = bc_source c, ctr_dest_ref = bc_destination c,
            ctr_source_origin_x = pt_x o1, ctr_source_origin_y = pt_y o1, ctr_source_origin_z = pt_z o1,
            ctr_size_width = sz_width sz, ctr_size_height = sz_height sz, ctr_size_depth = sz_depth sz,
            ctr_dest_origin_x = pt_x o2, ctr_dest_origin_y = pt_y o2, ctr_dest_origin_z = pt_z o2,
            ctr_source_slice = bc_source_slice c, ctr_source_level = bc_source_level c,
            ctr_dest_slice = bc_destination_slice c, ctr_dest_level = bc_destination_level c\<rparr>
      in case bc_kind c of
           BlitResource \<Rightarrow> PRef \<lparr>rf_object_ref = bc_resource c\<rparr>
         | BlitFence \<Rightarrow> PRef \<lparr>rf_object_ref = bc_fence c\<rparr>
         | BlitInvalidateCompressedTexture \<Rightarrow>
             if bc_opcode c = BLIT_OPCODE_INVALIDATE_COMPRESSED_TEXTURE then PRef \<lparr>rf_object_ref = bc_texture c\<rparr>
             else PRefSliceLevel \<lparr>rsl_texture_ref = bc_texture c, rsl_slice = bc_slice c, rsl_level = bc_level c\<rparr>
         | BlitImage \<Rightarrow> PRefSliceLevel \<lparr>rsl_texture_ref = bc_texture c, rsl_slice = bc_slice c, rsl_level = bc_level c\<rparr>
         | BlitIcbRange \<Rightarrow> PIcbRange \<lparr>icr_icb_ref = bc_resource c, icr_range_location = bc_range_location c,
             icr_range_length = bc_range_length c\<rparr>
         | BlitIcbCopy \<Rightarrow> PCopyIcb \<lparr>cic_source_ref = bc_source c, cic_dest_ref = bc_destination c,
             cic_range_location = bc_range_location c, cic_range_length = bc_range_length c,
             cic_dest_index = bc_destination_index c\<rparr>
         | BlitFillBuffer \<Rightarrow> PFillBuffer \<lparr>fb_buffer_ref = bc_buffer c, fb_range_location = bc_range_location c,
             fb_range_length = bc_range_length c, fb_value = bc_fill_value c\<rparr>
         | BlitFillBufferPattern4 \<Rightarrow> PFillPattern4 \<lparr>fp4_buffer_ref = bc_buffer c,
             fp4_range_location = bc_range_location c, fp4_range_length = bc_range_length c, fp4_pattern = bc_fill_pattern c\<rparr>
         | BlitFillTexture \<Rightarrow>
             if bc_fill_source c = FillColor
             then PFillColor \<lparr>ftc_texture_ref = bc_texture c, ftc_level = bc_level c, ftc_slice = bc_slice c,
               ftc_size_width = sz_width fs, ftc_size_height = sz_height fs, ftc_size_depth = sz_depth fs,
               ftc_origin_x = pt_x fo, ftc_origin_y = pt_y fo, ftc_origin_z = pt_z fo,
               ftc_color_red = bc_fill_color_raw c ! 0, ftc_color_green = bc_fill_color_raw c ! 1,
               ftc_color_blue = bc_fill_color_raw c ! 2, ftc_color_alpha = bc_fill_color_raw c ! 3,
               ftc_pixel_format = bc_fill_pixel_format c\<rparr>
             else PFillBytes \<lparr>ftb_texture_ref = bc_texture c, ftb_level = bc_level c, ftb_slice = bc_slice c,
               ftb_size_width = sz_width fs, ftb_size_height = sz_height fs, ftb_size_depth = sz_depth fs,
               ftb_origin_x = pt_x fo, ftb_origin_y = pt_y fo, ftb_origin_z = pt_z fo,
               ftb_bytes_ref = bc_fill_bytes_ref c, ftb_bytes_offset = bc_fill_bytes_offset c, ftb_length = bc_fill_bytes_length c\<rparr>
         | _ \<Rightarrow>
             (case bc_copy_kind c of
                BufferToBuffer \<Rightarrow> PBufferToBuffer \<lparr>b2b_source_ref = bc_source c, b2b_dest_ref = bc_destination c,
                  b2b_source_offset = bc_source_offset c, b2b_dest_offset = bc_destination_offset c, b2b_size = bc_size c\<rparr>
              | BufferToTexture \<Rightarrow> PBufferToTexture \<lparr>cbt_source_ref = bc_source c, cbt_dest_ref = bc_destination c,
                  cbt_source_offset = bc_source_offset c, cbt_source_bytes_per_row = bc_source_bytes_per_row c,
                  cbt_source_bytes_per_image = bc_source_bytes_per_image c, cbt_size_width = sz_width sz,
                  cbt_size_height = sz_height sz, cbt_size_depth = sz_depth sz, cbt_dest_origin_x = pt_x o2,
                  cbt_dest_origin_y = pt_y o2, cbt_dest_origin_z = pt_z o2, cbt_dest_slice = bc_destination_slice c,
                  cbt_dest_level = bc_destination_level c, cbt_options = bc_options c\<rparr>
              | TextureToBuffer \<Rightarrow> PTextureToBuffer \<lparr>ctb_source_ref = bc_source c, ctb_dest_ref = bc_destination c,
                  ctb_source_origin_x = pt_x o1, ctb_source_origin_y = pt_y o1, ctb_source_origin_z = pt_z o1,
                  ctb_size_width = sz_width sz, ctb_size_height = sz_height sz, ctb_size_depth = sz_depth sz,
                  ctb_dest_offset = bc_destination_offset c, ctb_dest_bytes_per_row = bc_destination_bytes_per_row c,
                  ctb_dest_bytes_per_image = bc_destination_bytes_per_image c, ctb_source_slice = bc_source_slice c,
                  ctb_source_level = bc_source_level c, ctb_options = ucast (bc_options c)\<rparr>
              | TextureToTextureSliceLevel \<Rightarrow> PTextureSlices \<lparr>cts_source_ref = bc_source c, cts_dest_ref = bc_destination c,
                  cts_source_slice = bc_source_slice c, cts_source_level = bc_source_level c,
                  cts_dest_slice = bc_destination_slice c, cts_dest_level = bc_destination_level c,
                  cts_slice_count = bc_slice_count c, cts_level_count = bc_level_count c\<rparr>
              | _ \<Rightarrow>
                  if bc_has_options c then PTextureRegionOptions \<lparr>cro_region = region, cro_options = bc_options c\<rparr>
                  else PTextureRegion region))"

lemma ucast_options: "(ucast (ucast (a :: u16) :: u32) :: u16) = a"
proof -
  have "unat (ucast a :: u32) = unat a" using unat_lt2p [of a] by (intro unat_ucast_small) simp
  moreover from this have "unat (ucast (ucast a :: u32) :: u16) = unat a"
    using unat_lt2p [of a] unat_ucast_small [where 'b = 16, of "ucast a :: u32"] by simp
  ultimately show ?thesis by (simp only: word_unat_eq_iff)
qed

lemma blit_start_fields: "bc_opcode (blit_start opcode len) = opcode" "bc_has_options (blit_start opcode len) = False"
  by (simp_all add: blit_start_def blit_command_default_def)

lemma blit_recover_fill:
  "carries opcode p \<Longrightarrow> blit_recover (blit_fill opcode p (blit_start opcode len)) = p"
  by (cases p) (auto simp: blit_recover_def arm_defs Let_def ucast_options shape_defs blit_start_fields blit_opcodes)

text \<open>C17: The blit decoder is exact. It accepts a buffer precisely when the buffer starts with one of
  the encoder's records: the header with an opcode of the encoder and the record's total length, then the
  fields of that opcode's payload in order, little-endian and unpadded, then the bytes the encoder leaves
  unwritten. The command it returns names the opcode and holds every field of the payload, so the record
  can be read back from it. A well framed record with any other opcode is refused as unknown, and no
  bytes make the decoder panic.\<close>

theorem blit_decode_exact:
  "(blit_decode bs = Ok c \<longleftrightarrow>
      (\<exists>opcode p pad rest. carries opcode p \<and> length pad = unwritten p
         \<and> bs = blit_encode opcode p pad @ rest \<and> c = blit_command_of opcode p
         \<and> bc_opcode c = opcode \<and> blit_recover c = p))
   \<and> (blit_decode bs = Err BlitUnknownOpcode \<longleftrightarrow>
        (\<exists>op. op_at bs 0 = Ok op \<and> oh_opcode (op_head op) \<notin> blit_opcode_set))
   \<and> blit_decode bs \<noteq> Panic"
proof (intro conjI)
  have "bc_opcode (blit_command_of opcode p) = opcode" "carries opcode p \<Longrightarrow> blit_recover (blit_command_of opcode p) = p"
    for opcode p
    by (simp_all add: blit_command_of_def blit_fill_opcode blit_start_fields blit_recover_fill)
  then show "blit_decode bs = Ok c \<longleftrightarrow>
      (\<exists>opcode p pad rest. carries opcode p \<and> length pad = unwritten p
         \<and> bs = blit_encode opcode p pad @ rest \<and> c = blit_command_of opcode p
         \<and> bc_opcode c = opcode \<and> blit_recover c = p)"
    unfolding blit_decode_iff by metis
  show "blit_decode bs = Err BlitUnknownOpcode \<longleftrightarrow>
        (\<exists>op. op_at bs 0 = Ok op \<and> oh_opcode (op_head op) \<notin> blit_opcode_set)"
    by (auto simp: blit_decode_def obind_eq_Err map_err_Err blit_arms_unknown)
  show "blit_decode bs \<noteq> Panic"
    by (simp add: blit_decode_def obind_eq_Panic op_at_no_panic blit_arms_no_panic)
qed

text \<open>The option parser: no bits, or neither aspect bit, is the full aspect, one aspect bit alone is that
  aspect, and everything else is refused.\<close>

lemmas option_bits = MTL_BLIT_OPTION_KNOWN_MASK_def MTL_BLIT_OPTION_DEPTH_FROM_DEPTH_STENCIL_def
  MTL_BLIT_OPTION_STENCIL_FROM_DEPTH_STENCIL_def MTL_BLIT_OPTION_ROW_LINEAR_PVRTC_def

lemma parse_blit_options_aspects:
  "parse_blit_options has_options options = Inr a \<longleftrightarrow>
     (case a of AspectFull \<Rightarrow> \<not> has_options \<or> options = 0
      | AspectDepth \<Rightarrow> has_options \<and> options = MTL_BLIT_OPTION_DEPTH_FROM_DEPTH_STENCIL
      | AspectStencil \<Rightarrow> has_options \<and> options = MTL_BLIT_OPTION_STENCIL_FROM_DEPTH_STENCIL)"
proof -
  have small: "options \<in> {0, 1, 2, 3, 4, 5, 6, 7}" if k: "options AND NOT MTL_BLIT_OPTION_KNOWN_MASK = 0"
  proof -
    have "MTL_BLIT_OPTION_KNOWN_MASK = mask 3" by (simp add: option_bits mask_eq_exp_minus_1)
    with k have "\<forall>n < 32. bit options n \<longrightarrow> n < 3" by (auto simp: bit_eq_iff bit_simps)
    then have "take_bit 3 options = options" by (auto simp: bit_eq_iff bit_simps)
    then have "unat options = unat (take_bit 3 options)" by simp
    then have "unat options < 8" by (simp add: take_bit_eq_mod unat_mod)
    then have "unat options \<in> {0, 1, 2, 3, 4, 5, 6, 7}" by auto
    then show ?thesis by (simp add: word_unat_eq_iff)
  qed
  show ?thesis
  proof (cases "options AND NOT MTL_BLIT_OPTION_KNOWN_MASK = 0")
    case False
    then show ?thesis by (auto simp: parse_blit_options_def option_bits split: blit_aspect.splits)
  next
    case True
    from small [OF this] show ?thesis
      by (elim insertE emptyE) (simp_all add: parse_blit_options_def option_bits split: blit_aspect.splits)
  qed
qed

end
