(* ===== verification/WireLists.thy ===== *)
theory WireLists
  imports WireFields
begin

section \<open>Records as bytes\<close>

definition encode_record :: "u32 \<Rightarrow> u8 list \<Rightarrow> u8 list" where
  "encode_record opcode payload = le32 opcode @ le32 (of_nat (8 + length payload)) @ payload"

lemma op_at_encode:
  assumes "8 + length payload < 2 ^ 32"
  shows "op_at (encode_record opcode payload @ rest) 0
    = Ok \<lparr>op_head = \<lparr>oh_opcode = opcode, oh_length = of_nat (8 + length payload)\<rparr>, op_payload = payload, op_offset = 0\<rparr>"
proof -
  have "unat (of_nat (8 + length payload) :: u32) = 8 + length payload"
    using assms by (intro unat_of_nat_small) simp
  then show ?thesis by (subst op_at_framed) (simp add: framed_def encode_record_def del: of_nat_add)
qed

lemma op_at_record:
  assumes "op_at bs 0 = Ok op"
  obtains rest where "framed op" "8 + length (op_payload op) < 2 ^ 32"
    "oh_length (op_head op) = of_nat (8 + length (op_payload op))"
    "bs = encode_record (oh_opcode (op_head op)) (op_payload op) @ rest"
proof -
  from assms obtain rest where fr: "framed op"
    and bs: "bs = le32 (oh_opcode (op_head op)) @ le32 (oh_length (op_head op)) @ op_payload op @ rest"
    by (auto simp: op_at_framed)
  then have len: "unat (oh_length (op_head op)) = 8 + length (op_payload op)" by (simp add: framed_def)
  then have "oh_length (op_head op) = of_nat (8 + length (op_payload op))" by (metis of_nat_unat ucast_id)
  moreover have "8 + length (op_payload op) < 2 ^ 32" using len unat_lt2p [of "oh_length (op_head op)"] by simp
  ultimately show ?thesis using that fr bs by (simp add: encode_record_def)
qed

section \<open>Counted lists\<close>

text \<open>A header with a count, then as many entries: \<open>split\<close> and \<open>view_slice\<close>.\<close>

definition view_counted ::
  "nat \<Rightarrow> (u8 list \<Rightarrow> 'h) \<Rightarrow> ('h \<Rightarrow> u32) \<Rightarrow> nat \<Rightarrow> (u8 list \<Rightarrow> 's) \<Rightarrow> u8 list \<Rightarrow> (wire_error, 'h \<times> 's list) outcome" where
  "view_counted hsz hread count sz read payload =
     obind (split_view hsz payload) (\<lambda>(h, rest).
       obind (view_slice sz rest (unat (count (hread h)))) (\<lambda>es. Ok (hread h, map read es)))"

text \<open>Whether a record of \<open>count\<close> entries after \<open>base\<close> bytes has exactly the length given.\<close>

definition var_len :: "nat \<Rightarrow> nat \<Rightarrow> u32 \<Rightarrow> nat \<Rightarrow> bool" where
  "var_len cmd_len base count stride \<longleftrightarrow>
     base + unat count * stride \<le> 2 ^ 32 - 1 \<and> cmd_len = base + unat count * stride"

definition counted_arm ::
  "nat \<Rightarrow> nat \<Rightarrow> ('h \<Rightarrow> u32) \<Rightarrow> (op \<Rightarrow> (wire_error, 'h \<times> 's list) outcome) \<Rightarrow> ('h \<Rightarrow> 's list \<Rightarrow> 'c \<Rightarrow> 'c) \<Rightarrow> 'e \<Rightarrow> op \<Rightarrow> 'c
     \<Rightarrow> ('e, 'c) outcome" where
  "counted_arm base stride count parse fill short op out =
     obind (map_err (\<lambda>_. short) (parse op)) (\<lambda>(head, entries).
       if \<not> var_len (unat (oh_length (op_head op))) base (count head) stride then Err short
       else Ok (fill head entries out))"

context wire_struct begin

definition list_bytes :: "'s list \<Rightarrow> u8 list" where
  "list_bytes xs = concat (map bytes xs)"

lemma length_list_bytes: "length (list_bytes xs) = length xs * sz"
  by (induction xs) (simp_all add: list_bytes_def bytes_length)

lemma chunk: "k < length xs \<Longrightarrow> take sz (drop (k * sz) (list_bytes xs @ pad)) = bytes (xs ! k)"
proof (induction xs arbitrary: k)
  case (Cons x xs)
  then show ?case
    by (cases k) (simp_all add: list_bytes_def bytes_length)
qed simp

lemma chunks: "n * sz \<le> length p \<Longrightarrow> concat (map (\<lambda>k. take sz (drop (k * sz) p)) [0..<n]) = take (n * sz) p"
proof (induction n)
  case (Suc n)
  then show ?case using take_add [of "n * sz" sz p] by (simp add: add.commute)
qed simp

lemma entries_exact:
  assumes "n * sz < 2 ^ 64"
  shows "obind (view_slice sz p n) (\<lambda>es. Ok (map read es)) = Ok xs \<longleftrightarrow> length xs = n \<and> (\<exists>pad. p = list_bytes xs @ pad)"
proof (cases "length p < n * sz")
  case True
  then show ?thesis using assms by (auto simp: view_slice_def length_list_bytes)
next
  case False
  let ?es = "map (\<lambda>k. take sz (drop (k * sz) p)) [0..<n]"
  have len: "length (take sz (drop (k * sz) p)) = sz" if "k < n" for k
  proof -
    have "Suc k * sz \<le> n * sz" using that by (intro mult_le_mono1) simp
    then show ?thesis using False by simp
  qed
  have v: "obind (view_slice sz p n) (\<lambda>es. Ok (map read es)) = Ok xs \<longleftrightarrow> map read ?es = xs"
    using False assms by (simp add: view_slice_def)
  also have "\<dots> \<longleftrightarrow> length xs = n \<and> (\<forall>k < n. take sz (drop (k * sz) p) = bytes (xs ! k))"
    using len read_iff by (auto simp: list_eq_iff_nth_eq)
  also have "\<dots> \<longleftrightarrow> length xs = n \<and> (\<exists>pad. p = list_bytes xs @ pad)"
  proof (intro conj_cong refl iffI)
    assume n: "length xs = n" and "\<forall>k < n. take sz (drop (k * sz) p) = bytes (xs ! k)"
    then have "list_bytes xs = concat ?es"
      by (auto simp: list_bytes_def intro!: arg_cong [of _ _ concat] nth_equalityI)
    also have "\<dots> = take (n * sz) p" using False by (intro chunks) simp
    finally have "p = list_bytes xs @ drop (n * sz) p" by simp
    then show "\<exists>pad. p = list_bytes xs @ pad" ..
  next
    assume "length xs = n" and "\<exists>pad. p = list_bytes xs @ pad"
    then show "\<forall>k < n. take sz (drop (k * sz) p) = bytes (xs ! k)" using chunk by blast
  qed
  finally show ?thesis .
qed

end

locale counted_record = head: wire_struct hread hbytes hsz + wire_struct read bytes sz
  for hread :: "u8 list \<Rightarrow> 'h" and hbytes hsz and read :: "u8 list \<Rightarrow> 's" and bytes sz +
  fixes count :: "'h \<Rightarrow> u32"
  assumes small: "sz < 2 ^ 32"
begin

lemma view_counted_exact:
  "view_counted hsz hread count sz read p = Ok (h, xs) \<longleftrightarrow>
     length xs = unat (count h) \<and> (\<exists>pad. p = hbytes h @ list_bytes xs @ pad)"
proof -
  have n: "unat (count g) * sz < 2 ^ 64" for g
  proof -
    have "unat (count g) * sz \<le> 2 ^ 32 * sz" using unat_lt2p [of "count g"] by (intro mult_le_mono1) simp
    also have "\<dots> < 2 ^ 32 * 2 ^ 32" using small by simp
    finally show ?thesis by simp
  qed
  show ?thesis
  proof (cases "length p < hsz")
    case True
    then show ?thesis
      using head.bytes_length [of h] by (auto simp: view_counted_def split_view_def view_def)
  next
    case False
    have "view_counted hsz hread count sz read p = Ok (h, xs) \<longleftrightarrow> hread (take hsz p) = h
        \<and> obind (view_slice sz (drop hsz p) (unat (count h))) (\<lambda>es. Ok (map read es)) = Ok xs"
      using False by (auto simp: view_counted_def split_view_def view_def obind_eq_Ok)
    also have "\<dots> \<longleftrightarrow> take hsz p = hbytes h \<and> length xs = unat (count h) \<and> (\<exists>pad. drop hsz p = list_bytes xs @ pad)"
      using False head.read_iff [of "take hsz p" h] by (simp add: entries_exact [OF n])
    also have "\<dots> \<longleftrightarrow> length xs = unat (count h) \<and> (\<exists>pad. p = hbytes h @ list_bytes xs @ pad)"
      by (metis append_eq_conv_conj append_take_drop_id head.bytes_length)
    finally show ?thesis .
  qed
qed

text \<open>The arm accepts a framed record exactly when its payload is the header and the entries it counts,
  with nothing after them.\<close>

lemma counted_arm_exact:
  assumes fr: "framed op" and base: "base = 8 + hsz" and stride: "stride = sz"
    and parse: "parse op = view_counted hsz hread count sz read (op_payload op)"
  shows "counted_arm base stride count parse fill short op out = Ok c \<longleftrightarrow>
    (\<exists>h xs. op_payload op = hbytes h @ list_bytes xs \<and> unat (count h) = length xs \<and> c = fill h xs out)"
proof -
  have lim: "8 + length (op_payload op) \<le> 2 ^ 32 - 1"
    using fr unat_lt2p [of "oh_length (op_head op)"] by (simp add: framed_def)
  have len: "var_len (unat (oh_length (op_head op))) base (count h) stride \<longleftrightarrow> pad = []"
    if "op_payload op = hbytes h @ list_bytes xs @ pad" "length xs = unat (count h)" for h xs pad
    using fr lim that by (auto simp: var_len_def framed_def base stride head.bytes_length length_list_bytes)
  have "counted_arm base stride count parse fill short op out = Ok c \<longleftrightarrow>
      (\<exists>h xs. view_counted hsz hread count sz read (op_payload op) = Ok (h, xs)
        \<and> var_len (unat (oh_length (op_head op))) base (count h) stride \<and> c = fill h xs out)"
    by (auto simp: counted_arm_def obind_eq_Ok parse)
  also have "\<dots> \<longleftrightarrow> (\<exists>h xs. op_payload op = hbytes h @ list_bytes xs \<and> unat (count h) = length xs \<and> c = fill h xs out)"
    unfolding view_counted_exact using len by (metis append_Nil2)
  finally show ?thesis .
qed

lemma counted_arm_no_panic:
  assumes "parse op = view_counted hsz hread count sz read (op_payload op)"
  shows "counted_arm base stride count parse fill short op out \<noteq> Panic"
    "counted_arm base stride count parse fill short op out = Err e \<Longrightarrow> e = short"
  by (auto simp: counted_arm_def assms view_counted_def split_view_def view_slice_def obind_eq_Panic obind_eq_Err
      view_def map_err_Err split: if_splits)

end

end
