(* ===== verification/ComputeWire.thy ===== *)
theory ComputeWire
  imports WireLists
begin

text \<open>
  The compute encoder's records, crates/reims-vgpu-wire/src/ops/compute.rs with the structs it shares with
  ops/render.rs: opcodes, record lengths, payload structs and their readers. A bind record is a header with
  a count and as many entries.
\<close>

section \<open>Opcodes and lengths\<close>

named_theorems compute_opcodes \<open>the opcodes of the compute encoder and the lengths of its records\<close>

definition COMPUTE_OPCODE_DISPATCH_THREADGROUPS :: u32 where "COMPUTE_OPCODE_DISPATCH_THREADGROUPS = 0xc8"
definition COMPUTE_OPCODE_DISPATCH_THREADS :: u32 where "COMPUTE_OPCODE_DISPATCH_THREADS = 0xca"
definition COMPUTE_OPCODE_DISPATCH_THREADGROUPS_INDIRECT :: u32 where "COMPUTE_OPCODE_DISPATCH_THREADGROUPS_INDIRECT = 0xc9"
definition COMPUTE_OPCODE_DISPATCH_THREADS_INDIRECT :: u32 where "COMPUTE_OPCODE_DISPATCH_THREADS_INDIRECT = 0xe6"
definition COMPUTE_OPCODE_INSERT_COMPRESSED_TEXTURE_FLUSH :: u32 where "COMPUTE_OPCODE_INSERT_COMPRESSED_TEXTURE_FLUSH = 0xe3"
definition COMPUTE_OPCODE_SET_BUFFER :: u32 where "COMPUTE_OPCODE_SET_BUFFER = 0xcb"
definition COMPUTE_OPCODE_SET_SAMPLER :: u32 where "COMPUTE_OPCODE_SET_SAMPLER = 0xcc"
definition COMPUTE_OPCODE_SET_TEXTURE :: u32 where "COMPUTE_OPCODE_SET_TEXTURE = 0xce"
definition COMPUTE_OPCODE_SET_SAMPLER_LOD :: u32 where "COMPUTE_OPCODE_SET_SAMPLER_LOD = 0xcd"
definition COMPUTE_OPCODE_SET_BUFFER_STRIDE :: u32 where "COMPUTE_OPCODE_SET_BUFFER_STRIDE = 0xd9"
definition COMPUTE_OPCODE_SET_BUFFER_OFFSET_STRIDE :: u32 where "COMPUTE_OPCODE_SET_BUFFER_OFFSET_STRIDE = 0xda"
definition COMPUTE_OPCODE_SET_BUFFER_OFFSET :: u32 where "COMPUTE_OPCODE_SET_BUFFER_OFFSET = 0xcf"
definition COMPUTE_OPCODE_SET_PIPELINE_STATE :: u32 where "COMPUTE_OPCODE_SET_PIPELINE_STATE = 0xd0"
definition COMPUTE_OPCODE_SET_STAGE_IN_REGION :: u32 where "COMPUTE_OPCODE_SET_STAGE_IN_REGION = 0xd1"
definition COMPUTE_OPCODE_SET_STAGE_IN_REGION_INDIRECT :: u32 where "COMPUTE_OPCODE_SET_STAGE_IN_REGION_INDIRECT = 0xd2"
definition COMPUTE_OPCODE_SET_THREADGROUP_MEMORY_LENGTH :: u32 where "COMPUTE_OPCODE_SET_THREADGROUP_MEMORY_LENGTH = 0xd3"
definition COMPUTE_OPCODE_UPDATE_FENCE :: u32 where "COMPUTE_OPCODE_UPDATE_FENCE = 0xd4"
definition COMPUTE_OPCODE_WAIT_FOR_FENCE :: u32 where "COMPUTE_OPCODE_WAIT_FOR_FENCE = 0xd5"
definition COMPUTE_OPCODE_MEMORY_BARRIER_RESOURCES :: u32 where "COMPUTE_OPCODE_MEMORY_BARRIER_RESOURCES = 0xd6"
definition COMPUTE_OPCODE_MEMORY_BARRIER_SCOPE :: u32 where "COMPUTE_OPCODE_MEMORY_BARRIER_SCOPE = 0xd7"
definition COMPUTE_OPCODE_EXECUTE_COMMANDS_RANGE :: u32 where "COMPUTE_OPCODE_EXECUTE_COMMANDS_RANGE = 0xe4"
definition COMPUTE_OPCODE_EXECUTE_COMMANDS_INDIRECT :: u32 where "COMPUTE_OPCODE_EXECUTE_COMMANDS_INDIRECT = 0xe5"
definition COMPUTE_OPCODE_SET_IMAGEBLOCK_SIZE :: u32 where "COMPUTE_OPCODE_SET_IMAGEBLOCK_SIZE = 0xd8"
definition COMPUTE_OPCODE_WRITE_DESCRIPTOR :: u32 where "COMPUTE_OPCODE_WRITE_DESCRIPTOR = 0xdb"
definition COMPUTE_OPCODE_START_DO_WHILE :: u32 where "COMPUTE_OPCODE_START_DO_WHILE = 0xdc"
definition COMPUTE_OPCODE_END_DO_WHILE :: u32 where "COMPUTE_OPCODE_END_DO_WHILE = 0xdd"
definition COMPUTE_OPCODE_START_WHILE :: u32 where "COMPUTE_OPCODE_START_WHILE = 0xde"
definition COMPUTE_OPCODE_END_WHILE :: u32 where "COMPUTE_OPCODE_END_WHILE = 0xdf"
definition COMPUTE_OPCODE_START_IF :: u32 where "COMPUTE_OPCODE_START_IF = 0xe0"
definition COMPUTE_OPCODE_START_ELSE :: u32 where "COMPUTE_OPCODE_START_ELSE = 0xe1"
definition COMPUTE_OPCODE_END_IF :: u32 where "COMPUTE_OPCODE_END_IF = 0xe2"
definition DISPATCH_TOTAL_LEN :: u32 where "DISPATCH_TOTAL_LEN = 56"
definition DISPATCH_THREADGROUPS_INDIRECT_TOTAL_LEN :: u32 where "DISPATCH_THREADGROUPS_INDIRECT_TOTAL_LEN = 44"
definition DISPATCH_THREADS_INDIRECT_TOTAL_LEN :: u32 where "DISPATCH_THREADS_INDIRECT_TOTAL_LEN = 20"
definition INSERT_COMPRESSED_TEXTURE_FLUSH_TOTAL_LEN :: u32 where "INSERT_COMPRESSED_TEXTURE_FLUSH_TOTAL_LEN = 8"
definition SET_BUFFER_OFFSET_STRIDE_TOTAL_LEN :: u32 where "SET_BUFFER_OFFSET_STRIDE_TOTAL_LEN = 28"
definition SET_BUFFER_OFFSET_TOTAL_LEN :: u32 where "SET_BUFFER_OFFSET_TOTAL_LEN = 20"
definition SET_PIPELINE_STATE_TOTAL_LEN :: u32 where "SET_PIPELINE_STATE_TOTAL_LEN = 12"
definition SET_STAGE_IN_REGION_TOTAL_LEN :: u32 where "SET_STAGE_IN_REGION_TOTAL_LEN = 56"
definition SET_STAGE_IN_REGION_INDIRECT_TOTAL_LEN :: u32 where "SET_STAGE_IN_REGION_INDIRECT_TOTAL_LEN = 20"
definition SET_THREADGROUP_MEMORY_LENGTH_TOTAL_LEN :: u32 where "SET_THREADGROUP_MEMORY_LENGTH_TOTAL_LEN = 20"
definition FENCE_TOTAL_LEN :: u32 where "FENCE_TOTAL_LEN = 12"
definition MEMORY_BARRIER_SCOPE_TOTAL_LEN :: u32 where "MEMORY_BARRIER_SCOPE_TOTAL_LEN = 12"
definition EXECUTE_COMMANDS_RANGE_TOTAL_LEN :: u32 where "EXECUTE_COMMANDS_RANGE_TOTAL_LEN = 28"
definition EXECUTE_COMMANDS_INDIRECT_TOTAL_LEN :: u32 where "EXECUTE_COMMANDS_INDIRECT_TOTAL_LEN = 24"
definition SET_IMAGEBLOCK_SIZE_TOTAL_LEN :: u32 where "SET_IMAGEBLOCK_SIZE_TOTAL_LEN = 16"
definition WRITE_DESCRIPTOR_TOTAL_LEN :: u32 where "WRITE_DESCRIPTOR_TOTAL_LEN = 12"
definition CONTROL_FLOW_MARKER_TOTAL_LEN :: u32 where "CONTROL_FLOW_MARKER_TOTAL_LEN = 8"
definition CONTROL_FLOW_PREDICATE_TOTAL_LEN :: u32 where "CONTROL_FLOW_PREDICATE_TOTAL_LEN = 28"

lemmas [compute_opcodes] = COMPUTE_OPCODE_DISPATCH_THREADGROUPS_def COMPUTE_OPCODE_DISPATCH_THREADS_def
  COMPUTE_OPCODE_DISPATCH_THREADGROUPS_INDIRECT_def COMPUTE_OPCODE_DISPATCH_THREADS_INDIRECT_def
  COMPUTE_OPCODE_INSERT_COMPRESSED_TEXTURE_FLUSH_def COMPUTE_OPCODE_SET_BUFFER_def
  COMPUTE_OPCODE_SET_SAMPLER_def COMPUTE_OPCODE_SET_TEXTURE_def COMPUTE_OPCODE_SET_SAMPLER_LOD_def
  COMPUTE_OPCODE_SET_BUFFER_STRIDE_def COMPUTE_OPCODE_SET_BUFFER_OFFSET_STRIDE_def
  COMPUTE_OPCODE_SET_BUFFER_OFFSET_def COMPUTE_OPCODE_SET_PIPELINE_STATE_def
  COMPUTE_OPCODE_SET_STAGE_IN_REGION_def COMPUTE_OPCODE_SET_STAGE_IN_REGION_INDIRECT_def
  COMPUTE_OPCODE_SET_THREADGROUP_MEMORY_LENGTH_def COMPUTE_OPCODE_UPDATE_FENCE_def
  COMPUTE_OPCODE_WAIT_FOR_FENCE_def COMPUTE_OPCODE_MEMORY_BARRIER_RESOURCES_def
  COMPUTE_OPCODE_MEMORY_BARRIER_SCOPE_def COMPUTE_OPCODE_EXECUTE_COMMANDS_RANGE_def
  COMPUTE_OPCODE_EXECUTE_COMMANDS_INDIRECT_def COMPUTE_OPCODE_SET_IMAGEBLOCK_SIZE_def
  COMPUTE_OPCODE_WRITE_DESCRIPTOR_def COMPUTE_OPCODE_START_DO_WHILE_def COMPUTE_OPCODE_END_DO_WHILE_def
  COMPUTE_OPCODE_START_WHILE_def COMPUTE_OPCODE_END_WHILE_def COMPUTE_OPCODE_START_IF_def
  COMPUTE_OPCODE_START_ELSE_def COMPUTE_OPCODE_END_IF_def DISPATCH_TOTAL_LEN_def
  DISPATCH_THREADGROUPS_INDIRECT_TOTAL_LEN_def DISPATCH_THREADS_INDIRECT_TOTAL_LEN_def
  INSERT_COMPRESSED_TEXTURE_FLUSH_TOTAL_LEN_def SET_BUFFER_OFFSET_STRIDE_TOTAL_LEN_def
  SET_BUFFER_OFFSET_TOTAL_LEN_def SET_PIPELINE_STATE_TOTAL_LEN_def SET_STAGE_IN_REGION_TOTAL_LEN_def
  SET_STAGE_IN_REGION_INDIRECT_TOTAL_LEN_def SET_THREADGROUP_MEMORY_LENGTH_TOTAL_LEN_def FENCE_TOTAL_LEN_def
  MEMORY_BARRIER_SCOPE_TOTAL_LEN_def EXECUTE_COMMANDS_RANGE_TOTAL_LEN_def
  EXECUTE_COMMANDS_INDIRECT_TOTAL_LEN_def SET_IMAGEBLOCK_SIZE_TOTAL_LEN_def WRITE_DESCRIPTOR_TOTAL_LEN_def
  CONTROL_FLOW_MARKER_TOTAL_LEN_def CONTROL_FLOW_PREDICATE_TOTAL_LEN_def

text \<open>The opcodes that share a payload shape.\<close>

definition is_dispatch :: "u32 \<Rightarrow> bool" where
  "is_dispatch opcode \<longleftrightarrow> opcode \<in> {COMPUTE_OPCODE_DISPATCH_THREADGROUPS, COMPUTE_OPCODE_DISPATCH_THREADS}"

definition is_ref_bind :: "u32 \<Rightarrow> bool" where
  "is_ref_bind opcode \<longleftrightarrow> opcode \<in> {COMPUTE_OPCODE_SET_SAMPLER, COMPUTE_OPCODE_SET_TEXTURE}"

definition is_fence :: "u32 \<Rightarrow> bool" where
  "is_fence opcode \<longleftrightarrow> opcode \<in> {COMPUTE_OPCODE_UPDATE_FENCE, COMPUTE_OPCODE_WAIT_FOR_FENCE}"

definition is_control_flow_predicate :: "u32 \<Rightarrow> bool" where
  "is_control_flow_predicate opcode \<longleftrightarrow>
     opcode \<in> {COMPUTE_OPCODE_START_IF, COMPUTE_OPCODE_START_WHILE, COMPUTE_OPCODE_END_DO_WHILE}"

definition is_control_flow_marker :: "u32 \<Rightarrow> bool" where
  "is_control_flow_marker opcode \<longleftrightarrow>
     opcode \<in> {COMPUTE_OPCODE_START_ELSE, COMPUTE_OPCODE_END_IF, COMPUTE_OPCODE_END_WHILE, COMPUTE_OPCODE_START_DO_WHILE}"

section \<open>Payloads\<close>

record dispatch =
  dsp_groups_width :: u64
  dsp_groups_height :: u64
  dsp_groups_depth :: u64
  dsp_threads_width :: u64
  dsp_threads_height :: u64
  dsp_threads_depth :: u64

definition read_dispatch :: "u8 list \<Rightarrow> dispatch" where
  "read_dispatch v =
     \<lparr>dsp_groups_width = u64_at v 0, dsp_groups_height = u64_at v 8, dsp_groups_depth = u64_at v 16,
      dsp_threads_width = u64_at v 24, dsp_threads_height = u64_at v 32, dsp_threads_depth = u64_at v 40\<rparr>"

definition dispatch_view :: "op \<Rightarrow> (wire_error, dispatch) outcome" where
  "dispatch_view op = obind (view 48 (op_payload op)) (\<lambda>v. Ok (read_dispatch v))"

record dispatch_indirect =
  dsi_threads_width :: u64
  dsi_threads_height :: u64
  dsi_threads_depth :: u64
  dsi_indirect_buffer_offset :: u64
  dsi_indirect_buffer_ref :: u32

definition read_dispatch_indirect :: "u8 list \<Rightarrow> dispatch_indirect" where
  "read_dispatch_indirect v =
     \<lparr>dsi_threads_width = u64_at v 0, dsi_threads_height = u64_at v 8, dsi_threads_depth = u64_at v 16,
      dsi_indirect_buffer_offset = u64_at v 24, dsi_indirect_buffer_ref = u32_at v 32\<rparr>"

definition dispatch_indirect_view :: "op \<Rightarrow> (wire_error, dispatch_indirect) outcome" where
  "dispatch_indirect_view op = obind (view 36 (op_payload op)) (\<lambda>v. Ok (read_dispatch_indirect v))"

record dispatch_threads_indirect =
  dti_indirect_buffer_offset :: u64
  dti_indirect_buffer_ref :: u32

definition read_dispatch_threads_indirect :: "u8 list \<Rightarrow> dispatch_threads_indirect" where
  "read_dispatch_threads_indirect v =
     \<lparr>dti_indirect_buffer_offset = u64_at v 0, dti_indirect_buffer_ref = u32_at v 8\<rparr>"

definition dispatch_threads_indirect_view :: "op \<Rightarrow> (wire_error, dispatch_threads_indirect) outcome" where
  "dispatch_threads_indirect_view op = obind (view 12 (op_payload op)) (\<lambda>v. Ok (read_dispatch_threads_indirect v))"

record bind_header =
  bh_first :: u32
  bh_count :: u32

definition read_bind_header :: "u8 list \<Rightarrow> bind_header" where
  "read_bind_header v =
     \<lparr>bh_first = u32_at v 0, bh_count = u32_at v 4\<rparr>"

record buffer_bind =
  bfb_buffer_ref :: u32
  bfb_offset :: u64

definition read_buffer_bind :: "u8 list \<Rightarrow> buffer_bind" where
  "read_buffer_bind v =
     \<lparr>bfb_buffer_ref = u32_at v 0, bfb_offset = u64_at v 4\<rparr>"

record buffer_stride_bind =
  bsb_buffer_ref :: u32
  bsb_offset :: u64
  bsb_attribute_stride :: u64

definition read_buffer_stride_bind :: "u8 list \<Rightarrow> buffer_stride_bind" where
  "read_buffer_stride_bind v =
     \<lparr>bsb_buffer_ref = u32_at v 0, bsb_offset = u64_at v 4, bsb_attribute_stride = u64_at v 12\<rparr>"

record ref_bind =
  rfb_object_ref :: u32

definition read_ref_bind :: "u8 list \<Rightarrow> ref_bind" where
  "read_ref_bind v =
     \<lparr>rfb_object_ref = u32_at v 0\<rparr>"

record sampler_lod_bind =
  slb_sampler_ref :: u32
  slb_lod_min_clamp :: u32
  slb_lod_max_clamp :: u32

definition read_sampler_lod_bind :: "u8 list \<Rightarrow> sampler_lod_bind" where
  "read_sampler_lod_bind v =
     \<lparr>slb_sampler_ref = u32_at v 0, slb_lod_min_clamp = u32_at v 4, slb_lod_max_clamp = u32_at v 8\<rparr>"

record buffer_offset =
  bfo_index :: u32
  bfo_offset :: u64

definition read_buffer_offset :: "u8 list \<Rightarrow> buffer_offset" where
  "read_buffer_offset v =
     \<lparr>bfo_index = u32_at v 0, bfo_offset = u64_at v 4\<rparr>"

definition set_buffer_offset :: "op \<Rightarrow> (wire_error, buffer_offset) outcome" where
  "set_buffer_offset op = obind (view 12 (op_payload op)) (\<lambda>v. Ok (read_buffer_offset v))"

record buffer_offset_stride =
  bos_index :: u32
  bos_offset :: u64
  bos_attribute_stride :: u64

definition read_buffer_offset_stride :: "u8 list \<Rightarrow> buffer_offset_stride" where
  "read_buffer_offset_stride v =
     \<lparr>bos_index = u32_at v 0, bos_offset = u64_at v 4, bos_attribute_stride = u64_at v 12\<rparr>"

definition buffer_offset_stride_view :: "op \<Rightarrow> (wire_error, buffer_offset_stride) outcome" where
  "buffer_offset_stride_view op = obind (view 20 (op_payload op)) (\<lambda>v. Ok (read_buffer_offset_stride v))"

record compute_ref =
  crf_object_ref :: u32

definition read_compute_ref :: "u8 list \<Rightarrow> compute_ref" where
  "read_compute_ref v =
     \<lparr>crf_object_ref = u32_at v 0\<rparr>"

definition set_pipeline_state :: "op \<Rightarrow> (wire_error, compute_ref) outcome" where
  "set_pipeline_state op = obind (view 4 (op_payload op)) (\<lambda>v. Ok (read_compute_ref v))"

definition fence_view :: "op \<Rightarrow> (wire_error, compute_ref) outcome" where
  "fence_view op = obind (view 4 (op_payload op)) (\<lambda>v. Ok (read_compute_ref v))"

record stage_in_region =
  sir_size_width :: u64
  sir_size_height :: u64
  sir_size_depth :: u64
  sir_origin_x :: u64
  sir_origin_y :: u64
  sir_origin_z :: u64

definition read_stage_in_region :: "u8 list \<Rightarrow> stage_in_region" where
  "read_stage_in_region v =
     \<lparr>sir_size_width = u64_at v 0, sir_size_height = u64_at v 8, sir_size_depth = u64_at v 16,
      sir_origin_x = u64_at v 24, sir_origin_y = u64_at v 32, sir_origin_z = u64_at v 40\<rparr>"

definition set_stage_in_region :: "op \<Rightarrow> (wire_error, stage_in_region) outcome" where
  "set_stage_in_region op = obind (view 48 (op_payload op)) (\<lambda>v. Ok (read_stage_in_region v))"

record stage_in_region_indirect =
  sii_indirect_buffer_ref :: u32
  sii_indirect_buffer_offset :: u64

definition read_stage_in_region_indirect :: "u8 list \<Rightarrow> stage_in_region_indirect" where
  "read_stage_in_region_indirect v =
     \<lparr>sii_indirect_buffer_ref = u32_at v 0, sii_indirect_buffer_offset = u64_at v 4\<rparr>"

definition set_stage_in_region_indirect :: "op \<Rightarrow> (wire_error, stage_in_region_indirect) outcome" where
  "set_stage_in_region_indirect op = obind (view 12 (op_payload op)) (\<lambda>v. Ok (read_stage_in_region_indirect v))"

record threadgroup_memory_length =
  tml_length :: u64
  tml_index :: u32

definition read_threadgroup_memory_length :: "u8 list \<Rightarrow> threadgroup_memory_length" where
  "read_threadgroup_memory_length v =
     \<lparr>tml_length = u64_at v 0, tml_index = u32_at v 8\<rparr>"

definition set_threadgroup_memory_length :: "op \<Rightarrow> (wire_error, threadgroup_memory_length) outcome" where
  "set_threadgroup_memory_length op = obind (view 12 (op_payload op)) (\<lambda>v. Ok (read_threadgroup_memory_length v))"

record memory_barrier_resources =
  mbr_count :: u32

definition read_memory_barrier_resources :: "u8 list \<Rightarrow> memory_barrier_resources" where
  "read_memory_barrier_resources v =
     \<lparr>mbr_count = u32_at v 0\<rparr>"

record memory_barrier_scope =
  mbs_scope :: u16

definition read_memory_barrier_scope :: "u8 list \<Rightarrow> memory_barrier_scope" where
  "read_memory_barrier_scope v =
     \<lparr>mbs_scope = u16_at v 0\<rparr>"

definition memory_barrier_scope_view :: "op \<Rightarrow> (wire_error, memory_barrier_scope) outcome" where
  "memory_barrier_scope_view op = obind (view 2 (op_payload op)) (\<lambda>v. Ok (read_memory_barrier_scope v))"

record execute_commands_range =
  ecr_icb_ref :: u32
  ecr_range_location :: u64
  ecr_range_length :: u64

definition read_execute_commands_range :: "u8 list \<Rightarrow> execute_commands_range" where
  "read_execute_commands_range v =
     \<lparr>ecr_icb_ref = u32_at v 0, ecr_range_location = u64_at v 4, ecr_range_length = u64_at v 12\<rparr>"

definition execute_commands_range_view :: "op \<Rightarrow> (wire_error, execute_commands_range) outcome" where
  "execute_commands_range_view op = obind (view 20 (op_payload op)) (\<lambda>v. Ok (read_execute_commands_range v))"

record execute_commands_indirect =
  eci_icb_ref :: u32
  eci_indirect_buffer_ref :: u32
  eci_indirect_buffer_offset :: u64

definition read_execute_commands_indirect :: "u8 list \<Rightarrow> execute_commands_indirect" where
  "read_execute_commands_indirect v =
     \<lparr>eci_icb_ref = u32_at v 0, eci_indirect_buffer_ref = u32_at v 4,
      eci_indirect_buffer_offset = u64_at v 8\<rparr>"

definition execute_commands_indirect_view :: "op \<Rightarrow> (wire_error, execute_commands_indirect) outcome" where
  "execute_commands_indirect_view op = obind (view 16 (op_payload op)) (\<lambda>v. Ok (read_execute_commands_indirect v))"

record imageblock_size =
  ibs_width :: u32
  ibs_height :: u32

definition read_imageblock_size :: "u8 list \<Rightarrow> imageblock_size" where
  "read_imageblock_size v =
     \<lparr>ibs_width = u32_at v 0, ibs_height = u32_at v 4\<rparr>"

definition set_imageblock_size :: "op \<Rightarrow> (wire_error, imageblock_size) outcome" where
  "set_imageblock_size op = obind (view 8 (op_payload op)) (\<lambda>v. Ok (read_imageblock_size v))"

record pass_descriptor =
  pds_dispatch_type :: u32

definition read_pass_descriptor :: "u8 list \<Rightarrow> pass_descriptor" where
  "read_pass_descriptor v =
     \<lparr>pds_dispatch_type = u32_at v 0\<rparr>"

definition write_descriptor :: "op \<Rightarrow> (wire_error, pass_descriptor) outcome" where
  "write_descriptor op = obind (view 4 (op_payload op)) (\<lambda>v. Ok (read_pass_descriptor v))"

record control_flow_predicate =
  cfp_buffer_ref :: u32
  cfp_offset :: u64
  cfp_comparison :: u32
  cfp_reference_value :: u32

definition read_control_flow_predicate :: "u8 list \<Rightarrow> control_flow_predicate" where
  "read_control_flow_predicate v =
     \<lparr>cfp_buffer_ref = u32_at v 0, cfp_offset = u64_at v 4, cfp_comparison = u32_at v 12,
      cfp_reference_value = u32_at v 16\<rparr>"

definition control_flow_predicate_view :: "op \<Rightarrow> (wire_error, control_flow_predicate) outcome" where
  "control_flow_predicate_view op = obind (view 20 (op_payload op)) (\<lambda>v. Ok (read_control_flow_predicate v))"

text \<open>The counted views.\<close>

definition bind_entries :: "nat \<Rightarrow> (u8 list \<Rightarrow> 's) \<Rightarrow> u8 list \<Rightarrow> (wire_error, bind_header \<times> 's list) outcome" where
  "bind_entries sz read payload = view_counted 8 read_bind_header bh_count sz read payload"

definition buffer_binds :: "op \<Rightarrow> (wire_error, bind_header \<times> buffer_bind list) outcome" where
  "buffer_binds op = bind_entries 12 read_buffer_bind (op_payload op)"

definition ref_binds :: "op \<Rightarrow> (wire_error, bind_header \<times> ref_bind list) outcome" where
  "ref_binds op = bind_entries 4 read_ref_bind (op_payload op)"

definition sampler_lod_binds :: "op \<Rightarrow> (wire_error, bind_header \<times> sampler_lod_bind list) outcome" where
  "sampler_lod_binds op = bind_entries 12 read_sampler_lod_bind (op_payload op)"

definition buffer_stride_binds :: "op \<Rightarrow> (wire_error, bind_header \<times> buffer_stride_bind list) outcome" where
  "buffer_stride_binds op = view_counted 8 read_bind_header bh_count 20 read_buffer_stride_bind (op_payload op)"

definition memory_barrier_resources_view :: "op \<Rightarrow> (wire_error, memory_barrier_resources \<times> ref_bind list) outcome" where
  "memory_barrier_resources_view op = view_counted 4 read_memory_barrier_resources mbr_count 4 read_ref_bind (op_payload op)"

section \<open>Layouts\<close>

named_theorems compute_layout \<open>each struct is read exactly from its fields in order\<close>

definition dispatch_bytes :: "dispatch \<Rightarrow> u8 list" where
  "dispatch_bytes s =
     le64 (dsp_groups_width s) @ le64 (dsp_groups_height s) @ le64 (dsp_groups_depth s) @
     le64 (dsp_threads_width s) @ le64 (dsp_threads_height s) @ le64 (dsp_threads_depth s)"

lemma dispatch_layout [compute_layout]:
  "length v = 48 \<Longrightarrow> read_dispatch v = s \<longleftrightarrow> v = dispatch_bytes s" "length (dispatch_bytes s) = 48"
proof -
  have "read_dispatch (dispatch_bytes s) = s"
    by (cases s) (simp add: read_dispatch_def dispatch_bytes_def layout_simps)
  moreover have "dispatch_bytes (read_dispatch v) = v" if "length v = 48"
    using that by (simp add: read_dispatch_def dispatch_bytes_def join_simps)
  ultimately show "length v = 48 \<Longrightarrow> read_dispatch v = s \<longleftrightarrow> v = dispatch_bytes s" by metis
qed (simp add: dispatch_bytes_def)

definition dispatch_indirect_bytes :: "dispatch_indirect \<Rightarrow> u8 list" where
  "dispatch_indirect_bytes s =
     le64 (dsi_threads_width s) @ le64 (dsi_threads_height s) @ le64 (dsi_threads_depth s) @
     le64 (dsi_indirect_buffer_offset s) @ le32 (dsi_indirect_buffer_ref s)"

lemma dispatch_indirect_layout [compute_layout]:
  "length v = 36 \<Longrightarrow> read_dispatch_indirect v = s \<longleftrightarrow> v = dispatch_indirect_bytes s" "length (dispatch_indirect_bytes s) = 36"
proof -
  have "read_dispatch_indirect (dispatch_indirect_bytes s) = s"
    by (cases s) (simp add: read_dispatch_indirect_def dispatch_indirect_bytes_def layout_simps)
  moreover have "dispatch_indirect_bytes (read_dispatch_indirect v) = v" if "length v = 36"
    using that by (simp add: read_dispatch_indirect_def dispatch_indirect_bytes_def join_simps)
  ultimately show "length v = 36 \<Longrightarrow> read_dispatch_indirect v = s \<longleftrightarrow> v = dispatch_indirect_bytes s" by metis
qed (simp add: dispatch_indirect_bytes_def)

definition dispatch_threads_indirect_bytes :: "dispatch_threads_indirect \<Rightarrow> u8 list" where
  "dispatch_threads_indirect_bytes s =
     le64 (dti_indirect_buffer_offset s) @ le32 (dti_indirect_buffer_ref s)"

lemma dispatch_threads_indirect_layout [compute_layout]:
  "length v = 12 \<Longrightarrow> read_dispatch_threads_indirect v = s \<longleftrightarrow> v = dispatch_threads_indirect_bytes s" "length (dispatch_threads_indirect_bytes s) = 12"
proof -
  have "read_dispatch_threads_indirect (dispatch_threads_indirect_bytes s) = s"
    by (cases s) (simp add: read_dispatch_threads_indirect_def dispatch_threads_indirect_bytes_def layout_simps)
  moreover have "dispatch_threads_indirect_bytes (read_dispatch_threads_indirect v) = v" if "length v = 12"
    using that by (simp add: read_dispatch_threads_indirect_def dispatch_threads_indirect_bytes_def join_simps)
  ultimately show "length v = 12 \<Longrightarrow> read_dispatch_threads_indirect v = s \<longleftrightarrow> v = dispatch_threads_indirect_bytes s" by metis
qed (simp add: dispatch_threads_indirect_bytes_def)

definition bind_header_bytes :: "bind_header \<Rightarrow> u8 list" where
  "bind_header_bytes s =
     le32 (bh_first s) @ le32 (bh_count s)"

lemma bind_header_layout [compute_layout]:
  "length v = 8 \<Longrightarrow> read_bind_header v = s \<longleftrightarrow> v = bind_header_bytes s" "length (bind_header_bytes s) = 8"
proof -
  have "read_bind_header (bind_header_bytes s) = s"
    by (cases s) (simp add: read_bind_header_def bind_header_bytes_def layout_simps)
  moreover have "bind_header_bytes (read_bind_header v) = v" if "length v = 8"
    using that by (simp add: read_bind_header_def bind_header_bytes_def join_simps)
  ultimately show "length v = 8 \<Longrightarrow> read_bind_header v = s \<longleftrightarrow> v = bind_header_bytes s" by metis
qed (simp add: bind_header_bytes_def)

definition buffer_bind_bytes :: "buffer_bind \<Rightarrow> u8 list" where
  "buffer_bind_bytes s =
     le32 (bfb_buffer_ref s) @ le64 (bfb_offset s)"

lemma buffer_bind_layout [compute_layout]:
  "length v = 12 \<Longrightarrow> read_buffer_bind v = s \<longleftrightarrow> v = buffer_bind_bytes s" "length (buffer_bind_bytes s) = 12"
proof -
  have "read_buffer_bind (buffer_bind_bytes s) = s"
    by (cases s) (simp add: read_buffer_bind_def buffer_bind_bytes_def layout_simps)
  moreover have "buffer_bind_bytes (read_buffer_bind v) = v" if "length v = 12"
    using that by (simp add: read_buffer_bind_def buffer_bind_bytes_def join_simps)
  ultimately show "length v = 12 \<Longrightarrow> read_buffer_bind v = s \<longleftrightarrow> v = buffer_bind_bytes s" by metis
qed (simp add: buffer_bind_bytes_def)

definition buffer_stride_bind_bytes :: "buffer_stride_bind \<Rightarrow> u8 list" where
  "buffer_stride_bind_bytes s =
     le32 (bsb_buffer_ref s) @ le64 (bsb_offset s) @ le64 (bsb_attribute_stride s)"

lemma buffer_stride_bind_layout [compute_layout]:
  "length v = 20 \<Longrightarrow> read_buffer_stride_bind v = s \<longleftrightarrow> v = buffer_stride_bind_bytes s" "length (buffer_stride_bind_bytes s) = 20"
proof -
  have "read_buffer_stride_bind (buffer_stride_bind_bytes s) = s"
    by (cases s) (simp add: read_buffer_stride_bind_def buffer_stride_bind_bytes_def layout_simps)
  moreover have "buffer_stride_bind_bytes (read_buffer_stride_bind v) = v" if "length v = 20"
    using that by (simp add: read_buffer_stride_bind_def buffer_stride_bind_bytes_def join_simps)
  ultimately show "length v = 20 \<Longrightarrow> read_buffer_stride_bind v = s \<longleftrightarrow> v = buffer_stride_bind_bytes s" by metis
qed (simp add: buffer_stride_bind_bytes_def)

definition ref_bind_bytes :: "ref_bind \<Rightarrow> u8 list" where
  "ref_bind_bytes s =
     le32 (rfb_object_ref s)"

lemma ref_bind_layout [compute_layout]:
  "length v = 4 \<Longrightarrow> read_ref_bind v = s \<longleftrightarrow> v = ref_bind_bytes s" "length (ref_bind_bytes s) = 4"
proof -
  have "read_ref_bind (ref_bind_bytes s) = s"
    by (cases s) (simp add: read_ref_bind_def ref_bind_bytes_def layout_simps)
  moreover have "ref_bind_bytes (read_ref_bind v) = v" if "length v = 4"
    using that by (simp add: read_ref_bind_def ref_bind_bytes_def join_simps)
  ultimately show "length v = 4 \<Longrightarrow> read_ref_bind v = s \<longleftrightarrow> v = ref_bind_bytes s" by metis
qed (simp add: ref_bind_bytes_def)

definition sampler_lod_bind_bytes :: "sampler_lod_bind \<Rightarrow> u8 list" where
  "sampler_lod_bind_bytes s =
     le32 (slb_sampler_ref s) @ le32 (slb_lod_min_clamp s) @ le32 (slb_lod_max_clamp s)"

lemma sampler_lod_bind_layout [compute_layout]:
  "length v = 12 \<Longrightarrow> read_sampler_lod_bind v = s \<longleftrightarrow> v = sampler_lod_bind_bytes s" "length (sampler_lod_bind_bytes s) = 12"
proof -
  have "read_sampler_lod_bind (sampler_lod_bind_bytes s) = s"
    by (cases s) (simp add: read_sampler_lod_bind_def sampler_lod_bind_bytes_def layout_simps)
  moreover have "sampler_lod_bind_bytes (read_sampler_lod_bind v) = v" if "length v = 12"
    using that by (simp add: read_sampler_lod_bind_def sampler_lod_bind_bytes_def join_simps)
  ultimately show "length v = 12 \<Longrightarrow> read_sampler_lod_bind v = s \<longleftrightarrow> v = sampler_lod_bind_bytes s" by metis
qed (simp add: sampler_lod_bind_bytes_def)

definition buffer_offset_bytes :: "buffer_offset \<Rightarrow> u8 list" where
  "buffer_offset_bytes s =
     le32 (bfo_index s) @ le64 (bfo_offset s)"

lemma buffer_offset_layout [compute_layout]:
  "length v = 12 \<Longrightarrow> read_buffer_offset v = s \<longleftrightarrow> v = buffer_offset_bytes s" "length (buffer_offset_bytes s) = 12"
proof -
  have "read_buffer_offset (buffer_offset_bytes s) = s"
    by (cases s) (simp add: read_buffer_offset_def buffer_offset_bytes_def layout_simps)
  moreover have "buffer_offset_bytes (read_buffer_offset v) = v" if "length v = 12"
    using that by (simp add: read_buffer_offset_def buffer_offset_bytes_def join_simps)
  ultimately show "length v = 12 \<Longrightarrow> read_buffer_offset v = s \<longleftrightarrow> v = buffer_offset_bytes s" by metis
qed (simp add: buffer_offset_bytes_def)

definition buffer_offset_stride_bytes :: "buffer_offset_stride \<Rightarrow> u8 list" where
  "buffer_offset_stride_bytes s =
     le32 (bos_index s) @ le64 (bos_offset s) @ le64 (bos_attribute_stride s)"

lemma buffer_offset_stride_layout [compute_layout]:
  "length v = 20 \<Longrightarrow> read_buffer_offset_stride v = s \<longleftrightarrow> v = buffer_offset_stride_bytes s" "length (buffer_offset_stride_bytes s) = 20"
proof -
  have "read_buffer_offset_stride (buffer_offset_stride_bytes s) = s"
    by (cases s) (simp add: read_buffer_offset_stride_def buffer_offset_stride_bytes_def layout_simps)
  moreover have "buffer_offset_stride_bytes (read_buffer_offset_stride v) = v" if "length v = 20"
    using that by (simp add: read_buffer_offset_stride_def buffer_offset_stride_bytes_def join_simps)
  ultimately show "length v = 20 \<Longrightarrow> read_buffer_offset_stride v = s \<longleftrightarrow> v = buffer_offset_stride_bytes s" by metis
qed (simp add: buffer_offset_stride_bytes_def)

definition compute_ref_bytes :: "compute_ref \<Rightarrow> u8 list" where
  "compute_ref_bytes s =
     le32 (crf_object_ref s)"

lemma compute_ref_layout [compute_layout]:
  "length v = 4 \<Longrightarrow> read_compute_ref v = s \<longleftrightarrow> v = compute_ref_bytes s" "length (compute_ref_bytes s) = 4"
proof -
  have "read_compute_ref (compute_ref_bytes s) = s"
    by (cases s) (simp add: read_compute_ref_def compute_ref_bytes_def layout_simps)
  moreover have "compute_ref_bytes (read_compute_ref v) = v" if "length v = 4"
    using that by (simp add: read_compute_ref_def compute_ref_bytes_def join_simps)
  ultimately show "length v = 4 \<Longrightarrow> read_compute_ref v = s \<longleftrightarrow> v = compute_ref_bytes s" by metis
qed (simp add: compute_ref_bytes_def)

definition stage_in_region_bytes :: "stage_in_region \<Rightarrow> u8 list" where
  "stage_in_region_bytes s =
     le64 (sir_size_width s) @ le64 (sir_size_height s) @ le64 (sir_size_depth s) @
     le64 (sir_origin_x s) @ le64 (sir_origin_y s) @ le64 (sir_origin_z s)"

lemma stage_in_region_layout [compute_layout]:
  "length v = 48 \<Longrightarrow> read_stage_in_region v = s \<longleftrightarrow> v = stage_in_region_bytes s" "length (stage_in_region_bytes s) = 48"
proof -
  have "read_stage_in_region (stage_in_region_bytes s) = s"
    by (cases s) (simp add: read_stage_in_region_def stage_in_region_bytes_def layout_simps)
  moreover have "stage_in_region_bytes (read_stage_in_region v) = v" if "length v = 48"
    using that by (simp add: read_stage_in_region_def stage_in_region_bytes_def join_simps)
  ultimately show "length v = 48 \<Longrightarrow> read_stage_in_region v = s \<longleftrightarrow> v = stage_in_region_bytes s" by metis
qed (simp add: stage_in_region_bytes_def)

definition stage_in_region_indirect_bytes :: "stage_in_region_indirect \<Rightarrow> u8 list" where
  "stage_in_region_indirect_bytes s =
     le32 (sii_indirect_buffer_ref s) @ le64 (sii_indirect_buffer_offset s)"

lemma stage_in_region_indirect_layout [compute_layout]:
  "length v = 12 \<Longrightarrow> read_stage_in_region_indirect v = s \<longleftrightarrow> v = stage_in_region_indirect_bytes s" "length (stage_in_region_indirect_bytes s) = 12"
proof -
  have "read_stage_in_region_indirect (stage_in_region_indirect_bytes s) = s"
    by (cases s) (simp add: read_stage_in_region_indirect_def stage_in_region_indirect_bytes_def layout_simps)
  moreover have "stage_in_region_indirect_bytes (read_stage_in_region_indirect v) = v" if "length v = 12"
    using that by (simp add: read_stage_in_region_indirect_def stage_in_region_indirect_bytes_def join_simps)
  ultimately show "length v = 12 \<Longrightarrow> read_stage_in_region_indirect v = s \<longleftrightarrow> v = stage_in_region_indirect_bytes s" by metis
qed (simp add: stage_in_region_indirect_bytes_def)

definition threadgroup_memory_length_bytes :: "threadgroup_memory_length \<Rightarrow> u8 list" where
  "threadgroup_memory_length_bytes s =
     le64 (tml_length s) @ le32 (tml_index s)"

lemma threadgroup_memory_length_layout [compute_layout]:
  "length v = 12 \<Longrightarrow> read_threadgroup_memory_length v = s \<longleftrightarrow> v = threadgroup_memory_length_bytes s" "length (threadgroup_memory_length_bytes s) = 12"
proof -
  have "read_threadgroup_memory_length (threadgroup_memory_length_bytes s) = s"
    by (cases s) (simp add: read_threadgroup_memory_length_def threadgroup_memory_length_bytes_def layout_simps)
  moreover have "threadgroup_memory_length_bytes (read_threadgroup_memory_length v) = v" if "length v = 12"
    using that by (simp add: read_threadgroup_memory_length_def threadgroup_memory_length_bytes_def join_simps)
  ultimately show "length v = 12 \<Longrightarrow> read_threadgroup_memory_length v = s \<longleftrightarrow> v = threadgroup_memory_length_bytes s" by metis
qed (simp add: threadgroup_memory_length_bytes_def)

definition memory_barrier_resources_bytes :: "memory_barrier_resources \<Rightarrow> u8 list" where
  "memory_barrier_resources_bytes s =
     le32 (mbr_count s)"

lemma memory_barrier_resources_layout [compute_layout]:
  "length v = 4 \<Longrightarrow> read_memory_barrier_resources v = s \<longleftrightarrow> v = memory_barrier_resources_bytes s" "length (memory_barrier_resources_bytes s) = 4"
proof -
  have "read_memory_barrier_resources (memory_barrier_resources_bytes s) = s"
    by (cases s) (simp add: read_memory_barrier_resources_def memory_barrier_resources_bytes_def layout_simps)
  moreover have "memory_barrier_resources_bytes (read_memory_barrier_resources v) = v" if "length v = 4"
    using that by (simp add: read_memory_barrier_resources_def memory_barrier_resources_bytes_def join_simps)
  ultimately show "length v = 4 \<Longrightarrow> read_memory_barrier_resources v = s \<longleftrightarrow> v = memory_barrier_resources_bytes s" by metis
qed (simp add: memory_barrier_resources_bytes_def)

definition memory_barrier_scope_bytes :: "memory_barrier_scope \<Rightarrow> u8 list" where
  "memory_barrier_scope_bytes s =
     le16 (mbs_scope s)"

lemma memory_barrier_scope_layout [compute_layout]:
  "length v = 2 \<Longrightarrow> read_memory_barrier_scope v = s \<longleftrightarrow> v = memory_barrier_scope_bytes s" "length (memory_barrier_scope_bytes s) = 2"
proof -
  have "read_memory_barrier_scope (memory_barrier_scope_bytes s) = s"
    by (cases s) (simp add: read_memory_barrier_scope_def memory_barrier_scope_bytes_def layout_simps)
  moreover have "memory_barrier_scope_bytes (read_memory_barrier_scope v) = v" if "length v = 2"
    using that by (simp add: read_memory_barrier_scope_def memory_barrier_scope_bytes_def join_simps)
  ultimately show "length v = 2 \<Longrightarrow> read_memory_barrier_scope v = s \<longleftrightarrow> v = memory_barrier_scope_bytes s" by metis
qed (simp add: memory_barrier_scope_bytes_def)

definition execute_commands_range_bytes :: "execute_commands_range \<Rightarrow> u8 list" where
  "execute_commands_range_bytes s =
     le32 (ecr_icb_ref s) @ le64 (ecr_range_location s) @ le64 (ecr_range_length s)"

lemma execute_commands_range_layout [compute_layout]:
  "length v = 20 \<Longrightarrow> read_execute_commands_range v = s \<longleftrightarrow> v = execute_commands_range_bytes s" "length (execute_commands_range_bytes s) = 20"
proof -
  have "read_execute_commands_range (execute_commands_range_bytes s) = s"
    by (cases s) (simp add: read_execute_commands_range_def execute_commands_range_bytes_def layout_simps)
  moreover have "execute_commands_range_bytes (read_execute_commands_range v) = v" if "length v = 20"
    using that by (simp add: read_execute_commands_range_def execute_commands_range_bytes_def join_simps)
  ultimately show "length v = 20 \<Longrightarrow> read_execute_commands_range v = s \<longleftrightarrow> v = execute_commands_range_bytes s" by metis
qed (simp add: execute_commands_range_bytes_def)

definition execute_commands_indirect_bytes :: "execute_commands_indirect \<Rightarrow> u8 list" where
  "execute_commands_indirect_bytes s =
     le32 (eci_icb_ref s) @ le32 (eci_indirect_buffer_ref s) @ le64 (eci_indirect_buffer_offset s)"

lemma execute_commands_indirect_layout [compute_layout]:
  "length v = 16 \<Longrightarrow> read_execute_commands_indirect v = s \<longleftrightarrow> v = execute_commands_indirect_bytes s" "length (execute_commands_indirect_bytes s) = 16"
proof -
  have "read_execute_commands_indirect (execute_commands_indirect_bytes s) = s"
    by (cases s) (simp add: read_execute_commands_indirect_def execute_commands_indirect_bytes_def layout_simps)
  moreover have "execute_commands_indirect_bytes (read_execute_commands_indirect v) = v" if "length v = 16"
    using that by (simp add: read_execute_commands_indirect_def execute_commands_indirect_bytes_def join_simps)
  ultimately show "length v = 16 \<Longrightarrow> read_execute_commands_indirect v = s \<longleftrightarrow> v = execute_commands_indirect_bytes s" by metis
qed (simp add: execute_commands_indirect_bytes_def)

definition imageblock_size_bytes :: "imageblock_size \<Rightarrow> u8 list" where
  "imageblock_size_bytes s =
     le32 (ibs_width s) @ le32 (ibs_height s)"

lemma imageblock_size_layout [compute_layout]:
  "length v = 8 \<Longrightarrow> read_imageblock_size v = s \<longleftrightarrow> v = imageblock_size_bytes s" "length (imageblock_size_bytes s) = 8"
proof -
  have "read_imageblock_size (imageblock_size_bytes s) = s"
    by (cases s) (simp add: read_imageblock_size_def imageblock_size_bytes_def layout_simps)
  moreover have "imageblock_size_bytes (read_imageblock_size v) = v" if "length v = 8"
    using that by (simp add: read_imageblock_size_def imageblock_size_bytes_def join_simps)
  ultimately show "length v = 8 \<Longrightarrow> read_imageblock_size v = s \<longleftrightarrow> v = imageblock_size_bytes s" by metis
qed (simp add: imageblock_size_bytes_def)

definition pass_descriptor_bytes :: "pass_descriptor \<Rightarrow> u8 list" where
  "pass_descriptor_bytes s =
     le32 (pds_dispatch_type s)"

lemma pass_descriptor_layout [compute_layout]:
  "length v = 4 \<Longrightarrow> read_pass_descriptor v = s \<longleftrightarrow> v = pass_descriptor_bytes s" "length (pass_descriptor_bytes s) = 4"
proof -
  have "read_pass_descriptor (pass_descriptor_bytes s) = s"
    by (cases s) (simp add: read_pass_descriptor_def pass_descriptor_bytes_def layout_simps)
  moreover have "pass_descriptor_bytes (read_pass_descriptor v) = v" if "length v = 4"
    using that by (simp add: read_pass_descriptor_def pass_descriptor_bytes_def join_simps)
  ultimately show "length v = 4 \<Longrightarrow> read_pass_descriptor v = s \<longleftrightarrow> v = pass_descriptor_bytes s" by metis
qed (simp add: pass_descriptor_bytes_def)

definition control_flow_predicate_bytes :: "control_flow_predicate \<Rightarrow> u8 list" where
  "control_flow_predicate_bytes s =
     le32 (cfp_buffer_ref s) @ le64 (cfp_offset s) @ le32 (cfp_comparison s) @
     le32 (cfp_reference_value s)"

lemma control_flow_predicate_layout [compute_layout]:
  "length v = 20 \<Longrightarrow> read_control_flow_predicate v = s \<longleftrightarrow> v = control_flow_predicate_bytes s" "length (control_flow_predicate_bytes s) = 20"
proof -
  have "read_control_flow_predicate (control_flow_predicate_bytes s) = s"
    by (cases s) (simp add: read_control_flow_predicate_def control_flow_predicate_bytes_def layout_simps)
  moreover have "control_flow_predicate_bytes (read_control_flow_predicate v) = v" if "length v = 20"
    using that by (simp add: read_control_flow_predicate_def control_flow_predicate_bytes_def join_simps)
  ultimately show "length v = 20 \<Longrightarrow> read_control_flow_predicate v = s \<longleftrightarrow> v = control_flow_predicate_bytes s" by metis
qed (simp add: control_flow_predicate_bytes_def)

end
