(* ===== verification/ComputeDecode.thy ===== *)
theory ComputeDecode
  imports ComputeWire
begin

text \<open>
  The compute command decoder, runtime/decode/compute.rs: the command with every field of the source, the
  opcode tables, what each arm stores, and the decoder. Fixed-length arms share \<open>fixed_arm\<close> and bind
  arms \<open>counted_arm\<close>; the two arms that read their references with \<open>ld32\<close> keep the slices, which panic
  out of range.
\<close>

section \<open>Data\<close>

definition OP_USE_HEAPS :: u32 where "OP_USE_HEAPS = 0x86"
definition OP_USE_RESOURCES :: u32 where "OP_USE_RESOURCES = 0x87"
definition REJECTED_85 :: u32 where "REJECTED_85 = 0x85"
definition REJECTED_88 :: u32 where "REJECTED_88 = 0x88"
definition REJECTED_C7 :: u32 where "REJECTED_C7 = 0xc7"
definition COUNT_BASE :: nat where "COUNT_BASE = OP_HEADER_LEN + 4"
definition BIND_BASE :: nat where "BIND_BASE = OP_HEADER_LEN + 8"
definition REF_SIZE :: nat where "REF_SIZE = 4"
definition BUF_ENTRY :: nat where "BUF_ENTRY = 12"
definition BUF_STRIDE_ENTRY :: nat where "BUF_STRIDE_ENTRY = 20"
definition SAMPLER_LOD_ENTRY :: nat where "SAMPLER_LOD_ENTRY = 12"
definition EMPTY_LEN :: nat where "EMPTY_LEN = unat CONTROL_FLOW_MARKER_TOTAL_LEN"

lemmas [compute_opcodes] = OP_USE_HEAPS_def OP_USE_RESOURCES_def REJECTED_85_def REJECTED_88_def REJECTED_C7_def
lemmas compute_sizes = COUNT_BASE_def BIND_BASE_def REF_SIZE_def BUF_ENTRY_def BUF_STRIDE_ENTRY_def SAMPLER_LOD_ENTRY_def EMPTY_LEN_def
  OP_HEADER_LEN_def

datatype compute_status = ComputeShort | ComputeUnknownOpcode | ComputeUnsupportedOpcode

primrec compute_refusal :: "compute_status \<Rightarrow> string option" where
  "compute_refusal ComputeShort = Some ''compute_decode_short''"
| "compute_refusal ComputeUnknownOpcode = Some ''compute_decode_unknown_opcode''"
| "compute_refusal ComputeUnsupportedOpcode = Some ''compute_decode_unsupported_opcode''"

datatype opcode_confidence = ConfidenceUnknown | AppleEmittedConfirmed | AppleRejected

datatype compute_kind =
  CkUnknown
| CkUseHeaps | CkUseResources | CkPipeline | CkBufferBind
| CkBufferOffset | CkTextureBind | CkSamplerBind | CkSamplerLod
| CkDispatchThreadgroups | CkDispatchThreadgroupsIndirect | CkDispatchThreads | CkStageInRegion
| CkStageInRegionIndirect | CkThreadgroupMemory | CkUpdateFence | CkWaitFence
| CkBarrierResources | CkBarrierScope | CkImageblockDimensions | CkBufferBindAttributeStride
| CkBufferOffsetAttributeStride | CkDispatchType | CkDispatchThreadsIndirect | CkControlStartDoWhile
| CkControlEndDoWhile | CkControlStartWhile | CkControlEndWhile | CkControlStartIf
| CkControlStartElse | CkControlEndIf | CkCompressedTextureFlush | CkExecuteCommandsInBuffer
| CkExecuteCommandsInBufferIndirect

record size3 =
  s3_x :: u64
  s3_y :: u64
  s3_z :: u64

record buffer_binding =
  bb_ref :: u32
  bb_offset :: u64
  bb_attribute_stride :: u64
  bb_has_attribute_stride :: bool

text \<open>A \<open>RefBinding\<close> holds one reference and is kept as it.\<close>

record sampler_binding =
  sb_ref :: u32
  sb_lod_min_bits :: u32
  sb_lod_max_bits :: u32
  sb_has_lod_clamp :: bool

record region3 =
  r3_origin :: size3
  r3_size :: size3

record compute_command =
  cc_opcode :: u32
  cc_command_length :: u32
  cc_kind :: compute_kind
  cc_confidence :: opcode_confidence
  cc_pipeline_ref :: u32
  cc_first :: u32
  cc_count :: u32
  cc_buffers :: "buffer_binding list"
  cc_textures :: "u32 list"
  cc_samplers :: "sampler_binding list"
  cc_resources :: "u32 list"
  cc_heaps :: "u32 list"
  cc_grid :: size3
  cc_threads_per_threadgroup :: size3
  cc_indirect_buffer_ref :: u32
  cc_indirect_buffer_offset :: u64
  cc_buffer_offset :: u64
  cc_attribute_stride :: u64
  cc_imageblock_width :: u32
  cc_imageblock_height :: u32
  cc_dispatch_type :: u32
  cc_stage_in_region :: region3
  cc_stage_in_indirect_buffer_ref :: u32
  cc_stage_in_indirect_buffer_offset :: u64
  cc_threadgroup_memory_length :: u64
  cc_threadgroup_memory_index :: u32
  cc_resource_usage :: u32
  cc_fence_ref :: u32
  cc_barrier_scope :: u16
  cc_condition_buffer_ref :: u32
  cc_condition_buffer_offset :: u64
  cc_condition_comparison :: u32
  cc_condition_reference_value :: u32
  cc_indirect_command_buffer_ref :: u32
  cc_indirect_command_range_location :: u64
  cc_indirect_command_range_length :: u64
  cc_indirect_command_arguments_buffer_ref :: u32
  cc_indirect_command_arguments_buffer_offset :: u64

text \<open>\<open>Command::default()\<close>.\<close>

definition compute_command_default :: compute_command where
  "compute_command_default =
     \<lparr>cc_opcode = 0,
      cc_command_length = 0,
      cc_kind = CkUnknown,
      cc_confidence = ConfidenceUnknown,
      cc_pipeline_ref = 0,
      cc_first = 0,
      cc_count = 0,
      cc_buffers = [],
      cc_textures = [],
      cc_samplers = [],
      cc_resources = [],
      cc_heaps = [],
      cc_grid = \<lparr>s3_x = 0, s3_y = 0, s3_z = 0\<rparr>,
      cc_threads_per_threadgroup = \<lparr>s3_x = 0, s3_y = 0, s3_z = 0\<rparr>,
      cc_indirect_buffer_ref = 0,
      cc_indirect_buffer_offset = 0,
      cc_buffer_offset = 0,
      cc_attribute_stride = 0,
      cc_imageblock_width = 0,
      cc_imageblock_height = 0,
      cc_dispatch_type = 0,
      cc_stage_in_region = \<lparr>r3_origin = \<lparr>s3_x = 0, s3_y = 0, s3_z = 0\<rparr>, r3_size = \<lparr>s3_x = 0, s3_y = 0, s3_z = 0\<rparr>\<rparr>,
      cc_stage_in_indirect_buffer_ref = 0,
      cc_stage_in_indirect_buffer_offset = 0,
      cc_threadgroup_memory_length = 0,
      cc_threadgroup_memory_index = 0,
      cc_resource_usage = 0,
      cc_fence_ref = 0,
      cc_barrier_scope = 0,
      cc_condition_buffer_ref = 0,
      cc_condition_buffer_offset = 0,
      cc_condition_comparison = 0,
      cc_condition_reference_value = 0,
      cc_indirect_command_buffer_ref = 0,
      cc_indirect_command_range_location = 0,
      cc_indirect_command_range_length = 0,
      cc_indirect_command_arguments_buffer_ref = 0,
      cc_indirect_command_arguments_buffer_offset = 0\<rparr>"

section \<open>The opcode tables\<close>

definition opcode_supported :: "u32 \<Rightarrow> bool" where
  "opcode_supported opcode \<longleftrightarrow> opcode \<in>
     {OP_USE_HEAPS, OP_USE_RESOURCES, COMPUTE_OPCODE_DISPATCH_THREADGROUPS,
      COMPUTE_OPCODE_DISPATCH_THREADGROUPS_INDIRECT, COMPUTE_OPCODE_DISPATCH_THREADS,
      COMPUTE_OPCODE_SET_BUFFER, COMPUTE_OPCODE_SET_SAMPLER, COMPUTE_OPCODE_SET_SAMPLER_LOD,
      COMPUTE_OPCODE_SET_TEXTURE, COMPUTE_OPCODE_SET_BUFFER_OFFSET,
      COMPUTE_OPCODE_SET_PIPELINE_STATE, COMPUTE_OPCODE_SET_STAGE_IN_REGION,
      COMPUTE_OPCODE_SET_STAGE_IN_REGION_INDIRECT, COMPUTE_OPCODE_SET_THREADGROUP_MEMORY_LENGTH,
      COMPUTE_OPCODE_UPDATE_FENCE, COMPUTE_OPCODE_WAIT_FOR_FENCE,
      COMPUTE_OPCODE_MEMORY_BARRIER_RESOURCES, COMPUTE_OPCODE_MEMORY_BARRIER_SCOPE,
      COMPUTE_OPCODE_SET_IMAGEBLOCK_SIZE, COMPUTE_OPCODE_SET_BUFFER_STRIDE,
      COMPUTE_OPCODE_SET_BUFFER_OFFSET_STRIDE, COMPUTE_OPCODE_WRITE_DESCRIPTOR,
      COMPUTE_OPCODE_START_DO_WHILE, COMPUTE_OPCODE_END_DO_WHILE, COMPUTE_OPCODE_START_WHILE,
      COMPUTE_OPCODE_END_WHILE, COMPUTE_OPCODE_START_IF, COMPUTE_OPCODE_START_ELSE,
      COMPUTE_OPCODE_END_IF, COMPUTE_OPCODE_INSERT_COMPRESSED_TEXTURE_FLUSH,
      COMPUTE_OPCODE_EXECUTE_COMMANDS_RANGE, COMPUTE_OPCODE_EXECUTE_COMMANDS_INDIRECT,
      COMPUTE_OPCODE_DISPATCH_THREADS_INDIRECT}"

definition opcode_apple_rejected :: "u32 \<Rightarrow> bool" where
  "opcode_apple_rejected opcode \<longleftrightarrow> opcode \<in> {REJECTED_85, REJECTED_88, REJECTED_C7}"

definition opcode_confidence :: "u32 \<Rightarrow> opcode_confidence" where
  "opcode_confidence opcode =
     (if opcode_supported opcode then AppleEmittedConfirmed
      else if opcode_apple_rejected opcode then AppleRejected
      else ConfidenceUnknown)"

section \<open>The arms\<close>

text \<open>The references an arm reads one by one.\<close>

fun push_refs :: "u8 list \<Rightarrow> nat \<Rightarrow> nat list \<Rightarrow> ('e, u32 list) outcome" where
  "push_refs payload start [] = Ok []"
| "push_refs payload start (i # is) =
     obind (obind (slice_from payload (start + i * REF_SIZE)) ld32) (\<lambda>r.
       obind (push_refs payload start is) (\<lambda>rs. Ok (r # rs)))"

definition use_heaps_arm :: "op \<Rightarrow> compute_command \<Rightarrow> (compute_status, compute_command) outcome" where
  "use_heaps_arm op out =
     (let command_length = unat (oh_length (op_head op)); payload = op_payload op in
      if command_length < COUNT_BASE then Err ComputeShort
      else obind (obind (slice_from payload 0) ld32) (\<lambda>count.
        if \<not> var_len command_length COUNT_BASE count REF_SIZE then Err ComputeShort
        else obind (push_refs payload 4 [0..<unat count]) (\<lambda>refs.
          Ok (out\<lparr>cc_kind := CkUseHeaps, cc_count := count, cc_heaps := cc_heaps out @ refs\<rparr>))))"

definition use_resources_arm :: "op \<Rightarrow> compute_command \<Rightarrow> (compute_status, compute_command) outcome" where
  "use_resources_arm op out =
     (let command_length = unat (oh_length (op_head op)); payload = op_payload op in
      if command_length < BIND_BASE then Err ComputeShort
      else obind (obind (slice_from payload 0) ld32) (\<lambda>count.
        if \<not> var_len command_length BIND_BASE count REF_SIZE then Err ComputeShort
        else obind (obind (slice_from payload 4) ld32) (\<lambda>usage.
          obind (push_refs payload 8 [0..<unat count]) (\<lambda>refs.
            Ok (out\<lparr>cc_kind := CkUseResources, cc_count := count, cc_resource_usage := usage,
                    cc_resources := cc_resources out @ refs\<rparr>)))))"

definition empty_arm :: "op \<Rightarrow> compute_command \<Rightarrow> (compute_status, compute_command) outcome" where
  "empty_arm op out =
     (let opcode = oh_opcode (op_head op) in
      if unat (oh_length (op_head op)) \<noteq> EMPTY_LEN then Err ComputeShort
      else Ok (out\<lparr>cc_kind :=
             (if opcode = COMPUTE_OPCODE_START_DO_WHILE then CkControlStartDoWhile
              else if opcode = COMPUTE_OPCODE_END_WHILE then CkControlEndWhile
              else if opcode = COMPUTE_OPCODE_START_ELSE then CkControlStartElse
              else if opcode = COMPUTE_OPCODE_END_IF then CkControlEndIf
              else CkCompressedTextureFlush)\<rparr>))"

text \<open>What the other arms store.\<close>

definition set_pipeline :: "compute_ref \<Rightarrow> compute_command \<Rightarrow> compute_command" where
  "set_pipeline r out =
     out\<lparr>cc_kind := CkPipeline,
         cc_pipeline_ref := crf_object_ref r\<rparr>"

definition set_buffer_offset_fields :: "buffer_offset \<Rightarrow> compute_command \<Rightarrow> compute_command" where
  "set_buffer_offset_fields b out =
     out\<lparr>cc_kind := CkBufferOffset,
         cc_first := bfo_index b,
         cc_buffer_offset := bfo_offset b\<rparr>"

definition set_buffer_offset_stride_fields :: "buffer_offset_stride \<Rightarrow> compute_command \<Rightarrow> compute_command" where
  "set_buffer_offset_stride_fields b out =
     out\<lparr>cc_kind := CkBufferOffsetAttributeStride,
         cc_first := bos_index b,
         cc_buffer_offset := bos_offset b,
         cc_attribute_stride := bos_attribute_stride b\<rparr>"

definition set_dispatch :: "u32 \<Rightarrow> dispatch \<Rightarrow> compute_command \<Rightarrow> compute_command" where
  "set_dispatch opcode d out =
     out\<lparr>cc_kind := (if opcode = COMPUTE_OPCODE_DISPATCH_THREADGROUPS then CkDispatchThreadgroups else CkDispatchThreads),
         cc_grid := \<lparr>s3_x = dsp_groups_width d, s3_y = dsp_groups_height d, s3_z = dsp_groups_depth d\<rparr>,
         cc_threads_per_threadgroup := \<lparr>s3_x = dsp_threads_width d, s3_y = dsp_threads_height d, s3_z = dsp_threads_depth d\<rparr>\<rparr>"

definition set_dispatch_indirect :: "dispatch_indirect \<Rightarrow> compute_command \<Rightarrow> compute_command" where
  "set_dispatch_indirect d out =
     out\<lparr>cc_kind := CkDispatchThreadgroupsIndirect,
         cc_threads_per_threadgroup := \<lparr>s3_x = dsi_threads_width d, s3_y = dsi_threads_height d, s3_z = dsi_threads_depth d\<rparr>,
         cc_indirect_buffer_offset := dsi_indirect_buffer_offset d,
         cc_indirect_buffer_ref := dsi_indirect_buffer_ref d\<rparr>"

definition set_dispatch_threads_indirect :: "dispatch_threads_indirect \<Rightarrow> compute_command \<Rightarrow> compute_command" where
  "set_dispatch_threads_indirect d out =
     out\<lparr>cc_kind := CkDispatchThreadsIndirect,
         cc_indirect_buffer_offset := dti_indirect_buffer_offset d,
         cc_indirect_buffer_ref := dti_indirect_buffer_ref d\<rparr>"

definition set_stage_in :: "stage_in_region \<Rightarrow> compute_command \<Rightarrow> compute_command" where
  "set_stage_in r out =
     out\<lparr>cc_kind := CkStageInRegion,
         cc_stage_in_region := \<lparr>r3_origin = \<lparr>s3_x = sir_origin_x r, s3_y = sir_origin_y r, s3_z = sir_origin_z r\<rparr>, r3_size = \<lparr>s3_x = sir_size_width r, s3_y = sir_size_height r, s3_z = sir_size_depth r\<rparr>\<rparr>\<rparr>"

definition set_stage_in_indirect :: "stage_in_region_indirect \<Rightarrow> compute_command \<Rightarrow> compute_command" where
  "set_stage_in_indirect r out =
     out\<lparr>cc_kind := CkStageInRegionIndirect,
         cc_stage_in_indirect_buffer_ref := sii_indirect_buffer_ref r,
         cc_stage_in_indirect_buffer_offset := sii_indirect_buffer_offset r\<rparr>"

definition set_threadgroup_memory :: "threadgroup_memory_length \<Rightarrow> compute_command \<Rightarrow> compute_command" where
  "set_threadgroup_memory t out =
     out\<lparr>cc_kind := CkThreadgroupMemory,
         cc_threadgroup_memory_length := tml_length t,
         cc_threadgroup_memory_index := tml_index t\<rparr>"

definition set_fence :: "u32 \<Rightarrow> compute_ref \<Rightarrow> compute_command \<Rightarrow> compute_command" where
  "set_fence opcode r out =
     out\<lparr>cc_kind := (if opcode = COMPUTE_OPCODE_UPDATE_FENCE then CkUpdateFence else CkWaitFence),
         cc_fence_ref := crf_object_ref r\<rparr>"

definition set_barrier_scope :: "memory_barrier_scope \<Rightarrow> compute_command \<Rightarrow> compute_command" where
  "set_barrier_scope s out =
     out\<lparr>cc_kind := CkBarrierScope,
         cc_barrier_scope := mbs_scope s\<rparr>"

definition set_imageblock :: "imageblock_size \<Rightarrow> compute_command \<Rightarrow> compute_command" where
  "set_imageblock s out =
     out\<lparr>cc_kind := CkImageblockDimensions,
         cc_imageblock_width := ibs_width s,
         cc_imageblock_height := ibs_height s\<rparr>"

definition set_dispatch_type :: "pass_descriptor \<Rightarrow> compute_command \<Rightarrow> compute_command" where
  "set_dispatch_type d out =
     out\<lparr>cc_kind := CkDispatchType,
         cc_dispatch_type := pds_dispatch_type d\<rparr>"

definition set_predicate :: "u32 \<Rightarrow> control_flow_predicate \<Rightarrow> compute_command \<Rightarrow> compute_command" where
  "set_predicate opcode p out =
     out\<lparr>cc_kind := (if opcode = COMPUTE_OPCODE_START_WHILE then CkControlStartWhile else if opcode = COMPUTE_OPCODE_START_IF then CkControlStartIf else CkControlEndDoWhile),
         cc_condition_buffer_ref := cfp_buffer_ref p,
         cc_condition_buffer_offset := cfp_offset p,
         cc_condition_comparison := cfp_comparison p,
         cc_condition_reference_value := cfp_reference_value p\<rparr>"

definition set_execute_range :: "execute_commands_range \<Rightarrow> compute_command \<Rightarrow> compute_command" where
  "set_execute_range e out =
     out\<lparr>cc_kind := CkExecuteCommandsInBuffer,
         cc_indirect_command_buffer_ref := ecr_icb_ref e,
         cc_indirect_command_range_location := ecr_range_location e,
         cc_indirect_command_range_length := ecr_range_length e\<rparr>"

definition set_execute_indirect :: "execute_commands_indirect \<Rightarrow> compute_command \<Rightarrow> compute_command" where
  "set_execute_indirect e out =
     out\<lparr>cc_kind := CkExecuteCommandsInBufferIndirect,
         cc_indirect_command_buffer_ref := eci_icb_ref e,
         cc_indirect_command_arguments_buffer_ref := eci_indirect_buffer_ref e,
         cc_indirect_command_arguments_buffer_offset := eci_indirect_buffer_offset e\<rparr>"

definition set_buffers :: "bind_header \<Rightarrow> buffer_bind list \<Rightarrow> compute_command \<Rightarrow> compute_command" where
  "set_buffers head entries out =
     out\<lparr>cc_kind := CkBufferBind,
         cc_first := bh_first head,
         cc_count := bh_count head,
         cc_buffers := cc_buffers out @ map (\<lambda>e. \<lparr>bb_ref = bfb_buffer_ref e, bb_offset = bfb_offset e, bb_attribute_stride = 0, bb_has_attribute_stride = False\<rparr>) entries\<rparr>"

definition set_buffer_strides :: "bind_header \<Rightarrow> buffer_stride_bind list \<Rightarrow> compute_command \<Rightarrow> compute_command" where
  "set_buffer_strides head entries out =
     out\<lparr>cc_kind := CkBufferBindAttributeStride,
         cc_first := bh_first head,
         cc_count := bh_count head,
         cc_buffers := cc_buffers out @ map (\<lambda>e. \<lparr>bb_ref = bsb_buffer_ref e, bb_offset = bsb_offset e, bb_attribute_stride = bsb_attribute_stride e, bb_has_attribute_stride = True\<rparr>) entries\<rparr>"

definition set_samplers :: "bind_header \<Rightarrow> ref_bind list \<Rightarrow> compute_command \<Rightarrow> compute_command" where
  "set_samplers head entries out =
     out\<lparr>cc_kind := CkSamplerBind,
         cc_first := bh_first head,
         cc_count := bh_count head,
         cc_samplers := cc_samplers out @ map (\<lambda>e. \<lparr>sb_ref = rfb_object_ref e, sb_lod_min_bits = 0, sb_lod_max_bits = 0, sb_has_lod_clamp = False\<rparr>) entries\<rparr>"

definition set_textures :: "bind_header \<Rightarrow> ref_bind list \<Rightarrow> compute_command \<Rightarrow> compute_command" where
  "set_textures head entries out =
     out\<lparr>cc_kind := CkTextureBind,
         cc_first := bh_first head,
         cc_count := bh_count head,
         cc_textures := cc_textures out @ map rfb_object_ref entries\<rparr>"

definition set_sampler_lods :: "bind_header \<Rightarrow> sampler_lod_bind list \<Rightarrow> compute_command \<Rightarrow> compute_command" where
  "set_sampler_lods head entries out =
     out\<lparr>cc_kind := CkSamplerLod,
         cc_first := bh_first head,
         cc_count := bh_count head,
         cc_samplers := cc_samplers out @ map (\<lambda>e. \<lparr>sb_ref = slb_sampler_ref e, sb_lod_min_bits = slb_lod_min_clamp e, sb_lod_max_bits = slb_lod_max_clamp e, sb_has_lod_clamp = True\<rparr>) entries\<rparr>"

definition set_barrier_resources :: "memory_barrier_resources \<Rightarrow> ref_bind list \<Rightarrow> compute_command \<Rightarrow> compute_command" where
  "set_barrier_resources head refs out =
     out\<lparr>cc_kind := CkBarrierResources,
         cc_count := mbr_count head,
         cc_resources := cc_resources out @ map rfb_object_ref refs\<rparr>"

section \<open>The decoder\<close>

definition compute_arms :: "op \<Rightarrow> compute_command \<Rightarrow> (compute_status, compute_command) outcome" where
  "compute_arms op out =
     (let opcode = oh_opcode (op_head op) in
      if opcode = OP_USE_HEAPS
      then use_heaps_arm op out
      else if opcode = OP_USE_RESOURCES
      then use_resources_arm op out
      else if opcode = COMPUTE_OPCODE_SET_PIPELINE_STATE
      then fixed_arm SET_PIPELINE_STATE_TOTAL_LEN set_pipeline_state set_pipeline ComputeShort op out
      else if opcode = COMPUTE_OPCODE_SET_BUFFER
      then counted_arm BIND_BASE BUF_ENTRY bh_count buffer_binds set_buffers ComputeShort op out
      else if opcode = COMPUTE_OPCODE_SET_BUFFER_STRIDE
      then counted_arm BIND_BASE BUF_STRIDE_ENTRY bh_count buffer_stride_binds set_buffer_strides ComputeShort op out
      else if opcode = COMPUTE_OPCODE_SET_SAMPLER \<or> opcode = COMPUTE_OPCODE_SET_TEXTURE
      then counted_arm BIND_BASE REF_SIZE bh_count ref_binds (if opcode = COMPUTE_OPCODE_SET_SAMPLER then set_samplers else set_textures) ComputeShort op out
      else if opcode = COMPUTE_OPCODE_SET_SAMPLER_LOD
      then counted_arm BIND_BASE SAMPLER_LOD_ENTRY bh_count sampler_lod_binds set_sampler_lods ComputeShort op out
      else if opcode = COMPUTE_OPCODE_SET_BUFFER_OFFSET
      then fixed_arm SET_BUFFER_OFFSET_TOTAL_LEN set_buffer_offset set_buffer_offset_fields ComputeShort op out
      else if opcode = COMPUTE_OPCODE_SET_BUFFER_OFFSET_STRIDE
      then fixed_arm SET_BUFFER_OFFSET_STRIDE_TOTAL_LEN buffer_offset_stride_view set_buffer_offset_stride_fields ComputeShort op out
      else if opcode = COMPUTE_OPCODE_DISPATCH_THREADGROUPS
          \<or> opcode = COMPUTE_OPCODE_DISPATCH_THREADS
      then fixed_arm DISPATCH_TOTAL_LEN dispatch_view (set_dispatch opcode) ComputeShort op out
      else if opcode = COMPUTE_OPCODE_DISPATCH_THREADGROUPS_INDIRECT
      then fixed_arm DISPATCH_THREADGROUPS_INDIRECT_TOTAL_LEN dispatch_indirect_view set_dispatch_indirect ComputeShort op out
      else if opcode = COMPUTE_OPCODE_DISPATCH_THREADS_INDIRECT
      then fixed_arm DISPATCH_THREADS_INDIRECT_TOTAL_LEN dispatch_threads_indirect_view set_dispatch_threads_indirect ComputeShort op out
      else if opcode = COMPUTE_OPCODE_SET_STAGE_IN_REGION
      then fixed_arm SET_STAGE_IN_REGION_TOTAL_LEN set_stage_in_region set_stage_in ComputeShort op out
      else if opcode = COMPUTE_OPCODE_SET_STAGE_IN_REGION_INDIRECT
      then fixed_arm SET_STAGE_IN_REGION_INDIRECT_TOTAL_LEN set_stage_in_region_indirect set_stage_in_indirect ComputeShort op out
      else if opcode = COMPUTE_OPCODE_SET_THREADGROUP_MEMORY_LENGTH
      then fixed_arm SET_THREADGROUP_MEMORY_LENGTH_TOTAL_LEN set_threadgroup_memory_length set_threadgroup_memory ComputeShort op out
      else if opcode = COMPUTE_OPCODE_UPDATE_FENCE \<or> opcode = COMPUTE_OPCODE_WAIT_FOR_FENCE
      then fixed_arm FENCE_TOTAL_LEN fence_view (set_fence opcode) ComputeShort op out
      else if opcode = COMPUTE_OPCODE_MEMORY_BARRIER_RESOURCES
      then counted_arm COUNT_BASE REF_SIZE mbr_count memory_barrier_resources_view set_barrier_resources ComputeShort op out
      else if opcode = COMPUTE_OPCODE_MEMORY_BARRIER_SCOPE
      then fixed_arm MEMORY_BARRIER_SCOPE_TOTAL_LEN memory_barrier_scope_view set_barrier_scope ComputeShort op out
      else if opcode = COMPUTE_OPCODE_SET_IMAGEBLOCK_SIZE
      then fixed_arm SET_IMAGEBLOCK_SIZE_TOTAL_LEN set_imageblock_size set_imageblock ComputeShort op out
      else if opcode = COMPUTE_OPCODE_WRITE_DESCRIPTOR
      then fixed_arm WRITE_DESCRIPTOR_TOTAL_LEN write_descriptor set_dispatch_type ComputeShort op out
      else if opcode = COMPUTE_OPCODE_START_WHILE
          \<or> opcode = COMPUTE_OPCODE_START_IF
          \<or> opcode = COMPUTE_OPCODE_END_DO_WHILE
      then fixed_arm CONTROL_FLOW_PREDICATE_TOTAL_LEN control_flow_predicate_view (set_predicate opcode) ComputeShort op out
      else if opcode = COMPUTE_OPCODE_START_DO_WHILE
          \<or> opcode = COMPUTE_OPCODE_END_WHILE
          \<or> opcode = COMPUTE_OPCODE_START_ELSE
          \<or> opcode = COMPUTE_OPCODE_END_IF
          \<or> opcode = COMPUTE_OPCODE_INSERT_COMPRESSED_TEXTURE_FLUSH
      then empty_arm op out
      else if opcode = COMPUTE_OPCODE_EXECUTE_COMMANDS_RANGE
      then fixed_arm EXECUTE_COMMANDS_RANGE_TOTAL_LEN execute_commands_range_view set_execute_range ComputeShort op out
      else if opcode = COMPUTE_OPCODE_EXECUTE_COMMANDS_INDIRECT
      then fixed_arm EXECUTE_COMMANDS_INDIRECT_TOTAL_LEN execute_commands_indirect_view set_execute_indirect ComputeShort op out
      else Err ComputeUnknownOpcode)"

definition compute_decode :: "u8 list \<Rightarrow> (compute_status, compute_command) outcome" where
  "compute_decode command =
     obind (map_err (\<lambda>_. ComputeShort) (op_at command 0)) (\<lambda>op.
       let opcode = oh_opcode (op_head op); confidence = opcode_confidence opcode in
       if confidence = ConfidenceUnknown then Err ComputeUnknownOpcode
       else if \<not> opcode_supported opcode then Err ComputeUnsupportedOpcode
       else compute_arms op
              (compute_command_default\<lparr>cc_opcode := opcode, cc_command_length := oh_length (op_head op),
                 cc_confidence := confidence\<rparr>))"

end
