(* ===== verification/ComputeFacts.thy ===== *)
theory ComputeFacts
  imports ComputeDecode
begin

text \<open>
  The compute decoder is exact: it accepts a buffer exactly when it starts with one of the encoder's
  records, a struct or a counted list of entries behind the header, and the command it returns says which
  record it was.
\<close>

section \<open>The payload structs\<close>

lemmas compute_view_defs = dispatch_view_def dispatch_indirect_view_def dispatch_threads_indirect_view_def
  set_buffer_offset_def buffer_offset_stride_view_def set_pipeline_state_def fence_view_def set_stage_in_region_def
  set_stage_in_region_indirect_def set_threadgroup_memory_length_def memory_barrier_scope_view_def
  execute_commands_range_view_def execute_commands_indirect_view_def set_imageblock_size_def write_descriptor_def
  control_flow_predicate_view_def

lemmas counted_view_defs = bind_entries_def buffer_binds_def ref_binds_def sampler_lod_binds_def buffer_stride_binds_def
  memory_barrier_resources_view_def

interpretation dispatch_struct: wire_struct read_dispatch dispatch_bytes 48
  by unfold_locales (simp_all add: dispatch_layout)

interpretation dispatch_indirect_struct: wire_struct read_dispatch_indirect dispatch_indirect_bytes 36
  by unfold_locales (simp_all add: dispatch_indirect_layout)

interpretation dispatch_threads_indirect_struct: wire_struct read_dispatch_threads_indirect dispatch_threads_indirect_bytes 12
  by unfold_locales (simp_all add: dispatch_threads_indirect_layout)

interpretation bind_header_struct: wire_struct read_bind_header bind_header_bytes 8
  by unfold_locales (simp_all add: bind_header_layout)

interpretation buffer_bind_struct: wire_struct read_buffer_bind buffer_bind_bytes 12
  by unfold_locales (simp_all add: buffer_bind_layout)

interpretation buffer_stride_bind_struct: wire_struct read_buffer_stride_bind buffer_stride_bind_bytes 20
  by unfold_locales (simp_all add: buffer_stride_bind_layout)

interpretation ref_bind_struct: wire_struct read_ref_bind ref_bind_bytes 4
  by unfold_locales (simp_all add: ref_bind_layout)

interpretation sampler_lod_bind_struct: wire_struct read_sampler_lod_bind sampler_lod_bind_bytes 12
  by unfold_locales (simp_all add: sampler_lod_bind_layout)

interpretation buffer_offset_struct: wire_struct read_buffer_offset buffer_offset_bytes 12
  by unfold_locales (simp_all add: buffer_offset_layout)

interpretation buffer_offset_stride_struct: wire_struct read_buffer_offset_stride buffer_offset_stride_bytes 20
  by unfold_locales (simp_all add: buffer_offset_stride_layout)

interpretation compute_ref_struct: wire_struct read_compute_ref compute_ref_bytes 4
  by unfold_locales (simp_all add: compute_ref_layout)

interpretation stage_in_region_struct: wire_struct read_stage_in_region stage_in_region_bytes 48
  by unfold_locales (simp_all add: stage_in_region_layout)

interpretation stage_in_region_indirect_struct: wire_struct read_stage_in_region_indirect stage_in_region_indirect_bytes 12
  by unfold_locales (simp_all add: stage_in_region_indirect_layout)

interpretation threadgroup_memory_length_struct: wire_struct read_threadgroup_memory_length threadgroup_memory_length_bytes 12
  by unfold_locales (simp_all add: threadgroup_memory_length_layout)

interpretation memory_barrier_resources_struct: wire_struct read_memory_barrier_resources memory_barrier_resources_bytes 4
  by unfold_locales (simp_all add: memory_barrier_resources_layout)

interpretation memory_barrier_scope_struct: wire_struct read_memory_barrier_scope memory_barrier_scope_bytes 2
  by unfold_locales (simp_all add: memory_barrier_scope_layout)

interpretation execute_commands_range_struct: wire_struct read_execute_commands_range execute_commands_range_bytes 20
  by unfold_locales (simp_all add: execute_commands_range_layout)

interpretation execute_commands_indirect_struct: wire_struct read_execute_commands_indirect execute_commands_indirect_bytes 16
  by unfold_locales (simp_all add: execute_commands_indirect_layout)

interpretation imageblock_size_struct: wire_struct read_imageblock_size imageblock_size_bytes 8
  by unfold_locales (simp_all add: imageblock_size_layout)

interpretation pass_descriptor_struct: wire_struct read_pass_descriptor pass_descriptor_bytes 4
  by unfold_locales (simp_all add: pass_descriptor_layout)

interpretation control_flow_predicate_struct: wire_struct read_control_flow_predicate control_flow_predicate_bytes 20
  by unfold_locales (simp_all add: control_flow_predicate_layout)

interpretation word_struct: wire_struct "\<lambda>v. u32_at v 0" le32 4
proof
  fix v :: "u8 list" and s :: u32
  assume "length v = 4"
  then show "u32_at v 0 = s \<longleftrightarrow> v = le32 s" using le_field(2) [of 0 v] by (auto simp: layout_simps)
qed simp

interpretation buffer_binds: counted_record read_bind_header bind_header_bytes 8 read_buffer_bind buffer_bind_bytes 12 bh_count
  by unfold_locales simp

interpretation buffer_stride_binds: counted_record read_bind_header bind_header_bytes 8 read_buffer_stride_bind buffer_stride_bind_bytes 20 bh_count
  by unfold_locales simp

interpretation ref_binds: counted_record read_bind_header bind_header_bytes 8 read_ref_bind ref_bind_bytes 4 bh_count
  by unfold_locales simp

interpretation sampler_lod_binds: counted_record read_bind_header bind_header_bytes 8 read_sampler_lod_bind sampler_lod_bind_bytes 12 bh_count
  by unfold_locales simp

interpretation barrier_refs: counted_record read_memory_barrier_resources memory_barrier_resources_bytes 4
  read_ref_bind ref_bind_bytes 4 mbr_count
  by unfold_locales simp

section \<open>The records of the encoder\<close>

datatype compute_payload =
  CHeaps "u32 list"
| CResources u32 "u32 list"
| CBuffers u32 "buffer_bind list"
| CBufferStrides u32 "buffer_stride_bind list"
| CRefs u32 "ref_bind list"
| CSamplerLods u32 "sampler_lod_bind list"
| CBarrierResources "ref_bind list"
| CMarker
| CRef compute_ref
| CBufferOffset buffer_offset
| CBufferOffsetStride buffer_offset_stride
| CDispatch dispatch
| CDispatchIndirect dispatch_indirect
| CDispatchThreadsIndirect dispatch_threads_indirect
| CStageIn stage_in_region
| CStageInIndirect stage_in_region_indirect
| CThreadgroupMemory threadgroup_memory_length
| CBarrierScope memory_barrier_scope
| CImageblock imageblock_size
| CPass pass_descriptor
| CPredicate control_flow_predicate
| CExecuteRange execute_commands_range
| CExecuteIndirect execute_commands_indirect

text \<open>The bytes of a payload; a counted one carries the number of its entries. Then how many bytes after
  it the encoder leaves unwritten, and the opcodes that carry it.\<close>

definition counted :: "u32 \<Rightarrow> 'a list \<Rightarrow> bind_header" where
  "counted first xs = \<lparr>bh_first = first, bh_count = of_nat (length xs)\<rparr>"

primrec compute_bytes :: "compute_payload \<Rightarrow> u8 list" where
  "compute_bytes (CHeaps refs) = le32 (of_nat (length refs)) @ word_struct.list_bytes refs"
| "compute_bytes (CResources usage refs) = le32 (of_nat (length refs)) @ le32 usage @ word_struct.list_bytes refs"
| "compute_bytes (CBuffers first xs) = bind_header_bytes (counted first xs) @ buffer_bind_struct.list_bytes xs"
| "compute_bytes (CBufferStrides first xs) = bind_header_bytes (counted first xs) @ buffer_stride_bind_struct.list_bytes xs"
| "compute_bytes (CRefs first xs) = bind_header_bytes (counted first xs) @ ref_bind_struct.list_bytes xs"
| "compute_bytes (CSamplerLods first xs) = bind_header_bytes (counted first xs) @ sampler_lod_bind_struct.list_bytes xs"
| "compute_bytes (CBarrierResources xs) =
     memory_barrier_resources_bytes \<lparr>mbr_count = of_nat (length xs)\<rparr> @ ref_bind_struct.list_bytes xs"
| "compute_bytes CMarker = []"
| "compute_bytes (CRef s) = compute_ref_bytes s"
| "compute_bytes (CBufferOffset s) = buffer_offset_bytes s"
| "compute_bytes (CBufferOffsetStride s) = buffer_offset_stride_bytes s"
| "compute_bytes (CDispatch s) = dispatch_bytes s"
| "compute_bytes (CDispatchIndirect s) = dispatch_indirect_bytes s"
| "compute_bytes (CDispatchThreadsIndirect s) = dispatch_threads_indirect_bytes s"
| "compute_bytes (CStageIn s) = stage_in_region_bytes s"
| "compute_bytes (CStageInIndirect s) = stage_in_region_indirect_bytes s"
| "compute_bytes (CThreadgroupMemory s) = threadgroup_memory_length_bytes s"
| "compute_bytes (CBarrierScope s) = memory_barrier_scope_bytes s"
| "compute_bytes (CImageblock s) = imageblock_size_bytes s"
| "compute_bytes (CPass s) = pass_descriptor_bytes s"
| "compute_bytes (CPredicate s) = control_flow_predicate_bytes s"
| "compute_bytes (CExecuteRange s) = execute_commands_range_bytes s"
| "compute_bytes (CExecuteIndirect s) = execute_commands_indirect_bytes s"

definition compute_unwritten :: "compute_payload \<Rightarrow> nat" where
  "compute_unwritten p = (case p of CBarrierScope _ \<Rightarrow> 2 | _ \<Rightarrow> 0)"

primrec compute_carries :: "u32 \<Rightarrow> compute_payload \<Rightarrow> bool" where
  "compute_carries opcode (CHeaps refs) \<longleftrightarrow> opcode = OP_USE_HEAPS"
| "compute_carries opcode (CResources usage refs) \<longleftrightarrow> opcode = OP_USE_RESOURCES"
| "compute_carries opcode (CBuffers first xs) \<longleftrightarrow> opcode = COMPUTE_OPCODE_SET_BUFFER"
| "compute_carries opcode (CBufferStrides first xs) \<longleftrightarrow> opcode = COMPUTE_OPCODE_SET_BUFFER_STRIDE"
| "compute_carries opcode (CRefs first xs) \<longleftrightarrow> is_ref_bind opcode"
| "compute_carries opcode (CSamplerLods first xs) \<longleftrightarrow> opcode = COMPUTE_OPCODE_SET_SAMPLER_LOD"
| "compute_carries opcode (CBarrierResources xs) \<longleftrightarrow> opcode = COMPUTE_OPCODE_MEMORY_BARRIER_RESOURCES"
| "compute_carries opcode CMarker \<longleftrightarrow> is_control_flow_marker opcode \<or> opcode = COMPUTE_OPCODE_INSERT_COMPRESSED_TEXTURE_FLUSH"
| "compute_carries opcode (CRef s) \<longleftrightarrow> is_fence opcode \<or> opcode = COMPUTE_OPCODE_SET_PIPELINE_STATE"
| "compute_carries opcode (CBufferOffset s) \<longleftrightarrow> opcode = COMPUTE_OPCODE_SET_BUFFER_OFFSET"
| "compute_carries opcode (CBufferOffsetStride s) \<longleftrightarrow> opcode = COMPUTE_OPCODE_SET_BUFFER_OFFSET_STRIDE"
| "compute_carries opcode (CDispatch s) \<longleftrightarrow> is_dispatch opcode"
| "compute_carries opcode (CDispatchIndirect s) \<longleftrightarrow> opcode = COMPUTE_OPCODE_DISPATCH_THREADGROUPS_INDIRECT"
| "compute_carries opcode (CDispatchThreadsIndirect s) \<longleftrightarrow> opcode = COMPUTE_OPCODE_DISPATCH_THREADS_INDIRECT"
| "compute_carries opcode (CStageIn s) \<longleftrightarrow> opcode = COMPUTE_OPCODE_SET_STAGE_IN_REGION"
| "compute_carries opcode (CStageInIndirect s) \<longleftrightarrow> opcode = COMPUTE_OPCODE_SET_STAGE_IN_REGION_INDIRECT"
| "compute_carries opcode (CThreadgroupMemory s) \<longleftrightarrow> opcode = COMPUTE_OPCODE_SET_THREADGROUP_MEMORY_LENGTH"
| "compute_carries opcode (CBarrierScope s) \<longleftrightarrow> opcode = COMPUTE_OPCODE_MEMORY_BARRIER_SCOPE"
| "compute_carries opcode (CImageblock s) \<longleftrightarrow> opcode = COMPUTE_OPCODE_SET_IMAGEBLOCK_SIZE"
| "compute_carries opcode (CPass s) \<longleftrightarrow> opcode = COMPUTE_OPCODE_WRITE_DESCRIPTOR"
| "compute_carries opcode (CPredicate s) \<longleftrightarrow> is_control_flow_predicate opcode"
| "compute_carries opcode (CExecuteRange s) \<longleftrightarrow> opcode = COMPUTE_OPCODE_EXECUTE_COMMANDS_RANGE"
| "compute_carries opcode (CExecuteIndirect s) \<longleftrightarrow> opcode = COMPUTE_OPCODE_EXECUTE_COMMANDS_INDIRECT"

text \<open>What the decoder stores for each.\<close>

primrec compute_fill :: "u32 \<Rightarrow> compute_payload \<Rightarrow> compute_command \<Rightarrow> compute_command" where
  "compute_fill opcode (CHeaps refs) out =
     out\<lparr>cc_kind := CkUseHeaps, cc_count := of_nat (length refs), cc_heaps := cc_heaps out @ refs\<rparr>"
| "compute_fill opcode (CResources usage refs) out =
     out\<lparr>cc_kind := CkUseResources, cc_count := of_nat (length refs), cc_resource_usage := usage,
         cc_resources := cc_resources out @ refs\<rparr>"
| "compute_fill opcode (CBuffers first xs) out = set_buffers (counted first xs) xs out"
| "compute_fill opcode (CBufferStrides first xs) out = set_buffer_strides (counted first xs) xs out"
| "compute_fill opcode (CRefs first xs) out =
     (if opcode = COMPUTE_OPCODE_SET_SAMPLER then set_samplers else set_textures) (counted first xs) xs out"
| "compute_fill opcode (CSamplerLods first xs) out = set_sampler_lods (counted first xs) xs out"
| "compute_fill opcode (CBarrierResources xs) out = set_barrier_resources \<lparr>mbr_count = of_nat (length xs)\<rparr> xs out"
| "compute_fill opcode CMarker out = out\<lparr>cc_kind :=
     (if opcode = COMPUTE_OPCODE_START_DO_WHILE then CkControlStartDoWhile
      else if opcode = COMPUTE_OPCODE_END_WHILE then CkControlEndWhile
      else if opcode = COMPUTE_OPCODE_START_ELSE then CkControlStartElse
      else if opcode = COMPUTE_OPCODE_END_IF then CkControlEndIf
      else CkCompressedTextureFlush)\<rparr>"
| "compute_fill opcode (CRef s) out =
     (if opcode = COMPUTE_OPCODE_SET_PIPELINE_STATE then set_pipeline s out else set_fence opcode s out)"
| "compute_fill opcode (CBufferOffset s) out = set_buffer_offset_fields s out"
| "compute_fill opcode (CBufferOffsetStride s) out = set_buffer_offset_stride_fields s out"
| "compute_fill opcode (CDispatch s) out = set_dispatch opcode s out"
| "compute_fill opcode (CDispatchIndirect s) out = set_dispatch_indirect s out"
| "compute_fill opcode (CDispatchThreadsIndirect s) out = set_dispatch_threads_indirect s out"
| "compute_fill opcode (CStageIn s) out = set_stage_in s out"
| "compute_fill opcode (CStageInIndirect s) out = set_stage_in_indirect s out"
| "compute_fill opcode (CThreadgroupMemory s) out = set_threadgroup_memory s out"
| "compute_fill opcode (CBarrierScope s) out = set_barrier_scope s out"
| "compute_fill opcode (CImageblock s) out = set_imageblock s out"
| "compute_fill opcode (CPass s) out = set_dispatch_type s out"
| "compute_fill opcode (CPredicate s) out = set_predicate opcode s out"
| "compute_fill opcode (CExecuteRange s) out = set_execute_range s out"
| "compute_fill opcode (CExecuteIndirect s) out = set_execute_indirect s out"

section \<open>The arms that read their references one by one\<close>

lemma read_at: "off + 4 \<le> length p \<Longrightarrow> obind (slice_from p off) ld32 = Ok (u32_at p off)"
  by (simp add: u32_at_def)

lemma push_refs_Ok:
  "(\<And>i. i \<in> set is \<Longrightarrow> start + i * 4 + 4 \<le> length p) \<Longrightarrow>
     push_refs p start is = Ok (map (\<lambda>i. u32_at p (start + i * 4)) is)"
proof (induction "is")
  case (Cons a "is")
  have "start + a * 4 + 4 \<le> length p" using Cons.prems by simp
  then show ?case using Cons by (simp add: REF_SIZE_def read_at del: slice_from_simps)
qed simp

lemma words_at: "length p = start + n * 4 \<Longrightarrow>
    word_struct.list_bytes (map (\<lambda>i. u32_at p (start + i * 4)) [0..<n]) = drop start p"
proof -
  assume len: "length p = start + n * 4"
  have "le32 (u32_at p (start + i * 4)) = take 4 (drop (i * 4) (drop start p))" if "i < n" for i
    using len that by (simp add: le_field add.commute)
  then have "word_struct.list_bytes (map (\<lambda>i. u32_at p (start + i * 4)) [0..<n])
      = concat (map (\<lambda>k. take 4 (drop (k * 4) (drop start p))) [0..<n])"
    by (auto simp: word_struct.list_bytes_def comp_def intro!: arg_cong [of _ _ concat])
  also have "\<dots> = take (n * 4) (drop start p)" using len by (intro word_struct.chunks) simp
  finally show ?thesis using len by simp
qed

lemma word_in_list: "i < length refs \<Longrightarrow> u32_at (p @ word_struct.list_bytes refs) (length p + i * 4) = refs ! i"
  using word_struct.chunk [of i refs "[]"] by (simp add: u32_at_def layout_simps)

lemma read_words:
  "map (\<lambda>i. u32_at (p @ word_struct.list_bytes refs) (length p + i * 4)) [0..<length refs] = refs"
  by (intro nth_equalityI) (simp_all add: word_in_list)

lemma framed_short: "framed op \<Longrightarrow> 8 + length (op_payload op) < 2 ^ 32"
  using unat_lt2p [of "oh_length (op_head op)"] by (simp add: framed_def)

lemma use_heaps_exact:
  assumes fr: "framed op"
  shows "use_heaps_arm op out = Ok c \<longleftrightarrow>
    (\<exists>refs. op_payload op = compute_bytes (CHeaps refs) \<and> c = compute_fill opcode (CHeaps refs) out)"
proof
  let ?p = "op_payload op" and ?n = "unat (u32_at (op_payload op) 0)"
  have len: "unat (oh_length (op_head op)) = 8 + length ?p" using fr by (simp add: framed_def)
  assume h: "use_heaps_arm op out = Ok c"
  then have "4 \<le> length ?p" by (auto simp: use_heaps_arm_def len compute_opcodes compute_sizes Let_def split: if_splits)
  then have r: "obind (slice_from ?p 0) ld32 = Ok (u32_at ?p 0)" by (intro read_at) simp
  with h have n: "length ?p = 4 + ?n * 4"
    by (auto simp: use_heaps_arm_def len compute_opcodes compute_sizes Let_def var_len_def r simp del: slice_from_simps split: if_splits)
  let ?refs = "map (\<lambda>i. u32_at ?p (4 + i * 4)) [0..<?n]"
  have pr: "(push_refs ?p 4 [0..<?n] :: (compute_status, u32 list) outcome) = Ok ?refs"
    using n by (intro push_refs_Ok) auto
  have "c = out\<lparr>cc_kind := CkUseHeaps, cc_count := u32_at ?p 0, cc_heaps := cc_heaps out @ ?refs\<rparr>"
    using h n framed_short [OF fr]
    by (simp add: use_heaps_arm_def len compute_opcodes compute_sizes Let_def var_len_def r pr del: slice_from_simps push_refs.simps)
  moreover have "?p = le32 (u32_at ?p 0) @ word_struct.list_bytes ?refs"
    using words_at [OF n] n by (simp add: join_simps)
  moreover have "(of_nat (length ?refs) :: u32) = u32_at ?p 0" by simp
  ultimately show "\<exists>refs. op_payload op = compute_bytes (CHeaps refs) \<and> c = compute_fill opcode (CHeaps refs) out"
    by (intro exI [of _ ?refs]) simp
next
  assume "\<exists>refs. op_payload op = compute_bytes (CHeaps refs) \<and> c = compute_fill opcode (CHeaps refs) out"
  then obtain refs where p: "op_payload op = le32 (of_nat (length refs)) @ word_struct.list_bytes refs"
    and c: "c = compute_fill opcode (CHeaps refs) out" by auto
  have len: "unat (oh_length (op_head op)) = 12 + length refs * 4"
    using fr p by (simp add: framed_def word_struct.length_list_bytes)
  then have n: "unat (of_nat (length refs) :: u32) = length refs"
    using unat_lt2p [of "oh_length (op_head op)"] by (intro unat_of_nat_small) simp
  have "(push_refs (op_payload op) 4 [0..<length refs] :: (compute_status, u32 list) outcome) = Ok refs"
    using read_words [of "le32 (of_nat (length refs))" refs]
    by (subst push_refs_Ok) (simp_all add: p word_struct.length_list_bytes)
  then show "use_heaps_arm op out = Ok c"
    using len n p unat_lt2p [of "oh_length (op_head op)"]
    by (simp add: use_heaps_arm_def compute_opcodes compute_sizes Let_def var_len_def c layout_simps)
qed

lemma use_resources_exact:
  assumes fr: "framed op"
  shows "use_resources_arm op out = Ok c \<longleftrightarrow>
    (\<exists>usage refs. op_payload op = compute_bytes (CResources usage refs) \<and> c = compute_fill opcode (CResources usage refs) out)"
proof
  let ?p = "op_payload op" and ?n = "unat (u32_at (op_payload op) 0)"
  have len: "unat (oh_length (op_head op)) = 8 + length ?p" using fr by (simp add: framed_def)
  assume h: "use_resources_arm op out = Ok c"
  then have "8 \<le> length ?p" by (auto simp: use_resources_arm_def len compute_opcodes compute_sizes Let_def split: if_splits)
  then have r: "obind (slice_from ?p 0) ld32 = Ok (u32_at ?p 0)" "obind (slice_from ?p 4) ld32 = Ok (u32_at ?p 4)"
    by (intro read_at; simp)+
  with h have n: "length ?p = 8 + ?n * 4"
    by (auto simp: use_resources_arm_def len compute_opcodes compute_sizes Let_def var_len_def r simp del: slice_from_simps split: if_splits)
  let ?refs = "map (\<lambda>i. u32_at ?p (8 + i * 4)) [0..<?n]"
  have pr: "(push_refs ?p 8 [0..<?n] :: (compute_status, u32 list) outcome) = Ok ?refs"
    using n by (intro push_refs_Ok) auto
  have "c = out\<lparr>cc_kind := CkUseResources, cc_count := u32_at ?p 0, cc_resource_usage := u32_at ?p 4,
      cc_resources := cc_resources out @ ?refs\<rparr>"
    using h n framed_short [OF fr]
    by (simp add: use_resources_arm_def len compute_opcodes compute_sizes Let_def var_len_def r pr del: slice_from_simps push_refs.simps)
  moreover have "?p = le32 (u32_at ?p 0) @ le32 (u32_at ?p 4) @ word_struct.list_bytes ?refs"
    using words_at [OF n] n by (simp add: join_simps)
  moreover have "(of_nat (length ?refs) :: u32) = u32_at ?p 0" by simp
  ultimately show "\<exists>usage refs. op_payload op = compute_bytes (CResources usage refs) \<and> c = compute_fill opcode (CResources usage refs) out"
    by (intro exI [of _ "u32_at ?p 4"] exI [of _ ?refs]) simp
next
  assume "\<exists>usage refs. op_payload op = compute_bytes (CResources usage refs) \<and> c = compute_fill opcode (CResources usage refs) out"
  then obtain usage refs where p: "op_payload op = le32 (of_nat (length refs)) @ le32 usage @ word_struct.list_bytes refs"
    and c: "c = compute_fill opcode (CResources usage refs) out" by auto
  have len: "unat (oh_length (op_head op)) = 16 + length refs * 4"
    using fr p by (simp add: framed_def word_struct.length_list_bytes)
  then have n: "unat (of_nat (length refs) :: u32) = length refs"
    using unat_lt2p [of "oh_length (op_head op)"] by (intro unat_of_nat_small) simp
  have "(push_refs (op_payload op) 8 [0..<length refs] :: (compute_status, u32 list) outcome) = Ok refs"
    using read_words [of "le32 (of_nat (length refs)) @ le32 usage" refs]
    by (subst push_refs_Ok) (simp_all add: p word_struct.length_list_bytes)
  then show "use_resources_arm op out = Ok c"
    using len n p unat_lt2p [of "oh_length (op_head op)"]
    by (simp add: use_resources_arm_def compute_opcodes compute_sizes Let_def var_len_def c layout_simps)
qed


section \<open>The other arms\<close>

lemmas fixed_struct_exact = compute_ref_struct.fixed_arm_exact
  buffer_offset_struct.fixed_arm_exact
  buffer_offset_stride_struct.fixed_arm_exact
  dispatch_struct.fixed_arm_exact
  dispatch_indirect_struct.fixed_arm_exact
  dispatch_threads_indirect_struct.fixed_arm_exact
  stage_in_region_struct.fixed_arm_exact
  stage_in_region_indirect_struct.fixed_arm_exact
  threadgroup_memory_length_struct.fixed_arm_exact
  memory_barrier_scope_struct.fixed_arm_exact
  imageblock_size_struct.fixed_arm_exact
  pass_descriptor_struct.fixed_arm_exact
  control_flow_predicate_struct.fixed_arm_exact
  execute_commands_range_struct.fixed_arm_exact
  execute_commands_indirect_struct.fixed_arm_exact

lemmas fixed_struct_no_panic = compute_ref_struct.fixed_arm_no_panic(1)
  buffer_offset_struct.fixed_arm_no_panic(1)
  buffer_offset_stride_struct.fixed_arm_no_panic(1)
  dispatch_struct.fixed_arm_no_panic(1)
  dispatch_indirect_struct.fixed_arm_no_panic(1)
  dispatch_threads_indirect_struct.fixed_arm_no_panic(1)
  stage_in_region_struct.fixed_arm_no_panic(1)
  stage_in_region_indirect_struct.fixed_arm_no_panic(1)
  threadgroup_memory_length_struct.fixed_arm_no_panic(1)
  memory_barrier_scope_struct.fixed_arm_no_panic(1)
  imageblock_size_struct.fixed_arm_no_panic(1)
  pass_descriptor_struct.fixed_arm_no_panic(1)
  control_flow_predicate_struct.fixed_arm_no_panic(1)
  execute_commands_range_struct.fixed_arm_no_panic(1)
  execute_commands_indirect_struct.fixed_arm_no_panic(1)

lemmas counted_struct_exact = buffer_binds.counted_arm_exact
  buffer_stride_binds.counted_arm_exact
  ref_binds.counted_arm_exact
  sampler_lod_binds.counted_arm_exact barrier_refs.counted_arm_exact

lemmas counted_struct_no_panic = buffer_binds.counted_arm_no_panic(1)
  buffer_stride_binds.counted_arm_no_panic(1)
  ref_binds.counted_arm_no_panic(1)
  sampler_lod_binds.counted_arm_no_panic(1) barrier_refs.counted_arm_no_panic(1)

lemma compute_fixed_exact:
  assumes "framed op"
  shows
    "fixed_arm SET_PIPELINE_STATE_TOTAL_LEN set_pipeline_state f0 e op out = Ok c \<longleftrightarrow> (\<exists>s pad. op_payload op = compute_ref_bytes s @ pad \<and> length pad = 0 \<and> c = f0 s out)"
    "fixed_arm FENCE_TOTAL_LEN fence_view f1 e op out = Ok c \<longleftrightarrow> (\<exists>s pad. op_payload op = compute_ref_bytes s @ pad \<and> length pad = 0 \<and> c = f1 s out)"
    "fixed_arm SET_BUFFER_OFFSET_TOTAL_LEN set_buffer_offset f2 e op out = Ok c \<longleftrightarrow> (\<exists>s pad. op_payload op = buffer_offset_bytes s @ pad \<and> length pad = 0 \<and> c = f2 s out)"
    "fixed_arm SET_BUFFER_OFFSET_STRIDE_TOTAL_LEN buffer_offset_stride_view f3 e op out = Ok c \<longleftrightarrow> (\<exists>s pad. op_payload op = buffer_offset_stride_bytes s @ pad \<and> length pad = 0 \<and> c = f3 s out)"
    "fixed_arm DISPATCH_TOTAL_LEN dispatch_view f4 e op out = Ok c \<longleftrightarrow> (\<exists>s pad. op_payload op = dispatch_bytes s @ pad \<and> length pad = 0 \<and> c = f4 s out)"
    "fixed_arm DISPATCH_THREADGROUPS_INDIRECT_TOTAL_LEN dispatch_indirect_view f5 e op out = Ok c \<longleftrightarrow> (\<exists>s pad. op_payload op = dispatch_indirect_bytes s @ pad \<and> length pad = 0 \<and> c = f5 s out)"
    "fixed_arm DISPATCH_THREADS_INDIRECT_TOTAL_LEN dispatch_threads_indirect_view f6 e op out = Ok c \<longleftrightarrow> (\<exists>s pad. op_payload op = dispatch_threads_indirect_bytes s @ pad \<and> length pad = 0 \<and> c = f6 s out)"
    "fixed_arm SET_STAGE_IN_REGION_TOTAL_LEN set_stage_in_region f7 e op out = Ok c \<longleftrightarrow> (\<exists>s pad. op_payload op = stage_in_region_bytes s @ pad \<and> length pad = 0 \<and> c = f7 s out)"
    "fixed_arm SET_STAGE_IN_REGION_INDIRECT_TOTAL_LEN set_stage_in_region_indirect f8 e op out = Ok c \<longleftrightarrow> (\<exists>s pad. op_payload op = stage_in_region_indirect_bytes s @ pad \<and> length pad = 0 \<and> c = f8 s out)"
    "fixed_arm SET_THREADGROUP_MEMORY_LENGTH_TOTAL_LEN set_threadgroup_memory_length f9 e op out = Ok c \<longleftrightarrow> (\<exists>s pad. op_payload op = threadgroup_memory_length_bytes s @ pad \<and> length pad = 0 \<and> c = f9 s out)"
    "fixed_arm MEMORY_BARRIER_SCOPE_TOTAL_LEN memory_barrier_scope_view f10 e op out = Ok c \<longleftrightarrow> (\<exists>s pad. op_payload op = memory_barrier_scope_bytes s @ pad \<and> length pad = 2 \<and> c = f10 s out)"
    "fixed_arm SET_IMAGEBLOCK_SIZE_TOTAL_LEN set_imageblock_size f11 e op out = Ok c \<longleftrightarrow> (\<exists>s pad. op_payload op = imageblock_size_bytes s @ pad \<and> length pad = 0 \<and> c = f11 s out)"
    "fixed_arm WRITE_DESCRIPTOR_TOTAL_LEN write_descriptor f12 e op out = Ok c \<longleftrightarrow> (\<exists>s pad. op_payload op = pass_descriptor_bytes s @ pad \<and> length pad = 0 \<and> c = f12 s out)"
    "fixed_arm CONTROL_FLOW_PREDICATE_TOTAL_LEN control_flow_predicate_view f13 e op out = Ok c \<longleftrightarrow> (\<exists>s pad. op_payload op = control_flow_predicate_bytes s @ pad \<and> length pad = 0 \<and> c = f13 s out)"
    "fixed_arm EXECUTE_COMMANDS_RANGE_TOTAL_LEN execute_commands_range_view f14 e op out = Ok c \<longleftrightarrow> (\<exists>s pad. op_payload op = execute_commands_range_bytes s @ pad \<and> length pad = 0 \<and> c = f14 s out)"
    "fixed_arm EXECUTE_COMMANDS_INDIRECT_TOTAL_LEN execute_commands_indirect_view f15 e op out = Ok c \<longleftrightarrow> (\<exists>s pad. op_payload op = execute_commands_indirect_bytes s @ pad \<and> length pad = 0 \<and> c = f15 s out)"
  by (rule fixed_struct_exact [OF assms]; simp add: compute_opcodes compute_sizes compute_view_defs)+

lemma count_eq: "unat (n :: u32) = length xs \<longleftrightarrow> length xs < 2 ^ 32 \<and> n = of_nat (length xs)"
proof
  assume n: "unat n = length xs"
  then have "n = of_nat (length xs)" by (metis of_nat_unat ucast_id)
  moreover have "length xs < 2 ^ 32" using n unat_lt2p [of n] by simp
  ultimately show "length xs < 2 ^ 32 \<and> n = of_nat (length xs)" by simp
qed (simp add: unat_of_nat_small)

lemma ex_counted:
  assumes "\<And>h xs. p = bind_header_bytes h @ f xs \<Longrightarrow> length xs < 2 ^ 32"
  shows "(\<exists>h xs. p = bind_header_bytes h @ f xs \<and> unat (bh_count h) = length xs \<and> Q h xs)
    \<longleftrightarrow> (\<exists>first xs. p = bind_header_bytes (counted first xs) @ f xs \<and> Q (counted first xs) xs)"
proof -
  have "bh_count h = of_nat (length xs) \<longleftrightarrow> h = counted (bh_first h) xs" for h and xs :: "'a list"
    by (cases h) (simp add: counted_def)
  moreover have "bh_count (counted i xs) = of_nat (length xs)" for i and xs :: "'a list" by (simp add: counted_def)
  ultimately show ?thesis unfolding count_eq using assms by metis
qed

lemma short_list: "framed op \<Longrightarrow> op_payload op = p @ xs \<Longrightarrow> length xs < 2 ^ 32"
  using framed_short [of op] by simp

lemma short_entries:
  assumes fr: "framed op"
  shows "op_payload op = p @ buffer_bind_struct.list_bytes xs0 \<Longrightarrow> length xs0 < 2 ^ 32"
    "op_payload op = p @ buffer_stride_bind_struct.list_bytes xs1 \<Longrightarrow> length xs1 < 2 ^ 32"
    "op_payload op = p @ ref_bind_struct.list_bytes xs2 \<Longrightarrow> length xs2 < 2 ^ 32"
    "op_payload op = p @ sampler_lod_bind_struct.list_bytes xs3 \<Longrightarrow> length xs3 < 2 ^ 32"
  by (drule short_list [OF fr], simp add: buffer_bind_struct.length_list_bytes buffer_stride_bind_struct.length_list_bytes
      ref_bind_struct.length_list_bytes sampler_lod_bind_struct.length_list_bytes)+

lemma compute_counted_exact:
  assumes "framed op"
  shows
    "counted_arm BIND_BASE BUF_ENTRY bh_count buffer_binds f0 e op out = Ok c \<longleftrightarrow>
      (\<exists>first xs. op_payload op = bind_header_bytes (counted first xs) @ buffer_bind_struct.list_bytes xs
        \<and> c = f0 (counted first xs) xs out)"
    "counted_arm BIND_BASE BUF_STRIDE_ENTRY bh_count buffer_stride_binds f1 e op out = Ok c \<longleftrightarrow>
      (\<exists>first xs. op_payload op = bind_header_bytes (counted first xs) @ buffer_stride_bind_struct.list_bytes xs
        \<and> c = f1 (counted first xs) xs out)"
    "counted_arm BIND_BASE REF_SIZE bh_count ref_binds f2 e op out = Ok c \<longleftrightarrow>
      (\<exists>first xs. op_payload op = bind_header_bytes (counted first xs) @ ref_bind_struct.list_bytes xs
        \<and> c = f2 (counted first xs) xs out)"
    "counted_arm BIND_BASE SAMPLER_LOD_ENTRY bh_count sampler_lod_binds f3 e op out = Ok c \<longleftrightarrow>
      (\<exists>first xs. op_payload op = bind_header_bytes (counted first xs) @ sampler_lod_bind_struct.list_bytes xs
        \<and> c = f3 (counted first xs) xs out)"
  by (subst ex_counted [symmetric], erule short_entries [OF assms],
      rule counted_struct_exact [OF assms]; simp add: compute_opcodes compute_sizes counted_view_defs)+

lemma compute_barrier_exact:
  assumes "framed op"
  shows "counted_arm COUNT_BASE REF_SIZE mbr_count memory_barrier_resources_view f e op out = Ok c \<longleftrightarrow>
      (\<exists>xs. op_payload op = memory_barrier_resources_bytes \<lparr>mbr_count = of_nat (length xs)\<rparr> @ ref_bind_struct.list_bytes xs
        \<and> c = f \<lparr>mbr_count = of_nat (length xs)\<rparr> xs out)" (is "?l \<longleftrightarrow> ?r")
proof -
  have "mbr_count h = of_nat (length xs) \<longleftrightarrow> h = \<lparr>mbr_count = of_nat (length xs)\<rparr>" for h and xs :: "ref_bind list"
    by (cases h) simp
  moreover have "?l \<longleftrightarrow> (\<exists>h xs. op_payload op = memory_barrier_resources_bytes h @ ref_bind_struct.list_bytes xs
      \<and> unat (mbr_count h) = length xs \<and> c = f h xs out)"
    by (rule counted_struct_exact [OF assms]; simp add: compute_opcodes compute_sizes counted_view_defs)
  ultimately show ?thesis unfolding count_eq using short_entries(3) [OF assms] by metis
qed

lemma compute_empty_exact:
  assumes "framed op"
  shows "empty_arm op out = Ok c \<longleftrightarrow> op_payload op = [] \<and> c = compute_fill (oh_opcode (op_head op)) CMarker out"
  using assms by (auto simp: empty_arm_def framed_def compute_opcodes compute_sizes Let_def)

lemma ex_compute_payload: "(\<exists>p. P p) \<longleftrightarrow>
    (\<exists>refs. P (CHeaps refs))
    \<or> (\<exists>usage refs. P (CResources usage refs))
    \<or> (\<exists>first xs. P (CBuffers first xs))
    \<or> (\<exists>first xs. P (CBufferStrides first xs))
    \<or> (\<exists>first xs. P (CRefs first xs))
    \<or> (\<exists>first xs. P (CSamplerLods first xs))
    \<or> (\<exists>xs. P (CBarrierResources xs))
    \<or> P CMarker
    \<or> (\<exists>s. P (CRef s))
    \<or> (\<exists>s. P (CBufferOffset s))
    \<or> (\<exists>s. P (CBufferOffsetStride s))
    \<or> (\<exists>s. P (CDispatch s))
    \<or> (\<exists>s. P (CDispatchIndirect s))
    \<or> (\<exists>s. P (CDispatchThreadsIndirect s))
    \<or> (\<exists>s. P (CStageIn s))
    \<or> (\<exists>s. P (CStageInIndirect s))
    \<or> (\<exists>s. P (CThreadgroupMemory s))
    \<or> (\<exists>s. P (CBarrierScope s))
    \<or> (\<exists>s. P (CImageblock s))
    \<or> (\<exists>s. P (CPass s))
    \<or> (\<exists>s. P (CPredicate s))
    \<or> (\<exists>s. P (CExecuteRange s))
    \<or> (\<exists>s. P (CExecuteIndirect s))"
  by (metis compute_payload.exhaust)

lemmas compute_shape_defs = is_dispatch_def is_ref_bind_def is_fence_def is_control_flow_predicate_def
  is_control_flow_marker_def

lemma compute_carries_iff: "(\<exists>p. compute_carries opcode p) \<longleftrightarrow> opcode_supported opcode"
  by (simp add: ex_compute_payload opcode_supported_def compute_shape_defs disj_ac)

text \<open>The dispatch, opcode by opcode.\<close>

lemma compute_arms_exact:
  assumes fr: "framed op"
  shows "compute_arms op out = Ok c \<longleftrightarrow>
    (\<exists>p pad. compute_carries (oh_opcode (op_head op)) p \<and> op_payload op = compute_bytes p @ pad
      \<and> length pad = compute_unwritten p \<and> c = compute_fill (oh_opcode (op_head op)) p out)" (is "?l \<longleftrightarrow> ?r")
proof (cases "opcode_supported (oh_opcode (op_head op))")
  case False
  then have "compute_arms op out = Err ComputeUnknownOpcode"
    by (simp add: compute_arms_def opcode_supported_def Let_def)
  moreover have "\<not> ?r" using False compute_carries_iff by blast
  ultimately show ?thesis by simp
next
  case True
  note a = compute_fixed_exact [OF fr] use_heaps_exact [OF fr, of _ _ "oh_opcode (op_head op)"]
    use_resources_exact [OF fr, of _ _ "oh_opcode (op_head op)"] compute_empty_exact [OF fr]
  note b = compute_counted_exact [OF fr] compute_barrier_exact [OF fr]
  have op_use_heaps: "?l \<longleftrightarrow> ?r" if "oh_opcode (op_head op) = OP_USE_HEAPS"
    unfolding compute_arms_def that Let_def
    by (simp add: compute_opcodes ex_compute_payload a [unfolded compute_opcodes] b [unfolded compute_opcodes] compute_shape_defs
        compute_unwritten_def that)
  have op_use_resources: "?l \<longleftrightarrow> ?r" if "oh_opcode (op_head op) = OP_USE_RESOURCES"
    unfolding compute_arms_def that Let_def
    by (simp add: compute_opcodes ex_compute_payload a [unfolded compute_opcodes] b [unfolded compute_opcodes] compute_shape_defs
        compute_unwritten_def that)
  have dispatch_threadgroups: "?l \<longleftrightarrow> ?r" if "oh_opcode (op_head op) = COMPUTE_OPCODE_DISPATCH_THREADGROUPS"
    unfolding compute_arms_def that Let_def
    by (simp add: compute_opcodes ex_compute_payload a [unfolded compute_opcodes] b [unfolded compute_opcodes] compute_shape_defs
        compute_unwritten_def that)
  have dispatch_threadgroups_indirect: "?l \<longleftrightarrow> ?r" if "oh_opcode (op_head op) = COMPUTE_OPCODE_DISPATCH_THREADGROUPS_INDIRECT"
    unfolding compute_arms_def that Let_def
    by (simp add: compute_opcodes ex_compute_payload a [unfolded compute_opcodes] b [unfolded compute_opcodes] compute_shape_defs
        compute_unwritten_def that)
  have dispatch_threads: "?l \<longleftrightarrow> ?r" if "oh_opcode (op_head op) = COMPUTE_OPCODE_DISPATCH_THREADS"
    unfolding compute_arms_def that Let_def
    by (simp add: compute_opcodes ex_compute_payload a [unfolded compute_opcodes] b [unfolded compute_opcodes] compute_shape_defs
        compute_unwritten_def that)
  have set_buffer: "?l \<longleftrightarrow> ?r" if "oh_opcode (op_head op) = COMPUTE_OPCODE_SET_BUFFER"
    unfolding compute_arms_def that Let_def
    by (simp add: compute_opcodes ex_compute_payload a [unfolded compute_opcodes] b [unfolded compute_opcodes] compute_shape_defs
        compute_unwritten_def that)
  have set_sampler: "?l \<longleftrightarrow> ?r" if "oh_opcode (op_head op) = COMPUTE_OPCODE_SET_SAMPLER"
    unfolding compute_arms_def that Let_def
    by (simp add: compute_opcodes ex_compute_payload a [unfolded compute_opcodes] b [unfolded compute_opcodes] compute_shape_defs
        compute_unwritten_def that)
  have set_sampler_lod: "?l \<longleftrightarrow> ?r" if "oh_opcode (op_head op) = COMPUTE_OPCODE_SET_SAMPLER_LOD"
    unfolding compute_arms_def that Let_def
    by (simp add: compute_opcodes ex_compute_payload a [unfolded compute_opcodes] b [unfolded compute_opcodes] compute_shape_defs
        compute_unwritten_def that)
  have set_texture: "?l \<longleftrightarrow> ?r" if "oh_opcode (op_head op) = COMPUTE_OPCODE_SET_TEXTURE"
    unfolding compute_arms_def that Let_def
    by (simp add: compute_opcodes ex_compute_payload a [unfolded compute_opcodes] b [unfolded compute_opcodes] compute_shape_defs
        compute_unwritten_def that)
  have set_buffer_offset: "?l \<longleftrightarrow> ?r" if "oh_opcode (op_head op) = COMPUTE_OPCODE_SET_BUFFER_OFFSET"
    unfolding compute_arms_def that Let_def
    by (simp add: compute_opcodes ex_compute_payload a [unfolded compute_opcodes] b [unfolded compute_opcodes] compute_shape_defs
        compute_unwritten_def that)
  have set_pipeline_state: "?l \<longleftrightarrow> ?r" if "oh_opcode (op_head op) = COMPUTE_OPCODE_SET_PIPELINE_STATE"
    unfolding compute_arms_def that Let_def
    by (simp add: compute_opcodes ex_compute_payload a [unfolded compute_opcodes] b [unfolded compute_opcodes] compute_shape_defs
        compute_unwritten_def that)
  have set_stage_in_region: "?l \<longleftrightarrow> ?r" if "oh_opcode (op_head op) = COMPUTE_OPCODE_SET_STAGE_IN_REGION"
    unfolding compute_arms_def that Let_def
    by (simp add: compute_opcodes ex_compute_payload a [unfolded compute_opcodes] b [unfolded compute_opcodes] compute_shape_defs
        compute_unwritten_def that)
  have set_stage_in_region_indirect: "?l \<longleftrightarrow> ?r" if "oh_opcode (op_head op) = COMPUTE_OPCODE_SET_STAGE_IN_REGION_INDIRECT"
    unfolding compute_arms_def that Let_def
    by (simp add: compute_opcodes ex_compute_payload a [unfolded compute_opcodes] b [unfolded compute_opcodes] compute_shape_defs
        compute_unwritten_def that)
  have set_threadgroup_memory_length: "?l \<longleftrightarrow> ?r" if "oh_opcode (op_head op) = COMPUTE_OPCODE_SET_THREADGROUP_MEMORY_LENGTH"
    unfolding compute_arms_def that Let_def
    by (simp add: compute_opcodes ex_compute_payload a [unfolded compute_opcodes] b [unfolded compute_opcodes] compute_shape_defs
        compute_unwritten_def that)
  have update_fence: "?l \<longleftrightarrow> ?r" if "oh_opcode (op_head op) = COMPUTE_OPCODE_UPDATE_FENCE"
    unfolding compute_arms_def that Let_def
    by (simp add: compute_opcodes ex_compute_payload a [unfolded compute_opcodes] b [unfolded compute_opcodes] compute_shape_defs
        compute_unwritten_def that)
  have wait_for_fence: "?l \<longleftrightarrow> ?r" if "oh_opcode (op_head op) = COMPUTE_OPCODE_WAIT_FOR_FENCE"
    unfolding compute_arms_def that Let_def
    by (simp add: compute_opcodes ex_compute_payload a [unfolded compute_opcodes] b [unfolded compute_opcodes] compute_shape_defs
        compute_unwritten_def that)
  have memory_barrier_resources: "?l \<longleftrightarrow> ?r" if "oh_opcode (op_head op) = COMPUTE_OPCODE_MEMORY_BARRIER_RESOURCES"
    unfolding compute_arms_def that Let_def
    by (simp add: compute_opcodes ex_compute_payload a [unfolded compute_opcodes] b [unfolded compute_opcodes] compute_shape_defs
        compute_unwritten_def that)
  have memory_barrier_scope: "?l \<longleftrightarrow> ?r" if "oh_opcode (op_head op) = COMPUTE_OPCODE_MEMORY_BARRIER_SCOPE"
    unfolding compute_arms_def that Let_def
    by (simp add: compute_opcodes ex_compute_payload a [unfolded compute_opcodes] b [unfolded compute_opcodes] compute_shape_defs
        compute_unwritten_def that)
  have set_imageblock_size: "?l \<longleftrightarrow> ?r" if "oh_opcode (op_head op) = COMPUTE_OPCODE_SET_IMAGEBLOCK_SIZE"
    unfolding compute_arms_def that Let_def
    by (simp add: compute_opcodes ex_compute_payload a [unfolded compute_opcodes] b [unfolded compute_opcodes] compute_shape_defs
        compute_unwritten_def that)
  have set_buffer_stride: "?l \<longleftrightarrow> ?r" if "oh_opcode (op_head op) = COMPUTE_OPCODE_SET_BUFFER_STRIDE"
    unfolding compute_arms_def that Let_def
    by (simp add: compute_opcodes ex_compute_payload a [unfolded compute_opcodes] b [unfolded compute_opcodes] compute_shape_defs
        compute_unwritten_def that)
  have set_buffer_offset_stride: "?l \<longleftrightarrow> ?r" if "oh_opcode (op_head op) = COMPUTE_OPCODE_SET_BUFFER_OFFSET_STRIDE"
    unfolding compute_arms_def that Let_def
    by (simp add: compute_opcodes ex_compute_payload a [unfolded compute_opcodes] b [unfolded compute_opcodes] compute_shape_defs
        compute_unwritten_def that)
  have write_descriptor: "?l \<longleftrightarrow> ?r" if "oh_opcode (op_head op) = COMPUTE_OPCODE_WRITE_DESCRIPTOR"
    unfolding compute_arms_def that Let_def
    by (simp add: compute_opcodes ex_compute_payload a [unfolded compute_opcodes] b [unfolded compute_opcodes] compute_shape_defs
        compute_unwritten_def that)
  have start_do_while: "?l \<longleftrightarrow> ?r" if "oh_opcode (op_head op) = COMPUTE_OPCODE_START_DO_WHILE"
    unfolding compute_arms_def that Let_def
    by (simp add: compute_opcodes ex_compute_payload a [unfolded compute_opcodes] b [unfolded compute_opcodes] compute_shape_defs
        compute_unwritten_def that)
  have end_do_while: "?l \<longleftrightarrow> ?r" if "oh_opcode (op_head op) = COMPUTE_OPCODE_END_DO_WHILE"
    unfolding compute_arms_def that Let_def
    by (simp add: compute_opcodes ex_compute_payload a [unfolded compute_opcodes] b [unfolded compute_opcodes] compute_shape_defs
        compute_unwritten_def that)
  have start_while: "?l \<longleftrightarrow> ?r" if "oh_opcode (op_head op) = COMPUTE_OPCODE_START_WHILE"
    unfolding compute_arms_def that Let_def
    by (simp add: compute_opcodes ex_compute_payload a [unfolded compute_opcodes] b [unfolded compute_opcodes] compute_shape_defs
        compute_unwritten_def that)
  have end_while: "?l \<longleftrightarrow> ?r" if "oh_opcode (op_head op) = COMPUTE_OPCODE_END_WHILE"
    unfolding compute_arms_def that Let_def
    by (simp add: compute_opcodes ex_compute_payload a [unfolded compute_opcodes] b [unfolded compute_opcodes] compute_shape_defs
        compute_unwritten_def that)
  have start_if: "?l \<longleftrightarrow> ?r" if "oh_opcode (op_head op) = COMPUTE_OPCODE_START_IF"
    unfolding compute_arms_def that Let_def
    by (simp add: compute_opcodes ex_compute_payload a [unfolded compute_opcodes] b [unfolded compute_opcodes] compute_shape_defs
        compute_unwritten_def that)
  have start_else: "?l \<longleftrightarrow> ?r" if "oh_opcode (op_head op) = COMPUTE_OPCODE_START_ELSE"
    unfolding compute_arms_def that Let_def
    by (simp add: compute_opcodes ex_compute_payload a [unfolded compute_opcodes] b [unfolded compute_opcodes] compute_shape_defs
        compute_unwritten_def that)
  have end_if: "?l \<longleftrightarrow> ?r" if "oh_opcode (op_head op) = COMPUTE_OPCODE_END_IF"
    unfolding compute_arms_def that Let_def
    by (simp add: compute_opcodes ex_compute_payload a [unfolded compute_opcodes] b [unfolded compute_opcodes] compute_shape_defs
        compute_unwritten_def that)
  have insert_compressed_texture_flush: "?l \<longleftrightarrow> ?r" if "oh_opcode (op_head op) = COMPUTE_OPCODE_INSERT_COMPRESSED_TEXTURE_FLUSH"
    unfolding compute_arms_def that Let_def
    by (simp add: compute_opcodes ex_compute_payload a [unfolded compute_opcodes] b [unfolded compute_opcodes] compute_shape_defs
        compute_unwritten_def that)
  have execute_commands_range: "?l \<longleftrightarrow> ?r" if "oh_opcode (op_head op) = COMPUTE_OPCODE_EXECUTE_COMMANDS_RANGE"
    unfolding compute_arms_def that Let_def
    by (simp add: compute_opcodes ex_compute_payload a [unfolded compute_opcodes] b [unfolded compute_opcodes] compute_shape_defs
        compute_unwritten_def that)
  have execute_commands_indirect: "?l \<longleftrightarrow> ?r" if "oh_opcode (op_head op) = COMPUTE_OPCODE_EXECUTE_COMMANDS_INDIRECT"
    unfolding compute_arms_def that Let_def
    by (simp add: compute_opcodes ex_compute_payload a [unfolded compute_opcodes] b [unfolded compute_opcodes] compute_shape_defs
        compute_unwritten_def that)
  have dispatch_threads_indirect: "?l \<longleftrightarrow> ?r" if "oh_opcode (op_head op) = COMPUTE_OPCODE_DISPATCH_THREADS_INDIRECT"
    unfolding compute_arms_def that Let_def
    by (simp add: compute_opcodes ex_compute_payload a [unfolded compute_opcodes] b [unfolded compute_opcodes] compute_shape_defs
        compute_unwritten_def that)
  from True show ?thesis
    unfolding opcode_supported_def insert_iff empty_iff
    by (elim disjE FalseE) (erule op_use_heaps
      op_use_resources
      dispatch_threadgroups
      dispatch_threadgroups_indirect
      dispatch_threads
      set_buffer
      set_sampler
      set_sampler_lod
      set_texture
      set_buffer_offset
      set_pipeline_state
      set_stage_in_region
      set_stage_in_region_indirect
      set_threadgroup_memory_length
      update_fence
      wait_for_fence
      memory_barrier_resources
      memory_barrier_scope
      set_imageblock_size
      set_buffer_stride
      set_buffer_offset_stride
      write_descriptor
      start_do_while
      end_do_while
      start_while
      end_while
      start_if
      start_else
      end_if
      insert_compressed_texture_flush
      execute_commands_range
      execute_commands_indirect
      dispatch_threads_indirect)+
qed

section \<open>The decoder is exact\<close>

text \<open>The command the decoder starts from, and the command of a record.\<close>

definition compute_start :: "u32 \<Rightarrow> u32 \<Rightarrow> compute_command" where
  "compute_start opcode len = compute_command_default\<lparr>cc_opcode := opcode, cc_command_length := len,
     cc_confidence := AppleEmittedConfirmed\<rparr>"

definition compute_command_of :: "u32 \<Rightarrow> compute_payload \<Rightarrow> compute_command" where
  "compute_command_of opcode p = compute_fill opcode p
     (compute_start opcode (of_nat (8 + length (compute_bytes p) + compute_unwritten p)))"

lemma rejected_not_supported: "opcode_apple_rejected opcode \<Longrightarrow> \<not> opcode_supported opcode"
  by (auto simp: opcode_apple_rejected_def opcode_supported_def compute_opcodes)

lemma compute_decode_cases:
  "compute_decode bs = obind (map_err (\<lambda>_. ComputeShort) (op_at bs 0)) (\<lambda>op.
     let opcode = oh_opcode (op_head op) in
     if opcode_supported opcode then compute_arms op (compute_start opcode (oh_length (op_head op)))
     else if opcode_apple_rejected opcode then Err ComputeUnsupportedOpcode
     else Err ComputeUnknownOpcode)"
  unfolding compute_decode_def
  by (rule arg_cong [of _ _ "obind _"])
    (auto simp: fun_eq_iff opcode_confidence_def compute_start_def Let_def)

lemma compute_decode_iff:
  "compute_decode bs = Ok c \<longleftrightarrow>
    (\<exists>opcode p pad rest. compute_carries opcode p \<and> length pad = compute_unwritten p
       \<and> 8 + length (compute_bytes p) + length pad < 2 ^ 32
       \<and> bs = encode_record opcode (compute_bytes p @ pad) @ rest \<and> c = compute_command_of opcode p)" (is "?l \<longleftrightarrow> ?r")
proof
  assume ?l
  then obtain op where op: "op_at bs 0 = Ok op" and
    arms: "compute_arms op (compute_start (oh_opcode (op_head op)) (oh_length (op_head op))) = Ok c"
    by (auto simp: compute_decode_cases obind_eq_Ok Let_def split: if_splits)
  from op obtain rest where r: "framed op" "8 + length (op_payload op) < 2 ^ 32"
    "oh_length (op_head op) = of_nat (8 + length (op_payload op))"
    "bs = encode_record (oh_opcode (op_head op)) (op_payload op) @ rest" by (rule op_at_record)
  from arms obtain p pad where "compute_carries (oh_opcode (op_head op)) p" "op_payload op = compute_bytes p @ pad"
    "length pad = compute_unwritten p"
    "c = compute_fill (oh_opcode (op_head op)) p (compute_start (oh_opcode (op_head op)) (oh_length (op_head op)))"
    using compute_arms_exact [OF r(1)] by blast
  with r show ?r
    by (intro exI [of _ "oh_opcode (op_head op)"] exI [of _ p] exI [of _ pad] exI [of _ rest])
      (simp add: compute_command_of_def add.assoc)
next
  assume ?r
  then obtain opcode p pad rest where c: "compute_carries opcode p" "length pad = compute_unwritten p"
    and len: "8 + length (compute_bytes p @ pad) < 2 ^ 32"
    and bs: "bs = encode_record opcode (compute_bytes p @ pad) @ rest" and v: "c = compute_command_of opcode p" by auto
  let ?op = "\<lparr>op_head = \<lparr>oh_opcode = opcode, oh_length = of_nat (8 + length (compute_bytes p @ pad))\<rparr>,
    op_payload = compute_bytes p @ pad, op_offset = 0\<rparr>"
  have op: "op_at bs 0 = Ok ?op" unfolding bs by (rule op_at_encode [OF len])
  then have fr: "framed ?op" by (simp add: op_at_framed)
  have "opcode_supported opcode" using c(1) compute_carries_iff by blast
  moreover have "compute_arms ?op (compute_start opcode (oh_length (op_head ?op))) = Ok c"
    using c by (subst compute_arms_exact [OF fr]) (auto simp: v compute_command_of_def add.assoc)
  ultimately show ?l unfolding compute_decode_cases op by (simp add: Let_def)
qed

text \<open>No arm panics, and the opcode verdicts come from the tables alone.\<close>

lemma var_len_payload: "framed op \<Longrightarrow> var_len (unat (oh_length (op_head op))) (8 + k) n 4 \<Longrightarrow>
    length (op_payload op) = k + unat n * 4"
  by (simp add: framed_def var_len_def)

lemma list_arms_no_panic:
  assumes fr: "framed op"
  shows "use_heaps_arm op out \<noteq> Panic" "use_heaps_arm op out = Err e \<Longrightarrow> e = ComputeShort"
    "use_resources_arm op out \<noteq> Panic" "use_resources_arm op out = Err e \<Longrightarrow> e = ComputeShort"
proof -
  let ?p = "op_payload op" and ?n = "unat (u32_at (op_payload op) 0)"
  have len: "unat (oh_length (op_head op)) = 8 + length ?p" using fr by (simp add: framed_def)
  have r: "off + 4 \<le> length ?p \<Longrightarrow> (obind (slice_from ?p off) ld32 :: (compute_status, u32) outcome) = Ok (u32_at ?p off)" for off
    by (rule read_at)
  have pr: "k + ?n * 4 \<le> length ?p \<Longrightarrow> (push_refs ?p k [0..<?n] :: (compute_status, u32 list) outcome)
      = Ok (map (\<lambda>i. u32_at ?p (k + i * 4)) [0..<?n])" for k
    by (intro push_refs_Ok) auto
  have h: "(\<exists>c. use_heaps_arm op out = Ok c) \<or> use_heaps_arm op out = Err ComputeShort"
    using r [of 0] pr [of 4]
    by (auto simp: use_heaps_arm_def Let_def len var_len_def compute_sizes simp del: slice_from_simps push_refs.simps)
  show "use_heaps_arm op out \<noteq> Panic" "use_heaps_arm op out = Err e \<Longrightarrow> e = ComputeShort" using h by auto
  have h: "(\<exists>c. use_resources_arm op out = Ok c) \<or> use_resources_arm op out = Err ComputeShort"
    using r [of 0] r [of 4] pr [of 8]
    by (auto simp: use_resources_arm_def Let_def len var_len_def compute_sizes simp del: slice_from_simps push_refs.simps)
  show "use_resources_arm op out \<noteq> Panic" "use_resources_arm op out = Err e \<Longrightarrow> e = ComputeShort" using h by auto
qed

lemma compute_fixed_no_panic:
  "fixed_arm n0 set_pipeline_state f0 e op out \<noteq> Panic"   "fixed_arm n1 fence_view f1 e op out \<noteq> Panic"
  "fixed_arm n2 set_buffer_offset f2 e op out \<noteq> Panic"
  "fixed_arm n3 buffer_offset_stride_view f3 e op out \<noteq> Panic"
  "fixed_arm n4 dispatch_view f4 e op out \<noteq> Panic"
  "fixed_arm n5 dispatch_indirect_view f5 e op out \<noteq> Panic"
  "fixed_arm n6 dispatch_threads_indirect_view f6 e op out \<noteq> Panic"
  "fixed_arm n7 set_stage_in_region f7 e op out \<noteq> Panic"
  "fixed_arm n8 set_stage_in_region_indirect f8 e op out \<noteq> Panic"
  "fixed_arm n9 set_threadgroup_memory_length f9 e op out \<noteq> Panic"
  "fixed_arm n10 memory_barrier_scope_view f10 e op out \<noteq> Panic"
  "fixed_arm n11 set_imageblock_size f11 e op out \<noteq> Panic"
  "fixed_arm n12 write_descriptor f12 e op out \<noteq> Panic"
  "fixed_arm n13 control_flow_predicate_view f13 e op out \<noteq> Panic"
  "fixed_arm n14 execute_commands_range_view f14 e op out \<noteq> Panic"
  "fixed_arm n15 execute_commands_indirect_view f15 e op out \<noteq> Panic"
  by (rule fixed_struct_no_panic; simp add: compute_view_defs)+

lemma compute_counted_no_panic:
  "counted_arm BIND_BASE BUF_ENTRY bh_count buffer_binds f0 e op out \<noteq> Panic"
  "counted_arm BIND_BASE BUF_STRIDE_ENTRY bh_count buffer_stride_binds f1 e op out \<noteq> Panic"
  "counted_arm BIND_BASE REF_SIZE bh_count ref_binds f2 e op out \<noteq> Panic"
  "counted_arm BIND_BASE SAMPLER_LOD_ENTRY bh_count sampler_lod_binds f3 e op out \<noteq> Panic"
  "counted_arm COUNT_BASE REF_SIZE mbr_count memory_barrier_resources_view f4 e op out \<noteq> Panic"
  by (rule counted_struct_no_panic; simp add: counted_view_defs)+

lemma compute_arms_no_panic: "framed op \<Longrightarrow> compute_arms op out \<noteq> Panic"
  unfolding compute_arms_def Let_def
  by (simp add: compute_fixed_no_panic compute_counted_no_panic list_arms_no_panic empty_arm_def Let_def)

lemma short_arms:
  "fixed_arm n parse f ComputeShort op out = Err e \<Longrightarrow> e = ComputeShort"
  "counted_arm b st cnt cparse g ComputeShort op out = Err e \<Longrightarrow> e = ComputeShort"
  "empty_arm op out = Err e \<Longrightarrow> e = ComputeShort"
  by (auto simp: fixed_arm_def counted_arm_def empty_arm_def obind_eq_Err map_err_Err Let_def split: if_splits)

lemma compute_arms_short:
  "framed op \<Longrightarrow> opcode_supported (oh_opcode (op_head op)) \<Longrightarrow> compute_arms op out = Err e \<Longrightarrow> e = ComputeShort"
  unfolding compute_arms_def Let_def
  by (simp add: opcode_supported_def split: if_splits)
    (blast intro: short_arms list_arms_no_panic)+

text \<open>The payload a command was made of.\<close>

definition compute_recover :: "compute_command \<Rightarrow> compute_payload" where
  "compute_recover c =
     (let g = cc_grid c; t = cc_threads_per_threadgroup c; reg = cc_stage_in_region c;
          plain = map (\<lambda>b. \<lparr>bfb_buffer_ref = bb_ref b, bfb_offset = bb_offset b\<rparr>) (cc_buffers c);
          strided = map (\<lambda>b. \<lparr>bsb_buffer_ref = bb_ref b, bsb_offset = bb_offset b, bsb_attribute_stride = bb_attribute_stride b\<rparr>) (cc_buffers c);
          predicate = \<lparr>cfp_buffer_ref = cc_condition_buffer_ref c, cfp_offset = cc_condition_buffer_offset c,
            cfp_comparison = cc_condition_comparison c, cfp_reference_value = cc_condition_reference_value c\<rparr>;
          sizes = \<lparr>dsp_groups_width = s3_x g, dsp_groups_height = s3_y g, dsp_groups_depth = s3_z g,
            dsp_threads_width = s3_x t, dsp_threads_height = s3_y t, dsp_threads_depth = s3_z t\<rparr>
      in case cc_kind c of
           CkUseHeaps \<Rightarrow> CHeaps (cc_heaps c)
         | CkUseResources \<Rightarrow> CResources (cc_resource_usage c) (cc_resources c)
         | CkPipeline \<Rightarrow> CRef \<lparr>crf_object_ref = cc_pipeline_ref c\<rparr>
         | CkUpdateFence \<Rightarrow> CRef \<lparr>crf_object_ref = cc_fence_ref c\<rparr>
         | CkWaitFence \<Rightarrow> CRef \<lparr>crf_object_ref = cc_fence_ref c\<rparr>
         | CkBufferBind \<Rightarrow> CBuffers (cc_first c) plain
         | CkBufferBindAttributeStride \<Rightarrow> CBufferStrides (cc_first c) strided
         | CkSamplerBind \<Rightarrow> CRefs (cc_first c) (map (\<lambda>s. \<lparr>rfb_object_ref = sb_ref s\<rparr>) (cc_samplers c))
         | CkTextureBind \<Rightarrow> CRefs (cc_first c) (map (\<lambda>r. \<lparr>rfb_object_ref = r\<rparr>) (cc_textures c))
         | CkSamplerLod \<Rightarrow> CSamplerLods (cc_first c) (map (\<lambda>s. \<lparr>slb_sampler_ref = sb_ref s,
             slb_lod_min_clamp = sb_lod_min_bits s, slb_lod_max_clamp = sb_lod_max_bits s\<rparr>) (cc_samplers c))
         | CkBarrierResources \<Rightarrow> CBarrierResources (map (\<lambda>r. \<lparr>rfb_object_ref = r\<rparr>) (cc_resources c))
         | CkBufferOffset \<Rightarrow> CBufferOffset \<lparr>bfo_index = cc_first c, bfo_offset = cc_buffer_offset c\<rparr>
         | CkBufferOffsetAttributeStride \<Rightarrow> CBufferOffsetStride \<lparr>bos_index = cc_first c,
             bos_offset = cc_buffer_offset c, bos_attribute_stride = cc_attribute_stride c\<rparr>
         | CkDispatchThreadgroups \<Rightarrow> CDispatch sizes
         | CkDispatchThreads \<Rightarrow> CDispatch sizes
         | CkDispatchThreadgroupsIndirect \<Rightarrow> CDispatchIndirect \<lparr>dsi_threads_width = s3_x t, dsi_threads_height = s3_y t,
             dsi_threads_depth = s3_z t, dsi_indirect_buffer_offset = cc_indirect_buffer_offset c,
             dsi_indirect_buffer_ref = cc_indirect_buffer_ref c\<rparr>
         | CkDispatchThreadsIndirect \<Rightarrow> CDispatchThreadsIndirect
             \<lparr>dti_indirect_buffer_offset = cc_indirect_buffer_offset c, dti_indirect_buffer_ref = cc_indirect_buffer_ref c\<rparr>
         | CkStageInRegion \<Rightarrow> CStageIn \<lparr>sir_size_width = s3_x (r3_size reg), sir_size_height = s3_y (r3_size reg),
             sir_size_depth = s3_z (r3_size reg), sir_origin_x = s3_x (r3_origin reg),
             sir_origin_y = s3_y (r3_origin reg), sir_origin_z = s3_z (r3_origin reg)\<rparr>
         | CkStageInRegionIndirect \<Rightarrow> CStageInIndirect \<lparr>sii_indirect_buffer_ref = cc_stage_in_indirect_buffer_ref c,
             sii_indirect_buffer_offset = cc_stage_in_indirect_buffer_offset c\<rparr>
         | CkThreadgroupMemory \<Rightarrow> CThreadgroupMemory \<lparr>tml_length = cc_threadgroup_memory_length c,
             tml_index = cc_threadgroup_memory_index c\<rparr>
         | CkBarrierScope \<Rightarrow> CBarrierScope \<lparr>mbs_scope = cc_barrier_scope c\<rparr>
         | CkImageblockDimensions \<Rightarrow> CImageblock \<lparr>ibs_width = cc_imageblock_width c, ibs_height = cc_imageblock_height c\<rparr>
         | CkDispatchType \<Rightarrow> CPass \<lparr>pds_dispatch_type = cc_dispatch_type c\<rparr>
         | CkControlStartWhile \<Rightarrow> CPredicate predicate
         | CkControlStartIf \<Rightarrow> CPredicate predicate
         | CkControlEndDoWhile \<Rightarrow> CPredicate predicate
         | CkExecuteCommandsInBuffer \<Rightarrow> CExecuteRange \<lparr>ecr_icb_ref = cc_indirect_command_buffer_ref c,
             ecr_range_location = cc_indirect_command_range_location c, ecr_range_length = cc_indirect_command_range_length c\<rparr>
         | CkExecuteCommandsInBufferIndirect \<Rightarrow> CExecuteIndirect \<lparr>eci_icb_ref = cc_indirect_command_buffer_ref c,
             eci_indirect_buffer_ref = cc_indirect_command_arguments_buffer_ref c,
             eci_indirect_buffer_offset = cc_indirect_command_arguments_buffer_offset c\<rparr>
         | _ \<Rightarrow> CMarker)"

lemmas compute_set_defs = set_pipeline_def set_buffer_offset_fields_def set_buffer_offset_stride_fields_def
  set_dispatch_def set_dispatch_indirect_def set_dispatch_threads_indirect_def set_stage_in_def
  set_stage_in_indirect_def set_threadgroup_memory_def set_fence_def set_barrier_scope_def set_imageblock_def
  set_dispatch_type_def set_predicate_def set_execute_range_def set_execute_indirect_def set_buffers_def
  set_buffer_strides_def set_samplers_def set_textures_def set_sampler_lods_def set_barrier_resources_def

lemma compute_fill_opcode: "cc_opcode (compute_fill opcode p out) = cc_opcode out"
  by (cases p) (simp_all add: compute_set_defs)

lemma compute_start_fields: "cc_opcode (compute_start opcode len) = opcode" "cc_heaps (compute_start opcode len) = []"
  "cc_buffers (compute_start opcode len) = []" "cc_samplers (compute_start opcode len) = []"
  "cc_textures (compute_start opcode len) = []" "cc_resources (compute_start opcode len) = []"
  by (simp_all add: compute_start_def compute_command_default_def)

lemma compute_recover_fill:
  "compute_carries opcode p \<Longrightarrow> compute_recover (compute_fill opcode p (compute_start opcode len)) = p"
  by (cases p) (auto simp: compute_recover_def compute_set_defs Let_def compute_start_fields compute_shape_defs
      compute_opcodes counted_def comp_def intro!: map_idI)

text \<open>C18: The compute decoder is exact. It accepts a buffer precisely when the buffer starts with one of
  the encoder's records: the header with a supported opcode and the record's total length, then that
  opcode's payload, which is a struct of little-endian fields or a count with as many entries or references
  behind it, then the bytes the encoder leaves unwritten. The command it returns names the opcode and holds
  every field and every entry of the payload, in order, so the record can be read back from it. A well
  framed record is refused as unsupported exactly when the encoder is known never to emit its opcode and as
  unknown when the table does not list it, and no bytes make the decoder panic.\<close>

theorem compute_decode_exact:
  "(compute_decode bs = Ok c \<longleftrightarrow>
      (\<exists>opcode p pad rest. compute_carries opcode p \<and> length pad = compute_unwritten p
         \<and> 8 + length (compute_bytes p) + length pad < 2 ^ 32
         \<and> bs = encode_record opcode (compute_bytes p @ pad) @ rest \<and> c = compute_command_of opcode p
         \<and> cc_opcode c = opcode \<and> compute_recover c = p))
   \<and> (compute_decode bs = Err ComputeUnsupportedOpcode \<longleftrightarrow>
        (\<exists>op. op_at bs 0 = Ok op \<and> opcode_apple_rejected (oh_opcode (op_head op))))
   \<and> (compute_decode bs = Err ComputeUnknownOpcode \<longleftrightarrow>
        (\<exists>op. op_at bs 0 = Ok op \<and> \<not> opcode_supported (oh_opcode (op_head op))
           \<and> \<not> opcode_apple_rejected (oh_opcode (op_head op))))
   \<and> compute_decode bs \<noteq> Panic"
proof (intro conjI)
  have "cc_opcode (compute_command_of opcode p) = opcode"
    "compute_carries opcode p \<Longrightarrow> compute_recover (compute_command_of opcode p) = p" for opcode p
    by (simp_all add: compute_command_of_def compute_fill_opcode compute_start_fields compute_recover_fill)
  then show "compute_decode bs = Ok c \<longleftrightarrow>
      (\<exists>opcode p pad rest. compute_carries opcode p \<and> length pad = compute_unwritten p
         \<and> 8 + length (compute_bytes p) + length pad < 2 ^ 32
         \<and> bs = encode_record opcode (compute_bytes p @ pad) @ rest \<and> c = compute_command_of opcode p
         \<and> cc_opcode c = opcode \<and> compute_recover c = p)"
    unfolding compute_decode_iff by metis
  have short: "e = ComputeShort" if "op_at bs 0 = Ok op" "opcode_supported (oh_opcode (op_head op))"
    "compute_arms op out = Err e" for op out e
    using compute_arms_short [OF _ that(2, 3)] that(1) by (auto simp: op_at_framed)
  show "compute_decode bs = Err ComputeUnsupportedOpcode \<longleftrightarrow>
      (\<exists>op. op_at bs 0 = Ok op \<and> opcode_apple_rejected (oh_opcode (op_head op)))"
    by (auto simp: compute_decode_cases obind_eq_Err map_err_Err Let_def dest: short rejected_not_supported split: if_splits)
  show "compute_decode bs = Err ComputeUnknownOpcode \<longleftrightarrow>
      (\<exists>op. op_at bs 0 = Ok op \<and> \<not> opcode_supported (oh_opcode (op_head op))
         \<and> \<not> opcode_apple_rejected (oh_opcode (op_head op)))"
    by (auto simp: compute_decode_cases obind_eq_Err map_err_Err Let_def dest: short split: if_splits)
  show "compute_decode bs \<noteq> Panic"
    using compute_arms_no_panic
    by (auto simp: compute_decode_cases obind_eq_Panic op_at_no_panic op_at_framed Let_def split: if_splits)
qed

end
