(* ===== verification/IosurfacePages.thy ===== *)
theory IosurfacePages
  imports WireFields PixelTables GuestMem
begin

text \<open>
  contract/iosurface_pages.rs: the guest's IOSurface records, the window a texture occupies in a
  surface, and the page table of a mapping. The memory of the mapper is a reader of guest addresses and
  the host's answer whether a page is RAM. Every load behind a length check is in range, so the loads of
  a descriptor are total here.
\<close>

section \<open>Constants\<close>

definition TYPE11_DESC_MIN_LEN :: nat where "TYPE11_DESC_MIN_LEN = 0x20"
definition TYPE11_DESC_MAPPING_ID :: nat where "TYPE11_DESC_MAPPING_ID = 0x00"
definition TYPE11_DESC_OBJECT_REF :: nat where "TYPE11_DESC_OBJECT_REF = 0x10"
definition TYPE11_DESC_PIXEL_FORMAT :: nat where "TYPE11_DESC_PIXEL_FORMAT = 0x16"
definition TYPE11_DESC_WIDTH :: nat where "TYPE11_DESC_WIDTH = 0x18"
definition TYPE11_DESC_HEIGHT :: nat where "TYPE11_DESC_HEIGHT = 0x1c"
definition MAPPER_REQUEST_ENTRY_LEN :: nat where "MAPPER_REQUEST_ENTRY_LEN = 16"
definition MAPPER_REQUEST_TYPE :: nat where "MAPPER_REQUEST_TYPE = 0x00"
definition MAPPER_REQUEST_MAPPING_ID :: nat where "MAPPER_REQUEST_MAPPING_ID = 0x04"
definition MAPPER_REQUEST_RESERVED :: nat where "MAPPER_REQUEST_RESERVED = 0x08"
definition MAPPER_REQUEST_MAP :: u32 where "MAPPER_REQUEST_MAP = 1"
definition MAPPER_REQUEST_UNMAP :: u32 where "MAPPER_REQUEST_UNMAP = 2"
definition ROW_BYTES_ALIGN :: u64 where "ROW_BYTES_ALIGN = 128"
definition DEVICE_PLANE_DESC_LEN :: nat where "DEVICE_PLANE_DESC_LEN = 0x40"
definition DEVICE_PLANE_OFFSET :: nat where "DEVICE_PLANE_OFFSET = 0x08"
definition DEVICE_PLANE_BASE :: nat where "DEVICE_PLANE_BASE = 0x0c"
definition DEVICE_PLANE_SIZE :: nat where "DEVICE_PLANE_SIZE = 0x10"
definition DEVICE_PLANE_DIMS :: nat where "DEVICE_PLANE_DIMS = 0x14"
definition DEVICE_PLANE_BPR :: nat where "DEVICE_PLANE_BPR = 0x1c"
definition DEVICE_PLANE_BPE :: nat where "DEVICE_PLANE_BPE = 0x20"
definition DIMS_WIDTH_SHIFT :: nat where "DIMS_WIDTH_SHIFT = 8"
definition DIMS_HEIGHT_SHIFT :: nat where "DIMS_HEIGHT_SHIFT = 40"
definition DIMS_EXTENT_MASK :: u64 where "DIMS_EXTENT_MASK = 0x00ffffff"
definition DEVICE_DESC_LEN :: nat where "DEVICE_DESC_LEN = 0x200"
definition DEVICE_DESC_PIXEL_FORMAT :: nat where "DEVICE_DESC_PIXEL_FORMAT = 0x04"
definition DEVICE_DESC_BASE_OFFSET :: nat where "DEVICE_DESC_BASE_OFFSET = 0x08"
definition DEVICE_DESC_ALLOC_SIZE :: nat where "DEVICE_DESC_ALLOC_SIZE = 0x10"
definition DEVICE_DESC_DIMS :: nat where "DEVICE_DESC_DIMS = 0x14"
definition DEVICE_DESC_BPR :: nat where "DEVICE_DESC_BPR = 0x1c"
definition DEVICE_DESC_BPE :: nat where "DEVICE_DESC_BPE = 0x20"
definition DEVICE_DESC_PLANE_COUNT :: nat where "DEVICE_DESC_PLANE_COUNT = 0x24"
definition DEVICE_DESC_PLANES :: nat where "DEVICE_DESC_PLANES = 0x40"
definition TYPE4_PLANE_CAP :: nat where "TYPE4_PLANE_CAP = 8"
definition PAGE_ENTRY_VALID :: u32 where "PAGE_ENTRY_VALID = 0x1"
definition PAGE_ENTRY_PFN_SHIFT :: nat where "PAGE_ENTRY_PFN_SHIFT = 2"
definition MAPPING_INTERNAL_BACKPTR :: u64 where "MAPPING_INTERNAL_BACKPTR = 0x18"
definition MAPPING_INTERNAL_ID :: u64 where "MAPPING_INTERNAL_ID = 0x30"
definition MAPPING_INTERNAL_DESC_PTR :: u64 where "MAPPING_INTERNAL_DESC_PTR = 0x38"
definition MAPPING_INTERNAL_SIZE :: u64 where "MAPPING_INTERNAL_SIZE = 0x40"
definition MAPPING_INTERNAL_EXPECTED_SIZE :: u32 where "MAPPING_INTERNAL_EXPECTED_SIZE = 0x200"
definition MAPPING_INTERNAL_PAGE_FIELD_48 :: u64 where "MAPPING_INTERNAL_PAGE_FIELD_48 = 0x48"
definition MAPPING_INTERNAL_PAGE_FIELD_50 :: u64 where "MAPPING_INTERNAL_PAGE_FIELD_50 = 0x50"
definition MAPPING_INTERNAL_PAGE_COUNT :: u64 where "MAPPING_INTERNAL_PAGE_COUNT = 0x70"
definition MAPPING_PAGE_TABLE_FROM_F48 :: u64 where "MAPPING_PAGE_TABLE_FROM_F48 = 0xb8"
definition ARM_KERNEL_VA_MASK :: u64 where "ARM_KERNEL_VA_MASK = 0xffffff0000000000"
definition ARM_KERNEL_VA_BASE :: u64 where "ARM_KERNEL_VA_BASE = 0xfffffe0000000000"
definition X86_KERNEL_VA_MIN :: u64 where "X86_KERNEL_VA_MIN = 0xffff800000000000"

named_theorems surface_consts \<open>the offsets and lengths of the surface records\<close>

lemmas [surface_consts] =
  TYPE11_DESC_MIN_LEN_def TYPE11_DESC_MAPPING_ID_def TYPE11_DESC_OBJECT_REF_def TYPE11_DESC_PIXEL_FORMAT_def
  TYPE11_DESC_WIDTH_def TYPE11_DESC_HEIGHT_def MAPPER_REQUEST_ENTRY_LEN_def MAPPER_REQUEST_TYPE_def
  MAPPER_REQUEST_MAPPING_ID_def MAPPER_REQUEST_RESERVED_def MAPPER_REQUEST_MAP_def MAPPER_REQUEST_UNMAP_def
  ROW_BYTES_ALIGN_def DEVICE_PLANE_DESC_LEN_def DEVICE_PLANE_OFFSET_def DEVICE_PLANE_BASE_def
  DEVICE_PLANE_SIZE_def DEVICE_PLANE_DIMS_def DEVICE_PLANE_BPR_def DEVICE_PLANE_BPE_def DIMS_WIDTH_SHIFT_def
  DIMS_HEIGHT_SHIFT_def DIMS_EXTENT_MASK_def DEVICE_DESC_LEN_def DEVICE_DESC_PIXEL_FORMAT_def
  DEVICE_DESC_BASE_OFFSET_def DEVICE_DESC_ALLOC_SIZE_def DEVICE_DESC_DIMS_def DEVICE_DESC_BPR_def
  DEVICE_DESC_BPE_def DEVICE_DESC_PLANE_COUNT_def DEVICE_DESC_PLANES_def TYPE4_PLANE_CAP_def

section \<open>Device descriptors\<close>

definition dims_extent :: "u64 \<Rightarrow> u32 \<times> u32" where
  "dims_extent dims =
     (ucast (drop_bit DIMS_WIDTH_SHIFT dims AND DIMS_EXTENT_MASK),
      ucast (drop_bit DIMS_HEIGHT_SHIFT dims AND DIMS_EXTENT_MASK))"

record device_surface =
  ds_pixel_format :: u32
  ds_base_offset :: u32
  ds_alloc_size :: u32
  ds_width :: u32
  ds_height :: u32
  ds_bytes_per_row :: u32
  ds_bytes_per_element :: u16
  ds_plane_count :: u8

record device_plane =
  dp_plane_offset :: u32
  dp_plane_base :: u32
  dp_plane_size :: u32
  dp_width :: u32
  dp_height :: u32
  dp_bytes_per_row :: u32
  dp_bytes_per_element :: u16

definition decode_device_surface :: "u8 list \<Rightarrow> device_surface option" where
  "decode_device_surface bytes =
     (if length bytes < DEVICE_DESC_LEN then None
      else let (width, height) = dims_extent (u64_at bytes DEVICE_DESC_DIMS) in
        Some \<lparr>ds_pixel_format = WireFields.u32_at bytes DEVICE_DESC_PIXEL_FORMAT,
              ds_base_offset = WireFields.u32_at bytes DEVICE_DESC_BASE_OFFSET,
              ds_alloc_size = WireFields.u32_at bytes DEVICE_DESC_ALLOC_SIZE,
              ds_width = width, ds_height = height,
              ds_bytes_per_row = WireFields.u32_at bytes DEVICE_DESC_BPR,
              ds_bytes_per_element = u16_at bytes DEVICE_DESC_BPE,
              ds_plane_count = bytes ! DEVICE_DESC_PLANE_COUNT\<rparr>)"

definition decode_device_plane :: "u8 list \<Rightarrow> device_plane option" where
  "decode_device_plane bytes =
     (if length bytes < DEVICE_PLANE_DESC_LEN then None
      else let (width, height) = dims_extent (u64_at bytes DEVICE_PLANE_DIMS) in
        Some \<lparr>dp_plane_offset = WireFields.u32_at bytes DEVICE_PLANE_OFFSET,
              dp_plane_base = WireFields.u32_at bytes DEVICE_PLANE_BASE,
              dp_plane_size = WireFields.u32_at bytes DEVICE_PLANE_SIZE,
              dp_width = width, dp_height = height,
              dp_bytes_per_row = WireFields.u32_at bytes DEVICE_PLANE_BPR,
              dp_bytes_per_element = u16_at bytes DEVICE_PLANE_BPE\<rparr>)"

definition device_desc_plane :: "u8 list \<Rightarrow> u32 \<Rightarrow> (device_plane \<times> u32) option" where
  "device_desc_plane desc plane_index =
     (if length desc < DEVICE_DESC_LEN then None
      else let plane_count = ucast (desc ! DEVICE_DESC_PLANE_COUNT) :: u32 in
        if plane_count = 0 \<or> unat plane_count > TYPE4_PLANE_CAP \<or> plane_index \<ge> plane_count then None
        else let plane_off = DEVICE_DESC_PLANES + unat plane_index * DEVICE_PLANE_DESC_LEN in
          if plane_off + DEVICE_PLANE_DESC_LEN > length desc then None
          else map_option (\<lambda>plane. (plane, plane_count))
                 (decode_device_plane (take DEVICE_PLANE_DESC_LEN (drop plane_off desc))))"

section \<open>Windows\<close>

definition span_page_count_shift :: "u64 \<Rightarrow> u32 \<Rightarrow> u64" where
  "span_page_count_shift min_size page_shift =
     (if min_size = 0 then 1 else shr64 (min_size - 1) page_shift + 1)"

definition page_size_of :: "u32 \<Rightarrow> u64" where
  "page_size_of page_shift = shl64 1 page_shift"

definition packed_span_estimate :: "u16 \<Rightarrow> u32 \<Rightarrow> u32 \<Rightarrow> u64 option" where
  "packed_span_estimate pixel_format width height =
     (if width = 0 \<or> height = 0 then None
      else Option.bind (bytes_per_pixel pixel_format) (\<lambda>bpp.
        Option.bind (checked_mul (ucast width :: u64) (ucast bpp)) (\<lambda>tight.
          Option.bind (align_up_u64 tight ROW_BYTES_ALIGN) (\<lambda>bpr.
            if bpr > 2 ^ 32 - 1 then None else checked_mul bpr (ucast height)))))"

definition sample_window_from_device_plane :: "device_plane \<Rightarrow> u16 \<Rightarrow> u32 \<Rightarrow> u32 \<Rightarrow> (u64 \<times> u32 \<times> u64) option" where
  "sample_window_from_device_plane plane pixel_format width height =
     (if width = 0 \<or> height = 0 then None
      else Option.bind (bytes_per_pixel pixel_format) (\<lambda>bpp.
        Option.bind (checked_mul (ucast width :: u64) (ucast bpp)) (\<lambda>tight.
          if dp_bytes_per_row plane = 0 \<or> ucast (dp_bytes_per_row plane) < tight then None
          else
            let surface_off = (if dp_plane_offset plane = 0 then ucast (dp_plane_base plane)
                               else ucast (dp_plane_offset plane)) :: u64 in
            Option.bind (checked_mul (ucast (dp_bytes_per_row plane) :: u64) (ucast (height - 1))) (\<lambda>rows.
              Option.bind (checked_add rows tight) (\<lambda>plane_bytes.
                Option.bind (checked_add surface_off plane_bytes) (\<lambda>span_end.
                  if dp_plane_size plane \<noteq> 0 \<and> ucast (dp_plane_size plane) < plane_bytes then None
                  else if (dp_width plane \<noteq> 0 \<and> dp_width plane < width)
                       \<or> (dp_height plane \<noteq> 0 \<and> dp_height plane < height) then None
                  else Some (surface_off, dp_bytes_per_row plane, span_end)))))))"

definition sample_window_from_device_surface :: "device_surface \<Rightarrow> u16 \<Rightarrow> u32 \<Rightarrow> u32 \<Rightarrow> (u64 \<times> u32 \<times> u64) option" where
  "sample_window_from_device_surface surf pixel_format width height =
     (if width = 0 \<or> height = 0 then None
      else Option.bind (bytes_per_pixel pixel_format) (\<lambda>bpp.
        Option.bind (checked_mul (ucast width :: u64) (ucast bpp)) (\<lambda>tight.
          if ds_bytes_per_row surf = 0 \<or> ucast (ds_bytes_per_row surf) < tight then None
          else if (ds_width surf \<noteq> 0 \<and> ds_width surf < width)
               \<or> (ds_height surf \<noteq> 0 \<and> ds_height surf < height) then None
          else
            Option.bind (checked_mul (ucast (ds_bytes_per_row surf) :: u64) (ucast (height - 1))) (\<lambda>rows.
              Option.bind (checked_add rows tight) (\<lambda>rows_span.
                Option.bind (checked_add (ucast (ds_base_offset surf)) rows_span) (\<lambda>span_end.
                  if ds_alloc_size surf \<noteq> 0 \<and> span_end > ucast (ds_alloc_size surf) then None
                  else Some (ucast (ds_base_offset surf), ds_bytes_per_row surf, span_end)))))))"

text \<open>The scan of the planes for the geometry: how many match, and the last that does.\<close>

definition plane_matches :: "u8 list \<Rightarrow> u32 \<Rightarrow> u32 \<Rightarrow> u32 \<Rightarrow> nat \<Rightarrow> device_plane option" where
  "plane_matches desc bpp width height p =
     (case device_desc_plane desc (of_nat p) of
        None \<Rightarrow> None
      | Some (cand, _) \<Rightarrow>
          if dp_width cand = width \<and> dp_height cand = height
             \<and> (dp_bytes_per_element cand = 0 \<or> ucast (dp_bytes_per_element cand) = bpp)
          then Some cand else None)"

definition planes_matching :: "u8 list \<Rightarrow> u32 \<Rightarrow> u32 \<Rightarrow> u32 \<Rightarrow> u8 \<Rightarrow> device_plane list" where
  "planes_matching desc bpp width height plane_count =
     List.map_filter (plane_matches desc bpp width height) [0..<min (unat plane_count) TYPE4_PLANE_CAP]"

definition sample_window_from_device_desc ::
  "u8 list option \<Rightarrow> u32 option \<Rightarrow> u16 \<Rightarrow> u32 \<Rightarrow> u32 \<Rightarrow> (u64 \<times> u32 \<times> u64) option" where
  "sample_window_from_device_desc desc plane_index pixel_format width height =
     Option.bind desc (\<lambda>desc.
       Option.bind (decode_device_surface desc) (\<lambda>surf.
         case (case plane_index of
                 None \<Rightarrow> None
               | Some p \<Rightarrow>
                   if ds_plane_count surf > 0
                   then Option.bind (device_desc_plane desc p)
                          (\<lambda>(cand, _). sample_window_from_device_plane cand pixel_format width height)
                   else None) of
           Some w \<Rightarrow> Some w
         | None \<Rightarrow>
             if ds_plane_count surf = 0
             then sample_window_from_device_surface surf pixel_format width height
             else Option.bind (bytes_per_pixel pixel_format) (\<lambda>bpp.
               case planes_matching desc bpp width height (ds_plane_count surf) of
                 [plane] \<Rightarrow> sample_window_from_device_plane plane pixel_format width height
               | _ \<Rightarrow> None)))"

definition mapping_span_bound :: "u8 list option \<Rightarrow> u16 \<Rightarrow> u32 \<Rightarrow> u32 \<Rightarrow> u64 option" where
  "mapping_span_bound desc pixel_format width height =
     (case sample_window_from_device_desc desc None pixel_format width height of
        Some (_, _, end) \<Rightarrow> Some end
      | None \<Rightarrow>
          Option.bind (packed_span_estimate pixel_format width height) (\<lambda>end.
            case Option.bind desc decode_device_surface of
              Some surf \<Rightarrow>
                if ds_alloc_size surf \<noteq> 0 \<and> end > ucast (ds_alloc_size surf) then None else Some end
            | None \<Rightarrow> Some end))"

section \<open>Page entries\<close>

definition entry_gpa_shift :: "u32 \<Rightarrow> u32 \<Rightarrow> u64 option" where
  "entry_gpa_shift entry page_shift =
     (if entry AND PAGE_ENTRY_VALID = 0 then None
      else Some (shl64 (ucast (drop_bit PAGE_ENTRY_PFN_SHIFT entry)) page_shift))"

section \<open>The mapper's records\<close>

record texture_descriptor =
  td_mapping_id64 :: u64
  td_mapping_id :: u32
  td_object_ref :: u32
  td_pixel_format :: u16
  td_width :: u32
  td_height :: u32

record mapper_request_entry =
  mre_request_type :: u32
  mre_mapping_id :: u32
  mre_reserved :: u64

record mapper_internal =
  mi_internal_kva :: u64
  mi_has_mapper_device :: bool
  mi_mapper_device_kva :: u64
  mi_owner_kva :: u64
  mi_mapping_id :: u32
  mi_internal_size :: u32
  mi_page_field_48 :: u64
  mi_page_field_50 :: u64
  mi_raw_page_count :: u64

record page_table_plan =
  ptp_entries :: "u32 list"
  ptp_page_table_kva :: u64
  ptp_min_size :: u64
  ptp_required_pages :: u64
  ptp_other_field_populated :: bool

datatype pages_status =
  PsShortDescriptor string | PsNotKernelVa string | PsInternalRead string | PsInternalOwner string
| PsInternalMappingId string | PsInternalSize string | PsInternalFields string | PsPageCount string
| PsPageTableRead string | PsPageEntry string | PsNoPageTable string

primrec pages_refusal :: "pages_status \<Rightarrow> string" where
  "pages_refusal (PsShortDescriptor r) = r"
| "pages_refusal (PsNotKernelVa r) = r"
| "pages_refusal (PsInternalRead r) = r"
| "pages_refusal (PsInternalOwner r) = r"
| "pages_refusal (PsInternalMappingId r) = r"
| "pages_refusal (PsInternalSize r) = r"
| "pages_refusal (PsInternalFields r) = r"
| "pages_refusal (PsPageCount r) = r"
| "pages_refusal (PsPageTableRead r) = r"
| "pages_refusal (PsPageEntry r) = r"
| "pages_refusal (PsNoPageTable r) = r"

definition decode_texture_descriptor :: "u8 list \<Rightarrow> pages_status + texture_descriptor" where
  "decode_texture_descriptor bytes =
     (if length bytes < TYPE11_DESC_MIN_LEN
      then Inl (PsShortDescriptor ''iosurface_texture_descriptor_short'')
      else Inr \<lparr>td_mapping_id64 = u64_at bytes TYPE11_DESC_MAPPING_ID,
                td_mapping_id = WireFields.u32_at bytes TYPE11_DESC_MAPPING_ID,
                td_object_ref = WireFields.u32_at bytes TYPE11_DESC_OBJECT_REF,
                td_pixel_format = u16_at bytes TYPE11_DESC_PIXEL_FORMAT,
                td_width = WireFields.u32_at bytes TYPE11_DESC_WIDTH,
                td_height = WireFields.u32_at bytes TYPE11_DESC_HEIGHT\<rparr>)"

definition decode_mapper_request_entry :: "u8 list \<Rightarrow> pages_status + mapper_request_entry" where
  "decode_mapper_request_entry bytes =
     (if length bytes < MAPPER_REQUEST_ENTRY_LEN
      then Inl (PsShortDescriptor ''iosurface_mapper_request_short'')
      else Inr \<lparr>mre_request_type = WireFields.u32_at bytes MAPPER_REQUEST_TYPE,
                mre_mapping_id = WireFields.u32_at bytes MAPPER_REQUEST_MAPPING_ID,
                mre_reserved = u64_at bytes MAPPER_REQUEST_RESERVED\<rparr>)"

definition mapper_request_entry_offset :: "u32 \<Rightarrow> u64" where
  "mapper_request_entry_offset index = ucast index * of_nat MAPPER_REQUEST_ENTRY_LEN"

definition mapper_request_published_entry_offset :: "u32 \<Rightarrow> u64 option" where
  "mapper_request_published_entry_offset producer =
     (if producer = 0 then None else Some (mapper_request_entry_offset (producer - 1)))"

section \<open>The page table of a mapping\<close>

definition arm_kernel_va :: "u64 \<Rightarrow> bool" where
  "arm_kernel_va address \<longleftrightarrow> address AND ARM_KERNEL_VA_MASK = ARM_KERNEL_VA_BASE"

definition x86_kernel_va :: "u64 \<Rightarrow> bool" where
  "x86_kernel_va address \<longleftrightarrow> address \<ge> X86_KERNEL_VA_MIN"

definition guest_kernel_va :: "u64 \<Rightarrow> bool" where
  "guest_kernel_va address \<longleftrightarrow> arm_kernel_va address \<or> x86_kernel_va address"

record pages_mem =
  pm_read :: reader
  pm_ram :: "u64 \<Rightarrow> bool"

definition read_u32 :: "pages_mem \<Rightarrow> u64 \<Rightarrow> u32 option" where
  "read_u32 mem address =
     (if address > - 1 - 3 then None else map_option le_word (pm_read mem address 4))"

definition read_u64 :: "pages_mem \<Rightarrow> u64 \<Rightarrow> u64 option" where
  "read_u64 mem address =
     (if address > - 1 - 7 then None else map_option le_word (pm_read mem address 8))"

definition read_u32_at :: "pages_mem \<Rightarrow> u64 \<Rightarrow> u64 \<Rightarrow> u32 option" where
  "read_u32_at mem base offset = Option.bind (checked_add base offset) (read_u32 mem)"

definition read_u64_at :: "pages_mem \<Rightarrow> u64 \<Rightarrow> u64 \<Rightarrow> u64 option" where
  "read_u64_at mem base offset = Option.bind (checked_add base offset) (read_u64 mem)"

text \<open>\<open>ok_or\<close>, and the sequence of fallible reads.\<close>

definition ok_or :: "'e \<Rightarrow> 'a option \<Rightarrow> 'e + 'a" where
  "ok_or e x = (case x of None \<Rightarrow> Inl e | Some y \<Rightarrow> Inr y)"

primrec sbind :: "'e + 'a \<Rightarrow> ('a \<Rightarrow> 'e + 'b) \<Rightarrow> 'e + 'b" where
  "sbind (Inl e) f = Inl e"
| "sbind (Inr x) f = f x"

lemma sbind_eq_Inr: "sbind m f = Inr y \<longleftrightarrow> (\<exists>x. m = Inr x \<and> f x = Inr y)"
  by (cases m) auto

lemma ok_or_eq_Inr [simp]: "ok_or e x = Inr y \<longleftrightarrow> x = Some y"
  by (simp add: ok_or_def split: option.split)

definition read_mapper_identity :: "pages_mem \<Rightarrow> u64 \<Rightarrow> bool \<Rightarrow> u64 \<Rightarrow> pages_status + mapper_internal" where
  "read_mapper_identity mem internal_kva has_mapper_device mapper_device_kva =
     (if \<not> guest_kernel_va internal_kva then Inl (PsNotKernelVa ''iosurface_mapper_internal_kva_invalid'')
      else if has_mapper_device \<and> \<not> guest_kernel_va mapper_device_kva
      then Inl (PsNotKernelVa ''iosurface_mapper_device_kva_invalid'')
      else sbind (ok_or (PsInternalRead ''iosurface_mapper_internal_owner_read'')
               (read_u64_at mem internal_kva MAPPING_INTERNAL_BACKPTR)) (\<lambda>owner_kva.
        sbind (ok_or (PsInternalRead ''iosurface_mapper_internal_mapping_id_read'')
               (read_u32_at mem internal_kva MAPPING_INTERNAL_ID)) (\<lambda>mapping_id.
          sbind (ok_or (PsInternalRead ''iosurface_mapper_internal_size_read'')
                 (read_u32_at mem internal_kva MAPPING_INTERNAL_SIZE)) (\<lambda>internal_size.
            Inr \<lparr>mi_internal_kva = internal_kva, mi_has_mapper_device = has_mapper_device,
                 mi_mapper_device_kva = mapper_device_kva, mi_owner_kva = owner_kva,
                 mi_mapping_id = mapping_id, mi_internal_size = internal_size,
                 mi_page_field_48 = 0, mi_page_field_50 = 0, mi_raw_page_count = 0\<rparr>))))"

definition read_mapper_internal :: "pages_mem \<Rightarrow> u64 \<Rightarrow> bool \<Rightarrow> u64 \<Rightarrow> pages_status + mapper_internal" where
  "read_mapper_internal mem internal_kva has_mapper_device mapper_device_kva =
     sbind (read_mapper_identity mem internal_kva has_mapper_device mapper_device_kva) (\<lambda>mi.
       sbind (ok_or (PsInternalRead ''iosurface_mapper_page_field_48_read'')
              (read_u64_at mem internal_kva MAPPING_INTERNAL_PAGE_FIELD_48)) (\<lambda>field_48.
         sbind (ok_or (PsInternalRead ''iosurface_mapper_page_field_50_read'')
                (read_u64_at mem internal_kva MAPPING_INTERNAL_PAGE_FIELD_50)) (\<lambda>field_50.
           sbind (ok_or (PsInternalRead ''iosurface_mapper_page_count_read'')
                  (read_u64_at mem internal_kva MAPPING_INTERNAL_PAGE_COUNT)) (\<lambda>count.
             Inr (mi\<lparr>mi_page_field_48 := field_48, mi_page_field_50 := field_50,
                         mi_raw_page_count := count\<rparr>)))))"

definition read_internal_desc_ptr :: "pages_mem \<Rightarrow> u64 \<Rightarrow> pages_status + u64" where
  "read_internal_desc_ptr mem internal_kva =
     sbind (ok_or (PsInternalRead ''iosurface_mapper_device_desc_pointer_read'')
            (read_u64_at mem internal_kva MAPPING_INTERNAL_DESC_PTR)) (\<lambda>desc_kva.
       if desc_kva = 0 then Inl (PsInternalFields ''iosurface_mapper_device_desc_pointer_zero'')
       else if \<not> guest_kernel_va desc_kva
       then Inl (PsInternalFields ''iosurface_mapper_device_desc_pointer_invalid'')
       else Inr desc_kva)"

text \<open>\<open>Status::Ok\<close> is \<open>Inr ()\<close>.\<close>

definition validate_mapper_internal :: "u32 \<Rightarrow> mapper_internal \<Rightarrow> pages_status + unit" where
  "validate_mapper_internal expected_mapping_id mi =
     (if \<not> guest_kernel_va (mi_internal_kva mi)
      then Inl (PsNotKernelVa ''iosurface_validate_internal_kva_invalid'')
      else if mi_mapping_id mi \<noteq> expected_mapping_id
      then Inl (PsInternalMappingId ''iosurface_validate_mapping_id_mismatch'')
      else if mi_internal_size mi \<noteq> MAPPING_INTERNAL_EXPECTED_SIZE
      then Inl (PsInternalSize ''iosurface_validate_internal_size_mismatch'')
      else if mi_has_mapper_device mi \<and> \<not> guest_kernel_va (mi_mapper_device_kva mi)
      then Inl (PsNotKernelVa ''iosurface_validate_mapper_device_kva_invalid'')
      else if mi_has_mapper_device mi \<and> mi_owner_kva mi \<noteq> mi_mapper_device_kva mi
      then Inl (PsInternalOwner ''iosurface_validate_internal_owner_mismatch'')
      else Inr ())"

text \<open>On a 64-bit host the entry bytes of a 32-bit count always fit an \<open>isize\<close>.\<close>

definition required_entry_count :: "mapper_internal \<Rightarrow> u64 \<Rightarrow> u32 \<Rightarrow> pages_status + u32" where
  "required_entry_count mi min_size page_shift =
     (let pages64 = mi_raw_page_count mi; required_pages = span_page_count_shift min_size page_shift in
      if pages64 = 0 \<or> pages64 < required_pages \<or> pages64 > 2 ^ 32 - 1
      then Inl (PsPageCount ''iosurface_page_count_invalid'')
      else if unat (saturating_mul pages64 4) > 2 ^ 63 - 1
      then Inl (PsPageCount ''iosurface_page_count_host_addressability'')
      else Inr (ucast pages64))"

definition table_entry :: "pages_mem \<Rightarrow> u64 \<Rightarrow> u32 \<Rightarrow> nat \<Rightarrow> pages_status + u32" where
  "table_entry mem table_kva page_shift i =
     sbind (ok_or (PsPageTableRead ''iosurface_page_table_entry_read'')
            (read_u32_at mem table_kva (of_nat i * 4))) (\<lambda>entry.
       sbind (ok_or (PsPageEntry ''iosurface_page_table_entry_invalid'') (entry_gpa_shift entry page_shift)) (\<lambda>gpa.
         if \<not> pm_ram mem gpa then Inl (PsPageEntry ''iosurface_page_table_gpa_not_ram'') else Inr entry))"

definition read_table_entries :: "pages_mem \<Rightarrow> u64 \<Rightarrow> u32 \<Rightarrow> u32 \<Rightarrow> pages_status + u32 list" where
  "read_table_entries mem table_kva pages page_shift =
     traverse (table_entry mem table_kva page_shift) [0..<unat pages]"

definition build_table_plan ::
  "pages_mem \<Rightarrow> u32 \<Rightarrow> mapper_internal \<Rightarrow> u64 \<Rightarrow> u32 \<Rightarrow> pages_status + page_table_plan" where
  "build_table_plan mem expected_mapping_id mi min_size page_shift =
     sbind (validate_mapper_internal expected_mapping_id mi) (\<lambda>_.
       let field_48_populated = guest_kernel_va (mi_page_field_48 mi);
           field_50_populated = guest_kernel_va (mi_page_field_50 mi)
       in if \<not> field_48_populated \<and> \<not> field_50_populated
          then Inl (PsInternalFields ''iosurface_page_table_fields_invalid'')
          else sbind (required_entry_count mi min_size page_shift) (\<lambda>pages.
            if \<not> field_48_populated then Inl (PsNoPageTable ''iosurface_page_table_only_field_50'')
            else sbind (case read_u64_at mem (mi_page_field_48 mi) MAPPING_PAGE_TABLE_FROM_F48 of
                     Some v \<Rightarrow> if guest_kernel_va v then Inr v
                               else Inl (PsNoPageTable ''iosurface_page_table_pointer_48_invalid'')
                   | None \<Rightarrow> Inl (PsPageTableRead ''iosurface_page_table_pointer_48_read'')) (\<lambda>table_kva.
              sbind (read_table_entries mem table_kva pages page_shift) (\<lambda>entries.
                Inr \<lparr>ptp_entries = entries, ptp_page_table_kva = table_kva, ptp_min_size = min_size,
                     ptp_required_pages = span_page_count_shift min_size page_shift,
                     ptp_other_field_populated = field_50_populated\<rparr>))))"

end
