(* ===== verification/Type4.thy ===== *)
theory Type4
  imports IosurfacePages OpStream
begin

text \<open>
  The type-4 surface descriptor: the wire records of crates/reims-vgpu-wire/src/device_desc.rs, their
  decoding in runtime/objects/mod.rs and the 0x200-byte device descriptor the device builds from one.
\<close>

section \<open>The wire records\<close>

definition TYPE4_HEADER_SIZE :: nat where "TYPE4_HEADER_SIZE = 0x14"
definition TYPE4_PLANE_STRIDE :: nat where "TYPE4_PLANE_STRIDE = 0x10"
definition TYPE4_PLANES :: nat where "TYPE4_PLANES = TYPE4_HEADER_SIZE"
definition TYPE4_MIN_LEN :: nat where "TYPE4_MIN_LEN = TYPE4_PLANES + TYPE4_PLANE_STRIDE"

lemmas type4_consts = TYPE4_HEADER_SIZE_def TYPE4_PLANE_STRIDE_def TYPE4_PLANES_def TYPE4_MIN_LEN_def

definition type4_len_for :: "nat \<Rightarrow> nat" where
  "type4_len_for plane_count = TYPE4_PLANES + plane_count * TYPE4_PLANE_STRIDE"

definition type4_header :: "u8 list \<Rightarrow> (wire_error, u8 list) outcome" where
  "type4_header desc = view TYPE4_HEADER_SIZE desc"

definition type4_plane_at :: "u8 list \<Rightarrow> nat \<Rightarrow> (wire_error, u8 list) outcome" where
  "type4_plane_at desc index = view_at TYPE4_PLANE_STRIDE desc (TYPE4_PLANES + index * TYPE4_PLANE_STRIDE)"

text \<open>The fields of \<open>Type4SurfaceHeader\<close> and \<open>Type4PlaneRecord\<close>.\<close>

definition th_length :: "u8 list \<Rightarrow> u64" where "th_length h = u64_at h 0"
definition th_backing_pfn :: "u8 list \<Rightarrow> u32" where "th_backing_pfn h = WireFields.u32_at h 8"
definition th_pixel_format :: "u8 list \<Rightarrow> u32" where "th_pixel_format h = WireFields.u32_at h 0xc"
definition th_plane_count :: "u8 list \<Rightarrow> u8" where "th_plane_count h = u8_at h 0x10"

definition tp_offset :: "u8 list \<Rightarrow> u32" where "tp_offset r = WireFields.u32_at r 0"
definition tp_width :: "u8 list \<Rightarrow> u32" where "tp_width r = WireFields.u32_at r 4"
definition tp_height :: "u8 list \<Rightarrow> u32" where "tp_height r = WireFields.u32_at r 8"
definition tp_packed_bpr :: "u8 list \<Rightarrow> u32" where "tp_packed_bpr r = WireFields.u32_at r 0xc"

definition tp_bytes_per_row :: "u8 list \<Rightarrow> u32" where
  "tp_bytes_per_row r = tp_packed_bpr r AND 0x00ffffff"

definition tp_bytes_per_element :: "u8 list \<Rightarrow> u8" where
  "tp_bytes_per_element r = ucast (drop_bit 24 (tp_packed_bpr r))"

section \<open>Decoding\<close>

record type4_plane =
  t4p_offset :: u32
  t4p_width :: u32
  t4p_height :: u32
  t4p_bytes_per_row :: u32
  t4p_bytes_per_element :: u8

definition type4_plane_default :: type4_plane where
  "type4_plane_default = \<lparr>t4p_offset = 0, t4p_width = 0, t4p_height = 0, t4p_bytes_per_row = 0,
     t4p_bytes_per_element = 0\<rparr>"

record type4_surface =
  t4s_length :: u64
  t4s_backing_pfn :: u32
  t4s_pixel_format :: u32
  t4s_plane_count :: u8
  t4s_planes :: "type4_plane list"
  t4s_width :: u32
  t4s_height :: u32
  t4s_bytes_per_row :: u32

definition IOSURFACE_FOURCC_420F :: u32 where "IOSURFACE_FOURCC_420F = 0x34323066"
definition IOSURFACE_FOURCC_420V :: u32 where "IOSURFACE_FOURCC_420V = 0x34323076"

definition iosurface_fourcc_is_biplanar :: "u32 \<Rightarrow> bool" where
  "iosurface_fourcc_is_biplanar pixel_format \<longleftrightarrow>
     pixel_format = IOSURFACE_FOURCC_420F \<or> pixel_format = IOSURFACE_FOURCC_420V"

definition type4_is_multiplanar :: "type4_surface \<Rightarrow> bool" where
  "type4_is_multiplanar surf \<longleftrightarrow>
     t4s_plane_count surf > 1 \<or> iosurface_fourcc_is_biplanar (t4s_pixel_format surf)"

definition iosurface_pixel_format_to_mtl :: "u32 \<Rightarrow> u16" where
  "iosurface_pixel_format_to_mtl pixel_format =
     (if pixel_format = 0 then 0
      else if iosurface_fourcc_is_biplanar pixel_format then 0
      else if pixel_format = 0x42475241 \<or> pixel_format = 0x41524742 then MTL_FORMAT_BGRA8_UNORM
      else if pixel_format = 0x52474241 then MTL_FORMAT_RGBA8_UNORM
      else if pixel_format = 0x52476841 \<or> pixel_format = 0x41684752 then MTL_FORMAT_RGBA16_FLOAT
      else if pixel_format = 0x52382020 then MTL_FORMAT_R8_UNORM
      else if pixel_format = 0x52473038 then MTL_FORMAT_RG8_UNORM
      else 0)"

definition device_desc_format_to_mtl :: "u32 \<Rightarrow> u16" where
  "device_desc_format_to_mtl raw =
     (if raw \<le> 0xffff then ucast raw else iosurface_pixel_format_to_mtl raw)"

definition latched_mapping_format :: "type4_surface \<Rightarrow> u16" where
  "latched_mapping_format surf =
     (if type4_is_multiplanar surf then 0 else iosurface_pixel_format_to_mtl (t4s_pixel_format surf))"

definition decode_type4_plane :: "u8 list \<Rightarrow> nat \<Rightarrow> type4_plane option" where
  "decode_type4_plane desc plane_index =
     (case type4_plane_at desc plane_index of
        Ok r \<Rightarrow> Some \<lparr>t4p_offset = tp_offset r, t4p_width = tp_width r, t4p_height = tp_height r,
                     t4p_bytes_per_row = tp_bytes_per_row r,
                     t4p_bytes_per_element = tp_bytes_per_element r\<rparr>
      | _ \<Rightarrow> None)"

definition decode_type4_surface :: "u8 list \<Rightarrow> type4_surface option" where
  "decode_type4_surface desc =
     (if length desc < TYPE4_MIN_LEN then None
      else case type4_header desc of
        Ok h \<Rightarrow>
          if th_backing_pfn h = 0 \<or> th_length h = 0 then None
          else if unat (th_plane_count h) > TYPE4_PLANE_CAP then None
          else Option.bind (those (map (decode_type4_plane desc) [0..<unat (th_plane_count h)])) (\<lambda>ps.
            let planes = ps @ replicate (TYPE4_PLANE_CAP - length ps) type4_plane_default;
                (width, height, bpr) =
                  (if th_plane_count h > 0
                   then (t4p_width (planes ! 0), t4p_height (planes ! 0), t4p_bytes_per_row (planes ! 0))
                   else (0, 0, 0))
            in Some \<lparr>t4s_length = th_length h, t4s_backing_pfn = th_backing_pfn h,
                    t4s_pixel_format = th_pixel_format h, t4s_plane_count = th_plane_count h,
                    t4s_planes = planes, t4s_width = width, t4s_height = height,
                    t4s_bytes_per_row = bpr\<rparr>)
      | _ \<Rightarrow> None)"

section \<open>The device descriptor\<close>

text \<open>\<open>st32(&mut desc[off..], v)\<close> and its siblings: the slice panics past the end, the store past its
  width, and the bytes before the slice stay.\<close>

definition store_at :: "(u8 list \<Rightarrow> ('e, u8 list) outcome) \<Rightarrow> nat \<Rightarrow> u8 list \<Rightarrow> ('e, u8 list) outcome" where
  "store_at st off desc = obind (slice_from desc off) (\<lambda>p. obind (st p) (\<lambda>p. Ok (take off desc @ p)))"

abbreviation store16 :: "nat \<Rightarrow> u16 \<Rightarrow> u8 list \<Rightarrow> (unit, u8 list) outcome" where
  "store16 off v \<equiv> store_at (\<lambda>p. st16 p v) off"
abbreviation store32 :: "nat \<Rightarrow> u32 \<Rightarrow> u8 list \<Rightarrow> (unit, u8 list) outcome" where
  "store32 off v \<equiv> store_at (\<lambda>p. st32 p v) off"
abbreviation store64 :: "nat \<Rightarrow> u64 \<Rightarrow> u8 list \<Rightarrow> (unit, u8 list) outcome" where
  "store64 off v \<equiv> store_at (\<lambda>p. st64 p v) off"

definition pack_dims :: "u32 \<Rightarrow> u32 \<Rightarrow> u64" where
  "pack_dims width height = push_bit 8 (ucast width) OR push_bit 40 (ucast height)"

definition synth_plane :: "u32 \<Rightarrow> nat \<Rightarrow> type4_plane \<Rightarrow> u8 list \<Rightarrow> (unit, u8 list) outcome" where
  "synth_plane pixel_format i p desc =
     (let base = DEVICE_DESC_PLANES + i * DEVICE_PLANE_DESC_LEN in
      obind (store32 (base + DEVICE_PLANE_OFFSET) (t4p_offset p) desc) (\<lambda>desc.
      obind (store32 (base + DEVICE_PLANE_SIZE) 0 desc) (\<lambda>desc.
      obind (store64 (base + DEVICE_PLANE_DIMS) (pack_dims (t4p_width p) (t4p_height p)) desc) (\<lambda>desc.
      obind (store32 (base + DEVICE_PLANE_BPR) (t4p_bytes_per_row p) desc) (\<lambda>desc.
        if t4p_bytes_per_element p \<noteq> 0
        then store16 (base + DEVICE_PLANE_BPE) (ucast (t4p_bytes_per_element p)) desc
        else if iosurface_fourcc_is_biplanar pixel_format
        then store16 (base + DEVICE_PLANE_BPE) (if i = 0 then 1 else 2) desc
        else Ok desc)))))"

primrec synth_planes :: "u32 \<Rightarrow> nat \<Rightarrow> type4_plane list \<Rightarrow> u8 list \<Rightarrow> (unit, u8 list) outcome" where
  "synth_planes pixel_format i [] desc = Ok desc"
| "synth_planes pixel_format i (p # ps) desc =
     obind (synth_plane pixel_format i p desc) (synth_planes pixel_format (Suc i) ps)"

definition synthesize_device_desc_from_type4 :: "type4_surface \<Rightarrow> (unit, u8 list) outcome" where
  "synthesize_device_desc_from_type4 surf =
     (let desc = replicate DEVICE_DESC_LEN 0;
          multi = type4_is_multiplanar surf;
          mtl = iosurface_pixel_format_to_mtl (t4s_pixel_format surf);
          fmt_word = (if multi then t4s_pixel_format surf
                      else if mtl \<noteq> 0 then ucast mtl else t4s_pixel_format surf);
          alloc = (if t4s_length surf > 2 ^ 32 - 1 then - 1 else ucast (t4s_length surf)) :: u32
      in obind (store32 DEVICE_DESC_PIXEL_FORMAT fmt_word desc) (\<lambda>desc.
         obind (store32 DEVICE_DESC_ALLOC_SIZE alloc desc) (\<lambda>desc.
         obind (store64 DEVICE_DESC_DIMS (pack_dims (t4s_width surf) (t4s_height surf)) desc) (\<lambda>desc.
         obind (if t4s_bytes_per_row surf > 0 then store32 DEVICE_DESC_BPR (t4s_bytes_per_row surf) desc
                else Ok desc) (\<lambda>desc.
           if multi \<and> t4s_plane_count surf > 0
           then
             let n = min (unat (t4s_plane_count surf)) TYPE4_PLANE_CAP;
                 desc = desc[DEVICE_DESC_PLANE_COUNT := of_nat n];
                 bpe0 = t4p_bytes_per_element (t4s_planes surf ! 0)
             in obind (if bpe0 \<noteq> 0 then store16 DEVICE_DESC_BPE (ucast bpe0) desc else Ok desc) (\<lambda>desc.
                  synth_planes (t4s_pixel_format surf) 0 (take n (t4s_planes surf)) desc)
           else
             let desc = desc[DEVICE_DESC_PLANE_COUNT := 0];
                 base_offset = t4p_offset (t4s_planes surf ! 0)
             in obind (if base_offset \<noteq> 0 then store32 DEVICE_DESC_BASE_OFFSET base_offset desc
                       else Ok desc) (\<lambda>desc.
                  if mtl \<noteq> 0
                  then (case bytes_per_pixel mtl of
                          None \<Rightarrow> Ok desc
                        | Some bpp \<Rightarrow> store16 DEVICE_DESC_BPE (ucast bpp) desc)
                  else Ok desc))))))"

definition mapping_desc_is_multiplanar :: "u8 list \<Rightarrow> bool" where
  "mapping_desc_is_multiplanar desc =
     (case decode_device_surface desc of
        None \<Rightarrow> False
      | Some s \<Rightarrow> ds_plane_count s > 1 \<or> iosurface_fourcc_is_biplanar (ds_pixel_format s))"

section \<open>Stores\<close>

lemma store_at_ok:
  "off + 2 \<le> length d \<Longrightarrow> store16 off x d = Ok (take off d @ le16 x @ drop (off + 2) d)"
  "off + 4 \<le> length d \<Longrightarrow> store32 off y d = Ok (take off d @ le32 y @ drop (off + 4) d)"
  "off + 8 \<le> length d \<Longrightarrow> store64 off z d = Ok (take off d @ le64 z @ drop (off + 8) d)"
  by (simp_all add: store_at_def st16_def st32_def st64_def le16_def le32_def le64_def add.commute)

lemma store_past_panics: "length d < off \<Longrightarrow> store_at st off d = Panic"
  by (simp add: store_at_def)

lemma store_length:
  "store16 off x d = Ok d' \<Longrightarrow> length d' = length d"
  "store32 off y d = Ok d' \<Longrightarrow> length d' = length d"
  "store64 off z d = Ok d' \<Longrightarrow> length d' = length d"
  by (auto simp: store_at_def st16_def st32_def st64_def slice_from_def min_def split: if_splits)

end
