(* ===== verification/Type4Facts.thy ===== *)
theory Type4Facts
  imports Type4
begin

text \<open>
  What the synthesized device descriptor says, read back by the decoders of contract/iosurface_pages.rs.
\<close>

section \<open>Pokes and peeks\<close>

definition peek :: "nat \<Rightarrow> nat \<Rightarrow> u8 list \<Rightarrow> u8 list" where
  "peek off k d = take k (drop off d)"

definition poke :: "nat \<Rightarrow> u8 list \<Rightarrow> u8 list \<Rightarrow> u8 list" where
  "poke off bs d = take off d @ bs @ drop (off + length bs) d"

lemma store_poke:
  "off + 2 \<le> length d \<Longrightarrow> store16 off x d = Ok (poke off (le16 x) d)"
  "off + 4 \<le> length d \<Longrightarrow> store32 off y d = Ok (poke off (le32 y) d)"
  "off + 8 \<le> length d \<Longrightarrow> store64 off z d = Ok (poke off (le64 z) d)"
  by (simp_all add: store_at_ok poke_def)

lemma length_poke [simp]: "off + length bs \<le> length d \<Longrightarrow> length (poke off bs d) = length d"
  by (simp add: poke_def)

lemma peek_poke_here: "off + length bs \<le> length d \<Longrightarrow> k = length bs \<Longrightarrow> peek off k (poke off bs d) = bs"
  by (simp add: peek_def poke_def)

lemma peek_poke_apart:
  assumes "off + length bs \<le> length d" "o' + k \<le> off \<or> off + length bs \<le> o'"
  shows "peek o' k (poke off bs d) = peek o' k d"
proof (cases "o' + k \<le> off")
  case True
  then show ?thesis
    using assms by (auto simp: peek_def poke_def drop_take min_def intro: nth_equalityI)
next
  case False
  with assms have "off + length bs \<le> o'" by simp
  then show ?thesis
    using assms by (simp add: peek_def poke_def)
qed

lemma field_peek:
  "u16_at d off = le_word (peek off 2 d)" "WireFields.u32_at d off = le_word (peek off 4 d)"
  "u64_at d off = le_word (peek off 8 d)"
  by (simp_all add: u16_at_def WireFields.u32_at_def u64_at_def peek_def)

lemma byte_peek: "off < length d \<Longrightarrow> d ! off = hd (peek off 1 d)"
  by (simp add: peek_def hd_drop_conv_nth take_Suc_conv_app_nth)

lemma peek_within: "o' + k \<le> n \<Longrightarrow> peek o' k (peek b n d) = peek (b + o') k d"
  by (simp add: peek_def drop_take min_def add.commute)

lemma le_word_zeros [simp]: "le_word (replicate k 0) = 0"
proof -
  have "le_nat (replicate k 0) = 0" by (induction k) simp_all
  then show ?thesis by (simp add: le_word_def)
qed

section \<open>Extents\<close>

lemma dims_unpack: "dims_extent (pack_dims w h) = (w AND 0xffffff, h AND 0xffffff)"
proof -
  have m: "(0xffffff :: u64) = mask 24" "(0xffffff :: u32) = mask 24" by (simp_all add: mask_eq_exp_minus_1)
  have "ucast (drop_bit 8 (pack_dims w h) AND 0xffffff :: u64) = (w AND 0xffffff)"
    unfolding m by (rule bit_word_eqI) (auto simp: pack_dims_def bit_simps)
  moreover have "ucast (drop_bit 40 (pack_dims w h) AND 0xffffff :: u64) = (h AND 0xffffff)"
    unfolding m by (rule bit_word_eqI) (auto simp: pack_dims_def bit_simps dest: bit_imp_le_length)
  ultimately show ?thesis
    by (simp add: dims_extent_def DIMS_WIDTH_SHIFT_def DIMS_HEIGHT_SHIFT_def DIMS_EXTENT_MASK_def)
qed

section \<open>One plane record\<close>

definition plane_bpe :: "u32 \<Rightarrow> nat \<Rightarrow> type4_plane \<Rightarrow> u16" where
  "plane_bpe fmt i p =
     (if t4p_bytes_per_element p \<noteq> 0 then ucast (t4p_bytes_per_element p)
      else if iosurface_fourcc_is_biplanar fmt then (if i = 0 then 1 else 2) else 0)"

definition published_plane :: "u32 \<Rightarrow> nat \<Rightarrow> type4_plane \<Rightarrow> device_plane" where
  "published_plane fmt i p =
     \<lparr>dp_plane_offset = t4p_offset p, dp_plane_base = 0, dp_plane_size = 0,
      dp_width = t4p_width p AND 0xffffff, dp_height = t4p_height p AND 0xffffff,
      dp_bytes_per_row = t4p_bytes_per_row p, dp_bytes_per_element = plane_bpe fmt i p\<rparr>"

definition plane_base :: "nat \<Rightarrow> nat" where
  "plane_base i = DEVICE_DESC_PLANES + i * DEVICE_PLANE_DESC_LEN"

lemma plane_base_next: "plane_base (Suc i) = plane_base i + 0x40"
  by (simp add: plane_base_def surface_consts)

definition plane_at :: "u8 list \<Rightarrow> nat \<Rightarrow> device_plane option" where
  "plane_at d i = decode_device_plane (peek (plane_base i) DEVICE_PLANE_DESC_LEN d)"

definition zeroed :: "nat \<Rightarrow> u8 list \<Rightarrow> bool" where
  "zeroed b d \<longleftrightarrow> (\<forall>o' k. b \<le> o' \<and> o' + k \<le> length d \<longrightarrow> peek o' k d = replicate k 0)"

lemma synth_plane_ok:
  assumes "plane_base i + 0x40 \<le> length d"
    and "peek (plane_base i + 0xc) 4 d = replicate 4 0" "peek (plane_base i + 0x20) 2 d = replicate 2 0"
  shows "\<exists>d'. synth_plane fmt i p d = Ok d' \<and> length d' = length d
    \<and> (\<forall>o' k. o' + k \<le> plane_base i \<or> plane_base i + 0x40 \<le> o' \<longrightarrow> peek o' k d' = peek o' k d)
    \<and> plane_at d' i = Some (published_plane fmt i p)"
proof -
  define b where "b = plane_base i"
  have b: "b = 64 + i * 64" by (simp add: b_def plane_base_def surface_consts)
  define d1 where "d1 = poke (b + 8) (le32 (t4p_offset p)) d"
  define d2 where "d2 = poke (b + 0x10) (le32 0) d1"
  define d3 where "d3 = poke (b + 0x14) (le64 (pack_dims (t4p_width p) (t4p_height p))) d2"
  define d4 where "d4 = poke (b + 0x1c) (le32 (t4p_bytes_per_row p)) d3"
  define d5 where "d5 = (if plane_bpe fmt i p = 0 then d4 else poke (b + 0x20) (le16 (plane_bpe fmt i p)) d4)"
  note steps = d1_def d2_def d3_def d4_def
  have len: "b + 0x40 \<le> length d" using assms(1) by (simp add: b_def)
  have lens: "length d1 = length d" "length d2 = length d" "length d3 = length d" "length d4 = length d"
    "length d5 = length d"
    using len by (simp_all add: steps d5_def)
  have "ucast x = (0 :: u16) \<longleftrightarrow> x = 0" for x :: u8
  proof
    assume "ucast x = (0 :: u16)"
    then have "uint (ucast x :: u16) = 0" by simp
    then have "uint x = 0" by (simp add: uint_up_ucast is_up)
    then show "x = 0" by (simp add: word_uint_eq_iff)
  qed simp
  then have bpe: "plane_bpe fmt i p = 0 \<longleftrightarrow>
      t4p_bytes_per_element p = 0 \<and> \<not> iosurface_fourcc_is_biplanar fmt"
    by (simp add: plane_bpe_def)
  have run: "synth_plane fmt i p d = Ok d5"
  proof (cases "plane_bpe fmt i p = 0")
    case True
    with bpe show ?thesis
      using len by (simp add: synth_plane_def Let_def b surface_consts store_poke steps d5_def)
  next
    case False
    with bpe show ?thesis
      using len by (auto simp: synth_plane_def Let_def b surface_consts store_poke steps d5_def plane_bpe_def)
  qed
  have apart: "peek o' k d5 = peek o' k d" if "o' + k \<le> b \<or> b + 0x40 \<le> o'" for o' k
    using that len by (auto simp: d5_def steps peek_poke_apart)
  have "peek (b + 0xc) 4 d5 = peek (b + 0xc) 4 d"
    using len by (simp add: d5_def steps peek_poke_apart)
  then have f: "WireFields.u32_at d5 (b + 8) = t4p_offset p" "WireFields.u32_at d5 (b + 0xc) = 0"
    "WireFields.u32_at d5 (b + 0x10) = 0"
    "u64_at d5 (b + 0x14) = pack_dims (t4p_width p) (t4p_height p)"
    "WireFields.u32_at d5 (b + 0x1c) = t4p_bytes_per_row p"
    using len assms(2) unfolding field_peek b_def [symmetric]
    by (simp_all add: d5_def steps peek_poke_apart peek_poke_here layout_simps)
  have "peek (b + 0x20) 2 d4 = replicate 2 0"
    using len assms(3) by (simp add: steps peek_poke_apart b_def)
  then have g: "u16_at d5 (b + 0x20) = plane_bpe fmt i p"
    using len unfolding field_peek by (simp add: d5_def peek_poke_here layout_simps lens)
  have "length (peek b 0x40 d5) = 0x40" using len lens by (simp add: peek_def)
  then have "plane_at d5 i = Some (published_plane fmt i p)"
    using f g
    by (simp add: plane_at_def b_def [symmetric] decode_device_plane_def surface_consts field_peek peek_within
          published_plane_def dims_unpack)
  with run apart lens show ?thesis unfolding b_def by blast
qed

lemma zeroed_take_off:
  "zeroed b d \<Longrightarrow> b \<le> o' \<Longrightarrow> o' + k \<le> length d \<Longrightarrow> peek o' k d = replicate k 0"
  by (simp add: zeroed_def)

lemma synth_planes_ok:
  assumes "plane_base (i + length ps) \<le> length d" "zeroed (plane_base i) d"
  shows "\<exists>d'. synth_planes fmt i ps d = Ok d' \<and> length d' = length d
    \<and> (\<forall>o' k. o' + k \<le> plane_base i \<longrightarrow> peek o' k d' = peek o' k d)
    \<and> (\<forall>j<length ps. plane_at d' (i + j) = Some (published_plane fmt (i + j) (ps ! j)))"
  using assms
proof (induction ps arbitrary: i d)
  case (Cons p ps)
  have le: "plane_base i + 0x40 \<le> plane_base (i + length (p # ps))"
    by (simp add: plane_base_def surface_consts)
  then have len: "plane_base i + 0x40 \<le> length d" using Cons.prems(1) by linarith
  then have z: "peek (plane_base i + 0xc) 4 d = replicate 4 0" "peek (plane_base i + 0x20) 2 d = replicate 2 0"
    using Cons.prems(2) by (simp_all add: zeroed_def)
  from synth_plane_ok [OF len z, of fmt p] obtain d1 where d1: "synth_plane fmt i p d = Ok d1"
    "length d1 = length d"
    "\<And>o' k. o' + k \<le> plane_base i \<or> plane_base i + 0x40 \<le> o' \<Longrightarrow> peek o' k d1 = peek o' k d"
    "plane_at d1 i = Some (published_plane fmt i p)" by blast
  have "zeroed (plane_base (Suc i)) d1"
    using Cons.prems(2) d1(2,3) by (auto simp: zeroed_def plane_base_next)
  moreover have "plane_base (Suc i + length ps) \<le> length d1" using Cons.prems(1) d1(2) by simp
  ultimately obtain d2 where d2: "synth_planes fmt (Suc i) ps d1 = Ok d2" "length d2 = length d1"
    "\<And>o' k. o' + k \<le> plane_base (Suc i) \<Longrightarrow> peek o' k d2 = peek o' k d1"
    "\<And>j. j < length ps \<Longrightarrow> plane_at d2 (Suc i + j) = Some (published_plane fmt (Suc i + j) (ps ! j))"
    using Cons.IH by blast
  have first: "plane_at d2 i = Some (published_plane fmt i p)"
    using d1(4) d2(3) [of "plane_base i" "0x40"] by (simp add: plane_at_def plane_base_next surface_consts)
  have "plane_at d2 (i + j) = Some (published_plane fmt (i + j) ((p # ps) ! j))" if "j < length (p # ps)" for j
    using that first d2(4) [of "j - 1"] by (cases j) auto
  moreover have "peek o' k d2 = peek o' k d" if "o' + k \<le> plane_base i" for o' k
    using that d2(3) d1(3) by (simp add: plane_base_next)
  ultimately show ?case using d1(1,2) d2(1,2) by (intro exI [of _ d2]) simp
qed simp

lemma synth_planes_snoc:
  "synth_planes fmt i (ps @ [p]) d = obind (synth_planes fmt i ps d) (synth_plane fmt (i + length ps) p)"
proof (induction ps arbitrary: i d)
  case Nil
  show ?case by (cases "synth_plane fmt i p d") auto
next
  case (Cons q ps)
  show ?case by (cases "synth_plane fmt i q d") (simp_all add: Cons)
qed

lemma eighth_plane_panics: "length d = 0x200 \<Longrightarrow> synth_plane fmt 7 p d = Panic"
  by (simp add: synth_plane_def Let_def surface_consts store_past_panics)

section \<open>The whole descriptor\<close>

lemma decoded_shape:
  assumes "decode_type4_surface desc = Some surf"
  shows "length (t4s_planes surf) = TYPE4_PLANE_CAP" "unat (t4s_plane_count surf) \<le> TYPE4_PLANE_CAP"
    "TYPE4_MIN_LEN \<le> length desc" "t4s_backing_pfn surf \<noteq> 0" "t4s_length surf \<noteq> 0"
proof -
  have len: "those xs = Some ys \<Longrightarrow> length ys = length xs" for xs :: "type4_plane option list" and ys
    by (induction xs arbitrary: ys) (auto split: option.splits)
  from assms show "length (t4s_planes surf) = TYPE4_PLANE_CAP"
    by (auto simp: decode_type4_surface_def Let_def bind_eq_Some_conv dest!: len split: if_splits outcome.splits)
  from assms show "unat (t4s_plane_count surf) \<le> TYPE4_PLANE_CAP" "TYPE4_MIN_LEN \<le> length desc"
    "t4s_backing_pfn surf \<noteq> 0" "t4s_length surf \<noteq> 0"
    by (auto simp: decode_type4_surface_def Let_def bind_eq_Some_conv split: if_splits outcome.splits prod.splits)
qed

lemma update_poke: "off < length d \<Longrightarrow> d[off := x] = poke off [x] d"
  by (simp add: poke_def upd_conv_take_nth_drop)

definition plane_published :: "type4_surface \<Rightarrow> bool" where
  "plane_published surf \<longleftrightarrow> type4_is_multiplanar surf \<and> t4s_plane_count surf > 0"

definition published_surface :: "type4_surface \<Rightarrow> device_surface" where
  "published_surface surf =
     (let mtl = iosurface_pixel_format_to_mtl (t4s_pixel_format surf);
          p0 = t4s_planes surf ! 0
      in \<lparr>ds_pixel_format = (if \<not> type4_is_multiplanar surf \<and> mtl \<noteq> 0 then ucast mtl else t4s_pixel_format surf),
          ds_base_offset = (if plane_published surf then 0 else t4p_offset p0),
          ds_alloc_size = (if t4s_length surf > 2 ^ 32 - 1 then - 1 else ucast (t4s_length surf)),
          ds_width = t4s_width surf AND 0xffffff, ds_height = t4s_height surf AND 0xffffff,
          ds_bytes_per_row = t4s_bytes_per_row surf,
          ds_bytes_per_element =
            (if plane_published surf then ucast (t4p_bytes_per_element p0)
             else if mtl = 0 then 0
             else case bytes_per_pixel mtl of None \<Rightarrow> 0 | Some bpp \<Rightarrow> ucast bpp),
          ds_plane_count = (if plane_published surf then t4s_plane_count surf else 0)\<rparr>)"

definition head_on :: "type4_surface \<Rightarrow> u8 list \<Rightarrow> u8 list" where
  "head_on surf d =
     (let h = published_surface surf;
          d = poke DEVICE_DESC_PIXEL_FORMAT (le32 (ds_pixel_format h)) d;
          d = poke DEVICE_DESC_ALLOC_SIZE (le32 (ds_alloc_size h)) d;
          d = poke DEVICE_DESC_DIMS (le64 (pack_dims (t4s_width surf) (t4s_height surf))) d;
          d = poke DEVICE_DESC_BPR (le32 (t4s_bytes_per_row surf)) d;
          d = poke DEVICE_DESC_PLANE_COUNT [ds_plane_count h] d;
          d = poke DEVICE_DESC_BASE_OFFSET (le32 (ds_base_offset h)) d
      in poke DEVICE_DESC_BPE (le16 (ds_bytes_per_element h)) d)"

lemma poke_zeros: "peek off k d = replicate k 0 \<Longrightarrow> off + k \<le> length d \<Longrightarrow> poke off (replicate k 0) d = d"
proof -
  assume a: "peek off k d = replicate k 0" "off + k \<le> length d"
  have "d = take off d @ take k (drop off d) @ drop (off + k) d"
    by (metis append_take_drop_id drop_drop add.commute)
  with a show ?thesis by (simp add: poke_def peek_def)
qed

lemma le_zero: "le16 0 = replicate 2 0" "le32 0 = replicate 4 0"
proof -
  have "nat_to_le n 0 = replicate n 0" for n by (induction n) simp_all
  then show "le16 0 = replicate 2 0" "le32 0 = replicate 4 0" by (simp_all add: le16_def le32_def)
qed

lemma head_length [simp]: "length d = 0x200 \<Longrightarrow> length (head_on surf d) = 0x200"
  by (simp add: head_on_def Let_def surface_consts)

lemma head_above: "length d = 0x200 \<Longrightarrow> 0x40 \<le> o' \<Longrightarrow> peek o' k (head_on surf d) = peek o' k d"
  by (simp add: head_on_def Let_def surface_consts peek_poke_apart)

lemma zeroed_replicate: "zeroed b (replicate n 0)"
  by (auto simp: zeroed_def peek_def)

lemma head_zeroed: "length d = 0x200 \<Longrightarrow> zeroed 0x40 d \<Longrightarrow> zeroed 0x40 (head_on surf d)"
  by (simp add: zeroed_def head_above)

lemma head_fields:
  assumes "length d0 = 0x200" "length d = 0x200"
    and "\<And>o' k. o' + k \<le> 0x40 \<Longrightarrow> peek o' k d = peek o' k (head_on surf d0)"
  shows "decode_device_surface d = Some (published_surface surf)"
proof -
  have f: "WireFields.u32_at d 4 = ds_pixel_format (published_surface surf)"
    "WireFields.u32_at d 8 = ds_base_offset (published_surface surf)"
    "WireFields.u32_at d 0x10 = ds_alloc_size (published_surface surf)"
    "u64_at d 0x14 = pack_dims (t4s_width surf) (t4s_height surf)"
    "WireFields.u32_at d 0x1c = t4s_bytes_per_row surf"
    "u16_at d 0x20 = ds_bytes_per_element (published_surface surf)"
    using assms unfolding field_peek
    by (simp_all add: head_on_def Let_def surface_consts peek_poke_apart peek_poke_here layout_simps)
  have "d ! 0x24 = ds_plane_count (published_surface surf)"
    using assms by (simp add: byte_peek head_on_def Let_def surface_consts peek_poke_apart peek_poke_here)
  with f assms(2) show ?thesis
    by (simp add: decode_device_surface_def surface_consts dims_unpack)
       (simp add: published_surface_def Let_def)
qed

lemma cond_store:
  "off + 4 \<le> length d \<Longrightarrow> peek off 4 d = replicate 4 0 \<Longrightarrow>
     (if v \<noteq> 0 then store32 off v d else Ok d) = Ok (poke off (le32 v) d)"
  "off + 2 \<le> length d \<Longrightarrow> peek off 2 d = replicate 2 0 \<Longrightarrow>
     (if x \<noteq> 0 then store16 off x d else Ok d) = Ok (poke off (le16 x) d)"
  by (simp_all add: store_poke le_zero poke_zeros)

lemma ucast_u8_zero: "ucast x = (0 :: u16) \<longleftrightarrow> x = (0 :: u8)"
proof
  assume "ucast x = (0 :: u16)"
  then have "uint (ucast x :: u16) = 0" by simp
  then have "uint x = 0" by (simp add: uint_up_ucast is_up)
  then show "x = 0" by (simp add: word_uint_eq_iff)
qed simp

lemma synth_run:
  assumes "t4s_plane_count surf \<le> 8"
  shows "synthesize_device_desc_from_type4 surf =
    (let d = head_on surf (replicate DEVICE_DESC_LEN 0) in
     if plane_published surf
     then synth_planes (t4s_pixel_format surf) 0 (take (unat (t4s_plane_count surf)) (t4s_planes surf)) d
     else Ok d)"
proof -
  define z where "z = replicate DEVICE_DESC_LEN (0 :: u8)"
  have z: "peek o' k z = replicate k 0" if "o' + k \<le> 0x200" for o' k
    using that by (simp add: z_def surface_consts peek_def)
  have zl: "length z = 0x200" by (simp add: z_def surface_consts)
  have zz: "peek 8 4 z = replicate 4 0" "peek 0x1c 4 z = replicate 4 0" "peek 0x20 2 z = replicate 2 0"
    by (simp_all add: z)
  let ?h = "published_surface surf"
  define d1 where "d1 = poke 4 (le32 (ds_pixel_format ?h)) z"
  define d2 where "d2 = poke 0x10 (le32 (ds_alloc_size ?h)) d1"
  define d3 where "d3 = poke 0x14 (le64 (pack_dims (t4s_width surf) (t4s_height surf))) d2"
  define d4 where "d4 = poke 0x1c (le32 (t4s_bytes_per_row surf)) d3"
  define d5 where "d5 = poke 0x24 [ds_plane_count ?h] d4"
  define d6 where "d6 = poke 8 (le32 (ds_base_offset ?h)) d5"
  define d7 where "d7 = poke 0x20 (le16 (ds_bytes_per_element ?h)) d6"
  note steps = d1_def d2_def d3_def d4_def d5_def d6_def d7_def
  have lens: "length d1 = 0x200" "length d2 = 0x200" "length d3 = 0x200" "length d4 = 0x200"
    "length d5 = 0x200" "length d6 = 0x200"
    by (simp_all add: steps zl)
  have head: "head_on surf z = d7"
    by (simp add: head_on_def Let_def surface_consts steps)
  have fmt: "(if type4_is_multiplanar surf then t4s_pixel_format surf
       else if iosurface_pixel_format_to_mtl (t4s_pixel_format surf) \<noteq> 0
       then ucast (iosurface_pixel_format_to_mtl (t4s_pixel_format surf)) else t4s_pixel_format surf)
     = ds_pixel_format ?h"
    by (simp add: published_surface_def Let_def)
  have s1: "store32 DEVICE_DESC_PIXEL_FORMAT (ds_pixel_format ?h) z = Ok d1"
    using zl by (simp add: surface_consts store_poke d1_def)
  have s2: "store32 DEVICE_DESC_ALLOC_SIZE (ds_alloc_size ?h) d1 = Ok d2"
    using lens by (simp add: surface_consts store_poke d2_def)
  have s3: "store64 DEVICE_DESC_DIMS (pack_dims (t4s_width surf) (t4s_height surf)) d2 = Ok d3"
    using lens by (simp add: surface_consts store_poke d3_def)
  have z3: "peek 0x1c 4 d3 = replicate 4 0"
    using zz zl by (simp add: d1_def d2_def d3_def peek_poke_apart)
  then have s4: "(if t4s_bytes_per_row surf > 0 then store32 DEVICE_DESC_BPR (t4s_bytes_per_row surf) d3 else Ok d3) = Ok d4"
    unfolding surface_consts word_gt_0 d4_def
    using lens cond_store(1) [where off = "0x1c" and d = d3 and v = "t4s_bytes_per_row surf"]
    by (simp split del: if_split)
  have z5: "peek 8 4 d5 = replicate 4 0" "peek 0x20 2 d5 = replicate 2 0"
    using zz zl by (simp_all add: d1_def d2_def d3_def d4_def d5_def peek_poke_apart)
  then have z6: "peek 0x20 2 d6 = replicate 2 0"
    using lens by (simp add: d6_def peek_poke_apart)
  have alloc: "ds_alloc_size ?h = (if t4s_length surf > 2 ^ 32 - 1 then - 1 else ucast (t4s_length surf))"
    by (simp add: published_surface_def Let_def)
  show ?thesis
  proof (cases "plane_published surf")
    case True
    have count: "unat (t4s_plane_count surf) \<le> 8" using assms by (simp add: word_le_nat_alt)
    have c: "ds_plane_count ?h = t4s_plane_count surf" "ds_base_offset ?h = 0"
      "ds_bytes_per_element ?h = ucast (t4p_bytes_per_element (t4s_planes surf ! 0))"
      using True by (simp_all add: published_surface_def Let_def)
    have "d6 = d5" using lens z5 by (simp add: d6_def c le_zero poke_zeros)
    then have bpe: "(if t4p_bytes_per_element (t4s_planes surf ! 0) \<noteq> 0
        then store16 DEVICE_DESC_BPE (ucast (t4p_bytes_per_element (t4s_planes surf ! 0))) d5 else Ok d5) = Ok d7"
      unfolding surface_consts d7_def c
      using cond_store(2) [where off = "0x20" and d = d5 and x = "ucast (t4p_bytes_per_element (t4s_planes surf ! 0))"] lens z5
      by (simp add: ucast_u8_zero split del: if_split)
    have upd: "d4[DEVICE_DESC_PLANE_COUNT := of_nat (unat (t4s_plane_count surf))] = d5"
      using lens by (simp add: surface_consts update_poke d5_def c)
    have min: "min (unat (t4s_plane_count surf)) TYPE4_PLANE_CAP = unat (t4s_plane_count surf)"
      using count by (simp add: surface_consts)
    from True have m: "type4_is_multiplanar surf" "t4s_plane_count surf > 0"
      by (simp_all add: plane_published_def)
    show ?thesis
      unfolding synthesize_device_desc_from_type4_def Let_def fmt z_def [symmetric] head
      by (simp only: alloc [symmetric] s1 s2 s3 s4 obind.simps m simp_thms if_True upd bpe min True)
  next
    case False
    let ?mtl = "iosurface_pixel_format_to_mtl (t4s_pixel_format surf)"
    have c: "ds_plane_count ?h = 0" "ds_base_offset ?h = t4p_offset (t4s_planes surf ! 0)"
      "ds_bytes_per_element ?h = (if ?mtl = 0 then 0 else case bytes_per_pixel ?mtl of None \<Rightarrow> 0 | Some bpp \<Rightarrow> ucast bpp)"
      using False by (simp_all add: published_surface_def Let_def)
    have upd: "d4[DEVICE_DESC_PLANE_COUNT := 0] = d5"
      using lens by (simp add: surface_consts update_poke d5_def c)
    have off: "(if t4p_offset (t4s_planes surf ! 0) \<noteq> 0
        then store32 DEVICE_DESC_BASE_OFFSET (t4p_offset (t4s_planes surf ! 0)) d5 else Ok d5) = Ok d6"
      unfolding surface_consts d6_def c
      using cond_store(1) [where off = 8 and d = d5 and v = "t4p_offset (t4s_planes surf ! 0)"] lens z5
      by (simp split del: if_split)
    have skip: "poke 0x20 (le16 0) d6 = d6" using lens z6 by (simp add: le_zero poke_zeros)
    have bpe: "(if ?mtl \<noteq> 0 then case bytes_per_pixel ?mtl of None \<Rightarrow> Ok d6
                 | Some bpp \<Rightarrow> store16 DEVICE_DESC_BPE (ucast bpp) d6 else Ok d6) = Ok d7"
      using lens skip
      by (cases "?mtl = 0"; cases "bytes_per_pixel ?mtl") (simp_all add: d7_def c surface_consts store_poke)
    from False have m: "(type4_is_multiplanar surf \<and> t4s_plane_count surf > 0) = False"
      by (simp add: plane_published_def)
    show ?thesis
      unfolding synthesize_device_desc_from_type4_def Let_def fmt z_def [symmetric] head
      by (simp only: alloc [symmetric] s1 s2 s3 s4 obind.simps m if_False upd off bpe False)
  qed
qed

lemma published_count:
  assumes "decode_type4_surface desc = Some surf"
  shows "t4s_plane_count surf \<le> 8" "t4s_plane_count surf = 8 \<Longrightarrow> plane_published surf"
    "t4s_plane_count surf \<noteq> 8 \<Longrightarrow> unat (t4s_plane_count surf) \<le> 7"
proof -
  have le: "unat (t4s_plane_count surf) \<le> 8"
    using decoded_shape(2) [OF assms] by (simp add: surface_consts)
  then show "t4s_plane_count surf \<le> 8" by (simp add: word_le_nat_alt)
  show "t4s_plane_count surf = 8 \<Longrightarrow> plane_published surf"
    by (simp add: plane_published_def type4_is_multiplanar_def)
  assume "t4s_plane_count surf \<noteq> 8"
  then have "unat (t4s_plane_count surf) \<noteq> 8" using word_unat_eq_iff [of "t4s_plane_count surf" 8] by simp
  with le show "unat (t4s_plane_count surf) \<le> 7" by simp
qed

lemma eight_planes:
  assumes "decode_type4_surface desc = Some surf" "t4s_plane_count surf = 8"
  shows "synthesize_device_desc_from_type4 surf = Panic"
proof -
  define d where "d = head_on surf (replicate DEVICE_DESC_LEN 0)"
  have d: "length d = 0x200" "zeroed 0x40 d"
    by (simp_all add: d_def surface_consts head_zeroed zeroed_replicate)
  let ?ps = "t4s_planes surf"
  have ps: "length ?ps = 8" using decoded_shape(1) [OF assms(1)] by (simp add: surface_consts)
  have "take 8 ?ps = take 7 ?ps @ [?ps ! 7]"
    using ps take_Suc_conv_app_nth [of 7 ?ps] by simp
  moreover have "\<exists>d'. synth_planes (t4s_pixel_format surf) 0 (take 7 ?ps) d = Ok d' \<and> length d' = 0x200"
    using synth_planes_ok [of 0 "take 7 ?ps" d "t4s_pixel_format surf"] d ps
    by (auto simp: plane_base_def surface_consts)
  then have "synth_planes (t4s_pixel_format surf) 0 (take 7 ?ps @ [?ps ! 7]) d = Panic"
    using ps by (auto simp: synth_planes_snoc eighth_plane_panics)
  ultimately have "synth_planes (t4s_pixel_format surf) 0 (take 8 ?ps) d = Panic" by simp
  then show ?thesis
    using published_count [OF assms(1)] assms(2) by (simp add: synth_run d_def)
qed

lemma fewer_planes:
  assumes "decode_type4_surface desc = Some surf" "t4s_plane_count surf \<noteq> 8"
  shows "\<exists>d. synthesize_device_desc_from_type4 surf = Ok d \<and> length d = DEVICE_DESC_LEN
     \<and> decode_device_surface d = Some (published_surface surf)
     \<and> (plane_published surf \<longrightarrow> (\<forall>i<unat (t4s_plane_count surf). device_desc_plane d (of_nat i)
          = Some (published_plane (t4s_pixel_format surf) i (t4s_planes surf ! i),
                  ucast (t4s_plane_count surf))))"
proof -
  define d0 where "d0 = replicate DEVICE_DESC_LEN (0 :: u8)"
  have d0: "length d0 = 0x200" by (simp add: d0_def surface_consts)
  define d where "d = head_on surf d0"
  have d: "length d = 0x200" "zeroed 0x40 d"
    by (simp_all add: d_def d0_def surface_consts head_zeroed zeroed_replicate)
  let ?n = "unat (t4s_plane_count surf)" and ?ps = "t4s_planes surf" and ?fmt = "t4s_pixel_format surf"
  have n: "?n \<le> 7" by (rule published_count(3) [OF assms])
  have ps: "length ?ps = 8" using decoded_shape(1) [OF assms(1)] by (simp add: surface_consts)
  have run: "synthesize_device_desc_from_type4 surf =
      (if plane_published surf then synth_planes ?fmt 0 (take ?n ?ps) d else Ok d)"
    using published_count(1) [OF assms(1)] by (simp add: synth_run d_def d0_def Let_def)
  show ?thesis
  proof (cases "plane_published surf")
    case False
    have "decode_device_surface d = Some (published_surface surf)"
      by (rule head_fields [OF d0 d(1)]) (simp add: d_def)
    then show ?thesis using run False d by (simp add: surface_consts)
  next
    case True
    obtain d' where d': "synth_planes ?fmt 0 (take ?n ?ps) d = Ok d'" "length d' = 0x200"
      "\<And>o' k. o' + k \<le> 0x40 \<Longrightarrow> peek o' k d' = peek o' k d"
      "\<And>j. j < ?n \<Longrightarrow> plane_at d' j = Some (published_plane ?fmt j (?ps ! j))"
      using synth_planes_ok [of 0 "take ?n ?ps" d ?fmt] d n ps
      by (auto simp: plane_base_def surface_consts min_def)
    have head: "decode_device_surface d' = Some (published_surface surf)"
      by (rule head_fields [OF d0 d'(2)]) (simp add: d'(3) d_def)
    then have count: "d' ! 0x24 = t4s_plane_count surf"
      using True d'(2)
      by (auto simp: decode_device_surface_def surface_consts published_surface_def Let_def dims_extent_def)
    have "device_desc_plane d' (of_nat i) = Some (published_plane ?fmt i (?ps ! i), ucast (t4s_plane_count surf))"
      if i: "i < ?n" for i
    proof -
      have u: "unat (of_nat i :: u32) = i" using i n by (simp add: unat_of_nat)
      have c: "unat (ucast (t4s_plane_count surf) :: u32) = ?n" using n by (simp add: unsigned_ucast_eq take_bit_nat_eq_self)
      have nz: "(ucast (t4s_plane_count surf) :: u32) \<noteq> 0" "\<not> (ucast (t4s_plane_count surf) :: u32) \<le> of_nat i"
        using i u c by (simp_all add: word_le_nat_alt word_unat_eq_iff)
      have "64 + i * 64 + 64 \<le> 0x200" using i n by linarith
      with nz u c n d'(2) d'(4) [OF i] show ?thesis
        by (simp add: device_desc_plane_def surface_consts count plane_at_def peek_def plane_base_def)
    qed
    then show ?thesis using run True d' head by (simp add: surface_consts)
  qed
qed

text \<open>
  C29: A type-4 surface is published as its device descriptor and read back from it: the decoders of the
  descriptor find the surface's format, allocation and row length, its extents as far as their 24-bit fields
  hold them, and every declared plane with its offset, extent and element size. A surface of eight planes, which the type-4 decoder accepts, has no
  descriptor: its eighth plane record starts where the 0x200-byte descriptor ends, and the store panics.
\<close>

theorem type4_descriptor_published:
  assumes "decode_type4_surface desc = Some surf"
  shows "case synthesize_device_desc_from_type4 surf of
      Panic \<Rightarrow> t4s_plane_count surf = 8
    | Err _ \<Rightarrow> False
    | Ok d \<Rightarrow> t4s_plane_count surf \<noteq> 8 \<and> length d = DEVICE_DESC_LEN
        \<and> decode_device_surface d = Some (published_surface surf)
        \<and> (plane_published surf \<longrightarrow> (\<forall>i<unat (t4s_plane_count surf). device_desc_plane d (of_nat i)
             = Some (published_plane (t4s_pixel_format surf) i (t4s_planes surf ! i),
                     ucast (t4s_plane_count surf))))"
proof (cases "t4s_plane_count surf = 8")
  case True
  then show ?thesis using eight_planes [OF assms] by simp
next
  case False
  then show ?thesis using fewer_planes [OF assms] by auto
qed

definition eight_plane_surface :: "u8 list" where
  "eight_plane_surface = le64 0x8000 @ le32 1 @ le32 0x42475241 @ [8, 0, 0, 0] @ replicate 0x80 0"

lemma those_planes: "(\<And>x. x \<in> set xs \<Longrightarrow> f x \<noteq> None) \<Longrightarrow> those (map f xs) \<noteq> None"
  by (induction xs) (auto split: option.split)

lemma eight_plane_fields:
  "length eight_plane_surface = 0x94" "u64_at eight_plane_surface 0 = 0x8000"
  "WireFields.u32_at eight_plane_surface 8 = 1" "WireFields.u32_at eight_plane_surface 0xc = 0x42475241"
  "u8_at eight_plane_surface 0x10 = 8"
  by (simp_all add: eight_plane_surface_def layout_simps)

lemma eight_plane_decodes:
  "map_option t4s_plane_count (decode_type4_surface eight_plane_surface) = Some 8"
proof -
  let ?d = eight_plane_surface
  have head: "type4_header ?d = Ok (take 0x14 ?d)"
    by (simp add: type4_header_def view_def type4_consts eight_plane_fields)
  have fields: "th_length (take 0x14 ?d) = 0x8000" "th_backing_pfn (take 0x14 ?d) = 1"
    "th_plane_count (take 0x14 ?d) = 8"
    by (simp_all add: th_length_def th_backing_pfn_def th_plane_count_def field_in_take eight_plane_fields)
  have "decode_type4_plane ?d i \<noteq> None" if "i \<in> set [0..<8]" for i
  proof -
    have "20 + i * 16 + 16 \<le> 0x94" using that by simp
    then show ?thesis
      by (simp add: decode_type4_plane_def type4_plane_at_def view_at_def view_def type4_consts eight_plane_fields)
  qed
  then obtain ps where ps: "those (map (decode_type4_plane ?d) [0..<8]) = Some ps"
    using those_planes by blast
  have "unat (8 :: u8) = 8" by simp
  with head fields ps show ?thesis
    by (simp add: decode_type4_surface_def type4_consts eight_plane_fields surface_consts Let_def
             del: upt_rec_numeral)
qed

theorem type4_descriptor_published_witness:
  "\<exists>surf. decode_type4_surface eight_plane_surface = Some surf
      \<and> synthesize_device_desc_from_type4 surf = Panic"
proof -
  obtain surf where s: "decode_type4_surface eight_plane_surface = Some surf" "t4s_plane_count surf = 8"
    using eight_plane_decodes by auto
  from type4_descriptor_published [OF s(1)] s show ?thesis
    by (auto split: outcome.splits)
qed

end
