(* ===== verification/Fifo.thy ===== *)
theory Fifo
  imports WireLists
begin

text \<open>
  runtime/decode/fifo.rs: the payloads of the resource-list packets (invalidate, synchronize, replace
  physical), the resource table in front of an indirect execution, and the display timing entries. A load
  that its length check did not cover would panic, so the decoders return an \<open>outcome\<close>.
\<close>

section \<open>Layout\<close>

definition CHILD_RESOURCE_LIST_TASK_ID :: nat where "CHILD_RESOURCE_LIST_TASK_ID = 0x00"
definition CHILD_RESOURCE_LIST_COUNT :: nat where "CHILD_RESOURCE_LIST_COUNT = 0x04"
definition CHILD_RESOURCE_LIST_HEADER_LEN :: nat where "CHILD_RESOURCE_LIST_HEADER_LEN = 8"
definition CHILD_INVALIDATE_RECORD_LEN :: nat where "CHILD_INVALIDATE_RECORD_LEN = 8"
definition CHILD_SYNCHRONIZE_RECORD_LEN :: nat where "CHILD_SYNCHRONIZE_RECORD_LEN = 4"
definition CHILD_REPLACE_PHYSICAL_TASK_ID :: nat where "CHILD_REPLACE_PHYSICAL_TASK_ID = 0x00"
definition CHILD_REPLACE_PHYSICAL_OBJECT_ID :: nat where "CHILD_REPLACE_PHYSICAL_OBJECT_ID = 0x04"
definition CHILD_REPLACE_PHYSICAL_LEN :: nat where "CHILD_REPLACE_PHYSICAL_LEN = 8"
definition CHILD_INVALIDATE_PAGEON_FLAGS :: u32 where "CHILD_INVALIDATE_PAGEON_FLAGS = 0x01000001"
definition DISPLAY_DESC_TIMING_BASE :: u64 where "DISPLAY_DESC_TIMING_BASE = 0x210"
definition DISPLAY_DESC_TIMING_STRIDE :: u32 where "DISPLAY_DESC_TIMING_STRIDE = 0x10"
definition DISPLAY_TIMING_REFRESH_FRAC_BITS :: nat where "DISPLAY_TIMING_REFRESH_FRAC_BITS = 16"
definition CHILD_EXEC_INDIRECT_RESOURCE_COUNT :: nat where "CHILD_EXEC_INDIRECT_RESOURCE_COUNT = 0x04"
definition CHILD_EXEC_INDIRECT_HEADER_LEN :: nat where "CHILD_EXEC_INDIRECT_HEADER_LEN = 12"
definition CHILD_EXEC_INDIRECT_RESOURCE_DESC_LEN :: nat where "CHILD_EXEC_INDIRECT_RESOURCE_DESC_LEN = 24"
definition CHILD_EXEC_RESOURCE_OBJECT_ID :: nat where "CHILD_EXEC_RESOURCE_OBJECT_ID = 0x00"
definition CHILD_EXEC_RESOURCE_VALIDITY_OPS :: nat where "CHILD_EXEC_RESOURCE_VALIDITY_OPS = 0x04"
definition CHILD_EXEC_RESOURCE_TAIL :: nat where "CHILD_EXEC_RESOURCE_TAIL = 0x08"
definition CHILD_EXEC_RESOURCE_TAIL_LEN :: nat where "CHILD_EXEC_RESOURCE_TAIL_LEN = 16"

lemmas child_consts = CHILD_RESOURCE_LIST_TASK_ID_def CHILD_RESOURCE_LIST_COUNT_def
  CHILD_RESOURCE_LIST_HEADER_LEN_def CHILD_INVALIDATE_RECORD_LEN_def CHILD_SYNCHRONIZE_RECORD_LEN_def
  CHILD_REPLACE_PHYSICAL_TASK_ID_def CHILD_REPLACE_PHYSICAL_OBJECT_ID_def CHILD_REPLACE_PHYSICAL_LEN_def
  CHILD_EXEC_INDIRECT_RESOURCE_COUNT_def CHILD_EXEC_INDIRECT_HEADER_LEN_def
  CHILD_EXEC_INDIRECT_RESOURCE_DESC_LEN_def CHILD_EXEC_RESOURCE_OBJECT_ID_def
  CHILD_EXEC_RESOURCE_VALIDITY_OPS_def CHILD_EXEC_RESOURCE_TAIL_def CHILD_EXEC_RESOURCE_TAIL_LEN_def

section \<open>Records\<close>

datatype resource_list_error =
  ShortHeader nat
| RlTruncated u32 nat nat

record validity_ops =
  vo_clear_host_valid :: u8
  vo_set_host_valid :: u8
  vo_clear_guest_valid :: u8
  vo_set_guest_valid :: u8

definition from_le_dword :: "u32 \<Rightarrow> validity_ops" where
  "from_le_dword flags =
     (let b = nat_to_le 4 (unat flags) in
      \<lparr>vo_clear_host_valid = b ! 0, vo_set_host_valid = b ! 1, vo_clear_guest_valid = b ! 2,
       vo_set_guest_valid = b ! 3\<rparr>)"

definition OPS_PAGEON :: validity_ops where
  "OPS_PAGEON = \<lparr>vo_clear_host_valid = 1, vo_set_host_valid = 0, vo_clear_guest_valid = 0, vo_set_guest_valid = 1\<rparr>"

record invalidate_record =
  ir_object_id :: u32
  ir_flags :: u32
  ir_ops :: validity_ops

record invalidate_command =
  ic_task_id :: u32
  ic_count :: u32
  ic_records :: "invalidate_record list"

record replace_physical =
  rp_task_id :: u32
  rp_object_id :: u32

record synchronize_command =
  sc_task_id :: u32
  sc_count :: u32
  sc_object_ids :: "u32 list"

record exec_resource =
  er_object_id :: u32
  er_ops :: validity_ops
  er_tail :: "u8 list"

definition tail_nonzero_bytes :: "exec_resource \<Rightarrow> nat" where
  "tail_nonzero_bytes r = length (filter (\<lambda>b. b \<noteq> 0) (er_tail r))"

section \<open>Decoders\<close>

definition ld32_from :: "u8 list \<Rightarrow> nat \<Rightarrow> ('e, u32) outcome" where
  "ld32_from payload off = obind (slice_from payload off) ld32"

text \<open>\<open>need\<close>, as \<open>usize\<close>: the saturating products and sums of two \<open>u64\<close> values.\<close>

definition resource_list_need :: "u32 \<Rightarrow> nat \<Rightarrow> nat" where
  "resource_list_need count record_len =
     (let bytes = saturating_mul (ucast count) (of_nat record_len :: u64);
          total = saturating_add bytes (of_nat CHILD_RESOURCE_LIST_HEADER_LEN)
      in unat total)"

text \<open>The loop of a decoder: \<open>n\<close> entries to go, the next at \<open>off\<close>.\<close>

primrec list_entries ::
  "(u8 list \<Rightarrow> nat \<Rightarrow> ('e, 'a) outcome) \<Rightarrow> nat \<Rightarrow> u8 list \<Rightarrow> nat \<Rightarrow> nat \<Rightarrow> ('e, 'a list) outcome" where
  "list_entries read stride payload off 0 = Ok []"
| "list_entries read stride payload off (Suc n) =
     obind (read payload off) (\<lambda>x.
       obind (list_entries read stride payload (off + stride) n) (\<lambda>xs. Ok (x # xs)))"

definition invalidate_entry :: "u8 list \<Rightarrow> nat \<Rightarrow> ('e, invalidate_record) outcome" where
  "invalidate_entry payload off =
     obind (ld32_from payload off) (\<lambda>object_id.
       obind (ld32_from payload (off + 4)) (\<lambda>flags.
         Ok \<lparr>ir_object_id = object_id, ir_flags = flags, ir_ops = from_le_dword flags\<rparr>))"

definition decode_invalidate_resources :: "u8 list \<Rightarrow> (resource_list_error, invalidate_command) outcome" where
  "decode_invalidate_resources payload =
     (let plen = length payload in
      if plen < CHILD_RESOURCE_LIST_HEADER_LEN then Err (ShortHeader plen)
      else obind (ld32_from payload CHILD_RESOURCE_LIST_TASK_ID) (\<lambda>task_id.
           obind (ld32_from payload CHILD_RESOURCE_LIST_COUNT) (\<lambda>count.
           let need = resource_list_need count CHILD_INVALIDATE_RECORD_LEN in
           if plen < need then Err (RlTruncated count plen need)
           else obind (list_entries invalidate_entry CHILD_INVALIDATE_RECORD_LEN payload
                         CHILD_RESOURCE_LIST_HEADER_LEN (unat count)) (\<lambda>records.
             Ok \<lparr>ic_task_id = task_id, ic_count = count, ic_records = records\<rparr>))))"

definition decode_synchronize_resources :: "u8 list \<Rightarrow> (resource_list_error, synchronize_command) outcome" where
  "decode_synchronize_resources payload =
     (let plen = length payload in
      if plen < CHILD_RESOURCE_LIST_HEADER_LEN then Err (ShortHeader plen)
      else obind (ld32_from payload CHILD_RESOURCE_LIST_TASK_ID) (\<lambda>task_id.
           obind (ld32_from payload CHILD_RESOURCE_LIST_COUNT) (\<lambda>count.
           let need = resource_list_need count CHILD_SYNCHRONIZE_RECORD_LEN in
           if plen < need then Err (RlTruncated count plen need)
           else obind (list_entries ld32_from CHILD_SYNCHRONIZE_RECORD_LEN payload
                         CHILD_RESOURCE_LIST_HEADER_LEN (unat count)) (\<lambda>ids.
             Ok \<lparr>sc_task_id = task_id, sc_count = count, sc_object_ids = ids\<rparr>))))"

text \<open>The two decoders that name no reason return an \<open>Option\<close>: its \<open>None\<close> is \<open>Err ()\<close>.\<close>

definition decode_replace_physical :: "u8 list \<Rightarrow> (unit, replace_physical) outcome" where
  "decode_replace_physical payload =
     (if length payload < CHILD_REPLACE_PHYSICAL_LEN then Err ()
      else obind (ld32_from payload CHILD_REPLACE_PHYSICAL_TASK_ID) (\<lambda>task_id.
           obind (ld32_from payload CHILD_REPLACE_PHYSICAL_OBJECT_ID) (\<lambda>object_id.
           Ok \<lparr>rp_task_id = task_id, rp_object_id = object_id\<rparr>)))"

definition exec_entry :: "u8 list \<Rightarrow> nat \<Rightarrow> ('e, exec_resource) outcome" where
  "exec_entry payload off =
     obind (ld32_from payload (off + CHILD_EXEC_RESOURCE_OBJECT_ID)) (\<lambda>object_id.
     obind (ld32_from payload (off + CHILD_EXEC_RESOURCE_VALIDITY_OPS)) (\<lambda>flags.
     let tail_off = off + CHILD_EXEC_RESOURCE_TAIL in
     if tail_off + CHILD_EXEC_RESOURCE_TAIL_LEN > length payload then Panic
     else Ok \<lparr>er_object_id = object_id, er_ops = from_le_dword flags,
              er_tail = take CHILD_EXEC_RESOURCE_TAIL_LEN (drop tail_off payload)\<rparr>))"

definition decode_exec_resource_table :: "u8 list \<Rightarrow> (unit, exec_resource list) outcome" where
  "decode_exec_resource_table payload =
     (if length payload < CHILD_EXEC_INDIRECT_HEADER_LEN then Err ()
      else obind (ld32_from payload CHILD_EXEC_INDIRECT_RESOURCE_COUNT) (\<lambda>count.
        case checked_mul (ucast count) (of_nat CHILD_EXEC_INDIRECT_RESOURCE_DESC_LEN :: u64) of
          None \<Rightarrow> Err ()
        | Some table_len \<Rightarrow>
            (case checked_add (of_nat CHILD_EXEC_INDIRECT_HEADER_LEN) table_len of
               None \<Rightarrow> Err ()
             | Some need \<Rightarrow>
                 if unat need > length payload then Err ()
                 else list_entries exec_entry CHILD_EXEC_INDIRECT_RESOURCE_DESC_LEN payload
                        CHILD_EXEC_INDIRECT_HEADER_LEN (unat count))))"

section \<open>Display timing\<close>

record display_timing =
  dt_width :: u16
  dt_height :: u16
  dt_refresh_1616 :: u32
  dt_tail0 :: u32
  dt_tail1 :: u32

definition bounded_entry_offset_from_base :: "u32 \<Rightarrow> u64 \<Rightarrow> u64 \<Rightarrow> u32 \<Rightarrow> u64 option" where
  "bounded_entry_offset_from_base index base byte_capacity entry_len =
     (if entry_len = 0 then None
      else Option.bind (checked_add base (ucast index * ucast entry_len)) (\<lambda>offset.
        if offset > byte_capacity \<or> byte_capacity - offset < ucast entry_len then None else Some offset))"

definition display_refresh_hz_1616 :: "u32 \<Rightarrow> u32 option" where
  "display_refresh_hz_1616 refresh_hz =
     (if refresh_hz > drop_bit DISPLAY_TIMING_REFRESH_FRAC_BITS (- 1) then None
      else Some (push_bit DISPLAY_TIMING_REFRESH_FRAC_BITS refresh_hz))"

text \<open>\<open>st16(&mut dst[off..], v)\<close> and \<open>st32\<close>: the bytes before the offset stay.\<close>

definition store_from :: "('e, u8 list) outcome \<Rightarrow> nat \<Rightarrow> (u8 list \<Rightarrow> ('e, u8 list) outcome) \<Rightarrow> ('e, u8 list) outcome" where
  "store_from m off store =
     obind m (\<lambda>dst. obind (slice_from dst off) (\<lambda>d. obind (store d) (\<lambda>d. Ok (take off dst @ d))))"

text \<open>The bytes stored, or \<open>None\<close> where the destination is too short and the code answers false.\<close>

definition encode_display_timing_entry :: "display_timing \<Rightarrow> u8 list \<Rightarrow> (unit, u8 list option) outcome" where
  "encode_display_timing_entry entry dst =
     (if length dst < unat DISPLAY_DESC_TIMING_STRIDE then Ok None
      else obind
        (store_from (store_from (store_from (store_from (store_from (Ok dst)
            0 (\<lambda>d. st16 d (dt_width entry)))
            2 (\<lambda>d. st16 d (dt_height entry)))
            4 (\<lambda>d. st32 d (dt_refresh_1616 entry)))
            8 (\<lambda>d. st32 d (dt_tail0 entry)))
            0xc (\<lambda>d. st32 d (dt_tail1 entry)))
        (\<lambda>d. Ok (Some d)))"

definition display_timing_entry_offset :: "u32 \<Rightarrow> u64 \<Rightarrow> u64 option" where
  "display_timing_entry_offset index byte_capacity =
     bounded_entry_offset_from_base index DISPLAY_DESC_TIMING_BASE byte_capacity DISPLAY_DESC_TIMING_STRIDE"

section \<open>The loops\<close>

lemma list_entries_read:
  assumes "\<And>i. i + stride \<le> length p \<Longrightarrow> read p i = Ok (get (take stride (drop i p)))" "off + n * stride \<le> length p"
  shows "list_entries read stride p off n = Ok (map (\<lambda>k. get (take stride (drop (k * stride) (drop off p)))) [0..<n])"
  using assms(2)
proof (induction n arbitrary: off)
  case (Suc n)
  then have here: "off + stride \<le> length p" and rest: "off + stride + n * stride \<le> length p" by simp_all
  have "[0..<Suc n] = 0 # map Suc [0..<n]" by (simp add: upt_conv_Cons map_Suc_upt)
  moreover have "drop (Suc k * stride) (drop off p) = drop (k * stride) (drop (off + stride) p)" for k
    by (simp add: algebra_simps)
  ultimately show ?case
    using Suc.IH [OF rest] assms(1) [OF here] by (simp del: upt_Suc add: comp_def)
qed simp

lemma ld32_from_field: "off + 4 \<le> length p \<Longrightarrow> ld32_from p off = Ok (WireFields.u32_at p off)"
  by (simp add: ld32_from_def slice_from_def ld32_def WireFields.u32_at_def)

lemma field_within: "k + 4 \<le> n \<Longrightarrow> i + n \<le> length p \<Longrightarrow>
    WireFields.u32_at (take n (drop i p)) k = WireFields.u32_at p (i + k)"
  by (simp add: WireFields.u32_at_def drop_take take_take min_def add.commute)

lemma resource_list_need_nat:
  assumes "record_len < 2 ^ 16"
  shows "resource_list_need count record_len = 8 + unat count * record_len"
proof -
  have r: "unat (of_nat record_len :: u64) = record_len" using assms by (intro unat_of_nat_small) simp
  have "unat count * record_len \<le> 2 ^ 32 * 2 ^ 16"
    using assms unat_lt2p [of count] by (intro mult_mono) simp_all
  then have small: "unat count * record_len < 2 ^ 62" by simp
  then have m: "unat (saturating_mul (ucast count) (of_nat record_len :: u64)) = unat count * record_len"
    using unat_mult_no_wrap [of "ucast count :: u64" "of_nat record_len"] r
    by (simp add: saturating_mul_def)
  have "unat (saturating_add (saturating_mul (ucast count) (of_nat record_len :: u64)) 8) = unat count * record_len + 8"
    using m small by (simp add: saturating_add_def unat_add_no_wrap)
  then show ?thesis by (simp add: resource_list_need_def CHILD_RESOURCE_LIST_HEADER_LEN_def Let_def)
qed

section \<open>Exactness\<close>

definition word_pair :: "u8 list \<Rightarrow> u32 \<times> u32" where
  "word_pair v = (WireFields.u32_at v 0, WireFields.u32_at v 4)"

definition pair_bytes :: "u32 \<times> u32 \<Rightarrow> u8 list" where
  "pair_bytes w = le32 (fst w) @ le32 (snd w)"

lemma word_pair_layout: "length v = 8 \<Longrightarrow> word_pair v = w \<longleftrightarrow> v = pair_bytes w" "length (pair_bytes w) = 8"
proof -
  have "word_pair (pair_bytes w) = w"
    by (cases w) (simp add: word_pair_def pair_bytes_def layout_simps)
  moreover have "pair_bytes (word_pair v) = v" if "length v = 8"
    using that by (simp add: word_pair_def pair_bytes_def join_simps)
  ultimately show "length v = 8 \<Longrightarrow> word_pair v = w \<longleftrightarrow> v = pair_bytes w" by metis
qed (simp add: pair_bytes_def)

lemma word_layout: "length v = 4 \<Longrightarrow> WireFields.u32_at v 0 = w \<longleftrightarrow> v = le32 w"
  using le_field(2) [of 0 v] by (auto simp: layout_simps)

interpretation pair_struct: wire_struct word_pair pair_bytes 8
  by unfold_locales (simp_all add: word_pair_layout)

interpretation id_struct: wire_struct "\<lambda>v. WireFields.u32_at v 0" le32 4
  by unfold_locales (simp_all add: word_layout)

interpretation invalidate_list: counted_record word_pair pair_bytes 8 word_pair pair_bytes 8 snd
  by unfold_locales simp

interpretation synchronize_list: counted_record word_pair pair_bytes 8 "\<lambda>v. WireFields.u32_at v 0" le32 4 snd
  by unfold_locales simp

text \<open>What a counted view shows, and when.\<close>

lemma view_counted_value:
  assumes "sz < 2 ^ 16" "hsz \<le> length p"
  shows "view_counted hsz hread count sz read p =
    (let h = hread (take hsz p); n = unat (count h) in
     if hsz + n * sz \<le> length p
     then Ok (h, map (\<lambda>k. read (take sz (drop (k * sz) (drop hsz p)))) [0..<n])
     else Err (Short (n * sz) (length p - hsz)))"
proof -
  have "n < 2 ^ 32 \<Longrightarrow> n * sz < 2 ^ 64" for n
    using mult_strict_mono [of n "2 ^ 32" sz "2 ^ 16"] assms(1) by simp
  then have "unat (c :: u32) * sz < 2 ^ 64" for c using unat_lt2p [of c] by simp
  then show ?thesis
    using assms(2) by (auto simp: view_counted_def split_view_def view_def view_slice_def Let_def comp_def)
qed

definition invalidate_of :: "u32 \<times> u32 \<Rightarrow> (u32 \<times> u32) list \<Rightarrow> invalidate_command" where
  "invalidate_of h xs = \<lparr>ic_task_id = fst h, ic_count = snd h,
     ic_records = map (\<lambda>x. \<lparr>ir_object_id = fst x, ir_flags = snd x, ir_ops = from_le_dword (snd x)\<rparr>) xs\<rparr>"

definition synchronize_of :: "u32 \<times> u32 \<Rightarrow> u32 list \<Rightarrow> synchronize_command" where
  "synchronize_of h xs = \<lparr>sc_task_id = fst h, sc_count = snd h, sc_object_ids = xs\<rparr>"

lemma invalidate_entry_read:
  "off + 8 \<le> length p \<Longrightarrow> invalidate_entry p off =
     Ok ((\<lambda>x. \<lparr>ir_object_id = fst x, ir_flags = snd x, ir_ops = from_le_dword (snd x)\<rparr>) (word_pair (take 8 (drop off p))))"
  by (simp add: invalidate_entry_def ld32_from_field word_pair_def field_within)

lemma id_entry_read: "off + 4 \<le> length p \<Longrightarrow> ld32_from p off = Ok (WireFields.u32_at (take 4 (drop off p)) 0)"
  by (simp add: ld32_from_field field_within)

lemma header_read:
  "8 \<le> length p \<Longrightarrow> ld32_from p 0 = Ok (fst (word_pair (take 8 p)))"
  "8 \<le> length p \<Longrightarrow> ld32_from p 4 = Ok (snd (word_pair (take 8 p)))"
  using field_within [of 0 8 0 p] field_within [of 4 8 0 p]
  by (simp_all add: ld32_from_field word_pair_def)

text \<open>The decoders are the wire crate's counted view with another error.\<close>

lemma view_cases:
  "((\<forall>c. d \<noteq> Ok c) \<and> d \<noteq> Panic \<and> (\<forall>r. v \<noteq> Ok r)) \<or> d = Ok (f h xs) \<and> v = Ok (h, xs)
   \<Longrightarrow> d = Ok c \<longleftrightarrow> (\<exists>h xs. v = Ok (h, xs) \<and> c = f h xs)"
  "((\<forall>c. d \<noteq> Ok c) \<and> d \<noteq> Panic \<and> (\<forall>r. v \<noteq> Ok r)) \<or> d = Ok (f h xs) \<and> v = Ok (h, xs)
   \<Longrightarrow> d \<noteq> Panic"
  by auto

lemma decode_invalidate_view:
  "decode_invalidate_resources p = Ok c \<longleftrightarrow>
     (\<exists>h xs. view_counted 8 word_pair snd 8 word_pair p = Ok (h, xs) \<and> c = invalidate_of h xs)"
  "decode_invalidate_resources p \<noteq> Panic"
proof -
  have loop: "list_entries invalidate_entry 8 p 8 n =
      Ok (map (\<lambda>x. \<lparr>ir_object_id = fst x, ir_flags = snd x, ir_ops = from_le_dword (snd x)\<rparr>)
           (map (\<lambda>k. word_pair (take 8 (drop (k * 8) (drop 8 p)))) [0..<n]))" if "8 + n * 8 \<le> length p" for n
    using list_entries_read [where read = invalidate_entry and stride = 8 and off = 8 and
        get = "\<lambda>v. (\<lambda>x. \<lparr>ir_object_id = fst x, ir_flags = snd x, ir_ops = from_le_dword (snd x)\<rparr>) (word_pair v)",
        OF invalidate_entry_read that] by (simp add: comp_def)
  let ?h = "word_pair (take 8 p)" and ?view = "view_counted 8 word_pair snd 8 word_pair p"
  let ?xs = "map (\<lambda>k. word_pair (take 8 (drop (k * 8) (drop 8 p)))) [0..<unat (snd ?h)]"
  consider "length p < 8" | "8 \<le> length p" "length p < 8 + unat (snd ?h) * 8"
    | "8 + unat (snd ?h) * 8 \<le> length p" by linarith
  then have "(\<forall>c. decode_invalidate_resources p \<noteq> Ok c) \<and> decode_invalidate_resources p \<noteq> Panic \<and> (\<forall>r. ?view \<noteq> Ok r)
      \<or> decode_invalidate_resources p = Ok (invalidate_of ?h ?xs) \<and> ?view = Ok (?h, ?xs)"
  proof cases
    case 1
    then show ?thesis by (simp add: decode_invalidate_resources_def child_consts Let_def view_counted_def split_view_def view_def)
  next
    case 2
    then show ?thesis
      by (intro disjI1) (simp add: view_counted_value loop decode_invalidate_resources_def child_consts resource_list_need_nat header_read Let_def
        invalidate_of_def)
  next
    case 3
    then have "8 \<le> length p" by simp
    with 3 show ?thesis by (intro disjI2) (simp add: view_counted_value loop decode_invalidate_resources_def child_consts resource_list_need_nat header_read Let_def
        invalidate_of_def)
  qed
  from view_cases [where f = "invalidate_of", OF this] show "decode_invalidate_resources p = Ok c \<longleftrightarrow>
     (\<exists>h xs. view_counted 8 word_pair snd 8 word_pair p = Ok (h, xs) \<and> c = invalidate_of h xs)"
    "decode_invalidate_resources p \<noteq> Panic" by simp_all
qed

lemma decode_synchronize_view:
  "decode_synchronize_resources p = Ok c \<longleftrightarrow>
     (\<exists>h xs. view_counted 8 word_pair snd 4 (\<lambda>v. WireFields.u32_at v 0) p = Ok (h, xs) \<and> c = synchronize_of h xs)"
  "decode_synchronize_resources p \<noteq> Panic"
proof -
  have loop: "list_entries ld32_from 4 p 8 n =
      Ok (map (\<lambda>k. WireFields.u32_at (take 4 (drop (k * 4) (drop 8 p))) 0) [0..<n])" if "8 + n * 4 \<le> length p" for n
    using list_entries_read [where read = ld32_from and stride = 4 and off = 8 and
        get = "\<lambda>v. WireFields.u32_at v 0", OF id_entry_read that] by simp
  let ?h = "word_pair (take 8 p)" and ?view = "view_counted 8 word_pair snd 4 (\<lambda>v. WireFields.u32_at v 0) p"
  let ?xs = "map (\<lambda>k. (\<lambda>v. WireFields.u32_at v 0) (take 4 (drop (k * 4) (drop 8 p)))) [0..<unat (snd ?h)]"
  consider "length p < 8" | "8 \<le> length p" "length p < 8 + unat (snd ?h) * 4"
    | "8 + unat (snd ?h) * 4 \<le> length p" by linarith
  then have "(\<forall>c. decode_synchronize_resources p \<noteq> Ok c) \<and> decode_synchronize_resources p \<noteq> Panic \<and> (\<forall>r. ?view \<noteq> Ok r)
      \<or> decode_synchronize_resources p = Ok (synchronize_of ?h ?xs) \<and> ?view = Ok (?h, ?xs)"
  proof cases
    case 1
    then show ?thesis by (simp add: decode_synchronize_resources_def child_consts Let_def view_counted_def split_view_def view_def)
  next
    case 2
    then show ?thesis
      by (intro disjI1) (simp add: view_counted_value loop decode_synchronize_resources_def child_consts resource_list_need_nat header_read Let_def
        synchronize_of_def)
  next
    case 3
    then have "8 \<le> length p" by simp
    with 3 show ?thesis by (intro disjI2) (simp add: view_counted_value loop decode_synchronize_resources_def child_consts resource_list_need_nat header_read Let_def
        synchronize_of_def)
  qed
  from view_cases [where f = "synchronize_of", OF this] show "decode_synchronize_resources p = Ok c \<longleftrightarrow>
     (\<exists>h xs. view_counted 8 word_pair snd 4 (\<lambda>v. WireFields.u32_at v 0) p = Ok (h, xs) \<and> c = synchronize_of h xs)"
    "decode_synchronize_resources p \<noteq> Panic" by simp_all
qed

text \<open>The resource table: the entry is an object, its operations and sixteen bytes.\<close>

definition exec_words :: "u8 list \<Rightarrow> u32 \<times> u32 \<times> u64 \<times> u64" where
  "exec_words v = (WireFields.u32_at v 0, WireFields.u32_at v 4, u64_at v 8, u64_at v 16)"

definition exec_bytes :: "u32 \<times> u32 \<times> u64 \<times> u64 \<Rightarrow> u8 list" where
  "exec_bytes w = (case w of (a, b, c, d) \<Rightarrow> le32 a @ le32 b @ le64 c @ le64 d)"

definition head_words :: "u8 list \<Rightarrow> u32 \<times> u32 \<times> u32" where
  "head_words v = (WireFields.u32_at v 0, WireFields.u32_at v 4, WireFields.u32_at v 8)"

definition head_bytes :: "u32 \<times> u32 \<times> u32 \<Rightarrow> u8 list" where
  "head_bytes w = (case w of (a, b, c) \<Rightarrow> le32 a @ le32 b @ le32 c)"

lemma exec_words_layout: "length v = 24 \<Longrightarrow> exec_words v = w \<longleftrightarrow> v = exec_bytes w" "length (exec_bytes w) = 24"
proof -
  have "exec_words (exec_bytes w) = w"
    by (cases w) (simp add: exec_words_def exec_bytes_def layout_simps)
  moreover have "exec_bytes (exec_words v) = v" if "length v = 24"
    using that by (simp add: exec_words_def exec_bytes_def join_simps)
  ultimately show "length v = 24 \<Longrightarrow> exec_words v = w \<longleftrightarrow> v = exec_bytes w" by metis
qed (simp add: exec_bytes_def split: prod.split)

lemma head_words_layout: "length v = 12 \<Longrightarrow> head_words v = w \<longleftrightarrow> v = head_bytes w" "length (head_bytes w) = 12"
proof -
  have "head_words (head_bytes w) = w"
    by (cases w) (simp add: head_words_def head_bytes_def layout_simps)
  moreover have "head_bytes (head_words v) = v" if "length v = 12"
    using that by (simp add: head_words_def head_bytes_def join_simps)
  ultimately show "length v = 12 \<Longrightarrow> head_words v = w \<longleftrightarrow> v = head_bytes w" by metis
qed (simp add: head_bytes_def split: prod.split)

interpretation exec_struct: wire_struct exec_words exec_bytes 24
  by unfold_locales (simp_all add: exec_words_layout)

interpretation exec_table: counted_record head_words head_bytes 12 exec_words exec_bytes 24 "fst \<circ> snd"
  by unfold_locales (simp_all add: exec_words_layout head_words_layout)

definition exec_of :: "u32 \<times> u32 \<times> u64 \<times> u64 \<Rightarrow> exec_resource" where
  "exec_of w = (case w of (a, b, c, d) \<Rightarrow>
     \<lparr>er_object_id = a, er_ops = from_le_dword b, er_tail = le64 c @ le64 d\<rparr>)"

lemma exec_entry_read:
  "off + 24 \<le> length p \<Longrightarrow> exec_entry p off = Ok (exec_of (exec_words (take 24 (drop off p))))"
proof -
  assume off: "off + 24 \<le> length p"
  let ?v = "take 24 (drop off p)"
  have "take 16 (drop (off + 8) p) = take 8 (drop 8 ?v) @ take 8 (drop 16 ?v)"
    using take_add [of 8 8 "drop (off + 8) p"] off by (simp add: drop_take add.commute)
  also have "\<dots> = le64 (u64_at ?v 8) @ le64 (u64_at ?v 16)"
    using le_field(3) [of 8 ?v] le_field(3) [of 16 ?v] off by simp
  finally show ?thesis
    using off field_within [of 0 24 off p] field_within [of 4 24 off p]
    by (simp add: exec_entry_def child_consts ld32_from_field exec_of_def exec_words_def Let_def)
qed

lemma decode_exec_view:
  "decode_exec_resource_table p = Ok rs \<longleftrightarrow>
     (\<exists>h xs. view_counted 12 head_words (fst \<circ> snd) 24 exec_words p = Ok (h, xs) \<and> rs = map exec_of xs)"
  "decode_exec_resource_table p \<noteq> Panic"
proof -
  have loop: "list_entries exec_entry 24 p 12 n =
      Ok (map exec_of (map (\<lambda>k. exec_words (take 24 (drop (k * 24) (drop 12 p)))) [0..<n]))" if "12 + n * 24 \<le> length p" for n
    using list_entries_read [where read = exec_entry and stride = 24 and off = 12 and
        get = "\<lambda>v. exec_of (exec_words v)", OF exec_entry_read that] by (simp add: comp_def)
  have count: "ld32_from p 4 = Ok (fst (snd (head_words (take 12 p))))" if "12 \<le> length p"
    using that field_within [of 4 12 0 p] by (simp add: ld32_from_field head_words_def)
  have small: "unat (c :: u32) * 24 < 2 ^ 62" for c using unat_lt2p [of c] by simp
  have mul: "checked_mul (ucast c) (24 :: u64) = Some (ucast c * 24)" "unat (ucast c * 24 :: u64) = unat c * 24" for c :: u32
    using small [of c] unat_mult_no_wrap [of "ucast c :: u64" 24] by (simp_all add: checked_mul_def)
  have add: "checked_add (12 :: u64) (ucast c * 24) = Some (12 + ucast c * 24)"
    "unat (12 + ucast c * 24 :: u64) = 12 + unat c * 24" for c :: u32
    using small [of c] mul(2) [of c] unat_add_no_wrap [of "12 :: u64" "ucast c * 24"] by (simp_all add: checked_add_def)
  let ?h = "head_words (take 12 p)" and ?view = "view_counted 12 head_words (fst \<circ> snd) 24 exec_words p"
  let ?xs = "map (\<lambda>k. exec_words (take 24 (drop (k * 24) (drop 12 p)))) [0..<unat ((fst \<circ> snd) ?h)]"
  consider "length p < 12" | "12 \<le> length p" "length p < 12 + unat ((fst \<circ> snd) ?h) * 24"
    | "12 + unat ((fst \<circ> snd) ?h) * 24 \<le> length p" by linarith
  then have "(\<forall>c. decode_exec_resource_table p \<noteq> Ok c) \<and> decode_exec_resource_table p \<noteq> Panic \<and> (\<forall>r. ?view \<noteq> Ok r)
      \<or> decode_exec_resource_table p = Ok (map exec_of ?xs) \<and> ?view = Ok (?h, ?xs)"
  proof cases
    case 1
    then show ?thesis by (simp add: decode_exec_resource_table_def child_consts Let_def view_counted_def split_view_def view_def)
  next
    case 2
    then show ?thesis
      by (intro disjI1) (simp add: view_counted_value loop decode_exec_resource_table_def child_consts count mul add Let_def)
  next
    case 3
    then have "12 \<le> length p" by simp
    with 3 show ?thesis by (intro disjI2) (simp add: view_counted_value loop decode_exec_resource_table_def child_consts count mul add Let_def)
  qed
  from view_cases [where f = "\<lambda>h xs. map exec_of xs", OF this] show "decode_exec_resource_table p = Ok rs \<longleftrightarrow>
     (\<exists>h xs. view_counted 12 head_words (fst \<circ> snd) 24 exec_words p = Ok (h, xs) \<and> rs = map exec_of xs)"
    "decode_exec_resource_table p \<noteq> Panic" by simp_all
qed

text \<open>
  The resource-list decoders are exact. The invalidate and the synchronize decoder accept a payload
  exactly when it is the task, a count and as many records, whatever follows; the table of an indirect
  execution likewise behind its three words; and none of them loads past the payload.
\<close>

theorem resource_lists_exact:
  "(decode_invalidate_resources p = Ok c \<longleftrightarrow>
      (\<exists>rest. p = le32 (ic_task_id c) @ le32 (ic_count c)
                @ concat (map (\<lambda>r. le32 (ir_object_id r) @ le32 (ir_flags r)) (ic_records c)) @ rest)
      \<and> unat (ic_count c) = length (ic_records c)
      \<and> list_all (\<lambda>r. ir_ops r = from_le_dword (ir_flags r)) (ic_records c))
   \<and> (decode_synchronize_resources p = Ok d \<longleftrightarrow>
      (\<exists>rest. p = le32 (sc_task_id d) @ le32 (sc_count d) @ concat (map le32 (sc_object_ids d)) @ rest)
      \<and> unat (sc_count d) = length (sc_object_ids d))
   \<and> (decode_exec_resource_table p = Ok rs \<longleftrightarrow>
      (\<exists>task cmdbufs ws rest. p = le32 task @ le32 (of_nat (length ws)) @ le32 cmdbufs
                @ concat (map exec_bytes ws) @ rest \<and> length ws < 2 ^ 32 \<and> rs = map exec_of ws))
   \<and> decode_invalidate_resources p \<noteq> Panic \<and> decode_synchronize_resources p \<noteq> Panic
   \<and> decode_exec_resource_table p \<noteq> Panic"
proof (intro conjI decode_invalidate_view(2) decode_synchronize_view(2) decode_exec_view(2))
  let ?raw = "\<lambda>r. (ir_object_id r, ir_flags r)"
  let ?mk = "\<lambda>x. \<lparr>ir_object_id = fst x, ir_flags = snd x, ir_ops = from_le_dword (snd x)\<rparr>"
  have raw: "rs = map ?mk xs \<longleftrightarrow> xs = map ?raw rs \<and> list_all (\<lambda>r. ir_ops r = from_le_dword (ir_flags r)) rs" for rs xs
    by (induction rs arbitrary: xs) (auto simp: Cons_eq_map_conv map_eq_Cons_conv)
  have bytes: "pair_struct.list_bytes (map ?raw rs) = concat (map (\<lambda>r. le32 (ir_object_id r) @ le32 (ir_flags r)) rs)" for rs
    by (simp add: pair_struct.list_bytes_def pair_bytes_def comp_def)
  show "decode_invalidate_resources p = Ok c \<longleftrightarrow>
      (\<exists>rest. p = le32 (ic_task_id c) @ le32 (ic_count c)
                @ concat (map (\<lambda>r. le32 (ir_object_id r) @ le32 (ir_flags r)) (ic_records c)) @ rest)
      \<and> unat (ic_count c) = length (ic_records c)
      \<and> list_all (\<lambda>r. ir_ops r = from_le_dword (ir_flags r)) (ic_records c)"
    unfolding decode_invalidate_view(1) invalidate_list.view_counted_exact
    by (cases c) (auto simp: invalidate_of_def raw bytes pair_bytes_def)
  show "decode_synchronize_resources p = Ok d \<longleftrightarrow>
      (\<exists>rest. p = le32 (sc_task_id d) @ le32 (sc_count d) @ concat (map le32 (sc_object_ids d)) @ rest)
      \<and> unat (sc_count d) = length (sc_object_ids d)"
    unfolding decode_synchronize_view(1) synchronize_list.view_counted_exact
    by (cases d) (auto simp: synchronize_of_def id_struct.list_bytes_def pair_bytes_def)
  have n: "length ws = unat (n :: u32) \<longleftrightarrow> n = of_nat (length ws) \<and> length ws < 2 ^ 32" for ws :: "'z list" and n
    using unat_lt2p [of n] by (auto simp: unat_of_nat_small)
  show "decode_exec_resource_table p = Ok rs \<longleftrightarrow>
      (\<exists>task cmdbufs ws rest. p = le32 task @ le32 (of_nat (length ws)) @ le32 cmdbufs
                @ concat (map exec_bytes ws) @ rest \<and> length ws < 2 ^ 32 \<and> rs = map exec_of ws)"
    unfolding decode_exec_view(1) exec_table.view_counted_exact
    by (auto simp: head_bytes_def exec_struct.list_bytes_def n)
qed

end
