(* ===== verification/HostWrites.thy ===== *)
theory HostWrites
  imports Machine OrderedMap
begin

text \<open>
  runtime/host_writes.rs: the record of the guest pages the device has written. Each recorded write
  takes the next epoch; a reader keeps the epoch of its copy and asks whether a later write touched its
  pages. The map of the last write of a page is a \<open>HashMap\<close> in the code and an ordered list here: no
  operation iterates it.
\<close>

section \<open>The record\<close>

datatype host_write_verdict = HwQuiet | HwOverlap | HwUnnamed | HwForgotten

definition hw_wrote :: "host_write_verdict \<Rightarrow> bool" where
  "hw_wrote v \<longleftrightarrow> v \<noteq> HwQuiet"

fun hw_route :: "host_write_verdict \<Rightarrow> string" where
  "hw_route HwQuiet = ''gw_hw_quiet''"
| "hw_route HwOverlap = ''gw_hw_overlap''"
| "hw_route HwUnnamed = ''gw_hw_unnamed''"
| "hw_route HwForgotten = ''gw_hw_forgotten''"

record page_epochs =
  pe_last_write :: "(u64 \<times> u64) list"
  pe_unnamed_at :: u64
  pe_reset_at :: u64

definition PAGES :: nat where "PAGES = 2 ^ 20"

definition pe_note_pages :: "u64 list \<Rightarrow> u64 \<Rightarrow> page_epochs \<Rightarrow> page_epochs" where
  "pe_note_pages pages epoch pe =
     (let pe = (if min (length (pe_last_write pe) + length pages) (2 ^ 64 - 1) > PAGES
                then pe\<lparr>pe_last_write := [], pe_reset_at := epoch\<rparr> else pe)
      in pe\<lparr>pe_last_write := fold (\<lambda>p. bt_insert p epoch) pages (pe_last_write pe)\<rparr>)"

definition pe_note_unknown :: "u64 \<Rightarrow> page_epochs \<Rightarrow> page_epochs" where
  "pe_note_unknown epoch pe = pe\<lparr>pe_unnamed_at := epoch\<rparr>"

definition pe_verdict :: "page_epochs \<Rightarrow> u64 \<Rightarrow> u64 list \<Rightarrow> host_write_verdict" where
  "pe_verdict pe since pages =
     (if since < pe_unnamed_at pe then HwUnnamed
      else if since < pe_reset_at pe then HwForgotten
      else if list_ex (\<lambda>p. case map_of (pe_last_write pe) p of None \<Rightarrow> False | Some e \<Rightarrow> e > since) pages
      then HwOverlap else HwQuiet)"

record host_writes =
  hw_epoch :: u64
  hw_pages :: page_epochs

definition hw_default :: host_writes where
  "hw_default = \<lparr>hw_epoch = 0, hw_pages = \<lparr>pe_last_write = [], pe_unnamed_at = 0, pe_reset_at = 0\<rparr>\<rparr>"

definition hw_note_pages :: "u64 list \<Rightarrow> host_writes \<Rightarrow> host_writes" where
  "hw_note_pages pages hw =
     (let epoch = hw_epoch hw + 1 in
      \<lparr>hw_epoch = epoch, hw_pages = pe_note_pages pages epoch (hw_pages hw)\<rparr>)"

definition hw_note_unknown :: "host_writes \<Rightarrow> host_writes" where
  "hw_note_unknown hw =
     (let epoch = hw_epoch hw + 1 in
      \<lparr>hw_epoch = epoch, hw_pages = pe_note_unknown epoch (hw_pages hw)\<rparr>)"

definition hw_note_mapping :: "u64 list option \<Rightarrow> host_writes \<Rightarrow> host_writes" where
  "hw_note_mapping pages hw =
     (let epoch = hw_epoch hw + 1 in
      \<lparr>hw_epoch = epoch,
       hw_pages = (case pages of Some p \<Rightarrow> pe_note_pages p epoch (hw_pages hw)
                   | None \<Rightarrow> pe_note_unknown epoch (hw_pages hw))\<rparr>)"

definition wrote_any_since :: "host_writes \<Rightarrow> u64 \<Rightarrow> u64 list \<Rightarrow> host_write_verdict" where
  "wrote_any_since hw since pages = pe_verdict (hw_pages hw) since pages"

section \<open>Histories\<close>

text \<open>
  A history is the list of recorded writes, each the pages it named or \<open>None\<close>. \<open>record_all\<close> is the
  record after it.
\<close>

definition record_all :: "u64 list option list \<Rightarrow> host_writes" where
  "record_all h = fold hw_note_mapping h hw_default"

lemma note_pages_as_mapping: "hw_note_pages pages = hw_note_mapping (Some pages)"
  by (rule ext) (simp add: hw_note_pages_def hw_note_mapping_def)

lemma note_unknown_as_mapping: "hw_note_unknown = hw_note_mapping None"
  by (rule ext) (simp add: hw_note_unknown_def hw_note_mapping_def)

lemma record_all_snoc: "record_all (h @ [w]) = hw_note_mapping w (record_all h)"
  by (simp add: record_all_def)

lemma record_epoch: "hw_epoch (record_all h) = of_nat (length h)"
  by (induction h rule: rev_induct)
     (simp_all add: record_all_snoc hw_note_mapping_def Let_def record_all_def hw_default_def)

text \<open>The index of the last write of a history that satisfies a condition, counted from one.\<close>

fun last_at :: "('a \<Rightarrow> bool) \<Rightarrow> 'a list \<Rightarrow> nat" where
  "last_at P [] = 0"
| "last_at P (x # xs) = (let n = last_at P xs in if n \<noteq> 0 then Suc n else if P x then 1 else 0)"

lemma last_at_le: "last_at P xs \<le> length xs"
  by (induction xs) (auto simp: Let_def)

lemma last_at_snoc: "last_at P (xs @ [x]) = (if P x then Suc (length xs) else last_at P xs)"
  by (induction xs) (auto simp: Let_def)

lemma last_at_after: "k < last_at P xs \<longleftrightarrow> (\<exists>i. k \<le> i \<and> i < length xs \<and> P (xs ! i))"
proof (induction xs rule: rev_induct)
  case (snoc x xs)
  show ?case
  proof (cases "P x")
    case True
    then show ?thesis
      using snoc by (auto simp: last_at_snoc nth_append less_Suc_eq intro!: exI [of _ "length xs"])
  next
    case False
    then show ?thesis
      using snoc by (auto simp: last_at_snoc nth_append less_Suc_eq)
  qed
qed simp

section \<open>What a verdict says of the history\<close>

definition unnamed :: "u64 list option \<Rightarrow> bool" where
  "unnamed w \<longleftrightarrow> w = None"

definition names_page :: "u64 \<Rightarrow> u64 list option \<Rightarrow> bool" where
  "names_page p w = (case w of None \<Rightarrow> False | Some ps \<Rightarrow> p \<in> set ps)"

text \<open>Whether write \<open>i\<close> of the history found the record full and cleared it.\<close>

definition held :: "u64 list option list \<Rightarrow> nat" where
  "held h = length (pe_last_write (hw_pages (record_all h)))"

definition clears_at :: "u64 list option list \<Rightarrow> nat \<Rightarrow> bool" where
  "clears_at h i = (case h ! i of None \<Rightarrow> False | Some ps \<Rightarrow> held (take i h) + length ps > PAGES)"

lemma clears_at_snoc: "i < length h \<Longrightarrow> clears_at (h @ [w]) i = clears_at h i"
  by (simp add: clears_at_def nth_append split: option.split)

lemma clears_at_last: "clears_at (h @ [w]) (length h) =
    (case w of None \<Rightarrow> False | Some ps \<Rightarrow> held h + length ps > PAGES)"
  by (simp add: clears_at_def split: option.split)

lemma fold_insert_ok: "bt_ok m \<Longrightarrow> bt_ok (fold (\<lambda>p. bt_insert p e) ps m)"
  by (induction ps arbitrary: m) (auto intro: bt_insert_ok)

lemma fold_insert_get:
  "bt_ok m \<Longrightarrow> map_of (fold (\<lambda>p. bt_insert p e) ps m) p = (if p \<in> set ps then Some e else map_of m p)"
proof (induction ps arbitrary: m)
  case (Cons q ps)
  have "bt_ok (bt_insert q e m)" by (rule bt_insert_ok [OF Cons.prems])
  from Cons.IH [OF this] Cons.prems show ?case by (auto simp: bt_get_update)
qed simp

definition page_ok :: "u64 list option list \<Rightarrow> page_epochs \<Rightarrow> u64 \<Rightarrow> bool" where
  "page_ok h pe p \<longleftrightarrow>
     (case map_of (pe_last_write pe) p of
        Some e \<Rightarrow> unat e = last_at (names_page p) h
      | None \<Rightarrow> last_at (names_page p) h \<le> unat (pe_reset_at pe))"

definition rec_ok :: "u64 list option list \<Rightarrow> page_epochs \<Rightarrow> bool" where
  "rec_ok h pe \<longleftrightarrow>
     bt_ok (pe_last_write pe)
   \<and> unat (pe_unnamed_at pe) = last_at unnamed h
   \<and> (\<forall>k. k < unat (pe_reset_at pe) \<longleftrightarrow> (\<exists>i. k \<le> i \<and> i < length h \<and> clears_at h i))
   \<and> (\<forall>p. page_ok h pe p)"

lemma full_test: "(min (m + n) (2 ^ 64 - 1) > PAGES) = (m + n > PAGES)"
  by (simp add: PAGES_def min_def)

lemma pe_note_pages_eq:
  "pe_note_pages ps e pe =
     (let full = length (pe_last_write pe) + length ps > PAGES in
      pe\<lparr>pe_last_write := fold (\<lambda>p. bt_insert p e) ps (if full then [] else pe_last_write pe),
         pe_reset_at := (if full then e else pe_reset_at pe)\<rparr>)"
  unfolding pe_note_pages_def full_test Let_def by simp

lemma unat_next: "Suc (length h) < 2 ^ 64 \<Longrightarrow> unat (of_nat (length h) + 1 :: u64) = Suc (length h)"
proof -
  assume a: "Suc (length h) < 2 ^ 64"
  have "unat (of_nat (Suc (length h)) :: u64) = Suc (length h)"
    using a by (simp only: unat_of_nat) simp
  then show ?thesis by (simp add: add.commute)
qed

lemma reset_snoc:
  assumes "\<forall>k. k < r \<longleftrightarrow> (\<exists>i. k \<le> i \<and> i < length h \<and> clears_at h i)"
  shows "(\<exists>i. k \<le> i \<and> i < length (h @ [w]) \<and> clears_at (h @ [w]) i) \<longleftrightarrow>
         (if clears_at (h @ [w]) (length h) then k < Suc (length h) else k < r)"
proof -
  have "(\<exists>i. k \<le> i \<and> i < length (h @ [w]) \<and> clears_at (h @ [w]) i) \<longleftrightarrow>
        (\<exists>i. k \<le> i \<and> i < length h \<and> clears_at h i) \<or> k \<le> length h \<and> clears_at (h @ [w]) (length h)"
    by (auto simp: less_Suc_eq clears_at_snoc)
  moreover have "k < r \<Longrightarrow> k < Suc (length h)"
    using assms by auto
  ultimately show ?thesis using assms by (auto simp: less_Suc_eq_le)
qed

lemma rec_ok_record: "length h < 2 ^ 64 \<Longrightarrow> rec_ok h (hw_pages (record_all h))"
proof (induction h rule: rev_induct)
  case Nil
  show ?case by (simp add: rec_ok_def page_ok_def record_all_def hw_default_def bt_ok_def)
next
  case (snoc w h)
  let ?pe = "hw_pages (record_all h)" and ?e = "of_nat (length h) + 1 :: u64"
  have ih: "rec_ok h ?pe" using snoc by simp
  have e: "unat ?e = Suc (length h)" using snoc.prems by (intro unat_next) simp
  show ?case
  proof (cases w)
    case None
    have "(\<exists>i\<ge>k. i < length (h @ [w]) \<and> clears_at (h @ [w]) i) \<longleftrightarrow> k < unat (pe_reset_at ?pe)" for k
      using ih reset_snoc [of "unat (pe_reset_at ?pe)" h k w] clears_at_last [of h w]
      by (simp add: rec_ok_def None)
    moreover have "page_ok (h @ [w]) (?pe\<lparr>pe_unnamed_at := ?e\<rparr>) p" for p
    proof -
      have "page_ok h ?pe p" using ih by (simp add: rec_ok_def)
      moreover have "\<not> names_page p w" by (simp add: names_page_def None)
      ultimately show ?thesis by (simp add: page_ok_def last_at_snoc split: option.splits)
    qed
    moreover have "hw_pages (record_all (h @ [w])) = ?pe\<lparr>pe_unnamed_at := ?e\<rparr>"
      by (simp add: record_all_snoc hw_note_mapping_def Let_def pe_note_unknown_def record_epoch None)
    ultimately show ?thesis
      using ih e by (simp add: rec_ok_def last_at_snoc [of unnamed] unnamed_def [of None] None del: length_append)
  next
    case (Some ps)
    let ?full = "held h + length ps > PAGES"
    define lw where "lw = (if ?full then [] else pe_last_write ?pe)"
    have lw_ok: "bt_ok lw" using ih by (simp add: lw_def rec_ok_def bt_ok_def)
    have pe': "hw_pages (record_all (h @ [w])) =
        ?pe\<lparr>pe_last_write := fold (\<lambda>p. bt_insert p ?e) ps lw,
            pe_reset_at := (if ?full then ?e else pe_reset_at ?pe)\<rparr>"
      by (simp add: record_all_snoc hw_note_mapping_def Some Let_def pe_note_pages_eq record_epoch
            held_def lw_def)
    have reset: "\<forall>k. k < unat (if ?full then ?e else pe_reset_at ?pe) \<longleftrightarrow>
        (\<exists>i. k \<le> i \<and> i < length (h @ [w]) \<and> clears_at (h @ [w]) i)"
    proof
      fix k
      show "k < unat (if ?full then ?e else pe_reset_at ?pe) \<longleftrightarrow>
        (\<exists>i. k \<le> i \<and> i < length (h @ [w]) \<and> clears_at (h @ [w]) i)"
        using ih e reset_snoc [of "unat (pe_reset_at ?pe)" h k w] clears_at_last [of h w]
        by (simp add: rec_ok_def Some)
    qed
    have le: "last_at (names_page p) h \<le> Suc (length h)" for p
      using last_at_le [of "names_page p" h] by simp
    have "page_ok (h @ [w]) (hw_pages (record_all (h @ [w]))) p" for p
    proof -
      have "page_ok h ?pe p" using ih by (simp add: rec_ok_def)
      moreover have "names_page p w \<longleftrightarrow> p \<in> set ps" by (simp add: names_page_def Some)
      ultimately show ?thesis
        using e le [of p] fold_insert_get [OF lw_ok, of ?e ps p]
        by (auto simp: page_ok_def pe' last_at_snoc lw_def split: option.splits)
    qed
    moreover have "\<not> unnamed w" by (simp add: unnamed_def Some)
    ultimately show ?thesis
      using ih reset by (simp add: rec_ok_def pe' fold_insert_ok lw_ok last_at_snoc)
  qed
qed

lemma list_ex_set: "list_ex P xs \<longleftrightarrow> (\<exists>x\<in>set xs. P x)"
  by (induction xs) auto

lemma last_at_beyond:
  "length h < last_at P (h @ l) \<longleftrightarrow> (\<exists>x\<in>set l. P x)"
  unfolding last_at_after
proof
  assume "\<exists>i. length h \<le> i \<and> i < length (h @ l) \<and> P ((h @ l) ! i)"
  then obtain i where "length h \<le> i" "i < length (h @ l)" "P ((h @ l) ! i)" by blast
  then show "\<exists>x\<in>set l. P x"
    by (intro bexI [of _ "l ! (i - length h)"]) (auto simp: nth_append)
next
  assume "\<exists>x\<in>set l. P x"
  then obtain j where "j < length l" "P (l ! j)" by (auto simp: in_set_conv_nth)
  then show "\<exists>i. length h \<le> i \<and> i < length (h @ l) \<and> P ((h @ l) ! i)"
    by (intro exI [of _ "length h + j"]) simp
qed

lemma held_bound: "held h \<le> (\<Sum>w\<leftarrow>h. case w of None \<Rightarrow> 0 | Some ps \<Rightarrow> length ps)"
proof (induction h rule: rev_induct)
  case Nil
  show ?case by (simp add: held_def record_all_def hw_default_def)
next
  case (snoc w h)
  have grow: "length (bt_insert p e m) \<le> Suc (length m)" for p :: u64 and e :: u64 and m
    by (induction p e m rule: bt_insert.induct) auto
  have fold: "length (fold (\<lambda>p. bt_insert p e) ps m) \<le> length m + length ps" for e :: u64 and ps :: "u64 list" and m
  proof (induction ps arbitrary: m)
    case (Cons p ps)
    from Cons.IH [of "bt_insert p e m"] grow [of p e m] show ?case by simp
  qed simp
  have "held (h @ [w]) \<le> held h + (case w of None \<Rightarrow> 0 | Some ps \<Rightarrow> length ps)"
  proof (cases w)
    case (Some ps)
    show ?thesis
      using fold [where ps = ps] Some
      by (auto simp: held_def record_all_snoc hw_note_mapping_def Let_def pe_note_pages_eq
               intro: order_trans [OF fold])
  qed (simp add: held_def record_all_snoc hw_note_mapping_def Let_def pe_note_unknown_def)
  with snoc.IH show ?case by simp
qed

text \<open>
  C28: the answer to a reader is a function of the writes recorded since its mark and of nothing older:
  an unnamed write answers Unnamed, a record cleared since answers Forgotten, a write that named one of
  the reader's pages answers Overlap, and Quiet is answered exactly when no write since the mark can have
  touched the pages.
\<close>

theorem quiet_exactly_when_untouched:
  assumes "length (h @ l) < 2 ^ 64"
  shows "wrote_any_since (record_all (h @ l)) (hw_epoch (record_all h)) pages =
    (if None \<in> set l then HwUnnamed
     else if \<exists>i<length l. clears_at (h @ l) (length h + i) then HwForgotten
     else if \<exists>ps. Some ps \<in> set l \<and> set ps \<inter> set pages \<noteq> {} then HwOverlap
     else HwQuiet)"
proof -
  let ?pe = "hw_pages (record_all (h @ l))" and ?mark = "of_nat (length h) :: u64"
  have ok: "rec_ok (h @ l) ?pe" by (rule rec_ok_record [OF assms])
  have mark: "unat ?mark = length h"
    using assms by (simp only: unat_of_nat) simp
  have unnamed: "?mark < pe_unnamed_at ?pe \<longleftrightarrow> None \<in> set l"
    using ok by (auto simp: word_less_nat_alt mark rec_ok_def last_at_beyond unnamed_def)
  have "?mark < pe_reset_at ?pe \<longleftrightarrow> (\<exists>i. length h \<le> i \<and> i < length (h @ l) \<and> clears_at (h @ l) i)"
    using ok by (simp add: word_less_nat_alt mark rec_ok_def)
  then have reset: "?mark < pe_reset_at ?pe \<longleftrightarrow> (\<exists>i<length l. clears_at (h @ l) (length h + i))"
    by (auto simp: le_iff_add)
  have hit: "(case map_of (pe_last_write ?pe) p of None \<Rightarrow> False | Some e \<Rightarrow> e > ?mark) \<longleftrightarrow>
      (\<exists>w\<in>set l. names_page p w)" if "\<not> ?mark < pe_reset_at ?pe" for p
  proof -
    have "page_ok (h @ l) ?pe p"
      using ok by (simp add: rec_ok_def)
    with that show ?thesis
      using last_at_beyond [of h "names_page p" l]
      by (auto simp: page_ok_def word_less_nat_alt mark split: option.splits)
  qed
  have names: "(\<exists>p\<in>set pages. \<exists>w\<in>set l. names_page p w) \<longleftrightarrow>
      (\<exists>ps. Some ps \<in> set l \<and> set ps \<inter> set pages \<noteq> {})"
    by (force simp: names_page_def split: option.splits)
  have "\<not> ?mark < pe_reset_at ?pe \<Longrightarrow>
      list_ex (\<lambda>p. case map_of (pe_last_write ?pe) p of None \<Rightarrow> False | Some e \<Rightarrow> e > ?mark) pages
      \<longleftrightarrow> (\<exists>ps. Some ps \<in> set l \<and> set ps \<inter> set pages \<noteq> {})"
    unfolding list_ex_set names [symmetric] using hit by simp
  then show ?thesis
    unfolding wrote_any_since_def pe_verdict_def record_epoch unnamed reset
    by (cases "\<exists>i<length l. clears_at (h @ l) (length h + i)") (simp_all only: reset if_True if_False simp_thms)
qed

theorem quiet_exactly_when_untouched_witness:
  "wrote_any_since (record_all ([Some [0x1000]] @ [Some [0x2000, 0x3000]])) (hw_epoch (record_all [Some [0x1000]]))
     [0x1000] = HwQuiet
   \<and> wrote_any_since (record_all ([Some [0x1000]] @ [Some [0x2000, 0x3000]])) (hw_epoch (record_all [Some [0x1000]]))
     [0x4000, 0x3000] = HwOverlap"
proof -
  have full: "\<not> (\<exists>i<length [Some [0x2000, 0x3000 :: u64]].
      clears_at ([Some [0x1000]] @ [Some [0x2000, 0x3000]]) (length [Some [0x1000 :: u64]] + i))"
    using held_bound [of "[Some [0x1000]]"] by (simp add: clears_at_def PAGES_def)
  show ?thesis
    by (subst (1 2) quiet_exactly_when_untouched) (use full in simp_all)
qed

end
