(* ===== verification/Surfaces.thy ===== *)
theory Surfaces
  imports IosurfacePages HostWrites Resolve
begin

text \<open>
  model/state.rs: the registry of mapped surfaces. A mapping holds the guest's page list, the
  generation that names it, and the two host objects built on it, a contiguous view and a guest-write
  token; both leave a mapping only through the retired lists. The telemetry of a flush
  (\<open>render_flush\<close>) decides nothing and is left out, and so are the counters and log lines.
\<close>

section \<open>State\<close>

record resource_validity =
  rv_host_valid :: bool
  rv_guest_valid :: bool
  rv_host_stated :: bool
  rv_guest_stated :: bool
  rv_host_cleared_seq :: u64
  rv_host_published_seq :: u64

definition validity_default :: resource_validity where
  "validity_default = \<lparr>rv_host_valid = False, rv_guest_valid = False, rv_host_stated = False,
     rv_guest_stated = False, rv_host_cleared_seq = 0, rv_host_published_seq = 0\<rparr>"

record type4_walk =
  t4_task_id :: u32
  t4_backing_pfn :: u32
  t4_map_generation :: u32

record mapping_entry =
  me_mapped :: bool
  me_has_geom :: bool
  me_width :: u32
  me_height :: u32
  me_format :: u16
  me_content_generation :: u32
  me_validity :: resource_validity
  me_surface_content_epoch :: u32
  me_map_generation :: u32
  me_page_entries :: "u32 list"
  me_condemned_entries :: "u32 list option"
  me_mapping_internal :: u64
  me_page_table_kva :: u64
  me_device_desc :: "u8 list"
  me_contig_ptr :: u64
  me_contig_len :: u64
  me_contig_fragmented_gen :: "u32 option"
  me_guest_write_token :: u64
  me_guest_write_token_gen :: u32
  me_guest_write_gen_at_store :: u64
  me_owner_task_hint :: u32
  me_type4_walk :: "type4_walk option"

definition mapping_default :: mapping_entry where
  "mapping_default = \<lparr>me_mapped = False, me_has_geom = False, me_width = 0, me_height = 0,
     me_format = 0, me_content_generation = 0, me_validity = validity_default,
     me_surface_content_epoch = 0, me_map_generation = 0, me_page_entries = [],
     me_condemned_entries = None, me_mapping_internal = 0, me_page_table_kva = 0,
     me_device_desc = [], me_contig_ptr = 0, me_contig_len = 0, me_contig_fragmented_gen = None,
     me_guest_write_token = 0, me_guest_write_token_gen = 0, me_guest_write_gen_at_store = 0,
     me_owner_task_hint = 0, me_type4_walk = None\<rparr>"

text \<open>\<open>device_desc.get(..DEVICE_DESC_LEN)\<close>: the prefix, when the descriptor is that long.\<close>

definition device_desc_complete :: "mapping_entry \<Rightarrow> u8 list option" where
  "device_desc_complete e =
     (if length (me_device_desc e) < DEVICE_DESC_LEN then None
      else Some (take DEVICE_DESC_LEN (me_device_desc e)))"

datatype surface_write = WkUnknown | WkClearOnly | WkComposite

datatype present_backing = Restaled u64 | NeverStored

record present_state =
  pr_dense_frame_seq :: "(u32 \<times> u64) list"
  pr_presented_dense_seq :: "(u32 \<times> u64) list"
  pr_dense_frame_counter :: u64
  pr_present_epoch :: u64

record gva_host_view =
  gv_task_id :: u32
  gv_gva :: u64
  gv_length :: u64
  gv_ptr :: u64
  gv_ptr_len :: u64
  gv_first_gpa :: u64

text \<open>
  What a host surface holds does not matter to the registry, which only drops it, so the cached frame is
  its bytes and its extent.
\<close>

record host_surface =
  hs_width :: u32
  hs_height :: u32
  hs_bgra :: "u8 list"

record channel_ring =
  cr_valid :: bool
  cr_base_pfn :: u32
  cr_length :: u32
  cr_page_gpas :: "u64 list"

record surfaces =
  st_page_shift :: u32
  st_gfx_root_page :: u32
  st_gfx_fifo_base_page :: u32
  st_gfx_fifo_length :: u32
  st_iosfc_ring_base :: u64
  st_child_rings :: "channel_ring list"
  st_tasks :: "(u32 \<times> task) list"
  st_max_mapping_id_seen :: u32
  st_mappings :: "(u32 \<times> mapping_entry) list"
  st_host_surfaces :: "(u32 \<times> host_surface) list"
  st_gva_touch_seq :: u64
  st_validity_seq :: u64
  st_sampled_content_gen :: u64
  st_host_writes :: host_writes
  st_surface_write_kind :: "(u32 \<times> surface_write) list"
  st_mapper_device_kva :: u64
  st_present :: present_state
  st_retired_views :: "(u64 \<times> u64) list"
  st_retired_guest_write_tokens :: "u64 list"
  st_gva_host_views :: "gva_host_view list"

definition st_page_size :: "surfaces \<Rightarrow> u64" where
  "st_page_size s = shl64 1 (st_page_shift s)"

text \<open>\<open>get\<close>, and the write-back of a mapping edited through \<open>get_mut\<close> or \<open>entry().or_default()\<close>.\<close>

abbreviation mapping :: "surfaces \<Rightarrow> u32 \<Rightarrow> mapping_entry option" where
  "mapping s mid \<equiv> map_of (st_mappings s) mid"

definition put_mapping :: "u32 \<Rightarrow> mapping_entry \<Rightarrow> surfaces \<Rightarrow> surfaces" where
  "put_mapping mid e s = s\<lparr>st_mappings := bt_insert mid e (st_mappings s)\<rparr>"

definition entry_or_default :: "surfaces \<Rightarrow> u32 \<Rightarrow> mapping_entry" where
  "entry_or_default s mid = (case mapping s mid of None \<Rightarrow> mapping_default | Some e \<Rightarrow> e)"

definition task_active :: "surfaces \<Rightarrow> u32 \<Rightarrow> bool" where
  "task_active s tid = (case map_of (st_tasks s) tid of None \<Rightarrow> False | Some t \<Rightarrow> active t)"

section \<open>Identifiers and extents\<close>

definition is_mapping_id :: "u32 \<Rightarrow> bool" where
  "is_mapping_id mid \<longleftrightarrow> mid \<ge> 1"

definition MAX_SCANOUT_DIM :: u32 where "MAX_SCANOUT_DIM = 8192"

datatype scanout_extent_fault = WidthZero | HeightZero | WidthAboveBound | HeightAboveBound

definition extent_fault :: "u32 \<Rightarrow> u32 \<Rightarrow> scanout_extent_fault option" where
  "extent_fault width height =
     (if width = 0 then Some WidthZero
      else if height = 0 then Some HeightZero
      else if width > MAX_SCANOUT_DIM then Some WidthAboveBound
      else if height > MAX_SCANOUT_DIM then Some HeightAboveBound
      else None)"

definition scanout_extent_ok :: "u32 \<Rightarrow> u32 \<Rightarrow> bool" where
  "scanout_extent_ok width height \<longleftrightarrow> extent_fault width height = None"

section \<open>Generations\<close>

definition bump_map_generation :: "mapping_entry \<Rightarrow> mapping_entry" where
  "bump_map_generation e =
     (let e = e\<lparr>me_map_generation := me_map_generation e + 1\<rparr> in
      if me_map_generation e = 0 then e\<lparr>me_map_generation := 1\<rparr> else e)"

definition next_epoch :: "u32 \<Rightarrow> u32" where
  "next_epoch epoch = (let n = epoch + 1 in if n = 0 then 1 else n)"

definition next_sampled_content_generation :: "surfaces \<Rightarrow> u64 \<times> surfaces" where
  "next_sampled_content_generation s =
     (let s = s\<lparr>st_sampled_content_gen := st_sampled_content_gen s + 1\<rparr>;
          s = (if st_sampled_content_gen s = 0 then s\<lparr>st_sampled_content_gen := 1\<rparr> else s)
      in (st_sampled_content_gen s, s))"

definition next_gva_touch :: "surfaces \<Rightarrow> u64 \<times> surfaces" where
  "next_gva_touch s =
     (let s = s\<lparr>st_gva_touch_seq := saturating_add (st_gva_touch_seq s) 1\<rparr> in (st_gva_touch_seq s, s))"

definition next_validity_seq :: "surfaces \<Rightarrow> u64 \<times> surfaces" where
  "next_validity_seq s =
     (let s = s\<lparr>st_validity_seq := saturating_add (st_validity_seq s) 1\<rparr> in (st_validity_seq s, s))"

definition mark_mapping_written :: "u32 \<Rightarrow> surfaces \<Rightarrow> u32 \<times> surfaces" where
  "mark_mapping_written mid s =
     (case next_validity_seq s of (seq, s) \<Rightarrow>
      case mapping s mid of
        None \<Rightarrow> (0, s)
      | Some m \<Rightarrow>
          let m = m\<lparr>me_content_generation := me_content_generation m + 1\<rparr>;
              m = (if me_content_generation m = 0 then m\<lparr>me_content_generation := 1\<rparr> else m);
              m = m\<lparr>me_surface_content_epoch := next_epoch (me_surface_content_epoch m),
                    me_validity := (me_validity m)\<lparr>rv_host_published_seq := seq\<rparr>\<rparr>
          in (me_content_generation m, put_mapping mid m s))"

definition note_surface_content_published :: "u32 \<Rightarrow> surfaces \<Rightarrow> u32 \<times> surfaces" where
  "note_surface_content_published mid s =
     (case next_validity_seq s of (seq, s) \<Rightarrow>
      case mapping s mid of
        None \<Rightarrow> (0, s)
      | Some m \<Rightarrow>
          let m = m\<lparr>me_surface_content_epoch := next_epoch (me_surface_content_epoch m),
                    me_validity := (me_validity m)\<lparr>rv_host_published_seq := seq\<rparr>\<rparr>
          in (me_surface_content_epoch m, put_mapping mid m s))"

section \<open>The presented frame\<close>

definition note_surface_clear :: "u32 \<Rightarrow> surfaces \<Rightarrow> surfaces" where
  "note_surface_clear mid s =
     (if mid = 0 then s
      else s\<lparr>st_surface_write_kind := bt_insert mid WkClearOnly (st_surface_write_kind s)\<rparr>)"

definition note_surface_composite :: "u32 \<Rightarrow> surfaces \<Rightarrow> surfaces" where
  "note_surface_composite mid s =
     (if mid = 0 then s
      else s\<lparr>st_surface_write_kind := bt_insert mid WkComposite (st_surface_write_kind s)\<rparr>)"

definition surface_write_kind :: "surfaces \<Rightarrow> u32 \<Rightarrow> surface_write" where
  "surface_write_kind s mid =
     (case map_of (st_surface_write_kind s) mid of None \<Rightarrow> WkUnknown | Some k \<Rightarrow> k)"

definition note_dense_frame_published :: "u32 \<Rightarrow> u32 \<Rightarrow> u32 \<Rightarrow> present_state \<Rightarrow> present_state" where
  "note_dense_frame_published mid width height p =
     (if mid = 0 \<or> width = 0 \<or> height = 0 then p
      else let p = p\<lparr>pr_dense_frame_counter := saturating_add (pr_dense_frame_counter p) 1\<rparr> in
        p\<lparr>pr_dense_frame_seq := bt_insert mid (pr_dense_frame_counter p) (pr_dense_frame_seq p)\<rparr>)"

definition advance_present_epoch :: "present_state \<Rightarrow> u64 \<times> present_state" where
  "advance_present_epoch p =
     (let p = p\<lparr>pr_present_epoch := saturating_add (pr_present_epoch p) 1\<rparr> in (pr_present_epoch p, p))"

definition note_present_backing :: "u32 \<Rightarrow> present_state \<Rightarrow> present_backing option \<times> present_state" where
  "note_present_backing mid p =
     (if mid = 0 then (None, p)
      else
        let seq = (case map_of (pr_dense_frame_seq p) mid of None \<Rightarrow> 0 | Some n \<Rightarrow> n);
            previous = map_of (pr_presented_dense_seq p) mid;
            p = p\<lparr>pr_presented_dense_seq := bt_insert mid seq (pr_presented_dense_seq p)\<rparr>
        in (case previous of
              Some prev \<Rightarrow> if prev = seq then Some (Restaled seq) else None
            | None \<Rightarrow> if seq = 0 then Some NeverStored else None, p))"

definition forget_compositor_mapping :: "u32 \<Rightarrow> present_state \<Rightarrow> present_state" where
  "forget_compositor_mapping mid p =
     p\<lparr>pr_dense_frame_seq := bt_remove mid (pr_dense_frame_seq p),
       pr_presented_dense_seq := bt_remove mid (pr_presented_dense_seq p)\<rparr>"

section \<open>Retiring what the host holds\<close>

definition take_mapping_view :: "mapping_entry \<Rightarrow> (u64 \<times> u64) option \<times> mapping_entry" where
  "take_mapping_view e =
     (if me_contig_ptr e = 0 then (None, e)
      else (Some (me_contig_ptr e, me_contig_len e), e\<lparr>me_contig_ptr := 0, me_contig_len := 0\<rparr>))"

definition take_guest_write_token :: "mapping_entry \<Rightarrow> u64 \<times> mapping_entry" where
  "take_guest_write_token e =
     (me_guest_write_token e,
      e\<lparr>me_guest_write_gen_at_store := 0, me_guest_write_token_gen := 0, me_guest_write_token := 0\<rparr>)"

text \<open>
  The tail every mutator of a mapping shares: the view and the token leave the entry and join the
  retired lists.
\<close>

definition retire_host_objects :: "u32 \<Rightarrow> mapping_entry \<Rightarrow> surfaces \<Rightarrow> surfaces" where
  "retire_host_objects mid e s =
     (case take_mapping_view e of (vw, e) \<Rightarrow>
      case take_guest_write_token e of (token, e) \<Rightarrow>
        let s = put_mapping mid e s;
            s = (case vw of None \<Rightarrow> s
                 | Some v \<Rightarrow> s\<lparr>st_retired_views := st_retired_views s @ [v]\<rparr>)
        in if token \<noteq> 0
           then s\<lparr>st_retired_guest_write_tokens := st_retired_guest_write_tokens s @ [token]\<rparr>
           else s)"

definition drop_host_surface :: "u32 \<Rightarrow> surfaces \<Rightarrow> surfaces" where
  "drop_host_surface mid s = s\<lparr>st_host_surfaces := bt_remove mid (st_host_surfaces s)\<rparr>"

definition invalidate_mapping_pages :: "u32 \<Rightarrow> surfaces \<Rightarrow> bool \<times> surfaces" where
  "invalidate_mapping_pages mid s =
     (let s = drop_host_surface mid s in
      case mapping s mid of
        None \<Rightarrow> (False, s)
      | Some e \<Rightarrow>
          let had = me_page_entries e \<noteq> [] \<or> me_contig_ptr e \<noteq> 0;
              e = e\<lparr>me_page_entries := [], me_page_table_kva := 0, me_condemned_entries := None\<rparr>;
              e = bump_map_generation e
          in (had, retire_host_objects mid e s))"

definition condemn_surface_backing :: "u32 \<Rightarrow> surfaces \<Rightarrow> bool \<times> surfaces" where
  "condemn_surface_backing mid s =
     (let s = s\<lparr>st_present := forget_compositor_mapping mid (st_present s)\<rparr>;
          s = drop_host_surface mid s
      in case mapping s mid of
        None \<Rightarrow> (False, s)
      | Some e \<Rightarrow>
          if me_page_entries e = [] then (False, s)
          else
            let e = e\<lparr>me_condemned_entries := Some (me_page_entries e), me_page_entries := [],
                      me_page_table_kva := 0\<rparr>
            in (True, retire_host_objects mid e s))"

definition mapping_backing_condemned :: "surfaces \<Rightarrow> u32 \<Rightarrow> bool" where
  "mapping_backing_condemned s mid =
     (case mapping s mid of None \<Rightarrow> False | Some e \<Rightarrow> me_condemned_entries e \<noteq> None)"

section \<open>The lifecycle of a mapping\<close>

definition see_mapping_id :: "u32 \<Rightarrow> surfaces \<Rightarrow> surfaces" where
  "see_mapping_id mid s = s\<lparr>st_max_mapping_id_seen := max (st_max_mapping_id_seen s) mid\<rparr>"

definition map_surface :: "u32 \<Rightarrow> surfaces \<Rightarrow> bool \<times> surfaces" where
  "map_surface mid s =
     (let s = see_mapping_id mid s in
      if \<not> is_mapping_id mid then (False, s)
      else
        let e = (entry_or_default s mid)\<lparr>me_mapped := True\<rparr>;
            e = (if me_page_entries e \<noteq> [] \<and> me_condemned_entries e = None
                 then e\<lparr>me_condemned_entries := Some (me_page_entries e), me_page_entries := []\<rparr>
                 else e\<lparr>me_page_entries := []\<rparr>);
            e = e\<lparr>me_page_table_kva := 0, me_device_desc := [], me_content_generation := 0,
                  me_surface_content_epoch := 0, me_has_geom := False, me_width := 0, me_height := 0,
                  me_format := 0\<rparr>
        in (True, drop_host_surface mid (retire_host_objects mid e s)))"

definition unmap_surface :: "u32 \<Rightarrow> surfaces \<Rightarrow> bool \<times> surfaces" where
  "unmap_surface mid s =
     (let s = see_mapping_id mid s in
      if \<not> is_mapping_id mid then (False, s)
      else
        let s = s\<lparr>st_present := forget_compositor_mapping mid (st_present s)\<rparr> in
        case mapping s mid of
          None \<Rightarrow> (False, s)
        | Some e \<Rightarrow>
            let e = e\<lparr>me_mapped := False, me_page_entries := [], me_page_table_kva := 0,
                      me_condemned_entries := None, me_mapping_internal := 0, me_device_desc := []\<rparr>;
                e = bump_map_generation e;
                e = e\<lparr>me_has_geom := False, me_width := 0, me_height := 0, me_format := 0\<rparr>
            in (True, drop_host_surface mid (retire_host_objects mid e s)))"

definition attach_mapping_internal :: "u32 \<Rightarrow> u64 \<Rightarrow> surfaces \<Rightarrow> bool \<times> surfaces" where
  "attach_mapping_internal mid internal s =
     (let s = see_mapping_id mid s in
      if \<not> is_mapping_id mid then (False, s)
      else if internal = 0 then (False, s)
      else
        let e = entry_or_default s mid in
        if me_mapping_internal e = internal then (True, put_mapping mid (e\<lparr>me_mapped := True\<rparr>) s)
        else
          let e = e\<lparr>me_mapped := True, me_mapping_internal := internal, me_page_entries := [],
                    me_page_table_kva := 0, me_condemned_entries := None, me_device_desc := [],
                    me_content_generation := 0, me_surface_content_epoch := 0\<rparr>;
              e = bump_map_generation e;
              e = e\<lparr>me_has_geom := False, me_width := 0, me_height := 0, me_format := 0\<rparr>
          in (True, retire_host_objects mid e s))"

definition set_mapping_device_desc :: "u32 \<Rightarrow> u8 list \<Rightarrow> surfaces \<Rightarrow> bool \<times> surfaces" where
  "set_mapping_device_desc mid desc s =
     (let s = see_mapping_id mid s in
      if \<not> is_mapping_id mid then (False, s)
      else if desc = [] then (False, s)
      else (True, put_mapping mid ((entry_or_default s mid)\<lparr>me_device_desc := desc\<rparr>) s))"

definition set_mapping_geom :: "u32 \<Rightarrow> u32 \<Rightarrow> u32 \<Rightarrow> u16 \<Rightarrow> surfaces \<Rightarrow> bool \<times> surfaces" where
  "set_mapping_geom mid width height format s =
     (if \<not> is_mapping_id mid then (False, s)
      else case extent_fault width height of
        Some _ \<Rightarrow> (False, s)
      | None \<Rightarrow>
          let e = entry_or_default s mid;
              e = (if me_width e \<noteq> width \<or> me_height e \<noteq> height
                   then e\<lparr>me_content_generation := 0, me_surface_content_epoch := 0\<rparr> else e);
              e = e\<lparr>me_has_geom := True, me_width := width, me_height := height, me_format := format\<rparr>
          in (True, put_mapping mid e s))"

section \<open>Writes of the device into guest pages\<close>

text \<open>\<open>collect\<close> into an \<open>Option\<close>: one entry that names no page leaves the whole list unnamed.\<close>

definition entries_gpas :: "u32 list \<Rightarrow> u32 \<Rightarrow> u64 list option" where
  "entries_gpas entries shift = those (map (\<lambda>e. entry_gpa_shift e shift) entries)"

definition mapping_reach_pages :: "surfaces \<Rightarrow> u32 \<Rightarrow> u64 list option" where
  "mapping_reach_pages s mid =
     Option.bind (mapping s mid) (\<lambda>m.
       if me_page_entries m = [] then None else entries_gpas (me_page_entries m) (st_page_shift s))"

definition note_host_wrote_guest_ram :: "surfaces \<Rightarrow> surfaces" where
  "note_host_wrote_guest_ram s = s\<lparr>st_host_writes := hw_note_unknown (st_host_writes s)\<rparr>"

definition note_host_wrote_pages :: "u64 list \<Rightarrow> surfaces \<Rightarrow> surfaces" where
  "note_host_wrote_pages pages s = s\<lparr>st_host_writes := hw_note_pages pages (st_host_writes s)\<rparr>"

definition note_host_wrote_mapping :: "u32 \<Rightarrow> surfaces \<Rightarrow> surfaces" where
  "note_host_wrote_mapping mid s =
     (case mapping_reach_pages s mid of
        Some pages \<Rightarrow> s\<lparr>st_host_writes := hw_note_mapping (Some pages) (st_host_writes s)\<rparr>
      | None \<Rightarrow> s\<lparr>st_host_writes := hw_note_unknown (st_host_writes s)\<rparr>)"

section \<open>Reset\<close>

text \<open>
  \<open>take_all_host_views\<close> without the witnesses of the Vulkan build: the views and the tokens of every
  mapping join the retired ones, and the views of guest addresses follow.
\<close>

primrec detach_all ::
  "(u32 \<times> mapping_entry) list \<Rightarrow> (u32 \<times> mapping_entry) list \<times> (u64 \<times> u64) list \<times> u64 list" where
  "detach_all [] = ([], [], [])"
| "detach_all (me # ms) =
     (case take_mapping_view (snd me) of (vw, e) \<Rightarrow>
      case take_guest_write_token e of (token, e) \<Rightarrow>
      case detach_all ms of (ms, views, tokens) \<Rightarrow>
        ((fst me, e) # ms,
         (case vw of None \<Rightarrow> views | Some v \<Rightarrow> v # views),
         (if token \<noteq> 0 then token # tokens else tokens)))"

definition take_all_host_views :: "surfaces \<Rightarrow> (u64 \<times> u64) list \<times> surfaces" where
  "take_all_host_views s =
     (case detach_all (st_mappings s) of (ms, views, tokens) \<Rightarrow>
        (st_retired_views s @ views
           @ List.map_filter (\<lambda>gv. if gv_ptr gv \<noteq> 0 \<and> gv_ptr_len gv \<noteq> 0
                                   then Some (gv_ptr gv, gv_ptr_len gv) else None)
               (st_gva_host_views s),
         s\<lparr>st_mappings := ms, st_retired_views := [],
           st_retired_guest_write_tokens := st_retired_guest_write_tokens s @ tokens,
           st_gva_host_views := []\<rparr>))"

end
