(* ===== verification/Validity.thy ===== *)
theory Validity
  imports Fifo Surfaces "HOL-Library.Product_Lexorder"
begin

text \<open>
  runtime/resource_validity.rs and runtime/buffer_write_gen.rs: what the guest says about who holds the
  current bytes of a resource. A statement about a mapping stamps it with the next number of the
  sequence every publication draws from; a statement about anything else moves the write generation
  of the object.
\<close>

section \<open>Write generations of buffers\<close>

text \<open>The \<open>HashMap\<close> is an ordered list here: no operation iterates it but \<open>retain\<close>, which keeps or
  drops each entry by its own key.\<close>

record buffer_write_gens =
  bw_gens :: "((u32 \<times> u32) \<times> u64) list"
  bw_epoch :: u64

definition bw_default :: buffer_write_gens where
  "bw_default = \<lparr>bw_gens = [], bw_epoch = 0\<rparr>"

definition BW_MAX :: nat where "BW_MAX = 4096"

definition bw_note_write :: "u32 \<Rightarrow> u32 \<Rightarrow> buffer_write_gens \<Rightarrow> buffer_write_gens" where
  "bw_note_write task_id object_id g =
     (let g = (if length (bw_gens g) \<ge> BW_MAX \<and> map_of (bw_gens g) (task_id, object_id) = None
               then g\<lparr>bw_gens := [], bw_epoch := bw_epoch g + 1\<rparr> else g);
          slot = (case map_of (bw_gens g) (task_id, object_id) of None \<Rightarrow> 0 | Some n \<Rightarrow> n)
      in g\<lparr>bw_gens := bt_insert (task_id, object_id) (slot + 1) (bw_gens g)\<rparr>)"

record write_stamp =
  ws_epoch :: u64
  ws_gen :: u64

definition bw_stamp :: "buffer_write_gens \<Rightarrow> u32 \<Rightarrow> u32 \<Rightarrow> write_stamp" where
  "bw_stamp g task_id object_id =
     \<lparr>ws_epoch = bw_epoch g,
      ws_gen = (case map_of (bw_gens g) (task_id, object_id) of None \<Rightarrow> 0 | Some n \<Rightarrow> n)\<rparr>"

definition bw_retire_task :: "u32 \<Rightarrow> buffer_write_gens \<Rightarrow> buffer_write_gens" where
  "bw_retire_task task_id g = g\<lparr>bw_gens := filter (\<lambda>e. fst (fst e) \<noteq> task_id) (bw_gens g)\<rparr>"

definition bw_tracked :: "buffer_write_gens \<Rightarrow> nat" where
  "bw_tracked g = length (bw_gens g)"

definition quiet_since :: "write_stamp \<Rightarrow> write_stamp \<Rightarrow> bool" where
  "quiet_since now earlier \<longleftrightarrow> ws_epoch now = ws_epoch earlier \<and> ws_gen now = ws_gen earlier"

section \<open>The validity pair\<close>

definition next_validity :: "resource_validity \<Rightarrow> validity_ops \<Rightarrow> resource_validity" where
  "next_validity prev ops =
     (let v = prev;
          v = (if vo_clear_host_valid ops \<noteq> 0 then v\<lparr>rv_host_valid := False, rv_host_stated := True\<rparr> else v);
          v = (if vo_set_host_valid ops \<noteq> 0 then v\<lparr>rv_host_valid := True, rv_host_stated := True\<rparr> else v);
          v = (if vo_clear_guest_valid ops \<noteq> 0 then v\<lparr>rv_guest_valid := False, rv_guest_stated := True\<rparr> else v);
          v = (if vo_set_guest_valid ops \<noteq> 0 then v\<lparr>rv_guest_valid := True, rv_guest_stated := True\<rparr> else v)
      in v)"

record validity_device =
  vd_state :: surfaces
  vd_texture_to_mapping :: "((u32 \<times> u32) \<times> u32) list"
  vd_buffer_write_gen :: buffer_write_gens

record validity_outcome =
  out_bumped :: u32
  out_missed :: bool

definition validity_targets :: "validity_device \<Rightarrow> u32 \<Rightarrow> u32 \<Rightarrow> u32 list" where
  "validity_targets d task_id object_id =
     (case map_of (vd_texture_to_mapping d) (task_id, object_id) of
        None \<Rightarrow> [object_id]
      | Some mid \<Rightarrow> if mid \<noteq> object_id then [object_id, mid] else [object_id])"

text \<open>One mapping the record names. The number of generations moved so far and whether any mapping was
  found are carried along.\<close>

definition apply_target ::
  "validity_ops \<Rightarrow> u32 \<Rightarrow> (u32 \<times> bool) \<times> surfaces \<Rightarrow> (u32 \<times> bool) \<times> surfaces" where
  "apply_target ops mid st =
     (case st of ((bumped, hit), s) \<Rightarrow>
        if mapping s mid = None then st
        else
          case (if vo_clear_host_valid ops \<noteq> 0
                then (case next_validity_seq s of (seq, s) \<Rightarrow>
                      case mapping s mid of
                        None \<Rightarrow> (bumped, s)
                      | Some m \<Rightarrow>
                          (saturating_add bumped 1,
                           put_mapping mid
                             (m\<lparr>me_content_generation := saturating_add (me_content_generation m) 1,
                                me_validity := (me_validity m)\<lparr>rv_host_cleared_seq := seq\<rparr>\<rparr>) s))
                else (bumped, s)) of
            (bumped, s) \<Rightarrow>
              (case mapping s mid of
                 None \<Rightarrow> ((bumped, True), s)
               | Some m \<Rightarrow> ((bumped, True),
                             put_mapping mid (m\<lparr>me_validity := next_validity (me_validity m) ops\<rparr>) s)))"

definition apply_validity ::
  "u32 \<Rightarrow> u32 \<Rightarrow> validity_ops \<Rightarrow> validity_device \<Rightarrow> validity_outcome \<times> validity_device" where
  "apply_validity task_id object_id ops d =
     (if object_id = 0 then (\<lparr>out_bumped = 0, out_missed = False\<rparr>, d)
      else
        case fold (apply_target ops) (validity_targets d task_id object_id) ((0, False), vd_state d) of
          ((bumped, hit), s) \<Rightarrow>
            let d = d\<lparr>vd_state := s\<rparr>;
                d = (if vo_clear_host_valid ops \<noteq> 0 \<and> \<not> hit
                     then d\<lparr>vd_buffer_write_gen := bw_note_write task_id object_id (vd_buffer_write_gen d)\<rparr>
                     else d)
            in (\<lparr>out_bumped = bumped, out_missed = \<not> hit\<rparr>, d))"

section \<open>The licence to write back\<close>

datatype writeback_licence = Licensed | Superseded | Unstated

definition licence_of :: "resource_validity \<Rightarrow> writeback_licence" where
  "licence_of v =
     (if rv_host_cleared_seq v = 0 then Unstated
      else if rv_host_published_seq v > rv_host_cleared_seq v then Licensed
      else Superseded)"

definition writeback_licence_of :: "surfaces \<Rightarrow> u32 \<Rightarrow> writeback_licence" where
  "writeback_licence_of s mid =
     licence_of (case mapping s mid of None \<Rightarrow> validity_default | Some m \<Rightarrow> me_validity m)"

definition writeback_refused :: "surfaces \<Rightarrow> u32 \<Rightarrow> bool" where
  "writeback_refused s mid \<longleftrightarrow> writeback_licence_of s mid = Superseded"

end
