(* ===== verification/Mapper.thy ===== *)
theory Mapper
  imports Surfaces Type4 Span Runs
begin

text \<open>
  runtime/mapper/mod.rs, apply_type4_backing of runtime/objects/mod.rs and the delete handler of
  runtime/drain/mod.rs: the operations that fill, check and drop the page list of a mapping, and those
  that hang host objects on it. The host is what it answers, as functions, and the calls made on it so
  far; a function of the log of calls can answer anything a host may. Counters and log lines decide
  nothing and are left out.
\<close>

unbundle bit_operations_syntax

section \<open>The host\<close>

datatype host_call =
  MapPages "u64 list" u64 "u64 option"
| UnmapPages u64 u64
| TrackGuestWrites "u64 list" u64 "u64 option"
| UntrackGuestWrites u64

record host =
  h_read_kva :: reader
  h_read_gpa :: reader
  h_is_ram_gpa :: "u64 \<Rightarrow> bool"
  h_read_xreg :: "u32 \<Rightarrow> u64 option"
  h_map_pages :: "host_call list \<Rightarrow> u64 list \<Rightarrow> u64 \<Rightarrow> u64 option"
  h_track_guest_writes :: "host_call list \<Rightarrow> u64 list \<Rightarrow> u64 \<Rightarrow> u64 option"
  h_guest_write_gen :: "host_call list \<Rightarrow> u64 \<Rightarrow> u64 option"
  h_calls :: "host_call list"

definition host_log :: "host_call \<Rightarrow> host \<Rightarrow> host" where
  "host_log c h = h\<lparr>h_calls := h_calls h @ [c]\<rparr>"

definition map_pages :: "u64 list \<Rightarrow> u64 \<Rightarrow> host \<Rightarrow> u64 option \<times> host" where
  "map_pages gpas page_sz h =
     (let answer = h_map_pages h (h_calls h) gpas page_sz in (answer, host_log (MapPages gpas page_sz answer) h))"

definition track_guest_writes :: "u64 list \<Rightarrow> u64 \<Rightarrow> host \<Rightarrow> u64 option \<times> host" where
  "track_guest_writes gpas page_sz h =
     (let answer = h_track_guest_writes h (h_calls h) gpas page_sz
      in (answer, host_log (TrackGuestWrites gpas page_sz answer) h))"

definition guest_write_gen :: "host \<Rightarrow> u64 \<Rightarrow> u64 option" where
  "guest_write_gen h token = h_guest_write_gen h (h_calls h) token"

definition mapper_mem :: "host \<Rightarrow> pages_mem" where
  "mapper_mem h =
     \<lparr>pm_read = (\<lambda>address n. if guest_kernel_va address then h_read_kva h address n else h_read_gpa h address n),
      pm_ram = h_is_ram_gpa h\<rparr>"

section \<open>Capture of the mapper handoff\<close>

record mapper_capture =
  mc_producer :: u32
  mc_mapper_device_kva :: u64
  mc_request_type :: u32
  mc_mapping_internal :: u64

definition MAPPER_CAPTURE_REG_MAPPER_DEVICE :: u32 where "MAPPER_CAPTURE_REG_MAPPER_DEVICE = 19"
definition MAPPER_CAPTURE_REG_REQUEST_TYPE :: u32 where "MAPPER_CAPTURE_REG_REQUEST_TYPE = 21"
definition MAPPER_CAPTURE_REG_MAPPING_INTERNAL :: u32 where "MAPPER_CAPTURE_REG_MAPPING_INTERNAL = 22"

text \<open>\<open>None\<close> is every miss; which one is only logged. The entry address is added unchecked: in a debug
  build the addition panics past the address space, and a release build wraps as here.\<close>

definition capture_at_producer :: "surfaces \<Rightarrow> host \<Rightarrow> u32 \<Rightarrow> mapper_capture option" where
  "capture_at_producer s h producer =
     (if producer = 0 \<or> st_iosfc_ring_base s = 0 then None
      else Option.bind (mapper_request_published_entry_offset producer) (\<lambda>entry_off.
        Option.bind (h_read_gpa h (st_iosfc_ring_base s + entry_off) MAPPER_REQUEST_ENTRY_LEN) (\<lambda>bytes.
        case decode_mapper_request_entry bytes of
          Inl _ \<Rightarrow> None
        | Inr request \<Rightarrow>
            if mre_request_type request \<noteq> MAPPER_REQUEST_MAP \<and> mre_request_type request \<noteq> MAPPER_REQUEST_UNMAP
            then None
            else if \<not> is_mapping_id (mre_mapping_id request) then None
            else Option.bind (h_read_xreg h MAPPER_CAPTURE_REG_MAPPER_DEVICE) (\<lambda>mapper.
              Option.bind (h_read_xreg h MAPPER_CAPTURE_REG_REQUEST_TYPE) (\<lambda>rtype64.
              Option.bind (h_read_xreg h MAPPER_CAPTURE_REG_MAPPING_INTERNAL) (\<lambda>internal.
              let rtype = ucast rtype64 :: u32 in
              if rtype \<noteq> mre_request_type request then None
              else if internal = 0 then None
              else if \<not> guest_kernel_va internal then None
              else if mapper \<noteq> 0 \<and> \<not> guest_kernel_va mapper then None
              else case read_mapper_identity (mapper_mem h) internal (mapper \<noteq> 0) mapper of
                Inl _ \<Rightarrow> None
              | Inr mi \<Rightarrow>
                  (case validate_mapper_internal (mre_mapping_id request) mi of
                     Inl _ \<Rightarrow> None
                   | Inr _ \<Rightarrow> Some \<lparr>mc_producer = producer, mc_mapper_device_kva = mapper,
                                   mc_request_type = rtype, mc_mapping_internal = internal\<rparr>)))))))"

definition apply_capture :: "mapper_capture \<Rightarrow> u32 \<Rightarrow> surfaces \<Rightarrow> bool \<times> surfaces" where
  "apply_capture cap mid s =
     (if mc_request_type cap = MAPPER_REQUEST_UNMAP then unmap_surface mid s
      else if mc_request_type cap \<noteq> MAPPER_REQUEST_MAP then (False, s)
      else
        let s = (if mc_mapper_device_kva cap \<noteq> 0
                 then s\<lparr>st_mapper_device_kva := mc_mapper_device_kva cap\<rparr> else s)
        in attach_mapping_internal mid (mc_mapping_internal cap) s)"

section \<open>Pages shared with another surface\<close>

definition page_base :: "u64 \<Rightarrow> u64 \<Rightarrow> u64" where
  "page_base page gpa = gpa AND NOT (page - 1)"

definition entry_bases :: "u64 \<Rightarrow> u32 \<Rightarrow> u32 list \<Rightarrow> u64 list" where
  "entry_bases page shift entries =
     map (page_base page) (List.map_filter (\<lambda>e. entry_gpa_shift e shift) entries)"

primrec scan_surfaces ::
  "u64 \<Rightarrow> u32 \<Rightarrow> u64 set \<Rightarrow> u32 \<Rightarrow> (u32 \<times> mapping_entry) list \<Rightarrow> (u64 \<times> u32) option" where
  "scan_surfaces page shift mine mid [] = None"
| "scan_surfaces page shift mine mid (oe # others) =
     (if fst oe = mid \<or> \<not> me_mapped (snd oe) \<or> me_page_entries (snd oe) = []
      then scan_surfaces page shift mine mid others
      else case find (\<lambda>b. b \<in> mine) (entry_bases page shift (me_page_entries (snd oe))) of
             Some b \<Rightarrow> Some (b, fst oe)
           | None \<Rightarrow> scan_surfaces page shift mine mid others)"

definition first_surface_page_collision :: "surfaces \<Rightarrow> u32 \<Rightarrow> (u64 \<times> u32) option" where
  "first_surface_page_collision s mid =
     Option.bind (mapping s mid) (\<lambda>m.
       if \<not> me_mapped m \<or> me_page_entries m = [] then None
       else
         let mine = entry_bases (st_page_size s) (st_page_shift s) (me_page_entries m) in
         if mine = [] then None
         else scan_surfaces (st_page_size s) (st_page_shift s) (set mine) mid (st_mappings s))"

definition surface_pages_are_exclusively_owned :: "u32 \<Rightarrow> surfaces \<Rightarrow> bool \<times> surfaces" where
  "surface_pages_are_exclusively_owned mid s =
     (case first_surface_page_collision s mid of
        None \<Rightarrow> (True, s)
      | Some _ \<Rightarrow> (False, snd (invalidate_mapping_pages mid s)))"

section \<open>Resolving a mapping\<close>

definition plan_adoption_decision :: "u32 list option \<Rightarrow> u32 list \<Rightarrow> u32 list \<Rightarrow> bool \<times> bool \<times> bool" where
  "plan_adoption_decision condemned current plan =
     (let pages_changed = (case condemned of Some old \<Rightarrow> old \<noteq> plan | None \<Rightarrow> current \<noteq> plan)
      in (pages_changed, condemned \<noteq> None \<and> pages_changed, condemned \<noteq> None \<and> \<not> pages_changed))"

definition entry_gpa_span :: "u32 list \<Rightarrow> u32 \<Rightarrow> (u64 \<times> u64) option" where
  "entry_gpa_span entries shift =
     (let (lo, hi) = fold (\<lambda>e (lo, hi). case entry_gpa_shift e shift of
                              None \<Rightarrow> (lo, hi) | Some gpa \<Rightarrow> (min lo gpa, max hi gpa)) entries (- 1, 0)
      in if lo \<noteq> - 1 then Some (lo, hi) else None)"

text \<open>What the device descriptor of a mapping states: its extent and format, the bytes the page table
  must cover, and the descriptor itself.\<close>

record desc_geom =
  dg_width :: u32
  dg_height :: u32
  dg_format :: u16
  dg_min_size :: u64
  dg_device_desc :: "u8 list option"

definition desc_geometry :: "pages_mem \<Rightarrow> u64 \<Rightarrow> u64 \<Rightarrow> desc_geom" where
  "desc_geometry mem guest_page internal =
     (let none = \<lparr>dg_width = 0, dg_height = 0, dg_format = 0, dg_min_size = guest_page, dg_device_desc = None\<rparr>
      in case read_internal_desc_ptr mem internal of
           Inl _ \<Rightarrow> none
         | Inr desc_kva \<Rightarrow>
             (case pm_read mem desc_kva DEVICE_DESC_LEN of
                None \<Rightarrow> none
              | Some desc \<Rightarrow>
                  let g = none\<lparr>dg_device_desc := Some desc\<rparr> in
                  (case decode_device_surface desc of
                     None \<Rightarrow> g
                   | Some surf \<Rightarrow>
                       let g = (if (ucast (ds_alloc_size surf) :: u64) > 0
                                then g\<lparr>dg_min_size := max (ucast (ds_alloc_size surf)) guest_page\<rparr> else g)
                       in if ds_width surf > 0 \<and> ds_height surf > 0
                          then
                            let format = device_desc_format_to_mtl (ds_pixel_format surf);
                                g = g\<lparr>dg_width := ds_width surf, dg_height := ds_height surf, dg_format := format\<rparr>
                            in (case mapping_span_bound (Some desc) format (ds_width surf) (ds_height surf) of
                                  Some end \<Rightarrow> g\<lparr>dg_min_size := max (max (dg_min_size g) end) guest_page\<rparr>
                                | None \<Rightarrow> g)
                          else g)))"

text \<open>The extent the texture path latched wins over the descriptor's.\<close>

definition latched_geometry :: "u64 \<Rightarrow> mapping_entry \<Rightarrow> desc_geom \<Rightarrow> desc_geom" where
  "latched_geometry guest_page m g =
     (if me_has_geom m \<and> me_width m > 0 \<and> me_height m > 0
      then
        let g = g\<lparr>dg_width := me_width m, dg_height := me_height m,
                  dg_format := (if me_format m \<noteq> 0 then me_format m else dg_format g)\<rparr>;
            desc_slice = (case dg_device_desc g of Some d \<Rightarrow> Some d | None \<Rightarrow> device_desc_complete m)
        in (case mapping_span_bound desc_slice (dg_format g) (dg_width g) (dg_height g) of
              Some end \<Rightarrow> g\<lparr>dg_min_size := max (max (dg_min_size g) end) guest_page\<rparr>
            | None \<Rightarrow> g)
      else g)"

definition latch_geometry :: "u32 \<Rightarrow> desc_geom \<Rightarrow> surfaces \<Rightarrow> surfaces" where
  "latch_geometry mid g s =
     (if dg_width g > 0 \<and> dg_height g > 0
      then snd (set_mapping_geom mid (dg_width g) (dg_height g) (dg_format g) s) else s)"

definition latch_device_desc :: "u32 \<Rightarrow> desc_geom \<Rightarrow> surfaces \<Rightarrow> surfaces" where
  "latch_device_desc mid g s =
     (case dg_device_desc g of None \<Rightarrow> s | Some d \<Rightarrow> snd (set_mapping_device_desc mid d s))"

text \<open>Adoption of a page plan by a mapping: the condemned list is compared when there is one, the
  generation moves exactly when the pages do, and a view of other pages is retired.\<close>

definition adopted :: "u64 \<Rightarrow> desc_geom \<Rightarrow> page_table_plan \<Rightarrow> bool \<Rightarrow> mapping_entry \<Rightarrow> mapping_entry" where
  "adopted internal g plan pages_changed m =
     (let m = m\<lparr>me_condemned_entries := None\<rparr>;
          m = (if me_contig_ptr m \<noteq> 0 \<and> pages_changed
               then m\<lparr>me_contig_ptr := 0, me_contig_len := 0\<rparr> else m);
          m = (if pages_changed then bump_map_generation m else m);
          m = m\<lparr>me_page_entries := ptp_entries plan, me_page_table_kva := ptp_page_table_kva plan,
                me_mapping_internal := internal, me_mapped := True\<rparr>
      in (case dg_device_desc g of None \<Rightarrow> m | Some d \<Rightarrow> m\<lparr>me_device_desc := d\<rparr>))"

definition adopt_plan ::
  "u32 \<Rightarrow> u64 \<Rightarrow> desc_geom \<Rightarrow> page_table_plan \<Rightarrow> mapping_entry \<Rightarrow> surfaces \<Rightarrow> (bool \<times> bool \<times> bool) \<times> surfaces" where
  "adopt_plan mid internal g plan m s =
     (let decision = plan_adoption_decision (me_condemned_entries m) (me_page_entries m) (ptp_entries plan);
          s = put_mapping mid (adopted internal g plan (fst decision) m) s
      in (decision,
          if me_contig_ptr m \<noteq> 0 \<and> fst decision
          then s\<lparr>st_retired_views := st_retired_views s @ [(me_contig_ptr m, me_contig_len m)]\<rparr> else s))"

definition resolve_mapping_backing :: "host \<Rightarrow> u32 \<Rightarrow> surfaces \<Rightarrow> bool \<times> surfaces" where
  "resolve_mapping_backing h mid s =
     (case mapping s mid of
        None \<Rightarrow> (False, s)
      | Some m \<Rightarrow>
          if \<not> me_mapped m \<or> me_mapping_internal m = 0 then (False, s)
          else
            let internal = me_mapping_internal m;
                mapper = st_mapper_device_kva s;
                had_cached_pages = me_page_entries m \<noteq> [];
                mem = mapper_mem h;
                guest_page = st_page_size s
            in (case read_mapper_internal mem internal (mapper \<noteq> 0) mapper of
                  Inl _ \<Rightarrow> (had_cached_pages, s)
                | Inr mi \<Rightarrow>
                    (case validate_mapper_internal mid mi of
                       Inl _ \<Rightarrow> (False, s)
                     | Inr _ \<Rightarrow>
                         let g = latched_geometry guest_page m (desc_geometry mem guest_page internal) in
                         (case build_table_plan mem mid mi (dg_min_size g) (st_page_shift s) of
                            Inl _ \<Rightarrow> (False, latch_geometry mid g (latch_device_desc mid g s))
                          | Inr plan \<Rightarrow>
                              (case adopt_plan mid internal g plan m s of
                                 ((pages_changed, incarnation_changed, reprieved), s) \<Rightarrow>
                                   (case (if \<not> incarnation_changed \<and> reprieved
                                          then surface_pages_are_exclusively_owned mid s else (True, s)) of
                                      (owned, s) \<Rightarrow>
                                        if \<not> owned then (False, s)
                                        else
                                          let s = latch_geometry mid g s in
                                          if pages_changed then surface_pages_are_exclusively_owned mid s
                                          else (True, s)))))))"

definition pages_cover_geom :: "surfaces \<Rightarrow> u32 \<Rightarrow> bool" where
  "pages_cover_geom s mid =
     (case mapping s mid of
        None \<Rightarrow> False
      | Some m \<Rightarrow>
          if me_page_entries m = [] then False
          else if \<not> me_has_geom m \<or> me_width m = 0 \<or> me_height m = 0 then True
          else
            let format = (if me_format m \<noteq> 0 then me_format m else MTL_FORMAT_BGRA8_UNORM)
            in (case mapping_span_bound (device_desc_complete m) format (me_width m) (me_height m) of
                  None \<Rightarrow> False
                | Some span_end \<Rightarrow>
                    saturating_mul (of_nat (length (me_page_entries m))) (page_size_of (st_page_shift s))
                      \<ge> max span_end (page_size_of (st_page_shift s))))"

definition ensure_resolved_for_scanout :: "host \<Rightarrow> u32 \<Rightarrow> surfaces \<Rightarrow> bool \<times> surfaces" where
  "ensure_resolved_for_scanout h mid s =
     (case mapping s mid of
        None \<Rightarrow> (False, s)
      | Some m \<Rightarrow>
          if me_mapped m \<and> me_mapping_internal m \<noteq> 0
             \<and> (me_page_entries m = [] \<or> \<not> me_has_geom m \<or> \<not> pages_cover_geom s mid)
          then resolve_mapping_backing h mid s
          else (me_mapped m \<and> me_page_entries m \<noteq> [], s))"

text \<open>The verdict of the final look at the mapping.\<close>

definition revalidate_verdict :: "bool \<Rightarrow> bool \<Rightarrow> mapping_entry option \<Rightarrow> string option" where
  "revalidate_verdict resolve_ran resolve_ok m =
     (case m of
        None \<Rightarrow> Some ''revalidate_gone_late''
      | Some m \<Rightarrow>
          if me_mapped m \<and> me_page_entries m \<noteq> [] then None
          else if \<not> me_mapped m then Some ''revalidate_unmapped_late''
          else if me_condemned_entries m \<noteq> None then Some ''revalidate_condemned''
          else if \<not> resolve_ran then Some ''revalidate_no_internal''
          else if \<not> resolve_ok then Some ''revalidate_resolve_miss''
          else Some ''revalidate_empty_after_resolve'')"

definition revalidate_mapping_reason :: "host \<Rightarrow> u32 \<Rightarrow> surfaces \<Rightarrow> string option \<times> surfaces" where
  "revalidate_mapping_reason h mid s =
     (case mapping s mid of
        None \<Rightarrow> (Some ''revalidate_gone'', s)
      | Some m \<Rightarrow>
          if \<not> me_mapped m then (Some ''revalidate_unmapped'', s)
          else if me_mapping_internal m \<noteq> 0
          then
            (case resolve_mapping_backing h mid s of
               (resolved, s) \<Rightarrow>
                 if \<not> resolved \<and> me_page_table_kva m \<noteq> 0
                 then (Some ''revalidate_resolve_fail'',
                       if me_page_entries m \<noteq> [] then snd (invalidate_mapping_pages mid s) else s)
                 else (revalidate_verdict True resolved (mapping s mid), s))
          else (revalidate_verdict False False (mapping s mid), s))"

definition revalidate_mapping_pages :: "host \<Rightarrow> u32 \<Rightarrow> surfaces \<Rightarrow> bool \<times> surfaces" where
  "revalidate_mapping_pages h mid s =
     (case revalidate_mapping_reason h mid s of (reason, s) \<Rightarrow> (reason = None, s))"

section \<open>The type-4 walk of a page list\<close>

datatype type4_witness = Verified | Unwitnessed string | Drifted

definition visit_task_gva_pages_in_order ::
  "reader \<Rightarrow> (u32 \<times> task) list \<Rightarrow> u32 \<Rightarrow> u64 \<Rightarrow> u64 \<Rightarrow> u32 \<Rightarrow> ('v \<Rightarrow> u64 option \<Rightarrow> 'v \<times> bool) \<Rightarrow> 'v \<Rightarrow> 'v" where
  "visit_task_gva_pages_in_order mem tasks tid gva span shift visit v =
     (case geometry_for_page_shift shift of
        None \<Rightarrow> v
      | Some g \<Rightarrow>
          (case map_of tasks tid of
             None \<Rightarrow> v
           | Some t \<Rightarrow>
               if \<not> active t \<or> directory_pfn t = 0 then v
               else (case walk_span mem g \<lparr>active = True, directory_pfn = directory_pfn t\<rparr> gva span
                            (\<lambda>v _ r. visit v (case r of Inr gpa \<Rightarrow> Some gpa | Inl _ \<Rightarrow> None)) v of
                       Inr v' \<Rightarrow> v' | Inl _ \<Rightarrow> v)))"

text \<open>The closure of the witness: its captured index and verdict. The entry past the list stops it.\<close>

definition witness_visit ::
  "u32 list \<Rightarrow> u32 \<Rightarrow> nat \<times> type4_witness option \<Rightarrow> u64 option \<Rightarrow> (nat \<times> type4_witness option) \<times> bool" where
  "witness_visit entries shift = (\<lambda>(i, verdict) walked.
     if i \<ge> length entries then ((i, verdict), False)
     else case walked of
       None \<Rightarrow> ((i, Some Drifted), False)
     | Some live \<Rightarrow>
         if entry_gpa_shift (entries ! i) shift \<noteq> Some live then ((i, Some Drifted), False)
         else ((i + 1, verdict), True))"

definition type4_pages_witness :: "surfaces \<Rightarrow> host \<Rightarrow> u32 \<Rightarrow> type4_witness" where
  "type4_pages_witness s h mid =
     (case mapping s mid of
        None \<Rightarrow> Unwitnessed ''no_mapping''
      | Some m \<Rightarrow>
          (case me_type4_walk m of
             None \<Rightarrow> Unwitnessed ''no_walk''
           | Some t4 \<Rightarrow>
               if t4_map_generation t4 \<noteq> me_map_generation m then Unwitnessed ''walk_superseded''
               else if me_page_entries m = [] then Unwitnessed ''no_pages''
               else
                 let shift = st_page_shift s; entries = me_page_entries m in
                 if \<not> task_active s (t4_task_id t4) then Drifted
                 else
                   let base_gva = shl64 (ucast (t4_backing_pfn t4)) shift;
                       span = saturating_mul (of_nat (length entries)) (page_size_of shift)
                   in (case visit_task_gva_pages_in_order (h_read_gpa h) (st_tasks s) (t4_task_id t4)
                              base_gva span shift (witness_visit entries shift) (0, None) of
                         (i, Some verdict) \<Rightarrow> verdict
                       | (i, None) \<Rightarrow> if i \<noteq> length entries then Drifted else Verified)))"

datatype pages_verdict = Ours | PvUnwitnessed string | PvDrifted

definition mapping_pages_verdict :: "host \<Rightarrow> u32 \<Rightarrow> surfaces \<Rightarrow> pages_verdict \<times> surfaces" where
  "mapping_pages_verdict h mid s =
     (case type4_pages_witness s h mid of
        Verified \<Rightarrow> (Ours, s)
      | Unwitnessed why \<Rightarrow> (PvUnwitnessed why, s)
      | Drifted \<Rightarrow> (PvDrifted, snd (invalidate_mapping_pages mid s)))"

record pages_vouched =
  pv_mapping_id :: u32
  pv_map_generation :: u32

definition vouch_covers :: "pages_vouched \<Rightarrow> surfaces \<Rightarrow> u32 \<Rightarrow> bool" where
  "vouch_covers v s mid \<longleftrightarrow>
     pv_mapping_id v = mid
   \<and> (case mapping s mid of None \<Rightarrow> False | Some m \<Rightarrow> me_map_generation m = pv_map_generation v)"

definition vouch_mapping_pages_verdict ::
  "host \<Rightarrow> u32 \<Rightarrow> surfaces \<Rightarrow> (pages_verdict \<times> pages_vouched option) \<times> surfaces" where
  "vouch_mapping_pages_verdict h mid s =
     (case mapping_pages_verdict h mid s of
        (verdict, s) \<Rightarrow>
          if verdict = PvDrifted then ((verdict, None), s)
          else ((verdict, map_option (\<lambda>m. \<lparr>pv_mapping_id = mid, pv_map_generation = me_map_generation m\<rparr>)
                            (mapping s mid)), s))"

end
