(* ===== verification/MapperViews.thy ===== *)
theory MapperViews
  imports Mapper
begin

text \<open>
  The host objects built on a page list (views and guest-write tokens), their release, and the adoption
  of a type-4 surface.
\<close>

unbundle bit_operations_syntax

section \<open>Release\<close>

definition flush_retired_views :: "surfaces \<times> host \<Rightarrow> surfaces \<times> host" where
  "flush_retired_views sh =
     (case sh of (s, h) \<Rightarrow>
        (s\<lparr>st_retired_views := [], st_retired_guest_write_tokens := []\<rparr>,
         fold (\<lambda>token. host_log (UntrackGuestWrites token)) (st_retired_guest_write_tokens s)
           (fold (\<lambda>v. host_log (UnmapPages (fst v) (snd v))) (st_retired_views s) h)))"

text \<open>\<open>reset_with_host\<close> of model/mod.rs up to the replacement of the state, which keeps no mapping.\<close>

definition reset_with_host :: "surfaces \<times> host \<Rightarrow> nat \<times> (surfaces \<times> host)" where
  "reset_with_host sh =
     (case sh of (s, h) \<Rightarrow>
      case take_all_host_views s of (views, s) \<Rightarrow>
        (length views,
         flush_retired_views (s, fold (\<lambda>v. host_log (UnmapPages (fst v) (snd v))) views h)))"

section \<open>Guest-write tokens\<close>

definition present_gpas :: "u32 list \<Rightarrow> u32 \<Rightarrow> u64 list" where
  "present_gpas entries shift = List.map_filter (\<lambda>e. entry_gpa_shift e shift) entries"

text \<open>The second half of \<open>ensure_guest_write_token\<close>: no live token, so ask the host for one.\<close>

definition build_guest_write_token :: "u32 \<Rightarrow> u32 \<Rightarrow> surfaces \<times> host \<Rightarrow> u64 option \<times> (surfaces \<times> host)" where
  "build_guest_write_token mid map_generation sh =
     (case sh of (s, h) \<Rightarrow>
      case mapping s mid of
        None \<Rightarrow> (None, (s, h))
      | Some m \<Rightarrow>
          if \<not> me_mapped m \<or> me_page_entries m = [] then (None, (s, h))
          else
            let gpas = present_gpas (me_page_entries m) (st_page_shift s) in
            if length gpas \<noteq> length (me_page_entries m) then (None, (s, h))
            else (case track_guest_writes gpas (st_page_size s) h of
                    (None, h) \<Rightarrow> (None, (s, h))
                  | (Some token, h) \<Rightarrow>
                      (Some token,
                       (put_mapping mid
                          (m\<lparr>me_guest_write_token := token, me_guest_write_token_gen := map_generation\<rparr>) s, h))))"

definition ensure_guest_write_token :: "u32 \<Rightarrow> surfaces \<times> host \<Rightarrow> u64 option \<times> (surfaces \<times> host)" where
  "ensure_guest_write_token mid sh =
     (case sh of (s, h) \<Rightarrow>
      case mapping s mid of
        None \<Rightarrow> (None, (s, h))
      | Some m \<Rightarrow>
          if me_guest_write_token m \<noteq> 0
          then
            if me_guest_write_token_gen m = me_map_generation m then (Some (me_guest_write_token m), (s, h))
            else
              let s = put_mapping mid
                        (m\<lparr>me_guest_write_token := 0, me_guest_write_token_gen := 0,
                           me_guest_write_gen_at_store := 0\<rparr>) s;
                  s = s\<lparr>st_retired_guest_write_tokens :=
                          st_retired_guest_write_tokens s @ [me_guest_write_token m]\<rparr>
              in build_guest_write_token mid (me_map_generation m) (s, h)
          else build_guest_write_token mid (me_map_generation m) (s, h))"

definition stamp_guest_write_gen :: "u32 \<Rightarrow> surfaces \<times> host \<Rightarrow> surfaces \<times> host" where
  "stamp_guest_write_gen mid sh =
     (case ensure_guest_write_token mid sh of
        (token, (s, h)) \<Rightarrow>
          let gen = (case token of
                       None \<Rightarrow> 0
                     | Some t \<Rightarrow> (case guest_write_gen h t of None \<Rightarrow> 0 | Some g \<Rightarrow> g))
          in (case mapping s mid of
                None \<Rightarrow> (s, h)
              | Some m \<Rightarrow> (put_mapping mid (m\<lparr>me_guest_write_gen_at_store := gen\<rparr>) s, h)))"

datatype guest_write_verdict = GwClean | GwNoMapping | GwNoStamp | GwWrote | GwUnreadable

definition mapping_guest_write_verdict :: "surfaces \<Rightarrow> host \<Rightarrow> u32 \<Rightarrow> guest_write_verdict" where
  "mapping_guest_write_verdict s h mid =
     (case mapping s mid of
        None \<Rightarrow> GwNoMapping
      | Some m \<Rightarrow>
          if me_guest_write_gen_at_store m = 0 \<or> me_guest_write_token m = 0
             \<or> me_guest_write_token_gen m \<noteq> me_map_generation m
          then GwNoStamp
          else (case guest_write_gen h (me_guest_write_token m) of
                  Some gen \<Rightarrow> if gen = me_guest_write_gen_at_store m then GwClean else GwWrote
                | None \<Rightarrow> GwUnreadable))"

section \<open>Mapping offsets of written pages\<close>

text \<open>The loop over the entries: the ranges pushed so far, newest last. Adjacent pages extend the last.\<close>

definition extend_ranges :: "u64 \<Rightarrow> u64 \<Rightarrow> (u64 \<times> u64) list \<Rightarrow> (u64 \<times> u64) list" where
  "extend_ranges lo hi out =
     (if out \<noteq> [] \<and> snd (last out) = lo then butlast out @ [(fst (last out), hi)] else out @ [(lo, hi)])"

primrec offsets_of :: "u32 \<Rightarrow> u64 list \<Rightarrow> nat \<Rightarrow> u32 list \<Rightarrow> (u64 \<times> u64) list \<Rightarrow> (u64 \<times> u64) list" where
  "offsets_of shift written i [] out = out"
| "offsets_of shift written i (e # es) out =
     (let lo = saturating_mul (of_nat i) (shl64 1 shift);
          hi = saturating_add lo (shl64 1 shift)
      in offsets_of shift written (Suc i) es
           (case entry_gpa_shift e shift of
              None \<Rightarrow> out
            | Some gpa \<Rightarrow> if gpa \<in> set written then extend_ranges lo hi out else out))"

definition mapping_offsets_of_pages :: "surfaces \<Rightarrow> u32 \<Rightarrow> u64 list \<Rightarrow> (u64 \<times> u64) list" where
  "mapping_offsets_of_pages s mid written =
     (case mapping s mid of
        None \<Rightarrow> []
      | Some m \<Rightarrow> if written = [] then [] else offsets_of (st_page_shift s) written 0 (me_page_entries m) [])"

section \<open>Views\<close>

text \<open>
  Whether a surface shares a page with the device's own structures; which one is the answer's name.
  \<open>partition_point\<close> on the sorted pages finds the lowest page of a range.
\<close>

definition holds_range :: "u64 list \<Rightarrow> u64 \<Rightarrow> u64 \<Rightarrow> u64 option" where
  "holds_range pages start len =
     (case filter (\<lambda>p. start \<le> p) (sort pages) of
        [] \<Rightarrow> None
      | p # _ \<Rightarrow> if p < saturating_add start len then Some p else None)"

definition ring_collision :: "(u64 \<Rightarrow> u64) \<Rightarrow> u64 list \<Rightarrow> channel_ring list \<Rightarrow> u64 option" where
  "ring_collision base pages rings =
     map_option base (find (\<lambda>gpa. base gpa \<in> set pages) (concat (map cr_page_gpas rings)))"

definition directory_collision :: "u32 \<Rightarrow> (u64 \<Rightarrow> u64) \<Rightarrow> u64 list \<Rightarrow> (u32 \<times> task) list \<Rightarrow> u64 option" where
  "directory_collision shift base pages tasks =
     find (\<lambda>gpa. base gpa \<in> set pages)
       (map (\<lambda>(_, t). shl64 (ucast (directory_pfn t)) shift)
          (filter (\<lambda>(_, t). active t \<and> directory_pfn t \<noteq> 0) tasks))"

definition first_control_page_collision :: "surfaces \<Rightarrow> u64 list \<Rightarrow> (u64 \<times> string) option" where
  "first_control_page_collision s gpas =
     (let base = page_base (st_page_size s);
          pages = map base gpas;
          root = shl64 (ucast (st_gfx_root_page s)) (st_page_shift s);
          fifo = shl64 (ucast (st_gfx_fifo_base_page s)) (st_page_shift s)
      in if st_gfx_root_page s \<noteq> 0 \<and> base root \<in> set pages then Some (root, ''gfx_root'')
         else
           case (if st_gfx_fifo_base_page s \<noteq> 0
                 then holds_range pages fifo (ucast (max (st_gfx_fifo_length s) 1)) else None) of
             Some gpa \<Rightarrow> Some (gpa, ''root_fifo'')
           | None \<Rightarrow>
               if st_iosfc_ring_base s \<noteq> 0 \<and> base (st_iosfc_ring_base s) \<in> set pages
               then Some (base (st_iosfc_ring_base s), ''iosfc_ring'')
               else (case ring_collision base pages (st_child_rings s) of
                       Some gpa \<Rightarrow> Some (gpa, ''child_fifo'')
                     | None \<Rightarrow> map_option (\<lambda>gpa. (gpa, ''task_directory''))
                                 (directory_collision (st_page_shift s) base pages (st_tasks s))))"

definition mapping_page_gpas :: "u32 \<Rightarrow> surfaces \<times> host \<Rightarrow> u64 list option \<times> (surfaces \<times> host)" where
  "mapping_page_gpas mid sh =
     (case sh of (s, h) \<Rightarrow>
      case revalidate_mapping_pages h mid s of (ok, s) \<Rightarrow>
        if \<not> ok then (None, (s, h))
        else (Option.bind (mapping s mid) (\<lambda>m.
                if \<not> me_mapped m \<or> me_page_entries m = [] then None
                else
                  let gpas = present_gpas (me_page_entries m) (st_page_shift s) in
                  if gpas = [] \<or> length gpas \<noteq> length (me_page_entries m) then None
                  else case first_control_page_collision s gpas of Some _ \<Rightarrow> None | None \<Rightarrow> Some gpas), (s, h)))"

definition build_contig_view :: "u32 \<Rightarrow> surfaces \<times> host \<Rightarrow> (u64 \<times> u64) option \<times> (surfaces \<times> host)" where
  "build_contig_view mid sh =
     (case mapping_page_gpas mid sh of
        (None, sh) \<Rightarrow> (None, sh)
      | (Some gpas, (s, h)) \<Rightarrow>
          let page_sz = page_size_of (st_page_shift s) in
          if contig_run_count gpas page_sz \<noteq> 1
          then (None, (case mapping s mid of
                         None \<Rightarrow> s
                       | Some m \<Rightarrow> put_mapping mid (m\<lparr>me_contig_fragmented_gen := Some (me_map_generation m)\<rparr>) s, h))
          else (case map_pages gpas page_sz h of
                  (None, h) \<Rightarrow> (None, (s, h))
                | (Some ptr, h) \<Rightarrow>
                    let len = of_nat (length gpas) * page_sz in
                    (case mapping s mid of
                       None \<Rightarrow> (None, (s, h))
                     | Some m \<Rightarrow>
                         (Some (ptr, len),
                          (put_mapping mid (m\<lparr>me_contig_ptr := ptr, me_contig_len := len\<rparr>) s, h)))))"

definition ensure_contig_view :: "u32 \<Rightarrow> surfaces \<times> host \<Rightarrow> (u64 \<times> u64) option \<times> (surfaces \<times> host)" where
  "ensure_contig_view mid sh =
     (case sh of (s, h) \<Rightarrow>
      case revalidate_mapping_pages h mid s of (ok, s) \<Rightarrow>
        if \<not> ok then (None, (s, h))
        else
          case flush_retired_views (s, h) of (s, h) \<Rightarrow>
          (case mapping s mid of
             None \<Rightarrow> (None, (s, h))
           | Some m \<Rightarrow>
               if me_contig_ptr m \<noteq> 0 then (Some (me_contig_ptr m, me_contig_len m), (s, h))
               else if me_contig_fragmented_gen m = Some (me_map_generation m) then (None, (s, h))
               else build_contig_view mid (s, h)))"

section \<open>Adoption of a type-4 surface\<close>

definition translate_task_gva :: "reader \<Rightarrow> task \<Rightarrow> u64 \<Rightarrow> u32 \<Rightarrow> u64 option" where
  "translate_task_gva mem t gva shift =
     (if \<not> active t \<or> directory_pfn t = 0 then None
      else Option.bind (geometry_for_page_shift shift) (\<lambda>g.
        case visit_span_chunks mem g \<lparr>active = True, directory_pfn = directory_pfn t\<rparr> gva 1
               (\<lambda>_ chunk. (Some (ch_gpa chunk), False)) None of
          Inr gpa \<Rightarrow> gpa | Inl _ \<Rightarrow> None))"

definition type4_entry :: "reader \<Rightarrow> task \<Rightarrow> u32 \<Rightarrow> u32 \<Rightarrow> nat \<Rightarrow> string + u32" where
  "type4_entry mem t backing_pfn shift i =
     (case translate_task_gva mem t (shl64 (ucast backing_pfn + of_nat i) shift) shift of
        None \<Rightarrow> Inl ''translate''
      | Some gpa \<Rightarrow>
          let pfn = shr64 gpa shift in
          if pfn > 2 ^ 32 - 1 then Inl ''pfn_oob''
          else
            let entry = push_bit PAGE_ENTRY_PFN_SHIFT (ucast pfn :: u32) OR PAGE_ENTRY_VALID in
            if entry_gpa_shift entry shift \<noteq> Some (page_base (page_size_of shift) gpa)
            then Inl ''entry_roundtrip''
            else Inr entry)"

definition type4_page_count :: "type4_surface \<Rightarrow> u32 \<Rightarrow> u64" where
  "type4_page_count surf shift = saturating_sub (t4s_length surf) 1 div page_size_of shift + 1"

text \<open>The list of a type-4 surface, or the name of the refusal.\<close>

definition type4_entries :: "surfaces \<Rightarrow> host \<Rightarrow> u32 \<Rightarrow> type4_surface \<Rightarrow> string + u32 list" where
  "type4_entries s h task_id surf =
     (let shift = st_page_shift s; page_count = type4_page_count surf shift in
      if page_count = 0 \<or> unat page_count > 2 ^ 63 - 1 then Inl ''page_count_oob''
      else case map_of (st_tasks s) task_id of
        None \<Rightarrow> Inl ''task_inactive''
      | Some t \<Rightarrow>
          if \<not> active t then Inl ''task_inactive''
          else traverse (type4_entry (h_read_gpa h) t (t4s_backing_pfn surf) shift) [0..<unat page_count])"

definition adopt_type4 :: "u32 \<Rightarrow> u32 \<Rightarrow> type4_surface \<Rightarrow> u32 list \<Rightarrow> u8 list \<Rightarrow> mapping_entry \<Rightarrow> surfaces \<Rightarrow> surfaces" where
  "adopt_type4 task_id mid surf entries desc m s =
     (let prior = (case me_condemned_entries m of Some l \<Rightarrow> l | None \<Rightarrow> me_page_entries m);
          m = m\<lparr>me_condemned_entries := None\<rparr>;
          m = (if prior \<noteq> entries then bump_map_generation m else m);
          m = m\<lparr>me_page_entries := entries, me_mapped := True, me_page_table_kva := 0, me_device_desc := desc,
                me_type4_walk := Some \<lparr>t4_task_id = task_id, t4_backing_pfn = t4s_backing_pfn surf,
                                        t4_map_generation = me_map_generation m\<rparr>\<rparr>
      in if me_contig_ptr m \<noteq> 0
         then (put_mapping mid (m\<lparr>me_contig_ptr := 0, me_contig_len := 0\<rparr>) s)
                \<lparr>st_retired_views := st_retired_views s @ [(me_contig_ptr m, me_contig_len m)]\<rparr>
         else put_mapping mid m s)"

definition apply_type4_backing ::
  "host \<Rightarrow> u32 \<Rightarrow> u32 \<Rightarrow> type4_surface \<Rightarrow> surfaces \<Rightarrow> (unit, bool \<times> surfaces) outcome" where
  "apply_type4_backing h task_id mid surf s =
     (if \<not> is_mapping_id mid then Ok (False, s)
      else if page_size_of (st_page_shift s) = 0 then Ok (False, s)
      else case type4_entries s h task_id surf of
        Inl _ \<Rightarrow> Ok (False, s)
      | Inr entries \<Rightarrow>
          (case map_surface mid s of
             (False, s) \<Rightarrow> Ok (False, s)
           | (True, s) \<Rightarrow>
               obind (synthesize_device_desc_from_type4 surf) (\<lambda>desc.
                 let s = (case mapping s mid of
                            None \<Rightarrow> s | Some m \<Rightarrow> adopt_type4 task_id mid surf entries desc m s)
                 in Ok (True,
                        if t4s_width surf > 0 \<and> t4s_height surf > 0
                        then snd (set_mapping_geom mid (t4s_width surf) (t4s_height surf)
                                    (latched_mapping_format surf) s)
                        else s))))"

section \<open>DeleteIOSurfaceBacking2\<close>

definition delete_iosurface_backing2 :: "u32 \<Rightarrow> surfaces \<times> host \<Rightarrow> surfaces \<times> host" where
  "delete_iosurface_backing2 object_id sh =
     (case sh of (s, h) \<Rightarrow>
        flush_retired_views
          ((if mapping_backing_condemned s object_id then snd (unmap_surface object_id s)
            else case condemn_surface_backing object_id s of
                   (True, s) \<Rightarrow> s
                 | (False, s) \<Rightarrow> snd (unmap_surface object_id s)), h))"

end
