(* ===== verification/SurfaceEvolution.thy ===== *)
theory SurfaceEvolution
  imports MapperViews
begin

text \<open>
  How the operations of the registry move a mapping. A mapping names a page list: the one it holds, or the
  condemned one it will compare the next list with. Every operation either leaves that list alone or
  bumps the generation, so that the generation names the list until it wraps.
\<close>

section \<open>What a mapping names\<close>

definition names_of :: "mapping_entry \<Rightarrow> u32 list" where
  "names_of e = (case me_condemned_entries e of Some l \<Rightarrow> l | None \<Rightarrow> me_page_entries e)"

definition next_gen :: "u32 \<Rightarrow> u32" where
  "next_gen g = (if g + 1 = 0 then 1 else g + 1)"

definition entry_ok :: "mapping_entry \<Rightarrow> bool" where
  "entry_ok e \<longleftrightarrow> (me_condemned_entries e \<noteq> None \<longrightarrow> me_page_entries e = [])"

definition registry_ok :: "surfaces \<Rightarrow> bool" where
  "registry_ok s \<longleftrightarrow> bt_ok (st_mappings s) \<and> (\<forall>mid e. mapping s mid = Some e \<longrightarrow> entry_ok e)"

definition bumped :: "nat \<Rightarrow> mapping_entry \<Rightarrow> mapping_entry \<Rightarrow> bool" where
  "bumped k e e' \<longleftrightarrow> me_map_generation e' = (next_gen ^^ k) (me_map_generation e)
     \<and> (k = 0 \<longrightarrow> names_of e' = names_of e)"

definition evolves :: "nat \<Rightarrow> surfaces \<Rightarrow> surfaces \<Rightarrow> bool" where
  "evolves n s s' \<longleftrightarrow> registry_ok s'
     \<and> (\<forall>mid e. mapping s mid = Some e \<longrightarrow> (\<exists>e' k. mapping s' mid = Some e' \<and> k \<le> n \<and> bumped k e e'))"

named_theorems evolve_intros \<open>how far an operation moves a generation\<close>

lemma bump_map_generation_eq: "bump_map_generation e = e\<lparr>me_map_generation := next_gen (me_map_generation e)\<rparr>"
  by (simp add: bump_map_generation_def next_gen_def Let_def)

lemma bumped_refl: "bumped 0 e e"
  by (simp add: bumped_def)

lemma bumped_trans: "bumped j a b \<Longrightarrow> bumped k b c \<Longrightarrow> bumped (k + j) a c"
  by (simp add: bumped_def funpow_add)

lemma evolves_refl: "registry_ok s \<Longrightarrow> evolves 0 s s"
  unfolding evolves_def using bumped_refl by blast

lemma evolves_ok: "evolves n s s' \<Longrightarrow> registry_ok s'"
  by (simp add: evolves_def)

lemma evolves_get:
  "evolves n s s' \<Longrightarrow> mapping s mid = Some e \<Longrightarrow> \<exists>e' k. mapping s' mid = Some e' \<and> k \<le> n \<and> bumped k e e'"
  by (simp add: evolves_def)

lemma evolves_trans:
  assumes "evolves m a b" "evolves n b c"
  shows "evolves (m + n) a c"
  unfolding evolves_def
proof (intro conjI allI impI)
  show "registry_ok c" using assms(2) by (rule evolves_ok)
  fix mid e
  assume "mapping a mid = Some e"
  from evolves_get [OF assms(1) this] obtain e1 j where 1: "mapping b mid = Some e1" "j \<le> m" "bumped j e e1"
    by blast
  from evolves_get [OF assms(2) 1(1)] obtain e2 k where 2: "mapping c mid = Some e2" "k \<le> n" "bumped k e1 e2"
    by blast
  with 1 bumped_trans [of j e e1 k e2] show "\<exists>e' k. mapping c mid = Some e' \<and> k \<le> m + n \<and> bumped k e e'"
    by (intro exI [of _ e2] exI [of _ "k + j"]) simp
qed

lemma evolves_mono: "evolves m a b \<Longrightarrow> m \<le> n \<Longrightarrow> evolves n a b"
  unfolding evolves_def by (meson le_trans)

lemma evolves_cong:
  assumes "st_mappings s' = st_mappings s" "st_mappings t' = st_mappings t"
  shows "evolves n s' t' \<longleftrightarrow> evolves n s t"
  by (simp add: evolves_def registry_ok_def assms)

lemma registry_ok_cong: "st_mappings s' = st_mappings s \<Longrightarrow> registry_ok s' = registry_ok s"
  by (simp add: registry_ok_def)

section \<open>Writing one mapping back\<close>

lemma put_mapping_fields [simp]:
  "st_page_shift (put_mapping mid e s) = st_page_shift s" "st_tasks (put_mapping mid e s) = st_tasks s"
  "st_retired_views (put_mapping mid e s) = st_retired_views s"
  "st_retired_guest_write_tokens (put_mapping mid e s) = st_retired_guest_write_tokens s"
  "st_gva_host_views (put_mapping mid e s) = st_gva_host_views s"
  by (simp_all add: put_mapping_def)

lemma put_mapping_get:
  "registry_ok s \<Longrightarrow> mapping (put_mapping mid e s) x = (if x = mid then Some e else mapping s x)"
  by (simp add: put_mapping_def registry_ok_def bt_get_update)

lemma put_mapping_ok: "registry_ok s \<Longrightarrow> entry_ok e \<Longrightarrow> registry_ok (put_mapping mid e s)"
  using put_mapping_get [of s mid e]
  by (auto simp: registry_ok_def put_mapping_def bt_insert_ok)

lemma evolves_put:
  assumes "registry_ok s" "entry_ok e'"
    and "\<And>e. mapping s mid = Some e \<Longrightarrow> \<exists>k\<le>n. bumped k e e'"
  shows "evolves n s (put_mapping mid e' s)"
  unfolding evolves_def
proof (intro conjI allI impI)
  show "registry_ok (put_mapping mid e' s)" by (rule put_mapping_ok [OF assms(1,2)])
  fix x e
  assume e: "mapping s x = Some e"
  show "\<exists>e'' k. mapping (put_mapping mid e' s) x = Some e'' \<and> k \<le> n \<and> bumped k e e''"
  proof (cases "x = mid")
    case True
    with e assms(3) obtain k where "k \<le> n" "bumped k e e'" by blast
    with True show ?thesis by (intro exI [of _ e'] exI [of _ k]) (simp add: put_mapping_get assms(1))
  next
    case False
    with e show ?thesis
      by (intro exI [of _ e] exI [of _ 0]) (simp add: put_mapping_get assms(1) bumped_refl)
  qed
qed

text \<open>An update of a mapping that keeps its lists and its generation.\<close>

definition same_pages :: "mapping_entry \<Rightarrow> mapping_entry \<Rightarrow> bool" where
  "same_pages e e' \<longleftrightarrow> me_map_generation e' = me_map_generation e \<and> me_page_entries e' = me_page_entries e
     \<and> me_condemned_entries e' = me_condemned_entries e"

lemma same_pages_bumped: "same_pages e e' \<Longrightarrow> bumped 0 e e'"
  by (simp add: same_pages_def bumped_def names_of_def split: option.split)

lemma same_pages_ok: "same_pages e e' \<Longrightarrow> entry_ok e \<Longrightarrow> entry_ok e'"
  by (simp add: same_pages_def entry_ok_def)

lemma entry_ok_default: "entry_ok mapping_default"
  by (simp add: entry_ok_def mapping_default_def)

lemma entry_ok_or_default: "registry_ok s \<Longrightarrow> entry_ok (entry_or_default s mid)"
  by (auto simp: registry_ok_def entry_or_default_def entry_ok_default split: option.split)

lemma evolves_put_same:
  assumes "registry_ok s" "same_pages (entry_or_default s mid) e'"
  shows "evolves 0 s (put_mapping mid e' s)"
proof (rule evolves_put [OF assms(1)])
  show "entry_ok e'" by (rule same_pages_ok [OF assms(2) entry_ok_or_default [OF assms(1)]])
  fix e
  assume "mapping s mid = Some e"
  with assms(2) have "bumped 0 e e'" by (simp add: entry_or_default_def same_pages_bumped)
  then show "\<exists>k\<le>0. bumped k e e'" by simp
qed

text \<open>Retiring the host objects writes the mapping back without them.\<close>

lemma retire_mappings:
  "st_mappings (retire_host_objects mid e s) =
     st_mappings (put_mapping mid (snd (take_guest_write_token (snd (take_mapping_view e)))) s)"
  by (simp add: retire_host_objects_def Let_def put_mapping_def split: prod.split option.split)

lemma take_same: "same_pages e (snd (take_guest_write_token (snd (take_mapping_view e))))"
  by (simp add: take_mapping_view_def take_guest_write_token_def same_pages_def)

lemma evolves_retire:
  assumes "registry_ok s" "entry_ok e'"
    and "\<And>e. mapping s mid = Some e \<Longrightarrow> \<exists>k\<le>n. bumped k e e'"
  shows "evolves n s (retire_host_objects mid e' s)"
proof -
  let ?e = "snd (take_guest_write_token (snd (take_mapping_view e')))"
  have "evolves n s (put_mapping mid ?e s)"
  proof (rule evolves_put [OF assms(1)])
    show "entry_ok ?e" by (rule same_pages_ok [OF take_same assms(2)])
    fix e
    assume "mapping s mid = Some e"
    with assms(3) obtain k where "k \<le> n" "bumped k e e'" by blast
    moreover have "bumped 0 e' ?e" by (rule same_pages_bumped [OF take_same])
    ultimately show "\<exists>k\<le>n. bumped k e ?e" using bumped_trans [of k e e' 0 ?e] by auto
  qed
  then show ?thesis
    using evolves_cong [of s s "retire_host_objects mid e' s" "put_mapping mid ?e s"] retire_mappings by simp
qed

section \<open>The operations\<close>

lemma mappings_of_parts [simp]:
  "st_mappings (drop_host_surface mid s) = st_mappings s" "st_mappings (see_mapping_id mid s) = st_mappings s"
  by (simp_all add: drop_host_surface_def see_mapping_id_def)

lemma page_shift_of_parts [simp]:
  "st_page_shift (drop_host_surface mid s) = st_page_shift s" "st_page_shift (see_mapping_id mid s) = st_page_shift s"
  by (simp_all add: drop_host_surface_def see_mapping_id_def)

lemma bumped_bump: "names_of e' = l \<Longrightarrow> me_map_generation e' = me_map_generation e \<Longrightarrow> bumped 1 e (bump_map_generation e')"
  by (simp add: bumped_def bump_map_generation_eq)

lemma evolves_invalidate [evolve_intros]:
  assumes "registry_ok s"
  shows "evolves 1 s (snd (invalidate_mapping_pages mid s))"
proof -
  let ?s = "drop_host_surface mid s"
  have ok: "registry_ok ?s" using assms by (simp add: registry_ok_def)
  show ?thesis
  proof (cases "mapping s mid")
    case None
    then show ?thesis
      using evolves_mono [OF evolves_refl [OF ok], of 1] evolves_cong [of s ?s ?s ?s 1]
      by (simp add: invalidate_mapping_pages_def)
  next
    case (Some e)
    let ?e = "bump_map_generation (e\<lparr>me_page_entries := [], me_page_table_kva := 0, me_condemned_entries := None\<rparr>)"
    have "evolves 1 ?s (retire_host_objects mid ?e ?s)"
      by (rule evolves_retire [OF ok])
         (use Some in \<open>auto simp: entry_ok_def bump_map_generation_eq bumped_def intro!: exI [of _ 1]\<close>)
    then show ?thesis
      using Some evolves_cong [of s ?s "retire_host_objects mid ?e ?s" "retire_host_objects mid ?e ?s" 1]
      by (simp add: invalidate_mapping_pages_def Let_def)
  qed
qed

lemma evolves_from:
  "evolves n t t' \<Longrightarrow> st_mappings t = st_mappings s \<Longrightarrow> st_mappings t' = st_mappings s' \<Longrightarrow> evolves n s s'"
  using evolves_cong [of s t s' t'] by simp

lemma bumped_eq: "names_of e' = names_of e \<Longrightarrow> me_map_generation e' = me_map_generation e \<Longrightarrow> \<exists>k\<le>0. bumped k e e'"
  by (simp add: bumped_def)

lemma bumped_once: "me_map_generation e' = next_gen (me_map_generation e) \<Longrightarrow> \<exists>k\<le>Suc 0. bumped k e e'"
  by (intro exI [of _ 1]) (simp add: bumped_def)

lemma registry_entry: "registry_ok s \<Longrightarrow> mapping s mid = Some e \<Longrightarrow> entry_ok e"
  by (simp add: registry_ok_def)

lemma evolves_condemn [evolve_intros]:
  assumes ok: "registry_ok s"
  shows "evolves 0 s (snd (condemn_surface_backing mid s))"
proof -
  define t where "t = drop_host_surface mid (s\<lparr>st_present := forget_compositor_mapping mid (st_present s)\<rparr>)"
  have t: "st_mappings t = st_mappings s" by (simp add: t_def)
  then have okt: "registry_ok t" using ok by (simp add: registry_ok_def)
  have stay: "evolves 0 s t" by (rule evolves_from [OF evolves_refl [OF ok] refl t [symmetric]])
  show ?thesis
  proof (cases "mapping s mid")
    case None
    then show ?thesis
      using stay by (simp add: condemn_surface_backing_def Let_def t_def)
  next
    case (Some e)
    show ?thesis
    proof (cases "me_page_entries e = []")
      case True
      then show ?thesis
        using Some stay by (simp add: condemn_surface_backing_def Let_def t_def)
    next
      case False
      let ?e = "e\<lparr>me_condemned_entries := Some (me_page_entries e), me_page_entries := [], me_page_table_kva := 0\<rparr>"
      have "me_condemned_entries e = None"
        using registry_entry [OF ok Some] False by (auto simp: entry_ok_def)
      then have "evolves 0 t (retire_host_objects mid ?e t)"
        using Some t by (intro evolves_retire [OF okt]) (auto simp: entry_ok_def bumped_def names_of_def)
      from evolves_from [OF this t refl] Some False show ?thesis
        by (simp add: condemn_surface_backing_def Let_def t_def)
    qed
  qed
qed

lemma evolves_map_surface [evolve_intros]:
  assumes ok: "registry_ok s"
  shows "evolves 0 s (snd (map_surface mid s))"
proof (cases "is_mapping_id mid")
  case False
  then show ?thesis
    using evolves_from [OF evolves_refl [OF ok] refl, of "see_mapping_id mid s"]
    by (simp add: map_surface_def Let_def)
next
  case True
  define t where "t = see_mapping_id mid s"
  have t: "st_mappings t = st_mappings s" by (simp add: t_def)
  then have okt: "registry_ok t" using ok by (simp add: registry_ok_def)
  define e where "e = (entry_or_default t mid)\<lparr>me_mapped := True\<rparr>"
  define e1 where "e1 = (if me_page_entries e \<noteq> [] \<and> me_condemned_entries e = None
      then e\<lparr>me_condemned_entries := Some (me_page_entries e), me_page_entries := []\<rparr>
      else e\<lparr>me_page_entries := []\<rparr>)"
  define e2 where "e2 = e1\<lparr>me_page_table_kva := 0, me_device_desc := [], me_content_generation := 0,
      me_surface_content_epoch := 0, me_has_geom := False, me_width := 0, me_height := 0, me_format := 0\<rparr>"
  have ok2: "entry_ok e2" by (simp add: entry_ok_def e2_def e1_def)
  have "evolves 0 t (retire_host_objects mid e2 t)"
  proof (rule evolves_retire [OF okt ok2])
    fix e0
    assume e0: "mapping t mid = Some e0"
    have "entry_ok e0" by (rule registry_entry [OF okt e0])
    then show "\<exists>k\<le>0. bumped k e0 e2"
      using e0 by (intro bumped_eq) (auto simp: e2_def e1_def e_def entry_or_default_def names_of_def entry_ok_def
                     split: option.splits)
  qed
  from evolves_from [OF this t, of "drop_host_surface mid (retire_host_objects mid e2 t)"] show ?thesis
    unfolding map_surface_def Let_def t_def [symmetric] e_def [symmetric] e1_def [symmetric] e2_def [symmetric]
    using True by simp
qed

lemma evolves_unmap_surface [evolve_intros]:
  assumes ok: "registry_ok s"
  shows "evolves 1 s (snd (unmap_surface mid s))"
proof -
  define t where "t = (see_mapping_id mid s)\<lparr>st_present := forget_compositor_mapping mid (st_present s)\<rparr>"
  have t: "st_mappings t = st_mappings s" "st_mappings (see_mapping_id mid s) = st_mappings s"
    by (simp_all add: t_def)
  then have okt: "registry_ok t" using ok by (simp add: registry_ok_def)
  note stay = evolves_mono [OF evolves_from [OF evolves_refl [OF ok] refl], of _ 1]
  consider (id) "\<not> is_mapping_id mid" | (none) "is_mapping_id mid" "mapping s mid = None"
    | (some) e where "is_mapping_id mid" "mapping s mid = Some e" by (cases "mapping s mid") auto
  then show ?thesis
  proof cases
    case id
    then show ?thesis using stay [of "see_mapping_id mid s"] by (simp add: unmap_surface_def Let_def)
  next
    case none
    then show ?thesis using stay [of t] t by (simp add: unmap_surface_def Let_def t_def see_mapping_id_def)
  next
    case some
    define e2 where "e2 = (bump_map_generation (e\<lparr>me_mapped := False, me_page_entries := [], me_page_table_kva := 0,
        me_condemned_entries := None, me_mapping_internal := 0, me_device_desc := []\<rparr>))
        \<lparr>me_has_geom := False, me_width := 0, me_height := 0, me_format := 0\<rparr>"
    have "evolves 1 t (retire_host_objects mid e2 t)"
      using some t by (intro evolves_retire [OF okt])
        (auto simp: entry_ok_def e2_def bump_map_generation_eq intro!: bumped_once)
    from evolves_from [OF this t(1), of "drop_host_surface mid (retire_host_objects mid e2 t)"] some t show ?thesis
      by (simp add: unmap_surface_def Let_def t_def e2_def see_mapping_id_def)
  qed
qed

lemma evolves_attach [evolve_intros]:
  assumes ok: "registry_ok s"
  shows "evolves 1 s (snd (attach_mapping_internal mid internal s))"
proof -
  define t where "t = see_mapping_id mid s"
  have t: "st_mappings t = st_mappings s" by (simp add: t_def)
  then have okt: "registry_ok t" using ok by (simp add: registry_ok_def)
  have stay: "evolves 1 s t"
    by (rule evolves_mono [OF evolves_from [OF evolves_refl [OF ok] refl t [symmetric]]]) simp
  let ?e = "entry_or_default t mid"
  have same: "evolves 1 s (put_mapping mid (?e\<lparr>me_mapped := True\<rparr>) t)"
    by (rule evolves_mono [OF evolves_from [OF evolves_put_same [OF okt] t refl]]) (simp_all add: same_pages_def)
  define e2 where "e2 = (bump_map_generation (?e\<lparr>me_mapped := True, me_mapping_internal := internal,
      me_page_entries := [], me_page_table_kva := 0, me_condemned_entries := None, me_device_desc := [],
      me_content_generation := 0, me_surface_content_epoch := 0\<rparr>))
      \<lparr>me_has_geom := False, me_width := 0, me_height := 0, me_format := 0\<rparr>"
  have "evolves 1 t (retire_host_objects mid e2 t)"
    by (intro evolves_retire [OF okt])
       (auto simp: entry_ok_def e2_def entry_or_default_def bump_map_generation_eq intro!: bumped_once)
  from stay same evolves_from [OF this t refl] show ?thesis
    by (simp add: attach_mapping_internal_def Let_def t_def e2_def)
qed

lemma evolves_set_desc [evolve_intros]:
  assumes ok: "registry_ok s"
  shows "evolves 0 s (snd (set_mapping_device_desc mid d s))"
proof -
  define t where "t = see_mapping_id mid s"
  have t: "st_mappings t = st_mappings s" by (simp add: t_def)
  then have okt: "registry_ok t" using ok by (simp add: registry_ok_def)
  have stay: "evolves 0 s t"
    by (rule evolves_from [OF evolves_refl [OF ok] refl t [symmetric]])
  have same: "evolves 0 s (put_mapping mid ((entry_or_default t mid)\<lparr>me_device_desc := d\<rparr>) t)"
    by (rule evolves_from [OF evolves_put_same [OF okt] t refl]) (simp add: same_pages_def)
  show ?thesis using stay same by (simp add: set_mapping_device_desc_def Let_def t_def)
qed

lemma evolves_set_geom [evolve_intros]:
  assumes ok: "registry_ok s"
  shows "evolves 0 s (snd (set_mapping_geom mid w h f s))"
  using evolves_refl [OF ok]
  by (auto simp: set_mapping_geom_def Let_def same_pages_def split: option.split intro!: evolves_put_same [OF ok])

lemma evolves_latch:
  assumes ok: "registry_ok s"
  shows "evolves 0 s (latch_geometry mid g s)" "evolves 0 s (latch_device_desc mid g s)"
  using evolves_refl [OF ok] evolves_set_geom [OF ok] evolves_set_desc [OF ok]
  by (auto simp: latch_geometry_def latch_device_desc_def split: option.split)

lemma evolves_owned [evolve_intros]:
  assumes ok: "registry_ok s"
  shows "evolves 1 s (snd (surface_pages_are_exclusively_owned mid s))"
  using evolves_mono [OF evolves_refl [OF ok], of 1] evolves_invalidate [OF ok]
  by (auto simp: surface_pages_are_exclusively_owned_def split: option.split)

text \<open>Adoption: the mapping holds the plan, and its generation moved exactly when the plan differs.\<close>

lemma adopted_fields:
  "me_page_entries (adopted internal g plan c m) = ptp_entries plan"
  "me_condemned_entries (adopted internal g plan c m) = None"
  "me_mapped (adopted internal g plan c m)"
  "me_map_generation (adopted internal g plan c m) =
     (if c then next_gen (me_map_generation m) else me_map_generation m)"
  by (simp_all add: adopted_def Let_def bump_map_generation_eq split: option.split)

lemma adopt_plan_entry:
  assumes ok: "registry_ok s" and m: "mapping s mid = Some m"
  shows "\<exists>m'. st_mappings (snd (adopt_plan mid internal g plan m s)) = st_mappings (put_mapping mid m' s)
    \<and> me_page_entries m' = ptp_entries plan \<and> me_condemned_entries m' = None
    \<and> me_map_generation m' = (if names_of m = ptp_entries plan then me_map_generation m
                              else next_gen (me_map_generation m))
    \<and> me_mapped m' \<and> fst (fst (adopt_plan mid internal g plan m s)) = (names_of m \<noteq> ptp_entries plan)"
proof -
  have decide: "fst (plan_adoption_decision (me_condemned_entries m) (me_page_entries m) (ptp_entries plan))
      \<longleftrightarrow> names_of m \<noteq> ptp_entries plan"
    by (simp add: plan_adoption_decision_def Let_def names_of_def split: option.split)
  have "st_mappings (snd (adopt_plan mid internal g plan m s)) =
      st_mappings (put_mapping mid (adopted internal g plan (names_of m \<noteq> ptp_entries plan) m) s)"
    by (simp add: adopt_plan_def Let_def decide)
  moreover have "fst (fst (adopt_plan mid internal g plan m s)) = (names_of m \<noteq> ptp_entries plan)"
    by (simp add: adopt_plan_def Let_def decide)
  moreover note adopted_fields [of internal g plan "names_of m \<noteq> ptp_entries plan" m]
  ultimately show ?thesis by auto
qed

lemma evolves_adopt_plan:
  assumes ok: "registry_ok s" and m: "mapping s mid = Some m"
  shows "evolves 1 s (snd (adopt_plan mid internal g plan m s))"
proof -
  from adopt_plan_entry [OF assms, of internal g plan] obtain m' where
    m': "st_mappings (snd (adopt_plan mid internal g plan m s)) = st_mappings (put_mapping mid m' s)"
      "me_page_entries m' = ptp_entries plan" "me_condemned_entries m' = None"
      "me_map_generation m' = (if names_of m = ptp_entries plan then me_map_generation m
                              else next_gen (me_map_generation m))" by blast
  have "\<exists>k\<le>1. bumped k m m'"
    using m'(2-4) by (cases "names_of m = ptp_entries plan")
      (auto simp: bumped_def names_of_def intro: exI [of _ 0] exI [of _ 1])
  then have "evolves 1 s (put_mapping mid m' s)"
    using m m'(3) by (intro evolves_put [OF ok]) (auto simp: entry_ok_def)
  from evolves_from [OF this refl m'(1) [symmetric]] show ?thesis .
qed

lemma evolves_resolve [evolve_intros]:
  assumes ok: "registry_ok s"
  shows "evolves 3 s (snd (resolve_mapping_backing h mid s))"
proof -
  have stay: "evolves 3 s s" by (rule evolves_mono [OF evolves_refl [OF ok]]) simp
  have latch: "evolves 3 s (latch_geometry mid g (latch_device_desc mid g s))" for g
  proof -
    have 1: "evolves 0 s (latch_device_desc mid g s)" by (rule evolves_latch [OF ok])
    have "evolves 0 (latch_device_desc mid g s) (latch_geometry mid g (latch_device_desc mid g s))"
      by (rule evolves_latch [OF evolves_ok [OF 1]])
    from evolves_mono [OF evolves_trans [OF 1 this], of 3] show ?thesis by simp
  qed
  have adopt: "evolves 3 s (snd (case adopt_plan mid internal g plan m s of
      ((pages_changed, incarnation_changed, reprieved), s) \<Rightarrow>
        (case (if \<not> incarnation_changed \<and> reprieved
               then surface_pages_are_exclusively_owned mid s else (True, s)) of
           (owned, s) \<Rightarrow>
             if \<not> owned then (False, s)
             else let s = latch_geometry mid g s in
               if pages_changed then surface_pages_are_exclusively_owned mid s else (True, s))))"
    if m: "mapping s mid = Some m" for internal g plan m
  proof -
    obtain c i r t where a: "adopt_plan mid internal g plan m s = ((c, i, r), t)"
      by (cases "adopt_plan mid internal g plan m s") auto
    have 1: "evolves 1 s t" using evolves_adopt_plan [OF ok m, of internal g plan] a by simp
    obtain o1 t1 where o1: "(if \<not> i \<and> r then surface_pages_are_exclusively_owned mid t else (True, t)) = (o1, t1)"
      by (cases "if \<not> i \<and> r then surface_pages_are_exclusively_owned mid t else (True, t)")
    have "evolves 1 t t1"
      using o1 evolves_owned [OF evolves_ok [OF 1], of mid] evolves_mono [OF evolves_refl [OF evolves_ok [OF 1]], of 1]
      by (auto split: if_splits)
    from evolves_trans [OF 1 this] have 2: "evolves 2 s t1" by (simp add: numeral_2_eq_2)
    have "evolves 0 t1 (latch_geometry mid g t1)" by (rule evolves_latch [OF evolves_ok [OF 2]])
    from evolves_trans [OF 2 this] have 3: "evolves 2 s (latch_geometry mid g t1)" by simp
    have "evolves 1 (latch_geometry mid g t1)
        (snd (surface_pages_are_exclusively_owned mid (latch_geometry mid g t1)))"
      by (rule evolves_owned [OF evolves_ok [OF 3]])
    from evolves_trans [OF 3 this] have 4: "evolves 3 s
        (snd (surface_pages_are_exclusively_owned mid (latch_geometry mid g t1)))" by simp
    show ?thesis
      using 2 3 4 evolves_mono [of 2 s _ 3] by (simp add: a o1 Let_def)
  qed
  show ?thesis
    unfolding resolve_mapping_backing_def Let_def
    using stay latch adopt [unfolded Let_def]
    by (simp split: option.split sum.split)
qed

lemma evolves_revalidate [evolve_intros]:
  assumes ok: "registry_ok s"
  shows "evolves 4 s (snd (revalidate_mapping_pages h mid s))"
proof -
  have stay: "evolves 4 s s" by (rule evolves_mono [OF evolves_refl [OF ok]]) simp
  obtain r t where r: "resolve_mapping_backing h mid s = (r, t)" by (cases "resolve_mapping_backing h mid s")
  have 3: "evolves 3 s t" using evolves_resolve [OF ok, of h mid] r by simp
  then have 4: "evolves 4 s t" by (rule evolves_mono) simp
  have "evolves 1 t (snd (invalidate_mapping_pages mid t))" by (rule evolves_invalidate [OF evolves_ok [OF 3]])
  from evolves_trans [OF 3 this] have 5: "evolves 4 s (snd (invalidate_mapping_pages mid t))" by simp
  show ?thesis
    using stay 4 5 by (simp add: revalidate_mapping_pages_def revalidate_mapping_reason_def r split: option.split)
qed

lemma evolves_ensure_resolved [evolve_intros]:
  assumes ok: "registry_ok s"
  shows "evolves 3 s (snd (ensure_resolved_for_scanout h mid s))"
  using evolves_mono [OF evolves_refl [OF ok], of 3] evolves_resolve [OF ok]
  by (simp add: ensure_resolved_for_scanout_def split: option.split)

lemma evolves_verdict [evolve_intros]:
  assumes ok: "registry_ok s"
  shows "evolves 1 s (snd (mapping_pages_verdict h mid s))" "evolves 1 s (snd (vouch_mapping_pages_verdict h mid s))"
proof -
  show v: "evolves 1 s (snd (mapping_pages_verdict h mid s))"
    using evolves_mono [OF evolves_refl [OF ok], of 1] evolves_invalidate [OF ok]
    by (simp add: mapping_pages_verdict_def split: type4_witness.split)
  then show "evolves 1 s (snd (vouch_mapping_pages_verdict h mid s))"
    by (cases "mapping_pages_verdict h mid s") (simp add: vouch_mapping_pages_verdict_def)
qed

lemma evolves_flush [evolve_intros]:
  "registry_ok s \<Longrightarrow> evolves 0 s (fst (flush_retired_views (s, h)))"
  by (rule evolves_from [OF evolves_refl]) (simp_all add: flush_retired_views_def)

lemma evolves_build_token:
  assumes ok: "registry_ok s"
  shows "evolves 0 s (fst (snd (build_guest_write_token mid g (s, h))))"
  using evolves_refl [OF ok]
  by (auto simp: build_guest_write_token_def Let_def entry_or_default_def same_pages_def
           split: option.split prod.split intro!: evolves_put_same [OF ok])

lemma evolves_ensure_token [evolve_intros]:
  assumes ok: "registry_ok s"
  shows "evolves 0 s (fst (snd (ensure_guest_write_token mid (s, h))))"
proof (cases "mapping s mid")
  case None
  then show ?thesis using evolves_refl [OF ok] by (simp add: ensure_guest_write_token_def)
next
  case (Some m)
  let ?p = "put_mapping mid (m\<lparr>me_guest_write_token := 0, me_guest_write_token_gen := 0,
                           me_guest_write_gen_at_store := 0\<rparr>) s"
  let ?t = "?p\<lparr>st_retired_guest_write_tokens := st_retired_guest_write_tokens s @ [me_guest_write_token m]\<rparr>"
  have "evolves 0 s ?p"
    by (rule evolves_put_same [OF ok]) (simp add: Some entry_or_default_def same_pages_def)
  then have 1: "evolves 0 s ?t" by (rule evolves_from) simp_all
  have "evolves 0 ?t (fst (snd (build_guest_write_token mid (me_map_generation m) (?t, h))))"
    by (rule evolves_build_token [OF evolves_ok [OF 1]])
  from evolves_trans [OF 1 this] show ?thesis
    using evolves_refl [OF ok] evolves_build_token [OF ok]
    by (simp add: ensure_guest_write_token_def Some Let_def)
qed

lemma evolves_stamp [evolve_intros]:
  assumes ok: "registry_ok s"
  shows "evolves 0 s (fst (stamp_guest_write_gen mid (s, h)))"
proof -
  obtain tk t h' where e: "ensure_guest_write_token mid (s, h) = (tk, (t, h'))"
    by (cases "ensure_guest_write_token mid (s, h)") auto
  have 1: "evolves 0 s t" using evolves_ensure_token [OF ok, of mid h] e by simp
  have "evolves 0 t (put_mapping mid (m\<lparr>me_guest_write_gen_at_store := g\<rparr>) t)" if "mapping t mid = Some m" for m g
    by (rule evolves_put_same [OF evolves_ok [OF 1]]) (simp add: that entry_or_default_def same_pages_def)
  from evolves_trans [OF 1 this] 1 show ?thesis
    by (simp add: stamp_guest_write_gen_def e Let_def split: option.split)
qed

lemma evolves_page_gpas:
  assumes ok: "registry_ok s"
  shows "evolves 4 s (fst (snd (mapping_page_gpas mid (s, h))))"
  using evolves_revalidate [OF ok, of h mid]
  by (cases "revalidate_mapping_pages h mid s") (simp add: mapping_page_gpas_def)

lemma evolves_build_view:
  assumes ok: "registry_ok s"
  shows "evolves 4 s (fst (snd (build_contig_view mid (s, h))))"
proof -
  obtain gpas t h' where e: "mapping_page_gpas mid (s, h) = (gpas, (t, h'))"
    by (cases "mapping_page_gpas mid (s, h)") auto
  have 1: "evolves 4 s t" using evolves_page_gpas [OF ok, of mid h] e by simp
  have ok1: "registry_ok t" by (rule evolves_ok [OF 1])
  have put: "evolves 0 t (put_mapping mid (m\<lparr>me_contig_fragmented_gen := a\<rparr>) t)"
    "evolves 0 t (put_mapping mid (m\<lparr>me_contig_ptr := b, me_contig_len := c\<rparr>) t)"
    if "mapping t mid = Some m" for m a b c
    by (rule evolves_put_same [OF ok1], simp add: that entry_or_default_def same_pages_def)+
  show ?thesis
    using 1 evolves_trans [OF 1 put(1)] evolves_trans [OF 1 put(2)]
    by (simp add: build_contig_view_def e Let_def split: option.split prod.split)
qed

lemma evolves_contig_view [evolve_intros]:
  assumes ok: "registry_ok s"
  shows "evolves 8 s (fst (snd (ensure_contig_view mid (s, h))))"
proof -
  obtain r t where r: "revalidate_mapping_pages h mid s = (r, t)" by (cases "revalidate_mapping_pages h mid s")
  have 1: "evolves 4 s t" using evolves_revalidate [OF ok, of h mid] r by simp
  obtain u h' where f: "flush_retired_views (t, h) = (u, h')" by (cases "flush_retired_views (t, h)")
  have "evolves 0 t u" using evolves_flush [OF evolves_ok [OF 1], of h] f by simp
  from evolves_trans [OF 1 this] have 2: "evolves 4 s u" by simp
  have "evolves 4 u (fst (snd (build_contig_view mid (u, h'))))" by (rule evolves_build_view [OF evolves_ok [OF 2]])
  from evolves_trans [OF 2 this] have 3: "evolves 8 s (fst (snd (build_contig_view mid (u, h'))))" by simp
  have "evolves 8 s t" "evolves 8 s u" using 1 2 by (auto elim: evolves_mono)
  with 3 show ?thesis
    by (simp add: ensure_contig_view_def r f split: option.split prod.split)
qed

lemma evolves_mark_written [evolve_intros]:
  assumes ok: "registry_ok s"
  shows "evolves 0 s (snd (mark_mapping_written mid s))" "evolves 0 s (snd (note_surface_content_published mid s))"
proof -
  define t where "t = snd (next_validity_seq s)"
  have t: "st_mappings t = st_mappings s" by (simp add: t_def next_validity_seq_def Let_def)
  then have okt: "registry_ok t" using ok by (simp add: registry_ok_def)
  have stay: "evolves 0 s t" by (rule evolves_from [OF evolves_refl [OF ok] refl t [symmetric]])
  have put: "evolves 0 s (put_mapping mid m' t)" if "mapping s mid = Some m" "same_pages m m'" for m m'
    by (rule evolves_from [OF evolves_put_same [OF okt] t refl]) (simp add: t that entry_or_default_def)
  obtain seq where n: "next_validity_seq s = (seq, t)" by (cases "next_validity_seq s") (simp add: t_def)
  show "evolves 0 s (snd (mark_mapping_written mid s))"
    using stay put by (auto simp: mark_mapping_written_def n t Let_def same_pages_def split: option.split)
  show "evolves 0 s (snd (note_surface_content_published mid s))"
    using stay put by (auto simp: note_surface_content_published_def n t Let_def same_pages_def split: option.split)
qed

section \<open>Adoption of a type-4 surface\<close>

lemma adopt_type4_entry:
  "\<exists>m'. st_mappings (adopt_type4 tid mid surf entries desc m s) = st_mappings (put_mapping mid m' s)
    \<and> me_page_entries m' = entries \<and> me_condemned_entries m' = None
    \<and> me_map_generation m' = (if names_of m = entries then me_map_generation m else next_gen (me_map_generation m))
    \<and> me_type4_walk m' = Some \<lparr>t4_task_id = tid, t4_backing_pfn = t4s_backing_pfn surf,
                               t4_map_generation = me_map_generation m'\<rparr>"
proof -
  define m1 where "m1 = (if names_of m \<noteq> entries then bump_map_generation (m\<lparr>me_condemned_entries := None\<rparr>)
      else m\<lparr>me_condemned_entries := None\<rparr>)"
  define m2 where "m2 = m1\<lparr>me_page_entries := entries, me_mapped := True, me_page_table_kva := 0, me_device_desc := desc,
      me_type4_walk := Some \<lparr>t4_task_id = tid, t4_backing_pfn = t4s_backing_pfn surf,
                              t4_map_generation = me_map_generation m1\<rparr>\<rparr>"
  define m3 where "m3 = (if me_contig_ptr m2 \<noteq> 0 then m2\<lparr>me_contig_ptr := 0, me_contig_len := 0\<rparr> else m2)"
  have "st_mappings (adopt_type4 tid mid surf entries desc m s) = st_mappings (put_mapping mid m3 s)"
    unfolding adopt_type4_def Let_def names_of_def [symmetric] m1_def [symmetric] m2_def [symmetric]
    by (simp add: m3_def put_mapping_def)
  moreover have "me_page_entries m3 = entries" "me_condemned_entries m3 = None"
    "me_map_generation m3 = (if names_of m = entries then me_map_generation m else next_gen (me_map_generation m))"
    "me_type4_walk m3 = Some \<lparr>t4_task_id = tid, t4_backing_pfn = t4s_backing_pfn surf,
                               t4_map_generation = me_map_generation m3\<rparr>"
    by (simp_all add: m3_def m2_def m1_def bump_map_generation_eq)
  ultimately show ?thesis by blast
qed

lemma evolves_adopt_type4:
  assumes ok: "registry_ok s" and m: "mapping s mid = Some m"
  shows "evolves 1 s (adopt_type4 tid mid surf entries desc m s)"
proof -
  from adopt_type4_entry [of tid mid surf entries desc m s] obtain m' where
    m': "st_mappings (adopt_type4 tid mid surf entries desc m s) = st_mappings (put_mapping mid m' s)"
      "me_page_entries m' = entries" "me_condemned_entries m' = None"
      "me_map_generation m' = (if names_of m = entries then me_map_generation m else next_gen (me_map_generation m))"
    by blast
  have "\<exists>k\<le>1. bumped k m m'"
    using m'(2-4) by (cases "names_of m = entries")
      (auto simp: bumped_def names_of_def intro: exI [of _ 0] exI [of _ 1])
  then have "evolves 1 s (put_mapping mid m' s)"
    using m m'(3) by (intro evolves_put [OF ok]) (auto simp: entry_ok_def)
  from evolves_from [OF this refl m'(1) [symmetric]] show ?thesis .
qed

lemma evolves_apply_type4 [evolve_intros]:
  assumes ok: "registry_ok s" and run: "apply_type4_backing h tid mid surf s = Ok (r, s')"
  shows "evolves 1 s s'"
proof -
  have stay: "evolves 1 s s" by (rule evolves_mono [OF evolves_refl [OF ok]]) simp
  obtain b t where t: "map_surface mid s = (b, t)" by (cases "map_surface mid s")
  have 1: "evolves 0 s t" using evolves_map_surface [OF ok, of mid] t by simp
  have adopt: "evolves 1 s (snd (set_mapping_geom mid w ht f u))" "evolves 1 s u"
    if "u = (case mapping t mid of None \<Rightarrow> t | Some m \<Rightarrow> adopt_type4 tid mid surf entries desc m t)"
    for entries desc u w ht f
  proof -
    have "evolves 1 t u"
      using that evolves_mono [OF evolves_refl [OF evolves_ok [OF 1]], of 1] evolves_adopt_type4 [OF evolves_ok [OF 1]]
      by (simp split: option.splits)
    from evolves_trans [OF 1 this] show u: "evolves 1 s u" by simp
    have "evolves 0 u (snd (set_mapping_geom mid w ht f u))" by (rule evolves_set_geom [OF evolves_ok [OF u]])
    from evolves_trans [OF u this] show "evolves 1 s (snd (set_mapping_geom mid w ht f u))" by simp
  qed
  show ?thesis
    using run stay adopt evolves_mono [OF 1, of 1]
    by (auto simp: apply_type4_backing_def t Let_def outcome_simps split: if_splits sum.splits bool.splits)
qed

lemma evolves_delete [evolve_intros]:
  assumes ok: "registry_ok s"
  shows "evolves 1 s (fst (delete_iosurface_backing2 mid (s, h)))"
proof -
  obtain b t where c: "condemn_surface_backing mid s = (b, t)" by (cases "condemn_surface_backing mid s")
  have 0: "evolves 0 s t" using evolves_condemn [OF ok, of mid] c by simp
  have 1: "evolves 1 s (snd (unmap_surface mid s))" by (rule evolves_unmap_surface [OF ok])
  have "evolves 1 t (snd (unmap_surface mid t))" by (rule evolves_unmap_surface [OF evolves_ok [OF 0]])
  from evolves_trans [OF 0 this] have 2: "evolves 1 s (snd (unmap_surface mid t))" by simp
  define u where "u = (if mapping_backing_condemned s mid then snd (unmap_surface mid s)
            else case condemn_surface_backing mid s of (True, s) \<Rightarrow> s | (False, s) \<Rightarrow> snd (unmap_surface mid s))"
  have u: "evolves 1 s u"
    using 1 2 evolves_mono [OF 0, of 1] by (simp add: u_def c split: bool.split)
  have "evolves 0 u (fst (flush_retired_views (u, h)))" by (rule evolves_flush [OF evolves_ok [OF u]])
  from evolves_trans [OF u this] show ?thesis
    unfolding delete_iosurface_backing2_def prod.case u_def [symmetric] by simp
qed

end
