(* ===== verification/SurfaceRuns.thy ===== *)
theory SurfaceRuns
  imports SurfaceEvolution SpanBytes
begin

text \<open>
  Runs of the registry against a host whose memory and answers may change between any two operations,
  and what a generation carried across a run still proves.
\<close>

unbundle bit_operations_syntax

section \<open>Steps\<close>

text \<open>What the operations outside the registry may change: everything but the mappings, the retired
  lists and the page size.\<close>

definition registry_untouched :: "surfaces \<Rightarrow> surfaces \<Rightarrow> bool" where
  "registry_untouched s s' \<longleftrightarrow> st_mappings s' = st_mappings s \<and> st_page_shift s' = st_page_shift s
     \<and> st_retired_views s' = st_retired_views s
     \<and> st_retired_guest_write_tokens s' = st_retired_guest_write_tokens s
     \<and> st_gva_host_views s' = st_gva_host_views s"

inductive surface_step :: "surfaces \<times> host \<Rightarrow> surfaces \<times> host \<Rightarrow> bool" where
  guest: "h_calls h' = h_calls h \<Longrightarrow> surface_step (s, h) (s, h')"
| elsewhere: "registry_untouched s s' \<Longrightarrow> surface_step (s, h) (s', h)"
| map_step: "surface_step (s, h) (snd (map_surface mid s), h)"
| unmap_step: "surface_step (s, h) (snd (unmap_surface mid s), h)"
| attach_step: "surface_step (s, h) (snd (attach_mapping_internal mid internal s), h)"
| desc_step: "surface_step (s, h) (snd (set_mapping_device_desc mid d s), h)"
| geom_step: "surface_step (s, h) (snd (set_mapping_geom mid width height format s), h)"
| invalidate_step: "surface_step (s, h) (snd (invalidate_mapping_pages mid s), h)"
| condemn_step: "surface_step (s, h) (snd (condemn_surface_backing mid s), h)"
| delete_step: "surface_step (s, h) (delete_iosurface_backing2 mid (s, h))"
| resolve_step: "surface_step (s, h) (snd (resolve_mapping_backing h mid s), h)"
| ensure_resolved_step: "surface_step (s, h) (snd (ensure_resolved_for_scanout h mid s), h)"
| revalidate_step: "surface_step (s, h) (snd (revalidate_mapping_pages h mid s), h)"
| vouch_step: "surface_step (s, h) (snd (vouch_mapping_pages_verdict h mid s), h)"
| type4_step: "apply_type4_backing h tid mid surf s = Ok (r, s') \<Longrightarrow> surface_step (s, h) (s', h)"
| flush_step: "surface_step (s, h) (flush_retired_views (s, h))"
| token_step: "surface_step (s, h) (snd (ensure_guest_write_token mid (s, h)))"
| stamp_step: "surface_step (s, h) (stamp_guest_write_gen mid (s, h))"
| view_step: "surface_step (s, h) (snd (ensure_contig_view mid (s, h)))"
| written_step: "surface_step (s, h) (snd (mark_mapping_written mid s), h)"
| published_step: "surface_step (s, h) (snd (note_surface_content_published mid s), h)"

lemma step_evolves:
  assumes "surface_step a b" and ok: "registry_ok (fst a)"
  shows "evolves 8 (fst a) (fst b)"
  using assms
proof cases
  case elsewhere
  then show ?thesis
    using evolves_mono [OF evolves_from [OF evolves_refl [OF ok] refl], of "fst b" 8]
    by (simp add: registry_untouched_def)
next
  case type4_step
  then show ?thesis using ok by (auto intro: evolves_mono [OF evolves_apply_type4])
qed (use ok in \<open>auto intro: evolve_intros [THEN evolves_mono] evolves_refl [THEN evolves_mono]\<close>)

lemma run_evolves:
  assumes "(surface_step ^^ n) a b" and "registry_ok (fst a)"
  shows "evolves (8 * n) (fst a) (fst b)"
  using assms(1)
proof (induction n arbitrary: b)
  case 0
  then show ?case using evolves_refl [OF assms(2)] by simp
next
  case (Suc n)
  from Suc.prems obtain c where c: "(surface_step ^^ n) a c" "surface_step c b" by (rule relpowp_Suc_E)
  have 1: "evolves (8 * n) (fst a) (fst c)" by (rule Suc.IH [OF c(1)])
  have "evolves 8 (fst c) (fst b)" by (rule step_evolves [OF c(2) evolves_ok [OF 1]])
  from evolves_trans [OF 1 this] show ?case by (simp add: add.commute)
qed

section \<open>Generations do not come back before they wrap\<close>

lemma unat_next_gen: "unat (next_gen g) = (if unat g = 4294967295 then 1 else Suc (unat g))"
proof -
  have lt: "unat g < 4294967296" using unat_lt2p [of g] by simp
  have u: "unat (g + 1) = (unat g + 1) mod 4294967296" by (simp add: unat_word_ariths)
  show ?thesis
  proof (cases "unat g = 4294967295")
    case True
    with u have "g + 1 = 0" by (simp add: unat_eq_0 [symmetric])
    with True show ?thesis by (simp add: next_gen_def)
  next
    case False
    with lt have "unat g + 1 < 4294967296" by simp
    with u have v: "unat (g + 1) = Suc (unat g)" by simp
    then have "g + 1 \<noteq> 0" by auto
    with False v show ?thesis by (simp add: next_gen_def)
  qed
qed

lemma unat_next_gens:
  assumes "g \<noteq> 0"
  shows "unat ((next_gen ^^ k) g) = (unat g - 1 + k) mod 4294967295 + 1"
proof (induction k)
  case 0
  have "unat g < 4294967296" using unat_lt2p [of g] by simp
  moreover have "unat g \<noteq> 0" using assms by (simp add: unat_eq_0)
  ultimately show ?case by simp
next
  case (Suc k)
  let ?x = "unat g - 1 + k"
  have "?x mod 4294967295 < 4294967295" by simp
  then show ?case
    by (simp add: unat_next_gen Suc mod_Suc)
qed

lemma next_gens_return:
  assumes "(next_gen ^^ k) g = g" "k < 4294967295"
  shows "k = 0"
proof (cases "g = 0")
  case True
  show ?thesis
  proof (rule ccontr)
    assume "k \<noteq> 0"
    then obtain j where j: "k = Suc j" by (cases k) auto
    have one: "next_gen 0 = 1" by (simp add: next_gen_def)
    have "(next_gen ^^ k) 0 = (next_gen ^^ j) 1" by (simp add: j funpow_Suc_right one del: funpow.simps)
    then have "unat ((next_gen ^^ k) 0) \<noteq> 0" using unat_next_gens [of 1 j] by simp
    with assms(1) True show False by simp
  qed
next
  case False
  have lt: "unat g < 4294967296" using unat_lt2p [of g] by simp
  have "unat g \<noteq> 0" using False by (simp add: unat_eq_0)
  then obtain x where x: "unat g = Suc x" by (cases "unat g") auto
  from unat_next_gens [OF False, of k] assms(1) x have m: "(x + k) mod 4294967295 = x" by simp
  have "x < 4294967295" using lt x by simp
  show ?thesis
  proof (cases "x + k < 4294967295")
    case True
    with m show ?thesis by simp
  next
    case False
    with assms(2) \<open>x < 4294967295\<close> have "(x + k) mod 4294967295 = x + k - 4294967295"
      by (simp add: le_mod_geq)
    with m False assms(2) show ?thesis by linarith
  qed
qed

section \<open>What a generation proves\<close>

lemma generation_kept:
  assumes run: "(surface_step ^^ n) a b" and ok: "registry_ok (fst a)" and short: "8 * n < 2 ^ 32 - 1"
    and e: "mapping (fst a) mid = Some e" and e': "mapping (fst b) mid = Some e'"
    and gen: "me_map_generation e' = me_map_generation e"
  shows "names_of e' = names_of e" "entry_ok e'"
proof -
  have ev: "evolves (8 * n) (fst a) (fst b)" by (rule run_evolves [OF run ok])
  from evolves_get [OF ev e] e' obtain k where k: "k \<le> 8 * n" "bumped k e e'" by auto
  with gen have "(next_gen ^^ k) (me_map_generation e) = me_map_generation e" by (simp add: bumped_def)
  moreover have "k < 4294967295" using k(1) short by simp
  ultimately have "k = 0" by (rule next_gens_return)
  with k(2) show "names_of e' = names_of e" by (simp add: bumped_def)
  show "entry_ok e'" by (rule registry_entry [OF evolves_ok [OF ev] e'])
qed

lemma names_of_pages: "entry_ok e \<Longrightarrow> me_page_entries e \<noteq> [] \<Longrightarrow> names_of e = me_page_entries e"
  by (auto simp: entry_ok_def names_of_def)

text \<open>
  C3: The generation of a mapping names its page list. Whatever the registry, the guest and the host do in
  between, a mapping that is found again at the generation it had, and holds pages, holds the very pages it
  had (or had condemned): unless so many operations passed that a 32-bit counter could have wrapped.
\<close>

theorem generation_names_the_pages:
  assumes "registry_ok s" and "(surface_step ^^ n) (s, h) (s', h')" and "8 * n < 2 ^ 32 - 1"
    and "mapping s mid = Some e" and "mapping s' mid = Some e'"
    and "me_map_generation e' = me_map_generation e" and "me_page_entries e' \<noteq> []"
  shows "me_page_entries e' = (case me_condemned_entries e of Some l \<Rightarrow> l | None \<Rightarrow> me_page_entries e)"
  using generation_kept [OF assms(2) _ assms(3), of mid e e'] assms(1,4-7) names_of_pages [of e']
  by (simp add: names_of_def split: option.splits)

definition blank_surfaces :: "u32 \<Rightarrow> surfaces" where
  "blank_surfaces shift = \<lparr>st_page_shift = shift, st_gfx_root_page = 0, st_gfx_fifo_base_page = 0,
     st_gfx_fifo_length = 0, st_iosfc_ring_base = 0, st_child_rings = [], st_tasks = [],
     st_max_mapping_id_seen = 0, st_mappings = [], st_host_surfaces = [], st_gva_touch_seq = 0,
     st_validity_seq = 0, st_sampled_content_gen = 0, st_host_writes = hw_default,
     st_surface_write_kind = [], st_mapper_device_kva = 0,
     st_present = \<lparr>pr_dense_frame_seq = [], pr_presented_dense_seq = [], pr_dense_frame_counter = 0,
                   pr_present_epoch = 0\<rparr>,
     st_retired_views = [], st_retired_guest_write_tokens = [], st_gva_host_views = []\<rparr>"

definition one_surface :: surfaces where
  "one_surface = (blank_surfaces 12)\<lparr>st_mappings :=
     [(7, mapping_default\<lparr>me_mapped := True, me_map_generation := 3, me_page_entries := [5, 9]\<rparr>)]\<rparr>"

lemma one_surface_ok: "registry_ok one_surface"
  by (auto simp: registry_ok_def one_surface_def bt_ok_def entry_ok_def mapping_default_def)

theorem generation_names_the_pages_witness:
  fixes h :: host
  shows "(case mapping (snd (set_mapping_geom 7 64 32 80 one_surface)) 7 of
            None \<Rightarrow> [] | Some e \<Rightarrow> me_page_entries e) = [5, 9]"
proof -
  let ?s = "snd (set_mapping_geom 7 64 32 80 one_surface)"
  have run: "(surface_step ^^ 1) (one_surface, h) (?s, h)"
    unfolding relpowp_1 by (rule geom_step)
  obtain e e' where e: "mapping one_surface 7 = Some e" "me_page_entries e = [5, 9]" "me_condemned_entries e = None"
    and e': "mapping ?s 7 = Some e'" "me_map_generation e' = me_map_generation e" "me_page_entries e' \<noteq> []"
    by (simp add: one_surface_def set_mapping_geom_def is_mapping_id_def extent_fault_def MAX_SCANOUT_DIM_def
          Let_def entry_or_default_def put_mapping_def mapping_default_def)
  show ?thesis
    using generation_names_the_pages [OF one_surface_ok run _ e(1) e'] e(2,3) e'(1) by simp
qed

section \<open>A vouched page list\<close>

text \<open>What the type-4 walk found: entry \<open>i\<close> is the page frame of page \<open>backing_pfn + i\<close> of the task.\<close>

definition walk_names :: "reader \<Rightarrow> (u32 \<times> task) list \<Rightarrow> type4_walk \<Rightarrow> u32 \<Rightarrow> u32 list \<Rightarrow> bool" where
  "walk_names mem tasks t4 shift entries \<longleftrightarrow>
     (\<exists>g t. geometry_for_page_shift shift = Some g \<and> map_of tasks (t4_task_id t4) = Some t \<and> active t
        \<and> (\<forall>i<length entries. \<exists>a.
             byte_gpa mem g \<lparr>active = True, directory_pfn = directory_pfn t\<rparr>
               (of_nat (unat (t4_backing_pfn t4) + i) * page_size g) = Inr a
             \<and> entry_gpa_shift (entries ! i) shift = Some (a AND NOT (page_offset_mask g))))"

lemma witness_fold:
  assumes "visit_list (\<lambda>v _ r. witness_visit entries shift v (case r of Inr gpa \<Rightarrow> Some gpa | Inl _ \<Rightarrow> None))
      (map (\<lambda>k. (of_nat k, ans k)) [j..<n]) (j, None) = (length entries, None)"
    and "j \<le> k" "k < length entries"
  shows "k < n \<and> (\<exists>a. ans k = Inr a \<and> entry_gpa_shift (entries ! k) shift = Some a)"
  using assms(1,2)
proof (induction "n - j" arbitrary: j)
  case 0
  then show ?case using assms(3) by simp
next
  case (Suc x)
  then have j: "j < n" by simp
  have here: "j < length entries" using Suc.prems(2) assms(3) by simp
  from j have "[j..<n] = j # [Suc j..<n]" by (simp add: upt_conv_Cons)
  with Suc.prems(1) here obtain a where a: "ans j = Inr a" "entry_gpa_shift (entries ! j) shift = Some a"
    and rest: "visit_list (\<lambda>v _ r. witness_visit entries shift v (case r of Inr gpa \<Rightarrow> Some gpa | Inl _ \<Rightarrow> None))
      (map (\<lambda>k. (of_nat k, ans k)) [Suc j..<n]) (Suc j, None) = (length entries, None)"
    by (auto simp: witness_visit_def split: sum.splits if_splits)
  show ?case
  proof (cases "j = k")
    case True
    with a j show ?thesis by auto
  next
    case False
    with Suc.hyps(1) [OF _ rest] Suc.hyps(2) Suc.prems(2) show ?thesis by simp
  qed
qed

text \<open>An invariant of the visitor holds after the walk.\<close>

lemma walk_span_invariant:
  assumes step: "\<And>v i r. P v \<Longrightarrow> P (fst (visit v i r))" and v: "P v"
    and run: "walk_span mem g t gva span visit v = Inr v'"
  shows "P v'"
proof -
  have pages: "P v \<Longrightarrow> P (run_pages mem g root depth a (\<lambda>v i w. visit v i (f w)) n i st v)" for root depth a f n i st v
  proof (induction n arbitrary: i st v)
    case (Suc n)
    then show ?case using step by (auto split: prod.split) (metis fst_conv)+
  qed simp
  have "P (translate_root_run mem g root depth a n (\<lambda>v i r. visit v i (f r)) v)" for root depth a n f
    using v step pages by (simp add: translate_root_run_def walk_run_def split: sum.split)
  then show ?thesis
    using run v by (auto simp: walk_span_def Let_def split: sum.splits if_splits)
qed

lemma visit_invariant:
  assumes step: "\<And>v w. P v \<Longrightarrow> P (fst (visit v w))" and v: "P v"
  shows "P (visit_task_gva_pages_in_order mem tasks tid gva span shift visit v)"
proof -
  have "walk_span mem g t gva span (\<lambda>v _ r. visit v (case r of Inr gpa \<Rightarrow> Some gpa | Inl _ \<Rightarrow> None)) v = Inr v' \<Longrightarrow> P v'"
    for g t v'
    by (rule walk_span_invariant [where P = P]) (use step v in auto)
  then show ?thesis
    using v by (simp add: visit_task_gva_pages_in_order_def split: option.split sum.split)
qed

lemma witness_never_verifies:
  "snd (visit_task_gva_pages_in_order mem tasks tid gva span shift (witness_visit es shift') (0, None)) \<noteq> Some Verified"
  by (rule visit_invariant [where P = "\<lambda>v. snd v \<noteq> Some Verified"])
     (auto simp: witness_visit_def split: option.splits if_splits)

lemma verified_walk:
  assumes mem: "guest_memory (h_read_gpa h)" and ver: "type4_pages_witness s h mid = Verified"
    and m: "mapping s mid = Some m" and small: "length (me_page_entries m) \<le> 2 ^ 48"
  shows "\<exists>t4. me_type4_walk m = Some t4 \<and> t4_map_generation t4 = me_map_generation m
     \<and> walk_names (h_read_gpa h) (st_tasks s) t4 (st_page_shift s) (me_page_entries m)"
proof -
  let ?es = "me_page_entries m" and ?sh = "st_page_shift s" and ?mem = "h_read_gpa h"
  from ver m obtain t4 where t4: "me_type4_walk m = Some t4" "t4_map_generation t4 = me_map_generation m"
    "?es \<noteq> []"
    by (auto simp: type4_pages_witness_def split: option.splits if_splits)
  let ?base = "shl64 (ucast (t4_backing_pfn t4)) ?sh"
  let ?span = "saturating_mul (of_nat (length ?es)) (page_size_of ?sh)"
  let ?vis = "witness_visit ?es ?sh"
  have v: "visit_task_gva_pages_in_order ?mem (st_tasks s) (t4_task_id t4) ?base ?span ?sh ?vis (0, None)
      = (length ?es, None)"
    using ver m t4 witness_never_verifies [of ?mem "st_tasks s" "t4_task_id t4" ?base ?span ?sh ?es ?sh]
    by (auto simp: type4_pages_witness_def Let_def split: if_splits prod.splits option.splits)
  with t4(3) obtain g t where g: "geometry_for_page_shift ?sh = Some g" and t: "map_of (st_tasks s) (t4_task_id t4) = Some t"
    "active t" "directory_pfn t \<noteq> 0"
    by (auto simp: visit_task_gva_pages_in_order_def split: option.splits if_splits)
  let ?t = "\<lparr>active = True, directory_pfn = directory_pfn t\<rparr>"
  have shift: "page_shift g = ?sh" "?sh = 12 \<or> ?sh = 14" and val: "validate g = Inr ()"
    using g by (auto simp: geometry_for_page_shift_def X86_64_def ARM64E_def validate_def split: if_splits)
  define S where "S = (2 :: nat) ^ shift_of g"
  have S: "S = 2 ^ 12 \<or> S = 2 ^ 14" using shift by (auto simp: S_def)
  have pfn: "unat (ucast (t4_backing_pfn t4) :: u64) = unat (t4_backing_pfn t4)" "unat (t4_backing_pfn t4) < 2 ^ 32"
    using unat_lt2p [of "t4_backing_pfn t4"] by (simp_all add: unsigned_ucast_eq take_bit_nat_eq_self)
  have "unat (t4_backing_pfn t4) * S < 2 ^ 46" using pfn(2) S by auto
  then have base: "unat ?base = unat (t4_backing_pfn t4) * S"
    using unat_shl_page [OF val, of "ucast (t4_backing_pfn t4)"] by (simp add: pfn S_def shift)
  have psz: "page_size_of ?sh = page_size g" by (simp add: page_size_of_def page_size_def shift)
  have len: "unat (of_nat (length ?es) :: u64) = length ?es"
    using small by (intro unat_of_nat_small) simp
  have "length ?es * S \<le> 2 ^ 48 * S" using small by simp
  then have span': "length ?es * S \<le> 2 ^ 62" using S by auto
  have "unat (of_nat (length ?es) :: u64) * unat (page_size g) < 2 ^ LENGTH(64)"
    using span' by (simp add: len unat_page_size [OF val] S_def)
  then have span: "unat ?span = length ?es * S"
    by (simp only: saturating_mul_def psz if_True unat_mult_no_wrap len unat_page_size [OF val] S_def)
  have bound: "unat ?base + unat ?span < 2 ^ 64"
    using span' base span \<open>unat (t4_backing_pfn t4) * S < 2 ^ 46\<close> by simp
  have n: "0 < unat ?span" using span t4(3) S by auto
  let ?w = "\<lambda>v _ r. ?vis v (case r of Inr gpa \<Rightarrow> Some gpa | Inl _ \<Rightarrow> None)"
  have walk: "walk_span ?mem g ?t ?base ?span ?w (0, None) = Inr (length ?es, None)"
    using v t4(3) g t by (auto simp: visit_task_gva_pages_in_order_def split: sum.splits)
  then obtain root where root: "span_setup ?mem g ?t = Inr root"
    by (cases "span_setup ?mem g ?t") (simp_all add: walk_span_setup_fails)
  have nz: "pages_spanned ?base ?span (page_size g) \<noteq> 0"
    using span_page_count [OF val n bound] by auto
  have deep: "tr_depth root \<le> MAX_DEPTH"
  proof (rule ccontr)
    assume "\<not> tr_depth root \<le> MAX_DEPTH"
    then have "walk_span ?mem g ?t ?base ?span ?w (0, None) = Inr (0, Some Drifted)"
      using span_setup_Inr [OF root] n t4(3)
      by (auto simp: walk_span_def Let_def too_deep_run [OF val _ _ nz] witness_visit_def)
    with walk show False by simp
  qed
  let ?n = "unat (pages_spanned ?base ?span (page_size g))"
  have fold: "visit_list ?w (map (\<lambda>k. (of_nat k, page_answer ?mem g root ?base k)) [0..<?n]) (0, None) = (length ?es, None)"
    using walk walk_span_fold [OF mem root deep n bound, of ?w "(0, None)"] by simp
  have q: "unat ?base div 2 ^ shift_of g = unat (t4_backing_pfn t4)"
    using S by (auto simp: base S_def [symmetric])
  have "\<exists>a. byte_gpa ?mem g ?t (of_nat (unat (t4_backing_pfn t4) + i) * page_size g) = Inr a
      \<and> entry_gpa_shift (?es ! i) ?sh = Some (a AND NOT (page_offset_mask g))" if i: "i < length ?es" for i
  proof -
    from witness_fold [OF fold _ i] obtain a where a: "i < ?n" "page_answer ?mem g root ?base i = Inr a"
      "entry_gpa_shift (?es ! i) ?sh = Some a" by auto
    have "unat ?base div 2 ^ shift_of g + i \<le> (unat ?base + unat ?span - 1) div 2 ^ shift_of g"
      using a(1) span_page_count [OF val n bound] div_le_mono [of "unat ?base" "unat ?base + unat ?span - 1" "2 ^ shift_of g"] n
      by linarith
    from page_answer_byte [OF root bound n this] a(2,3) show ?thesis
      unfolding q by (cases "byte_gpa ?mem g ?t (of_nat (unat (t4_backing_pfn t4) + i) * page_size g)") auto
  qed
  with t4 g t show ?thesis unfolding walk_names_def by blast
qed

text \<open>
  C5: A vouched page list stays the one that was walked. When the licence check answers that a mapping's
  pages are its own, every entry is the page frame the owning task's page table gives for it; and any later
  operation that presents the proof, finds it still covering the mapping and finds pages there, finds
  exactly those entries, whatever happened in between short of a counter's wrap.
\<close>

theorem vouched_pages_are_the_walked_ones:
  assumes "registry_ok s" and "guest_memory (h_read_gpa h)"
    and "mapping s mid = Some m" and "length (me_page_entries m) \<le> 2 ^ 48"
    and "vouch_mapping_pages_verdict h mid s = ((Ours, Some proof_of), s0)"
    and "(surface_step ^^ n) (s0, h) (s', h')" and "8 * n < 2 ^ 32 - 1"
    and "vouch_covers proof_of s' mid" and "mapping s' mid = Some m'" and "me_page_entries m' \<noteq> []"
  shows "me_page_entries m' = me_page_entries m
    \<and> (\<exists>t4. me_type4_walk m = Some t4
          \<and> walk_names (h_read_gpa h) (st_tasks s) t4 (st_page_shift s) (me_page_entries m'))"
proof -
  have ver: "type4_pages_witness s h mid = Verified" and s0: "s0 = s"
    and pv: "proof_of = \<lparr>pv_mapping_id = mid, pv_map_generation = me_map_generation m\<rparr>"
    using assms(3,5)
    by (auto simp: vouch_mapping_pages_verdict_def mapping_pages_verdict_def split: type4_witness.splits)
  have gen: "me_map_generation m' = me_map_generation m"
    using assms(8,9) by (simp add: vouch_covers_def pv)
  from verified_walk [OF assms(2) ver assms(3,4)] obtain t4 where t4: "me_type4_walk m = Some t4"
    "walk_names (h_read_gpa h) (st_tasks s) t4 (st_page_shift s) (me_page_entries m)" by blast
  have "me_page_entries m \<noteq> []"
    using ver assms(3) by (auto simp: type4_pages_witness_def split: option.splits if_splits)
  moreover have "entry_ok m" by (rule registry_entry [OF assms(1,3)])
  ultimately have "me_page_entries m' = me_page_entries m"
    using generation_kept [OF assms(6) _ assms(7), of mid m m'] assms(1,3,9,10) gen s0 names_of_pages [of m]
      names_of_pages [of m'] by simp
  with t4 show ?thesis by auto
qed

text \<open>A guest with one page table: the directory in page 1, its only entry in page 2, frame 5 behind it.\<close>

definition table_image :: "u8 list" where
  "table_image = replicate 4096 0 @ [2, 0, 0, 0, 1, 0, 0, 0] @ replicate 4088 0 @ [5, 0, 0, 0]"

definition image_host :: "u8 list \<Rightarrow> host" where
  "image_host bytes = \<lparr>h_read_kva = slice_read_at [], h_read_gpa = slice_read_at bytes,
     h_is_ram_gpa = (\<lambda>_. True), h_read_xreg = (\<lambda>_. None), h_map_pages = (\<lambda>_ _ _. None),
     h_track_guest_writes = (\<lambda>_ _ _. None), h_guest_write_gen = (\<lambda>_ _. None), h_calls = []\<rparr>"

definition walked_surface :: surfaces where
  "walked_surface = (blank_surfaces 12)
     \<lparr>st_tasks := [(9, \<lparr>active = True, directory_pfn = 1\<rparr>)],
      st_mappings := [(7, mapping_default\<lparr>me_mapped := True, me_map_generation := 3, me_page_entries := [21],
        me_type4_walk := Some \<lparr>t4_task_id = 9, t4_backing_pfn = 0, t4_map_generation = 3\<rparr>\<rparr>)]\<rparr>"

lemma walked_surface_ok: "registry_ok walked_surface"
  by (auto simp: registry_ok_def walked_surface_def bt_ok_def entry_ok_def mapping_default_def)

lemma table_image_words:
  "u32_at (slice_read_at table_image) 4096 = Some 2" "u32_at (slice_read_at table_image) 4100 = Some 1"
  "u32_at (slice_read_at table_image) 8192 = Some 5" "slice_read_at table_image 8192 256 = None"
  by (simp_all add: u32_at_def slice_read_at_def table_image_def le_word_def)

lemma table_image_page:
  "fst (run_page (slice_read_at table_image) X86_64 2 1 0 0 run_state_init)
     = Inr \<lparr>leaf_pfn = 5, addr_page = 0x5000, addr = 0x5000, page_index = 0, raw_pte = 5\<rparr>"
  by (simp add: run_page_def run_gva_def X86_64_def shr64_def shl64_def entry_index_at_def entry_addr_of_def
      refill_def run_state_init_def leaf_word_def table_image_words entry_verdict_def pfn_to_addr_def Let_def
      LEAF_BATCH_def PTE_SIZE_def entries_per_table_def index_bits_def PTE_PFN_MASK_def index_mask_def
      page_offset_mask_def page_size_def)

lemma walked_surface_verified: "type4_pages_witness walked_surface (image_host table_image) 7 = Verified"
proof -
  have x86: "validate X86_64 = Inr ()" "page_size X86_64 = 0x1000" "page_offset_mask X86_64 = 0xfff"
    "page_shift X86_64 = 12"
    by (simp_all add: X86_64_def validate_def page_size_def page_offset_mask_def shl64_def)
  have root: "read_task_root (slice_read_at table_image) \<lparr>active = True, directory_pfn = 1\<rparr> X86_64
      = Inr \<lparr>tr_directory_pfn = 1, tr_root_pfn = 2, tr_depth = 1\<rparr>"
    by (simp add: read_task_root_def read_directory_def X86_64_def validate_def pfn_to_addr_def shl64_def
        table_image_words DIRECTORY_ROOT_PFN_def DIRECTORY_DEPTH_def)
  obtain st where page: "run_page (slice_read_at table_image) X86_64 2 1 0 0 run_state_init
      = (Inr \<lparr>leaf_pfn = 5, addr_page = 0x5000, addr = 0x5000, page_index = 0, raw_pte = 5\<rparr>, st)"
    using table_image_page by (metis prod.collapse)
  have run: "walk_span (slice_read_at table_image) X86_64 \<lparr>active = True, directory_pfn = 1\<rparr> 0 0x1000 vis v
      = Inr (fst (vis v 0 (Inr 0x5000)))" for vis :: "'v \<Rightarrow> u64 \<Rightarrow> resolve_status + u64 \<Rightarrow> 'v \<times> bool" and v
    by (simp add: walk_span_def root translate_root_run_def walk_run_def page as_resolved_def Let_def
        x86 pages_spanned_def div_ceil_def MAX_DEPTH_def split: prod.split)
  show ?thesis
    by (simp add: type4_pages_witness_def walked_surface_def blank_surfaces_def image_host_def task_active_def
        visit_task_gva_pages_in_order_def geometry_for_page_shift_def x86 run saturating_mul_def page_size_of_def
        shl64_def witness_visit_def entry_gpa_shift_def PAGE_ENTRY_VALID_def PAGE_ENTRY_PFN_SHIFT_def Let_def)
qed

theorem vouched_pages_are_the_walked_ones_witness:
  "\<exists>t4 m. mapping walked_surface 7 = Some m \<and> me_type4_walk m = Some t4
     \<and> walk_names (h_read_gpa (image_host table_image)) (st_tasks walked_surface) t4 12 [21]"
proof -
  let ?h = "image_host table_image" and ?s = "snd (set_mapping_geom 7 64 32 80 walked_surface)"
  let ?v = "\<lparr>pv_mapping_id = 7, pv_map_generation = 3\<rparr>"
  have run: "(surface_step ^^ 1) (walked_surface, ?h) (?s, ?h)" unfolding relpowp_1 by (rule geom_step)
  obtain m m' where m: "mapping walked_surface 7 = Some m" "me_page_entries m = [21]" "me_map_generation m = 3"
    and m': "mapping ?s 7 = Some m'" "me_page_entries m' = [21]" "me_map_generation m' = 3"
    by (simp add: walked_surface_def set_mapping_geom_def is_mapping_id_def extent_fault_def MAX_SCANOUT_DIM_def
          Let_def entry_or_default_def put_mapping_def mapping_default_def)
  have "vouch_mapping_pages_verdict ?h 7 walked_surface = ((Ours, Some ?v), walked_surface)"
    using m by (simp add: vouch_mapping_pages_verdict_def mapping_pages_verdict_def walked_surface_verified)
  moreover have "vouch_covers ?v ?s 7" using m' by (simp add: vouch_covers_def)
  moreover have "guest_memory (h_read_gpa ?h)" by (simp add: image_host_def slice_mem.guest_memory_axioms)
  ultimately show ?thesis
    using vouched_pages_are_the_walked_ones [OF walked_surface_ok _ m(1) _ _ run _ _ m'(1), of ?v] m m'
    by (auto simp: walked_surface_def blank_surfaces_def)
qed

end
