(* ===== verification/HostObjects.thy ===== *)
theory HostObjects
  imports SurfaceEvolution "HOL-Library.Multiset"
begin

text \<open>
  Who holds the host objects. Every view the host mapped and every guest-write token it handed out is in
  one place: on a mapping, on a retired list, or on the list of views of guest addresses. The multiset of
  what is held changes only by what the log of host calls says, and an operation that calls nothing
  leaves a mapping the objects it had or takes them away.
\<close>

section \<open>The objects held\<close>

datatype host_object = View u64 u64 | Token u64

definition token_objects :: "u64 \<Rightarrow> host_object multiset" where
  "token_objects t = (if t = 0 then {#} else {#Token t#})"

definition view_objects :: "u64 \<Rightarrow> u64 \<Rightarrow> host_object multiset" where
  "view_objects p len = (if p = 0 then {#} else {#View p len#})"

definition entry_objects :: "mapping_entry \<Rightarrow> host_object multiset" where
  "entry_objects e = view_objects (me_contig_ptr e) (me_contig_len e) + token_objects (me_guest_write_token e)"

definition retired_objects :: "surfaces \<Rightarrow> host_object multiset" where
  "retired_objects s = image_mset (\<lambda>v. View (fst v) (snd v)) (mset (st_retired_views s))
     + image_mset Token (mset (st_retired_guest_write_tokens s))"

definition gva_objects :: "gva_host_view list \<Rightarrow> host_object multiset" where
  "gva_objects gvs = mset (map (\<lambda>gv. View (gv_ptr gv) (gv_ptr_len gv))
     (filter (\<lambda>gv. gv_ptr gv \<noteq> 0 \<and> gv_ptr_len gv \<noteq> 0) gvs))"

definition mapped_objects :: "(u32 \<times> mapping_entry) list \<Rightarrow> host_object multiset" where
  "mapped_objects ms = (\<Sum>me\<leftarrow>ms. entry_objects (snd me))"

definition objects_held :: "surfaces \<Rightarrow> host_object multiset" where
  "objects_held s = mapped_objects (st_mappings s) + retired_objects s + gva_objects (st_gva_host_views s)"

text \<open>What one call of the log handed out, and what it gave back.\<close>

fun acquired_by :: "host_call \<Rightarrow> host_object multiset" where
  "acquired_by (MapPages gpas page_sz (Some p)) = view_objects p (of_nat (length gpas) * page_sz)"
| "acquired_by (TrackGuestWrites gpas page_sz (Some t)) = token_objects t"
| "acquired_by _ = {#}"

fun released_by :: "host_call \<Rightarrow> host_object multiset" where
  "released_by (UnmapPages p len) = {#View p len#}"
| "released_by (UntrackGuestWrites t) = {#Token t#}"
| "released_by _ = {#}"

definition acquired :: "host_call list \<Rightarrow> host_object multiset" where
  "acquired cs = (\<Sum>c\<leftarrow>cs. acquired_by c)"

definition released :: "host_call list \<Rightarrow> host_object multiset" where
  "released cs = (\<Sum>c\<leftarrow>cs. released_by c)"

lemma acquired_simps [simp]:
  "acquired [] = {#}" "acquired (c # cs) = acquired_by c + acquired cs"
  "acquired (as @ bs) = acquired as + acquired bs"
  by (simp_all add: acquired_def)

lemma released_simps [simp]:
  "released [] = {#}" "released (c # cs) = released_by c + released cs"
  "released (as @ bs) = released as + released bs"
  by (simp_all add: released_def)

section \<open>Operations that call nothing\<close>

text \<open>A view that stays is a view of the same pages; a condemned mapping has none to keep.\<close>

definition keeps_objects :: "mapping_entry \<Rightarrow> mapping_entry \<Rightarrow> bool" where
  "keeps_objects e e' \<longleftrightarrow>
     (me_contig_ptr e' = 0 \<or> me_contig_ptr e' = me_contig_ptr e \<and> me_contig_len e' = me_contig_len e
        \<and> (me_condemned_entries e \<noteq> None \<or> same_pages e e'))
   \<and> (me_guest_write_token e' = 0 \<or> me_guest_write_token e' = me_guest_write_token e
        \<and> me_guest_write_token_gen e' = me_guest_write_token_gen e)"

definition same_objects :: "mapping_entry \<Rightarrow> mapping_entry \<Rightarrow> bool" where
  "same_objects e e' \<longleftrightarrow>
     me_contig_ptr e' = me_contig_ptr e \<and> me_contig_len e' = me_contig_len e
   \<and> me_guest_write_token e' = me_guest_write_token e \<and> me_guest_write_token_gen e' = me_guest_write_token_gen e"

definition moves :: "surfaces \<Rightarrow> surfaces \<Rightarrow> bool" where
  "moves s s' \<longleftrightarrow> bt_ok (st_mappings s') \<and> st_page_shift s' = st_page_shift s \<and> objects_held s' = objects_held s
     \<and> (\<forall>mid. keeps_objects (entry_or_default s mid) (entry_or_default s' mid))"

text \<open>The parts of the registry the objects depend on.\<close>

definition object_parts where
  "object_parts s = (st_mappings s, st_page_shift s, st_retired_views s, st_retired_guest_write_tokens s,
     st_gva_host_views s)"

lemma keeps_refl: "keeps_objects e e"
  by (simp add: keeps_objects_def same_pages_def)

lemma keeps_trans: "keeps_objects a b \<Longrightarrow> keeps_objects b c \<Longrightarrow> keeps_objects a c"
  by (auto simp: keeps_objects_def same_pages_def)

lemma same_keeps: "same_objects e e' \<Longrightarrow> same_pages e e' \<Longrightarrow> keeps_objects e e'"
  by (simp add: same_objects_def keeps_objects_def)

lemma same_entry_objects: "same_objects e e' \<Longrightarrow> entry_objects e' = entry_objects e"
  by (simp add: same_objects_def entry_objects_def)

lemma registry_ok_sorted: "registry_ok s \<Longrightarrow> bt_ok (st_mappings s)"
  by (simp add: registry_ok_def)

lemma moves_refl: "bt_ok (st_mappings s) \<Longrightarrow> moves s s"
  by (simp add: moves_def keeps_refl)

lemma moves_sorted: "moves s s' \<Longrightarrow> bt_ok (st_mappings s')"
  by (simp add: moves_def)

lemma moves_trans: "moves a b \<Longrightarrow> moves b c \<Longrightarrow> moves a c"
  unfolding moves_def using keeps_trans by metis

lemma moves_frame:
  assumes "moves t t'" "object_parts t = object_parts s" "object_parts t' = object_parts s'"
  shows "moves s s'"
  using assms by (simp add: moves_def object_parts_def objects_held_def retired_objects_def entry_or_default_def)

lemma mapped_objects_insert:
  assumes "bt_ok ms"
  shows "mapped_objects (bt_insert k e ms) + (case map_of ms k of None \<Rightarrow> {#} | Some e0 \<Rightarrow> entry_objects e0)
    = mapped_objects ms + entry_objects e"
  using assms
proof (induction k e ms rule: bt_insert.induct)
  case (2 k e k' e' ms)
  have absent: "map_of ms k = None" if "k < k'"
    using 2(2) that by (force simp: bt_ok_def map_of_eq_None_iff)
  have "bt_ok ms" using 2(2) by (simp add: bt_ok_def)
  with 2(1) absent show ?case
    by (auto simp: mapped_objects_def ac_simps)
qed (simp add: mapped_objects_def)

lemma entry_objects_default: "entry_objects mapping_default = {#}"
  by (simp add: entry_objects_def mapping_default_def view_objects_def token_objects_def)

lemma mapped_objects_put:
  assumes "bt_ok (st_mappings s)"
  shows "mapped_objects (st_mappings (put_mapping mid e s)) + entry_objects (entry_or_default s mid)
    = mapped_objects (st_mappings s) + entry_objects e"
  using mapped_objects_insert [OF assms, of mid e]
  by (simp add: put_mapping_def entry_or_default_def entry_objects_default split: option.splits)

lemma held_put:
  assumes "bt_ok (st_mappings s)"
  shows "objects_held (put_mapping mid e s) + entry_objects (entry_or_default s mid) = objects_held s + entry_objects e"
  using mapped_objects_put [OF assms, of mid e]
  by (simp add: objects_held_def retired_objects_def ac_simps)

lemma put_entry_or_default:
  "bt_ok (st_mappings s) \<Longrightarrow>
     entry_or_default (put_mapping mid e s) x = (if x = mid then e else entry_or_default s x)"
  by (simp add: entry_or_default_def put_mapping_def bt_get_update)

lemma put_mapping_sorted: "bt_ok (st_mappings s) \<Longrightarrow> bt_ok (st_mappings (put_mapping mid e s))"
  by (simp add: put_mapping_def bt_insert_ok)

text \<open>A view added to the retired ones, or a token.\<close>

definition retire_view :: "u64 \<Rightarrow> u64 \<Rightarrow> surfaces \<Rightarrow> surfaces" where
  "retire_view p len s =
     (if p \<noteq> 0 then s\<lparr>st_retired_views := st_retired_views s @ [(p, len)]\<rparr> else s)"

definition retire_token :: "u64 \<Rightarrow> surfaces \<Rightarrow> surfaces" where
  "retire_token t s =
     (if t \<noteq> 0 then s\<lparr>st_retired_guest_write_tokens := st_retired_guest_write_tokens s @ [t]\<rparr> else s)"

lemma retire_parts [simp]:
  "st_mappings (retire_view p len s) = st_mappings s" "st_page_shift (retire_view p len s) = st_page_shift s"
  "st_mappings (retire_token t s) = st_mappings s" "st_page_shift (retire_token t s) = st_page_shift s"
  "objects_held (retire_view p len s) = objects_held s + view_objects p len" "objects_held (retire_token t s) = objects_held s + token_objects t"
  by (simp_all add: retire_view_def retire_token_def objects_held_def retired_objects_def view_objects_def token_objects_def)

text \<open>Objects that leave a mapping for the retired lists.\<close>

lemma moves_retired:
  assumes ok: "bt_ok (st_mappings s)" and e: "keeps_objects (entry_or_default s mid) e"
    and objects: "entry_objects (entry_or_default s mid) = entry_objects e + view_objects p len + token_objects t"
  shows "moves s (retire_token t (retire_view p len (put_mapping mid e s)))"
proof -
  let ?s = "retire_token t (retire_view p len (put_mapping mid e s))"
  have "st_mappings ?s = st_mappings (put_mapping mid e s)" by simp
  then have "entry_or_default ?s x = entry_or_default (put_mapping mid e s) x" for x
    by (simp add: entry_or_default_def)
  moreover have "objects_held ?s = objects_held s"
    using held_put [OF ok, of mid e] objects by (simp add: add.assoc [symmetric])
  ultimately show ?thesis
    using ok e by (simp add: moves_def put_mapping_sorted put_entry_or_default keeps_refl)
qed

lemma retire_host_objects_eq:
  "retire_host_objects mid e s =
     retire_token (me_guest_write_token e) (retire_view (me_contig_ptr e) (me_contig_len e)
       (put_mapping mid (snd (take_guest_write_token (snd (take_mapping_view e)))) s))"
  by (simp add: retire_host_objects_def take_mapping_view_def take_guest_write_token_def retire_token_def
      retire_view_def Let_def split: prod.split)

section \<open>The operations of the registry, once for all\<close>

text \<open>
  What every operation on a mapping that calls nothing does: it writes one mapping back, with the validity
  it had and with its objects, or with some of them moved to the retired lists. A relation between
  registries that holds across such a write, across changes elsewhere, and is transitive, holds across
  every operation.
\<close>

definition hands_over :: "mapping_entry \<Rightarrow> mapping_entry \<Rightarrow> u64 \<Rightarrow> u64 \<Rightarrow> u64 \<Rightarrow> bool" where
  "hands_over e0 e p len t \<longleftrightarrow> keeps_objects e0 e \<and> me_validity e = me_validity e0
     \<and> entry_objects e0 = entry_objects e + view_objects p len + token_objects t"

definition calm :: "mapping_entry \<Rightarrow> mapping_entry \<Rightarrow> bool" where
  "calm e e' \<longleftrightarrow> same_objects e e' \<and> me_validity e' = me_validity e"

definition still :: "mapping_entry \<Rightarrow> mapping_entry \<Rightarrow> bool" where
  "still e e' \<longleftrightarrow> calm e e' \<and> same_pages e e'"

definition registry_parts where
  "registry_parts s = (object_parts s, st_validity_seq s)"

named_theorems rel_intros \<open>relations across the operations of the registry\<close>

locale registry_relation =
  fixes rel :: "surfaces \<Rightarrow> surfaces \<Rightarrow> bool"
  assumes rel_elsewhere: "bt_ok (st_mappings s) \<Longrightarrow> registry_parts t = registry_parts s \<Longrightarrow> rel s t"
    and rel_sorted: "rel s t \<Longrightarrow> bt_ok (st_mappings t)"
    and rel_trans: "rel a b \<Longrightarrow> rel b c \<Longrightarrow> rel a c"
    and rel_hands_over: "bt_ok (st_mappings s) \<Longrightarrow> hands_over (entry_or_default s mid) e p len tk \<Longrightarrow>
          rel s (retire_token tk (retire_view p len (put_mapping mid e s)))"

lemma registry_parts_simps [simp]:
  "registry_parts (drop_host_surface mid s) = registry_parts s" "registry_parts (see_mapping_id mid s) = registry_parts s"
  "registry_parts (s\<lparr>st_present := p\<rparr>) = registry_parts s" "registry_parts (s\<lparr>st_mapper_device_kva := v\<rparr>) = registry_parts s"
  by (simp_all add: registry_parts_def object_parts_def drop_host_surface_def see_mapping_id_def)

lemma parts_mappings: "registry_parts t = registry_parts s \<Longrightarrow> st_mappings t = st_mappings s"
  by (simp add: registry_parts_def object_parts_def)

lemma calm_bump: "me_contig_ptr (bump_map_generation e) = me_contig_ptr e"
  "me_page_entries (bump_map_generation e) = me_page_entries e"
  "me_condemned_entries (bump_map_generation e) = me_condemned_entries e"
  "me_contig_len (bump_map_generation e) = me_contig_len e" "me_validity (bump_map_generation e) = me_validity e"
  "me_guest_write_token (bump_map_generation e) = me_guest_write_token e"
  "me_guest_write_token_gen (bump_map_generation e) = me_guest_write_token_gen e"
  by (simp_all add: bump_map_generation_eq)

lemmas calm_simps = still_def same_pages_def calm_def same_objects_def calm_bump

lemma entry_some: "mapping s mid = Some e \<Longrightarrow> entry_or_default s mid = e"
  by (simp add: entry_or_default_def)

context registry_relation begin

lemma rel_refl: "bt_ok (st_mappings s) \<Longrightarrow> rel s s"
  by (rule rel_elsewhere) simp_all

lemma rel_put: "bt_ok (st_mappings s) \<Longrightarrow> still (entry_or_default s mid) e \<Longrightarrow> rel s (put_mapping mid e s)"
  using rel_hands_over [of s mid e 0 0 0] same_entry_objects [of "entry_or_default s mid" e]
  by (simp add: still_def calm_def hands_over_def same_keeps view_objects_def token_objects_def
      retire_view_def retire_token_def)

lemma rel_retire: "bt_ok (st_mappings s) \<Longrightarrow> calm (entry_or_default s mid) e \<Longrightarrow> rel s (retire_host_objects mid e s)"
  unfolding retire_host_objects_eq
  by (rule rel_hands_over)
     (auto simp: hands_over_def calm_simps keeps_objects_def entry_objects_def take_guest_write_token_def
        take_mapping_view_def view_objects_def token_objects_def)

lemma rel_retire_dropped:
  assumes "bt_ok (st_mappings s)" "calm (entry_or_default s mid) e"
  shows "rel s (drop_host_surface mid (retire_host_objects mid e s))"
proof -
  have 1: "rel s (retire_host_objects mid e s)" by (rule rel_retire [OF assms])
  show ?thesis by (rule rel_trans [OF 1 rel_elsewhere [OF rel_sorted [OF 1]]]) simp
qed

lemma rel_invalidate [rel_intros]:
  assumes "bt_ok (st_mappings s)"
  shows "rel s (snd (invalidate_mapping_pages mid s))"
proof -
  let ?t = "drop_host_surface mid s"
  have stay: "rel s ?t" by (rule rel_elsewhere [OF assms]) simp
  have "rel s (retire_host_objects mid (bump_map_generation
      (e\<lparr>me_page_entries := [], me_page_table_kva := 0, me_condemned_entries := None\<rparr>)) ?t)"
    if "mapping s mid = Some e" for e
    using that assms by (intro rel_trans [OF stay] rel_retire) (simp_all add: entry_or_default_def calm_simps)
  with stay show ?thesis by (simp add: invalidate_mapping_pages_def Let_def split: option.split)
qed

lemma rel_condemn [rel_intros]:
  assumes "bt_ok (st_mappings s)"
  shows "rel s (snd (condemn_surface_backing mid s))"
proof -
  define t where "t = drop_host_surface mid (s\<lparr>st_present := forget_compositor_mapping mid (st_present s)\<rparr>)"
  have t: "registry_parts t = registry_parts s" by (simp add: t_def)
  have m: "st_mappings t = st_mappings s" by (rule parts_mappings [OF t])
  have stay: "rel s t" by (rule rel_elsewhere [OF assms t])
  have "rel s (retire_host_objects mid (e\<lparr>me_condemned_entries := c, me_page_entries := [], me_page_table_kva := 0\<rparr>) t)"
    if "mapping s mid = Some e" for e c
    using that assms m
    by (intro rel_trans [OF stay] rel_retire) (simp_all add: entry_or_default_def calm_simps)
  with stay show ?thesis
    using m unfolding condemn_surface_backing_def Let_def t_def [symmetric]
    by (simp split: option.split)
qed

lemma rel_map_surface [rel_intros]:
  assumes "bt_ok (st_mappings s)"
  shows "rel s (snd (map_surface mid s))"
proof -
  define t where "t = see_mapping_id mid s"
  have stay: "rel s t" by (rule rel_elsewhere [OF assms]) (simp add: t_def)
  have "rel s (drop_host_surface mid (retire_host_objects mid e t))" if "calm (entry_or_default t mid) e" for e
    by (rule rel_trans [OF stay rel_retire_dropped [OF rel_sorted [OF stay] that]])
  with stay show ?thesis
    unfolding map_surface_def Let_def t_def [symmetric] by (auto simp: calm_simps)
qed

lemma rel_unmap_surface [rel_intros]:
  assumes "bt_ok (st_mappings s)"
  shows "rel s (snd (unmap_surface mid s))"
proof -
  define t where "t = (see_mapping_id mid s)
      \<lparr>st_present := forget_compositor_mapping mid (st_present (see_mapping_id mid s))\<rparr>"
  have stay: "rel s t" "rel s (see_mapping_id mid s)" by (rule rel_elsewhere [OF assms], simp add: t_def)+
  have "rel s (drop_host_surface mid (retire_host_objects mid e t))" if "calm (entry_or_default t mid) e" for e
    by (rule rel_trans [OF stay(1) rel_retire_dropped [OF rel_sorted [OF stay(1)] that]])
  with stay show ?thesis
    unfolding unmap_surface_def Let_def t_def [symmetric]
    by (auto simp: calm_simps entry_or_default_def split: option.split)
qed

lemma rel_attach [rel_intros]:
  assumes "bt_ok (st_mappings s)"
  shows "rel s (snd (attach_mapping_internal mid internal s))"
proof -
  define t where "t = see_mapping_id mid s"
  have stay: "rel s t" by (rule rel_elsewhere [OF assms]) (simp add: t_def)
  note ok = rel_sorted [OF stay]
  have "rel s (put_mapping mid e t)" if "still (entry_or_default t mid) e" for e
    using rel_put [OF ok that] by (auto intro: rel_trans [OF stay])
  moreover have "rel s (retire_host_objects mid e t)" if "calm (entry_or_default t mid) e" for e
    using rel_retire [OF ok that] by (auto intro: rel_trans [OF stay])
  ultimately show ?thesis
    using stay unfolding attach_mapping_internal_def Let_def t_def [symmetric] by (auto simp: calm_simps)
qed

lemma rel_set_desc [rel_intros]:
  assumes "bt_ok (st_mappings s)"
  shows "rel s (snd (set_mapping_device_desc mid d s))"
proof -
  define t where "t = see_mapping_id mid s"
  have stay: "rel s t" by (rule rel_elsewhere [OF assms]) (simp add: t_def)
  have "rel s (put_mapping mid ((entry_or_default t mid)\<lparr>me_device_desc := d\<rparr>) t)"
    by (rule rel_trans [OF stay rel_put [OF rel_sorted [OF stay]]]) (simp add: calm_simps)
  with stay show ?thesis
    unfolding set_mapping_device_desc_def Let_def t_def [symmetric] by simp
qed

lemma rel_set_geom [rel_intros]:
  assumes "bt_ok (st_mappings s)"
  shows "rel s (snd (set_mapping_geom mid w h f s))"
  using rel_refl [OF assms]
  by (auto simp: set_mapping_geom_def Let_def calm_simps split: option.split intro!: rel_put [OF assms])

lemma rel_latch:
  assumes "bt_ok (st_mappings s)"
  shows "rel s (latch_geometry mid g s)" "rel s (latch_device_desc mid g s)"
  using rel_refl [OF assms] rel_set_geom [OF assms] rel_set_desc [OF assms]
  by (auto simp: latch_geometry_def latch_device_desc_def split: option.split)

lemma rel_owned [rel_intros]:
  assumes "bt_ok (st_mappings s)"
  shows "rel s (snd (surface_pages_are_exclusively_owned mid s))"
  using rel_refl [OF assms] rel_invalidate [OF assms]
  by (auto simp: surface_pages_are_exclusively_owned_def split: option.split)

text \<open>Adoption retires the view exactly when the pages changed under it.\<close>

lemma rel_adopt_plan:
  assumes ok: "bt_ok (st_mappings s)" and m: "mapping s mid = Some m"
  shows "rel s (snd (adopt_plan mid internal g plan m s))"
proof -
  define c where "c = fst (plan_adoption_decision (me_condemned_entries m) (me_page_entries m) (ptp_entries plan))"
  let ?e = "adopted internal g plan c m"
  define p where "p = (if c then me_contig_ptr m else 0)"
  have e: "me_contig_ptr ?e = (if c then 0 else me_contig_ptr m)" "\<not> c \<Longrightarrow> me_contig_len ?e = me_contig_len m"
    "me_guest_write_token ?e = me_guest_write_token m" "me_guest_write_token_gen ?e = me_guest_write_token_gen m"
    "me_validity ?e = me_validity m"
    by (auto simp: adopted_def Let_def bump_map_generation_eq split: option.split)
  have same: "me_condemned_entries m = None \<Longrightarrow> \<not> c \<Longrightarrow> same_pages m ?e"
    by (simp add: c_def same_pages_def adopted_def plan_adoption_decision_def Let_def split: option.split)
  have "rel s (retire_token 0 (retire_view p (me_contig_len m) (put_mapping mid ?e s)))"
    using e same by (intro rel_hands_over [OF ok]) (auto simp: entry_some [OF m] hands_over_def keeps_objects_def
        entry_objects_def view_objects_def token_objects_def p_def)
  moreover have "snd (adopt_plan mid internal g plan m s)
      = retire_token 0 (retire_view p (me_contig_len m) (put_mapping mid ?e s))"
    unfolding adopt_plan_def Let_def c_def [symmetric]
    by (simp add: retire_view_def retire_token_def p_def)
  ultimately show ?thesis by simp
qed

lemma rel_resolve [rel_intros]:
  assumes ok: "bt_ok (st_mappings s)"
  shows "rel s (snd (resolve_mapping_backing h mid s))"
proof -
  have latch: "rel s (latch_geometry mid g (latch_device_desc mid g s))" for g
    using rel_latch(2) [OF ok] by (blast intro: rel_trans rel_latch(1) rel_sorted)
  have adopt: "rel s (snd (case adopt_plan mid internal g plan m s of
      ((pages_changed, incarnation_changed, reprieved), s) \<Rightarrow>
        (case (if \<not> incarnation_changed \<and> reprieved
               then surface_pages_are_exclusively_owned mid s else (True, s)) of
           (owned, s) \<Rightarrow>
             if \<not> owned then (False, s)
             else let s = latch_geometry mid g s in
               if pages_changed then surface_pages_are_exclusively_owned mid s else (True, s))))"
    if m: "mapping s mid = Some m" for internal g plan m
  proof -
    obtain c i r t where a: "adopt_plan mid internal g plan m s = ((c, i, r), t)"
      by (cases "adopt_plan mid internal g plan m s") auto
    have 1: "rel s t" using rel_adopt_plan [OF ok m, of internal g plan] a by simp
    obtain o1 t1 where o1: "(if \<not> i \<and> r then surface_pages_are_exclusively_owned mid t else (True, t)) = (o1, t1)"
      by (cases "if \<not> i \<and> r then surface_pages_are_exclusively_owned mid t else (True, t)")
    have "rel t t1"
      using o1 rel_owned [OF rel_sorted [OF 1], of mid] rel_refl [OF rel_sorted [OF 1]]
      by (auto split: if_splits)
    then have 2: "rel s t1" by (rule rel_trans [OF 1])
    have 3: "rel s (latch_geometry mid g t1)"
      by (rule rel_trans [OF 2 rel_latch(1) [OF rel_sorted [OF 2]]])
    have 4: "rel s (snd (surface_pages_are_exclusively_owned mid (latch_geometry mid g t1)))"
      by (rule rel_trans [OF 3 rel_owned [OF rel_sorted [OF 3]]])
    show ?thesis using 2 3 4 by (simp add: a o1 Let_def)
  qed
  show ?thesis
    unfolding resolve_mapping_backing_def Let_def
    using rel_refl [OF ok] latch adopt [unfolded Let_def]
    by (simp split: option.split sum.split)
qed

lemma rel_revalidate [rel_intros]:
  assumes ok: "bt_ok (st_mappings s)"
  shows "rel s (snd (revalidate_mapping_pages h mid s))"
proof -
  obtain r t where r: "resolve_mapping_backing h mid s = (r, t)" by (cases "resolve_mapping_backing h mid s")
  have 1: "rel s t" using rel_resolve [OF ok, of h mid] r by simp
  have "rel s (snd (invalidate_mapping_pages mid t))"
    by (rule rel_trans [OF 1 rel_invalidate [OF rel_sorted [OF 1]]])
  with 1 show ?thesis
    using rel_refl [OF ok]
    by (simp add: revalidate_mapping_pages_def revalidate_mapping_reason_def r split: option.split)
qed

lemma rel_ensure_resolved [rel_intros]:
  assumes "bt_ok (st_mappings s)"
  shows "rel s (snd (ensure_resolved_for_scanout h mid s))"
  using rel_refl [OF assms] rel_resolve [OF assms]
  by (simp add: ensure_resolved_for_scanout_def split: option.split)

lemma rel_verdict [rel_intros]:
  assumes "bt_ok (st_mappings s)"
  shows "rel s (snd (mapping_pages_verdict h mid s))" "rel s (snd (vouch_mapping_pages_verdict h mid s))"
proof -
  show "rel s (snd (mapping_pages_verdict h mid s))"
    using rel_refl [OF assms] rel_invalidate [OF assms]
    by (simp add: mapping_pages_verdict_def split: type4_witness.split)
  then show "rel s (snd (vouch_mapping_pages_verdict h mid s))"
    by (cases "mapping_pages_verdict h mid s") (simp add: vouch_mapping_pages_verdict_def)
qed

lemma rel_adopt_type4:
  assumes ok: "bt_ok (st_mappings s)" and m: "mapping s mid = Some m"
  shows "rel s (adopt_type4 tid mid surf entries desc m s)"
proof -
  define m1 where "m1 = (if names_of m \<noteq> entries then bump_map_generation (m\<lparr>me_condemned_entries := None\<rparr>)
      else m\<lparr>me_condemned_entries := None\<rparr>)"
  define m2 where "m2 = m1\<lparr>me_page_entries := entries, me_mapped := True, me_page_table_kva := 0, me_device_desc := desc,
      me_type4_walk := Some \<lparr>t4_task_id = tid, t4_backing_pfn = t4s_backing_pfn surf,
                              t4_map_generation = me_map_generation m1\<rparr>\<rparr>"
  define m3 where "m3 = (if me_contig_ptr m2 \<noteq> 0 then m2\<lparr>me_contig_ptr := 0, me_contig_len := 0\<rparr> else m2)"
  have same: "calm m m2" by (simp add: m2_def m1_def calm_simps)
  have "adopt_type4 tid mid surf entries desc m s =
      retire_token 0 (retire_view (me_contig_ptr m) (me_contig_len m) (put_mapping mid m3 s))"
    unfolding adopt_type4_def Let_def names_of_def [symmetric] m1_def [symmetric] m2_def [symmetric]
    using same by (simp add: m3_def retire_token_def retire_view_def calm_simps)
  moreover have "rel s (retire_token 0 (retire_view (me_contig_ptr m) (me_contig_len m) (put_mapping mid m3 s)))"
    using same by (intro rel_hands_over [OF ok]) (auto simp: entry_some [OF m] hands_over_def keeps_objects_def
        entry_objects_def view_objects_def token_objects_def calm_simps m3_def)
  ultimately show ?thesis by simp
qed

lemma rel_apply_type4 [rel_intros]:
  assumes ok: "bt_ok (st_mappings s)" and run: "apply_type4_backing h tid mid surf s = Ok (r, s')"
  shows "rel s s'"
proof -
  obtain b t where t: "map_surface mid s = (b, t)" by (cases "map_surface mid s")
  have 1: "rel s t" using rel_map_surface [OF ok, of mid] t by simp
  have adopt: "rel s (snd (set_mapping_geom mid w ht f u))" "rel s u"
    if "u = (case mapping t mid of None \<Rightarrow> t | Some m \<Rightarrow> adopt_type4 tid mid surf entries desc m t)"
    for entries desc u w ht f
  proof -
    have "rel t u"
      using that rel_refl [OF rel_sorted [OF 1]] rel_adopt_type4 [OF rel_sorted [OF 1]]
      by (simp split: option.splits)
    then show u: "rel s u" by (rule rel_trans [OF 1])
    show "rel s (snd (set_mapping_geom mid w ht f u))"
      by (rule rel_trans [OF u rel_set_geom [OF rel_sorted [OF u]]])
  qed
  show ?thesis
    using run rel_refl [OF ok] adopt 1
    by (auto simp: apply_type4_backing_def t Let_def outcome_simps split: if_splits sum.splits bool.splits)
qed

end

section \<open>The objects move\<close>

interpretation moves: registry_relation moves
proof unfold_locales
  show "moves s t" if "bt_ok (st_mappings s)" "registry_parts t = registry_parts s" for s t
    by (rule moves_frame [OF moves_refl refl]) (use that in \<open>simp_all add: registry_parts_def\<close>)
  show "moves s (retire_token tk (retire_view p len (put_mapping mid e s)))"
    if "bt_ok (st_mappings s)" "hands_over (entry_or_default s mid) e p len tk" for s mid e p len tk
    using that by (intro moves_retired) (simp_all add: hands_over_def)
qed (use moves_sorted moves_trans in blast)+

lemma moves_put:
  assumes "bt_ok (st_mappings s)" "same_objects (entry_or_default s mid) e" "same_pages (entry_or_default s mid) e"
  shows "moves s (put_mapping mid e s)"
  using moves_retired [OF assms(1) same_keeps [OF assms(2,3)], of 0 0 0] same_entry_objects [OF assms(2)]
  by (simp add: view_objects_def token_objects_def retire_view_def retire_token_def)

lemma moves_mark_written [rel_intros]:
  assumes "bt_ok (st_mappings s)"
  shows "moves s (snd (mark_mapping_written mid s))" "moves s (snd (note_surface_content_published mid s))"
proof -
  obtain seq t where n: "next_validity_seq s = (seq, t)" by (cases "next_validity_seq s")
  have t: "object_parts t = object_parts s" using n by (auto simp: object_parts_def next_validity_seq_def Let_def)
  have stay: "moves s t" by (rule moves_frame [OF moves_refl refl]) (use assms t in simp_all)
  have "moves s (put_mapping mid m' t)" if "mapping t mid = Some m" "same_objects m m'" "same_pages m m'" for m m'
    by (rule moves_trans [OF stay moves_put [OF moves_sorted [OF stay]]]) (simp_all add: that entry_or_default_def)
  with stay show "moves s (snd (mark_mapping_written mid s))" "moves s (snd (note_surface_content_published mid s))"
    by (auto simp: mark_mapping_written_def note_surface_content_published_def n Let_def same_objects_def
        same_pages_def split: option.split)
qed

end
