(* ===== verification/HostRelation.thy ===== *)
theory HostRelation
  imports SurfaceRuns HostObjects
begin

text \<open>
  The operations that call the host, once for all: the interface \<open>host_relation\<close> names the few things they
  do to the registry and the log, and derives every such operation from them.
\<close>

definition dropped_token :: "u32 \<Rightarrow> mapping_entry \<Rightarrow> surfaces \<Rightarrow> surfaces" where
  "dropped_token mid m s =
     (put_mapping mid (m\<lparr>me_guest_write_token := 0, me_guest_write_token_gen := 0, me_guest_write_gen_at_store := 0\<rparr>) s)
       \<lparr>st_retired_guest_write_tokens := st_retired_guest_write_tokens s @ [me_guest_write_token m]\<rparr>"

locale host_relation =
  fixes good :: "surfaces \<Rightarrow> bool"
    and hrel :: "surfaces \<times> host \<Rightarrow> surfaces \<times> host \<Rightarrow> bool"
  assumes good_sorted: "good s \<Longrightarrow> bt_ok (st_mappings s)"
    and hrel_good: "hrel a b \<Longrightarrow> good (fst b)"
    and hrel_refl: "good s \<Longrightarrow> hrel (s, h) (s, h)"
    and hrel_trans: "hrel a b \<Longrightarrow> hrel b c \<Longrightarrow> hrel a c"
    and hrel_revalidate: "good s \<Longrightarrow> hrel (s, h) (snd (revalidate_mapping_pages g mid s), h)"
    and hrel_condemn: "good s \<Longrightarrow> hrel (s, h) (snd (condemn_surface_backing mid s), h)"
    and hrel_unmap: "good s \<Longrightarrow> hrel (s, h) (snd (unmap_surface mid s), h)"
    and hrel_still: "good s \<Longrightarrow> mapping s mid = Some m \<Longrightarrow> still m e \<Longrightarrow> hrel (s, h) (put_mapping mid e s, h)"
    and hrel_drop_token: "good s \<Longrightarrow> mapping s mid = Some m \<Longrightarrow> me_guest_write_token m \<noteq> 0 \<Longrightarrow>
          hrel (s, h) (dropped_token mid m s, h)"
    and hrel_flush: "good s \<Longrightarrow> hrel (s, h) (flush_retired_views (s, h))"
    and hrel_refused: "good s \<Longrightarrow> acquired_by x = {#} \<Longrightarrow> released_by x = {#} \<Longrightarrow> hrel (s, h) (s, host_log x h)"
    and hrel_token: "good s \<Longrightarrow> mapping s mid = Some m \<Longrightarrow> me_guest_write_token m = 0 \<Longrightarrow>
          hrel (s, h) (put_mapping mid (m\<lparr>me_guest_write_token := t, me_guest_write_token_gen := gen\<rparr>) s,
            host_log (TrackGuestWrites gpas sz (Some t)) h)"
    and hrel_view: "good s \<Longrightarrow> mapping s mid = Some m \<Longrightarrow> me_contig_ptr m = 0 \<Longrightarrow> me_page_entries m \<noteq> [] \<Longrightarrow>
          gpas = present_gpas (me_page_entries m) (st_page_shift s) \<Longrightarrow> length gpas = length (me_page_entries m) \<Longrightarrow>
          sz = page_size_of (st_page_shift s) \<Longrightarrow>
          hrel (s, h) (put_mapping mid (m\<lparr>me_contig_ptr := p, me_contig_len := of_nat (length gpas) * sz\<rparr>) s,
            host_log (MapPages gpas sz (Some p)) h)"

lemma page_gpas_Some:
  assumes "mapping_page_gpas mid (s, h) = (Some gpas, (t, h'))"
  shows "\<exists>m. mapping t mid = Some m \<and> me_page_entries m \<noteq> []
    \<and> gpas = present_gpas (me_page_entries m) (st_page_shift t) \<and> length gpas = length (me_page_entries m)"
  using assms
  by (cases "revalidate_mapping_pages h mid s") (auto simp: mapping_page_gpas_def Let_def split: if_splits bind_splits option.splits)

lemma page_gpas_state:
  "snd (mapping_page_gpas mid (s, h)) = (snd (revalidate_mapping_pages h mid s), h)"
  by (cases "revalidate_mapping_pages h mid s") (simp add: mapping_page_gpas_def)

context host_relation begin

lemma hrel_build_token:
  assumes ok: "good s" and none: "me_guest_write_token (entry_or_default s mid) = 0"
  shows "hrel (s, h) (snd (build_guest_write_token mid gen (s, h)))"
proof (cases "mapping s mid")
  case None
  then show ?thesis by (simp add: build_guest_write_token_def hrel_refl [OF ok])
next
  case (Some m)
  then have "me_guest_write_token m = 0" using none by (simp add: entry_some)
  note got = hrel_token [OF ok Some this]
  have "hrel (s, h) (s, host_log (TrackGuestWrites gpas sz None) h)" for gpas sz
    by (rule hrel_refused [OF ok]) simp_all
  with got show ?thesis
    using Some hrel_refl [OF ok]
    by (simp add: build_guest_write_token_def track_guest_writes_def Let_def split: option.split)
qed

lemma hrel_ensure_token:
  assumes ok: "good s"
  shows "hrel (s, h) (snd (ensure_guest_write_token mid (s, h)))"
proof (cases "mapping s mid")
  case None
  then show ?thesis by (simp add: ensure_guest_write_token_def hrel_refl [OF ok])
next
  case (Some m)
  have again: "hrel (s, h) (snd (build_guest_write_token mid gen (dropped_token mid m s, h)))"
    if live: "me_guest_write_token m \<noteq> 0" for gen
  proof -
    have t: "hrel (s, h) (dropped_token mid m s, h)" by (rule hrel_drop_token [OF ok Some live])
    have "me_guest_write_token (entry_or_default (dropped_token mid m s) mid) = 0"
      using good_sorted [OF ok] by (simp add: dropped_token_def entry_or_default_def put_mapping_def bt_get_update)
    then show ?thesis using hrel_trans [OF t hrel_build_token] hrel_good [OF t] by simp
  qed
  have "hrel (s, h) (snd (build_guest_write_token mid gen (s, h)))" if "me_guest_write_token m = 0" for gen
    using that by (intro hrel_build_token [OF ok]) (simp add: entry_some [OF Some])
  with again show ?thesis
    using hrel_refl [OF ok] by (simp add: ensure_guest_write_token_def Some Let_def dropped_token_def)
qed

lemma hrel_stamp:
  assumes ok: "good s"
  shows "hrel (s, h) (stamp_guest_write_gen mid (s, h))"
proof -
  obtain tk t h' where e: "ensure_guest_write_token mid (s, h) = (tk, (t, h'))"
    by (cases "ensure_guest_write_token mid (s, h)") auto
  have 1: "hrel (s, h) (t, h')" using hrel_ensure_token [OF ok, of h mid] e by simp
  have "hrel (t, h') (put_mapping mid (m\<lparr>me_guest_write_gen_at_store := g\<rparr>) t, h')" if "mapping t mid = Some m" for m g
    by (rule hrel_still [OF _ that]) (use hrel_good [OF 1] in \<open>simp_all add: calm_simps\<close>)
  from hrel_trans [OF 1 this] 1 show ?thesis
    by (simp add: stamp_guest_write_gen_def e Let_def split: option.split)
qed

lemma hrel_page_gpas: "good s \<Longrightarrow> hrel (s, h) (snd (mapping_page_gpas mid (s, h)))"
  by (simp add: page_gpas_state hrel_revalidate)

lemma hrel_build_view:
  assumes ok: "good s" and none: "me_contig_ptr (entry_or_default s mid) = 0"
  shows "hrel (s, h) (snd (build_contig_view mid (s, h)))"
proof -
  obtain r t h' where e: "mapping_page_gpas mid (s, h) = (r, (t, h'))"
    by (cases "mapping_page_gpas mid (s, h)") auto
  have h': "h' = h" and t: "t = snd (revalidate_mapping_pages h mid s)" using page_gpas_state [of mid s h] e by simp_all
  have 1: "hrel (s, h) (t, h)" using hrel_revalidate [OF ok] by (simp add: t)
  then have okt: "good t" using hrel_good by fastforce
  have "keeps_objects (entry_or_default s mid) (entry_or_default t mid)"
    using moves.rel_revalidate [OF good_sorted [OF ok], of h mid] by (simp add: t moves_def)
  then have zero: "me_contig_ptr m = 0" if "mapping t mid = Some m" for m
    using none by (auto simp: keeps_objects_def entry_some [OF that])
  have frag: "hrel (s, h) (put_mapping mid (m\<lparr>me_contig_fragmented_gen := a\<rparr>) t, h)" if "mapping t mid = Some m" for m a
    by (rule hrel_trans [OF 1 hrel_still [OF okt that]]) (simp add: calm_simps)
  have got: "hrel (s, h) (put_mapping mid (m\<lparr>me_contig_ptr := q, me_contig_len := of_nat (length gpas) * sz\<rparr>) t,
      host_log (MapPages gpas sz (Some q)) h)"
    if "r = Some gpas" "mapping t mid = Some m" "sz = page_size_of (st_page_shift t)" for gpas m q sz
    using page_gpas_Some [of mid s h gpas t h'] that
    by (auto simp: e intro!: hrel_trans [OF 1 hrel_view [OF okt that(2) zero [OF that(2)]]])
  have "hrel (s, h) (t, host_log (MapPages gpas sz None) h)" for gpas sz
    by (rule hrel_trans [OF 1 hrel_refused [OF okt]]) simp_all
  then show ?thesis
    using 1 frag got page_gpas_Some [of mid s h _ t h']
    by (auto simp: build_contig_view_def e h' map_pages_def Let_def split: option.split)
qed

lemma hrel_contig_view:
  assumes ok: "good s"
  shows "hrel (s, h) (snd (ensure_contig_view mid (s, h)))"
proof -
  obtain r t where r: "revalidate_mapping_pages h mid s = (r, t)" by (cases "revalidate_mapping_pages h mid s")
  have 1: "hrel (s, h) (t, h)" using hrel_revalidate [OF ok, of h h mid] r by simp
  obtain u h' where f: "flush_retired_views (t, h) = (u, h')" by (cases "flush_retired_views (t, h)")
  have 2: "hrel (s, h) (u, h')" using hrel_trans [OF 1 hrel_flush] hrel_good [OF 1] f by simp
  have "hrel (s, h) (snd (build_contig_view mid (u, h')))" if "mapping u mid = Some m" "me_contig_ptr m = 0" for m
    by (rule hrel_trans [OF 2 hrel_build_view]) (use that hrel_good [OF 2] in \<open>simp_all add: entry_some [OF that(1)]\<close>)
  with 1 2 show ?thesis
    by (simp add: ensure_contig_view_def r f split: option.split)
qed

lemma hrel_delete:
  assumes ok: "good s"
  shows "hrel (s, h) (delete_iosurface_backing2 mid (s, h))"
proof -
  define u where "u = (if mapping_backing_condemned s mid then snd (unmap_surface mid s)
            else case condemn_surface_backing mid s of (True, s) \<Rightarrow> s | (False, s) \<Rightarrow> snd (unmap_surface mid s))"
  obtain b t where c: "condemn_surface_backing mid s = (b, t)" by (cases "condemn_surface_backing mid s")
  have t: "hrel (s, h) (t, h)" using hrel_condemn [OF ok, of h mid] c by simp
  have u: "hrel (s, h) (u, h)"
    using t hrel_unmap [OF ok] hrel_trans [OF t hrel_unmap] hrel_good [OF t]
    by (simp add: u_def c split: bool.split)
  show ?thesis
    using hrel_trans [OF u hrel_flush] hrel_good [OF u]
    unfolding delete_iosurface_backing2_def prod.case u_def [symmetric] by simp
qed

lemmas hrel_intros = hrel_refl hrel_flush hrel_ensure_token hrel_stamp hrel_contig_view hrel_delete

end

end
