(* ===== verification/SurfaceHost.thy ===== *)
theory SurfaceHost
  imports HostRelation
begin

text \<open>
  The registry and the host together: the log of host calls balances what the registry holds, a reset
  leaves nothing behind, and a guest-write token that still answers for a mapping watches the pages the
  mapping has now.
\<close>

section \<open>The log balances\<close>

definition accounts :: "surfaces \<times> host \<Rightarrow> surfaces \<times> host \<Rightarrow> bool" where
  "accounts a b \<longleftrightarrow> bt_ok (st_mappings (fst b)) \<and> st_page_shift (fst b) = st_page_shift (fst a)
     \<and> (\<exists>cs. h_calls (snd b) = h_calls (snd a) @ cs
           \<and> objects_held (fst b) + released cs = objects_held (fst a) + acquired cs)"

lemma accounts_moves: "moves s s' \<Longrightarrow> accounts (s, h) (s', h)"
  by (simp add: accounts_def moves_def)

lemma accounts_sorted: "accounts a b \<Longrightarrow> bt_ok (st_mappings (fst b))"
  by (simp add: accounts_def)

lemma accounts_trans:
  assumes "accounts a b" "accounts b c"
  shows "accounts a c"
proof -
  from assms(1) obtain cs where 1: "h_calls (snd b) = h_calls (snd a) @ cs"
    "objects_held (fst b) + released cs = objects_held (fst a) + acquired cs" by (auto simp: accounts_def)
  from assms(2) obtain ds where 2: "h_calls (snd c) = h_calls (snd b) @ ds"
    "objects_held (fst c) + released ds = objects_held (fst b) + acquired ds" by (auto simp: accounts_def)
  have "objects_held (fst c) + (released cs + released ds) = objects_held (fst b) + acquired ds + released cs"
    using 2(2) by (metis add.assoc add.commute)
  also have "\<dots> = objects_held (fst a) + (acquired cs + acquired ds)"
    using 1(2) by (metis add.assoc add.commute)
  finally show ?thesis
    using assms 1(1) 2(1) by (auto simp: accounts_def intro!: exI [of _ "cs @ ds"])
qed

lemma host_log_calls [simp]: "h_calls (host_log c h) = h_calls h @ [c]"
  by (simp add: host_log_def)

lemma log_fold_calls: "h_calls (fold (\<lambda>x. host_log (f x)) xs h) = h_calls h @ map f xs"
  by (induction xs arbitrary: h) simp_all

lemma released_views: "released (map (\<lambda>v. UnmapPages (fst v) (snd v)) vs) = image_mset (\<lambda>v. View (fst v) (snd v)) (mset vs)"
  by (induction vs) simp_all

lemma released_tokens: "released (map UntrackGuestWrites ts) = image_mset Token (mset ts)"
  by (induction ts) simp_all

lemma acquired_none: "(\<And>c. c \<in> set cs \<Longrightarrow> acquired_by c = {#}) \<Longrightarrow> acquired cs = {#}"
  by (induction cs) simp_all

lemma acquired_releases [simp]:
  "acquired (map (\<lambda>v. UnmapPages (fst v) (snd v)) vs) = {#}" "acquired (map UntrackGuestWrites ts) = {#}"
  by (auto intro!: acquired_none)

lemma accounts_flush: "bt_ok (st_mappings s) \<Longrightarrow> accounts (s, h) (flush_retired_views (s, h))"
  by (auto simp: accounts_def flush_retired_views_def log_fold_calls released_views released_tokens objects_held_def
      retired_objects_def intro!: exI [of _ "map (\<lambda>v. UnmapPages (fst v) (snd v)) (st_retired_views s)
        @ map UntrackGuestWrites (st_retired_guest_write_tokens s)"])

text \<open>A mapping that receives an object it did not have.\<close>

lemma accounts_put:
  assumes ok: "bt_ok (st_mappings s)" and got: "entry_objects e = entry_objects (entry_or_default s mid) + acquired_by c"
    and c: "released_by c = {#}"
  shows "accounts (s, h) (put_mapping mid e s, host_log c h)"
proof -
  have "objects_held (put_mapping mid e s) = objects_held s + acquired_by c"
    using held_put [OF ok, of mid e] got by (simp add: ac_simps)
  with ok c show ?thesis
    by (auto simp: accounts_def put_mapping_sorted intro!: exI [of _ "[c]"])
qed

lemma accounts_called:
  "bt_ok (st_mappings s) \<Longrightarrow> acquired_by c = {#} \<Longrightarrow> released_by c = {#} \<Longrightarrow> accounts (s, h) (s, host_log c h)"
  by (auto simp: accounts_def)

lemma accounts_refl: "bt_ok (st_mappings s) \<Longrightarrow> accounts (s, h) (s, h)"
  by (rule accounts_moves [OF moves_refl])

lemma dropped_token_moves:
  assumes ok: "bt_ok (st_mappings s)" and m: "mapping s mid = Some m" and live: "me_guest_write_token m \<noteq> 0"
  shows "moves s (dropped_token mid m s)"
proof -
  let ?e = "m\<lparr>me_guest_write_token := 0, me_guest_write_token_gen := 0, me_guest_write_gen_at_store := 0\<rparr>"
  have "moves s (retire_token (me_guest_write_token m) (retire_view 0 0 (put_mapping mid ?e s)))"
    by (rule moves_retired [OF ok])
       (auto simp: entry_some [OF m] keeps_objects_def same_pages_def entry_objects_def view_objects_def token_objects_def)
  then show ?thesis using live by (simp add: dropped_token_def retire_token_def retire_view_def)
qed

interpretation balance: host_relation "\<lambda>s. bt_ok (st_mappings s)" accounts
proof unfold_locales
  fix s :: surfaces and h h' :: host and mid m e
  assume ok: "bt_ok (st_mappings s)"
  show "accounts (s, h) (snd (revalidate_mapping_pages h' mid s), h)"
    "accounts (s, h) (snd (condemn_surface_backing mid s), h)" "accounts (s, h) (snd (unmap_surface mid s), h)"
    by (intro accounts_moves moves.rel_revalidate moves.rel_condemn moves.rel_unmap_surface ok)+
  assume m: "mapping s mid = Some m"
  show "accounts (s, h) (put_mapping mid e s, h)" if "still m e"
    using that by (intro accounts_moves moves_put [OF ok]) (simp_all add: still_def calm_def entry_some [OF m])
  show "accounts (s, h) (dropped_token mid m s, h)" if "me_guest_write_token m \<noteq> 0"
    by (intro accounts_moves dropped_token_moves ok m that)
  show "accounts (s, h) (put_mapping mid (m\<lparr>me_guest_write_token := t, me_guest_write_token_gen := gen\<rparr>) s,
      host_log (TrackGuestWrites gpas sz (Some t)) h)" if "me_guest_write_token m = 0" for t gen gpas sz
    using that by (intro accounts_put [OF ok]) (simp_all add: entry_some [OF m] entry_objects_def token_objects_def)
  show "accounts (s, h) (put_mapping mid (m\<lparr>me_contig_ptr := p, me_contig_len := of_nat (length gpas) * sz\<rparr>) s,
      host_log (MapPages gpas sz (Some p)) h)" if "me_contig_ptr m = 0" for p gpas sz
    using that by (intro accounts_put [OF ok]) (simp_all add: entry_some [OF m] entry_objects_def view_objects_def)
qed (use accounts_sorted accounts_refl accounts_trans accounts_flush accounts_called in blast)+

lemma step_accounts:
  assumes "surface_step a b" and "bt_ok (st_mappings (fst a))"
  shows "accounts a b"
  using assms
proof cases
  case guest
  with assms(2) show ?thesis by (simp add: accounts_def)
next
  case (elsewhere s s' h)
  with assms(2) show ?thesis
    by (auto simp: accounts_def registry_untouched_def objects_held_def retired_objects_def)
qed (use assms(2) in \<open>auto intro!: accounts_moves balance.hrel_intros intro: rel_intros\<close>)

lemma run_accounts:
  assumes "(surface_step ^^ n) a b" and "bt_ok (st_mappings (fst a))"
  shows "accounts a b"
  using assms(1)
proof (induction n arbitrary: b)
  case 0
  then show ?case using assms(2) by (simp add: accounts_def)
next
  case (Suc n)
  from Suc.prems obtain c where c: "(surface_step ^^ n) a c" "surface_step c b" by (rule relpowp_Suc_E)
  have 1: "accounts a c" by (rule Suc.IH [OF c(1)])
  show ?case by (rule accounts_trans [OF 1 step_accounts [OF c(2) accounts_sorted [OF 1]]])
qed

text \<open>Reset gives everything back.\<close>

lemma detach_all_objects:
  assumes "detach_all ms = (ms', views, tokens)"
  shows "map fst ms' = map fst ms" "mapped_objects ms' = {#}"
    "image_mset (\<lambda>v. View (fst v) (snd v)) (mset views) + image_mset Token (mset tokens) = mapped_objects ms"
  using assms
  by (induction ms arbitrary: ms' views tokens)
     (auto simp: mapped_objects_def take_mapping_view_def take_guest_write_token_def entry_objects_def
        view_objects_def token_objects_def ac_simps split: prod.splits if_splits)

lemma gva_objects_views:
  "gva_objects gvs = image_mset (\<lambda>v. View (fst v) (snd v)) (mset
     (List.map_filter (\<lambda>gv. if gv_ptr gv \<noteq> 0 \<and> gv_ptr_len gv \<noteq> 0 then Some (gv_ptr gv, gv_ptr_len gv) else None) gvs))"
  by (induction gvs) (simp_all add: gva_objects_def List.map_filter_def)

lemma reset_accounts:
  assumes ok: "bt_ok (st_mappings s)" and run: "reset_with_host (s, h) = (k, (s', h'))"
  shows "accounts (s, h) (s', h')" "objects_held s' = {#}"
proof -
  obtain ms views tokens where d: "detach_all (st_mappings s) = (ms, views, tokens)"
    by (cases "detach_all (st_mappings s)") auto
  note o = detach_all_objects [OF d]
  let ?gva = "List.map_filter (\<lambda>gv. if gv_ptr gv \<noteq> 0 \<and> gv_ptr_len gv \<noteq> 0
      then Some (gv_ptr gv, gv_ptr_len gv) else None) (st_gva_host_views s)"
  let ?views = "st_retired_views s @ views @ ?gva" and ?tokens = "st_retired_guest_write_tokens s @ tokens"
  have s': "st_mappings s' = ms" "st_page_shift s' = st_page_shift s" "st_retired_views s' = []"
    "st_retired_guest_write_tokens s' = []" "st_gva_host_views s' = []"
    and h': "h_calls h' = h_calls h @ map (\<lambda>v. UnmapPages (fst v) (snd v)) ?views @ map UntrackGuestWrites ?tokens"
    using run by (auto simp: reset_with_host_def take_all_host_views_def d flush_retired_views_def log_fold_calls)
  show e: "objects_held s' = {#}"
    using s' o(2) by (simp add: objects_held_def retired_objects_def gva_objects_def)
  have "bt_ok ms" using ok o(1) by (simp add: bt_ok_def)
  moreover have "released (map (\<lambda>v. UnmapPages (fst v) (snd v)) ?views @ map UntrackGuestWrites ?tokens) = objects_held s"
    by (simp add: released_views released_tokens objects_held_def retired_objects_def gva_objects_views o(3) [symmetric] ac_simps
             del: map_append)
  ultimately show "accounts (s, h) (s', h')"
    using s' h' e by (auto simp: accounts_def simp del: map_append)
qed

text \<open>
  C4: Every host object is given back once. From any registry, through any operations and whatever the host
  answers, up to and including a reset: the views and tokens released, counted with their addresses and
  lengths, are the ones held at the start and the ones the host handed out since, and nothing is held after.
\<close>

theorem host_objects_given_back_once:
  assumes "registry_ok s" and "(surface_step ^^ n) (s, h) (s', h')"
    and "reset_with_host (s', h') = (k, (s'', h''))"
  shows "objects_held s'' = {#} \<and> (\<exists>cs. h_calls h'' = h_calls h @ cs \<and> released cs = objects_held s + acquired cs)"
proof -
  have 1: "accounts (s, h) (s', h')" using run_accounts [OF assms(2)] assms(1) by (simp add: registry_ok_sorted)
  have "bt_ok (st_mappings s')" using accounts_sorted [OF 1] by simp
  note 2 = reset_accounts [OF this assms(3)]
  have "accounts (s, h) (s'', h'')" by (rule accounts_trans [OF 1 2(1)])
  with 2(2) show ?thesis by (auto simp: accounts_def)
qed

section \<open>Tokens watch the pages a mapping has\<close>

definition tokens_kept :: "surfaces \<Rightarrow> surfaces \<Rightarrow> bool" where
  "tokens_kept s s' \<longleftrightarrow> st_page_shift s' = st_page_shift s
     \<and> (\<forall>mid. me_guest_write_token (entry_or_default s' mid) = 0
          \<or> me_guest_write_token (entry_or_default s' mid) = me_guest_write_token (entry_or_default s mid)
            \<and> me_guest_write_token_gen (entry_or_default s' mid) = me_guest_write_token_gen (entry_or_default s mid))"

definition tracks :: "host \<Rightarrow> u32 \<Rightarrow> u32 list \<Rightarrow> u64 \<Rightarrow> bool" where
  "tracks h shift names token \<longleftrightarrow>
     (\<exists>gpas. map Some gpas = map (\<lambda>e. entry_gpa_shift e shift) names
        \<and> TrackGuestWrites gpas (shl64 1 shift) (Some token) \<in> set (h_calls h))"

definition tracked :: "nat \<Rightarrow> surfaces \<times> host \<Rightarrow> bool" where
  "tracked k a \<longleftrightarrow> (\<forall>mid e. mapping (fst a) mid = Some e \<and> me_guest_write_token e \<noteq> 0 \<longrightarrow>
     (\<exists>j\<le>k. \<exists>names. me_map_generation e = (next_gen ^^ j) (me_guest_write_token_gen e)
        \<and> (j = 0 \<longrightarrow> names = names_of e)
        \<and> tracks (snd a) (st_page_shift (fst a)) names (me_guest_write_token e)))"

lemma moves_tokens: "moves s s' \<Longrightarrow> tokens_kept s s'"
  by (auto simp: moves_def tokens_kept_def keeps_objects_def)

lemma tokens_refl: "tokens_kept s s"
  by (simp add: tokens_kept_def)

lemma tokens_trans: "tokens_kept a b \<Longrightarrow> tokens_kept b c \<Longrightarrow> tokens_kept a c"
  unfolding tokens_kept_def by metis

lemma tracks_more: "tracks h shift names t \<Longrightarrow> set (h_calls h) \<subseteq> set (h_calls h') \<Longrightarrow> tracks h' shift names t"
  unfolding tracks_def by blast

lemma tracked_kept:
  assumes t: "tracked k a" and ev: "evolves n (fst a) (fst b)" and kept: "tokens_kept (fst a) (fst b)"
    and calls: "set (h_calls (snd a)) \<subseteq> set (h_calls (snd b))"
  shows "tracked (k + n) b"
  unfolding tracked_def
proof (intro allI impI, elim conjE)
  fix mid e'
  assume e': "mapping (fst b) mid = Some e'" and tok: "me_guest_write_token e' \<noteq> 0"
  have k: "me_guest_write_token e' = me_guest_write_token (entry_or_default (fst a) mid)"
    "me_guest_write_token_gen e' = me_guest_write_token_gen (entry_or_default (fst a) mid)"
    using kept tok entry_some [OF e'] by (auto simp: tokens_kept_def)
  obtain e where e: "mapping (fst a) mid = Some e"
    using k tok by (cases "mapping (fst a) mid") (auto simp: entry_or_default_def mapping_default_def)
  from evolves_get [OF ev e] e' obtain i where i: "i \<le> n" "bumped i e e'" by auto
  from t e k tok obtain j names where j: "j \<le> k" "me_map_generation e = (next_gen ^^ j) (me_guest_write_token_gen e)"
    "j = 0 \<longrightarrow> names = names_of e" "tracks (snd a) (st_page_shift (fst a)) names (me_guest_write_token e)"
    unfolding tracked_def entry_some [OF e] by metis
  have "me_map_generation e' = (next_gen ^^ (i + j)) (me_guest_write_token_gen e')"
    using i(2) j(2) k(2) by (simp add: bumped_def funpow_add entry_some [OF e])
  moreover have "i + j = 0 \<longrightarrow> names = names_of e'" using i(2) j(3) by (simp add: bumped_def)
  moreover have "tracks (snd b) (st_page_shift (fst b)) names (me_guest_write_token e')"
    using tracks_more [OF j(4) calls] k(1) kept by (simp add: entry_some [OF e] tokens_kept_def)
  ultimately show "\<exists>j\<le>k + n. \<exists>names. me_map_generation e' = (next_gen ^^ j) (me_guest_write_token_gen e')
      \<and> (j = 0 \<longrightarrow> names = names_of e')
      \<and> tracks (snd b) (st_page_shift (fst b)) names (me_guest_write_token e')"
    using i(1) j(1) by (intro exI [of _ "i + j"] conjI exI [of _ names]) auto
qed

lemma present_gpas_all:
  "length (present_gpas es shift) = length es \<Longrightarrow> map Some (present_gpas es shift) = map (\<lambda>e. entry_gpa_shift e shift) es"
proof (induction es)
  case (Cons e es)
  have "length (present_gpas es shift) \<le> length es"
    by (simp add: present_gpas_def List.map_filter_def)
  moreover have "present_gpas (e # es) shift =
      (case entry_gpa_shift e shift of None \<Rightarrow> present_gpas es shift | Some g \<Rightarrow> g # present_gpas es shift)"
    by (simp add: present_gpas_def List.map_filter_def split: option.split)
  ultimately show ?case using Cons by (cases "entry_gpa_shift e shift") simp_all
qed (simp add: present_gpas_def List.map_filter_def)

lemma tracked_more: "tracked k (s, h) \<Longrightarrow> set (h_calls h) \<subseteq> set (h_calls h') \<Longrightarrow> tracked k (s, h')"
  unfolding tracked_def fst_conv snd_conv by (meson tracks_more)

lemma tracked_build:
  assumes ok: "registry_ok s" and t: "tracked k (s, h)" and m: "mapping s mid = Some m"
  shows "tracked k (snd (build_guest_write_token mid (me_map_generation m) (s, h)))"
proof -
  let ?gpas = "present_gpas (me_page_entries m) (st_page_shift s)"
  let ?h = "\<lambda>answer. host_log (TrackGuestWrites ?gpas (st_page_size s) answer) h"
  have more: "tracked k (s, ?h answer)" for answer by (rule tracked_more [OF t]) auto
  have got: "tracked k (put_mapping mid (m\<lparr>me_guest_write_token := tok, me_guest_write_token_gen := me_map_generation m\<rparr>) s,
      ?h (Some tok))" if pages: "me_page_entries m \<noteq> []" and all: "length ?gpas = length (me_page_entries m)" for tok
  proof -
    let ?e = "m\<lparr>me_guest_write_token := tok, me_guest_write_token_gen := me_map_generation m\<rparr>"
    have "names_of ?e = me_page_entries m"
      using names_of_pages [OF registry_entry [OF ok m] pages] by (simp add: names_of_def split: option.splits)
    moreover have "tracks (?h (Some tok)) (st_page_shift s) (me_page_entries m) tok"
      using present_gpas_all [OF all] by (auto simp: tracks_def st_page_size_def)
    ultimately show ?thesis
      using more [of "Some tok"] unfolding tracked_def
      by (simp add: put_mapping_get [OF ok]) (metis funpow_0 zero_le)
  qed
  show ?thesis
    using t more got m by (auto simp: build_guest_write_token_def track_guest_writes_def Let_def split: option.split)
qed

lemma tracked_ensure:
  assumes ok: "registry_ok s" and t: "tracked k (s, h)"
  shows "tracked k (snd (ensure_guest_write_token mid (s, h)))"
proof (cases "mapping s mid")
  case None
  then show ?thesis using t by (simp add: ensure_guest_write_token_def)
next
  case (Some m)
  let ?e = "m\<lparr>me_guest_write_token := 0, me_guest_write_token_gen := 0, me_guest_write_gen_at_store := 0\<rparr>"
  let ?t = "(put_mapping mid ?e s)
      \<lparr>st_retired_guest_write_tokens := st_retired_guest_write_tokens s @ [me_guest_write_token m]\<rparr>"
  have "evolves 0 s (put_mapping mid ?e s)"
    by (rule evolves_put_same [OF ok]) (simp add: entry_some [OF Some] same_pages_def)
  then have ev: "evolves 0 s ?t" by (rule evolves_from) simp_all
  have "tokens_kept s ?t"
    using put_mapping_get [OF ok, of mid ?e] by (simp add: tokens_kept_def entry_or_default_def)
  then have "tracked k (?t, h)" using tracked_kept [OF t, of 0 "(?t, h)"] ev by simp
  moreover have "mapping ?t mid = Some ?e" by (simp add: put_mapping_get [OF ok])
  ultimately have "tracked k (snd (build_guest_write_token mid (me_map_generation ?e) (?t, h)))"
    by (rule tracked_build [OF evolves_ok [OF ev]])
  then show ?thesis
    using t tracked_build [OF ok t Some] by (simp add: ensure_guest_write_token_def Some Let_def)
qed

lemma tracked_stamp:
  assumes ok: "registry_ok s" and t: "tracked k (s, h)"
  shows "tracked k (stamp_guest_write_gen mid (s, h))"
proof -
  obtain tk u h' where e: "ensure_guest_write_token mid (s, h) = (tk, (u, h'))"
    by (cases "ensure_guest_write_token mid (s, h)") auto
  have 1: "tracked k (u, h')" using tracked_ensure [OF assms, of mid] e by simp
  have oku: "registry_ok u" using evolves_ok [OF evolves_ensure_token [OF ok, of mid h]] e by simp
  have "tracked k (put_mapping mid (m\<lparr>me_guest_write_gen_at_store := g\<rparr>) u, h')" if "mapping u mid = Some m" for m g
  proof -
    have "evolves 0 u (put_mapping mid (m\<lparr>me_guest_write_gen_at_store := g\<rparr>) u)"
      by (rule evolves_put_same [OF oku]) (simp add: entry_some [OF that] same_pages_def)
    moreover have "tokens_kept u (put_mapping mid (m\<lparr>me_guest_write_gen_at_store := g\<rparr>) u)"
      by (rule moves_tokens [OF moves_put [OF registry_ok_sorted [OF oku]]])
         (simp_all add: entry_some [OF that] same_objects_def same_pages_def)
    ultimately show ?thesis using tracked_kept [OF 1, of 0 "(put_mapping mid _ u, h')"] by simp
  qed
  with 1 show ?thesis by (simp add: stamp_guest_write_gen_def e Let_def split: option.split)
qed

lemma tokens_flush: "tokens_kept s (fst (flush_retired_views (s, h)))"
  by (simp add: flush_retired_views_def tokens_kept_def entry_or_default_def)

lemma tokens_delete:
  assumes ok: "bt_ok (st_mappings s)"
  shows "tokens_kept s (fst (delete_iosurface_backing2 mid (s, h)))"
proof -
  define u where "u = (if mapping_backing_condemned s mid then snd (unmap_surface mid s)
            else case condemn_surface_backing mid s of (True, s) \<Rightarrow> s | (False, s) \<Rightarrow> snd (unmap_surface mid s))"
  obtain b t where c: "condemn_surface_backing mid s = (b, t)" by (cases "condemn_surface_backing mid s")
  have t: "moves s t" using moves.rel_condemn [OF ok, of mid] c by simp
  have "moves s u"
    using t moves.rel_unmap_surface [OF ok] moves_trans [OF t moves.rel_unmap_surface [OF moves_sorted [OF t]]]
    by (simp add: u_def c split: bool.split)
  from tokens_trans [OF moves_tokens [OF this] tokens_flush] show ?thesis
    unfolding delete_iosurface_backing2_def prod.case u_def [symmetric] .
qed

lemma tokens_view:
  assumes ok: "bt_ok (st_mappings s)"
  shows "tokens_kept s (fst (snd (ensure_contig_view mid (s, h))))"
proof -
  obtain r t where r: "revalidate_mapping_pages h mid s = (r, t)" by (cases "revalidate_mapping_pages h mid s")
  have t: "moves s t" using moves.rel_revalidate [OF ok, of h mid] r by simp
  obtain u h1 where f: "flush_retired_views (t, h) = (u, h1)" by (cases "flush_retired_views (t, h)")
  have 2: "tokens_kept s u" using tokens_trans [OF moves_tokens [OF t] tokens_flush, of h] f by simp
  have "accounts (t, h) (u, h1)" using accounts_flush [OF moves_sorted [OF t], of h] f by simp
  then have oku: "bt_ok (st_mappings u)" using accounts_sorted by fastforce
  obtain g v h2 where e: "mapping_page_gpas mid (u, h1) = (g, (v, h2))"
    by (cases "mapping_page_gpas mid (u, h1)") auto
  have v: "moves u v" using moves.rel_revalidate [OF oku, of h1 mid] page_gpas_state [of mid u h1] e by simp
  have 3: "tokens_kept s v" by (rule tokens_trans [OF 2 moves_tokens [OF v]])
  have put: "tokens_kept s (put_mapping mid (m\<lparr>me_contig_fragmented_gen := a\<rparr>) v)"
    "tokens_kept s (put_mapping mid (m\<lparr>me_contig_ptr := b, me_contig_len := c\<rparr>) v)"
    if m: "mapping v mid = Some m" for m a b c
    by (rule tokens_trans [OF 3], simp add: tokens_kept_def put_entry_or_default [OF moves_sorted [OF v]] entry_some [OF m])+
  have "tokens_kept s (fst (snd (build_contig_view mid (u, h1))))"
    using 3 put by (auto simp: build_contig_view_def e map_pages_def Let_def split: option.split)
  with 2 moves_tokens [OF t] show ?thesis
    by (simp add: ensure_contig_view_def r f split: option.split)
qed

lemma step_tracked:
  assumes step: "surface_step a b" and ok: "registry_ok (fst a)" and t: "tracked k a"
  shows "tracked (k + 8) b"
proof -
  have "\<exists>cs. h_calls (snd b) = h_calls (snd a) @ cs"
    using step_accounts [OF step registry_ok_sorted [OF ok]] by (auto simp: accounts_def)
  then have "set (h_calls (snd a)) \<subseteq> set (h_calls (snd b))" by auto
  note kept = tracked_kept [OF t step_evolves [OF step ok] _ this]
  have grow: "tracked j c \<Longrightarrow> tracked (j + 8) c" for j c unfolding tracked_def by (meson trans_le_add1)
  have bt: "bt_ok (st_mappings (fst a))" by (rule registry_ok_sorted [OF ok])
  from step show ?thesis
  proof cases
    case elsewhere
    then show ?thesis
      by (intro kept) (simp add: registry_untouched_def tokens_kept_def entry_or_default_def)
  next
    case token_step
    with t ok show ?thesis by (auto intro!: grow tracked_ensure)
  next
    case stamp_step
    with t ok show ?thesis by (auto intro!: grow tracked_stamp)
  qed ((rule kept; use bt in \<open>auto intro!: tokens_flush tokens_delete tokens_view tokens_refl
          intro: rel_intros [THEN moves_tokens]\<close>)+)
qed

lemma run_tracked:
  assumes "(surface_step ^^ n) a b" and "registry_ok (fst a)" and "tracked 0 a"
  shows "tracked (8 * n) b"
  using assms(1)
proof (induction n arbitrary: b)
  case 0
  then show ?case using assms(3) by simp
next
  case (Suc n)
  from Suc.prems obtain c where c: "(surface_step ^^ n) a c" "surface_step c b" by (rule relpowp_Suc_E)
  have "registry_ok (fst c)" by (rule evolves_ok [OF run_evolves [OF c(1) assms(2)]])
  from step_tracked [OF c(2) this Suc.IH [OF c(1)]] show ?case by (simp add: add.commute)
qed

text \<open>
  C11: A clean verdict is about the pages the mapping has. In a registry that started without tokens, when the
  check of guest writes answers "clean" for a mapping that holds pages, the host was asked to watch
  exactly those pages, in that order, and answered with the token the verdict was read from; unless so many
  operations passed that a 32-bit generation could have wrapped.
\<close>

theorem clean_verdict_watches_the_pages:
  assumes "registry_ok s" and "\<forall>mid e. mapping s mid = Some e \<longrightarrow> me_guest_write_token e = 0"
    and "(surface_step ^^ n) (s, h) (s', h')" and "8 * n < 2 ^ 32 - 1"
    and "mapping_guest_write_verdict s' h' mid = GwClean"
    and "mapping s' mid = Some e" and "me_page_entries e \<noteq> []"
  shows "\<exists>gpas. map Some gpas = map (\<lambda>p. entry_gpa_shift p (st_page_shift s')) (me_page_entries e)
    \<and> TrackGuestWrites gpas (st_page_size s') (Some (me_guest_write_token e)) \<in> set (h_calls h')
    \<and> guest_write_gen h' (me_guest_write_token e) = Some (me_guest_write_gen_at_store e)"
proof -
  have live: "me_guest_write_token e \<noteq> 0" "me_guest_write_token_gen e = me_map_generation e"
    "guest_write_gen h' (me_guest_write_token e) = Some (me_guest_write_gen_at_store e)"
    using assms(5,6) by (auto simp: mapping_guest_write_verdict_def split: if_splits option.splits)
  have "tracked 0 (s, h)" using assms(2) by (auto simp: tracked_def)
  then have "tracked (8 * n) (s', h')" using run_tracked [OF assms(3)] assms(1) by simp
  with assms(6) live(1) obtain j names where j: "j \<le> 8 * n" "me_map_generation e = (next_gen ^^ j) (me_guest_write_token_gen e)"
    "j = 0 \<longrightarrow> names = names_of e" "tracks h' (st_page_shift s') names (me_guest_write_token e)"
    unfolding tracked_def fst_conv snd_conv by blast
  have "(next_gen ^^ j) (me_map_generation e) = me_map_generation e" using j(2) live(2) by simp
  moreover have "j < 4294967295" using j(1) assms(4) by simp
  ultimately have "j = 0" by (rule next_gens_return)
  moreover have "entry_ok e"
    using registry_entry [OF evolves_ok [OF run_evolves [OF assms(3)]]] assms(1,6) by simp
  ultimately have "names = me_page_entries e" using j(3) names_of_pages assms(7) by simp
  with j(4) live(3) show ?thesis by (auto simp: tracks_def st_page_size_def)
qed

section \<open>A host that watches\<close>

definition watching_host :: host where
  "watching_host = (image_host [])
     \<lparr>h_track_guest_writes := \<lambda>_ _ _. Some 77, h_guest_write_gen := \<lambda>_ _. Some 4\<rparr>"

lemma watched_surface:
  "\<exists>e h. stamp_guest_write_gen 7 (one_surface, watching_host) = (put_mapping 7 e one_surface, h)
     \<and> h_calls h = [TrackGuestWrites [0x1000, 0x2000] 0x1000 (Some 77)] \<and> guest_write_gen h 77 = Some 4
     \<and> me_guest_write_token e = 77 \<and> me_guest_write_token_gen e = 3 \<and> me_map_generation e = 3
     \<and> me_guest_write_gen_at_store e = 4 \<and> me_page_entries e = [5, 9] \<and> me_contig_ptr e = 0"
  by (simp add: stamp_guest_write_gen_def ensure_guest_write_token_def build_guest_write_token_def
      track_guest_writes_def guest_write_gen_def host_log_def watching_host_def image_host_def one_surface_def
      blank_surfaces_def mapping_default_def put_mapping_def present_gpas_def List.map_filter_def
      entry_gpa_shift_def PAGE_ENTRY_VALID_def PAGE_ENTRY_PFN_SHIFT_def shl64_def st_page_size_def Let_def)

lemma one_surface_holds_nothing: "objects_held one_surface = {#}"
  by (simp add: objects_held_def mapped_objects_def entry_objects_def view_objects_def token_objects_def
      retired_objects_def gva_objects_def one_surface_def blank_surfaces_def mapping_default_def)

lemma one_surface_blank: "mapping one_surface mid = Some e \<Longrightarrow> me_guest_write_token e = 0"
  by (auto simp: one_surface_def mapping_default_def split: if_splits)

theorem host_objects_given_back_once_witness:
  "\<exists>cs. h_calls (snd (snd (reset_with_host (stamp_guest_write_gen 7 (one_surface, watching_host))))) = cs
     \<and> TrackGuestWrites [0x1000, 0x2000] 0x1000 (Some 77) \<in> set cs \<and> released cs = acquired cs"
proof -
  obtain s' h' where w: "stamp_guest_write_gen 7 (one_surface, watching_host) = (s', h')"
    by (cases "stamp_guest_write_gen 7 (one_surface, watching_host)")
  obtain k s'' h'' where r: "reset_with_host (s', h') = (k, (s'', h''))" by (cases "reset_with_host (s', h')") auto
  have run: "(surface_step ^^ 1) (one_surface, watching_host) (s', h')"
    unfolding relpowp_1 w [symmetric] by (rule stamp_step)
  have none: "h_calls watching_host = []" by (simp add: watching_host_def image_host_def)
  from host_objects_given_back_once [OF one_surface_ok run r] none
  have "released (h_calls h'') = acquired (h_calls h'')" by (simp add: one_surface_holds_nothing)
  moreover have "set (h_calls h') \<subseteq> set (h_calls h'')"
    using r by (auto simp: reset_with_host_def take_all_host_views_def flush_retired_views_def log_fold_calls
        split: prod.splits)
  ultimately show ?thesis using watched_surface by (auto simp: w r)
qed

theorem clean_verdict_watches_the_pages_witness:
  "\<exists>gpas. map Some gpas = [Some 0x1000, Some 0x2000]
     \<and> TrackGuestWrites gpas 0x1000 (Some 77) \<in> set (h_calls (snd (stamp_guest_write_gen 7 (one_surface, watching_host))))"
proof -
  obtain e h where w: "stamp_guest_write_gen 7 (one_surface, watching_host) = (put_mapping 7 e one_surface, h)"
    "guest_write_gen h 77 = Some 4" "me_guest_write_token e = 77" "me_guest_write_token_gen e = 3"
    "me_map_generation e = 3" "me_guest_write_gen_at_store e = 4" "me_page_entries e = [5, 9]"
    using watched_surface by blast
  let ?s = "put_mapping 7 e one_surface"
  have run: "(surface_step ^^ 1) (one_surface, watching_host) (?s, h)"
    unfolding relpowp_1 w(1) [symmetric] by (rule stamp_step)
  have m: "mapping ?s 7 = Some e" by (simp add: put_mapping_get [OF one_surface_ok])
  then have v: "mapping_guest_write_verdict ?s h 7 = GwClean"
    using w by (simp add: mapping_guest_write_verdict_def)
  have none: "\<forall>mid e. mapping one_surface mid = Some e \<longrightarrow> me_guest_write_token e = 0"
    using one_surface_blank by blast
  have shift: "st_page_shift ?s = 12" by (simp add: one_surface_def blank_surfaces_def)
  from clean_verdict_watches_the_pages [OF one_surface_ok none run _ v m] w shift show ?thesis
    by (auto simp: entry_gpa_shift_def PAGE_ENTRY_VALID_def PAGE_ENTRY_PFN_SHIFT_def shl64_def st_page_size_def)
qed

end
