(* ===== verification/ValidityFacts.thy ===== *)
theory ValidityFacts
  imports Validity SurfaceHost
begin

text \<open>
  The licence to write back is a happens-before: it compares the last claim of the guest with the last
  publication of the device, whatever the registry did in between. And the write generations tell a
  reader exactly whether its object was written, until its task is retired.
\<close>

section \<open>Histories of claims and publications\<close>

text \<open>Every number drawn from the sequence, in order: a claim of the guest on a mapping, a publication
  into one, or a number drawn for a mapping that is not there.\<close>

datatype seq_event = Claim u32 | Publish u32 | Wasted

definition claims :: "validity_device \<Rightarrow> u32 \<Rightarrow> u32 \<Rightarrow> validity_ops \<Rightarrow> seq_event list" where
  "claims d task_id object_id ops =
     (if object_id = 0 \<or> vo_clear_host_valid ops = 0 then []
      else map Claim (filter (\<lambda>mid. mapping (vd_state d) mid \<noteq> None) (validity_targets d task_id object_id)))"

definition publication :: "surfaces \<Rightarrow> u32 \<Rightarrow> seq_event" where
  "publication s mid = (if mapping s mid = None then Wasted else Publish mid)"

inductive validity_step :: "validity_device \<times> seq_event list \<Rightarrow> validity_device \<times> seq_event list \<Rightarrow> bool" where
  applied: "validity_step (d, es) (snd (apply_validity tid ob ops d), es @ claims d tid ob ops)"
| written: "validity_step (d, es)
    (d\<lparr>vd_state := snd (mark_mapping_written mid (vd_state d))\<rparr>, es @ [publication (vd_state d) mid])"
| published: "validity_step (d, es)
    (d\<lparr>vd_state := snd (note_surface_content_published mid (vd_state d))\<rparr>, es @ [publication (vd_state d) mid])"
| registry: "surface_step (vd_state d, h) (s', h') \<Longrightarrow> st_validity_seq s' = st_validity_seq (vd_state d) \<Longrightarrow>
    validity_step (d, es) (d\<lparr>vd_state := s'\<rparr>, es)"
| bound: "validity_step (d, es) (d\<lparr>vd_texture_to_mapping := m, vd_buffer_write_gen := g\<rparr>, es)"

text \<open>The stamps of a registry are the positions of the last events.\<close>

definition stamped :: "surfaces \<Rightarrow> seq_event list \<Rightarrow> bool" where
  "stamped s es \<longleftrightarrow> bt_ok (st_mappings s) \<and> st_validity_seq s = of_nat (length es)
     \<and> (\<forall>mid. rv_host_cleared_seq (me_validity (entry_or_default s mid)) = of_nat (last_at ((=) (Claim mid)) es)
            \<and> rv_host_published_seq (me_validity (entry_or_default s mid)) = of_nat (last_at ((=) (Publish mid)) es))"

definition validity_kept :: "surfaces \<Rightarrow> surfaces \<Rightarrow> bool" where
  "validity_kept s s' \<longleftrightarrow> bt_ok (st_mappings s') \<and> st_validity_seq s' = st_validity_seq s
     \<and> (\<forall>mid. me_validity (entry_or_default s' mid) = me_validity (entry_or_default s mid))"

lemma retired_seq [simp]: "st_validity_seq (retire_token t s) = st_validity_seq s"
  "st_validity_seq (retire_view p len s) = st_validity_seq s" "st_validity_seq (put_mapping mid e s) = st_validity_seq s"
  by (simp_all add: retire_token_def retire_view_def put_mapping_def)

interpretation kept: registry_relation validity_kept
proof unfold_locales
  show "validity_kept s t" if "bt_ok (st_mappings s)" "registry_parts t = registry_parts s" for s t
    using that by (simp add: validity_kept_def registry_parts_def object_parts_def entry_or_default_def)
  show "validity_kept s (retire_token tk (retire_view p len (put_mapping mid e s)))"
    if "bt_ok (st_mappings s)" "hands_over (entry_or_default s mid) e p len tk" for s mid e p len tk
  proof -
    have "entry_or_default (retire_token tk (retire_view p len (put_mapping mid e s))) x = entry_or_default (put_mapping mid e s) x" for x
      by (simp add: entry_or_default_def)
    with that show ?thesis
      by (simp add: validity_kept_def put_mapping_sorted put_entry_or_default hands_over_def)
  qed
qed (auto simp: validity_kept_def)

section \<open>Operations on the registry keep the stamps\<close>

lemma kept_put:
  "bt_ok (st_mappings s) \<Longrightarrow> me_validity e = me_validity (entry_or_default s mid) \<Longrightarrow> validity_kept s (put_mapping mid e s)"
  by (simp add: validity_kept_def put_mapping_sorted put_entry_or_default)

lemma kept_flush: "bt_ok (st_mappings s) \<Longrightarrow> validity_kept s (fst (flush_retired_views (s, h)))"
  by (simp add: validity_kept_def flush_retired_views_def entry_or_default_def)

interpretation stamps: host_relation "\<lambda>s. bt_ok (st_mappings s)" "\<lambda>a b. validity_kept (fst a) (fst b)"
proof (unfold_locales, goal_cases)
  case (2 a b)
  then show ?case by (rule kept.rel_sorted)
next
  case (4 a b c)
  then show ?case by (blast intro: kept.rel_trans)
next
  case (9 s mid m h)
  then show ?case
    using kept_put [of s "m\<lparr>me_guest_write_token := 0, me_guest_write_token_gen := 0,
        me_guest_write_gen_at_store := 0\<rparr>" mid]
    by (simp add: entry_some dropped_token_def validity_kept_def entry_or_default_def)
qed (simp_all add: kept.rel_refl kept.rel_revalidate kept.rel_condemn kept.rel_unmap_surface kept_put kept_flush
    entry_some still_def calm_def)

lemmas kept_ops = stamps.hrel_intros [unfolded fst_conv]

lemma next_seq_moves:
  assumes "unat (st_validity_seq s) < 2 ^ 64 - 1"
  shows "st_validity_seq (snd (next_validity_seq s)) = st_validity_seq s + 1"
    "st_validity_seq s + 1 \<noteq> st_validity_seq s"
    "st_mappings (snd (next_validity_seq s)) = st_mappings s"
  using assms by (simp_all add: next_validity_seq_def saturating_add_def Let_def)

lemma kept_step:
  assumes step: "surface_step a b" and ok: "bt_ok (st_mappings (fst a))"
    and seq: "st_validity_seq (fst b) = st_validity_seq (fst a)" and small: "unat (st_validity_seq (fst a)) < 2 ^ 64 - 1"
  shows "validity_kept (fst a) (fst b)"
proof -
  have drawn: "st_validity_seq (snd (mark_mapping_written mid (fst a))) \<noteq> st_validity_seq (fst a)"
    "st_validity_seq (snd (note_surface_content_published mid (fst a))) \<noteq> st_validity_seq (fst a)" for mid
    using next_seq_moves [OF small]
    by (auto simp: mark_mapping_written_def note_surface_content_published_def Let_def split: option.split prod.split)
  from step show ?thesis
  proof cases
    case elsewhere
    then show ?thesis
      using ok seq by (simp add: validity_kept_def registry_untouched_def entry_or_default_def)
  next
    case (written_step s h mid)
    then show ?thesis using drawn(1) [of mid] seq by simp
  next
    case (published_step s h mid)
    then show ?thesis using drawn(2) [of mid] seq by simp
  qed (use ok in \<open>auto intro: kept_ops rel_intros\<close>)
qed

section \<open>The stamps are the history\<close>

lemma stamped_kept: "stamped s es \<Longrightarrow> validity_kept s s' \<Longrightarrow> stamped s' es"
  by (simp add: stamped_def validity_kept_def)

lemma put_fresh_stamp:
  assumes "stamped s es" "length es < 2 ^ 64 - 1" and m: "mapping s mid = Some m"
    and v: "me_validity m' = (me_validity m)\<lparr>rv_host_cleared_seq := of_nat (Suc (length es))\<rparr>
        \<and> ev = Claim mid
      \<or> me_validity m' = (me_validity m)\<lparr>rv_host_published_seq := of_nat (Suc (length es))\<rparr>
        \<and> ev = Publish mid"
  shows "stamped (put_mapping mid m' (snd (next_validity_seq s))) (es @ [ev])"
proof -
  let ?t = "snd (next_validity_seq s)"
  have n: "unat (st_validity_seq s) = length es" using assms(1,2) by (simp add: stamped_def unat_of_nat_small)
  then have seq: "st_validity_seq ?t = of_nat (Suc (length es))" "st_mappings ?t = st_mappings s"
    using next_seq_moves [of s] assms(1,2) by (simp_all add: stamped_def)
  then have "bt_ok (st_mappings ?t)" using assms(1) by (simp add: stamped_def)
  moreover have "entry_or_default ?t x = entry_or_default s x" for x using seq by (simp add: entry_or_default_def)
  ultimately show ?thesis
    using assms(1) v seq entry_some [OF m]
    by (auto simp: stamped_def put_mapping_sorted put_entry_or_default last_at_snoc)
qed

lemma stamped_wasted:
  assumes "stamped s es" "length es < 2 ^ 64 - 1"
  shows "stamped (snd (next_validity_seq s)) (es @ [Wasted])"
proof -
  let ?t = "snd (next_validity_seq s)"
  have n: "unat (st_validity_seq s) = length es" using assms by (simp add: stamped_def unat_of_nat_small)
  then have seq: "st_validity_seq ?t = of_nat (Suc (length es))" "st_mappings ?t = st_mappings s"
    using next_seq_moves [of s] assms by (simp_all add: stamped_def)
  then show ?thesis using assms(1) by (simp add: stamped_def last_at_snoc entry_or_default_def)
qed

lemma next_seq_value: "stamped s es \<Longrightarrow> length es < 2 ^ 64 - 1 \<Longrightarrow>
    next_validity_seq s = (of_nat (Suc (length es)), snd (next_validity_seq s))"
  by (simp add: next_validity_seq_def saturating_add_def stamped_def unat_of_nat_small Let_def)

lemma stamped_publication:
  assumes "stamped s es" "length es < 2 ^ 64 - 1"
  shows "stamped (snd (mark_mapping_written mid s)) (es @ [publication s mid])"
    "stamped (snd (note_surface_content_published mid s)) (es @ [publication s mid])"
proof -
  let ?t = "snd (next_validity_seq s)"
  have m: "st_mappings ?t = st_mappings s" by (simp add: next_validity_seq_def Let_def)
  note n = next_seq_value [OF assms]
  show "stamped (snd (mark_mapping_written mid s)) (es @ [publication s mid])"
    using stamped_wasted [OF assms] put_fresh_stamp [OF assms]
    by (subst mark_mapping_written_def, subst n) (auto simp: m publication_def Let_def split: option.split)
  show "stamped (snd (note_surface_content_published mid s)) (es @ [publication s mid])"
    using stamped_wasted [OF assms] put_fresh_stamp [OF assms]
    by (subst note_surface_content_published_def, subst n) (auto simp: m publication_def Let_def split: option.split)
qed

lemma next_validity_stamps [simp]:
  "rv_host_cleared_seq (next_validity v ops) = rv_host_cleared_seq v"
  "rv_host_published_seq (next_validity v ops) = rv_host_published_seq v"
  by (simp_all add: next_validity_def Let_def)

definition claim_of :: "validity_ops \<Rightarrow> surfaces \<Rightarrow> u32 \<Rightarrow> seq_event list" where
  "claim_of ops s mid = (if vo_clear_host_valid ops \<noteq> 0 \<and> mapping s mid \<noteq> None then [Claim mid] else [])"

lemma stamped_restated:
  assumes st: "stamped s es" and m: "mapping s mid = Some m"
    and v: "rv_host_cleared_seq v = rv_host_cleared_seq (me_validity m)"
      "rv_host_published_seq v = rv_host_published_seq (me_validity m)"
  shows "stamped (put_mapping mid (m\<lparr>me_validity := v\<rparr>) s) es"
  using assms entry_some [OF m] by (auto simp: stamped_def put_mapping_sorted put_entry_or_default)

lemma stamped_get: "stamped s es \<Longrightarrow> mapping (put_mapping mid e s) x = (if x = mid then Some e else mapping s x)"
  by (simp add: stamped_def put_mapping_def bt_get_update)

lemma stamped_target:
  assumes st: "stamped s es" and small: "length es < 2 ^ 64 - 1"
  shows "stamped (snd (apply_target ops mid (bh, s))) (es @ claim_of ops s mid)"
    "mapping (snd (apply_target ops mid (bh, s))) x = None \<longleftrightarrow> mapping s x = None"
proof -
  obtain b hit where bh: "bh = (b, hit)" by (cases bh)
  obtain t where n: "next_validity_seq s = (of_nat (Suc (length es)), t)" and td: "snd (next_validity_seq s) = t"
    using next_seq_value [OF st small] by metis
  have mt: "st_mappings t = st_mappings s" using n by (auto simp: next_validity_seq_def Let_def)
  show "stamped (snd (apply_target ops mid (bh, s))) (es @ claim_of ops s mid)"
  proof (cases "mapping s mid")
    case None
    then show ?thesis using st by (simp add: apply_target_def bh claim_of_def)
  next
    case (Some m)
    show ?thesis
    proof (cases "vo_clear_host_valid ops = 0")
      case True
      then show ?thesis using st Some stamped_restated [OF st Some] by (simp add: apply_target_def bh claim_of_def)
    next
      case False
      let ?m = "m\<lparr>me_content_generation := saturating_add (me_content_generation m) 1,
          me_validity := (me_validity m)\<lparr>rv_host_cleared_seq := of_nat (Suc (length es))\<rparr>\<rparr>"
      have 1: "stamped (put_mapping mid ?m t) (es @ [Claim mid])"
        using put_fresh_stamp [OF st small Some, of ?m "Claim mid"] by (simp add: td)
      have g: "mapping (put_mapping mid ?m t) mid = Some ?m"
        using st mt by (simp add: stamped_def put_mapping_def bt_get_update)
      have "stamped (put_mapping mid (?m\<lparr>me_validity := next_validity (me_validity ?m) ops\<rparr>) (put_mapping mid ?m t))
          (es @ [Claim mid])"
        by (rule stamped_restated [OF 1 g]) simp_all
      then show ?thesis
        using False Some g by (simp add: apply_target_def n bh claim_of_def mt)
    qed
  qed
  show "mapping (snd (apply_target ops mid (bh, s))) x = None \<longleftrightarrow> mapping s x = None"
  proof (cases "mapping s mid")
    case None
    then show ?thesis by (simp add: apply_target_def bh)
  next
    case (Some m)
    have ok: "bt_ok (st_mappings s)" "bt_ok (st_mappings t)" using st mt by (simp_all add: stamped_def)
    have get: "mapping (put_mapping mid e u) y = (if y = mid then Some e else mapping u y)" if "bt_ok (st_mappings u)" for e u y
      using that by (simp add: put_mapping_def bt_get_update)
    show ?thesis
      using Some by (simp add: apply_target_def n bh mt get ok put_mapping_sorted split: option.split)
  qed
qed

lemma stamped_targets:
  assumes "stamped s es" "length es + length mids < 2 ^ 64"
  shows "stamped (snd (fold (apply_target ops) mids (bh, s))) (es @ concat (map (claim_of ops s) mids))"
  using assms
proof (induction mids arbitrary: bh s es)
  case (Cons mid mids)
  then have small: "length es < 2 ^ 64 - 1" by simp
  obtain bh' s' where a: "apply_target ops mid (bh, s) = (bh', s')" by (cases "apply_target ops mid (bh, s)")
  note t = stamped_target [OF Cons.prems(1) small, of ops mid bh, unfolded a snd_conv]
  have "claim_of ops s' x = claim_of ops s x" for x using t(2) by (simp add: claim_of_def)
  moreover have "length (es @ claim_of ops s mid) + length mids < 2 ^ 64"
    using Cons.prems(2) by (simp add: claim_of_def)
  ultimately show ?case
    using Cons.IH [OF t(1), of bh'] by (simp add: a del: length_append)
qed simp

lemma stamped_applied:
  assumes st: "stamped (vd_state d) es" and small: "length es + 2 < 2 ^ 64"
  shows "stamped (vd_state (snd (apply_validity tid ob ops d))) (es @ claims d tid ob ops)"
proof (cases "ob = 0")
  case True
  then show ?thesis using st by (simp add: apply_validity_def claims_def)
next
  case False
  let ?mids = "validity_targets d tid ob"
  obtain b hit s where f: "fold (apply_target ops) ?mids ((0, False), vd_state d) = ((b, hit), s)"
    by (cases "fold (apply_target ops) ?mids ((0, False), vd_state d)") auto
  have "length ?mids \<le> 2" by (auto simp: validity_targets_def split: option.split)
  then have "stamped s (es @ concat (map (claim_of ops (vd_state d)) ?mids))"
    using stamped_targets [OF st, of ?mids ops "(0, False)"] small f by simp
  moreover have "concat (map (claim_of ops (vd_state d)) mids) = (if vo_clear_host_valid ops = 0 then []
      else map Claim (filter (\<lambda>mid. mapping (vd_state d) mid \<noteq> None) mids))" for mids
    by (induction mids) (simp_all add: claim_of_def)
  ultimately show ?thesis
    using False by (cases "vo_clear_host_valid ops = 0") (simp_all add: apply_validity_def f claims_def Let_def)
qed

lemma step_stamped:
  assumes step: "validity_step a b" and st: "stamped (vd_state (fst a)) (snd a)"
    and small: "length (snd b) + 2 < 2 ^ 64"
  shows "stamped (vd_state (fst b)) (snd b) \<and> length (snd a) \<le> length (snd b)"
  using step
proof cases
  case applied
  then show ?thesis using st small stamped_applied by simp
next
  case written
  then show ?thesis using st small stamped_publication(1) by simp
next
  case published
  then show ?thesis using st small stamped_publication(2) by simp
next
  case (registry d h s' h' es)
  then have "unat (st_validity_seq (vd_state d)) < 2 ^ 64 - 1"
    using st small by (simp add: stamped_def unat_of_nat_small)
  moreover have "bt_ok (st_mappings (vd_state d))" using st registry by (simp add: stamped_def)
  ultimately have "validity_kept (vd_state d) s'"
    using kept_step [OF registry(3)] registry(4) by simp
  with st registry show ?thesis using stamped_kept by simp
next
  case bound
  then show ?thesis using st by simp
qed

lemma run_stamped:
  assumes "(validity_step ^^ n) a b" and "stamped (vd_state (fst a)) (snd a)" and "length (snd b) + 2 < 2 ^ 64"
  shows "stamped (vd_state (fst b)) (snd b)"
  using assms
proof (induction n arbitrary: a)
  case (Suc n)
  from Suc.prems(1) obtain c where c: "validity_step a c" "(validity_step ^^ n) c b" by (rule relpowp_Suc_E2)
  have grow: "validity_step x y \<Longrightarrow> length (snd x) \<le> length (snd y)" for x y by (auto elim: validity_step.cases)
  have "(validity_step ^^ m) x b \<Longrightarrow> length (snd x) \<le> length (snd b)" for m x
  proof (induction m arbitrary: x)
    case (Suc m)
    from Suc.prems obtain y where "validity_step x y" "(validity_step ^^ m) y b" by (rule relpowp_Suc_E2)
    then show ?case using grow [of x y] Suc.IH [of y] by simp
  qed simp
  from this [OF c(2)] Suc.prems(3) step_stamped [OF c(1) Suc.prems(2)] have "stamped (vd_state (fst c)) (snd c)" by simp
  from Suc.IH [OF c(2) this Suc.prems(3)] show ?case .
qed simp

lemma last_before:
  "last_at ((=) x) es < last_at ((=) y) es \<longleftrightarrow> x \<noteq> y \<and> (\<exists>before after. es = before @ y # after \<and> x \<notin> set after)"
proof (induction es rule: rev_induct)
  case (snoc z es)
  have ends: "(\<exists>before after. es @ [z] = before @ y # after \<and> x \<notin> set after) \<longleftrightarrow>
      z = y \<or> x \<noteq> z \<and> (\<exists>before after. es = before @ y # after \<and> x \<notin> set after)"
  proof (intro iffI)
    assume "\<exists>before after. es @ [z] = before @ y # after \<and> x \<notin> set after"
    then obtain before after where b: "es @ [z] = before @ y # after" "x \<notin> set after" by blast
    show "z = y \<or> x \<noteq> z \<and> (\<exists>before after. es = before @ y # after \<and> x \<notin> set after)"
      using b by (cases after rule: rev_cases) auto
  next
    assume "z = y \<or> x \<noteq> z \<and> (\<exists>before after. es = before @ y # after \<and> x \<notin> set after)"
    then show "\<exists>before after. es @ [z] = before @ y # after \<and> x \<notin> set after"
    proof
      assume "z = y"
      then have "es @ [z] = es @ y # []" by simp
      then show ?thesis by fastforce
    next
      assume "x \<noteq> z \<and> (\<exists>before after. es = before @ y # after \<and> x \<notin> set after)"
      then obtain before after where b: "es = before @ y # after" "x \<notin> set after" "x \<noteq> z" by blast
      then have "es @ [z] = before @ y # (after @ [z])" "x \<notin> set (after @ [z])" by simp_all
      then show ?thesis by blast
    qed
  qed
  show ?case
    using snoc last_at_le [of "(=) x" es] last_at_le [of "(=) y" es] unfolding ends by (auto simp: last_at_snoc)
qed simp

lemma last_at_zero: "last_at ((=) x) es = 0 \<longleftrightarrow> x \<notin> set es"
  by (induction es rule: rev_induct) (auto simp: last_at_snoc)

text \<open>
  C30: The licence to write a surface back is a happens-before. From a registry without stamps, through any
  statements of the guest, publications and operations, the device may write back exactly when the guest
  never claimed the surface or the device published into it after the last claim; short of as many numbers
  as a 64-bit counter has.
\<close>

theorem licence_is_happens_before:
  assumes "(validity_step ^^ n) (d, []) (d', es)" and "stamped (vd_state d) []" and "length es + 2 < 2 ^ 64"
  shows "writeback_licence_of (vd_state d') mid =
    (if Claim mid \<notin> set es then Unstated
     else if \<exists>before after. es = before @ Publish mid # after \<and> Claim mid \<notin> set after then Licensed
     else Superseded)"
proof -
  have st: "stamped (vd_state d') es" using run_stamped [OF assms(1)] assms(2,3) by simp
  have v: "writeback_licence_of (vd_state d') mid = licence_of (me_validity (entry_or_default (vd_state d') mid))"
    by (simp add: writeback_licence_of_def entry_or_default_def mapping_default_def split: option.split)
  have small: "last_at P es < 2 ^ 64" for P using last_at_le [of P es] assms(3) by simp
  have u: "unat (of_nat (last_at P es) :: u64) = last_at P es" for P
    using small [of P] by (intro unat_of_nat_small) simp
  have zero: "(of_nat (last_at ((=) (Claim mid)) es) :: u64) = 0 \<longleftrightarrow> Claim mid \<notin> set es"
    using u [of "(=) (Claim mid)"] last_at_zero [of "Claim mid" es] by (metis unat_0 unat_eq_0)
  have less: "(of_nat (last_at ((=) (Claim mid)) es) :: u64) < of_nat (last_at ((=) (Publish mid)) es) \<longleftrightarrow>
      (\<exists>before after. es = before @ Publish mid # after \<and> Claim mid \<notin> set after)"
    by (simp add: word_less_nat_alt u last_before)
  show ?thesis using st by (simp add: v licence_of_def stamped_def zero less)
qed

definition claimed_device :: validity_device where
  "claimed_device = \<lparr>vd_state = one_surface, vd_texture_to_mapping = [((1, 5), 7)], vd_buffer_write_gen = bw_default\<rparr>"

lemma claimed_device_stamped: "stamped (vd_state claimed_device) []"
  using one_surface_ok
  by (auto simp: stamped_def claimed_device_def registry_ok_def one_surface_def blank_surfaces_def
      entry_or_default_def mapping_default_def validity_default_def)

theorem licence_is_happens_before_witness:
  "writeback_refused (vd_state (snd (apply_validity 1 5 OPS_PAGEON claimed_device))) 7"
proof -
  let ?d = "snd (apply_validity 1 5 OPS_PAGEON claimed_device)"
  have "claims claimed_device 1 5 OPS_PAGEON = [Claim 7]"
    by (simp add: claims_def OPS_PAGEON_def validity_targets_def claimed_device_def one_surface_def)
  then have run: "(validity_step ^^ 1) (claimed_device, []) (?d, [Claim 7])"
    unfolding relpowp_1 using applied [of claimed_device "[]" 1 5 OPS_PAGEON] by simp
  show ?thesis
    using licence_is_happens_before [OF run claimed_device_stamped]
    by (simp add: writeback_refused_def Cons_eq_append_conv)
qed

section \<open>Write generations\<close>

datatype write_event = Wrote u32 u32 | Retired u32

fun bw_event :: "write_event \<Rightarrow> buffer_write_gens \<Rightarrow> buffer_write_gens" where
  "bw_event (Wrote t ob) = bw_note_write t ob"
| "bw_event (Retired t) = bw_retire_task t"

definition bw_run :: "write_event list \<Rightarrow> buffer_write_gens \<Rightarrow> buffer_write_gens" where
  "bw_run es g = fold bw_event es g"

definition bw_ok :: "nat \<Rightarrow> buffer_write_gens \<Rightarrow> bool" where
  "bw_ok n g \<longleftrightarrow> bt_ok (bw_gens g) \<and> unat (bw_epoch g) \<le> n
     \<and> (\<forall>k v. map_of (bw_gens g) k = Some v \<longrightarrow> 0 < unat v \<and> unat v \<le> n)"

abbreviation slot :: "buffer_write_gens \<Rightarrow> u32 \<Rightarrow> u32 \<Rightarrow> u64" where
  "slot g t ob \<equiv> ws_gen (bw_stamp g t ob)"

lemma bt_filter_key: "bt_ok m \<Longrightarrow> bt_ok (filter (\<lambda>e. P (fst e)) m)"
  unfolding bt_ok_def by (induction m) auto

lemma map_of_filter_key: "map_of (filter (\<lambda>e. P (fst e)) m) k = (if P k then map_of m k else None)"
  by (induction m) auto

lemma bw_ok_event:
  assumes ok: "bw_ok n g" and small: "n < 2 ^ 64 - 1"
  shows "bw_ok (Suc n) (bw_event e g)"
proof (cases e)
  case (Retired t)
  then show ?thesis
    using ok bt_filter_key [of "bw_gens g" "\<lambda>k. fst k \<noteq> t"]
    by (fastforce simp: bw_ok_def bw_retire_task_def map_of_filter_key [where P = "\<lambda>k. fst k \<noteq> t"] split: if_splits)
next
  case (Wrote t ob)
  have up: "unat x \<le> n \<Longrightarrow> unat (x + 1) = Suc (unat x)" for x :: u64
    using small unat_add_no_wrap [of x 1] by simp
  define g' where "g' = (if length (bw_gens g) \<ge> BW_MAX \<and> map_of (bw_gens g) (t, ob) = None
      then g\<lparr>bw_gens := [], bw_epoch := bw_epoch g + 1\<rparr> else g)"
  have g': "bt_ok (bw_gens g')" "unat (bw_epoch g') \<le> Suc n"
    "\<And>k v. map_of (bw_gens g') k = Some v \<Longrightarrow> 0 < unat v \<and> unat v \<le> n"
    using ok up [of "bw_epoch g"] by (auto simp: g'_def bw_ok_def bt_ok_def split: if_splits)
  have "bw_event e g = g'\<lparr>bw_gens := bt_insert (t, ob)
      ((case map_of (bw_gens g') (t, ob) of None \<Rightarrow> 0 | Some n \<Rightarrow> n) + 1) (bw_gens g')\<rparr>"
    by (simp add: Wrote bw_note_write_def g'_def Let_def)
  then show ?thesis
    using g' up by (auto simp: bw_ok_def bt_insert_ok bt_get_update split: option.splits) (use le_SucI in blast)+
qed

lemma bw_event_stamp:
  assumes ok: "bw_ok n g" and small: "n < 2 ^ 64 - 1" and e: "e \<noteq> Retired t"
  shows "unat (bw_epoch (bw_event e g)) = unat (bw_epoch g) \<and>
      unat (slot (bw_event e g) t ob) = unat (slot g t ob) + (if e = Wrote t ob then 1 else 0)
    \<or> unat (bw_epoch (bw_event e g)) = Suc (unat (bw_epoch g))"
proof (cases e)
  case (Retired u)
  with e show ?thesis
    by (simp add: bw_retire_task_def bw_stamp_def map_of_filter_key [where P = "\<lambda>k. fst k \<noteq> u"])
next
  case (Wrote u x)
  have bt: "bt_ok (bw_gens g)" using ok by (simp add: bw_ok_def)
  have b: "unat (slot g t ob) \<le> n" "unat (bw_epoch g) \<le> n"
    using ok by (auto simp: bw_ok_def bw_stamp_def split: option.split)
  then have "unat (slot g t ob + 1) = Suc (unat (slot g t ob))" "unat (bw_epoch g + 1) = Suc (unat (bw_epoch g))"
    using small unat_add_no_wrap [of "slot g t ob" 1] unat_add_no_wrap [of "bw_epoch g" 1] by simp_all
  then show ?thesis
    using bt by (auto simp: Wrote bw_note_write_def bw_stamp_def Let_def bt_get_update)
qed

lemma bw_run_stamp:
  assumes "bw_ok n g" "n + length es < 2 ^ 64 - 1" "Retired t \<notin> set es"
  shows "unat (bw_epoch (bw_run es g)) = unat (bw_epoch g)
      \<and> (slot (bw_run es g) t ob = slot g t ob \<longleftrightarrow> Wrote t ob \<notin> set es)
      \<and> unat (slot g t ob) \<le> unat (slot (bw_run es g) t ob)
    \<or> unat (bw_epoch g) < unat (bw_epoch (bw_run es g))"
  using assms
proof (induction es arbitrary: n g)
  case (Cons e es)
  let ?g = "bw_event e g"
  have "bw_ok (Suc n) ?g" using bw_ok_event [OF Cons.prems(1)] Cons.prems(2) by simp
  note ih = Cons.IH [OF this]
  have first: "unat (bw_epoch ?g) = unat (bw_epoch g) \<and>
      unat (slot ?g t ob) = unat (slot g t ob) + (if e = Wrote t ob then 1 else 0)
    \<or> unat (bw_epoch ?g) = Suc (unat (bw_epoch g))"
    by (rule bw_event_stamp [OF Cons.prems(1)]) (use Cons.prems in auto)
  have eq: "x = y \<longleftrightarrow> unat x = unat y" for x y :: u64 by (rule word_unat_eq_iff)
  from first ih Cons.prems(2,3) show ?case
    unfolding eq by (auto simp: bw_run_def)
qed (simp add: bw_run_def)

lemma bw_run_ok: "bw_ok n g \<Longrightarrow> n + length es < 2 ^ 64 \<Longrightarrow> bw_ok (n + length es) (bw_run es g)"
proof (induction es arbitrary: n g)
  case (Cons e es)
  from bw_ok_event [OF Cons.prems(1), of e] Cons.prems(2) Cons.IH [of "Suc n" "bw_event e g"] show ?case
    by (simp add: bw_run_def)
qed (simp add: bw_run_def)

text \<open>
  C32: A quiet buffer was not written. Between two stamps with no retirement of the task in between, a reader
  is told "quiet" exactly when no write to the object was declared and the record was never cleared; but
  the retirement of a task forgets its objects without moving the epoch, so that the stamp of a retired
  object and that of another task's object, written as often under the same ids, compare as quiet.
\<close>

theorem quiet_buffer_unwritten:
  assumes "Retired t \<notin> set es" and "length before + length es < 2 ^ 64 - 1"
  shows "(quiet_since (bw_stamp (bw_run (before @ es) bw_default) t ob) (bw_stamp (bw_run before bw_default) t ob)
      \<longleftrightarrow> Wrote t ob \<notin> set es \<and> bw_epoch (bw_run (before @ es) bw_default) = bw_epoch (bw_run before bw_default))
    \<and> quiet_since (bw_stamp (bw_run [Wrote t ob, Retired t, Wrote t ob] bw_default) t ob)
      (bw_stamp (bw_run [Wrote t ob] bw_default) t ob)"
proof
  have "bw_ok 0 bw_default" by (simp add: bw_ok_def bw_default_def bt_ok_def)
  then have "bw_ok (length before) (bw_run before bw_default)" using bw_run_ok [of 0 bw_default before] assms(2) by simp
  from bw_run_stamp [OF this _ assms(1), of ob] assms(2)
  show "quiet_since (bw_stamp (bw_run (before @ es) bw_default) t ob) (bw_stamp (bw_run before bw_default) t ob)
      \<longleftrightarrow> Wrote t ob \<notin> set es \<and> bw_epoch (bw_run (before @ es) bw_default) = bw_epoch (bw_run before bw_default)"
    by (auto simp: bw_run_def quiet_since_def word_unat_eq_iff) (auto simp: bw_stamp_def)
  show "quiet_since (bw_stamp (bw_run [Wrote t ob, Retired t, Wrote t ob] bw_default) t ob)
      (bw_stamp (bw_run [Wrote t ob] bw_default) t ob)"
    by (simp add: quiet_since_def bw_stamp_def bw_run_def bw_note_write_def bw_retire_task_def bw_default_def BW_MAX_def Let_def)
qed

theorem quiet_buffer_unwritten_witness:
  "\<not> quiet_since (bw_stamp (bw_run [Wrote 1 7, Wrote 2 7, Wrote 1 7] bw_default) 1 7)
      (bw_stamp (bw_run [Wrote 1 7] bw_default) 1 7)"
  using quiet_buffer_unwritten [of 1 "[Wrote 2 7, Wrote 1 7]" "[Wrote 1 7]" 7] by simp

end
