(* ===== verification/ViewPages.thy ===== *)
theory ViewPages
  imports SurfaceHost
begin

text \<open>
  What a live view shows. The pointer a mapping holds was handed out for the page list the mapping has now,
  and, when the host hands out no pointer that is still out, nobody has given it back since.
\<close>

section \<open>Pointers that are out\<close>

fun view_call :: "host_call \<Rightarrow> u64 set \<Rightarrow> u64 set" where
  "view_call (MapPages gpas page_sz (Some p)) ps = insert p ps"
| "view_call (UnmapPages p len) ps = ps - {p}"
| "view_call _ ps = ps"

definition open_ptrs :: "host_call list \<Rightarrow> u64 set" where
  "open_ptrs cs = fold view_call cs {}"

text \<open>A host that never answers with a pointer that is still out.\<close>

definition fresh_log :: "host_call list \<Rightarrow> bool" where
  "fresh_log cs \<longleftrightarrow>
     (\<forall>before gpas page_sz p after. cs = before @ MapPages gpas page_sz (Some p) # after \<longrightarrow> p \<notin> open_ptrs before)"

definition view_count :: "u64 \<Rightarrow> host_object multiset \<Rightarrow> nat" where
  "view_count p M = size (filter_mset (\<lambda>x. case x of View q len \<Rightarrow> q = p | Token t \<Rightarrow> False) M)"

lemma view_count_simps [simp]:
  "view_count p {#} = 0" "view_count p (M + N) = view_count p M + view_count p N"
  "view_count p (view_objects q len) = (if q = p \<and> p \<noteq> 0 then 1 else 0)" "view_count p (token_objects t) = 0"
  by (auto simp: view_count_def view_objects_def token_objects_def)

lemma view_count_entry [simp]:
  "view_count p (entry_objects e) = (if me_contig_ptr e = p \<and> p \<noteq> 0 then 1 else 0)"
  by (simp add: entry_objects_def)

lemma view_count_in: "View p len \<in># M \<Longrightarrow> 0 < view_count p M"
proof -
  assume "View p len \<in># M"
  then have "View p len \<in># filter_mset (\<lambda>x. case x of View q len \<Rightarrow> q = p | Token t \<Rightarrow> False) M" by simp
  then show ?thesis unfolding view_count_def by (metis empty_iff size_eq_0_iff_empty gr0I set_mset_empty)
qed

lemma view_count_views:
  "view_count p (image_mset (\<lambda>v. View (fst v) (snd v)) (mset vs)) = length (filter (\<lambda>v. fst v = p) vs)"
  by (induction vs) (simp_all add: view_count_def)

lemma view_count_tokens: "view_count p (image_mset Token (mset ts)) = 0"
  by (induction ts) (simp_all add: view_count_def)

lemma fresh_prefix: "fresh_log (cs @ ds) \<Longrightarrow> fresh_log cs"
  by (simp add: fresh_log_def)

lemma fresh_next: "fresh_log (cs @ [MapPages gpas page_sz (Some p)]) \<Longrightarrow> p \<notin> open_ptrs cs"
  by (simp add: fresh_log_def)

lemma open_ptrs_append: "open_ptrs (cs @ ds) = fold view_call ds (open_ptrs cs)"
  by (simp add: open_ptrs_def)

lemma open_ptrs_kept: "released_by c = {#} \<Longrightarrow> open_ptrs cs \<subseteq> open_ptrs (cs @ [c])"
  by (cases "(c, open_ptrs cs)" rule: view_call.cases) (auto simp: open_ptrs_append)

lemma open_ptrs_flushed:
  "open_ptrs (cs @ map (\<lambda>v. UnmapPages (fst v) (snd v)) vs @ map UntrackGuestWrites ts) = open_ptrs cs - fst ` set vs"
proof -
  have "fold view_call (map UntrackGuestWrites ts) ps = ps" for ps by (induction ts arbitrary: ps) simp_all
  moreover have "fold view_call (map (\<lambda>v. UnmapPages (fst v) (snd v)) vs) ps = ps - fst ` set vs" for ps
    by (induction vs arbitrary: ps) auto
  ultimately show ?thesis by (simp add: open_ptrs_append)
qed

section \<open>Sound views\<close>

definition handed_out :: "host_call list \<Rightarrow> u64 \<Rightarrow> u64 list \<Rightarrow> u64 \<Rightarrow> bool" where
  "handed_out cs p gpas page_sz \<longleftrightarrow>
     (\<exists>before after. cs = before @ MapPages gpas page_sz (Some p) # after
        \<and> (fresh_log cs \<longrightarrow> (\<forall>len. UnmapPages p len \<notin> set after)))"

definition view_sound :: "host_call list \<Rightarrow> u32 \<Rightarrow> mapping_entry \<Rightarrow> bool" where
  "view_sound cs shift e \<longleftrightarrow> me_condemned_entries e = None
     \<and> (\<exists>gpas. map Some gpas = map (\<lambda>p. entry_gpa_shift p shift) (me_page_entries e)
          \<and> me_contig_len e = of_nat (length gpas) * page_size_of shift
          \<and> handed_out cs (me_contig_ptr e) gpas (page_size_of shift))"

definition sound :: "surfaces \<times> host \<Rightarrow> bool" where
  "sound a \<longleftrightarrow>
     (\<forall>mid e. mapping (fst a) mid = Some e \<and> me_contig_ptr e \<noteq> 0 \<longrightarrow>
        view_sound (h_calls (snd a)) (st_page_shift (fst a)) e)
   \<and> (fresh_log (h_calls (snd a)) \<longrightarrow>
        (\<forall>p. view_count p (objects_held (fst a)) \<le> (if p \<in> open_ptrs (h_calls (snd a)) then 1 else 0)))"

lemma handed_out_more:
  assumes "handed_out cs p gpas sz" "fresh_log (cs @ ds) \<Longrightarrow> \<forall>len. UnmapPages p len \<notin> set ds"
  shows "handed_out (cs @ ds) p gpas sz"
proof -
  from assms(1) obtain before after where b: "cs = before @ MapPages gpas sz (Some p) # after"
    "fresh_log cs \<Longrightarrow> \<forall>len. UnmapPages p len \<notin> set after" by (auto simp: handed_out_def)
  then have "cs @ ds = before @ MapPages gpas sz (Some p) # (after @ ds)" by simp
  moreover have "\<forall>len. UnmapPages p len \<notin> set (after @ ds)" if "fresh_log (cs @ ds)"
    using b(2) fresh_prefix [OF that] assms(2) [OF that] by simp
  ultimately show ?thesis unfolding handed_out_def by blast
qed

lemma view_sound_more:
  assumes "view_sound cs shift e" "fresh_log (cs @ ds) \<Longrightarrow> \<forall>len. UnmapPages (me_contig_ptr e) len \<notin> set ds"
  shows "view_sound (cs @ ds) shift e"
  using assms handed_out_more unfolding view_sound_def by blast

lemma entry_in_held: "mapping s mid = Some e \<Longrightarrow> entry_objects e \<subseteq># mapped_objects (st_mappings s)"
proof -
  have "map_of ms mid = Some e \<Longrightarrow> entry_objects e \<subseteq># mapped_objects ms" for ms
    by (induction ms) (auto simp: mapped_objects_def intro: subset_mset.order_trans split: if_splits)
  then show "mapping s mid = Some e \<Longrightarrow> entry_objects e \<subseteq># mapped_objects (st_mappings s)" .
qed

lemma view_count_mono: "M \<subseteq># N \<Longrightarrow> view_count p M \<le> view_count p N"
  by (auto simp: view_count_def intro!: size_mset_mono multiset_filter_mono)

lemma sound_moves:
  assumes "sound (s, h)" and mv: "moves s s'" and calls: "h_calls h' = h_calls h"
  shows "sound (s', h')"
proof -
  have "view_sound (h_calls h) (st_page_shift s) e'" if e': "mapping s' mid = Some e'" "me_contig_ptr e' \<noteq> 0" for mid e'
  proof -
    let ?e = "entry_or_default s mid"
    have k: "keeps_objects ?e e'" using mv entry_some [OF e'(1)] by (auto simp: moves_def)
    then have same: "me_contig_ptr e' = me_contig_ptr ?e" "me_contig_len e' = me_contig_len ?e"
      using e'(2) by (auto simp: keeps_objects_def)
    then obtain e where e: "mapping s mid = Some e"
      using e'(2) by (cases "mapping s mid") (auto simp: entry_or_default_def mapping_default_def)
    have "view_sound (h_calls h) (st_page_shift s) e"
      using assms(1) e e'(2) same by (auto simp: sound_def entry_some)
    then show ?thesis
      using k same e'(2) by (auto simp: view_sound_def keeps_objects_def same_pages_def entry_some [OF e])
  qed
  then show ?thesis using assms by (auto simp: sound_def moves_def)
qed

lemma sound_called:
  assumes "sound (s, h)" and none: "released_by c = {#}"
  shows "sound (s, host_log c h)"
proof -
  have "\<forall>len. UnmapPages p len \<notin> set [c]" for p using none by auto
  then have "view_sound (h_calls h @ [c]) shift e" if "view_sound (h_calls h) shift e" for shift e
    using view_sound_more [OF that] by blast
  moreover have "view_count p (objects_held s) \<le> (if p \<in> open_ptrs (h_calls h @ [c]) then 1 else 0)"
    if "fresh_log (h_calls h @ [c])" for p
    using assms(1) fresh_prefix [OF that] open_ptrs_kept [OF none, of "h_calls h"]
    by (auto simp: sound_def split: if_splits intro: le_trans)
  ultimately show ?thesis using assms(1) by (auto simp: sound_def)
qed

lemma sound_flush:
  assumes "sound (s, h)"
  shows "sound (flush_retired_views (s, h))"
proof -
  let ?un = "map (\<lambda>v. UnmapPages (fst v) (snd v)) (st_retired_views s) @ map UntrackGuestWrites (st_retired_guest_write_tokens s)"
  let ?cs = "h_calls h"
  obtain s' h' where f: "flush_retired_views (s, h) = (s', h')" by (cases "flush_retired_views (s, h)")
  have s': "st_mappings s' = st_mappings s" "st_page_shift s' = st_page_shift s" "h_calls h' = ?cs @ ?un"
    and held: "objects_held s = objects_held s' + image_mset (\<lambda>v. View (fst v) (snd v)) (mset (st_retired_views s))
      + image_mset Token (mset (st_retired_guest_write_tokens s))"
    using f by (auto simp: flush_retired_views_def log_fold_calls objects_held_def retired_objects_def)
  have n: "view_count p (objects_held s) = view_count p (objects_held s') + length (filter (\<lambda>v. fst v = p) (st_retired_views s))" for p
    by (simp add: held view_count_views view_count_tokens)
  have once: "view_count p (objects_held s) \<le> (if p \<in> open_ptrs ?cs then 1 else 0)" if "fresh_log (?cs @ ?un)" for p
    using assms fresh_prefix [OF that] by (auto simp: sound_def)
  have "view_sound (?cs @ ?un) (st_page_shift s) e" if e: "mapping s mid = Some e" "me_contig_ptr e \<noteq> 0" for mid e
  proof (rule view_sound_more)
    show "view_sound ?cs (st_page_shift s) e" using assms e by (auto simp: sound_def)
    let ?p = "me_contig_ptr e"
    have "view_count ?p (entry_objects e) \<le> view_count ?p (objects_held s')"
      using entry_in_held [OF e(1)] s'(1) by (intro view_count_mono) (simp add: objects_held_def subset_mset.add_increasing2)
    then have "1 \<le> view_count ?p (objects_held s')" using e(2) by simp
    moreover assume f: "fresh_log (?cs @ ?un)"
    moreover have "view_count ?p (objects_held s) \<le> 1" using once [OF f, of ?p] by (simp split: if_splits)
    ultimately have "length (filter (\<lambda>v. fst v = ?p) (st_retired_views s)) = 0"
      using n [of ?p] by linarith
    then show "\<forall>len. UnmapPages ?p len \<notin> set ?un" by (force simp: filter_empty_conv)
  qed
  moreover have "view_count p (objects_held s') \<le> (if p \<in> open_ptrs (?cs @ ?un) then 1 else 0)"
    if "fresh_log (?cs @ ?un)" for p
  proof (cases "p \<in> fst ` set (st_retired_views s)")
    case True
    then have "0 < length (filter (\<lambda>v. fst v = p) (st_retired_views s))" by (auto simp: filter_empty_conv)
    moreover have "view_count p (objects_held s) \<le> 1" using once [OF that, of p] by (simp split: if_splits)
    ultimately have "view_count p (objects_held s') = 0" using n [of p] by linarith
    then show ?thesis by simp
  next
    case False
    then show ?thesis using once [OF that, of p] n [of p] by (simp add: open_ptrs_flushed)
  qed
  ultimately show ?thesis using s' by (auto simp: sound_def f)
qed

lemma sound_put:
  assumes "sound (s, h)" and ok: "bt_ok (st_mappings s)" and m: "mapping s mid = Some m"
    and same: "me_contig_ptr e = me_contig_ptr m" "me_contig_len e = me_contig_len m"
      "me_page_entries e = me_page_entries m" "me_condemned_entries e = me_condemned_entries m"
  shows "sound (put_mapping mid e s, h)"
proof -
  have "objects_held (put_mapping mid e s) + entry_objects m = objects_held s + entry_objects e"
    using held_put [OF ok, of mid e] by (simp add: entry_some [OF m])
  then have "view_count p (objects_held (put_mapping mid e s)) + view_count p (entry_objects m)
      = view_count p (objects_held s) + view_count p (entry_objects e)" for p
    by (metis view_count_simps(2))
  then have "view_count p (objects_held (put_mapping mid e s)) = view_count p (objects_held s)" for p
    using same by simp
  moreover have "mapping (put_mapping mid e s) x = (if x = mid then Some e else mapping s x)" for x
    using ok by (simp add: put_mapping_def bt_get_update)
  ultimately show ?thesis
    using assms(1) m same by (auto simp: sound_def view_sound_def)
qed

lemma sound_view:
  assumes "sound (s, h)" and ok: "registry_ok s" and m: "mapping s mid = Some m"
    and none: "me_contig_ptr m = 0" "me_page_entries m \<noteq> []"
    and gpas: "gpas = present_gpas (me_page_entries m) (st_page_shift s)" "length gpas = length (me_page_entries m)"
    and sz: "sz = page_size_of (st_page_shift s)"
  shows "sound (put_mapping mid (m\<lparr>me_contig_ptr := p, me_contig_len := of_nat (length gpas) * sz\<rparr>) s,
    host_log (MapPages gpas sz (Some p)) h)"
proof -
  let ?e = "m\<lparr>me_contig_ptr := p, me_contig_len := of_nat (length gpas) * sz\<rparr>" and ?c = "MapPages gpas sz (Some p)"
  let ?s = "put_mapping mid ?e s" and ?cs = "h_calls h"
  have logged: "sound (s, host_log ?c h)" by (rule sound_called [OF assms(1)]) simp
  have "objects_held ?s + entry_objects m = objects_held s + entry_objects ?e"
    using held_put [OF registry_ok_sorted [OF ok], of mid ?e] by (simp add: entry_some [OF m])
  then have "view_count q (objects_held ?s) + view_count q (entry_objects m) = view_count q (objects_held s) + view_count q (entry_objects ?e)" for q
    by (metis view_count_simps(2))
  then have n: "view_count q (objects_held ?s) = view_count q (objects_held s) + (if q = p \<and> p \<noteq> 0 then 1 else 0)" for q
    using none by (auto split: if_splits)
  have "view_count q (objects_held ?s) \<le> (if q \<in> open_ptrs (?cs @ [?c]) then 1 else 0)" if f: "fresh_log (?cs @ [?c])" for q
  proof (cases "q = p \<and> p \<noteq> 0")
    case True
    have "view_count p (objects_held s) = 0"
      using assms(1) fresh_prefix [OF f] fresh_next [OF f] by (auto simp: sound_def split: if_splits)
    then show ?thesis using n [of q] True by (simp add: open_ptrs_append)
  next
    case False
    then have "view_count q (objects_held ?s) = view_count q (objects_held s)" using n [of q] by auto
    then show ?thesis using logged f by (auto simp: sound_def)
  qed
  moreover have "view_sound (?cs @ [?c]) (st_page_shift s) ?e"
  proof -
    have "me_condemned_entries m = None"
      using registry_entry [OF ok m] none(2) by (simp add: entry_ok_def)
    moreover have "handed_out (?cs @ [?c]) p gpas sz" unfolding handed_out_def by force
    moreover have "map Some gpas = map (\<lambda>p. entry_gpa_shift p (st_page_shift s)) (me_page_entries m)"
      using present_gpas_all gpas by simp
    ultimately show ?thesis using sz by (auto simp: view_sound_def intro!: exI [of _ gpas])
  qed
  moreover have "mapping ?s x = (if x = mid then Some ?e else mapping s x)" for x by (rule put_mapping_get [OF ok])
  ultimately show ?thesis using logged by (auto simp: sound_def)
qed

section \<open>Runs\<close>

definition sounder :: "surfaces \<times> host \<Rightarrow> surfaces \<times> host \<Rightarrow> bool" where
  "sounder a b \<longleftrightarrow> registry_ok (fst b) \<and> (sound a \<longrightarrow> sound b)"

lemma sounder_registry:
  "registry_ok s \<Longrightarrow> evolves n s s' \<Longrightarrow> moves s s' \<Longrightarrow> sounder (s, h) (s', h)"
  using evolves_ok sound_moves unfolding sounder_def by fastforce

lemma sounder_put:
  assumes ok: "registry_ok s" and m: "mapping s mid = Some m" and pages: "same_pages m e"
    and sound: "sound (s, h) \<Longrightarrow> sound (put_mapping mid e s, h')"
  shows "sounder (s, h) (put_mapping mid e s, h')"
  using evolves_ok [OF evolves_put_same [OF ok]] sound pages by (simp add: sounder_def entry_some [OF m])

interpretation views: host_relation registry_ok sounder
proof (unfold_locales, goal_cases)
  case (4 a b c)
  then show ?case by (auto simp: sounder_def)
next
  case (8 s mid m e h)
  then have e: "same_objects m e" "same_pages m e" by (simp_all add: still_def calm_def)
  then have "moves s (put_mapping mid e s)"
    using 8 by (intro moves_put) (simp_all add: registry_ok_sorted entry_some)
  from sound_moves [OF _ this refl] show ?case by (rule sounder_put [OF 8(1,2) e(2)])
next
  case (9 s mid m h)
  then have mv: "moves s (dropped_token mid m s)" by (intro dropped_token_moves) (simp_all add: registry_ok_sorted)
  have "evolves 0 s (dropped_token mid m s)"
    unfolding dropped_token_def by (rule evolves_from [OF evolves_put_same]) (use 9 in \<open>simp_all add: entry_some same_pages_def\<close>)
  then show ?case by (rule sounder_registry [OF 9(1) _ mv])
next
  case (11 s c h)
  then show ?case by (simp add: sounder_def sound_called)
next
  case (12 s mid m h t gen gpas sz)
  then show ?case
    by (intro sounder_put sound_called sound_put) (simp_all add: registry_ok_sorted same_pages_def)
next
  case (13 s mid m gpas sz h p)
  then show ?case
    by (intro sounder_put sound_view) (simp_all add: same_pages_def)
next
  case (5 s h g mid)
  then show ?case by (blast intro: sounder_registry [OF _ evolves_revalidate moves.rel_revalidate] registry_ok_sorted)
next
  case (6 s h mid)
  then show ?case by (blast intro: sounder_registry [OF _ evolves_condemn moves.rel_condemn] registry_ok_sorted)
next
  case (7 s h mid)
  then show ?case by (blast intro: sounder_registry [OF _ evolves_unmap_surface moves.rel_unmap_surface] registry_ok_sorted)
next
  case (10 s h)
  then show ?case using evolves_ok [OF evolves_flush] by (simp add: sounder_def sound_flush)
qed (simp_all add: sounder_def registry_ok_sorted)

lemma step_sound:
  assumes step: "surface_step a b" and ok: "registry_ok (fst a)" and s: "sound a"
  shows "sound b"
proof -
  have reg: "registry_ok (fst b)" by (rule evolves_ok [OF step_evolves [OF step ok]])
  have pure: "moves s s' \<Longrightarrow> sound (s, h) \<Longrightarrow> sound (s', h)" for s s' h by (rule sound_moves) simp_all
  note bt = registry_ok_sorted [OF ok]
  from step show ?thesis
  proof cases
    case (guest h' h s)
    then show ?thesis using s bt sound_moves [OF _ moves_refl] by simp
  next
    case (elsewhere s s' h)
    then show ?thesis
      using s unfolding sound_def by (auto simp: registry_untouched_def objects_held_def retired_objects_def)
  qed (use ok s bt views.hrel_intros [unfolded sounder_def] in \<open>auto intro: pure rel_intros\<close>)
qed

lemma run_sound:
  assumes "(surface_step ^^ n) a b" and "registry_ok (fst a)" and "sound a"
  shows "sound b"
  using assms(1)
proof (induction n arbitrary: b)
  case 0
  then show ?case using assms(3) by simp
next
  case (Suc n)
  from Suc.prems obtain c where c: "(surface_step ^^ n) a c" "surface_step c b" by (rule relpowp_Suc_E)
  show ?case by (rule step_sound [OF c(2) evolves_ok [OF run_evolves [OF c(1) assms(2)]] Suc.IH [OF c(1)]])
qed

text \<open>A registry that holds nothing.\<close>

lemma sound_empty:
  assumes "objects_held s = {#}"
  shows "sound (s, h)"
proof -
  have "me_contig_ptr e = 0" if "mapping s mid = Some e" for mid e
  proof -
    have "entry_objects e = {#}" using entry_in_held [OF that] assms by (simp add: objects_held_def)
    then show ?thesis by (simp add: entry_objects_def view_objects_def split: if_splits)
  qed
  then show ?thesis using assms by (auto simp: sound_def)
qed

text \<open>
  C6: A view shows the pages of its mapping. Start with a registry that holds no host object. Whatever the
  registry, the guest and the host do after that, a view that a mapping holds was handed out by the host for
  the pages in the mapping's present list, in order and over the length recorded with it; and, if the
  host never hands out a pointer that is still out, the view has not been given back since.
\<close>

theorem live_view_shows_the_pages:
  assumes "registry_ok s" and "objects_held s = {#}" and "(surface_step ^^ n) (s, h) (s', h')"
    and "mapping s' mid = Some e" and "me_contig_ptr e \<noteq> 0"
  shows "\<exists>before gpas after. h_calls h' = before @ MapPages gpas (page_size_of (st_page_shift s')) (Some (me_contig_ptr e)) # after
    \<and> map Some gpas = map (\<lambda>p. entry_gpa_shift p (st_page_shift s')) (me_page_entries e)
    \<and> me_contig_len e = of_nat (length gpas) * page_size_of (st_page_shift s')
    \<and> (fresh_log (h_calls h') \<longrightarrow> (\<forall>len. UnmapPages (me_contig_ptr e) len \<notin> set after))"
proof -
  have "sound (s', h')" using run_sound [OF assms(3)] assms(1,2) sound_empty by simp
  then have "view_sound (h_calls h') (st_page_shift s') e" using assms(4,5) by (simp add: sound_def)
  then show ?thesis unfolding view_sound_def handed_out_def by blast
qed

definition mapping_host :: host where
  "mapping_host = (image_host [])\<lparr>h_map_pages := \<lambda>_ _ _. Some 0x7000\<rparr>"

lemma contig_surface:
  "\<exists>e h. snd (ensure_contig_view 7 (one_surface, mapping_host)) = (put_mapping 7 e one_surface, h)
     \<and> h_calls h = [MapPages [0x1000, 0x2000] 0x1000 (Some 0x7000)]
     \<and> me_contig_ptr e = 0x7000 \<and> me_page_entries e = [5, 9]"
  by (simp add: ensure_contig_view_def build_contig_view_def revalidate_mapping_pages_def revalidate_mapping_reason_def
      revalidate_verdict_def flush_retired_views_def mapping_page_gpas_def map_pages_def host_log_def mapping_host_def
      image_host_def one_surface_def blank_surfaces_def mapping_default_def put_mapping_def present_gpas_def
      List.map_filter_def entry_gpa_shift_def PAGE_ENTRY_VALID_def PAGE_ENTRY_PFN_SHIFT_def shl64_def page_size_of_def
      first_control_page_collision_def st_page_size_def ring_collision_def directory_collision_def
      contig_run_count_def page_break_def Let_def)

theorem live_view_shows_the_pages_witness:
  "\<exists>before gpas after. h_calls (snd (snd (ensure_contig_view 7 (one_surface, mapping_host))))
      = before @ MapPages gpas 0x1000 (Some 0x7000) # after \<and> map Some gpas = [Some 0x1000, Some 0x2000]"
proof -
  obtain e h where w: "snd (ensure_contig_view 7 (one_surface, mapping_host)) = (put_mapping 7 e one_surface, h)"
    "me_contig_ptr e = 0x7000" "me_page_entries e = [5, 9]"
    using contig_surface by blast
  let ?s = "put_mapping 7 e one_surface"
  have run: "(surface_step ^^ 1) (one_surface, mapping_host) (?s, h)"
    unfolding relpowp_1 w(1) [symmetric] by (rule view_step)
  have m: "mapping ?s 7 = Some e" by (simp add: put_mapping_get [OF one_surface_ok])
  have shift: "st_page_shift ?s = 12" by (simp add: one_surface_def blank_surfaces_def)
  have live: "me_contig_ptr e \<noteq> 0" using w(2) by simp
  from live_view_shows_the_pages [OF one_surface_ok one_surface_holds_nothing run m live] w shift
  have "\<exists>before gpas after. h_calls h = before @ MapPages gpas 0x1000 (Some 0x7000) # after
      \<and> map Some gpas = [Some 0x1000, Some 0x2000]"
    unfolding w(2) w(3) by (simp add: page_size_of_def shl64_def entry_gpa_shift_def PAGE_ENTRY_VALID_def
        PAGE_ENTRY_PFN_SHIFT_def) metis
  then show ?thesis by (simp add: w(1))
qed

end
