(* ===== verification/MappingCopy.thy ===== *)
theory MappingCopy
  imports ViewPages
begin

text \<open>
  Bytes through a mapping, runtime/mapper/mod.rs: \<open>copy_mapping_runs\<close> and its two callers. Guest memory is a
  function from guest physical addresses to bytes. What a host pointer shows is the host's to say: the
  parameter \<open>behind\<close> gives, for the calls made so far, the guest address behind a pointer and an offset.
\<close>

section \<open>The code\<close>

type_synonym ram = "u64 \<Rightarrow> u8"

type_synonym showing = "host_call list \<Rightarrow> u64 \<Rightarrow> nat \<Rightarrow> u64"

datatype run_copy = CopyWrite "u8 list" | CopyRead "u8 list"

fun rc_len :: "run_copy \<Rightarrow> nat" where
  "rc_len (CopyWrite buf) = length buf"
| "rc_len (CopyRead buf) = length buf"

fun rc_is_write :: "run_copy \<Rightarrow> bool" where
  "rc_is_write (CopyWrite buf) = True"
| "rc_is_write (CopyRead buf) = False"

text \<open>\<open>apply\<close>: \<open>n\<close> bytes between the buffer at \<open>buf_off\<close> and the mapped range \<open>shown\<close> at \<open>host_off\<close>.\<close>

fun rc_apply :: "(nat \<Rightarrow> u64) \<Rightarrow> nat \<Rightarrow> nat \<Rightarrow> nat \<Rightarrow> run_copy \<times> ram \<Rightarrow> run_copy \<times> ram" where
  "rc_apply shown host_off buf_off n (CopyWrite buf, ram) =
     (CopyWrite buf, fold (\<lambda>k r. r(shown (host_off + k) := buf ! (buf_off + k))) [0..<n] ram)"
| "rc_apply shown host_off buf_off n (CopyRead buf, ram) =
     (CopyRead (fold (\<lambda>k b. b[buf_off + k := ram (shown (host_off + k))]) [0..<n] buf), ram)"

text \<open>\<open>partition_point\<close> answers for a list that the predicate splits; the ranges ascend, so it does.\<close>

definition selected_within :: "(u64 \<times> u64) list option \<Rightarrow> u64 \<Rightarrow> u64 \<Rightarrow> (u64 \<times> u64) list" where
  "selected_within ranges lo hi =
     (case ranges of
        None \<Rightarrow> if lo < hi then [(lo, hi)] else []
      | Some rs \<Rightarrow>
          let start = length (takeWhile (\<lambda>(s, e). e \<le> lo) rs)
          in List.map_filter
               (\<lambda>(s, e). let a = max s lo; b = min e hi in if a < b then Some (a, b) else None)
               (takeWhile (\<lambda>(s, e). s < hi) (drop start rs)))"

text \<open>The selected parts of one mapped range, which holds the mapping's bytes from \<open>base\<close> on.\<close>

definition copy_selected ::
  "(nat \<Rightarrow> u64) \<Rightarrow> (u64 \<times> u64) list option \<Rightarrow> u64 \<Rightarrow> u64 \<Rightarrow> u64 \<Rightarrow> u64 \<Rightarrow> run_copy \<times> ram \<Rightarrow> run_copy \<times> ram" where
  "copy_selected shown only off base lo hi cr =
     fold (\<lambda>(sel_lo, sel_hi).
             rc_apply shown (unat (sel_lo - base)) (unat (sel_lo - off)) (unat (sel_hi - sel_lo)))
       (selected_within only lo hi) cr"

definition copy_one_run ::
  "showing \<Rightarrow> (u64 \<times> u64) list option \<Rightarrow> u64 \<Rightarrow> u64 \<Rightarrow> nat \<Rightarrow> u64 \<Rightarrow> u64 list \<Rightarrow> nat \<times> nat \<Rightarrow>
   (run_copy \<times> ram) \<times> host \<Rightarrow> bool \<times> (run_copy \<times> ram) \<times> host" where
  "copy_one_run behind only off need_end len page_sz gpas run st =
     (case (run, st) of ((a, b), (cr, h)) \<Rightarrow>
        let run_gpas = take (b - a) (drop a gpas);
            run_mlo = saturating_mul (of_nat a) page_sz;
            run_mhi = saturating_mul (of_nat b) page_sz;
            copy_lo = max off run_mlo;
            copy_hi = min need_end run_mhi
        in if copy_lo \<ge> copy_hi then (True, cr, h)
           else case map_pages run_gpas page_sz h of
             (None, h) \<Rightarrow> (False, cr, h)
           | (Some ptr, h) \<Rightarrow>
               let total = saturating_mul (of_nat (length run_gpas)) page_sz;
                   buf_off = unat (copy_lo - off);
                   host_off = unat (copy_lo - run_mlo);
                   n = unat (copy_hi - copy_lo)
               in if host_off + n > unat total \<or> buf_off + n > len
                  then (False, cr, host_log (UnmapPages ptr total) h)
                  else (True, copy_selected (behind (h_calls h) ptr) only off run_mlo copy_lo copy_hi cr,
                        host_log (UnmapPages ptr total) h))"

primrec copy_runs ::
  "((run_copy \<times> ram) \<times> host \<Rightarrow> nat \<times> nat \<Rightarrow> bool \<times> (run_copy \<times> ram) \<times> host) \<Rightarrow> (nat \<times> nat) list \<Rightarrow>
   (run_copy \<times> ram) \<times> host \<Rightarrow> bool \<times> (run_copy \<times> ram) \<times> host" where
  "copy_runs copy [] st = (True, st)"
| "copy_runs copy (run # runs) st =
     (case copy st run of (ok, st) \<Rightarrow> if ok then copy_runs copy runs st else (False, st))"

definition copy_mapping_runs ::
  "showing \<Rightarrow> u32 \<Rightarrow> u64 \<Rightarrow> (u64 \<times> u64) list option \<Rightarrow> (run_copy \<times> ram) \<times> (surfaces \<times> host) \<Rightarrow>
   bool \<times> (run_copy \<times> ram) \<times> (surfaces \<times> host)" where
  "copy_mapping_runs behind mid off only st =
     (case st of (cr, (s, h)) \<Rightarrow>
        let s = (if rc_is_write (fst cr) then note_host_wrote_mapping mid s else s);
            page_sz = st_page_size s;
            len = rc_len (fst cr);
            need_end = saturating_add off (of_nat len)
        in case ensure_contig_view mid (s, h) of (cached, (s, h)) \<Rightarrow>
           (case (case cached of
                    None \<Rightarrow> None
                  | Some (ptr, view_len) \<Rightarrow>
                      if view_len \<ge> need_end \<and> unat off + len \<le> unat view_len then Some ptr else None) of
              Some ptr \<Rightarrow> (True, copy_selected (behind (h_calls h) ptr) only off 0 off need_end cr, (s, h))
            | None \<Rightarrow>
                (case mapping_page_gpas mid (s, h) of
                   (None, (s, h)) \<Rightarrow> (False, cr, (s, h))
                 | (Some gpas, (s, h)) \<Rightarrow>
                     if need_end > saturating_mul (of_nat (length gpas)) page_sz then (False, cr, (s, h))
                     else case flush_retired_views (s, h) of (s, h) \<Rightarrow>
                       (case copy_runs (\<lambda>st run. copy_one_run behind only off need_end len page_sz gpas run st)
                               (contig_page_runs gpas page_sz) (cr, h) of
                          (ok, cr, h) \<Rightarrow> (ok, cr, (s, h))))))"

text \<open>
  The two callers. \<open>settle\<close> is the deferred writeback that the engine lands before a byte moves: it may change
  the registry, the host and guest memory. The residency windows the write invalidates are not in
  \<open>surfaces\<close>.
\<close>

definition write_mapping_bytes_only ::
  "showing \<Rightarrow> (u32 \<Rightarrow> ram \<times> surfaces \<times> host \<Rightarrow> ram \<times> surfaces \<times> host) \<Rightarrow> u32 \<Rightarrow> u64 \<Rightarrow> u8 list \<Rightarrow>
   (u64 \<times> u64) list option \<Rightarrow> pages_vouched \<Rightarrow> ram \<times> surfaces \<times> host \<Rightarrow> bool \<times> ram \<times> surfaces \<times> host" where
  "write_mapping_bytes_only behind settle mid off buf only vouched st =
     (if buf = [] then (True, st)
      else case settle mid st of (ram, s, h) \<Rightarrow>
        if \<not> vouch_covers vouched s mid then (False, ram, s, h)
        else case copy_mapping_runs behind mid off only ((CopyWrite buf, ram), (s, h)) of
          (ok, (_, ram), (s, h)) \<Rightarrow> (ok, ram, s, h))"

definition write_mapping_bytes ::
  "showing \<Rightarrow> (u32 \<Rightarrow> ram \<times> surfaces \<times> host \<Rightarrow> ram \<times> surfaces \<times> host) \<Rightarrow> u32 \<Rightarrow> u64 \<Rightarrow> u8 list \<Rightarrow>
   pages_vouched \<Rightarrow> ram \<times> surfaces \<times> host \<Rightarrow> bool \<times> ram \<times> surfaces \<times> host" where
  "write_mapping_bytes behind settle mid off buf vouched st =
     write_mapping_bytes_only behind settle mid off buf None vouched st"

definition read_mapping_bytes ::
  "showing \<Rightarrow> (u32 \<Rightarrow> ram \<times> surfaces \<times> host \<Rightarrow> ram \<times> surfaces \<times> host) \<Rightarrow> u32 \<Rightarrow> u64 \<Rightarrow> u8 list \<Rightarrow>
   ram \<times> surfaces \<times> host \<Rightarrow> bool \<times> u8 list \<times> ram \<times> surfaces \<times> host" where
  "read_mapping_bytes behind settle mid off buf st =
     (if buf = [] then (True, buf, st)
      else case settle mid st of (ram, s, h) \<Rightarrow>
        (case copy_mapping_runs behind mid off None ((CopyRead buf, ram), (s, h)) of
           (ok, (copy, ram), (s, h)) \<Rightarrow>
             (ok, (case copy of CopyRead buf \<Rightarrow> buf | CopyWrite buf \<Rightarrow> buf), ram, s, h)))"

section \<open>One byte at a time\<close>

text \<open>Where byte \<open>x\<close> of a mapping lies, and the copy of that byte.\<close>

definition byte_place :: "nat \<Rightarrow> u64 list \<Rightarrow> nat \<Rightarrow> u64" where
  "byte_place page_sz gpas x = gpas ! (x div page_sz) + of_nat (x mod page_sz)"

definition move_byte :: "(nat \<Rightarrow> u64) \<Rightarrow> nat \<Rightarrow> nat \<Rightarrow> run_copy \<times> ram \<Rightarrow> run_copy \<times> ram" where
  "move_byte place off x = rc_apply (\<lambda>_. place x) 0 (x - off) 1"

definition chosen :: "(u64 \<times> u64) list option \<Rightarrow> nat \<Rightarrow> bool" where
  "chosen only x = (case only of None \<Rightarrow> True | Some rs \<Rightarrow> list_ex (\<lambda>(s, e). unat s \<le> x \<and> x < unat e) rs)"

definition wanted :: "(u64 \<times> u64) list option \<Rightarrow> nat \<Rightarrow> nat \<Rightarrow> nat list" where
  "wanted only lo hi = filter (chosen only) [lo..<hi]"

definition selection_ok :: "(u64 \<times> u64) list option \<Rightarrow> bool" where
  "selection_ok only = (case only of None \<Rightarrow> True
     | Some rs \<Rightarrow> list_all (\<lambda>(s, e). s \<le> e) rs \<and> sorted_wrt (\<lambda>r r'. snd r \<le> fst r') rs)"

lemma rc_apply_bytes:
  "rc_apply shown host_off buf_off n cr = fold (\<lambda>k. rc_apply (\<lambda>_. shown (host_off + k)) 0 (buf_off + k) 1) [0..<n] cr"
proof (cases cr)
  case (Pair copy ram)
  then show ?thesis
  proof (cases copy)
    case (CopyWrite buf)
    with Pair show ?thesis
    proof (induction n)
      case (Suc n)
      from Suc.IH [OF Suc.prems, symmetric] Suc.prems show ?case by simp
    qed simp
  next
    case (CopyRead buf)
    with Pair show ?thesis
    proof (induction n)
      case (Suc n)
      from Suc.IH [OF Suc.prems, symmetric] Suc.prems show ?case by simp
    qed simp
  qed
qed

lemma rc_apply_moves:
  assumes "\<And>k. k < n \<Longrightarrow> shown (host_off + k) = place (x + k)" and "off \<le> x"
  shows "rc_apply shown host_off (x - off) n cr = fold (move_byte place off) [x..<x + n] cr"
proof -
  have "fold (move_byte place off) [x..<x + n] cr = fold (\<lambda>k. move_byte place off (x + k)) [0..<n] cr"
    by (induction n) simp_all
  also have "\<dots> = fold (\<lambda>k. rc_apply (\<lambda>_. shown (host_off + k)) 0 (x - off + k) 1) [0..<n] cr"
    using assms by (intro fold_cong) (auto simp: move_byte_def)
  finally show ?thesis by (simp add: rc_apply_bytes [of shown])
qed

lemma filter_next_interval:
  assumes "\<And>x. Q x \<Longrightarrow> e \<le> x"
  shows "filter (\<lambda>x. s \<le> x \<and> x < e \<or> Q x) [lo..<hi] = [max s lo..<min e hi] @ filter Q [lo..<hi]"
proof (induction hi)
  case (Suc hi)
  have none: "filter Q [lo..<hi] = []" if "hi < e" using that assms by (force simp: filter_empty_conv)
  have "[max s lo..<min e (Suc hi)] = (if lo \<le> hi \<and> s \<le> hi \<and> hi < e then [max s lo..<min e hi] @ [hi] else [max s lo..<min e hi])"
    by (auto simp: min_def max_def not_le le_Suc_eq)
  then show ?case using Suc none assms [of hi] by (auto simp: not_le)
qed simp

lemma selected_bytes:
  assumes ok: "selection_ok only"
  shows "concat (map (\<lambda>(a, b). [unat a..<unat b]) (selected_within only lo hi)) = wanted only (unat lo) (unat hi)"
proof (cases only)
  case None
  then show ?thesis by (auto simp: selected_within_def wanted_def chosen_def word_less_nat_alt)
next
  case (Some rs)
  define clip where "clip = (\<lambda>(s, e). let a = max s lo; b = min e hi in if a < b then Some (a, b) else None :: (u64 \<times> u64) option)"
  define bytes where "bytes rs = concat (map (\<lambda>(a, b). [unat a..<unat b])
      (List.map_filter clip (takeWhile (\<lambda>(s, e). s < hi) rs)))" for rs
  let ?Q = "\<lambda>rs x. list_ex (\<lambda>(s, e). unat s \<le> x \<and> x < unat e) rs"
  have clipped: "bytes ((s, e) # rs) = [max (unat s) (unat lo)..<min (unat e) (unat hi)] @ bytes rs" if "s < hi" for s e rs
    using that by (auto simp: bytes_def clip_def List.map_filter_def Let_def unat_max unat_min word_less_nat_alt)
  have all: "bytes rs = filter (?Q rs) [unat lo..<unat hi]"
    if "selection_ok (Some rs)" "\<forall>r \<in> set rs. lo < snd r" for rs
    using that
  proof (induction rs)
    case Nil
    then show ?case by (simp add: bytes_def List.map_filter_def)
  next
    case (Cons r rs)
    obtain s e where r: "r = (s, e)" by (cases r)
    have le: "s \<le> e" and later: "\<And>r'. r' \<in> set rs \<Longrightarrow> e \<le> fst r'" using Cons.prems(1) by (auto simp: r selection_ok_def)
    have above: "?Q rs x \<Longrightarrow> unat e \<le> x" for x
      using later by (force simp: list_ex_iff word_le_nat_alt)
    have ih: "bytes rs = filter (?Q rs) [unat lo..<unat hi]"
      using Cons.IH Cons.prems by (simp add: selection_ok_def r)
    show ?case
    proof (cases "s < hi")
      case True
      have "filter (?Q (r # rs)) [unat lo..<unat hi] = [max (unat s) (unat lo)..<min (unat e) (unat hi)] @ filter (?Q rs) [unat lo..<unat hi]"
        using filter_next_interval [of "?Q rs" "unat e" "unat s", OF above] by (simp add: r)
      then show ?thesis using clipped [OF True] ih by (simp add: r)
    next
      case False
      then have "unat hi \<le> unat s" "unat s \<le> unat e" using le by (simp_all add: word_le_nat_alt not_less)
      then have "filter (?Q (r # rs)) [unat lo..<unat hi] = []"
        using above by (force simp: filter_empty_conv r)
      moreover have "bytes (r # rs) = []" using False by (simp add: bytes_def r List.map_filter_def)
      ultimately show ?thesis by simp
    qed
  qed
  have skip: "bytes (drop (length (takeWhile (\<lambda>(s, e). e \<le> lo) rs)) rs) = filter (?Q rs) [unat lo..<unat hi]"
    if "selection_ok (Some rs)" for rs
    using that
  proof (induction rs)
    case Nil
    then show ?case by (simp add: bytes_def List.map_filter_def)
  next
    case (Cons r rs)
    obtain s e where r: "r = (s, e)" by (cases r)
    show ?case
    proof (cases "e \<le> lo")
      case True
      then have "filter (?Q (r # rs)) [unat lo..<unat hi] = filter (?Q rs) [unat lo..<unat hi]"
        by (intro filter_cong) (auto simp: r word_le_nat_alt)
      then show ?thesis using Cons True by (simp add: r selection_ok_def)
    next
      case False
      then have "\<forall>r' \<in> set (r # rs). lo < snd r'" using Cons.prems by (force simp: r selection_ok_def list_all_iff)
      then show ?thesis using all [OF Cons.prems] False by (simp add: r)
    qed
  qed
  moreover have "chosen (Some rs) = ?Q rs" by (rule ext) (simp add: chosen_def)
  ultimately show ?thesis
    using ok Some by (simp add: selected_within_def bytes_def clip_def wanted_def Let_def)
qed

lemma selected_in: "(a, b) \<in> set (selected_within only lo hi) \<Longrightarrow> lo \<le> a \<and> a < b \<and> b \<le> hi"
  by (auto simp: selected_within_def List.map_filter_def Let_def split: option.splits if_splits)

lemma fold_fold: "fold (\<lambda>x. fold f (g x)) xs = fold f (concat (map g xs))"
  by (induction xs) simp_all

lemma copy_selected_moves:
  assumes "selection_ok only" and "base \<le> lo" "off \<le> lo"
    and shown: "\<And>x. unat lo \<le> x \<Longrightarrow> x < unat hi \<Longrightarrow> shown (x - unat base) = place x"
  shows "copy_selected shown only off base lo hi cr = fold (move_byte place (unat off)) (wanted only (unat lo) (unat hi)) cr"
proof -
  have one: "rc_apply shown (unat (a - base)) (unat (a - off)) (unat (b - a)) c = fold (move_byte place (unat off)) [unat a..<unat b] c"
    if "(a, b) \<in> set (selected_within only lo hi)" for a b c
  proof -
    from selected_in [OF that] have le: "unat lo \<le> unat a" "unat a < unat b" "unat b \<le> unat hi"
      by (simp_all add: word_le_nat_alt word_less_nat_alt)
    moreover have "unat base \<le> unat a" "unat off \<le> unat a" using assms(2,3) le by (simp_all add: word_le_nat_alt)
    ultimately show ?thesis
      using rc_apply_moves [of "unat (b - a)" shown "unat (a - base)" place "unat a" "unat off" c] shown [of "unat a + k" for k]
      by (simp add: unat_sub_if')
  qed
  have "copy_selected shown only off base lo hi cr =
      fold (\<lambda>r. fold (move_byte place (unat off)) (case r of (a, b) \<Rightarrow> [unat a..<unat b])) (selected_within only lo hi) cr"
    unfolding copy_selected_def by (intro fold_cong) (auto simp: one fun_eq_iff)
  then show ?thesis by (simp add: fold_fold selected_bytes [OF assms(1), symmetric])
qed

section \<open>What the host shows\<close>

text \<open>
  A pointer shows the pages it was handed out for: from the call that hands it out until it is given back,
  or for good where the host says so (\<open>map_pages_stable\<close>).
\<close>

definition shows_guest_ram :: "showing \<Rightarrow> bool \<Rightarrow> host_call list \<Rightarrow> bool" where
  "shows_guest_ram behind lasting log \<longleftrightarrow>
     (\<forall>cs rest before gpas page_sz p after i.
        log = cs @ rest \<and> cs = before @ MapPages gpas page_sz (Some p) # after
        \<and> (lasting \<or> (\<forall>len. UnmapPages p len \<notin> set after)) \<and> i < length gpas * unat page_sz
        \<longrightarrow> behind cs p i = byte_place (unat page_sz) gpas i)"

lemma just_mapped:
  assumes "shows_guest_ram behind lasting (cs @ MapPages gpas sz (Some p) # rest)" "i < length gpas * unat sz"
  shows "behind (cs @ [MapPages gpas sz (Some p)]) p i = byte_place (unat sz) gpas i"
  using assms unfolding shows_guest_ram_def by force

lemma run_place:
  assumes "b \<le> length gpas" "a * sz \<le> x" "x < b * sz"
  shows "byte_place sz (take (b - a) (drop a gpas)) (x - a * sz) = byte_place sz gpas x"
proof -
  have sz: "0 < sz" using assms(2,3) by (cases sz) auto
  obtain k where k: "x = a * sz + k" using assms(2) le_Suc_ex by blast
  have d: "x div sz = a + k div sz" "x mod sz = k mod sz" using sz by (simp_all add: k)
  have "x div sz < b" using assms(3) sz by (simp add: div_less_iff_less_mult)
  then have "a + k div sz < b" by (simp add: d)
  moreover have "x - a * sz = k" by (simp add: k)
  ultimately show ?thesis using assms(1) by (simp add: byte_place_def d)
qed

lemma wanted_split:
  fixes a e b :: nat
  assumes "a \<le> e" "e \<le> b"
  shows "wanted only (max lo a) (min hi b) = wanted only (max lo a) (min hi e) @ wanted only (max lo e) (min hi b)"
proof -
  have "[x..<z] = [x..<y] @ [y..<z]" if "x \<le> y" "y \<le> z" for x y z :: nat
    using that by (metis le_Suc_ex upt_add_eq_append)
  from this [of "max lo a" e "min hi b"] have "[max lo a..<min hi b] = [max lo a..<min hi e] @ [max lo e..<min hi b]"
    using assms by (auto simp: max_def min_def not_le)
  then show ?thesis by (simp add: wanted_def)
qed

lemma size_product:
  "length xs * unat (sz :: u64) < 2 ^ 64 \<Longrightarrow> 0 < unat sz \<Longrightarrow> w = of_nat (length xs) * sz \<Longrightarrow> unat w = length xs * unat sz"
proof -
  assume a: "length xs * unat sz < 2 ^ 64" "0 < unat sz" "w = of_nat (length xs) * sz"
  have "length xs \<le> length xs * unat sz" using a(2) by simp
  then have "length xs < 2 ^ 64" using a(1) by linarith
  with a show ?thesis by (simp add: unat_of_nat_small unat_mult_no_wrap)
qed

lemma saturating_product:
  "k * unat (sz :: u64) < 2 ^ 64 \<Longrightarrow> 0 < unat sz \<Longrightarrow> unat (saturating_mul (of_nat k) sz) = k * unat sz"
proof -
  assume a: "k * unat sz < 2 ^ 64" "0 < unat sz"
  have "k \<le> k * unat sz" using a(2) by simp
  then have "k < 2 ^ 64" using a(1) by linarith
  with a show ?thesis by (simp add: saturating_mul_def unat_of_nat_small unat_mult_no_wrap)
qed

lemma copy_one_run_moves:
  assumes run: "copy_one_run behind only off need_end len sz gpas (a, b) (cr, h) = (ok, cr', h')"
    and log: "shows_guest_ram behind lasting (h_calls h' @ rest)"
    and only: "selection_ok only" and pages: "0 < unat sz" "length gpas * unat sz < 2 ^ 64" "a < b" "b \<le> length gpas"
    and need: "unat need_end = unat off + len"
  shows "(\<exists>ds. h_calls h' = h_calls h @ ds)
    \<and> cr' = (if ok then fold (move_byte (byte_place (unat sz) gpas) (unat off))
               (wanted only (max (unat off) (a * unat sz)) (min (unat off + len) (b * unat sz))) cr else cr)"
proof -
  let ?g = "take (b - a) (drop a gpas)" and ?sz = "unat sz"
  have small: "a * ?sz < b * ?sz" "b * ?sz \<le> length gpas * ?sz" using pages by simp_all
  have bound: "a * ?sz < 2 ^ 64" "b * ?sz < 2 ^ 64" "(b - a) * ?sz < 2 ^ 64"
    unfolding diff_mult_distrib using small pages(2) by linarith+
  define mlo mhi total where "mlo = saturating_mul (of_nat a) sz" and "mhi = saturating_mul (of_nat b) sz"
    and "total = saturating_mul (of_nat (length ?g)) sz"
  define lo hi where "lo = max off mlo" and "hi = min need_end mhi"
  have len: "length ?g = b - a" using pages(4) by simp
  have u: "unat mlo = a * ?sz" "unat mhi = b * ?sz" "unat total = b * ?sz - a * ?sz"
    unfolding mlo_def mhi_def total_def len using bound pages(1) saturating_product
    by (simp_all only: diff_mult_distrib)
  have lohi: "unat lo = max (unat off) (a * ?sz)" "unat hi = min (unat off + len) (b * ?sz)"
    by (simp_all add: lo_def hi_def unat_max unat_min u need)
  note run = run [unfolded copy_one_run_def prod.case Let_def, folded mlo_def mhi_def total_def, folded lo_def hi_def]
  show ?thesis
  proof (cases "lo < hi")
    case False
    then have "wanted only (unat lo) (unat hi) = []" by (simp add: wanted_def word_less_nat_alt)
    then show ?thesis using run False by (simp add: lohi not_less)
  next
    case True
    then have lt: "unat lo < unat hi" and nle: "\<not> hi \<le> lo" by (simp_all add: word_less_nat_alt word_le_nat_alt)
    have le: "off \<le> lo" "mlo \<le> lo" by (simp_all add: lo_def)
    have fits: "\<not> (unat (lo - mlo) + unat (hi - lo) > unat total \<or> unat (lo - off) + unat (hi - lo) > len)"
      using lt le u lohi by (auto simp: unat_sub_if' word_le_nat_alt)
    show ?thesis
    proof (cases "h_map_pages h (h_calls h) ?g sz")
      case None
      then show ?thesis using run nle by (auto simp: map_pages_def Let_def)
    next
      case (Some ptr)
      let ?h = "host_log (MapPages ?g sz (Some ptr)) h"
      have res: "ok" "h' = host_log (UnmapPages ptr total) ?h"
        "cr' = copy_selected (behind (h_calls ?h) ptr) only off mlo lo hi cr"
        using run nle Some fits by (auto simp: map_pages_def Let_def)
      have "shows_guest_ram behind lasting (h_calls h @ MapPages ?g sz (Some ptr) # (UnmapPages ptr total # rest))"
        using log by (simp add: res(2))
      note shown = just_mapped [OF this]
      have "copy_selected (behind (h_calls ?h) ptr) only off mlo lo hi cr
          = fold (move_byte (byte_place ?sz gpas) (unat off)) (wanted only (unat lo) (unat hi)) cr"
      proof (rule copy_selected_moves [OF only le(2,1)])
        fix x assume x: "unat lo \<le> x" "x < unat hi"
        then have "a * ?sz \<le> x" "x < b * ?sz" by (simp_all add: lohi)
        then show "behind (h_calls ?h) ptr (x - unat mlo) = byte_place ?sz gpas x"
          using shown [of "x - a * ?sz"] run_place [OF pages(4)] by (simp add: u len diff_mult_distrib del: length_take)
      qed
      then show ?thesis using res by (simp add: lohi)
    qed
  qed
qed

lemma copy_runs_moves:
  assumes "copy_runs (\<lambda>st run. copy_one_run behind only off need_end len sz gpas run st) runs (cr, h) = (ok, cr', h')"
    and "shows_guest_ram behind lasting (h_calls h' @ rest)"
    and "selection_ok only" and "0 < unat sz" "length gpas * unat sz < 2 ^ 64" "b \<le> length gpas"
    and "unat need_end = unat off + len" and "cuts_pages gpas sz a runs b"
  shows "(\<exists>ds. h_calls h' = h_calls h @ ds) \<and> (\<exists>k.
       cr' = fold (move_byte (byte_place (unat sz) gpas) (unat off))
               (take k (wanted only (max (unat off) (a * unat sz)) (min (unat off + len) (b * unat sz)))) cr
     \<and> (ok \<longrightarrow> length (wanted only (max (unat off) (a * unat sz)) (min (unat off + len) (b * unat sz))) \<le> k))"
  using assms(1,2,8)
proof (induction runs arbitrary: a cr h)
  case Nil
  then show ?case by (auto simp: wanted_def intro!: exI [of _ 0])
next
  case (Cons run runs)
  obtain e where run: "run = (a, e)" and ae: "a < e" and rest: "cuts_pages gpas sz e runs b"
    using Cons.prems(3) by (cases run) auto
  have eb: "e \<le> b" by (rule cuts_pages_le [OF rest])
  let ?W = "\<lambda>a b. wanted only (max (unat off) (a * unat sz)) (min (unat off + len) (b * unat sz))"
  let ?move = "move_byte (byte_place (unat sz) gpas) (unat off)"
  have W: "?W a b = ?W a e @ ?W e b" using ae eb by (intro wanted_split) simp_all
  obtain ok1 cr1 h1 where one: "copy_one_run behind only off need_end len sz gpas (a, e) (cr, h) = (ok1, cr1, h1)"
    by (cases "copy_one_run behind only off need_end len sz gpas (a, e) (cr, h)") auto
  obtain ok2 cr2 h2 where two: "copy_runs (\<lambda>st run. copy_one_run behind only off need_end len sz gpas run st) runs (cr1, h1)
      = (ok2, cr2, h2)"
    by (cases "copy_runs (\<lambda>st run. copy_one_run behind only off need_end len sz gpas run st) runs (cr1, h1)") auto
  note here = copy_one_run_moves [OF one _ assms(3,4,5) ae le_trans [OF eb assms(6)] assms(7)]
  show ?case
  proof (cases ok1)
    case False
    then have h': "h' = h1" and cr': "cr' = cr1" and ok: "\<not> ok" using Cons.prems(1) by (simp_all add: run one)
    from here [of lasting rest] Cons.prems(2) False show ?thesis
      by (auto simp: h' cr' ok intro!: exI [of _ 0])
  next
    case True
    then have more: "ok2 = ok" "cr2 = cr'" "h2 = h'" using Cons.prems(1) two by (simp_all add: run one)
    note ih = Cons.IH [OF two [unfolded more] Cons.prems(2) rest]
    then obtain ds k where ds: "h_calls h' = h_calls h1 @ ds"
      and k: "cr' = fold ?move (take k (?W e b)) cr1" "ok \<longrightarrow> length (?W e b) \<le> k" by blast
    have "shows_guest_ram behind lasting (h_calls h1 @ (ds @ rest))" using Cons.prems(2) ds by simp
    from here [OF this] True have "\<exists>ds. h_calls h1 = h_calls h @ ds" and "cr1 = fold ?move (?W a e) cr" by simp_all
    then show ?thesis
      using ds k by (auto simp: W intro!: exI [of _ "length (?W a e) + k"])
  qed
qed

section \<open>The whole copy\<close>

lemma contig_view_handed_out:
  assumes ok: "registry_ok s" and sound: "sound (s, h)"
    and view: "ensure_contig_view mid (s, h) = (Some (p, len), (s', h'))"
  shows "\<exists>m gpas. mapping s' mid = Some m
    \<and> map Some gpas = map (\<lambda>e. entry_gpa_shift e (st_page_shift s')) (me_page_entries m)
    \<and> len = of_nat (length gpas) * page_size_of (st_page_shift s')
    \<and> handed_out (h_calls h') p gpas (page_size_of (st_page_shift s'))"
proof -
  obtain r t where r: "revalidate_mapping_pages h mid s = (r, t)" by (cases "revalidate_mapping_pages h mid s")
  obtain u h1 where f: "flush_retired_views (t, h) = (u, h1)" by (cases "flush_retired_views (t, h)")
  have t: "sounder (s, h) (t, h)" using views.hrel_revalidate [OF ok, of h h mid] by (simp add: r)
  then have "sounder (t, h) (u, h1)" using views.hrel_flush [of t h] f by (simp add: sounder_def)
  with t sound have u: "sound (u, h1)" by (simp add: sounder_def)
  from view obtain m where m: "r" "mapping u mid = Some m" by (auto simp: ensure_contig_view_def r f split: if_splits option.splits)
  show ?thesis
  proof (cases "me_contig_ptr m = 0")
    case False
    with view m have "p = me_contig_ptr m" "len = me_contig_len m" "s' = u" "h' = h1"
      by (auto simp: ensure_contig_view_def r f)
    then show ?thesis using u m(2) False by (auto simp: sound_def view_sound_def)
  next
    case True
    with view m have b: "build_contig_view mid (u, h1) = (Some (p, len), (s', h'))"
      by (auto simp: ensure_contig_view_def r f split: if_splits)
    obtain g v h2 where e: "mapping_page_gpas mid (u, h1) = (g, (v, h2))" by (cases "mapping_page_gpas mid (u, h1)") auto
    with b obtain gpas where g: "g = Some gpas" by (auto simp: build_contig_view_def split: option.splits)
    obtain w where w: "mapping v mid = Some w" "gpas = present_gpas (me_page_entries w) (st_page_shift v)"
      "length gpas = length (me_page_entries w)"
      using page_gpas_Some [OF e [unfolded g]] by blast
    have okv: "bt_ok (st_mappings v)"
      using page_gpas_state [of mid u h1] e moves_sorted [OF moves.rel_revalidate [of u h1 mid]]
        views.hrel_good [OF views.hrel_trans [OF t \<open>sounder (t, h) (u, h1)\<close>]] by (simp add: registry_ok_sorted)
    let ?sz = "page_size_of (st_page_shift v)"
    have "len = of_nat (length gpas) * ?sz" "h' = host_log (MapPages gpas ?sz (Some p)) h2"
      "s' = put_mapping mid (w\<lparr>me_contig_ptr := p, me_contig_len := len\<rparr>) v"
      using b by (auto simp: build_contig_view_def e g w(1) map_pages_def Let_def split: if_splits option.splits)
    moreover have "handed_out (h_calls h2 @ [MapPages gpas ?sz (Some p)]) p gpas ?sz" unfolding handed_out_def by force
    ultimately show ?thesis
      using present_gpas_all [of "me_page_entries w" "st_page_shift v"] w okv
      by (auto simp: put_mapping_def bt_get_update)
  qed
qed

lemma page_size_pos: "0 < unat (page_size_of shift)"
  by (simp add: page_size_of_def shl64_def unat_gt_0)

lemma page_gpas_kept:
  assumes "registry_ok s" "mapping_page_gpas mid (s, h) = (g, (t, h'))"
  shows "registry_ok t" "st_page_shift t = st_page_shift s" "h' = h"
  using assms evolves_revalidate [of s h mid] moves.rel_revalidate [of s h mid] page_gpas_state [of mid s h]
  by (simp_all add: evolves_ok registry_ok_sorted moves_def)

lemma contig_view_kept:
  assumes "registry_ok s" "ensure_contig_view mid (s, h) = (r, (t, h'))"
  shows "registry_ok t" "st_page_shift t = st_page_shift s" "\<exists>cs. h_calls h' = h_calls h @ cs"
  using assms views.hrel_contig_view [of s h mid] balance.hrel_contig_view [of s h mid]
  by (auto simp: sounder_def accounts_def registry_ok_sorted)

text \<open>The two ways to the pages: the cached view, and an import per run.\<close>

lemma view_copy_moves:
  assumes "registry_ok s" "sound (s, h)" "ensure_contig_view mid (s, h) = (Some (p, len), (t, h'))"
    and shows_ram: "shows_guest_ram behind lasting (h_calls h')" "lasting \<or> fresh_log (h_calls h')"
    and "selection_ok only" "unat off + n \<le> unat len" "unat need_end = unat off + n"
    and small: "\<forall>m. mapping t mid = Some m \<longrightarrow> length (me_page_entries m) * unat (page_size_of (st_page_shift t)) < 2 ^ 64"
  shows "\<exists>m gpas. mapping t mid = Some m
    \<and> map Some gpas = map (\<lambda>e. entry_gpa_shift e (st_page_shift t)) (me_page_entries m)
    \<and> unat len = length gpas * unat (page_size_of (st_page_shift t))
    \<and> copy_selected (behind (h_calls h') p) only off 0 off need_end cr
      = fold (move_byte (byte_place (unat (page_size_of (st_page_shift t))) gpas) (unat off))
          (wanted only (unat off) (unat off + n)) cr"
proof -
  let ?sz = "page_size_of (st_page_shift t)"
  from contig_view_handed_out [OF assms(1-3)] obtain m gpas where
    m: "mapping t mid = Some m" "map Some gpas = map (\<lambda>e. entry_gpa_shift e (st_page_shift t)) (me_page_entries m)"
    "len = of_nat (length gpas) * ?sz" "handed_out (h_calls h') p gpas ?sz" by auto
  have "length gpas = length (me_page_entries m)" using m(2) by (metis length_map)
  then have "length gpas * unat ?sz < 2 ^ 64" using small m(1) by simp
  then have total: "unat len = length gpas * unat ?sz"
    using page_size_pos [of "st_page_shift t"] by (intro size_product) (simp_all add: m(3))
  from m(4) obtain before after where b: "h_calls h' = before @ MapPages gpas ?sz (Some p) # after"
    "fresh_log (h_calls h') \<longrightarrow> (\<forall>len. UnmapPages p len \<notin> set after)" by (auto simp: handed_out_def)
  have shown: "behind (h_calls h') p i = byte_place (unat ?sz) gpas i" if "i < length gpas * unat ?sz" for i
    using shows_ram b that unfolding shows_guest_ram_def by (metis append.right_neutral)
  have "copy_selected (behind (h_calls h') p) only off 0 off need_end cr
      = fold (move_byte (byte_place (unat ?sz) gpas) (unat off)) (wanted only (unat off) (unat off + n)) cr"
    unfolding assms(8) [symmetric]
    by (rule copy_selected_moves [OF assms(6)]) (use assms(7,8) total shown in auto)
  then show ?thesis using m(1,2) total by blast
qed

lemma run_copy_moves:
  assumes pages: "mapping_page_gpas mid (t, h1) = (Some gpas, (u, h2))" and flush: "flush_retired_views (u, h2) = (w, h3)"
    and shift: "st_page_shift u = st_page_shift t"
    and runs: "copy_runs (\<lambda>st run. copy_one_run behind only off need_end n (page_size_of (st_page_shift t)) gpas run st)
        (contig_page_runs gpas (page_size_of (st_page_shift t))) (cr, h3) = (ok, cr', h')"
    and fits: "need_end \<le> saturating_mul (of_nat (length gpas)) (page_size_of (st_page_shift t))"
    and "shows_guest_ram behind lasting (h_calls h')" "selection_ok only" "unat need_end = unat off + n"
    and small: "\<forall>m. mapping w mid = Some m \<longrightarrow> length (me_page_entries m) * unat (page_size_of (st_page_shift t)) < 2 ^ 64"
  shows "\<exists>m k. mapping w mid = Some m
    \<and> map Some gpas = map (\<lambda>e. entry_gpa_shift e (st_page_shift w)) (me_page_entries m)
    \<and> unat off + n \<le> length gpas * unat (page_size_of (st_page_shift w))
    \<and> cr' = fold (move_byte (byte_place (unat (page_size_of (st_page_shift w))) gpas) (unat off))
          (take k (wanted only (unat off) (unat off + n))) cr
    \<and> (ok \<longrightarrow> length (wanted only (unat off) (unat off + n)) \<le> k)"
proof -
  have w: "st_mappings w = st_mappings u" "st_page_shift w = st_page_shift t"
    using flush shift by (auto simp: flush_retired_views_def)
  let ?sz = "page_size_of (st_page_shift t)"
  from page_gpas_Some [OF pages] obtain m where m: "mapping u mid = Some m" "me_page_entries m \<noteq> []"
    "gpas = present_gpas (me_page_entries m) (st_page_shift u)" "length gpas = length (me_page_entries m)" by blast
  have names: "map Some gpas = map (\<lambda>e. entry_gpa_shift e (st_page_shift w)) (me_page_entries m)"
    using present_gpas_all m(3,4) shift w(2) by simp
  have bound: "length gpas * unat ?sz < 2 ^ 64" using small m(1,4) by (simp add: w)
  note pos = page_size_pos [of "st_page_shift t"]
  have covers: "unat off + n \<le> length gpas * unat ?sz"
    using fits assms(8) saturating_product [OF bound pos] by (simp add: word_le_nat_alt)
  have cuts: "cuts_pages gpas ?sz 0 (contig_page_runs gpas ?sz) (length gpas)"
    using contig_page_runs_cut [of gpas ?sz] m(2,4) pos by force
  have "shows_guest_ram behind lasting (h_calls h' @ [])" using assms(6) by simp
  from copy_runs_moves [OF runs this assms(7) pos bound order.refl assms(8) cuts] covers
  show ?thesis using m(1) names by (auto simp: w min_def)
qed

text \<open>
  C7: A copy through a mapping is a copy byte by byte. Start with a registry that holds no host object, let
  anything happen, then copy. If the copy succeeds, the buffer and guest memory are what the selected bytes
  give when moved one at a time, in ascending order, between the buffer and the place of each byte on the
  pages the mapping's list names, whether the copy went through the cached view or through one import per
  run; and the list covers the range. If it fails, it moved the selected bytes up to some point and no
  others.
\<close>

theorem mapping_copy_bytewise:
  assumes "registry_ok s0" and "objects_held s0 = {#}" and "(surface_step ^^ n) (s0, h0) (s, h)"
    and "copy_mapping_runs behind mid off only (cr, (s, h)) = (ok, cr', (s', h'))"
    and "shows_guest_ram behind lasting (h_calls h')" and "lasting \<or> fresh_log (h_calls h')"
    and "selection_ok only" and "unat off + rc_len (fst cr) < 2 ^ 64"
    and "\<forall>e. mapping s' mid = Some e \<longrightarrow> length (me_page_entries e) * unat (page_size_of (st_page_shift s')) < 2 ^ 64"
  shows "\<exists>gpas k. cr' = fold (move_byte (byte_place (unat (page_size_of (st_page_shift s'))) gpas) (unat off))
        (take k (wanted only (unat off) (unat off + rc_len (fst cr)))) cr
    \<and> (ok \<longrightarrow> length (wanted only (unat off) (unat off + rc_len (fst cr))) \<le> k
        \<and> unat off + rc_len (fst cr) \<le> length gpas * unat (page_size_of (st_page_shift s'))
        \<and> (\<exists>e. mapping s' mid = Some e
              \<and> map Some gpas = map (\<lambda>p. entry_gpa_shift p (st_page_shift s')) (me_page_entries e)))"
proof -
  define s1 where "s1 = (if rc_is_write (fst cr) then note_host_wrote_mapping mid s else s)"
  have same: "registry_untouched s s1"
    by (auto simp: s1_def note_host_wrote_mapping_def registry_untouched_def split: option.split)
  have run: "(surface_step ^^ Suc n) (s0, h0) (s1, h)" using assms(3) elsewhere [OF same] by auto
  have ok1: "registry_ok s1" using evolves_ok [OF run_evolves [OF run]] assms(1) by simp
  have sound1: "sound (s1, h)" using run_sound [OF run] assms(1,2) sound_empty by simp
  define need_end where "need_end = saturating_add off (of_nat (rc_len (fst cr)))"
  have need: "unat need_end = unat off + rc_len (fst cr)"
    using assms(8) by (simp add: need_end_def saturating_add_def unat_of_nat_small unat_add_no_wrap)
  obtain cached t h1 where v: "ensure_contig_view mid (s1, h) = (cached, (t, h1))"
    by (cases "ensure_contig_view mid (s1, h)") auto
  note t = contig_view_kept [OF ok1 v]
  have page: "st_page_size s1 = page_size_of (st_page_shift t)" by (simp add: st_page_size_def page_size_of_def t)
  define fast where "fast = (case cached of None \<Rightarrow> None | Some (ptr, view_len) \<Rightarrow>
      if view_len \<ge> need_end \<and> unat off + rc_len (fst cr) \<le> unat view_len then Some ptr else None)"
  note copy = assms(4) [unfolded copy_mapping_runs_def prod.case Let_def, folded s1_def, unfolded page,
      folded need_end_def, unfolded v prod.case, folded fast_def]
  show ?thesis
  proof (cases fast)
    case (Some ptr)
    then obtain len where c: "cached = Some (ptr, len)" "unat off + rc_len (fst cr) \<le> unat len"
      by (auto simp: fast_def split: option.splits if_splits)
    have fin: "s' = t" "h' = h1" "ok" "cr' = copy_selected (behind (h_calls h1) ptr) only off 0 off need_end cr"
      using copy Some by auto
    from view_copy_moves [OF ok1 sound1 v [unfolded c(1)] assms(5,6,7) [unfolded fin] c(2) need assms(9) [unfolded fin]] c(2)
    show ?thesis unfolding fin by (metis order.refl take_all)
  next
    case no_view: None
    obtain g u h2 where e: "mapping_page_gpas mid (t, h1) = (g, (u, h2))"
      by (cases "mapping_page_gpas mid (t, h1)") auto
    obtain w h3 where f: "flush_retired_views (u, h2) = (w, h3)" by (cases "flush_retired_views (u, h2)")
    note copy = copy [unfolded no_view option.case e prod.case f]
    show ?thesis
    proof (cases "ok \<or> cr' \<noteq> cr")
      case False
      then show ?thesis by (intro exI [of _ "[]"] exI [of _ 0]) simp
    next
      case True
      then obtain gpas where g: "g = Some gpas" 
        and fits: "need_end \<le> saturating_mul (of_nat (length gpas)) (page_size_of (st_page_shift t))"
        using copy by (cases g) (auto split: if_splits simp: not_less)
      obtain h4 where runs: "copy_runs (\<lambda>st run. copy_one_run behind only off need_end (rc_len (fst cr))
            (page_size_of (st_page_shift t)) gpas run st)
          (contig_page_runs gpas (page_size_of (st_page_shift t))) (cr, h3) = (ok, cr', h4)" "s' = w" "h' = h4"
        using copy leD [OF fits] by (auto simp: g split: prod.splits)
      have shift: "st_page_shift w = st_page_shift t" using f page_gpas_kept(2) [OF t(1) e] by (auto simp: flush_retired_views_def)
      from run_copy_moves [OF e [unfolded g] f page_gpas_kept(2) [OF t(1) e] runs(1) fits assms(5) [unfolded runs(3)] assms(7) need
          assms(9) [unfolded runs(2) shift]]
      show ?thesis unfolding runs(2) by blast
    qed
  qed
qed

text \<open>A surface of two pages that do not adjoin, read across the page boundary.\<close>

definition split_surface :: surfaces where
  "split_surface = (blank_surfaces 12)\<lparr>st_mappings :=
     [(7, mapping_default\<lparr>me_mapped := True, me_map_generation := 3, me_page_entries := [5, 13]\<rparr>)]\<rparr>"

definition last_mapped :: showing where
  "last_mapped cs p i = (case last (filter (\<lambda>c. case c of MapPages gpas sz r \<Rightarrow> True | _ \<Rightarrow> False) cs) of
     MapPages gpas sz r \<Rightarrow> byte_place (unat sz) gpas i | _ \<Rightarrow> 0)"

definition split_log :: "host_call list" where
  "split_log = [MapPages [0x1000] 0x1000 (Some 0x7000), UnmapPages 0x7000 0x1000,
     MapPages [0x3000] 0x1000 (Some 0x7000), UnmapPages 0x7000 0x1000]"

lemma split_surface_ok: "registry_ok split_surface" "objects_held split_surface = {#}"
  by (auto simp: registry_ok_def split_surface_def bt_ok_def entry_ok_def mapping_default_def objects_held_def
      mapped_objects_def entry_objects_def view_objects_def token_objects_def retired_objects_def gva_objects_def
      blank_surfaces_def)

lemma split_log_shown: "shows_guest_ram last_mapped False split_log" "fresh_log split_log"
  by (auto simp: shows_guest_ram_def fresh_log_def split_log_def last_mapped_def open_ptrs_def Cons_eq_append_conv append_eq_Cons_conv)

lemma split_read:
  "\<exists>cr' s' h' e. copy_mapping_runs last_mapped 7 0xffe None ((CopyRead [0, 0, 0], ucast), (split_surface, mapping_host))
      = (True, cr', (s', h'))
    \<and> h_calls h' = split_log \<and> mapping s' 7 = Some e \<and> me_page_entries e = [5, 13] \<and> st_page_shift s' = 12"
  by (simp add: copy_mapping_runs_def ensure_contig_view_def build_contig_view_def revalidate_mapping_pages_def revalidate_mapping_reason_def
      revalidate_verdict_def flush_retired_views_def mapping_page_gpas_def map_pages_def host_log_def mapping_host_def
      image_host_def split_surface_def blank_surfaces_def mapping_default_def put_mapping_def present_gpas_def
      List.map_filter_def entry_gpa_shift_def PAGE_ENTRY_VALID_def PAGE_ENTRY_PFN_SHIFT_def shl64_def page_size_of_def
      first_control_page_collision_def st_page_size_def ring_collision_def directory_collision_def split_log_def
      contig_run_count_def page_break_def contig_page_runs_def contig_step_def copy_one_run_def
      saturating_mul_def saturating_add_def upt_rec Let_def)

theorem mapping_copy_bytewise_witness:
  "\<exists>ram st. copy_mapping_runs last_mapped 7 0xffe None ((CopyRead [0, 0, 0], ucast), (split_surface, mapping_host))
     = (True, (CopyRead [0xfe, 0xff, 0x00], ram), st)"
proof -
  obtain cr' s' h' e where w: "copy_mapping_runs last_mapped 7 0xffe None ((CopyRead [0, 0, 0], ucast), (split_surface, mapping_host))
      = (True, cr', (s', h'))" "h_calls h' = split_log" "mapping s' 7 = Some e" "me_page_entries e = [5, 13]" "st_page_shift s' = 12"
    using split_read by blast
  have run: "(surface_step ^^ 0) (split_surface, mapping_host) (split_surface, mapping_host)" by simp
  have size: "page_size_of 12 = 0x1000" by (simp add: page_size_of_def shl64_def)
  have bound: "\<forall>e. mapping s' 7 = Some e \<longrightarrow> length (me_page_entries e) * unat (page_size_of (st_page_shift s')) < 2 ^ 64"
    using w(3,4,5) by (simp add: size)
  let ?n = "unat (0xffe :: u64)" and ?cr = "(CopyRead [0, 0, 0], ucast :: u64 \<Rightarrow> u8)" and ?sz = "unat (page_size_of (st_page_shift s'))"
  have "shows_guest_ram last_mapped False (h_calls h')" "False \<or> fresh_log (h_calls h')" "selection_ok None"
    "?n + rc_len (fst ?cr) < 2 ^ 64"
    using split_log_shown by (simp_all add: w(2) selection_ok_def)
  from mapping_copy_bytewise [OF split_surface_ok run w(1) this bound]
  obtain gpas k where g: "cr' = fold (move_byte (byte_place ?sz gpas) ?n) (take k (wanted None ?n (?n + rc_len (fst ?cr)))) ?cr"
    "length (wanted None ?n (?n + rc_len (fst ?cr))) \<le> k"
    "\<exists>e. mapping s' 7 = Some e \<and> map Some gpas = map (\<lambda>p. entry_gpa_shift p (st_page_shift s')) (me_page_entries e)"
    by blast
  have "gpas = [0x1000, 0x3000]"
    using g(3) w(3-5) by (auto simp: entry_gpa_shift_def PAGE_ENTRY_VALID_def PAGE_ENTRY_PFN_SHIFT_def shl64_def)
  moreover have "wanted None ?n (?n + rc_len (fst ?cr)) = [0xffe, 0xfff, 0x1000]"
    by (simp add: wanted_def chosen_def upt_rec)
  ultimately have "cr' = (CopyRead [0xfe, 0xff, 0x00], ucast)"
    using g(1,2) by (simp add: move_byte_def byte_place_def w(5) size)
  then show ?thesis using w(1) by blast
qed

end
