(* ===== verification/RingPackets.thy ===== *)
theory RingPackets
  imports MappingCopy WireFields
begin

text \<open>
  The framing that the root and the child FIFOs share, runtime/drain/mod.rs and model/regs.rs: reading the
  bytes of a ring, decoding a packet, the stamps that order packets, and the stamps a drain owes. Guest
  memory is a byte per address, some of them unreadable; log lines and timing are left out.
\<close>

unbundle bit_operations_syntax

section \<open>Registers\<close>

definition PACKET_OPCODE :: nat where "PACKET_OPCODE = 0x00"
definition PACKET_STAMP_COUNT :: nat where "PACKET_STAMP_COUNT = 0x02"
definition PACKET_TOTAL_SIZE :: nat where "PACKET_TOTAL_SIZE = 0x04"
definition PACKET_COMPLETION_STAMP :: nat where "PACKET_COMPLETION_STAMP = 0x08"
definition PACKET_HEADER_LEN :: u32 where "PACKET_HEADER_LEN = 12"
definition PACKET_STAMP_LEN :: u32 where "PACKET_STAMP_LEN = 8"
definition STAMP_INDEX_MASK :: u32 where "STAMP_INDEX_MASK = 0xffff"
definition STAMP_SLOT_LEN :: u32 where "STAMP_SLOT_LEN = 4"
definition MAX_CHANNELS :: nat where "MAX_CHANNELS = 32"

lemmas packet_consts = PACKET_OPCODE_def PACKET_STAMP_COUNT_def PACKET_TOTAL_SIZE_def
  PACKET_COMPLETION_STAMP_def PACKET_HEADER_LEN_def PACKET_STAMP_LEN_def

definition is_child_channel :: "u32 \<Rightarrow> bool" where
  "is_child_channel channel_id \<longleftrightarrow> channel_id \<ge> 1 \<and> unat channel_id < MAX_CHANNELS"

definition main_ring_data_size :: "u32 \<Rightarrow> u32 \<Rightarrow> u32" where
  "main_ring_data_size fifo_length fifo_start =
     (if fifo_length > fifo_start then fifo_length - fifo_start else fifo_length)"

definition published_byte_count :: "u32 \<Rightarrow> u32 \<Rightarrow> u32 \<Rightarrow> u32 option" where
  "published_byte_count head tail ring_size =
     (let count = tail - head in if count \<le> ring_size then Some count else None)"

definition stamp_slot_count :: "u64 \<Rightarrow> u32" where
  "stamp_slot_count page_bytes = ucast (min (page_bytes div ucast STAMP_SLOT_LEN) 0xffffffff)"

definition stamp_slot_index :: "u32 \<Rightarrow> u32" where
  "stamp_slot_index raw = raw AND STAMP_INDEX_MASK"

definition stamp_slot_offset :: "u32 \<Rightarrow> u64 \<Rightarrow> u64 option" where
  "stamp_slot_offset index page_bytes =
     (if index \<ge> stamp_slot_count page_bytes then None else Some (ucast index * ucast STAMP_SLOT_LEN))"

section \<open>Guest memory\<close>

record guest_ram =
  g_bytes :: ram
  g_absent :: "u64 \<Rightarrow> bool"

definition read_gpa :: "guest_ram \<Rightarrow> reader" where
  "read_gpa g a n =
     (if list_ex (\<lambda>k. g_absent g (a + of_nat k)) [0..<n] then None
      else Some (map (\<lambda>k. g_bytes g (a + of_nat k)) [0..<n]))"

definition host_read_u32 :: "guest_ram \<Rightarrow> u64 \<Rightarrow> u32 option" where
  "host_read_u32 g gpa = map_option le_word (read_gpa g gpa 4)"

interpretation gpa: guest_memory "read_gpa g"
proof unfold_locales
  fix a n bs k m
  assume r: "read_gpa g a n = Some bs" and le: "k + m \<le> n"
  have "\<not> g_absent g (a + of_nat k + of_nat i)" if "i < m" for i
    using r le that by (auto simp: read_gpa_def list_ex_iff add.assoc split: if_splits simp flip: of_nat_add)
  then show "read_gpa g (a + of_nat k) m = Some (take m (drop k bs))"
    using r le by (auto simp: read_gpa_def list_ex_iff drop_map take_map min_def algebra_simps
        split: if_splits intro!: nth_equalityI)
qed (auto simp: read_gpa_def split: if_splits)

section \<open>Stamps\<close>

record stamp_wait =
  sw_index :: u32
  sw_value :: u32

definition satisfied_by :: "stamp_wait \<Rightarrow> u32 \<Rightarrow> bool" where
  "satisfied_by wait current \<longleftrightarrow> sint (current - sw_value wait) \<ge> 0"

type_synonym pending_stamp = "u32 option"

definition latch :: "u32 \<Rightarrow> pending_stamp \<Rightarrow> pending_stamp" where
  "latch stamp p =
     Some (case p of
             Some prev \<Rightarrow> if sint (stamp - prev) \<le> 0 then prev else stamp
           | None \<Rightarrow> stamp)"

definition owed :: "pending_stamp \<Rightarrow> u32 option" where
  "owed p = p"

definition discharges :: "pending_stamp \<Rightarrow> u32 \<Rightarrow> stamp_wait \<Rightarrow> bool" where
  "discharges p slot wait \<longleftrightarrow>
     stamp_slot_index (sw_index wait) = slot \<and> (case p of None \<Rightarrow> False | Some v \<Rightarrow> satisfied_by wait v)"

datatype stamp_verdict = Ready | Hold | Unevaluable

fun stamp_and :: "stamp_verdict \<Rightarrow> stamp_verdict \<Rightarrow> stamp_verdict" where
  "stamp_and Unevaluable other = Unevaluable"
| "stamp_and self Unevaluable = Unevaluable"
| "stamp_and Hold other = Hold"
| "stamp_and self Hold = Hold"
| "stamp_and Ready Ready = Ready"

section \<open>Packets\<close>

record packet =
  pk_opcode :: u16
  pk_stamp_waits :: "stamp_wait list"
  pk_total_size :: u32
  pk_completion_stamp :: u32
  pk_payload :: "u8 list"
  pk_next_head :: u32

datatype packet_error = PeShortHeader | PeBadSize | PeIncomplete | PeShortSnapshot

datatype packet_fault =
  DesyncedHeadTail | BadSize | RootHeaderRead | RootSnapRead | RootStampWriteback | ChildHeaderRead
| ChildRegsBaseRead | ChildRegsHeadRead | ChildRegsStampRead | ChildSnapRead | ChildTailRead
| ChildHeadWriteback | ShortSnapshot

fun packet_error_fault :: "packet_error \<Rightarrow> packet_fault option" where
  "packet_error_fault PeShortHeader = None"
| "packet_error_fault PeIncomplete = None"
| "packet_error_fault PeBadSize = Some BadSize"
| "packet_error_fault PeShortSnapshot = Some ShortSnapshot"

text \<open>The callers pass the twelve bytes they read, so the load is in range.\<close>

definition packet_snapshot_len :: "u8 list \<Rightarrow> u32 \<Rightarrow> u32 \<Rightarrow> u32" where
  "packet_snapshot_len header available ring_capacity =
     (let total_size = WireFields.u32_at header PACKET_TOTAL_SIZE in
      if total_size \<ge> PACKET_HEADER_LEN \<and> total_size \<le> ring_capacity \<and> available \<ge> total_size
      then total_size else PACKET_HEADER_LEN)"

definition stamp_record :: "u8 list \<Rightarrow> stamp_wait" where
  "stamp_record rec = \<lparr>sw_index = WireFields.u32_at rec 0, sw_value = WireFields.u32_at rec 4\<rparr>"

definition decode_packet_inner :: "u8 list \<Rightarrow> u32 \<Rightarrow> u32 \<Rightarrow> u32 \<Rightarrow> packet_error + packet" where
  "decode_packet_inner bytes head available ring_capacity =
     (if available < PACKET_HEADER_LEN then Inl PeShortHeader
      else if length bytes < unat PACKET_HEADER_LEN then Inl PeShortHeader
      else
        let opcode = u16_at bytes PACKET_OPCODE;
            stamp_count = u16_at bytes PACKET_STAMP_COUNT;
            total_size = WireFields.u32_at bytes PACKET_TOTAL_SIZE;
            completion_stamp = WireFields.u32_at bytes PACKET_COMPLETION_STAMP
        in if total_size < PACKET_HEADER_LEN \<or> total_size > ring_capacity then Inl PeBadSize
           else if available < total_size then Inl PeIncomplete
           else if (of_nat (length bytes) :: u32) < total_size then Inl PeShortSnapshot
           else
             let stamps_bytes = ucast stamp_count * PACKET_STAMP_LEN;
                 min_payload_off = PACKET_HEADER_LEN + stamps_bytes
             in if total_size < min_payload_off then Inl PeBadSize
                else
                  let stamps = take (unat stamps_bytes) (drop (unat PACKET_HEADER_LEN) bytes)
                  in Inr \<lparr>pk_opcode = opcode,
                      pk_stamp_waits =
                        map (\<lambda>i. stamp_record (take (unat PACKET_STAMP_LEN) (drop (i * unat PACKET_STAMP_LEN) stamps)))
                          [0..<length stamps div unat PACKET_STAMP_LEN],
                      pk_total_size = total_size, pk_completion_stamp = completion_stamp,
                      pk_payload = take (unat total_size - unat min_payload_off) (drop (unat min_payload_off) bytes),
                      pk_next_head = head + total_size\<rparr>)"

section \<open>Reading a ring\<close>

lemma ring_chunk:
  fixes ring_size len copied off :: u32
  assumes "ring_size \<noteq> 0" "copied < len" "off < ring_size"
  shows "unat (copied + min (ring_size - off) (len - copied))
           = unat copied + unat (min (ring_size - off) (len - copied))"
    "0 < unat (min (ring_size - off) (len - copied))"
    "unat copied + unat (min (ring_size - off) (len - copied)) \<le> unat len"
proof -
  have a: "unat (len - copied) = unat len - unat copied" "unat (ring_size - off) = unat ring_size - unat off"
    using assms by (simp_all add: unat_sub word_le_nat_alt word_less_nat_alt)
  have m: "unat (min (ring_size - off) (len - copied)) = min (unat ring_size - unat off) (unat len - unat copied)"
    by (auto simp: min_def word_le_nat_alt a)
  show "unat copied + unat (min (ring_size - off) (len - copied)) \<le> unat len"
    "0 < unat (min (ring_size - off) (len - copied))"
    using assms by (auto simp: m word_less_nat_alt)
  then show "unat (copied + min (ring_size - off) (len - copied))
           = unat copied + unat (min (ring_size - off) (len - copied))"
    using unat_lt2p [of len] by (intro unat_add_lem [THEN iffD1]) linarith
qed

lemma ring_off_less: "ring_size \<noteq> 0 \<Longrightarrow> (x :: u32) mod ring_size < ring_size"
  by (simp add: word_mod_less_divisor word_neq_0_conv)

function read_ring_from :: "reader \<Rightarrow> u64 \<Rightarrow> u32 \<Rightarrow> u32 \<Rightarrow> u32 \<Rightarrow> u32 \<Rightarrow> u8 list option" where
  "read_ring_from rd base_gpa ring_size absolute len copied =
     (if ring_size = 0 \<or> \<not> copied < len then Some []
      else
        let off = (absolute + copied) mod ring_size;
            chunk = min (ring_size - off) (len - copied)
        in case rd (base_gpa + ucast off) (unat chunk) of
             None \<Rightarrow> None
           | Some bs \<Rightarrow> map_option ((@) bs) (read_ring_from rd base_gpa ring_size absolute len (copied + chunk)))"
  by pat_completeness auto
termination
proof (relation "measure (\<lambda>(rd, base, ring_size, absolute, len, copied). unat len - unat copied)", simp)
  fix rd base and ring_size absolute len copied off chunk :: u32 and bs :: "u8 list"
  assume g: "\<not> (ring_size = 0 \<or> \<not> copied < len)" and off: "off = (absolute + copied) mod ring_size"
    and c: "chunk = min (ring_size - off) (len - copied)"
  have l: "off < ring_size" unfolding off using g by (intro ring_off_less) simp
  show "((rd, base, ring_size, absolute, len, copied + chunk), (rd, base, ring_size, absolute, len, copied))
          \<in> measure (\<lambda>(rd, base, ring_size, absolute, len, copied). unat len - unat copied)"
    using g ring_chunk [of ring_size copied len off] l by (simp add: c)
qed

declare read_ring_from.simps [simp del]

definition read_ring_bytes :: "reader \<Rightarrow> u64 \<Rightarrow> u32 \<Rightarrow> u32 \<Rightarrow> u32 \<Rightarrow> u8 list option" where
  "read_ring_bytes rd base_gpa ring_size absolute len =
     (if ring_size = 0 \<or> len = 0 then Some (replicate (unat len) 0)
      else read_ring_from rd base_gpa ring_size absolute len 0)"

definition read_child_ring_bytes :: "reader \<Rightarrow> u64 list \<Rightarrow> u32 \<Rightarrow> u32 \<Rightarrow> u32 \<Rightarrow> u32 \<Rightarrow> u8 list option" where
  "read_child_ring_bytes rd page_gpas ring_length absolute len shift =
     (if ring_length = 0 \<or> page_gpas = [] then Some (replicate (unat len) 0)
      else those (map (\<lambda>i.
        let off = (absolute + of_nat i) mod ring_length;
            page = shr64 (ucast off) shift;
            page_off = ucast off AND (shl64 1 shift - 1)
        in if unat page \<ge> length page_gpas then Some 0
           else map_option (\<lambda>b. b ! 0) (rd (page_gpas ! unat page + page_off) 1)) [0..<unat len]))"

end
