(* ===== verification/Drain.thy ===== *)
theory Drain
  imports RingPackets
begin

text \<open>
  The drain of the root FIFO and of the child FIFOs and the pass that schedules them, runtime/drain/mod.rs,
  with the guest writes of runtime/gpa_map.rs. What a packet does is a parameter, as is the graphics engine
  (the writebacks a stamp settles, the stamp it orders on its own queue). A handler may change the whole
  device and may not return, so every loop is an option. Timing and log lines other than \<open>record_fail\<close> are
  left out.
\<close>

unbundle bit_operations_syntax

section \<open>Loops\<close>

datatype 's iter = Stop 's | Again 's

partial_function (option) repeat_step :: "('s \<Rightarrow> 's iter option) \<Rightarrow> 's \<Rightarrow> 's option" where
  "repeat_step step s =
     Option.bind (step s) (\<lambda>r. case r of Stop s' \<Rightarrow> Some s' | Again s' \<Rightarrow> repeat_step step s')"

section \<open>Guest writes\<close>

datatype mem_error = MeBadArgs | MeOverflow | MapPagesRefused | Unmapped

function gpa_pages :: "u64 \<Rightarrow> u64 \<Rightarrow> u64 \<Rightarrow> u64 list option" where
  "gpa_pages p end_gpa page_sz =
     (if page_sz = 0 \<or> \<not> p < end_gpa then Some []
      else case checked_add p page_sz of
             None \<Rightarrow> None
           | Some q \<Rightarrow> map_option ((#) p) (gpa_pages q end_gpa page_sz))"
  by pat_completeness auto
termination
  by (relation "measure (\<lambda>(p, e, z). unat e - unat p)")
     (auto simp: checked_add_def word_less_nat_alt unat_add_no_wrap word_unat_eq_iff split: if_splits)

declare gpa_pages.simps [simp del]

definition poke :: "showing \<Rightarrow> u64 \<Rightarrow> nat \<Rightarrow> u8 list \<Rightarrow> guest_ram \<times> host \<Rightarrow> guest_ram \<times> host" where
  "poke behind ptr off buf gh =
     (case gh of (g, h) \<Rightarrow>
        (g\<lparr>g_bytes := fold (\<lambda>k r. r(behind (h_calls h) ptr (off + k) := buf ! k)) [0..<length buf] (g_bytes g)\<rparr>, h))"

definition gpa_write_bytes ::
  "showing \<Rightarrow> u64 \<Rightarrow> u8 list \<Rightarrow> u64 \<Rightarrow> guest_ram \<times> host \<Rightarrow> (mem_error + unit) \<times> guest_ram \<times> host" where
  "gpa_write_bytes behind gpa buf page_sz gh =
     (case gh of (g, h) \<Rightarrow>
      if buf = [] then (Inr (), g, h)
      else if page_sz = 0 \<or> page_sz AND (page_sz - 1) \<noteq> 0 then (Inl MeBadArgs, g, h)
      else
        let start = gpa AND NOT (page_sz - 1) in
        case checked_add gpa (of_nat (length buf)) of
          None \<Rightarrow> (Inl MeOverflow, g, h)
        | Some end_gpa \<Rightarrow>
            (case gpa_pages start end_gpa page_sz of
               None \<Rightarrow> (Inl MeOverflow, g, h)
             | Some gpas \<Rightarrow>
                 (case map_pages gpas page_sz h of
                    (None, h) \<Rightarrow> (Inl MapPagesRefused, g, h)
                  | (Some ptr, h) \<Rightarrow>
                      let total = of_nat (length gpas) * page_sz; off = unat (gpa - start) in
                      if ptr = 0 \<or> off + length buf > unat total
                      then (Inl Unmapped, g, host_log (UnmapPages ptr total) h)
                      else (case poke behind ptr off buf (g, h) of
                              (g, h) \<Rightarrow> (Inr (), g, host_log (UnmapPages ptr total) h)))))"

definition gpa_write_u32 ::
  "showing \<Rightarrow> u64 \<Rightarrow> u32 \<Rightarrow> u64 \<Rightarrow> guest_ram \<times> host \<Rightarrow> (mem_error + unit) \<times> guest_ram \<times> host" where
  "gpa_write_u32 behind gpa v page_sz gh = gpa_write_bytes behind gpa (le32 v) page_sz gh"

section \<open>The device\<close>

datatype fail_event = MalformedRootPacket packet_fault u32 | MalformedChildPacket u32 packet_fault u32

datatype host_action = IrqGfx | ScheduleBh

record 'r device =
  dd_fifo_length :: u32
  dd_fifo_written :: u32
  dd_fifo_read :: u32
  dd_fifo_start :: u32
  dd_root_page :: u32
  dd_fifo_base_page :: u32
  dd_control_fifo :: u32
  dd_interrupt_gpu :: u32
  dd_rung :: u32
  dd_page_shift :: u32
  dd_main_drain :: bool
  dd_child_mask :: u32
  dd_iosfc :: bool
  dd_yield :: bool
  dd_active_mask :: u32
  dd_translation_deferred :: u32
  dd_stamp_deferred :: u32
  dd_order_hold :: u32
  dd_order_holds :: u64
  dd_draining_channel :: u32
  dd_draining_mask :: u32
  dd_unpainted :: u32
  dd_hold_active :: bool
  dd_hold_channel :: u32
  dd_hold_head :: u32
  dd_hold_count :: u64
  dd_completion_seq :: u64
  dd_rings :: "channel_ring list"
  dd_ram :: guest_ram
  dd_host :: host
  dd_actions :: "host_action list"
  dd_fails :: "fail_event list"
  dd_rest :: 'r

datatype disposition = Complete | Deferred

type_synonym 'r engine = "guest_ram \<times> host \<times> 'r"

record 'r drain_env =
  de_root :: "packet \<Rightarrow> 'r device \<Rightarrow> 'r device option"
  de_child :: "u32 \<Rightarrow> packet \<Rightarrow> 'r device \<Rightarrow> (disposition \<times> 'r device) option"
  de_settle :: "'r engine \<Rightarrow> 'r engine"
  de_outstanding :: "'r \<Rightarrow> bool"
  de_gpu_stamp_on :: bool
  de_gpu_store :: "u64 \<Rightarrow> u64 \<Rightarrow> u32 \<Rightarrow> u32 \<Rightarrow> 'r engine \<Rightarrow> bool \<times> 'r engine"
  de_behind :: showing
  de_coalesce :: bool
  de_pass_tail :: "'r device \<Rightarrow> 'r device option"

definition pfn_gpa :: "'r device \<Rightarrow> u32 \<Rightarrow> u64" where
  "pfn_gpa w pfn = shl64 (ucast pfn) (dd_page_shift w)"

definition dd_page_size :: "'r device \<Rightarrow> u64" where
  "dd_page_size w = shl64 1 (dd_page_shift w)"

definition record_fail :: "fail_event \<Rightarrow> 'r device \<Rightarrow> 'r device" where
  "record_fail ev w = w\<lparr>dd_fails := dd_fails w @ [ev]\<rparr>"

definition enqueue :: "host_action \<Rightarrow> 'r device \<Rightarrow> 'r device" where
  "enqueue a w = w\<lparr>dd_actions := dd_actions w @ [a]\<rparr>"

definition on_engine :: "('r engine \<Rightarrow> 'r engine) \<Rightarrow> 'r device \<Rightarrow> 'r device" where
  "on_engine f w =
     (case f (dd_ram w, dd_host w, dd_rest w) of (g, h, r) \<Rightarrow> w\<lparr>dd_ram := g, dd_host := h, dd_rest := r\<rparr>)"

text \<open>\<open>settle_guest_writes\<close>, which waits only when something is owed.\<close>

definition settle_guest_writes :: "'r drain_env \<Rightarrow> 'r device \<Rightarrow> 'r device" where
  "settle_guest_writes env w =
     (if \<not> de_outstanding env (dd_rest w) then w else on_engine (de_settle env) w)"

definition dev_write_u32 :: "'r drain_env \<Rightarrow> u64 \<Rightarrow> u32 \<Rightarrow> 'r device \<Rightarrow> bool \<times> 'r device" where
  "dev_write_u32 env gpa v w =
     (case gpa_write_u32 (de_behind env) gpa v (dd_page_size w) (dd_ram w, dd_host w) of
        (res, g, h) \<Rightarrow> (res = Inr (), w\<lparr>dd_ram := g, dd_host := h\<rparr>))"

section \<open>Stamps\<close>

definition wait_verdict :: "'r device \<Rightarrow> (u32 \<times> pending_stamp) option \<Rightarrow> stamp_wait \<Rightarrow> stamp_verdict" where
  "wait_verdict w pending wait =
     (if (case pending of None \<Rightarrow> False | Some (slot, latched) \<Rightarrow> discharges latched slot wait) then Ready
      else case stamp_slot_offset (stamp_slot_index (sw_index wait)) (dd_page_size w) of
             None \<Rightarrow> Unevaluable
           | Some off \<Rightarrow>
               if dd_fifo_base_page w = 0 then Unevaluable
               else case host_read_u32 (dd_ram w) (pfn_gpa w (dd_fifo_base_page w) + off) of
                      None \<Rightarrow> Unevaluable
                    | Some current \<Rightarrow> if satisfied_by wait current then Ready else Hold)"

definition note_packet_stamp_waits ::
  "'r device \<Rightarrow> packet \<Rightarrow> (u32 \<times> pending_stamp) option \<Rightarrow> stamp_verdict" where
  "note_packet_stamp_waits w packet pending =
     fold (\<lambda>wait verdict. stamp_and verdict (wait_verdict w pending wait)) (pk_stamp_waits packet) Ready"

definition stamp_word_ordered_on_gpu :: "'r drain_env \<Rightarrow> u32 \<Rightarrow> u32 \<Rightarrow> 'r device \<Rightarrow> bool \<times> 'r device" where
  "stamp_word_ordered_on_gpu env index value w =
     (if \<not> de_gpu_stamp_on env then (False, w)
      else if \<not> de_outstanding env (dd_rest w) then (False, w)
      else case stamp_slot_offset index (dd_page_size w) of
             None \<Rightarrow> (False, w)
           | Some off \<Rightarrow>
               let gpa = pfn_gpa w (dd_fifo_base_page w) + off;
                   page = gpa AND NOT (dd_page_size w - 1)
               in case de_gpu_store env page (gpa - page) index value (dd_ram w, dd_host w, dd_rest w) of
                    (stored, g, h, r) \<Rightarrow> (stored, w\<lparr>dd_ram := g, dd_host := h, dd_rest := r\<rparr>))"

definition write_fifo_stamp :: "'r drain_env \<Rightarrow> u32 \<Rightarrow> u32 \<Rightarrow> 'r device \<Rightarrow> 'r device" where
  "write_fifo_stamp env stamp_index stamp_value w =
     (let index = stamp_slot_index stamp_index in
      if dd_fifo_base_page w = 0 then w
      else case stamp_word_ordered_on_gpu env index stamp_value w of
        (True, w) \<Rightarrow> w\<lparr>dd_completion_seq := dd_completion_seq w + 1\<rparr>
      | (False, w) \<Rightarrow>
          let w = settle_guest_writes env w in
          case stamp_slot_offset index (dd_page_size w) of
            None \<Rightarrow> w
          | Some off \<Rightarrow>
              (case dev_write_u32 env (pfn_gpa w (dd_fifo_base_page w) + off) stamp_value w of
                 (True, w) \<Rightarrow>
                   enqueue IrqGfx (w\<lparr>dd_completion_seq := dd_completion_seq w + 1,
                     dd_interrupt_gpu := dd_interrupt_gpu w OR push_bit (unat (index AND 0x1f)) 1\<rparr>)
               | (False, w) \<Rightarrow> w))"

section \<open>The root FIFO\<close>

definition ROOT_FIFO_BIT :: u32 where "ROOT_FIFO_BIT = 1"

text \<open>The completion stamp of a root packet, slot zero, on the blocking rail.\<close>

definition root_stamp :: "'r drain_env \<Rightarrow> packet \<Rightarrow> bool \<times> 'r device \<Rightarrow> bool \<times> 'r device" where
  "root_stamp env packet cw =
     (case cw of (completed, w) \<Rightarrow>
      if dd_fifo_base_page w = 0 then (completed, w)
      else case stamp_slot_offset 0 (dd_page_size w) of
             None \<Rightarrow> (completed, w)
           | Some off \<Rightarrow>
               let w = settle_guest_writes env w in
               case dev_write_u32 env (pfn_gpa w (dd_fifo_base_page w) + off) (pk_completion_stamp packet) w of
                 (True, w) \<Rightarrow> (True, w\<lparr>dd_completion_seq := dd_completion_seq w + 1\<rparr>)
               | (False, w) \<Rightarrow> (completed, record_fail (MalformedRootPacket RootStampWriteback (dd_fifo_read w)) w))"

definition root_fault :: "packet_fault \<Rightarrow> bool \<times> 'r device \<Rightarrow> bool \<times> 'r device" where
  "root_fault fault cw = (case cw of (completed, w) \<Rightarrow>
     (completed, record_fail (MalformedRootPacket fault (dd_fifo_read w)) w))"

text \<open>A packet of the root FIFO: held on a stamp, or processed, taken off the ring and stamped.\<close>

definition root_packet :: "'r drain_env \<Rightarrow> packet \<Rightarrow> bool \<times> 'r device \<Rightarrow> (bool \<times> 'r device) iter option" where
  "root_packet env packet cw =
     (case cw of (completed, w) \<Rightarrow>
      if note_packet_stamp_waits w packet None = Hold
      then Some (Stop (completed, w\<lparr>dd_stamp_deferred := dd_stamp_deferred w OR ROOT_FIFO_BIT, dd_main_drain := True\<rparr>))
      else map_option (\<lambda>w. Again (root_stamp env packet (completed, w\<lparr>dd_fifo_read := pk_next_head packet\<rparr>)))
             (de_root env packet w))"

text \<open>One turn of the loop of \<open>drain_main_fifo\<close>, over whether a stamp completed and the device.\<close>

definition main_step :: "'r drain_env \<Rightarrow> u32 \<Rightarrow> u64 \<Rightarrow> bool \<times> 'r device \<Rightarrow> (bool \<times> 'r device) iter option" where
  "main_step env ring_size base cw =
     (case cw of (completed, w) \<Rightarrow>
      if dd_fifo_read w = dd_fifo_written w then Some (Stop cw)
      else case published_byte_count (dd_fifo_read w) (dd_fifo_written w) ring_size of
        None \<Rightarrow> Some (Stop (root_fault DesyncedHeadTail cw))
      | Some available \<Rightarrow>
          if available < PACKET_HEADER_LEN then Some (Stop cw)
          else case read_ring_bytes (read_gpa (dd_ram w)) base ring_size (dd_fifo_read w) PACKET_HEADER_LEN of
            None \<Rightarrow> Some (Stop (root_fault RootHeaderRead cw))
          | Some header \<Rightarrow>
              let snap_len = packet_snapshot_len header available ring_size in
              (case read_ring_bytes (read_gpa (dd_ram w)) base ring_size (dd_fifo_read w) snap_len of
                 None \<Rightarrow> Some (Stop (root_fault RootSnapRead cw))
               | Some snap \<Rightarrow>
                   (case decode_packet_inner snap (dd_fifo_read w) available ring_size of
                      Inr packet \<Rightarrow> root_packet env packet cw
                    | Inl err \<Rightarrow>
                        Some (Stop (case packet_error_fault err of None \<Rightarrow> cw | Some fault \<Rightarrow> root_fault fault cw)))))"

text \<open>What follows the loop.\<close>

definition main_finish :: "bool \<times> 'r device \<Rightarrow> 'r device" where
  "main_finish cw =
     (case cw of (completed, w) \<Rightarrow>
      let w = (if completed then enqueue IrqGfx (w\<lparr>dd_interrupt_gpu := dd_interrupt_gpu w OR 1\<rparr>) else w)
      in w\<lparr>dd_main_drain := (dd_stamp_deferred w AND ROOT_FIFO_BIT \<noteq> 0)\<rparr>)"

definition drain_main_fifo :: "'r drain_env \<Rightarrow> 'r device \<Rightarrow> 'r device option" where
  "drain_main_fifo env w =
     (let w = w\<lparr>dd_stamp_deferred := dd_stamp_deferred w AND NOT ROOT_FIFO_BIT\<rparr>;
          ring_size = main_ring_data_size (dd_fifo_length w) (dd_fifo_start w)
      in if ring_size = 0 \<or> dd_fifo_base_page w = 0 then Some (w\<lparr>dd_main_drain := False\<rparr>)
         else
           let base = pfn_gpa w (dd_fifo_base_page w) + ucast (dd_fifo_start w)
           in map_option main_finish (repeat_step (main_step env ring_size base) (False, w)))"

section \<open>A child FIFO\<close>

definition CHILD_REG_BLOCK_OFFSET :: u64 where "CHILD_REG_BLOCK_OFFSET = 0x400"
definition CHILD_REG_BLOCK_STRIDE :: u64 where "CHILD_REG_BLOCK_STRIDE = 0x14"
definition CHILD_REG_TAIL :: u64 where "CHILD_REG_TAIL = 0x00"
definition CHILD_REG_HEAD :: u64 where "CHILD_REG_HEAD = 0x04"
definition CHILD_REG_STAMP_INDEX :: u64 where "CHILD_REG_STAMP_INDEX = 0x0c"
definition CHILD_REG_BASE_PFN :: u64 where "CHILD_REG_BASE_PFN = 0x10"
definition CHILD_RING_PFN_ENTRY_LEN :: u64 where "CHILD_RING_PFN_ENTRY_LEN = 4"
definition CHILD_OP_DISPLAY_SWAP :: u16 where "CHILD_OP_DISPLAY_SWAP = 0x08"
definition CHILD_OP_DISPLAY_TRANSACTION2 :: u16 where "CHILD_OP_DISPLAY_TRANSACTION2 = 0x06"
definition CHILD_OP_DISPLAY_TRANSACTION3 :: u16 where "CHILD_OP_DISPLAY_TRANSACTION3 = 0x07"
definition MAX_UNPAINTED_PRESENTS :: u32 where "MAX_UNPAINTED_PRESENTS = 2"

definition child_reg_block_offset :: "u32 \<Rightarrow> u64 option" where
  "child_reg_block_offset channel_id =
     (if \<not> is_child_channel channel_id then None
      else Some (CHILD_REG_BLOCK_OFFSET + (ucast channel_id - 1) * CHILD_REG_BLOCK_STRIDE))"

definition channel_bit :: "u32 \<Rightarrow> u32" where
  "channel_bit ch = push_bit (unat ch) 1"

text \<open>The leading page numbers of a list, up to a zero or an entry that does not read.\<close>

primrec leading_pages :: "reader \<Rightarrow> u32 \<Rightarrow> u64 \<Rightarrow> nat \<Rightarrow> u64 list" where
  "leading_pages rd shift list_gpa 0 = []"
| "leading_pages rd shift list_gpa (Suc n) =
     (case rd list_gpa 4 of
        None \<Rightarrow> []
      | Some b \<Rightarrow>
          let pfn = le_word b :: u32 in
          if pfn = 0 then []
          else shl64 (ucast pfn) shift # leading_pages rd shift (list_gpa + CHILD_RING_PFN_ENTRY_LEN) n)"

definition ensure_child_ring :: "u32 \<Rightarrow> u32 \<Rightarrow> 'r device \<Rightarrow> u32 \<times> 'r device" where
  "ensure_child_ring channel_id base_pfn w =
     (if \<not> is_child_channel channel_id \<or> base_pfn = 0 then (0, w)
      else
        let ring = dd_rings w ! unat channel_id in
        if cr_valid ring \<and> cr_base_pfn ring = base_pfn then (cr_length ring, w)
        else
          let list_gpa = pfn_gpa w base_pfn;
              max_entries = ucast (dd_page_size w div CHILD_RING_PFN_ENTRY_LEN) :: u32;
              page_gpas = leading_pages (read_gpa (dd_ram w)) (dd_page_shift w) list_gpa (unat max_entries);
              length = saturating_mul (of_nat (length page_gpas)) (ucast (dd_page_size w)) :: u32
          in (length, w\<lparr>dd_rings := (dd_rings w)[unat channel_id :=
                \<lparr>cr_valid = (length \<noteq> 0), cr_base_pfn = base_pfn, cr_length = length, cr_page_gpas = page_gpas\<rparr>]\<rparr>))"

definition note_present_backpressure_hold :: "u32 \<Rightarrow> u32 \<Rightarrow> 'r device \<Rightarrow> 'r device" where
  "note_present_backpressure_hold channel head w =
     (if dd_hold_active w \<and> dd_hold_channel w = channel \<and> dd_hold_head w = head then w
      else w\<lparr>dd_hold_active := True, dd_hold_channel := channel, dd_hold_head := head,
             dd_hold_count := saturating_add (dd_hold_count w) 1\<rparr>)"

definition note_present_paint_consumed :: "'r device \<Rightarrow> 'r device" where
  "note_present_paint_consumed w = w\<lparr>dd_unpainted := 0, dd_hold_active := False, dd_yield := False\<rparr>"

text \<open>What \<open>drain_child_fifo\<close> reads once, and what its loop carries: the head, the stamps it owes, the device.\<close>

record child_ring =
  cx_channel :: u32
  cx_regs_gpa :: u64
  cx_stamp_index :: u32
  cx_ring_length :: u32
  cx_page_gpas :: "u64 list"

type_synonym 'r child_state = "u32 \<times> pending_stamp \<times> 'r device"

definition child_fault :: "child_ring \<Rightarrow> packet_fault \<Rightarrow> 'r child_state \<Rightarrow> 'r child_state" where
  "child_fault cx fault st = (case st of (head, pending, w) \<Rightarrow>
     (head, pending, record_fail (MalformedChildPacket (cx_channel cx) fault head) w))"

text \<open>What follows a packet that completed: the head is published, the stamp latched or written, and a yield stops.\<close>

definition child_completed :: "'r drain_env \<Rightarrow> child_ring \<Rightarrow> u32 \<Rightarrow> packet \<Rightarrow> pending_stamp \<Rightarrow> 'r device \<Rightarrow> 'r child_state iter" where
  "child_completed env cx tail packet pending w =
     (let head = pk_next_head packet in
      case dev_write_u32 env (cx_regs_gpa cx + CHILD_REG_HEAD) head w of (written, w) \<Rightarrow>
      let w = (if written then w else record_fail (MalformedChildPacket (cx_channel cx) ChildHeadWriteback head) w);
          pending = (if de_coalesce env then latch (pk_completion_stamp packet) pending else pending);
          w = (if de_coalesce env then w else write_fifo_stamp env (cx_stamp_index cx) (pk_completion_stamp packet) w)
      in if dd_yield w
         then Stop (head, pending,
                if head \<noteq> tail then w\<lparr>dd_child_mask := dd_child_mask w OR channel_bit (cx_channel cx)\<rparr> else w)
         else Again (head, pending, w))"

text \<open>A packet of a child FIFO: held on a stamp, or processed and then deferred or completed.\<close>

definition child_packet :: "'r drain_env \<Rightarrow> child_ring \<Rightarrow> u32 \<Rightarrow> packet \<Rightarrow> 'r child_state \<Rightarrow> 'r child_state iter option" where
  "child_packet env cx tail packet st =
     (case st of (head, pending, w) \<Rightarrow>
      if note_packet_stamp_waits w packet (Some (stamp_slot_index (cx_stamp_index cx), pending)) = Hold
      then Some (Stop (head, pending, w\<lparr>dd_stamp_deferred := dd_stamp_deferred w OR channel_bit (cx_channel cx),
                                        dd_child_mask := dd_child_mask w OR channel_bit (cx_channel cx)\<rparr>))
      else map_option (\<lambda>(disp, w).
             if disp = Deferred then Stop (head, pending, w) else child_completed env cx tail packet pending w)
           (de_child env (cx_channel cx) packet w))"

text \<open>The gate before the decode: a present waits while the host has not painted the last two.\<close>

definition present_gated :: "u16 \<Rightarrow> 'r device \<Rightarrow> bool" where
  "present_gated opcode w \<longleftrightarrow>
     (opcode = CHILD_OP_DISPLAY_SWAP \<or> opcode = CHILD_OP_DISPLAY_TRANSACTION2 \<or> opcode = CHILD_OP_DISPLAY_TRANSACTION3)
     \<and> dd_unpainted w \<ge> MAX_UNPAINTED_PRESENTS"

definition child_gated :: "child_ring \<Rightarrow> 'r child_state \<Rightarrow> 'r child_state" where
  "child_gated cx st =
     (case st of (head, pending, w) \<Rightarrow>
      let w = note_present_backpressure_hold (cx_channel cx) head w
      in (head, pending, w\<lparr>dd_child_mask := dd_child_mask w OR channel_bit (cx_channel cx)\<rparr>))"

definition child_step :: "'r drain_env \<Rightarrow> child_ring \<Rightarrow> 'r child_state \<Rightarrow> 'r child_state iter option" where
  "child_step env cx st =
     (case st of (head, pending, w) \<Rightarrow>
      case host_read_u32 (dd_ram w) (cx_regs_gpa cx + CHILD_REG_TAIL) of
        None \<Rightarrow> Some (Stop (child_fault cx ChildTailRead st))
      | Some tail \<Rightarrow>
      if head = tail then Some (Stop st)
      else case published_byte_count head tail (cx_ring_length cx) of
        None \<Rightarrow> Some (Stop (child_fault cx DesyncedHeadTail st))
      | Some available \<Rightarrow>
      if available < PACKET_HEADER_LEN then Some (Stop st)
      else case read_child_ring_bytes (read_gpa (dd_ram w)) (cx_page_gpas cx) (cx_ring_length cx) head
                  PACKET_HEADER_LEN (dd_page_shift w) of
        None \<Rightarrow> Some (Stop (child_fault cx ChildHeaderRead st))
      | Some header \<Rightarrow>
      case read_child_ring_bytes (read_gpa (dd_ram w)) (cx_page_gpas cx) (cx_ring_length cx) head
             (packet_snapshot_len header available (cx_ring_length cx)) (dd_page_shift w) of
        None \<Rightarrow> Some (Stop (child_fault cx ChildSnapRead st))
      | Some snap \<Rightarrow>
      if present_gated (u16_at header PACKET_OPCODE) w then Some (Stop (child_gated cx st))
      else case decode_packet_inner snap head available (cx_ring_length cx) of
        Inl err \<Rightarrow>
          Some (Stop (case packet_error_fault err of None \<Rightarrow> st | Some fault \<Rightarrow> child_fault cx fault st))
      | Inr packet \<Rightarrow> child_packet env cx tail packet st)"

text \<open>
  The registers and the ring, read once. \<open>Inl\<close> is an early return; \<open>Inr\<close> holds what the loop reads, the
  channel that was being drained, the head and the device marked as draining this channel.
\<close>

definition child_setup :: "u32 \<Rightarrow> 'r device \<Rightarrow> 'r device + child_ring \<times> u32 \<times> u32 \<times> 'r device" where
  "child_setup channel_id w =
     (if dd_root_page w = 0 then Inl w
      else case child_reg_block_offset channel_id of
        None \<Rightarrow> Inl w
      | Some regs_off \<Rightarrow>
      let regs_gpa = pfn_gpa w (dd_root_page w) + regs_off in
      case host_read_u32 (dd_ram w) (regs_gpa + CHILD_REG_HEAD) of
        None \<Rightarrow> Inl (record_fail (MalformedChildPacket channel_id ChildRegsHeadRead 0) w)
      | Some head \<Rightarrow>
      case host_read_u32 (dd_ram w) (regs_gpa + CHILD_REG_STAMP_INDEX) of
        None \<Rightarrow> Inl (record_fail (MalformedChildPacket channel_id ChildRegsStampRead head) w)
      | Some stamp_index \<Rightarrow>
      case host_read_u32 (dd_ram w) (regs_gpa + CHILD_REG_BASE_PFN) of
        None \<Rightarrow> Inl (record_fail (MalformedChildPacket channel_id ChildRegsBaseRead head) w)
      | Some base_pfn \<Rightarrow>
      case ensure_child_ring channel_id base_pfn w of (ring_length, w) \<Rightarrow>
      if ring_length = 0 then Inl w
      else Inr (\<lparr>cx_channel = channel_id, cx_regs_gpa = regs_gpa, cx_stamp_index = stamp_index,
                 cx_ring_length = ring_length, cx_page_gpas = cr_page_gpas (dd_rings w ! unat channel_id)\<rparr>,
                dd_draining_channel w, head,
                w\<lparr>dd_draining_channel := channel_id, dd_draining_mask := dd_draining_mask w OR channel_bit channel_id,
                   dd_stamp_deferred := dd_stamp_deferred w AND NOT (channel_bit channel_id)\<rparr>))"

text \<open>What follows the loop: the owed stamp, and the channel drained before.\<close>

definition child_finish :: "'r drain_env \<Rightarrow> child_ring \<Rightarrow> u32 \<Rightarrow> 'r child_state \<Rightarrow> 'r device" where
  "child_finish env cx prev_channel st =
     (case st of (head, pending, w) \<Rightarrow>
      let w = (case owed pending of None \<Rightarrow> w | Some value \<Rightarrow> write_fifo_stamp env (cx_stamp_index cx) value w)
      in w\<lparr>dd_draining_mask := dd_draining_mask w AND NOT (channel_bit (cx_channel cx)),
            dd_draining_channel := prev_channel\<rparr>)"

definition drain_child_fifo :: "'r drain_env \<Rightarrow> u32 \<Rightarrow> 'r device \<Rightarrow> 'r device option" where
  "drain_child_fifo env channel_id w =
     (case child_setup channel_id w of
        Inl w \<Rightarrow> Some w
      | Inr (cx, prev_channel, head, w) \<Rightarrow>
          map_option (child_finish env cx prev_channel) (repeat_step (child_step env cx) (head, None, w)))"

section \<open>The pass\<close>

definition note_translation_order_hold :: "u32 \<Rightarrow> 'r device \<Rightarrow> 'r device" where
  "note_translation_order_hold held_mask w =
     (let new_mask = held_mask AND NOT (dd_order_hold w) in
      if new_mask = 0 then w
      else w\<lparr>dd_order_hold := dd_order_hold w OR new_mask,
             dd_order_holds := (if dd_order_hold w = 0 then saturating_add (dd_order_holds w) 1 else dd_order_holds w)\<rparr>)"

definition release_translation_order_holds :: "'r device \<Rightarrow> 'r device" where
  "release_translation_order_holds w =
     (if dd_translation_deferred w \<noteq> 0 \<or> dd_order_hold w = 0 then w else w\<lparr>dd_order_hold := 0\<rparr>)"

definition fold_rung_child_doorbells :: "'r device \<Rightarrow> 'r device" where
  "fold_rung_child_doorbells w =
     (let rung = dd_rung w; w = w\<lparr>dd_rung := 0\<rparr> in
      if rung = 0 then w
      else w\<lparr>dd_active_mask := dd_active_mask w OR rung, dd_child_mask := dd_child_mask w OR rung\<rparr>)"

definition publish_stranded_fifos :: "bool \<Rightarrow> 'r device \<Rightarrow> bool \<times> 'r device" where
  "publish_stranded_fifos iosfc_behind w =
     (let main = (dd_control_fifo w \<noteq> 0 \<and> dd_fifo_read w \<noteq> dd_fifo_written w);
          child = (dd_control_fifo w \<noteq> 0 \<and> dd_active_mask w \<noteq> 0);
          w = (if main then w\<lparr>dd_main_drain := True\<rparr> else w);
          w = (if child then w\<lparr>dd_child_mask := dd_child_mask w OR dd_active_mask w\<rparr> else w);
          w = (if iosfc_behind then w\<lparr>dd_iosfc := True\<rparr> else w);
          published = (main \<or> child \<or> iosfc_behind)
      in (published, if published then enqueue ScheduleBh w else w))"

definition child_channels :: "u32 list" where
  "child_channels = map of_nat [1..<MAX_CHANNELS]"

text \<open>The drain of the channels that hold a packet for its translation.\<close>

primrec drain_deferred :: "'r drain_env \<Rightarrow> (u32 \<Rightarrow> bool) \<Rightarrow> u32 list \<Rightarrow> 'r device \<Rightarrow> 'r device option" where
  "drain_deferred env pick [] w = Some w"
| "drain_deferred env pick (ch # chs) w =
     (if \<not> pick ch then drain_deferred env pick chs w
      else Option.bind (drain_child_fifo env ch (w\<lparr>dd_child_mask := dd_child_mask w AND NOT (channel_bit ch)\<rparr>))
             (drain_deferred env pick chs))"

primrec drain_others :: "'r drain_env \<Rightarrow> u32 \<Rightarrow> u32 \<Rightarrow> u32 \<Rightarrow> u32 list \<Rightarrow> u32 \<Rightarrow> 'r device \<Rightarrow> 'r device option" where
  "drain_others env msk nested skip [] remaining w = Some w"
| "drain_others env msk nested skip (ch # chs) remaining w =
     (if dd_yield w then Some w
      else if ch = skip \<or> nested AND channel_bit ch \<noteq> 0 \<or> msk AND channel_bit ch = 0
      then drain_others env msk nested skip chs remaining w
      else
        let remaining = remaining AND NOT (channel_bit ch) in
        Option.bind (drain_child_fifo env ch (w\<lparr>dd_child_mask := dd_child_mask w AND NOT (channel_bit ch)\<rparr>))
          (\<lambda>w. if dd_translation_deferred w \<noteq> 0
                then (let held_mask = remaining AND NOT nested AND NOT (channel_bit skip) in
                      Some (note_translation_order_hold held_mask
                        (w\<lparr>dd_child_mask := dd_child_mask w OR (held_mask OR dd_translation_deferred w)\<rparr>)))
                else drain_others env msk nested skip chs remaining w))"

definition drain_other_child_fifos :: "'r drain_env \<Rightarrow> u32 \<Rightarrow> 'r device \<Rightarrow> 'r device option" where
  "drain_other_child_fifos env skip_channel w =
     (let msk = dd_active_mask w OR dd_child_mask w;
          nested = dd_draining_mask w;
          deferred = dd_translation_deferred w
      in if deferred = 0 then drain_others env msk nested skip_channel child_channels msk w
         else Option.bind
           (drain_deferred env (\<lambda>ch. deferred AND channel_bit ch \<noteq> 0 \<and> ch \<noteq> skip_channel \<and> nested AND channel_bit ch = 0)
              child_channels w)
           (\<lambda>w. if dd_translation_deferred w \<noteq> 0
                 then (let held_mask = msk AND NOT deferred AND NOT nested AND NOT (channel_bit skip_channel) in
                       Some (note_translation_order_hold held_mask
                         (w\<lparr>dd_child_mask := dd_child_mask w OR (held_mask OR dd_translation_deferred w)\<rparr>)))
                 else drain_others env msk nested skip_channel child_channels msk (release_translation_order_holds w)))"

text \<open>
  The channels of one pass, in order, from the set the pass took. The result is whether the pass goes on,
  the channels served so far, and the device.
\<close>

primrec child_pass ::
  "'r drain_env \<Rightarrow> u32 \<Rightarrow> u32 list \<Rightarrow> u32 \<Rightarrow> u32 \<Rightarrow> 'r device \<Rightarrow> (bool \<times> u32 \<times> 'r device) option" where
  "child_pass env msk [] remaining served w = Some (True, served, w)"
| "child_pass env msk (ch # chs) remaining served w =
     (if msk AND channel_bit ch = 0 then child_pass env msk chs remaining served w
      else
        let remaining = remaining AND NOT (channel_bit ch); served = served OR channel_bit ch in
        Option.bind (drain_child_fifo env ch w) (\<lambda>w.
          if dd_translation_deferred w \<noteq> 0
          then Some (False, served, note_translation_order_hold remaining
                 (w\<lparr>dd_child_mask := dd_child_mask w OR (remaining OR dd_translation_deferred w)\<rparr>))
          else if dd_yield w then Some (False, served, w\<lparr>dd_child_mask := dd_child_mask w OR remaining\<rparr>)
          else child_pass env msk chs remaining served w))"

definition CHILD_DOORBELL_REFILLS :: nat where "CHILD_DOORBELL_REFILLS = 3"

text \<open>The refills, with what is left of the set to hand back.\<close>

primrec child_refills ::
  "'r drain_env \<Rightarrow> nat \<Rightarrow> u32 \<Rightarrow> u32 \<Rightarrow> 'r device \<Rightarrow> (bool \<times> u32 \<times> u32 \<times> 'r device) option" where
  "child_refills env 0 msk served w = Some (True, msk, served, w)"
| "child_refills env (Suc n) msk served w =
     Option.bind (child_pass env msk child_channels msk served w) (\<lambda>(goes_on, served, w).
       if \<not> goes_on then Some (False, 0, served, w)
       else
         let w = fold_rung_child_doorbells w;
             msk = dd_child_mask w AND NOT served;
             w = w\<lparr>dd_child_mask := 0\<rparr>
         in if msk = 0 then Some (True, msk, served, w) else child_refills env n msk served w)"

text \<open>One round over the timelines held on a stamp, and whether a yield ended it.\<close>

primrec retry_children :: "'r drain_env \<Rightarrow> u32 list \<Rightarrow> 'r device \<Rightarrow> (bool \<times> 'r device) option" where
  "retry_children env [] w = Some (False, w)"
| "retry_children env (ch # chs) w =
     (if dd_stamp_deferred w AND channel_bit ch = 0 then retry_children env chs w
      else Option.bind (drain_child_fifo env ch w) (\<lambda>w.
             if dd_yield w then Some (True, w) else retry_children env chs w))"

definition retry_step :: "'r drain_env \<Rightarrow> 'r device \<Rightarrow> 'r device iter option" where
  "retry_step env w =
     (if dd_stamp_deferred w = 0 then Some (Stop w)
      else
        let seq_before = dd_completion_seq w in
        Option.bind (if dd_stamp_deferred w AND ROOT_FIFO_BIT \<noteq> 0 then drain_main_fifo env w else Some w) (\<lambda>w.
        map_option (\<lambda>(yielded, w).
            if yielded then Stop w else if dd_completion_seq w = seq_before then Stop w else Again w)
          (retry_children env child_channels w)))"

definition retry_stamp_held_timelines :: "'r drain_env \<Rightarrow> 'r device \<Rightarrow> 'r device option" where
  "retry_stamp_held_timelines env w = repeat_step (retry_step env) w"

text \<open>\<open>drain_pending\<close> from the root FIFO on; the mapper ring and the upkeep at its end are \<open>de_pass_tail\<close>.\<close>

definition drain_pass :: "'r drain_env \<Rightarrow> 'r device \<Rightarrow> 'r device option" where
  "drain_pass env w =
     Option.bind (if dd_main_drain w then drain_main_fifo env w else Some w) (\<lambda>w.
       let w = fold_rung_child_doorbells w; msk = dd_child_mask w; w = w\<lparr>dd_child_mask := 0\<rparr> in
       Option.bind (child_refills env CHILD_DOORBELL_REFILLS msk 0 w) (\<lambda>(goes_on, msk, served, w).
         if \<not> goes_on then Some w
         else Option.bind
           (retry_stamp_held_timelines env (w\<lparr>dd_child_mask := dd_child_mask w OR msk\<rparr>)) (de_pass_tail env)))"

definition drain_pending :: "'r drain_env \<Rightarrow> 'r device \<Rightarrow> 'r device option" where
  "drain_pending env w =
     (if dd_yield w then Some w
      else
        let w = release_translation_order_holds w; deferred = dd_translation_deferred w in
        if deferred = 0 then drain_pass env w
        else
          let w = (if dd_main_drain w then note_translation_order_hold ROOT_FIFO_BIT w else w);
              w = note_translation_order_hold (dd_child_mask w AND NOT deferred) w
          in Option.bind (drain_deferred env (\<lambda>ch. deferred AND channel_bit ch \<noteq> 0) child_channels w) (\<lambda>w.
               if dd_translation_deferred w \<noteq> 0
               then Some (w\<lparr>dd_child_mask := dd_child_mask w OR dd_translation_deferred w\<rparr>)
               else drain_pass env (release_translation_order_holds w)))"

end
