(* ===== verification/RingFacts.thy ===== *)
theory RingFacts
  imports RingPackets SpanFacts
begin

text \<open>
  What the ring readers read, byte by byte, what \<open>decode_packet_inner\<close> accepts, and what a coalesced stamp
  answers.
\<close>

unbundle bit_operations_syntax

section \<open>Bytes of a ring\<close>

definition byte_at :: "guest_ram \<Rightarrow> u64 \<Rightarrow> u8 option" where
  "byte_at g a = (if g_absent g a then None else Some (g_bytes g a))"

lemma those_append: "those (xs @ ys) = Option.bind (those xs) (\<lambda>x. map_option ((@) x) (those ys))"
proof (induction xs)
  case Nil
  show ?case by (cases "those ys") simp_all
next
  case (Cons x xs)
  then show ?case by (cases "those xs"; cases "those ys") (auto split: option.split)
qed

lemma upt_from: "map ((+) n) [0..<k] = [n..<n + k]"
  by (rule nth_equalityI) simp_all

lemma ucast_u64: "(ucast (x :: u32) :: u64) = of_nat (unat x)"
  using unat_lt2p [of x] by (intro unsigned_word_eqI) (simp add: unat_of_nat)

lemma read_gpa_those: "read_gpa g a n = those (map (\<lambda>k. byte_at g (a + of_nat k)) [0..<n])"
proof (induction n)
  case (Suc n)
  have "read_gpa g a (Suc n) = Option.bind (read_gpa g a n) (\<lambda>bs. map_option (\<lambda>b. bs @ [b]) (byte_at g (a + of_nat n)))"
    by (auto simp: read_gpa_def byte_at_def list_ex_iff less_Suc_eq)
  then show ?case
    by (simp add: Suc those_append option.map_comp comp_def split: Option.bind_split)
       (auto split: option.split)
qed (simp add: read_gpa_def)

text \<open>The place of byte \<open>i\<close> of a read, when the free-running counter does not wrap inside it or wraps with the ring.\<close>

definition wraps_with :: "u32 \<Rightarrow> u32 \<Rightarrow> u32 \<Rightarrow> bool" where
  "wraps_with ring_size absolute len \<longleftrightarrow>
     unat absolute + unat len \<le> 2 ^ 32 \<or> unat ring_size dvd 2 ^ 32"

lemma ring_pos:
  assumes "wraps_with ring_size absolute len" "i < unat len"
  shows "unat ((absolute + of_nat i) mod ring_size) = (unat absolute + i) mod unat ring_size"
proof -
  have i: "i < 2 ^ 32" using assms(2) unat_lt2p [of len] by simp
  have s: "unat (absolute + of_nat i) = (unat absolute + i) mod 2 ^ 32"
    using i by (simp add: unat_word_ariths unat_of_nat mod_add_right_eq)
  show ?thesis
    using assms by (auto simp: wraps_with_def unat_mod s mod_mod_cancel)
qed

lemma ring_run:
  assumes "n mod s + j < (s :: nat)"
  shows "(n + j) mod s = n mod s + j"
  using assms by (metis mod_add_left_eq mod_less)

lemma read_ring_from_bytes:
  assumes "ring_size \<noteq> 0" "wraps_with ring_size absolute len"
  shows "read_ring_from (read_gpa g) base ring_size absolute len copied
    = those (map (\<lambda>i. byte_at g (base + ucast ((absolute + of_nat i) mod ring_size))) [unat copied..<unat len])"
  using assms
proof (induction "read_gpa g" base ring_size absolute len copied rule: read_ring_from.induct)
  case (1 base ring_size absolute len copied)
  show ?case
  proof (cases "copied < len")
    case False
    then show ?thesis by (subst read_ring_from.simps) (simp add: word_less_nat_alt)
  next
    case True
    define off where "off = (absolute + copied) mod ring_size"
    define chunk where "chunk = min (ring_size - off) (len - copied)"
    have off: "off < ring_size" unfolding off_def using 1 by (intro ring_off_less)
    note c = ring_chunk [OF 1(2) True off, folded chunk_def]
    have ringoff: "unat off = (unat absolute + unat copied) mod unat ring_size"
      using ring_pos [OF 1(3), of "unat copied"] True by (simp add: off_def word_less_nat_alt)
    have "chunk \<le> ring_size - off" by (simp add: chunk_def)
    then have fits: "unat off + unat chunk \<le> unat ring_size"
      using off by (simp add: word_le_nat_alt unat_sub_no_wrap word_less_nat_alt order_less_imp_le)
    define f where "f i = byte_at g (base + ucast ((absolute + of_nat i) mod ring_size))" for i
    have place: "byte_at g (base + ucast off + of_nat k) = f (unat copied + k)" if "k < unat chunk" for k
    proof -
      have "unat ((absolute + of_nat (unat copied + k)) mod ring_size)
          = (unat absolute + unat copied + k) mod unat ring_size"
        using ring_pos [OF 1(3), of "unat copied + k"] that c by (simp add: add.assoc)
      also have "\<dots> = unat off + k"
        unfolding ringoff using that fits by (intro ring_run) (simp add: ringoff)
      finally have "(ucast ((absolute + of_nat (unat copied + k)) mod ring_size) :: u64) = of_nat (unat off + k)"
        unfolding ucast_u64 by (rule arg_cong)
      then show ?thesis by (simp only: f_def ucast_u64 of_nat_add add.assoc)
    qed
    have split: "[unat copied..<unat len] = map ((+) (unat copied)) [0..<unat chunk] @ [unat (copied + chunk)..<unat len]"
      using c upt_split [of "unat copied" "unat copied + unat chunk" "unat len"]
      by (simp add: upt_from)
    have unfolded: "read_ring_from (read_gpa g) base ring_size absolute len copied
        = Option.bind (read_gpa g (base + ucast off) (unat chunk))
            (\<lambda>bs. map_option ((@) bs) (read_ring_from (read_gpa g) base ring_size absolute len (copied + chunk)))"
      using 1(2) True by (subst read_ring_from.simps) (simp add: off_def chunk_def Let_def split: option.split)
    have rest: "read_ring_from (read_gpa g) base ring_size absolute len (copied + chunk)
        = those (map f [unat (copied + chunk)..<unat len])"
      if "read_gpa g (base + ucast off) (unat chunk) = Some bs" for bs
      unfolding f_def by (rule 1(1) [OF _ off_def chunk_def that 1(2,3)]) (use 1(2) True in simp)
    have here: "read_gpa g (base + ucast off) (unat chunk) = those (map (\<lambda>k. f (unat copied + k)) [0..<unat chunk])"
      unfolding read_gpa_those by (intro arg_cong [where f = those] map_cong refl place) simp
    have "read_ring_from (read_gpa g) base ring_size absolute len copied = those (map f [unat copied..<unat len])"
      unfolding unfolded split map_append those_append map_map comp_def here [symmetric]
      using rest by (cases "read_gpa g (base + ucast off) (unat chunk)") (simp_all only: Option.bind.simps)
    then show ?thesis unfolding f_def .
  qed
qed

text \<open>The child reader, over pages that follow one another from \<open>base\<close>.\<close>

definition pages_from :: "u64 \<Rightarrow> u32 \<Rightarrow> nat \<Rightarrow> u64 list" where
  "pages_from base shift n = map (\<lambda>k. base + of_nat k * shl64 1 shift) [0..<n]"

lemma pages_from_simps [simp]: "length (pages_from base shift n) = n" "pages_from base shift n = [] \<longleftrightarrow> n = 0"
  by (simp_all add: pages_from_def)

lemma page_place:
  fixes off :: u32
  assumes s: "unat shift < 32" and n: "unat off < n * 2 ^ unat shift" and n2: "n * 2 ^ unat shift < 2 ^ 32"
  shows "unat (shr64 (ucast off) shift) < n"
    "pages_from base shift n ! unat (shr64 (ucast off) shift) + (ucast off AND (shl64 1 shift - 1)) = base + ucast off"
proof -
  have p: "unat (shr64 (ucast off) shift) = unat off div 2 ^ unat shift"
    using s by (simp add: shr64_def unat_drop_bit_eq) (simp add: drop_bit_eq_div)
  show lt: "unat (shr64 (ucast off) shift) < n"
    unfolding p using n by (simp add: less_mult_imp_div_less)
  have m: "unat (ucast off AND (shl64 1 shift - 1)) = unat off mod 2 ^ unat shift"
    using s by (simp add: shl64_def unat_and_mask flip: mask_eq_exp_minus_1)
  show "pages_from base shift n ! unat (shr64 (ucast off) shift) + (ucast off AND (shl64 1 shift - 1)) = base + ucast off"
  proof -
    have e: "unat off = unat off div 2 ^ unat shift * 2 ^ unat shift + unat off mod 2 ^ unat shift"
      by (rule div_mult_mod_eq [symmetric])
    have q: "(ucast off AND (shl64 1 shift - 1)) = (of_nat (unat off mod 2 ^ unat shift) :: u64)"
      unfolding m [symmetric] by simp
    have "shl64 1 shift = of_nat (2 ^ unat shift)" using s by (simp add: shl64_def push_bit_eq_mult)
    then have "pages_from base shift n ! unat (shr64 (ucast off) shift)
        = base + of_nat (unat off div 2 ^ unat shift * 2 ^ unat shift)"
      using lt by (simp add: pages_from_def p)
    then have "pages_from base shift n ! unat (shr64 (ucast off) shift)
          + of_nat (unat off mod 2 ^ unat shift) = base + of_nat (unat off)"
      using e by (metis (no_types) add.assoc of_nat_add)
    then show ?thesis unfolding q by (simp only: ucast_u64 [of off])
  qed
qed

lemma those_byte: "map_option (\<lambda>b. b ! 0) (read_gpa g a (Suc 0)) = byte_at g a"
  by (simp add: read_gpa_def byte_at_def)

lemma read_child_ring_bytes_each:
  assumes "unat shift < 32" "n * 2 ^ unat shift = unat ring_length" "ring_length \<noteq> 0"
  shows "read_child_ring_bytes (read_gpa g) (pages_from base shift n) ring_length absolute len shift
    = those (map (\<lambda>i. byte_at g (base + ucast ((absolute + of_nat i) mod ring_length))) [0..<unat len])"
proof -
  have n: "n \<noteq> 0" using assms(2,3) by (cases "n = 0") (simp_all add: word_unat_eq_iff)
  have "unat ((absolute + of_nat i) mod ring_length) < n * 2 ^ unat shift" for i
    unfolding assms(2) using assms(3) by (simp add: unat_mod unat_gt_0)
  note place = page_place [OF assms(1) this]
  have lt: "n * 2 ^ unat shift < 2 ^ 32" unfolding assms(2) using unat_lt2p [of ring_length] by simp
  show ?thesis
    unfolding read_child_ring_bytes_def Let_def
    using assms(3) n place(1) [OF lt, folded not_le]
    by (simp add: place(2) [OF lt] those_byte)
qed

lemma read_ring_bytes_each:
  assumes "ring_size \<noteq> 0" "wraps_with ring_size absolute len"
  shows "read_ring_bytes (read_gpa g) base ring_size absolute len
    = those (map (\<lambda>i. byte_at g (base + ucast ((absolute + of_nat i) mod ring_size))) [0..<unat len])"
  using read_ring_from_bytes [OF assms, of g base 0] assms by (auto simp: read_ring_bytes_def)

text \<open>
  C38: The readers of the root ring and of a child ring read the same bytes of the same ring: over pages that
  follow one another, and unless the free-running counter passes zero inside the read in a ring whose size
  does not divide its range, the copy in chunks is the copy byte by byte.
\<close>

theorem ring_readers_agree:
  assumes "unat shift < 32" "n * 2 ^ unat shift = unat ring_size"
    and "unat absolute + unat len \<le> 2 ^ 32 \<or> unat ring_size dvd 2 ^ 32"
  shows "read_ring_bytes (read_gpa g) base ring_size absolute len
    = read_child_ring_bytes (read_gpa g) (pages_from base shift n) ring_size absolute len shift"
proof (cases "ring_size = 0")
  case True
  then show ?thesis by (simp add: read_ring_bytes_def read_child_ring_bytes_def)
next
  case False
  then show ?thesis
    using read_child_ring_bytes_each [OF assms(1,2) False] read_ring_bytes_each [OF False] assms(3)
    by (simp add: wraps_with_def)
qed

theorem ring_readers_agree_witness:
  "read_ring_bytes (read_gpa \<lparr>g_bytes = (\<lambda>a. ucast a), g_absent = (\<lambda>a. a = 7)\<rparr>) 0x1000 0x3000 0x2ffa 12
     = read_child_ring_bytes (read_gpa \<lparr>g_bytes = (\<lambda>a. ucast a), g_absent = (\<lambda>a. a = 7)\<rparr>)
         (pages_from 0x1000 12 3) 0x3000 0x2ffa 12 12"
  by (rule ring_readers_agree) simp_all

text \<open>
  Three pages do not divide the range of the counter. A read of twelve bytes that starts eight before the
  counter passes zero goes on to the next page in the root reader and back to the first in the child reader.
\<close>

lemma ring_readers_part_at_the_wrap:
  "\<exists>g. read_ring_bytes (read_gpa g) 0 0x3000 0xfffffff8 12
     \<noteq> read_child_ring_bytes (read_gpa g) (pages_from 0 12 3) 0x3000 0xfffffff8 12 12"
proof
  let ?g = "\<lparr>g_bytes = (\<lambda>a. if a < 0x1000 then 1 else 2), g_absent = (\<lambda>a. False)\<rparr>"
  show "read_ring_bytes (read_gpa ?g) 0 0x3000 0xfffffff8 12
     \<noteq> read_child_ring_bytes (read_gpa ?g) (pages_from 0 12 3) 0x3000 0xfffffff8 12 12"
    by code_simp
qed

end
