(* ===== verification/StampFacts.thy ===== *)
theory StampFacts
  imports RingPackets WireLists
begin

text \<open>
  What \<open>decode_packet_inner\<close> accepts: the packets of one byte layout, whole and within the published bytes. And
  what the value a drain owes answers: the waits that the stamps of the drain would have answered one by one.
\<close>

section \<open>The layout of a packet\<close>

definition encode_wait :: "stamp_wait \<Rightarrow> u8 list" where
  "encode_wait wait = le32 (sw_index wait) @ le32 (sw_value wait)"

definition encode_packet :: "packet \<Rightarrow> u8 list" where
  "encode_packet p = le16 (pk_opcode p) @ le16 (of_nat (length (pk_stamp_waits p))) @ le32 (pk_total_size p)
     @ le32 (pk_completion_stamp p) @ concat (map encode_wait (pk_stamp_waits p)) @ pk_payload p"

definition well_framed :: "packet \<Rightarrow> bool" where
  "well_framed p \<longleftrightarrow> length (pk_stamp_waits p) < 2 ^ 16
     \<and> unat (pk_total_size p) = 12 + 8 * length (pk_stamp_waits p) + length (pk_payload p)"

lemma length_encode_wait [simp]: "length (encode_wait w) = 8"
  by (simp add: encode_wait_def)

lemma length_encode_waits [simp]: "length (concat (map encode_wait ws)) = 8 * length ws"
  by (induction ws) simp_all

lemma length_encode_packet: "well_framed p \<Longrightarrow> length (encode_packet p) = unat (pk_total_size p)"
  by (simp add: well_framed_def encode_packet_def)

lemma stamp_record_encode: "stamp_record (encode_wait w) = w"
  by (simp add: stamp_record_def encode_wait_def layout_simps)

lemma encode_stamp_record: "length r = 8 \<Longrightarrow> encode_wait (stamp_record r) = r"
  by (simp add: stamp_record_def encode_wait_def le_field)

lemma stamp_records_encode:
  "map (\<lambda>i. stamp_record (take 8 (drop (i * 8) (concat (map encode_wait ws))))) [0..<length ws] = ws"
proof (induction ws)
  case (Cons w ws)
  then show ?case
    by (simp add: upt_rec [of 0] map_Suc_upt [symmetric] stamp_record_encode comp_def del: upt_Suc map_Suc_upt)
qed simp

lemma encode_stamp_records:
  "length bs = 8 * n \<Longrightarrow> concat (map encode_wait (map (\<lambda>i. stamp_record (take 8 (drop (i * 8) bs))) [0..<n])) = bs"
proof (induction n arbitrary: bs)
  case (Suc n)
  have "map (\<lambda>i. stamp_record (take 8 (drop (i * 8) bs))) [0..<Suc n]
      = stamp_record (take 8 bs) # map (\<lambda>i. stamp_record (take 8 (drop (i * 8) (drop 8 bs)))) [0..<n]"
    by (simp add: upt_rec [of 0] map_Suc_upt [symmetric] add.commute del: upt_Suc map_Suc_upt)
  then show ?case
    using Suc.IH [of "drop 8 bs"] Suc.prems by (simp add: encode_stamp_record del: upt_Suc)
qed simp

text \<open>The checks of the decoder, as facts about natural numbers.\<close>

lemma stamps_span:
  fixes c :: u16 and t :: u32
  shows "unat (ucast c * 8 :: u32) = 8 * unat c" "unat (12 + ucast c * 8 :: u32) = 12 + 8 * unat c"
proof -
  have c: "unat c < 65536" using unat_lt2p [of c] by simp
  then have u: "unat (ucast c :: u32) = unat c" by (simp add: unat_ucast_small)
  then show m: "unat (ucast c * 8 :: u32) = 8 * unat c" using c by (simp add: unat_mult_no_wrap)
  show "unat (12 + ucast c * 8 :: u32) = 12 + 8 * unat c" using c m by (subst unat_add_no_wrap) simp_all
qed

lemma decode_packet_Inr:
  assumes "length bytes < 2 ^ 32"
  shows "decode_packet_inner bytes head available cap = Inr p \<longleftrightarrow>
    (let c = unat (u16_at bytes 2); t = unat (WireFields.u32_at bytes 4) in
     12 \<le> length bytes \<and> 12 + 8 * c \<le> t \<and> t \<le> unat cap \<and> t \<le> unat available \<and> t \<le> length bytes
     \<and> p = \<lparr>pk_opcode = u16_at bytes 0,
            pk_stamp_waits = map (\<lambda>i. stamp_record (take 8 (drop (i * 8) (take (8 * c) (drop 12 bytes))))) [0..<c],
            pk_total_size = WireFields.u32_at bytes 4, pk_completion_stamp = WireFields.u32_at bytes 8,
            pk_payload = take (t - (12 + 8 * c)) (drop (12 + 8 * c) bytes),
            pk_next_head = head + WireFields.u32_at bytes 4\<rparr>)"
proof -
  have l: "unat (of_nat (length bytes) :: u32) = length bytes" using assms by (simp add: unat_of_nat_small)
  show ?thesis
  proof (cases "12 \<le> length bytes \<and> 12 + 8 * unat (u16_at bytes 2) \<le> unat (WireFields.u32_at bytes 4)
      \<and> unat (WireFields.u32_at bytes 4) \<le> unat cap \<and> unat (WireFields.u32_at bytes 4) \<le> unat available
      \<and> unat (WireFields.u32_at bytes 4) \<le> length bytes")
    case True
    then have "min (length bytes - 12) (8 * unat (u16_at bytes 2)) = 8 * unat (u16_at bytes 2)" by linarith
    with True show ?thesis
      by (auto simp: decode_packet_inner_def Let_def packet_consts word_less_nat_alt stamps_span l)
  next
    case False
    then show ?thesis
      by (auto simp: decode_packet_inner_def Let_def packet_consts word_less_nat_alt stamps_span l)
  qed
qed

lemma decode_packet_exact:
  assumes "length bytes < 2 ^ 32"
  shows "decode_packet_inner bytes head available ring_capacity = Inr p \<longleftrightarrow>
    well_framed p \<and> pk_next_head p = head + pk_total_size p
    \<and> pk_total_size p \<le> ring_capacity \<and> pk_total_size p \<le> available
    \<and> (\<exists>rest. bytes = encode_packet p @ rest)" (is "?L \<longleftrightarrow> ?R")
proof
  assume ?L
  define c t where "c = unat (u16_at bytes 2)" and "t = unat (WireFields.u32_at bytes 4)"
  have facts: "12 \<le> length bytes" "12 + 8 * c \<le> t" "t \<le> unat ring_capacity" "t \<le> unat available" "t \<le> length bytes"
    and p: "p = \<lparr>pk_opcode = u16_at bytes 0,
            pk_stamp_waits = map (\<lambda>i. stamp_record (take 8 (drop (i * 8) (take (8 * c) (drop 12 bytes))))) [0..<c],
            pk_total_size = WireFields.u32_at bytes 4, pk_completion_stamp = WireFields.u32_at bytes 8,
            pk_payload = take (t - (12 + 8 * c)) (drop (12 + 8 * c) bytes),
            pk_next_head = head + WireFields.u32_at bytes 4\<rparr>"
    using \<open>?L\<close> unfolding decode_packet_Inr [OF assms] c_def t_def Let_def by blast+
  have c: "c < 2 ^ 16" unfolding c_def using unat_lt2p [of "u16_at bytes 2"] by simp
  have framed: "well_framed p" using facts c by (simp add: well_framed_def p t_def)
  have stamps: "concat (map encode_wait (pk_stamp_waits p)) = take (8 * c) (drop 12 bytes)"
    using facts by (simp only: p packet.simps) (rule encode_stamp_records, simp)
  have count: "(of_nat c :: u16) = u16_at bytes 2" by (simp add: c_def)
  have "encode_packet p = take 2 (drop 0 bytes) @ take 2 (drop 2 bytes) @ take 4 (drop 4 bytes) @ take 4 (drop 8 bytes)
      @ take (8 * c) (drop 12 bytes) @ take (t - (12 + 8 * c)) (drop (12 + 8 * c) bytes)"
    using facts by (simp add: encode_packet_def stamps) (simp add: p count le_field)
  also have "\<dots> @ drop t bytes = bytes"
    using facts by (simp add: join_fields)
  finally have "bytes = encode_packet p @ drop t bytes" by simp
  then show ?R using framed facts by (auto simp: p t_def word_le_nat_alt)
next
  assume ?R
  then obtain rest where r: "well_framed p" "pk_next_head p = head + pk_total_size p"
    "pk_total_size p \<le> ring_capacity" "pk_total_size p \<le> available" "bytes = encode_packet p @ rest" by blast
  have l: "length bytes = unat (pk_total_size p) + length rest"
    using r length_encode_packet by simp
  have f: "u16_at bytes 0 = pk_opcode p" "u16_at bytes 2 = of_nat (length (pk_stamp_waits p))"
    "WireFields.u32_at bytes 4 = pk_total_size p" "WireFields.u32_at bytes 8 = pk_completion_stamp p"
    by (simp_all add: r encode_packet_def layout_simps)
  have c: "unat (of_nat (length (pk_stamp_waits p)) :: u16) = length (pk_stamp_waits p)"
    using r by (simp add: well_framed_def unat_of_nat_small)
  have d: "drop 12 bytes = concat (map encode_wait (pk_stamp_waits p)) @ pk_payload p @ rest"
    "drop (12 + 8 * length (pk_stamp_waits p)) bytes = pk_payload p @ rest"
    by (simp_all add: r encode_packet_def)
  show ?L
    unfolding decode_packet_Inr [OF assms] Let_def f c d
    using r l by (simp add: well_framed_def word_le_nat_alt stamp_records_encode)
qed

text \<open>
  C31: \<open>decode_packet\<close> accepts a snapshot exactly when it starts with the bytes of a packet whose size covers its
  header, its stamp records and its payload, fits the ring and is published in full; the packet it returns is
  that packet, with the head moved past it.
\<close>

theorem packet_frame_exact:
  assumes "length bytes < 2 ^ 32"
  shows "decode_packet_inner bytes head available ring_capacity = Inr p \<longleftrightarrow>
    well_framed p \<and> pk_next_head p = head + pk_total_size p
    \<and> pk_total_size p \<le> ring_capacity \<and> pk_total_size p \<le> available
    \<and> (\<exists>rest. bytes = encode_packet p @ rest)"
  by (rule decode_packet_exact [OF assms])

theorem packet_frame_exact_witness:
  "decode_packet_inner
     (encode_packet \<lparr>pk_opcode = 6, pk_stamp_waits = [\<lparr>sw_index = 2, sw_value = 9\<rparr>], pk_total_size = 22,
        pk_completion_stamp = 3, pk_payload = [1, 2], pk_next_head = 22\<rparr> @ [7, 7]) 0 24 64
   = Inr \<lparr>pk_opcode = 6, pk_stamp_waits = [\<lparr>sw_index = 2, sw_value = 9\<rparr>], pk_total_size = 22,
        pk_completion_stamp = 3, pk_payload = [1, 2], pk_next_head = 22\<rparr>"
  by (subst packet_frame_exact) (simp_all add: encode_packet_def well_framed_def)

section \<open>Stamps\<close>

text \<open>
  Stamps are compared by a signed difference. Counted from a base that lies less than half the range behind
  both, the comparison is that of the distances.
\<close>

lemma sint_nonneg: "sint (x :: u32) \<ge> 0 \<longleftrightarrow> unat x < 2 ^ 31"
proof -
  have "sint x \<ge> 0 \<longleftrightarrow> \<not> bit (int (unat x)) 31"
    by (simp only: sint_uint signed_take_bit_nonnegative_iff) simp
  also have "\<dots> \<longleftrightarrow> even (int (unat x div 2 ^ 31))"
    by (simp only: bit_iff_odd of_nat_div of_nat_power) simp
  also have "unat x div 2 ^ 31 = (if unat x < 2 ^ 31 then 0 else 1)"
    using unat_lt2p [of x] by (auto intro: div_nat_eqI)
  finally show ?thesis by simp
qed

lemma stamp_distance:
  fixes x y b :: u32
  shows "unat (x - y) = (if unat (y - b) \<le> unat (x - b) then unat (x - b) - unat (y - b)
     else unat (x - b) + 2 ^ 32 - unat (y - b))"
proof -
  have "x - y = (x - b) - (y - b)" by simp
  then show ?thesis by (simp only: unat_sub_if' word_size) simp
qed

lemma stamp_order:
  fixes x y b :: u32
  assumes "unat (x - b) < 2 ^ 31" "unat (y - b) < 2 ^ 31"
  shows "sint (x - y) \<ge> 0 \<longleftrightarrow> unat (y - b) \<le> unat (x - b)"
    "sint (x - y) \<le> 0 \<longleftrightarrow> unat (x - b) \<le> unat (y - b)"
proof -
  show n: "sint (x - y) \<ge> 0 \<longleftrightarrow> unat (y - b) \<le> unat (x - b)"
    using assms by (auto simp: sint_nonneg stamp_distance [of x y b])
  have "sint (x - y) = 0 \<longleftrightarrow> x - y = 0" by (rule signed_eq_0_iff)
  also have "\<dots> \<longleftrightarrow> x - b = y - b" by simp
  finally have "sint (x - y) = 0 \<longleftrightarrow> unat (x - b) = unat (y - b)" by (simp only: word_unat_eq_iff)
  with n show "sint (x - y) \<le> 0 \<longleftrightarrow> unat (x - b) \<le> unat (y - b)" by linarith
qed

text \<open>What a drain owes after it latched the stamps of its packets in order.\<close>

definition coalesced :: "u32 list \<Rightarrow> pending_stamp" where
  "coalesced stamps = fold latch stamps None"

lemma coalesced_latest:
  fixes b :: u32
  assumes "\<And>s. s \<in> set stamps \<Longrightarrow> unat (s - b) < 2 ^ 31" "stamps \<noteq> []"
  shows "\<exists>v\<in>set stamps. coalesced stamps = Some v \<and> (\<forall>s\<in>set stamps. unat (s - b) \<le> unat (v - b))"
  using assms
proof (induction stamps rule: rev_induct)
  case (snoc s stamps)
  show ?case
  proof (cases "stamps = []")
    case True
    then show ?thesis by (simp add: coalesced_def latch_def)
  next
    case False
    then obtain v where v: "v \<in> set stamps" "coalesced stamps = Some v" "\<forall>s\<in>set stamps. unat (s - b) \<le> unat (v - b)"
      using snoc by auto
    have c: "coalesced (stamps @ [s]) = Some (if unat (s - b) \<le> unat (v - b) then v else s)"
      using v snoc.prems(1) by (simp add: coalesced_def latch_def stamp_order(2) [of s b v])
    show ?thesis
    proof (cases "unat (s - b) \<le> unat (v - b)")
      case True
      then show ?thesis using c v by auto
    next
      case False
      then show ?thesis using c v by (auto intro: order_trans [OF _ less_imp_le])
    qed
  qed
qed simp

text \<open>
  C39: The one stamp a drain writes for all its packets answers the same waits as a stamp written per packet:
  when the stamps and the awaited value lie within half the range of the counter, the owed value satisfies a
  wait exactly when the stamp of some packet of the drain does; a drain that stamped nothing owes nothing.
\<close>

theorem coalesced_stamp_answers:
  fixes b :: u32
  assumes "\<forall>s\<in>set stamps. unat (s - b) < 2 ^ 31" "unat (sw_value wait - b) < 2 ^ 31"
  shows "(owed (coalesced stamps) = None \<longleftrightarrow> stamps = [])
    \<and> (discharges (coalesced stamps) slot wait \<longleftrightarrow>
         stamp_slot_index (sw_index wait) = slot \<and> (\<exists>s\<in>set stamps. satisfied_by wait s))"
proof (cases "stamps = []")
  case True
  then show ?thesis by (simp add: coalesced_def owed_def discharges_def)
next
  case False
  then obtain v where v: "v \<in> set stamps" "coalesced stamps = Some v" "\<forall>s\<in>set stamps. unat (s - b) \<le> unat (v - b)"
    using coalesced_latest [of stamps b] assms(1) by blast
  have "satisfied_by wait s \<longleftrightarrow> unat (sw_value wait - b) \<le> unat (s - b)" if "s \<in> set stamps" for s
    using assms that by (simp add: satisfied_by_def stamp_order)
  then show ?thesis using v False by (auto simp: owed_def discharges_def intro: order_trans)
qed

theorem coalesced_stamp_answers_witness:
  "(owed (coalesced [0xfffffffe, 1, 0]) = None \<longleftrightarrow> [0xfffffffe, 1, 0 :: u32] = [])
    \<and> (discharges (coalesced [0xfffffffe, 1, 0]) 2 \<lparr>sw_index = 0x10002, sw_value = 1\<rparr> \<longleftrightarrow>
         stamp_slot_index (sw_index \<lparr>sw_index = 0x10002, sw_value = 1\<rparr>) = 2
         \<and> (\<exists>s\<in>set [0xfffffffe, 1, 0]. satisfied_by \<lparr>sw_index = 0x10002, sw_value = 1\<rparr> s))"
  by (rule coalesced_stamp_answers [where b = "0xfffffffe"]) simp_all

end
