(* ===== verification/DrainFacts.thy ===== *)
theory DrainFacts
  imports Drain RingFacts StampFacts
begin

text \<open>
  The drains serve the packets of their ring. The bytes between the head and the tail of a ring, read as the
  layout of a list of packets, make it a queue; the locale \<open>fifo_rail\<close> says what a loop over such a queue
  needs to serve its packets one by one, and both loops provide it.
\<close>

unbundle bit_operations_syntax

section \<open>Loops\<close>

lemma repeat_step_returns:
  fixes f :: "'s \<Rightarrow> nat"
  assumes "P s"
    and "\<And>s. P s \<Longrightarrow> \<exists>r. step s = Some r \<and> (\<forall>s'. r = Again s' \<longrightarrow> P s' \<and> f s' < f s)"
  shows "\<exists>s'. repeat_step step s = Some s'"
  using assms(1)
proof (induction "f s" arbitrary: s rule: less_induct)
  case less
  obtain r where r: "step s = Some r" "\<And>s'. r = Again s' \<Longrightarrow> P s' \<and> f s' < f s"
    using assms(2) [OF less.prems] by blast
  show ?case
  proof (cases r)
    case (Stop s')
    then show ?thesis by (subst repeat_step.simps) (simp add: r(1))
  next
    case (Again s')
    then show ?thesis using less.hyps [of s'] r(2) [OF Again] by (subst repeat_step.simps) (simp add: r(1))
  qed
qed

text \<open>A queue of packets served one by one: \<open>serve\<close> is what one of them does.\<close>

primrec serve_all :: "(packet \<Rightarrow> 's \<Rightarrow> 's iter option) \<Rightarrow> packet list \<Rightarrow> 's \<Rightarrow> 's option" where
  "serve_all serve [] s = Some s"
| "serve_all serve (p # ps) s =
     Option.bind (serve p s) (\<lambda>r. case r of Stop s' \<Rightarrow> Some s' | Again s' \<Rightarrow> serve_all serve ps s')"

locale fifo_rail =
  fixes step :: "'s \<Rightarrow> 's iter option"
    and queue :: "'s \<Rightarrow> packet list \<Rightarrow> bool"
    and serve :: "packet \<Rightarrow> 's \<Rightarrow> 's iter option"
  assumes at_the_end: "queue s [] \<Longrightarrow> step s = Some (Stop s)"
    and at_a_packet: "queue s (p # ps) \<Longrightarrow> step s = serve p s"
    and past_it: "queue s (p # ps) \<Longrightarrow> serve p s = Some (Again s') \<Longrightarrow> queue s' ps"
begin

lemma drain_serves_all: "queue s ps \<Longrightarrow> repeat_step step s = serve_all serve ps s"
proof (induction ps arbitrary: s)
  case Nil
  then show ?case by (subst repeat_step.simps) (simp add: at_the_end)
next
  case (Cons p ps)
  show ?case
  proof (cases "serve p s")
    case None
    then show ?thesis by (subst repeat_step.simps) (simp add: at_a_packet [OF Cons.prems])
  next
    case (Some r)
    then show ?thesis
      using Cons.IH past_it [OF Cons.prems]
      by (subst repeat_step.simps) (auto simp: at_a_packet [OF Cons.prems] split: iter.split)
  qed
qed

end

section \<open>The packets of a ring\<close>

text \<open>
  \<open>rd\<close> gives the byte at a value of the free-running counter. The packets follow one another from \<open>head\<close>, and
  their layouts are the bytes up to \<open>tail\<close>.
\<close>

definition ring_bytes :: "(u32 \<Rightarrow> u8 option) \<Rightarrow> u32 \<Rightarrow> nat \<Rightarrow> u8 list option" where
  "ring_bytes rd head n = those (map (\<lambda>i. rd (head + of_nat i)) [0..<n])"

primrec packets_follow :: "u32 \<Rightarrow> u32 \<Rightarrow> packet list \<Rightarrow> bool" where
  "packets_follow cap head [] \<longleftrightarrow> True"
| "packets_follow cap head (p # ps) \<longleftrightarrow>
     well_framed p \<and> pk_total_size p \<le> cap \<and> pk_next_head p = head + pk_total_size p
     \<and> packets_follow cap (pk_next_head p) ps"

definition ring_holds :: "(u32 \<Rightarrow> u8 option) \<Rightarrow> u32 \<Rightarrow> u32 \<Rightarrow> u32 \<Rightarrow> packet list \<Rightarrow> bool" where
  "ring_holds rd cap head tail ps \<longleftrightarrow>
     tail - head \<le> cap \<and> ring_bytes rd head (unat (tail - head)) = Some (concat (map encode_packet ps))
     \<and> packets_follow cap head ps"

lemma length_those: "those xs = Some ys \<Longrightarrow> length ys = length xs"
  by (induction xs arbitrary: ys) (auto split: option.splits)

lemma ring_bytes_split:
  "ring_bytes rd head (m + n) = Option.bind (ring_bytes rd head m) (\<lambda>xs. map_option ((@) xs) (ring_bytes rd (head + of_nat m) n))"
proof -
  have "[0..<m + n] = [0..<m] @ map ((+) m) [0..<n]" 
    unfolding upt_from by (rule upt_add_eq_append) simp
  then show ?thesis
    by (simp only: ring_bytes_def map_append those_append map_map comp_def of_nat_add add.assoc)
qed

lemma ring_bytes_prefix:
  assumes "ring_bytes rd head n = Some (xs @ ys)" "length xs = m"
  shows "ring_bytes rd head m = Some xs" "ring_bytes rd (head + of_nat m) (n - m) = Some ys"
proof -
  have n: "n = m + (n - m)" using length_those [OF assms(1) [unfolded ring_bytes_def]] assms(2) by simp
  obtain as bs where ab: "ring_bytes rd head m = Some as" "ring_bytes rd (head + of_nat m) (n - m) = Some bs"
    "as @ bs = xs @ ys"
    using assms(1) by (subst (asm) n) (auto simp: ring_bytes_split split: Option.bind_splits)
  have "length as = m" using length_those [OF ab(1) [unfolded ring_bytes_def]] by simp
  then show "ring_bytes rd head m = Some xs" "ring_bytes rd (head + of_nat m) (n - m) = Some ys"
    using ab assms(2) by auto
qed

lemma ring_holds_empty: "ring_holds rd cap head tail [] \<longleftrightarrow> head = tail"
  by (auto simp: ring_holds_def ring_bytes_def unat_eq_zero dest: length_those)

lemma ring_holds_packet:
  assumes "ring_holds rd cap head tail (p # ps)"
  defines "available \<equiv> tail - head"
  shows "head \<noteq> tail" "published_byte_count head tail cap = Some available" "\<not> available < PACKET_HEADER_LEN"
    "ring_bytes rd head 12 = Some (take 12 (encode_packet p))"
    "packet_snapshot_len (take 12 (encode_packet p)) available cap = pk_total_size p"
    "ring_bytes rd head (unat (pk_total_size p)) = Some (encode_packet p)"
    "decode_packet_inner (encode_packet p) head available cap = Inr p"
    "ring_holds rd cap (pk_next_head p) tail ps" "unat (tail - pk_next_head p) < unat available"
    "pk_total_size p \<le> available"
proof -
  have p: "well_framed p" "pk_total_size p \<le> cap" "pk_next_head p = head + pk_total_size p" "available \<le> cap"
    and follow: "packets_follow cap (pk_next_head p) ps"
    and bytes: "ring_bytes rd head (unat available) = Some (encode_packet p @ concat (map encode_packet ps))"
    using assms by (auto simp: ring_holds_def)
  have len: "length (encode_packet p) = unat (pk_total_size p)" by (rule length_encode_packet [OF p(1)])
  have ge: "12 \<le> unat (pk_total_size p)" using p(1) by (simp add: well_framed_def)
  have avail: "unat (pk_total_size p) \<le> unat available"
    using length_those [OF bytes [unfolded ring_bytes_def]] len by simp
  then show av: "pk_total_size p \<le> available" by (simp add: word_le_nat_alt)
  show "head \<noteq> tail" using avail ge by (auto simp: available_def)
  show "published_byte_count head tail cap = Some available" using p(4) by (simp add: published_byte_count_def available_def)
  show "\<not> available < PACKET_HEADER_LEN" using avail ge by (simp add: PACKET_HEADER_LEN_def word_less_nat_alt)
  show whole: "ring_bytes rd head (unat (pk_total_size p)) = Some (encode_packet p)"
    by (rule ring_bytes_prefix(1) [OF bytes len])
  then show "ring_bytes rd head 12 = Some (take 12 (encode_packet p))"
    using ring_bytes_prefix(1) [of rd head _ "take 12 (encode_packet p)" "drop 12 (encode_packet p)" 12] ge len by simp
  have "WireFields.u32_at (take 12 (encode_packet p)) 4 = pk_total_size p"
    by (simp add: field_in_take) (simp add: encode_packet_def layout_simps)
  then show "packet_snapshot_len (take 12 (encode_packet p)) available cap = pk_total_size p"
    using p av ge by (simp add: packet_snapshot_len_def packet_consts word_le_nat_alt)
  have short: "length (encode_packet p) < 2 ^ 32" using unat_lt2p [of "pk_total_size p"] by (simp add: len)
  have "\<exists>rest. encode_packet p = encode_packet p @ rest" by simp
  with p av show "decode_packet_inner (encode_packet p) head available cap = Inr p"
    unfolding decode_packet_exact [OF short] by blast
  have left: "tail - pk_next_head p = available - pk_total_size p" by (simp add: p available_def)
  then have n: "unat (tail - pk_next_head p) = unat available - unat (pk_total_size p)"
    using av by (simp add: unat_sub_no_wrap)
  then show "unat (tail - pk_next_head p) < unat available" using ge avail by simp
  have "tail - pk_next_head p \<le> cap" using n p(4) by (simp add: word_le_nat_alt)
  then show "ring_holds rd cap (pk_next_head p) tail ps"
    using follow ring_bytes_prefix(2) [OF bytes len] by (simp only: ring_holds_def n) (simp add: p(3))
qed

section \<open>Guest writes\<close>

text \<open>A host pointer shows the pages it was mapped for, in order.\<close>

definition views_show :: "showing \<Rightarrow> bool" where
  "views_show behind \<longleftrightarrow> (\<forall>gpas page_sz h p h' k.
     map_pages gpas page_sz h = (Some p, h') \<longrightarrow> k < length gpas * unat page_sz \<longrightarrow>
     behind (h_calls h') p k = gpas ! (k div unat page_sz) + of_nat (k mod unat page_sz))"

lemma gpa_pages_nth:
  "gpa_pages p e page_sz = Some gpas \<Longrightarrow> i < length gpas \<Longrightarrow> gpas ! i = p + of_nat i * page_sz"
proof (induction p e page_sz arbitrary: gpas i rule: gpa_pages.induct)
  case (1 p e page_sz)
  show ?case
  proof (cases "page_sz = 0 \<or> \<not> p < e")
    case True
    then show ?thesis using 1 by (subst (asm) gpa_pages.simps) auto
  next
    case False
    then obtain q rest where q: "checked_add p page_sz = Some q" "gpa_pages q e page_sz = Some rest" "gpas = p # rest"
      using 1(2) by (subst (asm) gpa_pages.simps) (auto split: option.splits)
    show ?thesis
    proof (cases i)
      case (Suc j)
      then show ?thesis
        using 1(1) [OF False q(1,2), of j] 1(3) q by (simp add: checked_add_Some distrib_right add.assoc)
    qed (simp add: q)
  qed
qed

text \<open>The bytes of memory after a store.\<close>

definition stored :: "u64 \<Rightarrow> u8 list \<Rightarrow> ram \<Rightarrow> ram" where
  "stored gpa buf r = fold (\<lambda>k r. r(gpa + of_nat k := buf ! k)) [0..<length buf] r"

lemma fold_other: "(\<And>k. k \<in> set ks \<Longrightarrow> f k \<noteq> a) \<Longrightarrow> fold (\<lambda>k r. r(f k := v k)) ks r a = r a"
  by (induction ks arbitrary: r) auto

lemma stored_other: "(\<And>k. k < length buf \<Longrightarrow> gpa + of_nat k \<noteq> a) \<Longrightarrow> stored gpa buf r a = r a"
  unfolding stored_def by (rule fold_other) simp

lemma gpa_write_lands:
  assumes "views_show behind" "gpa_write_bytes behind gpa buf page_sz (g, h) = (res, g', h')"
  shows "g' = (if res = Inr () then g\<lparr>g_bytes := stored gpa buf (g_bytes g)\<rparr> else g)"
proof (cases "buf = [] \<or> g' = g \<and> res \<noteq> Inr ()")
  case True
  then show ?thesis using assms(2) by (auto simp: gpa_write_bytes_def stored_def)
next
  case False
  define start where "start = gpa AND NOT (page_sz - 1)"
  note w = assms(2) [unfolded gpa_write_bytes_def prod.case Let_def, folded start_def]
  have a: "buf \<noteq> []" using False by blast
  have b: "\<not> (page_sz = 0 \<or> page_sz AND (page_sz - 1) \<noteq> 0)"
  proof
    assume "page_sz = 0 \<or> page_sz AND (page_sz - 1) \<noteq> 0"
    then show False using w False by (simp only: a if_False if_True) simp
  qed
  note w = w [unfolded if_not_P [OF a] if_not_P [OF b]]
  obtain e where c: "checked_add gpa (of_nat (length buf)) = Some e"
    using w False by (cases "checked_add gpa (of_nat (length buf))") simp_all
  obtain gpas where d: "gpa_pages start e page_sz = Some gpas"
    using w False by (cases "gpa_pages start e page_sz") (simp_all add: c)
  obtain ptr h1 where m: "map_pages gpas page_sz h = (Some ptr, h1)"
    using w False by (cases "map_pages gpas page_sz h"; cases "fst (map_pages gpas page_sz h)") (simp_all add: c d)
  have f: "\<not> (ptr = 0 \<or> unat (gpa - start) + length buf > unat (of_nat (length gpas) * page_sz))"
  proof
    assume "ptr = 0 \<or> unat (gpa - start) + length buf > unat (of_nat (length gpas) * page_sz)"
    then show False using w False by (simp only: c d m option.case prod.case if_True) simp
  qed
  then have fits: "unat (gpa - start) + length buf \<le> unat (of_nat (length gpas) * page_sz)" by simp
  have out: "res = Inr ()" "g' = fst (poke behind ptr (unat (gpa - start)) buf (g, h1))"
  proof -
    have "(case poke behind ptr (unat (gpa - start)) buf (g, h1) of (g, h) \<Rightarrow>
        (Inr (), g, host_log (UnmapPages ptr (of_nat (length gpas) * page_sz)) h)) = (res, g', h')"
      using w by (simp only: c d m option.case prod.case if_not_P [OF f])
    moreover obtain g2 h2 where "poke behind ptr (unat (gpa - start)) buf (g, h1) = (g2, h2)" by fastforce
    ultimately show "res = Inr ()" "g' = fst (poke behind ptr (unat (gpa - start)) buf (g, h1))"
      by (simp_all only: prod.case prod.inject fst_conv)
  qed
  have room: "unat (of_nat (length gpas) * page_sz) \<le> length gpas * unat page_sz"
  proof -
    have "unat (of_nat (length gpas) * page_sz) \<le> unat (of_nat (length gpas) :: u64) * unat page_sz"
      by (simp only: unat_word_ariths mod_less_eq_dividend)
    also have "\<dots> \<le> length gpas * unat page_sz" by (simp add: unat_of_nat)
    finally show ?thesis .
  qed
  have "behind (h_calls h1) ptr (unat (gpa - start) + k) = gpa + of_nat k" if "k < length buf" for k
  proof -
    define j where "j = unat (gpa - start) + k"
    have j: "j < length gpas * unat page_sz" using that fits room by (simp add: j_def)
    have "behind (h_calls h1) ptr j = gpas ! (j div unat page_sz) + of_nat (j mod unat page_sz)"
      using assms(1) m j by (simp only: views_show_def)
    also have "gpas ! (j div unat page_sz) = start + of_nat (j div unat page_sz) * page_sz"
      by (rule gpa_pages_nth [OF d]) (use j in \<open>simp add: less_mult_imp_div_less\<close>)
    also have "of_nat (j div unat page_sz) * page_sz = of_nat (j div unat page_sz * unat page_sz)" by simp
    also have "start + \<dots> + of_nat (j mod unat page_sz) = start + of_nat j"
      by (metis add.assoc div_mult_mod_eq of_nat_add)
    also have "\<dots> = gpa + of_nat k" by (simp add: j_def)
    finally show ?thesis by (simp add: j_def)
  qed
  then have "fold (\<lambda>k r. r(behind (h_calls h1) ptr (unat (gpa - start) + k) := buf ! k)) [0..<length buf] (g_bytes g)
      = stored gpa buf (g_bytes g)"
    unfolding stored_def by (intro fold_cong refl) simp
  then show ?thesis using out by (simp add: poke_def)
qed

section \<open>The root FIFO is a queue\<close>

definition ring_region :: "guest_ram \<Rightarrow> u64 \<Rightarrow> nat \<Rightarrow> u8 option list" where
  "ring_region g base n = map (\<lambda>i. byte_at g (base + of_nat i)) [0..<n]"

definition root_byte :: "guest_ram \<Rightarrow> u64 \<Rightarrow> u32 \<Rightarrow> u32 \<Rightarrow> u8 option" where
  "root_byte g base ring_size a = byte_at g (base + ucast (a mod ring_size))"

lemma root_byte_region:
  "ring_size \<noteq> 0 \<Longrightarrow> root_byte g base ring_size a = ring_region g base (unat ring_size) ! unat (a mod ring_size)"
proof -
  assume "ring_size \<noteq> 0"
  then have "unat (a mod ring_size) < unat ring_size" using ring_off_less [of ring_size a] by (simp add: word_less_nat_alt)
  then show ?thesis unfolding root_byte_def ring_region_def ucast_u64 by (subst nth_map_upt) simp_all
qed

text \<open>What a packet and the writebacks of the engine leave alone: the registers of the FIFO and the bytes of its ring.\<close>

definition root_view :: "u32 \<Rightarrow> u64 \<Rightarrow> 'r device \<Rightarrow> u32 \<times> u32 \<times> u32 \<times> u32 \<times> u8 option list" where
  "root_view ring_size base w =
     (dd_fifo_read w, dd_fifo_written w, dd_fifo_base_page w, dd_page_shift w,
      ring_region (dd_ram w) base (unat ring_size))"

definition root_undisturbed :: "'r drain_env \<Rightarrow> u32 \<Rightarrow> u64 \<Rightarrow> bool" where
  "root_undisturbed env ring_size base \<longleftrightarrow>
     (\<forall>p w w'. de_root env p w = Some w' \<longrightarrow> root_view ring_size base w' = root_view ring_size base w)
     \<and> (\<forall>g h r. ring_region (fst (de_settle env (g, h, r))) base (unat ring_size) = ring_region g base (unat ring_size))"

text \<open>The stamp word of slot zero lies outside the ring.\<close>

definition stamp_apart :: "u32 \<Rightarrow> u64 \<Rightarrow> 'r device \<Rightarrow> bool" where
  "stamp_apart ring_size base w \<longleftrightarrow>
     (\<forall>i < unat ring_size. \<forall>k < 4. pfn_gpa w (dd_fifo_base_page w) + of_nat k \<noteq> base + of_nat i)"

definition root_queue :: "'r drain_env \<Rightarrow> u32 \<Rightarrow> u64 \<Rightarrow> bool \<times> 'r device \<Rightarrow> packet list \<Rightarrow> bool" where
  "root_queue env ring_size base cw ps \<longleftrightarrow> (case cw of (completed, w) \<Rightarrow>
     ring_size \<noteq> 0 \<and> views_show (de_behind env) \<and> root_undisturbed env ring_size base \<and> stamp_apart ring_size base w
     \<and> wraps_with ring_size (dd_fifo_read w) (dd_fifo_written w - dd_fifo_read w)
     \<and> ring_holds (root_byte (dd_ram w) base ring_size) ring_size (dd_fifo_read w) (dd_fifo_written w) ps)"

lemma root_view_eq:
  assumes "root_view ring_size base w' = root_view ring_size base w" "ring_size \<noteq> 0"
  shows "dd_fifo_read w' = dd_fifo_read w" "dd_fifo_written w' = dd_fifo_written w"
    "dd_fifo_base_page w' = dd_fifo_base_page w" "dd_page_shift w' = dd_page_shift w"
    "root_byte (dd_ram w') base ring_size = root_byte (dd_ram w) base ring_size"
    "stamp_apart ring_size base w' = stamp_apart ring_size base w"
  using assms
  by (auto simp: root_view_def root_byte_region stamp_apart_def pfn_gpa_def intro!: ext)

lemma root_reads:
  assumes "ring_size \<noteq> 0" "wraps_with ring_size head len"
  shows "read_ring_bytes (read_gpa g) base ring_size head len = ring_bytes (root_byte g base ring_size) head (unat len)"
  unfolding read_ring_bytes_each [OF assms] ring_bytes_def root_byte_def ..

lemma wraps_with_shorter: "wraps_with ring_size head n \<Longrightarrow> m \<le> n \<Longrightarrow> wraps_with ring_size head m"
  by (auto simp: wraps_with_def word_le_nat_alt)

lemma wraps_with_past:
  assumes "wraps_with ring_size head n" "m \<le> n"
  shows "wraps_with ring_size (head + m) (n - m)"
proof (cases "unat ring_size dvd 2 ^ 32")
  case False
  then have s: "unat head + unat n \<le> 2 ^ 32" using assms(1) by (simp add: wraps_with_def)
  have d: "unat (n - m) = unat n - unat m" using assms(2) by (simp add: unat_sub_no_wrap)
  have "unat (head + m) \<le> unat head + unat m" by (simp add: unat_word_ariths)
  then have "unat (head + m) + (unat n - unat m) \<le> 2 ^ 32"
    using s assms(2) unfolding word_le_nat_alt by linarith
  then show ?thesis unfolding wraps_with_def d by blast
qed (simp add: wraps_with_def)

lemma settle_view:
  assumes "root_undisturbed env ring_size base"
  shows "root_view ring_size base (settle_guest_writes env w) = root_view ring_size base w"
proof -
  obtain g h r where e: "de_settle env (dd_ram w, dd_host w, dd_rest w) = (g, h, r)" by (metis prod_cases3)
  have "ring_region g base (unat ring_size) = ring_region (dd_ram w) base (unat ring_size)"
    using assms e unfolding root_undisturbed_def by (metis fst_conv)
  then show ?thesis by (simp add: settle_guest_writes_def on_engine_def e root_view_def)
qed

lemma ring_region_stored:
  assumes "\<And>i k. i < n \<Longrightarrow> k < length buf \<Longrightarrow> gpa + of_nat k \<noteq> base + of_nat i"
  shows "ring_region (g\<lparr>g_bytes := stored gpa buf (g_bytes g)\<rparr>) base n = ring_region g base n"
  using assms by (auto simp: ring_region_def byte_at_def intro!: stored_other)

lemma dev_write_lands:
  assumes "views_show (de_behind env)" "dev_write_u32 env gpa v w = (ok, w')"
  shows "\<exists>h. w' = w\<lparr>dd_ram := (if ok then (dd_ram w)\<lparr>g_bytes := stored gpa (le32 v) (g_bytes (dd_ram w))\<rparr> else dd_ram w),
    dd_host := h\<rparr>"
proof -
  obtain res g h where g: "gpa_write_u32 (de_behind env) gpa v (dd_page_size w) (dd_ram w, dd_host w) = (res, g, h)"
    by (metis prod_cases3)
  have w': "ok = (res = Inr ())" "w' = w\<lparr>dd_ram := g, dd_host := h\<rparr>"
    using assms(2) by (simp_all only: dev_write_u32_def g prod.case prod.inject)
  have "g = (if ok then (dd_ram w)\<lparr>g_bytes := stored gpa (le32 v) (g_bytes (dd_ram w))\<rparr> else dd_ram w)"
    using gpa_write_lands [OF assms(1) g [unfolded gpa_write_u32_def]] by (simp only: w')
  then show ?thesis using w'(2) by blast
qed

lemma root_stamp_view:
  assumes "views_show (de_behind env)" "root_undisturbed env ring_size base" "stamp_apart ring_size base w"
    "ring_size \<noteq> 0" "root_stamp env p (c, w) = (c', w')"
  shows "root_view ring_size base w' = root_view ring_size base w"
proof (cases "dd_fifo_base_page w = 0 \<or> stamp_slot_offset 0 (dd_page_size w) = None")
  case True
  then show ?thesis using assms(5) by (auto simp: root_stamp_def split: if_splits)
next
  case False
  define u where "u = settle_guest_writes env w"
  have s: "stamp_slot_offset 0 (dd_page_size w) = Some 0" using False by (auto simp: stamp_slot_offset_def split: if_splits)
  have view: "root_view ring_size base u = root_view ring_size base w" unfolding u_def by (rule settle_view [OF assms(2)])
  note same = root_view_eq [OF view assms(4)]
  obtain ok v where v: "dev_write_u32 env (pfn_gpa u (dd_fifo_base_page u)) (pk_completion_stamp p) u = (ok, v)"
    by fastforce
  obtain h where h: "v = u\<lparr>dd_ram := (if ok then (dd_ram u)\<lparr>g_bytes := stored (pfn_gpa u (dd_fifo_base_page u))
      (le32 (pk_completion_stamp p)) (g_bytes (dd_ram u))\<rparr> else dd_ram u), dd_host := h\<rparr>"
    using dev_write_lands [OF assms(1) v] by blast
  have "ring_region (dd_ram v) base (unat ring_size) = ring_region (dd_ram u) base (unat ring_size)"
    unfolding h using assms(3) same(6)
    by (cases ok) (auto simp: stamp_apart_def intro!: ring_region_stored)
  then have "root_view ring_size base v = root_view ring_size base u" by (simp add: root_view_def h)
  moreover have "root_view ring_size base w' = root_view ring_size base v"
    using assms(5) False s v by (auto simp: root_stamp_def u_def [symmetric] root_view_def record_fail_def split: bool.splits)
  ultimately show ?thesis using view by simp
qed

lemma root_rail_step:
  assumes "root_queue env ring_size base (c, w) (p # ps)"
  shows "main_step env ring_size base (c, w) = root_packet env p (c, w)"
proof -
  define head tail where "head = dd_fifo_read w" and "tail = dd_fifo_written w"
  have q: "ring_size \<noteq> 0" "wraps_with ring_size head (tail - head)"
    and holds: "ring_holds (root_byte (dd_ram w) base ring_size) ring_size head tail (p # ps)"
    using assms by (simp_all add: root_queue_def head_def tail_def)
  note f = ring_holds_packet [OF holds]
  have le: "PACKET_HEADER_LEN \<le> tail - head" using f(3) by simp
  have header: "read_ring_bytes (read_gpa (dd_ram w)) base ring_size head PACKET_HEADER_LEN = Some (take 12 (encode_packet p))"
    using root_reads [OF q(1) wraps_with_shorter [OF q(2) le], of "dd_ram w" base] f(4)
    by (simp add: PACKET_HEADER_LEN_def)
  have whole: "read_ring_bytes (read_gpa (dd_ram w)) base ring_size head (pk_total_size p) = Some (encode_packet p)"
    using root_reads [OF q(1) wraps_with_shorter [OF q(2) f(10)], of "dd_ram w" base] f(6) by simp
  show ?thesis
    unfolding main_step_def prod.case head_def [symmetric] tail_def [symmetric]
    by (simp only: f(1,2,3,5,7) header whole option.case sum.case if_False Let_def)
qed

lemma root_rail_past:
  assumes "root_queue env ring_size base (c, w) (p # ps)" "root_packet env p (c, w) = Some (Again s')"
  shows "root_queue env ring_size base s' ps"
proof -
  have q: "ring_size \<noteq> 0" "views_show (de_behind env)" "root_undisturbed env ring_size base" "stamp_apart ring_size base w"
    "wraps_with ring_size (dd_fifo_read w) (dd_fifo_written w - dd_fifo_read w)"
    "ring_holds (root_byte (dd_ram w) base ring_size) ring_size (dd_fifo_read w) (dd_fifo_written w) (p # ps)"
    using assms(1) by (simp_all add: root_queue_def)
  obtain w1 where w1: "de_root env p w = Some w1"
    and s': "s' = root_stamp env p (c, w1\<lparr>dd_fifo_read := pk_next_head p\<rparr>)"
    using assms(2) by (auto simp: root_packet_def split: if_splits)
  define w2 where "w2 = w1\<lparr>dd_fifo_read := pk_next_head p\<rparr>"
  obtain c3 w3 where w3: "root_stamp env p (c, w2) = (c3, w3)" by fastforce
  have v1: "root_view ring_size base w1 = root_view ring_size base w"
    using q(3) w1 unfolding root_undisturbed_def by blast
  note e1 = root_view_eq [OF v1 q(1)]
  have apart2: "stamp_apart ring_size base w2"
    using q(4) e1(6) by (simp add: w2_def stamp_apart_def pfn_gpa_def)
  note e3 = root_view_eq [OF root_stamp_view [OF q(2,3) apart2 q(1) w3] q(1)]
  have regs: "dd_fifo_read w3 = pk_next_head p" "dd_fifo_written w3 = dd_fifo_written w"
    "root_byte (dd_ram w3) base ring_size = root_byte (dd_ram w) base ring_size"
    using e1 e3 by (simp_all add: w2_def)
  note f = ring_holds_packet [OF q(6)]
  have nh: "pk_next_head p = dd_fifo_read w + pk_total_size p" using q(6) by (simp add: ring_holds_def)
  from wraps_with_past [OF q(5) f(10)]
  have "wraps_with ring_size (pk_next_head p) (dd_fifo_written w - pk_next_head p)"
    by (simp add: nh diff_diff_eq)
  then show ?thesis
    using q(1-3) apart2 e3(6) f(8) by (simp add: root_queue_def s' w2_def [symmetric] w3 regs)
qed

interpretation root_rail: fifo_rail "main_step env ring_size base" "root_queue env ring_size base" "root_packet env"
proof unfold_locales
  fix s p ps s'
  show "root_queue env ring_size base s [] \<Longrightarrow> main_step env ring_size base s = Some (Stop s)"
    by (auto simp: root_queue_def main_step_def ring_holds_empty)
  show "root_queue env ring_size base s (p # ps) \<Longrightarrow> main_step env ring_size base s = root_packet env p s"
    by (cases s) (simp add: root_rail_step)
  show "root_queue env ring_size base s (p # ps) \<Longrightarrow> root_packet env p s = Some (Again s') \<Longrightarrow> root_queue env ring_size base s' ps"
    by (cases s) (auto dest: root_rail_past)
qed

text \<open>
  C8: Draining the root FIFO serves its queue. When the published bytes of the ring are the layouts of a list of
  packets, no packet and no writeback of the engine moves the registers or the bytes of the ring, and the stamp
  word lies outside it, then \<open>drain_main_fifo\<close> does to the device what the packets do one by one in order, each
  taken off the ring and stamped before the next, up to the first one held on a stamp: no packet is skipped,
  none runs twice and no published byte is read as anything else.
\<close>

theorem root_drain_serves_queue:
  assumes "dd_fifo_base_page w \<noteq> 0"
    and "root_queue env (main_ring_data_size (dd_fifo_length w) (dd_fifo_start w))
           (pfn_gpa w (dd_fifo_base_page w) + ucast (dd_fifo_start w)) (False, w) ps"
  shows "drain_main_fifo env w = map_option main_finish
    (serve_all (root_packet env) ps (False, w\<lparr>dd_stamp_deferred := dd_stamp_deferred w AND NOT ROOT_FIFO_BIT\<rparr>))"
proof -
  let ?w = "w\<lparr>dd_stamp_deferred := dd_stamp_deferred w AND NOT ROOT_FIFO_BIT\<rparr>"
  have "root_queue env (main_ring_data_size (dd_fifo_length w) (dd_fifo_start w))
      (pfn_gpa w (dd_fifo_base_page w) + ucast (dd_fifo_start w)) (False, ?w) ps"
    using assms(2) by (simp add: root_queue_def stamp_apart_def pfn_gpa_def)
  from root_rail.drain_serves_all [OF this] assms show ?thesis
    by (simp add: drain_main_fifo_def Let_def root_queue_def pfn_gpa_def)
qed

section \<open>The root drain returns\<close>

lemma decode_bounds:
  assumes "decode_packet_inner bytes head available cap = Inr p"
  shows "12 \<le> unat (pk_total_size p)" "pk_total_size p \<le> available" "pk_next_head p = head + pk_total_size p"
  using assms by (auto simp: decode_packet_inner_def Let_def PACKET_HEADER_LEN_def word_le_nat_alt not_less split: if_splits)

lemma dev_write_regs:
  "dd_fifo_read (snd (dev_write_u32 env gpa v w)) = dd_fifo_read w"
  "dd_fifo_written (snd (dev_write_u32 env gpa v w)) = dd_fifo_written w"
  by (simp_all add: dev_write_u32_def split: prod.split)

lemma settle_regs:
  "dd_fifo_read (settle_guest_writes env w) = dd_fifo_read w"
  "dd_fifo_written (settle_guest_writes env w) = dd_fifo_written w"
  by (simp_all add: settle_guest_writes_def on_engine_def split: prod.split)

lemma root_stamp_regs:
  "dd_fifo_read (snd (root_stamp env p (c, w))) = dd_fifo_read w"
  "dd_fifo_written (snd (root_stamp env p (c, w))) = dd_fifo_written w"
  by (auto simp: root_stamp_def Let_def record_fail_def settle_regs dev_write_regs split_beta
      split: option.split bool.split)

text \<open>
  C25: The root drain returns. If every packet returns and leaves the two registers of the FIFO alone, the drain of
  the root FIFO returns, whatever bytes the guest has published: each packet takes at least its header off what
  is published, and a refused one ends the drain.
\<close>

theorem root_drain_returns:
  assumes "\<forall>p w. \<exists>w'. de_root env p w = Some w' \<and> dd_fifo_read w' = dd_fifo_read w \<and> dd_fifo_written w' = dd_fifo_written w"
  shows "\<exists>w'. drain_main_fifo env w = Some w'"
proof -
  have "\<exists>s'. repeat_step (main_step env ring_size base) cw = Some s'" for ring_size base cw
  proof (rule repeat_step_returns [where P = "\<lambda>_. True"
        and f = "\<lambda>cw. unat (dd_fifo_written (snd cw) - dd_fifo_read (snd cw))"])
    fix cw :: "bool \<times> 'a device"
    obtain c w where cw: "cw = (c, w)" by fastforce
    show "\<exists>r. main_step env ring_size base cw = Some r \<and> (\<forall>s'. r = Again s' \<longrightarrow> True \<and>
        unat (dd_fifo_written (snd s') - dd_fifo_read (snd s')) < unat (dd_fifo_written (snd cw) - dd_fifo_read (snd cw)))"
    proof (cases "\<exists>snap available p. published_byte_count (dd_fifo_read w) (dd_fifo_written w) ring_size = Some available
        \<and> decode_packet_inner snap (dd_fifo_read w) available ring_size = Inr p
        \<and> main_step env ring_size base cw = root_packet env p cw")
      case True
      then obtain snap available p where p: "published_byte_count (dd_fifo_read w) (dd_fifo_written w) ring_size = Some available"
        "decode_packet_inner snap (dd_fifo_read w) available ring_size = Inr p"
        "main_step env ring_size base cw = root_packet env p cw" by blast
      obtain w1 where w1: "de_root env p w = Some w1" "dd_fifo_read w1 = dd_fifo_read w" "dd_fifo_written w1 = dd_fifo_written w"
        using assms by blast
      have a: "available = dd_fifo_written w - dd_fifo_read w"
        using p(1) by (simp add: published_byte_count_def Let_def split: if_splits)
      note d = decode_bounds [OF p(2)]
      have "dd_fifo_written w - pk_next_head p = available - pk_total_size p" by (simp add: d(3) a)
      then have "unat (dd_fifo_written w - pk_next_head p) < unat available"
        using d(1,2) by (simp add: unat_sub_no_wrap word_le_nat_alt)
      then show ?thesis
        using root_stamp_regs [of env p c "w1\<lparr>dd_fifo_read := pk_next_head p\<rparr>"]
        by (auto simp: p(3) [unfolded cw] cw root_packet_def w1 a)
    next
      case False
      then show ?thesis
        by (auto simp: cw main_step_def Let_def split: option.split sum.split) blast
    qed
  qed simp
  then show ?thesis by (auto simp: drain_main_fifo_def Let_def)
qed

section \<open>A child FIFO is a queue\<close>

definition child_byte :: "guest_ram \<Rightarrow> child_ring \<Rightarrow> u32 \<Rightarrow> u32 \<Rightarrow> u8 option" where
  "child_byte g cx shift a =
     (let off = a mod cx_ring_length cx;
          page = shr64 (ucast off) shift;
          page_off = ucast off AND (shl64 1 shift - 1)
      in if unat page \<ge> length (cx_page_gpas cx) then Some 0
         else byte_at g (cx_page_gpas cx ! unat page + page_off))"

lemma child_reads:
  assumes "cx_ring_length cx \<noteq> 0" "cx_page_gpas cx \<noteq> []"
  shows "read_child_ring_bytes (read_gpa g) (cx_page_gpas cx) (cx_ring_length cx) head len shift
    = ring_bytes (child_byte g cx shift) head (unat len)"
  using assms by (simp add: read_child_ring_bytes_def ring_bytes_def child_byte_def Let_def those_byte cong: if_cong)

text \<open>The addresses a child FIFO reads in its loop: the tail register and the bytes of its pages.\<close>

definition child_addresses :: "child_ring \<Rightarrow> u32 \<Rightarrow> u64 list" where
  "child_addresses cx shift =
     map (\<lambda>k. cx_regs_gpa cx + CHILD_REG_TAIL + of_nat k) [0..<4]
     @ concat (map (\<lambda>gpa. map (\<lambda>k. gpa + of_nat k) [0..<2 ^ unat shift]) (cx_page_gpas cx))"

definition child_memory :: "guest_ram \<Rightarrow> child_ring \<Rightarrow> u32 \<Rightarrow> u8 option list" where
  "child_memory g cx shift = map (byte_at g) (child_addresses cx shift)"

definition child_view :: "child_ring \<Rightarrow> 'r device \<Rightarrow> u32 \<times> u32 \<times> u8 option list" where
  "child_view cx w = (dd_page_shift w, dd_fifo_base_page w, child_memory (dd_ram w) cx (dd_page_shift w))"

definition child_undisturbed :: "'r drain_env \<Rightarrow> child_ring \<Rightarrow> bool" where
  "child_undisturbed env cx \<longleftrightarrow>
     (\<forall>p w d w'. de_child env (cx_channel cx) p w = Some (d, w') \<longrightarrow> child_view cx w' = child_view cx w)
     \<and> (\<forall>g h r shift. child_memory (fst (de_settle env (g, h, r))) cx shift = child_memory g cx shift)
     \<and> (\<forall>page off i v g h r shift.
          child_memory (fst (snd (de_gpu_store env page off i v (g, h, r)))) cx shift = child_memory g cx shift)"

text \<open>The words the drain writes, the head register and the stamp slot, are none of them.\<close>

definition child_apart :: "child_ring \<Rightarrow> 'r device \<Rightarrow> bool" where
  "child_apart cx w \<longleftrightarrow>
     (\<forall>k < 4. cx_regs_gpa cx + CHILD_REG_HEAD + of_nat k \<notin> set (child_addresses cx (dd_page_shift w)))
     \<and> (case stamp_slot_offset (stamp_slot_index (cx_stamp_index cx)) (dd_page_size w) of
          None \<Rightarrow> True
        | Some off \<Rightarrow> \<forall>k < 4. pfn_gpa w (dd_fifo_base_page w) + off + of_nat k
                              \<notin> set (child_addresses cx (dd_page_shift w)))"

definition child_queue :: "'r drain_env \<Rightarrow> child_ring \<Rightarrow> 'r child_state \<Rightarrow> packet list \<Rightarrow> bool" where
  "child_queue env cx st ps \<longleftrightarrow> (case st of (head, pending, w) \<Rightarrow>
     cx_ring_length cx \<noteq> 0 \<and> cx_page_gpas cx \<noteq> [] \<and> unat (dd_page_shift w) < 32
     \<and> views_show (de_behind env) \<and> child_undisturbed env cx \<and> child_apart cx w
     \<and> (\<exists>tail. host_read_u32 (dd_ram w) (cx_regs_gpa cx + CHILD_REG_TAIL) = Some tail
          \<and> ring_holds (child_byte (dd_ram w) cx (dd_page_shift w)) (cx_ring_length cx) head tail ps))"

text \<open>What one packet of the queue does: wait for a paint, wait for a stamp, or be processed and completed.\<close>

definition child_serve :: "'r drain_env \<Rightarrow> child_ring \<Rightarrow> packet \<Rightarrow> 'r child_state \<Rightarrow> 'r child_state iter option" where
  "child_serve env cx p st = (case st of (head, pending, w) \<Rightarrow>
     Option.bind (host_read_u32 (dd_ram w) (cx_regs_gpa cx + CHILD_REG_TAIL)) (\<lambda>tail.
       if present_gated (pk_opcode p) w then Some (Stop (child_gated cx st)) else child_packet env cx tail p st))"

lemma child_memory_tail:
  assumes "child_memory g' cx shift = child_memory g cx shift"
  shows "host_read_u32 g' (cx_regs_gpa cx + CHILD_REG_TAIL) = host_read_u32 g (cx_regs_gpa cx + CHILD_REG_TAIL)"
proof -
  have "map (\<lambda>k. byte_at g' (cx_regs_gpa cx + CHILD_REG_TAIL + of_nat k)) [0..<4]
      = map (\<lambda>k. byte_at g (cx_regs_gpa cx + CHILD_REG_TAIL + of_nat k)) [0..<4]"
    using assms by (simp add: child_memory_def child_addresses_def comp_def)
  then show ?thesis by (simp only: host_read_u32_def read_gpa_those)
qed

lemma child_memory_byte:
  assumes "child_memory g' cx shift = child_memory g cx shift" "unat shift < 32"
  shows "child_byte g' cx shift = child_byte g cx shift"
proof
  fix a
  define off where "off = a mod cx_ring_length cx"
  define page where "page = unat (shr64 (ucast off) shift)"
  define page_off where "page_off = (ucast off AND (shl64 1 shift - 1) :: u64)"
  have po: "unat page_off < 2 ^ unat shift"
    using assms(2) by (simp add: page_off_def shl64_def unat_and_mask flip: mask_eq_exp_minus_1)
  have "byte_at g' (cx_page_gpas cx ! page + page_off) = byte_at g (cx_page_gpas cx ! page + page_off)"
    if "page < length (cx_page_gpas cx)"
  proof -
    have "cx_page_gpas cx ! page + page_off
        \<in> set (map (\<lambda>k. cx_page_gpas cx ! page + of_nat k) [0..<2 ^ unat shift])"
      using po by (auto intro!: image_eqI [of _ _ "unat page_off"])
    then have "cx_page_gpas cx ! page + page_off \<in> set (child_addresses cx shift)"
      using that nth_mem [OF that] unfolding child_addresses_def by auto
    then show ?thesis using assms(1) by (simp add: child_memory_def)
  qed
  then show "child_byte g' cx shift a = child_byte g cx shift a"
    by (simp add: child_byte_def Let_def off_def page_def page_off_def)
qed

lemma child_view_eq:
  assumes "child_view cx w' = child_view cx w" "unat (dd_page_shift w) < 32"
  shows "dd_page_shift w' = dd_page_shift w" "child_apart cx w' = child_apart cx w"
    "host_read_u32 (dd_ram w') (cx_regs_gpa cx + CHILD_REG_TAIL) = host_read_u32 (dd_ram w) (cx_regs_gpa cx + CHILD_REG_TAIL)"
    "child_byte (dd_ram w') cx (dd_page_shift w') = child_byte (dd_ram w) cx (dd_page_shift w)"
proof -
  have v: "dd_page_shift w' = dd_page_shift w" "dd_fifo_base_page w' = dd_fifo_base_page w"
    "child_memory (dd_ram w') cx (dd_page_shift w) = child_memory (dd_ram w) cx (dd_page_shift w)"
    using assms(1) by (auto simp: child_view_def)
  show "dd_page_shift w' = dd_page_shift w" by (rule v)
  show "child_apart cx w' = child_apart cx w" unfolding child_apart_def pfn_gpa_def dd_page_size_def v ..
  show "host_read_u32 (dd_ram w') (cx_regs_gpa cx + CHILD_REG_TAIL) = host_read_u32 (dd_ram w) (cx_regs_gpa cx + CHILD_REG_TAIL)"
    by (rule child_memory_tail [OF v(3)])
  show "child_byte (dd_ram w') cx (dd_page_shift w') = child_byte (dd_ram w) cx (dd_page_shift w)"
    unfolding v(1) by (rule child_memory_byte [OF v(3) assms(2)])
qed

lemma child_memory_stored:
  assumes "\<forall>k < length buf. gpa + of_nat k \<notin> set (child_addresses cx shift)"
  shows "child_memory (g\<lparr>g_bytes := stored gpa buf (g_bytes g)\<rparr>) cx shift = child_memory g cx shift"
  using assms by (auto simp: child_memory_def byte_at_def intro!: stored_other)

lemma child_view_write:
  assumes "views_show (de_behind env)" "\<forall>k < 4. gpa + of_nat k \<notin> set (child_addresses cx (dd_page_shift w))"
    "dev_write_u32 env gpa v w = (ok, w')"
  shows "child_view cx w' = child_view cx w"
proof -
  obtain h where "w' = w\<lparr>dd_ram := (if ok then (dd_ram w)\<lparr>g_bytes := stored gpa (le32 v) (g_bytes (dd_ram w))\<rparr> else dd_ram w),
    dd_host := h\<rparr>" using dev_write_lands [OF assms(1,3)] by blast
  then show ?thesis using assms(2) by (cases ok) (simp_all add: child_view_def child_memory_stored)
qed

lemma child_view_engine:
  assumes "child_memory g cx (dd_page_shift w) = child_memory (dd_ram w) cx (dd_page_shift w)"
  shows "child_view cx (w\<lparr>dd_ram := g, dd_host := h, dd_rest := r\<rparr>) = child_view cx w"
  using assms by (simp add: child_view_def)

lemma settle_child_view:
  assumes "child_undisturbed env cx"
  shows "child_view cx (settle_guest_writes env w) = child_view cx w"
proof -
  obtain g h r where e: "de_settle env (dd_ram w, dd_host w, dd_rest w) = (g, h, r)" by (metis prod_cases3)
  have "child_memory (fst (g, h, r)) cx (dd_page_shift w) = child_memory (dd_ram w) cx (dd_page_shift w)"
    using assms unfolding child_undisturbed_def e [symmetric] by blast
  then show ?thesis
    by (simp add: settle_guest_writes_def on_engine_def e child_view_engine)
qed

lemma gpu_stamp_child_view:
  assumes "child_undisturbed env cx"
  shows "child_view cx (snd (stamp_word_ordered_on_gpu env i v w)) = child_view cx w"
proof -
  have "child_view cx (case de_gpu_store env page off i v (dd_ram w, dd_host w, dd_rest w) of
      (d, g, h, r) \<Rightarrow> w\<lparr>dd_ram := g, dd_host := h, dd_rest := r\<rparr>) = child_view cx w" for page off
  proof -
    obtain d g h r where e: "de_gpu_store env page off i v (dd_ram w, dd_host w, dd_rest w) = (d, g, h, r)"
      by (metis prod_cases4)
    have "child_memory (fst (snd (d, g, h, r))) cx (dd_page_shift w) = child_memory (dd_ram w) cx (dd_page_shift w)"
      using assms unfolding child_undisturbed_def e [symmetric] by blast
    then show ?thesis by (simp add: e child_view_engine)
  qed
  then show ?thesis
    by (simp add: stamp_word_ordered_on_gpu_def Let_def split_beta split: option.split)
qed

lemma child_view_fields [simp]:
  "child_view cx (w\<lparr>dd_completion_seq := a\<rparr>) = child_view cx w"
  "child_view cx (w\<lparr>dd_interrupt_gpu := b\<rparr>) = child_view cx w"
  "child_view cx (enqueue act w) = child_view cx w" "child_view cx (record_fail ev w) = child_view cx w"
  by (simp_all add: child_view_def enqueue_def record_fail_def)

lemma write_stamp_child_view:
  assumes "views_show (de_behind env)" "child_undisturbed env cx" "child_apart cx w" "unat (dd_page_shift w) < 32"
  shows "child_view cx (write_fifo_stamp env (cx_stamp_index cx) v w) = child_view cx w"
proof -
  define index where "index = stamp_slot_index (cx_stamp_index cx)"
  obtain ok w1 where g: "stamp_word_ordered_on_gpu env index v w = (ok, w1)" by fastforce
  have v1: "child_view cx w1 = child_view cx w"
    using gpu_stamp_child_view [OF assms(2), of index v w] by (simp add: g)
  define w2 where "w2 = settle_guest_writes env w1"
  have v2: "child_view cx w2 = child_view cx w"
    using settle_child_view [OF assms(2)] v1 by (simp add: w2_def)
  have apart: "child_apart cx w2" using child_view_eq(2) [OF v2 assms(4)] assms(3) by simp
  have "child_view cx (snd (dev_write_u32 env (pfn_gpa w2 (dd_fifo_base_page w2) + off) v w2)) = child_view cx w2"
    if "stamp_slot_offset index (dd_page_size w2) = Some off" for off
  proof -
    obtain ok3 w3 where d: "dev_write_u32 env (pfn_gpa w2 (dd_fifo_base_page w2) + off) v w2 = (ok3, w3)" by fastforce
    show ?thesis
      using child_view_write [OF assms(1) _ d, of cx] apart that
      by (simp add: child_apart_def index_def [symmetric] d)
  qed
  then show ?thesis
    using v1 v2
    by (auto simp: write_fifo_stamp_def Let_def g index_def [symmetric] w2_def [symmetric] split_beta
        split: bool.split option.split)
qed

lemma child_rail_past:
  assumes "child_queue env cx (head, pending, w) (p # ps)" "child_serve env cx p (head, pending, w) = Some (Again s')"
  shows "child_queue env cx s' ps"
proof -
  have q: "cx_ring_length cx \<noteq> 0" "cx_page_gpas cx \<noteq> []" "unat (dd_page_shift w) < 32" "views_show (de_behind env)"
    "child_undisturbed env cx" "child_apart cx w"
    using assms(1) by (simp_all add: child_queue_def)
  obtain tail where tail: "host_read_u32 (dd_ram w) (cx_regs_gpa cx + CHILD_REG_TAIL) = Some tail"
    and holds: "ring_holds (child_byte (dd_ram w) cx (dd_page_shift w)) (cx_ring_length cx) head tail (p # ps)"
    using assms(1) by (auto simp: child_queue_def)
  obtain d w1 where w1: "de_child env (cx_channel cx) p w = Some (d, w1)"
    and again: "child_completed env cx tail p pending w1 = Again s'"
    using assms(2) by (auto simp: child_serve_def tail child_packet_def split: if_splits)
  have v1: "child_view cx w1 = child_view cx w"
    using q(5) w1 unfolding child_undisturbed_def by blast
  note e1 = child_view_eq [OF v1 q(3)]
  obtain ok w2 where w2: "dev_write_u32 env (cx_regs_gpa cx + CHILD_REG_HEAD) (pk_next_head p) w1 = (ok, w2)" by fastforce
  have v2: "child_view cx w2 = child_view cx w"
    using child_view_write [OF q(4) _ w2] e1(2) q(6) v1 by (simp add: child_apart_def)
  define w3 where "w3 = (if ok then w2 else record_fail (MalformedChildPacket (cx_channel cx) ChildHeadWriteback (pk_next_head p)) w2)"
  have v3: "child_view cx w3 = child_view cx w" using v2 by (simp add: w3_def)
  note e3 = child_view_eq [OF v3 q(3)]
  define w4 where "w4 = (if de_coalesce env then w3 else write_fifo_stamp env (cx_stamp_index cx) (pk_completion_stamp p) w3)"
  have v4: "child_view cx w4 = child_view cx w"
    using write_stamp_child_view [OF q(4,5), of w3] e3 q(3,6) v3 by (simp add: w4_def)
  note e4 = child_view_eq [OF v4 q(3)]
  obtain pending' where s': "s' = (pk_next_head p, pending', w4)"
    using again by (auto simp: child_completed_def w2 Let_def w3_def w4_def split: if_splits)
  show ?thesis
    using q e4 tail ring_holds_packet(8) [OF holds] by (simp add: s' child_queue_def)
qed

lemma child_rail_step:
  assumes "child_queue env cx (head, pending, w) (p # ps)"
  shows "child_step env cx (head, pending, w) = child_serve env cx p (head, pending, w)"
proof -
  have q: "cx_ring_length cx \<noteq> 0" "cx_page_gpas cx \<noteq> []"
    using assms by (simp_all add: child_queue_def)
  obtain tail where tail: "host_read_u32 (dd_ram w) (cx_regs_gpa cx + CHILD_REG_TAIL) = Some tail"
    and holds: "ring_holds (child_byte (dd_ram w) cx (dd_page_shift w)) (cx_ring_length cx) head tail (p # ps)"
    using assms by (auto simp: child_queue_def)
  note f = ring_holds_packet [OF holds]
  note r = child_reads [OF q, of "dd_ram w"]
  have n: "unat PACKET_HEADER_LEN = 12" by (simp add: PACKET_HEADER_LEN_def)
  have op: "u16_at (take 12 (encode_packet p)) PACKET_OPCODE = pk_opcode p"
    by (simp add: PACKET_OPCODE_def field_in_take) (simp add: encode_packet_def layout_simps)
  show ?thesis
    unfolding child_step_def child_serve_def prod.case r n tail
    by (simp only: f(1,2,3,4,5,6,7) option.case sum.case if_False Option.bind.simps op)
qed

interpretation child_rail: fifo_rail "child_step env cx" "child_queue env cx" "child_serve env cx"
proof unfold_locales
  fix s p ps s'
  show "child_queue env cx s [] \<Longrightarrow> child_step env cx s = Some (Stop s)"
    by (auto simp: child_queue_def child_step_def ring_holds_empty)
  show "child_queue env cx s (p # ps) \<Longrightarrow> child_step env cx s = child_serve env cx p s"
    by (cases s) (simp add: child_rail_step)
  show "child_queue env cx s (p # ps) \<Longrightarrow> child_serve env cx p s = Some (Again s') \<Longrightarrow> child_queue env cx s' ps"
    by (cases s) (auto dest: child_rail_past)
qed

text \<open>
  C9: Draining a child FIFO serves its queue. When the bytes of the pages of the ring between the head the drain
  read and the tail are the layouts of a list of packets, and neither a packet nor the engine nor the head and
  stamp words touch the tail register or the pages, then \<open>drain_child_fifo\<close> does to the device what the packets
  do one by one in order, up to the first one that waits for a paint or a stamp, is deferred or yields; then it
  writes the stamp the packets left owed and restores the channel that was being drained.
\<close>

theorem child_drain_serves_queue:
  assumes "child_setup channel_id w = Inr (cx, prev_channel, head, w')"
    and "child_queue env cx (head, None, w') ps"
  shows "drain_child_fifo env channel_id w =
    map_option (child_finish env cx prev_channel) (serve_all (child_serve env cx) ps (head, None, w'))"
  using child_rail.drain_serves_all [OF assms(2)] assms(1) by (simp add: drain_child_fifo_def)

end
