(* ===== verification/DrainRuns.thy ===== *)
theory DrainRuns
  imports DrainFacts
begin

section \<open>Runs\<close>

text \<open>
  A device whose packets only note their opcodes, on a host that maps every list of pages at one pointer, which
  shows the list mapped last.
\<close>

definition last_view :: showing where
  "last_view calls ptr k =
     (case rev calls of
        MapPages gpas page_sz answer # earlier \<Rightarrow> gpas ! (k div unat page_sz) + of_nat (k mod unat page_sz)
      | _ \<Rightarrow> 0)"

lemma last_view_shows: "views_show last_view"
  by (auto simp: views_show_def map_pages_def host_log_def last_view_def Let_def)

definition noting_env :: "u16 list drain_env" where
  "noting_env = \<lparr>de_root = (\<lambda>p w. Some (w\<lparr>dd_rest := dd_rest w @ [pk_opcode p]\<rparr>)),
     de_child = (\<lambda>ch p w. Some (Complete, w\<lparr>dd_rest := dd_rest w @ [pk_opcode p]\<rparr>)),
     de_settle = (\<lambda>e. e), de_outstanding = (\<lambda>r. False), de_gpu_stamp_on = False,
     de_gpu_store = (\<lambda>page off i v e. (False, e)), de_behind = last_view, de_coalesce = True, de_pass_tail = Some\<rparr>"

definition quiet_host :: host where
  "quiet_host = \<lparr>h_read_kva = (\<lambda>a n. None), h_read_gpa = (\<lambda>a n. None), h_is_ram_gpa = (\<lambda>a. True),
     h_read_xreg = (\<lambda>i. None), h_map_pages = (\<lambda>calls gpas page_sz. Some 0x7000),
     h_track_guest_writes = (\<lambda>calls gpas page_sz. None), h_guest_write_gen = (\<lambda>calls token. None), h_calls = []\<rparr>"

definition idle_device :: "u32 \<Rightarrow> ram \<Rightarrow> u16 list device" where
  "idle_device shift bytes = \<lparr>dd_fifo_length = 0, dd_fifo_written = 0, dd_fifo_read = 0, dd_fifo_start = 0,
     dd_root_page = 0, dd_fifo_base_page = 0, dd_control_fifo = 1, dd_interrupt_gpu = 0, dd_rung = 0,
     dd_page_shift = shift, dd_main_drain = False, dd_child_mask = 0, dd_iosfc = False, dd_yield = False,
     dd_active_mask = 0, dd_translation_deferred = 0, dd_stamp_deferred = 0, dd_order_hold = 0, dd_order_holds = 0,
     dd_draining_channel = 0, dd_draining_mask = 0, dd_unpainted = 0, dd_hold_active = False, dd_hold_channel = 0,
     dd_hold_head = 0, dd_hold_count = 0, dd_completion_seq = 0,
     dd_rings = replicate 32 \<lparr>cr_valid = False, cr_base_pfn = 0, cr_length = 0, cr_page_gpas = []\<rparr>,
     dd_ram = \<lparr>g_bytes = bytes, g_absent = (\<lambda>a. False)\<rparr>, dd_host = quiet_host, dd_actions = [], dd_fails = [],
     dd_rest = []\<rparr>"

text \<open>A root ring of 64 bytes at 0x1010 with two packets, the second one after the end of the ring.\<close>

definition two_packets :: "u32 \<Rightarrow> packet list" where
  "two_packets head =
     [\<lparr>pk_opcode = 0x1e, pk_stamp_waits = [], pk_total_size = 12, pk_completion_stamp = 5, pk_payload = [],
       pk_next_head = head + 12\<rparr>,
      \<lparr>pk_opcode = 0x0a, pk_stamp_waits = [], pk_total_size = 16, pk_completion_stamp = 6, pk_payload = [1, 2, 3, 4],
       pk_next_head = head + 28\<rparr>]"

definition two_packet_bytes :: "u8 list" where
  "two_packet_bytes = [0x1e, 0, 0, 0, 12, 0, 0, 0, 5, 0, 0, 0, 0x0a, 0, 0, 0, 16, 0, 0, 0, 6, 0, 0, 0, 1, 2, 3, 4]"

definition root_bytes :: ram where
  "root_bytes a =
     (let i = unat a - 0x1010 in
      if unat a < 0x1010 \<or> 64 \<le> i then 0 else (drop 12 two_packet_bytes @ replicate 36 0 @ take 12 two_packet_bytes) ! i)"

definition root_device :: "u16 list device" where
  "root_device = (idle_device 12 root_bytes)\<lparr>dd_fifo_base_page := 1, dd_fifo_start := 0x10, dd_fifo_length := 0x50,
     dd_fifo_read := 52, dd_fifo_written := 80\<rparr>"

lemma two_packets_layout: "concat (map encode_packet (two_packets head)) = two_packet_bytes"
proof -
  have "le16 0x1e = [0x1e, 0]" "le16 0x0a = [0x0a, 0]" "le16 0 = [0, 0]"
    "le32 12 = [12, 0, 0, 0]" "le32 16 = [16, 0, 0, 0]" "le32 5 = [5, 0, 0, 0]" "le32 6 = [6, 0, 0, 0]"
    by code_simp+
  then show ?thesis by (simp add: two_packets_def two_packet_bytes_def encode_packet_def)
qed

lemma two_packets_follow: "28 \<le> cap \<Longrightarrow> packets_follow cap head (two_packets head)"
  by (simp add: two_packets_def well_framed_def word_le_nat_alt)

lemma those_Some: "those (map (\<lambda>x. Some (f x)) xs) = Some (map f xs)"
  by (induction xs) simp_all

lemma root_device_bytes: "ring_bytes (root_byte (dd_ram root_device) 0x1010 64) 52 28 = Some two_packet_bytes"
proof -
  have b: "root_byte (dd_ram root_device) 0x1010 64 a = Some (root_bytes (0x1010 + ucast (a mod 64)))" for a
    by (simp add: root_byte_def byte_at_def root_device_def idle_device_def)
  have "root_bytes (0x1010 + ucast ((52 + of_nat i :: u32) mod 64)) = two_packet_bytes ! i" if "i < 28" for i
  proof -
    have "unat ((52 + of_nat i :: u32) mod 64) = (52 + i) mod 64"
      using ring_pos [of 64 52 28 i] that by (simp add: wraps_with_def)
    then have u: "unat (0x1010 + ucast ((52 + of_nat i :: u32) mod 64) :: u64) = 0x1010 + (52 + i) mod 64"
      by (subst unat_add_no_wrap) simp_all
    have "map (\<lambda>i. (drop 12 two_packet_bytes @ replicate 36 0 @ take 12 two_packet_bytes) ! ((52 + i) mod 64)) [0..<28]
        = two_packet_bytes"
      by code_simp
    from arg_cong [OF this, of "\<lambda>xs. xs ! i"] that
    have "(drop 12 two_packet_bytes @ replicate 36 0 @ take 12 two_packet_bytes) ! ((52 + i) mod 64) = two_packet_bytes ! i"
      by simp
    moreover have "\<not> 64 \<le> (52 + i) mod 64" by (simp add: not_le)
    ultimately show ?thesis by (simp add: root_bytes_def Let_def u)
  qed
  then have "map (\<lambda>i. root_bytes (0x1010 + ucast ((52 + of_nat i :: u32) mod 64))) [0..<28] = two_packet_bytes"
    by (intro nth_equalityI) (simp_all add: two_packet_bytes_def)
  then show ?thesis by (simp add: ring_bytes_def b those_Some)
qed

lemma root_device_queue: "root_queue noting_env 64 0x1010 (False, root_device) (two_packets 52)"
proof -
  have "ring_holds (root_byte (dd_ram root_device) 0x1010 64) 64 52 80 (two_packets 52)"
    using root_device_bytes by (simp add: ring_holds_def two_packets_layout two_packets_follow word_le_nat_alt)
  moreover have "root_undisturbed noting_env 64 0x1010"
    by (auto simp: root_undisturbed_def noting_env_def root_view_def)
  moreover have "(0x1000 :: u64) + of_nat k \<noteq> 0x1010 + of_nat i" if "i < 64" "k < 4" for i k :: nat
  proof
    assume "(0x1000 :: u64) + of_nat k = 0x1010 + of_nat i"
    then have "unat (0x1000 + of_nat k :: u64) = unat (0x1010 + of_nat i :: u64)" by simp
    then show False using that by (simp add: unat_add_no_wrap unat_of_nat_small)
  qed
  then have "stamp_apart 64 0x1010 root_device"
    by (simp add: stamp_apart_def root_device_def idle_device_def pfn_gpa_def shl64_def)
  moreover have "wraps_with 64 52 28" by (simp add: wraps_with_def)
  moreover have "dd_fifo_read root_device = 52" "dd_fifo_written root_device = 80"
    by (simp_all add: root_device_def)
  moreover have "views_show (de_behind noting_env)" by (simp add: noting_env_def last_view_shows)
  ultimately show ?thesis by (simp add: root_queue_def)
qed

lemma noting_env_fields:
  "de_root noting_env p w = Some (w\<lparr>dd_rest := dd_rest w @ [pk_opcode p]\<rparr>)"
  "de_child noting_env ch p w = Some (Complete, w\<lparr>dd_rest := dd_rest w @ [pk_opcode p]\<rparr>)"
  "de_coalesce noting_env" "\<not> de_gpu_stamp_on noting_env" "\<not> de_outstanding noting_env r"
  by (simp_all add: noting_env_def)

lemma noting_write [simp]:
  "settle_guest_writes env w = w" if "env = noting_env" for env
  using that by (simp add: settle_guest_writes_def noting_env_fields)

lemma dev_write_rest [simp]: "dd_rest (snd (dev_write_u32 env gpa v w)) = dd_rest w"
  by (simp add: dev_write_u32_def split_beta)

lemma noting_root_stamp: "dd_rest (snd (root_stamp noting_env p (c, w))) = dd_rest w"
  using dev_write_rest [of noting_env _ _ w]
  by (auto simp: root_stamp_def Let_def record_fail_def split_beta split: option.split bool.split)

lemma noting_root_packets:
  "\<forall>p\<in>set ps. pk_stamp_waits p = [] \<Longrightarrow>
   \<exists>s. serve_all (root_packet noting_env) ps cw = Some s \<and> dd_rest (snd s) = dd_rest (snd cw) @ map pk_opcode ps"
proof (induction ps arbitrary: cw)
  case (Cons p ps)
  obtain c w where cw: "cw = (c, w)" by fastforce
  define s1 where "s1 = root_stamp noting_env p (c, w\<lparr>dd_rest := dd_rest w @ [pk_opcode p], dd_fifo_read := pk_next_head p\<rparr>)"
  have "root_packet noting_env p cw = Some (Again s1)"
    using Cons.prems by (simp add: cw root_packet_def note_packet_stamp_waits_def noting_env_fields s1_def)
  moreover have "dd_rest (snd s1) = dd_rest w @ [pk_opcode p]" by (simp add: s1_def noting_root_stamp)
  moreover obtain s where "serve_all (root_packet noting_env) ps s1 = Some s" "dd_rest (snd s) = dd_rest (snd s1) @ map pk_opcode ps"
    using Cons.IH [of s1] Cons.prems by auto
  ultimately show ?case by (simp add: cw)
qed simp

theorem root_drain_serves_queue_witness:
  "map_option dd_rest (drain_main_fifo noting_env root_device) = Some [0x1e, 0x0a]"
proof -
  have "drain_main_fifo noting_env root_device = map_option main_finish
    (serve_all (root_packet noting_env) (two_packets 52)
       (False, root_device\<lparr>dd_stamp_deferred := dd_stamp_deferred root_device AND NOT ROOT_FIFO_BIT\<rparr>))"
    by (rule root_drain_serves_queue)
       (use root_device_queue in \<open>simp_all add: root_device_def main_ring_data_size_def pfn_gpa_def shl64_def idle_device_def\<close>)
  moreover have "\<forall>p\<in>set (two_packets 52). pk_stamp_waits p = []" by (simp add: two_packets_def)
  from noting_root_packets [OF this, of "(False, root_device\<lparr>dd_stamp_deferred := dd_stamp_deferred root_device AND NOT ROOT_FIFO_BIT\<rparr>)"]
  obtain s where "serve_all (root_packet noting_env) (two_packets 52)
      (False, root_device\<lparr>dd_stamp_deferred := dd_stamp_deferred root_device AND NOT ROOT_FIFO_BIT\<rparr>) = Some s"
    "dd_rest (snd s) = [0x1e, 0x0a]"
    by (auto simp: two_packets_def root_device_def idle_device_def)
  ultimately show ?thesis
    by (simp add: main_finish_def Let_def split_beta enqueue_def)
qed

theorem root_drain_returns_witness:
  "\<exists>w'. drain_main_fifo noting_env root_device = Some w'"
  by (rule root_drain_returns) (simp add: noting_env_fields)

text \<open>
  Channel 1 with one page at 0x3000 and the same two packets, twelve bytes before the end of the page. The
  registers are at 0x1400, the list of pages at 0x2000.
\<close>

definition channel_bytes :: ram where
  "channel_bytes a =
     (let n = unat a in
      if 0x3ff4 \<le> n \<and> n < 0x4000 then two_packet_bytes ! (n - 0x3ff4)
      else if 0x3000 \<le> n \<and> n < 0x3010 then two_packet_bytes ! (n - 0x3000 + 12)
      else if n = 0x1400 \<or> n = 0x1401 then 0x10 else if n = 0x1404 then 0xf4 else if n = 0x1405 then 0x0f
      else if n = 0x140c then 1 else if n = 0x1410 then 2 else if n = 0x2000 then 3 else 0)"

definition channel_device :: "u16 list device" where
  "channel_device = (idle_device 12 channel_bytes)\<lparr>dd_root_page := 1, dd_fifo_base_page := 5\<rparr>"

definition channel_cx :: child_ring where
  "channel_cx = \<lparr>cx_channel = 1, cx_regs_gpa = 0x1400, cx_stamp_index = 1, cx_ring_length = 0x1000, cx_page_gpas = [0x3000]\<rparr>"

definition channel_open :: "u16 list device" where
  "channel_open = channel_device\<lparr>dd_rings := (replicate 32 \<lparr>cr_valid = False, cr_base_pfn = 0, cr_length = 0, cr_page_gpas = []\<rparr>)
       [1 := \<lparr>cr_valid = True, cr_base_pfn = 2, cr_length = 0x1000, cr_page_gpas = [0x3000]\<rparr>],
     dd_draining_channel := 1, dd_draining_mask := 2\<rparr>"

lemma channel_words:
  assumes "\<And>a. \<not> g_absent g a"
  shows "host_read_u32 g a = Some (le_word [g_bytes g a, g_bytes g (a + 1), g_bytes g (a + 2), g_bytes g (a + 3)])"
    "read_gpa g a 4 = Some [g_bytes g a, g_bytes g (a + 1), g_bytes g (a + 2), g_bytes g (a + 3)]"
proof -
  have "[0..<4] = [0, 1, 2, 3 :: nat]" by code_simp
  then show "host_read_u32 g a = Some (le_word [g_bytes g a, g_bytes g (a + 1), g_bytes g (a + 2), g_bytes g (a + 3)])"
    "read_gpa g a 4 = Some [g_bytes g a, g_bytes g (a + 1), g_bytes g (a + 2), g_bytes g (a + 3)]"
    using assms by (simp_all add: host_read_u32_def read_gpa_def)
qed

lemma leading_pages_step:
  "0 < n \<Longrightarrow> leading_pages rd shift list_gpa n =
     (case rd list_gpa 4 of
        None \<Rightarrow> []
      | Some b \<Rightarrow>
          let pfn = le_word b :: u32 in
          if pfn = 0 then []
          else shl64 (ucast pfn) shift # leading_pages rd shift (list_gpa + CHILD_RING_PFN_ENTRY_LEN) (n - 1))"
  by (cases n) (auto simp: Let_def split: option.split)

lemma channel_pages: "leading_pages (read_gpa \<lparr>g_bytes = channel_bytes, g_absent = \<lambda>a. False\<rparr>) 12 0x2000 1024 = [0x3000]"
  by (simp add: leading_pages_step channel_words channel_bytes_def Let_def le_word_def CHILD_RING_PFN_ENTRY_LEN_def shl64_def)

lemma channel_setup: "child_setup 1 channel_device = Inr (channel_cx, 0, 4084, channel_open)"
proof -
  have ram: "dd_ram channel_device = \<lparr>g_bytes = channel_bytes, g_absent = \<lambda>a. False\<rparr>"
    by (simp add: channel_device_def idle_device_def)
  have regs: "host_read_u32 (dd_ram channel_device) 0x1404 = Some 4084" "host_read_u32 (dd_ram channel_device) 0x140c = Some 1"
    "host_read_u32 (dd_ram channel_device) 0x1410 = Some 2"
    by (simp_all add: ram channel_words channel_bytes_def Let_def le_word_def)
  have fields: "dd_root_page channel_device = 1" "dd_page_shift channel_device = 12" "dd_draining_channel channel_device = 0"
    "dd_draining_mask channel_device = 0" "dd_stamp_deferred channel_device = 0"
    "dd_rings channel_device = replicate 32 \<lparr>cr_valid = False, cr_base_pfn = 0, cr_length = 0, cr_page_gpas = []\<rparr>"
    by (simp_all add: channel_device_def idle_device_def)
  have gpa: "pfn_gpa channel_device 1 = 0x1000" "pfn_gpa channel_device 2 = 0x2000" "dd_page_size channel_device = 0x1000"
    by (simp_all add: pfn_gpa_def dd_page_size_def fields shl64_def)
  have ring: "ensure_child_ring 1 2 channel_device = (0x1000, channel_device\<lparr>dd_rings :=
      (replicate 32 \<lparr>cr_valid = False, cr_base_pfn = 0, cr_length = 0, cr_page_gpas = []\<rparr>)
       [1 := \<lparr>cr_valid = True, cr_base_pfn = 2, cr_length = 0x1000, cr_page_gpas = [0x3000]\<rparr>]\<rparr>)"
    using channel_pages
    by (simp add: ensure_child_ring_def is_child_channel_def MAX_CHANNELS_def fields gpa ram Let_def
        CHILD_RING_PFN_ENTRY_LEN_def saturating_mul_def)
  show ?thesis
    using regs
    by (simp add: child_setup_def child_reg_block_offset_def is_child_channel_def MAX_CHANNELS_def fields gpa ring Let_def
        CHILD_REG_BLOCK_OFFSET_def CHILD_REG_HEAD_def CHILD_REG_STAMP_INDEX_def CHILD_REG_BASE_PFN_def channel_cx_def
        channel_open_def channel_bit_def)
qed

lemma channel_ring_bytes: "ring_bytes (child_byte (dd_ram channel_open) channel_cx 12) 4084 28 = Some two_packet_bytes"
proof -
  have b: "child_byte (dd_ram channel_open) channel_cx 12 a = Some (channel_bytes (0x3000 + ucast (a mod 0x1000)))" for a
  proof -
    have o: "unat (a mod 0x1000) < 1 * 2 ^ unat (12 :: u32)" by (simp add: unat_mod)
    have "unat (shr64 (ucast (a mod 0x1000)) 12) < 1"
      "pages_from 0x3000 12 1 ! unat (shr64 (ucast (a mod 0x1000)) 12) + (ucast (a mod 0x1000) AND (shl64 1 12 - 1))
        = 0x3000 + ucast (a mod 0x1000)"
      using page_place(1) [OF _ o] page_place(2) [OF _ o, of "0x3000"] by simp_all
    then show ?thesis
      by (simp add: child_byte_def channel_cx_def Let_def byte_at_def channel_open_def channel_device_def idle_device_def
          pages_from_def)
  qed
  have "channel_bytes (0x3000 + ucast ((4084 + of_nat i :: u32) mod 0x1000)) = two_packet_bytes ! i" if "i < 28" for i
  proof -
    have "unat ((4084 + of_nat i :: u32) mod 0x1000) = (4084 + i) mod 0x1000"
      using ring_pos [of "0x1000" 4084 28 i] that by (simp add: wraps_with_def)
    then have u: "unat (0x3000 + ucast ((4084 + of_nat i :: u32) mod 0x1000) :: u64) = 0x3000 + (4084 + i) mod 0x1000"
      by (subst unat_add_no_wrap) simp_all
    show ?thesis
    proof (cases "i < 12")
      case True
      then show ?thesis by (simp add: channel_bytes_def Let_def u)
    next
      case False
      then have "(4084 + i) mod 0x1000 = i - 12" using that by (simp add: mod_if)
      then show ?thesis using False that by (simp add: channel_bytes_def Let_def u)
    qed
  qed
  then have "map (\<lambda>i. channel_bytes (0x3000 + ucast ((4084 + of_nat i :: u32) mod 0x1000))) [0..<28] = two_packet_bytes"
    by (intro nth_equalityI) (simp_all add: two_packet_bytes_def)
  then show ?thesis by (simp add: ring_bytes_def b those_Some)
qed

lemma channel_address_range:
  assumes "a \<in> set (child_addresses channel_cx 12)"
  shows "unat a < 0x1404 \<or> 0x3000 \<le> unat a \<and> unat a < 0x4000"
proof -
  consider k where "k < 4" "a = 0x1400 + of_nat k" | k where "k < 0x1000" "a = 0x3000 + of_nat k"
    using assms by (auto simp: child_addresses_def channel_cx_def CHILD_REG_TAIL_def)
  then show ?thesis
    by cases (simp_all add: unat_add_no_wrap unat_of_nat_small)
qed

lemma channel_queue: "child_queue noting_env channel_cx (4084, None, channel_open) (two_packets 4084)"
proof -
  have f: "dd_page_shift channel_open = 12" "dd_fifo_base_page channel_open = 5"
    "dd_ram channel_open = \<lparr>g_bytes = channel_bytes, g_absent = \<lambda>a. False\<rparr>"
    by (simp_all add: channel_open_def channel_device_def idle_device_def)
  have tail: "host_read_u32 (dd_ram channel_open) 0x1400 = Some 4112"
    by (simp add: f channel_words channel_bytes_def Let_def le_word_def)
  have "ring_holds (child_byte (dd_ram channel_open) channel_cx 12) 0x1000 4084 4112 (two_packets 4084)"
    using channel_ring_bytes by (simp add: ring_holds_def two_packets_layout two_packets_follow word_le_nat_alt)
  moreover have "child_undisturbed noting_env channel_cx"
    by (auto simp: child_undisturbed_def noting_env_def child_view_def)
  moreover have "(0x1404 :: u64) + of_nat k \<notin> set (child_addresses channel_cx 12)"
    "(0x5004 :: u64) + of_nat k \<notin> set (child_addresses channel_cx 12)" if "k < 4" for k :: nat
    using that channel_address_range [of "0x1404 + of_nat k"] channel_address_range [of "0x5004 + of_nat k"]
    by (auto simp: unat_add_no_wrap unat_of_nat_small)
  then have "child_apart channel_cx channel_open"
    by (auto simp: child_apart_def f channel_cx_def CHILD_REG_HEAD_def pfn_gpa_def shl64_def stamp_slot_offset_def
        STAMP_SLOT_LEN_def stamp_slot_index_def STAMP_INDEX_MASK_def split: if_splits)
  moreover have "views_show (de_behind noting_env)" by (simp add: noting_env_def last_view_shows)
  ultimately show ?thesis
    using tail by (simp add: child_queue_def f(1) channel_cx_def CHILD_REG_TAIL_def)
qed

lemma dev_write_keeps:
  "dd_unpainted (snd (dev_write_u32 env gpa v w)) = dd_unpainted w"
  "dd_yield (snd (dev_write_u32 env gpa v w)) = dd_yield w"
  by (simp_all add: dev_write_u32_def split_beta)

lemma dev_write_absent: "views_show (de_behind env) \<Longrightarrow> g_absent (dd_ram (snd (dev_write_u32 env gpa v w))) = g_absent (dd_ram w)"
  using dev_write_lands [of env gpa v w] by (cases "dev_write_u32 env gpa v w") auto

lemma noting_child_packets:
  "\<forall>p\<in>set ps. pk_stamp_waits p = [] \<Longrightarrow> dd_unpainted w = 0 \<Longrightarrow> \<not> dd_yield w \<Longrightarrow> g_absent (dd_ram w) = (\<lambda>a. False) \<Longrightarrow>
   \<exists>head' pending' w'. serve_all (child_serve noting_env cx) ps (head, pending, w) = Some (head', pending', w')
     \<and> dd_rest w' = dd_rest w @ map pk_opcode ps"
proof (induction ps arbitrary: head pending w)
  case (Cons p ps)
  define w1 where "w1 = w\<lparr>dd_rest := dd_rest w @ [pk_opcode p]\<rparr>"
  obtain ok w2 where w2: "dev_write_u32 noting_env (cx_regs_gpa cx + CHILD_REG_HEAD) (pk_next_head p) w1 = (ok, w2)" by fastforce
  define w3 where "w3 = (if ok then w2 else record_fail (MalformedChildPacket (cx_channel cx) ChildHeadWriteback (pk_next_head p)) w2)"
  have vs: "views_show (de_behind noting_env)" by (simp add: noting_env_def last_view_shows)
  have w3: "dd_unpainted w3 = 0" "\<not> dd_yield w3" "g_absent (dd_ram w3) = (\<lambda>a. False)"
    "dd_rest w3 = dd_rest w @ [pk_opcode p]"
  proof -
    have w2': "w2 = snd (dev_write_u32 noting_env (cx_regs_gpa cx + CHILD_REG_HEAD) (pk_next_head p) w1)" by (simp add: w2)
    have "dd_unpainted w2 = 0" "\<not> dd_yield w2" "g_absent (dd_ram w2) = (\<lambda>a. False)" "dd_rest w2 = dd_rest w @ [pk_opcode p]"
      unfolding w2' dev_write_keeps dev_write_absent [OF vs] dev_write_rest using Cons.prems by (simp_all add: w1_def)
    then show "dd_unpainted w3 = 0" "\<not> dd_yield w3" "g_absent (dd_ram w3) = (\<lambda>a. False)"
      "dd_rest w3 = dd_rest w @ [pk_opcode p]"
      by (simp_all add: w3_def record_fail_def)
  qed
  have tail: "host_read_u32 (dd_ram w) a \<noteq> None" for a
    using Cons.prems(4) by (simp add: host_read_u32_def read_gpa_def list_ex_iff)
  have gate: "\<not> present_gated (pk_opcode p) w"
    using Cons.prems(2) by (simp add: present_gated_def MAX_UNPAINTED_PRESENTS_def)
  have "child_serve noting_env cx p (head, pending, w)
      = Some (Again (pk_next_head p, latch (pk_completion_stamp p) pending, w3))"
    using tail [of "cx_regs_gpa cx + CHILD_REG_TAIL"] gate Cons.prems(1) w3(2)
    by (auto simp: child_serve_def child_packet_def note_packet_stamp_waits_def noting_env_fields
        child_completed_def w1_def [symmetric] w2 Let_def w3_def)
  then show ?case
    using Cons.IH [OF _ w3(1,2,3), of "pk_next_head p" "latch (pk_completion_stamp p) pending"] Cons.prems(1) w3(4) by auto
qed simp

lemma noting_write_stamp: "dd_rest (write_fifo_stamp noting_env i v w) = dd_rest w"
  using dev_write_rest [of noting_env _ v w]
  by (auto simp: write_fifo_stamp_def Let_def stamp_word_ordered_on_gpu_def noting_env_fields enqueue_def split_beta
      split: option.split bool.split)

theorem child_drain_serves_queue_witness:
  "map_option dd_rest (drain_child_fifo noting_env 1 channel_device) = Some [0x1e, 0x0a]"
proof -
  have "\<forall>p\<in>set (two_packets 4084). pk_stamp_waits p = []" by (simp add: two_packets_def)
  from noting_child_packets [OF this, of channel_open channel_cx 4084 None]
  obtain head' pending' w' where "serve_all (child_serve noting_env channel_cx) (two_packets 4084) (4084, None, channel_open)
      = Some (head', pending', w')" "dd_rest w' = [0x1e, 0x0a]"
    by (auto simp: channel_open_def channel_device_def idle_device_def two_packets_def)
  then show ?thesis
    unfolding child_drain_serves_queue [OF channel_setup channel_queue]
    by (simp add: child_finish_def Let_def noting_write_stamp split: option.split)
qed

end
