(* ===== verification/PassFacts.thy ===== *)
theory PassFacts
  imports DrainRuns
begin

text \<open>
  What the pass over the child FIFOs does with the channels the guest rang. The specification is a run: drains of
  channels, each from the device the one before it left, and takings of what has been rung since. The refills of
  the code are proved to be such a run, which drains a channel at most once and hands back what it does not drain.
\<close>

unbundle bit_operations_syntax

lemma channel_bit_exp: "channel_bit ch = 2 ^ unat ch"
  by (simp add: channel_bit_def push_bit_eq_mult)

lemma and_channel_bit: "m AND channel_bit ch = 0 \<longleftrightarrow> \<not> bit m (unat ch)"
  by (simp add: channel_bit_exp and_exp_eq_0_iff_not_bit)

lemma bit_channel_bit: "bit (channel_bit ch) n \<longleftrightarrow> n < 32 \<and> n = unat ch"
  by (auto simp: channel_bit_exp bit_exp_iff)

section \<open>The runs\<close>

datatype pass_event = Drained u32 | Taken u32

fun drained :: "pass_event list \<Rightarrow> u32 list" where
  "drained [] = []"
| "drained (Drained ch # es) = ch # drained es"
| "drained (Taken m # es) = drained es"

fun taken :: "pass_event list \<Rightarrow> u32 list" where
  "taken [] = []"
| "taken (Drained ch # es) = taken es"
| "taken (Taken m # es) = m # taken es"

text \<open>A device on which a pass ends early: a packet waits for its translation, or a host action is to go first.\<close>

definition stops :: "'r device \<Rightarrow> bool" where
  "stops w \<longleftrightarrow> dd_translation_deferred w \<noteq> 0 \<or> dd_yield w"

inductive pass_run :: "'r drain_env \<Rightarrow> 'r device \<Rightarrow> pass_event list \<Rightarrow> 'r device \<Rightarrow> bool" for env where
  pass_nothing: "pass_run env w [] w"
| pass_drain: "pass_run env w (Drained ch # es) v"
    if "drain_child_fifo env ch w = Some u" "es = [] \<or> \<not> stops u" "pass_run env u es v"
| pass_take: "pass_run env w (Taken (dd_child_mask u) # es) v"
    if "u = fold_rung_child_doorbells w" "pass_run env (u\<lparr>dd_child_mask := 0\<rparr>) es v"

text \<open>What an early end makes of the channels it has not come to.\<close>

definition held_back :: "u32 \<Rightarrow> 'r device \<Rightarrow> 'r device" where
  "held_back r w =
     (if dd_translation_deferred w \<noteq> 0
      then note_translation_order_hold r (w\<lparr>dd_child_mask := dd_child_mask w OR (r OR dd_translation_deferred w)\<rparr>)
      else w\<lparr>dd_child_mask := dd_child_mask w OR r\<rparr>)"

lemma drained_map [simp]: "drained (map Drained cs @ es) = cs @ drained es" "taken (map Drained cs @ es) = taken es"
  by (induction cs) simp_all

section \<open>One pass\<close>

text \<open>
  A pass drains the channels of its set one after another, in the order of the list, up to an early end. The
  run of what follows it is prefixed with those drains.
\<close>

definition pass_drains ::
  "'r drain_env \<Rightarrow> u32 set \<Rightarrow> u32 \<Rightarrow> u32 \<Rightarrow> 'r device \<Rightarrow> bool \<Rightarrow> u32 \<Rightarrow> 'r device \<Rightarrow> u32 list \<Rightarrow> bool" where
  "pass_drains env offered remaining served w goes_on served' w' cs \<longleftrightarrow>
     set cs \<subseteq> offered \<and> distinct cs \<and> (\<forall>n. bit served' n \<longleftrightarrow> bit served n \<or> n \<in> unat ` set cs)
   \<and> (goes_on \<longrightarrow> set cs = offered \<and> (\<forall>es v. pass_run env w' es v \<longrightarrow> pass_run env w (map Drained cs @ es) v))
   \<and> (\<not> goes_on \<longrightarrow> (\<exists>v r. pass_run env w (map Drained cs) v \<and> stops v \<and> w' = held_back r v
        \<and> (\<forall>n. bit r n \<longleftrightarrow> bit remaining n \<and> n \<notin> unat ` set cs)))"

lemma child_pass_runs:
  assumes "child_pass env msk chs remaining served w = Some (goes_on, served', w')"
    and "distinct chs" "\<forall>ch \<in> set chs. unat ch < 32"
  shows "\<exists>cs. pass_drains env {ch \<in> set chs. bit msk (unat ch)} remaining served w goes_on served' w' cs"
  using assms
proof (induction chs arbitrary: remaining served w)
  case Nil
  then show ?case by (intro exI [of _ "[]"]) (simp add: pass_drains_def)
next
  case (Cons ch chs)
  show ?case
  proof (cases "bit msk (unat ch)")
    case False
    then have "child_pass env msk chs remaining served w = Some (goes_on, served', w')"
      using Cons.prems(1) by (simp add: and_channel_bit)
    moreover have "{c \<in> set (ch # chs). bit msk (unat c)} = {c \<in> set chs. bit msk (unat c)}" using False by auto
    ultimately show ?thesis using Cons.IH Cons.prems(2,3) by simp
  next
    case True
    define remaining1 served1 where "remaining1 = remaining AND NOT (channel_bit ch)" and "served1 = served OR channel_bit ch"
    have bits: "bit remaining1 n \<longleftrightarrow> bit remaining n \<and> n \<noteq> unat ch" "bit served1 n \<longleftrightarrow> bit served n \<or> n = unat ch" for n
      using Cons.prems(3) bit_imp_le_length [of remaining n]
      by (auto simp: remaining1_def served1_def bit_and_iff bit_or_iff bit_not_iff bit_channel_bit)
    have "child_pass env msk (ch # chs) remaining served w = Option.bind (drain_child_fifo env ch w) (\<lambda>u.
        if stops u then Some (False, served1, held_back remaining1 u) else child_pass env msk chs remaining1 served1 u)"
      using True by (cases "drain_child_fifo env ch w")
        (simp_all add: and_channel_bit Let_def stops_def held_back_def remaining1_def served1_def)
    then obtain w1 where w1: "drain_child_fifo env ch w = Some w1"
      and rest: "(if stops w1 then Some (False, served1, held_back remaining1 w1)
          else child_pass env msk chs remaining1 served1 w1) = Some (goes_on, served', w')"
      using Cons.prems(1) by (auto simp: bind_eq_Some_conv)
    show ?thesis
    proof (cases "stops w1")
      case True
      then show ?thesis
        using rest bits w1 \<open>bit msk (unat ch)\<close>
        by (intro exI [of _ "[ch]"]) (auto simp: pass_drains_def intro!: exI [of _ w1] exI [of _ remaining1] pass_drain pass_nothing)
    next
      case False
      then have "child_pass env msk chs remaining1 served1 w1 = Some (goes_on, served', w')" using rest by simp
      then obtain cs where
        ih: "pass_drains env {c \<in> set chs. bit msk (unat c)} remaining1 served1 w1 goes_on served' w' cs"
        using Cons.IH [of remaining1 served1 w1] Cons.prems(2,3) by auto
      note step = pass_drain [OF w1 disjI2 [OF False]]
      have split: "{c \<in> set (ch # chs). bit msk (unat c)} = insert ch {c \<in> set chs. bit msk (unat c)}" using True by auto
      have "pass_drains env (insert ch {c \<in> set chs. bit msk (unat c)}) remaining served w goes_on served' w' (ch # cs)"
        unfolding pass_drains_def
      proof (intro conjI impI)
        show "\<exists>v r. pass_run env w (map Drained (ch # cs)) v \<and> stops v \<and> w' = held_back r v
            \<and> (\<forall>n. bit r n \<longleftrightarrow> bit remaining n \<and> n \<notin> unat ` set (ch # cs))" if off: "\<not> goes_on"
        proof -
          from ih off obtain v r where "pass_run env w1 (map Drained cs) v" "stops v" "w' = held_back r v"
            "\<forall>n. bit r n \<longleftrightarrow> bit remaining1 n \<and> n \<notin> unat ` set cs" unfolding pass_drains_def by auto
          then show ?thesis using step bits by (intro exI [of _ v] exI [of _ r]) auto
        qed
      qed (use ih Cons.prems(2) bits step in \<open>auto simp: pass_drains_def\<close>)
      then show ?thesis unfolding split by blast
    qed
  qed
qed

lemma child_channels_set: "ch \<in> set child_channels \<longleftrightarrow> is_child_channel ch" and child_channels_distinct: "distinct child_channels"
proof -
  show "ch \<in> set child_channels \<longleftrightarrow> is_child_channel ch"
  proof
    assume "ch \<in> set child_channels"
    then obtain i where "ch = of_nat i" "1 \<le> i" "i < 32" by (auto simp: child_channels_def MAX_CHANNELS_def)
    then show "is_child_channel ch"
      by (simp add: is_child_channel_def MAX_CHANNELS_def word_le_nat_alt unat_of_nat_small)
  next
    assume "is_child_channel ch"
    then have "unat ch \<in> set [1..<32]" by (simp add: is_child_channel_def MAX_CHANNELS_def word_le_nat_alt)
    then have "of_nat (unat ch) \<in> set child_channels" unfolding child_channels_def MAX_CHANNELS_def set_map by (rule imageI)
    then show "ch \<in> set child_channels" by simp
  qed
  have "inj_on (of_nat :: nat \<Rightarrow> u32) (set [1..<32])"
    by (rule inj_onI) (simp add: word_unat_eq_iff unat_of_nat_small)
  then show "distinct child_channels" by (simp add: child_channels_def MAX_CHANNELS_def distinct_map)
qed

section \<open>The refills\<close>

text \<open>The run of a pass with its refills, in terms of what was offered to it: the set it starts with and the rings it takes.\<close>

definition serves_offers ::
  "u32 \<Rightarrow> u32 \<Rightarrow> pass_event list \<Rightarrow> u32 \<Rightarrow> u32 \<Rightarrow> bool" where
  "serves_offers msk served es r served' \<longleftrightarrow>
     distinct (drained es)
   \<and> (\<forall>ch \<in> set (drained es). is_child_channel ch \<and> \<not> bit served (unat ch)
        \<and> (\<exists>m \<in> insert msk (set (taken es)). bit m (unat ch)))
   \<and> (\<forall>m \<in> insert msk (set (taken es)). \<forall>ch. is_child_channel ch \<and> bit m (unat ch) \<longrightarrow>
        bit served (unat ch) \<or> ch \<in> set (drained es) \<or> bit r (unat ch))
   \<and> (\<forall>n. bit r n \<longrightarrow> \<not> bit served' n \<and> (\<exists>m \<in> insert msk (set (taken es)). bit m n))
   \<and> (\<forall>n. bit served' n \<longleftrightarrow> bit served n \<or> n \<in> unat ` set (drained es))"

lemma child_channel_unat: "is_child_channel ch \<Longrightarrow> unat ch < 32"
  by (simp add: is_child_channel_def MAX_CHANNELS_def)

lemma apart_bits: "(a :: u32) AND b = 0 \<Longrightarrow> bit a n \<Longrightarrow> \<not> bit b n"
  by (metis bit_and_iff bit_0_eq bot_apply bot_bool_def)

lemma unat_image: "unat (x :: u32) \<in> unat ` A \<longleftrightarrow> x \<in> A"
  by (rule inj_image_mem_iff) (simp add: inj_def flip: word_unat_eq_iff)

text \<open>The offers of a pass that ran to its end and of the refills after it.\<close>

lemma serves_offers_pass:
  assumes so: "serves_offers m served1 es q served'"
    and cs: "set cs \<subseteq> {ch. is_child_channel ch \<and> bit msk (unat ch)}" "distinct cs"
    and s1: "\<And>n. bit served1 n \<longleftrightarrow> bit served n \<or> n \<in> unat ` set cs"
    and all: "\<And>ch. is_child_channel ch \<Longrightarrow> bit msk (unat ch) \<Longrightarrow> ch \<in> set cs"
    and apart: "\<And>n. bit msk n \<Longrightarrow> \<not> bit served n"
    and m: "\<And>n. bit m n \<longleftrightarrow> bit rung n \<and> \<not> bit served1 n"
  shows "serves_offers msk served (map Drained cs @ Taken rung # es) q served'"
proof -
  have s1': "bit served1 (unat ch) \<longleftrightarrow> bit served (unat ch) \<or> ch \<in> set cs" for ch by (simp add: s1 unat_image)
  note o = so [unfolded serves_offers_def]
  have fresh: "is_child_channel ch" "\<not> bit served (unat ch)" "ch \<notin> set cs"
    "\<exists>a \<in> insert msk (set (rung # taken es)). bit a (unat ch)" if "ch \<in> set (drained es)" for ch
    using o that s1' [of ch] m by auto
  have covered: "bit served (unat ch) \<or> ch \<in> set cs \<or> ch \<in> set (drained es) \<or> bit q (unat ch)"
    if "a \<in> insert msk (insert rung (set (taken es)))" "is_child_channel ch" "bit a (unat ch)" for a ch
    using o that all s1' [of ch] m [of "unat ch"] by (auto simp: s1')
  have left: "\<not> bit served' n \<and> (\<exists>a \<in> insert rung (set (taken es)). bit a n)" if "bit q n" for n
    using o that m [of n] by auto
  show ?thesis
    unfolding serves_offers_def drained_map drained.simps taken.simps
  proof (intro conjI)
    show "distinct (cs @ drained es)" using o cs(2) fresh(3) by auto
    show "\<forall>n. bit served' n \<longleftrightarrow> bit served n \<or> n \<in> unat ` set (cs @ drained es)" using o s1 by auto
    show "\<forall>ch \<in> set (cs @ drained es). is_child_channel ch \<and> \<not> bit served (unat ch)
        \<and> (\<exists>a \<in> insert msk (set (rung # taken es)). bit a (unat ch))" using cs(1) apart fresh unfolding set_append by blast
  qed (use covered left in auto)
qed

definition refills_done ::
  "'r drain_env \<Rightarrow> nat \<Rightarrow> u32 \<Rightarrow> u32 \<Rightarrow> 'r device \<Rightarrow> bool \<Rightarrow> u32 \<Rightarrow> u32 \<Rightarrow> 'r device \<Rightarrow> pass_event list \<Rightarrow> 'r device \<Rightarrow> u32 \<Rightarrow> bool" where
  "refills_done env n msk served w goes_on left served' w' es v r \<longleftrightarrow>
     pass_run env w es v \<and> serves_offers msk served es r served' \<and> length (taken es) \<le> n
   \<and> w' = (if goes_on then v else held_back r v) \<and> left = (if goes_on then r else 0)
   \<and> (goes_on \<or> stops v)
   \<and> (goes_on \<longrightarrow> n = 0 \<and> v = w \<or> dd_child_mask v = 0 \<and> dd_rung v = 0)"

lemma refills_run:
  assumes "child_refills env n msk served w = Some (goes_on, left, served', w')" "msk AND served = 0"
  shows "\<exists>es v r. refills_done env n msk served w goes_on left served' w' es v r"
  using assms
proof (induction n arbitrary: msk served w)
  case 0
  then show ?case
    using apart_bits [OF 0(2)] by (intro exI [of _ "[]"] exI [of _ w] exI [of _ msk]) (auto simp: refills_done_def serves_offers_def pass_nothing)
next
  case (Suc n)
  obtain go served1 w1 where p: "child_pass env msk child_channels msk served w = Some (go, served1, w1)"
    using Suc.prems(1) by (auto simp: bind_eq_Some_conv)
  note apart = apart_bits [OF Suc.prems(2)]
  have "{ch \<in> set child_channels. bit msk (unat ch)} = {ch. is_child_channel ch \<and> bit msk (unat ch)}"
    by (simp add: child_channels_set)
  then obtain cs where pass:
    "pass_drains env {ch. is_child_channel ch \<and> bit msk (unat ch)} msk served w go served1 w1 cs"
    using child_pass_runs [OF p child_channels_distinct] child_channels_set child_channel_unat by auto
  have cs: "set cs \<subseteq> {ch. is_child_channel ch \<and> bit msk (unat ch)}" "distinct cs"
    "bit served1 n \<longleftrightarrow> bit served n \<or> n \<in> unat ` set cs" for n
    using pass by (simp_all add: pass_drains_def)
  define w2 where "w2 = fold_rung_child_doorbells w1"
  define m where "m = dd_child_mask w2 AND NOT served1"
  have m: "bit m k \<longleftrightarrow> bit (dd_child_mask w2) k \<and> \<not> bit served1 k" for k
    by (simp add: m_def bit_and_iff bit_not_iff_eq) (use bit_imp_le_length [of "dd_child_mask w2" k] in auto)
  have r: "(if \<not> go then Some (False, 0, served1, w1)
      else if m = 0 then Some (True, m, served1, w2\<lparr>dd_child_mask := 0\<rparr>)
      else child_refills env n m served1 (w2\<lparr>dd_child_mask := 0\<rparr>)) = Some (goes_on, left, served', w')"
    using Suc.prems(1) by (subst (asm) child_refills.simps) (simp only: p Option.bind.simps prod.case w2_def m_def Let_def)
  have rung: "dd_rung w2 = 0" by (simp add: w2_def fold_rung_child_doorbells_def Let_def)
  note take = pass_take [OF w2_def, of env]
  show ?case
  proof (cases go)
    case False
    with pass obtain v q where v: "pass_run env w (map Drained cs) v" "stops v" "w1 = held_back q v"
      "\<forall>n. bit q n \<longleftrightarrow> bit msk n \<and> n \<notin> unat ` set cs" unfolding pass_drains_def by auto
    have "serves_offers msk served (map Drained cs) q served1"
      using cs apart v(4) drained_map [of cs "[]"]
      by (auto simp: serves_offers_def dest!: iffD2 [OF word_unat_eq_iff])
    then show ?thesis
      using r v False drained_map [of cs "[]"] by (intro exI [of _ "map Drained cs"] exI [of _ v] exI [of _ q]) (auto simp: refills_done_def)
  next
    case go: True
    have on: "is_child_channel ch \<Longrightarrow> bit msk (unat ch) \<Longrightarrow> ch \<in> set cs"
      "pass_run env w1 es v \<Longrightarrow> pass_run env w (map Drained cs @ es) v" for ch es v
      using pass go by (simp_all add: pass_drains_def)
    show ?thesis
    proof (cases "m = 0")
      case True
      have "bit served (unat ch) \<or> ch \<in> set cs" if "bit (dd_child_mask w2) (unat ch)" for ch
        using that m [of "unat ch"] True cs(3) [of "unat ch"] by (simp add: unat_image)
      then have "serves_offers msk served (map Drained cs @ [Taken (dd_child_mask w2)]) 0 served1"
        using cs apart on(1) by (auto simp: serves_offers_def)
      then show ?thesis
        using r go True rung on(2) [OF take [OF pass_nothing]]
        by (intro exI [of _ "map Drained cs @ [Taken (dd_child_mask w2)]"] exI [of _ "w2\<lparr>dd_child_mask := 0\<rparr>"] exI [of _ 0])
          (auto simp: refills_done_def)
    next
      case False
      then have "child_refills env n m served1 (w2\<lparr>dd_child_mask := 0\<rparr>) = Some (goes_on, left, served', w')" using r go by simp
      moreover have "m AND served1 = 0" by (simp add: m_def and.assoc)
      ultimately obtain es v q where
        ih: "refills_done env n m served1 (w2\<lparr>dd_child_mask := 0\<rparr>) goes_on left served' w' es v q"
        using Suc.IH by blast
      then have run: "pass_run env w (map Drained cs @ Taken (dd_child_mask w2) # es) v" and so: "serves_offers m served1 es q served'"
        using on(2) [OF take] by (simp_all add: refills_done_def)
      have "serves_offers msk served (map Drained cs @ Taken (dd_child_mask w2) # es) q served'"
        by (rule serves_offers_pass [OF so cs on(1) apart m])
      then show ?thesis
        using run ih rung
        by (intro exI [of _ "map Drained cs @ Taken (dd_child_mask w2) # es"] exI [of _ v] exI [of _ q])
          (auto simp: refills_done_def)
    qed
  qed
qed

text \<open>
  C10: A pass drains the channels it is offered, each once. Whatever the packets do, the refills of a drain are a
  run: the FIFOs of the channels in a list without repetition are drained one after another, and between them what
  the guest has rung is taken, at most as often as the refills allow. Only a device that stops a pass ends it
  early. Every channel in the set the pass took or in a set it takes later is drained, or it is handed back: in
  the set left over, or among the pending channels of the device after an early end. Only channels offered are
  drained or handed back, and none is both; so when the pass runs to its end, no ring is left to fold and no
  channel pending, and the ring of a channel that was rung again after its drain is gone.
\<close>

theorem refills_serve_or_keep:
  assumes "child_refills env CHILD_DOORBELL_REFILLS msk 0 w = Some (goes_on, left, served, w')"
  shows "\<exists>es v r. pass_run env w es v
    \<and> distinct (drained es) \<and> length (taken es) \<le> CHILD_DOORBELL_REFILLS
    \<and> (\<forall>n. bit served n \<longleftrightarrow> n \<in> unat ` set (drained es))
    \<and> (\<forall>m \<in> insert msk (set (taken es)). \<forall>ch. is_child_channel ch \<and> bit m (unat ch) \<longrightarrow>
         ch \<in> set (drained es) \<or> bit r (unat ch))
    \<and> (\<forall>ch. ch \<in> set (drained es) \<or> bit r (unat ch) \<longrightarrow> (\<exists>m \<in> insert msk (set (taken es)). bit m (unat ch)))
    \<and> (\<forall>ch \<in> set (drained es). is_child_channel ch \<and> \<not> bit r (unat ch))
    \<and> (if goes_on then w' = v \<and> left = r \<and> dd_child_mask v = 0 \<and> dd_rung v = 0
       else w' = held_back r v \<and> left = 0 \<and> stops v)"
proof -
  from refills_run [OF assms] obtain es v r where
    run: "refills_done env CHILD_DOORBELL_REFILLS msk 0 w goes_on left served w' es v r" by auto
  then show ?thesis
    by (intro exI [of _ es] exI [of _ v] exI [of _ r])
      (auto simp: refills_done_def serves_offers_def CHILD_DOORBELL_REFILLS_def)
qed

text \<open>
  Both channels of a pass have been drained when the guest rings channel 1 again: the ring is folded and dropped,
  and the rescue of the poll is what offers the channel again, out of the active channels.
\<close>

theorem refills_serve_or_keep_witness:
  "\<exists>es w'. pass_run noting_env ((idle_device 12 (\<lambda>a. 0))\<lparr>dd_rung := 2\<rparr>) es w'
    \<and> distinct (drained es) \<and> set (drained es) = {1, 2}
    \<and> dd_child_mask w' = 0 \<and> dd_rung w' = 0 \<and> dd_child_mask (snd (publish_stranded_fifos False w')) = 2"
proof -
  have "map_option (\<lambda>(g, l, s, w). (g, l, s, dd_child_mask (snd (publish_stranded_fifos False w))))
      (child_refills noting_env CHILD_DOORBELL_REFILLS 6 0 ((idle_device 12 (\<lambda>a. 0))\<lparr>dd_rung := 2\<rparr>)) = Some (True, 0, 6, 2)"
    by code_simp
  then obtain w' where w': "child_refills noting_env CHILD_DOORBELL_REFILLS 6 0 ((idle_device 12 (\<lambda>a. 0))\<lparr>dd_rung := 2\<rparr>)
      = Some (True, 0, 6, w')" "dd_child_mask (snd (publish_stranded_fifos False w')) = 2"
    by auto
  have six: "bit (6 :: u32) n \<longleftrightarrow> n = 1 \<or> n = 2" for n
  proof -
    have "(6 :: u32) = 2 ^ 1 OR 2 ^ 2" by simp
    then show ?thesis by (simp only: bit_or_iff bit_exp_iff) auto
  qed
  from refills_serve_or_keep [OF w'(1)] obtain es v where es: "distinct (drained es)"
    "\<forall>n. bit (6 :: u32) n \<longleftrightarrow> n \<in> unat ` set (drained es)"
    "pass_run noting_env ((idle_device 12 (\<lambda>a. 0))\<lparr>dd_rung := 2\<rparr>) es v" "w' = v" "dd_child_mask v = 0" "dd_rung v = 0"
    unfolding if_True by (elim exE conjE) (rule that, assumption+)
  have "ch \<in> set (drained es) \<longleftrightarrow> unat ch = 1 \<or> unat ch = 2" for ch
    using es(2) [rule_format, of "unat ch"] six [of "unat ch"] by (simp only: unat_image)
  moreover have "unat ch = 1 \<longleftrightarrow> ch = 1" "unat ch = 2 \<longleftrightarrow> ch = 2" for ch :: u32
    using word_unat_eq_iff [of ch 1] word_unat_eq_iff [of ch 2] by simp_all
  ultimately have "set (drained es) = {1, 2}" by blast
  then show ?thesis using es w'(2) by blast
qed

end
