(* ===== verification/PixelTranslate.thy ===== *)
theory PixelTranslate
  imports PixelTables
begin

text \<open>
  What the two backends make of a guest's pixel format: crates/reims-vgpu/src/backend/vulkan/translate/pixel.rs,
  the engine's storage formats (backend/vulkan/engine/types.rs), the Metal backend's formats
  (backend/metal/format.rs) and the upload rail of runtime/draw/texture_view.rs. The formats of the two host
  APIs are names, which the code only compares. \<open>PixelFormats\<close> holds the tables against the contract's own.
\<close>

section \<open>Vulkan formats\<close>

datatype vk_format =
  VK_R8_UNORM | VK_R8_UINT | VK_R16_UNORM | VK_R16_SFLOAT | VK_R8G8_UNORM | VK_R8G8_UINT |
  VK_R16G16_UNORM | VK_R32_UINT | VK_R32_SINT | VK_R32_SFLOAT | VK_R16G16_SFLOAT | VK_R8G8B8A8_UNORM |
  VK_R8G8B8A8_SRGB | VK_R8G8B8A8_UINT | VK_R8G8B8A8_SINT | VK_B8G8R8A8_UNORM | VK_B8G8R8A8_SRGB |
  VK_E5B9G9R9_UFLOAT_PACK32 | VK_R16G16B16A16_UNORM | VK_R16G16B16A16_UINT | VK_R16G16B16A16_SFLOAT |
  VK_R32G32B32A32_UINT | VK_R32G32B32A32_SFLOAT | VK_D16_UNORM | VK_D32_SFLOAT | VK_S8_UINT |
  VK_D24_UNORM_S8_UINT | VK_D32_SFLOAT_S8_UINT

datatype transfer_function = TfLinear | TfSrgb

record pixel_format =
  pf_vk :: vk_format
  pf_linear_vk :: vk_format
  pf_transfer :: transfer_function
  pf_bytes :: u32
  pf_components :: swizzle_plan

definition pf_is_srgb :: "pixel_format \<Rightarrow> bool" where
  "pf_is_srgb f \<longleftrightarrow> pf_transfer f = TfSrgb"

definition IDENTITY :: swizzle_plan where "IDENTITY = (SwR, SwG, SwB, SwA)"
definition ALPHA_IN_RED :: swizzle_plan where "ALPHA_IN_RED = (SwZero, SwZero, SwZero, SwR)"

definition linear_format :: "vk_format \<Rightarrow> u32 \<Rightarrow> pixel_format" where
  "linear_format vk bytes =
     \<lparr>pf_vk = vk, pf_linear_vk = vk, pf_transfer = TfLinear, pf_bytes = bytes, pf_components = IDENTITY\<rparr>"

definition srgb_format :: "vk_format \<Rightarrow> vk_format \<Rightarrow> u32 \<Rightarrow> pixel_format" where
  "srgb_format vk linear_vk bytes =
     \<lparr>pf_vk = vk, pf_linear_vk = linear_vk, pf_transfer = TfSrgb, pf_bytes = bytes, pf_components = IDENTITY\<rparr>"

text \<open>The reasons this file gives.\<close>

datatype translate_reason =
  UnknownPixelFormat u16 | SrgbDowngraded u16 | NoSampledLayout u16 | NoColorAttachmentFormat u16
| NoStorageImageFormat u16

definition translate :: "u16 \<Rightarrow> translate_reason + pixel_format" where
  "translate format =
     (if format = MTL_FORMAT_A8_UNORM then Inr ((linear_format VK_R8_UNORM 1)\<lparr>pf_components := ALPHA_IN_RED\<rparr>)
      else if format = MTL_FORMAT_R8_UNORM then Inr (linear_format VK_R8_UNORM 1)
      else if format = MTL_FORMAT_R8_UINT then Inr (linear_format VK_R8_UINT 1)
      else if format = MTL_FORMAT_R16_UNORM then Inr (linear_format VK_R16_UNORM 2)
      else if format = MTL_FORMAT_R16_FLOAT then Inr (linear_format VK_R16_SFLOAT 2)
      else if format = MTL_FORMAT_RG8_UNORM then Inr (linear_format VK_R8G8_UNORM 2)
      else if format = MTL_FORMAT_RG8_UINT then Inr (linear_format VK_R8G8_UINT 2)
      else if format = MTL_FORMAT_RG16_UNORM then Inr (linear_format VK_R16G16_UNORM 4)
      else if format = MTL_FORMAT_R32_UINT then Inr (linear_format VK_R32_UINT 4)
      else if format = MTL_FORMAT_R32_SINT then Inr (linear_format VK_R32_SINT 4)
      else if format = MTL_FORMAT_R32_FLOAT then Inr (linear_format VK_R32_SFLOAT 4)
      else if format = MTL_FORMAT_RG16_FLOAT then Inr (linear_format VK_R16G16_SFLOAT 4)
      else if format = MTL_FORMAT_RGBA8_UNORM then Inr (linear_format VK_R8G8B8A8_UNORM 4)
      else if format = MTL_FORMAT_RGBA8_UNORM_SRGB then Inr (srgb_format VK_R8G8B8A8_SRGB VK_R8G8B8A8_UNORM 4)
      else if format = MTL_FORMAT_RGBA8_UINT then Inr (linear_format VK_R8G8B8A8_UINT 4)
      else if format = MTL_FORMAT_RGBA8_SINT then Inr (linear_format VK_R8G8B8A8_SINT 4)
      else if format = MTL_FORMAT_BGRA8_UNORM then Inr (linear_format VK_B8G8R8A8_UNORM 4)
      else if format = MTL_FORMAT_BGRA8_UNORM_SRGB then Inr (srgb_format VK_B8G8R8A8_SRGB VK_B8G8R8A8_UNORM 4)
      else if format = MTL_FORMAT_RGB9E5_FLOAT then Inr (linear_format VK_E5B9G9R9_UFLOAT_PACK32 4)
      else if format = MTL_FORMAT_RGBA16_UNORM then Inr (linear_format VK_R16G16B16A16_UNORM 8)
      else if format = MTL_FORMAT_RGBA16_UINT then Inr (linear_format VK_R16G16B16A16_UINT 8)
      else if format = MTL_FORMAT_RGBA16_FLOAT then Inr (linear_format VK_R16G16B16A16_SFLOAT 8)
      else if format = MTL_FORMAT_RGBA32_UINT then Inr (linear_format VK_R32G32B32A32_UINT 16)
      else if format = MTL_FORMAT_RGBA32_FLOAT then Inr (linear_format VK_R32G32B32A32_SFLOAT 16)
      else if format = MTL_FORMAT_DEPTH16_UNORM then Inr (linear_format VK_D16_UNORM 2)
      else if format = MTL_FORMAT_DEPTH32_FLOAT then Inr (linear_format VK_D32_SFLOAT 4)
      else if format = MTL_FORMAT_STENCIL8 then Inr (linear_format VK_S8_UINT 1)
      else if format = MTL_FORMAT_DEPTH24_UNORM_STENCIL8 then Inr (linear_format VK_D24_UNORM_S8_UINT 4)
      else if format = MTL_FORMAT_DEPTH32_FLOAT_STENCIL8 then Inr (linear_format VK_D32_SFLOAT_S8_UINT 8)
      else if format = MTL_FORMAT_X32_STENCIL8 then Inr (linear_format VK_D32_SFLOAT_S8_UINT 8)
      else if format = MTL_FORMAT_X24_STENCIL8 then Inr (linear_format VK_D24_UNORM_S8_UINT 4)
      else Inl (UnknownPixelFormat format))"

definition srgb_decline :: "pixel_format \<Rightarrow> u16 \<Rightarrow> translate_reason option" where
  "srgb_decline f mtl = (if pf_is_srgb f then Some (SrgbDowngraded mtl) else None)"

definition has_identity_components :: "u16 \<Rightarrow> bool" where
  "has_identity_components mtl \<longleftrightarrow> (case translate mtl of Inl _ \<Rightarrow> False | Inr f \<Rightarrow> pf_components f = IDENTITY)"

section \<open>The sampled and the colour rail\<close>

definition sampled_pixels :: "u16 \<Rightarrow> translate_reason + texel_layout \<times> translate_reason option \<times> swizzle_plan" where
  "sampled_pixels mtl =
     (case translate mtl of
        Inl e \<Rightarrow> Inl e
      | Inr f \<Rightarrow>
          (case (case pf_linear_vk f of
                   VK_R8G8B8A8_UNORM \<Rightarrow> Some Rgba8
                 | VK_B8G8R8A8_UNORM \<Rightarrow> Some Bgra8
                 | VK_R8_UNORM \<Rightarrow> Some R8
                 | VK_R8G8_UNORM \<Rightarrow> Some Rg8
                 | VK_R16_SFLOAT \<Rightarrow> Some R16Float
                 | VK_R32_SFLOAT \<Rightarrow> Some R32Float
                 | VK_R16_UNORM \<Rightarrow> Some R16Unorm
                 | VK_R16G16_UNORM \<Rightarrow> Some Rg16Unorm
                 | VK_R16G16B16A16_UNORM \<Rightarrow> Some Rgba16Unorm
                 | VK_R16G16B16A16_SFLOAT \<Rightarrow> Some Rgba16Float
                 | VK_R16G16_SFLOAT \<Rightarrow> Some Rg16Float
                 | _ \<Rightarrow> None) of
             None \<Rightarrow> Inl (NoSampledLayout mtl)
           | Some layout \<Rightarrow> Inr (layout, srgb_decline f mtl, pf_components f)))"

primrec vk_texel_layout :: "texel_layout \<Rightarrow> vk_format" where
  "vk_texel_layout Rgba8 = VK_R8G8B8A8_UNORM"
| "vk_texel_layout Bgra8 = VK_B8G8R8A8_UNORM"
| "vk_texel_layout R8 = VK_R8_UNORM"
| "vk_texel_layout Rg8 = VK_R8G8_UNORM"
| "vk_texel_layout R16Float = VK_R16_SFLOAT"
| "vk_texel_layout R32Float = VK_R32_SFLOAT"
| "vk_texel_layout R16Unorm = VK_R16_UNORM"
| "vk_texel_layout Rg16Unorm = VK_R16G16_UNORM"
| "vk_texel_layout Rgba16Unorm = VK_R16G16B16A16_UNORM"
| "vk_texel_layout Rgba16Float = VK_R16G16B16A16_SFLOAT"
| "vk_texel_layout Rg16Float = VK_R16G16_SFLOAT"

definition texel_layout_of :: "vk_format \<Rightarrow> texel_layout option" where
  "texel_layout_of format = find (\<lambda>l. vk_texel_layout l = format) layout_ALL"

definition color_attachment :: "u16 \<Rightarrow> translate_reason + vk_format \<times> translate_reason option" where
  "color_attachment mtl =
     (case translate mtl of
        Inl e \<Rightarrow> Inl e
      | Inr f \<Rightarrow>
          if render_target_bpp mtl = None then Inl (NoColorAttachmentFormat mtl)
          else Inr (pf_linear_vk f, srgb_decline f mtl))"

definition vk_bytes_per_texel :: "vk_format \<Rightarrow> u32 option" where
  "vk_bytes_per_texel format =
     (case texel_layout_of format of
        Some layout \<Rightarrow> Some (bytes_per_texel layout)
      | None \<Rightarrow>
          if format = VK_S8_UINT then Some 1
          else if format = VK_D16_UNORM then Some 2
          else if format \<in> {VK_R32_UINT, VK_R32_SINT, VK_R8G8B8A8_SRGB, VK_R8G8B8A8_UINT, VK_R8G8B8A8_SINT,
                            VK_B8G8R8A8_SRGB, VK_E5B9G9R9_UFLOAT_PACK32, VK_D32_SFLOAT, VK_D24_UNORM_S8_UINT}
          then Some 4
          else if format \<in> {VK_R16G16B16A16_UINT, VK_D32_SFLOAT_S8_UINT} then Some 8
          else if format \<in> {VK_R32G32B32A32_UINT, VK_R32G32B32A32_SFLOAT} then Some 16
          else None)"

section \<open>The compute rail\<close>

datatype storage_format =
  ImgRgba32Float | ImgRgba16Float | ImgR16Float | ImgRgba16Uint | ImgRgba8Uint | ImgRgba8Sint |
  ImgRgba8Unorm | ImgBgra8Unorm | ImgRg16Float | ImgR8Unorm | ImgRg8Unorm | ImgRgba32Uint | ImgR32Uint |
  ImgR32Sint | ImgR32Float | ImgRgb9e5Ufloat | ImgR16Unorm | ImgRg16Unorm | ImgRgba16Unorm

primrec vk_storage_image :: "storage_format \<Rightarrow> vk_format" where
  "vk_storage_image ImgRgba32Float = VK_R32G32B32A32_SFLOAT"
| "vk_storage_image ImgRgba16Float = VK_R16G16B16A16_SFLOAT"
| "vk_storage_image ImgR16Float = VK_R16_SFLOAT"
| "vk_storage_image ImgRgba16Uint = VK_R16G16B16A16_UINT"
| "vk_storage_image ImgRgba8Uint = VK_R8G8B8A8_UINT"
| "vk_storage_image ImgRgba8Sint = VK_R8G8B8A8_SINT"
| "vk_storage_image ImgRgba8Unorm = VK_R8G8B8A8_UNORM"
| "vk_storage_image ImgBgra8Unorm = VK_B8G8R8A8_UNORM"
| "vk_storage_image ImgRg16Float = VK_R16G16_SFLOAT"
| "vk_storage_image ImgR8Unorm = VK_R8_UNORM"
| "vk_storage_image ImgRg8Unorm = VK_R8G8_UNORM"
| "vk_storage_image ImgRgba32Uint = VK_R32G32B32A32_UINT"
| "vk_storage_image ImgR32Uint = VK_R32_UINT"
| "vk_storage_image ImgR32Sint = VK_R32_SINT"
| "vk_storage_image ImgR32Float = VK_R32_SFLOAT"
| "vk_storage_image ImgRgb9e5Ufloat = VK_E5B9G9R9_UFLOAT_PACK32"
| "vk_storage_image ImgR16Unorm = VK_R16_UNORM"
| "vk_storage_image ImgRg16Unorm = VK_R16G16_UNORM"
| "vk_storage_image ImgRgba16Unorm = VK_R16G16B16A16_UNORM"

primrec storage_bytes_per_texel :: "storage_format \<Rightarrow> nat" where
  "storage_bytes_per_texel ImgRgba32Float = 16"
| "storage_bytes_per_texel ImgRgba16Float = 8"
| "storage_bytes_per_texel ImgR16Float = 2"
| "storage_bytes_per_texel ImgRgba16Uint = 8"
| "storage_bytes_per_texel ImgRgba8Uint = 4"
| "storage_bytes_per_texel ImgRgba8Sint = 4"
| "storage_bytes_per_texel ImgRgba8Unorm = 4"
| "storage_bytes_per_texel ImgBgra8Unorm = 4"
| "storage_bytes_per_texel ImgRg16Float = 4"
| "storage_bytes_per_texel ImgR8Unorm = 1"
| "storage_bytes_per_texel ImgRg8Unorm = 2"
| "storage_bytes_per_texel ImgRgba32Uint = 16"
| "storage_bytes_per_texel ImgR32Uint = 4"
| "storage_bytes_per_texel ImgR32Sint = 4"
| "storage_bytes_per_texel ImgR32Float = 4"
| "storage_bytes_per_texel ImgRgb9e5Ufloat = 4"
| "storage_bytes_per_texel ImgR16Unorm = 2"
| "storage_bytes_per_texel ImgRg16Unorm = 4"
| "storage_bytes_per_texel ImgRgba16Unorm = 8"

primrec storage_image_from_selector :: "storage_image_selector \<Rightarrow> storage_format" where
  "storage_image_from_selector SelRgba8Uint = ImgRgba8Uint"
| "storage_image_from_selector SelRgba8Sint = ImgRgba8Sint"
| "storage_image_from_selector SelRgba16Uint = ImgRgba16Uint"
| "storage_image_from_selector SelRgba16Float = ImgRgba16Float"
| "storage_image_from_selector SelRgba32Float = ImgRgba32Float"
| "storage_image_from_selector SelRgba8Unorm = ImgRgba8Unorm"
| "storage_image_from_selector SelBgra8Unorm = ImgBgra8Unorm"
| "storage_image_from_selector SelR16Float = ImgR16Float"
| "storage_image_from_selector SelRg16Float = ImgRg16Float"
| "storage_image_from_selector SelR8Unorm = ImgR8Unorm"
| "storage_image_from_selector SelRg8Unorm = ImgRg8Unorm"
| "storage_image_from_selector SelRgba32Uint = ImgRgba32Uint"
| "storage_image_from_selector SelR32Uint = ImgR32Uint"

definition storage_image :: "u16 \<Rightarrow> translate_reason + storage_format" where
  "storage_image mtl =
     (case translate mtl of
        Inl e \<Rightarrow> Inl e
      | Inr _ \<Rightarrow>
          if mtl = MTL_FORMAT_R32_UINT then Inr ImgR32Uint
          else if mtl = MTL_FORMAT_R32_SINT then Inr ImgR32Sint
          else if mtl = MTL_FORMAT_R32_FLOAT then Inr ImgR32Float
          else if mtl = MTL_FORMAT_RGB9E5_FLOAT then Inr ImgRgb9e5Ufloat
          else (case storage_selector mtl of
                  None \<Rightarrow> Inl (NoStorageImageFormat mtl)
                | Some selector \<Rightarrow> Inr (storage_image_from_selector selector)))"

definition sampled_image :: "u16 \<Rightarrow> translate_reason + storage_format" where
  "sampled_image mtl =
     (case (if mtl = MTL_FORMAT_R16_UNORM then Some ImgR16Unorm
            else if mtl = MTL_FORMAT_RG16_UNORM then Some ImgRg16Unorm
            else if mtl = MTL_FORMAT_RGBA16_UNORM then Some ImgRgba16Unorm
            else None) of
        None \<Rightarrow> storage_image mtl
      | Some sampled_only \<Rightarrow> (case translate mtl of Inl e \<Rightarrow> Inl e | Inr _ \<Rightarrow> Inr sampled_only))"

section \<open>The Metal backend\<close>

datatype mtl_pixel_format =
  MtlRGBA8Uint | MtlRGBA8Sint | MtlRGBA16Uint | MtlRGBA16Float | MtlRGBA32Float | MtlRGBA8Unorm |
  MtlBGRA8Unorm | MtlR16Float | MtlRG16Float | MtlR8Unorm | MtlRG8Unorm | MtlRGBA32Uint | MtlR32Uint

primrec storage_image_format :: "storage_image_selector \<Rightarrow> mtl_pixel_format \<times> nat" where
  "storage_image_format SelRgba8Uint = (MtlRGBA8Uint, 4)"
| "storage_image_format SelRgba8Sint = (MtlRGBA8Sint, 4)"
| "storage_image_format SelRgba16Uint = (MtlRGBA16Uint, 8)"
| "storage_image_format SelRgba16Float = (MtlRGBA16Float, 8)"
| "storage_image_format SelRgba32Float = (MtlRGBA32Float, 16)"
| "storage_image_format SelRgba8Unorm = (MtlRGBA8Unorm, 4)"
| "storage_image_format SelBgra8Unorm = (MtlBGRA8Unorm, 4)"
| "storage_image_format SelR16Float = (MtlR16Float, 2)"
| "storage_image_format SelRg16Float = (MtlRG16Float, 4)"
| "storage_image_format SelR8Unorm = (MtlR8Unorm, 1)"
| "storage_image_format SelRg8Unorm = (MtlRG8Unorm, 2)"
| "storage_image_format SelRgba32Uint = (MtlRGBA32Uint, 16)"
| "storage_image_format SelR32Uint = (MtlR32Uint, 4)"

definition mtl_pixel_format_bpp :: "u32 \<Rightarrow> nat option" where
  "mtl_pixel_format_bpp format =
     (if unat format < 2 ^ 16 then map_option unat (bytes_per_pixel (ucast format)) else None)"

section \<open>The upload rail\<close>

text \<open>The downgrade census of an sRGB format is left out.\<close>

definition linear_native_upload_format :: "u16 \<Rightarrow> bool \<Rightarrow> texel_layout option" where
  "linear_native_upload_format sample_format native_bgra8 =
     (case sampled_class_of sample_format of
        Some ClassRgba8Unorm \<Rightarrow> Some Rgba8
      | Some ClassBgra8Unorm \<Rightarrow> if native_bgra8 then Some Bgra8 else None
      | _ \<Rightarrow> None)"

end
