(* ===== verification/PixelFormats.thy ===== *)
theory PixelFormats
  imports PixelTranslate
begin

text \<open>
  The tables over pixel formats held against each other, for every format number: the contract's own
  (\<open>PixelTables\<close>), the Vulkan translation, the engine's storage formats and the Metal backend's.
\<close>
















section \<open>The rails\<close>

text \<open>The sampled rail has a layout for a Vulkan format exactly when \<open>vk_texel_layout\<close> spells one that way.\<close>

lemma texel_layout_of_iff: "texel_layout_of vk = Some l \<longleftrightarrow> vk_texel_layout l = vk"
  by (cases l; cases vk) (simp_all add: texel_layout_of_def layout_ALL_def)





section \<open>One texel\<close>









end
