(* ===== verification/Spec2Isabelle.thy ===== *)
theory Spec2Isabelle
  imports Coverage TableSpec SpanBytes Runs Regions OpStream SlabSafety DepthStencil SyncFacts MemoFacts BufferSafety BlitFacts ComputeFacts Type4Facts ValidityFacts MappingCopy PassFacts PixelFormats
begin

text \<open>
  A verification development of the paravirtual GPU device under src/crates. The device sits between a
  guest driver, which writes page tables, command streams and descriptors into guest memory, and a host
  graphics API. It has to read everything the guest wrote without trusting it, keep track of which guest
  pages belong to which surface, and hand out host memory without handing it out twice. The development
  models those parts as Isabelle definitions translated from the Rust source and proves what they promise.

  \<^bold>\<open>Conventions.\<close> Machine integers are words of the code's width (u8 to u64); \<open>usize\<close> values that index
  slices are \<open>nat\<close>, and a computation on one that can wrap in the code is written on \<open>u64\<close>. A struct is a
  record, an enum a datatype. A function that returns \<open>Option\<close> or \<open>Result\<close> returns an option or a sum; code
  that can panic (a slice or index out of range, an overflow in a debug build where the model keeps it)
  returns the type \<open>outcome\<close> of the prelude, whose values are a result, an error or a panic. A \<open>BTreeMap\<close> is
  the sorted list of its entries (OrderedMap). A closure that a walker calls is a function on an explicit
  state, which returns whether to go on. State is passed explicitly; a loop is structural recursion on its
  remaining count, so no fuel is needed; the loops of the FIFO drain, which run handlers that need not
  return, are \<open>partial_function (option)\<close>, and what they return is proved as \<open>Some\<close>. Log lines, counters and timers that
  decide nothing are left out.

  \<^bold>\<open>Guest memory and page tables\<close> (crates/reims-vgpu-wire/src/mem.rs and page_table.rs,
  crates/reims-vgpu-paging/src). \<open>GuestMem\<close> holds the memory seam as the locale \<open>guest_memory\<close>, with the laws
  the trait documents, interpreted on the slice memory of the source. \<open>PageTable\<close> is the geometry, the single
  descent \<open>walk\<close> and the cached batched \<open>walk_run\<close>; \<open>GeometryFacts\<close> and \<open>WalkRun\<close> prove the batched form shows
  a visitor what single walks show it. \<open>Resolve\<close>, \<open>Coverage\<close>, \<open>TableSpec\<close> add the task directory, the coverage
  count, and the abstract specification: a chain of present entries, which \<open>walk\<close> refines. \<open>Span\<close>,
  \<open>SpanFacts\<close>, \<open>SpanCorrect\<close>, \<open>SpanBytes\<close> are the byte-span walkers and their bytewise meaning; \<open>Runs\<close> and
  \<open>Regions\<close> cut page lists into contiguous runs and byte ranges into image rectangles.

  \<^bold>\<open>Command streams\<close> (runtime/decode, crates/reims-vgpu-wire/src/op.rs and ops). \<open>Stream\<close>, \<open>StreamFacts\<close> frame
  a command segment into records; \<open>OpStream\<close>, \<open>WireFields\<close>, \<open>WireLists\<close> are the wire crate's views, and the two
  framers are proved to agree. \<open>BlitWire\<close>, \<open>BlitDecode\<close>, \<open>BlitFacts\<close> and \<open>ComputeWire\<close>, \<open>ComputeDecode\<close>,
  \<open>ComputeFacts\<close> are the blit and compute encoders' records and the decoders, with the theorem that a decoder
  accepts exactly what the encoder lays out.

  \<^bold>\<open>Surfaces\<close> (model/state.rs, contract/iosurface_pages.rs, runtime/mapper/mod.rs, runtime/host_writes.rs,
  runtime/objects/mod.rs). \<open>IosurfacePages\<close> decodes the guest's surface records and builds a page list from the
  guest kernel's own table. \<open>HostWrites\<close> is the record of the pages the device wrote. \<open>Surfaces\<close> is the
  registry: a mapping holds a page list, the generation that names it, the condemned list a pending delete
  leaves, and two host objects (a contiguous view and a guest-write token). \<open>Type4\<close> and \<open>Type4Facts\<close> decode
  a type-4 descriptor and build the device descriptor from it. \<open>Mapper\<close> and \<open>MapperViews\<close> are the operations
  that fill, check and drop page lists and make and release host objects. The host is a record of the
  answers it gives, each a function of the log of calls made so far, so that a theorem over all hosts covers
  a host that changes its mind. \<open>SurfaceEvolution\<close> proves operation by operation how far a generation moves;
  \<open>SurfaceRuns\<close> closes this under runs of arbitrary operations (the step relation \<open>surface_step\<close>) interleaved
  with a guest and a host that change anything they own, and proves that a generation names the page list and
  that a vouched list stays the walked one; \<open>HostObjects\<close> and \<open>SurfaceHost\<close> balance the log against a multiset
  of held objects and prove that every view and token is given back once and that a clean guest-write verdict
  is about the pages the mapping has. What every operation keeps of a mapping is the locale
  \<open>registry_relation\<close>: a reflexive and transitive relation on registries that the writers of an entry keep;
  it is interpreted once for the balance of host objects and once for the validity stamps. Generations are 32-bit counters that skip zero: the theorems hold for
  runs in which 8 times the number of operations (8 bounds the bumps of one operation) stays below 2^32 - 1,
  and no longer, since the counter then names another list. \<open>HostRelation\<close> is the interface \<open>host_relation\<close>
  of the operations that call the host; it is interpreted on the balance of objects, on the validity stamps
  and, in \<open>ViewPages\<close>, on the soundness of views: a view shows the present list of its mapping.
  \<open>MappingCopy\<close> is the copy of bytes through a mapping, proved equal to moving the selected bytes one by one
  whichever way the pages are reached. Guest memory is a function there; what a host pointer shows is a
  parameter, with the documented contract of \<open>map_pages\<close> as the hypothesis \<open>shows_guest_ram\<close>; the deferred
  writeback landed before a copy is a parameter of its two callers.

  \<^bold>\<open>Resource validity\<close> (runtime/decode/fifo.rs, runtime/resource_validity.rs, runtime/buffer_write_gen.rs).
  \<open>Fifo\<close> decodes the resource lists of a FIFO packet and proves each decoder accepts exactly the payloads that
  lay out its records. \<open>Validity\<close> applies the guest's statements about who holds the current bytes of a
  resource; \<open>ValidityFacts\<close> runs them together with every operation on surfaces and proves that the sequence
  numbers stamped on a mapping order its last claim and its last publication as the history does, so that a
  write-back is licensed exactly when the device published last. The stamps are 64-bit: the theorem holds
  while the history has fewer than 2^64 - 2 events. The write generations of buffers are proved exact up to
  the retirement of a task, across which they are not (a finding).

  \<^bold>\<open>FIFO rings and drain\<close> (runtime/drain/mod.rs, model/regs.rs, runtime/gpa_map.rs).
  \<open>RingPackets\<close> reads the two kinds of ring (the root ring is one run of guest bytes, a child ring a table of
  page numbers), frames packets and compares stamps; \<open>RingFacts\<close> proves the readers agree on a ring laid out
  as one run, and that they part when a span reaches the wrap; \<open>StampFacts\<close> proves the packet decoder accepts
  exactly the encoded packets and that a coalesced stamp answers what every stamp it replaces would.
  \<open>Drain\<close> is the drain of the root FIFO and of a child FIFO, the stamps written back, the pass over the
  channels in \<open>drain_other_child_fifos\<close>, its refills from rung doorbells and the retry of stamp-held
  timelines. What a packet does and the graphics engine are the record \<open>drain_env\<close>, an argument of every
  operation. \<open>DrainFacts\<close> states the loop once in the locale \<open>fifo_rail\<close>: a step that takes the head packet off
  a queue and leaves the rest queued serves the whole queue, in order, and returns. It is interpreted as
  \<open>root_rail\<close> and \<open>child_rail\<close>, for handlers that leave the ring and its registers alone. \<open>PassFacts\<close>
  proves that the refills of a drain are a run of drains (the relation \<open>pass_run\<close>): every channel offered is
  drained once or handed back, and the ring of a channel already served in the same drain is lost (a finding).
  \<open>DrainRuns\<close> evaluates the drains on rings that hold two packets.

  \<^bold>\<open>Device memory\<close> (backend/vulkan/engine/slab.rs, buffer_slab.rs). \<open>BlockPlan\<close> is the free list of a block,
  \<open>Suballoc\<close>, \<open>SlabPool\<close>, \<open>SlabSafety\<close> the pool of image blocks, \<open>BufferSlab\<close>, \<open>BufferSafety\<close> the buffer pools,
  with the invariant over all operation sequences that no byte has two owners. The driver is a parameter: its
  answers are arguments, its allocations and frees are events.

  \<^bold>\<open>Pixels\<close> (contract/pixel_format.rs, backend/vulkan/translate/pixel.rs, backend/metal/format.rs). \<open>PixelTables\<close>, \<open>Half\<close>, \<open>HalfFacts\<close>, \<open>Texels\<close>, \<open>TexelFacts\<close>, \<open>TexelSafety\<close>,
  \<open>DepthStencil\<close>: the format tables, the half-float conversions, the texel converters and the planes of packed
  depth-stencil texels. \<open>PixelTranslate\<close> is the translation of a format for the two host APIs and \<open>PixelFormats\<close> holds
  all tables against each other, for every format number. Single-precision numbers are their bit patterns and exact rationals.

  \<^bold>\<open>Synchronisation and caches\<close> (runtime/plan/event_sync.rs, runtime/fence_exec.rs, runtime/decode/event.rs,
  model/lru_memo.rs). \<open>Sync\<close>, \<open>SyncFacts\<close>: events and fences against the history of signals. \<open>Memo\<close>,
  \<open>MemoFacts\<close>: the byte-bounded memo against a finite map, its bound and its eviction order.

  \<^bold>\<open>Library.\<close> \<open>Machine\<close> is the prelude (words, byte lists, little-endian codings, \<open>outcome\<close>), \<open>OrderedMap\<close> the
  sorted association list. The locales are interpreted on the model in the theories that provide them.

  \<^bold>\<open>Not modelled.\<close> The Vulkan and Metal engines and the executors over them (runtime/draw, runtime/exec,
  runtime/compute_exec, runtime/blit_exec, runtime/icb): they are sequences of calls into drivers, whose code
  is outside the repository. What the drain's packet handlers do beyond the delete packet and the
  resource lists, the register file and its interrupts, the render and resource decoders, the
  residency and texture caches, the write-back ledgers, the C
  ABI to the hypervisor, and all logging. The parts of \<open>DeviceState\<close> they own are absent from \<open>surfaces\<close>;
  the step \<open>elsewhere\<close> lets them change anything but the mappings, the retired lists and the page size.
\<close>

end
